(* ===== verification/Prelude.thy ===== *)
theory Prelude
  imports
    Main
    "HOL-Library.AList"
    "HOL-Library.Char_ord"
    "HOL-Library.List_Lexorder"
    "HOL-Library.Product_Lexorder"
    "HOL-Library.Multiset"
    "HOL-Library.Signed_Division"
begin

text \<open>
  The parts of TypeScript and its standard library that every component of the development shares:
  thrown errors as values of a sum type, \<open>bigint\<close> division, ASCII case folding and string order,
  the stable \<open>Array.sort\<close> with a comparator, the insertion-ordered \<open>Map\<close>, and
  \<open>bigint.toString\<close>.  Each group comes with the lemmas the component theories rest on.
\<close>

named_theorems result_simps \<open>rewriting of the error-or-value results\<close>
named_theorems jmap_simps \<open>rewriting of insertion-ordered maps\<close>

section \<open>Errors as values\<close>

text \<open>
  A \<open>throw\<close> is an \<open>Inl\<close>.  \<open>AppError\<close> carries the class of an application error
  (\<open>CompositionPreviewError\<close>) and its message; \<open>ExternalError\<close> is an exception raised inside a
  third-party function, whose message the model leaves open.
\<close>

datatype js_error =
    RangeError string
  | PlainError string
  | AppError string string
  | ExternalError string

type_synonym 'a result = "js_error + 'a"

fun bindE :: "'e + 'a \<Rightarrow> ('a \<Rightarrow> 'e + 'b) \<Rightarrow> 'e + 'b" where
  "bindE (Inl e) f = Inl e"
| "bindE (Inr x) f = f x"

text \<open>\<open>throwWhen c e\<close> is the statement \<open>if (c) throw e\<close>.\<close>

definition throwWhen :: "bool \<Rightarrow> 'e \<Rightarrow> 'e + unit" where
  "throwWhen c e = (if c then Inl e else Inr ())"

text \<open>\<open>xs.map(f)\<close> and a \<open>for .. of\<close> loop over a state, when the body may throw.\<close>

fun mapE :: "('a \<Rightarrow> 'e + 'b) \<Rightarrow> 'a list \<Rightarrow> 'e + 'b list" where
  "mapE f [] = Inr []"
| "mapE f (x # xs) = bindE (f x) (\<lambda>y. bindE (mapE f xs) (\<lambda>ys. Inr (y # ys)))"

fun foldE :: "('s \<Rightarrow> 'a \<Rightarrow> 'e + 's) \<Rightarrow> 's \<Rightarrow> 'a list \<Rightarrow> 'e + 's" where
  "foldE f s [] = Inr s"
| "foldE f s (x # xs) = bindE (f s x) (\<lambda>s'. foldE f s' xs)"

lemma bindE_cong [fundef_cong]:
  "m = m' \<Longrightarrow> (\<And>x. m' = Inr x \<Longrightarrow> f x = g x) \<Longrightarrow> bindE m f = bindE m' g"
  by (cases m') auto

lemma mapE_cong [fundef_cong]:
  "xs = ys \<Longrightarrow> (\<And>x. x \<in> set ys \<Longrightarrow> f x = g x) \<Longrightarrow> mapE f xs = mapE g ys"
  by (induction ys arbitrary: xs) auto

lemma bindE_Inr_conv [result_simps]: "bindE m f = Inr y \<longleftrightarrow> (\<exists>x. m = Inr x \<and> f x = Inr y)"
  by (cases m) auto

lemma bindE_Inl_conv: "bindE m f = Inl e \<longleftrightarrow> m = Inl e \<or> (\<exists>x. m = Inr x \<and> f x = Inl e)"
  by (cases m) auto

lemma bindE_InrE [elim!]:
  assumes "bindE m f = Inr y"
  obtains x where "m = Inr x" and "f x = Inr y"
  using assms by (cases m) auto

lemma bindE_assoc: "bindE (bindE m f) g = bindE m (\<lambda>x. bindE (f x) g)"
  by (cases m) auto

lemma throwWhen_Inr [result_simps, simp]: "throwWhen c e = Inr u \<longleftrightarrow> \<not> c"
  by (simp add: throwWhen_def)

lemma throwWhen_Inl [simp]: "throwWhen c e = Inl e' \<longleftrightarrow> c \<and> e' = e"
  by (auto simp add: throwWhen_def)

lemma throwWhen_False [simp]: "throwWhen False e = Inr ()"
  by (simp add: throwWhen_def)

lemma throwWhen_True [simp]: "throwWhen True e = Inl e"
  by (simp add: throwWhen_def)

lemma mapE_Inr_conv: "mapE f xs = Inr ys \<longleftrightarrow> list_all2 (\<lambda>x y. f x = Inr y) xs ys"
  by (induction xs arbitrary: ys) (auto simp: result_simps list_all2_Cons1)

lemma mapE_length: "mapE f xs = Inr ys \<Longrightarrow> length ys = length xs"
  by (metis list_all2_lengthD mapE_Inr_conv)

lemma mapE_nth: "mapE f xs = Inr ys \<Longrightarrow> i < length xs \<Longrightarrow> f (xs ! i) = Inr (ys ! i)"
  by (simp add: mapE_Inr_conv list_all2_conv_all_nth)

lemma mapE_total: "(\<And>x. x \<in> set xs \<Longrightarrow> f x = Inr (g x)) \<Longrightarrow> mapE f xs = Inr (map g xs)"
  by (induction xs) auto

lemma mapE_map: "mapE f xs = Inr ys \<Longrightarrow> (\<And>x y. f x = Inr y \<Longrightarrow> h y = k x) \<Longrightarrow> map h ys = map k xs"
  by (induction xs arbitrary: ys) auto

lemma mapE_setE:
  assumes "mapE f xs = Inr ys" and "y \<in> set ys"
  obtains x where "x \<in> set xs" and "f x = Inr y"
  using assms by (metis in_set_conv_nth mapE_length mapE_nth)

lemma mapE_all_ok: "mapE f xs = Inr ys \<Longrightarrow> x \<in> set xs \<Longrightarrow> \<exists>y. f x = Inr y \<and> y \<in> set ys"
  by (metis in_set_conv_nth mapE_length mapE_nth)

lemma mapE_ok_iff: "(\<exists>ys. mapE f xs = Inr ys) \<longleftrightarrow> (\<forall>x \<in> set xs. \<exists>y. f x = Inr y)"
proof (induction xs)
  case (Cons x xs)
  then show ?case by (cases "f x"; cases "mapE f xs") auto
qed simp

text \<open>The Hoare rule for a throwing loop: an invariant kept by every returning iteration.\<close>

lemma foldE_invariant:
  assumes "foldE f s xs = Inr s'" and "P s"
    and "\<And>s x t. x \<in> set xs \<Longrightarrow> P s \<Longrightarrow> f s x = Inr t \<Longrightarrow> P t"
  shows "P s'"
  using assms by (induction xs arbitrary: s) auto

lemma foldE_append: "foldE f s (xs @ ys) = bindE (foldE f s xs) (\<lambda>t. foldE f t ys)"
  by (induction xs arbitrary: s) (auto simp: bindE_assoc)

lemma foldE_total:
  "(\<And>s x. x \<in> set xs \<Longrightarrow> f s x = Inr (g s x)) \<Longrightarrow> foldE f s xs = Inr (foldl g s xs)"
  by (induction xs arbitrary: s) auto

section \<open>Integer arithmetic of \<open>bigint\<close>\<close>

text \<open>
  \<open>bigint\<close> values are unbounded; \<open>/\<close> truncates towards zero, \<open>%\<close> takes the sign of the
  dividend, and both raise a \<open>RangeError\<close> on a zero divisor.
\<close>

definition bigDiv :: "int \<Rightarrow> int \<Rightarrow> int result" where
  "bigDiv a b = (if b = 0 then Inl (RangeError ''Division by zero'') else Inr (a sdiv b))"

definition bigMod :: "int \<Rightarrow> int \<Rightarrow> int result" where
  "bigMod a b = (if b = 0 then Inl (RangeError ''Division by zero'') else Inr (a smod b))"

lemma sdiv_nonneg [simp]: "0 \<le> a \<Longrightarrow> 0 < b \<Longrightarrow> (a::int) sdiv b = a div b"
  by (cases "a = 0") (auto simp: signed_divide_int_def)

lemma smod_nonneg [simp]: "0 \<le> a \<Longrightarrow> 0 < b \<Longrightarrow> (a::int) smod b = a mod b"
  using minus_sdiv_mult_eq_smod [of a b] by (simp add: minus_div_mult_eq_mod)

lemma bigDiv_pos [simp]: "0 \<le> a \<Longrightarrow> 0 < b \<Longrightarrow> bigDiv a b = Inr (a div b)"
  by (simp add: bigDiv_def)

lemma bigMod_pos [simp]: "0 \<le> a \<Longrightarrow> 0 < b \<Longrightarrow> bigMod a b = Inr (a mod b)"
  by (simp add: bigMod_def)

text \<open>The ternary \<open>x < y ? -1 : x > y ? 1 : 0\<close> and \<open>a || b\<close> on numbers.\<close>

definition cmpLin :: "'a::linorder \<Rightarrow> 'a \<Rightarrow> int" where
  "cmpLin x y = (if x < y then -1 else if x > y then 1 else 0)"

definition orElse :: "int \<Rightarrow> int \<Rightarrow> int" where
  "orElse a b = (if a \<noteq> 0 then a else b)"

lemma cmpLin_signs [simp]:
  "cmpLin x y = 0 \<longleftrightarrow> x = y" "cmpLin x y \<le> 0 \<longleftrightarrow> x \<le> y" "cmpLin x y < 0 \<longleftrightarrow> x < y"
  "cmpLin x y > 0 \<longleftrightarrow> x > y" "cmpLin x y \<ge> 0 \<longleftrightarrow> x \<ge> y"
  by (auto simp: cmpLin_def)

lemma orElse_lex:
  "orElse (cmpLin (a::'a::linorder) b) (cmpLin (c::'b::linorder) d) \<le> 0 \<longleftrightarrow> (a, c) \<le> (b, d)"
  by (auto simp: orElse_def cmpLin_def less_eq_prod_def)

section \<open>Strings\<close>

text \<open>
  \<open>Hex\<close> values (addresses, words, byte strings) are strings \<open>0x...\<close>, as in the source.
  \<open>toLowerCase\<close> is modelled on ASCII, which is all a hex string holds.
\<close>

type_synonym hex = string

definition lowerChar :: "char \<Rightarrow> char" where
  "lowerChar c =
     (let n = (of_char c :: nat) in if 65 \<le> n \<and> n \<le> 90 then char_of (n + 32) else c)"

definition toLowerCase :: "string \<Rightarrow> string" where
  "toLowerCase = map lowerChar"

lemma lowerChar_idem [simp]: "lowerChar (lowerChar c) = lowerChar c"
  by (auto simp: lowerChar_def Let_def)

lemma toLowerCase_idem [simp]: "toLowerCase (toLowerCase s) = toLowerCase s"
  by (simp add: toLowerCase_def)

lemma length_toLowerCase [simp]: "length (toLowerCase s) = length s"
  by (simp add: toLowerCase_def)

text \<open>A string with no upper-case letter, the form \<open>toLowerCase\<close> returns.\<close>

definition canonical :: "string \<Rightarrow> bool" where
  "canonical s \<longleftrightarrow> toLowerCase s = s"

lemma canonical_lower [simp]: "canonical (toLowerCase s)"
  by (simp add: canonical_def)

lemma canonicalD: "canonical s \<Longrightarrow> toLowerCase s = s"
  by (simp add: canonical_def)

text \<open>\<open>bigint.toString()\<close>: decimal digits, most significant first, with a sign.\<close>

definition digitChar :: "nat \<Rightarrow> char" where
  "digitChar d = char_of (48 + d)"

fun natDigits :: "nat \<Rightarrow> string" where
  "natDigits n = (if n < 10 then [digitChar n] else natDigits (n div 10) @ [digitChar (n mod 10)])"

declare natDigits.simps [simp del]

definition bigToString :: "int \<Rightarrow> string" where
  "bigToString x = (if x < 0 then ''-'' @ natDigits (nat (- x)) else natDigits (nat x))"

definition digitVal :: "char \<Rightarrow> nat" where
  "digitVal c = of_char c - 48"

definition isDigit :: "char \<Rightarrow> bool" where
  "isDigit c \<longleftrightarrow> 48 \<le> (of_char c :: nat) \<and> (of_char c :: nat) \<le> 57"

text \<open>\<open>BigInt(s)\<close> on a string of decimal digits.\<close>

definition digitsVal :: "string \<Rightarrow> nat" where
  "digitsVal = foldl (\<lambda>v c. 10 * v + digitVal c) 0"

lemma digit_roundtrip [simp]: "d < 10 \<Longrightarrow> digitVal (digitChar d) = d"
  by (simp add: digitVal_def digitChar_def)

lemma isDigit_digitChar [simp]: "d < 10 \<Longrightarrow> isDigit (digitChar d)"
  by (simp add: isDigit_def digitChar_def)

lemma natDigits_digits: "c \<in> set (natDigits n) \<Longrightarrow> isDigit c"
proof (induction n rule: natDigits.induct)
  case (1 n)
  then show ?case by (subst (asm) (2) natDigits.simps) (auto split: if_splits)
qed

lemma natDigits_nonempty [simp]: "natDigits n \<noteq> []"
  by (subst natDigits.simps) simp

lemma natDigits_roundtrip [simp]: "digitsVal (natDigits n) = n"
proof (induction n rule: natDigits.induct)
  case (1 n)
  show ?case
  proof (cases "n < 10")
    case True
    then show ?thesis by (subst natDigits.simps) (simp add: digitsVal_def)
  next
    case False
    then have "digitsVal (natDigits n) = 10 * digitsVal (natDigits (n div 10)) + n mod 10"
      by (subst natDigits.simps) (simp add: digitsVal_def)
    with 1 False show ?thesis by simp
  qed
qed

lemma natDigits_inj: "natDigits m = natDigits n \<Longrightarrow> m = n"
  by (metis natDigits_roundtrip)

section \<open>\<open>Array.sort\<close> with a comparator\<close>

text \<open>
  The language fixes the result of a stable sort for a consistent comparator; insertion is one way
  to compute it.  A comparator of the program orders its arguments by a key in a linear order, and
  that law is the interface \<open>keyed_comparator\<close>: every component proves it for its own comparator
  and gets the library's \<open>sort_key\<close>.
\<close>

fun insertBy :: "('a \<Rightarrow> 'a \<Rightarrow> int) \<Rightarrow> 'a \<Rightarrow> 'a list \<Rightarrow> 'a list" where
  "insertBy c x [] = [x]"
| "insertBy c x (y # ys) = (if c x y \<le> 0 then x # y # ys else y # insertBy c x ys)"

fun sortBy :: "('a \<Rightarrow> 'a \<Rightarrow> int) \<Rightarrow> 'a list \<Rightarrow> 'a list" where
  "sortBy c [] = []"
| "sortBy c (x # xs) = insertBy c x (sortBy c xs)"

lemma mset_insertBy [simp]: "mset (insertBy c x xs) = add_mset x (mset xs)"
  by (induction xs) auto

lemma mset_sortBy [simp]: "mset (sortBy c xs) = mset xs"
  by (induction xs) auto

lemma set_sortBy [simp]: "set (sortBy c xs) = set xs"
  by (metis mset_sortBy set_mset_mset)

lemma length_sortBy [simp]: "length (sortBy c xs) = length xs"
  by (metis mset_sortBy size_mset)

lemma distinct_sortBy [simp]: "distinct (sortBy c xs) = distinct xs"
  by (metis mset_sortBy mset_eq_imp_distinct_iff)

lemma sortBy_Nil_iff [simp]: "sortBy c xs = [] \<longleftrightarrow> xs = []"
  by (metis length_0_conv length_sortBy)

lemma mset_map_sortBy [simp]: "mset (map f (sortBy c xs)) = mset (map f xs)"
  by (metis mset_map mset_sortBy)

lemma distinct_map_sortBy [simp]: "distinct (map f (sortBy c xs)) = distinct (map f xs)"
  by (metis mset_eq_imp_distinct_iff mset_map_sortBy)

lemma sum_list_sortBy [simp]:
  "sum_list (map f (sortBy c xs)) = (sum_list (map f xs) :: 'b::comm_monoid_add)"
  by (metis mset_map_sortBy sum_mset_sum_list)

locale keyed_comparator =
  fixes cmp :: "'a \<Rightarrow> 'a \<Rightarrow> int" and key :: "'a \<Rightarrow> 'k::linorder"
  assumes cmp_le: "cmp a b \<le> 0 \<longleftrightarrow> key a \<le> key b"
begin

lemma insertBy_key: "insertBy cmp x xs = insort_key key x xs"
  by (induction xs) (auto simp: cmp_le)

lemma sortBy_key: "sortBy cmp xs = sort_key key xs"
  by (induction xs) (auto simp: insertBy_key)

lemma sortBy_sorted: "sorted (map key (sortBy cmp xs))"
  by (simp add: sortBy_key)

lemma sortBy_strict: "distinct (map key xs) \<Longrightarrow> sorted_wrt (<) (map key (sortBy cmp xs))"
  by (metis distinct_map_sortBy sortBy_sorted strict_sorted_iff)

lemma sortBy_stable: "filter (\<lambda>y. key y = k) (sortBy cmp xs) = filter (\<lambda>y. key y = k) xs"
  by (simp add: sortBy_key sort_key_stable)

lemma sortBy_idem: "sorted (map key xs) \<Longrightarrow> sortBy cmp xs = xs"
  unfolding sortBy_key by (rule sort_key_id_if_sorted)

lemma sortBy_unique:
  "inj_on key (set xs) \<Longrightarrow> mset ys = mset xs \<Longrightarrow> sortBy cmp ys = sortBy cmp xs"
  unfolding sortBy_key by (metis properties_for_sort_key mset_sort sorted_sort_key
      set_mset_mset sort_key_inj_key_eq)

end

interpretation lin: keyed_comparator cmpLin id
  by unfold_locales auto

section \<open>Insertion-ordered maps\<close>

text \<open>
  A \<open>Map\<close> is the list of its entries in insertion order with distinct keys: \<open>set\<close> replaces the
  value of a present key in place and appends a new one, \<open>delete\<close> removes the entry.  A
  \<open>Set\<close> is the list of its distinct members.
\<close>

type_synonym ('k, 'v) jmap = "('k \<times> 'v) list"

abbreviation jget :: "('k, 'v) jmap \<Rightarrow> 'k \<Rightarrow> 'v option" where
  "jget \<equiv> map_of"

abbreviation jset :: "'k \<Rightarrow> 'v \<Rightarrow> ('k, 'v) jmap \<Rightarrow> ('k, 'v) jmap" where
  "jset \<equiv> AList.update"

abbreviation jdelete :: "'k \<Rightarrow> ('k, 'v) jmap \<Rightarrow> ('k, 'v) jmap" where
  "jdelete \<equiv> AList.delete"

abbreviation jkeys :: "('k, 'v) jmap \<Rightarrow> 'k list" where
  "jkeys m \<equiv> map fst m"

abbreviation jvalues :: "('k, 'v) jmap \<Rightarrow> 'v list" where
  "jvalues m \<equiv> map snd m"

definition jhas :: "('k, 'v) jmap \<Rightarrow> 'k \<Rightarrow> bool" where
  "jhas m k \<longleftrightarrow> map_of m k \<noteq> None"

text \<open>\<open>new Map(entries)\<close> and \<open>new Set(xs)\<close>: later entries overwrite, later duplicates vanish.\<close>

definition newMap :: "('k \<times> 'v) list \<Rightarrow> ('k, 'v) jmap" where
  "newMap es = foldl (\<lambda>m (k, v). jset k v m) [] es"

definition setAdd :: "'a \<Rightarrow> 'a list \<Rightarrow> 'a list" where
  "setAdd x s = (if x \<in> set s then s else s @ [x])"

definition newSet :: "'a list \<Rightarrow> 'a list" where
  "newSet xs = foldl (\<lambda>s x. setAdd x s) [] xs"

definition jmapInv :: "('k, 'v) jmap \<Rightarrow> bool" where
  "jmapInv m \<longleftrightarrow> distinct (jkeys m)"

locale map_interface =
  fixes new :: "'m" and lookup :: "'m \<Rightarrow> 'k \<Rightarrow> 'v option"
    and store :: "'k \<Rightarrow> 'v \<Rightarrow> 'm \<Rightarrow> 'm" and remove :: "'k \<Rightarrow> 'm \<Rightarrow> 'm"
    and keys :: "'m \<Rightarrow> 'k list" and ok :: "'m \<Rightarrow> bool"
  assumes lookup_new: "lookup new k = None"
    and lookup_store: "ok m \<Longrightarrow> lookup (store k v m) k' = (if k' = k then Some v else lookup m k')"
    and lookup_remove: "ok m \<Longrightarrow> lookup (remove k m) k' = (if k' = k then None else lookup m k')"
    and keys_lookup: "ok m \<Longrightarrow> k \<in> set (keys m) \<longleftrightarrow> lookup m k \<noteq> None"
    and keys_distinct: "ok m \<Longrightarrow> distinct (keys m)"
    and store_order: "ok m \<Longrightarrow>
      keys (store k v m) = (if k \<in> set (keys m) then keys m else keys m @ [k])"
    and remove_order: "ok m \<Longrightarrow> keys (remove k m) = filter (\<lambda>k'. k' \<noteq> k) (keys m)"
    and ok_new: "ok new"
    and ok_store: "ok m \<Longrightarrow> ok (store k v m)"
    and ok_remove: "ok m \<Longrightarrow> ok (remove k m)"
begin

lemma store_store_lookup:
  "ok m \<Longrightarrow> k \<noteq> k' \<Longrightarrow> lookup (store k v (store k' v' m)) = lookup (store k' v' (store k v m))"
  by (rule ext) (simp add: lookup_store ok_store)

lemma remove_store_lookup: "ok m \<Longrightarrow> lookup (remove k (store k v m)) = lookup (remove k m)"
  by (rule ext) (simp add: lookup_store lookup_remove ok_store)

text \<open>A stored key keeps its place: the iteration order of the other keys never changes.\<close>

lemma store_keeps_order: "ok m \<Longrightarrow> k' \<noteq> k \<Longrightarrow>
  filter (\<lambda>x. x \<noteq> k) (keys (store k v m)) = filter (\<lambda>x. x \<noteq> k) (keys m)"
  by (auto simp: store_order)

lemma ok_fold_store: "ok m \<Longrightarrow> ok (foldl (\<lambda>m (k, v). store k v m) m es)"
  by (induction es arbitrary: m) (auto simp: ok_store)

lemma lookup_fold_store:
  "ok m \<Longrightarrow> lookup (foldl (\<lambda>m (k, v). store k v m) m es) k' =
     (case map_of (rev es) k' of Some v \<Rightarrow> Some v | None \<Rightarrow> lookup m k')"
proof (induction es arbitrary: m)
  case (Cons e es)
  obtain k v where "e = (k, v)" by (cases e)
  with Cons show ?case
    by (auto simp: ok_store lookup_store map_add_def split: option.splits)
qed simp

end

lemma keys_update: "jkeys (jset k v m) = (if k \<in> set (jkeys m) then jkeys m else jkeys m @ [k])"
  by (induction m) auto

lemma keys_delete: "jkeys (jdelete k m) = filter (\<lambda>k'. k' \<noteq> k) (jkeys m)"
  by (induction m) auto

interpretation jm: map_interface "[]" map_of AList.update AList.delete "map fst" jmapInv
  by unfold_locales
    (auto simp: jmapInv_def map_of_eq_None_iff keys_update keys_delete update_conv'
      delete_conv' distinct_update image_iff)

lemma jhas_iff [jmap_simps, simp]: "jhas m k \<longleftrightarrow> k \<in> set (jkeys m)"
  by (auto simp: jhas_def map_of_eq_None_iff)

lemma jget_jset [jmap_simps]: "jget (jset k v m) k' = (if k' = k then Some v else jget m k')"
  by (auto simp: update_conv')

lemma jget_jdelete [jmap_simps]: "jget (jdelete k m) k' = (if k' = k then None else jget m k')"
  by (auto simp: delete_conv')

lemma jmapInv_Nil [simp]: "jmapInv []"
  by (rule jm.ok_new)

lemma jmapInv_jset [simp]: "jmapInv m \<Longrightarrow> jmapInv (jset k v m)"
  by (rule jm.ok_store)

lemma jmapInv_jdelete [simp]: "jmapInv m \<Longrightarrow> jmapInv (jdelete k m)"
  by (rule jm.ok_remove)

lemma set_jset: "set (jset k v m) \<subseteq> insert (k, v) (set m)"
  by (induction m) auto

lemma newSet_snoc: "newSet (xs @ [x]) = setAdd x (newSet xs)"
  by (simp add: newSet_def)

lemma jmapInv_newMap [simp]: "jmapInv (newMap es)"
  unfolding newMap_def by (rule jm.ok_fold_store) simp

lemma jget_newMap: "jget (newMap es) k = map_of (rev es) k"
  unfolding newMap_def by (simp add: jm.lookup_fold_store split: option.splits)

lemma newMap_distinct: "distinct (map fst es) \<Longrightarrow> newMap es = es"
proof -
  have "distinct (map fst (m @ es)) \<Longrightarrow> foldl (\<lambda>m (k, v). jset k v m) m es = m @ es" for m :: "('a \<times> 'b) list"
  proof (induction es arbitrary: m)
    case (Cons e es)
    obtain k v where e: "e = (k, v)" by (cases e)
    from Cons.prems e have "k \<notin> fst ` set m" by auto
    then have "jset k v m = m @ [(k, v)]"
      by (induction m) auto
    with Cons.IH [of "m @ [(k, v)]"] Cons.prems e show ?case by simp
  qed simp
  from this [of "[]"] show "distinct (map fst es) \<Longrightarrow> newMap es = es"
    by (simp add: newMap_def)
qed

lemma set_foldl_setAdd: "set (foldl (\<lambda>s x. setAdd x s) s xs) = set s \<union> set xs"
  by (induction xs arbitrary: s) (auto simp: setAdd_def)

lemma distinct_foldl_setAdd: "distinct s \<Longrightarrow> distinct (foldl (\<lambda>s x. setAdd x s) s xs)"
  by (induction xs arbitrary: s) (auto simp: setAdd_def)

lemma set_newSet [simp]: "set (newSet xs) = set xs"
  by (simp add: newSet_def set_foldl_setAdd)

lemma distinct_newSet [simp]: "distinct (newSet xs)"
  by (simp add: newSet_def distinct_foldl_setAdd)

lemma newSet_Nil_iff [simp]: "newSet xs = [] \<longleftrightarrow> xs = []"
  by (metis set_empty set_newSet)

section \<open>Arrays and sums\<close>

text \<open>
  \<open>xs.slice(0, k)\<close> for an integer \<open>k\<close>: a negative end counts from the end of the array.
\<close>

definition sliceTo :: "int \<Rightarrow> 'a list \<Rightarrow> 'a list" where
  "sliceTo k xs = (if 0 \<le> k then take (nat k) xs else take (nat (int (length xs) + k)) xs)"

lemma nth_in_drop: "k \<le> i \<Longrightarrow> i < length t \<Longrightarrow> t ! i \<in> set (drop k t)"
proof -
  assume "k \<le> i" and "i < length t"
  then have "drop k t ! (i - k) = t ! i" and "i - k < length (drop k t)" by auto
  then show ?thesis by (metis nth_mem)
qed

lemma nth_of_drop_eq: "drop k t = drop k u \<Longrightarrow> k \<le> i \<Longrightarrow> i < length t \<Longrightarrow> i < length u \<Longrightarrow> t ! i = u ! i"
  by (metis le_add_diff_inverse less_imp_le_nat nth_drop order_trans)

abbreviation sumOf :: "('a \<Rightarrow> int) \<Rightarrow> 'a list \<Rightarrow> int" where
  "sumOf f xs \<equiv> sum_list (map f xs)"

lemma sumOf_nonneg: "(\<And>x. x \<in> set xs \<Longrightarrow> 0 \<le> f x) \<Longrightarrow> 0 \<le> sumOf f xs"
  by (induction xs) auto

lemma sumOf_pos: "xs \<noteq> [] \<Longrightarrow> (\<And>x. x \<in> set xs \<Longrightarrow> 0 < f x) \<Longrightarrow> 0 < sumOf f xs"
proof (induction xs)
  case (Cons x xs)
  then show ?case by (cases "xs = []") (auto intro: add_pos_pos)
qed simp

lemma sumOf_mono: "(\<And>x. x \<in> set xs \<Longrightarrow> f x \<le> g x) \<Longrightarrow> sumOf f xs \<le> sumOf g xs"
  by (induction xs) (auto intro: add_mono)

lemma sumOf_member: "(\<And>x. x \<in> set xs \<Longrightarrow> 0 \<le> f x) \<Longrightarrow> x \<in> set xs \<Longrightarrow> f x \<le> sumOf f xs"
proof (induction xs)
  case (Cons y ys)
  moreover have "0 \<le> sumOf f ys" using Cons.prems by (intro sumOf_nonneg) auto
  moreover have "0 \<le> f y" using Cons.prems by simp
  ultimately show ?case by fastforce
qed simp

lemma sumOf_strict_bound:
  "xs \<noteq> [] \<Longrightarrow> (\<And>x. x \<in> set xs \<Longrightarrow> f x < c) \<Longrightarrow> sumOf f xs < c * int (length xs)"
proof (induction xs)
  case (Cons x xs)
  show ?case
  proof (cases "xs = []")
    case True
    with Cons.prems show ?thesis by simp
  next
    case False
    with Cons have "sumOf f xs < c * int (length xs)" and "f x < c" by auto
    then show ?thesis by (simp add: algebra_simps)
  qed
qed simp

lemma sumOf_zero: "(\<And>x. x \<in> set xs \<Longrightarrow> f x = 0) \<Longrightarrow> sumOf f xs = 0"
  by (induction xs) auto

lemma sumOf_filter_zero: "(\<And>x. x \<in> set xs \<Longrightarrow> \<not> P x \<Longrightarrow> f x = 0) \<Longrightarrow>
  sumOf f (filter P xs) = sumOf f xs"
  by (induction xs) auto

text \<open>\<open>x ?? d\<close>.\<close>

definition orDefault :: "'a option \<Rightarrow> 'a \<Rightarrow> 'a" where
  "orDefault x d = (case x of None \<Rightarrow> d | Some v \<Rightarrow> v)"

lemma jset_fresh: "k \<notin> set (jkeys m) \<Longrightarrow> jset k v m = m @ [(k, v)]"
  by (induction m) auto

lemma jget_Some_key: "jget m k = Some v \<Longrightarrow> k \<in> set (jkeys m)"
  by (metis map_of_eq_None_iff option.distinct(1) set_map)

lemma jget_key: "k \<in> set (jkeys m) \<Longrightarrow> \<exists>v. jget m k = Some v"
  by (metis map_of_eq_None_iff not_None_eq set_map)

lemma sum_jset: "jget m v = Some old \<Longrightarrow> sumOf snd (jset v x m) = sumOf snd m - old + x"
  by (induction m) auto

lemma jset_bound:
  "(\<forall>e \<in> set m. 0 \<le> snd e) \<Longrightarrow> 0 \<le> (x::int) \<Longrightarrow> \<forall>e \<in> set (jset k x m). 0 \<le> snd e"
  by (induction m) auto

lemma jget_le_sum:
  assumes "\<forall>e \<in> set m. 0 \<le> snd e" and "jget m k = Some (x::int)"
  shows "0 \<le> x" and "x \<le> sumOf snd m"
proof -
  have m: "(k, x) \<in> set m" using assms(2) by (rule map_of_SomeD)
  with assms(1) show "0 \<le> x" by force
  show "x \<le> sumOf snd m" using sumOf_member [of m snd "(k, x)"] assms(1) m by simp
qed

lemma div_mult_bound: "0 < (s::int) \<Longrightarrow> 0 \<le> a \<Longrightarrow> 0 \<le> b \<Longrightarrow> b \<le> s \<Longrightarrow> 0 \<le> a * b div s \<and> a * b div s \<le> a"
  by (metis mult.commute mult_left_mono mult_nonneg_nonneg nonzero_mult_div_cancel_left
      order_less_irrefl pos_imp_zdiv_nonneg_iff zdiv_mono1)

lemma div_times_le: "0 < (s::int) \<Longrightarrow> a div s * s \<le> a"
  by (simp add: minus_mod_eq_div_mult [symmetric])

lemma sumOf_div: "0 < (s::int) \<Longrightarrow> sumOf (\<lambda>x. f x div s) xs * s \<le> sumOf f xs"
proof (induction xs)
  case (Cons x xs)
  then show ?case using div_times_le [of s "f x"] by (simp add: distrib_right)
qed simp

lemma sumOf_scale: "sumOf (\<lambda>x. c * f x) xs = (c::int) * sumOf f xs"
  by (induction xs) (auto simp: algebra_simps)

lemma sumOf_if: "sumOf (\<lambda>x. if P x then c else 0) xs = (c::int) * int (length (filter P xs))"
  by (induction xs) (auto simp: algebra_simps)

lemma length_filter_same:
  assumes "distinct xs" "distinct ys" "\<And>x. x \<in> set xs \<and> P x \<longleftrightarrow> x \<in> set ys \<and> Q x"
  shows "length (filter P xs) = length (filter Q ys)"
proof -
  have "set (filter P xs) = set (filter Q ys)" using assms(3) by auto
  then show ?thesis using assms(1,2) by (metis distinct_card distinct_filter)
qed

lemma sumOf_get:
  assumes "distinct (jkeys m)"
  shows "sumOf (\<lambda>u. orDefault (jget m u) 0) (jkeys m) = sumOf snd m"
proof -
  have "map (\<lambda>u. orDefault (jget m u) 0) (jkeys m) = map snd m"
    using assms by (auto simp: orDefault_def intro!: map_cong)
  then show ?thesis by (simp only:)
qed

lemma length_filter_mono: "(\<And>x. P x \<Longrightarrow> Q x) \<Longrightarrow> length (filter P xs) \<le> length (filter Q xs)"
  by (induction xs) (auto simp: le_SucI)

end
