(* ===== verification/Words.thy ===== *)
theory Words
  imports Prelude "HOL-Library.Word"
begin

text \<open>
  \<open>lib/pagerank/words.ts\<close> and \<open>lib/pagerank/fixed.ts\<close>: 32-byte ABI words, the two comparators
  every sort of the program is built from, and the checked 256-bit fixed-point helpers.  The
  functions of the \<open>viem\<close> package are the fields of a record passed as a parameter \<open>V\<close>; what the
  code relies on of them is stated by the predicates at the end of the second section.
\<close>

section \<open>The external primitives\<close>

text \<open>
  Byte arrays are lists of 8-bit words.  \<open>toHexSized\<close> is \<open>toHex(x, { size })\<close> and \<open>padTo\<close> is
  \<open>pad(a, { size })\<close>; both throw when the value does not fit the size.  \<open>encodeAbi\<close> is
  \<open>encodeAbiParameters\<close> on values paired with their types; \<open>toBytesOf\<close> is \<open>toBytes\<close> on a string.  A \<open>Hex\<close> argument of the
  other functions is a well-formed hex string, as its type says.
\<close>

type_synonym bytes = "8 word list"

datatype abi_value = AbiBytes32 hex | AbiAddress hex | AbiUint nat int

record viem =
  keccak256 :: "hex \<Rightarrow> hex"
  keccak256Bytes :: "bytes \<Rightarrow> hex"
  sha256Hex :: "hex \<Rightarrow> hex"
  sha256Bytes :: "bytes \<Rightarrow> hex"
  concatHex :: "hex list \<Rightarrow> hex"
  toHexSized :: "int \<Rightarrow> nat \<Rightarrow> hex result"
  padTo :: "hex \<Rightarrow> nat \<Rightarrow> hex result"
  hexToBytes :: "hex \<Rightarrow> bytes"
  bytesToHex :: "bytes \<Rightarrow> hex"
  stringToBytes :: "string \<Rightarrow> bytes"
  stringToHex :: "string \<Rightarrow> hex"
  encodeAbi :: "abi_value list \<Rightarrow> hex result"
  toBytesOf :: "string \<Rightarrow> bytes"

section \<open>ABI words\<close>

definition ZERO_HASH :: hex where
  "ZERO_HASH = ''0x'' @ replicate 64 (CHR ''0'')"

definition ZERO_ADDRESS :: hex where
  "ZERO_ADDRESS = ''0x'' @ replicate 40 (CHR ''0'')"

definition wordU256 :: "viem \<Rightarrow> int \<Rightarrow> hex result" where
  "wordU256 V x = toHexSized V x 32"

definition wordU64 :: "viem \<Rightarrow> int \<Rightarrow> hex result" where
  "wordU64 V x = toHexSized V x 32"

definition wordU32 :: "viem \<Rightarrow> int \<Rightarrow> hex result" where
  "wordU32 V x = toHexSized V x 32"

definition wordU8 :: "viem \<Rightarrow> int \<Rightarrow> hex result" where
  "wordU8 V x = toHexSized V x 32"

definition wordAddr :: "viem \<Rightarrow> hex \<Rightarrow> hex result" where
  "wordAddr V a = padTo V (toLowerCase a) 32"

definition cmpHex :: "hex \<Rightarrow> hex \<Rightarrow> int" where
  "cmpHex a b =
     (let x = toLowerCase a; y = toLowerCase b in if x < y then -1 else if x > y then 1 else 0)"

definition cmpBig :: "int \<Rightarrow> int \<Rightarrow> int" where
  "cmpBig a b = (if a < b then -1 else if a > b then 1 else 0)"

lemma cmpHex_cmpLin: "cmpHex a b = cmpLin (toLowerCase a) (toLowerCase b)"
  by (simp add: cmpHex_def cmpLin_def Let_def)

lemma cmpBig_cmpLin: "cmpBig = cmpLin"
  by (simp add: cmpBig_def cmpLin_def fun_eq_iff)

interpretation hexcmp: keyed_comparator cmpHex toLowerCase
  by unfold_locales (simp add: cmpHex_cmpLin)

interpretation bigcmp: keyed_comparator cmpBig id
  by unfold_locales (simp add: cmpBig_cmpLin)

interpretation hexfst: keyed_comparator "\<lambda>a b. cmpHex (fst a) (fst b)" "\<lambda>r. toLowerCase (fst r)"
  by unfold_locales (simp add: cmpHex_cmpLin)

lemma cmpHex_zero [simp]: "cmpHex a b = 0 \<longleftrightarrow> toLowerCase a = toLowerCase b"
  by (simp add: cmpHex_cmpLin)

text \<open>On lower-case strings the order of \<open>cmpHex\<close> is the string order.\<close>

lemma map_lower_canonical: "\<forall>x \<in> set xs. canonical x \<Longrightarrow> map toLowerCase xs = xs"
  by (simp add: canonical_def map_idI)

lemma sortHex_canonical: "\<forall>x \<in> set xs. canonical x \<Longrightarrow> sortBy cmpHex xs = sort xs"
proof -
  assume c: "\<forall>x \<in> set xs. canonical x"
  then have "sorted (sortBy cmpHex xs)"
    using hexcmp.sortBy_sorted [of xs] map_lower_canonical [of "sortBy cmpHex xs"] by simp
  then show ?thesis
    by (metis mset_sortBy properties_for_sort)
qed

lemma canonical_ZERO [simp]: "canonical ZERO_HASH" "canonical ZERO_ADDRESS"
  by (simp_all add: canonical_def toLowerCase_def ZERO_HASH_def ZERO_ADDRESS_def lowerChar_def)

text \<open>
  The documented behaviour of the primitives.  \<open>concatHex\<close> joins the digits after one \<open>0x\<close>;
  \<open>toHexSized\<close> writes exactly \<open>2 n\<close> lower-case digits of a value below \<open>256 ^ n\<close> and throws on
  any other value; \<open>padTo\<close> fills with zeros on the left; digests are 32-byte lower-case words.
\<close>

definition hexDigitChar :: "nat \<Rightarrow> char" where
  "hexDigitChar d = (if d < 10 then char_of (48 + d) else char_of (87 + d))"

fun hexDigits :: "nat \<Rightarrow> nat \<Rightarrow> string" where
  "hexDigits 0 x = []"
| "hexDigits (Suc n) x = hexDigits n (x div 16) @ [hexDigitChar (x mod 16)]"

definition concatLaw :: "viem \<Rightarrow> bool" where
  "concatLaw V \<longleftrightarrow> (\<forall>xs. concatHex V xs = ''0x'' @ concat (map (drop 2) xs))"

definition toHexLaw :: "viem \<Rightarrow> bool" where
  "toHexLaw V \<longleftrightarrow> (\<forall>x n h. toHexSized V x n = Inr h \<longleftrightarrow>
     0 \<le> x \<and> x < 256 ^ n \<and> h = ''0x'' @ hexDigits (2 * n) (nat x))"

definition padLaw :: "viem \<Rightarrow> bool" where
  "padLaw V \<longleftrightarrow> (\<forall>a n h. padTo V a n = Inr h \<longleftrightarrow>
     length a \<le> 2 * n + 2 \<and> h = ''0x'' @ replicate (2 * n + 2 - length a) (CHR ''0'') @ drop 2 a)"

definition isWord :: "hex \<Rightarrow> bool" where
  "isWord h \<longleftrightarrow> length h = 66 \<and> take 2 h = ''0x'' \<and> canonical h"

definition digestLaw :: "viem \<Rightarrow> bool" where
  "digestLaw V \<longleftrightarrow> (\<forall>x. isWord (keccak256 V x))"

lemma length_hexDigits [simp]: "length (hexDigits n x) = n"
  by (induction n arbitrary: x) auto

lemma of_hexDigitChar:
  "d < 16 \<Longrightarrow> (of_char (hexDigitChar d) :: nat) = (if d < 10 then 48 + d else 87 + d)"
  by (simp add: hexDigitChar_def)

lemma hexDigitChar_inj:
  assumes "d < 16" and "e < 16" and "hexDigitChar d = hexDigitChar e"
  shows "d = e"
proof -
  have "(if d < 10 then 48 + d else 87 + d) = (if e < 10 then 48 + e else 87 + e)"
    using of_hexDigitChar [OF assms(1)] of_hexDigitChar [OF assms(2)] assms(3) by metis
  with assms(1,2) show ?thesis by presburger
qed

lemma hexDigits_inj:
  "x < 16 ^ n \<Longrightarrow> y < 16 ^ n \<Longrightarrow> hexDigits n x = hexDigits n y \<Longrightarrow> x = y"
proof (induction n arbitrary: x y)
  case (Suc n)
  then have "x div 16 < 16 ^ n" "y div 16 < 16 ^ n"
    by (simp_all add: less_mult_imp_div_less mult.commute)
  with Suc have "x div 16 = y div 16" by auto
  moreover have "x mod 16 = y mod 16"
    using Suc.prems(3) by (auto intro: hexDigitChar_inj)
  ultimately show ?case by (metis div_mult_mod_eq)
qed simp

lemma toHex_inj:
  assumes "toHexLaw V" and "toHexSized V x n = Inr h" and "toHexSized V y n = Inr h"
  shows "x = y"
proof -
  have "0 \<le> x" "x < 256 ^ n" "0 \<le> y" "y < 256 ^ n"
    and "hexDigits (2 * n) (nat x) = hexDigits (2 * n) (nat y)"
    using assms unfolding toHexLaw_def by auto
  moreover have "(256::int) ^ n = 16 ^ (2 * n)" by (simp add: power_mult)
  ultimately have "nat x = nat y"
    by (intro hexDigits_inj [of _ "2 * n"]) (auto simp: nat_less_iff)
  with \<open>0 \<le> x\<close> \<open>0 \<le> y\<close> show ?thesis by simp
qed

section \<open>Checked fixed-point arithmetic\<close>

definition U256_MAX :: int where
  "U256_MAX = 2 ^ 256 - 1"

definition checkedAdd :: "int \<Rightarrow> int \<Rightarrow> string \<Rightarrow> int result" where
  "checkedAdd a b context =
     (let s = a + b in
      if s > U256_MAX then Inl (RangeError (context @ '' overflowed 256 bits'')) else Inr s)"

definition mulDiv :: "int \<Rightarrow> int \<Rightarrow> int \<Rightarrow> int result" where
  "mulDiv a b d = bindE (bigDiv (a * b) d) (\<lambda>q.
     if q > U256_MAX
     then Inl (RangeError ''mulDiv overflow: quotient exceeds 256 bits (params outside the representable range)'')
     else Inr q)"

definition fpMul :: "int \<Rightarrow> int \<Rightarrow> int \<Rightarrow> int result" where
  "fpMul a b scale = mulDiv a b scale"

definition fpDiv :: "int \<Rightarrow> int \<Rightarrow> int \<Rightarrow> int result" where
  "fpDiv a b scale = mulDiv a scale b"

lemma checkedAdd_Inr: "checkedAdd a b c = Inr s \<longleftrightarrow> s = a + b \<and> a + b \<le> U256_MAX"
  by (auto simp: checkedAdd_def Let_def)

lemma mulDiv_Inr: "mulDiv a b d = Inr q \<longleftrightarrow> d \<noteq> 0 \<and> q = (a * b) sdiv d \<and> q \<le> U256_MAX"
  by (auto simp: mulDiv_def bigDiv_def result_simps)

lemma mulDiv_value:
  "mulDiv a b d = Inr q \<Longrightarrow> 0 \<le> a \<Longrightarrow> 0 \<le> b \<Longrightarrow> 0 < d \<Longrightarrow> q = a * b div d"
  by (simp add: mulDiv_Inr)

lemma mulDiv_zero [simp]: "d \<noteq> 0 \<Longrightarrow> mulDiv 0 b d = Inr 0" "d \<noteq> 0 \<Longrightarrow> mulDiv a 0 d = Inr 0"
  by (simp_all add: mulDiv_Inr U256_MAX_def)

lemma sdiv_sign: "0 \<le> (a::int) \<Longrightarrow> 0 \<le> b \<Longrightarrow> 0 \<le> a sdiv b"
  by (cases "b = 0"; cases "a = 0") (simp_all add: signed_divide_int_def pos_imp_zdiv_nonneg_iff)

lemma mulDiv_nonneg: "mulDiv a b d = Inr q \<Longrightarrow> 0 \<le> a \<Longrightarrow> 0 \<le> b \<Longrightarrow> 0 \<le> d \<Longrightarrow> 0 \<le> q"
  by (metis mulDiv_Inr mult_nonneg_nonneg sdiv_sign)

lemma mulDiv_le:
  assumes "mulDiv a b d = Inr q" and "0 \<le> a" and "0 \<le> b" and "b \<le> d" and "0 < d"
  shows "q \<le> a"
proof -
  have "a * b div d \<le> a * d div d"
    using assms by (intro zdiv_mono1 mult_left_mono) auto
  moreover have "q = a * b div d"
    by (rule mulDiv_value [OF assms(1)]) (use assms in auto)
  ultimately show ?thesis using assms by simp
qed

lemma mulDiv_total:
  assumes "0 \<le> a" and "a \<le> U256_MAX" and "0 \<le> b" and "b \<le> d" and "0 < d"
  shows "mulDiv a b d = Inr (a * b div d)"
proof -
  have "a * b div d \<le> a * d div d"
    using assms by (intro zdiv_mono1 mult_left_mono) auto
  with assms show ?thesis by (simp add: mulDiv_Inr)
qed

end
