(* ===== verification/Types.thy ===== *)
theory Types
  imports Words
begin

text \<open>
  \<open>lib/pagerank/types.ts\<close>: the edge, parameter and journal types of the trust-graph program.
  Field names carry a short prefix where the source reuses a name in several interfaces.
  Integer-valued \<open>number\<close> and \<open>bigint\<close> fields are \<open>int\<close>; an optional field is an \<open>option\<close>.
\<close>

record RawEdge =
  eKind :: int
  eAttester :: hex
  eRecipient :: hex
  eUid :: hex
  eBlockTimestamp :: int
  eData :: hex

record Params =
  dampingFp :: int
  toleranceFp :: int
  maxIterations :: int
  minWeightFp :: int
  maxWeightFp :: int
  trustShareFp :: int
  trustDecayFp :: int
  trustedSeeds :: "hex list"
  totalPool :: int
  precisionScale :: int
  schemaUid :: hex
  weightFieldIndex :: int
  envelope0DomainSeparators :: "hex list option"
  lane2MaxHeadAge :: "int option"
  accumulator :: hex
  chainId :: int

definition hasTrustEnabled :: "Params \<Rightarrow> bool" where
  "hasTrustEnabled p \<longleftrightarrow> length (trustedSeeds p) > 0"

record Binding =
  bRecipient :: hex
  bInstanceDomain :: hex

record GuestInput =
  giEdges :: "RawEdge list"
  giParams :: Params
  giBinding :: "Binding option"

record Journal =
  jAcc :: hex
  jLeafCount :: int
  jAnchorAcc :: hex
  jAnchorCount :: int
  jParamsHash :: hex
  jOutputRoot :: hex
  jIpfsHash :: hex
  jCidDigest :: hex
  jTotalValue :: int
  jSkippedDigest :: hex
  jRecipient :: hex
  jInstanceDomain :: hex

record ComputeResult =
  crJournal :: Journal
  crScores :: "(hex \<times> int) list"
  crBlob :: string
  crCid :: string
  crIterations :: nat
  crConverged :: bool

record SelectionParams =
  topN :: int
  minThreshold :: int
  targetThresholdBps :: int
  maxInactiveBlocks :: int
  minActivityWitnesses :: int

record SignerActivity =
  saAccount :: hex
  saProposalId :: int
  saBlockNumber :: int

record ActivityCheckpoint =
  acAcc :: hex
  acCount :: int
  acBlockNumber :: int

record SignerInput =
  siEdges :: "RawEdge list"
  siParams :: Params
  siSelection :: SelectionParams
  siActivity :: "SignerActivity list option"
  siActivityCheckpoint :: "ActivityCheckpoint option"
  siCurrentSigners :: "hex list option"
  siCurrentThreshold :: "int option"
  siWasInitialized :: "bool option"
  siInstanceDomain :: "hex option"

record SignerJournal =
  sjAcc :: hex
  sjLeafCount :: int
  sjParamsHash :: hex
  sjSelectionParamsHash :: hex
  sjActivityAcc :: hex
  sjActivityCount :: int
  sjActivityBlock :: int
  sjWasInitialized :: bool
  sjCurrentSignerSetRoot :: hex
  sjCurrentThreshold :: int
  sjSignerSetRoot :: hex
  sjTargetThreshold :: int
  sjInstanceDomain :: hex

record SignerComputeResult =
  scJournal :: SignerJournal
  scSigners :: "hex list"
  scTargetThreshold :: int
  scActivityApplied :: bool

end
