(* ===== verification/Merkle.thy ===== *)
theory Merkle
  imports Words
begin

text \<open>
  \<open>lib/pagerank/merkle.ts\<close>: the OpenZeppelin standard Merkle tree as an array of \<open>2 n - 1\<close> nodes,
  its root and its inclusion proofs.  The lemmas give the shape of the array, the heap equation of
  every internal node, and the completeness of proofs against the verifier that folds a leaf with
  its siblings; they need the parent hash only to be commutative, which is the locale
  \<open>pair_hash\<close>, interpreted on \<open>hashPair\<close>.
\<close>

section \<open>Definitions\<close>

definition outputLeaf :: "viem \<Rightarrow> hex \<Rightarrow> int \<Rightarrow> hex result" where
  "outputLeaf V account value =
     bindE (wordAddr V account) (\<lambda>wa. bindE (wordU256 V value) (\<lambda>wv.
       let inner = keccak256 V (concatHex V [wa, wv]) in Inr (keccak256 V inner)))"

definition hashPair :: "viem \<Rightarrow> hex \<Rightarrow> hex \<Rightarrow> hex" where
  "hashPair V a b =
     (let (lo, hi) = (if cmpHex a b \<le> 0 then (a, b) else (b, a))
      in keccak256 V (concatHex V [lo, hi]))"

text \<open>The loop \<open>for (let i = n - 2; i >= 0; i--)\<close>; the counter is \<open>i + 1\<close>.\<close>

fun buildLoop :: "viem \<Rightarrow> nat \<Rightarrow> hex list \<Rightarrow> hex list result" where
  "buildLoop V 0 tree = Inr tree"
| "buildLoop V (Suc i) tree =
     (if 2 * i + 1 < length tree \<and> 2 * i + 2 < length tree
      then buildLoop V i (tree[i := hashPair V (tree ! (2 * i + 1)) (tree ! (2 * i + 2))])
      else Inl (PlainError ''invalid Merkle tree shape''))"

definition placeLeaves :: "hex list \<Rightarrow> nat \<Rightarrow> hex list" where
  "placeLeaves ls sz =
     foldl (\<lambda>tree (i, leaf). tree[sz - 1 - i := leaf]) (replicate sz ZERO_HASH)
       (zip [0..<length ls] ls)"

definition buildTree :: "viem \<Rightarrow> hex list \<Rightarrow> hex list result" where
  "buildTree V leaves =
     (if leaves = [] then Inr []
      else let ls = sortBy cmpHex leaves; n = length ls in
        if n = 1 then Inr ls
        else let sz = 2 * n - 1 in buildLoop V (n - 1) (placeLeaves ls sz))"

definition merkleRoot :: "viem \<Rightarrow> hex list \<Rightarrow> hex result" where
  "merkleRoot V leaves =
     (if leaves = [] then Inr ZERO_HASH
      else bindE (buildTree V leaves) (\<lambda>tree.
        if tree = [] then Inl (PlainError ''non-empty Merkle tree has no root'')
        else Inr (tree ! 0)))"

text \<open>
  The walk from a leaf index to the root.  With an even number of nodes the source starts at a
  fractional index, which is never present, so no leaf is found.
\<close>

fun proofPath :: "hex list \<Rightarrow> nat \<Rightarrow> hex list" where
  "proofPath tree i =
     (if i = 0 then []
      else let sibling = (if i mod 2 = 1 then i + 1 else i - 1);
               rest = proofPath tree ((i - 1) div 2)
           in if sibling < length tree then tree ! sibling # rest else rest)"

declare proofPath.simps [simp del]

definition proofFor :: "hex list \<Rightarrow> hex \<Rightarrow> hex list option" where
  "proofFor tree leaf =
     (if tree = [] \<or> even (length tree) then None
      else let n = (length tree + 1) div 2 in
        case List.find (\<lambda>i. tree ! i = leaf) [n - 1..<length tree] of
          None \<Rightarrow> None
        | Some idx \<Rightarrow> Some (proofPath tree idx))"

definition seedSetRoot :: "viem \<Rightarrow> hex list \<Rightarrow> hex result" where
  "seedSetRoot V sortedSeeds =
     (if sortedSeeds = [] then Inr ZERO_HASH
      else bindE (mapE (\<lambda>a. bindE (wordAddr V a) (\<lambda>w. Inr (keccak256 V w))) sortedSeeds)
        (merkleRoot V))"

definition signerSetRoot :: "viem \<Rightarrow> hex list \<Rightarrow> hex result" where
  "signerSetRoot V sortedSigners = seedSetRoot V sortedSigners"

section \<open>The array of nodes\<close>

text \<open>Specification: \<open>tree\<close> is the heap over \<open>leaves\<close> with \<open>n\<close> leaves at its tail.\<close>

definition heapNodes :: "(hex \<Rightarrow> hex \<Rightarrow> hex) \<Rightarrow> nat \<Rightarrow> hex list \<Rightarrow> bool" where
  "heapNodes h n tree \<longleftrightarrow> length tree = 2 * n - 1 \<and>
     (\<forall>i < n - 1. tree ! i = h (tree ! (2 * i + 1)) (tree ! (2 * i + 2)))"

lemma placeLeaves_length [simp]: "length (placeLeaves ls sz) = sz"
proof -
  have "length (foldl (\<lambda>tree (i, leaf). tree[sz - 1 - i := leaf]) t ps) = length t" for t :: "hex list" and ps
    by (induction ps arbitrary: t) auto
  then show ?thesis by (simp add: placeLeaves_def)
qed

lemma placeLeaves_nth:
  assumes "j < length ls" and "length ls \<le> sz"
  shows "placeLeaves ls sz ! (sz - 1 - j) = ls ! j"
  using assms
proof (induction ls arbitrary: j rule: rev_induct)
  case (snoc x xs)
  have eq: "placeLeaves (xs @ [x]) sz = (placeLeaves xs sz)[sz - 1 - length xs := x]"
    by (simp add: placeLeaves_def)
  show ?case
  proof (cases "j = length xs")
    case True
    with snoc.prems show ?thesis by (simp add: eq)
  next
    case False
    with snoc.prems have "j < length xs" and "sz - 1 - length xs \<noteq> sz - 1 - j" by auto
    with snoc show ?thesis by (simp add: eq nth_append)
  qed
qed simp

lemma placeLeaves_tail:
  assumes "ls \<noteq> []" and "sz = 2 * length ls - 1"
  shows "drop (length ls - 1) (placeLeaves ls sz) = rev ls"
proof (rule nth_equalityI)
  show "length (drop (length ls - 1) (placeLeaves ls sz)) = length (rev ls)"
    using assms by (cases ls) auto
next
  fix i assume "i < length (drop (length ls - 1) (placeLeaves ls sz))"
  then have i: "i < length ls" using assms by (cases ls) auto
  let ?j = "length ls - 1 - i"
  have "?j < length ls" and le: "length ls \<le> sz" using i assms by auto
  then have "placeLeaves ls sz ! (sz - 1 - ?j) = ls ! ?j" by (rule placeLeaves_nth)
  moreover have "sz - 1 - ?j = length ls - 1 + i" using i assms by auto
  ultimately show "drop (length ls - 1) (placeLeaves ls sz) ! i = rev ls ! i"
    using i assms by (simp add: rev_nth)
qed

text \<open>The loop never sees an undefined child, touches only internal nodes, and fills each of them.\<close>

lemma buildLoop_total:
  assumes "2 * k < length tree"
  shows "\<exists>t. buildLoop V k tree = Inr t \<and> length t = length tree \<and> drop k t = drop k tree \<and>
    (\<forall>i < k. t ! i = hashPair V (t ! (2 * i + 1)) (t ! (2 * i + 2)))"
  using assms
proof (induction k arbitrary: tree)
  case (Suc k)
  let ?t = "tree[k := hashPair V (tree ! (2 * k + 1)) (tree ! (2 * k + 2))]"
  from Suc.prems have "2 * k < length ?t" by simp
  from Suc.IH [OF this] obtain t where t: "buildLoop V k ?t = Inr t" "length t = length ?t"
    "drop k t = drop k ?t" "\<forall>i < k. t ! i = hashPair V (t ! (2 * i + 1)) (t ! (2 * i + 2))"
    by blast
  have upd: "t ! j = ?t ! j" if "k \<le> j" "j < length tree" for j
    using nth_of_drop_eq [OF t(3) that(1)] t(2) that(2) by simp
  have "drop (Suc k) t = drop (Suc k) tree"
    using t(2) upd by (intro nth_equalityI) auto
  moreover have "t ! k = hashPair V (t ! (2 * k + 1)) (t ! (2 * k + 2))"
    using Suc.prems upd [of k] upd [of "2 * k + 1"] upd [of "2 * k + 2"] by simp
  ultimately show ?case using Suc.prems t by (auto simp: less_Suc_eq)
qed simp

lemma buildTree_spec:
  assumes "leaves \<noteq> []"
  obtains t where "buildTree V leaves = Inr t"
    and "heapNodes (hashPair V) (length leaves) t"
    and "drop (length leaves - 1) t = rev (sortBy cmpHex leaves)"
proof (cases "length leaves = 1")
  case True
  then obtain l where "leaves = [l]" by (cases leaves) auto
  then show thesis by (intro that [of "[l]"]) (auto simp: buildTree_def heapNodes_def)
next
  case False
  let ?s = "sortBy cmpHex leaves" and ?n = "length leaves"
  let ?p = "placeLeaves ?s (2 * ?n - 1)"
  from assms False have n: "2 \<le> ?n" by (cases leaves) (auto simp: Suc_le_eq)
  then have "2 * (?n - 1) < length ?p" by simp
  then obtain t where t: "buildLoop V (?n - 1) ?p = Inr t" "length t = length ?p"
    "drop (?n - 1) t = drop (?n - 1) ?p"
    "\<forall>i < ?n - 1. t ! i = hashPair V (t ! (2 * i + 1)) (t ! (2 * i + 2))"
    using buildLoop_total by blast
  have "drop (?n - 1) ?p = rev ?s"
    using placeLeaves_tail [of ?s "2 * ?n - 1"] assms by simp
  with t n assms False show thesis
    by (intro that [of t]) (auto simp: buildTree_def heapNodes_def Let_def)
qed

lemma buildTree_total: "\<exists>t. buildTree V leaves = Inr t"
  by (cases "leaves = []") (auto simp: buildTree_def intro: buildTree_spec [of leaves V])

lemma merkleRoot_total: "\<exists>r. merkleRoot V leaves = Inr r"
proof (cases "leaves = []")
  case False
  then obtain t where t: "buildTree V leaves = Inr t" and "heapNodes (hashPair V) (length leaves) t"
    by (rule buildTree_spec)
  then have "length t = 2 * length leaves - 1" by (simp add: heapNodes_def)
  with False have "t \<noteq> []" by (cases leaves) auto
  with t False show ?thesis by (simp add: merkleRoot_def)
qed (simp add: merkleRoot_def)

lemma merkleRoot_tree:
  "leaves \<noteq> [] \<Longrightarrow> buildTree V leaves = Inr t \<Longrightarrow> merkleRoot V leaves = Inr (t ! 0)"
  using buildTree_spec [of leaves V]
  by (fastforce simp: merkleRoot_def heapNodes_def)

section \<open>Inclusion proofs\<close>

text \<open>The verifier's fold of a leaf with its siblings (\<open>MerkleProof.processProof\<close>).\<close>

definition processProof :: "(hex \<Rightarrow> hex \<Rightarrow> hex) \<Rightarrow> hex list \<Rightarrow> hex \<Rightarrow> hex" where
  "processProof h proof leaf = foldl h leaf proof"

locale pair_hash =
  fixes h :: "hex \<Rightarrow> hex \<Rightarrow> hex" and good :: "hex \<Rightarrow> bool"
  assumes comm: "good a \<Longrightarrow> good b \<Longrightarrow> h a b = h b a"
begin

lemma parent_step:
  assumes heap: "heapNodes h n tree" and good: "\<forall>x \<in> set tree. good x"
    and i: "i < length tree" "i \<noteq> 0"
  shows "(i - 1) div 2 < length tree"
    and "(if i mod 2 = 1 then i + 1 else i - 1) < length tree"
    and "h (tree ! i) (tree ! (if i mod 2 = 1 then i + 1 else i - 1)) = tree ! ((i - 1) div 2)"
proof -
  define p where "p = (i - 1) div 2"
  from heap have len: "length tree = 2 * n - 1" by (simp add: heapNodes_def)
  have p: "p < n - 1" and split: "i = 2 * p + 1 \<or> i = 2 * p + 2"
    using i len unfolding p_def by presburger+
  then have bounds: "2 * p + 1 < length tree" "2 * p + 2 < length tree" using len by auto
  have eq: "tree ! p = h (tree ! (2 * p + 1)) (tree ! (2 * p + 2))"
    using heap p by (simp add: heapNodes_def)
  also have "\<dots> = h (tree ! (2 * p + 2)) (tree ! (2 * p + 1))"
    using good bounds by (intro comm) auto
  finally have swap: "tree ! p = h (tree ! (2 * p + 2)) (tree ! (2 * p + 1))" .
  show "(i - 1) div 2 < length tree" using i by simp
  show "(if i mod 2 = 1 then i + 1 else i - 1) < length tree" using split bounds by auto
  show "h (tree ! i) (tree ! (if i mod 2 = 1 then i + 1 else i - 1)) = tree ! ((i - 1) div 2)"
    using split eq swap by auto
qed

lemma path_to_root:
  assumes heap: "heapNodes h n tree" and good: "\<forall>x \<in> set tree. good x" and "i < length tree"
  shows "processProof h (proofPath tree i) (tree ! i) = tree ! 0"
  using assms(3)
proof (induction i rule: less_induct)
  case (less i)
  show ?case
  proof (cases "i = 0")
    case True
    then show ?thesis by (simp add: processProof_def proofPath.simps)
  next
    case False
    note step = parent_step [OF heap good less.prems False]
    have "(i - 1) div 2 < i" using False by simp
    from less.IH [OF this step(1)] step(2,3) False show ?thesis
      by (simp add: processProof_def proofPath.simps [of tree i] Let_def split del: if_split)
  qed
qed

text \<open>A proof has one sibling per level: at most \<open>log2\<close> of the index plus one.\<close>

lemma path_length: "2 ^ length (proofPath tree i) \<le> i + 1"
proof (induction i rule: less_induct)
  case (less i)
  show ?case
  proof (cases "i = 0")
    case True
    then show ?thesis by (simp add: proofPath.simps)
  next
    case False
    let ?p = "(i - 1) div 2"
    have "length (proofPath tree i) \<le> Suc (length (proofPath tree ?p))"
      by (subst proofPath.simps) (auto simp: Let_def)
    then have "(2::nat) ^ length (proofPath tree i) \<le> 2 * 2 ^ length (proofPath tree ?p)"
      by (metis one_le_numeral power_Suc power_increasing)
    also have "\<dots> \<le> 2 * (?p + 1)" using less [of ?p] False by (intro mult_left_mono) auto
    also have "\<dots> \<le> i + 1" using False by presburger
    finally show ?thesis .
  qed
qed

end

lemma cmpHex_swap: "canonical a \<Longrightarrow> canonical b \<Longrightarrow> cmpHex a b \<le> 0 \<Longrightarrow> cmpHex b a \<le> 0 \<Longrightarrow> a = b"
  by (simp add: cmpHex_cmpLin canonical_def)

interpretation hp: pair_hash "hashPair V" canonical for V
  by unfold_locales
    (auto simp: hashPair_def Let_def cmpHex_cmpLin canonical_def dest: order.antisym)

lemma canonical_hashPair: "digestLaw V \<Longrightarrow> canonical (hashPair V a b)"
  by (simp add: hashPair_def Let_def digestLaw_def isWord_def split: prod.splits)

lemma tree_canonical:
  assumes V: "digestLaw V" and "\<forall>l \<in> set leaves. canonical l" and "leaves \<noteq> []"
    and heap: "heapNodes (hashPair V) (length leaves) t"
    and tail: "drop (length leaves - 1) t = rev (sortBy cmpHex leaves)"
  shows "\<forall>x \<in> set t. canonical x"
proof
  fix x assume "x \<in> set t"
  then obtain i where i: "i < length t" "x = t ! i" by (auto simp: in_set_conv_nth)
  show "canonical x"
  proof (cases "i < length leaves - 1")
    case True
    with heap i show ?thesis by (auto simp: heapNodes_def canonical_hashPair [OF V])
  next
    case False
    then have "x \<in> set (drop (length leaves - 1) t)"
      using i nth_in_drop [of "length leaves - 1" i t] by simp
    with tail assms(2) show ?thesis by simp
  qed
qed

lemma find_upt:
  "x \<in> set (drop k t) \<Longrightarrow> \<exists>i. List.find (\<lambda>i. t ! i = x) [k..<length t] = Some i \<and> i < length t \<and> t ! i = x"
proof -
  assume "x \<in> set (drop k t)"
  then obtain j where j: "j < length t - k" "x = t ! (k + j)"
    by (auto simp: in_set_conv_nth add.commute)
  then have "k + j \<in> set [k..<length t]" "t ! (k + j) = x" by auto
  then have "List.find (\<lambda>i. t ! i = x) [k..<length t] \<noteq> None"
    by (auto simp: find_None_iff)
  then obtain i where "List.find (\<lambda>i. t ! i = x) [k..<length t] = Some i" by auto
  then show ?thesis by (auto simp: find_Some_iff)
qed

lemma proofFor_leaf:
  assumes "leaves \<noteq> []" and "heapNodes (hashPair V) (length leaves) t"
    and "drop (length leaves - 1) t = rev (sortBy cmpHex leaves)"
  shows "(proofFor t l \<noteq> None) = (l \<in> set leaves)"
    and "proofFor t l = Some pr \<Longrightarrow> \<exists>i < length t. t ! i = l \<and> pr = proofPath t i"
proof -
  have len: "length t = 2 * length leaves - 1" using assms(2) by (simp add: heapNodes_def)
  then have half: "(length t + 1) div 2 - 1 = length leaves - 1" and t: "t \<noteq> []" "odd (length t)"
    using assms(1) by (cases leaves; auto)+
  have set_tail: "set (drop (length leaves - 1) t) = set leaves" using assms(3) by simp
  note pf = proofFor_def [of t l, unfolded Let_def half]
  show "(proofFor t l \<noteq> None) = (l \<in> set leaves)"
  proof
    assume "l \<in> set leaves"
    with find_upt [of l "length leaves - 1" t] set_tail t show "proofFor t l \<noteq> None"
      by (auto simp: pf)
  next
    assume "proofFor t l \<noteq> None"
    then obtain i where "List.find (\<lambda>i. t ! i = l) [length leaves - 1..<length t] = Some i"
      by (auto simp: pf split: option.splits if_splits)
    then have "length leaves - 1 \<le> i" "i < length t" "t ! i = l"
      by (auto simp: find_Some_iff)
    then have "l \<in> set (drop (length leaves - 1) t)"
      using nth_in_drop [of "length leaves - 1" i t] by simp
    with set_tail show "l \<in> set leaves" by simp
  qed
  show "proofFor t l = Some pr \<Longrightarrow> \<exists>i < length t. t ! i = l \<and> pr = proofPath t i"
  proof -
    assume "proofFor t l = Some pr"
    then obtain i where "List.find (\<lambda>i. t ! i = l) [length leaves - 1..<length t] = Some i"
      and "pr = proofPath t i"
      by (auto simp: pf split: option.splits if_splits)
    moreover from this have "i < length t" "t ! i = l" by (auto simp: find_Some_iff)
    ultimately show ?thesis by blast
  qed
qed

text \<open>
  Completeness: every leaf of a tree has a proof that verifies against the root, no other value
  has a proof, and a proof has at most \<open>log2 (2 n - 1)\<close> siblings.
\<close>

lemma proof_complete:
  assumes V: "digestLaw V" and c: "\<forall>l \<in> set leaves. canonical l"
    and t: "buildTree V leaves = Inr t" and r: "merkleRoot V leaves = Inr r" and l: "l \<in> set leaves"
  shows "\<exists>pr. proofFor t l = Some pr \<and> processProof (hashPair V) pr l = r \<and>
    2 ^ length pr < 2 * length leaves"
proof -
  from l have ne: "leaves \<noteq> []" by auto
  from buildTree_spec [OF this, of V] t have spec: "heapNodes (hashPair V) (length leaves) t"
    "drop (length leaves - 1) t = rev (sortBy cmpHex leaves)"
    by (metis sum.inject(2))+
  note can = tree_canonical [OF V c ne spec]
  obtain pr where pr: "proofFor t l = Some pr"
    using proofFor_leaf(1) [OF ne spec] l by auto
  then obtain i where i: "i < length t" "t ! i = l" "pr = proofPath t i"
    using proofFor_leaf(2) [OF ne spec] by blast
  have "processProof (hashPair V) pr l = t ! 0"
    using hp.path_to_root [OF spec(1) can i(1)] i by simp
  moreover have "r = t ! 0" using merkleRoot_tree [OF ne t] r by simp
  moreover have "2 ^ length pr < 2 * length leaves"
    using hp.path_length [of t i] i spec(1) ne by (cases leaves) (auto simp: heapNodes_def)
  ultimately show ?thesis using pr by blast
qed

lemma proof_only_leaves:
  "buildTree V leaves = Inr t \<Longrightarrow> proofFor t l = Some pr \<Longrightarrow> l \<in> set leaves"
proof (cases "leaves = []")
  case False
  assume "buildTree V leaves = Inr t" and pr: "proofFor t l = Some pr"
  with buildTree_spec [OF False, of V] have "heapNodes (hashPair V) (length leaves) t"
    "drop (length leaves - 1) t = rev (sortBy cmpHex leaves)"
    by (metis sum.inject(2))+
  from proofFor_leaf(1) [OF False this, of l] pr show ?thesis by simp
qed (simp add: buildTree_def proofFor_def)

text \<open>The root depends on the multiset of leaves alone.\<close>

lemma merkleRoot_perm:
  assumes "mset xs = mset ys" and "\<forall>l \<in> set xs. canonical l"
  shows "merkleRoot V xs = merkleRoot V ys"
proof -
  have "\<forall>l \<in> set ys. canonical l" using assms by (metis set_mset_mset)
  with assms have "sortBy cmpHex xs = sortBy cmpHex ys"
    by (metis mset_sortBy sortHex_canonical sorted_list_of_multiset_mset)
  moreover have "(xs = []) = (ys = [])" using assms by (metis mset_zero_iff)
  ultimately show ?thesis by (simp add: merkleRoot_def buildTree_def)
qed

end
