(* ===== verification/Encode.thy ===== *)
theory Encode
  imports Types Merkle
begin

text \<open>
  \<open>lib/pagerank/encode.ts\<close>: the ABI encodings shared with the contracts, the running accumulator
  over the folded edges, the parameter and journal commitments, and the weight decoder.  The lemmas
  show that each encoding determines its fields, and that an accumulator commits to the edge list.
\<close>

unbundle bit_operations_syntax

section \<open>Definitions\<close>

definition PARAMS_SCHEMA_VERSION :: int where
  "PARAMS_SCHEMA_VERSION = 3"

text \<open>\<open>concat([...])\<close> of parts some of which throw; they are evaluated from left to right.\<close>

definition concatE :: "viem \<Rightarrow> hex result list \<Rightarrow> hex result" where
  "concatE V parts = bindE (mapE id parts) (\<lambda>hs. Inr (concatHex V hs))"

definition edgeLeafEncoded ::
  "viem \<Rightarrow> int \<Rightarrow> hex \<Rightarrow> hex \<Rightarrow> hex \<Rightarrow> int \<Rightarrow> hex \<Rightarrow> hex result" where
  "edgeLeafEncoded V kind attester recipient uid blockTimestamp dataHash =
     concatE V [wordU8 V kind, wordAddr V attester, wordAddr V recipient, Inr uid,
       wordU256 V blockTimestamp, Inr dataHash]"

definition edgeLeaf ::
  "viem \<Rightarrow> int \<Rightarrow> hex \<Rightarrow> hex \<Rightarrow> hex \<Rightarrow> int \<Rightarrow> hex \<Rightarrow> hex result" where
  "edgeLeaf V kind attester recipient uid blockTimestamp dataHash =
     bindE (edgeLeafEncoded V kind attester recipient uid blockTimestamp dataHash)
       (\<lambda>x. Inr (keccak256 V x))"

definition foldLeaf :: "viem \<Rightarrow> hex \<Rightarrow> hex \<Rightarrow> hex" where
  "foldLeaf V prev leaf = keccak256 V (concatHex V [prev, leaf])"

definition accumulateStep :: "viem \<Rightarrow> hex \<Rightarrow> RawEdge \<Rightarrow> hex result" where
  "accumulateStep V a e =
     (let dataHash = keccak256 V (eData e) in
      bindE (edgeLeaf V (eKind e) (eAttester e) (eRecipient e) (eUid e) (eBlockTimestamp e) dataHash)
        (\<lambda>leaf. Inr (foldLeaf V a leaf)))"

definition accumulate :: "viem \<Rightarrow> RawEdge list \<Rightarrow> (hex \<times> int) result" where
  "accumulate V es =
     bindE (foldE (accumulateStep V) ZERO_HASH es) (\<lambda>a. Inr (a, int (length es)))"

definition journalEncoded :: "viem \<Rightarrow> Journal \<Rightarrow> hex result" where
  "journalEncoded V j = concatE V
     [Inr (jAcc j), wordU64 V (jLeafCount j), Inr (jAnchorAcc j), wordU64 V (jAnchorCount j),
      Inr (jParamsHash j), Inr (jOutputRoot j), Inr (jIpfsHash j), Inr (jCidDigest j),
      wordU256 V (jTotalValue j), Inr (jSkippedDigest j), wordAddr V (jRecipient j),
      Inr (jInstanceDomain j)]"

definition instanceDomain :: "viem \<Rightarrow> hex \<Rightarrow> int \<Rightarrow> hex result" where
  "instanceDomain V snapshot chain =
     bindE (concatE V [wordAddr V snapshot, wordU256 V chain]) (\<lambda>x. Inr (keccak256 V x))"

definition journalDigest :: "viem \<Rightarrow> Journal \<Rightarrow> hex result" where
  "journalDigest V j = bindE (journalEncoded V j) (\<lambda>x. Inr (keccak256 V x))"

definition domainSetHash :: "viem \<Rightarrow> hex list \<Rightarrow> hex" where
  "domainSetHash V separators =
     (if length separators = 0 then ''0x'' @ replicate 64 (CHR ''0'')
      else keccak256 V (concatHex V separators))"

text \<open>The inline comparator of \<open>paramsHash\<close>.\<close>

definition cmpSeed :: "hex \<Rightarrow> hex \<Rightarrow> int" where
  "cmpSeed a b =
     (if toLowerCase a < toLowerCase b then -1
      else if toLowerCase a > toLowerCase b then 1 else 0)"

definition paramsEncoded :: "viem \<Rightarrow> Params \<Rightarrow> hex result" where
  "paramsEncoded V p =
     bindE (seedSetRoot V (sortBy cmpSeed (trustedSeeds p))) (\<lambda>seedRoot. concatE V
       [wordU32 V PARAMS_SCHEMA_VERSION, wordU256 V (dampingFp p), wordU256 V (toleranceFp p),
        wordU32 V (maxIterations p), wordU256 V (minWeightFp p), wordU256 V (maxWeightFp p),
        wordU256 V (trustShareFp p), wordU256 V (trustDecayFp p), Inr seedRoot,
        wordU256 V (totalPool p), wordU256 V (precisionScale p), Inr (schemaUid p),
        wordU32 V (weightFieldIndex p),
        Inr (domainSetHash V (orDefault (envelope0DomainSeparators p) [])),
        wordU64 V (orDefault (lane2MaxHeadAge p) 0), wordAddr V (accumulator p),
        wordU64 V (chainId p)])"

definition paramsHash :: "viem \<Rightarrow> Params \<Rightarrow> hex result" where
  "paramsHash V p = bindE (paramsEncoded V p) (\<lambda>x. Inr (keccak256 V x))"

definition selectionParamsHash :: "viem \<Rightarrow> SelectionParams \<Rightarrow> hex result" where
  "selectionParamsHash V sp =
     bindE (concatE V [wordU32 V (topN sp), wordU32 V (minThreshold sp),
       wordU32 V (targetThresholdBps sp), wordU64 V (maxInactiveBlocks sp),
       wordU32 V (minActivityWitnesses sp)]) (\<lambda>x. Inr (keccak256 V x))"

definition signerJournalEncoded :: "viem \<Rightarrow> SignerJournal \<Rightarrow> hex result" where
  "signerJournalEncoded V j = concatE V
     [Inr (sjAcc j), wordU64 V (sjLeafCount j), Inr (sjParamsHash j),
      Inr (sjSelectionParamsHash j), Inr (sjActivityAcc j), wordU64 V (sjActivityCount j),
      wordU64 V (sjActivityBlock j), wordU32 V (if sjWasInitialized j then 1 else 0),
      Inr (sjCurrentSignerSetRoot j), wordU256 V (sjCurrentThreshold j),
      Inr (sjSignerSetRoot j), wordU256 V (sjTargetThreshold j), Inr (sjInstanceDomain j)]"

definition signerJournalDigest :: "viem \<Rightarrow> SignerJournal \<Rightarrow> hex result" where
  "signerJournalDigest V j = bindE (signerJournalEncoded V j) (\<lambda>x. Inr (keccak256 V x))"

text \<open>
  \<open>decodeWeight\<close>: the loop over the 32 bytes at head slot \<open>index\<close>; an index outside the array is
  \<open>undefined\<close>, which returns \<open>null\<close>.
\<close>

definition byteAt :: "bytes \<Rightarrow> int \<Rightarrow> (8 word) option" where
  "byteAt bs i = (if 0 \<le> i \<and> nat i < length bs then Some (bs ! nat i) else None)"

fun decodeLoop :: "bytes \<Rightarrow> int \<Rightarrow> nat \<Rightarrow> int \<Rightarrow> int option" where
  "decodeLoop bs i 0 v = Some v"
| "decodeLoop bs i (Suc k) v =
     (case byteAt bs i of
        None \<Rightarrow> None
      | Some b \<Rightarrow> decodeLoop bs (i + 1) k (push_bit 8 v OR uint b))"

definition decodeWeight :: "viem \<Rightarrow> hex \<Rightarrow> int \<Rightarrow> int option" where
  "decodeWeight V dat index =
     (let bs = hexToBytes V dat; start = index * 32; stop = start + 32 in
      if int (length bs) < stop then None else decodeLoop bs start 32 0)"

section \<open>Encodings determine their fields\<close>

text \<open>A 32-byte part: 66 characters after \<open>0x\<close>.\<close>

definition isPart :: "hex \<Rightarrow> bool" where
  "isPart h \<longleftrightarrow> length h = 66 \<and> take 2 h = ''0x''"

named_theorems part_intros \<open>values that are 32-byte parts\<close>

lemma isWord_isPart [part_intros]: "isWord h \<Longrightarrow> isPart h"
  by (simp add: isWord_def isPart_def)

lemma isPart_digest [part_intros]: "digestLaw V \<Longrightarrow> isPart (keccak256 V x)"
  by (simp add: digestLaw_def isWord_def isPart_def)

lemma isPart_toHex [part_intros]: "toHexLaw V \<Longrightarrow> toHexSized V x 32 = Inr h \<Longrightarrow> isPart h"
  by (auto simp: toHexLaw_def isPart_def)

lemma isPart_word [part_intros]:
  "toHexLaw V \<Longrightarrow> wordU256 V x = Inr h \<Longrightarrow> isPart h"
  "toHexLaw V \<Longrightarrow> wordU64 V x = Inr h \<Longrightarrow> isPart h"
  "toHexLaw V \<Longrightarrow> wordU32 V x = Inr h \<Longrightarrow> isPart h"
  "toHexLaw V \<Longrightarrow> wordU8 V x = Inr h \<Longrightarrow> isPart h"
  by (simp_all add: wordU256_def wordU64_def wordU32_def wordU8_def isPart_toHex)

text \<open>An address of 20 bytes.\<close>

definition isAddr :: "hex \<Rightarrow> bool" where
  "isAddr a \<longleftrightarrow> length a = 42 \<and> take 2 a = ''0x''"

lemma isPart_addr [part_intros]: "padLaw V \<Longrightarrow> isAddr a \<Longrightarrow> wordAddr V a = Inr h \<Longrightarrow> isPart h"
  by (auto simp: padLaw_def wordAddr_def isPart_def isAddr_def)

lemma isPart_drop: "isPart h \<Longrightarrow> length (drop 2 h) = 64"
  by (simp add: isPart_def)

lemma isPart_eqI: "isPart x \<Longrightarrow> isPart y \<Longrightarrow> drop 2 x = drop 2 y \<Longrightarrow> x = y"
  unfolding isPart_def by (metis append_take_drop_id)

lemma concat_parts_inj:
  assumes "\<forall>x \<in> set xs. isPart x" and "\<forall>y \<in> set ys. isPart y"
    and "concat (map (drop 2) xs) = concat (map (drop 2) ys)"
  shows "xs = ys"
  using assms
proof (induction xs arbitrary: ys)
  case Nil
  show ?case
  proof (cases ys)
    case (Cons y ys')
    with Nil.prems have "drop 2 y = []" "isPart y" by auto
    then show ?thesis using isPart_drop [of y] by simp
  qed simp
next
  case (Cons x xs)
  show ?case
  proof (cases ys)
    case Nil
    with Cons.prems have "drop 2 x = []" "isPart x" by auto
    then show ?thesis using isPart_drop [of x] by simp
  next
    case (Cons y ys')
    with Cons.prems have xy: "isPart x" "isPart y" by auto
    then have len: "length (drop 2 x) = length (drop 2 y)" by (metis isPart_drop)
    have "drop 2 x @ concat (map (drop 2) xs) = drop 2 y @ concat (map (drop 2) ys')"
      using Cons.prems(3) Cons by simp
    then have "drop 2 x = drop 2 y" "concat (map (drop 2) xs) = concat (map (drop 2) ys')"
      using append_eq_append_conv [OF disjI1 [OF len]] by blast+
    then show ?thesis
      using isPart_eqI [OF xy] Cons.IH [of ys'] Cons.prems(1,2) Cons by simp
  qed
qed

lemma concatE_inj:
  assumes V: "concatLaw V" and ps: "concatE V ps = Inr h" "concatE V qs = Inr h"
    and "\<And>x. Inr x \<in> set ps \<Longrightarrow> isPart x" and "\<And>x. Inr x \<in> set qs \<Longrightarrow> isPart x"
  shows "ps = qs"
proof -
  obtain xs ys where xs: "mapE id ps = Inr xs" and ys: "mapE id qs = Inr ys"
    and eq: "concatHex V xs = concatHex V ys"
    using ps by (auto simp: concatE_def result_simps)
  then have map: "ps = map Inr xs" "qs = map Inr ys"
    by (auto simp: mapE_Inr_conv list_all2_conv_all_nth intro!: nth_equalityI)
  from eq V have "concat (map (drop 2) xs) = concat (map (drop 2) ys)"
    by (simp add: concatLaw_def)
  with concat_parts_inj [of xs ys] assms(4,5) map show ?thesis by simp
qed

lemma pad_inj:
  assumes "padLaw V" and "wordAddr V a = Inr h" and "wordAddr V b = Inr h" and "length a = length b"
    and "take 2 a = ''0x''" and "take 2 b = ''0x''"
  shows "toLowerCase a = toLowerCase b"
proof -
  have "drop 2 (toLowerCase a) = drop 2 (toLowerCase b)"
    using assms(1-4) by (auto simp: padLaw_def wordAddr_def)
  moreover have "take 2 (toLowerCase a) = take 2 (toLowerCase b)"
    using assms(5,6) by (simp add: toLowerCase_def take_map)
  ultimately show ?thesis by (metis append_take_drop_id)
qed

lemma word_inj:
  "toHexLaw V \<Longrightarrow> wordU256 V x = wordU256 V y \<Longrightarrow> wordU256 V x = Inr h \<Longrightarrow> x = y"
  "toHexLaw V \<Longrightarrow> wordU64 V x = wordU64 V y \<Longrightarrow> wordU64 V x = Inr h \<Longrightarrow> x = y"
  "toHexLaw V \<Longrightarrow> wordU8 V x = wordU8 V y \<Longrightarrow> wordU8 V x = Inr h \<Longrightarrow> x = y"
  "toHexLaw V \<Longrightarrow> wordU32 V x = wordU32 V y \<Longrightarrow> wordU32 V x = Inr h \<Longrightarrow> x = y"
  by (auto simp: wordU256_def wordU64_def wordU8_def wordU32_def intro: toHex_inj)

lemma addr_inj:
  "padLaw V \<Longrightarrow> isAddr a \<Longrightarrow> isAddr b \<Longrightarrow> wordAddr V a = wordAddr V b \<Longrightarrow> wordAddr V a = Inr h \<Longrightarrow>
   toLowerCase a = toLowerCase b"
  unfolding isAddr_def by (rule pad_inj [of V a h b]) auto

lemma concatE_parts: "concatE V ps = Inr h \<Longrightarrow> p \<in> set ps \<Longrightarrow> \<exists>x. p = Inr x"
proof -
  assume "concatE V ps = Inr h" and p: "p \<in> set ps"
  then obtain hs where "mapE id ps = Inr hs" unfolding concatE_def by blast
  from mapE_all_ok [OF this p] show ?thesis by auto
qed

section \<open>The accumulator commits to the edges\<close>

text \<open>
  What the fold of one edge hashes: the data, the ABI-encoded edge, and the pair of the previous
  accumulator and the leaf.
\<close>

definition stepInputs :: "viem \<Rightarrow> hex \<Rightarrow> RawEdge \<Rightarrow> hex set" where
  "stepInputs V a e =
     (case edgeLeafEncoded V (eKind e) (eAttester e) (eRecipient e) (eUid e) (eBlockTimestamp e)
             (keccak256 V (eData e)) of
        Inl _ \<Rightarrow> {eData e}
      | Inr x \<Rightarrow> {eData e, x, concatHex V [a, keccak256 V x]})"

fun hashedInputs :: "viem \<Rightarrow> hex \<Rightarrow> RawEdge list \<Rightarrow> hex set" where
  "hashedInputs V a [] = {}"
| "hashedInputs V a (e # es) = stepInputs V a e \<union>
     (case accumulateStep V a e of Inl _ \<Rightarrow> {} | Inr a' \<Rightarrow> hashedInputs V a' es)"

lemma accumulateStep_Inr:
  "accumulateStep V a e = Inr a' \<longleftrightarrow>
   (\<exists>x. edgeLeafEncoded V (eKind e) (eAttester e) (eRecipient e) (eUid e) (eBlockTimestamp e)
          (keccak256 V (eData e)) = Inr x \<and> a' = foldLeaf V a (keccak256 V x))"
  by (auto simp: accumulateStep_def edgeLeaf_def Let_def result_simps)

lemma foldE_snoc_Inr:
  "foldE f s (xs @ [x]) = Inr t \<longleftrightarrow> (\<exists>u. foldE f s xs = Inr u \<and> f u x = Inr t)"
  by (auto simp: foldE_append result_simps)

definition wfEdge :: "RawEdge \<Rightarrow> bool" where
  "wfEdge e \<longleftrightarrow> isAddr (eAttester e) \<and> isAddr (eRecipient e) \<and> isWord (eUid e)"

definition edgeKey :: "RawEdge \<Rightarrow> int \<times> hex \<times> hex \<times> hex \<times> int \<times> hex" where
  "edgeKey e = (eKind e, toLowerCase (eAttester e), toLowerCase (eRecipient e), eUid e,
     eBlockTimestamp e, eData e)"

lemma hashedInputs_snoc:
  "foldE (accumulateStep V) a es = Inr a' \<Longrightarrow>
   hashedInputs V a (es @ [e]) = hashedInputs V a es \<union> stepInputs V a' e"
  by (induction es arbitrary: a) (auto split: sum.splits)

lemma isPart_ZERO [part_intros]: "isPart ZERO_HASH"
  by (simp add: isPart_def ZERO_HASH_def)

lemma isPart_step: "digestLaw V \<Longrightarrow> accumulateStep V a e = Inr a' \<Longrightarrow> isPart a'"
  by (auto simp: accumulateStep_def foldLeaf_def Let_def result_simps intro: part_intros)

lemma isPart_acc:
  "digestLaw V \<Longrightarrow> foldE (accumulateStep V) a es = Inr a' \<Longrightarrow> isPart a \<Longrightarrow> isPart a'"
  by (rule foldE_invariant [where P = isPart]) (auto intro: isPart_step)

lemma edge_encoding_inj:
  assumes V: "concatLaw V" "toHexLaw V" "padLaw V" "digestLaw V"
    and wf: "wfEdge e" "wfEdge e'"
    and x: "edgeLeafEncoded V (eKind e) (eAttester e) (eRecipient e) (eUid e) (eBlockTimestamp e)
             (keccak256 V (eData e)) = Inr x"
    and y: "edgeLeafEncoded V (eKind e') (eAttester e') (eRecipient e') (eUid e')
             (eBlockTimestamp e') (keccak256 V (eData e')) = Inr x"
  shows "eKind e = eKind e'" "toLowerCase (eAttester e) = toLowerCase (eAttester e')"
    "toLowerCase (eRecipient e) = toLowerCase (eRecipient e')" "eUid e = eUid e'"
    "eBlockTimestamp e = eBlockTimestamp e'" "keccak256 V (eData e) = keccak256 V (eData e')"
proof -
  note addr = isPart_addr [OF V(3)] and word = isPart_word [OF V(2)]
  have eq: "[wordU8 V (eKind e), wordAddr V (eAttester e), wordAddr V (eRecipient e), Inr (eUid e),
       wordU256 V (eBlockTimestamp e), Inr (keccak256 V (eData e))] =
     [wordU8 V (eKind e'), wordAddr V (eAttester e'), wordAddr V (eRecipient e'), Inr (eUid e'),
       wordU256 V (eBlockTimestamp e'), Inr (keccak256 V (eData e'))]"
    by (rule concatE_inj [OF V(1) x [unfolded edgeLeafEncoded_def] y [unfolded edgeLeafEncoded_def]])
      (use wf isPart_digest [OF V(4)] in
        \<open>auto simp: wfEdge_def intro: addr word isWord_isPart dest!: sym [of "Inr _"]\<close>)
  then have eqs: "wordU8 V (eKind e) = wordU8 V (eKind e')"
    "wordAddr V (eAttester e) = wordAddr V (eAttester e')"
    "wordAddr V (eRecipient e) = wordAddr V (eRecipient e')"
    "wordU256 V (eBlockTimestamp e) = wordU256 V (eBlockTimestamp e')"
    and rest: "eUid e = eUid e'" "keccak256 V (eData e) = keccak256 V (eData e')"
    by simp_all
  have ok: "\<exists>h. wordU8 V (eKind e) = Inr h" "\<exists>h. wordAddr V (eAttester e) = Inr h"
    "\<exists>h. wordAddr V (eRecipient e) = Inr h" "\<exists>h. wordU256 V (eBlockTimestamp e) = Inr h"
    by (rule concatE_parts [OF x [unfolded edgeLeafEncoded_def]]; simp)+
  show "eKind e = eKind e'" using word_inj(3) [OF V(2) eqs(1)] ok(1) by blast
  show "eBlockTimestamp e = eBlockTimestamp e'" using word_inj(1) [OF V(2) eqs(4)] ok(4) by blast
  show "toLowerCase (eAttester e) = toLowerCase (eAttester e')"
    using addr_inj [OF V(3) _ _ eqs(2)] ok(2) wf unfolding wfEdge_def by blast
  show "toLowerCase (eRecipient e) = toLowerCase (eRecipient e')"
    using addr_inj [OF V(3) _ _ eqs(3)] ok(3) wf unfolding wfEdge_def by blast
  show "eUid e = eUid e'" "keccak256 V (eData e) = keccak256 V (eData e')" by (rule rest)+
qed

lemma fold_binding:
  assumes V: "concatLaw V" "toHexLaw V" "padLaw V" "digestLaw V"
    and wf: "\<forall>e \<in> set es. wfEdge e" "\<forall>e \<in> set es'. wfEdge e"
    and inj: "inj_on (keccak256 V) (hashedInputs V ZERO_HASH es \<union> hashedInputs V ZERO_HASH es')"
    and acc: "foldE (accumulateStep V) ZERO_HASH es = Inr a"
      "foldE (accumulateStep V) ZERO_HASH es' = Inr a"
    and len: "length es = length es'"
  shows "map edgeKey es = map edgeKey es'"
  using wf inj acc len
proof (induction es arbitrary: es' a rule: rev_induct)
  case (snoc e es)
  from snoc.prems(6) obtain f fs where fs: "es' = fs @ [f]" "length es = length fs"
    by (cases es' rule: rev_exhaust) auto
  obtain b x where b: "foldE (accumulateStep V) ZERO_HASH es = Inr b"
    and x: "edgeLeafEncoded V (eKind e) (eAttester e) (eRecipient e) (eUid e) (eBlockTimestamp e)
             (keccak256 V (eData e)) = Inr x" and ax: "a = foldLeaf V b (keccak256 V x)"
    using snoc.prems(4) unfolding foldE_snoc_Inr accumulateStep_Inr by blast
  obtain c y where c: "foldE (accumulateStep V) ZERO_HASH fs = Inr c"
    and y: "edgeLeafEncoded V (eKind f) (eAttester f) (eRecipient f) (eUid f) (eBlockTimestamp f)
             (keccak256 V (eData f)) = Inr y" and ay: "a = foldLeaf V c (keccak256 V y)"
    using snoc.prems(5) unfolding fs(1) foldE_snoc_Inr accumulateStep_Inr by blast
  let ?E = "hashedInputs V ZERO_HASH (es @ [e])" and ?F = "hashedInputs V ZERO_HASH (fs @ [f])"
  have sub: "{eData e, x, concatHex V [b, keccak256 V x]} \<union> hashedInputs V ZERO_HASH es \<subseteq> ?E"
    "{eData f, y, concatHex V [c, keccak256 V y]} \<union> hashedInputs V ZERO_HASH fs \<subseteq> ?F"
    using hashedInputs_snoc [OF b] hashedInputs_snoc [OF c] x y by (auto simp: stepInputs_def)
  have inj: "inj_on (keccak256 V) (?E \<union> ?F)" using snoc.prems(3) fs by simp
  have "concatHex V [b, keccak256 V x] = concatHex V [c, keccak256 V y]"
  proof (rule inj_onD [OF inj])
    show "keccak256 V (concatHex V [b, keccak256 V x]) = keccak256 V (concatHex V [c, keccak256 V y])"
      using ax ay unfolding foldLeaf_def by simp
  qed (use sub in blast)+
  then have "concat (map (drop 2) [b, keccak256 V x]) = concat (map (drop 2) [c, keccak256 V y])"
    using V(1) by (simp add: concatLaw_def)
  then have "[b, keccak256 V x] = [c, keccak256 V y]"
    using isPart_acc [OF V(4) b isPart_ZERO] isPart_acc [OF V(4) c isPart_ZERO]
      isPart_digest [OF V(4)] by (intro concat_parts_inj) auto
  then have bc: "b = c" and xy: "x = y"
    using sub by (auto intro: inj_onD [OF inj])
  have wf: "wfEdge e" "wfEdge f" using snoc.prems(1,2) fs by auto
  note fields = edge_encoding_inj [OF V wf x y [folded xy]]
  moreover have "eData e = eData f"
    by (rule inj_onD [OF inj fields(6)]) (use sub in blast)+
  ultimately have "edgeKey e = edgeKey f" by (simp add: edgeKey_def)
  moreover have "map edgeKey es = map edgeKey fs"
  proof (rule snoc.IH [of fs b])
    show "inj_on (keccak256 V) (hashedInputs V ZERO_HASH es \<union> hashedInputs V ZERO_HASH fs)"
      by (rule inj_on_subset [OF inj]) (use sub in blast)
  qed (use snoc.prems(1,2) fs b c bc in auto)
  ultimately show ?case using fs by simp
qed simp

section \<open>The weight decoder\<close>

lemma shift_or_byte: "push_bit 8 v OR uint (b :: 8 word) = v * 256 + uint b" for v :: int
proof -
  have "push_bit 8 v AND uint b = 0"
    by (rule bit_eqI) (simp add: bit_and_iff bit_push_bit_iff bit_uint_iff)
  then have "push_bit 8 v + uint b = push_bit 8 v OR uint b"
    by (rule disjunctive_add_eq_or)
  then show ?thesis by (simp add: push_bit_eq_mult)
qed

lemma decodeLoop_value:
  "0 \<le> i \<Longrightarrow> nat i + k \<le> length bs \<Longrightarrow>
   decodeLoop bs i k v = Some (foldl (\<lambda>v b. v * 256 + uint b) v (take k (drop (nat i) bs)))"
proof (induction k arbitrary: i v)
  case (Suc k)
  then have i: "nat i < length bs" by simp
  have "take (Suc k) (drop (nat i) bs) = bs ! nat i # take k (drop (nat (i + 1)) bs)"
    using i Suc.prems(1) by (simp add: Cons_nth_drop_Suc [symmetric] nat_add_distrib)
  with Suc i show ?case by (simp add: byteAt_def shift_or_byte)
qed simp

lemma foldl_bytes_bound:
  "0 \<le> v \<Longrightarrow> v < 256 ^ m \<Longrightarrow>
   0 \<le> foldl (\<lambda>v (b :: 8 word). v * 256 + uint b) v bs \<and>
   foldl (\<lambda>v (b :: 8 word). v * 256 + uint b) v bs < 256 ^ (m + length bs)"
proof (induction bs arbitrary: v m)
  case (Cons b bs)
  have "uint b < 256" using uint_lt2p [of b] by simp
  moreover have "v + 1 \<le> 256 ^ m" using Cons.prems by simp
  ultimately have "v * 256 + uint b < 256 ^ Suc m" by simp
  with Cons.IH [of "v * 256 + uint b" "Suc m"] Cons.prems show ?case by simp
qed simp

text \<open>The decoder reads a 256-bit value exactly when the slot lies inside the data.\<close>

lemma decodeWeight_spec:
  assumes "0 \<le> index"
  shows "decodeWeight V d index =
    (if nat index * 32 + 32 \<le> length (hexToBytes V d)
     then Some (foldl (\<lambda>v b. v * 256 + uint b) 0
       (take 32 (drop (nat index * 32) (hexToBytes V d))))
     else None)"
proof -
  have "(int (length (hexToBytes V d)) < index * 32 + 32) \<longleftrightarrow>
    \<not> nat index * 32 + 32 \<le> length (hexToBytes V d)"
    using assms by linarith
  moreover have "nat (index * 32) = nat index * 32" using assms by simp
  ultimately show ?thesis
    using assms decodeLoop_value [of "index * 32" 32 "hexToBytes V d" 0]
    by (simp add: decodeWeight_def Let_def)
qed

lemma decodeLoop_nonneg: "decodeLoop bs i k v = Some r \<Longrightarrow> 0 \<le> v \<Longrightarrow> 0 \<le> r"
  by (induction k arbitrary: i v) (auto simp: shift_or_byte split: option.splits)

lemma decodeWeight_nonneg: "decodeWeight V d index = Some w \<Longrightarrow> 0 \<le> w"
  by (auto simp: decodeWeight_def Let_def split: if_splits dest: decodeLoop_nonneg)

end
