(* ===== verification/Instance.thy ===== *)
theory Instance
  imports Encode
begin

text \<open>
  A concrete instance of the external primitives, on which the hypotheses of the properties are
  shown to hold together.  It is no model of the package: its digest keeps the first 32 bytes of
  the input, which is enough to evaluate closed examples.
\<close>

definition prefixDigest :: "hex \<Rightarrow> hex" where
  "prefixDigest x = ''0x'' @ take 64 (map lowerChar (drop 2 x) @ replicate 64 (CHR ''0''))"

definition nibble :: "char \<Rightarrow> nat" where
  "nibble c = (let n = of_char (lowerChar c) in if n < 58 then n - 48 else n - 87)"

fun nibblePairs :: "string \<Rightarrow> bytes" where
  "nibblePairs (c # d # cs) = of_nat (16 * nibble c + nibble d) # nibblePairs cs"
| "nibblePairs _ = []"

text \<open>One 32-byte word per value; a value outside its type throws.\<close>

fun exampleAbi :: "abi_value \<Rightarrow> hex result" where
  "exampleAbi (AbiBytes32 h) = (if length h = 66 then Inr h else Inl (ExternalError ''AbiEncodingBytesSizeMismatchError''))"
| "exampleAbi (AbiAddress a) =
     (if length a = 42 then Inr (''0x'' @ replicate 24 (CHR ''0'') @ drop 2 (toLowerCase a))
      else Inl (ExternalError ''InvalidAddressError''))"
| "exampleAbi (AbiUint w x) =
     (if 0 \<le> x \<and> x < 2 ^ w then Inr (''0x'' @ hexDigits 64 (nat x))
      else Inl (ExternalError ''IntegerOutOfRangeError''))"

definition exampleViem :: viem where
  "exampleViem = \<lparr>
     keccak256 = prefixDigest,
     keccak256Bytes = (\<lambda>bs. prefixDigest (''0x'' @ concat (map (\<lambda>b. hexDigits 2 (unat b)) bs))),
     sha256Hex = prefixDigest,
     sha256Bytes = (\<lambda>bs. prefixDigest (''0x'' @ concat (map (\<lambda>b. hexDigits 2 (unat b)) bs))),
     concatHex = (\<lambda>xs. ''0x'' @ concat (map (drop 2) xs)),
     toHexSized = (\<lambda>x n. if 0 \<le> x \<and> x < 256 ^ n then Inr (''0x'' @ hexDigits (2 * n) (nat x))
                          else Inl (ExternalError ''IntegerOutOfRangeError'')),
     padTo = (\<lambda>a n. if length a \<le> 2 * n + 2
                     then Inr (''0x'' @ replicate (2 * n + 2 - length a) (CHR ''0'') @ drop 2 a)
                     else Inl (ExternalError ''SizeExceedsPaddingSizeError'')),
     hexToBytes = (\<lambda>x. nibblePairs (drop 2 x)),
     bytesToHex = (\<lambda>bs. ''0x'' @ concat (map (\<lambda>b. hexDigits 2 (unat b)) bs)),
     stringToBytes = map of_char,
     stringToHex = (\<lambda>s. ''0x'' @ concat (map (\<lambda>c. hexDigits 2 (of_char c)) s)),
     encodeAbi = (\<lambda>vs. bindE (mapE exampleAbi vs) (\<lambda>ws. Inr (''0x'' @ concat (map (drop 2) ws)))),
     toBytesOf = map of_char\<rparr>"

lemma example_keccak [simp]: "keccak256 exampleViem = prefixDigest"
  by (simp add: exampleViem_def)

lemma example_concat [simp]: "concatHex exampleViem xs = ''0x'' @ concat (map (drop 2) xs)"
  by (simp add: exampleViem_def)

lemma example_toHex [simp]:
  "toHexSized exampleViem x n = (if 0 \<le> x \<and> x < 256 ^ n then Inr (''0x'' @ hexDigits (2 * n) (nat x))
     else Inl (ExternalError ''IntegerOutOfRangeError''))"
  by (simp add: exampleViem_def)

lemma example_pad [simp]:
  "padTo exampleViem a n = (if length a \<le> 2 * n + 2
     then Inr (''0x'' @ replicate (2 * n + 2 - length a) (CHR ''0'') @ drop 2 a)
     else Inl (ExternalError ''SizeExceedsPaddingSizeError''))"
  by (simp add: exampleViem_def)

lemma lowerChar_literals: "lowerChar (CHR ''0'') = CHR ''0''" "lowerChar (CHR ''x'') = CHR ''x''"
  by (simp_all add: lowerChar_def)

lemma isWord_prefixDigest: "isWord (prefixDigest x)"
proof -
  have "map lowerChar (take 64 (map lowerChar (drop 2 x) @ replicate 64 (CHR ''0''))) =
    take 64 (map lowerChar (drop 2 x) @ replicate 64 (CHR ''0''))"
    by (simp add: take_map [symmetric] lowerChar_literals comp_def)
  then show ?thesis
    by (simp add: isWord_def prefixDigest_def canonical_def toLowerCase_def lowerChar_literals
        del: take_append)
qed

lemma example_laws [simp]:
  "concatLaw exampleViem" "toHexLaw exampleViem" "padLaw exampleViem" "digestLaw exampleViem"
  by (auto simp: concatLaw_def toHexLaw_def padLaw_def digestLaw_def isWord_prefixDigest)

end
