(* ===== verification/Apportion.thy ===== *)
theory Apportion
  imports Instance
begin

text \<open>
  Largest-remainder (Hamilton) apportionment: the reference share of a claim, defined without sorting,
  and the interface every implementation of the program keeps.
\<close>

section \<open>The reference\<close>

type_synonym claims = "(hex \<times> int) list"

definition claimTotal :: "claims \<Rightarrow> int" where
  "claimTotal rows = sumOf snd rows"

definition quota :: "int \<Rightarrow> int \<Rightarrow> hex \<times> int \<Rightarrow> int" where
  "quota pool D row = snd row * pool div D"

definition quotaRest :: "int \<Rightarrow> int \<Rightarrow> hex \<times> int \<Rightarrow> int" where
  "quotaRest pool D row = snd row * pool mod D"

text \<open>The order in which the units left over are handed out.\<close>

definition restKey :: "int \<Rightarrow> int \<Rightarrow> hex \<times> int \<Rightarrow> int \<times> hex" where
  "restKey pool D row = (- quotaRest pool D row, fst row)"

definition leftOver :: "int \<Rightarrow> claims \<Rightarrow> int" where
  "leftOver pool rows = pool - sumOf (quota pool (claimTotal rows)) rows"

definition rowsAhead :: "int \<Rightarrow> claims \<Rightarrow> hex \<times> int \<Rightarrow> nat" where
  "rowsAhead pool rows row =
     length (filter (\<lambda>r. restKey pool (claimTotal rows) r < restKey pool (claimTotal rows) row) rows)"

text \<open>The share of a row, with no sorting: its quota, plus one unit when few enough rows are ahead.\<close>

definition share :: "int \<Rightarrow> claims \<Rightarrow> hex \<times> int \<Rightarrow> int" where
  "share pool rows row = quota pool (claimTotal rows) row +
     (if int (rowsAhead pool rows row) < leftOver pool rows then 1 else 0)"

definition okClaims :: "int \<Rightarrow> claims \<Rightarrow> bool" where
  "okClaims pool rows \<longleftrightarrow> 0 \<le> pool \<and> distinct (map fst rows) \<and>
     (\<forall>(k, n) \<in> set rows. canonical k \<and> 0 \<le> n) \<and> 0 < claimTotal rows"

text \<open>Claims every implementation accepts: all positive, with a total within 256 bits.\<close>

definition fairClaims :: "int \<Rightarrow> claims \<Rightarrow> bool" where
  "fairClaims pool rows \<longleftrightarrow> rows \<noteq> [] \<and> 0 \<le> pool \<and> distinct (map fst rows) \<and>
     (\<forall>(k, n) \<in> set rows. canonical k \<and> 0 < n) \<and> claimTotal rows \<le> U256_MAX"

definition amountOf :: "(hex, int) jmap \<Rightarrow> hex \<Rightarrow> int" where
  "amountOf res k = orDefault (jget res k) 0"

lemma amountOf_none: "k \<notin> set (jkeys res) \<Longrightarrow> amountOf res k = 0"
  by (cases "jget res k") (auto simp: amountOf_def orDefault_def dest: jget_Some_key)

lemma claimTotal_pos: "okClaims pool rows \<Longrightarrow> 0 < claimTotal rows"
  by (simp add: okClaims_def)

lemma okClaims_nonempty: "okClaims pool rows \<Longrightarrow> rows \<noteq> []"
  by (auto simp: okClaims_def claimTotal_def)

lemma fair_ok: "fairClaims pool rows \<Longrightarrow> okClaims pool rows"
  unfolding okClaims_def fairClaims_def claimTotal_def
  by (auto intro!: sumOf_pos less_imp_le)

lemma quota_split: "D * quota pool D r + quotaRest pool D r = snd r * pool"
  by (simp add: quota_def quotaRest_def)

lemma leftOver_rests:
  assumes "okClaims pool rows"
  shows "leftOver pool rows * claimTotal rows = sumOf (quotaRest pool (claimTotal rows)) rows"
proof -
  let ?D = "claimTotal rows"
  have "?D * sumOf (quota pool ?D) xs + sumOf (quotaRest pool ?D) xs = pool * sumOf snd xs" for xs
  proof (induction xs)
    case (Cons x xs)
    then show ?case using quota_split [of ?D pool x] by (simp add: distrib_left mult.commute)
  qed simp
  from this [of rows] show ?thesis
    by (simp add: leftOver_def algebra_simps flip: claimTotal_def)
qed

lemma leftOver_bounds:
  assumes "okClaims pool rows"
  shows "0 \<le> leftOver pool rows" and "leftOver pool rows < int (length rows)"
proof -
  let ?D = "claimTotal rows"
  have D: "0 < ?D" using assms by (rule claimTotal_pos)
  have "0 \<le> sumOf (quotaRest pool ?D) rows" using D by (intro sumOf_nonneg) (simp add: quotaRest_def)
  then have "0 \<le> leftOver pool rows * ?D" unfolding leftOver_rests [OF assms] .
  then show "0 \<le> leftOver pool rows" using D by (simp add: zero_le_mult_iff)
  have "sumOf (quotaRest pool ?D) rows < ?D * int (length rows)"
    using okClaims_nonempty [OF assms] D by (intro sumOf_strict_bound) (auto simp: quotaRest_def)
  then have "leftOver pool rows * ?D < int (length rows) * ?D"
    unfolding leftOver_rests [OF assms] by (simp add: mult.commute)
  then show "leftOver pool rows < int (length rows)" using D by (simp add: mult_less_cancel_right)
qed

text \<open>In a strictly sorted list, the position of an element is the number of elements ahead of it.\<close>

lemma position_rank:
  fixes f :: "'a \<Rightarrow> 'k::linorder"
  assumes "sorted_wrt (<) (map f ord)" and "i < length ord"
  shows "length (filter (\<lambda>x. f x < f (ord ! i)) ord) = i"
proof -
  have less: "f (ord ! a) < f (ord ! b)" if "a < b" "b < length ord" for a b
    using sorted_wrt_nth_less [OF assms(1), of a b] that by simp
  have "\<forall>x \<in> set (take i ord). f x < f (ord ! i)"
    using less assms(2) by (fastforce simp: in_set_conv_nth)
  then have t: "filter (\<lambda>x. f x < f (ord ! i)) (take i ord) = take i ord" by (simp add: filter_id_conv)
  have "\<not> f x < f (ord ! i)" if "x \<in> set (drop i ord)" for x
  proof -
    from that obtain j where "j < length ord - i" and x: "x = ord ! (i + j)"
      by (auto simp: in_set_conv_nth)
    then have "f (ord ! i) \<le> f x" using less [of i "i + j"] by (cases "j = 0") (auto simp: less_imp_le)
    then show ?thesis by simp
  qed
  then have "filter (\<lambda>x. f x < f (ord ! i)) (drop i ord) = []" by (simp add: filter_empty_conv)
  with t have "filter (\<lambda>x. f x < f (ord ! i)) ord = take i ord"
    by (metis append_Nil2 append_take_drop_id filter_append)
  then show ?thesis using assms(2) by simp
qed

lemma rank_same: "mset xs = mset ys \<Longrightarrow> length (filter P xs) = length (filter P ys)"
  by (metis mset_filter size_mset)

text \<open>A row is among the first \<open>m\<close> in the order exactly when fewer than \<open>m\<close> rows are ahead of it.\<close>

lemma in_take_rank:
  fixes f :: "'a \<Rightarrow> 'k::linorder"
  assumes sorted: "sorted_wrt (<) (map f ord)" and same: "mset ord = mset rows" and x: "x \<in> set rows"
  shows "x \<in> set (take m ord) \<longleftrightarrow> length (filter (\<lambda>y. f y < f x) rows) < m"
proof -
  from x obtain i where i: "i < length ord" "ord ! i = x"
    by (metis in_set_conv_nth same set_mset_mset)
  have "distinct (map f ord)" using sorted strict_sorted_iff by blast
  then have d: "distinct ord" by (simp add: distinct_map)
  have "x \<in> set (take m ord) \<longleftrightarrow> i < m"
  proof
    assume "x \<in> set (take m ord)"
    then obtain j where "j < length (take m ord)" "take m ord ! j = x" by (meson in_set_conv_nth)
    then have "j < m" "j < length ord" "ord ! j = ord ! i" using i by auto
    with i nth_eq_iff_index_eq [OF d, of j i] show "i < m" by simp
  next
    assume "i < m"
    with i have "i < length (take m ord)" "take m ord ! i = x" by auto
    then show "x \<in> set (take m ord)" by (metis nth_mem)
  qed
  with position_rank [OF sorted i(1)] i(2) rank_same [OF same, of "\<lambda>y. f y < f x"] show ?thesis by simp
qed

lemma restKey_strict:
  assumes "distinct (map fst ord)" and "sorted (map (restKey pool D) ord)"
  shows "sorted_wrt (<) (map (restKey pool D) ord)"
proof -
  have "distinct (map snd (map (restKey pool D) ord))" using assms(1) by (simp add: restKey_def comp_def)
  then have "distinct (map (restKey pool D) ord)" by (auto simp: distinct_map intro: inj_on_imageI2)
  with assms(2) show ?thesis by (simp add: strict_sorted_iff)
qed

text \<open>The rows that get one unit more: the first \<open>leftOver\<close> in a sorted order.\<close>

lemma share_take:
  assumes fair: "okClaims pool rows" and same: "mset ord = mset rows"
    and srt: "sorted (map (restKey pool (claimTotal rows)) ord)" and r: "r \<in> set rows"
  shows "share pool rows r = quota pool (claimTotal rows) r +
    (if r \<in> set (take (nat (leftOver pool rows)) ord) then 1 else 0)"
proof -
  have "distinct (map fst ord)"
    using fair same by (metis okClaims_def mset_eq_imp_distinct_iff mset_map)
  from in_take_rank [OF restKey_strict [OF this srt] same r, of "nat (leftOver pool rows)"]
  have "r \<in> set (take (nat (leftOver pool rows)) ord) \<longleftrightarrow> int (rowsAhead pool rows r) < leftOver pool rows"
    using leftOver_bounds(1) [OF fair] by (simp add: rowsAhead_def zless_nat_eq_int_zless)
  then show ?thesis by (simp add: share_def)
qed

text \<open>The shares use up the pool.\<close>

definition restOrder :: "int \<Rightarrow> claims \<Rightarrow> claims" where
  "restOrder pool rows = sort_key (restKey pool (claimTotal rows)) rows"

lemma sumOf_indicator:
  "distinct xs \<Longrightarrow> sumOf (\<lambda>x. if x \<in> S then 1 else 0) xs = int (card (set xs \<inter> S))"
proof (induction xs)
  case (Cons x xs)
  then show ?case by (simp add: Int_insert_left)
qed simp

lemma share_sum:
  assumes fair: "okClaims pool rows"
  shows "sumOf (share pool rows) rows = pool"
proof -
  let ?ord = "restOrder pool rows" and ?m = "nat (leftOver pool rows)"
  have same: "mset ?ord = mset rows" by (simp add: restOrder_def)
  have d: "distinct rows" using fair by (auto simp: okClaims_def distinct_map)
  have "map (share pool rows) rows =
      map (\<lambda>r. quota pool (claimTotal rows) r + (if r \<in> set (take ?m ?ord) then 1 else 0)) rows"
    by (intro map_cong refl share_take [OF fair same]) (simp_all add: restOrder_def)
  then have "sumOf (share pool rows) rows =
      sumOf (quota pool (claimTotal rows)) rows + sumOf (\<lambda>r. if r \<in> set (take ?m ?ord) then 1 else 0) rows"
    by (simp only: sum_list_addf)
  also have "sumOf (\<lambda>r. if r \<in> set (take ?m ?ord) then 1 else 0) rows = int (card (set rows \<inter> set (take ?m ?ord)))"
    using d by (rule sumOf_indicator)
  also have "set rows \<inter> set (take ?m ?ord) = set (take ?m ?ord)"
    using same by (metis inf.absorb2 set_mset_mset set_take_subset)
  also have "card (set (take ?m ?ord)) = ?m"
  proof -
    have "distinct ?ord" using d same mset_eq_imp_distinct_iff by blast
    moreover have "?m \<le> length ?ord" using leftOver_bounds [OF fair] by (simp add: restOrder_def)
    ultimately show ?thesis by (simp add: distinct_card)
  qed
  finally show ?thesis using leftOver_bounds(1) [OF fair] by (simp add: leftOver_def)
qed

lemma share_quota: "quota pool (claimTotal rows) r \<le> share pool rows r"
  "share pool rows r \<le> quota pool (claimTotal rows) r + 1"
  by (simp_all add: share_def)

text \<open>A larger claim never gets a smaller share.\<close>

lemma share_mono:
  assumes fair: "okClaims pool rows" and le: "snd a < snd b"
  shows "share pool rows a \<le> share pool rows b"
proof -
  let ?D = "claimTotal rows"
  have D: "0 < ?D" and pool: "0 \<le> pool" using fair claimTotal_pos by (auto simp: okClaims_def)
  have le': "snd a * pool \<le> snd b * pool" using le pool by (simp add: mult_right_mono)
  then have q: "quota pool ?D a \<le> quota pool ?D b" using D by (simp add: quota_def zdiv_mono1)
  show ?thesis
  proof (cases "quota pool ?D a = quota pool ?D b")
    case True
    have "quotaRest pool ?D a \<le> quotaRest pool ?D b"
      using le' quota_split [of ?D pool a] quota_split [of ?D pool b] unfolding True by linarith
    show ?thesis
    proof (cases "quotaRest pool ?D a = quotaRest pool ?D b")
      case eq: True
      then have "snd a * pool = snd b * pool"
        using quota_split [of ?D pool a] quota_split [of ?D pool b] unfolding True by linarith
      with le have "pool = 0" by simp
      then have "leftOver pool rows = 0" by (simp add: leftOver_def sumOf_zero quota_def)
      with True show ?thesis by (simp add: share_def)
    next
      case False
      with \<open>quotaRest pool ?D a \<le> quotaRest pool ?D b\<close>
      have "restKey pool ?D b < restKey pool ?D a" by (simp add: restKey_def less_prod_def)
      then have "rowsAhead pool rows b \<le> rowsAhead pool rows a"
        unfolding rowsAhead_def by (intro length_filter_mono) (rule less_trans)
      with True show ?thesis by (simp add: share_def)
    qed
  next
    case False
    with q share_quota [of pool rows a] share_quota [of pool rows b] show ?thesis by linarith
  qed
qed

lemma share_perm:
  assumes "mset rows = mset rows'"
  shows "share pool rows r = share pool rows' r"
proof -
  have sums: "sumOf f rows = sumOf f rows'" for f :: "hex \<times> int \<Rightarrow> int"
    using assms by (metis mset_map sum_mset_sum_list)
  then have D: "claimTotal rows = claimTotal rows'" by (simp add: claimTotal_def)
  have "leftOver pool rows = leftOver pool rows'" using sums by (simp add: leftOver_def D)
  moreover have "rowsAhead pool rows r = rowsAhead pool rows' r"
    unfolding rowsAhead_def D using assms by (rule rank_same)
  ultimately show ?thesis by (simp add: share_def D)
qed

section \<open>The interface\<close>

text \<open>
  An apportionment of \<open>pool\<close> units among claims: on fair claims it returns, under strictly increasing
  keys taken from the claims, the reference share of every claim.
\<close>

locale apportionment =
  fixes alloc :: "int \<Rightarrow> claims \<Rightarrow> (hex, int) jmap result"
  assumes alloc_share: "fairClaims pool rows \<Longrightarrow>
    \<exists>res. alloc pool rows = Inr res \<and> sorted_wrt (<) (jkeys res) \<and> set (jkeys res) \<subseteq> fst ` set rows \<and>
      (\<forall>r \<in> set rows. amountOf res (fst r) = share pool rows r)"
begin

lemma returns: "fairClaims pool rows \<Longrightarrow> \<exists>res. alloc pool rows = Inr res"
  using alloc_share by blast

lemma shares: "fairClaims pool rows \<Longrightarrow> alloc pool rows = Inr res \<Longrightarrow> r \<in> set rows \<Longrightarrow>
  amountOf res (fst r) = share pool rows r"
  using alloc_share [of pool rows] by auto

lemma keys: "fairClaims pool rows \<Longrightarrow> alloc pool rows = Inr res \<Longrightarrow>
  sorted_wrt (<) (jkeys res) \<and> set (jkeys res) \<subseteq> fst ` set rows"
  using alloc_share [of pool rows] by auto

lemma no_others:
  assumes "fairClaims pool rows" and "alloc pool rows = Inr res" and "k \<notin> fst ` set rows"
  shows "amountOf res k = 0"
proof -
  have "k \<notin> set (jkeys res)" using keys [OF assms(1,2)] assms(3) by blast
  then show ?thesis by (rule amountOf_none)
qed

text \<open>The pool is paid out to the last unit.\<close>

lemma exhausts:
  assumes fair: "fairClaims pool rows" and run: "alloc pool rows = Inr res"
  shows "sumOf snd res = pool"
proof -
  have d: "distinct (jkeys res)" using keys [OF fair run] by (simp add: strict_sorted_iff)
  have dr: "distinct (map fst rows)" using fair by (simp add: fairClaims_def)
  have "map snd res = map (amountOf res) (jkeys res)"
    using d by (auto simp: amountOf_def orDefault_def)
  then have "sumOf snd res = (\<Sum>k \<in> set (jkeys res). amountOf res k)"
    using d by (simp only: sum_list_distinct_conv_sum_set)
  also have "\<dots> = (\<Sum>k \<in> set (map fst rows). amountOf res k)"
  proof (rule sum.mono_neutral_left)
    show "set (jkeys res) \<subseteq> set (map fst rows)" using keys [OF fair run] by simp
    show "\<forall>k \<in> set (map fst rows) - set (jkeys res). amountOf res k = 0"
      using amountOf_none by blast
  qed simp
  also have "\<dots> = sumOf (amountOf res) (map fst rows)"
    using dr by (simp only: sum_list_distinct_conv_sum_set)
  also have "\<dots> = sumOf (share pool rows) rows"
    using shares [OF fair run] by (simp add: comp_def cong: map_cong)
  finally show ?thesis using share_sum [OF fair_ok [OF fair]] by simp
qed

text \<open>Every claim gets its exact proportion, rounded down or up.\<close>

lemma within_one:
  assumes "fairClaims pool rows" and "alloc pool rows = Inr res" and "r \<in> set rows"
  shows "quota pool (claimTotal rows) r \<le> amountOf res (fst r)"
    and "amountOf res (fst r) \<le> quota pool (claimTotal rows) r + 1"
  using shares [OF assms] share_quota by simp_all

lemma order_independent:
  assumes "fairClaims pool rows" and "fairClaims pool rows'" and "mset rows = mset rows'"
    and "alloc pool rows = Inr res" and "alloc pool rows' = Inr res'"
  shows "amountOf res k = amountOf res' k"
proof (cases "k \<in> fst ` set rows")
  case True
  then obtain r where r: "r \<in> set rows" "fst r = k" by auto
  moreover have "r \<in> set rows'" using r assms(3) by (metis set_mset_mset)
  ultimately show ?thesis
    using shares [OF assms(1,4)] shares [OF assms(2,5)] share_perm [OF assms(3)] by metis
next
  case False
  moreover have "set rows' = set rows" using assms(3) by (metis set_mset_mset)
  ultimately show ?thesis using no_others [OF assms(1,4)] no_others [OF assms(2,5)] by simp
qed

lemma monotone:
  assumes "fairClaims pool rows" and "alloc pool rows = Inr res" and "a \<in> set rows" "b \<in> set rows"
    and "snd a < snd b"
  shows "amountOf res (fst a) \<le> amountOf res (fst b)"
  using shares [OF assms(1,2)] share_mono [OF fair_ok [OF assms(1)] assms(5)] assms(3,4) by simp

end

text \<open>Any two implementations of the interface pay every account the same.\<close>

lemma apportionment_unique:
  assumes a: "apportionment alloc" and b: "apportionment alloc'" and fair: "fairClaims pool rows"
    and "alloc pool rows = Inr res" and "alloc' pool rows = Inr res'"
  shows "amountOf res k = amountOf res' k"
proof (cases "k \<in> fst ` set rows")
  case True
  then obtain r where "r \<in> set rows" "fst r = k" by auto
  then show ?thesis
    using apportionment.shares [OF a fair assms(4)] apportionment.shares [OF b fair assms(5)] by metis
next
  case False
  then show ?thesis
    using apportionment.no_others [OF a fair assms(4)] apportionment.no_others [OF b fair assms(5)] by simp
qed

end
