(* ===== verification/Distribute.thy ===== *)
theory Distribute
  imports Apportion
begin

text \<open>
  \<open>lib/pagerank/distribute.ts\<close>: the allocation of the points pool by largest remainders, and the
  proof that it is an apportionment.
\<close>

section \<open>Definitions\<close>

record PointRow =
  prKey :: hex
  prValue :: int
  prRemainder :: int

definition pointScores :: "(hex \<times> int) list \<Rightarrow> (hex \<times> int) list" where
  "pointScores scoresFp = sortBy (\<lambda>a b. cmpHex (fst a) (fst b)) (filter (\<lambda>(_, v). v > 0) scoresFp)"

definition duplicateKey :: "(hex \<times> int) list \<Rightarrow> bool" where
  "duplicateKey scores \<longleftrightarrow>
     list_ex (\<lambda>i. i > 0 \<and> cmpHex (fst (scores ! i)) (fst (scores ! (i - 1))) = 0) [0..<length scores]"

definition pointRow :: "int \<Rightarrow> int \<Rightarrow> hex \<times> int \<Rightarrow> PointRow result" where
  "pointRow pool tot score =
     (let product = snd score * pool in
      bindE (bigDiv product tot) (\<lambda>v.
      bindE (bigMod product tot) (\<lambda>r.
      Inr \<lparr>prKey = fst score, prValue = v, prRemainder = r\<rparr>)))"

definition pointOrder :: "PointRow list \<Rightarrow> nat list" where
  "pointOrder rows =
     sortBy (\<lambda>a b. orElse (cmpBig (prRemainder (rows ! b)) (prRemainder (rows ! a)))
                          (cmpHex (prKey (rows ! a)) (prKey (rows ! b))))
       [0..<length rows]"

definition payRows :: "PointRow list \<Rightarrow> nat list \<Rightarrow> PointRow list" where
  "payRows = foldl (\<lambda>rows i. rows[i := (rows ! i)\<lparr>prValue := prValue (rows ! i) + 1\<rparr>])"

definition distributePoints :: "(hex \<times> int) list \<Rightarrow> Params \<Rightarrow> ((hex \<times> int) list \<times> int) result" where
  "distributePoints scoresFp p =
     (let scores = pointScores scoresFp in
      if duplicateKey scores then Inl (PlainError ''duplicate allocation key'')
      else if length scores = 0 \<or> totalPool p = 0 then Inr ([], 0)
      else
        bindE (foldE (\<lambda>acc score. checkedAdd acc (snd score) ''allocation score sum'') 0 scores) (\<lambda>total.
        bindE (mapE (pointRow (totalPool p) total) scores) (\<lambda>rows.
        let floors = foldl (\<lambda>acc row. acc + prValue row) 0 rows;
            missing = totalPool p - floors in
        if missing < 0 \<or> missing \<ge> int (length rows)
        then Inl (PlainError ''invalid Hamilton remainder'')
        else
          let paid = payRows rows (sliceTo missing (pointOrder rows)) in
          Inr (map (\<lambda>row. (prKey row, prValue row)) (filter (\<lambda>row. prValue row > 0) paid), totalPool p))))"

section \<open>Paying the left-over units\<close>

lemma foldl_update_nth:
  "distinct is \<Longrightarrow> \<forall>i \<in> set is. i < length xs \<Longrightarrow>
   foldl (\<lambda>xs i. xs[i := f (xs ! i)]) xs is =
     map (\<lambda>j. if j \<in> set is then f (xs ! j) else xs ! j) [0..<length xs]"
proof (induction "is" arbitrary: xs)
  case Nil
  show ?case by (simp add: map_nth)
next
  case (Cons i "is")
  from Cons.prems have "foldl (\<lambda>xs i. xs[i := f (xs ! i)]) xs (i # is) =
      map (\<lambda>j. if j \<in> set is then f (xs[i := f (xs ! i)] ! j) else xs[i := f (xs ! i)] ! j) [0..<length xs]"
    using Cons.IH [of "xs[i := f (xs ! i)]"] by simp
  also have "\<dots> = map (\<lambda>j. if j \<in> set (i # is) then f (xs ! j) else xs ! j) [0..<length xs]"
    using Cons.prems by (auto simp: nth_list_update)
  finally show ?case .
qed

lemma foldl_sum: "foldl (\<lambda>acc row. acc + f row) (a :: int) rows = a + sumOf f rows"
  by (induction rows arbitrary: a) auto

lemma foldE_checkedAdd_total:
  assumes "\<forall>e \<in> set es. 0 \<le> snd e" and "sumOf snd es \<le> U256_MAX"
  shows "foldE (\<lambda>acc e. checkedAdd acc (snd e) c) 0 es = Inr (sumOf snd es)"
proof -
  have "\<forall>e \<in> set es. 0 \<le> snd e \<Longrightarrow> a + sumOf snd es \<le> U256_MAX \<Longrightarrow>
      foldE (\<lambda>acc e. checkedAdd acc (snd e) c) a es = Inr (a + sumOf snd es)" for a
  proof (induction es arbitrary: a)
    case (Cons e es)
    moreover have "0 \<le> sumOf snd es" using Cons.prems by (intro sumOf_nonneg) simp
    ultimately show ?case by (simp add: checkedAdd_def add.assoc)
  qed simp
  from this [of 0] assms show ?thesis by simp
qed

section \<open>The shares\<close>

definition rowOf :: "int \<Rightarrow> int \<Rightarrow> hex \<times> int \<Rightarrow> PointRow" where
  "rowOf pool D r = \<lparr>prKey = fst r, prValue = quota pool D r, prRemainder = quotaRest pool D r\<rparr>"

lemma pointRow_value: "0 \<le> snd r * pool \<Longrightarrow> 0 < D \<Longrightarrow> pointRow pool D r = Inr (rowOf pool D r)"
  by (simp add: pointRow_def rowOf_def quota_def quotaRest_def Let_def)

text \<open>The order of the indices is the order of the left-over units.\<close>

interpretation pointcmp: keyed_comparator
  "\<lambda>a b. orElse (cmpBig (prRemainder (rows ! b)) (prRemainder (rows ! a)))
                (cmpHex (prKey (rows ! a)) (prKey (rows ! b)))"
  "\<lambda>i. (- prRemainder (rows ! i), toLowerCase (prKey (rows ! i)))" for rows :: "PointRow list"
  by unfold_locales
    (auto simp: cmpBig_cmpLin cmpHex_cmpLin orElse_def cmpLin_def less_eq_prod_def)

lemma map_nth_same: "mset is = mset [0..<length xs] \<Longrightarrow> mset (map ((!) xs) is) = mset xs"
  by (metis map_nth mset_map)

lemma index_in_take:
  assumes "distinct xs" and "mset is = mset [0..<length xs]" and "i < length xs"
  shows "xs ! i \<in> set (take m (map ((!) xs) is)) \<longleftrightarrow> i \<in> set (take m is)"
proof -
  have "set is = {0..<length xs}" using assms(2) by (metis atLeastLessThan_upt set_mset_mset)
  then have "\<forall>j \<in> set (take m is). j < length xs" using in_set_takeD by fastforce
  then show ?thesis using assms(1,3) by (auto simp: take_map nth_eq_iff_index_eq)
qed

text \<open>The order as a list of claims, ready for the reference.\<close>

lemma pointOrder_claims:
  assumes "rows = map (rowOf pool D) scores" and "\<forall>r \<in> set scores. canonical (fst r)"
  shows "mset (pointOrder rows) = mset [0..<length scores]"
    and "sorted (map (restKey pool D) (map ((!) scores) (pointOrder rows)))"
proof -
  show 1: "mset (pointOrder rows) = mset [0..<length scores]"
    using assms(1) by (simp add: pointOrder_def)
  have "sorted (map (\<lambda>i. (- prRemainder (rows ! i), toLowerCase (prKey (rows ! i)))) (pointOrder rows))"
    unfolding pointOrder_def by (rule pointcmp.sortBy_sorted)
  moreover have "map (\<lambda>i. (- prRemainder (rows ! i), toLowerCase (prKey (rows ! i)))) (pointOrder rows) =
      map (restKey pool D) (map ((!) scores) (pointOrder rows))"
  proof -
    have "\<forall>i \<in> set (pointOrder rows). i < length scores"
      using 1 by (metis atLeastLessThan_iff atLeastLessThan_upt set_mset_mset)
    then show ?thesis using assms by (simp add: rowOf_def restKey_def canonicalD)
  qed
  ultimately show "sorted (map (restKey pool D) (map ((!) scores) (pointOrder rows)))" by simp
qed

lemma payRows_shares:
  assumes fair: "fairClaims pool scores"
    and rows: "rows = map (rowOf pool (claimTotal scores)) scores"
  shows "payRows rows (sliceTo (leftOver pool scores) (pointOrder rows)) =
    map (\<lambda>r. (rowOf pool (claimTotal scores) r)\<lparr>prValue := share pool scores r\<rparr>) scores"
proof -
  let ?D = "claimTotal scores" and ?m = "nat (leftOver pool scores)"
  let ?is = "pointOrder rows"
  have can: "\<forall>r \<in> set scores. canonical (fst r)" using fair by (auto simp: fairClaims_def)
  note ord = pointOrder_claims [OF rows can]
  have dist: "distinct scores" using fair by (auto simp: fairClaims_def distinct_map)
  have dis: "distinct ?is" using ord(1) by (metis distinct_upt mset_eq_imp_distinct_iff)
  have below: "\<forall>i \<in> set ?is. i < length rows"
    using ord(1) rows by (metis atLeastLessThan_iff atLeastLessThan_upt length_map set_mset_mset)
  have taken: "\<forall>i \<in> set (take ?m ?is). i < length rows" using below in_set_takeD by fast
  have "sliceTo (leftOver pool scores) ?is = take ?m ?is"
    using leftOver_bounds(1) [OF fair_ok [OF fair]] by (simp add: sliceTo_def)
  then have "payRows rows (sliceTo (leftOver pool scores) ?is) =
      map (\<lambda>j. if j \<in> set (take ?m ?is) then (rows ! j)\<lparr>prValue := prValue (rows ! j) + 1\<rparr> else rows ! j)
        [0..<length rows]"
    unfolding payRows_def using dis below
    by (simp only: foldl_update_nth [where f = "\<lambda>row. row\<lparr>prValue := prValue row + 1\<rparr>", OF distinct_take [OF dis] taken])
  also have "\<dots> = map (\<lambda>r. (rowOf pool ?D r)\<lparr>prValue := share pool scores r\<rparr>) scores"
  proof (rule nth_equalityI)
    fix j assume "j < length (map (\<lambda>j. if j \<in> set (take ?m ?is)
      then (rows ! j)\<lparr>prValue := prValue (rows ! j) + 1\<rparr> else rows ! j) [0..<length rows])"
    then have j: "j < length scores" by (simp add: rows)
    have "share pool scores (scores ! j) = quota pool ?D (scores ! j) + (if j \<in> set (take ?m ?is) then 1 else 0)"
      using share_take [OF fair_ok [OF fair] map_nth_same [OF ord(1)] ord(2), of "scores ! j"] j
        index_in_take [OF dist ord(1) j] by simp
    with j show "map (\<lambda>j. if j \<in> set (take ?m ?is)
      then (rows ! j)\<lparr>prValue := prValue (rows ! j) + 1\<rparr> else rows ! j) [0..<length rows] ! j =
      map (\<lambda>r. (rowOf pool ?D r)\<lparr>prValue := share pool scores r\<rparr>) scores ! j"
      by (simp add: rows rowOf_def)
  qed (simp add: rows)
  finally show ?thesis .
qed

lemma fairClaims_perm:
  assumes "mset rows = mset rows'" and "fairClaims pool rows"
  shows "fairClaims pool rows'"
proof -
  have "claimTotal rows = claimTotal rows'"
    unfolding claimTotal_def using assms(1) by (metis mset_map sum_mset_sum_list)
  moreover have "distinct (map fst rows) = distinct (map fst rows')"
    using assms(1) by (metis mset_eq_imp_distinct_iff mset_map)
  moreover have "set rows = set rows'" "rows = [] \<longleftrightarrow> rows' = []"
    using assms(1) by (metis set_mset_mset) (use assms(1) in auto)
  ultimately show ?thesis using assms(2) by (simp add: fairClaims_def)
qed

lemma strict_keys:
  assumes "\<forall>r \<in> set rows. canonical (fst r)" and "distinct (map fst rows)"
  shows "sorted_wrt (<) (map fst (sortBy (\<lambda>a b. cmpHex (fst a) (fst b)) rows))"
proof -
  let ?s = "sortBy (\<lambda>a b. cmpHex (fst a) (fst b)) rows"
  have "sorted (map (\<lambda>r. toLowerCase (fst r)) ?s)" by (rule hexfst.sortBy_sorted)
  moreover have "map (\<lambda>r. toLowerCase (fst r)) ?s = map fst ?s" using assms(1) by (simp add: canonicalD)
  ultimately show ?thesis using assms(2) by (simp add: strict_sorted_iff)
qed

lemma duplicateKey_iff:
  assumes "\<forall>r \<in> set scores. canonical (fst r)" and "sorted (map fst scores)"
  shows "duplicateKey scores \<longleftrightarrow> \<not> distinct (map fst scores)"
proof -
  have eq: "cmpHex (fst (scores ! i)) (fst (scores ! j)) = 0 \<longleftrightarrow> fst (scores ! i) = fst (scores ! j)"
    if "i < length scores" "j < length scores" for i j
    using assms(1) that by (simp add: canonicalD)
  have "duplicateKey scores \<longleftrightarrow> (\<exists>i < length scores. 0 < i \<and> fst (scores ! i) = fst (scores ! (i - 1)))"
    unfolding duplicateKey_def list_ex_iff using eq by fastforce
  also have "\<dots> \<longleftrightarrow> \<not> distinct (map fst scores)"
  proof
    assume "\<exists>i < length scores. 0 < i \<and> fst (scores ! i) = fst (scores ! (i - 1))"
    then obtain i where "i < length scores" "0 < i" "map fst scores ! i = map fst scores ! (i - 1)" by auto
    moreover have "i \<noteq> i - 1" "i - 1 < length scores" using calculation by auto
    ultimately show "\<not> distinct (map fst scores)" by (metis length_map nth_eq_iff_index_eq)
  next
    assume "\<not> distinct (map fst scores)"
    then obtain i j where ij: "i < j" "j < length scores" "map fst scores ! i = map fst scores ! j"
      by (metis distinct_conv_nth length_map linorder_neqE_nat)
    have "map fst scores ! i \<le> map fst scores ! (j - 1)"
      by (rule sorted_nth_mono [OF assms(2)]) (use ij in auto)
    moreover have "map fst scores ! (j - 1) \<le> map fst scores ! j"
      by (rule sorted_nth_mono [OF assms(2)]) (use ij in auto)
    ultimately have "fst (scores ! j) = fst (scores ! (j - 1))" using ij by simp
    with ij show "\<exists>i < length scores. 0 < i \<and> fst (scores ! i) = fst (scores ! (i - 1))"
      by (intro exI [of _ j]) auto
  qed
  finally show ?thesis .
qed

lemma distributePoints_shares:
  assumes fair: "fairClaims (totalPool p) rows"
  shows "distributePoints rows p = Inr
    (filter (\<lambda>(k, v). v > 0) (map (\<lambda>r. (fst r, share (totalPool p) rows r)) (pointScores rows)), totalPool p)"
proof -
  let ?pool = "totalPool p" and ?s = "pointScores rows"
  have pos: "\<forall>r \<in> set rows. 0 < snd r" and pool: "0 \<le> ?pool" using fair by (auto simp: fairClaims_def)
  have "filter (\<lambda>(_, v). v > 0) rows = rows" using pos by (auto simp: filter_id_conv)
  then have s: "?s = sortBy (\<lambda>a b. cmpHex (fst a) (fst b)) rows" by (simp add: pointScores_def)
  then have same: "mset ?s = mset rows" by simp
  have fs: "fairClaims ?pool ?s" using fairClaims_perm [OF same [symmetric] fair] .
  have can: "\<forall>r \<in> set ?s. canonical (fst r)" and ne: "?s \<noteq> []" and ps: "\<forall>r \<in> set ?s. 0 < snd r"
    and dd: "distinct (map fst ?s)" using fs by (auto simp: fairClaims_def)
  have "sorted_wrt (<) (map fst ?s)" unfolding s using can dd s by (intro strict_keys) auto
  then have "sorted (map fst ?s)" by (simp add: strict_sorted_iff)
  then have dup: "\<not> duplicateKey ?s" using duplicateKey_iff [OF can] dd by blast
  show ?thesis
  proof (cases "?pool = 0")
    case True
    have "share 0 rows r = 0" for r
      by (simp add: share_def leftOver_def quota_def sumOf_zero)
    with True dup show ?thesis by (simp add: distributePoints_def filter_empty_conv)
  next
    case False
    let ?D = "claimTotal ?s"
    have tot: "foldE (\<lambda>acc score. checkedAdd acc (snd score) ''allocation score sum'') 0 ?s = Inr ?D"
      unfolding claimTotal_def using ps fs
      by (intro foldE_checkedAdd_total) (auto simp: fairClaims_def claimTotal_def less_imp_le)
    have D: "0 < ?D" by (rule claimTotal_pos [OF fair_ok [OF fs]])
    let ?rows = "map (rowOf ?pool ?D) ?s"
    have rows: "mapE (pointRow ?pool ?D) ?s = Inr ?rows"
      using ps pool D by (intro mapE_total pointRow_value) (auto simp: less_imp_le)
    have floors: "foldl (\<lambda>acc row. acc + prValue row) 0 ?rows = sumOf (quota ?pool ?D) ?s"
      by (simp add: foldl_sum comp_def rowOf_def)
    have missing: "?pool - foldl (\<lambda>acc row. acc + prValue row) 0 ?rows = leftOver ?pool ?s"
      unfolding floors leftOver_def ..
    have bounds: "\<not> (leftOver ?pool ?s < 0 \<or> leftOver ?pool ?s \<ge> int (length ?rows))"
      using leftOver_bounds [OF fair_ok [OF fs]] by simp
    have "distributePoints rows p = Inr (map (\<lambda>row. (prKey row, prValue row))
      (filter (\<lambda>row. prValue row > 0) (payRows ?rows (sliceTo (leftOver ?pool ?s) (pointOrder ?rows)))), ?pool)"
      using False ne dup tot rows missing bounds by (simp add: distributePoints_def Let_def del: map_map)
    also have "payRows ?rows (sliceTo (leftOver ?pool ?s) (pointOrder ?rows)) =
        map (\<lambda>r. (rowOf ?pool ?D r)\<lparr>prValue := share ?pool ?s r\<rparr>) ?s"
      by (rule payRows_shares [OF fs refl])
    also have "share ?pool ?s = share ?pool rows" using share_perm [OF same] by blast
    finally show ?thesis by (simp add: filter_map comp_def rowOf_def case_prod_beta)
  qed
qed

section \<open>The interface\<close>

lemma share_nonneg:
  assumes "fairClaims pool rows" and "r \<in> set rows"
  shows "0 \<le> share pool rows r"
proof -
  have "0 \<le> quota pool (claimTotal rows) r"
    using assms claimTotal_pos [OF fair_ok [OF assms(1)]]
    by (auto simp: quota_def fairClaims_def less_imp_le pos_imp_zdiv_nonneg_iff)
  with share_quota(1) [of pool rows r] show ?thesis by linarith
qed

lemma amountOf_entry: "distinct (jkeys res) \<Longrightarrow> (k, v) \<in> set res \<Longrightarrow> amountOf res k = v"
  by (simp add: amountOf_def orDefault_def)

lemma amountOf_positive:
  assumes "distinct (map fst rows)" and "r \<in> set rows" and "0 \<le> f r"
  shows "amountOf (filter (\<lambda>(k, v). v > 0) (map (\<lambda>r. (fst r, f r)) rows)) (fst r) = f r"
proof -
  let ?res = "filter (\<lambda>(k, v). v > 0) (map (\<lambda>r. (fst r, f r)) rows)"
  have keys: "jkeys ?res = map fst (filter (\<lambda>r. f r > 0) rows)" by (simp add: filter_map comp_def)
  then have dist: "distinct (jkeys ?res)" using assms(1) by (simp add: distinct_map_filter)
  show ?thesis
  proof (cases "f r > 0")
    case True
    with assms(2) have "(fst r, f r) \<in> set ?res" by auto
    with dist show ?thesis by (rule amountOf_entry)
  next
    case False
    have "fst r \<notin> set (jkeys ?res)"
    proof
      assume "fst r \<in> set (jkeys ?res)"
      then obtain q where "q \<in> set rows" "f q > 0" "fst q = fst r" unfolding keys by auto
      with assms(1,2) False show False by (metis distinct_map inj_onD)
    qed
    with False assms(3) show ?thesis by (simp add: amountOf_none del: set_map)
  qed
qed

lemma pointScores_fair:
  assumes "fairClaims pool rows"
  shows "mset (pointScores rows) = mset rows" and "sorted_wrt (<) (map fst (pointScores rows))"
proof -
  have "filter (\<lambda>(_, v). v > 0) rows = rows" using assms by (auto simp: filter_id_conv fairClaims_def)
  then have s: "pointScores rows = sortBy (\<lambda>a b. cmpHex (fst a) (fst b)) rows" by (simp add: pointScores_def)
  then show "mset (pointScores rows) = mset rows" by simp
  show "sorted_wrt (<) (map fst (pointScores rows))"
    unfolding s using assms by (intro strict_keys) (auto simp: fairClaims_def)
qed

lemma sorted_wrt_map_filter: "sorted_wrt R (map f xs) \<Longrightarrow> sorted_wrt R (map f (filter P xs))"
  by (induction xs) auto

lemma points_apportion:
  assumes fair: "fairClaims pool rows"
  shows "\<exists>res. bindE (distributePoints rows (p\<lparr>totalPool := pool\<rparr>)) (\<lambda>r. Inr (fst r)) = Inr res \<and>
    sorted_wrt (<) (jkeys res) \<and> set (jkeys res) \<subseteq> fst ` set rows \<and>
    (\<forall>r \<in> set rows. amountOf res (fst r) = share pool rows r)"
proof -
  let ?s = "pointScores rows"
  let ?res = "filter (\<lambda>(k, v). v > 0) (map (\<lambda>r. (fst r, share pool rows r)) ?s)"
  have same: "mset ?s = mset rows" and srt: "sorted_wrt (<) (map fst ?s)" using pointScores_fair [OF fair] .
  have set_s: "set ?s = set rows" using same by (metis set_mset_mset)
  have run: "distributePoints rows (p\<lparr>totalPool := pool\<rparr>) = Inr (?res, pool)"
    using distributePoints_shares [of "p\<lparr>totalPool := pool\<rparr>" rows] fair by simp
  have keys: "jkeys ?res = map fst (filter (\<lambda>r. share pool rows r > 0) ?s)" by (simp add: filter_map comp_def)
  have "sorted_wrt (<) (jkeys ?res)" unfolding keys using srt by (rule sorted_wrt_map_filter)
  moreover have "set (jkeys ?res) \<subseteq> fst ` set rows" unfolding keys using set_s by auto
  moreover have "amountOf ?res (fst r) = share pool rows r" if "r \<in> set rows" for r
    using that srt set_s share_nonneg [OF fair that] strict_sorted_iff by (intro amountOf_positive) auto
  ultimately show ?thesis using run by simp
qed

interpretation points: apportionment
  "\<lambda>pool rows. bindE (distributePoints rows (p\<lparr>totalPool := pool\<rparr>)) (\<lambda>r. Inr (fst r))" for p
  by unfold_locales (rule points_apportion)

section \<open>Any scores\<close>

lemma distributePoints_filter:
  "distributePoints scores p = distributePoints (filter (\<lambda>(_, v). v > 0) scores) p"
  by (simp add: distributePoints_def pointScores_def Let_def)

lemma distributePoints_empty: "filter (\<lambda>(_, v). v > 0) scores = [] \<Longrightarrow> distributePoints scores p = Inr ([], 0)"
  by (simp add: distributePoints_def pointScores_def duplicateKey_def)

text \<open>Scores a ranker may hand over: distinct lower-case accounts, a total within 256 bits.\<close>

definition scorable :: "(hex \<times> int) list \<Rightarrow> bool" where
  "scorable scores \<longleftrightarrow> distinct (map fst scores) \<and> (\<forall>k \<in> set (map fst scores). canonical k) \<and>
     claimTotal (filter (\<lambda>(_, v). v > 0) scores) \<le> U256_MAX"

lemma scorable_fair:
  assumes "scorable scores" and "0 \<le> pool" and "filter (\<lambda>(_, v). v > 0) scores \<noteq> []"
  shows "fairClaims pool (filter (\<lambda>(_, v). v > 0) scores)"
  using assms by (auto simp: fairClaims_def scorable_def distinct_map_filter)

lemma distributePoints_facts:
  assumes sc: "scorable scores" and pool: "0 \<le> totalPool p"
  shows "\<exists>assigned total. distributePoints scores p = Inr (assigned, total) \<and>
    sumOf snd assigned = total \<and> sorted_wrt (<) (jkeys assigned) \<and> set (jkeys assigned) \<subseteq> fst ` set scores \<and>
    (\<forall>(k, v) \<in> set assigned. 0 < v) \<and>
    total = (if filter (\<lambda>(_, v). v > 0) scores = [] then 0 else totalPool p)"
proof (cases "filter (\<lambda>(_, v). v > 0) scores = []")
  case True
  with distributePoints_empty [OF True, of p] show ?thesis by simp
next
  case False
  let ?rows = "filter (\<lambda>(_, v). v > 0) scores"
  have fair: "fairClaims (totalPool p) ?rows" by (rule scorable_fair [OF sc pool False])
  have run: "distributePoints scores p = Inr (filter (\<lambda>(k, v). v > 0)
      (map (\<lambda>r. (fst r, share (totalPool p) ?rows r)) (pointScores ?rows)), totalPool p)"
    using distributePoints_shares [OF fair] distributePoints_filter by simp
  then have res: "bindE (distributePoints ?rows (p\<lparr>totalPool := totalPool p\<rparr>)) (\<lambda>r. Inr (fst r)) =
      Inr (filter (\<lambda>(k, v). v > 0) (map (\<lambda>r. (fst r, share (totalPool p) ?rows r)) (pointScores ?rows)))"
    using distributePoints_filter [of scores p] by simp
  from points.exhausts [OF fair res] points.keys [OF fair res] run False show ?thesis by force
qed

end
