(* ===== verification/Cid.thy ===== *)
theory Cid
  imports Distribute
begin

text \<open>
  \<open>lib/pagerank/cid.ts\<close>: the canonical blob, its digest and the CID.  The 32-bit accumulator of the
  base-32 encoder is shown to lose nothing, and the CID to determine the blob and the scores.
\<close>

section \<open>Definitions\<close>

definition quoteMark :: string where
  "quoteMark = [CHR 0x22]"

definition canonicalBlob :: "(hex \<times> int) list \<Rightarrow> string" where
  "canonicalBlob scores =
     foldl (\<lambda>s (i, addr, v).
         (if i > 0 then s @ '','' else s) @ quoteMark @ toLowerCase addr @ quoteMark @ '':'' @
         quoteMark @ bigToString v @ quoteMark)
       ''{'' (zip [0..<length scores] scores) @ ''}''"

text \<open>\<open>TextEncoder\<close> on the characters of the model (code points below 256).\<close>

definition utf8Char :: "char \<Rightarrow> bytes" where
  "utf8Char c = (let n = of_char c :: nat in
     if n < 128 then [of_nat n] else [of_nat (192 + n div 64), of_nat (128 + n mod 64)])"

definition utf8Encode :: "string \<Rightarrow> bytes" where
  "utf8Encode s = concat (map utf8Char s)"

text \<open>
  \<open>parseInt(s, 16)\<close> on at most two characters of a digest, which are hex digits; with no leading hex
  digit it is \<open>NaN\<close>, which a byte array stores as zero.
\<close>

definition hexValue :: "char \<Rightarrow> nat option" where
  "hexValue c = (let n = of_char (lowerChar c) :: nat in
     if 48 \<le> n \<and> n \<le> 57 then Some (n - 48) else if 97 \<le> n \<and> n \<le> 102 then Some (n - 87) else None)"

definition parseByte :: "string \<Rightarrow> 8 word" where
  "parseByte s = of_nat (foldl (\<lambda>v c. 16 * v + the (hexValue c)) 0 (takeWhile (\<lambda>c. hexValue c \<noteq> None) s))"

text \<open>\<open>BigInt(a)\<close> on a \<open>0x\<close> literal.\<close>

definition hexStep :: "int \<Rightarrow> char \<Rightarrow> int" where
  "hexStep v c = 16 * v + int (orDefault (hexValue c) 0)"

definition hexNumber :: "hex \<Rightarrow> int" where
  "hexNumber h = foldl hexStep 0 (drop 2 h)"

definition hexBytes32 :: "hex \<Rightarrow> bytes" where
  "hexBytes32 h = (let clean = drop 2 h in map (\<lambda>i. parseByte (take 2 (drop (i * 2) clean))) [0..<32])"

definition sha256Utf8 :: "viem \<Rightarrow> string \<Rightarrow> bytes" where
  "sha256Utf8 V dat = hexBytes32 (sha256Bytes V (utf8Encode dat))"

text \<open>The base-32 encoder with its 32-bit accumulator; \<open>emitBits\<close> is the inner loop.\<close>

definition base32Alphabet :: string where
  "base32Alphabet = ''abcdefghijklmnopqrstuvwxyz234567''"

definition base32Char :: "32 word \<Rightarrow> char" where
  "base32Char w = base32Alphabet ! unat (w AND 0x1f)"

fun emitBits :: "32 word \<Rightarrow> nat \<Rightarrow> string \<Rightarrow> nat \<times> string" where
  "emitBits acc bits out =
     (if bits \<ge> 5 then emitBits acc (bits - 5) (out @ [base32Char (drop_bit (bits - 5) acc)])
      else (bits, out))"

declare emitBits.simps [simp del]

definition base32Step :: "32 word \<times> nat \<times> string \<Rightarrow> 8 word \<Rightarrow> 32 word \<times> nat \<times> string" where
  "base32Step st b =
     (case st of (acc, bits, out) \<Rightarrow>
        let acc' = push_bit 8 acc OR ucast b in (acc', emitBits acc' (bits + 8) out))"

definition base32LowerNopad :: "bytes \<Rightarrow> string" where
  "base32LowerNopad dat =
     (case foldl base32Step (0, 0, []) dat of (acc, bits, out) \<Rightarrow>
        if bits > 0 then out @ [base32Char (push_bit (5 - bits) acc)] else out)"

definition cidV1Raw :: "bytes \<Rightarrow> string result" where
  "cidV1Raw digest =
     bindE (throwWhen (length digest > 32) (RangeError ''offset is out of bounds'')) (\<lambda>_.
     Inr (''b'' @ base32LowerNopad ([0x01, 0x55, 0x12, 0x20] @ digest @ replicate (32 - length digest) 0)))"

definition digestToHex :: "viem \<Rightarrow> bytes \<Rightarrow> hex" where
  "digestToHex V digest = bytesToHex V digest"

section \<open>Base 32 as groups of five bits\<close>

definition byteBits :: "8 word \<Rightarrow> bool list" where
  "byteBits b = map (bit b) (rev [0..<8])"

fun bitsVal :: "bool list \<Rightarrow> nat" where
  "bitsVal [] = 0"
| "bitsVal (b # bs) = (if b then 2 ^ length bs else 0) + bitsVal bs"

text \<open>The reference: five bits per character, the last group filled up with zeros.\<close>

fun base32Groups :: "bool list \<Rightarrow> string" where
  "base32Groups [] = []"
| "base32Groups (b # bs) =
     (let g = take 5 (b # bs) in
      base32Alphabet ! bitsVal (g @ replicate (5 - length g) False) # base32Groups (drop 4 bs))"

lemma bitsVal_append: "bitsVal (xs @ ys) = bitsVal xs * 2 ^ length ys + bitsVal ys"
  by (induction xs) (auto simp: algebra_simps power_add)

lemma bitsVal_less: "bitsVal bs < 2 ^ length bs"
  by (induction bs) auto

lemma bitsVal_zeros [simp]: "bitsVal (replicate n False) = 0"
  by (induction n) auto

lemma length_byteBits [simp]: "length (byteBits b) = 8"
  by (simp add: byteBits_def)

lemma bitsVal_bits: "bitsVal (map (bit n) (rev [0..<k])) = take_bit k (n :: nat)"
  by (induction k) (simp_all add: take_bit_Suc_from_most)

lemma bitsVal_byteBits: "bitsVal (byteBits b) = unat b"
proof -
  have "byteBits b = map (bit (unat b)) (rev [0..<8])" by (simp add: byteBits_def bit_unsigned_iff)
  then have "bitsVal (byteBits b) = take_bit 8 (unat b)" by (simp only: bitsVal_bits)
  then show ?thesis using unsigned_less [of b, where ?'a = nat] by (simp add: take_bit_nat_eq_self)
qed

lemma unat_step:
  assumes "k \<le> 24"
  shows "unat (push_bit 8 acc OR ucast (b :: 8 word) :: 32 word) mod 2 ^ (k + 8) = (unat acc mod 2 ^ k) * 256 + unat b"
proof -
  have small: "\<not> bit (unat b) n" if "8 \<le> n" for n
    using that bit_imp_le_length [of b n] by (auto simp: bit_unsigned_iff)
  have "take_bit (k + 8) (unat (push_bit 8 acc OR ucast b :: 32 word)) = push_bit 8 (take_bit k (unat acc)) OR unat b"
  proof (rule bit_eqI)
    fix n
    show "bit (take_bit (k + 8) (unat (push_bit 8 acc OR ucast b :: 32 word))) n =
      bit (push_bit 8 (take_bit k (unat acc)) OR unat b) n"
      using assms small [of n]
      by (cases "n < 8") (auto simp: bit_take_bit_iff bit_or_iff bit_push_bit_iff bit_unsigned_iff)
  qed
  also have "\<dots> = push_bit 8 (take_bit k (unat acc)) + unat b"
  proof (rule disjunctive_add_eq_or [symmetric])
    show "push_bit 8 (take_bit k (unat acc)) AND unat b = 0"
      using small by (intro bit_eqI) (auto simp: bit_and_iff bit_push_bit_iff)
  qed
  finally show ?thesis by (simp add: take_bit_eq_mod push_bit_eq_mult)
qed

lemma emit_char:
  assumes "unat acc mod 2 ^ (5 + length r) = bitsVal (g @ r)" and "length g = 5" and "length r < 27"
  shows "base32Char (drop_bit (length r) acc) = base32Alphabet ! bitsVal g"
proof -
  have "(0x1f :: 32 word) = mask 5" by (simp add: mask_numeral)
  then have "unat (drop_bit (length r) acc AND 0x1f) = unat (take_bit 5 (drop_bit (length r) acc))"
    by (simp only: take_bit_eq_mask)
  also have "\<dots> = take_bit 5 (drop_bit (length r) (unat acc))"
    by (simp add: unsigned_take_bit_eq unat_drop_bit_eq)
  finally have "unat (drop_bit (length r) acc AND 0x1f) = unat acc div 2 ^ length r mod 32"
    by (simp add: take_bit_eq_mod drop_bit_eq_div)
  also have "\<dots> = (unat acc mod 2 ^ (5 + length r)) div 2 ^ length r"
    by (simp add: power_add mod_mult2_eq div_mult2_eq mult.commute)
  also have "\<dots> = bitsVal g"
    using bitsVal_less [of r] by (simp add: assms(1) bitsVal_append)
  finally show ?thesis by (simp add: base32Char_def)
qed

lemma base32Groups_group: "length g = 5 \<Longrightarrow> base32Groups (g @ x) = base32Alphabet ! bitsVal g # base32Groups x"
  by (cases g) (auto simp: Let_def)

lemma base32Groups_last:
  "r \<noteq> [] \<Longrightarrow> length r < 5 \<Longrightarrow> base32Groups r = [base32Alphabet ! bitsVal (r @ replicate (5 - length r) False)]"
  by (cases r) (auto simp: Let_def)

lemma emitBits_groups:
  "unat acc mod 2 ^ length q = bitsVal q \<Longrightarrow> length q < 32 \<Longrightarrow>
   \<exists>gs r. emitBits acc (length q) out = (length r, out @ gs) \<and> length r < 5 \<and>
     (\<forall>z. base32Groups (q @ z) = gs @ base32Groups (r @ z)) \<and> unat acc mod 2 ^ length r = bitsVal r"
proof (induction q arbitrary: out rule: length_induct)
  case (1 q)
  show ?case
  proof (cases "length q \<ge> 5")
    case False
    with "1.prems" show ?thesis by (intro exI [of _ "[]"] exI [of _ q]) (simp add: emitBits.simps)
  next
    case True
    define g r where "g = take 5 q" and "r = drop 5 q"
    have q: "q = g @ r" and g: "length g = 5" and len: "length q = 5 + length r"
      using True by (auto simp: g_def r_def)
    have gr: "unat acc mod 2 ^ (5 + length r) = bitsVal (g @ r)" using "1.prems"(1) q len by simp
    have "(unat acc mod 2 ^ (5 + length r)) mod 2 ^ length r = bitsVal (g @ r) mod 2 ^ length r"
      using gr by simp
    then have r: "unat acc mod 2 ^ length r = bitsVal r"
      using bitsVal_less [of r] by (simp add: power_add bitsVal_append mod_mult_self3 mod_mod_cancel)
    have char: "base32Char (drop_bit (length r) acc) = base32Alphabet ! bitsVal g"
      using gr g "1.prems"(2) len by (intro emit_char) auto
    have step: "emitBits acc (length q) out = emitBits acc (length r) (out @ [base32Alphabet ! bitsVal g])"
      by (subst emitBits.simps) (simp add: len char)
    have "length r < length q" "length r < 32" using len "1.prems"(2) by auto
    with "1.IH" r obtain gs r' where
      "emitBits acc (length r) (out @ [base32Alphabet ! bitsVal g]) = (length r', (out @ [base32Alphabet ! bitsVal g]) @ gs)"
      "length r' < 5" "\<forall>z. base32Groups (r @ z) = gs @ base32Groups (r' @ z)" "unat acc mod 2 ^ length r' = bitsVal r'"
      by blast
    with step q base32Groups_group [OF g] show ?thesis
      by (intro exI [of _ "base32Alphabet ! bitsVal g # gs"] exI [of _ r']) simp
  qed
qed

lemma base32Step_eq: "base32Step (acc, bits, out) b =
    (push_bit 8 acc OR ucast b, emitBits (push_bit 8 acc OR ucast b) (bits + 8) out)"
  by (simp add: base32Step_def Let_def)

lemma base32_loop:
  "unat acc mod 2 ^ length p = bitsVal p \<Longrightarrow> length p < 5 \<Longrightarrow>
   \<exists>acc' gs r. foldl base32Step (acc, length p, out) dat = (acc', length r, out @ gs) \<and> length r < 5 \<and>
     unat acc' mod 2 ^ length r = bitsVal r \<and>
     base32Groups (p @ concat (map byteBits dat)) = gs @ base32Groups r"
proof (induction dat arbitrary: acc p out)
  case Nil
  then show ?case by (intro exI [of _ acc] exI [of _ "[]"] exI [of _ p]) simp
next
  case (Cons b dat)
  let ?acc = "push_bit 8 acc OR ucast b :: 32 word"
  have "unat ?acc mod 2 ^ (length p + 8) = bitsVal p * 256 + unat b"
    using unat_step [of "length p" acc b] Cons.prems by simp
  then have "unat ?acc mod 2 ^ length (p @ byteBits b) = bitsVal (p @ byteBits b)"
    by (simp add: bitsVal_append bitsVal_byteBits)
  from emitBits_groups [OF this, of out] Cons.prems(2) obtain gs r where
    e: "emitBits ?acc (length p + 8) out = (length r, out @ gs)" and r: "length r < 5"
    and g: "\<forall>z. base32Groups ((p @ byteBits b) @ z) = gs @ base32Groups (r @ z)"
    and a: "unat ?acc mod 2 ^ length r = bitsVal r" by auto
  from Cons.IH [OF a r, of "out @ gs"] obtain acc' gs' r' where
    "foldl base32Step (?acc, length r, out @ gs) dat = (acc', length r', (out @ gs) @ gs')" "length r' < 5"
    "unat acc' mod 2 ^ length r' = bitsVal r'"
    "base32Groups (r @ concat (map byteBits dat)) = gs' @ base32Groups r'" by blast
  with e g show ?case
    by (intro exI [of _ acc'] exI [of _ "gs @ gs'"] exI [of _ r']) (simp add: base32Step_eq)
qed

lemma base32_final:
  assumes "unat acc mod 2 ^ length r = bitsVal r" and "length r < 5"
  shows "base32Char (push_bit (5 - length r) acc) = base32Alphabet ! bitsVal (r @ replicate (5 - length r) False)"
proof -
  let ?k = "5 - length r"
  have "(0x1f :: 32 word) = mask 5" by (simp add: mask_numeral)
  then have "unat (push_bit ?k acc AND 0x1f) = unat (take_bit 5 (push_bit ?k acc))"
    by (simp only: take_bit_eq_mask)
  also have "\<dots> = take_bit 5 (push_bit ?k (unat acc))"
    by (rule bit_eqI) (auto simp: unsigned_take_bit_eq bit_take_bit_iff bit_push_bit_iff bit_unsigned_iff)
  also have "\<dots> = push_bit ?k (take_bit (length r) (unat acc))"
    using assms(2) by (simp add: take_bit_push_bit)
  also have "\<dots> = bitsVal r * 2 ^ ?k" by (simp add: take_bit_eq_mod push_bit_eq_mult assms(1))
  finally show ?thesis by (simp add: base32Char_def bitsVal_append)
qed

lemma base32_reference: "base32LowerNopad dat = base32Groups (concat (map byteBits dat))"
proof -
  obtain acc gs r where run: "foldl base32Step (0, 0, []) dat = (acc, length r, gs)" and r: "length r < 5"
    and a: "unat acc mod 2 ^ length r = bitsVal r"
    and g: "base32Groups (concat (map byteBits dat)) = gs @ base32Groups r"
    using base32_loop [of 0 "[]" "[]" dat] by auto
  show ?thesis
    using run g base32_final [OF a r] base32Groups_last [OF _ r] by (auto simp: base32LowerNopad_def)
qed

section \<open>Different digests have different CIDs\<close>

lemma bitsVal_inj: "length xs = length ys \<Longrightarrow> bitsVal xs = bitsVal ys \<Longrightarrow> xs = ys"
proof (induction xs ys rule: list_induct2)
  case (Cons x xs y ys)
  from bitsVal_less [of xs] bitsVal_less [of ys] Cons have "x = y" by (auto split: if_splits)
  with Cons show ?case by (cases y) auto
qed simp

lemma base32Alphabet_facts: "distinct base32Alphabet" "length base32Alphabet = 32"
  by code_simp+

lemma base32Groups_inj:
  "length xs = length ys \<Longrightarrow> base32Groups xs = base32Groups ys \<Longrightarrow> xs = ys"
proof (induction xs arbitrary: ys rule: base32Groups.induct)
  case (2 b bs)
  then obtain c cs where ys: "ys = c # cs" and len: "length cs = length bs" by (cases ys) auto
  let ?g = "take 5 (b # bs)" and ?h = "take 5 (c # cs)"
  let ?pg = "?g @ replicate (5 - length ?g) False" and ?ph = "?h @ replicate (5 - length ?h) False"
  from "2.prems"(2) have ch: "base32Alphabet ! bitsVal ?pg = base32Alphabet ! bitsVal ?ph"
    and rest: "base32Groups (drop 4 bs) = base32Groups (drop 4 cs)" unfolding ys by (auto simp: Let_def)
  have l5: "length ?pg = 5" "length ?ph = 5" by auto
  then have "bitsVal ?pg < 32" "bitsVal ?ph < 32" using bitsVal_less [of ?pg] bitsVal_less [of ?ph] by simp_all
  with ch have "bitsVal ?pg = bitsVal ?ph"
    using base32Alphabet_facts by (simp add: nth_eq_iff_index_eq)
  then have "?pg = ?ph" using bitsVal_inj l5 by metis
  then have "?g = ?h" using len by simp
  moreover have "drop 4 bs = drop 4 cs" using "2.IH" [OF refl] rest len by simp
  ultimately show ?case unfolding ys by (metis append_take_drop_id drop_Suc_Cons eval_nat_numeral(3) numeral_eq_Suc take_Suc_Cons list.inject)
qed simp

lemma byteBits_inj: "byteBits a = byteBits b \<Longrightarrow> a = b"
  by (metis bitsVal_byteBits word_unat_eq_iff)

lemma concat_byteBits_inj:
  "concat (map byteBits xs) = concat (map byteBits ys) \<Longrightarrow> xs = ys"
proof (induction xs arbitrary: ys)
  case Nil
  then show ?case by (cases ys) (auto simp: byteBits_def)
next
  case (Cons x xs)
  then obtain y zs where ys: "ys = y # zs" by (cases ys) (auto simp: byteBits_def)
  with Cons.prems have "byteBits x = byteBits y" "concat (map byteBits xs) = concat (map byteBits zs)" by auto
  with Cons.IH byteBits_inj ys show ?case by blast
qed

lemma length_concat_bits: "length (concat (map byteBits xs)) = 8 * length xs"
  by (induction xs) auto

lemma base32_inj: "length xs = length ys \<Longrightarrow> base32LowerNopad xs = base32LowerNopad ys \<Longrightarrow> xs = ys"
  unfolding base32_reference
  by (rule concat_byteBits_inj, rule base32Groups_inj) (simp_all add: length_concat_bits)

lemma cidV1Raw_inj:
  assumes "length d = 32" and "length e = 32" and "cidV1Raw d = cidV1Raw e"
  shows "d = e"
  using assms base32_inj [of "[0x01, 0x55, 0x12, 0x20] @ d" "[0x01, 0x55, 0x12, 0x20] @ e"]
  by (simp add: cidV1Raw_def)

section \<open>The blob determines the scores\<close>

fun blobTail :: "(hex \<times> int) list \<Rightarrow> string" where
  "blobTail [] = ''}''"
| "blobTail ((a, v) # es) = '','' @ quoteMark @ toLowerCase a @ quoteMark @ '':'' @
     quoteMark @ bigToString v @ quoteMark @ blobTail es"

lemma canonicalBlob_tail:
  "canonicalBlob [] = ''{}''"
  "canonicalBlob ((a, v) # es) = ''{'' @ quoteMark @ toLowerCase a @ quoteMark @ '':'' @
     quoteMark @ bigToString v @ quoteMark @ blobTail es"
proof -
  have tail: "foldl (\<lambda>s (i, addr, v).
         (if i > 0 then s @ '','' else s) @ quoteMark @ toLowerCase addr @ quoteMark @ '':'' @
         quoteMark @ bigToString v @ quoteMark) s (zip [Suc k..<Suc k + length es] es) @ ''}'' = s @ blobTail es" for s k
  proof (induction es arbitrary: s k)
    case (Cons e es)
    obtain a v where e: "e = (a, v)" by (cases e)
    have "[Suc k..<Suc k + length (e # es)] = Suc k # [Suc (Suc k)..<Suc (Suc k) + length es]"
      by (simp add: upt_rec)
    with Cons.IH [of _ "Suc k"] show ?case by (simp add: e)
  qed simp
  show "canonicalBlob [] = ''{}''" by (simp add: canonicalBlob_def)
  have "[0..<length ((a, v) # es)] = 0 # [Suc 0..<Suc 0 + length es]" by (simp add: upt_rec)
  then show "canonicalBlob ((a, v) # es) = ''{'' @ quoteMark @ toLowerCase a @ quoteMark @ '':'' @
     quoteMark @ bigToString v @ quoteMark @ blobTail es"
    unfolding canonicalBlob_def using tail [of _ 0] by simp
qed

lemma quote_split:
  "CHR 0x22 \<notin> set a \<Longrightarrow> CHR 0x22 \<notin> set b \<Longrightarrow> a @ quoteMark @ x = b @ quoteMark @ y \<Longrightarrow> a = b \<and> x = y"
proof (induction a arbitrary: b)
  case Nil
  then show ?case by (cases b) (auto simp: quoteMark_def)
next
  case (Cons c a)
  then show ?case by (cases b) (auto simp: quoteMark_def)
qed

lemma bigToString_inj: "bigToString x = bigToString y \<Longrightarrow> 0 \<le> x \<Longrightarrow> 0 \<le> y \<Longrightarrow> x = y"
  using natDigits_inj [of "nat x" "nat y"] by (simp add: bigToString_def)

lemma bigToString_quote: "0 \<le> x \<Longrightarrow> CHR 0x22 \<notin> set (bigToString x)"
  using natDigits_digits [of "CHR 0x22" "nat x"] by (auto simp: bigToString_def isDigit_def)

definition blobEntry :: "hex \<times> int \<Rightarrow> bool" where
  "blobEntry e \<longleftrightarrow> canonical (fst e) \<and> CHR 0x22 \<notin> set (fst e) \<and> 0 \<le> snd e"

lemma entry_split:
  assumes "blobEntry (a, v)" and "blobEntry (b, w)"
    and "quoteMark @ toLowerCase a @ quoteMark @ '':'' @ quoteMark @ bigToString v @ quoteMark @ x =
      quoteMark @ toLowerCase b @ quoteMark @ '':'' @ quoteMark @ bigToString w @ quoteMark @ y"
  shows "a = b \<and> v = w \<and> x = y"
proof -
  have a: "toLowerCase a = a" "toLowerCase b = b" "CHR 0x22 \<notin> set a" "CHR 0x22 \<notin> set b"
    "0 \<le> v" "0 \<le> w" using assms(1,2) by (auto simp: blobEntry_def canonicalD)
  from assms(3) have "a @ quoteMark @ ('':'' @ quoteMark @ bigToString v @ quoteMark @ x) =
      b @ quoteMark @ ('':'' @ quoteMark @ bigToString w @ quoteMark @ y)" unfolding a by simp
  from quote_split [OF a(3,4) this] have "a = b"
    and "bigToString v @ quoteMark @ x = bigToString w @ quoteMark @ y" by auto
  with quote_split [OF bigToString_quote [OF a(5)] bigToString_quote [OF a(6)], of x y]
    bigToString_inj [OF _ a(5,6)] show ?thesis by blast
qed

lemma blobTail_inj:
  "\<forall>e \<in> set xs. blobEntry e \<Longrightarrow> \<forall>e \<in> set ys. blobEntry e \<Longrightarrow> blobTail xs = blobTail ys \<Longrightarrow> xs = ys"
proof (induction xs arbitrary: ys)
  case Nil
  then show ?case by (cases ys) auto
next
  case (Cons e xs)
  obtain a v where e: "e = (a, v)" by (cases e)
  with Cons.prems obtain b w zs where ys: "ys = (b, w) # zs" by (cases ys) auto
  have be: "blobEntry (a, v)" "blobEntry (b, w)" using Cons.prems(1,2) e ys by auto
  from Cons.prems(3) have "quoteMark @ toLowerCase a @ quoteMark @ '':'' @ quoteMark @ bigToString v @ quoteMark @ blobTail xs =
      quoteMark @ toLowerCase b @ quoteMark @ '':'' @ quoteMark @ bigToString w @ quoteMark @ blobTail zs"
    unfolding e ys by (simp only: blobTail.simps append.simps append_assoc list.inject)
  from entry_split [OF be this] have ab: "a = b" "v = w" and tl: "blobTail xs = blobTail zs" by blast+
  have "xs = zs" by (rule Cons.IH [OF _ _ tl]) (use Cons.prems(1,2) ys in auto)
  with ab e ys show ?case by simp
qed

lemma canonicalBlob_inj:
  assumes "\<forall>e \<in> set xs. blobEntry e" and "\<forall>e \<in> set ys. blobEntry e"
    and eq: "canonicalBlob xs = canonicalBlob ys"
  shows "xs = ys"
proof (cases xs)
  case Nil
  with eq show ?thesis by (cases ys) (auto simp: canonicalBlob_tail quoteMark_def)
next
  case (Cons e es)
  obtain a v where e: "e = (a, v)" by (cases e)
  from eq Cons e obtain b w zs where ys: "ys = (b, w) # zs"
    by (cases ys) (auto simp: canonicalBlob_tail quoteMark_def)
  have be: "blobEntry (a, v)" "blobEntry (b, w)" using assms(1,2) Cons e ys by auto
  from eq have "quoteMark @ toLowerCase a @ quoteMark @ '':'' @ quoteMark @ bigToString v @ quoteMark @ blobTail es =
      quoteMark @ toLowerCase b @ quoteMark @ '':'' @ quoteMark @ bigToString w @ quoteMark @ blobTail zs"
    unfolding Cons e ys canonicalBlob_tail by (simp only: append.simps append_assoc list.inject)
  note entry_split [OF be this]
  moreover have "es = zs" if "blobTail es = blobTail zs"
    using that assms Cons ys by (intro blobTail_inj) auto
  ultimately show ?thesis using Cons e ys by simp
qed

end
