(* ===== verification/CidProps.thy ===== *)
theory CidProps
  imports Cid Instance
begin

text \<open>
  The digest chain of \<open>cid.ts\<close>: the hex digest and the UTF-8 bytes are injective, so the CID pins the
  scores up to a collision of the hash.
\<close>

section \<open>From the digest back to the scores\<close>

definition hexWord :: "hex \<Rightarrow> bool" where
  "hexWord h \<longleftrightarrow> length h = 66 \<and> take 2 h = ''0x'' \<and>
     (\<forall>c \<in> set (drop 2 h). hexValue c \<noteq> None \<and> lowerChar c = c)"

text \<open>The digest function returns 32 bytes in lower-case hex.\<close>

definition shaLaw :: "viem \<Rightarrow> bool" where
  "shaLaw V \<longleftrightarrow> (\<forall>x. hexWord (sha256Bytes V x))"

lemma hexValue_less: "hexValue c = Some n \<Longrightarrow> n < 16"
  by (auto simp: hexValue_def Let_def split: if_splits)

lemma hexValue_inj:
  assumes "hexValue c = Some n" and "hexValue d = Some n" and "lowerChar c = c" and "lowerChar d = d"
  shows "c = d"
proof -
  have "(of_char c :: nat) = of_char d"
    using assms by (auto simp: hexValue_def Let_def simp del: of_char_eq_iff split: if_splits)
  then show ?thesis by (simp add: of_char_eq_iff)
qed

lemma unat_small: "a < 256 \<Longrightarrow> unat (of_nat a :: 8 word) = a"
  by (simp add: unat_of_nat)

lemma of_nat_small: "a < 256 \<Longrightarrow> b < 256 \<Longrightarrow> (of_nat a :: 8 word) = of_nat b \<Longrightarrow> a = b"
  by (metis unat_small)

lemma parseByte_inj:
  assumes "parseByte [a, b] = parseByte [c, d]"
    and "\<forall>x \<in> {a, b, c, d}. hexValue x \<noteq> None \<and> lowerChar x = x"
  shows "a = c \<and> b = d"
proof -
  obtain na nb nc nd where n: "hexValue a = Some na" "hexValue b = Some nb" "hexValue c = Some nc" "hexValue d = Some nd"
    using assms(2) by auto
  have lt: "na < 16" "nb < 16" "nc < 16" "nd < 16" using n hexValue_less by auto
  have "(of_nat (16 * na + nb) :: 8 word) = of_nat (16 * nc + nd)"
    using assms(1) n by (simp add: parseByte_def mult.commute)
  then have "16 * na + nb = 16 * nc + nd"
    by (rule of_nat_small [rotated 2]) (use lt in linarith)+
  then have "(16 * na + nb) div 16 = (16 * nc + nd) div 16" "(16 * na + nb) mod 16 = (16 * nc + nd) mod 16"
    by (simp_all only:)
  with lt have "na = nc" "nb = nd" by simp_all
  with n assms(2) hexValue_inj show ?thesis by blast
qed

lemma take2: "Suc i < length xs \<Longrightarrow> take 2 (drop i xs) = [xs ! i, xs ! Suc i]"
  by (metis Cons_nth_drop_Suc Suc_lessD numeral_2_eq_2 take0 take_Suc_Cons)

lemma hexBytes32_inj:
  assumes g: "hexWord g" and h: "hexWord h" and eq: "hexBytes32 g = hexBytes32 h"
  shows "g = h"
proof -
  let ?g = "drop 2 g" and ?h = "drop 2 h"
  have len: "length ?g = 64" "length ?h = 64" using g h by (auto simp: hexWord_def)
  have digit: "hexValue (?g ! i) \<noteq> None \<and> lowerChar (?g ! i) = ?g ! i"
    "hexValue (?h ! i) \<noteq> None \<and> lowerChar (?h ! i) = ?h ! i" if "i < 64" for i
    using g h that len unfolding hexWord_def by (metis nth_mem)+
  have pair: "?g ! (2 * i) = ?h ! (2 * i) \<and> ?g ! Suc (2 * i) = ?h ! Suc (2 * i)" if i: "i < 32" for i
  proof -
    have "hexBytes32 g ! i = hexBytes32 h ! i" using eq by simp
    then have "parseByte (take 2 (drop (2 * i) ?g)) = parseByte (take 2 (drop (2 * i) ?h))"
      using i by (simp add: hexBytes32_def mult.commute)
    then have "parseByte [?g ! (2 * i), ?g ! Suc (2 * i)] = parseByte [?h ! (2 * i), ?h ! Suc (2 * i)]"
      using i len by (simp only: take2)
    moreover have "2 * i < 64" "Suc (2 * i) < 64" using i by auto
    ultimately show ?thesis using digit by (intro parseByte_inj) blast+
  qed
  have "?g = ?h"
  proof (rule nth_equalityI)
    fix j assume "j < length ?g"
    then have "j div 2 < 32" and "j = 2 * (j div 2) \<or> j = Suc (2 * (j div 2))" using len by auto
    with pair show "?g ! j = ?h ! j" by metis
  qed (simp only: len)
  then show ?thesis using g h unfolding hexWord_def by (metis append_take_drop_id)
qed

lemma utf8Char_split: "utf8Char c @ x = utf8Char d @ y \<Longrightarrow> c = d \<and> x = y"
proof -
  assume eq: "utf8Char c @ x = utf8Char d @ y"
  let ?c = "of_char c :: nat" and ?d = "of_char d :: nat"
  have lt: "?c < 256" "?d < 256" by simp_all
  have c64: "?c div 64 < 64" "?d div 64 < 64" using lt by linarith+
  have first: "unat (hd (utf8Char c)) = (if ?c < 128 then ?c else 192 + ?c div 64)"
    "unat (hd (utf8Char d)) = (if ?d < 128 then ?d else 192 + ?d div 64)"
    using lt c64 unat_small [of ?c] unat_small [of ?d] unat_small [of "192 + ?c div 64"] unat_small [of "192 + ?d div 64"]
    by (auto simp: utf8Char_def Let_def)
  have "hd (utf8Char c) = hd (utf8Char d)"
    using eq by (auto simp: utf8Char_def Let_def split: if_splits)
  with first have cases: "(if ?c < 128 then ?c else 192 + ?c div 64) = (if ?d < 128 then ?d else 192 + ?d div 64)"
    by metis
  have "?c = ?d"
  proof (cases "?c < 128")
    case True
    with cases show ?thesis by (simp split: if_splits)
  next
    case False
    with cases have big: "\<not> ?d < 128" "?c div 64 = ?d div 64" by (auto split: if_splits)
    have "(of_nat (128 + ?c mod 64) :: 8 word) = of_nat (128 + ?d mod 64)"
      using eq False big by (auto simp: utf8Char_def Let_def)
    then have "128 + ?c mod 64 = 128 + ?d mod 64"
      by (rule of_nat_small [rotated 2]) (use mod_less_divisor [of 64 ?c] mod_less_divisor [of 64 ?d] in linarith)+
    then have "?c mod 64 = ?d mod 64" by simp
    with big show ?thesis by (metis div_mult_mod_eq)
  qed
  then have "c = d" by (simp add: of_char_eq_iff)
  with eq show ?thesis by simp
qed

lemma utf8Char_nonempty [simp]: "utf8Char c \<noteq> []"
  by (simp add: utf8Char_def Let_def)

lemma utf8Encode_inj: "utf8Encode s = utf8Encode t \<Longrightarrow> s = t"
proof (induction s arbitrary: t)
  case Nil
  then show ?case by (cases t) (auto simp: utf8Encode_def)
next
  case (Cons c s)
  then obtain d u where t: "t = d # u" by (cases t) (auto simp: utf8Encode_def)
  from Cons.prems have "utf8Char c @ utf8Encode s = utf8Char d @ utf8Encode u"
    by (simp add: utf8Encode_def t)
  from utf8Char_split [OF this] Cons.IH t show ?case by simp
qed

lemma length_hexBytes32 [simp]: "length (hexBytes32 h) = 32"
  by (simp add: hexBytes32_def)

section \<open>Properties\<close>

text \<open>
  The base-32 encoder, which keeps its pending bits in a 32-bit accumulator that wraps, computes
  the reference encoding: the bits of all bytes in groups of five, the last group filled up with zeros.
\<close>
lemma base32_is_groups_of_five:
  "base32LowerNopad dat = base32Groups (concat (map byteBits dat))"
  by (rule base32_reference)

text \<open>
  The CID pins the scores: two score lists of lower-case accounts with the same CID are the same,
  unless their blobs are a collision of SHA-256.
\<close>
lemma cid_binds_scores:
  assumes "shaLaw V" and "\<forall>e \<in> set xs. blobEntry e" and "\<forall>e \<in> set ys. blobEntry e"
    and "cidV1Raw (sha256Utf8 V (canonicalBlob xs)) = cidV1Raw (sha256Utf8 V (canonicalBlob ys))"
  shows "xs = ys \<or>
    utf8Encode (canonicalBlob xs) \<noteq> utf8Encode (canonicalBlob ys) \<and>
    sha256Bytes V (utf8Encode (canonicalBlob xs)) = sha256Bytes V (utf8Encode (canonicalBlob ys))"
proof -
  have "sha256Utf8 V (canonicalBlob xs) = sha256Utf8 V (canonicalBlob ys)"
    using assms(4) by (intro cidV1Raw_inj) (simp_all add: sha256Utf8_def)
  then have "sha256Bytes V (utf8Encode (canonicalBlob xs)) = sha256Bytes V (utf8Encode (canonicalBlob ys))"
    unfolding sha256Utf8_def using assms(1) by (intro hexBytes32_inj) (simp_all add: shaLaw_def)
  moreover have "xs = ys" if "utf8Encode (canonicalBlob xs) = utf8Encode (canonicalBlob ys)"
    using canonicalBlob_inj [OF assms(2,3)] utf8Encode_inj [OF that] by blast
  ultimately show ?thesis by blast
qed

lemma hexValue_digit: "d < 16 \<Longrightarrow> hexValue (hexDigitChar d) \<noteq> None \<and> lowerChar (hexDigitChar d) = hexDigitChar d"
  by (simp add: hexValue_def hexDigitChar_def lowerChar_def Let_def)

lemma hexDigits_lower: "c \<in> set (hexDigits n x) \<Longrightarrow> hexValue c \<noteq> None \<and> lowerChar c = c"
proof (induction n arbitrary: x)
  case (Suc n)
  then consider "c \<in> set (hexDigits n (x div 16))" | "c = hexDigitChar (x mod 16)" by auto
  then show ?case using Suc.IH hexValue_digit [of "x mod 16"] by cases auto
qed simp

lemma example_shaLaw: "shaLaw exampleViem"
proof -
  have "hexWord (prefixDigest (''0x'' @ s))" if "\<forall>c \<in> set s. hexValue c \<noteq> None \<and> lowerChar c = c" for s
  proof -
    have m: "map lowerChar s = s" using that by (simp add: map_idI)
    have z: "hexValue (CHR ''0'') \<noteq> None \<and> lowerChar (CHR ''0'') = CHR ''0''" by code_simp
    have "\<forall>c \<in> set (take 64 (s @ replicate 64 (CHR ''0''))). hexValue c \<noteq> None \<and> lowerChar c = c"
      using that z by (metis Un_iff in_set_replicate in_set_takeD set_append)
    then show ?thesis using m by (simp add: prefixDigest_def hexWord_def)
  qed
  moreover have "\<forall>c \<in> set (concat (map (\<lambda>b. hexDigits 2 (unat (b :: 8 word))) bs)). hexValue c \<noteq> None \<and> lowerChar c = c" for bs
    using hexDigits_lower by fastforce
  ultimately show ?thesis by (simp add: shaLaw_def exampleViem_def)
qed

lemma cid_binds_scores_witness:
  "[(''0xa'', 5), (''0xb'', 7)] = [(''0xa'', 5), (''0xb'', 7 :: int)] \<or>
    utf8Encode (canonicalBlob [(''0xa'', 5), (''0xb'', 7)]) \<noteq> utf8Encode (canonicalBlob [(''0xa'', 5), (''0xb'', 7)]) \<and>
    sha256Bytes exampleViem (utf8Encode (canonicalBlob [(''0xa'', 5), (''0xb'', 7)])) =
      sha256Bytes exampleViem (utf8Encode (canonicalBlob [(''0xa'', 5), (''0xb'', 7)]))"
proof -
  have "\<forall>e \<in> set [(''0xa'', 5), (''0xb'', 7)]. blobEntry e" by code_simp
  from cid_binds_scores [OF example_shaLaw this this refl] show ?thesis .
qed

end
