(* ===== verification/Reconcile.thy ===== *)
theory Reconcile
  imports Encode
begin

text \<open>
  \<open>lib/pagerank/reconcile.ts\<close>: the fold of attest and revoke events, in the total order
  (timestamp, fold index), into the graph of current edges.  The lemmas state the invariant of the
  nested map, show that each pair of accounts evolves on its own (the reference \<open>pairRun\<close>), and
  give the shape of the resulting graph.
\<close>

section \<open>Definitions\<close>

record Graph =
  gNodes :: "hex list"
  gOutgoing :: "(hex, (hex, int) jmap) jmap"

record CurrentEdge =
  ceUid :: hex
  ceWeight :: int

type_synonym current = "(hex, (hex, CurrentEdge) jmap) jmap"

definition graphIsEmpty :: "Graph \<Rightarrow> bool" where
  "graphIsEmpty g \<longleftrightarrow> length (gNodes g) = 0"

definition weightFp :: "viem \<Rightarrow> RawEdge \<Rightarrow> Params \<Rightarrow> int result" where
  "weightFp V e p =
     (let confidence = orDefault (decodeWeight V (eData e) (weightFieldIndex p)) 0;
          s = precisionScale p in
      bindE (bigDiv (maxWeightFp p) s) (\<lambda>capRaw.
        if confidence > capRaw then Inr (maxWeightFp p)
        else let c = confidence * s in
          if c < minWeightFp p then Inr (minWeightFp p)
          else if c > maxWeightFp p then Inr (maxWeightFp p)
          else Inr c))"

text \<open>The sort of the events by timestamp, then by position.\<close>

definition cmpEvent :: "RawEdge \<times> nat \<Rightarrow> RawEdge \<times> nat \<Rightarrow> int" where
  "cmpEvent a b =
     (let t = cmpBig (eBlockTimestamp (fst a)) (eBlockTimestamp (fst b)) in
      if t \<noteq> 0 then t else int (snd a) - int (snd b))"

definition orderedEvents :: "RawEdge list \<Rightarrow> RawEdge list" where
  "orderedEvents es = map fst (sortBy cmpEvent (zip es [0..<length es]))"

text \<open>
  One event of the loop.  The inner map is a shared object in the source; storing the updated inner
  map under its (existing or new) key has the same effect and the same insertion order.
\<close>

definition applyEvent :: "viem \<Rightarrow> Params \<Rightarrow> current \<Rightarrow> RawEdge \<Rightarrow> current result" where
  "applyEvent V p cur e =
     (let attester = toLowerCase (eAttester e); recipient = toLowerCase (eRecipient e) in
      if eKind e = 0 then
        bindE (weightFp V e p) (\<lambda>w.
          let recipients = orDefault (jget cur attester) [] in
          Inr (jset attester
                (jset recipient \<lparr>ceUid = toLowerCase (eUid e), ceWeight = w\<rparr> recipients) cur))
      else if eKind e = 1 then
        Inr (case jget cur attester of
               None \<Rightarrow> cur
             | Some recipients \<Rightarrow>
                 (case jget recipients recipient of
                    None \<Rightarrow> cur
                  | Some edge \<Rightarrow>
                      if ceUid edge = toLowerCase (eUid e) then
                        (let left = jdelete recipient recipients in
                         if length left = 0 then jdelete attester cur
                         else jset attester left cur)
                      else cur))
      else Inr cur)"

definition currentEdges :: "viem \<Rightarrow> Params \<Rightarrow> RawEdge list \<Rightarrow> current result" where
  "currentEdges V p es = foldE (applyEvent V p) [] (orderedEvents es)"

definition graphOf :: "current \<Rightarrow> Graph" where
  "graphOf cur =
     (let nodeSet = newSet (concat (map (\<lambda>(attester, recipients). attester # jkeys recipients) cur));
          outgoing = newMap (map (\<lambda>(attester, recipients).
            (attester, newMap (map (\<lambda>(recipient, edge). (recipient, ceWeight edge)) recipients))) cur)
      in \<lparr>gNodes = sortBy cmpHex nodeSet, gOutgoing = outgoing\<rparr>)"

definition buildGraph :: "viem \<Rightarrow> RawEdge list \<Rightarrow> Params \<Rightarrow> Graph result" where
  "buildGraph V es p = bindE (currentEdges V p es) (\<lambda>cur. Inr (graphOf cur))"

section \<open>The order of events\<close>

interpretation eventcmp: keyed_comparator cmpEvent "\<lambda>(e, i). (eBlockTimestamp e, i)"
  by unfold_locales (auto simp: cmpEvent_def Let_def cmpBig_cmpLin cmpLin_def less_eq_prod_def)

lemma mset_orderedEvents: "mset (orderedEvents es) = mset es"
proof -
  have "mset (orderedEvents es) = mset (map fst (zip es [0..<length es]))"
    unfolding orderedEvents_def by (rule mset_map_sortBy)
  then show ?thesis by simp
qed

lemma orderedEvents_sorted: "sorted (map eBlockTimestamp (orderedEvents es))"
proof -
  have "sorted (map (\<lambda>(e, i). (eBlockTimestamp e, i)) (sortBy cmpEvent (zip es [0..<length es])))"
    by (rule eventcmp.sortBy_sorted)
  then have "sorted_wrt (\<lambda>x y. eBlockTimestamp (fst x) \<le> eBlockTimestamp (fst y))
    (sortBy cmpEvent (zip es [0..<length es]))"
    by (auto simp: sorted_wrt_map less_eq_prod_def elim!: sorted_wrt_mono_rel [rotated] split: prod.splits)
  then show ?thesis by (simp add: orderedEvents_def sorted_wrt_map comp_def)
qed

text \<open>Events of one timestamp keep their fold order.\<close>

interpretation timecmp: keyed_comparator
  "\<lambda>a b. cmpBig (eBlockTimestamp (fst a)) (eBlockTimestamp (fst b))"
  "\<lambda>a :: RawEdge \<times> nat. eBlockTimestamp (fst a)"
  by unfold_locales (simp add: cmpBig_cmpLin)

lemma sortBy_cmpEvent:
  "sorted_wrt (<) (map snd xs) \<Longrightarrow> sortBy cmpEvent xs = sort_key (\<lambda>a. eBlockTimestamp (fst a)) xs"
proof (induction xs)
  case (Cons x xs)
  have "insertBy cmpEvent x ys = insort_key (\<lambda>a. eBlockTimestamp (fst a)) x ys"
    if "\<forall>y \<in> set ys. snd x < snd y" for ys
    using that by (induction ys) (auto simp: cmpEvent_def Let_def cmpBig_cmpLin cmpLin_def)
  with Cons show ?case by simp
qed simp

lemma orderedEvents_stable:
  "filter (\<lambda>e. eBlockTimestamp e = t) (orderedEvents es) = filter (\<lambda>e. eBlockTimestamp e = t) es"
proof -
  let ?z = "zip es [0..<length es]"
  have eq: "orderedEvents es = map fst (sort_key (\<lambda>a. eBlockTimestamp (fst a)) ?z)"
    unfolding orderedEvents_def by (subst sortBy_cmpEvent) auto
  have "filter (\<lambda>e. eBlockTimestamp e = t) (map fst (sort_key (\<lambda>a. eBlockTimestamp (fst a)) ?z)) =
    map fst (filter (\<lambda>a. eBlockTimestamp (fst a) = t) ?z)"
    by (simp add: filter_map comp_def sort_key_stable)
  also have "\<dots> = filter (\<lambda>e. eBlockTimestamp e = t) (map fst ?z)"
    unfolding filter_map comp_def ..
  finally show ?thesis by (simp add: eq)
qed

section \<open>The order of a log, by position\<close>

text \<open>The event at position \<open>j\<close> of a log comes after the one at \<open>i\<close>: a later block, or the same block and further on in the log.\<close>

definition laterEvent :: "RawEdge list \<Rightarrow> nat \<Rightarrow> nat \<Rightarrow> bool" where
  "laterEvent es i j \<longleftrightarrow> eBlockTimestamp (es ! i) < eBlockTimestamp (es ! j) \<or>
     (eBlockTimestamp (es ! i) = eBlockTimestamp (es ! j) \<and> i < j)"

lemma laterEvent_irrefl [simp]: "\<not> laterEvent es i i"
  by (simp add: laterEvent_def)

lemma laterEvent_asym: "laterEvent es i j \<Longrightarrow> \<not> laterEvent es j i"
  by (auto simp: laterEvent_def)

lemma orderedEvents_positions:
  obtains ps where "orderedEvents es = map ((!) es) ps" and "set ps = {..<length es}" and "sorted_wrt (laterEvent es) ps"
proof -
  let ?z = "zip es [0..<length es]" and ?key = "\<lambda>(e :: RawEdge, i :: nat). (eBlockTimestamp e, i)"
  have fst_snd: "fst x = es ! snd x" if "x \<in> set ?z" for x using that by (auto simp: set_zip)
  have "map fst (sortBy cmpEvent ?z) = map ((!) es) (map snd (sortBy cmpEvent ?z))" using fst_snd by simp
  moreover have "set (map snd (sortBy cmpEvent ?z)) = set (map snd ?z)" by (simp only: set_map set_sortBy)
  moreover have "sorted_wrt (laterEvent es) (map snd (sortBy cmpEvent ?z))"
  proof -
    have "distinct (map snd (map ?key ?z))" by (simp add: comp_def case_prod_beta)
    then have "distinct (map ?key ?z)" by (simp only: distinct_map)
    from eventcmp.sortBy_strict [OF this]
    have "sorted_wrt (\<lambda>x y. ?key x < ?key y) (sortBy cmpEvent ?z)" by (simp only: sorted_wrt_map)
    then have "sorted_wrt (\<lambda>x y. laterEvent es (snd x) (snd y)) (sortBy cmpEvent ?z)"
      by (rule sorted_wrt_mono_rel [rotated]) (use fst_snd in \<open>auto simp: laterEvent_def less_prod_def split: prod.splits\<close>)
    then show ?thesis by (simp only: sorted_wrt_map)
  qed
  moreover have "set (map snd ?z) = {..<length es}" by (simp add: lessThan_atLeast0)
  ultimately show thesis using that [of "map snd (sortBy cmpEvent ?z)"] unfolding orderedEvents_def by metis
qed

section \<open>The invariant of the nested map\<close>

definition currentInv :: "current \<Rightarrow> bool" where
  "currentInv cur \<longleftrightarrow> jmapInv cur \<and>
     (\<forall>(a, rs) \<in> set cur. canonical a \<and> rs \<noteq> [] \<and> jmapInv rs \<and> (\<forall>r \<in> set (jkeys rs). canonical r))"

lemma currentInv_Nil [simp]: "currentInv []"
  by (simp add: currentInv_def)

lemma jset_entries: "jmapInv m \<Longrightarrow> set (jset k v m) = insert (k, v) {e \<in> set m. fst e \<noteq> k}"
  by (induction m) (force simp: jmapInv_def)+

lemma jdelete_entries: "set (jdelete k m) = {e \<in> set m. fst e \<noteq> k}"
  by (induction m) auto

lemma jset_nonempty [simp]: "jset k v m \<noteq> []"
  by (cases m) auto

lemma currentInv_jset:
  assumes "currentInv cur" and "canonical a" and "rs \<noteq> []" and "jmapInv rs"
    and "\<forall>r \<in> set (jkeys rs). canonical r"
  shows "currentInv (jset a rs cur)"
  using assms by (auto simp: currentInv_def jset_entries)

lemma currentInv_jdelete: "currentInv cur \<Longrightarrow> currentInv (jdelete a cur)"
  by (auto simp: currentInv_def jdelete_entries)

lemma currentInv_get:
  "currentInv cur \<Longrightarrow> jget cur a = Some rs \<Longrightarrow>
   canonical a \<and> rs \<noteq> [] \<and> jmapInv rs \<and> (\<forall>r \<in> set (jkeys rs). canonical r)"
  unfolding currentInv_def by (drule map_of_SomeD) auto

lemma applyEvent_inv:
  assumes inv: "currentInv cur" and ev: "applyEvent V p cur e = Inr cur'"
  shows "currentInv cur'"
proof -
  let ?a = "toLowerCase (eAttester e)" and ?r = "toLowerCase (eRecipient e)"
  have empty: "jmapInv (orDefault (jget cur ?a) []) \<and>
    (\<forall>r \<in> set (jkeys (orDefault (jget cur ?a) [])). canonical r)"
    using currentInv_get [OF inv, of ?a] by (cases "jget cur ?a") (simp_all add: orDefault_def)
  show ?thesis
  proof (cases "eKind e = 0")
    case True
    with ev obtain w where "cur' = jset ?a (jset ?r \<lparr>ceUid = toLowerCase (eUid e), ceWeight = w\<rparr>
        (orDefault (jget cur ?a) [])) cur"
      by (auto simp: applyEvent_def Let_def)
    with empty show ?thesis
      by (auto intro!: currentInv_jset [OF inv] simp: keys_update split: if_splits)
  next
    case False
    have del: "currentInv (jset ?a (jdelete ?r rs) cur)"
      if "jget cur ?a = Some rs" "jdelete ?r rs \<noteq> []" for rs
      using currentInv_get [OF inv that(1)] that(2)
      by (intro currentInv_jset [OF inv]) (auto simp: keys_delete)
    show ?thesis
      using False ev inv del currentInv_jdelete [OF inv]
      by (auto simp: applyEvent_def Let_def split: if_splits option.splits)
  qed
qed

lemma currentEdges_inv: "currentEdges V p es = Inr cur \<Longrightarrow> currentInv cur"
  unfolding currentEdges_def
  by (erule foldE_invariant [where P = currentInv]) (rule currentInv_Nil, rule applyEvent_inv)

section \<open>Each pair evolves on its own\<close>

definition edgeAt :: "current \<Rightarrow> hex \<Rightarrow> hex \<Rightarrow> CurrentEdge option" where
  "edgeAt cur a r = (case jget cur a of None \<Rightarrow> None | Some rs \<Rightarrow> jget rs r)"

text \<open>
  The reference: the state of one pair is its last attestation, cleared by a revocation that names
  the attestation in force.
\<close>

definition pairStep :: "viem \<Rightarrow> Params \<Rightarrow> CurrentEdge option \<Rightarrow> RawEdge \<Rightarrow> CurrentEdge option" where
  "pairStep V p st e =
     (if eKind e = 0 then
        (case weightFp V e p of
           Inl _ \<Rightarrow> None
         | Inr w \<Rightarrow> Some \<lparr>ceUid = toLowerCase (eUid e), ceWeight = w\<rparr>)
      else if eKind e = 1 \<and> map_option ceUid st = Some (toLowerCase (eUid e)) then None
      else st)"

definition ofPair :: "hex \<Rightarrow> hex \<Rightarrow> RawEdge \<Rightarrow> bool" where
  "ofPair a r e \<longleftrightarrow> toLowerCase (eAttester e) = a \<and> toLowerCase (eRecipient e) = r"

definition pairRun :: "viem \<Rightarrow> Params \<Rightarrow> hex \<Rightarrow> hex \<Rightarrow> RawEdge list \<Rightarrow> CurrentEdge option" where
  "pairRun V p a r es = foldl (pairStep V p) None (filter (ofPair a r) es)"

lemma applyEvent_edgeAt:
  assumes inv: "currentInv cur" and ev: "applyEvent V p cur e = Inr cur'"
  shows "edgeAt cur' a r = (if ofPair a r e then pairStep V p (edgeAt cur a r) e else edgeAt cur a r)"
proof -
  let ?a = "toLowerCase (eAttester e)" and ?r = "toLowerCase (eRecipient e)"
  show ?thesis
  proof (cases "eKind e = 0")
    case True
    with ev obtain w where w: "weightFp V e p = Inr w"
      and "cur' = jset ?a (jset ?r \<lparr>ceUid = toLowerCase (eUid e), ceWeight = w\<rparr>
        (orDefault (jget cur ?a) [])) cur"
      by (auto simp: applyEvent_def Let_def)
    with True show ?thesis
      by (auto simp: edgeAt_def ofPair_def pairStep_def jget_jset orDefault_def split: option.splits)
  next
    case False
    have gone: "jget rs r = None" if "jdelete ?r rs = []" "r \<noteq> ?r" for rs :: "(hex, CurrentEdge) jmap"
      using that jget_jdelete [of ?r rs r] by simp
    show ?thesis
      using False ev gone [THEN sym]
      by (auto simp: applyEvent_def edgeAt_def ofPair_def pairStep_def Let_def jget_jset jget_jdelete
          split: if_splits option.splits dest: gone)
  qed
qed

lemma foldE_edgeAt:
  "foldE (applyEvent V p) cur es = Inr cur' \<Longrightarrow> currentInv cur \<Longrightarrow>
   edgeAt cur' a r = foldl (pairStep V p) (edgeAt cur a r) (filter (ofPair a r) es)"
proof (induction es arbitrary: cur)
  case (Cons e es)
  then obtain c where c: "applyEvent V p cur e = Inr c" and "foldE (applyEvent V p) c es = Inr cur'"
    by auto
  with Cons.IH [of c] applyEvent_inv [OF Cons.prems(2) c]
  have "edgeAt cur' a r = foldl (pairStep V p) (edgeAt c a r) (filter (ofPair a r) es)" by blast
  then show ?case by (simp add: applyEvent_edgeAt [OF Cons.prems(2) c])
qed simp

lemma currentEdges_pairRun:
  "currentEdges V p es = Inr cur \<Longrightarrow> edgeAt cur a r = pairRun V p a r (orderedEvents es)"
  unfolding currentEdges_def pairRun_def
  by (drule foldE_edgeAt) (simp_all add: currentInv_def edgeAt_def)

section \<open>The graph\<close>

lemma newMap_values:
  "distinct (jkeys m) \<Longrightarrow> newMap (map (\<lambda>(k, v). (k, f v)) m) = map (\<lambda>(k, v). (k, f v)) m"
  by (rule newMap_distinct) (simp add: comp_def case_prod_beta)

lemma graphOf_outgoing:
  assumes "currentInv cur"
  shows "gOutgoing (graphOf cur) =
    map (\<lambda>(a, rs). (a, map (\<lambda>(r, edge). (r, ceWeight edge)) rs)) cur"
proof -
  have "gOutgoing (graphOf cur) =
    map (\<lambda>(a, rs). (a, newMap (map (\<lambda>(r, edge). (r, ceWeight edge)) rs))) cur"
    using assms unfolding graphOf_def Let_def currentInv_def jmapInv_def
    by (simp add: newMap_values [of cur "\<lambda>rs. newMap (map (\<lambda>(r, edge). (r, ceWeight edge)) rs)"])
  also have "\<dots> = map (\<lambda>(a, rs). (a, map (\<lambda>(r, edge). (r, ceWeight edge)) rs)) cur"
    using assms by (intro map_cong) (auto simp: currentInv_def jmapInv_def newMap_values)
  finally show ?thesis .
qed

text \<open>A graph as the ranker wants it: sorted lower-case nodes that contain every edge's ends.\<close>

definition wfGraph :: "Graph \<Rightarrow> bool" where
  "wfGraph g \<longleftrightarrow> jmapInv (gOutgoing g) \<and> sorted_wrt (<) (gNodes g) \<and> (\<forall>n \<in> set (gNodes g). canonical n) \<and>
     (\<forall>(a, row) \<in> set (gOutgoing g). a \<in> set (gNodes g) \<and> row \<noteq> [] \<and> jmapInv row \<and>
        (\<forall>r \<in> set (jkeys row). r \<in> set (gNodes g)))"

definition weightOf :: "Graph \<Rightarrow> hex \<Rightarrow> hex \<Rightarrow> int option" where
  "weightOf g a r = (case jget (gOutgoing g) a of None \<Rightarrow> None | Some row \<Rightarrow> jget row r)"

lemma map_of_mapv: "map_of (map (\<lambda>(k, v). (k, f v)) m) k = map_option f (map_of m k)"
  by (induction m) auto

lemma weightOf_graphOf: "currentInv cur \<Longrightarrow> weightOf (graphOf cur) a r = map_option ceWeight (edgeAt cur a r)"
  by (simp add: weightOf_def graphOf_outgoing edgeAt_def map_of_mapv split: option.splits)

lemma graphOf_nodes:
  "set (gNodes (graphOf cur)) = (\<Union>(a, rs) \<in> set cur. insert a (set (jkeys rs)))"
  by (auto simp: graphOf_def Let_def)

lemma wfGraph_graphOf:
  assumes inv: "currentInv cur"
  shows "wfGraph (graphOf cur)"
proof -
  let ?n = "newSet (concat (map (\<lambda>(a, rs). a # jkeys rs) cur))"
  have can: "\<forall>n \<in> set ?n. canonical n"
    using inv by (auto simp: currentInv_def)
  then have nodes: "gNodes (graphOf cur) = sort ?n"
    by (simp add: graphOf_def Let_def sortHex_canonical)
  then have "sorted_wrt (<) (gNodes (graphOf cur))"
    by (simp add: strict_sorted_iff)
  then show ?thesis
    using inv can unfolding wfGraph_def graphOf_outgoing [OF inv]
    by (auto simp: nodes currentInv_def jmapInv_def comp_def case_prod_beta)
qed

lemma weightFp_bounds:
  assumes "weightFp V e p = Inr w" and "minWeightFp p \<le> maxWeightFp p"
  shows "minWeightFp p \<le> w \<and> w \<le> maxWeightFp p"
  using assms by (auto simp: weightFp_def Let_def result_simps split: if_splits)

lemma weightFp_total: "precisionScale p \<noteq> 0 \<Longrightarrow> \<exists>w. weightFp V e p = Inr w"
  by (auto simp: weightFp_def Let_def bigDiv_def)

end
