(* ===== verification/Rank.thy ===== *)
theory Rank
  imports Reconcile
begin

text \<open>
  \<open>lib/pagerank/pagerank.ts\<close>: fixed-point Trust-Aware PageRank.  The breadth-first decay search,
  the initial scores, the push kernel with its checks, and the final normalization.  The lemmas of
  this theory are about the definitions one by one; the properties of a whole run are in
  \<open>RankProps\<close>.
\<close>

section \<open>Definitions\<close>

definition eligibleEdge :: "hex \<Rightarrow> hex \<Rightarrow> int \<Rightarrow> bool" where
  "eligibleEdge source target weight \<longleftrightarrow> source \<noteq> target \<and> weight > 0"

definition isSeed :: "hex list \<Rightarrow> hex \<Rightarrow> bool" where
  "isSeed seeds a \<longleftrightarrow> a \<in> set seeds"

text \<open>A non-null assertion \<open>x!\<close> whose value is then used in arithmetic.\<close>

definition need :: "'a option \<Rightarrow> 'a result" where
  "need x = (case x of None \<Rightarrow> Inl (PlainError ''undefined'') | Some v \<Rightarrow> Inr v)"

text \<open>\<open>nodes\<close> holds no duplicates, so filling the map appends one entry per node.\<close>

definition initializeScores ::
  "hex list \<Rightarrow> Params \<Rightarrow> hex list \<Rightarrow> (hex, int) jmap option \<Rightarrow> (hex, int) jmap result" where
  "initializeScores nodes p seeds reachable =
     (let n = length nodes; s = precisionScale p in
      if n = 0 then Inr []
      else if \<not> hasTrustEnabled p then
        bindE (bigDiv s (int n)) (\<lambda>init. Inr (map (\<lambda>node. (node, init)) nodes))
      else
        let trustedCount = length seeds;
            regularCount = (case reachable of
                None \<Rightarrow> 0
              | Some r \<Rightarrow> length (filter (\<lambda>node. \<not> isSeed seeds node) (jkeys r)));
            trustedTotal = trustShareFp p;
            regularTotal = s - trustShareFp p in
        bindE (if trustedCount > 0 then bigDiv trustedTotal (int trustedCount) else Inr 0)
          (\<lambda>trustedScore.
        bindE (if regularCount > 0 then bigDiv regularTotal (int regularCount) else Inr 0)
          (\<lambda>regularScore.
        Inr (map (\<lambda>node. (node,
              if isSeed seeds node then trustedScore
              else if (case reachable of None \<Rightarrow> False | Some r \<Rightarrow> jhas r node) then regularScore
              else 0)) nodes))))"

text \<open>
  The breadth-first search.  The queue with its head pointer is the list of nodes still to be
  visited; the inner loop appends every neighbour seen for the first time, computing the decay of
  the frontier once.
\<close>

definition eligibleTargets :: "hex \<Rightarrow> (hex, int) jmap \<Rightarrow> hex list" where
  "eligibleTargets current edges =
     sortBy cmpHex (map fst (filter (\<lambda>(neighbor, weight). eligibleEdge current neighbor weight) edges))"

definition visitNeighbor ::
  "int \<Rightarrow> int \<Rightarrow> int \<Rightarrow> (hex, int) jmap \<times> hex list \<times> int option \<Rightarrow> hex \<Rightarrow>
   ((hex, int) jmap \<times> hex list \<times> int option) result" where
  "visitNeighbor parentDecay baseFp scale st neighbor =
     (case st of (decays, queue, childDecay) \<Rightarrow>
        if jhas decays neighbor then Inr st
        else bindE (case childDecay of Some c \<Rightarrow> Inr c | None \<Rightarrow> fpMul parentDecay baseFp scale)
          (\<lambda>c. Inr (jset neighbor c decays, queue @ [neighbor], Some c)))"

definition edgeTargets :: "Graph \<Rightarrow> hex set" where
  "edgeTargets g = (\<Union>(a, row) \<in> set (gOutgoing g). set (jkeys row))"

lemma visitNeighbor_seen [simp]:
  "n \<in> set (jkeys decays) \<Longrightarrow> visitNeighbor pd b s (decays, queue, c) n = Inr (decays, queue, c)"
  by (auto simp: visitNeighbor_def)

lemma visitNeighbor_new:
  "n \<notin> set (jkeys decays) \<Longrightarrow> visitNeighbor pd b s (decays, queue, c) n =
   bindE (case c of Some v \<Rightarrow> Inr v | None \<Rightarrow> fpMul pd b s)
     (\<lambda>v. Inr (jset n v decays, queue @ [n], Some v))"
  by (auto simp: visitNeighbor_def)

lemma visitNeighbors_shape:
  "foldE (visitNeighbor pd b s) (decays, queue, c) ns = Inr (d', q', c') \<Longrightarrow>
   \<exists>new. q' = queue @ new \<and> jkeys d' = jkeys decays @ new \<and> set new = set ns - set (jkeys decays)"
proof (induction ns arbitrary: decays queue c)
  case (Cons n ns)
  show ?case
  proof (cases "n \<in> set (jkeys decays)")
    case True
    with Cons.prems have "foldE (visitNeighbor pd b s) (decays, queue, c) ns = Inr (d', q', c')"
      by simp
    from Cons.IH [OF this] True show ?thesis by auto
  next
    case False
    with Cons.prems obtain v where
      "foldE (visitNeighbor pd b s) (jset n v decays, queue @ [n], Some v) ns = Inr (d', q', c')"
      by (auto simp: visitNeighbor_new)
    from Cons.IH [OF this] False show ?thesis by (force simp: keys_update)
  qed
qed auto

lemma eligibleTargets_subset:
  "jget (gOutgoing g) a = Some row \<Longrightarrow> set (eligibleTargets a row) \<subseteq> edgeTargets g"
  by (auto simp: eligibleTargets_def edgeTargets_def dest!: map_of_SomeD)

lemma finite_edgeTargets [simp]: "finite (edgeTargets g)"
  by (auto simp: edgeTargets_def)

function bfsLoop ::
  "Graph \<Rightarrow> int \<Rightarrow> int \<Rightarrow> (hex, int) jmap \<Rightarrow> hex list \<Rightarrow> (hex, int) jmap result" where
  "bfsLoop g baseFp scale decays [] = Inr decays"
| "bfsLoop g baseFp scale decays (current # queue) =
     (case jget decays current of
        None \<Rightarrow> bfsLoop g baseFp scale decays queue
      | Some parentDecay \<Rightarrow>
          (case jget (gOutgoing g) current of
             None \<Rightarrow> bfsLoop g baseFp scale decays queue
           | Some edges \<Rightarrow>
               bindE (foldE (visitNeighbor parentDecay baseFp scale) (decays, queue, None)
                        (eligibleTargets current edges))
                 (\<lambda>st. bfsLoop g baseFp scale (fst st) (fst (snd st)))))"
  by pat_completeness auto
termination
proof (relation "measures [\<lambda>(g, b, s, decays, queue). card (edgeTargets g - set (jkeys decays)),
    \<lambda>(g, b, s, decays, queue). length queue]")
  fix g :: Graph and baseFp scale parentDecay :: int and decays edges :: "(hex, int) jmap"
    and current :: hex and queue :: "hex list" and st
  assume row: "jget (gOutgoing g) current = Some edges"
    and "foldE (visitNeighbor parentDecay baseFp scale) (decays, queue, None)
      (eligibleTargets current edges) = Inr st"
  then obtain new where new: "fst (snd st) = queue @ new" "jkeys (fst st) = jkeys decays @ new"
    "set new = set (eligibleTargets current edges) - set (jkeys decays)"
    using visitNeighbors_shape by (metis prod.collapse)
  show "((g, baseFp, scale, fst st, fst (snd st)), g, baseFp, scale, decays, current # queue)
    \<in> measures [\<lambda>(g, b, s, decays, queue). card (edgeTargets g - set (jkeys decays)),
        \<lambda>(g, b, s, decays, queue). length queue]"
  proof (cases "new = []")
    case True
    then have "set (jkeys (fst st)) = set (jkeys decays)" using new by simp
    with True new(1) show ?thesis by simp
  next
    case False
    then obtain x where "x \<in> set new" by (meson list.set_sel(1))
    then have "x \<in> edgeTargets g - set (jkeys decays)"
      using new(3) eligibleTargets_subset [OF row] by auto
    moreover have "edgeTargets g - set (jkeys (fst st)) \<subset> edgeTargets g - set (jkeys decays)"
      using calculation \<open>x \<in> set new\<close> unfolding new(2) by auto
    then have "card (edgeTargets g - set (jkeys (fst st))) < card (edgeTargets g - set (jkeys decays))"
      by (intro psubset_card_mono) auto
    then show ?thesis by simp
  qed
qed auto

definition bfsDecays :: "Graph \<Rightarrow> hex list \<Rightarrow> int \<Rightarrow> int \<Rightarrow> (hex, int) jmap result" where
  "bfsDecays g seeds baseFp scale =
     (let sortedSeeds = sortBy cmpHex seeds;
          decays = newMap (map (\<lambda>seed. (seed, scale)) sortedSeeds)
      in bfsLoop g baseFp scale decays sortedSeeds)"

definition assertEdgeClosure :: "Graph \<Rightarrow> hex list \<Rightarrow> unit result" where
  "assertEdgeClosure g rankNodes =
     foldE (\<lambda>_ (source, row).
       bindE (throwWhen (source \<notin> set rankNodes) (PlainError ''rank: edge source missing from node set''))
         (\<lambda>_. foldE (\<lambda>_ target.
           throwWhen (target \<notin> set rankNodes) (PlainError ''rank: edge target missing from node set''))
           () (jkeys row)))
       () (gOutgoing g)"

definition checkedTotal :: "string \<Rightarrow> int list \<Rightarrow> int result" where
  "checkedTotal context values = foldE (\<lambda>total value. checkedAdd total value context) 0 values"

text \<open>
  \<open>Array.from(scores).find(..)?.[0] ?? .. ?? scores.keys().next().value\<close>: the account that takes
  the rounding remainder.
\<close>

definition remainderRecipient ::
  "(hex, int) jmap \<Rightarrow> (hex, int) jmap option \<Rightarrow> hex option" where
  "remainderRecipient scores reachable =
     (case List.find (\<lambda>(_, value). value \<noteq> 0) scores of
        Some (node, _) \<Rightarrow> Some node
      | None \<Rightarrow>
          (case List.find (\<lambda>node. jhas scores node)
                  (case reachable of None \<Rightarrow> [] | Some r \<Rightarrow> jkeys r) of
             Some node \<Rightarrow> Some node
           | None \<Rightarrow> (case jkeys scores of [] \<Rightarrow> None | node # _ \<Rightarrow> Some node)))"

definition normalize ::
  "(hex, int) jmap \<Rightarrow> int \<Rightarrow> (hex, int) jmap option \<Rightarrow> (hex, int) jmap result" where
  "normalize scores0 scale reachable =
     bindE (checkedTotal ''rank: score total'' (jvalues scores0)) (\<lambda>total.
     bindE (if total \<noteq> 0
            then mapE (\<lambda>(node, value). bindE (fpDiv value total scale) (\<lambda>v. Inr (node, v))) scores0
            else Inr scores0) (\<lambda>scores.
     if length scores = 0 then Inr scores
     else bindE (checkedTotal ''rank: normalized score total'' (jvalues scores)) (\<lambda>normalizedTotal.
       if normalizedTotal > scale
       then Inl (PlainError ''rank: normalized score total exceeded precision scale'')
       else let remainder = scale - normalizedTotal in
         if remainder = 0 then Inr scores
         else case remainderRecipient scores reachable of
             None \<Rightarrow> Inl (PlainError ''rank: nonempty score map lost its first node'')
           | Some recipient \<Rightarrow>
               bindE (need (jget scores recipient)) (\<lambda>old.
               bindE (checkedAdd old remainder ''rank: normalization remainder'') (\<lambda>v.
               Inr (jset recipient v scores))))))"

record RankResult =
  rrScores :: "(hex, int) jmap"
  rrIterations :: nat
  rrConverged :: bool

text \<open>One normalized row of outgoing edges; \<open>None\<close> where the source continues without a row.\<close>

definition ratioRow ::
  "Params \<Rightarrow> (hex, int) jmap option \<Rightarrow> hex \<Rightarrow> (hex, int) jmap \<Rightarrow> (hex \<times> int) list result" where
  "ratioRow p decays attester edges =
     bindE (checkedTotal ''rank: outgoing-weight sum''
              (jvalues (filter (\<lambda>(target, weight). eligibleEdge attester target weight) edges)))
       (\<lambda>totalBase.
        if totalBase = 0 then Inr []
        else mapE (\<lambda>(target, baseWeight).
               bindE (fpDiv baseWeight totalBase (precisionScale p)) (\<lambda>ratio. Inr (target, ratio)))
             (filter (\<lambda>(target, weight). eligibleEdge attester target weight \<and>
                 (case decays of None \<Rightarrow> True | Some d \<Rightarrow> jhas d target)) edges))"

definition ratioRows ::
  "Graph \<Rightarrow> Params \<Rightarrow> hex list \<Rightarrow> (hex, int) jmap option \<Rightarrow> (hex, (hex \<times> int) list) jmap result" where
  "ratioRows g p rankNodes decays =
     foldE (\<lambda>ratios attester.
       case jget (gOutgoing g) attester of
         None \<Rightarrow> Inr ratios
       | Some edges \<Rightarrow> bindE (ratioRow p decays attester edges) (\<lambda>row.
           Inr (if length row > 0 then jset attester row ratios else ratios)))
       [] rankNodes"

definition teleportScores ::
  "Params \<Rightarrow> hex list \<Rightarrow> (hex, int) jmap \<Rightarrow> (hex, int) jmap result" where
  "teleportScores p rankNodes initial =
     (let baseTeleport = precisionScale p - dampingFp p in
      mapE (\<lambda>node. bindE (need (jget initial node)) (\<lambda>v.
        bindE (fpMul baseTeleport v (precisionScale p)) (\<lambda>t. Inr (node, t)))) rankNodes)"

definition pushEdge ::
  "Params \<Rightarrow> (hex, int) jmap \<Rightarrow> hex \<Rightarrow> int \<Rightarrow> (hex, int) jmap \<Rightarrow> hex \<times> int \<Rightarrow> (hex, int) jmap result" where
  "pushEdge p current attester decay newScores edge =
     (case edge of (recipient, ratio) \<Rightarrow>
       let s = precisionScale p in
       bindE (need (jget current attester)) (\<lambda>score.
       bindE (fpMul score ratio s) (\<lambda>c1.
       bindE (fpMul c1 decay s) (\<lambda>contribution.
       bindE (need (jget newScores recipient)) (\<lambda>old.
       bindE (fpMul (dampingFp p) contribution s) (\<lambda>damped.
       bindE (checkedAdd old damped ''rank: accumulated score'') (\<lambda>v.
       Inr (jset recipient v newScores))))))))"

definition pushAll ::
  "Params \<Rightarrow> hex list \<Rightarrow> (hex, int) jmap option \<Rightarrow> (hex, (hex \<times> int) list) jmap \<Rightarrow>
   (hex, int) jmap \<Rightarrow> (hex, int) jmap \<Rightarrow> (hex, int) jmap result" where
  "pushAll p rankNodes decays ratios teleport current =
     foldE (\<lambda>newScores attester.
       case jget ratios attester of
         None \<Rightarrow> Inr newScores
       | Some row \<Rightarrow>
           let decay = (case decays of
                          Some d \<Rightarrow> orDefault (jget d attester) 0 | None \<Rightarrow> precisionScale p)
           in foldE (pushEdge p current attester decay) newScores row)
       teleport rankNodes"

definition maxDelta ::
  "hex list \<Rightarrow> (hex, int) jmap option \<Rightarrow> (hex, int) jmap \<Rightarrow> (hex, int) jmap \<Rightarrow> int result" where
  "maxDelta rankNodes decays newScores current =
     foldE (\<lambda>best recipient.
       if (case decays of None \<Rightarrow> False | Some d \<Rightarrow> \<not> jhas d recipient) then Inr best
       else bindE (need (jget newScores recipient)) (\<lambda>newScore.
         bindE (need (jget current recipient)) (\<lambda>prev.
         let delta = (if newScore > prev then newScore - prev else prev - newScore)
         in Inr (if delta > best then delta else best))))
       0 rankNodes"

text \<open>
  The main loop with \<open>k\<close> iterations left and \<open>i\<close> done.
\<close>

fun rankLoop ::
  "Params \<Rightarrow> hex list \<Rightarrow> (hex, int) jmap option \<Rightarrow> (hex, (hex \<times> int) list) jmap \<Rightarrow>
   (hex, int) jmap \<Rightarrow> nat \<Rightarrow> nat \<Rightarrow> (hex, int) jmap \<Rightarrow> ((hex, int) jmap \<times> nat \<times> bool) result" where
  "rankLoop p rankNodes decays ratios teleport 0 i current = Inr (current, i, False)"
| "rankLoop p rankNodes decays ratios teleport (Suc k) i current =
     bindE (pushAll p rankNodes decays ratios teleport current) (\<lambda>newScores.
     bindE (checkedTotal ''rank: iteration score total'' (jvalues newScores)) (\<lambda>iterationTotal.
     if iterationTotal > precisionScale p
     then Inl (PlainError ''rank: total standing exceeded precision scale'')
     else bindE (maxDelta rankNodes decays newScores current) (\<lambda>delta.
       if delta < toleranceFp p then Inr (newScores, Suc i, True)
       else rankLoop p rankNodes decays ratios teleport k (Suc i) newScores)))"

definition rankSeeds :: "Params \<Rightarrow> hex list" where
  "rankSeeds p = newSet (map toLowerCase (trustedSeeds p))"

definition rankNodesOf :: "Graph \<Rightarrow> Params \<Rightarrow> hex list" where
  "rankNodesOf g p = sortBy cmpHex (newSet (map toLowerCase (gNodes g) @ rankSeeds p))"

definition rankDecays :: "Graph \<Rightarrow> Params \<Rightarrow> (hex, int) jmap option result" where
  "rankDecays g p =
     (if hasTrustEnabled p
      then bindE (bfsDecays g (rankSeeds p) (trustDecayFp p) (precisionScale p)) (\<lambda>d. Inr (Some d))
      else Inr None)"

definition calculateDetailed :: "Graph \<Rightarrow> Params \<Rightarrow> RankResult result" where
  "calculateDetailed g p =
     (let s = precisionScale p; seeds = rankSeeds p; rankNodes = rankNodesOf g p;
          n = length rankNodes in
      if n = 0 then Inr \<lparr>rrScores = [], rrIterations = 0, rrConverged = True\<rparr>
      else
        bindE (assertEdgeClosure g rankNodes) (\<lambda>_.
        bindE (rankDecays g p) (\<lambda>decays.
        bindE (initializeScores rankNodes p seeds decays) (\<lambda>initial.
        if maxIterations p = 0 then
          bindE (normalize initial s decays) (\<lambda>scores.
          Inr \<lparr>rrScores = scores, rrIterations = 0, rrConverged = False\<rparr>)
        else
          bindE (ratioRows g p rankNodes decays) (\<lambda>ratios.
          bindE (teleportScores p rankNodes initial) (\<lambda>teleport.
          bindE (rankLoop p rankNodes decays ratios teleport (nat (maxIterations p)) 0 initial)
            (\<lambda>(current, iterations, converged).
          bindE (normalize current s decays) (\<lambda>scores.
          Inr \<lparr>rrScores = scores, rrIterations = iterations, rrConverged = converged\<rparr>))))))))"

definition calculate :: "Graph \<Rightarrow> Params \<Rightarrow> (hex, int) jmap result" where
  "calculate g p = bindE (calculateDetailed g p) (\<lambda>r. Inr (rrScores r))"

end
