(* ===== verification/RankBfs.thy ===== *)
theory RankBfs
  imports Rank
begin

text \<open>
  The breadth-first search of \<open>pagerank.ts\<close>: it visits exactly the accounts that a chain of
  eligible edges reaches from a seed, and gives each the decay of its shortest chain.
\<close>

section \<open>Breadth-first decays\<close>

text \<open>A chain of eligible edges of length \<open>k\<close> from a seed.\<close>

inductive trustWalk :: "Graph \<Rightarrow> hex list \<Rightarrow> nat \<Rightarrow> hex \<Rightarrow> bool" for g seeds where
  seed: "a \<in> set seeds \<Longrightarrow> trustWalk g seeds 0 a"
| step: "trustWalk g seeds k a \<Longrightarrow> jget (gOutgoing g) a = Some row \<Longrightarrow> (b, w) \<in> set row \<Longrightarrow>
    eligibleEdge a b w \<Longrightarrow> trustWalk g seeds (Suc k) b"

inductive_cases trustWalk_SucE: "trustWalk g seeds (Suc k) b"
inductive_simps trustWalk_0 [simp]: "trustWalk g seeds 0 a"

definition trustDistance :: "Graph \<Rightarrow> hex list \<Rightarrow> nat \<Rightarrow> hex \<Rightarrow> bool" where
  "trustDistance g seeds k a \<longleftrightarrow> trustWalk g seeds k a \<and> (\<forall>j < k. \<not> trustWalk g seeds j a)"

text \<open>The decay after \<open>k\<close> hops, rounded at every hop as the search rounds it.\<close>

fun decayAt :: "int \<Rightarrow> int \<Rightarrow> nat \<Rightarrow> int" where
  "decayAt base s 0 = s"
| "decayAt base s (Suc k) = (decayAt base s k * base) sdiv s"

lemma set_eligibleTargets:
  "set (eligibleTargets a row) = {b. \<exists>w. (b, w) \<in> set row \<and> eligibleEdge a b w}"
  by (force simp: eligibleTargets_def)

text \<open>One node's neighbours all get the same decay, appended behind the queue.\<close>

lemma visitNeighbors_result:
  "foldE (visitNeighbor pd b s) (decays, queue, c) ns = Inr st \<Longrightarrow>
   (\<And>v. c = Some v \<Longrightarrow> fpMul pd b s = Inr v) \<Longrightarrow>
   \<exists>new. fst (snd st) = queue @ new \<and> fst st = decays @ map (\<lambda>n. (n, pd * b sdiv s)) new \<and>
     distinct new \<and> set new = set ns - set (jkeys decays)"
proof (induction ns arbitrary: decays queue c)
  case (Cons n ns)
  show ?case
  proof (cases "n \<in> set (jkeys decays)")
    case True
    with Cons.prems have "foldE (visitNeighbor pd b s) (decays, queue, c) ns = Inr st" by simp
    from Cons.IH [OF this] Cons.prems(2) True show ?thesis by auto
  next
    case False
    with Cons.prems(1) obtain v
      where v: "(case c of Some v \<Rightarrow> Inr v | None \<Rightarrow> fpMul pd b s) = Inr v"
      and rest: "foldE (visitNeighbor pd b s) (jset n v decays, queue @ [n], Some v) ns = Inr st"
      by (auto simp: visitNeighbor_new)
    have mul: "fpMul pd b s = Inr v"
      using v Cons.prems(2) by (cases c) auto
    then have v': "v = pd * b sdiv s" by (simp add: fpMul_def mulDiv_Inr)
    obtain new where "fst (snd st) = (queue @ [n]) @ new"
      "fst st = jset n v decays @ map (\<lambda>n. (n, pd * b sdiv s)) new"
      "distinct new" "set new = set ns - set (jkeys (jset n v decays))"
      using Cons.IH [OF rest] mul by auto
    with False show ?thesis
      unfolding jset_fresh [OF False] v' by (intro exI [of _ "n # new"]) auto
  qed
qed auto

text \<open>
  The invariant of the search.  \<open>done\<close> are the visited nodes; along the keys of the decay map the
  levels never decrease, and no key is more than one level beyond the next node of the queue.
\<close>

definition bfsInv ::
  "Graph \<Rightarrow> hex list \<Rightarrow> int \<Rightarrow> int \<Rightarrow> (hex \<Rightarrow> nat) \<Rightarrow> hex list \<Rightarrow> (hex, int) jmap \<Rightarrow> hex list \<Rightarrow> bool" where
  "bfsInv g seeds b s lev visited decays queue \<longleftrightarrow>
     jkeys decays = visited @ queue \<and> distinct (jkeys decays) \<and> set seeds \<subseteq> set (jkeys decays) \<and>
     (\<forall>a \<in> set seeds. lev a = 0) \<and>
     (\<forall>(a, v) \<in> set decays. trustWalk g seeds (lev a) a \<and> v = decayAt b s (lev a)) \<and>
     sorted (map lev (jkeys decays)) \<and>
     (queue \<noteq> [] \<longrightarrow> (\<forall>a \<in> set (jkeys decays). lev a \<le> Suc (lev (hd queue)))) \<and>
     (\<forall>a \<in> set visited. \<forall>row x w. jget (gOutgoing g) a = Some row \<longrightarrow> (x, w) \<in> set row \<longrightarrow>
        eligibleEdge a x w \<longrightarrow> x \<in> set (jkeys decays) \<and> lev x \<le> Suc (lev a))"

lemma bfsInv_end:
  assumes inv: "bfsInv g seeds b s lev visited decays []"
  shows "jget decays a = Some v \<longleftrightarrow> (\<exists>k. trustDistance g seeds k a \<and> v = decayAt b s k)"
proof -
  have keys: "jkeys decays = visited" and dist: "distinct (jkeys decays)" using inv by (auto simp: bfsInv_def)
  have reach: "x \<in> set visited \<and> lev x \<le> k" if "trustWalk g seeds k x" for x k
    using that
  proof induction
    case (seed a)
    with inv show ?case by (auto simp: bfsInv_def)
  next
    case (step k a row x w)
    then have "x \<in> set (jkeys decays) \<and> lev x \<le> Suc (lev a)" using inv unfolding bfsInv_def by blast
    with step.IH keys show ?case by auto
  qed
  have dst: "trustDistance g seeds (lev x) x" if "(x, u) \<in> set decays" for x u
    using inv that reach unfolding bfsInv_def trustDistance_def by (fastforce simp: not_le [symmetric])
  have uniq: "k = l" if "trustDistance g seeds k x" "trustDistance g seeds l x" for k l x
    using that unfolding trustDistance_def by (metis nat_neq_iff)
  show ?thesis
  proof
    assume "jget decays a = Some v"
    then have "(a, v) \<in> set decays" by (rule map_of_SomeD)
    with dst inv show "\<exists>k. trustDistance g seeds k a \<and> v = decayAt b s k"
      unfolding bfsInv_def by blast
  next
    assume "\<exists>k. trustDistance g seeds k a \<and> v = decayAt b s k"
    then obtain k where k: "trustDistance g seeds k a" and v: "v = decayAt b s k" by blast
    then have "a \<in> set (jkeys decays)" using reach keys by (auto simp: trustDistance_def)
    then obtain u where u: "(a, u) \<in> set decays" by auto
    then have "u = decayAt b s (lev a)" using inv by (auto simp: bfsInv_def)
    with uniq [OF dst [OF u] k] v have "u = v" by simp
    with u dist show "jget decays a = Some v" by simp
  qed
qed

lemma bfsInv_step:
  assumes inv: "bfsInv g seeds b s lev visited decays (cur # queue)"
    and pd: "jget decays cur = Some pd" and row: "jget (gOutgoing g) cur = Some row"
    and run: "foldE (visitNeighbor pd b s) (decays, queue, None) (eligibleTargets cur row) = Inr st"
  shows "\<exists>lev'. bfsInv g seeds b s lev' (visited @ [cur]) (fst st) (fst (snd st))"
proof -
  obtain new where q: "fst (snd st) = queue @ new"
    and d: "fst st = decays @ map (\<lambda>n. (n, pd * b sdiv s)) new"
    and new: "distinct new" "set new = set (eligibleTargets cur row) - set (jkeys decays)"
    using visitNeighbors_result [OF run] by auto
  define lev' where "lev' x = (if x \<in> set new then Suc (lev cur) else lev x)" for x
  have old: "x \<notin> set new" "lev' x = lev x" if "x \<in> set (jkeys decays)" for x
    using that new by (auto simp: lev'_def)
  have keys: "jkeys decays = visited @ cur # queue" and distinct: "distinct (jkeys decays)"
    and srt: "sorted (map lev (jkeys decays))"
    and near: "\<forall>a \<in> set (jkeys decays). lev a \<le> Suc (lev cur)"
    using inv unfolding bfsInv_def list.sel by blast+
  have pdv: "pd = decayAt b s (lev cur)" and wcur: "trustWalk g seeds (lev cur) cur"
    using inv map_of_SomeD [OF pd] by (auto simp: bfsInv_def)
  have keys': "jkeys (fst st) = jkeys decays @ new" by (simp add: d comp_def)
  have lev_old: "map lev' (jkeys decays) = map lev (jkeys decays)" using old by auto
  have lev_new: "map lev' new = replicate (length new) (Suc (lev cur))"
    by (auto simp: lev'_def list_eq_iff_nth_eq)
  have entries: "trustWalk g seeds (lev' x) x \<and> v = decayAt b s (lev' x)" if "(x, v) \<in> set (fst st)" for x v
  proof (cases "(x, v) \<in> set decays")
    case True
    then have "x \<in> set (jkeys decays)" by force
    with True inv old(2) show ?thesis by (fastforce simp: bfsInv_def)
  next
    case False
    with that have x: "x \<in> set new" and v: "v = pd * b sdiv s" by (auto simp: d)
    then obtain w where "(x, w) \<in> set row" "eligibleEdge cur x w"
      using new(2) by (auto simp: set_eligibleTargets)
    then have "trustWalk g seeds (Suc (lev cur)) x" using wcur row by (blast intro: trustWalk.step)
    with x v pdv show ?thesis by (simp add: lev'_def)
  qed
  have sorted': "sorted (map lev' (jkeys (fst st)))"
    unfolding keys' map_append lev_old lev_new sorted_append using srt near by auto
  have queue: "lev' a \<le> Suc (lev' (hd (fst (snd st))))"
    if ne: "fst (snd st) \<noteq> []" and a: "a \<in> set (jkeys (fst st))" for a
  proof -
    have "lev cur \<le> lev' (hd (fst (snd st)))"
    proof (cases queue)
      case Nil
      with ne q have "hd (fst (snd st)) \<in> set new" by simp
      then show ?thesis by (simp add: lev'_def)
    next
      case (Cons y ys)
      then have "lev cur \<le> lev y" using srt unfolding keys by (auto simp: sorted_append)
      moreover have "lev' y = lev y" using old keys Cons by simp
      ultimately show ?thesis using q Cons by simp
    qed
    moreover have "lev' a \<le> Suc (lev cur)" using a near old by (auto simp: keys' lev'_def)
    ultimately show ?thesis by simp
  qed
  have closed: "x \<in> set (jkeys (fst st)) \<and> lev' x \<le> Suc (lev' a)"
    if a: "a \<in> set (visited @ [cur])" and r: "jget (gOutgoing g) a = Some r"
      and x: "(x, w) \<in> set r" "eligibleEdge a x w" for a r x w
  proof (cases "a = cur")
    case True
    then have "x \<in> set (eligibleTargets cur row)" using r row x by (auto simp: set_eligibleTargets)
    then have "x \<in> set (jkeys decays) \<or> x \<in> set new" using new by auto
    moreover have "lev' cur = lev cur" using old keys by simp
    ultimately show ?thesis using True near old unfolding keys' by (auto simp: lev'_def)
  next
    case False
    with a have "a \<in> set visited" by simp
    then have "x \<in> set (jkeys decays) \<and> lev x \<le> Suc (lev a)" using inv r x unfolding bfsInv_def by blast
    with old \<open>a \<in> set visited\<close> keys show ?thesis unfolding keys' by simp
  qed
  have "bfsInv g seeds b s lev' (visited @ [cur]) (fst st) (fst (snd st))"
    unfolding bfsInv_def
  proof (intro conjI)
    show "jkeys (fst st) = (visited @ [cur]) @ fst (snd st)" using keys by (simp add: keys' q)
    show "distinct (jkeys (fst st))" using distinct new by (auto simp: keys')
    have seeds: "set seeds \<subseteq> set (jkeys decays)" and "\<forall>a\<in>set seeds. lev a = 0"
      using inv unfolding bfsInv_def by blast+
    then show "\<forall>a\<in>set seeds. lev' a = 0" using old(2) by (metis subsetD)
    show "set seeds \<subseteq> set (jkeys (fst st))" using seeds unfolding keys' by auto
    show "sorted (map lev' (jkeys (fst st)))" by (rule sorted')
  qed (use entries queue closed in auto)
  then show ?thesis by blast
qed

lemma bfsInv_skip:
  assumes inv: "bfsInv g seeds b s lev visited decays (cur # queue)"
    and none: "jget (gOutgoing g) cur = None"
  shows "bfsInv g seeds b s lev (visited @ [cur]) decays queue"
proof -
  have keys: "jkeys decays = visited @ cur # queue" and srt: "sorted (map lev (jkeys decays))"
    using inv unfolding bfsInv_def by blast+
  have "lev cur \<le> lev (hd queue)" if "queue \<noteq> []"
    using srt that unfolding keys by (cases queue) (auto simp: sorted_append)
  moreover have "\<forall>a \<in> set (jkeys decays). lev a \<le> Suc (lev cur)"
    using inv unfolding bfsInv_def list.sel by blast
  ultimately have near: "queue \<noteq> [] \<longrightarrow> (\<forall>a \<in> set (jkeys decays). lev a \<le> Suc (lev (hd queue)))"
    using le_trans Suc_le_mono by blast
  have closed: "\<forall>a \<in> set (visited @ [cur]). \<forall>row x w. jget (gOutgoing g) a = Some row \<longrightarrow>
      (x, w) \<in> set row \<longrightarrow> eligibleEdge a x w \<longrightarrow> x \<in> set (jkeys decays) \<and> lev x \<le> Suc (lev a)"
  proof
    fix a assume a: "a \<in> set (visited @ [cur])"
    show "\<forall>row x w. jget (gOutgoing g) a = Some row \<longrightarrow>
      (x, w) \<in> set row \<longrightarrow> eligibleEdge a x w \<longrightarrow> x \<in> set (jkeys decays) \<and> lev x \<le> Suc (lev a)"
    proof (cases "a = cur")
      case False
      with a have "a \<in> set visited" by simp
      with inv show ?thesis unfolding bfsInv_def by blast
    qed (simp add: none)
  qed
  have "jkeys decays = (visited @ [cur]) @ queue" using keys by simp
  with inv near closed show ?thesis unfolding bfsInv_def by blast
qed

lemma bfsLoop_result:
  "bfsInv g seeds b s lev visited decays queue \<Longrightarrow> bfsLoop g b s decays queue = Inr d \<Longrightarrow>
   \<exists>lev visited. bfsInv g seeds b s lev visited d []"
proof (induction g b s decays queue arbitrary: lev visited rule: bfsLoop.induct)
  case (2 g b s decays cur queue)
  have "cur \<in> set (jkeys decays)" using "2.prems"(1) by (simp add: bfsInv_def)
  then obtain pd where pd: "jget decays cur = Some pd"
    by (metis map_of_eq_None_iff not_None_eq set_map)
  show ?case
  proof (cases "jget (gOutgoing g) cur")
    case None
    with "2.prems"(2) pd have "bfsLoop g b s decays queue = Inr d" by simp
    from "2.IH"(2) [OF pd None bfsInv_skip [OF "2.prems"(1) None] this] show ?thesis .
  next
    case (Some row)
    then obtain st where st: "foldE (visitNeighbor pd b s) (decays, queue, None) (eligibleTargets cur row) = Inr st"
      and rest: "bfsLoop g b s (fst st) (fst (snd st)) = Inr d"
      using "2.prems"(2) pd by auto
    from bfsInv_step [OF "2.prems"(1) pd Some st]
    obtain lev' where "bfsInv g seeds b s lev' (visited @ [cur]) (fst st) (fst (snd st))" by blast
    from "2.IH"(3) [OF pd Some st this rest] show ?thesis .
  qed
qed auto

lemma newMap_const_keys: "distinct xs \<Longrightarrow> newMap (map (\<lambda>x. (x, v)) xs) = map (\<lambda>x. (x, v)) xs"
  by (rule newMap_distinct) (simp add: comp_def)

lemma bfsInv_start:
  assumes "distinct seeds"
  shows "bfsInv g seeds b s (\<lambda>_. 0) [] (newMap (map (\<lambda>seed. (seed, s)) (sortBy cmpHex seeds))) (sortBy cmpHex seeds)"
  using assms by (auto simp: bfsInv_def newMap_const_keys comp_def map_replicate_const)

lemma bfsDecays_shortest:
  assumes "distinct seeds" and "bfsDecays g seeds b s = Inr d"
  shows "jget d a = Some v \<longleftrightarrow> (\<exists>k. trustDistance g seeds k a \<and> v = decayAt b s k)"
  using bfsLoop_result [OF bfsInv_start [OF assms(1)]] assms(2) bfsInv_end
  unfolding bfsDecays_def Let_def by blast

lemma bfsDecays_keys:
  assumes "distinct seeds" and "bfsDecays g seeds b s = Inr d"
  shows "a \<in> set (jkeys d) \<longleftrightarrow> (\<exists>k. trustWalk g seeds k a)"
proof -
  have "a \<in> set (jkeys d) \<longleftrightarrow> (\<exists>v. jget d a = Some v)"
    by (metis map_of_eq_None_iff not_None_eq set_map)
  also have "\<dots> \<longleftrightarrow> (\<exists>k. trustDistance g seeds k a)"
    using bfsDecays_shortest [OF assms] by blast
  also have "\<dots> \<longleftrightarrow> (\<exists>k. trustWalk g seeds k a)"
    unfolding trustDistance_def using exists_least_iff [of "\<lambda>k. trustWalk g seeds k a"] by blast
  finally show ?thesis .
qed

lemma bfsDecays_distinct: "distinct seeds \<Longrightarrow> bfsDecays g seeds b s = Inr d \<Longrightarrow> distinct (jkeys d)"
  using bfsLoop_result [OF bfsInv_start] unfolding bfsDecays_def Let_def bfsInv_def by blast

end
