(* ===== verification/RankFlow.thy ===== *)
theory RankFlow
  imports RankBfs
begin

text \<open>
  The push kernel of \<open>pagerank.ts\<close>.  One iteration gives every account its teleport score plus the
  flow along its incoming edges (the pull formula), and under valid parameters no intermediate value
  leaves the 256-bit range, so no step throws.
\<close>

section \<open>Flow along an edge\<close>

definition edgeFlow :: "Params \<Rightarrow> int \<Rightarrow> int \<Rightarrow> int \<Rightarrow> int" where
  "edgeFlow p score decay ratio =
     (dampingFp p * ((score * ratio sdiv precisionScale p) * decay sdiv precisionScale p))
       sdiv precisionScale p"

definition rowFlow :: "Params \<Rightarrow> int \<Rightarrow> int \<Rightarrow> (hex \<times> int) list \<Rightarrow> hex \<Rightarrow> int" where
  "rowFlow p score decay row v = sumOf (\<lambda>(r, ratio). if r = v then edgeFlow p score decay ratio else 0) row"

definition decayOf :: "Params \<Rightarrow> (hex, int) jmap option \<Rightarrow> hex \<Rightarrow> int" where
  "decayOf p decays u = (case decays of Some d \<Rightarrow> orDefault (jget d u) 0 | None \<Rightarrow> precisionScale p)"

definition massFrom ::
  "Params \<Rightarrow> (hex, int) jmap option \<Rightarrow> (hex, (hex \<times> int) list) jmap \<Rightarrow> (hex, int) jmap \<Rightarrow> hex \<Rightarrow> hex \<Rightarrow> int" where
  "massFrom p decays ratios current u v =
     (case jget ratios u of None \<Rightarrow> 0
      | Some row \<Rightarrow> rowFlow p (orDefault (jget current u) 0) (decayOf p decays u) row v)"

lemma need_Inr [simp]: "need x = Inr v \<longleftrightarrow> x = Some v"
  by (cases x) (auto simp: need_def)

lemma need_Some [simp]: "need (Some v) = Inr v"
  by (simp add: need_def)

lemma pushEdge_Inr:
  assumes "pushEdge p current u decay ns (v, ratio) = Inr ns'"
  shows "\<exists>score old. jget current u = Some score \<and> jget ns v = Some old \<and>
    ns' = jset v (old + edgeFlow p score decay ratio) ns"
  using assms by (auto simp: pushEdge_def Let_def fpMul_def mulDiv_Inr checkedAdd_Inr edgeFlow_def)

lemma foldE_pushEdge:
  "foldE (pushEdge p current u decay) ns row = Inr ns' \<Longrightarrow>
   jkeys ns' = jkeys ns \<and>
   sumOf snd ns' = sumOf snd ns + sumOf (\<lambda>e. edgeFlow p (orDefault (jget current u) 0) decay (snd e)) row \<and>
   (\<forall>v. jget ns' v = map_option (\<lambda>old. old + rowFlow p (orDefault (jget current u) 0) decay row v) (jget ns v))"
proof (induction row arbitrary: ns)
  case Nil
  then show ?case by (simp add: rowFlow_def option.map_ident)
next
  case (Cons e row)
  obtain v ratio where e: "e = (v, ratio)" by (cases e)
  from Cons.prems obtain m where m: "pushEdge p current u decay ns (v, ratio) = Inr m"
    and rest: "foldE (pushEdge p current u decay) m row = Inr ns'" by (auto simp: e)
  from pushEdge_Inr [OF m] obtain score old where s: "jget current u = Some score"
    and old: "jget ns v = Some old" and m': "m = jset v (old + edgeFlow p score decay ratio) ns" by blast
  from Cons.IH [OF rest] s old jget_Some_key [OF old] show ?case
    unfolding m' e
    by (auto simp: keys_update jget_jset sum_jset rowFlow_def orDefault_def option.map_comp comp_def)
qed

lemma foldE_pushRows:
  assumes "foldE (\<lambda>newScores attester.
       case jget ratios attester of
         None \<Rightarrow> Inr newScores
       | Some row \<Rightarrow>
           let decay = (case decays of
                          Some d \<Rightarrow> orDefault (jget d attester) 0 | None \<Rightarrow> precisionScale p)
           in foldE (pushEdge p current attester decay) newScores row)
       ns us = Inr ns'"
  shows "jkeys ns' = jkeys ns \<and>
    (\<forall>v. jget ns' v = map_option (\<lambda>old. old + sumOf (\<lambda>u. massFrom p decays ratios current u v) us) (jget ns v))"
  using assms
proof (induction us arbitrary: ns)
  case Nil
  then show ?case by (simp add: option.map_ident)
next
  case (Cons u us)
  show ?case
  proof (cases "jget ratios u")
    case None
    with Cons show ?thesis by (simp add: massFrom_def)
  next
    case (Some row)
    with Cons.prems obtain m where m: "foldE (pushEdge p current u (decayOf p decays u)) ns row = Inr m"
      and rest: "foldE (\<lambda>newScores attester.
       case jget ratios attester of
         None \<Rightarrow> Inr newScores
       | Some row \<Rightarrow>
           let decay = (case decays of
                          Some d \<Rightarrow> orDefault (jget d attester) 0 | None \<Rightarrow> precisionScale p)
           in foldE (pushEdge p current attester decay) newScores row) m us = Inr ns'"
      by (auto simp: Let_def decayOf_def)
    from Cons.IH [OF rest] foldE_pushEdge [OF m] Some show ?thesis
      by (simp add: massFrom_def option.map_comp comp_def add.assoc)
  qed
qed

lemma pushAll_pull:
  assumes "pushAll p us decays ratios teleport current = Inr ns"
  shows "jkeys ns = jkeys teleport"
    and "jget ns v = map_option (\<lambda>t. t + sumOf (\<lambda>u. massFrom p decays ratios current u v) us) (jget teleport v)"
  using foldE_pushRows [OF assms [unfolded pushAll_def]] by auto

section \<open>Bounds\<close>

definition validParams :: "Params \<Rightarrow> bool" where
  "validParams p \<longleftrightarrow> 0 < precisionScale p \<and> precisionScale p \<le> U256_MAX \<and>
     0 \<le> dampingFp p \<and> dampingFp p \<le> precisionScale p \<and>
     0 \<le> trustShareFp p \<and> trustShareFp p \<le> precisionScale p \<and>
     0 \<le> trustDecayFp p \<and> trustDecayFp p \<le> precisionScale p"

lemma edgeFlow_bounds:
  assumes v: "validParams p" and "0 \<le> score" "0 \<le> decay" "decay \<le> precisionScale p" "0 \<le> ratio"
  shows "0 \<le> edgeFlow p score decay ratio"
    and "edgeFlow p score decay ratio * precisionScale p \<le> dampingFp p * (score * ratio div precisionScale p)"
proof -
  let ?s = "precisionScale p" and ?c1 = "score * ratio div precisionScale p"
  have s: "0 < ?s" and d: "0 \<le> dampingFp p" using v by (auto simp: validParams_def)
  have c1: "0 \<le> ?c1" using s assms by (simp add: pos_imp_zdiv_nonneg_iff)
  have c: "0 \<le> ?c1 * decay div ?s" "?c1 * decay div ?s \<le> ?c1"
    using div_mult_bound [OF s c1 assms(3,4)] by auto
  have eq: "edgeFlow p score decay ratio = dampingFp p * (?c1 * decay div ?s) div ?s"
    using s d c c1 assms by (simp add: edgeFlow_def)
  show "0 \<le> edgeFlow p score decay ratio" unfolding eq using s d c by (simp add: pos_imp_zdiv_nonneg_iff)
  have "dampingFp p * (?c1 * decay div ?s) div ?s * ?s \<le> dampingFp p * (?c1 * decay div ?s)"
    using s by (rule div_times_le)
  also have "\<dots> \<le> dampingFp p * ?c1" using c d by (simp add: mult_left_mono)
  finally show "edgeFlow p score decay ratio * ?s \<le> dampingFp p * ?c1" unfolding eq .
qed

definition rowOk :: "Params \<Rightarrow> hex list \<Rightarrow> (hex \<times> int) list \<Rightarrow> bool" where
  "rowOk p ks row \<longleftrightarrow> (\<forall>(v, r) \<in> set row. v \<in> set ks \<and> 0 \<le> r \<and> r \<le> precisionScale p) \<and>
     sumOf snd row \<le> precisionScale p"

lemma rowFlow_sum:
  assumes v: "validParams p" and score: "0 \<le> score" and decay: "0 \<le> decay" "decay \<le> precisionScale p"
    and row: "rowOk p ks row"
  shows "sumOf (\<lambda>e. edgeFlow p score decay (snd e)) row * precisionScale p \<le> dampingFp p * score"
proof -
  let ?s = "precisionScale p" and ?c = "\<lambda>e. score * snd e div precisionScale p"
  have s: "0 < ?s" and d: "0 \<le> dampingFp p" using v by (auto simp: validParams_def)
  have "sumOf (\<lambda>e. edgeFlow p score decay (snd e) * ?s) row \<le> sumOf (\<lambda>e. dampingFp p * ?c e) row"
    using row by (intro sumOf_mono edgeFlow_bounds v score decay) (auto simp: rowOk_def)
  then have 1: "sumOf (\<lambda>e. edgeFlow p score decay (snd e)) row * ?s \<le> dampingFp p * sumOf ?c row"
    by (simp add: sumOf_scale sum_list_mult_const)
  have "sumOf ?c row * ?s \<le> sumOf (\<lambda>e. score * snd e) row" using s by (rule sumOf_div)
  also have "\<dots> = score * sumOf snd row" by (rule sumOf_scale)
  also have "\<dots> \<le> score * ?s" using row score by (simp add: rowOk_def mult_left_mono)
  finally have "sumOf ?c row \<le> score" using s by simp
  with 1 d show ?thesis by (meson mult_left_mono order_trans)
qed

text \<open>Under these bounds no step of the push throws.\<close>

lemma fpMul_total:
  "0 \<le> a \<Longrightarrow> a \<le> U256_MAX \<Longrightarrow> 0 \<le> b \<Longrightarrow> b \<le> s \<Longrightarrow> 0 < s \<Longrightarrow> fpMul a b s = Inr (a * b div s)"
  by (simp add: fpMul_def mulDiv_total)

lemma pushEdge_total:
  assumes v: "validParams p" and cur: "jget current u = Some score"
    and score: "0 \<le> score" "score \<le> precisionScale p"
    and decay: "0 \<le> decay" "decay \<le> precisionScale p" and ratio: "0 \<le> ratio" "ratio \<le> precisionScale p"
    and old: "jget ns v = Some old" and room: "old + edgeFlow p score decay ratio \<le> U256_MAX"
  shows "pushEdge p current u decay ns (v, ratio) = Inr (jset v (old + edgeFlow p score decay ratio) ns)"
proof -
  let ?s = "precisionScale p"
  have s: "0 < ?s" "?s \<le> U256_MAX" and d: "0 \<le> dampingFp p" "dampingFp p \<le> ?s" using v by (auto simp: validParams_def)
  have c1: "0 \<le> score * ratio div ?s" "score * ratio div ?s \<le> score"
    using div_mult_bound [OF s(1) score(1) ratio] by auto
  have c: "0 \<le> score * ratio div ?s * decay div ?s" "score * ratio div ?s * decay div ?s \<le> score * ratio div ?s"
    using div_mult_bound [OF s(1) c1(1) decay] by auto
  have "edgeFlow p score decay ratio = dampingFp p * (score * ratio div ?s * decay div ?s) div ?s"
    using s d c c1 score decay ratio by (simp add: edgeFlow_def)
  with room show ?thesis
    using s d c c1 score decay ratio
    by (simp add: pushEdge_def Let_def cur old fpMul_total checkedAdd_def)
qed

lemma foldE_pushEdge_total:
  assumes v: "validParams p" and cur: "jget current u = Some score"
    and score: "0 \<le> score" "score \<le> precisionScale p" and decay: "0 \<le> decay" "decay \<le> precisionScale p"
  shows "\<lbrakk>\<forall>(r, ratio) \<in> set row. r \<in> set (jkeys ns) \<and> 0 \<le> ratio \<and> ratio \<le> precisionScale p;
    \<forall>e \<in> set ns. 0 \<le> snd e;
    sumOf snd ns + sumOf (\<lambda>e. edgeFlow p score decay (snd e)) row \<le> U256_MAX\<rbrakk> \<Longrightarrow>
   \<exists>ns'. foldE (pushEdge p current u decay) ns row = Inr ns' \<and> (\<forall>e \<in> set ns'. 0 \<le> snd e)"
proof (induction row arbitrary: ns)
  case (Cons e row)
  obtain r ratio where e: "e = (r, ratio)" by (cases e)
  from Cons.prems(1) have ratio: "0 \<le> ratio" "ratio \<le> precisionScale p" and "r \<in> set (jkeys ns)" by (auto simp: e)
  then obtain old where old: "jget ns r = Some old" using jget_key by metis
  have flow: "0 \<le> edgeFlow p score decay ratio" by (rule edgeFlow_bounds) (use v score decay ratio in auto)
  have rest: "0 \<le> sumOf (\<lambda>e. edgeFlow p score decay (snd e)) row"
    by (rule sumOf_nonneg, rule edgeFlow_bounds) (use v score decay Cons.prems(1) in auto)
  have "old \<le> sumOf snd ns" and old0: "0 \<le> old" using jget_le_sum [OF Cons.prems(2) old] by auto
  with Cons.prems(3) rest have "old + edgeFlow p score decay ratio \<le> U256_MAX" by (simp add: e)
  from pushEdge_total [OF v cur score decay ratio old this]
  have step: "pushEdge p current u decay ns (r, ratio) = Inr (jset r (old + edgeFlow p score decay ratio) ns)" .
  have "\<exists>ns'. foldE (pushEdge p current u decay) (jset r (old + edgeFlow p score decay ratio) ns) row = Inr ns' \<and>
      (\<forall>e \<in> set ns'. 0 \<le> snd e)"
  proof (rule Cons.IH)
    show "\<forall>(x, y)\<in>set row. x \<in> set (jkeys (jset r (old + edgeFlow p score decay ratio) ns)) \<and>
      0 \<le> y \<and> y \<le> precisionScale p"
      using Cons.prems(1) by (auto simp: keys_update)
    show "\<forall>e\<in>set (jset r (old + edgeFlow p score decay ratio) ns). 0 \<le> snd e"
      using Cons.prems(2) old0 flow by (intro jset_bound) auto
    show "sumOf snd (jset r (old + edgeFlow p score decay ratio) ns) +
        sumOf (\<lambda>e. edgeFlow p score decay (snd e)) row \<le> U256_MAX"
      using Cons.prems(3) by (simp add: sum_jset [OF old] e)
  qed
  with step show ?case by (simp add: e)
qed auto

text \<open>A score map over the ranked nodes: the state of the iteration.\<close>

definition scoresOk :: "Params \<Rightarrow> hex list \<Rightarrow> (hex, int) jmap \<Rightarrow> bool" where
  "scoresOk p ks m \<longleftrightarrow> jkeys m = ks \<and> (\<forall>e \<in> set m. 0 \<le> snd e) \<and> sumOf snd m \<le> precisionScale p"

lemma scoresOk_jget:
  assumes "scoresOk p ks m" and "k \<in> set ks"
  shows "\<exists>x. jget m k = Some x \<and> 0 \<le> x \<and> x \<le> precisionScale p"
  using assms jget_key [of k m] jget_le_sum [of m k] unfolding scoresOk_def by fastforce

definition rowsOk :: "Params \<Rightarrow> hex list \<Rightarrow> (hex, (hex \<times> int) list) jmap \<Rightarrow> bool" where
  "rowsOk p ks ratios \<longleftrightarrow> (\<forall>u row. jget ratios u = Some row \<longrightarrow> rowOk p ks row)"

definition decaysOk :: "Params \<Rightarrow> (hex, int) jmap option \<Rightarrow> bool" where
  "decaysOk p decays \<longleftrightarrow> (\<forall>u. 0 \<le> decayOf p decays u \<and> decayOf p decays u \<le> precisionScale p)"

lemma pushRows_total:
  assumes v: "validParams p" and cur: "scoresOk p ks current" and rows: "rowsOk p ks ratios"
    and decays: "decaysOk p decays"
  shows "\<lbrakk>set us \<subseteq> set ks; jkeys ns = ks; \<forall>e \<in> set ns. 0 \<le> snd e;
     sumOf snd ns * precisionScale p + dampingFp p * sumOf (\<lambda>u. orDefault (jget current u) 0) us
       \<le> precisionScale p * precisionScale p\<rbrakk> \<Longrightarrow>
   \<exists>ns'. foldE (\<lambda>newScores attester.
       case jget ratios attester of
         None \<Rightarrow> Inr newScores
       | Some row \<Rightarrow>
           let decay = (case decays of
                          Some d \<Rightarrow> orDefault (jget d attester) 0 | None \<Rightarrow> precisionScale p)
           in foldE (pushEdge p current attester decay) newScores row) ns us = Inr ns' \<and>
     scoresOk p ks ns'"
proof (induction us arbitrary: ns)
  case Nil
  moreover have "0 < precisionScale p" using v by (simp add: validParams_def)
  ultimately show ?case by (auto simp: scoresOk_def)
next
  case (Cons u us)
  let ?s = "precisionScale p" and ?f = "\<lambda>u. orDefault (jget current u) 0"
  have s: "0 < ?s" "?s \<le> U256_MAX" and d: "0 \<le> dampingFp p" using v by (auto simp: validParams_def)
  from Cons.prems(1) cur obtain score where score: "jget current u = Some score" "0 \<le> score" "score \<le> ?s"
    using scoresOk_jget [of p ks current u] by auto
  have tail: "0 \<le> sumOf ?f us"
    using Cons.prems(1) scoresOk_jget [OF cur] by (intro sumOf_nonneg) (fastforce simp: orDefault_def)
  show ?case
  proof (cases "jget ratios u")
    case None
    have "sumOf snd ns * ?s + dampingFp p * sumOf ?f us \<le> ?s * ?s"
      using Cons.prems(4) score d by (simp add: orDefault_def distrib_left) (smt (verit) mult_nonneg_nonneg)
    with None Cons show ?thesis by simp
  next
    case (Some row)
    have ro: "rowOk p ks row" using rows Some by (simp add: rowsOk_def)
    have dec: "0 \<le> decayOf p decays u" "decayOf p decays u \<le> ?s" using decays by (auto simp: decaysOk_def)
    let ?row = "sumOf (\<lambda>e. edgeFlow p score (decayOf p decays u) (snd e)) row"
    have flow: "?row * ?s \<le> dampingFp p * score" by (rule rowFlow_sum [OF v score(2) dec ro])
    have bound: "(sumOf snd ns + ?row) * ?s + dampingFp p * sumOf ?f us \<le> ?s * ?s"
      using Cons.prems(4) flow score(1) by (simp add: orDefault_def algebra_simps)
    moreover have "0 \<le> dampingFp p * sumOf ?f us" using d tail by simp
    ultimately have "(sumOf snd ns + ?row) * ?s \<le> ?s * ?s" by linarith
    then have le: "sumOf snd ns + ?row \<le> ?s" using s by simp
    have "\<forall>(r, ratio)\<in>set row. r \<in> set (jkeys ns) \<and> 0 \<le> ratio \<and> ratio \<le> ?s"
      using ro Cons.prems(2) by (auto simp: rowOk_def)
    from foldE_pushEdge_total [OF v score dec this Cons.prems(3)] le s
    obtain m where m: "foldE (pushEdge p current u (decayOf p decays u)) ns row = Inr m"
      and nonneg: "\<forall>e \<in> set m. 0 \<le> snd e" by auto
    have "jkeys m = ks" "sumOf snd m = sumOf snd ns + ?row"
      using foldE_pushEdge [OF m] Cons.prems(2) score(1) by (auto simp: orDefault_def)
    with Cons.IH [of m] Cons.prems(1) nonneg bound m Some show ?thesis
      by (simp add: Let_def decayOf_def)
  qed
qed

end
