(* ===== verification/RankNormalize.thy ===== *)
theory RankNormalize
  imports RankFlow
begin

text \<open>
  The final normalization of \<open>pagerank.ts\<close>: it keeps the keys, makes the scores sum to the precision
  scale, never throws on a bounded score map and never pays the remainder to an unreachable account.
\<close>

section \<open>Normalization\<close>

lemma checkedTotal_Inr: "checkedTotal c vs = Inr t \<Longrightarrow> t = sum_list vs"
proof -
  have "foldE (\<lambda>total value. checkedAdd total value c) t0 vs = Inr t \<Longrightarrow> t = t0 + sum_list vs" for t0
    by (induction vs arbitrary: t0) (fastforce simp: checkedAdd_Inr add.assoc)+
  from this [of 0] show "checkedTotal c vs = Inr t \<Longrightarrow> t = sum_list vs" by (simp add: checkedTotal_def)
qed

lemma checkedTotal_total:
  assumes "\<forall>v \<in> set vs. 0 \<le> v" and "sum_list vs \<le> U256_MAX"
  shows "checkedTotal c vs = Inr (sum_list vs)"
proof -
  have "t0 + sum_list vs \<le> U256_MAX \<Longrightarrow> foldE (\<lambda>total value. checkedAdd total value c) t0 vs = Inr (t0 + sum_list vs)"
    if "\<forall>v \<in> set vs. 0 \<le> v" for t0 using that
  proof (induction vs arbitrary: t0)
    case (Cons v vs)
    moreover have "0 \<le> sum_list vs" using sumOf_nonneg [of vs "\<lambda>x. x"] Cons.prems by simp
    ultimately show ?case by (simp add: checkedAdd_def add.assoc)
  qed simp
  from this [of 0] assms show ?thesis by (simp add: checkedTotal_def)
qed

lemma mapE_entries:
  "mapE (\<lambda>(k, v). bindE (f k v) (\<lambda>w. Inr (k, w))) m = Inr m' \<Longrightarrow> jkeys m' = jkeys m"
  by (rule mapE_map) auto

lemma mapE_entries_get:
  "mapE (\<lambda>(k, v). bindE (f k v) (\<lambda>w. Inr (k, w))) m = Inr m' \<Longrightarrow> jget m a = Some v \<Longrightarrow>
   \<exists>w. f a v = Inr w \<and> jget m' a = Some w"
  by (induction m arbitrary: m') (auto split: if_splits)

text \<open>What a normalization that returns has done.\<close>

lemma normalize_cases:
  assumes "normalize m s decays = Inr m'"
  obtains scaled where "sumOf snd m \<noteq> 0 \<longrightarrow>
      mapE (\<lambda>(node, value). bindE (fpDiv value (sumOf snd m) s) (\<lambda>v. Inr (node, v))) m = Inr scaled"
    and "sumOf snd m = 0 \<longrightarrow> scaled = m"
    and "jkeys scaled = jkeys m"
    and "m = [] \<and> m' = [] \<or> m \<noteq> [] \<and> sumOf snd scaled = s \<and> m' = scaled \<or>
      (\<exists>k v. m \<noteq> [] \<and> remainderRecipient scaled decays = Some k \<and> jget scaled k = Some v \<and>
         m' = jset k (v + (s - sumOf snd scaled)) scaled)"
proof -
  from assms obtain total scaled where total: "checkedTotal ''rank: score total'' (jvalues m) = Inr total"
    and scaled: "(if total \<noteq> 0 then mapE (\<lambda>(node, value). bindE (fpDiv value total s) (\<lambda>v. Inr (node, v))) m
      else Inr m) = Inr scaled"
    and rest: "(if length scaled = 0 then Inr scaled
     else bindE (checkedTotal ''rank: normalized score total'' (jvalues scaled)) (\<lambda>normalizedTotal.
       if normalizedTotal > s
       then Inl (PlainError ''rank: normalized score total exceeded precision scale'')
       else let remainder = s - normalizedTotal in
         if remainder = 0 then Inr scaled
         else case remainderRecipient scaled decays of
             None \<Rightarrow> Inl (PlainError ''rank: nonempty score map lost its first node'')
           | Some recipient \<Rightarrow>
               bindE (need (jget scaled recipient)) (\<lambda>old.
               bindE (checkedAdd old remainder ''rank: normalization remainder'') (\<lambda>v.
               Inr (jset recipient v scaled))))) = Inr m'"
    unfolding normalize_def by blast
  have t: "total = sumOf snd m" using checkedTotal_Inr [OF total] by simp
  have keys: "jkeys scaled = jkeys m"
    using scaled mapE_entries [of "\<lambda>k v. fpDiv v total s" m scaled] by (auto split: if_splits)
  then have empty: "scaled = [] \<longleftrightarrow> m = []" by (metis map_is_Nil_conv)
  show thesis
  proof (rule that [of scaled])
    show "m = [] \<and> m' = [] \<or> m \<noteq> [] \<and> sumOf snd scaled = s \<and> m' = scaled \<or>
      (\<exists>k v. m \<noteq> [] \<and> remainderRecipient scaled decays = Some k \<and> jget scaled k = Some v \<and>
         m' = jset k (v + (s - sumOf snd scaled)) scaled)"
    proof (cases "scaled = []")
      case True
      with rest empty show ?thesis by simp
    next
      case False
      with rest obtain nt where nt: "checkedTotal ''rank: normalized score total'' (jvalues scaled) = Inr nt"
        and rest': "(if nt > s
       then Inl (PlainError ''rank: normalized score total exceeded precision scale'')
       else let remainder = s - nt in
         if remainder = 0 then Inr scaled
         else case remainderRecipient scaled decays of
             None \<Rightarrow> Inl (PlainError ''rank: nonempty score map lost its first node'')
           | Some recipient \<Rightarrow>
               bindE (need (jget scaled recipient)) (\<lambda>old.
               bindE (checkedAdd old remainder ''rank: normalization remainder'') (\<lambda>v.
               Inr (jset recipient v scaled)))) = Inr m'" by auto
      have "nt = sumOf snd scaled" using checkedTotal_Inr [OF nt] by simp
      with rest' False empty show ?thesis
        by (auto simp: Let_def checkedAdd_Inr split: if_splits option.splits)
    qed
  qed (use scaled t keys in \<open>auto split: if_splits\<close>)
qed

lemma normalize_keys: "normalize m s decays = Inr m' \<Longrightarrow> jkeys m' = jkeys m"
  by (erule normalize_cases) (auto simp: keys_update dest: jget_Some_key)

lemma normalize_sum: "normalize m s decays = Inr m' \<Longrightarrow> m \<noteq> [] \<Longrightarrow> sumOf snd m' = s"
  by (erule normalize_cases) (auto simp: sum_jset)

lemma remainderRecipient_avoids:
  assumes "distinct (jkeys m)" and "jget m a = Some 0" and "a \<notin> set (jkeys d)"
    and "x \<in> set (jkeys d)" and "x \<in> set (jkeys m)"
  shows "remainderRecipient m (Some d) \<noteq> Some a"
proof (cases "List.find (\<lambda>(_, value). value \<noteq> 0) m")
  case None
  have "List.find (\<lambda>node. jhas m node) (jkeys d) \<noteq> None"
    using assms(4,5) by (auto simp: find_None_iff)
  then obtain y where y: "List.find (\<lambda>node. jhas m node) (jkeys d) = Some y" by auto
  then have "y \<in> set (jkeys d)" by (auto simp: find_Some_iff)
  with assms(3) None y show ?thesis by (auto simp: remainderRecipient_def simp del: jhas_iff)
next
  case (Some e)
  then have "e \<in> set m" and "snd e \<noteq> 0" unfolding find_Some_iff case_prod_beta by (metis nth_mem)+
  then have "fst e \<noteq> a" using assms(1,2)
    by (metis map_of_is_SomeI option.inject prod.collapse)
  with Some show ?thesis by (auto simp: remainderRecipient_def split: prod.splits)
qed

lemma normalize_zero:
  assumes run: "normalize m s (Some d) = Inr m'" and "distinct (jkeys m)" and a: "jget m a = Some 0"
    and "a \<notin> set (jkeys d)" and "x \<in> set (jkeys d)" and "x \<in> set (jkeys m)"
  shows "jget m' a = Some 0"
proof -
  obtain scaled where scaled: "sumOf snd m \<noteq> 0 \<longrightarrow>
      mapE (\<lambda>(node, value). bindE (fpDiv value (sumOf snd m) s) (\<lambda>v. Inr (node, v))) m = Inr scaled"
    "sumOf snd m = 0 \<longrightarrow> scaled = m" and keys: "jkeys scaled = jkeys m"
    and out: "m = [] \<and> m' = [] \<or> m \<noteq> [] \<and> sumOf snd scaled = s \<and> m' = scaled \<or>
      (\<exists>k v. m \<noteq> [] \<and> remainderRecipient scaled (Some d) = Some k \<and> jget scaled k = Some v \<and>
         m' = jset k (v + (s - sumOf snd scaled)) scaled)"
    using run by (rule normalize_cases)
  have "jget scaled a = Some 0"
  proof (cases "sumOf snd m = 0")
    case False
    with scaled obtain w where "fpDiv 0 (sumOf snd m) s = Inr w" "jget scaled a = Some w"
      using mapE_entries_get [of "\<lambda>k v. fpDiv v (sumOf snd m) s" m scaled a 0] a by auto
    with False show ?thesis by (simp add: fpDiv_def)
  qed (use scaled a in simp)
  moreover from this have "remainderRecipient scaled (Some d) \<noteq> Some a"
    using assms keys by (intro remainderRecipient_avoids [of _ _ _ x]) simp_all
  ultimately show ?thesis using out a by (auto simp: jget_jset)
qed

lemma fpDiv_share:
  assumes "0 \<le> v" "v \<le> t" "0 < t" "0 \<le> s" "s \<le> U256_MAX"
  shows "fpDiv v t s = Inr (v * s div t)"
  using mulDiv_total [of s v t] assms by (simp add: fpDiv_def mulDiv_def mult.commute)

lemma remainderRecipient_some:
  assumes "m \<noteq> []"
  shows "\<exists>k v. remainderRecipient m decays = Some k \<and> jget m k = Some v"
proof -
  have "\<exists>k. remainderRecipient m decays = Some k \<and> k \<in> set (jkeys m)"
  proof (cases "List.find (\<lambda>(_, value). value \<noteq> 0) m")
    case None
    show ?thesis
    proof (cases "List.find (\<lambda>node. jhas m node) (case decays of None \<Rightarrow> [] | Some r \<Rightarrow> jkeys r)")
      case find: None
      with None assms show ?thesis by (cases m) (auto simp: remainderRecipient_def simp del: jhas_iff)
    next
      case (Some y)
      then have "jhas m y" unfolding find_Some_iff by blast
      then have "y \<in> set (jkeys m)" by simp
      with None Some show ?thesis by (auto simp: remainderRecipient_def simp del: jhas_iff)
    qed
  next
    case (Some e)
    then have "e \<in> set m" unfolding find_Some_iff by (metis nth_mem)
    with Some show ?thesis by (auto simp: remainderRecipient_def split: prod.splits intro: rev_image_eqI)
  qed
  then show ?thesis using jget_key by metis
qed

lemma normalize_total:
  assumes v: "validParams p" and m: "scoresOk p ks m"
  shows "\<exists>m'. normalize m (precisionScale p) decays = Inr m' \<and> scoresOk p ks m'"
proof -
  let ?s = "precisionScale p" and ?t = "sumOf snd m"
  have s: "0 < ?s" "?s \<le> U256_MAX" using v by (auto simp: validParams_def)
  have nn: "\<forall>v \<in> set (jvalues m). 0 \<le> v" and ts: "?t \<le> ?s" and keys: "jkeys m = ks"
    using m by (auto simp: scoresOk_def)
  have t: "checkedTotal ''rank: score total'' (jvalues m) = Inr ?t"
    using nn ts s by (intro checkedTotal_total) auto
  have t0: "0 \<le> ?t" using m by (intro sumOf_nonneg) (auto simp: scoresOk_def)
  obtain scaled where scaled: "(if ?t \<noteq> 0 then mapE (\<lambda>(node, value). bindE (fpDiv value ?t ?s) (\<lambda>v. Inr (node, v))) m
      else Inr m) = Inr scaled" and ok: "scoresOk p ks scaled"
  proof (cases "?t = 0")
    case False
    with t0 have pos: "0 < ?t" by simp
    have share: "fpDiv v ?t ?s = Inr (v * ?s div ?t)" if "(k, v) \<in> set m" for k v
      using that nn sumOf_member [of m snd "(k, v)"] pos s by (intro fpDiv_share) auto
    let ?m = "map (\<lambda>(k, v). (k, v * ?s div ?t)) m"
    have "mapE (\<lambda>(node, value). bindE (fpDiv value ?t ?s) (\<lambda>v. Inr (node, v))) m = Inr ?m"
      by (rule mapE_total) (auto simp: share)
    moreover have "scoresOk p ks ?m"
    proof -
      have "sumOf (\<lambda>e. snd e * ?s div ?t) m * ?t \<le> sumOf (\<lambda>e. snd e * ?s) m" using pos by (rule sumOf_div)
      also have "\<dots> = ?s * ?t" by (simp add: sum_list_mult_const mult.commute)
      finally have "sumOf (\<lambda>e. snd e * ?s div ?t) m \<le> ?s" using pos by simp
      moreover have "\<forall>e \<in> set ?m. 0 \<le> snd e" using nn s pos by (auto simp: pos_imp_zdiv_nonneg_iff)
      ultimately show ?thesis using keys by (simp add: scoresOk_def comp_def case_prod_beta)
    qed
    ultimately show ?thesis using that False by simp
  qed (use that m in simp)
  let ?nt = "sumOf snd scaled"
  have nt: "checkedTotal ''rank: normalized score total'' (jvalues scaled) = Inr ?nt"
    using ok s by (intro checkedTotal_total) (auto simp: scoresOk_def)
  show ?thesis
  proof (cases "scaled = [] \<or> ?nt = ?s")
    case True
    with scaled t nt ok show ?thesis by (auto simp: normalize_def)
  next
    case False
    then obtain k v where k: "remainderRecipient scaled decays = Some k" "jget scaled k = Some v"
      using remainderRecipient_some by metis
    let ?r = "v + (?s - ?nt)"
    have v: "0 \<le> v" "v \<le> ?nt" using jget_le_sum [of scaled k v] ok k(2) by (auto simp: scoresOk_def)
    have le: "?nt \<le> ?s" using ok by (simp add: scoresOk_def)
    have "checkedAdd v (?s - ?nt) ''rank: normalization remainder'' = Inr ?r"
      using v le s by (simp add: checkedAdd_def)
    then have "normalize m ?s decays = Inr (jset k ?r scaled)"
      using t scaled nt k False le by (simp add: normalize_def)
    moreover have "scoresOk p ks (jset k ?r scaled)"
    proof -
      have "jkeys (jset k ?r scaled) = ks"
        using ok jget_Some_key [OF k(2)] by (simp add: scoresOk_def keys_update)
      moreover have "\<forall>e \<in> set (jset k ?r scaled). 0 \<le> snd e"
        using ok v le by (intro jset_bound) (auto simp: scoresOk_def)
      ultimately show ?thesis by (simp add: scoresOk_def sum_jset [OF k(2)])
    qed
    ultimately show ?thesis by blast
  qed
qed

end
