(* ===== verification/RankRows.thy ===== *)
theory RankRows
  imports RankNormalize
begin

text \<open>
  The start of a run of \<open>pagerank.ts\<close>: the ranked nodes, the normalized rows, the initial scores and
  the teleport scores, with their bounds.
\<close>

section \<open>Nodes, seeds and rows\<close>

lemma rankSeeds_distinct [simp]: "distinct (rankSeeds p)"
  by (simp add: rankSeeds_def)

lemma set_rankSeeds: "set (rankSeeds p) = toLowerCase ` set (trustedSeeds p)"
  by (simp add: rankSeeds_def)

lemma set_rankNodes: "set (rankNodesOf g p) = toLowerCase ` set (gNodes g) \<union> set (rankSeeds p)"
  by (simp add: rankNodesOf_def)

lemma rankNodes_sorted: "sorted_wrt (<) (rankNodesOf g p)"
proof -
  have "\<forall>x \<in> set (newSet (map toLowerCase (gNodes g) @ rankSeeds p)). canonical x"
    by (auto simp: set_rankSeeds)
  then show ?thesis unfolding rankNodesOf_def by (simp add: sortHex_canonical strict_sorted_iff)
qed

lemma rankNodes_distinct [simp]: "distinct (rankNodesOf g p)"
  using rankNodes_sorted by (simp add: strict_sorted_iff)

lemma assertEdgeClosure_iff:
  "assertEdgeClosure g ns = Inr u \<longleftrightarrow>
   (\<forall>(a, row) \<in> set (gOutgoing g). a \<in> set ns \<and> set (jkeys row) \<subseteq> set ns)"
proof -
  have inner: "foldE (\<lambda>_ target. throwWhen (target \<notin> set ns) e) () ts = Inr u \<longleftrightarrow> set ts \<subseteq> set ns" for e ts u
    by (induction ts) (auto simp: throwWhen_def)
  have "foldE (\<lambda>_ (source, row).
       bindE (throwWhen (source \<notin> set ns) e) (\<lambda>_. foldE (\<lambda>_ target. throwWhen (target \<notin> set ns) e') () (jkeys row)))
       () es = Inr () \<longleftrightarrow> (\<forall>(a, row) \<in> set es. a \<in> set ns \<and> set (jkeys row) \<subseteq> set ns)"
    for e e' and es :: "(hex \<times> (hex, int) jmap) list"
  proof (induction es)
    case (Cons x es)
    obtain a row where x: "x = (a, row)" by (cases x)
    show ?case unfolding x by (cases "a \<in> set ns"; cases "set (jkeys row) \<subseteq> set ns")
      (simp_all add: result_simps inner Cons.IH del: set_map)
  qed simp
  then show ?thesis by (simp add: assertEdgeClosure_def)
qed

text \<open>A normalized row: only eligible, reachable targets, with ratios that sum to at most one.\<close>

lemma ratioRow_targets:
  assumes "ratioRow p decays u row = Inr rs" and "(v, r) \<in> set rs"
  shows "v \<in> set (jkeys row) \<and> (case decays of None \<Rightarrow> True | Some d \<Rightarrow> v \<in> set (jkeys d))"
proof -
  let ?Q = "\<lambda>(v, w). eligibleEdge u v w \<and> (case decays of None \<Rightarrow> True | Some d \<Rightarrow> jhas d v)"
  from assms obtain t where "mapE (\<lambda>(target, baseWeight).
      bindE (fpDiv baseWeight t (precisionScale p)) (\<lambda>ratio. Inr (target, ratio))) (filter ?Q row) = Inr rs"
    by (auto simp: ratioRow_def split: if_splits)
  then obtain e where e: "e \<in> set (filter ?Q row)"
    and "(\<lambda>(target, baseWeight). bindE (fpDiv baseWeight t (precisionScale p)) (\<lambda>ratio. Inr (target, ratio))) e = Inr (v, r)"
    using assms(2) by (rule mapE_setE)
  then have v: "v = fst e" by (auto split: prod.splits)
  show ?thesis
  proof (cases decays)
    case None
    with e v show ?thesis by auto
  next
    case (Some d)
    with e v have "e \<in> set row" "jhas d v" by (auto simp del: jhas_iff)
    with v Some show ?thesis by simp
  qed
qed

lemma fpDiv_part:
  assumes "validParams p" "0 < w" "w \<le> t"
  shows "fpDiv w t (precisionScale p) = Inr (w * precisionScale p div t)"
    and "0 \<le> w * precisionScale p div t" and "w * precisionScale p div t \<le> precisionScale p"
proof -
  have s: "0 < precisionScale p" "precisionScale p \<le> U256_MAX" using assms(1) by (auto simp: validParams_def)
  with assms show "fpDiv w t (precisionScale p) = Inr (w * precisionScale p div t)" by (intro fpDiv_share) auto
  show "0 \<le> w * precisionScale p div t" using assms s by (simp add: pos_imp_zdiv_nonneg_iff)
  show "w * precisionScale p div t \<le> precisionScale p"
    using div_mult_bound [of t "precisionScale p" w] assms s by (simp add: mult.commute)
qed

lemma sumOf_filter_le: "(\<And>x. x \<in> set xs \<Longrightarrow> P x \<Longrightarrow> 0 \<le> f x) \<Longrightarrow> (\<And>x. Q x \<Longrightarrow> P x) \<Longrightarrow>
  sumOf f (filter Q xs) \<le> sumOf f (filter P xs)"
  by (induction xs) (auto intro: add_increasing)

definition outWeight :: "hex \<Rightarrow> (hex, int) jmap \<Rightarrow> int" where
  "outWeight u row = sumOf snd (filter (\<lambda>(v, w). eligibleEdge u v w) row)"

lemma ratioRow_total:
  assumes v: "validParams p" and room: "outWeight u row \<le> U256_MAX" and ks: "set (jkeys row) \<subseteq> set ks"
  shows "\<exists>rs. ratioRow p decays u row = Inr rs \<and> rowOk p ks rs"
proof -
  let ?s = "precisionScale p" and ?t = "outWeight u row"
  let ?P = "\<lambda>(v, w). eligibleEdge u v w"
  let ?Q = "\<lambda>(v, w). eligibleEdge u v w \<and> (case decays of None \<Rightarrow> True | Some d \<Rightarrow> jhas d v)"
  have s: "0 < ?s" using v by (auto simp: validParams_def)
  have pos: "0 < snd e" if "e \<in> set (filter ?P row)" for e
    using that by (auto simp: eligibleEdge_def)
  then have nn: "0 \<le> snd e" if "e \<in> set (filter ?P row)" for e using that by fastforce
  have ct: "checkedTotal ''rank: outgoing-weight sum'' (jvalues (filter ?P row)) = Inr ?t"
    using room nn unfolding outWeight_def by (subst checkedTotal_total) auto
  show ?thesis
  proof (cases "?t = 0")
    case True
    with ct s show ?thesis by (auto simp: ratioRow_def rowOk_def)
  next
    case False
    have sub: "e \<in> set (filter ?P row)" if "e \<in> set (filter ?Q row)" for e using that by auto
    have le: "snd e \<le> ?t" if "e \<in> set (filter ?Q row)" for e
      unfolding outWeight_def using sub [OF that] nn by (intro sumOf_member) auto
    have t: "0 < ?t" using False sumOf_nonneg [OF nn] unfolding outWeight_def by fastforce
    let ?rs = "map (\<lambda>(v, w). (v, w * ?s div ?t)) (filter ?Q row)"
    have part: "fpDiv w ?t ?s = Inr (w * ?s div ?t)" "0 \<le> w * ?s div ?t" "w * ?s div ?t \<le> ?s"
      if "(v, w) \<in> set (filter ?Q row)" for v w
      using fpDiv_part [OF assms(1), of w ?t] pos [OF sub [OF that]] le [OF that] by simp_all
    have "mapE (\<lambda>(target, baseWeight). bindE (fpDiv baseWeight ?t ?s) (\<lambda>ratio. Inr (target, ratio))) (filter ?Q row) = Inr ?rs"
      by (rule mapE_total) (use part(1) in \<open>force split: prod.splits\<close>)
    then have "ratioRow p decays u row = Inr ?rs" using ct False by (simp add: ratioRow_def)
    moreover have "rowOk p ks ?rs"
    proof -
      have "sumOf (\<lambda>e. snd e * ?s div ?t) (filter ?Q row) * ?t \<le> sumOf (\<lambda>e. snd e * ?s) (filter ?Q row)"
        using t by (rule sumOf_div)
      also have "\<dots> = ?s * sumOf snd (filter ?Q row)" by (simp add: sum_list_mult_const mult.commute)
      also have "sumOf snd (filter ?Q row) \<le> ?t"
        unfolding outWeight_def using nn by (intro sumOf_filter_le) auto
      finally have "sumOf (\<lambda>e. snd e * ?s div ?t) (filter ?Q row) \<le> ?s" using s t by simp
      then have "sumOf snd ?rs \<le> ?s" by (simp add: comp_def case_prod_beta)
      moreover have "\<forall>(v, r) \<in> set ?rs. v \<in> set ks \<and> 0 \<le> r \<and> r \<le> ?s"
        using part(2,3) ks by force
      ultimately show ?thesis unfolding rowOk_def by blast
    qed
    ultimately show ?thesis by blast
  qed
qed

lemma ratioRows_get:
  assumes "ratioRows g p ns decays = Inr ratios" and "jget ratios u = Some rs"
  shows "\<exists>row. jget (gOutgoing g) u = Some row \<and> ratioRow p decays u row = Inr rs"
proof -
  let ?P = "\<lambda>ratios. \<forall>u rs. jget ratios u = Some rs \<longrightarrow>
    (\<exists>row. jget (gOutgoing g) u = Some row \<and> ratioRow p decays u row = Inr rs)"
  have "?P ratios"
    using assms(1) unfolding ratioRows_def
    by (rule foldE_invariant) (auto simp: jget_jset split: option.splits if_splits)
  with assms(2) show ?thesis by blast
qed

lemma ratioRows_total:
  assumes v: "validParams p"
    and rows: "\<And>u row. jget (gOutgoing g) u = Some row \<Longrightarrow> outWeight u row \<le> U256_MAX \<and> set (jkeys row) \<subseteq> set ks"
  shows "\<exists>ratios. ratioRows g p ns decays = Inr ratios \<and> rowsOk p ks ratios"
proof -
  have "\<exists>ratios. foldE (\<lambda>ratios attester.
       case jget (gOutgoing g) attester of
         None \<Rightarrow> Inr ratios
       | Some edges \<Rightarrow> bindE (ratioRow p decays attester edges) (\<lambda>row.
           Inr (if length row > 0 then jset attester row ratios else ratios)))
       r0 ns = Inr ratios \<and> rowsOk p ks ratios" if "rowsOk p ks r0" for r0
    using that
  proof (induction ns arbitrary: r0)
    case (Cons n ns)
    show ?case
    proof (cases "jget (gOutgoing g) n")
      case None
      with Cons show ?thesis by simp
    next
      case (Some row)
      then obtain rs where "ratioRow p decays n row = Inr rs" "rowOk p ks rs"
        using ratioRow_total [OF v] rows by metis
      with Some Cons.IH [of "if length rs > 0 then jset n rs r0 else r0"] Cons.prems show ?thesis
        by (auto simp: rowsOk_def jget_jset)
    qed
  qed auto
  then show ?thesis by (simp add: ratioRows_def rowsOk_def)
qed

section \<open>Initial scores and teleport\<close>

definition initialOf :: "Params \<Rightarrow> hex list \<Rightarrow> (hex, int) jmap option \<Rightarrow> hex \<Rightarrow> int" where
  "initialOf p seeds reachable node =
     (if \<not> hasTrustEnabled p then 0
      else if node \<in> set seeds then trustShareFp p sdiv int (length seeds)
      else case reachable of None \<Rightarrow> 0
        | Some r \<Rightarrow> if node \<in> set (jkeys r)
            then (precisionScale p - trustShareFp p) sdiv int (length (filter (\<lambda>n. \<not> isSeed seeds n) (jkeys r)))
            else 0)"

lemma initializeScores_keys: "initializeScores ns p seeds r = Inr m \<Longrightarrow> jkeys m = ns"
  by (auto simp: initializeScores_def Let_def comp_def split: if_splits)

lemma initializeScores_zero:
  assumes run: "initializeScores ns p seeds (Some d) = Inr m" and "hasTrustEnabled p"
    and "a \<in> set ns" and "a \<notin> set seeds" and "a \<notin> set (jkeys d)"
  shows "jget m a = Some 0"
proof -
  have ne: "ns \<noteq> []" using assms(3) by auto
  let ?n = "length (filter (\<lambda>node. \<not> isSeed seeds node) (jkeys d))"
  from run ne assms(2) have "bindE (if length seeds > 0 then bigDiv (trustShareFp p) (int (length seeds)) else Inr 0)
      (\<lambda>ts. bindE (if ?n > 0 then bigDiv (precisionScale p - trustShareFp p) (int ?n) else Inr 0)
      (\<lambda>rs. Inr (map (\<lambda>node. (node, if isSeed seeds node then ts else if jhas d node then rs else 0)) ns)))
      = Inr m"
    unfolding initializeScores_def Let_def
    by (simp only: length_0_conv if_False if_True option.case not_True_eq_False not_False_eq_True)
  then obtain ts rs where
    "m = map (\<lambda>node. (node, if isSeed seeds node then ts else if jhas d node then rs else 0)) ns"
    by blast
  with assms show ?thesis by (simp add: map_of_map_restrict isSeed_def)
qed

lemma initializeScores_total:
  assumes v: "validParams p" and ns: "distinct ns" and seeds: "distinct seeds" "set seeds \<subseteq> set ns"
    and r: "\<And>d. r = Some d \<Longrightarrow> distinct (jkeys d) \<and> set (jkeys d) \<subseteq> set ns"
  shows "\<exists>m. initializeScores ns p seeds r = Inr m \<and> scoresOk p ns m"
proof (cases "ns = []")
  case True
  with v show ?thesis by (auto simp: initializeScores_def scoresOk_def validParams_def)
next
  case ne: False
  let ?s = "precisionScale p"
  have s: "0 < ?s" and ts: "0 \<le> trustShareFp p" "trustShareFp p \<le> ?s" using v by (auto simp: validParams_def)
  show ?thesis
  proof (cases "hasTrustEnabled p")
    case False
    have "sumOf (\<lambda>_. ?s div int (length ns)) ns = ?s div int (length ns) * int (length ns)"
      by (simp add: sum_list_replicate map_replicate_const)
    also have "\<dots> \<le> ?s" using ne by (intro div_times_le) simp
    finally have "sumOf (\<lambda>_. ?s div int (length ns)) ns \<le> ?s" .
    with False ne s show ?thesis
      by (auto simp: initializeScores_def scoresOk_def comp_def pos_imp_zdiv_nonneg_iff)
  next
    case True
    define k where "k = (case r of None \<Rightarrow> 0 | Some d \<Rightarrow> length (filter (\<lambda>node. \<not> isSeed seeds node) (jkeys d)))"
    define ts' where "ts' = (if length seeds > 0 then trustShareFp p div int (length seeds) else 0)"
    define rs' where "rs' = (if k > 0 then (?s - trustShareFp p) div int k else 0)"
    define far where "far node \<longleftrightarrow> node \<notin> set seeds \<and> (case r of None \<Rightarrow> False | Some d \<Rightarrow> node \<in> set (jkeys d))" for node
    let ?f = "\<lambda>node. if isSeed seeds node then ts' else if (case r of None \<Rightarrow> False | Some d \<Rightarrow> jhas d node) then rs' else 0"
    have run: "initializeScores ns p seeds r = Inr (map (\<lambda>node. (node, ?f node)) ns)"
      using ne True s ts by (simp add: initializeScores_def Let_def ts'_def rs'_def k_def)
    have nn: "0 \<le> ts'" "0 \<le> rs'" using ts by (auto simp: ts'_def rs'_def pos_imp_zdiv_nonneg_iff)
    have "sumOf ?f ns = sumOf (\<lambda>n. (if n \<in> set seeds then ts' else 0) + (if far n then rs' else 0)) ns"
      by (intro arg_cong [where f = sum_list] map_cong) (auto simp: isSeed_def far_def split: option.splits)
    also have "\<dots> = ts' * int (length (filter (\<lambda>n. n \<in> set seeds) ns)) + rs' * int (length (filter far ns))"
      by (simp add: sum_list_addf sumOf_if)
    also have "length (filter (\<lambda>n. n \<in> set seeds) ns) = length (filter (\<lambda>n. True) seeds)"
      using ns seeds by (intro length_filter_same) auto
    also have "length (filter far ns) = k"
    proof (cases r)
      case None
      then show ?thesis by (simp add: far_def k_def)
    next
      case (Some d)
      have "length (filter far ns) = length (filter (\<lambda>node. \<not> isSeed seeds node) (jkeys d))"
        using ns r [OF Some] Some by (intro length_filter_same) (auto simp: far_def isSeed_def)
      with Some show ?thesis by (simp add: k_def)
    qed
    also have "ts' * int (length (filter (\<lambda>n. True) seeds)) \<le> trustShareFp p"
      using ts div_times_le [of "int (length seeds)" "trustShareFp p"] by (auto simp: ts'_def)
    also have "rs' * int k \<le> ?s - trustShareFp p"
      using ts div_times_le [of "int k" "?s - trustShareFp p"] by (auto simp: rs'_def)
    finally have "sumOf ?f ns \<le> ?s" by simp
    with run nn show ?thesis by (auto simp: scoresOk_def comp_def)
  qed
qed

lemma teleportScores_keys: "teleportScores p ns m = Inr t \<Longrightarrow> jkeys t = ns"
  unfolding teleportScores_def Let_def by (drule mapE_map [where h = fst and k = id]) auto

lemma teleportScores_get:
  "teleportScores p ns m = Inr t \<Longrightarrow> a \<in> set ns \<Longrightarrow>
   \<exists>v w. jget m a = Some v \<and> fpMul (precisionScale p - dampingFp p) v (precisionScale p) = Inr w \<and> jget t a = Some w"
  unfolding teleportScores_def Let_def
  by (induction ns arbitrary: t) (fastforce split: if_splits)+

lemma teleportScores_total:
  assumes v: "validParams p" and m: "scoresOk p ks m" and ks: "distinct ks"
  shows "\<exists>t. teleportScores p ks m = Inr t \<and> jkeys t = ks \<and> (\<forall>e \<in> set t. 0 \<le> snd e) \<and>
    sumOf snd t * precisionScale p \<le> (precisionScale p - dampingFp p) * precisionScale p"
proof -
  let ?s = "precisionScale p" and ?b = "precisionScale p - dampingFp p"
  have s: "0 < ?s" "?s \<le> U256_MAX" "0 \<le> ?b" "?b \<le> ?s" using v by (auto simp: validParams_def)
  have dm: "distinct (jkeys m)" using m ks by (simp add: scoresOk_def)
  have get: "jget m (fst e) = Some (snd e)" if "e \<in> set m" for e
    using that dm by (metis map_of_is_SomeI prod.collapse)
  have val: "0 \<le> snd e" "snd e \<le> ?s" if "e \<in> set m" for e
    using that m sumOf_member [of m snd e] by (auto simp: scoresOk_def)
  let ?t = "map (\<lambda>e. (fst e, ?b * snd e div ?s)) m"
  have "mapE (\<lambda>e. bindE (need (jget m (fst e))) (\<lambda>v. bindE (fpMul ?b v ?s) (\<lambda>t. Inr (fst e, t)))) m = Inr ?t"
    by (rule mapE_total) (use get val s in \<open>simp add: fpMul_total\<close>)
  moreover have "teleportScores p ks m =
      mapE (\<lambda>e. bindE (need (jget m (fst e))) (\<lambda>v. bindE (fpMul ?b v ?s) (\<lambda>t. Inr (fst e, t)))) m"
  proof -
    have "mapE f (map fst m) = mapE (\<lambda>e. f (fst e)) m" for f :: "hex \<Rightarrow> (hex \<times> int) result"
      by (induction m) auto
    moreover have "ks = map fst m" using m by (simp add: scoresOk_def)
    ultimately show ?thesis by (simp add: teleportScores_def)
  qed
  moreover have "sumOf snd ?t * ?s \<le> ?b * ?s"
  proof -
    have "sumOf (\<lambda>e. ?b * snd e div ?s) m * ?s \<le> sumOf (\<lambda>e. ?b * snd e) m" using s(1) by (rule sumOf_div)
    also have "\<dots> = ?b * sumOf snd m" by (rule sumOf_scale)
    also have "\<dots> \<le> ?b * ?s" using m s by (simp add: scoresOk_def mult_left_mono)
    finally show ?thesis by (simp add: comp_def)
  qed
  moreover have "jkeys ?t = ks" using m by (simp add: scoresOk_def comp_def)
  moreover have "\<forall>e \<in> set ?t. 0 \<le> snd e" using val s by (auto simp: pos_imp_zdiv_nonneg_iff)
  ultimately show ?thesis by (intro exI [of _ ?t]) simp
qed

end
