(* ===== verification/RankRun.thy ===== *)
theory RankRun
  imports RankRows Instance
begin

text \<open>
  Whole runs of \<open>pagerank.ts\<close>: the iteration keeps a bounded score map, the search and the loop
  return, and a run that returns has the ranked nodes as keys and the precision scale as total.
\<close>

section \<open>The iteration\<close>

lemma rankLoop_invariant:
  assumes "rankLoop p ns decays ratios teleport k i current = Inr (c, i', b)" and "P current"
    and "\<And>m m'. P m \<Longrightarrow> pushAll p ns decays ratios teleport m = Inr m' \<Longrightarrow> P m'"
  shows "P c"
  using assms(1,2)
proof (induction k arbitrary: i current)
  case (Suc k)
  then obtain m' d where step: "pushAll p ns decays ratios teleport current = Inr m'"
    and rest: "(if d < toleranceFp p then Inr (m', Suc i, True)
       else rankLoop p ns decays ratios teleport k (Suc i) m') = Inr (c, i', b)"
    by (auto split: if_splits)
  from assms(3) [OF Suc.prems(2) step] have "P m'" .
  with rest Suc.IH show ?case by (auto split: if_splits)
qed simp

lemma rankLoop_count:
  "rankLoop p ns decays ratios teleport k i current = Inr (c, i', b) \<Longrightarrow>
   i \<le> i' \<and> i' \<le> i + k \<and> (\<not> b \<longrightarrow> i' = i + k) \<and>
   (b \<longrightarrow> (\<exists>m d. pushAll p ns decays ratios teleport m = Inr c \<and> maxDelta ns decays c m = Inr d \<and> d < toleranceFp p))"
proof (induction k arbitrary: i current)
  case (Suc k)
  then obtain m' d where step: "pushAll p ns decays ratios teleport current = Inr m'"
    and d: "maxDelta ns decays m' current = Inr d"
    and rest: "(if d < toleranceFp p then Inr (m', Suc i, True)
       else rankLoop p ns decays ratios teleport k (Suc i) m') = Inr (c, i', b)"
    by (auto split: if_splits)
  show ?case
  proof (cases "d < toleranceFp p")
    case True
    with rest step d show ?thesis by auto
  next
    case False
    with rest have "rankLoop p ns decays ratios teleport k (Suc i) m' = Inr (c, i', b)" by simp
    from Suc.IH [OF this] show ?thesis by auto
  qed
qed auto

lemma maxDelta_bound:
  assumes "maxDelta ns decays new old = Inr d" and "a \<in> set ns"
    and "case decays of None \<Rightarrow> True | Some r \<Rightarrow> a \<in> set (jkeys r)"
  shows "\<exists>x y. jget new a = Some x \<and> jget old a = Some y \<and> \<bar>x - y\<bar> \<le> d"
proof -
  let ?f = "\<lambda>best recipient.
       if (case decays of None \<Rightarrow> False | Some d \<Rightarrow> \<not> jhas d recipient) then Inr best
       else bindE (need (jget new recipient)) (\<lambda>newScore.
         bindE (need (jget old recipient)) (\<lambda>prev.
         let delta = (if newScore > prev then newScore - prev else prev - newScore)
         in Inr (if delta > best then delta else best)))"
  have step: "best \<le> t \<and> ((case decays of None \<Rightarrow> True | Some r \<Rightarrow> x \<in> set (jkeys r)) \<longrightarrow>
      (\<exists>u v. jget new x = Some u \<and> jget old x = Some v \<and> \<bar>u - v\<bar> \<le> t))"
    if "?f best x = Inr t" for best x t
    using that by (auto simp: Let_def split: if_splits option.splits)
  have "foldE ?f best xs = Inr t \<Longrightarrow> best \<le> t \<and> (\<forall>x \<in> set xs. (case decays of None \<Rightarrow> True | Some r \<Rightarrow> x \<in> set (jkeys r)) \<longrightarrow>
      (\<exists>u v. jget new x = Some u \<and> jget old x = Some v \<and> \<bar>u - v\<bar> \<le> t))" for best xs t
  proof (induction xs arbitrary: best)
    case (Cons x xs)
    from Cons.prems obtain m where m: "?f best x = Inr m" and rest: "foldE ?f m xs = Inr t"
      unfolding foldE.simps by (rule bindE_InrE)
    from Cons.IH [OF rest] step [OF m] show ?case by fastforce
  qed simp
  with assms show ?thesis unfolding maxDelta_def by blast
qed

lemma maxDelta_total:
  assumes "jkeys new = ns" and "jkeys old = ns"
  shows "\<exists>d. maxDelta ns decays new old = Inr d"
proof -
  have "\<exists>d. foldE (\<lambda>best recipient.
       if (case decays of None \<Rightarrow> False | Some d \<Rightarrow> \<not> jhas d recipient) then Inr best
       else bindE (need (jget new recipient)) (\<lambda>newScore.
         bindE (need (jget old recipient)) (\<lambda>prev.
         let delta = (if newScore > prev then newScore - prev else prev - newScore)
         in Inr (if delta > best then delta else best)))) best xs = Inr d" if "set xs \<subseteq> set ns" for best xs
    using that
  proof (induction xs arbitrary: best)
    case (Cons x xs)
    then have "x \<in> set (jkeys new)" "x \<in> set (jkeys old)" using assms by auto
    then obtain u v where "jget new x = Some u" "jget old x = Some v" using jget_key by metis
    with Cons show ?case by (simp add: Let_def del: jhas_iff)
  qed simp
  then show ?thesis unfolding maxDelta_def by blast
qed

lemma pushAll_total:
  assumes v: "validParams p" and ks: "distinct ks" and cur: "scoresOk p ks current"
    and rows: "rowsOk p ks ratios" and decays: "decaysOk p decays"
    and t: "jkeys t = ks" "\<forall>e \<in> set t. 0 \<le> snd e"
      "sumOf snd t * precisionScale p \<le> (precisionScale p - dampingFp p) * precisionScale p"
  shows "\<exists>ns. pushAll p ks decays ratios t current = Inr ns \<and> scoresOk p ks ns"
proof -
  have d: "0 \<le> dampingFp p" using v by (simp add: validParams_def)
  have "sumOf (\<lambda>u. orDefault (jget current u) 0) ks \<le> precisionScale p"
    using cur sumOf_get [of current] ks by (simp add: scoresOk_def)
  then have "dampingFp p * sumOf (\<lambda>u. orDefault (jget current u) 0) ks \<le> dampingFp p * precisionScale p"
    using d by (rule mult_left_mono)
  with t(3) have "sumOf snd t * precisionScale p + dampingFp p * sumOf (\<lambda>u. orDefault (jget current u) 0) ks
      \<le> precisionScale p * precisionScale p" by (simp add: algebra_simps)
  from pushRows_total [OF v cur rows decays _ t(1,2) this] show ?thesis unfolding pushAll_def by blast
qed

lemma rankLoop_total:
  assumes v: "validParams p" and ks: "distinct ks" and rows: "rowsOk p ks ratios" and decays: "decaysOk p decays"
    and t: "jkeys t = ks" "\<forall>e \<in> set t. 0 \<le> snd e"
      "sumOf snd t * precisionScale p \<le> (precisionScale p - dampingFp p) * precisionScale p"
  shows "scoresOk p ks current \<Longrightarrow>
    \<exists>c i' b. rankLoop p ks decays ratios t k i current = Inr (c, i', b) \<and> scoresOk p ks c"
proof (induction k arbitrary: i current)
  case (Suc k)
  have s: "precisionScale p \<le> U256_MAX" using v by (simp add: validParams_def)
  obtain m where m: "pushAll p ks decays ratios t current = Inr m" "scoresOk p ks m"
    using pushAll_total [OF v ks Suc.prems rows decays t] by blast
  have "checkedTotal ''rank: iteration score total'' (jvalues m) = Inr (sumOf snd m)"
    using m(2) s by (intro checkedTotal_total) (auto simp: scoresOk_def)
  moreover obtain d where "maxDelta ks decays m current = Inr d"
    using maxDelta_total [of m ks current decays] m(2) Suc.prems unfolding scoresOk_def by blast
  moreover have "\<not> sumOf snd m > precisionScale p" using m(2) by (simp add: scoresOk_def)
  ultimately show ?case using m Suc.IH [OF m(2)] by (cases "d < toleranceFp p") auto
qed auto

section \<open>Totality of the search\<close>

lemma visitNeighbors_total:
  "\<exists>v. fpMul pd b s = Inr v \<Longrightarrow> \<exists>st. foldE (visitNeighbor pd b s) (decays, queue, c) ns = Inr st"
proof (induction ns arbitrary: decays queue c)
  case (Cons n ns)
  show ?case
  proof (cases "n \<in> set (jkeys decays)")
    case True
    with Cons show ?thesis by simp
  next
    case False
    with Cons show ?thesis by (cases c) (auto simp: visitNeighbor_new)
  qed
qed auto

definition decayBounds :: "int \<Rightarrow> (hex, int) jmap \<Rightarrow> bool" where
  "decayBounds s d \<longleftrightarrow> (\<forall>e \<in> set d. 0 \<le> snd e \<and> snd e \<le> s)"

lemma bfsLoop_total:
  assumes "0 < s" "s \<le> U256_MAX" "0 \<le> b" "b \<le> s"
  shows "decayBounds s decays \<Longrightarrow> \<exists>d. bfsLoop g b s decays queue = Inr d \<and> decayBounds s d"
  using assms
proof (induction g b s decays queue rule: bfsLoop.induct)
  case (2 g b s decays cur queue)
  show ?case
  proof (cases "jget decays cur")
    case None
    with 2 show ?thesis by simp
  next
    case pd: (Some pd)
    have bnd: "0 \<le> pd" "pd \<le> s" using "2.prems"(1) map_of_SomeD [OF pd] by (auto simp: decayBounds_def)
    then have mul: "fpMul pd b s = Inr (pd * b div s)" using "2.prems" by (intro fpMul_total) auto
    show ?thesis
    proof (cases "jget (gOutgoing g) cur")
      case None
      with 2 pd show ?thesis by simp
    next
      case (Some row)
      obtain st where st: "foldE (visitNeighbor pd b s) (decays, queue, None) (eligibleTargets cur row) = Inr st"
        using visitNeighbors_total mul by blast
      from visitNeighbors_result [OF st]
      obtain new where new: "fst st = decays @ map (\<lambda>n. (n, pd * b sdiv s)) new" by auto
      have "0 \<le> pd * b div s \<and> pd * b div s \<le> s"
        using div_mult_bound [of s pd b] bnd "2.prems" by auto
      with new "2.prems" bnd have "decayBounds s (fst st)" by (auto simp: decayBounds_def)
      with "2.IH"(3) [OF pd Some st] "2.prems" st pd Some show ?thesis by simp
    qed
  qed
qed auto

lemma bfsDecays_total:
  assumes "validParams p" and "distinct seeds"
  shows "\<exists>d. bfsDecays g seeds (trustDecayFp p) (precisionScale p) = Inr d \<and> decayBounds (precisionScale p) d"
  unfolding bfsDecays_def Let_def
  by (rule bfsLoop_total)
    (use assms in \<open>auto simp: validParams_def decayBounds_def newMap_const_keys\<close>)

lemma decaysOk_bounds:
  assumes "validParams p" and "\<And>d. decays = Some d \<Longrightarrow> decayBounds (precisionScale p) d"
  shows "decaysOk p decays"
proof -
  have "0 \<le> decayOf p decays u \<and> decayOf p decays u \<le> precisionScale p" for u
  proof (cases decays)
    case None
    with assms(1) show ?thesis by (simp add: decayOf_def validParams_def)
  next
    case (Some d)
    have "0 \<le> v \<and> v \<le> precisionScale p" if "jget d u = Some v" for v
      using assms(2) [OF Some] map_of_SomeD [OF that] by (auto simp: decayBounds_def)
    with Some assms(1) show ?thesis
      by (cases "jget d u") (auto simp: decayOf_def orDefault_def validParams_def)
  qed
  then show ?thesis by (simp add: decaysOk_def)
qed

section \<open>Whole runs\<close>

text \<open>The graphs a run accepts: its edges stay among the ranked nodes, its rows fit in a word.\<close>

definition rankable :: "Graph \<Rightarrow> Params \<Rightarrow> bool" where
  "rankable g p \<longleftrightarrow> (\<forall>(a, row) \<in> set (gOutgoing g). a \<in> set (rankNodesOf g p) \<and>
     set (jkeys row) \<subseteq> set (rankNodesOf g p) \<and> outWeight a row \<le> U256_MAX)"

lemma rankDecays_cases:
  assumes "rankDecays g p = Inr decays"
  shows "hasTrustEnabled p \<and> (\<exists>d. decays = Some d \<and> bfsDecays g (rankSeeds p) (trustDecayFp p) (precisionScale p) = Inr d)
    \<or> \<not> hasTrustEnabled p \<and> decays = None"
  using assms by (auto simp: rankDecays_def split: if_splits)

lemma calculateDetailed_cases:
  assumes "calculateDetailed g p = Inr r" and "rankNodesOf g p \<noteq> []"
  obtains decays initial current where "assertEdgeClosure g (rankNodesOf g p) = Inr ()"
    and "rankDecays g p = Inr decays"
    and "initializeScores (rankNodesOf g p) p (rankSeeds p) decays = Inr initial"
    and "normalize current (precisionScale p) decays = Inr (rrScores r)"
    and "maxIterations p = 0 \<and> current = initial \<and> rrIterations r = 0 \<and> \<not> rrConverged r \<or>
      maxIterations p \<noteq> 0 \<and> (\<exists>ratios t. ratioRows g p (rankNodesOf g p) decays = Inr ratios \<and>
        teleportScores p (rankNodesOf g p) initial = Inr t \<and>
        rankLoop p (rankNodesOf g p) decays ratios t (nat (maxIterations p)) 0 initial
          = Inr (current, rrIterations r, rrConverged r))"
proof -
  from assms obtain decays initial where cl: "assertEdgeClosure g (rankNodesOf g p) = Inr ()"
    and de: "rankDecays g p = Inr decays"
    and ini: "initializeScores (rankNodesOf g p) p (rankSeeds p) decays = Inr initial"
    and rest: "(if maxIterations p = 0 then
          bindE (normalize initial (precisionScale p) decays) (\<lambda>scores.
          Inr \<lparr>rrScores = scores, rrIterations = 0, rrConverged = False\<rparr>)
        else
          bindE (ratioRows g p (rankNodesOf g p) decays) (\<lambda>ratios.
          bindE (teleportScores p (rankNodesOf g p) initial) (\<lambda>teleport.
          bindE (rankLoop p (rankNodesOf g p) decays ratios teleport (nat (maxIterations p)) 0 initial)
            (\<lambda>(current, iterations, converged).
          bindE (normalize current (precisionScale p) decays) (\<lambda>scores.
          Inr \<lparr>rrScores = scores, rrIterations = iterations, rrConverged = converged\<rparr>))))) = Inr r"
    unfolding calculateDetailed_def Let_def by auto
  show thesis
  proof (cases "maxIterations p = 0")
    case True
    with rest obtain scores where "normalize initial (precisionScale p) decays = Inr scores"
      "r = \<lparr>rrScores = scores, rrIterations = 0, rrConverged = False\<rparr>" by auto
    with that [OF cl de ini] True show ?thesis by simp
  next
    case False
    with rest obtain ratios t current its conv scores where
      "ratioRows g p (rankNodesOf g p) decays = Inr ratios"
      "teleportScores p (rankNodesOf g p) initial = Inr t"
      "rankLoop p (rankNodesOf g p) decays ratios t (nat (maxIterations p)) 0 initial = Inr (current, its, conv)"
      "normalize current (precisionScale p) decays = Inr scores"
      "r = \<lparr>rrScores = scores, rrIterations = its, rrConverged = conv\<rparr>"
      by auto
    with that [OF cl de ini, of current] False show ?thesis by simp
  qed
qed

lemma run_keys:
  assumes "calculateDetailed g p = Inr r" and ne: "rankNodesOf g p \<noteq> []"
  shows "jkeys (rrScores r) = rankNodesOf g p \<and> sumOf snd (rrScores r) = precisionScale p"
  using assms
proof (rule calculateDetailed_cases)
  fix decays initial current
  assume ini: "initializeScores (rankNodesOf g p) p (rankSeeds p) decays = Inr initial"
    and norm: "normalize current (precisionScale p) decays = Inr (rrScores r)"
    and loop: "maxIterations p = 0 \<and> current = initial \<and> rrIterations r = 0 \<and> \<not> rrConverged r \<or>
      maxIterations p \<noteq> 0 \<and> (\<exists>ratios t. ratioRows g p (rankNodesOf g p) decays = Inr ratios \<and>
        teleportScores p (rankNodesOf g p) initial = Inr t \<and>
        rankLoop p (rankNodesOf g p) decays ratios t (nat (maxIterations p)) 0 initial
          = Inr (current, rrIterations r, rrConverged r))"
  have "jkeys current = rankNodesOf g p"
    using loop
  proof
    assume "maxIterations p \<noteq> 0 \<and> (\<exists>ratios t. ratioRows g p (rankNodesOf g p) decays = Inr ratios \<and>
        teleportScores p (rankNodesOf g p) initial = Inr t \<and>
        rankLoop p (rankNodesOf g p) decays ratios t (nat (maxIterations p)) 0 initial
          = Inr (current, rrIterations r, rrConverged r))"
    then obtain ratios t where t: "teleportScores p (rankNodesOf g p) initial = Inr t"
      and run: "rankLoop p (rankNodesOf g p) decays ratios t (nat (maxIterations p)) 0 initial
          = Inr (current, rrIterations r, rrConverged r)" by blast
    from run show ?thesis
      by (rule rankLoop_invariant)
        (auto simp: initializeScores_keys [OF ini] teleportScores_keys [OF t] dest: pushAll_pull(1))
  qed (simp add: initializeScores_keys [OF ini])
  moreover from this ne have "current \<noteq> []" by auto
  ultimately show ?thesis using normalize_keys [OF norm] normalize_sum [OF norm] by simp
qed

lemma run_total:
  assumes v: "validParams p" and g: "rankable g p" and inv: "jmapInv (gOutgoing g)"
  shows "\<exists>r. calculateDetailed g p = Inr r \<and> scoresOk p (rankNodesOf g p) (rrScores r)"
proof (cases "rankNodesOf g p = []")
  case True
  with v show ?thesis by (auto simp: calculateDetailed_def scoresOk_def validParams_def)
next
  case False
  let ?ns = "rankNodesOf g p"
  have cl: "assertEdgeClosure g ?ns = Inr ()"
    unfolding assertEdgeClosure_iff using g unfolding rankable_def by blast
  obtain decays where de: "rankDecays g p = Inr decays"
    and dd: "\<And>d. decays = Some d \<Longrightarrow> decayBounds (precisionScale p) d \<and>
      bfsDecays g (rankSeeds p) (trustDecayFp p) (precisionScale p) = Inr d"
    using bfsDecays_total [OF v, of "rankSeeds p" g] by (cases "hasTrustEnabled p") (auto simp: rankDecays_def)
  have row: "outWeight u row \<le> U256_MAX \<and> set (jkeys row) \<subseteq> set ?ns" if "jget (gOutgoing g) u = Some row" for u row
    using g map_of_SomeD [OF that] unfolding rankable_def by blast
  have walk: "x \<in> set ?ns" if "trustWalk g (rankSeeds p) k x" for k x
    using that
  proof induction
    case (step k a r b w)
    then show ?case using row by force
  qed (simp add: set_rankNodes)
  have dk: "distinct (jkeys d) \<and> set (jkeys d) \<subseteq> set ?ns" if "decays = Some d" for d
    using dd [OF that] bfsDecays_distinct bfsDecays_keys walk by (meson rankSeeds_distinct subsetI)
  obtain initial where ini: "initializeScores ?ns p (rankSeeds p) decays = Inr initial" "scoresOk p ?ns initial"
    using initializeScores_total [OF v, of ?ns "rankSeeds p" decays] dk by (auto simp: set_rankNodes)
  show ?thesis
  proof (cases "maxIterations p = 0")
    case True
    with False cl de ini normalize_total [OF v ini(2), of decays] show ?thesis
      by (auto simp: calculateDetailed_def)
  next
    case it: False
    obtain ratios where ra: "ratioRows g p ?ns decays = Inr ratios" "rowsOk p ?ns ratios"
      using ratioRows_total [OF v row] by blast
    obtain t where t: "teleportScores p ?ns initial = Inr t" "jkeys t = ?ns" "\<forall>e \<in> set t. 0 \<le> snd e"
      "sumOf snd t * precisionScale p \<le> (precisionScale p - dampingFp p) * precisionScale p"
      using teleportScores_total [OF v ini(2)] by auto
    have dok: "decaysOk p decays" using decaysOk_bounds [OF v] dd by blast
    obtain c i' b where c: "rankLoop p ?ns decays ratios t (nat (maxIterations p)) 0 initial = Inr (c, i', b)"
      "scoresOk p ?ns c"
      using rankLoop_total [OF v rankNodes_distinct ra(2) dok t(2-4) ini(2)] by blast
    with False it cl de ini ra t normalize_total [OF v c(2), of decays] show ?thesis
      by (auto simp: calculateDetailed_def)
  qed
qed

end
