(* ===== verification/RankSpec.thy ===== *)
theory RankSpec
  imports RankRun
begin

text \<open>
  The specification side of \<open>pagerank.ts\<close>: an account that no chain of eligible edges joins to a seed
  scores zero, and one iteration of the push kernel is the pull formula over the graph.
\<close>

section \<open>Accounts no seed reaches\<close>

lemma massFrom_unreachable:
  assumes "ratioRows g p ns (Some d) = Inr ratios" and "a \<notin> set (jkeys d)"
  shows "massFrom p (Some d) ratios current u a = 0"
proof (cases "jget ratios u")
  case (Some rs)
  then obtain row where "ratioRow p (Some d) u row = Inr rs" using ratioRows_get [OF assms(1)] by blast
  then have "r \<noteq> a" if "(r, x) \<in> set rs" for r x using ratioRow_targets that assms(2) by fastforce
  then have "rowFlow p score dec rs a = 0" for score dec
    unfolding rowFlow_def by (intro sumOf_zero) auto
  with Some show ?thesis by (simp add: massFrom_def)
qed (simp add: massFrom_def)

lemma run_unreachable:
  assumes trust: "hasTrustEnabled p" and run: "calculateDetailed g p = Inr r"
    and far: "\<not> (\<exists>k. trustWalk g (rankSeeds p) k a)" and a: "jget (rrScores r) a = Some v"
  shows "v = 0"
proof -
  let ?ns = "rankNodesOf g p"
  have seed0: "rankSeeds p \<noteq> []" using trust by (simp add: hasTrustEnabled_def rankSeeds_def)
  then have ne: "?ns \<noteq> []" by (metis Un_iff empty_iff list.set(1) list.set_sel(1) set_rankNodes)
  have an: "a \<in> set ?ns" using run_keys [OF run ne] jget_Some_key [OF a] by simp
  from run ne show ?thesis
  proof (rule calculateDetailed_cases)
    fix decays initial current
    assume de: "rankDecays g p = Inr decays"
      and ini: "initializeScores ?ns p (rankSeeds p) decays = Inr initial"
      and norm: "normalize current (precisionScale p) decays = Inr (rrScores r)"
      and loop: "maxIterations p = 0 \<and> current = initial \<and> rrIterations r = 0 \<and> \<not> rrConverged r \<or>
        maxIterations p \<noteq> 0 \<and> (\<exists>ratios t. ratioRows g p ?ns decays = Inr ratios \<and>
          teleportScores p ?ns initial = Inr t \<and>
          rankLoop p ?ns decays ratios t (nat (maxIterations p)) 0 initial
            = Inr (current, rrIterations r, rrConverged r))"
    obtain d where decays: "decays = Some d"
      and d: "bfsDecays g (rankSeeds p) (trustDecayFp p) (precisionScale p) = Inr d"
      using rankDecays_cases [OF de] trust by blast
    have keys: "x \<in> set (jkeys d) \<longleftrightarrow> (\<exists>k. trustWalk g (rankSeeds p) k x)" for x
      using bfsDecays_keys [OF rankSeeds_distinct d] .
    have ad: "a \<notin> set (jkeys d)" using far keys by simp
    have as: "a \<notin> set (rankSeeds p)" using far trustWalk_0 by blast
    have i0: "jget initial a = Some 0"
      using initializeScores_zero [OF ini [unfolded decays] trust an as ad] .
    have "jkeys current = ?ns \<and> jget current a = Some 0"
      using loop
    proof
      assume "maxIterations p \<noteq> 0 \<and> (\<exists>ratios t. ratioRows g p ?ns decays = Inr ratios \<and>
          teleportScores p ?ns initial = Inr t \<and>
          rankLoop p ?ns decays ratios t (nat (maxIterations p)) 0 initial
            = Inr (current, rrIterations r, rrConverged r))"
      then obtain ratios t where ra: "ratioRows g p ?ns decays = Inr ratios"
        and t: "teleportScores p ?ns initial = Inr t"
        and lp: "rankLoop p ?ns decays ratios t (nat (maxIterations p)) 0 initial
            = Inr (current, rrIterations r, rrConverged r)" by blast
      have t0: "jget t a = Some 0"
        using teleportScores_get [OF t an] i0 by (auto simp: fpMul_def mulDiv_Inr)
      from lp show ?thesis
      proof (rule rankLoop_invariant)
        show "jkeys initial = ?ns \<and> jget initial a = Some 0"
          using i0 initializeScores_keys [OF ini] by simp
        fix m m' assume "pushAll p ?ns decays ratios t m = Inr m'"
        from pushAll_pull [OF this] show "jkeys m' = ?ns \<and> jget m' a = Some 0"
          using t0 teleportScores_keys [OF t] massFrom_unreachable ra ad unfolding decays
          by (simp add: map_replicate_const sum_list_replicate)
      qed
    qed (use i0 initializeScores_keys [OF ini] in simp)
    moreover obtain s where s: "s \<in> set (rankSeeds p)" using seed0 by (meson list.set_sel(1))
    moreover have "s \<in> set (jkeys d)" using keys s trustWalk.seed by blast
    moreover have "s \<in> set ?ns" using s by (simp add: set_rankNodes)
    ultimately have "jget (rrScores r) a = Some 0"
      using normalize_zero [OF norm [unfolded decays], of a s] ad by simp
    with a show ?thesis by simp
  qed
qed

section \<open>The pull formula\<close>

text \<open>
  The reference for one iteration: every account pulls along its incoming edges, each edge weighted
  by its share of the source's eligible weight.
\<close>

definition pullFrom ::
  "Graph \<Rightarrow> Params \<Rightarrow> (hex, int) jmap option \<Rightarrow> (hex, int) jmap \<Rightarrow> hex \<Rightarrow> hex \<Rightarrow> int" where
  "pullFrom g p decays current u v =
     (case jget (gOutgoing g) u of None \<Rightarrow> 0
      | Some row \<Rightarrow> (case jget row v of None \<Rightarrow> 0
        | Some w \<Rightarrow>
            if eligibleEdge u v w \<and> (case decays of None \<Rightarrow> True | Some d \<Rightarrow> jhas d v)
            then edgeFlow p (orDefault (jget current u) 0) (decayOf p decays u)
                   (w * precisionScale p sdiv outWeight u row)
            else 0))"

lemma ratioRow_flow:
  assumes run: "ratioRow p decays u row = Inr rs" and row: "jmapInv row"
    and pos: "outWeight u row = 0 \<longrightarrow> (\<forall>(v, w) \<in> set row. \<not> eligibleEdge u v w)"
  shows "rowFlow p score dec rs v = (case jget row v of None \<Rightarrow> 0
        | Some w \<Rightarrow> if eligibleEdge u v w \<and> (case decays of None \<Rightarrow> True | Some d \<Rightarrow> jhas d v)
            then edgeFlow p score dec (w * precisionScale p sdiv outWeight u row) else 0)"
proof -
  let ?Q = "\<lambda>(v, w). eligibleEdge u v w \<and> (case decays of None \<Rightarrow> True | Some d \<Rightarrow> jhas d v)"
  let ?t = "outWeight u row" and ?s = "precisionScale p"
  have rs: "?t \<noteq> 0 \<longrightarrow> rs = map (\<lambda>(v, w). (v, w * ?s sdiv ?t)) (filter ?Q row)" and rs0: "?t = 0 \<longrightarrow> rs = []"
  proof -
    from run obtain tb where "checkedTotal ''rank: outgoing-weight sum''
        (jvalues (filter (\<lambda>(v, w). eligibleEdge u v w) row)) = Inr tb"
      and rest: "(if tb = 0 then Inr [] else mapE (\<lambda>(target, baseWeight).
               bindE (fpDiv baseWeight tb ?s) (\<lambda>ratio. Inr (target, ratio))) (filter ?Q row)) = Inr rs"
      unfolding ratioRow_def by blast
    then have tb: "tb = ?t" using checkedTotal_Inr unfolding outWeight_def by blast
    have "mapE (\<lambda>(target, baseWeight). bindE (fpDiv baseWeight tb ?s) (\<lambda>ratio. Inr (target, ratio))) xs = Inr ys
        \<Longrightarrow> ys = map (\<lambda>(v, w). (v, w * ?s sdiv tb)) xs" for xs ys
      by (induction xs arbitrary: ys) (auto simp: fpDiv_def mulDiv_Inr)
    with rest tb show "?t \<noteq> 0 \<longrightarrow> rs = map (\<lambda>(v, w). (v, w * ?s sdiv ?t)) (filter ?Q row)" "?t = 0 \<longrightarrow> rs = []"
      by auto
  qed
  have flow: "sumOf (\<lambda>e. if fst e = v \<and> ?Q e then f (snd e) else 0) xs =
      (case jget xs v of None \<Rightarrow> 0 | Some w \<Rightarrow> if ?Q (v, w) then f w else 0)"
    if "distinct (map fst xs)" for xs :: "(hex \<times> int) list" and f :: "int \<Rightarrow> int"
    using that
  proof (induction xs)
    case (Cons e xs)
    obtain k w where e: "e = (k, w)" by (cases e)
    have none: "jget xs k = None" using Cons.prems e by (auto simp: map_of_eq_None_iff)
    show ?case
    proof (cases "k = v")
      case True
      with Cons none show ?thesis by (simp add: e)
    next
      case False
      with Cons show ?thesis by (simp add: e)
    qed
  qed simp
  have sumQ: "sumOf h (filter ?Q xs) = sumOf (\<lambda>e. if ?Q e then h e else 0) xs" for h :: "hex \<times> int \<Rightarrow> int" and xs
    by (induction xs) auto
  show ?thesis
  proof (cases "?t = 0")
    case True
    with pos have "\<not> eligibleEdge u v w" if "jget row v = Some w" for w
      using map_of_SomeD [OF that] by blast
    with True rs0 show ?thesis by (simp add: rowFlow_def split: option.split)
  next
    case False
    let ?f = "\<lambda>w. edgeFlow p score dec (w * ?s sdiv ?t)"
    from False rs have "rowFlow p score dec rs v = sumOf (\<lambda>e. if fst e = v then ?f (snd e) else 0) (filter ?Q row)"
      by (simp add: rowFlow_def comp_def case_prod_beta)
    also have "\<dots> = sumOf (\<lambda>e. if fst e = v \<and> ?Q e then ?f (snd e) else 0) row"
      unfolding sumQ by (intro arg_cong [where f = sum_list] map_cong) auto
    also have "\<dots> = (case jget row v of None \<Rightarrow> 0 | Some w \<Rightarrow> if ?Q (v, w) then ?f w else 0)"
      using row by (intro flow) (simp add: jmapInv_def)
    finally show ?thesis unfolding prod.case .
  qed
qed

lemma outWeight_zero:
  assumes "outWeight u row = 0" and "(v, w) \<in> set row"
  shows "\<not> eligibleEdge u v w"
proof
  assume e: "eligibleEdge u v w"
  let ?xs = "filter (\<lambda>(v, w). eligibleEdge u v w) row"
  have "0 < sumOf snd ?xs"
  proof (rule sumOf_pos)
    show "?xs \<noteq> []" using e assms(2) by (auto simp: filter_empty_conv)
  qed (auto simp: eligibleEdge_def)
  with assms(1) show False by (simp add: outWeight_def)
qed

lemma ratioRows_row:
  assumes "ratioRows g p ns decays = Inr ratios" and "u \<in> set ns" and "jget (gOutgoing g) u = Some row"
  shows "\<exists>rs. ratioRow p decays u row = Inr rs \<and> jget ratios u = (if rs = [] then None else Some rs)"
proof -
  let ?f = "\<lambda>ratios attester.
       case jget (gOutgoing g) attester of
         None \<Rightarrow> Inr ratios
       | Some edges \<Rightarrow> bindE (ratioRow p decays attester edges) (\<lambda>row.
           Inr (if length row > 0 then jset attester row ratios else ratios))"
  have step: "jget t v = (if v = x then (case jget (gOutgoing g) x of None \<Rightarrow> jget r0 x | Some row \<Rightarrow>
       (case ratioRow p decays x row of Inr rs \<Rightarrow> if rs = [] then jget r0 x else Some rs | Inl _ \<Rightarrow> None)) else jget r0 v)"
    if "?f r0 x = Inr t" for r0 x t v
    using that by (auto simp: jget_jset split: option.splits if_splits)
  have ok: "\<exists>rs. ratioRow p decays x row = Inr rs" if "?f r0 x = Inr t" "jget (gOutgoing g) x = Some row" for r0 x t row
    using that by auto
  have "foldE ?f r0 ns = Inr ratios \<Longrightarrow> (u \<in> set ns \<longrightarrow>
      (\<exists>rs. ratioRow p decays u row = Inr rs \<and>
        jget ratios u = (if rs = [] then jget r0 u else Some rs))) \<and> (u \<notin> set ns \<longrightarrow> jget ratios u = jget r0 u)" for r0 ns
  proof (induction ns arbitrary: r0)
    case (Cons x ns)
    then obtain r1 where r1: "?f r0 x = Inr r1" and rest: "foldE ?f r1 ns = Inr ratios" by auto
    show ?case
    proof (cases "u = x")
      case True
      obtain rs where rs: "ratioRow p decays u row = Inr rs" using ok [OF r1] assms(3) True by blast
      have "jget r1 u = (if rs = [] then jget r0 u else Some rs)"
        using step [OF r1, of u] True assms(3) rs by simp
      then have "jget ratios u = (if rs = [] then jget r0 u else Some rs)"
        using Cons.IH [OF rest] rs by (cases "u \<in> set ns") (auto simp del: foldE.simps)
      with rs True show ?thesis by simp
    next
      case False
      then have "jget r1 u = jget r0 u" using step [OF r1, of u] by simp
      moreover have "u \<in> set (x # ns) \<longleftrightarrow> u \<in> set ns" using False by simp
      ultimately show ?thesis using Cons.IH [OF rest] by (simp only:)
    qed
  qed auto
  from this [of "[]" ns] assms(1,2) show ?thesis unfolding ratioRows_def map_of.simps by blast
qed

lemma massFrom_pull:
  assumes ra: "ratioRows g p ns decays = Inr ratios" and u: "u \<in> set ns"
    and rows: "\<forall>(a, row) \<in> set (gOutgoing g). jmapInv row"
  shows "massFrom p decays ratios current u v = pullFrom g p decays current u v"
proof (cases "jget (gOutgoing g) u")
  case None
  then have "jget ratios u = None" using ratioRows_get [OF ra, of u] by (cases "jget ratios u") auto
  with None show ?thesis by (simp add: massFrom_def pullFrom_def)
next
  case (Some row)
  have inv: "jmapInv row" using rows map_of_SomeD [OF Some] by blast
  obtain rs where rs: "ratioRow p decays u row = Inr rs" "jget ratios u = (if rs = [] then None else Some rs)"
    using ratioRows_row [OF ra u Some] by blast
  have "massFrom p decays ratios current u v = rowFlow p (orDefault (jget current u) 0) (decayOf p decays u) rs v"
    using rs(2) by (simp add: massFrom_def rowFlow_def)
  also have "\<dots> = (case jget row v of None \<Rightarrow> 0
        | Some w \<Rightarrow> if eligibleEdge u v w \<and> (case decays of None \<Rightarrow> True | Some d \<Rightarrow> jhas d v)
            then edgeFlow p (orDefault (jget current u) 0) (decayOf p decays u) (w * precisionScale p sdiv outWeight u row) else 0)"
    by (rule ratioRow_flow [OF rs(1) inv]) (use outWeight_zero in blast)
  finally show ?thesis using Some by (simp add: pullFrom_def del: jhas_iff)
qed
end
