(* ===== verification/RankProps.thy ===== *)
theory RankProps
  imports RankSpec
begin

text \<open>
  The properties of the ranker (\<open>pagerank.ts\<close>), each with a concrete run on which its hypotheses
  hold.
\<close>

section \<open>A concrete run\<close>

text \<open>Three accounts behind the seed \<open>0xa\<close> and one, \<open>0xd\<close>, that nobody reachable attests.\<close>

definition exampleParams :: Params where
  "exampleParams = \<lparr>dampingFp = 850, toleranceFp = 5, maxIterations = 2, minWeightFp = 0,
     maxWeightFp = 100000, trustShareFp = 600, trustDecayFp = 800, trustedSeeds = [''0xA''],
     totalPool = 1000, precisionScale = 1000, schemaUid = ''0x'', weightFieldIndex = 0,
     envelope0DomainSeparators = None, lane2MaxHeadAge = None, accumulator = ''0x'', chainId = 1\<rparr>"

definition exampleGraph :: Graph where
  "exampleGraph = \<lparr>gNodes = [''0xa'', ''0xb'', ''0xc'', ''0xd''],
     gOutgoing = [(''0xa'', [(''0xb'', 300), (''0xc'', 100)]), (''0xb'', [(''0xa'', 50), (''0xb'', 7)]),
       (''0xd'', [(''0xa'', 10)])]\<rparr>"

definition exampleScores :: "(hex, int) jmap" where
  "exampleScores = [(''0xa'', 597), (''0xb'', 279), (''0xc'', 124), (''0xd'', 0)]"

lemma example_run: "calculateDetailed exampleGraph exampleParams =
  Inr \<lparr>rrScores = exampleScores, rrIterations = 2, rrConverged = False\<rparr>"
  by code_simp

lemma example_calculate: "calculate exampleGraph exampleParams = Inr exampleScores"
  by (simp add: calculate_def example_run)

lemma example_valid: "validParams exampleParams" "rankable exampleGraph exampleParams"
  "jmapInv (gOutgoing exampleGraph)" "hasTrustEnabled exampleParams"
  "rankNodesOf exampleGraph exampleParams \<noteq> []"
  by code_simp+

section \<open>Properties\<close>

text \<open>
  C3: A run of the ranker on a graph whose edges stay among the ranked nodes, with parameters that
  are shares of the precision scale, throws none of its errors (no overflow of 256 bits, no division
  by zero, no total above the scale, no missing map entry), and every score lies between zero and the
  precision scale.
\<close>
theorem rank_total_and_bounded:
  assumes "validParams p" and "rankable g p" and "jmapInv (gOutgoing g)"
  shows "\<exists>r. calculateDetailed g p = Inr r \<and>
    (\<forall>(a, v) \<in> set (rrScores r). 0 \<le> v \<and> v \<le> precisionScale p)"
proof -
  obtain r where r: "calculateDetailed g p = Inr r" and ok: "scoresOk p (rankNodesOf g p) (rrScores r)"
    using run_total [OF assms] by blast
  then have "0 \<le> snd e \<and> snd e \<le> precisionScale p" if "e \<in> set (rrScores r)" for e
    using that sumOf_member [of "rrScores r" snd e] by (auto simp: scoresOk_def)
  with r show ?thesis by fastforce
qed

theorem rank_total_and_bounded_witness:
  "\<exists>r. calculateDetailed exampleGraph exampleParams = Inr r \<and>
    (\<forall>(a, v) \<in> set (rrScores r). 0 \<le> v \<and> v \<le> precisionScale exampleParams)"
  using rank_total_and_bounded [OF example_valid(1-3)] .

text \<open>
  Conservation.  Whatever the parameters, a run that returns scores exactly the ranked nodes, in
  strictly increasing order, and unless there is no node the scores sum to the precision scale, so
  rounding neither loses nor creates standing.
\<close>
lemma rank_conserves_standing:
  assumes "calculate g p = Inr scores"
  shows "jkeys scores = rankNodesOf g p \<and> sorted_wrt (<) (jkeys scores) \<and>
    sumOf snd scores = (if scores = [] then 0 else precisionScale p)"
proof (cases "rankNodesOf g p = []")
  case True
  with assms show ?thesis by (auto simp: calculate_def calculateDetailed_def)
next
  case False
  from assms obtain r where r: "calculateDetailed g p = Inr r" and s: "scores = rrScores r"
    by (auto simp: calculate_def)
  from run_keys [OF r False] False s show ?thesis using rankNodes_sorted [of g p] by auto
qed

lemma rank_conserves_standing_witness:
  "jkeys exampleScores = rankNodesOf exampleGraph exampleParams \<and> sorted_wrt (<) (jkeys exampleScores) \<and>
   sumOf snd exampleScores = (if exampleScores = [] then 0 else precisionScale exampleParams)"
  using rank_conserves_standing [OF example_calculate] .

text \<open>
  C1: Sybil isolation.  With trust enabled, an account that no chain of eligible attestations joins
  to a seed scores zero, whatever such accounts attest among themselves; not even the rounding
  remainder is paid to one.
\<close>
theorem rank_isolates_unreachable:
  assumes "hasTrustEnabled p" and "calculateDetailed g p = Inr r"
    and "\<not> (\<exists>k. trustWalk g (rankSeeds p) k a)"
  shows "jget (rrScores r) a \<in> {None, Some 0}"
  using run_unreachable [OF assms] by (cases "jget (rrScores r) a") auto

theorem rank_isolates_unreachable_witness: "jget exampleScores ''0xd'' \<in> {None, Some 0}"
proof -
  have "bfsDecays exampleGraph (rankSeeds exampleParams) 800 1000 =
    Inr [(''0xa'', 1000), (''0xb'', 800), (''0xc'', 800)]" by code_simp
  then have "\<not> (\<exists>k. trustWalk exampleGraph (rankSeeds exampleParams) k ''0xd'')"
    using bfsDecays_keys [OF rankSeeds_distinct, of exampleGraph exampleParams 800 1000 _ "''0xd''"] by simp
  from rank_isolates_unreachable [OF example_valid(4) example_run this] show ?thesis
    by (simp only: RankResult.simps)
qed

text \<open>
  C8: The breadth-first search gives an account the value \<open>v\<close> exactly when its shortest chain of
  eligible edges from a seed has some length \<open>k\<close> and \<open>v\<close> is the scale multiplied \<open>k\<close> times by the
  decay, rounding at every hop.
\<close>
theorem bfs_decay_is_shortest:
  assumes "bfsDecays g seeds base scale = Inr d" and "distinct seeds"
  shows "jget d a = Some v \<longleftrightarrow> (\<exists>k. trustDistance g seeds k a \<and> v = decayAt base scale k)"
  using bfsDecays_shortest [OF assms(2,1)] .

theorem bfs_decay_is_shortest_witness:
  "\<exists>k. trustDistance exampleGraph [''0xa''] k ''0xc'' \<and> 800 = decayAt 800 1000 k"
proof -
  have "bfsDecays exampleGraph [''0xa''] 800 1000 = Inr [(''0xa'', 1000), (''0xb'', 800), (''0xc'', 800)]"
    by code_simp
  from bfs_decay_is_shortest [OF this, of "''0xc''" 800] show ?thesis by simp
qed

text \<open>
  C7: The optimised iteration equals its reference: after the push over the precomputed rows, every
  account holds its teleport score plus what it pulls along each incoming edge of the graph, in
  proportion to the edge's share of its source's eligible weight.
\<close>
theorem push_equals_pull:
  assumes "pushAll p ns decays ratios teleport current = Inr new"
    and "ratioRows g p ns decays = Inr ratios" and "\<forall>(a, row) \<in> set (gOutgoing g). jmapInv row"
  shows "jget new v = map_option (\<lambda>t. t + sumOf (\<lambda>u. pullFrom g p decays current u v) ns) (jget teleport v)"
proof -
  have "map (\<lambda>u. massFrom p decays ratios current u v) ns = map (\<lambda>u. pullFrom g p decays current u v) ns"
    using massFrom_pull [OF assms(2) _ assms(3)] by auto
  with pushAll_pull(2) [OF assms(1), of v] show ?thesis by (simp only:)
qed

theorem push_equals_pull_witness:
  "jget [(''0xa'', 142), (''0xb'', 311), (''0xc'', 85)] ''0xb'' = map_option (\<lambda>t. t +
     sumOf (\<lambda>u. pullFrom exampleGraph exampleParams None [(''0xa'', 400), (''0xb'', 50)] u ''0xb'') [''0xa'', ''0xb''])
     (jget [(''0xa'', 100), (''0xb'', 56), (''0xc'', 0)] ''0xb'')"
proof (rule push_equals_pull)
  show "ratioRows exampleGraph exampleParams [''0xa'', ''0xb''] None =
    Inr [(''0xa'', [(''0xb'', 750), (''0xc'', 250)]), (''0xb'', [(''0xa'', 1000)])]" by code_simp
  show "pushAll exampleParams [''0xa'', ''0xb''] None [(''0xa'', [(''0xb'', 750), (''0xc'', 250)]), (''0xb'', [(''0xa'', 1000)])]
     [(''0xa'', 100), (''0xb'', 56), (''0xc'', 0)] [(''0xa'', 400), (''0xb'', 50)] =
     Inr [(''0xa'', 142), (''0xb'', 311), (''0xc'', 85)]" by code_simp
  show "\<forall>(a, row) \<in> set (gOutgoing exampleGraph). jmapInv row" by code_simp
qed

text \<open>
  What the iteration result means.  A run over a nonempty graph does at most \<open>maxIterations\<close>
  steps, all of them when it did not converge; when it did, its scores are the normalization of an
  iterate whose last step moved no account that takes part in the convergence test by the tolerance
  or more.
\<close>
lemma rank_convergence:
  assumes "calculateDetailed g p = Inr r" and "rankNodesOf g p \<noteq> []"
  shows "if rrConverged r
    then rrIterations r \<le> nat (maxIterations p) \<and>
      (\<exists>decays ratios teleport prev cur. rankDecays g p = Inr decays \<and>
         pushAll p (rankNodesOf g p) decays ratios teleport prev = Inr cur \<and>
         normalize cur (precisionScale p) decays = Inr (rrScores r) \<and>
         (\<forall>a \<in> set (rankNodesOf g p). (case decays of None \<Rightarrow> True | Some d \<Rightarrow> a \<in> set (jkeys d)) \<longrightarrow>
            (\<exists>x y. jget cur a = Some x \<and> jget prev a = Some y \<and> \<bar>x - y\<bar> < toleranceFp p)))
    else rrIterations r = nat (maxIterations p)"
  using assms
proof (rule calculateDetailed_cases)
  fix decays initial current
  assume de: "rankDecays g p = Inr decays"
    and norm: "normalize current (precisionScale p) decays = Inr (rrScores r)"
    and loop: "maxIterations p = 0 \<and> current = initial \<and> rrIterations r = 0 \<and> \<not> rrConverged r \<or>
      maxIterations p \<noteq> 0 \<and> (\<exists>ratios t. ratioRows g p (rankNodesOf g p) decays = Inr ratios \<and>
        teleportScores p (rankNodesOf g p) initial = Inr t \<and>
        rankLoop p (rankNodesOf g p) decays ratios t (nat (maxIterations p)) 0 initial
          = Inr (current, rrIterations r, rrConverged r))"
  show ?thesis
  proof (cases "rrConverged r")
    case True
    with loop obtain ratios t where
      lp: "rankLoop p (rankNodesOf g p) decays ratios t (nat (maxIterations p)) 0 initial
          = Inr (current, rrIterations r, rrConverged r)" by blast
    from rankLoop_count [OF lp] True obtain prev d where n: "rrIterations r \<le> nat (maxIterations p)"
      and step: "pushAll p (rankNodesOf g p) decays ratios t prev = Inr current"
      and d: "maxDelta (rankNodesOf g p) decays current prev = Inr d" "d < toleranceFp p" by auto
    have "\<exists>x y. jget current a = Some x \<and> jget prev a = Some y \<and> \<bar>x - y\<bar> < toleranceFp p"
      if "a \<in> set (rankNodesOf g p)" "case decays of None \<Rightarrow> True | Some d \<Rightarrow> a \<in> set (jkeys d)" for a
      using maxDelta_bound [OF d(1) that] d(2) by fastforce
    with n de step norm have "rrIterations r \<le> nat (maxIterations p) \<and>
      (\<exists>decays ratios teleport prev cur. rankDecays g p = Inr decays \<and>
         pushAll p (rankNodesOf g p) decays ratios teleport prev = Inr cur \<and>
         normalize cur (precisionScale p) decays = Inr (rrScores r) \<and>
         (\<forall>a \<in> set (rankNodesOf g p). (case decays of None \<Rightarrow> True | Some d \<Rightarrow> a \<in> set (jkeys d)) \<longrightarrow>
            (\<exists>x y. jget cur a = Some x \<and> jget prev a = Some y \<and> \<bar>x - y\<bar> < toleranceFp p)))" by blast
    with True show ?thesis by (simp only: if_True)
  next
    case False
    with loop rankLoop_count show ?thesis by fastforce
  qed
qed

lemma rank_convergence_witness: "2 = nat (maxIterations exampleParams)"
  using rank_convergence [OF example_run example_valid(5)] by simp

end
