(* ===== verification/GraphProps.thy ===== *)
theory GraphProps
  imports RankProps
begin

text \<open>
  The graph built by \<open>reconcile.ts\<close> and the way from an event log to the ranks: the graph reflects
  the events pair by pair, and no step from the log to the scores throws.
\<close>

section \<open>From events to a rankable graph\<close>

lemma applyEvent_total: "precisionScale p \<noteq> 0 \<Longrightarrow> \<exists>c. applyEvent V p cur e = Inr c"
  using weightFp_total [of p V e] by (auto simp: applyEvent_def Let_def)

lemma foldE_applyEvent_total: "precisionScale p \<noteq> 0 \<Longrightarrow> \<exists>c. foldE (applyEvent V p) cur es = Inr c"
proof (induction es arbitrary: cur)
  case (Cons e es)
  then show ?case using applyEvent_total [of p V cur e] by auto
qed simp

lemma buildGraph_total: "precisionScale p \<noteq> 0 \<Longrightarrow> \<exists>g. buildGraph V es p = Inr g"
proof -
  assume "precisionScale p \<noteq> 0"
  then obtain c where "currentEdges V p es = Inr c"
    unfolding currentEdges_def using foldE_applyEvent_total by blast
  then show ?thesis by (simp add: buildGraph_def)
qed

lemma pairStep_bounds:
  assumes "minWeightFp p \<le> maxWeightFp p"
    and "\<And>c. st = Some c \<Longrightarrow> minWeightFp p \<le> ceWeight c \<and> ceWeight c \<le> maxWeightFp p"
    and "pairStep V p st e = Some c"
  shows "minWeightFp p \<le> ceWeight c \<and> ceWeight c \<le> maxWeightFp p"
  using assms weightFp_bounds [of V e p]
  by (auto simp: pairStep_def split: if_splits sum.splits)

lemma pairRun_bounds:
  assumes "minWeightFp p \<le> maxWeightFp p" and "pairRun V p a r es = Some c"
  shows "minWeightFp p \<le> ceWeight c \<and> ceWeight c \<le> maxWeightFp p"
proof -
  have "foldl (pairStep V p) st xs = Some c \<Longrightarrow> (\<And>c. st = Some c \<Longrightarrow>
      minWeightFp p \<le> ceWeight c \<and> ceWeight c \<le> maxWeightFp p) \<Longrightarrow>
      minWeightFp p \<le> ceWeight c \<and> ceWeight c \<le> maxWeightFp p" for st xs
  proof (induction xs arbitrary: st)
    case (Cons x xs)
    from Cons.prems(1) have "foldl (pairStep V p) (pairStep V p st x) xs = Some c" by simp
    then show ?case by (rule Cons.IH) (rule pairStep_bounds [OF assms(1) Cons.prems(2)])
  qed simp
  from this [of None] assms(2) show ?thesis by (simp add: pairRun_def)
qed

lemma pairRun_event: "pairRun V p a r es \<noteq> None \<Longrightarrow> r \<in> toLowerCase ` eRecipient ` set es"
proof -
  assume "pairRun V p a r es \<noteq> None"
  then have "filter (ofPair a r) es \<noteq> []" by (auto simp: pairRun_def)
  then show ?thesis by (auto simp: filter_empty_conv ofPair_def)
qed

lemma wfGraph_row:
  assumes "wfGraph g" and "(a, row) \<in> set (gOutgoing g)" and "(r, w) \<in> set row"
  shows "weightOf g a r = Some w"
  using assms by (auto simp: wfGraph_def jmapInv_def weightOf_def)

lemma buildGraph_weight:
  assumes "buildGraph V es p = Inr g"
  shows "wfGraph g" and "weightOf g a r = map_option ceWeight (pairRun V p a r (orderedEvents es))"
proof -
  from assms obtain cur where c: "currentEdges V p es = Inr cur" and g: "g = graphOf cur"
    by (auto simp: buildGraph_def)
  have inv: "currentInv cur" by (rule currentEdges_inv [OF c])
  show "wfGraph g" unfolding g by (rule wfGraph_graphOf [OF inv])
  show "weightOf g a r = map_option ceWeight (pairRun V p a r (orderedEvents es))"
    unfolding g weightOf_graphOf [OF inv] currentEdges_pairRun [OF c] ..
qed

lemma buildGraph_row:
  assumes g: "buildGraph V es p = Inr g" and le: "0 \<le> minWeightFp p" "minWeightFp p \<le> maxWeightFp p"
    and row: "(a, row) \<in> set (gOutgoing g)"
  shows "outWeight a row \<le> maxWeightFp p * int (length es)"
proof -
  note wf = buildGraph_weight(1) [OF g]
  have entry: "w \<le> maxWeightFp p \<and> r \<in> toLowerCase ` eRecipient ` set es" if "(r, w) \<in> set row" for r w
  proof -
    have "weightOf g a r = Some w" by (rule wfGraph_row [OF wf row that])
    then obtain c where c: "pairRun V p a r (orderedEvents es) = Some c" "ceWeight c = w"
      unfolding buildGraph_weight(2) [OF g] by auto
    have "set (orderedEvents es) = set es" by (metis mset_orderedEvents set_mset_mset)
    with c pairRun_bounds [OF le(2) c(1)] pairRun_event [of V p a r "orderedEvents es"] show ?thesis by auto
  qed
  have "distinct (jkeys row)" using wf row by (auto simp: wfGraph_def jmapInv_def)
  then have "length row = card (set (jkeys row))" by (metis distinct_card length_map)
  also have "\<dots> \<le> card (toLowerCase ` eRecipient ` set es)" using entry by (intro card_mono) auto
  also have "\<dots> \<le> length es" by (metis card_image_le card_length finite_imageI image_image le_trans list.set_map List.finite_set)
  finally have len: "length row \<le> length es" .
  let ?xs = "filter (\<lambda>(v, w). eligibleEdge a v w) row"
  have "outWeight a row \<le> sumOf (\<lambda>_. maxWeightFp p) ?xs"
    unfolding outWeight_def using entry by (intro sumOf_mono) auto
  also have "\<dots> = maxWeightFp p * int (length ?xs)" by (simp add: map_replicate_const sum_list_replicate mult.commute)
  also have "\<dots> \<le> maxWeightFp p * int (length es)"
  proof (rule mult_left_mono)
    show "int (length ?xs) \<le> int (length es)"
      using len length_filter_le [of "\<lambda>(v, w). eligibleEdge a v w" row] by linarith
  qed (use le in simp)
  finally show ?thesis .
qed

lemma wfGraph_canonical: "wfGraph g \<Longrightarrow> set (gNodes g) \<subseteq> set (rankNodesOf g p)"
  unfolding set_rankNodes wfGraph_def by (metis (no_types, lifting) canonicalD image_eqI le_supI1 subsetI)

lemma buildGraph_rankable:
  assumes g: "buildGraph V es p = Inr g" and le: "0 \<le> minWeightFp p" "minWeightFp p \<le> maxWeightFp p"
    and room: "maxWeightFp p * int (length es) \<le> U256_MAX"
  shows "rankable g p" and "jmapInv (gOutgoing g)"
proof -
  note wf = buildGraph_weight(1) [OF g]
  have "a \<in> set (rankNodesOf g p) \<and> set (jkeys row) \<subseteq> set (rankNodesOf g p) \<and> outWeight a row \<le> U256_MAX"
    if row: "(a, row) \<in> set (gOutgoing g)" for a row
  proof -
    have "a \<in> set (gNodes g)" "set (jkeys row) \<subseteq> set (gNodes g)"
      using wf row unfolding wfGraph_def by blast+
    with wfGraph_canonical [OF wf, of p] buildGraph_row [OF g le row] room show ?thesis by auto
  qed
  then show "rankable g p" unfolding rankable_def by blast
  show "jmapInv (gOutgoing g)" using wf by (simp add: wfGraph_def)
qed

section \<open>The attestation in force\<close>

text \<open>
  Among the positions \<open>S\<close> of a log the one at \<open>i\<close> is the attestation of the pair in force: nothing later attests the
  pair anew or revokes this very attestation.
\<close>

definition inForce :: "RawEdge list \<Rightarrow> nat set \<Rightarrow> hex \<Rightarrow> hex \<Rightarrow> nat \<Rightarrow> bool" where
  "inForce es S a r i \<longleftrightarrow> i \<in> S \<and> ofPair a r (es ! i) \<and> eKind (es ! i) = 0 \<and>
     (\<forall>j \<in> S. laterEvent es i j \<and> ofPair a r (es ! j) \<longrightarrow> eKind (es ! j) \<noteq> 0 \<and>
        (eKind (es ! j) = 1 \<longrightarrow> toLowerCase (eUid (es ! j)) \<noteq> toLowerCase (eUid (es ! i))))"

lemma inForce_snoc:
  assumes "\<forall>i \<in> S. laterEvent es i q"
  shows "\<not> ofPair a r (es ! q) \<Longrightarrow> inForce es (insert q S) a r i \<longleftrightarrow> inForce es S a r i"
    and "ofPair a r (es ! q) \<Longrightarrow> eKind (es ! q) = 0 \<Longrightarrow> inForce es (insert q S) a r i \<longleftrightarrow> i = q"
    and "ofPair a r (es ! q) \<Longrightarrow> eKind (es ! q) \<noteq> 0 \<Longrightarrow> inForce es (insert q S) a r i \<longleftrightarrow>
      inForce es S a r i \<and> (eKind (es ! q) = 1 \<longrightarrow> toLowerCase (eUid (es ! q)) \<noteq> toLowerCase (eUid (es ! i)))"
proof -
  have notLater: "\<not> laterEvent es q j" if "j \<in> insert q S" for j using that assms laterEvent_asym by auto
  show "\<not> ofPair a r (es ! q) \<Longrightarrow> inForce es (insert q S) a r i \<longleftrightarrow> inForce es S a r i"
    unfolding inForce_def by auto
  show "inForce es (insert q S) a r i \<longleftrightarrow> i = q" if "ofPair a r (es ! q)" "eKind (es ! q) = 0"
  proof
    assume f: "inForce es (insert q S) a r i"
    then have "laterEvent es i q \<longrightarrow> eKind (es ! q) \<noteq> 0" using that(1) unfolding inForce_def by blast
    then show "i = q" using f that(2) assms unfolding inForce_def by blast
  next
    assume "i = q"
    have "\<not> laterEvent es q j" if "j \<in> insert q S" for j by (rule notLater [OF that])
    then show "inForce es (insert q S) a r i" using that \<open>i = q\<close> unfolding inForce_def by blast
  qed
  show "ofPair a r (es ! q) \<Longrightarrow> eKind (es ! q) \<noteq> 0 \<Longrightarrow> inForce es (insert q S) a r i \<longleftrightarrow>
      inForce es S a r i \<and> (eKind (es ! q) = 1 \<longrightarrow> toLowerCase (eUid (es ! q)) \<noteq> toLowerCase (eUid (es ! i)))"
    unfolding inForce_def using assms by auto
qed

lemma pairRun_snoc: "pairRun V p a r (xs @ [x]) = (if ofPair a r x then pairStep V p (pairRun V p a r xs) x else pairRun V p a r xs)"
  by (simp add: pairRun_def)

lemma pairRun_positions:
  assumes "sorted_wrt (laterEvent es) ps"
  shows "pairRun V p a r (map ((!) es) ps) = Some c \<longleftrightarrow>
    (\<exists>i. inForce es (set ps) a r i \<and> ceUid c = toLowerCase (eUid (es ! i)) \<and> weightFp V (es ! i) p = Inr (ceWeight c))"
  using assms
proof (induction ps arbitrary: c rule: rev_induct)
  case (snoc q ps)
  have last: "\<forall>i \<in> set ps. laterEvent es i q" and srt: "sorted_wrt (laterEvent es) ps" using snoc.prems by (auto simp: sorted_wrt_append)
  note step = inForce_snoc [OF last, of a r] and IH = snoc.IH [OF srt]
  have ps: "set (ps @ [q]) = insert q (set ps)" by simp
  consider "\<not> ofPair a r (es ! q)" | "ofPair a r (es ! q)" "eKind (es ! q) = 0" | "ofPair a r (es ! q)" "eKind (es ! q) \<noteq> 0" by blast
  then show ?case
  proof cases
    case 1
    then show ?thesis unfolding ps by (simp add: pairRun_snoc IH step(1))
  next
    case 2
    then show ?thesis unfolding ps by (cases c) (auto simp: pairRun_snoc pairStep_def step(2) split: sum.splits)
  next
    case 3
    then have "pairRun V p a r (map ((!) es) (ps @ [q])) = Some c \<longleftrightarrow>
        pairRun V p a r (map ((!) es) ps) = Some c \<and> (eKind (es ! q) = 1 \<longrightarrow> ceUid c \<noteq> toLowerCase (eUid (es ! q)))"
      by (auto simp: pairRun_snoc pairStep_def)
    then show ?thesis unfolding ps step(3) [OF 3] IH by metis
  qed
qed (simp add: pairRun_def inForce_def)

lemma graph_weights:
  assumes "buildGraph V es p = Inr g"
  shows "weightOf g a r = Some w \<longleftrightarrow> (\<exists>i. inForce es {..<length es} a r i \<and> weightFp V (es ! i) p = Inr w)"
proof -
  obtain ps where ps: "orderedEvents es = map ((!) es) ps" "set ps = {..<length es}" "sorted_wrt (laterEvent es) ps"
    by (rule orderedEvents_positions)
  have "weightOf g a r = Some w \<longleftrightarrow> (\<exists>c. pairRun V p a r (orderedEvents es) = Some c \<and> ceWeight c = w)"
    unfolding buildGraph_weight(2) [OF assms] by auto
  then show ?thesis unfolding ps(1) pairRun_positions [OF ps(3)] ps(2)
    by (metis CurrentEdge.select_convs)
qed

lemma graph_nodes:
  assumes "buildGraph V es p = Inr g"
  shows "n \<in> set (gNodes g) \<longleftrightarrow> (\<exists>a r. weightOf g a r \<noteq> None \<and> (n = a \<or> n = r))"
proof -
  from assms obtain cur where c: "currentEdges V p es = Inr cur" and g: "g = graphOf cur" by (auto simp: buildGraph_def)
  have inv: "currentInv cur" by (rule currentEdges_inv [OF c])
  have row: "jget cur a = Some rs \<and> rs \<noteq> [] \<and> distinct (jkeys rs)" if "(a, rs) \<in> set cur" for a rs
    using inv that by (auto simp: currentInv_def jmapInv_def)
  have edge: "weightOf g a r \<noteq> None \<longleftrightarrow> (\<exists>rs. (a, rs) \<in> set cur \<and> r \<in> set (jkeys rs))" for a r
  proof (cases "jget cur a")
    case None
    then have "(a, rs) \<notin> set cur" for rs using row by force
    with None show ?thesis unfolding g weightOf_graphOf [OF inv] edgeAt_def by simp
  next
    case (Some rs)
    then have "(a, rs') \<in> set cur \<longleftrightarrow> rs' = rs" for rs' using row map_of_SomeD [OF Some] by fastforce
    with Some show ?thesis unfolding g weightOf_graphOf [OF inv] edgeAt_def by (simp add: map_of_eq_None_iff)
  qed
  have "n \<in> set (gNodes g) \<longleftrightarrow> (\<exists>a rs. (a, rs) \<in> set cur \<and> (n = a \<or> n \<in> set (jkeys rs)))"
    unfolding g graphOf_nodes by auto
  also have "\<dots> \<longleftrightarrow> (\<exists>a rs r. (a, rs) \<in> set cur \<and> r \<in> set (jkeys rs) \<and> (n = a \<or> n = r))"
  proof -
    have "\<exists>r. r \<in> set (jkeys rs)" if "(a, rs) \<in> set cur" for a rs using row [OF that] by (cases rs) auto
    then show ?thesis by blast
  qed
  also have "\<dots> \<longleftrightarrow> (\<exists>a r. weightOf g a r \<noteq> None \<and> (n = a \<or> n = r))" unfolding edge by blast
  finally show ?thesis .
qed

section \<open>Properties\<close>

text \<open>An attestation revoked by a later event, renewed in between, and one more pair.\<close>

definition exampleEvent :: "int \<Rightarrow> hex \<Rightarrow> hex \<Rightarrow> hex \<Rightarrow> int \<Rightarrow> RawEdge" where
  "exampleEvent k a r u t = \<lparr>eKind = k, eAttester = a, eRecipient = r, eUid = u, eBlockTimestamp = t, eData = ''0x''\<rparr>"

definition exampleEvents :: "RawEdge list" where
  "exampleEvents =
     [exampleEvent 0 ''0xA'' ''0xb'' ''0x1'' 5, exampleEvent 1 ''0xa'' ''0xB'' ''0x1'' 9,
      exampleEvent 0 ''0xa'' ''0xb'' ''0x2'' 7, exampleEvent 0 ''0xb'' ''0xc'' ''0x3'' 1]"

definition exampleBuilt :: Graph where
  "exampleBuilt = \<lparr>gNodes = [''0xa'', ''0xb'', ''0xc''],
     gOutgoing = [(''0xb'', [(''0xc'', 7)]), (''0xa'', [(''0xb'', 7)])]\<rparr>"

lemma example_built: "buildGraph exampleViem exampleEvents (exampleParams\<lparr>minWeightFp := 7\<rparr>) = Inr exampleBuilt"
  by code_simp

text \<open>
  C6: The graph is, pair by pair, what the event log says.  There is an edge of weight w from a to r exactly when w is
  the weight of an attestation of the pair that is in force: every other attestation of the pair is earlier, by
  timestamp and within a timestamp by position in the log, and no later revocation names it.  The nodes are the sorted
  endpoints of the edges.
\<close>
theorem graph_reflects_events:
  assumes "buildGraph V es p = Inr g"
  shows "wfGraph g \<and>
    (\<forall>a r w. weightOf g a r = Some w \<longleftrightarrow> (\<exists>i. inForce es {..<length es} a r i \<and> weightFp V (es ! i) p = Inr w)) \<and>
    (\<forall>n. n \<in> set (gNodes g) \<longleftrightarrow> (\<exists>a r. weightOf g a r \<noteq> None \<and> (n = a \<or> n = r)))"
  using buildGraph_weight(1) [OF assms] graph_weights [OF assms] graph_nodes [OF assms] by blast

theorem graph_reflects_events_witness:
  "\<exists>i. inForce exampleEvents {..<4} ''0xa'' ''0xb'' i \<and>
     weightFp exampleViem (exampleEvents ! i) (exampleParams\<lparr>minWeightFp := 7\<rparr>) = Inr 7"
proof -
  have "weightOf exampleBuilt ''0xa'' ''0xb'' = Some 7" by (simp add: weightOf_def exampleBuilt_def)
  moreover have "length exampleEvents = 4" by (simp add: exampleEvents_def)
  ultimately show ?thesis using graph_reflects_events [OF example_built] by metis
qed

text \<open>
  From events to ranks without an error: for parameters that are shares of the precision scale
  and whose largest weight leaves room for all events in 256 bits, every event log builds a graph,
  the ranker returns on it, and the scores of a nonempty graph sum to the precision scale.
\<close>
lemma events_rank_total:
  assumes "validParams p" and "0 \<le> minWeightFp p" and "minWeightFp p \<le> maxWeightFp p"
    and "maxWeightFp p * int (length es) \<le> U256_MAX"
  shows "\<exists>g r. buildGraph V es p = Inr g \<and> calculateDetailed g p = Inr r \<and>
    (\<not> graphIsEmpty g \<longrightarrow> sumOf snd (rrScores r) = precisionScale p)"
proof -
  obtain g where g: "buildGraph V es p = Inr g"
    using buildGraph_total [of p V es] assms(1) by (auto simp: validParams_def)
  obtain r where r: "calculateDetailed g p = Inr r"
    using run_total [OF assms(1)] buildGraph_rankable [OF g assms(2-4)] by blast
  have "sumOf snd (rrScores r) = precisionScale p" if "\<not> graphIsEmpty g"
  proof -
    from that have "rankNodesOf g p \<noteq> []"
      using wfGraph_canonical [OF buildGraph_weight(1) [OF g], of p] by (auto simp: graphIsEmpty_def)
    from run_keys [OF r this] show ?thesis ..
  qed
  with g r show ?thesis by blast
qed

lemma events_rank_total_witness:
  "\<exists>g r. buildGraph exampleViem exampleEvents exampleParams = Inr g \<and>
     calculateDetailed g exampleParams = Inr r \<and>
     (\<not> graphIsEmpty g \<longrightarrow> sumOf snd (rrScores r) = precisionScale exampleParams)"
  by (rule events_rank_total) code_simp+

end
