(* ===== verification/Commitments.thy ===== *)
theory Commitments
  imports Instance
begin

text \<open>
  Properties of the commitments of \<open>merkle.ts\<close> and \<open>encode.ts\<close>: what an output root, an accumulator
  and a journal encoding say about the data behind them.
\<close>

text \<open>
  C15: Every leaf of a built tree has an inclusion proof of at most \<open>log2 (2 n - 1)\<close> siblings, and
  folding the leaf with it gives the tree's root; no other value has a proof.
\<close>

theorem merkle_proofs_complete:
  assumes "digestLaw V" and "\<forall>l \<in> set leaves. canonical l"
    and "buildTree V leaves = Inr t" and "merkleRoot V leaves = Inr r"
  shows "case proofFor t l of
      None \<Rightarrow> l \<notin> set leaves
    | Some pr \<Rightarrow> l \<in> set leaves \<and> processProof (hashPair V) pr l = r \<and>
        2 ^ length pr < 2 * length leaves"
proof (cases "l \<in> set leaves")
  case True
  then show ?thesis using proof_complete [OF assms] by fastforce
next
  case False
  then show ?thesis using proof_only_leaves [OF assms(3)] by (cases "proofFor t l") auto
qed

theorem merkle_proofs_complete_witness:
  "\<exists>t r pr. buildTree exampleViem [''0xa'', ''0xb'', ''0xc''] = Inr t \<and>
     merkleRoot exampleViem [''0xa'', ''0xb'', ''0xc''] = Inr r \<and>
     proofFor t ''0xb'' = Some pr \<and> processProof (hashPair exampleViem) pr ''0xb'' = r"
proof -
  let ?ls = "[''0xa'', ''0xb'', ''0xc''] :: hex list"
  obtain t r where t: "buildTree exampleViem ?ls = Inr t" and r: "merkleRoot exampleViem ?ls = Inr r"
    using buildTree_total merkleRoot_total by blast
  have "\<forall>l \<in> set ?ls. canonical l" by (simp add: canonical_def toLowerCase_def lowerChar_def)
  from merkle_proofs_complete [OF example_laws(4) this t r, of "''0xb''"] t r show ?thesis
    by (auto split: option.splits)
qed

text \<open>
  C14: Two edge lists of the same length with the same accumulator are the same list, up to the case
  of addresses, unless the digest collides on one of the inputs the two folds hash.  Omitting,
  adding, reordering or altering an attestation changes the committed input.
\<close>

theorem accumulator_binds_edges:
  assumes "concatLaw V" and "toHexLaw V" and "padLaw V" and "digestLaw V"
    and "\<forall>e \<in> set es. wfEdge e" and "\<forall>e \<in> set es'. wfEdge e"
    and "inj_on (keccak256 V) (hashedInputs V ZERO_HASH es \<union> hashedInputs V ZERO_HASH es')"
    and "accumulate V es = Inr (a, n)" and "accumulate V es' = Inr (a, n)"
  shows "map edgeKey es = map edgeKey es'"
proof (rule fold_binding [OF assms(1-7)])
  show "foldE (accumulateStep V) ZERO_HASH es = Inr a" "foldE (accumulateStep V) ZERO_HASH es' = Inr a"
    "length es = length es'"
    using assms(8,9) by (auto simp: accumulate_def result_simps)
qed

definition revokeExample :: "char \<Rightarrow> RawEdge" where
  "revokeExample c = \<lparr>eKind = 1, eAttester = ''0x'' @ replicate 40 c, eRecipient = ZERO_ADDRESS,
     eUid = ZERO_HASH, eBlockTimestamp = 7, eData = ''0xff''\<rparr>"

lemma revokeExample_fields:
  "eKind (revokeExample c) = 1" "eRecipient (revokeExample c) = ZERO_ADDRESS"
  "eUid (revokeExample c) = ZERO_HASH" "eBlockTimestamp (revokeExample c) = 7"
  "eData (revokeExample c) = ''0xff''"
  by (simp_all add: revokeExample_def)

lemma revokeExample_lower:
  "toLowerCase (eAttester (revokeExample (CHR ''A''))) =
   toLowerCase (eAttester (revokeExample (CHR ''a'')))"
  by code_simp

lemma revokeExample_addr:
  "wordAddr V (eAttester (revokeExample (CHR ''A''))) =
   wordAddr V (eAttester (revokeExample (CHR ''a'')))"
  by (simp only: wordAddr_def revokeExample_lower)

lemma revokeExample_step:
  "edgeLeafEncoded V k (eAttester (revokeExample (CHR ''A''))) =
   edgeLeafEncoded V k (eAttester (revokeExample (CHR ''a'')))"
  by (simp add: fun_eq_iff edgeLeafEncoded_def revokeExample_addr)

lemma revokeExample_inputs:
  "hashedInputs V ZERO_HASH [revokeExample (CHR ''A'')] =
   hashedInputs V ZERO_HASH [revokeExample (CHR ''a'')]"
  "accumulate V [revokeExample (CHR ''A'')] = accumulate V [revokeExample (CHR ''a'')]"
  by (simp_all add: accumulate_def accumulateStep_def stepInputs_def edgeLeaf_def
      revokeExample_fields revokeExample_step split: sum.splits)

lemma revokeExample_distinct_inputs:
  "\<forall>x \<in> hashedInputs exampleViem ZERO_HASH [revokeExample (CHR ''a'')].
   \<forall>y \<in> hashedInputs exampleViem ZERO_HASH [revokeExample (CHR ''a'')].
     prefixDigest x = prefixDigest y \<longrightarrow> x = y"
  by code_simp

lemma revokeExample_wf:
  "wfEdge (revokeExample (CHR ''A'')) \<and> wfEdge (revokeExample (CHR ''a'')) \<and>
   \<not> isl (accumulate exampleViem [revokeExample (CHR ''a'')])"
  by code_simp

theorem accumulator_binds_edges_witness:
  "revokeExample (CHR ''a'') \<noteq> revokeExample (CHR ''A'') \<and>
   map edgeKey [revokeExample (CHR ''a'')] = map edgeKey [revokeExample (CHR ''A'')]"
proof -
  let ?a = "revokeExample (CHR ''a'')" and ?A = "revokeExample (CHR ''A'')"
  obtain a n where acc: "accumulate exampleViem [?a] = Inr (a, n)"
    using revokeExample_wf by (cases "accumulate exampleViem [?a]") auto
  have "inj_on (keccak256 exampleViem)
    (hashedInputs exampleViem ZERO_HASH [?a] \<union> hashedInputs exampleViem ZERO_HASH [?A])"
    unfolding inj_on_def revokeExample_inputs(1) Un_absorb example_keccak
    by (rule revokeExample_distinct_inputs)
  from accumulator_binds_edges [OF example_laws _ _ this acc] acc revokeExample_wf
  show ?thesis unfolding revokeExample_inputs(2) by (auto simp: revokeExample_def)
qed

end
