(* ===== verification/Compute.thy ===== *)
theory Compute
  imports CidProps GraphProps Commitments
begin

text \<open>
  \<open>lib/pagerank/compute.ts\<close> and \<open>simulate.ts\<close>: the pipeline from folded edges to the journal, the score
  list and the CID, and the browser adapter that adds inclusion proofs.
\<close>

section \<open>The pipeline\<close>

definition compute :: "viem \<Rightarrow> GuestInput \<Rightarrow> ComputeResult result" where
  "compute V input =
     bindE (accumulate V (giEdges input)) (\<lambda>(acc, leafCount).
     bindE (paramsHash V (giParams input)) (\<lambda>pHash.
     bindE (buildGraph V (giEdges input) (giParams input)) (\<lambda>graph.
     bindE (calculateDetailed graph (giParams input)) (\<lambda>rank.
     let filtered = filter (\<lambda>(k, v). v \<noteq> 0) (rrScores rank) in
     bindE (distributePoints filtered (giParams input)) (\<lambda>(assigned0, totalValue).
     let assigned = sortBy (\<lambda>a b. cmpHex (fst a) (fst b)) assigned0 in
     bindE (mapE (\<lambda>(a, v). outputLeaf V a v) assigned) (\<lambda>leaves.
     bindE (merkleRoot V leaves) (\<lambda>outputRoot.
     let blob = canonicalBlob assigned;
         digest = sha256Utf8 V blob;
         ipfsHash = digestToHex V digest in
     bindE (cidV1Raw digest) (\<lambda>cid.
     let cidDigest = keccak256Bytes V (stringToBytes V cid);
         journal = \<lparr>jAcc = acc, jLeafCount = leafCount, jAnchorAcc = ZERO_HASH, jAnchorCount = 0,
           jParamsHash = pHash, jOutputRoot = outputRoot, jIpfsHash = ipfsHash, jCidDigest = cidDigest,
           jTotalValue = totalValue, jSkippedDigest = ZERO_HASH,
           jRecipient = (case giBinding input of Some b \<Rightarrow> bRecipient b | None \<Rightarrow> ZERO_ADDRESS),
           jInstanceDomain = (case giBinding input of Some b \<Rightarrow> bInstanceDomain b | None \<Rightarrow> ZERO_HASH)\<rparr> in
     Inr \<lparr>crJournal = journal, crScores = assigned, crBlob = blob, crCid = cid,
          crIterations = rrIterations rank, crConverged = rrConverged rank\<rparr>))))))))"

section \<open>The simulation adapter\<close>

text \<open>
  \<open>lib/pagerank/simulate.ts\<close>.  The type \<open>'n\<close> stands for the host's floating-point numbers, and the two
  conversions to integers (\<open>toFp\<close> and \<open>BigInt(Math.max(0, Math.trunc(c)))\<close>), which depend on binary
  rounding, are parameters.
\<close>

record 'n floats =
  toFp :: "'n \<Rightarrow> int result"
  truncated :: "'n \<Rightarrow> int result"

record 'n SimAttestation =
  smAttester :: hex
  smRecipient :: hex
  smUid :: hex
  smTime :: int
  smConfidence :: 'n
  smRevoked :: bool
  smRevocationTime :: "int option"

record 'n SimConfig =
  scDampingFactor :: 'n
  scTrustShare :: 'n
  scTrustDecay :: 'n
  scMaxIterations :: int
  scMinWeight :: 'n
  scMaxWeight :: 'n
  scTrustedSeeds :: "hex list"
  scPointsPool :: int
  scEnvelope0DomainSeparators :: "hex list option"
  scLane2MaxHeadAge :: "int option"
  scAccumulator :: hex
  scChainId :: int
  scSchemaUid :: "hex option"

record ProofEntry =
  peAccount :: hex
  peValue :: int
  peProof :: "hex list"

record SimResult =
  srResults :: "(hex, int) jmap"
  srOutputRoot :: hex
  srIpfsHash :: hex
  srCid :: string
  srTotalValue :: int
  srEntries :: "ProofEntry list"
  srJournal :: Journal

definition merkleEntriesForScores :: "viem \<Rightarrow> (hex \<times> int) list \<Rightarrow> ProofEntry list result" where
  "merkleEntriesForScores V scores =
     bindE (mapE (\<lambda>(account, v). bindE (outputLeaf V account v) (\<lambda>leaf. Inr (account, v, leaf))) scores) (\<lambda>leaves.
     bindE (buildTree V (map (\<lambda>(_, _, leaf). leaf) leaves)) (\<lambda>tree.
     mapE (\<lambda>(account, v, leaf).
         case proofFor tree leaf of
           None \<Rightarrow> Inl (PlainError (''Failed to construct simulated proof for '' @ account))
         | Some pr \<Rightarrow> Inr \<lparr>peAccount = account, peValue = v, peProof = pr\<rparr>)
       leaves))"

definition encodeConfidence :: "viem \<Rightarrow> 'n floats \<Rightarrow> 'n \<Rightarrow> hex result" where
  "encodeConfidence V F confidence =
     bindE (truncated F confidence) (\<lambda>c. concatE V [wordU256 V 0, wordU256 V c])"

definition simEdges :: "viem \<Rightarrow> 'n floats \<Rightarrow> 'n SimAttestation \<Rightarrow> RawEdge list result" where
  "simEdges V F attestation =
     bindE (encodeConfidence V F (smConfidence attestation)) (\<lambda>dat.
     let edge = (\<lambda>kind time. \<lparr>eKind = kind, eAttester = toLowerCase (smAttester attestation),
           eRecipient = toLowerCase (smRecipient attestation), eUid = smUid attestation,
           eBlockTimestamp = time, eData = dat\<rparr>) in
     Inr (edge 0 (smTime attestation) #
       (if smRevoked attestation
        then [edge 1 (case smRevocationTime attestation of
                Some t \<Rightarrow> if t > 0 then t else smTime attestation | None \<Rightarrow> smTime attestation)]
        else [])))"

definition simScale :: int where
  "simScale = 10 ^ 18"

definition simParams :: "'n floats \<Rightarrow> 'n SimConfig \<Rightarrow> Params result" where
  "simParams F cfg =
     bindE (toFp F (scDampingFactor cfg)) (\<lambda>damping.
     bindE (toFp F (scMinWeight cfg)) (\<lambda>minW.
     bindE (toFp F (scMaxWeight cfg)) (\<lambda>maxW.
     bindE (toFp F (scTrustShare cfg)) (\<lambda>trustShare.
     bindE (toFp F (scTrustDecay cfg)) (\<lambda>trustDecay.
     Inr \<lparr>dampingFp = damping, toleranceFp = simScale sdiv 1000000, maxIterations = scMaxIterations cfg,
          minWeightFp = minW, maxWeightFp = maxW, trustShareFp = trustShare, trustDecayFp = trustDecay,
          trustedSeeds = map toLowerCase (scTrustedSeeds cfg), totalPool = scPointsPool cfg,
          precisionScale = simScale, schemaUid = orDefault (scSchemaUid cfg) ZERO_HASH,
          weightFieldIndex = 1,
          envelope0DomainSeparators = (case scEnvelope0DomainSeparators cfg of
              None \<Rightarrow> None
            | Some ds \<Rightarrow> if length ds = 0 then None else Some (map toLowerCase ds)),
          lane2MaxHeadAge = (case scLane2MaxHeadAge cfg of
              None \<Rightarrow> None | Some age \<Rightarrow> if age = 0 then None else Some age),
          accumulator = scAccumulator cfg, chainId = scChainId cfg\<rparr>)))))"

definition simulateNetwork ::
  "viem \<Rightarrow> 'n floats \<Rightarrow> 'n SimAttestation list \<Rightarrow> 'n SimConfig \<Rightarrow> RawEdge list \<Rightarrow> SimResult result" where
  "simulateNetwork V F attestations cfg envelopeEdges =
     bindE (mapE (simEdges V F) attestations) (\<lambda>es.
     bindE (simParams F cfg) (\<lambda>params.
     bindE (compute V \<lparr>giEdges = concat es @ envelopeEdges, giParams = params, giBinding = None\<rparr>) (\<lambda>r.
     let results = newMap (map (\<lambda>(addr, v). (toLowerCase addr, v)) (crScores r)) in
     bindE (merkleEntriesForScores V (crScores r)) (\<lambda>entries.
     Inr \<lparr>srResults = results, srOutputRoot = jOutputRoot (crJournal r), srIpfsHash = jIpfsHash (crJournal r),
          srCid = crCid r, srTotalValue = jTotalValue (crJournal r), srEntries = entries,
          srJournal = crJournal r\<rparr>))))"

section \<open>What a computation returns\<close>

lemma compute_cases:
  assumes "compute V i = Inr r"
  obtains g rank assigned total leaves where
    "buildGraph V (giEdges i) (giParams i) = Inr g" and "calculateDetailed g (giParams i) = Inr rank"
    and "distributePoints (filter (\<lambda>(k, v). v \<noteq> 0) (rrScores rank)) (giParams i) = Inr (assigned, total)"
    and "crScores r = sortBy (\<lambda>a b. cmpHex (fst a) (fst b)) assigned"
    and "mapE (\<lambda>(a, v). outputLeaf V a v) (crScores r) = Inr leaves"
    and "merkleRoot V leaves = Inr (jOutputRoot (crJournal r))"
    and "jTotalValue (crJournal r) = total" and "crBlob r = canonicalBlob (crScores r)"
    and "cidV1Raw (sha256Utf8 V (crBlob r)) = Inr (crCid r)"
  using assms unfolding compute_def Let_def by (elim bindE_InrE) (auto simp: result_simps)

end
