(* ===== verification/WeightedPrior.thy ===== *)
theory WeightedPrior
  imports Compute
begin

text \<open>
  \<open>lib/weighted-prior/core.ts\<close>: the ranker whose teleport follows a published prior.  Decimal weights,
  largest-remainder apportionment, the prior, its Merkle root and its byte manifest, the graph, the
  conserving iteration, and the computation with its journal.  Names that \<open>lib/pagerank\<close> also uses
  carry the prefix \<open>wp\<close>.
  The apportionment of \<open>lib/weighted-prior/core.ts\<close> pays every claim its reference share, and is an
  instance of the interface \<open>apportionment\<close>.
\<close>

section \<open>Data\<close>

definition SCALE :: int where
  "SCALE = 1000000000000000000"

definition MAX_PRIOR_ENTRIES :: int where
  "MAX_PRIOR_ENTRIES = 2048"

record RawPriorEntry =
  rpAccount :: hex
  rpWeight :: string

record PriorEntry =
  peyAccount :: hex
  peyWeight :: int

record WpParams =
  wpVersion :: int
  wpDampingFp :: int
  wpToleranceFp :: int
  wpMaxIterations :: int
  wpMinWeight :: int
  wpMaxWeight :: int
  wpPriorRoot :: hex
  wpPriorCount :: int
  wpManifestSha256 :: hex
  wpSchemaUid :: hex
  wpWeightFieldIndex :: int
  wpAccumulator :: hex
  wpChainId :: int

record WpInput =
  wiEdges :: "RawEdge list"
  wiParams :: WpParams
  wiManifest :: hex
  wiBinding :: "Binding option"

record WpResult =
  wrJournal :: Journal
  wrScores :: "(hex \<times> int) list"
  wrBlob :: string
  wrCid :: string
  wrIterations :: int

definition canonicalAddress :: "hex \<Rightarrow> hex" where
  "canonicalAddress a = toLowerCase a"

section \<open>Decimal weights\<close>

text \<open>
  The regular expression \<open>^(0|[1-9][0-9]{0,19})(\.[0-9]{0,17}[1-9])?$\<close>: the part before the first dot
  and the part after it.
\<close>

definition wholeDigits :: "string \<Rightarrow> bool" where
  "wholeDigits w \<longleftrightarrow> w = ''0'' \<or>
     (1 \<le> length w \<and> length w \<le> 20 \<and> list_all isDigit w \<and> hd w \<noteq> CHR ''0'')"

definition fractionDigits :: "string \<Rightarrow> bool" where
  "fractionDigits f \<longleftrightarrow> 1 \<le> length f \<and> length f \<le> 18 \<and> list_all isDigit f \<and> last f \<noteq> CHR ''0''"

definition beforeDot :: "string \<Rightarrow> string" where
  "beforeDot = takeWhile (\<lambda>c. c \<noteq> CHR ''.'')"

definition afterDot :: "string \<Rightarrow> string" where
  "afterDot s = drop 1 (dropWhile (\<lambda>c. c \<noteq> CHR ''.'') s)"

definition canonicalDecimal :: "string \<Rightarrow> bool" where
  "canonicalDecimal s \<longleftrightarrow> wholeDigits (beforeDot s) \<and>
     (CHR ''.'' \<in> set s \<longrightarrow> fractionDigits (afterDot s))"

definition padEnd :: "nat \<Rightarrow> char \<Rightarrow> string \<Rightarrow> string" where
  "padEnd n c s = s @ replicate (n - length s) c"

definition parseDecimal :: "string \<Rightarrow> int result" where
  "parseDecimal s =
     bindE (throwWhen (\<not> canonicalDecimal s)
       (PlainError (''non-canonical positive decimal: '' @ s))) (\<lambda>_.
     let parsed = int (digitsVal (beforeDot s)) * SCALE +
           int (digitsVal (padEnd 18 (CHR ''0'') (afterDot s))) in
     if parsed = 0 then Inl (PlainError ''zero prior weight'') else Inr parsed)"

section \<open>Apportionment\<close>

record ApRow =
  apAccount :: hex
  apValue :: int
  apRemainder :: int

text \<open>The state of the first loop: the accounts seen, the sum, and the rows so far.\<close>

definition apportionRow ::
  "int \<Rightarrow> int \<Rightarrow> hex list \<times> int \<times> ApRow list \<Rightarrow> hex \<times> int \<Rightarrow> (hex list \<times> int \<times> ApRow list) result" where
  "apportionRow budget denominator st item =
     (case (st, item) of ((seen, tot, rows), (rawAccount, numerator)) \<Rightarrow>
       let account = canonicalAddress rawAccount in
       bindE (throwWhen (account \<in> set seen) (PlainError ''duplicate apportionment account'')) (\<lambda>_.
       let product = numerator * budget in
       bindE (bigDiv product denominator) (\<lambda>v.
       bindE (bigMod product denominator) (\<lambda>r.
       Inr (seen @ [account], tot + numerator,
         rows @ [\<lparr>apAccount = account, apValue = v, apRemainder = r\<rparr>])))))"

definition cmpRow :: "ApRow \<Rightarrow> ApRow \<Rightarrow> int" where
  "cmpRow a b =
     (let remainder = cmpBig (apRemainder b) (apRemainder a) in
      if remainder \<noteq> 0 then remainder else cmpHex (apAccount a) (apAccount b))"

text \<open>The loop that hands out the missing units, one per row.\<close>

fun handOut :: "int \<Rightarrow> ApRow list \<Rightarrow> int \<times> ApRow list" where
  "handOut missing [] = (missing, [])"
| "handOut missing (row # rows) =
     (if missing = 0 then (missing, row # rows)
      else let (left, rest) = handOut (missing - 1) rows in
        (left, row\<lparr>apValue := apValue row + 1\<rparr> # rest))"

definition apportion :: "(hex \<times> int) list \<Rightarrow> int \<Rightarrow> int \<Rightarrow> (hex, int) jmap result" where
  "apportion items budget denominator =
     bindE (throwWhen (length items = 0 \<or> denominator \<le> 0) (PlainError ''invalid apportionment'')) (\<lambda>_.
     bindE (foldE (apportionRow budget denominator) ([], 0, []) items) (\<lambda>(seen, tot, rows).
     bindE (throwWhen (tot \<noteq> denominator) (PlainError ''apportionment denominator mismatch'')) (\<lambda>_.
     let missing = budget - sumOf apValue rows;
         (left, paid) = handOut missing (sortBy cmpRow rows) in
     bindE (throwWhen (left \<noteq> 0) (PlainError ''invalid Hamilton remainder'')) (\<lambda>_.
     Inr (newMap (map (\<lambda>row. (apAccount row, apValue row))
       (sortBy (\<lambda>a b. cmpHex (apAccount a) (apAccount b)) paid)))))))"

section \<open>The prior and its manifest\<close>

definition checkParsed :: "(hex \<times> int) list \<Rightarrow> nat \<Rightarrow> unit result" where
  "checkParsed parsed i =
     bindE (throwWhen (fst (parsed ! i) = ZERO_ADDRESS) (PlainError ''zero prior account'')) (\<lambda>_.
     throwWhen (i > 0 \<and> fst (parsed ! (i - 1)) = fst (parsed ! i)) (PlainError ''duplicate prior account''))"

definition normalizedEntry :: "(hex, int) jmap \<Rightarrow> hex \<times> int \<Rightarrow> PriorEntry result" where
  "normalizedEntry apportioned row =
     bindE (need (jget apportioned (fst row))) (\<lambda>weight.
       if weight = 0 then Inl (PlainError ''positive prior normalized to zero'')
       else Inr \<lparr>peyAccount = fst row, peyWeight = weight\<rparr>)"

definition normalizePrior :: "RawPriorEntry list \<Rightarrow> PriorEntry list result" where
  "normalizePrior raw =
     bindE (throwWhen (length raw = 0 \<or> int (length raw) > MAX_PRIOR_ENTRIES)
       (PlainError ''invalid prior count'')) (\<lambda>_.
     bindE (mapE (\<lambda>entry. bindE (parseDecimal (rpWeight entry)) (\<lambda>w.
       Inr (canonicalAddress (rpAccount entry), w))) raw) (\<lambda>parsed0.
     let parsed = sortBy (\<lambda>a b. cmpHex (fst a) (fst b)) parsed0 in
     bindE (mapE (checkParsed parsed) [0..<length parsed]) (\<lambda>_.
     let tot = sumOf snd parsed in
     bindE (apportion parsed SCALE tot) (\<lambda>apportioned.
     mapE (normalizedEntry apportioned) parsed))))"

definition priorLeaf :: "viem \<Rightarrow> PriorEntry \<Rightarrow> hex result" where
  "priorLeaf V entry =
     bindE (concatE V [wordAddr V (peyAccount entry), wordU256 V (peyWeight entry)])
       (\<lambda>x. Inr (keccak256 V x))"

definition wpHashPair :: "viem \<Rightarrow> hex \<Rightarrow> hex \<Rightarrow> hex" where
  "wpHashPair V a b = keccak256 V (concatHex V (if cmpHex a b \<le> 0 then [a, b] else [b, a]))"

definition checkEntry :: "PriorEntry list \<Rightarrow> int \<Rightarrow> nat \<Rightarrow> int result" where
  "checkEntry entries tot i =
     (let entry = entries ! i in
      bindE (throwWhen (peyAccount entry = ZERO_ADDRESS \<or> peyWeight entry \<le> 0)
        (PlainError ''invalid prior entry'')) (\<lambda>_.
      bindE (throwWhen (i > 0 \<and> cmpHex (peyAccount (entries ! (i - 1))) (peyAccount entry) \<ge> 0)
        (PlainError ''prior not strictly address sorted'')) (\<lambda>_.
      Inr (tot + peyWeight entry))))"

definition validatePrior :: "PriorEntry list \<Rightarrow> unit result" where
  "validatePrior entries =
     bindE (throwWhen (length entries = 0 \<or> int (length entries) > MAX_PRIOR_ENTRIES)
       (PlainError ''invalid prior count'')) (\<lambda>_.
     bindE (foldE (checkEntry entries) 0 [0..<length entries]) (\<lambda>tot.
     throwWhen (tot \<noteq> SCALE) (PlainError ''prior sum is not 1e18'')))"

text \<open>One pass of the \<open>while\<close> loop: neighbours are hashed, a last odd node moves up.\<close>

fun nextLevel :: "viem \<Rightarrow> hex list \<Rightarrow> hex list" where
  "nextLevel V (a # b # xs) = wpHashPair V a b # nextLevel V xs"
| "nextLevel V xs = xs"

lemma nextLevel_length: "length (nextLevel V xs) = (length xs + 1) div 2"
  by (induction V xs rule: nextLevel.induct) auto

function levelRoot :: "viem \<Rightarrow> hex list \<Rightarrow> hex list" where
  "levelRoot V level = (if length level > 1 then levelRoot V (nextLevel V level) else level)"
  by auto
termination
  by (relation "measure (\<lambda>(V, level). length level)") (auto simp: nextLevel_length)

declare levelRoot.simps [simp del]

definition priorRoot :: "viem \<Rightarrow> PriorEntry list \<Rightarrow> hex result" where
  "priorRoot V entries =
     bindE (validatePrior entries) (\<lambda>_.
     bindE (mapE (priorLeaf V) entries) (\<lambda>leaves.
     Inr (levelRoot V leaves ! 0)))"

definition TGWP :: hex where
  "TGWP = ''0x54475750''"

definition canonicalManifest :: "viem \<Rightarrow> int \<Rightarrow> PriorEntry list \<Rightarrow> hex result" where
  "canonicalManifest V chain entries =
     bindE (validatePrior entries) (\<lambda>_.
     concatE V ([Inr TGWP, toHexSized V 1 2, toHexSized V chain 8,
         toHexSized V (int (length entries)) 4] @
       concat (map (\<lambda>entry. [Inr (peyAccount entry), toHexSized V (peyWeight entry) 8]) entries)))"

text \<open>\<open>bytes.slice(start, end)\<close> for offsets within bounds, and the integer read from it.\<close>

definition sliceBytes :: "nat \<Rightarrow> nat \<Rightarrow> bytes \<Rightarrow> bytes" where
  "sliceBytes start stop bs = take (stop - start) (drop start bs)"

definition readInt :: "viem \<Rightarrow> bytes \<Rightarrow> nat \<Rightarrow> nat \<Rightarrow> int" where
  "readInt V bs start stop = hexNumber (bytesToHex V (sliceBytes start stop bs))"

definition manifestEntry :: "viem \<Rightarrow> bytes \<Rightarrow> nat \<Rightarrow> PriorEntry" where
  "manifestEntry V bs i =
     (let start = 18 + i * 28 in
      \<lparr>peyAccount = bytesToHex V (sliceBytes start (start + 20) bs),
       peyWeight = readInt V bs (start + 20) (start + 28)\<rparr>)"

definition parseManifest :: "viem \<Rightarrow> hex \<Rightarrow> (int \<times> PriorEntry list) result" where
  "parseManifest V manifest =
     (let bs = hexToBytes V manifest in
      bindE (throwWhen (length bs < 18 \<or> bytesToHex V (sliceBytes 0 4 bs) \<noteq> TGWP)
        (PlainError ''invalid TGWP manifest header'')) (\<lambda>_.
      bindE (throwWhen (readInt V bs 4 6 \<noteq> 1) (PlainError ''unsupported TGWP version'')) (\<lambda>_.
      let chain = readInt V bs 6 14; count = readInt V bs 14 18 in
      bindE (throwWhen (count < 1 \<or> count > MAX_PRIOR_ENTRIES \<or> int (length bs) \<noteq> 18 + count * 28)
        (PlainError ''invalid TGWP count/length'')) (\<lambda>_.
      let entries = map (manifestEntry V bs) [0..<nat count] in
      bindE (validatePrior entries) (\<lambda>_. Inr (chain, entries))))))"

definition wpParamsEncoded :: "viem \<Rightarrow> WpParams \<Rightarrow> hex result" where
  "wpParamsEncoded V p = concatE V
     [wordU32 V (wpVersion p), wordU64 V (wpDampingFp p), wordU64 V (wpToleranceFp p),
      wordU32 V (wpMaxIterations p), wordU64 V (wpMinWeight p), wordU64 V (wpMaxWeight p),
      Inr (wpPriorRoot p), wordU32 V (wpPriorCount p), Inr (wpManifestSha256 p), Inr (wpSchemaUid p),
      wordU32 V (wpWeightFieldIndex p), wordAddr V (wpAccumulator p), wordU64 V (wpChainId p)]"

definition wpParamsHash :: "viem \<Rightarrow> WpParams \<Rightarrow> hex result" where
  "wpParamsHash V p = bindE (wpParamsEncoded V p) (\<lambda>x. Inr (keccak256 V x))"

section \<open>The graph\<close>

definition clampWeight :: "WpParams \<Rightarrow> int \<Rightarrow> int" where
  "clampWeight p decoded =
     (if decoded > wpMaxWeight p then wpMaxWeight p
      else if decoded < wpMinWeight p then wpMinWeight p else decoded)"

definition wpApplyEvent :: "viem \<Rightarrow> WpParams \<Rightarrow> current \<Rightarrow> RawEdge \<Rightarrow> current" where
  "wpApplyEvent V p cur e =
     (let source = canonicalAddress (eAttester e); target = canonicalAddress (eRecipient e) in
      if eKind e = 0 then
        (let row = orDefault (jget cur source) [];
             decoded = orDefault (decodeWeight V (eData e) (wpWeightFieldIndex p)) 0 in
         jset source (jset target \<lparr>ceUid = toLowerCase (eUid e), ceWeight = clampWeight p decoded\<rparr> row) cur)
      else if eKind e = 1 then
        (case jget cur source of
           None \<Rightarrow> cur
         | Some row \<Rightarrow>
             (case jget row target of
                None \<Rightarrow> cur
              | Some edge \<Rightarrow>
                  if ceUid edge = toLowerCase (eUid e) then
                    (let left = jdelete target row in
                     if length left = 0 then jdelete source cur else jset source left cur)
                  else cur))
      else cur)"

definition wpBuildGraph :: "viem \<Rightarrow> RawEdge list \<Rightarrow> WpParams \<Rightarrow> Graph" where
  "wpBuildGraph V es p = graphOf (foldl (wpApplyEvent V p) [] (orderedEvents es))"

section \<open>The ranker\<close>

definition addTo :: "(hex, int) jmap \<Rightarrow> hex \<times> int \<Rightarrow> (hex, int) jmap" where
  "addTo m kv = jset (fst kv) (orDefault (jget m (fst kv)) 0 + snd kv) m"

definition transitionOf :: "Graph \<Rightarrow> hex \<Rightarrow> (hex \<times> int) list" where
  "transitionOf g source =
     filter (\<lambda>(target, weight). target \<noteq> source \<and> weight > 0) (orDefault (jget (gOutgoing g) source) [])"

definition flowFrom :: "Graph \<Rightarrow> (hex, int) jmap \<times> int \<Rightarrow> hex \<times> int \<Rightarrow> ((hex, int) jmap \<times> int) result" where
  "flowFrom g st sb =
     (case (st, sb) of ((nxt, dangling), (source, budget)) \<Rightarrow>
       let transition = transitionOf g source in
       if length transition = 0 then Inr (nxt, dangling + budget)
       else bindE (apportion transition budget (sumOf snd transition)) (\<lambda>parts.
         Inr (foldl addTo nxt parts, dangling)))"

definition wpDelta :: "(hex, int) jmap \<Rightarrow> (hex, int) jmap \<Rightarrow> int \<Rightarrow> hex \<Rightarrow> int result" where
  "wpDelta cur nxt maxD node =
     bindE (need (jget cur node)) (\<lambda>previous.
     bindE (need (jget nxt node)) (\<lambda>following.
     let delta = (if previous > following then previous - following else following - previous) in
     Inr (if delta > maxD then delta else maxD)))"

text \<open>One iteration: the next scores and the largest change.\<close>

definition wpIterate ::
  "Graph \<Rightarrow> PriorEntry list \<Rightarrow> WpParams \<Rightarrow> hex list \<Rightarrow> (hex, int) jmap \<Rightarrow> ((hex, int) jmap \<times> int) result" where
  "wpIterate g prior p nodes cur =
     bindE (mapE (\<lambda>node. bindE (need (jget cur node)) (\<lambda>v. Inr (node, v))) nodes) (\<lambda>items.
     bindE (apportion items (wpDampingFp p) SCALE) (\<lambda>sourceBudgets.
     bindE (foldE (flowFrom g) (newMap (map (\<lambda>node. (node, 0)) nodes), 0) sourceBudgets) (\<lambda>(flowed, dangling).
     let priorBudget = SCALE - wpDampingFp p + dangling in
     bindE (apportion (map (\<lambda>e. (peyAccount e, peyWeight e)) prior) priorBudget SCALE) (\<lambda>parts.
     let nxt = foldl addTo flowed parts in
     bindE (throwWhen (sumOf snd nxt \<noteq> SCALE) (PlainError ''rank iteration did not conserve mass'')) (\<lambda>_.
     bindE (foldE (wpDelta cur nxt) 0 nodes) (\<lambda>maxD. Inr (nxt, maxD)))))))"

text \<open>The \<open>for\<close> loop; the second argument counts the iterations left.\<close>

fun wpLoop ::
  "Graph \<Rightarrow> PriorEntry list \<Rightarrow> WpParams \<Rightarrow> hex list \<Rightarrow> nat \<Rightarrow> int \<Rightarrow> (hex, int) jmap \<Rightarrow> ((hex, int) jmap \<times> int) result" where
  "wpLoop g prior p nodes 0 iteration cur = Inr (cur, wpMaxIterations p)"
| "wpLoop g prior p nodes (Suc left) iteration cur =
     bindE (wpIterate g prior p nodes cur) (\<lambda>(nxt, maxD).
     if maxD < wpToleranceFp p then Inr (nxt, iteration)
     else wpLoop g prior p nodes left (iteration + 1) nxt)"

definition priorMapOf :: "PriorEntry list \<Rightarrow> (hex, int) jmap" where
  "priorMapOf prior = newMap (map (\<lambda>e. (peyAccount e, peyWeight e)) prior)"

definition wpNodes :: "Graph \<Rightarrow> PriorEntry list \<Rightarrow> hex list" where
  "wpNodes g prior = sortBy cmpHex (newSet (jkeys (priorMapOf prior) @ gNodes g))"

definition wpRank :: "Graph \<Rightarrow> PriorEntry list \<Rightarrow> WpParams \<Rightarrow> ((hex, int) jmap \<times> int) result" where
  "wpRank g prior p =
     (let priorMap = priorMapOf prior; nodes = wpNodes g prior;
          cur = newMap (map (\<lambda>node. (node, orDefault (jget priorMap node) 0)) nodes) in
      wpLoop g prior p nodes (nat (wpMaxIterations p)) 1 cur)"

definition wpCompute :: "viem \<Rightarrow> WpInput \<Rightarrow> WpResult result" where
  "wpCompute V input =
     bindE (parseManifest V (wiManifest input)) (\<lambda>(chain, entries).
     bindE (throwWhen (chain \<noteq> wpChainId (wiParams input)) (PlainError ''manifest chain mismatch'')) (\<lambda>_.
     bindE (throwWhen (int (length entries) \<noteq> wpPriorCount (wiParams input))
       (PlainError ''manifest count mismatch'')) (\<lambda>_.
     bindE (priorRoot V entries) (\<lambda>root.
     bindE (throwWhen (root \<noteq> wpPriorRoot (wiParams input)) (PlainError ''prior root mismatch'')) (\<lambda>_.
     bindE (throwWhen (sha256Hex V (wiManifest input) \<noteq> wpManifestSha256 (wiParams input))
       (PlainError ''manifest digest mismatch'')) (\<lambda>_.
     bindE (accumulate V (wiEdges input)) (\<lambda>(acc, leafCount).
     bindE (wpRank (wpBuildGraph V (wiEdges input) (wiParams input)) entries (wiParams input)) (\<lambda>(ranked, iterations).
     let scores = sortBy (\<lambda>a b. cmpHex (fst a) (fst b)) (filter (\<lambda>(_, v). v > 0) ranked) in
     bindE (mapE (\<lambda>(a, v). outputLeaf V a v) scores) (\<lambda>leaves.
     bindE (merkleRoot V leaves) (\<lambda>outputRoot.
     let blob = canonicalBlob scores;
         digest = sha256Utf8 V blob;
         ipfsHash = digestToHex V digest in
     bindE (cidV1Raw digest) (\<lambda>cid.
     bindE (wpParamsHash V (wiParams input)) (\<lambda>pHash.
     let journal = \<lparr>jAcc = acc, jLeafCount = leafCount, jAnchorAcc = ZERO_HASH, jAnchorCount = 0,
           jParamsHash = pHash, jOutputRoot = outputRoot, jIpfsHash = ipfsHash,
           jCidDigest = keccak256Bytes V (stringToBytes V cid), jTotalValue = SCALE,
           jSkippedDigest = ZERO_HASH,
           jRecipient = (case wiBinding input of Some b \<Rightarrow> bRecipient b | None \<Rightarrow> ZERO_ADDRESS),
           jInstanceDomain = (case wiBinding input of Some b \<Rightarrow> bInstanceDomain b | None \<Rightarrow> ZERO_HASH)\<rparr> in
     bindE (journalEncoded V journal) (\<lambda>_.
     Inr \<lparr>wrJournal = journal, wrScores = scores, wrBlob = blob, wrCid = cid,
          wrIterations = iterations\<rparr>)))))))))))))"

section \<open>Handing out the missing units\<close>

lemma sortBy_map: "sortBy c (map f xs) = map f (sortBy (\<lambda>a b. c (f a) (f b)) xs)"
proof -
  have "insertBy c (f x) (map f ys) = map f (insertBy (\<lambda>a b. c (f a) (f b)) x ys)" for x ys
    by (induction ys) auto
  then show ?thesis by (induction xs) auto
qed

lemma handOut_take:
  "m \<le> length rows \<Longrightarrow> handOut (int m) rows =
   (0, map (\<lambda>row. row\<lparr>apValue := apValue row + 1\<rparr>) (take m rows) @ drop m rows)"
proof (induction rows arbitrary: m)
  case (Cons row rows)
  then show ?case by (cases m) (auto simp: Let_def)
qed simp

definition apRowOf :: "int \<Rightarrow> int \<Rightarrow> hex \<times> int \<Rightarrow> ApRow" where
  "apRowOf budget D r =
     \<lparr>apAccount = fst r, apValue = quota budget D r, apRemainder = quotaRest budget D r\<rparr>"

lemma apportionRow_loop:
  assumes "\<forall>r \<in> set xs. canonical (fst r) \<and> 0 \<le> snd r" and "distinct (seen @ map fst xs)"
    and "0 < D" and "0 \<le> budget"
  shows "foldE (apportionRow budget D) (seen, tot, rows) xs =
    Inr (seen @ map fst xs, tot + sumOf snd xs, rows @ map (apRowOf budget D) xs)"
  using assms
proof (induction xs arbitrary: seen tot rows)
  case (Cons x xs)
  obtain k n where x: "x = (k, n)" by (cases x)
  from Cons.prems x have k: "canonical k" "0 \<le> n" "k \<notin> set seen" by auto
  then have step: "apportionRow budget D (seen, tot, rows) x =
      Inr (seen @ [k], tot + n, rows @ [apRowOf budget D x])"
    using Cons.prems(3,4) x
    by (simp add: apportionRow_def Let_def canonicalAddress_def canonicalD apRowOf_def quota_def quotaRest_def)
  have "foldE (apportionRow budget D) (seen @ [k], tot + n, rows @ [apRowOf budget D x]) xs =
      Inr ((seen @ [k]) @ map fst xs, tot + n + sumOf snd xs,
        (rows @ [apRowOf budget D x]) @ map (apRowOf budget D) xs)"
    by (rule Cons.IH) (use Cons.prems x in auto)
  with step x show ?case by simp
qed simp

interpretation aprow: keyed_comparator cmpRow "\<lambda>a. (- apRemainder a, toLowerCase (apAccount a))"
  by unfold_locales (auto simp: cmpRow_def Let_def cmpBig_cmpLin cmpHex_cmpLin cmpLin_def less_eq_prod_def)

abbreviation byAccount :: "(hex \<times> int) list \<Rightarrow> (hex \<times> int) list" where
  "byAccount \<equiv> sortBy (\<lambda>a b. cmpHex (fst a) (fst b))"

lemma byAccount_perm:
  assumes "mset xs = mset ys" and "\<forall>r \<in> set ys. canonical (fst r)" and "distinct (map fst ys)"
  shows "byAccount xs = byAccount ys"
proof (rule hexfst.sortBy_unique)
  have "\<forall>r \<in> set ys. toLowerCase (fst r) = fst r" using assms(2) by (simp add: canonicalD)
  then show "inj_on (\<lambda>r. toLowerCase (fst r)) (set ys)"
    using assms(3) by (auto simp: distinct_map inj_on_def)
qed (rule assms(1))

lemma apportion_shares:
  assumes ok: "okClaims budget items"
  shows "apportion items budget (claimTotal items) =
    Inr (map (\<lambda>r. (fst r, share budget items r)) (byAccount items))"
proof -
  let ?D = "claimTotal items" and ?m = "nat (leftOver budget items)"
  let ?row = "apRowOf budget ?D"
  let ?ord = "sortBy (\<lambda>a b. cmpRow (?row a) (?row b)) items"
  let ?inc = "\<lambda>row. row\<lparr>apValue := apValue row + 1\<rparr>"
  have can: "\<forall>r \<in> set items. canonical (fst r) \<and> 0 \<le> snd r" and d: "distinct (map fst items)"
    and pool: "0 \<le> budget" using ok by (auto simp: okClaims_def)
  have D: "0 < ?D" by (rule claimTotal_pos [OF ok])
  have loop: "foldE (apportionRow budget ?D) ([], 0, []) items = Inr (map fst items, ?D, map ?row items)"
    using apportionRow_loop [of items "[]" ?D budget 0 "[]"] can d D pool by (simp add: claimTotal_def)
  have missing: "budget - sumOf apValue (map ?row items) = int ?m"
    using leftOver_bounds(1) [OF ok] by (simp add: comp_def apRowOf_def leftOver_def)
  have len: "?m \<le> length ?ord" using leftOver_bounds [OF ok] by simp
  have "sorted (map (\<lambda>a. (- apRemainder a, toLowerCase (apAccount a))) (sortBy cmpRow (map ?row items)))"
    by (rule aprow.sortBy_sorted)
  moreover have "map (\<lambda>a. (- apRemainder a, toLowerCase (apAccount a))) (sortBy cmpRow (map ?row items)) =
      map (restKey budget ?D) ?ord"
    using can by (simp add: sortBy_map restKey_def apRowOf_def canonicalD)
  ultimately have srt: "sorted (map (restKey budget ?D) ?ord)" by simp
  have same: "mset ?ord = mset items" by simp
  have dord: "distinct ?ord" using d by (simp add: distinct_map)
  have paid: "handOut (int ?m) (sortBy cmpRow (map ?row items)) =
      (0, map (\<lambda>r. (?row r)\<lparr>apValue := share budget items r\<rparr>) ?ord)"
  proof -
    have in_take: "r \<notin> set (take ?m ?ord)" if "r \<in> set (drop ?m ?ord)" for r
      using that dord by (metis disjoint_iff set_take_disj_set_drop_if_distinct order_refl)
    have a: "map (\<lambda>r. (?row r)\<lparr>apValue := share budget items r\<rparr>) (take ?m ?ord) = map (?inc \<circ> ?row) (take ?m ?ord)"
      by (intro map_cong refl)
        (use share_take [OF ok same srt] set_take_subset [of ?m ?ord] in \<open>fastforce simp: apRowOf_def\<close>)
    have b: "map (\<lambda>r. (?row r)\<lparr>apValue := share budget items r\<rparr>) (drop ?m ?ord) = map ?row (drop ?m ?ord)"
      by (intro map_cong refl)
        (use share_take [OF ok same srt] set_drop_subset [of ?m ?ord] in_take in \<open>fastforce simp: apRowOf_def\<close>)
    have "handOut (int ?m) (sortBy cmpRow (map ?row items)) =
        (0, map ?inc (take ?m (map ?row ?ord)) @ drop ?m (map ?row ?ord))"
      unfolding sortBy_map by (rule handOut_take) (use len in simp)
    also have "map ?inc (take ?m (map ?row ?ord)) @ drop ?m (map ?row ?ord) =
        map (\<lambda>r. (?row r)\<lparr>apValue := share budget items r\<rparr>) (take ?m ?ord @ drop ?m ?ord)"
      unfolding map_append a b by (simp add: take_map drop_map)
    finally show ?thesis by (simp only: append_take_drop_id)
  qed
  have "sortBy (\<lambda>a b. cmpHex (apAccount a) (apAccount b))
      (map (\<lambda>r. (?row r)\<lparr>apValue := share budget items r\<rparr>) ?ord) =
      map (\<lambda>r. (?row r)\<lparr>apValue := share budget items r\<rparr>) (byAccount items)"
    unfolding sortBy_map using byAccount_perm [OF same] can d by (simp add: apRowOf_def)
  moreover have "newMap (map (\<lambda>r. (fst r, share budget items r)) (byAccount items)) =
      map (\<lambda>r. (fst r, share budget items r)) (byAccount items)"
    by (rule newMap_distinct) (use d in \<open>simp add: comp_def\<close>)
  ultimately show ?thesis
    using okClaims_nonempty [OF ok] D loop paid missing
    by (simp add: apportion_def comp_def apRowOf_def del: of_nat_nat)
qed
end
