(* ===== verification/WeightedPriors.thy ===== *)
theory WeightedPriors
  imports WeightedPrior
begin

text \<open>
  What validation of a prior accepts, and that normalization of raw decimal weights yields it.
\<close>

section \<open>Shares and exact proportions\<close>

text \<open>A claim whose proportion is a whole number never gets a left-over unit.\<close>

lemma share_whole:
  assumes ok: "okClaims pool rows" and z: "quotaRest pool (claimTotal rows) r = 0"
  shows "share pool rows r = quota pool (claimTotal rows) r"
proof -
  let ?D = "claimTotal rows" and ?pos = "\<lambda>x. 0 < quotaRest pool (claimTotal rows) x"
  have D: "0 < ?D" using ok by (rule claimTotal_pos)
  have rest: "0 \<le> quotaRest pool ?D x" "quotaRest pool ?D x < ?D" for x
    using D by (simp_all add: quotaRest_def)
  have "leftOver pool rows * ?D = sumOf (quotaRest pool ?D) rows" by (rule leftOver_rests [OF ok])
  also have "\<dots> \<le> sumOf (\<lambda>x. if ?pos x then ?D else 0) rows"
    by (intro sumOf_mono) (use rest in \<open>auto simp: less_imp_le not_less intro: order.antisym\<close>)
  also have "\<dots> = ?D * int (length (filter ?pos rows))" by (rule sumOf_if)
  finally have "leftOver pool rows \<le> int (length (filter ?pos rows))" using D by (simp add: mult.commute)
  also have "\<dots> \<le> int (rowsAhead pool rows r)"
    unfolding rowsAhead_def of_nat_le_iff using z
    by (intro length_filter_mono) (simp add: restKey_def less_prod_def)
  finally show ?thesis by (simp add: share_def)
qed

text \<open>A claim of zero gets nothing.\<close>

lemma share_zero: "okClaims pool rows \<Longrightarrow> snd r = 0 \<Longrightarrow> share pool rows r = 0"
  by (subst share_whole) (simp_all add: quotaRest_def quota_def)

text \<open>A share differs from the exact proportion by less than one unit.\<close>

lemma share_delta:
  assumes ok: "okClaims pool rows"
  shows "- claimTotal rows < share pool rows r * claimTotal rows - snd r * pool"
    and "share pool rows r * claimTotal rows - snd r * pool < claimTotal rows"
proof -
  let ?D = "claimTotal rows" and ?q = "quota pool (claimTotal rows) r" and ?t = "quotaRest pool (claimTotal rows) r"
  have D: "0 < ?D" using ok by (rule claimTotal_pos)
  have t: "0 \<le> ?t" "?t < ?D" using D by (simp_all add: quotaRest_def)
  have s: "snd r * pool = ?q * ?D + ?t" using quota_split [of ?D pool r] by (simp add: mult.commute)
  have "share pool rows r * ?D - snd r * pool = (if share pool rows r = ?q then - ?t else ?D - ?t)"
    unfolding s using share_quota [of pool rows r] by (auto simp: share_def algebra_simps)
  with t D share_whole [OF ok, of r]
  show "- ?D < share pool rows r * ?D - snd r * pool" "share pool rows r * ?D - snd r * pool < ?D"
    by (auto simp: order.strict_iff_order split: if_splits)
qed

lemma okClaims_total: "okClaims pool rows \<Longrightarrow> 0 \<le> pool" by (simp add: okClaims_def)

lemma share_ok_nonneg:
  assumes "okClaims pool rows" and "r \<in> set rows"
  shows "0 \<le> share pool rows r"
proof -
  have "0 \<le> quota pool (claimTotal rows) r"
    using assms claimTotal_pos [OF assms(1)] by (auto simp: quota_def okClaims_def pos_imp_zdiv_nonneg_iff)
  with share_quota(1) [of pool rows r] show ?thesis by linarith
qed

lemma share_no_pool: "share 0 rows r = 0"
  by (simp add: share_def leftOver_def quota_def sumOf_zero)

text \<open>With a pool equal to the total every claim is paid exactly.\<close>

lemma share_exact:
  assumes "okClaims (claimTotal rows) rows"
  shows "share (claimTotal rows) rows r = snd r"
proof -
  let ?D = "claimTotal rows"
  have D: "0 < ?D" using assms by (rule claimTotal_pos)
  then have "quota ?D ?D = snd" by (simp add: quota_def fun_eq_iff)
  then show ?thesis by (simp add: share_def leftOver_def flip: claimTotal_def)
qed

section \<open>What the apportionment returns\<close>

lemma apportion_facts:
  assumes ok: "okClaims budget items"
  obtains res where "apportion items budget (claimTotal items) = Inr res"
    and "sorted_wrt (<) (jkeys res)" and "set (jkeys res) = fst ` set items"
    and "sumOf snd res = budget" and "\<forall>e \<in> set res. 0 \<le> snd e"
    and "\<And>r. r \<in> set items \<Longrightarrow> amountOf res (fst r) = share budget items r"
proof
  let ?s = "byAccount items"
  let ?res = "map (\<lambda>r. (fst r, share budget items r)) ?s"
  show "apportion items budget (claimTotal items) = Inr ?res" by (rule apportion_shares [OF ok])
  have d: "distinct (map fst items)" and can: "\<forall>r \<in> set items. canonical (fst r)"
    using ok by (auto simp: okClaims_def)
  show "sorted_wrt (<) (jkeys ?res)" using strict_keys [OF can d] by (simp add: comp_def)
  show "set (jkeys ?res) = fst ` set items" by (simp add: image_image)
  have "sumOf snd ?res = sumOf (share budget items) ?s" by (simp add: comp_def)
  then show "sumOf snd ?res = budget" using share_sum [OF ok] by simp
  show "\<forall>e \<in> set ?res. 0 \<le> snd e" using share_ok_nonneg [OF ok] by auto
  fix r assume "r \<in> set items"
  then have "(fst r, share budget items r) \<in> set ?res" by auto
  moreover have "distinct (jkeys ?res)" using d by (simp add: comp_def)
  ultimately show "amountOf ?res (fst r) = share budget items r" by (rule amountOf_entry [rotated])
qed

lemma apportion_interface:
  assumes fair: "fairClaims pool rows"
  shows "\<exists>res. apportion rows pool (claimTotal rows) = Inr res \<and> sorted_wrt (<) (jkeys res) \<and>
    set (jkeys res) \<subseteq> fst ` set rows \<and> (\<forall>r \<in> set rows. amountOf res (fst r) = share pool rows r)"
  by (rule apportion_facts [OF fair_ok [OF fair]]) auto

interpretation wpap: apportionment "\<lambda>pool rows. apportion rows pool (claimTotal rows)"
  by unfold_locales (rule apportion_interface)

section \<open>Priors\<close>

text \<open>What \<open>validatePrior\<close> accepts.\<close>

definition validPrior :: "PriorEntry list \<Rightarrow> bool" where
  "validPrior entries \<longleftrightarrow> entries \<noteq> [] \<and> int (length entries) \<le> MAX_PRIOR_ENTRIES \<and>
     (\<forall>e \<in> set entries. peyAccount e \<noteq> ZERO_ADDRESS \<and> 0 < peyWeight e) \<and>
     sorted_wrt (<) (map (\<lambda>e. toLowerCase (peyAccount e)) entries) \<and> sumOf peyWeight entries = SCALE"

lemma foldE_checked:
  assumes "\<And>s x. f s x = (if ok x then Inr (s + w x) else Inl (err x))"
  shows "foldE f s xs = Inr t \<longleftrightarrow> (\<forall>x \<in> set xs. ok x) \<and> t = (s :: int) + sumOf w xs"
  by (induction xs arbitrary: s) (auto simp: assms algebra_simps)

lemma strict_adjacent:
  fixes xs :: "'a::linorder list"
  shows "sorted_wrt (<) xs \<longleftrightarrow> (\<forall>i < length xs. 0 < i \<longrightarrow> xs ! (i - 1) < xs ! i)"
proof
  assume "sorted_wrt (<) xs"
  then show "\<forall>i < length xs. 0 < i \<longrightarrow> xs ! (i - 1) < xs ! i"
    by (auto intro: sorted_wrt_nth_less)
next
  assume a: "\<forall>i < length xs. 0 < i \<longrightarrow> xs ! (i - 1) < xs ! i"
  have "xs ! i < xs ! Suc i" if "Suc i < length xs" for i using a [rule_format, of "Suc i"] that by simp
  then show "sorted_wrt (<) xs" by (metis sorted_wrt_iff_nth_Suc_transp transp_on_less)
qed

lemma validatePrior_iff: "validatePrior entries = Inr u \<longleftrightarrow> validPrior entries"
proof -
  let ?key = "\<lambda>i. toLowerCase (peyAccount (entries ! i))"
  let ?ok = "\<lambda>i. peyAccount (entries ! i) \<noteq> ZERO_ADDRESS \<and> 0 < peyWeight (entries ! i) \<and> (0 < i \<longrightarrow> ?key (i - 1) < ?key i)"
  let ?err = "\<lambda>i. if peyAccount (entries ! i) = ZERO_ADDRESS \<or> peyWeight (entries ! i) \<le> 0
    then PlainError ''invalid prior entry'' else PlainError ''prior not strictly address sorted''"
  have "checkEntry entries s i = (if ?ok i then Inr (s + peyWeight (entries ! i)) else Inl (?err i))" for s i
    by (auto simp: checkEntry_def Let_def throwWhen_def cmpHex_cmpLin not_less not_le)
  note fold = foldE_checked [of "checkEntry entries" ?ok "\<lambda>i. peyWeight (entries ! i)" ?err, OF this]
  have sums: "sumOf (\<lambda>i. peyWeight (entries ! i)) [0..<length entries] = sumOf peyWeight entries"
    by (metis (no_types, lifting) map_nth map_map comp_apply map_cong)
  have strict: "sorted_wrt (<) (map (\<lambda>e. toLowerCase (peyAccount e)) entries) \<longleftrightarrow>
      (\<forall>i < length entries. 0 < i \<longrightarrow> ?key (i - 1) < ?key i)"
    unfolding strict_adjacent by simp
  have "(\<forall>i \<in> set [0..<length entries]. ?ok i) \<longleftrightarrow>
      (\<forall>e \<in> set entries. peyAccount e \<noteq> ZERO_ADDRESS \<and> 0 < peyWeight e) \<and>
      sorted_wrt (<) (map (\<lambda>e. toLowerCase (peyAccount e)) entries)"
    unfolding strict by (auto simp: all_set_conv_all_nth)
  then show ?thesis
    by (auto simp: validatePrior_def validPrior_def result_simps fold sums not_less)
qed

text \<open>The prior as claims on a budget.\<close>

definition priorClaims :: "PriorEntry list \<Rightarrow> claims" where
  "priorClaims prior = map (\<lambda>e. (peyAccount e, peyWeight e)) prior"

lemma SCALE_pos [simp]: "0 < SCALE" by (simp add: SCALE_def)

lemma priorClaims_ok:
  assumes v: "validPrior prior" and can: "\<forall>e \<in> set prior. canonical (peyAccount e)" and "0 \<le> budget"
  shows "okClaims budget (priorClaims prior)" and "claimTotal (priorClaims prior) = SCALE"
proof -
  show tot: "claimTotal (priorClaims prior) = SCALE"
    using v by (simp add: claimTotal_def priorClaims_def validPrior_def comp_def)
  have "map (\<lambda>e. toLowerCase (peyAccount e)) prior = map peyAccount prior"
    using can by (simp add: canonicalD)
  then have "distinct (map peyAccount prior)"
    using v by (metis strict_sorted_iff validPrior_def)
  with v can assms(3) tot show "okClaims budget (priorClaims prior)"
    by (auto simp: okClaims_def priorClaims_def validPrior_def comp_def less_imp_le)
qed

section \<open>Normalization of the raw weights\<close>

lemma parseDecimal_pos: "parseDecimal s = Inr w \<Longrightarrow> 0 < w"
  by (auto simp: parseDecimal_def Let_def split: if_splits) (simp add: SCALE_def)

lemma checkParsed_all:
  assumes "mapE (checkParsed parsed) [0..<length parsed] = Inr us" and "sorted (map fst parsed)"
  shows "distinct (map fst parsed)" and "\<forall>r \<in> set parsed. fst r \<noteq> ZERO_ADDRESS"
proof -
  have ok: "fst (parsed ! i) \<noteq> ZERO_ADDRESS \<and> (0 < i \<longrightarrow> fst (parsed ! (i - 1)) \<noteq> fst (parsed ! i))"
    if "i < length parsed" for i
  proof -
    from that have "i \<in> set [0..<length parsed]" by simp
    from mapE_all_ok [OF assms(1) this] obtain u where "checkParsed parsed i = Inr u" by blast
    then show ?thesis by (auto simp: checkParsed_def)
  qed
  then show "\<forall>r \<in> set parsed. fst r \<noteq> ZERO_ADDRESS" by (metis in_set_conv_nth)
  have "sorted_wrt (<) (map fst parsed)" unfolding strict_adjacent
  proof (intro allI impI)
    fix i assume i: "i < length (map fst parsed)" "0 < i"
    have "map fst parsed ! (i - 1) \<le> map fst parsed ! i" by (rule sorted_nth_mono [OF assms(2)]) (use i in auto)
    with ok [of i] i show "map fst parsed ! (i - 1) < map fst parsed ! i" by auto
  qed
  then show "distinct (map fst parsed)" by (simp add: strict_sorted_iff)
qed

lemma normalizedEntry_Inr:
  "normalizedEntry res r = Inr e \<Longrightarrow>
   peyAccount e = fst r \<and> peyWeight e = amountOf res (fst r) \<and> peyWeight e \<noteq> 0"
  by (auto simp: normalizedEntry_def need_def amountOf_def orDefault_def split: option.splits if_splits)

lemma normalizePrior_valid:
  assumes "normalizePrior raw = Inr entries"
  shows "validPrior entries" and "\<forall>e \<in> set entries. canonical (peyAccount e)"
    and "length entries = length raw"
proof -
  let ?p = "\<lambda>entry. bindE (parseDecimal (rpWeight entry)) (\<lambda>w. Inr (canonicalAddress (rpAccount entry), w))"
  from assms obtain parsed0 us res where
    cnt: "raw \<noteq> []" "int (length raw) \<le> MAX_PRIOR_ENTRIES" and p0: "mapE ?p raw = Inr parsed0"
    and us: "mapE (checkParsed (byAccount parsed0)) [0..<length (byAccount parsed0)] = Inr us"
    and res: "apportion (byAccount parsed0) SCALE (sumOf snd (byAccount parsed0)) = Inr res"
    and out: "mapE (normalizedEntry res) (byAccount parsed0) = Inr entries"
    unfolding normalizePrior_def Let_def by (elim bindE_InrE) (auto simp: not_less)
  let ?s = "byAccount parsed0"
  have each: "canonical (fst r) \<and> 0 < snd r" if "r \<in> set parsed0" for r
    by (rule mapE_setE [OF p0 that]) (auto simp: canonicalAddress_def dest: parseDecimal_pos)
  then have can: "\<forall>r \<in> set ?s. canonical (fst r) \<and> 0 < snd r" by simp
  have len: "length parsed0 = length raw" by (rule mapE_length [OF p0])
  have "map (\<lambda>r. toLowerCase (fst r)) ?s = map fst ?s" using can by (simp add: canonicalD)
  then have srt: "sorted (map fst ?s)" using hexfst.sortBy_sorted [of parsed0] by (simp only:)
  note chk = checkParsed_all [OF us srt]
  have tot: "sumOf snd ?s = claimTotal ?s" by (simp add: claimTotal_def)
  have pos: "0 < claimTotal ?s"
    unfolding claimTotal_def using cnt len can by (intro sumOf_pos) auto
  have ok: "okClaims SCALE ?s"
    using chk(1) can pos by (auto simp: okClaims_def SCALE_def less_imp_le)
  from apportion_facts [OF ok] res obtain
    sumr: "sumOf snd res = SCALE" and nn: "\<forall>e \<in> set res. 0 \<le> snd e"
    and am: "\<And>r. r \<in> set ?s \<Longrightarrow> amountOf res (fst r) = share SCALE ?s r"
    by (metis (no_types, lifting) sum.inject(2) tot)
  have ent: "peyAccount e = fst r \<and> peyWeight e = share SCALE ?s r \<and> peyWeight e \<noteq> 0"
    if "r \<in> set ?s" "normalizedEntry res r = Inr e" for r e
    using normalizedEntry_Inr [OF that(2)] am [OF that(1)] by simp
  have l2: "list_all2 (\<lambda>r e. peyAccount e = fst r \<and> peyWeight e = share SCALE ?s r \<and> peyWeight e \<noteq> 0) ?s entries"
    unfolding list_all2_conv_all_nth
    using mapE_length [OF out] mapE_nth [OF out] ent by (metis nth_mem)
  show "length entries = length raw" using list_all2_lengthD [OF l2] len by simp
  have accts: "map peyAccount entries = map fst ?s"
    using l2 by (auto simp: list_all2_conv_all_nth intro!: nth_equalityI)
  have wts: "map peyWeight entries = map (share SCALE ?s) ?s"
    using l2 by (auto simp: list_all2_conv_all_nth intro!: nth_equalityI)
  show canE: "\<forall>e \<in> set entries. canonical (peyAccount e)"
    using can accts by (metis (no_types, lifting) imageE imageI list.set_map)
  have pe: "peyAccount e \<noteq> ZERO_ADDRESS \<and> 0 < peyWeight e" if "e \<in> set entries" for e
  proof -
    from that obtain i where i: "i < length entries" "entries ! i = e" by (metis in_set_conv_nth)
    with l2 have r: "?s ! i \<in> set ?s" "peyAccount e = fst (?s ! i)" "peyWeight e = share SCALE ?s (?s ! i)" "peyWeight e \<noteq> 0"
      by (auto simp: list_all2_conv_all_nth simp del: set_sortBy)
    with chk(2) share_ok_nonneg [OF ok r(1)] show ?thesis by fastforce
  qed
  have "sorted_wrt (<) (map (\<lambda>e. toLowerCase (peyAccount e)) entries)"
  proof -
    have "map (\<lambda>e. toLowerCase (peyAccount e)) entries = map peyAccount entries" using canE by (simp add: canonicalD)
    then show ?thesis using srt chk(1) accts by (simp add: strict_sorted_iff)
  qed
  moreover have "sumOf peyWeight entries = SCALE" unfolding wts by (rule share_sum [OF ok])
  ultimately show "validPrior entries"
    using pe cnt \<open>length entries = length raw\<close> by (auto simp: validPrior_def)
qed

end
