(* ===== verification/WeightedRank.thy ===== *)
theory WeightedRank
  imports WeightedPriors
begin

text \<open>
  The ranker of \<open>lib/weighted-prior/core.ts\<close>: every iteration conserves the unit of standing and moves it
  only from the prior along positive edges.
\<close>

section \<open>Adding contributions to scores\<close>

lemma addTo_keys: "fst kv \<in> set (jkeys m) \<Longrightarrow> jkeys (addTo m kv) = jkeys m"
  by (simp add: addTo_def keys_update del: set_map)

lemma amountOf_addTo: "amountOf (addTo m kv) k = amountOf m k + (if k = fst kv then snd kv else 0)"
  by (auto simp: addTo_def amountOf_def jget_jset orDefault_def)

lemma sum_addTo: "fst kv \<in> set (jkeys m) \<Longrightarrow> sumOf snd (addTo m kv) = sumOf snd m + snd kv"
  using jget_key [of "fst kv" m] sum_jset [of m "fst kv"] by (auto simp: addTo_def orDefault_def)

lemma sum_addTo_any: "sumOf snd (addTo m kv) = sumOf snd m + snd kv"
proof (cases "fst kv \<in> set (jkeys m)")
  case True
  then show ?thesis by (rule sum_addTo)
next
  case False
  then have "jget m (fst kv) = None" by (simp add: map_of_eq_None_iff)
  with jset_fresh [OF False] show ?thesis by (simp add: addTo_def orDefault_def)
qed

text \<open>Scores over given accounts, none of them negative.\<close>

definition scoresOver :: "hex list \<Rightarrow> (hex, int) jmap \<Rightarrow> bool" where
  "scoresOver nodes m \<longleftrightarrow> jkeys m = nodes \<and> (\<forall>k. 0 \<le> amountOf m k)"

lemma addAll:
  assumes "scoresOver nodes m" and "fst ` set kvs \<subseteq> set nodes" and "\<forall>kv \<in> set kvs. 0 \<le> snd kv"
  shows "scoresOver nodes (foldl addTo m kvs) \<and> sumOf snd (foldl addTo m kvs) = sumOf snd m + sumOf snd kvs \<and>
    (\<forall>k. amountOf (foldl addTo m kvs) k = amountOf m k + sumOf snd (filter (\<lambda>kv. fst kv = k) kvs))"
  using assms
proof (induction kvs arbitrary: m)
  case (Cons kv kvs)
  then have key: "fst kv \<in> set (jkeys m)" and "0 \<le> snd kv" by (auto simp: scoresOver_def)
  then have "scoresOver nodes (addTo m kv)"
    using Cons.prems(1) addTo_keys [OF key] by (simp add: scoresOver_def amountOf_addTo)
  with Cons sum_addTo [OF key] show ?case by (simp add: amountOf_addTo)
qed simp

section \<open>One iteration\<close>

text \<open>Graphs as the fold of the events builds them.\<close>

definition closedGraph :: "Graph \<Rightarrow> bool" where
  "closedGraph g \<longleftrightarrow> (\<forall>n \<in> set (gNodes g). canonical n) \<and>
     (\<forall>s row. jget (gOutgoing g) s = Some row \<longrightarrow>
        distinct (jkeys row) \<and> set (jkeys row) \<subseteq> set (gNodes g))"

lemma transition_ok:
  assumes "closedGraph g" and "transitionOf g s \<noteq> []" and "0 \<le> budget"
  shows "okClaims budget (transitionOf g s)" and "fst ` set (transitionOf g s) \<subseteq> set (gNodes g)"
proof -
  let ?t = "transitionOf g s"
  obtain row where row: "jget (gOutgoing g) s = Some row"
    using assms(2) by (auto simp: transitionOf_def orDefault_def split: option.splits)
  then have t: "?t = filter (\<lambda>(target, weight). target \<noteq> s \<and> weight > 0) row"
    by (simp add: transitionOf_def orDefault_def)
  with assms(1) row show sub: "fst ` set ?t \<subseteq> set (gNodes g)" by (fastforce simp: closedGraph_def)
  have "distinct (map fst ?t)" using assms(1) row t by (simp add: closedGraph_def distinct_map_filter)
  moreover have "\<forall>(k, n) \<in> set ?t. canonical k \<and> 0 < n"
    using sub assms(1) by (auto simp: closedGraph_def t)
  moreover have "0 < claimTotal ?t"
    unfolding claimTotal_def using assms(2) calculation(2) by (intro sumOf_pos) auto
  ultimately show "okClaims budget ?t" using assms(3) by (auto simp: okClaims_def less_imp_le)
qed

text \<open>Accounts that standing can reach: the prior's, and along positive edges from them.\<close>

inductive endowed :: "Graph \<Rightarrow> PriorEntry list \<Rightarrow> hex \<Rightarrow> bool" for g prior where
  holder: "e \<in> set prior \<Longrightarrow> endowed g prior (peyAccount e)"
| passed: "endowed g prior s \<Longrightarrow> (t, w) \<in> set (transitionOf g s) \<Longrightarrow> endowed g prior t"

inductive_cases endowedE: "endowed g prior k"

definition onlyEndowed :: "Graph \<Rightarrow> PriorEntry list \<Rightarrow> (hex, int) jmap \<Rightarrow> bool" where
  "onlyEndowed g prior m \<longleftrightarrow> (\<forall>k. amountOf m k \<noteq> 0 \<longrightarrow> endowed g prior k)"

lemma sum_filter_nonzero: "sumOf snd (filter P kvs) \<noteq> 0 \<Longrightarrow> \<exists>kv \<in> set kvs. P kv \<and> snd kv \<noteq> (0 :: int)"
  using sumOf_zero [of "filter P kvs" snd] by auto

lemma flowFrom_step:
  assumes g: "closedGraph g" and nodes: "set (gNodes g) \<subseteq> set nodes"
    and m: "scoresOver nodes m" "onlyEndowed g prior m" and b: "0 \<le> budget" "budget \<noteq> 0 \<Longrightarrow> endowed g prior s"
  shows "\<exists>m' d'. flowFrom g (m, d) (s, budget) = Inr (m', d') \<and> scoresOver nodes m' \<and> onlyEndowed g prior m' \<and>
    d \<le> d' \<and> sumOf snd m' + d' = sumOf snd m + d + budget"
proof (cases "transitionOf g s = []")
  case True
  with m b show ?thesis by (simp add: flowFrom_def)
next
  case False
  note ok = transition_ok [OF g False b(1)]
  obtain res where res: "apportion (transitionOf g s) budget (claimTotal (transitionOf g s)) = Inr res"
    and keys: "sorted_wrt (<) (jkeys res)" "set (jkeys res) = fst ` set (transitionOf g s)"
    and total: "sumOf snd res = budget" and nn: "\<forall>e \<in> set res. 0 \<le> snd e"
    and am: "\<And>r. r \<in> set (transitionOf g s) \<Longrightarrow> amountOf res (fst r) = share budget (transitionOf g s) r"
    using apportion_facts [OF ok(1)] by metis
  have sub: "fst ` set res \<subseteq> set nodes" using keys(2) ok(2) nodes by auto
  note add = addAll [OF m(1) sub nn]
  have "onlyEndowed g prior (foldl addTo m res)" unfolding onlyEndowed_def
  proof (intro allI impI)
    fix k assume "amountOf (foldl addTo m res) k \<noteq> 0"
    with add have "amountOf m k \<noteq> 0 \<or> sumOf snd (filter (\<lambda>kv. fst kv = k) res) \<noteq> 0" by auto
    then show "endowed g prior k"
    proof
      assume "sumOf snd (filter (\<lambda>kv. fst kv = k) res) \<noteq> 0"
      then obtain kv where kv: "kv \<in> set res" "fst kv = k" "snd kv \<noteq> 0" using sum_filter_nonzero by blast
      with keys(2) obtain w where w: "(k, w) \<in> set (transitionOf g s)" by force
      have "budget \<noteq> 0"
      proof
        assume "budget = 0"
        then have "sumOf snd res = 0" using total by simp
        moreover have "snd kv \<le> sumOf snd res" by (rule sumOf_member) (use nn kv in auto)
        ultimately show False using kv nn by force
      qed
      from endowed.passed [OF b(2) [OF this] w] show ?thesis .
    qed (use m(2) in \<open>simp add: onlyEndowed_def\<close>)
  qed
  with False res add total show ?thesis
    by (simp add: flowFrom_def Let_def claimTotal_def)
qed

lemma flow_all:
  assumes g: "closedGraph g" and nodes: "set (gNodes g) \<subseteq> set nodes"
    and "scoresOver nodes m" and "onlyEndowed g prior m"
    and "\<forall>(s, budget) \<in> set bs. 0 \<le> budget \<and> (budget \<noteq> 0 \<longrightarrow> endowed g prior s)"
  shows "\<exists>m' d'. foldE (flowFrom g) (m, d) bs = Inr (m', d') \<and> scoresOver nodes m' \<and> onlyEndowed g prior m' \<and>
    d \<le> d' \<and> sumOf snd m' + d' = sumOf snd m + d + sumOf snd bs"
  using assms(3-5)
proof (induction bs arbitrary: m d)
  case Nil
  then show ?case by simp
next
  case (Cons b bs)
  obtain s budget where b: "b = (s, budget)" by (cases b)
  from Cons.prems b flowFrom_step [OF g nodes Cons.prems(1,2), of budget s d] obtain m1 d1 where
    step: "flowFrom g (m, d) b = Inr (m1, d1)" "scoresOver nodes m1" "onlyEndowed g prior m1"
    "d \<le> d1" "sumOf snd m1 + d1 = sumOf snd m + d + budget" by auto
  from Cons.IH [OF step(2,3), of d1] Cons.prems(3) obtain m2 d2 where
    "foldE (flowFrom g) (m1, d1) bs = Inr (m2, d2)" "scoresOver nodes m2" "onlyEndowed g prior m2"
    "d1 \<le> d2" "sumOf snd m2 + d2 = sumOf snd m1 + d1 + sumOf snd bs" by auto
  with step b show ?case by auto
qed

text \<open>What holds of the scores before and after every iteration.\<close>

definition standing :: "Graph \<Rightarrow> PriorEntry list \<Rightarrow> hex list \<Rightarrow> (hex, int) jmap \<Rightarrow> bool" where
  "standing g prior nodes m \<longleftrightarrow> scoresOver nodes m \<and> onlyEndowed g prior m \<and> sumOf snd m = SCALE"

lemma amountOf_same: "k \<in> set (jkeys m) \<Longrightarrow> jget m k = Some (amountOf m k)"
  using jget_key [of k m] by (auto simp: amountOf_def orDefault_def)

lemma wpDelta_total:
  assumes "\<forall>k \<in> set xs. k \<in> set (jkeys a) \<and> k \<in> set (jkeys b)"
  shows "\<exists>d. foldE (wpDelta a b) d0 xs = Inr d"
  using assms
proof (induction xs arbitrary: d0)
  case (Cons x xs)
  then have "jget a x = Some (amountOf a x)" "jget b x = Some (amountOf b x)"
    by (auto intro: amountOf_same simp del: set_map)
  with Cons show ?case by (auto simp: wpDelta_def need_def Let_def simp del: set_map)
qed simp

lemma wpIterate_standing:
  assumes g: "closedGraph g" and prior: "validPrior prior" "\<forall>e \<in> set prior. canonical (peyAccount e)"
    and d: "0 \<le> wpDampingFp p" "wpDampingFp p \<le> SCALE"
    and nodes: "set (gNodes g) \<union> peyAccount ` set prior \<subseteq> set nodes" "distinct nodes" "\<forall>n \<in> set nodes. canonical n"
    and m: "standing g prior nodes m"
  shows "\<exists>m' delta. wpIterate g prior p nodes m = Inr (m', delta) \<and> standing g prior nodes m'"
proof -
  from m have keys: "jkeys m = nodes" and nn: "\<And>k. 0 \<le> amountOf m k" and sum: "sumOf snd m = SCALE"
    and only: "onlyEndowed g prior m" by (auto simp: standing_def scoresOver_def)
  let ?items = "map (\<lambda>node. (node, amountOf m node)) nodes"
  have items: "mapE (\<lambda>node. bindE (need (jget m node)) (\<lambda>v. Inr (node, v))) nodes = Inr ?items"
  proof (rule mapE_total)
    fix node assume "node \<in> set nodes"
    then have "jget m node = Some (amountOf m node)" using keys by (intro amountOf_same) (simp only:)
    then show "bindE (need (jget m node)) (\<lambda>v. Inr (node, v)) = Inr (node, amountOf m node)"
      by (simp add: need_def)
  qed
  have "sumOf (amountOf m) nodes = sumOf snd m"
    using sumOf_get [of m] nodes(2) unfolding keys amountOf_def by (simp only:)
  then have tot: "claimTotal ?items = SCALE"
    using sum by (simp add: claimTotal_def comp_def)
  have ok: "okClaims (wpDampingFp p) ?items"
    using nodes(2,3) nn d(1) tot by (auto simp: okClaims_def comp_def)
  obtain bs where bs: "apportion ?items (wpDampingFp p) SCALE = Inr bs"
    and bk: "sorted_wrt (<) (jkeys bs)" "set (jkeys bs) = fst ` set ?items" and bsum: "sumOf snd bs = wpDampingFp p"
    and bn: "\<forall>e \<in> set bs. 0 \<le> snd e"
    and bam: "\<And>r. r \<in> set ?items \<Longrightarrow> amountOf bs (fst r) = share (wpDampingFp p) ?items r"
    by (rule apportion_facts [OF ok, unfolded tot]) (rule that)
  have "\<forall>(s, budget) \<in> set bs. 0 \<le> budget \<and> (budget \<noteq> 0 \<longrightarrow> endowed g prior s)"
  proof (clarify, intro conjI impI)
    fix s b assume sb: "(s, b) \<in> set bs"
    then show "0 \<le> b" using bn by force
    assume "b \<noteq> 0"
    have "distinct (jkeys bs)" using bk(1) by (simp add: strict_sorted_iff)
    with sb have "amountOf bs s = b" by (simp add: amountOf_entry)
    moreover have "(s, amountOf m s) \<in> set ?items" using sb bk(2) by force
    ultimately have "amountOf m s \<noteq> 0"
      using bam share_zero [OF ok, of "(s, amountOf m s)"] \<open>b \<noteq> 0\<close> by force
    then show "endowed g prior s" using only by (simp add: onlyEndowed_def)
  qed
  moreover let ?zero = "newMap (map (\<lambda>node. (node, 0)) nodes) :: (hex, int) jmap"
  have zero: "?zero = map (\<lambda>node. (node, 0)) nodes" using nodes(2) by (intro newMap_distinct) (simp add: comp_def)
  have z: "amountOf ?zero k = 0" for k
    unfolding zero by (auto simp: amountOf_def orDefault_def map_of_map_restrict restrict_map_def)
  have "scoresOver nodes ?zero" "onlyEndowed g prior ?zero" and zs: "sumOf snd ?zero = 0"
    using z by (simp_all add: scoresOver_def onlyEndowed_def zero comp_def)
  moreover have sub: "set (gNodes g) \<subseteq> set nodes" using nodes(1) by blast
  ultimately obtain f dang where f: "foldE (flowFrom g) (?zero, 0) bs = Inr (f, dang)" "scoresOver nodes f"
    "onlyEndowed g prior f" "0 \<le> dang" "sumOf snd f + dang = wpDampingFp p"
    using flow_all [OF g, of nodes ?zero prior bs 0] bsum by auto
  let ?budget = "SCALE - wpDampingFp p + dang"
  have pb: "0 \<le> ?budget" using d(2) f(4) by simp
  note pc = priorClaims_ok [OF prior pb]
  obtain parts where parts: "apportion (priorClaims prior) ?budget SCALE = Inr parts"
    and "sorted_wrt (<) (jkeys parts)"
    and pk: "set (jkeys parts) = fst ` set (priorClaims prior)" and psum: "sumOf snd parts = ?budget"
    and pn: "\<forall>e \<in> set parts. 0 \<le> snd e"
    by (rule apportion_facts [OF pc(1), unfolded pc(2)]) (rule that)
  have "fst ` set parts \<subseteq> set nodes" using pk nodes(1) by (auto simp: priorClaims_def)
  note add = addAll [OF f(2) this pn]
  let ?n = "foldl addTo f parts"
  have sumn: "sumOf snd ?n = SCALE" using add f(5) psum by simp
  have "onlyEndowed g prior ?n" unfolding onlyEndowed_def
  proof (intro allI impI)
    fix k assume "amountOf ?n k \<noteq> 0"
    with add have "amountOf f k \<noteq> 0 \<or> sumOf snd (filter (\<lambda>kv. fst kv = k) parts) \<noteq> 0" by auto
    then show "endowed g prior k"
    proof
      assume "sumOf snd (filter (\<lambda>kv. fst kv = k) parts) \<noteq> 0"
      then obtain kv where "kv \<in> set parts" "fst kv = k" using sum_filter_nonzero by blast
      with pk obtain e where "e \<in> set prior" "peyAccount e = k" by (force simp: priorClaims_def)
      then show ?thesis using endowed.holder by blast
    qed (use f(3) in \<open>simp add: onlyEndowed_def\<close>)
  qed
  with add sumn have st: "standing g prior nodes ?n" by (simp add: standing_def)
  obtain delta where "foldE (wpDelta m ?n) 0 nodes = Inr delta"
    using wpDelta_total [of nodes m ?n 0] keys add by (auto simp: scoresOver_def simp del: set_map)
  then have "wpIterate g prior p nodes m = Inr (?n, delta)"
    using items bs f(1) parts sumn by (simp add: wpIterate_def priorClaims_def)
  with st show ?thesis by blast
qed

section \<open>The loop\<close>

lemma wpLoop_standing:
  assumes g: "closedGraph g" and prior: "validPrior prior" "\<forall>e \<in> set prior. canonical (peyAccount e)"
    and d: "0 \<le> wpDampingFp p" "wpDampingFp p \<le> SCALE"
    and nodes: "set (gNodes g) \<union> peyAccount ` set prior \<subseteq> set nodes" "distinct nodes" "\<forall>n \<in> set nodes. canonical n"
    and m: "standing g prior nodes m"
  shows "\<exists>m' i. wpLoop g prior p nodes left iteration m = Inr (m', i) \<and> standing g prior nodes m'"
  using m
proof (induction left arbitrary: iteration m)
  case (Suc left)
  from wpIterate_standing [OF g prior d nodes Suc.prems] obtain m1 delta where
    "wpIterate g prior p nodes m = Inr (m1, delta)" "standing g prior nodes m1" by blast
  with Suc.IH [of m1 "iteration + 1"] show ?case by auto
qed auto

lemma wpRank_standing:
  assumes g: "closedGraph g" and prior: "validPrior prior" "\<forall>e \<in> set prior. canonical (peyAccount e)"
    and d: "0 \<le> wpDampingFp p" "wpDampingFp p \<le> SCALE"
  shows "\<exists>m i. wpRank g prior p = Inr (m, i) \<and> standing g prior (wpNodes g prior) m"
proof -
  let ?nodes = "wpNodes g prior" and ?pm = "priorMapOf prior"
  have dp: "distinct (map peyAccount prior)"
    using priorClaims_ok(1) [OF prior, of 0] by (simp add: okClaims_def priorClaims_def comp_def)
  have pm: "?pm = priorClaims prior"
    unfolding priorMapOf_def priorClaims_def by (rule newMap_distinct) (use dp in \<open>simp add: comp_def\<close>)
  have pk: "jkeys ?pm = map peyAccount prior" by (simp add: pm priorClaims_def)
  have set_nodes: "set ?nodes = peyAccount ` set prior \<union> set (gNodes g)"
    by (simp add: wpNodes_def pm priorClaims_def image_image)
  have dn: "distinct ?nodes" by (simp add: wpNodes_def)
  have cn: "\<forall>n \<in> set ?nodes. canonical n"
    unfolding set_nodes using g prior(2) by (auto simp: closedGraph_def)
  let ?start = "map (\<lambda>node. (node, orDefault (jget ?pm node) 0)) ?nodes"
  have start: "newMap ?start = ?start" using dn by (intro newMap_distinct) (simp add: comp_def)
  have am: "amountOf ?start k = amountOf ?pm k" for k
  proof (cases "k \<in> set ?nodes")
    case True
    then show ?thesis using dn by (simp add: amountOf_entry comp_def image_iff, simp add: amountOf_def)
  next
    case False
    then have "k \<notin> set (jkeys ?start)" "k \<notin> set (jkeys ?pm)" using set_nodes pk by (auto simp: image_image)
    then show ?thesis by (simp add: amountOf_none del: set_map)
  qed
  have pa: "0 \<le> amountOf ?pm k" for k
  proof (cases "k \<in> set (jkeys ?pm)")
    case True
    then obtain w where "jget ?pm k = Some w" using jget_key by fast
    moreover from this have "(k, w) \<in> set (priorClaims prior)" unfolding pm by (rule map_of_SomeD)
    ultimately show ?thesis using prior(1) by (auto simp: amountOf_def orDefault_def priorClaims_def validPrior_def less_imp_le)
  qed (simp add: amountOf_none)
  have "onlyEndowed g prior ?start" unfolding onlyEndowed_def am
  proof (intro allI impI)
    fix k assume "amountOf ?pm k \<noteq> 0"
    then have "k \<in> set (jkeys ?pm)" using amountOf_none by blast
    then show "endowed g prior k" unfolding pk by (auto intro: endowed.holder)
  qed
  moreover have "sumOf snd ?start = SCALE"
  proof -
    have "sumOf snd ?start = (\<Sum>k \<in> set ?nodes. amountOf ?pm k)"
      using dn by (simp add: comp_def amountOf_def sum_list_distinct_conv_sum_set)
    also have "\<dots> = (\<Sum>k \<in> set (jkeys ?pm). amountOf ?pm k)"
    proof (rule sum.mono_neutral_right)
      show "set (jkeys ?pm) \<subseteq> set ?nodes" unfolding pk set_nodes by auto
      show "\<forall>k \<in> set ?nodes - set (jkeys ?pm). amountOf ?pm k = 0" using amountOf_none by blast
    qed simp
    also have "\<dots> = sumOf (amountOf ?pm) (jkeys ?pm)"
      using dp pk by (simp only: sum_list_distinct_conv_sum_set)
    also have "\<dots> = sumOf snd ?pm" unfolding amountOf_def
      using sumOf_get [of ?pm] dp pk by (simp only:)
    also have "\<dots> = SCALE" using priorClaims_ok(2) [OF prior, of 0] by (simp add: pm claimTotal_def)
    finally show ?thesis .
  qed
  ultimately have "standing g prior ?nodes ?start"
    using am pa by (simp add: standing_def scoresOver_def comp_def)
  from wpLoop_standing [OF g prior d _ dn cn this, of "nat (wpMaxIterations p)" 1] show ?thesis
    unfolding set_nodes wpRank_def Let_def start by auto
qed

end
