(* ===== verification/WeightedManifest.thy ===== *)
theory WeightedManifest
  imports WeightedPriors
begin

text \<open>
  The byte manifest of a prior: the digits it is written with and what the parser reads back.
\<close>

section \<open>Strings of hex digits\<close>

definition isHexDigit :: "char \<Rightarrow> bool" where
  "isHexDigit c \<longleftrightarrow> c \<in> set ''0123456789abcdef''"

definition isBytes :: "hex \<Rightarrow> bool" where
  "isBytes h \<longleftrightarrow> take 2 h = ''0x'' \<and> even (length h) \<and> list_all isHexDigit (drop 2 h)"

text \<open>
  The documented behaviour of \<open>bytesToHex\<close> and \<open>hexToBytes\<close>: two lower-case digits per byte, and the
  second undoes the first.
\<close>

definition bytesLaw :: "viem \<Rightarrow> bool" where
  "bytesLaw V \<longleftrightarrow> (\<forall>bs. bytesToHex V bs = ''0x'' @ concat (map (\<lambda>b. hexDigits 2 (unat b)) bs)) \<and>
     (\<forall>h. isBytes h \<longrightarrow> bytesToHex V (hexToBytes V h) = h)"

lemma hexDigitChar_ok: "d < 16 \<Longrightarrow> isHexDigit (hexDigitChar d) \<and> hexValue (hexDigitChar d) = Some d"
proof -
  have "list_all (\<lambda>d. isHexDigit (hexDigitChar d) \<and> hexValue (hexDigitChar d) = Some d) [0..<16]" by code_simp
  then show "d < 16 \<Longrightarrow> ?thesis" by (simp add: list_all_iff)
qed

lemma isHexDigit_value: "isHexDigit c \<Longrightarrow> \<exists>d < 16. hexDigitChar d = c \<and> hexValue c = Some d"
proof -
  assume c: "isHexDigit c"
  have "map hexDigitChar [0..<16] = ''0123456789abcdef''" by code_simp
  then have "c \<in> set (map hexDigitChar [0..<16])" using c by (simp only: isHexDigit_def)
  then show ?thesis using hexDigitChar_ok by auto
qed

lemma hexDigits_ok: "list_all isHexDigit (hexDigits n x)"
  by (induction n arbitrary: x) (auto simp: hexDigitChar_ok)

lemma foldl_hexStep_digits: "x < 16 ^ n \<Longrightarrow> foldl hexStep v (hexDigits n x) = v * 16 ^ n + int x"
proof (induction n arbitrary: x)
  case (Suc n)
  then have "x div 16 < 16 ^ n" by (simp add: less_mult_imp_div_less mult.commute)
  then have "foldl hexStep v (hexDigits n (x div 16)) = v * 16 ^ n + int (x div 16)" by (rule Suc.IH)
  then have "foldl hexStep v (hexDigits (Suc n) x) = 16 * (v * 16 ^ n + int (x div 16)) + int (x mod 16)"
    by (simp add: hexStep_def [of _ "hexDigitChar (x mod 16)"] hexDigitChar_ok orDefault_def)
  moreover have "int x = 16 * int (x div 16) + int (x mod 16)" by (metis mult_div_mod_eq of_nat_add of_nat_mult of_nat_numeral)
  ultimately show ?case by (simp add: algebra_simps)
qed simp

lemma hexNumber_digits: "x < 16 ^ n \<Longrightarrow> hexNumber (''0x'' @ hexDigits n x) = int x"
  by (simp add: hexNumber_def foldl_hexStep_digits)

lemma hexDigits_number:
  "list_all isHexDigit s \<Longrightarrow> hexDigits (length s) (nat (foldl hexStep 0 s)) = s \<and>
     0 \<le> foldl hexStep 0 s \<and> foldl hexStep 0 s < 16 ^ length s"
proof (induction s rule: rev_induct)
  case (snoc c s)
  then obtain d where d: "d < 16" "hexDigitChar d = c" "hexValue c = Some d"
    using isHexDigit_value [of c] by auto
  let ?v = "foldl hexStep 0 s"
  from snoc have IH: "hexDigits (length s) (nat ?v) = s" "0 \<le> ?v" "?v < 16 ^ length s" by auto
  have v: "foldl hexStep 0 (s @ [c]) = 16 * ?v + int d" using d(3) by (simp add: hexStep_def orDefault_def)
  then have n: "nat (foldl hexStep 0 (s @ [c])) = 16 * nat ?v + d" using IH(2) by (simp add: nat_add_distrib nat_mult_distrib)
  have "16 * ?v + int d < 16 ^ length (s @ [c])" using IH(3) d(1) by simp
  with IH d v n show ?case by simp
qed simp

section \<open>Slices of bytes are slices of digits\<close>

lemma concat_chunks:
  assumes "\<And>x. x \<in> set xs \<Longrightarrow> length (f x) = w"
  shows "drop (w * i) (concat (map f xs)) = concat (map f (drop i xs))"
    and "take (w * i) (concat (map f xs)) = concat (map f (take i xs))"
    and "length (concat (map f xs)) = w * length xs"
  using assms
proof (induction xs arbitrary: i)
  case (Cons x xs)
  { case 1 then show ?case by (cases i) (auto simp: Cons.IH) }
  { case 2 then show ?case by (cases i) (auto simp: Cons.IH) }
  { case 3 then show ?case by (simp add: Cons.IH) }
qed simp_all

lemma bytes_digits:
  assumes "bytesLaw V"
  shows "length (drop 2 (bytesToHex V bs)) = 2 * length bs"
    and "bytesToHex V (sliceBytes a b bs) =
      ''0x'' @ take (2 * (b - a)) (drop (2 * a) (drop 2 (bytesToHex V bs)))"
proof -
  have h: "bytesToHex V x = ''0x'' @ concat (map (\<lambda>b. hexDigits 2 (unat b)) x)" for x
    using assms by (simp add: bytesLaw_def)
  show "length (drop 2 (bytesToHex V bs)) = 2 * length bs"
    using concat_chunks(3) [of bs "\<lambda>b. hexDigits 2 (unat b)" 2] by (simp add: h)
  have "concat (map (\<lambda>b. hexDigits 2 (unat b)) (take (b - a) (drop a bs))) =
      take (2 * (b - a)) (drop (2 * a) (concat (map (\<lambda>b. hexDigits 2 (unat b)) bs)))"
    by (simp add: concat_chunks(1) [where w = 2] concat_chunks(2) [where w = 2])
  then show "bytesToHex V (sliceBytes a b bs) =
      ''0x'' @ take (2 * (b - a)) (drop (2 * a) (drop 2 (bytesToHex V bs)))"
    by (simp add: h sliceBytes_def)
qed

lemma isBytes_eq: "isBytes h \<Longrightarrow> h = ''0x'' @ drop 2 h"
  unfolding isBytes_def by (metis append_take_drop_id)

section \<open>The digits of a manifest\<close>

definition entryDigits :: "PriorEntry \<Rightarrow> string" where
  "entryDigits e = drop 2 (peyAccount e) @ hexDigits 16 (nat (peyWeight e))"

definition manifestDigits :: "int \<Rightarrow> PriorEntry list \<Rightarrow> string" where
  "manifestDigits chain entries =
     ''54475750'' @ hexDigits 4 1 @ hexDigits 16 (nat chain) @ hexDigits 8 (length entries) @
     concat (map entryDigits entries)"

definition fits64 :: "int \<Rightarrow> bool" where
  "fits64 x \<longleftrightarrow> 0 \<le> x \<and> x < 256 ^ 8"

lemma toHexSized_eq:
  "toHexLaw V \<Longrightarrow> 0 \<le> x \<Longrightarrow> x < 256 ^ n \<Longrightarrow> toHexSized V x n = Inr (''0x'' @ hexDigits (2 * n) (nat x))"
  unfolding toHexLaw_def by blast

lemma toHexSized_Inr:
  "toHexLaw V \<Longrightarrow> toHexSized V x n = Inr h \<longleftrightarrow> 0 \<le> x \<and> x < 256 ^ n \<and> h = ''0x'' @ hexDigits (2 * n) (nat x)"
  unfolding toHexLaw_def by blast

lemma concatE_Inr: "concatE V ps = Inr h \<longleftrightarrow> (\<exists>hs. ps = map Inr hs \<and> h = concatHex V hs)"
proof -
  have "mapE id ps = Inr hs \<longleftrightarrow> ps = map Inr hs" for hs
    by (induction ps arbitrary: hs) (auto simp: result_simps)
  then show ?thesis by (auto simp: concatE_def result_simps)
qed

lemma entry_parts:
  assumes "toHexLaw V"
  shows "concat (map (\<lambda>e. [Inr (peyAccount e), toHexSized V (peyWeight e) 8]) es) = map Inr hs \<longleftrightarrow>
    (\<forall>e \<in> set es. fits64 (peyWeight e)) \<and>
    hs = concat (map (\<lambda>e. [peyAccount e, ''0x'' @ hexDigits 16 (nat (peyWeight e))]) es)"
proof (induction es arbitrary: hs)
  case (Cons e es)
  have "concat (map (\<lambda>e. [Inr (peyAccount e), toHexSized V (peyWeight e) 8]) (e # es)) = map Inr hs \<longleftrightarrow>
    (\<exists>a b hs'. hs = a # b # hs' \<and> a = peyAccount e \<and> toHexSized V (peyWeight e) 8 = Inr b \<and>
      concat (map (\<lambda>e. [Inr (peyAccount e), toHexSized V (peyWeight e) 8]) es) = map Inr hs')"
    by (auto simp: Cons_eq_map_conv)
  then show ?case unfolding Cons.IH toHexSized_Inr [OF assms] by (auto simp: fits64_def)
qed auto

lemma canonicalManifest_Inr:
  assumes "concatLaw V" and "toHexLaw V"
  shows "canonicalManifest V chain es = Inr m \<longleftrightarrow>
    validPrior es \<and> fits64 chain \<and> (\<forall>e \<in> set es. fits64 (peyWeight e)) \<and> m = ''0x'' @ manifestDigits chain es"
proof (cases "validPrior es")
  case False
  then obtain e where "validatePrior es = Inl e" using validatePrior_iff [of es] by (cases "validatePrior es") simp_all
  with False show ?thesis by (simp add: canonicalManifest_def)
next
  case True
  then have v: "validatePrior es = Inr ()" by (simp add: validatePrior_iff)
  have n: "0 \<le> int (length es)" "int (length es) < 256 ^ 4" using True by (simp_all add: validPrior_def MAX_PRIOR_ENTRIES_def)
  let ?ps = "[Inr TGWP, toHexSized V 1 2, toHexSized V chain 8, toHexSized V (int (length es)) 4] @
       concat (map (\<lambda>entry. [Inr (peyAccount entry), toHexSized V (peyWeight entry) 8]) es)"
  let ?tail = "concat (map (\<lambda>e. [peyAccount e, ''0x'' @ hexDigits 16 (nat (peyWeight e))]) es)"
  have "?ps = map Inr hs \<longleftrightarrow> fits64 chain \<and> (\<forall>e \<in> set es. fits64 (peyWeight e)) \<and>
      hs = [TGWP, ''0x'' @ hexDigits 4 1, ''0x'' @ hexDigits 16 (nat chain), ''0x'' @ hexDigits 8 (length es)] @ ?tail" for hs
  proof -
    have "?ps = map Inr hs \<longleftrightarrow> (\<exists>a b c d hs'. hs = a # b # c # d # hs' \<and> a = TGWP \<and> toHexSized V 1 2 = Inr b \<and>
        toHexSized V chain 8 = Inr c \<and> toHexSized V (int (length es)) 4 = Inr d \<and>
        concat (map (\<lambda>entry. [Inr (peyAccount entry), toHexSized V (peyWeight entry) 8]) es) = map Inr hs')"
      by (auto simp: Cons_eq_map_conv)
    then show ?thesis
      unfolding entry_parts [OF assms(2)] toHexSized_Inr [OF assms(2)] using n by (auto simp: fits64_def)
  qed
  moreover have "concatHex V ([TGWP, ''0x'' @ hexDigits 4 1, ''0x'' @ hexDigits 16 (nat chain),
      ''0x'' @ hexDigits 8 (length es)] @ ?tail) = ''0x'' @ manifestDigits chain es"
  proof -
    have "concat (map (drop 2) ?tail) = concat (map entryDigits es)"
      by (induction es) (auto simp: entryDigits_def)
    then show ?thesis using assms(1) by (simp add: concatLaw_def manifestDigits_def TGWP_def)
  qed
  ultimately show ?thesis using True v by (auto simp: canonicalManifest_def concatE_Inr)
qed

section \<open>What the parser reads\<close>

text \<open>The digits of entry \<open>i\<close> of a manifest.\<close>

definition entryAt :: "string \<Rightarrow> nat \<Rightarrow> PriorEntry" where
  "entryAt ds i =
     \<lparr>peyAccount = ''0x'' @ take 40 (drop (36 + 56 * i) ds),
      peyWeight = foldl hexStep 0 (take 16 (drop (76 + 56 * i) ds))\<rparr>"

lemma parseManifest_digits:
  assumes V: "bytesLaw V" and m: "isBytes m" and ds: "ds = drop 2 m"
  shows "parseManifest V m = Inr (chain, es) \<longleftrightarrow>
    take 8 ds = ''54475750'' \<and> foldl hexStep 0 (take 4 (drop 8 ds)) = 1 \<and>
    chain = foldl hexStep 0 (take 16 (drop 12 ds)) \<and>
    1 \<le> foldl hexStep 0 (take 8 (drop 28 ds)) \<and> foldl hexStep 0 (take 8 (drop 28 ds)) \<le> MAX_PRIOR_ENTRIES \<and>
    int (length ds) = 36 + 56 * foldl hexStep 0 (take 8 (drop 28 ds)) \<and>
    es = map (entryAt ds) [0..<nat (foldl hexStep 0 (take 8 (drop 28 ds)))] \<and> validPrior es"
proof -
  let ?bs = "hexToBytes V m"
  have h: "bytesToHex V ?bs = m" using V m unfolding bytesLaw_def by blast
  have len: "length ds = 2 * length ?bs" using bytes_digits(1) [OF V, of ?bs] by (simp add: h ds)
  have sl: "bytesToHex V (sliceBytes a b ?bs) = ''0x'' @ take (2 * (b - a)) (drop (2 * a) ds)" for a b
    using bytes_digits(2) [OF V, of a b ?bs] by (simp add: h ds)
  have rd: "readInt V ?bs a b = foldl hexStep 0 (take (2 * (b - a)) (drop (2 * a) ds))" for a b
    by (simp add: readInt_def sl hexNumber_def)
  have e: "manifestEntry V ?bs = entryAt ds"
    by (rule ext) (simp add: manifestEntry_def entryAt_def sl rd Let_def algebra_simps)
  let ?n = "foldl hexStep 0 (take 8 (drop 28 ds))"
  have "int (length ?bs) \<noteq> 18 + ?n * 28 \<longleftrightarrow> int (length ds) \<noteq> 36 + 56 * ?n" using len by auto
  moreover have "length ?bs < 18 \<longleftrightarrow> length ds < 36" using len by auto
  ultimately show ?thesis
    by (auto simp: parseManifest_def Let_def sl rd e result_simps validatePrior_iff TGWP_def not_less)
qed

lemma take_drop_mid: "length a = i \<Longrightarrow> length b = n \<Longrightarrow> take n (drop i (a @ b @ c)) = b"
  by simp

lemma manifestDigits_fields:
  assumes acc: "\<forall>e \<in> set es. length (peyAccount e) = 42"
  shows "take 8 (manifestDigits c es) = ''54475750''"
    and "take 4 (drop 8 (manifestDigits c es)) = hexDigits 4 1"
    and "take 16 (drop 12 (manifestDigits c es)) = hexDigits 16 (nat c)"
    and "take 8 (drop 28 (manifestDigits c es)) = hexDigits 8 (length es)"
    and "length (manifestDigits c es) = 36 + 56 * length es"
    and "i < length es \<Longrightarrow> take 40 (drop (36 + 56 * i) (manifestDigits c es)) = drop 2 (peyAccount (es ! i))"
    and "i < length es \<Longrightarrow> take 16 (drop (76 + 56 * i) (manifestDigits c es)) = hexDigits 16 (nat (peyWeight (es ! i)))"
proof -
  let ?h = "''54475750'' @ hexDigits 4 1 @ hexDigits 16 (nat c) @ hexDigits 8 (length es)"
  let ?t = "concat (map entryDigits es)"
  have m: "manifestDigits c es = ?h @ ?t" by (simp add: manifestDigits_def)
  have w: "length (entryDigits e) = 56" if "e \<in> set es" for e using acc that by (simp add: entryDigits_def)
  have lh: "length ?h = 36" by simp
  show "take 8 (manifestDigits c es) = ''54475750''" by (simp add: manifestDigits_def)
  show "take 4 (drop 8 (manifestDigits c es)) = hexDigits 4 1"
    unfolding manifestDigits_def by (rule take_drop_mid) simp_all
  have "take 16 (drop 12 ((''54475750'' @ hexDigits 4 1) @ hexDigits 16 (nat c) @ hexDigits 8 (length es) @ ?t)) =
      hexDigits 16 (nat c)" by (rule take_drop_mid) simp_all
  then show "take 16 (drop 12 (manifestDigits c es)) = hexDigits 16 (nat c)" by (simp add: manifestDigits_def)
  have "take 8 (drop 28 ((''54475750'' @ hexDigits 4 1 @ hexDigits 16 (nat c)) @ hexDigits 8 (length es) @ ?t)) =
      hexDigits 8 (length es)" by (rule take_drop_mid) simp_all
  then show "take 8 (drop 28 (manifestDigits c es)) = hexDigits 8 (length es)" by (simp add: manifestDigits_def)
  show "length (manifestDigits c es) = 36 + 56 * length es"
    unfolding m length_append lh using concat_chunks(3) [of es entryDigits 56] w by simp
  assume i: "i < length es"
  have d: "drop (56 * i) ?t = entryDigits (es ! i) @ concat (map entryDigits (drop (Suc i) es))"
    using concat_chunks(1) [of es entryDigits 56 i] w Cons_nth_drop_Suc [OF i, symmetric] by simp
  have big: "drop (36 + k) (manifestDigits c es) = drop k ?t" for k
    unfolding m drop_append lh by simp
  have "length (drop 2 (peyAccount (es ! i))) = 40" using acc i by simp
  then show "take 40 (drop (36 + 56 * i) (manifestDigits c es)) = drop 2 (peyAccount (es ! i))"
    unfolding big d by (simp add: entryDigits_def)
  have "drop (76 + 56 * i) (manifestDigits c es) = drop 40 (drop (56 * i) ?t)"
    using big [of "40 + 56 * i"] by (simp add: add.commute)
  also have "\<dots> = drop 40 (drop 2 (peyAccount (es ! i)) @ hexDigits 16 (nat (peyWeight (es ! i))) @
      concat (map entryDigits (drop (Suc i) es)))" by (simp add: d entryDigits_def)
  finally show "take 16 (drop (76 + 56 * i) (manifestDigits c es)) = hexDigits 16 (nat (peyWeight (es ! i)))"
    using take_drop_mid [of "drop 2 (peyAccount (es ! i))" 40 "hexDigits 16 (nat (peyWeight (es ! i)))" 16]
      acc i by simp
qed

section \<open>The round trip\<close>

definition accountBytes :: "PriorEntry \<Rightarrow> bool" where
  "accountBytes e \<longleftrightarrow> isBytes (peyAccount e) \<and> length (peyAccount e) = 42"

lemma PriorEntry_eqI: "peyAccount a = peyAccount b \<Longrightarrow> peyWeight a = peyWeight b \<Longrightarrow> a = (b :: PriorEntry)"
  by (cases a; cases b) simp

lemma hexDigits_fits: "fits64 x \<Longrightarrow> foldl hexStep 0 (hexDigits 16 (nat x)) = x"
  using foldl_hexStep_digits [of "nat x" 16 0] by (simp add: fits64_def nat_less_iff)

lemma isBytes_manifest:
  "\<forall>e \<in> set es. accountBytes e \<Longrightarrow> isBytes (''0x'' @ manifestDigits c es)"
proof -
  assume a: "\<forall>e \<in> set es. accountBytes e"
  then have "length (manifestDigits c es) = 36 + 56 * length es" by (intro manifestDigits_fields(5)) (simp add: accountBytes_def)
  moreover have "list_all isHexDigit (concat (map entryDigits es))"
    using a by (induction es) (auto simp: entryDigits_def accountBytes_def isBytes_def hexDigits_ok)
  moreover have "list_all isHexDigit ''54475750''" by code_simp
  ultimately show ?thesis by (simp add: isBytes_def manifestDigits_def hexDigits_ok)
qed

lemma parse_of_digits:
  assumes V: "bytesLaw V" and es: "\<forall>e \<in> set es. accountBytes e \<and> fits64 (peyWeight e)" and v: "validPrior es"
    and c: "fits64 c"
  shows "parseManifest V (''0x'' @ manifestDigits c es) = Inr (c, es)"
proof -
  let ?m = "''0x'' @ manifestDigits c es"
  have b: "isBytes ?m" using es by (intro isBytes_manifest) simp
  have acc: "\<forall>e \<in> set es. length (peyAccount e) = 42" using es by (simp add: accountBytes_def)
  note f = manifestDigits_fields [OF acc, where c = c]
  have n: "length es \<le> 2048" using v by (simp add: validPrior_def MAX_PRIOR_ENTRIES_def)
  then have cnt: "foldl hexStep 0 (hexDigits 8 (length es)) = int (length es)"
    using foldl_hexStep_digits [of "length es" 8 0] by simp
  have one: "foldl hexStep 0 (hexDigits 4 1) = 1" using foldl_hexStep_digits [of 1 4 0] by simp
  have entry: "entryAt (manifestDigits c es) i = es ! i" if i: "i < length es" for i
  proof (rule PriorEntry_eqI)
    have e: "accountBytes (es ! i)" "fits64 (peyWeight (es ! i))" using es i by auto
    show "peyAccount (entryAt (manifestDigits c es) i) = peyAccount (es ! i)"
      using isBytes_eq [of "peyAccount (es ! i)"] e by (simp add: entryAt_def f(6) [OF i] accountBytes_def)
    show "peyWeight (entryAt (manifestDigits c es) i) = peyWeight (es ! i)"
      using e by (simp add: entryAt_def f(7) [OF i] hexDigits_fits)
  qed
  have list: "es = map (entryAt (manifestDigits c es)) [0..<length es]"
    by (rule nth_equalityI) (simp_all add: entry)
  have "es \<noteq> []" using v by (simp add: validPrior_def)
  then show ?thesis
    unfolding parseManifest_digits [OF V b refl]
    using f(1-5) cnt one n v c list by (simp add: hexDigits_fits MAX_PRIOR_ENTRIES_def Suc_le_eq)
qed

lemma digits_split: "length x = i \<Longrightarrow> x = take i x" by simp

lemma digits_of_parse:
  assumes V: "bytesLaw V" and m: "isBytes m" and p: "parseManifest V m = Inr (c, es)"
  shows "validPrior es" and "fits64 c" and "\<forall>e \<in> set es. accountBytes e \<and> fits64 (peyWeight e)"
    and "m = ''0x'' @ manifestDigits c es"
proof -
  define ds where "ds = drop 2 m"
  let ?ds = ds and ?n = "nat (foldl hexStep 0 (take 8 (drop 28 ds)))"
  note r = p [unfolded parseManifest_digits [OF V m ds_def]]
  have n: "foldl hexStep 0 (take 8 (drop 28 ?ds)) = int ?n" using r by simp
  have len: "length ?ds = 36 + 56 * ?n" using r by (elim conjE) linarith
  have es: "es = map (entryAt ?ds) [0..<?n]" using r by blast
  then have les: "length es = ?n" by simp
  have hex: "list_all isHexDigit (take k (drop i ?ds))" for k i
  proof -
    have "\<forall>x \<in> set ds. isHexDigit x" using m by (simp add: ds_def isBytes_def list_all_iff)
    moreover have "set (take k (drop i ds)) \<subseteq> set ds" using set_take_subset set_drop_subset by fastforce
    ultimately show ?thesis by (auto simp: list_all_iff)
  qed
  have num: "hexDigits k (nat (foldl hexStep 0 (take k (drop i ?ds)))) = take k (drop i ?ds) \<and>
      0 \<le> foldl hexStep 0 (take k (drop i ?ds)) \<and> foldl hexStep 0 (take k (drop i ?ds)) < 16 ^ k"
    if "i + k \<le> length ?ds" for i k
    using hexDigits_number [OF hex, of k i] that by simp
  have fits: "fits64 (foldl hexStep 0 (take 16 (drop i ?ds)))" if "i + 16 \<le> length ?ds" for i
    using num [OF that] by (simp add: fits64_def)
  show "validPrior es" using r by blast
  have c: "c = foldl hexStep 0 (take 16 (drop 12 ?ds))" using r by blast
  have "12 + 16 \<le> length ds" using len by linarith
  then show "fits64 c" unfolding c by (rule fits)
  have entry: "accountBytes (entryAt ?ds i) \<and> fits64 (peyWeight (entryAt ?ds i)) \<and>
      entryDigits (entryAt ?ds i) = take 56 (drop (36 + 56 * i) ?ds)" if i: "i < ?n" for i
  proof -
    have b: "36 + 56 * i + 56 \<le> length ?ds" using i len by linarith
    have "take 56 (drop (36 + 56 * i) ?ds) = take 40 (drop (36 + 56 * i) ?ds) @ take 16 (drop (76 + 56 * i) ?ds)"
      using take_add [of 40 16 "drop (36 + 56 * i) ?ds"] by (simp add: add.commute add.left_commute)
    moreover have "76 + 56 * i + 16 \<le> length ?ds" using b by simp
    ultimately have w: "entryDigits (entryAt ds i) = take 56 (drop (36 + 56 * i) ds)" "fits64 (peyWeight (entryAt ds i))"
      using num [of "76 + 56 * i" 16] fits [of "76 + 56 * i"] unfolding entryDigits_def entryAt_def by simp_all
    have "length (take 40 (drop (36 + 56 * i) ds)) = 40" using b by simp
    then have "accountBytes (entryAt ds i)"
      using hex [of 40 "36 + 56 * i"] unfolding accountBytes_def isBytes_def entryAt_def by simp
    with w show ?thesis by blast
  qed
  then show "\<forall>e \<in> set es. accountBytes e \<and> fits64 (peyWeight e)" using es by auto
  have "drop 36 ?ds = concat (map (\<lambda>i. take 56 (drop (36 + 56 * i) ?ds)) [0..<?n])"
  proof -
    have "length x = 56 * k \<Longrightarrow> x = concat (map (\<lambda>i. take 56 (drop (56 * i) x)) [0..<k])" for x :: string and k
    proof (induction k arbitrary: x)
      case (Suc k)
      have "drop 56 x = concat (map (\<lambda>i. take 56 (drop (56 * i) (drop 56 x))) [0..<k])"
        by (rule Suc.IH) (use Suc.prems in simp)
      also have "\<dots> = concat (map (\<lambda>i. take 56 (drop (56 * i) x)) [1..<Suc k])"
        by (simp add: map_Suc_upt [symmetric] comp_def add.commute del: upt_Suc)
      finally have "x = take 56 x @ concat (map (\<lambda>i. take 56 (drop (56 * i) x)) [1..<Suc k])"
        by (metis append_take_drop_id)
      moreover have "[0..<Suc k] = 0 # [1..<Suc k]" by (simp add: upt_rec)
      ultimately show ?case by (simp del: upt_Suc)
    qed simp
    moreover have "length (drop 36 ds) = 56 * ?n" using len by (simp only: length_drop)
    ultimately have "drop 36 ds = concat (map (\<lambda>i. take 56 (drop (56 * i) (drop 36 ds))) [0..<?n])" by blast
    then show ?thesis unfolding drop_drop add.commute [of _ 36] .
  qed
  also have "\<dots> = concat (map entryDigits es)"
    unfolding es map_map by (intro arg_cong [where f = concat] map_cong) (auto simp: entry)
  finally have tail: "drop 36 ?ds = concat (map entryDigits es)" .
  have s: "take 8 (drop 28 ds) @ drop 36 ds = drop 28 ds" "take 16 (drop 12 ds) @ drop 28 ds = drop 12 ds"
    "take 4 (drop 8 ds) @ drop 12 ds = drop 8 ds" "take 8 ds @ drop 8 ds = ds"
    using append_take_drop_id [of 8 "drop 28 ds"] append_take_drop_id [of 16 "drop 12 ds"]
      append_take_drop_id [of 4 "drop 8 ds"] by simp_all
  have bounds: "8 + 4 \<le> length ds" "12 + 16 \<le> length ds" "28 + 8 \<le> length ds" using len by linarith+
  have v: "foldl hexStep 0 (take 4 (drop 8 ds)) = 1" "take 8 ds = ''54475750''" using r by blast+
  have parts: "hexDigits 4 1 = take 4 (drop 8 ds)" "hexDigits 16 (nat c) = take 16 (drop 12 ds)"
    "hexDigits 8 (length es) = take 8 (drop 28 ds)"
    using num [OF bounds(1)] num [OF bounds(2)] num [OF bounds(3)] unfolding v(1) c les by simp_all
  have "ds = take 8 ds @ take 4 (drop 8 ds) @ take 16 (drop 12 ds) @ take 8 (drop 28 ds) @ drop 36 ds"
    unfolding s ..
  also have "\<dots> = manifestDigits c es"
    unfolding manifestDigits_def parts tail [symmetric] v(2) ..
  finally show "m = ''0x'' @ manifestDigits c es" using isBytes_eq [OF m] by (simp add: ds_def)
qed

end
