(* ===== verification/ComputeProps.thy ===== *)
theory ComputeProps
  imports Compute
begin

text \<open>
  The properties of the pipeline: it returns on every encodable input, pays out the pool to reachable
  accounts only, and its simulated inclusion proofs verify.
\<close>

section \<open>Distribution inside the pipeline\<close>

lemma map_list_update_same: "i < length xs \<Longrightarrow> f y = f (xs ! i) \<Longrightarrow> map f (xs[i := y]) = map f xs"
  by (metis list_update_id map_update nth_map)

lemma payRows_keys: "map prKey (payRows rows is) = map prKey rows"
proof (induction "is" arbitrary: rows)
  case (Cons i "is")
  have "map prKey (rows[i := (rows ! i)\<lparr>prValue := prValue (rows ! i) + 1\<rparr>]) = map prKey rows"
    by (cases "i < length rows") (simp_all add: map_list_update_same list_update_beyond)
  with Cons show ?case by (simp add: payRows_def)
qed (simp add: payRows_def)

lemma distributePoints_keys:
  assumes "distributePoints scores p = Inr (assigned, t)"
  shows "set (jkeys assigned) \<subseteq> fst ` set scores"
proof (cases "length (pointScores scores) = 0 \<or> totalPool p = 0")
  case True
  with assms show ?thesis by (auto simp: distributePoints_def Let_def split: if_splits)
next
  case False
  from assms False obtain D rows ixs where rows: "mapE (pointRow (totalPool p) D) (pointScores scores) = Inr rows"
    and "assigned = map (\<lambda>row. (prKey row, prValue row)) (filter (\<lambda>row. prValue row > 0) (payRows rows ixs))"
    by (auto simp: distributePoints_def Let_def split: if_splits)
  then have "set (jkeys assigned) \<subseteq> set (map prKey (payRows rows ixs))" by auto
  also have "\<dots> = set (map prKey rows)" by (simp only: payRows_keys)
  also have "map prKey rows = map fst (pointScores scores)"
    by (rule mapE_map [OF rows]) (auto simp: pointRow_def Let_def)
  finally show ?thesis by (auto simp: pointScores_def)
qed

text \<open>The ranker's nonzero scores are scorable when the parameters are valid.\<close>

lemma ranked_scorable:
  assumes v: "validParams p" and ok: "scoresOk p (rankNodesOf g p) scores"
  shows "scorable (filter (\<lambda>(k, v). v \<noteq> 0) scores)"
proof -
  have keys: "jkeys scores = rankNodesOf g p" using ok by (simp add: scoresOk_def)
  have "\<forall>k \<in> set (rankNodesOf g p). canonical k" by (auto simp: set_rankNodes set_rankSeeds)
  moreover have "distinct (jkeys scores)" by (simp add: keys)
  moreover have "claimTotal (filter (\<lambda>(_, v). v > 0) (filter (\<lambda>(k, v). v \<noteq> 0) scores)) \<le> U256_MAX"
  proof -
    have "sumOf snd (filter (\<lambda>e. snd e > 0) (filter (\<lambda>e. snd e \<noteq> 0) scores)) = sumOf snd scores"
    proof -
      have "sumOf snd (filter (\<lambda>e. snd e \<noteq> 0 \<and> 0 < snd e) scores) = sumOf snd scores"
        using ok by (intro sumOf_filter_zero) (force simp: scoresOk_def)
      then show ?thesis by simp
    qed
    with ok v show ?thesis by (simp add: claimTotal_def case_prod_beta scoresOk_def validParams_def)
  qed
  moreover have "set (map fst (filter (\<lambda>(k, v). v \<noteq> 0) scores)) \<subseteq> set (jkeys scores)" by auto
  ultimately show ?thesis
    using keys unfolding scorable_def by (metis (no_types, lifting) distinct_map_filter subsetD)
qed

text \<open>The inputs whose computation is guaranteed: encodable edges and parameters.\<close>

definition computable :: "viem \<Rightarrow> GuestInput \<Rightarrow> bool" where
  "computable V i \<longleftrightarrow> (let p = giParams i in
     validParams p \<and> 0 \<le> minWeightFp p \<and> minWeightFp p \<le> maxWeightFp p \<and>
     maxWeightFp p * int (length (giEdges i)) \<le> U256_MAX \<and>
     0 \<le> totalPool p \<and> totalPool p \<le> U256_MAX \<and>
     (\<exists>a. accumulate V (giEdges i) = Inr a) \<and> (\<exists>h. paramsHash V p = Inr h) \<and>
     (\<forall>e \<in> set (giEdges i). length (eAttester e) \<le> 66 \<and> length (eRecipient e) \<le> 66) \<and>
     (\<forall>a \<in> set (trustedSeeds p). length a \<le> 66))"

lemma graph_nodes_events:
  assumes "buildGraph V es p = Inr g" and "n \<in> set (gNodes g)"
  shows "\<exists>e \<in> set es. n = toLowerCase (eAttester e) \<or> n = toLowerCase (eRecipient e)"
proof -
  from assms(1) obtain cur where c: "currentEdges V p es = Inr cur" and g: "g = graphOf cur"
    by (auto simp: buildGraph_def)
  have inv: "currentInv cur" by (rule currentEdges_inv [OF c])
  from assms(2) obtain a rs r edge where n: "(a, rs) \<in> set cur" "n = a \<or> n \<in> set (jkeys rs)"
    unfolding g graphOf_nodes by auto
  have rs: "rs \<noteq> []" "distinct (jkeys cur)" "distinct (jkeys rs)" using inv n(1) by (auto simp: currentInv_def jmapInv_def)
  obtain r where r: "r \<in> set (jkeys rs)" "n = a \<or> n = r"
  proof (cases "n = a")
    case True
    have "fst (hd rs) \<in> set (jkeys rs)" using rs(1) by simp
    with True that show ?thesis by blast
  next
    case False
    with n(2) that show ?thesis by blast
  qed
  have "jget cur a = Some rs" using n(1) rs(2) by simp
  moreover obtain x where "jget rs r = Some x" using jget_key [OF r(1)] by blast
  ultimately have "edgeAt cur a r \<noteq> None" by (simp add: edgeAt_def)
  then have "pairRun V p a r (orderedEvents es) \<noteq> None" unfolding currentEdges_pairRun [OF c] .
  then have "filter (ofPair a r) (orderedEvents es) \<noteq> []" by (auto simp: pairRun_def)
  then obtain e where "e \<in> set (orderedEvents es)" "ofPair a r e" by (auto simp: filter_empty_conv)
  moreover have "set (orderedEvents es) = set es" by (metis mset_orderedEvents set_mset_mset)
  ultimately show ?thesis using r(2) by (auto simp: ofPair_def)
qed

lemma outputLeaf_total:
  assumes "padLaw V" and "toHexLaw V" and "length a \<le> 66" and "0 \<le> v" and "v \<le> U256_MAX"
  shows "\<exists>l. outputLeaf V a v = Inr l"
proof -
  have "\<exists>h. wordAddr V a = Inr h" using assms(1,3) by (simp add: wordAddr_def padLaw_def)
  moreover have "v < 256 ^ 32" using assms(5) by (simp add: U256_MAX_def)
  then have "\<exists>h. wordU256 V v = Inr h" using assms(2,4) by (simp add: wordU256_def toHexLaw_def)
  ultimately show ?thesis by (auto simp: outputLeaf_def Let_def)
qed

lemma cidV1Raw_sha: "\<exists>c. cidV1Raw (sha256Utf8 V s) = Inr c"
  by (simp add: cidV1Raw_def sha256Utf8_def)

lemma sortBy_sorted_keys:
  assumes "sorted_wrt (<) (map fst xs)" and "\<forall>k \<in> set (map fst xs). canonical k"
  shows "sortBy (\<lambda>a b. cmpHex (fst a) (fst b)) xs = xs"
proof (rule hexfst.sortBy_idem)
  have "map (\<lambda>r. toLowerCase (fst r)) xs = map fst xs" using assms(2) by (simp add: canonicalD)
  moreover have "sorted (map fst xs)" using assms(1) strict_sorted_iff by blast
  ultimately show "sorted (map (\<lambda>r. toLowerCase (fst r)) xs)" by (simp only:)
qed

text \<open>The ranker and the distribution on a rankable graph; every program of the family ends with them.\<close>

lemma points_run:
  assumes v: "validParams p" and g: "rankable g p" "jmapInv (gOutgoing g)" and pool: "0 \<le> totalPool p"
  shows "\<exists>rank assigned tot. calculateDetailed g p = Inr rank \<and>
    distributePoints (filter (\<lambda>(k, v). v \<noteq> 0) (rrScores rank)) p = Inr (assigned, tot) \<and>
    sumOf snd assigned = tot \<and> sorted_wrt (<) (jkeys assigned) \<and> set (jkeys assigned) \<subseteq> set (rankNodesOf g p) \<and>
    (\<forall>(k, v) \<in> set assigned. 0 < v) \<and> tot \<in> {0, totalPool p} \<and>
    sortBy (\<lambda>a b. cmpHex (fst a) (fst b)) assigned = assigned"
proof -
  obtain rank where rk: "calculateDetailed g p = Inr rank" and ok: "scoresOk p (rankNodesOf g p) (rrScores rank)"
    using run_total [OF v g] by blast
  have keys: "jkeys (rrScores rank) = rankNodesOf g p" using ok by (simp add: scoresOk_def)
  have can: "\<forall>k \<in> set (rankNodesOf g p). canonical k" by (auto simp: set_rankNodes set_rankSeeds)
  let ?f = "filter (\<lambda>(k, v). v \<noteq> 0) (rrScores rank)"
  from distributePoints_facts [OF ranked_scorable [OF v ok] pool] obtain assigned tot where
    d: "distributePoints ?f p = Inr (assigned, tot)" "sumOf snd assigned = tot" "sorted_wrt (<) (jkeys assigned)"
      "set (jkeys assigned) \<subseteq> fst ` set ?f" "\<forall>(k, v) \<in> set assigned. 0 < v"
    and t: "tot = (if filter (\<lambda>(_, v). v > 0) ?f = [] then 0 else totalPool p)" by blast
  have tot: "tot \<in> {0, totalPool p}" unfolding t by (cases "filter (\<lambda>(_, v). v > 0) ?f = []") simp_all
  have "fst ` set ?f \<subseteq> set (jkeys (rrScores rank))" by auto
  then have nodes: "set (jkeys assigned) \<subseteq> set (rankNodesOf g p)" using d(4) unfolding keys by blast
  then have "sortBy (\<lambda>a b. cmpHex (fst a) (fst b)) assigned = assigned"
    using d(3) can by (intro sortBy_sorted_keys) auto
  with rk d nodes tot show ?thesis by blast
qed

lemma points_value:
  assumes "\<forall>(k, v) \<in> set assigned. 0 < v" and "sumOf snd assigned = tot" and "tot \<in> {0, P}"
    and "P \<le> U256_MAX" and m: "(a, x) \<in> set assigned"
  shows "0 \<le> x \<and> x \<le> U256_MAX"
proof
  have nn: "0 \<le> snd e" if "e \<in> set assigned" for e using that assms(1) by fastforce
  then show "0 \<le> x" using m by fastforce
  have "x \<le> sumOf snd assigned" using sumOf_member [of assigned snd "(a, x)"] nn m by simp
  with assms(2-4) show "x \<le> U256_MAX" by (auto simp: U256_MAX_def)
qed

lemma points_reachable:
  assumes rk: "calculateDetailed g p = Inr rank" and trust: "hasTrustEnabled p"
    and d: "distributePoints (filter (\<lambda>(k, v). v \<noteq> 0) (rrScores rank)) p = Inr (assigned, t)"
    and a: "a \<in> set (jkeys assigned)"
  shows "\<exists>k. trustWalk g (rankSeeds p) k a"
proof -
  from a distributePoints_keys [OF d] obtain x where x: "(a, x) \<in> set (rrScores rank)" "x \<noteq> 0" by auto
  have "rankNodesOf g p \<noteq> []"
    using trust by (auto simp: hasTrustEnabled_def set_rankNodes set_rankSeeds simp flip: set_empty)
  then have "distinct (jkeys (rrScores rank))" using run_keys [OF rk] by simp
  with x have "jget (rrScores rank) a = Some x" by simp
  with run_unreachable [OF trust rk] x(2) show ?thesis by blast
qed

lemma compute_run:
  assumes c: "computable V i" and laws: "padLaw V" "toHexLaw V"
  shows "\<exists>r. compute V i = Inr r \<and> sumOf snd (crScores r) = jTotalValue (crJournal r) \<and>
    sorted_wrt (<) (jkeys (crScores r)) \<and> (\<forall>(a, v) \<in> set (crScores r). 0 < v) \<and>
    jTotalValue (crJournal r) \<in> {0, totalPool (giParams i)}"
proof -
  let ?p = "giParams i" and ?es = "giEdges i"
  from c obtain acc n ph where ac: "accumulate V ?es = Inr (acc, n)" and ph: "paramsHash V ?p = Inr ph"
    by (auto simp: computable_def Let_def)
  have v: "validParams ?p" and w: "0 \<le> minWeightFp ?p" "minWeightFp ?p \<le> maxWeightFp ?p"
    "maxWeightFp ?p * int (length ?es) \<le> U256_MAX" and pool: "0 \<le> totalPool ?p" "totalPool ?p \<le> U256_MAX"
    and short: "\<forall>e \<in> set ?es. length (eAttester e) \<le> 66 \<and> length (eRecipient e) \<le> 66"
      "\<forall>a \<in> set (trustedSeeds ?p). length a \<le> 66"
    using c by (auto simp: computable_def Let_def)
  obtain g where g: "buildGraph V ?es ?p = Inr g"
    using buildGraph_total [of ?p V ?es] v by (auto simp: validParams_def)
  obtain rank assigned tot where rk: "calculateDetailed g ?p = Inr rank"
    and d: "distributePoints (filter (\<lambda>(k, v). v \<noteq> 0) (rrScores rank)) ?p = Inr (assigned, tot)"
      "sumOf snd assigned = tot" "sorted_wrt (<) (jkeys assigned)" "set (jkeys assigned) \<subseteq> set (rankNodesOf g ?p)"
      "\<forall>(k, v) \<in> set assigned. 0 < v" "tot \<in> {0, totalPool ?p}"
    and srt: "sortBy (\<lambda>a b. cmpHex (fst a) (fst b)) assigned = assigned"
    using points_run [OF v buildGraph_rankable [OF g w] pool(1)] by blast
  have len: "length k \<le> 66" if "k \<in> set (rankNodesOf g ?p)" for k
  proof -
    from that consider n where "n \<in> set (gNodes g)" "k = toLowerCase n" | s where "s \<in> set (trustedSeeds ?p)" "k = toLowerCase s"
      unfolding set_rankNodes set_rankSeeds by blast
    then show ?thesis
    proof cases
      case 1
      from graph_nodes_events [OF g 1(1)] 1(2) short(1) show ?thesis by auto
    next
      case 2
      with short(2) show ?thesis by simp
    qed
  qed
  have leaf: "\<exists>l. outputLeaf V a x = Inr l" if m: "(a, x) \<in> set assigned" for a x
  proof (rule outputLeaf_total [OF laws])
    show "length a \<le> 66" using m d(4) len by force
    show "0 \<le> x" "x \<le> U256_MAX" using points_value [OF d(5,2,6) pool(2) m] by auto
  qed
  then obtain leaves where ls: "mapE (\<lambda>(a, v). outputLeaf V a v) assigned = Inr leaves"
    using mapE_ok_iff [of "\<lambda>(a, v). outputLeaf V a v" assigned] by fastforce
  obtain root where root: "merkleRoot V leaves = Inr root" using merkleRoot_total by blast
  obtain cid where cid: "cidV1Raw (sha256Utf8 V (canonicalBlob assigned)) = Inr cid" using cidV1Raw_sha by blast
  show ?thesis
    using ac ph g rk d srt ls root cid by (simp add: compute_def Let_def)
qed

section \<open>Inclusion proofs of the simulation\<close>

lemma entries_verify:
  assumes V: "digestLaw V" and leaves: "mapE (\<lambda>(a, v). outputLeaf V a v) scores = Inr leaves"
    and root: "merkleRoot V leaves = Inr root"
  shows "\<exists>entries. merkleEntriesForScores V scores = Inr entries \<and>
    map (\<lambda>e. (peAccount e, peValue e)) entries = scores \<and>
    (\<forall>e \<in> set entries. \<exists>l. outputLeaf V (peAccount e) (peValue e) = Inr l \<and>
       processProof (hashPair V) (peProof e) l = root)"
proof -
  let ?mk = "\<lambda>(a, v). bindE (outputLeaf V a v) (\<lambda>leaf. Inr (a, v, leaf))"
  have "mapE (\<lambda>(a, v). outputLeaf V a v) xs = Inr ys \<Longrightarrow> \<exists>ts. mapE ?mk xs = Inr ts \<and>
      map (\<lambda>(a, v, l). l) ts = ys \<and> map (\<lambda>(a, v, l). (a, v)) ts = xs \<and> (\<forall>(a, v, l) \<in> set ts. outputLeaf V a v = Inr l)"
    for xs ys by (induction xs arbitrary: ys) fastforce+
  from this [OF leaves] obtain ts where ts: "mapE ?mk scores = Inr ts" "map (\<lambda>(a, v, l). l) ts = leaves"
    "map (\<lambda>(a, v, l). (a, v)) ts = scores" "\<forall>(a, v, l) \<in> set ts. outputLeaf V a v = Inr l" by blast
  obtain tree where tree: "buildTree V leaves = Inr tree" using buildTree_total by blast
  have can: "\<forall>l \<in> set leaves. canonical l"
    using V leaves by (auto elim!: mapE_setE simp: outputLeaf_def Let_def digestLaw_def isWord_def split: prod.splits)
  have pr: "\<exists>pr. proofFor tree l = Some pr \<and> processProof (hashPair V) pr l = root" if "l \<in> set leaves" for l
    using proof_complete [OF V can tree root that] by blast
  define entry where "entry t = (case t of (a, v, l) \<Rightarrow>
    \<lparr>peAccount = a, peValue = v, peProof = the (proofFor tree l)\<rparr>)" for t :: "hex \<times> int \<times> hex"
  have mem: "l \<in> set leaves" if "(a, v, l) \<in> set ts" for a v l using that ts(2) by force
  have "mapE (\<lambda>(account, v, leaf). case proofFor tree leaf of
           None \<Rightarrow> Inl (PlainError (''Failed to construct simulated proof for '' @ account))
         | Some pr \<Rightarrow> Inr \<lparr>peAccount = account, peValue = v, peProof = pr\<rparr>) ts = Inr (map entry ts)"
  proof (rule mapE_total)
    fix t assume "t \<in> set ts"
    moreover obtain a v l where "t = (a, v, l)" by (cases t)
    ultimately show "(case t of (account, v, leaf) \<Rightarrow> case proofFor tree leaf of
           None \<Rightarrow> Inl (PlainError (''Failed to construct simulated proof for '' @ account))
         | Some pr \<Rightarrow> Inr \<lparr>peAccount = account, peValue = v, peProof = pr\<rparr>) = Inr (entry t)"
      using pr mem by (fastforce simp: entry_def)
  qed
  then have run: "merkleEntriesForScores V scores = Inr (map entry ts)"
    using ts(1) ts(2) tree by (simp add: merkleEntriesForScores_def case_prod_beta)
  have "map (\<lambda>e. (peAccount e, peValue e)) (map entry ts) = scores"
    using ts(3) by (auto simp: entry_def case_prod_beta comp_def)
  moreover have "\<exists>l. outputLeaf V (peAccount e) (peValue e) = Inr l \<and> processProof (hashPair V) (peProof e) l = root"
    if "e \<in> set (map entry ts)" for e
  proof -
    from that obtain a v l where t: "(a, v, l) \<in> set ts" and e: "e = entry (a, v, l)" by auto
    from pr [OF mem [OF t]] obtain q where "proofFor tree l = Some q" "processProof (hashPair V) q l = root" by blast
    with t e ts(4) show ?thesis by (auto simp: entry_def)
  qed
  ultimately show ?thesis using run by blast
qed

section \<open>Properties\<close>

text \<open>
  C4: The whole computation returns for every encodable input with valid parameters, and what it
  commits to adds up: the points listed, strictly ordered by account and each positive, sum to the
  journal's total, which is the pool, or zero when nobody scored or the pool is empty.
\<close>
theorem compute_total_and_conserving:
  assumes "computable V i" and "padLaw V" and "toHexLaw V"
  shows "\<exists>r. compute V i = Inr r \<and> sumOf snd (crScores r) = jTotalValue (crJournal r) \<and>
    sorted_wrt (<) (jkeys (crScores r)) \<and> (\<forall>(a, v) \<in> set (crScores r). 0 < v) \<and>
    jTotalValue (crJournal r) \<in> {0, totalPool (giParams i)}"
  using compute_run [OF assms] .

text \<open>
  C5: When trust is enabled, that is when a seed is given, points reach end to end only accounts that a chain of
  eligible attestations joins to a trusted seed.  Without seeds the program ranks every account alike and the property
  says nothing.
\<close>
theorem compute_pays_reachable_only:
  assumes "compute V i = Inr r" and "hasTrustEnabled (giParams i)" and "(a, v) \<in> set (crScores r)"
  shows "\<exists>g k. buildGraph V (giEdges i) (giParams i) = Inr g \<and> trustWalk g (rankSeeds (giParams i)) k a"
  using assms(1)
proof (rule compute_cases)
  fix g rank assigned t leaves
  assume g: "buildGraph V (giEdges i) (giParams i) = Inr g"
    and rk: "calculateDetailed g (giParams i) = Inr rank"
    and d: "distributePoints (filter (\<lambda>(k, v). v \<noteq> 0) (rrScores rank)) (giParams i) = Inr (assigned, t)"
    and s: "crScores r = sortBy (\<lambda>a b. cmpHex (fst a) (fst b)) assigned"
  have "a \<in> set (jkeys assigned)" using assms(3) s by force
  from points_reachable [OF rk assms(2) d this] g show ?thesis by blast
qed

text \<open>
  The proof-bearing rows of a simulation: for every computed result they exist, list exactly the
  scored accounts, and each proof folds the account's leaf to the output root of the journal.
\<close>
lemma simulated_proofs_verify:
  assumes "digestLaw V" and "compute V i = Inr r"
  shows "\<exists>entries. merkleEntriesForScores V (crScores r) = Inr entries \<and>
    map (\<lambda>e. (peAccount e, peValue e)) entries = crScores r \<and>
    (\<forall>e \<in> set entries. \<exists>l. outputLeaf V (peAccount e) (peValue e) = Inr l \<and>
       processProof (hashPair V) (peProof e) l = jOutputRoot (crJournal r))"
  using assms(2) by (rule compute_cases) (rule entries_verify [OF assms(1)])

section \<open>A concrete input\<close>

definition exampleInput :: GuestInput where
  "exampleInput = \<lparr>giEdges = exampleEvents, giParams = exampleParams\<lparr>minWeightFp := 7\<rparr>, giBinding = None\<rparr>"

lemma example_word: "0 \<le> x \<Longrightarrow> x < 256 ^ 32 \<Longrightarrow> \<exists>h. toHexSized exampleViem x 32 = Inr h"
  by simp

lemma example_accumulate: "\<exists>a. accumulate exampleViem exampleEvents = Inr a"
  by (simp add: accumulate_def accumulateStep_def edgeLeaf_def edgeLeafEncoded_def concatE_def exampleEvents_def
      exampleEvent_def wordU8_def wordAddr_def wordU256_def Let_def del: hexDigits.simps)

lemma example_paramsHash: "\<exists>h. paramsHash exampleViem (exampleParams\<lparr>minWeightFp := 7\<rparr>) = Inr h"
proof -
  obtain root where "seedSetRoot exampleViem (sortBy cmpSeed [''0xA'']) = Inr root"
    using merkleRoot_total by (fastforce simp: seedSetRoot_def wordAddr_def)
  then show ?thesis
    by (simp add: paramsHash_def paramsEncoded_def concatE_def exampleParams_def PARAMS_SCHEMA_VERSION_def wordU256_def
      wordU32_def wordU64_def wordAddr_def domainSetHash_def orDefault_def del: hexDigits.simps)
qed

lemma example_computable: "computable exampleViem exampleInput"
proof -
  have "validParams (exampleParams\<lparr>minWeightFp := 7\<rparr>)" by code_simp
  moreover have "maxWeightFp exampleParams * int (length exampleEvents) \<le> U256_MAX" by code_simp
  moreover have "\<forall>e \<in> set exampleEvents. length (eAttester e) \<le> 66 \<and> length (eRecipient e) \<le> 66" by code_simp
  ultimately show ?thesis
    using example_accumulate example_paramsHash
    by (simp add: computable_def exampleInput_def exampleParams_def U256_MAX_def)
qed

theorem compute_total_and_conserving_witness:
  "\<exists>r. compute exampleViem exampleInput = Inr r \<and> sumOf snd (crScores r) = jTotalValue (crJournal r) \<and>
    sorted_wrt (<) (jkeys (crScores r)) \<and> (\<forall>(a, v) \<in> set (crScores r). 0 < v) \<and>
    jTotalValue (crJournal r) \<in> {0, totalPool (giParams exampleInput)}"
  by (rule compute_total_and_conserving) (use example_computable in simp_all)

lemma example_pipeline:
  assumes "compute exampleViem exampleInput = Inr r"
  shows "crScores r = [(''0xa'', 153), (''0xb'', 178), (''0xc'', 669)]"
  using assms
proof (rule compute_cases)
  fix g rank assigned t leaves
  assume g: "buildGraph exampleViem (giEdges exampleInput) (giParams exampleInput) = Inr g"
    and rk: "calculateDetailed g (giParams exampleInput) = Inr rank"
    and d: "distributePoints (filter (\<lambda>(k, v). v \<noteq> 0) (rrScores rank)) (giParams exampleInput) = Inr (assigned, t)"
    and s: "crScores r = sortBy (\<lambda>a b. cmpHex (fst a) (fst b)) assigned"
  let ?s = "[(''0xa'', 153), (''0xb'', 178), (''0xc'', 669)] :: (hex \<times> int) list"
  have "g = exampleBuilt" using g example_built by (simp add: exampleInput_def)
  moreover have "calculateDetailed exampleBuilt (exampleParams\<lparr>minWeightFp := 7\<rparr>) =
    Inr \<lparr>rrScores = ?s, rrIterations = 2, rrConverged = False\<rparr>" by code_simp
  ultimately have rank: "rrScores rank = ?s" using rk by (auto simp: exampleInput_def)
  have "distributePoints (filter (\<lambda>(k, v). v \<noteq> 0) ?s) (exampleParams\<lparr>minWeightFp := 7\<rparr>) = Inr (?s, 1000)"
    by code_simp
  with d rank have a: "assigned = ?s" by (simp add: exampleInput_def)
  have "sortBy (\<lambda>a b. cmpHex (fst a) (fst b)) ?s = ?s" by code_simp
  with s a show ?thesis by (simp only:)
qed

theorem compute_pays_reachable_only_witness:
  "\<exists>g k. buildGraph exampleViem (giEdges exampleInput) (giParams exampleInput) = Inr g \<and>
     trustWalk g (rankSeeds (giParams exampleInput)) k ''0xc''"
proof -
  obtain r where r: "compute exampleViem exampleInput = Inr r"
    using compute_run [OF example_computable] by auto
  have "hasTrustEnabled (giParams exampleInput)" by (simp add: hasTrustEnabled_def exampleInput_def exampleParams_def)
  moreover have "(''0xc'', 669) \<in> set (crScores r)" using example_pipeline [OF r] by simp
  ultimately show ?thesis by (rule compute_pays_reachable_only [OF r])
qed

lemma simulated_proofs_verify_witness:
  "\<exists>r entries. compute exampleViem exampleInput = Inr r \<and>
    merkleEntriesForScores exampleViem (crScores r) = Inr entries \<and> map peAccount entries = [''0xa'', ''0xb'', ''0xc'']"
proof -
  obtain r where r: "compute exampleViem exampleInput = Inr r"
    using compute_run [OF example_computable] by auto
  have "digestLaw exampleViem" by simp
  from simulated_proofs_verify [OF this r] obtain entries where
    e: "merkleEntriesForScores exampleViem (crScores r) = Inr entries"
    "map (\<lambda>e. (peAccount e, peValue e)) entries = crScores r" by blast
  have "map peAccount entries = map fst (map (\<lambda>e. (peAccount e, peValue e)) entries)" by (simp add: comp_def)
  also have "\<dots> = [''0xa'', ''0xb'', ''0xc'']" unfolding e(2) example_pipeline [OF r] by simp
  finally have "map peAccount entries = [''0xa'', ''0xb'', ''0xc'']" .
  with r e(1) show ?thesis by (intro exI conjI)
qed

end
