(* ===== verification/WeightedCompute.thy ===== *)
theory WeightedCompute
  imports WeightedRank WeightedManifest ComputeProps
begin

text \<open>
  The graph of the weighted-prior ranker is closed, and its computation returns.
\<close>

section \<open>The graph is closed\<close>

definition accountsIn :: "hex set \<Rightarrow> current \<Rightarrow> bool" where
  "accountsIn A cur \<longleftrightarrow> (\<forall>(a, rs) \<in> set cur. a \<in> A \<and> set (jkeys rs) \<subseteq> A)"

lemma wpApplyEvent_inv:
  assumes inv: "currentInv cur" and A: "accountsIn A cur"
    and e: "toLowerCase (eAttester e) \<in> A" "toLowerCase (eRecipient e) \<in> A"
  shows "currentInv (wpApplyEvent V p cur e) \<and> accountsIn A (wpApplyEvent V p cur e)"
proof -
  let ?a = "toLowerCase (eAttester e)" and ?r = "toLowerCase (eRecipient e)"
  have row: "jmapInv (orDefault (jget cur ?a) []) \<and> (\<forall>r \<in> set (jkeys (orDefault (jget cur ?a) [])). canonical r)"
    using currentInv_get [OF inv, of ?a] by (cases "jget cur ?a") (simp_all add: orDefault_def)
  have rowA: "set (jkeys rs) \<subseteq> A" if "jget cur ?a = Some rs" for rs
    using A map_of_SomeD [OF that] unfolding accountsIn_def by blast
  then have rowD: "set (jkeys (orDefault (jget cur ?a) [])) \<subseteq> A"
    by (cases "jget cur ?a") (simp_all add: orDefault_def)
  have set1: "currentInv (jset ?a rs cur) \<and> accountsIn A (jset ?a rs cur)"
    if "rs \<noteq> []" "jmapInv rs" "\<forall>r \<in> set (jkeys rs). canonical r" "set (jkeys rs) \<subseteq> A" for rs
  proof -
    have "jmapInv cur" using inv by (simp add: currentInv_def)
    then have "accountsIn A (jset ?a rs cur)"
      unfolding accountsIn_def jset_entries [OF \<open>jmapInv cur\<close>]
      using A [unfolded accountsIn_def] e(1) that(4) by (intro ballI) (elim insertE; blast)
    then show ?thesis using currentInv_jset [OF inv canonical_lower that(1-3)] by simp
  qed
  have del1: "currentInv (jdelete ?a cur) \<and> accountsIn A (jdelete ?a cur)"
    using currentInv_jdelete [OF inv] A by (auto simp: accountsIn_def jdelete_entries)
  show ?thesis
  proof (cases "eKind e = 0")
    case True
    have keys: "set (jkeys (jset ?r x rs)) = insert ?r (set (jkeys rs))" for x and rs :: "(hex, CurrentEdge) jmap"
      unfolding keys_update by auto
    let ?e = "\<lparr>ceUid = toLowerCase (eUid e), ceWeight = clampWeight p (orDefault (decodeWeight V (eData e) (wpWeightFieldIndex p)) 0)\<rparr>"
    have "wpApplyEvent V p cur e = jset ?a (jset ?r ?e (orDefault (jget cur ?a) [])) cur"
      using True by (simp add: wpApplyEvent_def Let_def canonicalAddress_def)
    moreover have "currentInv (jset ?a (jset ?r ?e (orDefault (jget cur ?a) [])) cur) \<and>
        accountsIn A (jset ?a (jset ?r ?e (orDefault (jget cur ?a) [])) cur)"
      using row rowD e(2) by (intro set1) (simp_all add: keys del: set_map)
    ultimately show ?thesis by simp
  next
    case False
    have left: "currentInv (jset ?a (jdelete ?r rs) cur) \<and> accountsIn A (jset ?a (jdelete ?r rs) cur)"
      if "jget cur ?a = Some rs" "jdelete ?r rs \<noteq> []" for rs
      using currentInv_get [OF inv that(1)] that(2) rowA [OF that(1)]
      by (intro set1) (auto simp: keys_delete simp del: set_map)
    show ?thesis
      using False inv A left del1
      by (simp add: wpApplyEvent_def Let_def canonicalAddress_def split: option.splits)
  qed
qed

lemma wpBuildGraph_closed:
  shows "closedGraph (wpBuildGraph V es p)"
    and "n \<in> set (gNodes (wpBuildGraph V es p)) \<Longrightarrow>
      \<exists>e \<in> set es. n = toLowerCase (eAttester e) \<or> n = toLowerCase (eRecipient e)"
proof -
  let ?A = "(\<lambda>e. toLowerCase (eAttester e)) ` set es \<union> (\<lambda>e. toLowerCase (eRecipient e)) ` set es"
  have loop: "set xs \<subseteq> set es \<Longrightarrow> currentInv cur \<Longrightarrow> accountsIn ?A cur \<Longrightarrow>
      currentInv (foldl (wpApplyEvent V p) cur xs) \<and> accountsIn ?A (foldl (wpApplyEvent V p) cur xs)" for xs cur
  proof (induction xs arbitrary: cur)
    case (Cons x xs)
    then have "currentInv (wpApplyEvent V p cur x) \<and> accountsIn ?A (wpApplyEvent V p cur x)"
      by (intro wpApplyEvent_inv) auto
    with Cons show ?case by simp
  qed simp
  have "set (orderedEvents es) \<subseteq> set es" by (metis mset_orderedEvents set_mset_mset order_refl)
  from loop [OF this currentInv_Nil] have r: "currentInv (foldl (wpApplyEvent V p) [] (orderedEvents es))"
    "accountsIn ?A (foldl (wpApplyEvent V p) [] (orderedEvents es))"
    by (simp_all add: accountsIn_def)
  have "wfGraph (wpBuildGraph V es p)" unfolding wpBuildGraph_def by (rule wfGraph_graphOf [OF r(1)])
  then show "closedGraph (wpBuildGraph V es p)"
    unfolding wfGraph_def closedGraph_def jmapInv_def using map_of_SomeD by fastforce
  assume "n \<in> set (gNodes (wpBuildGraph V es p))"
  then have "n \<in> ?A" using r(2) unfolding wpBuildGraph_def graphOf_nodes accountsIn_def by blast
  then show "\<exists>e \<in> set es. n = toLowerCase (eAttester e) \<or> n = toLowerCase (eRecipient e)" by blast
qed

lemmas rank_standing = wpRank_standing [OF wpBuildGraph_closed(1)]

section \<open>The computation\<close>

lemma keys_newMap: "set (jkeys (newMap es)) = fst ` set es"
proof -
  have "k \<in> set (jkeys (newMap es)) \<longleftrightarrow> k \<in> fst ` set es" for k
    using jm.keys_lookup [OF jmapInv_newMap, of k es]
    by (metis jget_newMap map_of_eq_None_iff set_rev)
  then show ?thesis by blast
qed

lemma canonical_bytesToHex: "bytesLaw V \<Longrightarrow> canonical (bytesToHex V bs)"
proof -
  assume "bytesLaw V"
  then have h: "bytesToHex V bs = ''0x'' @ concat (map (\<lambda>b. hexDigits 2 (unat b)) bs)" by (simp add: bytesLaw_def)
  have "\<forall>c \<in> set (concat (map (\<lambda>b. hexDigits 2 (unat b)) bs)). lowerChar c = c"
    using hexDigits_lower by auto
  moreover have "lowerChar (CHR ''0'') = CHR ''0''" "lowerChar (CHR ''x'') = CHR ''x''" by code_simp+
  ultimately show ?thesis unfolding h canonical_def toLowerCase_def by (auto intro!: map_idI)
qed

lemma parseManifest_facts:
  assumes V: "bytesLaw V" and "parseManifest V m = Inr (c, es)"
  shows "validPrior es" and "\<forall>e \<in> set es. canonical (peyAccount e)" and "\<forall>e \<in> set es. length (peyAccount e) \<le> 42"
proof -
  from assms(2) obtain n where es: "es = map (manifestEntry V (hexToBytes V m)) [0..<n]" and v: "validPrior es"
    by (auto simp: parseManifest_def Let_def result_simps validatePrior_iff)
  show "validPrior es" by (rule v)
  show "\<forall>e \<in> set es. canonical (peyAccount e)"
    unfolding es using canonical_bytesToHex [OF V] by (auto simp: manifestEntry_def Let_def)
  have "length (bytesToHex V (sliceBytes a b bs)) \<le> 42" if "b - a = 20" for a b bs
    using bytes_digits(2) [OF V, of a b bs] that by simp
  then show "\<forall>e \<in> set es. length (peyAccount e) \<le> 42"
    unfolding es by (auto simp: manifestEntry_def Let_def)
qed

text \<open>Inputs that pass the guards and whose edges, parameters and binding can be encoded.\<close>

definition wpAccepted :: "viem \<Rightarrow> WpInput \<Rightarrow> PriorEntry list \<Rightarrow> bool" where
  "wpAccepted V i entries \<longleftrightarrow> (let p = wiParams i in
     parseManifest V (wiManifest i) = Inr (wpChainId p, entries) \<and>
     int (length entries) = wpPriorCount p \<and> priorRoot V entries = Inr (wpPriorRoot p) \<and>
     sha256Hex V (wiManifest i) = wpManifestSha256 p \<and> 0 \<le> wpDampingFp p \<and> wpDampingFp p \<le> SCALE \<and>
     (\<exists>a. accumulate V (wiEdges i) = Inr a) \<and> (\<exists>h. wpParamsHash V p = Inr h) \<and>
     int (length (wiEdges i)) \<le> U256_MAX \<and>
     (\<forall>e \<in> set (wiEdges i). length (eAttester e) \<le> 66 \<and> length (eRecipient e) \<le> 66) \<and>
     (case wiBinding i of None \<Rightarrow> True | Some b \<Rightarrow> length (bRecipient b) \<le> 66))"

definition wpScores :: "(hex, int) jmap \<Rightarrow> (hex \<times> int) list" where
  "wpScores ranked = byAccount (filter (\<lambda>(_, v). v > 0) ranked)"

lemma wpScores_facts:
  assumes "standing g prior nodes m" and "distinct nodes" and "\<forall>n \<in> set nodes. canonical n"
  shows "sorted_wrt (<) (jkeys (wpScores m))" and "sumOf snd (wpScores m) = SCALE"
    and "\<forall>(a, v) \<in> set (wpScores m). 0 < v \<and> v \<le> SCALE \<and> a \<in> set nodes \<and> endowed g prior a"
proof -
  have keys: "jkeys m = nodes" and sum: "sumOf snd m = SCALE" and only: "onlyEndowed g prior m"
    and nn: "\<And>k. 0 \<le> amountOf m k" using assms(1) by (auto simp: standing_def scoresOver_def)
  have d: "distinct (jkeys m)" using assms(2) keys by simp
  have val: "amountOf m a = v" if "(a, v) \<in> set m" for a v by (rule amountOf_entry [OF d that])
  have m0: "\<forall>e \<in> set m. 0 \<le> snd e" using nn val by (metis prod.collapse)
  show "sorted_wrt (<) (jkeys (wpScores m))" unfolding wpScores_def
  proof (rule strict_keys)
    show "distinct (map fst (filter (\<lambda>(_, v). 0 < v) m))" using d by (simp add: distinct_map_filter)
    show "\<forall>r \<in> set (filter (\<lambda>(_, v). 0 < v) m). canonical (fst r)"
      using assms(3) keys by (metis (no_types, lifting) filter_is_subset image_eqI list.set_map subsetD)
  qed
  have "sumOf snd (wpScores m) = sumOf snd (filter (\<lambda>e. snd e > 0) m)" by (simp add: wpScores_def case_prod_beta')
  also have "\<dots> = sumOf snd m" by (rule sumOf_filter_zero) (use m0 in force)
  finally show "sumOf snd (wpScores m) = SCALE" using sum by simp
  show "\<forall>(a, v) \<in> set (wpScores m). 0 < v \<and> v \<le> SCALE \<and> a \<in> set nodes \<and> endowed g prior a"
  proof (clarify, intro conjI)
    fix a v assume "(a, v) \<in> set (wpScores m)"
    then have av: "(a, v) \<in> set m" "0 < v" by (auto simp: wpScores_def)
    show "0 < v" by (rule av(2))
    have "snd (a, v) \<le> sumOf snd m" by (rule sumOf_member) (use m0 av in auto)
    then show "v \<le> SCALE" using sum by simp
    show "a \<in> set nodes" using av(1) keys by force
    show "endowed g prior a" using only val [OF av(1)] av(2) unfolding onlyEndowed_def by force
  qed
qed

lemma journalEncoded_total:
  assumes "padLaw V" and "toHexLaw V" and "0 \<le> jLeafCount j" "jLeafCount j \<le> U256_MAX"
    and "0 \<le> jAnchorCount j" "jAnchorCount j \<le> U256_MAX" and "0 \<le> jTotalValue j" "jTotalValue j \<le> U256_MAX"
    and "length (jRecipient j) \<le> 66"
  shows "\<exists>h. journalEncoded V j = Inr h"
proof -
  have w: "\<exists>h. wordU64 V x = Inr h" "\<exists>h. wordU256 V x = Inr h" if "0 \<le> x" "x \<le> U256_MAX" for x
  proof -
    have "x < 256 ^ 32" using that(2) by (simp add: U256_MAX_def)
    then show "\<exists>h. wordU64 V x = Inr h" "\<exists>h. wordU256 V x = Inr h"
      using assms(2) that(1) by (simp_all add: wordU64_def wordU256_def toHexLaw_def)
  qed
  have "\<exists>h. wordAddr V (jRecipient j) = Inr h" using assms(1,9) by (simp add: wordAddr_def padLaw_def)
  with w(1) [OF assms(3,4)] w(1) [OF assms(5,6)] w(2) [OF assms(7,8)]
  show ?thesis by (auto simp: journalEncoded_def concatE_def)
qed

lemma wpCompute_run:
  assumes V: "padLaw V" "toHexLaw V" "bytesLaw V" and acc: "wpAccepted V i entries"
  shows "\<exists>r leaves. wpCompute V i = Inr r \<and> sumOf snd (wrScores r) = SCALE \<and> jTotalValue (wrJournal r) = SCALE \<and>
    sorted_wrt (<) (jkeys (wrScores r)) \<and>
    (\<forall>(a, v) \<in> set (wrScores r). 0 < v \<and> endowed (wpBuildGraph V (wiEdges i) (wiParams i)) entries a) \<and>
    mapE (\<lambda>(a, v). outputLeaf V a v) (wrScores r) = Inr leaves \<and> merkleRoot V leaves = Inr (jOutputRoot (wrJournal r))"
proof -
  let ?p = "wiParams i" and ?es = "wiEdges i" and ?g = "wpBuildGraph V (wiEdges i) (wiParams i)"
  from acc obtain a n ph where parse: "parseManifest V (wiManifest i) = Inr (wpChainId ?p, entries)"
    and cnt: "int (length entries) = wpPriorCount ?p" and root: "priorRoot V entries = Inr (wpPriorRoot ?p)"
    and sha: "sha256Hex V (wiManifest i) = wpManifestSha256 ?p" and d: "0 \<le> wpDampingFp ?p" "wpDampingFp ?p \<le> SCALE"
    and ac: "accumulate V ?es = Inr (a, n)" and ph: "wpParamsHash V ?p = Inr ph"
    and small: "int (length ?es) \<le> U256_MAX"
    and short: "\<forall>e \<in> set ?es. length (eAttester e) \<le> 66 \<and> length (eRecipient e) \<le> 66"
    and bnd: "case wiBinding i of None \<Rightarrow> True | Some b \<Rightarrow> length (bRecipient b) \<le> 66"
    by (auto simp: wpAccepted_def Let_def)
  note pm = parseManifest_facts [OF V(3) parse]
  obtain m it where rk: "wpRank ?g entries ?p = Inr (m, it)" and st: "standing ?g entries (wpNodes ?g entries) m"
    using rank_standing [OF pm(1,2) d] by blast
  let ?nodes = "wpNodes ?g entries"
  have set_nodes: "set ?nodes = peyAccount ` set entries \<union> set (gNodes ?g)"
    unfolding wpNodes_def priorMapOf_def by (simp add: keys_newMap del: set_map, simp add: image_image)
  have nodes: "distinct ?nodes" by (simp add: wpNodes_def)
  have can: "\<forall>k \<in> set ?nodes. canonical k \<and> length k \<le> 66"
  proof
    fix k assume "k \<in> set ?nodes"
    with set_nodes show "canonical k \<and> length k \<le> 66"
      using pm(2,3) wpBuildGraph_closed(2) [of k V ?es ?p] short by fastforce
  qed
  have canon: "\<forall>k \<in> set ?nodes. canonical k" using can by blast
  note sf = wpScores_facts [OF st nodes canon]
  let ?s = "wpScores m"
  have leaf: "\<exists>l. (case r of (a, v) \<Rightarrow> outputLeaf V a v) = Inr l" if "r \<in> set ?s" for r
  proof -
    obtain k v where r: "r = (k, v)" by (cases r)
    have kv: "0 < v" "v \<le> SCALE" "k \<in> set ?nodes" using bspec [OF sf(3) that] unfolding r by auto
    have "SCALE \<le> U256_MAX" by (simp add: SCALE_def U256_MAX_def)
    then show ?thesis using outputLeaf_total [OF V(1,2), of k v] can kv unfolding r by simp
  qed
  then have "\<exists>ls. mapE (\<lambda>(a, v). outputLeaf V a v) ?s = Inr ls" by (subst mapE_ok_iff) (intro ballI)
  then obtain leaves where lv: "mapE (\<lambda>(a, v). outputLeaf V a v) ?s = Inr leaves" by (elim exE)
  obtain outRoot where mr: "merkleRoot V leaves = Inr outRoot" using merkleRoot_total by blast
  obtain cid where cid: "cidV1Raw (sha256Utf8 V (canonicalBlob ?s)) = Inr cid" using cidV1Raw_sha by blast
  let ?j = "\<lparr>jAcc = a, jLeafCount = n, jAnchorAcc = ZERO_HASH, jAnchorCount = 0,
           jParamsHash = ph, jOutputRoot = outRoot, jIpfsHash = digestToHex V (sha256Utf8 V (canonicalBlob ?s)),
           jCidDigest = keccak256Bytes V (stringToBytes V cid), jTotalValue = SCALE,
           jSkippedDigest = ZERO_HASH,
           jRecipient = (case wiBinding i of Some b \<Rightarrow> bRecipient b | None \<Rightarrow> ZERO_ADDRESS),
           jInstanceDomain = (case wiBinding i of Some b \<Rightarrow> bInstanceDomain b | None \<Rightarrow> ZERO_HASH)\<rparr>"
  have n: "n = int (length ?es)" using ac by (auto simp: accumulate_def)
  obtain je where je: "journalEncoded V ?j = Inr je"
    using journalEncoded_total [OF V(1,2), of ?j] small bnd n
    by (auto simp: SCALE_def U256_MAX_def ZERO_ADDRESS_def split: option.splits)
  let ?r = "\<lparr>wrJournal = ?j, wrScores = ?s, wrBlob = canonicalBlob ?s, wrCid = cid, wrIterations = it\<rparr>"
  have "wpCompute V i = Inr ?r"
    unfolding wpCompute_def
    by (simp add: parse cnt root sha ac rk ph lv mr cid je Let_def flip: wpScores_def)
  moreover have "\<forall>(a, v) \<in> set ?s. 0 < v \<and> endowed ?g entries a" using sf(3) by blast
  ultimately show ?thesis using sf(1,2) lv mr by (intro exI [of _ ?r] exI [of _ leaves] conjI) simp_all
qed

end
