(* ===== verification/WeightedProps.thy ===== *)
theory WeightedProps
  imports WeightedCompute
begin

text \<open>
  The properties of the weighted-prior component, with their witnesses.
\<close>

section \<open>Properties\<close>

text \<open>
  Over the graph of any event log, with a valid prior and a damping factor within the unit, the
  ranker returns (no apportionment fails and no iteration loses mass), scores exactly the prior's
  accounts and the graph's, none below zero, and the scores sum to \<open>1e18\<close>.
\<close>

lemma wp_rank_conserves:
  assumes "validPrior prior" and "\<forall>e \<in> set prior. canonical (peyAccount e)"
    and "0 \<le> wpDampingFp p" and "wpDampingFp p \<le> SCALE"
  shows "\<exists>scores iterations. wpRank (wpBuildGraph V es p) prior p = Inr (scores, iterations) \<and>
    jkeys scores = wpNodes (wpBuildGraph V es p) prior \<and> (\<forall>k. 0 \<le> amountOf scores k) \<and>
    sumOf snd scores = SCALE"
  using rank_standing [OF assms, of V es] unfolding standing_def scoresOver_def by blast

text \<open>
  Standing flows only from the prior along positive edges: an account that is not in the prior
  and that no chain of such edges joins to it scores zero, however many edges it signs.
\<close>

lemma wp_rank_only_endowed:
  assumes "validPrior prior" and "\<forall>e \<in> set prior. canonical (peyAccount e)"
    and "0 \<le> wpDampingFp p" and "wpDampingFp p \<le> SCALE"
    and "wpRank (wpBuildGraph V es p) prior p = Inr (scores, iterations)"
    and "\<not> endowed (wpBuildGraph V es p) prior k"
  shows "amountOf scores k = 0"
proof -
  from rank_standing [OF assms(1-4), of V es p] assms(5)
  have "onlyEndowed (wpBuildGraph V es p) prior scores" by (auto simp: standing_def)
  with assms(6) show ?thesis by (auto simp: onlyEndowed_def)
qed

text \<open>
  C18: Every prior that normalization returns is one that validation accepts: as many entries as the
  input, lower-case accounts in strictly increasing order, positive weights that sum to \<open>1e18\<close>.
\<close>

theorem normalized_prior_is_valid:
  assumes "normalizePrior raw = Inr entries"
  shows "validatePrior entries = Inr () \<and> length entries = length raw \<and>
    sorted_wrt (<) (map peyAccount entries) \<and> sumOf peyWeight entries = SCALE"
proof -
  note v = normalizePrior_valid [OF assms]
  have "map (\<lambda>e. toLowerCase (peyAccount e)) entries = map peyAccount entries" using v(2) by (simp add: canonicalD)
  moreover have "sorted_wrt (<) (map (\<lambda>e. toLowerCase (peyAccount e)) entries)" "sumOf peyWeight entries = SCALE"
    using v(1) unfolding validPrior_def by blast+
  ultimately show ?thesis using v(1,3) validatePrior_iff by metis
qed

text \<open>
  C17: The parser accepts a manifest exactly when it is the canonical manifest of what it returns, so
  a chain and a prior have one manifest and a manifest has one reading.
\<close>

theorem manifest_roundtrip:
  assumes "concatLaw V" and "toHexLaw V" and "bytesLaw V" and "isBytes m"
    and "\<forall>e \<in> set entries. accountBytes e"
  shows "parseManifest V m = Inr (chain, entries) \<longleftrightarrow> canonicalManifest V chain entries = Inr m"
proof
  assume "parseManifest V m = Inr (chain, entries)"
  from digits_of_parse [OF assms(3,4) this] show "canonicalManifest V chain entries = Inr m"
    unfolding canonicalManifest_Inr [OF assms(1,2)] by blast
next
  assume "canonicalManifest V chain entries = Inr m"
  then have "validPrior entries" "fits64 chain" "\<forall>e \<in> set entries. fits64 (peyWeight e)" "m = ''0x'' @ manifestDigits chain entries"
    unfolding canonicalManifest_Inr [OF assms(1,2)] by blast+
  with parse_of_digits [OF assms(3), of entries chain] assms(5)
  show "parseManifest V m = Inr (chain, entries)" by simp
qed


section \<open>Examples\<close>

definition examplePrior :: "PriorEntry list" where
  "examplePrior = [\<lparr>peyAccount = ''0xb'', peyWeight = 600000000000000000\<rparr>,
     \<lparr>peyAccount = ''0xe'', peyWeight = 400000000000000000\<rparr>]"

definition exampleWpParams :: WpParams where
  "exampleWpParams = \<lparr>wpVersion = 1, wpDampingFp = 850000000000000000, wpToleranceFp = 1000000000000,
     wpMaxIterations = 3, wpMinWeight = 1, wpMaxWeight = 100, wpPriorRoot = ''0x'', wpPriorCount = 2,
     wpManifestSha256 = ''0x'', wpSchemaUid = ''0x'', wpWeightFieldIndex = 0, wpAccumulator = ''0x'', wpChainId = 1\<rparr>"

lemma example_prior: "validPrior examplePrior" "\<forall>e \<in> set examplePrior. canonical (peyAccount e)"
  "0 \<le> wpDampingFp exampleWpParams" "wpDampingFp exampleWpParams \<le> SCALE"
  by code_simp+

lemma wp_rank_conserves_witness:
  "\<exists>scores iterations. wpRank (wpBuildGraph exampleViem exampleEvents exampleWpParams) examplePrior exampleWpParams =
      Inr (scores, iterations) \<and>
    jkeys scores = wpNodes (wpBuildGraph exampleViem exampleEvents exampleWpParams) examplePrior \<and>
    (\<forall>k. 0 \<le> amountOf scores k) \<and> sumOf snd scores = SCALE"
  by (rule wp_rank_conserves [OF example_prior])

lemma example_wpGraph: "transitionOf (wpBuildGraph exampleViem exampleEvents exampleWpParams) s =
  (if s = ''0xa'' then [(''0xb'', 1)] else if s = ''0xb'' then [(''0xc'', 1)] else [])"
proof -
  have "gOutgoing (wpBuildGraph exampleViem exampleEvents exampleWpParams) =
      [(''0xb'', [(''0xc'', 1)]), (''0xa'', [(''0xb'', 1)])]" by code_simp
  then show ?thesis by (simp add: transitionOf_def orDefault_def)
qed

lemma example_unendowed: "\<not> endowed (wpBuildGraph exampleViem exampleEvents exampleWpParams) examplePrior ''0xa''"
proof
  assume "endowed (wpBuildGraph exampleViem exampleEvents exampleWpParams) examplePrior ''0xa''"
  then show False
    by (cases rule: endowedE) (auto simp: examplePrior_def example_wpGraph split: if_splits)
qed

lemma wp_rank_only_endowed_witness:
  "\<exists>scores iterations. wpRank (wpBuildGraph exampleViem exampleEvents exampleWpParams) examplePrior exampleWpParams =
      Inr (scores, iterations) \<and> amountOf scores ''0xa'' = 0"
proof -
  obtain scores it where r: "wpRank (wpBuildGraph exampleViem exampleEvents exampleWpParams) examplePrior exampleWpParams =
      Inr (scores, it)" using rank_standing [OF example_prior, of exampleViem exampleEvents] by blast
  from wp_rank_only_endowed [OF example_prior r example_unendowed] r show ?thesis by blast
qed

definition exampleRaw :: "RawPriorEntry list" where
  "exampleRaw = [\<lparr>rpAccount = ''0xE'', rpWeight = ''2''\<rparr>, \<lparr>rpAccount = ''0xb'', rpWeight = ''0.5''\<rparr>]"

lemma example_pads: "padEnd 18 (CHR ''0'') [] = ''000000000000000000''"
  "padEnd 18 (CHR ''0'') ''5'' = ''500000000000000000''"
  by code_simp+

lemma example_decimals: "parseDecimal ''2'' = Inr 2000000000000000000" "parseDecimal ''0.5'' = Inr 500000000000000000"
  by (simp_all add: parseDecimal_def canonicalDecimal_def beforeDot_def afterDot_def wholeDigits_def fractionDigits_def
      isDigit_def example_pads digitsVal_def digitVal_def SCALE_def Let_def throwWhen_def)

lemma example_lower: "toLowerCase ''0xE'' = ''0xe''" "toLowerCase ''0xe'' = ''0xe''" "toLowerCase ''0xb'' = ''0xb''"
  by code_simp+

lemma example_cmp: "cmpHex ''0xb'' ''0xe'' = -1" "cmpHex ''0xe'' ''0xb'' = 1"
  by code_simp+

lemma example_apportion: "apportion [(''0xb'', 500000000000000000), (''0xe'', 2000000000000000000)] SCALE 2500000000000000000 =
  Inr [(''0xb'', 200000000000000000), (''0xe'', 800000000000000000)]"
  by (simp add: apportion_def apportionRow_def canonicalAddress_def example_lower SCALE_def Let_def
      cmpRow_def cmpBig_def example_cmp newMap_def throwWhen_def)

lemma example_nonzero: "''0xb'' \<noteq> ZERO_ADDRESS" "''0xe'' \<noteq> ZERO_ADDRESS"
  by (auto simp: ZERO_ADDRESS_def dest!: arg_cong [where f = length])

lemma example_normalized: "normalizePrior exampleRaw =
  Inr [\<lparr>peyAccount = ''0xb'', peyWeight = 200000000000000000\<rparr>, \<lparr>peyAccount = ''0xe'', peyWeight = 800000000000000000\<rparr>]"
  using example_apportion
  by (simp add: normalizePrior_def exampleRaw_def example_decimals canonicalAddress_def example_lower
      MAX_PRIOR_ENTRIES_def example_cmp Let_def checkParsed_def example_nonzero normalizedEntry_def need_def upt_rec)

theorem normalized_prior_is_valid_witness:
  "\<exists>entries. normalizePrior exampleRaw = Inr entries \<and> validatePrior entries = Inr () \<and> length entries = length exampleRaw \<and>
    sorted_wrt (<) (map peyAccount entries) \<and> sumOf peyWeight entries = SCALE"
  using example_normalized normalized_prior_is_valid [OF example_normalized] by blast

lemma nibblePairs_digits:
  "even (length s) \<Longrightarrow> list_all isHexDigit s \<Longrightarrow> concat (map (\<lambda>b. hexDigits 2 (unat b)) (nibblePairs s)) = s"
proof (induction s rule: nibblePairs.induct)
  case (1 c d cs)
  have nib: "nibble (hexDigitChar d) = d" if "d < 16" for d
    using that hexValue_digit [OF that] by (simp add: nibble_def Let_def of_hexDigitChar)
  obtain a b where ab: "a < 16" "hexDigitChar a = c" "b < 16" "hexDigitChar b = d"
    using 1(3) isHexDigit_value [of c] isHexDigit_value [of d] by auto
  then have n: "nibble c = a" "nibble d = b" using nib by blast+
  have "16 * a + b < 256" using ab by simp
  then have "unat (of_nat (16 * a + b) :: 8 word) = 16 * a + b" by (rule unat_small)
  moreover have "(16 * a + b) div 16 = a" "(16 * a + b) mod 16 = b" using ab(1,3) by simp_all
  ultimately have "hexDigits 2 (unat (of_nat (16 * nibble c + nibble d) :: 8 word)) = [c, d]"
    unfolding n using ab by (simp add: numeral_2_eq_2)
  with 1 show ?case by simp
qed auto

lemma example_bytesLaw: "bytesLaw exampleViem"
proof -
  have b: "bytesToHex exampleViem bs = ''0x'' @ concat (map (\<lambda>b. hexDigits 2 (unat b)) bs)" for bs
    by (simp add: exampleViem_def)
  have "bytesToHex exampleViem (hexToBytes exampleViem h) = h" if "isBytes h" for h
  proof -
    have "concat (map (\<lambda>b. hexDigits 2 (unat b)) (nibblePairs (drop 2 h))) = drop 2 h"
      using that by (intro nibblePairs_digits) (auto simp: isBytes_def)
    then show ?thesis using isBytes_eq [OF that] by (simp add: exampleViem_def)
  qed
  with b show ?thesis unfolding bytesLaw_def by blast
qed

definition exampleEntries :: "PriorEntry list" where
  "exampleEntries = [\<lparr>peyAccount = ''0x'' @ replicate 40 (CHR ''1''), peyWeight = 1000000000000000000\<rparr>]"

definition exampleManifest :: hex where
  "exampleManifest = ''0x'' @ manifestDigits 1 exampleEntries"

lemma example_entries: "validPrior exampleEntries" "\<forall>e \<in> set exampleEntries. accountBytes e \<and> fits64 (peyWeight e)"
  "fits64 1"
  by (simp_all add: exampleEntries_def validPrior_def MAX_PRIOR_ENTRIES_def ZERO_ADDRESS_def SCALE_def accountBytes_def
      isBytes_def isHexDigit_def fits64_def list_all_iff)

lemma example_canonical: "canonicalManifest exampleViem 1 exampleEntries = Inr exampleManifest"
  using example_entries canonicalManifest_Inr [of exampleViem 1 exampleEntries exampleManifest]
  by (simp add: exampleManifest_def)

lemma example_manifest_bytes: "isBytes exampleManifest"
  unfolding exampleManifest_def by (rule isBytes_manifest) (use example_entries in blast)

theorem manifest_roundtrip_witness:
  "parseManifest exampleViem exampleManifest = Inr (1, exampleEntries)"
  using manifest_roundtrip [OF example_laws(1,2) example_bytesLaw example_manifest_bytes, of exampleEntries 1]
    example_entries(2) example_canonical by blast






end
