(* ===== verification/Hamilton.thy ===== *)
theory Hamilton
  imports WeightedProps
begin

text \<open>
  \<open>hamilton\<close> of \<open>lib/composition/core.ts\<close>: the inputs it accepts, the shares it returns, and its instance of
  the interface \<open>apportionment\<close>.
\<close>

section \<open>Definitions\<close>

text \<open>
  \<open>fail(message)\<close> throws the component's own error class.
\<close>

definition compFail :: "string \<Rightarrow> js_error" where
  "compFail message = AppError ''CompositionPreviewError'' message"

record 't HamiltonRow =
  hrKey :: hex
  hrNumerator :: int
  hrData :: 't

record 't Apportioned =
  haKey :: hex
  haNumerator :: int
  haData :: 't
  haAllocation :: int
  haRemainder :: int

definition hamiltonRow ::
  "int \<Rightarrow> int \<Rightarrow> hex list \<times> int \<times> 't Apportioned list \<Rightarrow> 't HamiltonRow \<Rightarrow>
   (hex list \<times> int \<times> 't Apportioned list) result" where
  "hamiltonRow pool denominator st row =
     (case st of (seen, tot, rows) \<Rightarrow>
       let key = toLowerCase (hrKey row) in
       bindE (throwWhen (key \<in> set seen) (compFail (''duplicate Hamilton key '' @ key))) (\<lambda>_.
       bindE (throwWhen (hrNumerator row \<le> 0) (compFail ''Hamilton numerators must be positive'')) (\<lambda>_.
       let product = pool * hrNumerator row in
       bindE (bigDiv product denominator) (\<lambda>a.
       bindE (bigMod product denominator) (\<lambda>r.
       Inr (seen @ [key], tot + hrNumerator row,
         rows @ [\<lparr>haKey = key, haNumerator = hrNumerator row, haData = hrData row,
                   haAllocation = a, haRemainder = r\<rparr>]))))))"

text \<open>
  \<open>remainderOrder\<close> shares its row objects with \<open>apportioned\<close>: it is modelled by the indices of the rows,
  so that paying a row through the order changes the row itself.
\<close>

definition cmpRemainder :: "'t Apportioned list \<Rightarrow> nat \<Rightarrow> nat \<Rightarrow> int" where
  "cmpRemainder rows i j =
     (let remainder = cmpBig (haRemainder (rows ! j)) (haRemainder (rows ! i)) in
      if remainder \<noteq> 0 then remainder else cmpHex (haKey (rows ! i)) (haKey (rows ! j)))"

definition remainderOrder :: "'t Apportioned list \<Rightarrow> nat list" where
  "remainderOrder rows = sortBy (cmpRemainder rows) [0..<length rows]"

fun payResidual :: "int \<Rightarrow> nat list \<Rightarrow> 't Apportioned list \<Rightarrow> int \<times> 't Apportioned list" where
  "payResidual residual [] rows = (residual, rows)"
| "payResidual residual (i # is) rows =
     (if residual = 0 then (residual, rows)
      else payResidual (residual - 1) is (rows[i := (rows ! i)\<lparr>haAllocation := haAllocation (rows ! i) + 1\<rparr>]))"

definition hamilton :: "int \<Rightarrow> int \<Rightarrow> 't HamiltonRow list \<Rightarrow> 't Apportioned list result" where
  "hamilton pool denominator rows =
     bindE (throwWhen (pool < 0 \<or> denominator \<le> 0 \<or> length rows = 0) (compFail ''invalid Hamilton inputs'')) (\<lambda>_.
     bindE (foldE (hamiltonRow pool denominator) ([], 0, []) rows) (\<lambda>(seen, tot, apportioned).
     bindE (throwWhen (tot \<noteq> denominator) (compFail ''Hamilton denominator mismatch'')) (\<lambda>_.
     let residual = pool - sumOf haAllocation apportioned;
         (left, paid) = payResidual residual (remainderOrder apportioned) apportioned in
     bindE (throwWhen (left \<noteq> 0) (compFail ''Hamilton residual exceeds row count'')) (\<lambda>_.
     Inr (sortBy (\<lambda>a b. cmpHex (haKey a) (haKey b)) paid)))))"

section \<open>Accepted inputs\<close>

definition hamClaims :: "'t HamiltonRow list \<Rightarrow> claims" where
  "hamClaims rows = map (\<lambda>r. (toLowerCase (hrKey r), hrNumerator r)) rows"

definition hamiltonOk :: "int \<Rightarrow> int \<Rightarrow> 't HamiltonRow list \<Rightarrow> bool" where
  "hamiltonOk pool denominator rows \<longleftrightarrow> 0 \<le> pool \<and> rows \<noteq> [] \<and>
     distinct (map (\<lambda>r. toLowerCase (hrKey r)) rows) \<and> (\<forall>r \<in> set rows. 0 < hrNumerator r) \<and>
     sumOf hrNumerator rows = denominator"

lemma hamiltonOk_claims:
  assumes "hamiltonOk pool D rows"
  shows "okClaims pool (hamClaims rows)" and "claimTotal (hamClaims rows) = D" and "0 < D"
proof -
  show D: "claimTotal (hamClaims rows) = D"
    using assms by (simp add: hamiltonOk_def claimTotal_def hamClaims_def comp_def)
  show "0 < D" using assms by (auto simp: hamiltonOk_def intro!: sumOf_pos)
  with D assms show "okClaims pool (hamClaims rows)"
    by (auto simp: okClaims_def hamiltonOk_def hamClaims_def comp_def less_imp_le)
qed

definition hamRowOf :: "int \<Rightarrow> int \<Rightarrow> 't HamiltonRow \<Rightarrow> 't Apportioned" where
  "hamRowOf pool D r = \<lparr>haKey = toLowerCase (hrKey r), haNumerator = hrNumerator r, haData = hrData r,
     haAllocation = hrNumerator r * pool div D, haRemainder = hrNumerator r * pool mod D\<rparr>"

lemma hamiltonRow_step:
  assumes "0 \<le> pool" and "0 < D"
  shows "hamiltonRow pool D (seen, tot, rows) r = Inr st \<longleftrightarrow>
    toLowerCase (hrKey r) \<notin> set seen \<and> 0 < hrNumerator r \<and>
    st = (seen @ [toLowerCase (hrKey r)], tot + hrNumerator r, rows @ [hamRowOf pool D r])"
proof (cases "0 < hrNumerator r")
  case True
  then have p: "0 \<le> pool * hrNumerator r" using assms(1) by simp
  have c: "pool * hrNumerator r = hrNumerator r * pool" by (rule mult.commute)
  show ?thesis using True bigDiv_pos [OF p assms(2)] bigMod_pos [OF p assms(2)]
    by (auto simp: hamiltonRow_def hamRowOf_def Let_def result_simps c)
next
  case False
  then show ?thesis by (auto simp: hamiltonRow_def Let_def result_simps)
qed

lemma hamiltonRow_loop:
  assumes pd: "0 \<le> pool" "0 < D"
  shows "foldE (hamiltonRow pool D) (seen, tot, out) rows = Inr st \<longleftrightarrow>
    distinct (map (\<lambda>r. toLowerCase (hrKey r)) rows) \<and> (\<forall>r \<in> set rows. toLowerCase (hrKey r) \<notin> set seen \<and> 0 < hrNumerator r) \<and>
    st = (seen @ map (\<lambda>r. toLowerCase (hrKey r)) rows, tot + sumOf hrNumerator rows, out @ map (hamRowOf pool D) rows)"
proof (induction rows arbitrary: seen tot out)
  case (Cons r rows)
  have "foldE (hamiltonRow pool D) (seen, tot, out) (r # rows) = Inr st \<longleftrightarrow>
    (\<exists>s. hamiltonRow pool D (seen, tot, out) r = Inr s \<and> foldE (hamiltonRow pool D) s rows = Inr st)"
    by (auto simp: result_simps)
  also have "\<dots> \<longleftrightarrow> toLowerCase (hrKey r) \<notin> set seen \<and> 0 < hrNumerator r \<and>
    foldE (hamiltonRow pool D) (seen @ [toLowerCase (hrKey r)], tot + hrNumerator r, out @ [hamRowOf pool D r]) rows = Inr st"
    unfolding hamiltonRow_step [OF pd] by blast
  also have "\<dots> \<longleftrightarrow> distinct (map (\<lambda>r. toLowerCase (hrKey r)) (r # rows)) \<and>
    (\<forall>x \<in> set (r # rows). toLowerCase (hrKey x) \<notin> set seen \<and> 0 < hrNumerator x) \<and>
    st = (seen @ map (\<lambda>r. toLowerCase (hrKey r)) (r # rows), tot + sumOf hrNumerator (r # rows), out @ map (hamRowOf pool D) (r # rows))"
    unfolding Cons.IH by (fastforce simp: image_iff)
  finally show ?case .
qed auto

section \<open>Paying the residual\<close>

lemma payResidual_take:
  "m \<le> length is \<Longrightarrow> payResidual (int m) is rows =
   (0, foldl (\<lambda>rows i. rows[i := (rows ! i)\<lparr>haAllocation := haAllocation (rows ! i) + 1\<rparr>]) rows (take m is))"
proof (induction "is" arbitrary: m rows)
  case (Cons i "is")
  then show ?case by (cases m) auto
qed simp

lemma sortBy_keyed:
  assumes "\<And>x y. c x y \<le> 0 \<longleftrightarrow> (key x :: 'k::linorder) \<le> key y"
  shows "sorted (map key (sortBy c xs))"
proof -
  have "keyed_comparator c key" by (rule keyed_comparator.intro) (rule assms)
  then show ?thesis by (rule keyed_comparator.sortBy_sorted)
qed

lemma cmpRemainder_key: "cmpRemainder rows x y \<le> 0 \<longleftrightarrow>
  (- haRemainder (rows ! x), toLowerCase (haKey (rows ! x))) \<le> (- haRemainder (rows ! y), toLowerCase (haKey (rows ! y)))"
  by (auto simp: cmpRemainder_def Let_def cmpBig_cmpLin cmpHex_cmpLin cmpLin_def less_eq_prod_def)

lemma remainderOrder_facts:
  assumes rows: "rows = map (hamRowOf pool D) hs"
  shows "mset (remainderOrder rows) = mset [0..<length hs]"
    and "sorted (map (restKey pool D) (map ((!) (hamClaims hs)) (remainderOrder rows)))"
proof -
  show m: "mset (remainderOrder rows) = mset [0..<length hs]" by (simp add: remainderOrder_def rows)
  have "sorted (map (\<lambda>i. (- haRemainder (rows ! i), toLowerCase (haKey (rows ! i)))) (remainderOrder rows))"
    unfolding remainderOrder_def by (rule sortBy_keyed) (rule cmpRemainder_key)
  moreover have "map (\<lambda>i. (- haRemainder (rows ! i), toLowerCase (haKey (rows ! i)))) (remainderOrder rows) =
      map (restKey pool D) (map ((!) (hamClaims hs)) (remainderOrder rows))"
  proof -
    have "\<forall>i \<in> set (remainderOrder rows). i < length hs"
      using m by (metis atLeastLessThan_iff atLeastLessThan_upt set_mset_mset)
    then show ?thesis by (simp add: rows hamRowOf_def restKey_def quotaRest_def hamClaims_def)
  qed
  ultimately show "sorted (map (restKey pool D) (map ((!) (hamClaims hs)) (remainderOrder rows)))" by simp
qed

definition hamShare :: "int \<Rightarrow> 't HamiltonRow list \<Rightarrow> 't HamiltonRow \<Rightarrow> int" where
  "hamShare pool rows r = share pool (hamClaims rows) (toLowerCase (hrKey r), hrNumerator r)"

definition hamPaid :: "int \<Rightarrow> int \<Rightarrow> 't HamiltonRow list \<Rightarrow> 't HamiltonRow \<Rightarrow> 't Apportioned" where
  "hamPaid pool D rows r = (hamRowOf pool D r)\<lparr>haAllocation := hamShare pool rows r\<rparr>"

lemma payResidual_shares:
  assumes ok: "hamiltonOk pool D hs" and rows: "rows = map (hamRowOf pool D) hs"
  shows "payResidual (leftOver pool (hamClaims hs)) (remainderOrder rows) rows = (0, map (hamPaid pool D hs) hs)"
proof -
  let ?c = "hamClaims hs" and ?m = "nat (leftOver pool (hamClaims hs))" and ?is = "remainderOrder rows"
  note okc = hamiltonOk_claims [OF ok]
  note ord = remainderOrder_facts [OF rows]
  have lc: "length ?c = length hs" by (simp add: hamClaims_def)
  have dc: "distinct ?c" using okc(1) by (auto simp: okClaims_def distinct_map)
  have dis: "distinct ?is" using ord(1) by (metis distinct_upt mset_eq_imp_distinct_iff)
  have below: "\<forall>i \<in> set ?is. i < length rows"
    using ord(1) rows by (metis atLeastLessThan_iff atLeastLessThan_upt length_map set_mset_mset)
  have taken: "\<forall>i \<in> set (take ?m ?is). i < length rows" using below in_set_takeD by fast
  have "?m \<le> length ?is"
    using leftOver_bounds [OF okc(1)] lc ord(1) by (metis diff_zero length_upt nat_less_iff less_imp_le mset_eq_length)
  then have "payResidual (int ?m) ?is rows = (0,
      map (\<lambda>j. if j \<in> set (take ?m ?is) then (rows ! j)\<lparr>haAllocation := haAllocation (rows ! j) + 1\<rparr> else rows ! j) [0..<length rows])"
    by (simp only: payResidual_take foldl_update_nth [where f = "\<lambda>row. row\<lparr>haAllocation := haAllocation row + 1\<rparr>", OF distinct_take [OF dis] taken])
  also have "map (\<lambda>j. if j \<in> set (take ?m ?is) then (rows ! j)\<lparr>haAllocation := haAllocation (rows ! j) + 1\<rparr> else rows ! j) [0..<length rows] =
      map (hamPaid pool D hs) hs"
  proof (rule nth_equalityI)
    fix j assume "j < length (map (\<lambda>j. if j \<in> set (take ?m ?is)
      then (rows ! j)\<lparr>haAllocation := haAllocation (rows ! j) + 1\<rparr> else rows ! j) [0..<length rows])"
    then have j: "j < length hs" by (simp add: rows)
    have "share pool ?c (?c ! j) = quota pool D (?c ! j) + (if j \<in> set (take ?m ?is) then 1 else 0)"
      using share_take [OF okc(1) map_nth_same, of ?is "?c ! j"] ord j lc okc(2)
        index_in_take [OF dc, of ?is j] by simp
    with j show "map (\<lambda>j. if j \<in> set (take ?m ?is)
      then (rows ! j)\<lparr>haAllocation := haAllocation (rows ! j) + 1\<rparr> else rows ! j) [0..<length rows] ! j = map (hamPaid pool D hs) hs ! j"
      by (simp add: rows hamPaid_def hamShare_def hamRowOf_def hamClaims_def quota_def)
  qed (simp add: rows)
  finally show ?thesis using leftOver_bounds(1) [OF okc(1)] by simp
qed

lemma hamilton_returns:
  assumes ok: "hamiltonOk pool D rows"
  shows "hamilton pool D rows = Inr (sortBy (\<lambda>a b. cmpHex (haKey a) (haKey b)) (map (hamPaid pool D rows) rows))"
proof -
  note okc = hamiltonOk_claims [OF ok]
  have pool: "0 \<le> pool" and ne: "rows \<noteq> []" and sum: "sumOf hrNumerator rows = D" using ok by (auto simp: hamiltonOk_def)
  have loop: "foldE (hamiltonRow pool D) ([], 0, []) rows =
      Inr (map (\<lambda>r. toLowerCase (hrKey r)) rows, D, map (hamRowOf pool D) rows)"
    unfolding hamiltonRow_loop [OF pool okc(3)] using ok sum by (auto simp: hamiltonOk_def)
  have res: "pool - sumOf haAllocation (map (hamRowOf pool D) rows) = leftOver pool (hamClaims rows)"
    using okc(2) by (simp add: leftOver_def hamRowOf_def quota_def comp_def) (simp add: hamClaims_def comp_def quota_def)
  show ?thesis
    using pool ne okc(3) loop res payResidual_shares [OF ok refl] by (simp add: hamilton_def)
qed

text \<open>The routine returns exactly on these inputs.\<close>

lemma hamilton_Inr_ok:
  assumes "hamilton pool D rows = Inr out"
  shows "hamiltonOk pool D rows"
proof -
  from assms obtain st where pd: "0 \<le> pool" "0 < D" "rows \<noteq> []"
    and st: "foldE (hamiltonRow pool D) ([], 0, []) rows = Inr st" "fst (snd st) = D"
    by (auto simp: hamilton_def not_less not_le split: prod.splits)
  from st show ?thesis
    unfolding hamiltonRow_loop [OF pd(1,2)] using pd by (auto simp: hamiltonOk_def)
qed

lemma hamilton_iff: "hamilton pool D rows = Inr out \<longleftrightarrow>
  hamiltonOk pool D rows \<and> out = sortBy (\<lambda>a b. cmpHex (haKey a) (haKey b)) (map (hamPaid pool D rows) rows)"
  using hamilton_returns hamilton_Inr_ok by (metis sum.inject(2))

section \<open>What it returns\<close>

lemma hamShare_facts:
  assumes ok: "hamiltonOk pool D rows"
  shows "sumOf (hamShare pool rows) rows = pool" and "r \<in> set rows \<Longrightarrow> 0 \<le> hamShare pool rows r"
    and "hrNumerator r * pool div D \<le> hamShare pool rows r" "hamShare pool rows r \<le> hrNumerator r * pool div D + 1"
proof -
  note okc = hamiltonOk_claims [OF ok]
  have "sumOf (hamShare pool rows) rows = sumOf (share pool (hamClaims rows)) (hamClaims rows)"
    by (simp add: hamShare_def [abs_def] hamClaims_def comp_def)
  then show "sumOf (hamShare pool rows) rows = pool" using share_sum [OF okc(1)] by simp
  show "0 \<le> hamShare pool rows r" if "r \<in> set rows"
    unfolding hamShare_def by (rule share_ok_nonneg [OF okc(1)]) (use that in \<open>auto simp: hamClaims_def\<close>)
  show "hrNumerator r * pool div D \<le> hamShare pool rows r" "hamShare pool rows r \<le> hrNumerator r * pool div D + 1"
    using share_quota [of pool "hamClaims rows" "(toLowerCase (hrKey r), hrNumerator r)"]
    by (simp_all add: hamShare_def okc(2) quota_def)
qed

lemma hamilton_facts:
  assumes "hamilton pool D rows = Inr out"
  shows "sumOf haAllocation out = pool" and "\<forall>a \<in> set out. 0 \<le> haAllocation a"
    and "sorted_wrt (<) (map haKey out)" and "mset (map haData out) = mset (map hrData rows)"
    and "\<forall>a \<in> set out. \<exists>r \<in> set rows. a = hamPaid pool D rows r"
proof -
  have ok: "hamiltonOk pool D rows" and out: "out = sortBy (\<lambda>a b. cmpHex (haKey a) (haKey b)) (map (hamPaid pool D rows) rows)"
    using assms unfolding hamilton_iff by auto
  note f = hamShare_facts [OF ok]
  show "sumOf haAllocation out = pool"
    unfolding out using f(1) by (simp add: comp_def hamPaid_def)
  show "\<forall>a \<in> set out. \<exists>r \<in> set rows. a = hamPaid pool D rows r" unfolding out by auto
  then show "\<forall>a \<in> set out. 0 \<le> haAllocation a" using f(2) by (auto simp: hamPaid_def)
  show "mset (map haData out) = mset (map hrData rows)"
    unfolding out mset_map_sortBy by (simp add: comp_def hamPaid_def hamRowOf_def)
  have key: "toLowerCase (haKey a) = haKey a" if "a \<in> set out" for a
    using that unfolding out by (auto simp: hamPaid_def hamRowOf_def)
  have "sorted (map (\<lambda>a. toLowerCase (haKey a)) out)"
    unfolding out by (rule sortBy_keyed) (simp add: cmpHex_cmpLin)
  then have s: "sorted (map haKey out)" using key by (simp cong: map_cong)
  have "distinct (map haKey out)"
    unfolding out distinct_map_sortBy using ok by (simp add: comp_def hamPaid_def hamRowOf_def hamiltonOk_def)
  with s show "sorted_wrt (<) (map haKey out)" by (simp add: strict_sorted_iff)
qed

section \<open>The interface\<close>

definition hamRows :: "claims \<Rightarrow> unit HamiltonRow list" where
  "hamRows = map (\<lambda>(k, n). \<lparr>hrKey = k, hrNumerator = n, hrData = ()\<rparr>)"

definition hamAlloc :: "int \<Rightarrow> claims \<Rightarrow> (hex, int) jmap result" where
  "hamAlloc pool rows = bindE (hamilton pool (claimTotal rows) (hamRows rows))
     (\<lambda>out. Inr (map (\<lambda>a. (haKey a, haAllocation a)) out))"

lemma hamAlloc_interface:
  assumes fair: "fairClaims pool rows"
  shows "\<exists>res. hamAlloc pool rows = Inr res \<and> sorted_wrt (<) (jkeys res) \<and> set (jkeys res) \<subseteq> fst ` set rows \<and>
    (\<forall>r \<in> set rows. amountOf res (fst r) = share pool rows r)"
proof -
  let ?D = "claimTotal rows" and ?h = "hamRows rows"
  have can: "\<forall>r \<in> set rows. canonical (fst r) \<and> 0 < snd r" using fair by (auto simp: fairClaims_def)
  have c: "hamClaims ?h = rows"
    using can by (auto simp: hamClaims_def hamRows_def comp_def case_prod_beta canonicalD intro!: map_idI)
  have keys: "map (\<lambda>r. toLowerCase (hrKey r)) ?h = map fst rows"
    using can by (simp add: hamRows_def comp_def case_prod_beta canonicalD)
  have ok: "hamiltonOk pool ?D ?h"
    unfolding hamiltonOk_def keys
    using fair can by (auto simp: fairClaims_def hamRows_def claimTotal_def comp_def case_prod_beta)
  let ?out = "sortBy (\<lambda>a b. cmpHex (haKey a) (haKey b)) (map (hamPaid pool ?D ?h) ?h)"
  let ?res = "map (\<lambda>a. (haKey a, haAllocation a)) ?out"
  note h = hamilton_returns [OF ok]
  have run: "hamAlloc pool rows = Inr ?res" by (simp add: hamAlloc_def h)
  have "jkeys ?res = map haKey ?out" by (simp add: comp_def)
  then have srt: "sorted_wrt (<) (jkeys ?res)" using hamilton_facts(3) [OF h] by (simp only:)
  have d: "distinct (jkeys ?res)" using srt strict_sorted_iff by blast
  have sub: "set (jkeys ?res) \<subseteq> fst ` set rows"
    using can by (force simp: hamPaid_def hamRowOf_def hamRows_def canonicalD)
  have "amountOf ?res (fst r) = share pool rows r" if r: "r \<in> set rows" for r
  proof (rule amountOf_entry [OF d])
    let ?x = "\<lparr>hrKey = fst r, hrNumerator = snd r, hrData = ()\<rparr>"
    have "?x \<in> set ?h" using r by (force simp: hamRows_def)
    moreover have "haKey (hamPaid pool ?D ?h ?x) = fst r" "haAllocation (hamPaid pool ?D ?h ?x) = share pool rows r"
      using can r by (simp_all add: hamPaid_def hamRowOf_def hamShare_def c canonicalD)
    ultimately show "(fst r, share pool rows r) \<in> set ?res"
      by (metis (mono_tags, lifting) image_eqI list.set_map set_sortBy)
  qed
  with run srt sub show ?thesis by blast
qed

interpretation ham: apportionment hamAlloc
  by unfold_locales (rule hamAlloc_interface)

end
