(* ===== verification/Composition.thy ===== *)
theory Composition
  imports Hamilton
begin

text \<open>
  \<open>lib/composition/core.ts\<close>: identifiers, data, canonical forms, weights, the policy and capture manifests,
  and the two-level allocation of the output pool.
\<close>

section \<open>Identifiers\<close>

definition hashName :: "viem \<Rightarrow> string \<Rightarrow> hex" where
  "hashName V s = keccak256 V (stringToHex V s)"

definition COMPOSITION_IDENTITY_DOMAIN :: "viem \<Rightarrow> hex" where
  "COMPOSITION_IDENTITY_DOMAIN V = hashName V ''eip155-address''"

definition COMPOSITION_OUTPUT_KIND :: "viem \<Rightarrow> hex" where
  "COMPOSITION_OUTPUT_KIND V = hashName V ''allocation''"

definition TRUST_GRAPH_SOURCE_PROGRAM_ID :: "viem \<Rightarrow> hex" where
  "TRUST_GRAPH_SOURCE_PROGRAM_ID V = hashName V ''trust-graph''"

definition WEIGHTED_TRUST_GRAPH_SOURCE_PROGRAM_ID :: "viem \<Rightarrow> hex" where
  "WEIGHTED_TRUST_GRAPH_SOURCE_PROGRAM_ID V = hashName V ''trust-graph-weighted''"

definition TRUST_GRAPH_SOURCE_OUTPUT_DOMAIN :: "viem \<Rightarrow> hex" where
  "TRUST_GRAPH_SOURCE_OUTPUT_DOMAIN V = hashName V ''trustgraphs.output.trust-graph-account.v1''"

definition WEIGHTED_TRUST_GRAPH_SOURCE_OUTPUT_DOMAIN :: "viem \<Rightarrow> hex" where
  "WEIGHTED_TRUST_GRAPH_SOURCE_OUTPUT_DOMAIN V = hashName V ''trustgraphs.output.weighted-trust-graph-account.v1''"

definition COMPOSITION_SOURCE_COMPATIBILITY_CLASS :: "viem \<Rightarrow> hex result" where
  "COMPOSITION_SOURCE_COMPATIBILITY_CLASS V =
     bindE (encodeAbi V [AbiBytes32 (hashName V ''trust-compose.source-compatibility.v1''),
         AbiBytes32 (COMPOSITION_IDENTITY_DOMAIN V), AbiBytes32 (COMPOSITION_OUTPUT_KIND V),
         AbiBytes32 (TRUST_GRAPH_SOURCE_PROGRAM_ID V), AbiBytes32 (TRUST_GRAPH_SOURCE_OUTPUT_DOMAIN V),
         AbiBytes32 (WEIGHTED_TRUST_GRAPH_SOURCE_PROGRAM_ID V),
         AbiBytes32 (WEIGHTED_TRUST_GRAPH_SOURCE_OUTPUT_DOMAIN V)])
       (\<lambda>x. Inr (keccak256 V x))"

definition admittedSourceOutputDomain :: "viem \<Rightarrow> hex \<Rightarrow> hex option" where
  "admittedSourceOutputDomain V programId =
     (let lowered = toLowerCase programId in
      if lowered = TRUST_GRAPH_SOURCE_PROGRAM_ID V then Some (TRUST_GRAPH_SOURCE_OUTPUT_DOMAIN V)
      else if lowered = WEIGHTED_TRUST_GRAPH_SOURCE_PROGRAM_ID V
      then Some (WEIGHTED_TRUST_GRAPH_SOURCE_OUTPUT_DOMAIN V)
      else None)"

definition WEIGHT_SCALE :: int where
  "WEIGHT_SCALE = 1000000000000000000"

definition COMPOSITION_PARAMS_VERSION :: int where
  "COMPOSITION_PARAMS_VERSION = 1"

definition MAX_SOURCE_AGE_BLOCKS :: int where
  "MAX_SOURCE_AGE_BLOCKS = 500000"

section \<open>Data\<close>

record CompositionBounds =
  maxSources :: int
  maxEntriesPerSource :: int
  maxAggregateEntries :: int
  maxUnionAccounts :: int
  maxAggregateBlobBytes :: int

definition MAX_COMPOSITION_BOUNDS :: CompositionBounds where
  "MAX_COMPOSITION_BOUNDS = \<lparr>maxSources = 8, maxEntriesPerSource = 4096, maxAggregateEntries = 8192,
     maxUnionAccounts = 8192, maxAggregateBlobBytes = 1024 * 1024\<rparr>"

record CompositionEntry =
  cnAccount :: hex
  cnValue :: int

record CompositionSource =
  csInstanceId :: hex
  csName :: string
  csChainId :: int
  csSourceId :: hex
  csSnapshot :: hex
  csFamilyId :: hex
  csProgramId :: hex
  csController :: hex
  csRegistry :: hex
  csVerifier :: hex
  csParamsHash :: hex
  csAdapter :: "hex option"
  csDeploymentProvenance :: hex
  csStateIndex :: int
  csCheckpointId :: int
  csAcceptedAtBlock :: int
  csFreezeBlock :: int
  csOutputRoot :: hex
  csBlobSha256 :: hex
  csCid :: string
  csTotalValue :: int
  csWeight :: int
  csMaxAgeBlocks :: int
  csEntries :: "CompositionEntry list"
  csAvailable :: bool
  csAvailabilityError :: "string option"

record CompositionConfig =
  ccChainId :: int
  ccCaptureBlock :: int
  ccScopeHash :: hex
  ccOutputPool :: int
  ccBounds :: CompositionBounds
  ccSources :: "CompositionSource list"

record SourceAttribution =
  atSourceId :: hex
  atAccount :: hex
  atExactValue :: int
  atIdealNumerator :: int
  atIdealDenominator :: int
  atRoundingDeltaNumerator :: int

record SourceAllocation =
  alSourceId :: hex
  alQuota :: int
  alEntries :: "CompositionEntry list"

record WorkShape =
  wsSourceCount :: int
  wsAggregateEntries :: int
  wsUnionAccounts :: int
  wsAggregateBlobBytes :: int
  wsBand :: nat
  wsMeasuredCycles :: int

section \<open>Checks and canonical forms\<close>

definition byteLength :: "string \<Rightarrow> int" where
  "byteLength text = int (length (utf8Encode text))"

definition requireUint :: "int \<Rightarrow> nat \<Rightarrow> string \<Rightarrow> unit result" where
  "requireUint v bits label =
     throwWhen (v < 0 \<or> v \<ge> push_bit bits 1) (compFail (label @ '' exceeds uint'' @ natDigits bits))"

text \<open>The regular expression \<open>^0x[0-9a-fA-F]{64}$\<close>.\<close>

definition isBytes32 :: "hex \<Rightarrow> bool" where
  "isBytes32 h \<longleftrightarrow> length h = 66 \<and> take 2 h = ''0x'' \<and> list_all (\<lambda>c. hexValue c \<noteq> None) (drop 2 h)"

definition canonicalWord :: "hex \<Rightarrow> string \<Rightarrow> hex result" where
  "canonicalWord v label =
     bindE (throwWhen (\<not> isBytes32 v) (compFail (label @ '' must be bytes32''))) (\<lambda>_. Inr (toLowerCase v))"

definition checkOrdered :: "CompositionEntry list \<Rightarrow> nat \<Rightarrow> unit result" where
  "checkOrdered xs index =
     (let entry = xs ! index in
      bindE (throwWhen (cnAccount entry = ZERO_ADDRESS \<or> cnValue entry \<le> 0)
        (compFail ''source entries require nonzero addresses and positive values'')) (\<lambda>_.
      throwWhen (index > 0 \<and> cnAccount (xs ! (index - 1)) = cnAccount entry)
        (compFail (''duplicate source account '' @ cnAccount entry))))"

definition orderedEntries :: "CompositionEntry list \<Rightarrow> CompositionEntry list result" where
  "orderedEntries entries =
     (let xs = sortBy (\<lambda>a b. cmpHex (cnAccount a) (cnAccount b))
            (map (\<lambda>entry. \<lparr>cnAccount = toLowerCase (cnAccount entry), cnValue = cnValue entry\<rparr>) entries) in
      bindE (mapE (checkOrdered xs) [0..<length xs]) (\<lambda>_.
      bindE (throwWhen (length xs = 0) (compFail ''source output is empty'')) (\<lambda>_. Inr xs)))"

definition entryPairs :: "CompositionEntry list \<Rightarrow> (hex \<times> int) list" where
  "entryPairs = map (\<lambda>e. (cnAccount e, cnValue e))"

definition canonicalCompositionBlob :: "CompositionEntry list \<Rightarrow> string result" where
  "canonicalCompositionBlob entries = bindE (orderedEntries entries) (\<lambda>xs. Inr (canonicalBlob (entryPairs xs)))"

definition compositionOutputRoot :: "viem \<Rightarrow> CompositionEntry list \<Rightarrow> hex result" where
  "compositionOutputRoot V entries =
     bindE (orderedEntries entries) (\<lambda>xs.
     bindE (mapE (\<lambda>e. outputLeaf V (cnAccount e) (cnValue e)) xs) (\<lambda>leaves. merkleRoot V leaves))"

definition compositionSourceId :: "viem \<Rightarrow> hex \<Rightarrow> hex \<Rightarrow> hex result" where
  "compositionSourceId V instanceId snapshot =
     bindE (canonicalWord instanceId ''instanceId'') (\<lambda>w.
     bindE (encodeAbi V [AbiBytes32 w, AbiAddress (toLowerCase snapshot)]) (\<lambda>x. Inr (keccak256 V x)))"

definition suggestedFamilyId :: "viem \<Rightarrow> hex \<Rightarrow> hex \<Rightarrow> hex result" where
  "suggestedFamilyId V programId controller =
     bindE (canonicalWord programId ''programId'') (\<lambda>w.
     bindE (encodeAbi V [AbiBytes32 w, AbiAddress (toLowerCase controller)]) (\<lambda>x. Inr (keccak256 V x)))"

text \<open>\<open>JSON.stringify\<close> of an object whose values are strings.\<close>

definition jsonChar :: "char \<Rightarrow> string" where
  "jsonChar c =
     (let n = of_char c :: nat; bs = CHR 0x5C in
      if n = 34 then [bs, CHR 0x22] else if n = 92 then [bs, bs]
      else if n = 8 then [bs, CHR ''b''] else if n = 9 then [bs, CHR ''t'']
      else if n = 10 then [bs, CHR ''n''] else if n = 12 then [bs, CHR ''f'']
      else if n = 13 then [bs, CHR ''r'']
      else if n < 32 then [bs, CHR ''u''] @ hexDigits 4 n
      else [c])"

definition jsonString :: "string \<Rightarrow> string" where
  "jsonString s = quoteMark @ concat (map jsonChar s) @ quoteMark"

fun jsonFields :: "(string \<times> string) list \<Rightarrow> string" where
  "jsonFields [] = []"
| "jsonFields [(k, v)] = jsonString k @ '':'' @ jsonString v"
| "jsonFields ((k, v) # fs) = jsonString k @ '':'' @ jsonString v @ '','' @ jsonFields fs"

definition sourceReviewPacket :: "CompositionSource \<Rightarrow> string" where
  "sourceReviewPacket s = ''{'' @ jsonFields
     [(''schema'', ''trustgraphs-composition-source-review-v1''),
      (''chainId'', bigToString (csChainId s)), (''instanceId'', toLowerCase (csInstanceId s)),
      (''snapshot'', toLowerCase (csSnapshot s)), (''programId'', toLowerCase (csProgramId s)),
      (''controller'', toLowerCase (csController s)), (''registry'', toLowerCase (csRegistry s)),
      (''verifier'', toLowerCase (csVerifier s)), (''paramsHash'', toLowerCase (csParamsHash s))] @ ''}''"

definition sourceReviewDigest :: "viem \<Rightarrow> CompositionSource \<Rightarrow> hex" where
  "sourceReviewDigest V s = sha256Hex V (stringToHex V (sourceReviewPacket s))"

section \<open>Weights\<close>

definition equalStep :: "int \<Rightarrow> int \<times> (hex \<times> int) list \<Rightarrow> hex \<Rightarrow> int \<times> (hex \<times> int) list" where
  "equalStep base st sourceId =
     (case st of (remainder, out) \<Rightarrow>
       (if remainder > 0 then remainder - 1 else remainder,
        out @ [(sourceId, base + (if remainder > 0 then 1 else 0))]))"

text \<open>The message of the source writes an en dash between the two bounds.\<close>

definition exactEqualWeights :: "hex list \<Rightarrow> (hex, int) jmap result" where
  "exactEqualWeights sourceIds =
     bindE (throwWhen (length sourceIds < 2 \<or> length sourceIds > 8)
       (compFail ''equal weights require 2-8 sources'')) (\<lambda>_.
     bindE (mapE (\<lambda>s. canonicalWord s ''sourceId'') sourceIds) (\<lambda>words.
     let ordered = sortBy cmpHex words in
     bindE (throwWhen (length (newSet ordered) \<noteq> length ordered) (compFail ''duplicate sourceId'')) (\<lambda>_.
     let denominator = int (length ordered) in
     bindE (bigDiv WEIGHT_SCALE denominator) (\<lambda>base.
     let remainder = WEIGHT_SCALE - base * denominator in
     Inr (newMap (snd (foldl (equalStep base) (remainder, []) ordered)))))))"

text \<open>
  \<open>trim\<close> and the regular expression \<open>^(\d{1,3})(?:\.(\d{1,16}))?$\<close>; the characters of the model are the
  code points below 256, of which the white space is the one listed.
\<close>

definition isSpace :: "char \<Rightarrow> bool" where
  "isSpace c \<longleftrightarrow> (of_char c :: nat) \<in> {9, 10, 11, 12, 13, 32, 160}"

definition trim :: "string \<Rightarrow> string" where
  "trim s = rev (dropWhile isSpace (rev (dropWhile isSpace s)))"

definition weightFormat :: "string \<Rightarrow> bool" where
  "weightFormat s \<longleftrightarrow>
     1 \<le> length (beforeDot s) \<and> length (beforeDot s) \<le> 3 \<and> list_all isDigit (beforeDot s) \<and>
     (CHR ''.'' \<in> set s \<longrightarrow>
        1 \<le> length (afterDot s) \<and> length (afterDot s) \<le> 16 \<and> list_all isDigit (afterDot s))"

definition parseWeightPercent :: "string \<Rightarrow> int result" where
  "parseWeightPercent raw =
     (let s = trim raw in
      bindE (throwWhen (\<not> weightFormat s)
        (compFail ''weight must be a percentage with at most 16 decimals'')) (\<lambda>_.
      let whole = int (digitsVal (beforeDot s));
          fraction = int (digitsVal (padEnd 16 (CHR ''0'') (afterDot s)));
          v = whole * 10 ^ 16 + fraction in
      bindE (throwWhen (v \<le> 0 \<or> v > WEIGHT_SCALE)
        (compFail ''every configured weight must be greater than 0% and at most 100%'')) (\<lambda>_. Inr v)))"

definition padStart :: "nat \<Rightarrow> char \<Rightarrow> string \<Rightarrow> string" where
  "padStart n c s = replicate (n - length s) c @ s"

definition dropTrailing :: "char \<Rightarrow> string \<Rightarrow> string" where
  "dropTrailing c s = rev (dropWhile (\<lambda>d. d = c) (rev s))"

definition formatWeightPercent :: "int \<Rightarrow> string result" where
  "formatWeightPercent weight =
     bindE (requireUint weight 64 ''weight'') (\<lambda>_.
     bindE (bigDiv weight (10 ^ 16)) (\<lambda>whole.
     bindE (bigMod weight (10 ^ 16)) (\<lambda>rest.
     let fraction = dropTrailing (CHR ''0'') (padStart 16 (CHR ''0'') (bigToString rest)) in
     Inr (if length fraction > 0 then bigToString whole @ ''.'' @ fraction else bigToString whole))))"

section \<open>Policy and capture commitments\<close>

definition requireAdmittedDomain :: "viem \<Rightarrow> CompositionSource \<Rightarrow> hex result" where
  "requireAdmittedDomain V s =
     (case admittedSourceOutputDomain V (csProgramId s) of
        Some d \<Rightarrow> Inr d
      | None \<Rightarrow> Inl (compFail (''source '' @ csName s @ '' is not in the compatibility class'')))"

definition sourcePolicyLeaf :: "viem \<Rightarrow> CompositionSource \<Rightarrow> hex result" where
  "sourcePolicyLeaf V s =
     bindE (requireAdmittedDomain V s) (\<lambda>d.
     bindE (encodeAbi V [AbiBytes32 (csSourceId s), AbiAddress (csSnapshot s), AbiBytes32 (csFamilyId s),
         AbiBytes32 (csProgramId s), AbiBytes32 d, AbiUint 64 (csWeight s), AbiUint 64 (csMaxAgeBlocks s),
         AbiUint 8 1]) (\<lambda>x. Inr (keccak256 V x)))"

definition bySourceId :: "CompositionSource list \<Rightarrow> CompositionSource list" where
  "bySourceId = sortBy (\<lambda>a b. cmpHex (csSourceId a) (csSourceId b))"

fun policyLevel :: "viem \<Rightarrow> hex list \<Rightarrow> hex list" where
  "policyLevel V (a # b # xs) = hashPair V a b # policyLevel V xs"
| "policyLevel V xs = xs"

lemma policyLevel_length: "length (policyLevel V xs) = (length xs + 1) div 2"
  by (induction V xs rule: policyLevel.induct) auto

function policyClimb :: "viem \<Rightarrow> hex list \<Rightarrow> hex list" where
  "policyClimb V level = (if length level > 1 then policyClimb V (policyLevel V level) else level)"
  by auto
termination
  by (relation "measure (\<lambda>(V, level). length level)") (auto simp: policyLevel_length)

declare policyClimb.simps [simp del]

definition compositionPolicyRoot :: "viem \<Rightarrow> CompositionSource list \<Rightarrow> hex result" where
  "compositionPolicyRoot V sources =
     bindE (mapE (sourcePolicyLeaf V) (bySourceId sources)) (\<lambda>level.
     if length level = 0 then Inr ZERO_HASH else Inr (policyClimb V level ! 0))"

definition policyRecord :: "viem \<Rightarrow> CompositionSource \<Rightarrow> hex result list" where
  "policyRecord V s =
     [Inr (csSourceId s), Inr (csSnapshot s), Inr (csFamilyId s), Inr (csProgramId s),
      requireAdmittedDomain V s, toHexSized V (csWeight s) 8, toHexSized V (csMaxAgeBlocks s) 8,
      toHexSized V 1 1]"

definition canonicalPolicyManifest :: "viem \<Rightarrow> int \<Rightarrow> CompositionSource list \<Rightarrow> hex result" where
  "canonicalPolicyManifest V chain sources =
     bindE (requireUint chain 64 ''chainId'') (\<lambda>_.
     let ordered = bySourceId sources in
     concatE V ([Inr ''0x54474350'', toHexSized V COMPOSITION_PARAMS_VERSION 2, toHexSized V chain 8,
         toHexSized V (int (length ordered)) 1] @ concat (map (policyRecord V) ordered)))"

definition captureRecord :: "viem \<Rightarrow> CompositionSource \<Rightarrow> hex result list" where
  "captureRecord V s =
     [Inr (csSourceId s), Inr (csSnapshot s), Inr (csFamilyId s), Inr (csProgramId s),
      requireAdmittedDomain V s, toHexSized V (csStateIndex s) 8, toHexSized V (csFreezeBlock s) 8,
      Inr (csOutputRoot s), Inr (csBlobSha256 s), Inr (keccak256 V (stringToHex V (csCid s))),
      toHexSized V (csTotalValue s) 16, toHexSized V (csWeight s) 8, toHexSized V (csMaxAgeBlocks s) 8,
      toHexSized V 1 1]"

definition canonicalCaptureManifest ::
  "viem \<Rightarrow> CompositionConfig \<Rightarrow> CompositionSource list \<Rightarrow> hex result" where
  "canonicalCaptureManifest V cfg sources =
     bindE (requireUint (ccChainId cfg) 64 ''chainId'') (\<lambda>_.
     bindE (requireUint (ccCaptureBlock cfg) 64 ''captureBlock'') (\<lambda>_.
     let ordered = bySourceId sources in
     concatE V ([Inr ''0x5447434d'', toHexSized V COMPOSITION_PARAMS_VERSION 2, toHexSized V (ccChainId cfg) 8,
         toHexSized V (ccCaptureBlock cfg) 8, toHexSized V (int (length ordered)) 1] @
       concat (map (captureRecord V) ordered))))"

definition workBand :: "int \<Rightarrow> int \<Rightarrow> int \<Rightarrow> int \<Rightarrow> nat" where
  "workBand sourceCount aggregateEntries unionAccounts aggregateBlobBytes =
     (if sourceCount \<le> 2 \<and> aggregateEntries \<le> 128 \<and> unionAccounts \<le> 128 \<and> aggregateBlobBytes \<le> 16 * 1024 then 1
      else if sourceCount \<le> 4 \<and> aggregateEntries \<le> 1024 \<and> unionAccounts \<le> 1024 \<and>
        aggregateBlobBytes \<le> 128 * 1024 then 2
      else if aggregateEntries \<le> 4096 \<and> unionAccounts \<le> 4096 \<and> aggregateBlobBytes \<le> 512 * 1024 then 3
      else 4)"

definition classifyCompositionWork :: "int \<Rightarrow> int \<Rightarrow> int \<Rightarrow> int \<Rightarrow> WorkShape" where
  "classifyCompositionWork sourceCount aggregateEntries unionAccounts aggregateBlobBytes =
     (let band = workBand sourceCount aggregateEntries unionAccounts aggregateBlobBytes in
      \<lparr>wsSourceCount = sourceCount, wsAggregateEntries = aggregateEntries, wsUnionAccounts = unionAccounts,
       wsAggregateBlobBytes = aggregateBlobBytes, wsBand = band,
       wsMeasuredCycles = [0, 2616399, 24312132, 105652691, 222311301] ! band\<rparr>)"

definition cmpTop :: "CompositionEntry \<Rightarrow> CompositionEntry \<Rightarrow> int" where
  "cmpTop a b =
     (let v = cmpBig (cnValue b) (cnValue a) in
      if v \<noteq> 0 then v else cmpHex (cnAccount a) (cnAccount b))"

definition topAccounts :: "CompositionEntry list \<Rightarrow> int \<Rightarrow> hex list" where
  "topAccounts entries limit = map cnAccount (sliceTo limit (sortBy cmpTop entries))"

section \<open>Allocation\<close>

text \<open>\<open>Number.isSafeInteger\<close> on an integer.\<close>

definition isSafeInteger :: "int \<Rightarrow> bool" where
  "isSafeInteger x \<longleftrightarrow> - (2 ^ 53) < x \<and> x < 2 ^ 53"

definition boundChecks :: "CompositionBounds \<Rightarrow> (string \<times> int \<times> int) list" where
  "boundChecks b =
     [(''maxSources'', maxSources b, maxSources MAX_COMPOSITION_BOUNDS),
      (''maxEntriesPerSource'', maxEntriesPerSource b, maxEntriesPerSource MAX_COMPOSITION_BOUNDS),
      (''maxAggregateEntries'', maxAggregateEntries b, maxAggregateEntries MAX_COMPOSITION_BOUNDS),
      (''maxUnionAccounts'', maxUnionAccounts b, maxUnionAccounts MAX_COMPOSITION_BOUNDS),
      (''maxAggregateBlobBytes'', maxAggregateBlobBytes b, maxAggregateBlobBytes MAX_COMPOSITION_BOUNDS)]"

definition validateConfig :: "CompositionConfig \<Rightarrow> unit result" where
  "validateConfig cfg =
     bindE (requireUint (ccChainId cfg) 64 ''chainId'') (\<lambda>_.
     bindE (requireUint (ccCaptureBlock cfg) 64 ''captureBlock'') (\<lambda>_.
     bindE (requireUint (ccOutputPool cfg) 128 ''outputPool'') (\<lambda>_.
     bindE (canonicalWord (ccScopeHash cfg) ''scopeHash'') (\<lambda>_.
     bindE (throwWhen (ccScopeHash cfg = ZERO_HASH) (compFail ''scopeHash must be nonzero'')) (\<lambda>_.
     bindE (throwWhen (ccOutputPool cfg = 0) (compFail ''outputPool must be positive'')) (\<lambda>_.
     bindE (throwWhen (length (ccSources cfg) < 2 \<or> int (length (ccSources cfg)) > maxSources (ccBounds cfg))
       (compFail ''source count is outside the configured 2-8 bound'')) (\<lambda>_.
     bindE (mapE (\<lambda>(key, v, maximum). throwWhen (\<not> isSafeInteger v \<or> v \<le> 0 \<or> v > maximum)
         (compFail (key @ '' exceeds the bound '' @ bigToString maximum))) (boundChecks (ccBounds cfg)))
       (\<lambda>_. Inr ()))))))))"

text \<open>The rows of the two apportionments.\<close>

definition sourceRow :: "CompositionSource \<Rightarrow> CompositionSource HamiltonRow" where
  "sourceRow s = \<lparr>hrKey = csSourceId s, hrNumerator = csWeight s, hrData = s\<rparr>"

definition entryRow :: "CompositionEntry \<Rightarrow> CompositionEntry HamiltonRow" where
  "entryRow e = \<lparr>hrKey = cnAccount e, hrNumerator = cnValue e, hrData = e\<rparr>"

definition attributionOf :: "CompositionSource \<Rightarrow> int \<Rightarrow> CompositionEntry Apportioned \<Rightarrow> SourceAttribution" where
  "attributionOf s granted row =
     \<lparr>atSourceId = csSourceId s, atAccount = cnAccount (haData row), atExactValue = haAllocation row,
      atIdealNumerator = granted * cnValue (haData row), atIdealDenominator = csTotalValue s,
      atRoundingDeltaNumerator = haAllocation row * csTotalValue s - granted * cnValue (haData row)\<rparr>"

definition allocateSource ::
  "CompositionSource Apportioned \<Rightarrow> (SourceAllocation \<times> SourceAttribution list) result" where
  "allocateSource row =
     (let s = haData row; granted = haAllocation row in
      bindE (hamilton granted (csTotalValue s) (map entryRow (csEntries s))) (\<lambda>apportioned.
      let entries = map (\<lambda>r. \<lparr>cnAccount = cnAccount (haData r), cnValue = haAllocation r\<rparr>)
            (filter (\<lambda>r. haAllocation r > 0) apportioned) in
      Inr (\<lparr>alSourceId = csSourceId s, alQuota = granted, alEntries = entries\<rparr>,
           map (attributionOf s granted) apportioned)))"

definition combineAllocations :: "SourceAllocation list \<Rightarrow> (hex, int) jmap" where
  "combineAllocations allocations =
     foldl (\<lambda>m source. foldl addTo m (entryPairs (alEntries source))) [] allocations"

definition combinedOutput :: "(hex, int) jmap \<Rightarrow> CompositionEntry list" where
  "combinedOutput combined =
     sortBy (\<lambda>a b. cmpHex (cnAccount a) (cnAccount b))
       (filter (\<lambda>e. cnValue e > 0) (map (\<lambda>(a, v). \<lparr>cnAccount = a, cnValue = v\<rparr>) combined))"

definition computeAllocations ::
  "CompositionSource list \<Rightarrow> int \<Rightarrow>
   (SourceAllocation list \<times> SourceAttribution list \<times> CompositionEntry list) result" where
  "computeAllocations sources outputPool =
     bindE (hamilton outputPool WEIGHT_SCALE (map sourceRow sources)) (\<lambda>quotas.
     bindE (throwWhen (list_ex (\<lambda>row. haAllocation row = 0) quotas)
       (compFail ''a required source receives a zero quota; raise the output pool or its weight'')) (\<lambda>_.
     bindE (mapE allocateSource quotas) (\<lambda>parts.
     Inr (map fst parts, concat (map snd parts), combinedOutput (combineAllocations (map fst parts))))))"

end
