(* ===== verification/Preview.thy ===== *)
theory Preview
  imports Composition
begin

text \<open>
  \<open>lib/composition/core.ts\<close>, continued: the metrics over a parameter for floating-point numbers, the
  checks on the sources, the preview, the simplex of sensitivity points and the comparison with landed
  commitments.
\<close>

section \<open>Metrics\<close>

text \<open>
  The floating-point numbers of the metrics are values of a type \<open>'n\<close> whose operations (IEEE 754 double
  precision, whose rounding the model leaves open) are the fields of a parameter \<open>N\<close>.  \<open>nSign\<close> is the
  sign a sort comparator is read by.
\<close>

record 'n numbers =
  nOf :: "int \<Rightarrow> 'n"
  nAdd :: "'n \<Rightarrow> 'n \<Rightarrow> 'n"
  nSub :: "'n \<Rightarrow> 'n \<Rightarrow> 'n"
  nMul :: "'n \<Rightarrow> 'n \<Rightarrow> 'n"
  nDiv :: "'n \<Rightarrow> 'n \<Rightarrow> 'n"
  nSqrt :: "'n \<Rightarrow> 'n"
  nAbs :: "'n \<Rightarrow> 'n"
  nEq :: "'n \<Rightarrow> 'n \<Rightarrow> bool"
  nSign :: "'n \<Rightarrow> int"

definition nSum :: "'n numbers \<Rightarrow> 'n list \<Rightarrow> 'n" where
  "nSum N xs = foldl (nAdd N) (nOf N 0) xs"

record 'n PairwiseMetric =
  pmLeft :: hex
  pmRight :: hex
  pmOverlapAccounts :: int
  pmUnionAccounts :: int
  pmOverlapRatio :: 'n
  pmCorrelation :: 'n
  pmDisagreement :: 'n

record 'n LeaveOneOutMetric =
  loOmittedSourceId :: hex
  loDisagreement :: 'n
  loChangedTopAccounts :: "hex list"
  loTopAccounts :: "hex list"

record 'n CompositionMetrics =
  cmPairwise :: "'n PairwiseMetric list"
  cmLeaveOneOut :: "'n LeaveOneOutMetric list"
  cmAccountsInEverySource :: int
  cmAccountsInOneSource :: int
  cmSupportCoverage :: 'n
  cmLargestShare :: 'n
  cmTop10Share :: 'n
  cmHhi :: 'n

definition entryMap :: "CompositionEntry list \<Rightarrow> (hex, int) jmap" where
  "entryMap es = newMap (map (\<lambda>e. (toLowerCase (cnAccount e), cnValue e)) es)"

definition normalizedShares :: "'n numbers \<Rightarrow> CompositionSource \<Rightarrow> hex list \<Rightarrow> 'n list" where
  "normalizedShares N s accounts =
     (let values = entryMap (csEntries s) in
      map (\<lambda>a. nDiv N (nOf N (orDefault (jget values (toLowerCase a)) 0)) (nOf N (csTotalValue s))) accounts)"

definition correlationStep :: "'n numbers \<Rightarrow> 'n \<Rightarrow> 'n \<Rightarrow> 'n \<times> 'n \<times> 'n \<Rightarrow> 'n \<times> 'n \<Rightarrow> 'n \<times> 'n \<times> 'n" where
  "correlationStep N leftMean rightMean st xy =
     (case (st, xy) of ((numerator, leftSquare, rightSquare), (x, y)) \<Rightarrow>
       let a = nSub N x leftMean; b = nSub N y rightMean in
       (nAdd N numerator (nMul N a b), nAdd N leftSquare (nMul N a a), nAdd N rightSquare (nMul N b b)))"

definition correlation :: "'n numbers \<Rightarrow> 'n list \<Rightarrow> 'n list \<Rightarrow> 'n" where
  "correlation N left right =
     (let leftMean = nDiv N (nSum N left) (nOf N (int (length left)));
          rightMean = nDiv N (nSum N right) (nOf N (int (length right)));
          zero = nOf N 0 in
      case foldl (correlationStep N leftMean rightMean) (zero, zero, zero) (zip left right) of
        (numerator, leftSquare, rightSquare) \<Rightarrow>
          if nEq N leftSquare zero \<or> nEq N rightSquare zero
          then (if nEq N leftSquare rightSquare then nOf N 1 else nOf N 0)
          else nDiv N numerator (nSqrt N (nMul N leftSquare rightSquare)))"

definition lowerAccounts :: "CompositionEntry list \<Rightarrow> hex list" where
  "lowerAccounts es = map (\<lambda>e. toLowerCase (cnAccount e)) es"

definition distributionDisagreement ::
  "'n numbers \<Rightarrow> CompositionEntry list \<Rightarrow> CompositionEntry list \<Rightarrow> 'n" where
  "distributionDisagreement N left right =
     (let leftTotal = nOf N (sumOf cnValue left); rightTotal = nOf N (sumOf cnValue right);
          accounts = newSet (lowerAccounts left @ lowerAccounts right);
          leftMap = entryMap left; rightMap = entryMap right in
      nDiv N (foldl (\<lambda>distance a. nAdd N distance (nAbs N (nSub N
            (nDiv N (nOf N (orDefault (jget leftMap a) 0)) leftTotal)
            (nDiv N (nOf N (orDefault (jget rightMap a) 0)) rightTotal))))
          (nOf N 0) accounts) (nOf N 2))"

text \<open>\<open>xs.indexOf(x)\<close>: the first position, or \<open>-1\<close>.\<close>

fun indexFrom :: "int \<Rightarrow> 'a \<Rightarrow> 'a list \<Rightarrow> int" where
  "indexFrom i x [] = -1"
| "indexFrom i x (y # ys) = (if y = x then i else indexFrom (i + 1) x ys)"

definition changedAccounts :: "hex list \<Rightarrow> hex list \<Rightarrow> hex list" where
  "changedAccounts baselineTop newTop =
     filter (\<lambda>a. indexFrom 0 a baselineTop \<noteq> indexFrom 0 a newTop) (newSet (baselineTop @ newTop))"

definition supportStep :: "(hex, int) jmap \<Rightarrow> CompositionEntry \<Rightarrow> (hex, int) jmap" where
  "supportStep support entry =
     jset (toLowerCase (cnAccount entry)) (orDefault (jget support (toLowerCase (cnAccount entry))) 0 + 1) support"

definition supportOf :: "CompositionSource list \<Rightarrow> (hex, int) jmap" where
  "supportOf sources = foldl (\<lambda>m s. foldl supportStep m (csEntries s)) [] sources"

definition pairMetric :: "'n numbers \<Rightarrow> CompositionSource \<Rightarrow> CompositionSource \<Rightarrow> 'n PairwiseMetric" where
  "pairMetric N left right =
     (let leftAccounts = newSet (lowerAccounts (csEntries left));
          rightAccounts = newSet (lowerAccounts (csEntries right));
          accounts = sortBy cmpLin (newSet (leftAccounts @ rightAccounts));
          overlapAccounts = int (length (filter (\<lambda>a. a \<in> set rightAccounts) leftAccounts));
          leftShares = normalizedShares N left accounts;
          rightShares = normalizedShares N right accounts in
      \<lparr>pmLeft = csSourceId left, pmRight = csSourceId right, pmOverlapAccounts = overlapAccounts,
       pmUnionAccounts = int (length accounts),
       pmOverlapRatio = (if length accounts = 0 then nOf N 0
         else nDiv N (nOf N overlapAccounts) (nOf N (int (length accounts)))),
       pmCorrelation = correlation N leftShares rightShares,
       pmDisagreement = nDiv N (nSum N (map (\<lambda>(x, y). nAbs N (nSub N x y)) (zip leftShares rightShares))) (nOf N 2)\<rparr>)"

text \<open>The pairs with \<open>leftIndex < rightIndex\<close>, in the order of the two loops.\<close>

fun sourcePairs :: "'a list \<Rightarrow> ('a \<times> 'a) list" where
  "sourcePairs [] = []"
| "sourcePairs (x # xs) = map (Pair x) xs @ sourcePairs xs"

definition omitMetric ::
  "'n numbers \<Rightarrow> CompositionEntry list \<Rightarrow> (hex \<Rightarrow> CompositionEntry list result) \<Rightarrow> CompositionSource \<Rightarrow>
   'n LeaveOneOutMetric result" where
  "omitMetric N output computeWithout s =
     bindE (computeWithout (csSourceId s)) (\<lambda>without.
     let withoutTop = topAccounts without 5 in
     Inr \<lparr>loOmittedSourceId = csSourceId s, loDisagreement = distributionDisagreement N output without,
          loChangedTopAccounts = changedAccounts (topAccounts output 5) withoutTop, loTopAccounts = withoutTop\<rparr>)"

definition metricsFor ::
  "'n numbers \<Rightarrow> CompositionSource list \<Rightarrow> CompositionEntry list \<Rightarrow> (hex \<Rightarrow> CompositionEntry list result) \<Rightarrow>
   'n CompositionMetrics result" where
  "metricsFor N sources output computeWithout =
     (let support = supportOf sources;
          pairwise = map (\<lambda>(l, r). pairMetric N l r) (sourcePairs sources) in
      bindE (mapE (omitMetric N output computeWithout) sources) (\<lambda>leaveOneOut.
      let tot = sumOf cnValue output;
          shares = map (\<lambda>e. nDiv N (nOf N (cnValue e)) (nOf N tot)) output;
          sortedShares = sortBy (\<lambda>l r. nSign N (nSub N r l)) shares in
      Inr \<lparr>cmPairwise = pairwise, cmLeaveOneOut = leaveOneOut,
        cmAccountsInEverySource = int (length (filter (\<lambda>c. c = int (length sources)) (jvalues support))),
        cmAccountsInOneSource = int (length (filter (\<lambda>c. c = 1) (jvalues support))),
        cmSupportCoverage = (if length support = 0 then nOf N 0
          else nDiv N (nOf N (sum_list (jvalues support))) (nOf N (int (length support * length sources)))),
        cmLargestShare = (case sortedShares of [] \<Rightarrow> nOf N 0 | s # _ \<Rightarrow> s),
        cmTop10Share = nSum N (sliceTo 10 sortedShares),
        cmHhi = foldl (\<lambda>acc v. nAdd N acc (nMul N v v)) (nOf N 0) shares\<rparr>))"

definition emptyMetrics :: "'n numbers \<Rightarrow> 'n CompositionMetrics" where
  "emptyMetrics N = \<lparr>cmPairwise = [], cmLeaveOneOut = [], cmAccountsInEverySource = 0, cmAccountsInOneSource = 0,
     cmSupportCoverage = nOf N 0, cmLargestShare = nOf N 0, cmTop10Share = nOf N 0, cmHhi = nOf N 0\<rparr>"

section \<open>The preview\<close>

definition canonicalSource :: "CompositionSource \<Rightarrow> CompositionSource result" where
  "canonicalSource s =
     bindE (canonicalWord (csSourceId s) ''sourceId'') (\<lambda>sourceId.
     bindE (canonicalWord (csFamilyId s) ''familyId'') (\<lambda>familyId.
     bindE (canonicalWord (csProgramId s) ''programId'') (\<lambda>programId.
     bindE (canonicalWord (csOutputRoot s) ''outputRoot'') (\<lambda>outputRoot.
     bindE (canonicalWord (csBlobSha256 s) ''blobSha256'') (\<lambda>blobSha256.
     bindE (canonicalWord (csDeploymentProvenance s) ''deploymentProvenance'') (\<lambda>provenance.
     bindE (orderedEntries (csEntries s)) (\<lambda>entries.
     Inr (s\<lparr>csSourceId := sourceId, csFamilyId := familyId, csProgramId := programId,
            csOutputRoot := outputRoot, csBlobSha256 := blobSha256,
            csDeploymentProvenance := provenance, csEntries := entries\<rparr>))))))))"

record SourceScan =
  snIds :: "hex list"
  snSnapshots :: "hex list"
  snWeightSum :: int
  snEntries :: int
  snBlobBytes :: int
  snUnion :: "hex list"

text \<open>The guards on one source that read nothing but the source and the configuration, in their order.\<close>

definition sourceStatus :: "viem \<Rightarrow> CompositionConfig \<Rightarrow> CompositionSource \<Rightarrow> unit result" where
  "sourceStatus V cfg s =
     (let named = (\<lambda>text. compFail (''source '' @ csName s @ text)) in
      bindE (throwWhen (\<not> csAvailable s) (named ('' is unavailable'' @
        (case csAvailabilityError s of None \<Rightarrow> [] | Some e \<Rightarrow> if length e = 0 then [] else '': '' @ e)))) (\<lambda>_.
      bindE (throwWhen (csChainId s \<noteq> ccChainId cfg) (named '' is on another chain'')) (\<lambda>_.
      bindE (throwWhen (admittedSourceOutputDomain V (csProgramId s) = None)
        (named '' is not in the compatibility class'')) (\<lambda>_.
      bindE (throwWhen (csWeight s \<le> 0) (named '' has zero weight'')) (\<lambda>_.
      requireUint (csWeight s) 64 ''source weight'')))))"

definition sourceBounds :: "CompositionConfig \<Rightarrow> CompositionSource \<Rightarrow> unit result" where
  "sourceBounds cfg s =
     (let named = (\<lambda>text. compFail (''source '' @ csName s @ text)) in
      bindE (throwWhen (csTotalValue s \<le> 0) (named '' has an empty total'')) (\<lambda>_.
      bindE (requireUint (csTotalValue s) 128 ''source total'') (\<lambda>_.
      bindE (requireUint (csStateIndex s) 64 ''source state index'') (\<lambda>_.
      bindE (requireUint (csFreezeBlock s) 64 ''source freeze block'') (\<lambda>_.
      bindE (requireUint (csMaxAgeBlocks s) 64 ''source maximum age'') (\<lambda>_.
      bindE (throwWhen (csMaxAgeBlocks s \<le> 0 \<or> csMaxAgeBlocks s > MAX_SOURCE_AGE_BLOCKS)
        (named '' has an invalid maximum age'')) (\<lambda>_.
      bindE (throwWhen (csFreezeBlock s > ccCaptureBlock cfg \<or>
          ccCaptureBlock cfg - csFreezeBlock s > csMaxAgeBlocks s)
        (named '' is stale at the preview block'')) (\<lambda>_.
      bindE (throwWhen (int (length (csEntries s)) > maxEntriesPerSource (ccBounds cfg))
        (named '' exceeds the per-source entry cap'')) (\<lambda>_.
      throwWhen (sumOf cnValue (csEntries s) \<noteq> csTotalValue s)
        (named '' total does not match its entries''))))))))))"

text \<open>The commitments of a source against its entries; the result is the canonical blob.\<close>

definition sourceCommitments :: "viem \<Rightarrow> CompositionSource \<Rightarrow> string result" where
  "sourceCommitments V s =
     (let named = (\<lambda>text. compFail (''source '' @ csName s @ text)) in
      bindE (canonicalCompositionBlob (csEntries s)) (\<lambda>blob.
      bindE (throwWhen (digestToHex V (sha256Utf8 V blob) \<noteq> csBlobSha256 s) (named '' blob digest mismatch'')) (\<lambda>_.
      bindE (cidV1Raw (sha256Utf8 V blob)) (\<lambda>cid.
      bindE (throwWhen (cid \<noteq> csCid s) (named '' CID mismatch'')) (\<lambda>_.
      bindE (compositionOutputRoot V (csEntries s)) (\<lambda>root.
      bindE (throwWhen (root \<noteq> csOutputRoot s) (named '' output root mismatch'')) (\<lambda>_. Inr blob)))))))"

definition scanSource :: "viem \<Rightarrow> CompositionConfig \<Rightarrow> SourceScan \<Rightarrow> CompositionSource \<Rightarrow> SourceScan result" where
  "scanSource V cfg scan s =
     bindE (throwWhen (csSourceId s \<in> set (snIds scan)) (compFail (''duplicate sourceId '' @ csSourceId s))) (\<lambda>_.
     bindE (throwWhen (toLowerCase (csSnapshot s) \<in> set (snSnapshots scan))
       (compFail (''duplicate source snapshot '' @ csSnapshot s))) (\<lambda>_.
     bindE (sourceStatus V cfg s) (\<lambda>_.
     bindE (sourceBounds cfg s) (\<lambda>_.
     bindE (sourceCommitments V s) (\<lambda>blob.
     Inr \<lparr>snIds = setAdd (csSourceId s) (snIds scan),
          snSnapshots = setAdd (toLowerCase (csSnapshot s)) (snSnapshots scan),
          snWeightSum = snWeightSum scan + csWeight s,
          snEntries = snEntries scan + int (length (csEntries s)),
          snBlobBytes = snBlobBytes scan + byteLength blob,
          snUnion = foldl (\<lambda>u e. setAdd (cnAccount e) u) (snUnion scan) (csEntries s)\<rparr>)))))"

definition emptyScan :: SourceScan where
  "emptyScan = \<lparr>snIds = [], snSnapshots = [], snWeightSum = 0, snEntries = 0, snBlobBytes = 0, snUnion = []\<rparr>"

definition scanChecks :: "CompositionConfig \<Rightarrow> SourceScan \<Rightarrow> unit result" where
  "scanChecks cfg scan =
     bindE (throwWhen (snWeightSum scan \<noteq> WEIGHT_SCALE)
       (compFail ''configured source weights must total exactly 100%'')) (\<lambda>_.
     bindE (throwWhen (snEntries scan > maxAggregateEntries (ccBounds cfg))
       (compFail ''aggregate source entries exceed the configured cap'')) (\<lambda>_.
     bindE (throwWhen (int (length (snUnion scan)) > maxUnionAccounts (ccBounds cfg))
       (compFail ''union accounts exceed the configured cap'')) (\<lambda>_.
     throwWhen (snBlobBytes scan > maxAggregateBlobBytes (ccBounds cfg))
       (compFail ''aggregate canonical source bytes exceed the configured cap''))))"

text \<open>The composition without one source: the other weights scaled up by the same apportionment.\<close>

definition composeWithout ::
  "CompositionSource list \<Rightarrow> int \<Rightarrow> hex \<Rightarrow> CompositionEntry list result" where
  "composeWithout sources outputPool omitted =
     (let remaining = filter (\<lambda>s. csSourceId s \<noteq> omitted) sources;
          remainingWeight = sumOf csWeight remaining in
      bindE (hamilton WEIGHT_SCALE remainingWeight (map sourceRow remaining)) (\<lambda>rows.
      let normalized = newMap (map (\<lambda>r. (csSourceId (haData r), haAllocation r)) rows) in
      bindE (mapE (\<lambda>s. bindE (need (jget normalized (csSourceId s))) (\<lambda>w. Inr (s\<lparr>csWeight := w\<rparr>))) remaining) (\<lambda>weighted.
      bindE (computeAllocations weighted outputPool) (\<lambda>r. Inr (snd (snd r))))))"

record 'n CompositionPreview =
  cpPolicyManifest :: hex
  cpPolicyManifestSha256 :: hex
  cpSourcePolicyRoot :: hex
  cpCaptureManifest :: hex
  cpCaptureManifestSha256 :: hex
  cpSourceAllocations :: "SourceAllocation list"
  cpAttribution :: "SourceAttribution list"
  cpOutput :: "CompositionEntry list"
  cpOutputBlob :: string
  cpOutputBlobSha256 :: hex
  cpOutputCid :: string
  cpOutputRoot :: hex
  cpTotalValue :: int
  cpWork :: WorkShape
  cpMetrics :: "'n CompositionMetrics"

definition canonicalSources :: "CompositionConfig \<Rightarrow> CompositionSource list result" where
  "canonicalSources cfg = bindE (mapE canonicalSource (ccSources cfg)) (\<lambda>xs. Inr (bySourceId xs))"

text \<open>
  The commitments of the source are pure, so the order in which the returned object evaluates them is
  the order below.
\<close>

definition computeCompositionPreview ::
  "viem \<Rightarrow> 'n numbers \<Rightarrow> CompositionConfig \<Rightarrow> bool \<Rightarrow> 'n CompositionPreview result" where
  "computeCompositionPreview V N cfg withMetrics =
     bindE (validateConfig cfg) (\<lambda>_.
     bindE (canonicalSources cfg) (\<lambda>sources.
     bindE (foldE (scanSource V cfg) emptyScan sources) (\<lambda>scan.
     bindE (scanChecks cfg scan) (\<lambda>_.
     bindE (computeAllocations sources (ccOutputPool cfg)) (\<lambda>(sourceAllocations, attribution, output).
     let totalValue = sumOf cnValue output in
     bindE (throwWhen (totalValue \<noteq> ccOutputPool cfg)
       (compFail ''composition output does not conserve its pool'')) (\<lambda>_.
     bindE (canonicalCompositionBlob output) (\<lambda>outputBlob.
     let outputDigest = sha256Utf8 V outputBlob in
     bindE (canonicalPolicyManifest V (ccChainId cfg) sources) (\<lambda>policyManifest.
     bindE (canonicalCaptureManifest V (cfg\<lparr>ccSources := sources\<rparr>) sources) (\<lambda>captureManifest.
     bindE (if withMetrics then metricsFor N sources output (composeWithout sources (ccOutputPool cfg))
            else Inr (emptyMetrics N)) (\<lambda>metrics.
     bindE (compositionPolicyRoot V sources) (\<lambda>policyRoot.
     bindE (cidV1Raw outputDigest) (\<lambda>outputCid.
     bindE (compositionOutputRoot V output) (\<lambda>outputRoot.
     Inr \<lparr>cpPolicyManifest = policyManifest, cpPolicyManifestSha256 = sha256Hex V policyManifest,
       cpSourcePolicyRoot = policyRoot, cpCaptureManifest = captureManifest,
       cpCaptureManifestSha256 = sha256Hex V captureManifest, cpSourceAllocations = sourceAllocations,
       cpAttribution = attribution, cpOutput = output, cpOutputBlob = outputBlob,
       cpOutputBlobSha256 = digestToHex V outputDigest, cpOutputCid = outputCid,
       cpOutputRoot = outputRoot, cpTotalValue = totalValue,
       cpWork = classifyCompositionWork (int (length sources)) (snEntries scan) (int (length (snUnion scan)))
         (snBlobBytes scan),
       cpMetrics = metrics\<rparr>)))))))))))))"

section \<open>The simplex and the landed commitments\<close>

record SimplexSample =
  ssWeights :: "int \<times> int \<times> int"
  ssOutputRoot :: hex
  ssTopAccounts :: "hex list"
  ssChangedTopAccounts :: "hex list"

text \<open>\<open>for (let x = step; x <= limit; x += step)\<close> with a positive step.\<close>

function countSteps :: "int \<Rightarrow> int \<Rightarrow> int \<Rightarrow> int list" where
  "countSteps step limit x = (if 0 < step \<and> x \<le> limit then x # countSteps step limit (x + step) else [])"
  by auto
termination by (relation "measure (\<lambda>(step, limit, x). nat (limit + 1 - x))") auto

declare countSteps.simps [simp del]

definition simplexPoints :: "int \<Rightarrow> (int \<times> int \<times> int) list" where
  "simplexPoints step =
     concat (map (\<lambda>a. map (\<lambda>b. (a, b, 100 - a - b)) (countSteps step (100 - a - step) step))
       (countSteps step (100 - 2 * step) step))"

definition reweigh :: "CompositionConfig \<Rightarrow> int \<times> int \<times> int \<Rightarrow> CompositionConfig" where
  "reweigh cfg point =
     (case point of (a, b, c) \<Rightarrow>
       cfg\<lparr>ccSources := map (\<lambda>(s, percent). s\<lparr>csWeight := percent * 10 ^ 16\<rparr>) (zip (ccSources cfg) [a, b, c])\<rparr>)"

definition simplexSample ::
  "viem \<Rightarrow> 'n numbers \<Rightarrow> CompositionConfig \<Rightarrow> hex list \<Rightarrow> int \<times> int \<times> int \<Rightarrow> SimplexSample result" where
  "simplexSample V N cfg baselineTop point =
     bindE (computeCompositionPreview V N (reweigh cfg point) False) (\<lambda>preview.
     let newTop = topAccounts (cpOutput preview) 5 in
     Inr \<lparr>ssWeights = point, ssOutputRoot = cpOutputRoot preview, ssTopAccounts = newTop,
          ssChangedTopAccounts = changedAccounts baselineTop newTop\<rparr>)"

definition compositionSimplex ::
  "viem \<Rightarrow> 'n numbers \<Rightarrow> CompositionConfig \<Rightarrow> int \<Rightarrow> SimplexSample list result" where
  "compositionSimplex V N cfg stepPercent =
     (if length (ccSources cfg) \<noteq> 3 then Inr []
      else bindE (throwWhen (stepPercent < 1 \<or> stepPercent > 49)
          (compFail ''simplex step must be an integer from 1 to 49'')) (\<lambda>_.
        bindE (computeCompositionPreview V N cfg False) (\<lambda>baseline.
        mapE (simplexSample V N cfg (topAccounts (cpOutput baseline) 5)) (simplexPoints stepPercent))))"

record LandedCompositionCommitments =
  lcPolicyManifestSha256 :: hex
  lcCaptureManifestSha256 :: hex
  lcOutputRoot :: hex
  lcOutputBlobSha256 :: hex
  lcOutputCid :: string

definition landedFields :: "'n CompositionPreview \<Rightarrow> LandedCompositionCommitments \<Rightarrow> (string \<times> bool) list" where
  "landedFields preview landed =
     [(''policyManifestSha256'', cpPolicyManifestSha256 preview = lcPolicyManifestSha256 landed),
      (''captureManifestSha256'', cpCaptureManifestSha256 preview = lcCaptureManifestSha256 landed),
      (''outputRoot'', cpOutputRoot preview = lcOutputRoot landed),
      (''outputBlobSha256'', cpOutputBlobSha256 preview = lcOutputBlobSha256 landed),
      (''outputCid'', cpOutputCid preview = lcOutputCid landed)]"

definition comparePreviewToLanded ::
  "'n CompositionPreview \<Rightarrow> LandedCompositionCommitments \<Rightarrow> (string \<times> bool) list \<times> bool" where
  "comparePreviewToLanded preview landed =
     (let fields = landedFields preview landed in (fields, list_all snd fields))"

end
