(* ===== verification/CompositionLemmas.thy ===== *)
theory CompositionLemmas
  imports Preview
begin

text \<open>
  Facts about the composition's allocation: orders, the combined output, the conservation of the
  quotas and the bounds on the rounding of each attribution row.
  What a successful run of \<open>computeAllocations\<close> returns, and that the preview does not depend on the
  order of the sources.
\<close>

section \<open>Canonical entries\<close>

definition canonicalEntries :: "CompositionEntry list \<Rightarrow> bool" where
  "canonicalEntries xs \<longleftrightarrow> xs \<noteq> [] \<and> sorted_wrt (<) (map cnAccount xs) \<and>
     (\<forall>e \<in> set xs. canonical (cnAccount e) \<and> cnAccount e \<noteq> ZERO_ADDRESS \<and> 0 < cnValue e)"

abbreviation byEntryAccount :: "CompositionEntry list \<Rightarrow> CompositionEntry list" where
  "byEntryAccount \<equiv> sortBy (\<lambda>a b. cmpHex (cnAccount a) (cnAccount b))"

lemma byEntryAccount_sorted:
  assumes "\<forall>e \<in> set xs. canonical (cnAccount e)"
  shows "sorted (map cnAccount (byEntryAccount xs))"
proof -
  have "sorted (map (\<lambda>e. toLowerCase (cnAccount e)) (byEntryAccount xs))"
    by (rule sortBy_keyed) (simp add: cmpHex_cmpLin)
  moreover have "map (\<lambda>e. toLowerCase (cnAccount e)) (byEntryAccount xs) = map cnAccount (byEntryAccount xs)"
    using assms by (simp add: canonicalD)
  ultimately show ?thesis by (simp only:)
qed

lemma checkOrdered_all:
  "(\<exists>us. mapE (checkOrdered xs) [0..<length xs] = Inr us) \<longleftrightarrow>
   (\<forall>i < length xs. cnAccount (xs ! i) \<noteq> ZERO_ADDRESS \<and> 0 < cnValue (xs ! i) \<and>
      (0 < i \<longrightarrow> cnAccount (xs ! (i - 1)) \<noteq> cnAccount (xs ! i)))"
proof -
  have "(\<exists>u. checkOrdered xs i = Inr u) \<longleftrightarrow> cnAccount (xs ! i) \<noteq> ZERO_ADDRESS \<and> 0 < cnValue (xs ! i) \<and>
      (0 < i \<longrightarrow> cnAccount (xs ! (i - 1)) \<noteq> cnAccount (xs ! i))" for i
    by (auto simp: checkOrdered_def Let_def result_simps not_le)
  then show ?thesis unfolding mapE_ok_iff by (simp add: Ball_def)
qed

lemma orderedEntries_iff:
  "orderedEntries es = Inr xs \<longleftrightarrow> canonicalEntries xs \<and>
     xs = byEntryAccount (map (\<lambda>e. \<lparr>cnAccount = toLowerCase (cnAccount e), cnValue = cnValue e\<rparr>) es)"
proof -
  define ys where "ys = byEntryAccount (map (\<lambda>e. \<lparr>cnAccount = toLowerCase (cnAccount e), cnValue = cnValue e\<rparr>) es)"
  have can: "\<forall>e \<in> set ys. canonical (cnAccount e)" unfolding ys_def by auto
  have srt: "sorted (map cnAccount ys)" unfolding ys_def by (rule byEntryAccount_sorted) auto
  have strict: "sorted_wrt (<) (map cnAccount ys) \<longleftrightarrow>
      (\<forall>i < length ys. 0 < i \<longrightarrow> cnAccount (ys ! (i - 1)) \<noteq> cnAccount (ys ! i))"
  proof -
    have "map cnAccount ys ! (i - 1) < map cnAccount ys ! i \<longleftrightarrow> cnAccount (ys ! (i - 1)) \<noteq> cnAccount (ys ! i)"
      if "i < length ys" "0 < i" for i
    proof -
      have at: "map cnAccount ys ! (i - 1) = cnAccount (ys ! (i - 1))" "map cnAccount ys ! i = cnAccount (ys ! i)"
        using that by simp_all
      have "map cnAccount ys ! (i - 1) \<le> map cnAccount ys ! i" by (rule sorted_nth_mono [OF srt]) (use that in auto)
      then show ?thesis unfolding at less_le by blast
    qed
    then show ?thesis unfolding strict_adjacent length_map by blast
  qed
  have "canonicalEntries ys \<longleftrightarrow> ys \<noteq> [] \<and> sorted_wrt (<) (map cnAccount ys) \<and>
      (\<forall>e \<in> set ys. cnAccount e \<noteq> ZERO_ADDRESS \<and> 0 < cnValue e)"
    using can by (auto simp: canonicalEntries_def)
  then have ok: "(\<exists>us. mapE (checkOrdered ys) [0..<length ys] = Inr us) \<and> ys \<noteq> [] \<longleftrightarrow> canonicalEntries ys"
    unfolding checkOrdered_all strict all_set_conv_all_nth by (simp only:) blast
  have "orderedEntries es = Inr xs \<longleftrightarrow> ((\<exists>us. mapE (checkOrdered ys) [0..<length ys] = Inr us) \<and> ys \<noteq> []) \<and> xs = ys"
    unfolding orderedEntries_def Let_def ys_def [symmetric] by (auto simp: result_simps)
  then show ?thesis unfolding ok ys_def [symmetric] by blast
qed

lemma orderedEntries_idem:
  assumes "canonicalEntries xs"
  shows "orderedEntries xs = Inr xs"
proof -
  have c: "\<forall>e \<in> set xs. toLowerCase (cnAccount e) = cnAccount e" using assms by (simp add: canonicalEntries_def canonicalD)
  then have m: "map (\<lambda>e. \<lparr>cnAccount = toLowerCase (cnAccount e), cnValue = cnValue e\<rparr>) xs = xs"
    by (intro map_idI) simp
  have "byEntryAccount xs = xs"
  proof (rule keyed_comparator.sortBy_idem)
    show "keyed_comparator (\<lambda>a b. cmpHex (cnAccount a) (cnAccount b)) (\<lambda>e. toLowerCase (cnAccount e))"
      by unfold_locales (simp add: cmpHex_cmpLin)
    have "map (\<lambda>e. toLowerCase (cnAccount e)) xs = map cnAccount xs" using c by simp
    then show "sorted (map (\<lambda>e. toLowerCase (cnAccount e)) xs)"
      using assms strict_sorted_iff unfolding canonicalEntries_def by metis
  qed
  then show ?thesis unfolding orderedEntries_iff m using assms by simp
qed

section \<open>Combining the sources\<close>

text \<open>A map of positive amounts under accounts of \<open>A\<close>.\<close>

definition paidMap :: "hex set \<Rightarrow> (hex, int) jmap \<Rightarrow> bool" where
  "paidMap A m \<longleftrightarrow> jmapInv m \<and> (\<forall>e \<in> set m. 0 < snd e \<and> fst e \<in> A)"

lemma addTo_inv:
  assumes "paidMap A m" and "0 < snd kv" and "fst kv \<in> A"
  shows "paidMap A (addTo m kv)"
proof -
  have "0 \<le> orDefault (jget m (fst kv)) 0"
    using assms(1) by (cases "jget m (fst kv)") (auto simp: paidMap_def orDefault_def dest!: map_of_SomeD)
  then show ?thesis using assms by (auto simp: paidMap_def addTo_def jset_entries)
qed

lemma addAll_inv:
  assumes "paidMap A m" and "\<forall>kv \<in> set kvs. 0 < snd kv \<and> fst kv \<in> A"
  shows "paidMap A (foldl addTo m kvs) \<and> sumOf snd (foldl addTo m kvs) = sumOf snd m + sumOf snd kvs"
  using assms
proof (induction kvs arbitrary: m)
  case (Cons kv kvs)
  have "paidMap A (addTo m kv)" using Cons.prems by (intro addTo_inv) auto
  from Cons.IH [OF this] Cons.prems(2) sum_addTo_any [of m kv] show ?case by simp
qed simp

lemma combineAllocations_facts:
  assumes "\<forall>al \<in> set als. \<forall>e \<in> set (alEntries al). 0 < cnValue e \<and> cnAccount e \<in> A"
  shows "paidMap A (combineAllocations als)"
    and "sumOf snd (combineAllocations als) = sumOf (\<lambda>al. sumOf cnValue (alEntries al)) als"
proof -
  let ?f = "\<lambda>m s. foldl addTo m (entryPairs (alEntries s))"
  have "paidMap A (foldl ?f m als) \<and>
    sumOf snd (foldl ?f m als) = sumOf snd m + sumOf (\<lambda>al. sumOf cnValue (alEntries al)) als"
    if "paidMap A m" for m
    using assms that
  proof (induction als arbitrary: m)
    case (Cons al als)
    have "\<forall>kv \<in> set (entryPairs (alEntries al)). 0 < snd kv \<and> fst kv \<in> A"
      using Cons.prems(1) by (auto simp: entryPairs_def)
    note add = addAll_inv [OF Cons.prems(2) this]
    have "sumOf snd (entryPairs (alEntries al)) = sumOf cnValue (alEntries al)"
      by (simp add: entryPairs_def comp_def)
    with Cons.IH [of "?f m al"] add Cons.prems(1) show ?case by simp
  qed simp
  moreover have "paidMap A []" by (simp add: paidMap_def)
  ultimately show "paidMap A (combineAllocations als)"
    "sumOf snd (combineAllocations als) = sumOf (\<lambda>al. sumOf cnValue (alEntries al)) als"
    unfolding combineAllocations_def by fastforce+
qed

lemma combinedOutput_facts:
  assumes "jmapInv m" and "\<forall>e \<in> set m. 0 < snd e"
  shows "sumOf cnValue (combinedOutput m) = sumOf snd m" and "cnAccount ` set (combinedOutput m) = fst ` set m"
    and "\<forall>e \<in> set (combinedOutput m). 0 < cnValue e" and "distinct (map cnAccount (combinedOutput m))"
proof -
  let ?es = "map (\<lambda>(a, v). \<lparr>cnAccount = a, cnValue = v\<rparr>) m"
  have f: "filter (\<lambda>e. cnValue e > 0) ?es = ?es" using assms(2) by (force simp: filter_id_conv)
  then have o: "combinedOutput m = byEntryAccount ?es" by (simp add: combinedOutput_def)
  show "sumOf cnValue (combinedOutput m) = sumOf snd m" unfolding o by (simp add: comp_def case_prod_beta)
  show "cnAccount ` set (combinedOutput m) = fst ` set m" unfolding o by force
  show "\<forall>e \<in> set (combinedOutput m). 0 < cnValue e" unfolding o using assms(2) by force
  show "distinct (map cnAccount (combinedOutput m))"
    unfolding o distinct_map_sortBy using assms(1) by (simp add: comp_def case_prod_beta jmapInv_def)
qed

section \<open>The allocation\<close>

lemma allocateSource_facts:
  assumes "allocateSource row = Inr (al, ats)"
  shows "alQuota al = haAllocation row" and "alSourceId al = csSourceId (haData row)"
    and "sumOf cnValue (alEntries al) = haAllocation row"
    and "\<forall>e \<in> set (alEntries al). 0 < cnValue e \<and> cnAccount e \<in> cnAccount ` set (csEntries (haData row))"
    and "\<forall>a \<in> set ats. atIdealDenominator a = csTotalValue (haData row) \<and>
      - atIdealDenominator a < atRoundingDeltaNumerator a \<and> atRoundingDeltaNumerator a < atIdealDenominator a"
    and "sumOf atExactValue ats = haAllocation row" and "sumOf cnValue (csEntries (haData row)) = csTotalValue (haData row)"
proof -
  let ?s = "haData row" and ?q = "haAllocation row"
  from assms obtain out where h: "hamilton ?q (csTotalValue ?s) (map entryRow (csEntries ?s)) = Inr out"
    and al: "al = \<lparr>alSourceId = csSourceId ?s, alQuota = ?q,
      alEntries = map (\<lambda>r. \<lparr>cnAccount = cnAccount (haData r), cnValue = haAllocation r\<rparr>) (filter (\<lambda>r. haAllocation r > 0) out)\<rparr>"
    and ats: "ats = map (attributionOf ?s ?q) out"
    by (auto simp: allocateSource_def Let_def result_simps)
  note f = hamilton_facts [OF h]
  have ok: "hamiltonOk ?q (csTotalValue ?s) (map entryRow (csEntries ?s))" using h unfolding hamilton_iff by blast
  show "alQuota al = ?q" "alSourceId al = csSourceId ?s" by (simp_all add: al)
  have "sumOf cnValue (alEntries al) = sumOf haAllocation (filter (\<lambda>r. haAllocation r > 0) out)"
    by (simp add: al comp_def)
  also have "\<dots> = sumOf haAllocation out" by (rule sumOf_filter_zero) (use f(2) in force)
  finally show "sumOf cnValue (alEntries al) = ?q" using f(1) by simp
  have "haData r \<in> set (csEntries ?s)" if "r \<in> set out" for r
    using f(5) that by (auto simp: hamPaid_def hamRowOf_def entryRow_def)
  then show "\<forall>e \<in> set (alEntries al). 0 < cnValue e \<and> cnAccount e \<in> cnAccount ` set (csEntries ?s)"
    by (auto simp: al)
  show "\<forall>a \<in> set ats. atIdealDenominator a = csTotalValue ?s \<and>
      - atIdealDenominator a < atRoundingDeltaNumerator a \<and> atRoundingDeltaNumerator a < atIdealDenominator a"
  proof
    fix a assume "a \<in> set ats"
    then obtain x where a: "a = attributionOf ?s ?q x" and x: "x \<in> set out" unfolding ats by auto
    from f(5) x obtain e where e: "e \<in> set (csEntries ?s)"
      "x = hamPaid ?q (csTotalValue ?s) (map entryRow (csEntries ?s)) (entryRow e)" by auto
    let ?D = "csTotalValue ?s" and ?c = "hamClaims (map entryRow (csEntries ?s))"
    note okc = hamiltonOk_claims [OF ok]
    have delta: "atRoundingDeltaNumerator a =
        share ?q ?c (toLowerCase (cnAccount e), cnValue e) * ?D - snd (toLowerCase (cnAccount e), cnValue e) * ?q"
      by (simp add: a e(2) attributionOf_def hamPaid_def hamShare_def hamRowOf_def entryRow_def)
    show "atIdealDenominator a = ?D \<and> - atIdealDenominator a < atRoundingDeltaNumerator a \<and>
        atRoundingDeltaNumerator a < atIdealDenominator a"
      unfolding delta using share_delta [OF okc(1), of "(toLowerCase (cnAccount e), cnValue e)"] okc(2)
      by (simp add: a attributionOf_def)
  qed
  show "sumOf atExactValue ats = ?q" using f(1) by (simp add: ats comp_def attributionOf_def)
  show "sumOf cnValue (csEntries ?s) = csTotalValue ?s"
    using ok by (simp add: hamiltonOk_def comp_def entryRow_def)
qed

section \<open>Both levels together\<close>

lemma computeAllocations_cases:
  assumes "computeAllocations sources pool = Inr (als, ats, output)"
  obtains quotas parts where "hamilton pool WEIGHT_SCALE (map sourceRow sources) = Inr quotas"
    and "\<forall>row \<in> set quotas. 0 < haAllocation row" and "mapE allocateSource quotas = Inr parts"
    and "als = map fst parts" and "ats = concat (map snd parts)" and "output = combinedOutput (combineAllocations als)"
proof -
  from assms obtain quotas parts where q: "hamilton pool WEIGHT_SCALE (map sourceRow sources) = Inr quotas"
    and nz: "\<not> list_ex (\<lambda>row. haAllocation row = 0) quotas" and p: "mapE allocateSource quotas = Inr parts"
    and r: "als = map fst parts" "ats = concat (map snd parts)" "output = combinedOutput (combineAllocations als)"
    by (auto simp: computeAllocations_def result_simps)
  have "\<forall>row \<in> set quotas. 0 < haAllocation row"
    using nz hamilton_facts(2) [OF q] by (force simp: list_ex_iff)
  with that q p r show ?thesis by blast
qed

lemma computeAllocations_facts:
  assumes run: "computeAllocations sources pool = Inr (als, ats, output)"
  shows "sumOf cnValue output = pool" and "sumOf alQuota als = pool"
    and "\<forall>al \<in> set als. 0 < alQuota al \<and> sumOf cnValue (alEntries al) = alQuota al"
    and "\<forall>a \<in> set ats. - atIdealDenominator a < atRoundingDeltaNumerator a \<and>
      atRoundingDeltaNumerator a < atIdealDenominator a"
    and "mset (map alSourceId als) = mset (map csSourceId sources)"
    and "\<forall>e \<in> set output. 0 < cnValue e \<and> (\<exists>s \<in> set sources. cnAccount e \<in> cnAccount ` set (csEntries s))"
    and "distinct (map cnAccount output)" and "0 < pool"
    and "output = byEntryAccount output"
proof -
  from computeAllocations_cases [OF run] obtain quotas parts where
    q: "hamilton pool WEIGHT_SCALE (map sourceRow sources) = Inr quotas"
    and pos: "\<forall>row \<in> set quotas. 0 < haAllocation row" and p: "mapE allocateSource quotas = Inr parts"
    and r: "als = map fst parts" "ats = concat (map snd parts)" "output = combinedOutput (combineAllocations als)" .
  note h = hamilton_facts [OF q]
  have each: "\<exists>row \<in> set quotas. allocateSource row = Inr part" if "part \<in> set parts" for part
    by (rule mapE_setE [OF p that]) blast
  have "map (\<lambda>x. alQuota (fst x)) parts = map haAllocation quotas"
    by (rule mapE_map [OF p]) (metis allocateSource_facts(1) prod.collapse)
  then have "sumOf alQuota als = sumOf haAllocation quotas" by (simp add: r(1) comp_def)
  then show tot: "sumOf alQuota als = pool" using h(1) by simp
  show qs: "\<forall>al \<in> set als. 0 < alQuota al \<and> sumOf cnValue (alEntries al) = alQuota al"
  proof
    fix al assume "al \<in> set als"
    then obtain a where "(al, a) \<in> set parts" unfolding r(1) by auto
    from each [OF this] obtain row where "row \<in> set quotas" "allocateSource row = Inr (al, a)" by blast
    with allocateSource_facts(1,3) [OF this(2)] pos
    show "0 < alQuota al \<and> sumOf cnValue (alEntries al) = alQuota al" by simp
  qed
  show "\<forall>a \<in> set ats. - atIdealDenominator a < atRoundingDeltaNumerator a \<and>
      atRoundingDeltaNumerator a < atIdealDenominator a"
  proof
    fix x assume "x \<in> set ats"
    then obtain al a where "(al, a) \<in> set parts" "x \<in> set a" unfolding r(2) by auto
    from each [OF this(1)] this(2) allocateSource_facts(5) show
      "- atIdealDenominator x < atRoundingDeltaNumerator x \<and> atRoundingDeltaNumerator x < atIdealDenominator x" by blast
  qed
  have "map (\<lambda>x. alSourceId (fst x)) parts = map (\<lambda>row. csSourceId (haData row)) quotas"
    by (rule mapE_map [OF p]) (metis allocateSource_facts(2) prod.collapse)
  then have "map alSourceId als = map csSourceId (map haData quotas)" by (simp add: r(1) comp_def)
  moreover have "mset (map haData quotas) = mset sources" using h(4) by (simp add: comp_def sourceRow_def)
  ultimately show "mset (map alSourceId als) = mset (map csSourceId sources)" by (metis mset_map)
  let ?A = "{a. \<exists>s \<in> set sources. a \<in> cnAccount ` set (csEntries s)}"
  have data: "haData row \<in> set sources" if "row \<in> set quotas" for row
    using h(5) that by (auto simp: hamPaid_def hamRowOf_def sourceRow_def)
  have ent: "\<forall>al \<in> set als. \<forall>e \<in> set (alEntries al). 0 < cnValue e \<and> cnAccount e \<in> ?A"
  proof
    fix al assume "al \<in> set als"
    then obtain a where "(al, a) \<in> set parts" unfolding r(1) by auto
    from each [OF this] obtain row where "row \<in> set quotas" "allocateSource row = Inr (al, a)" by blast
    with allocateSource_facts(4) [OF this(2)] data show "\<forall>e \<in> set (alEntries al). 0 < cnValue e \<and> cnAccount e \<in> ?A" by blast
  qed
  note c = combineAllocations_facts [OF ent]
  then have inv: "jmapInv (combineAllocations als)" "\<forall>e \<in> set (combineAllocations als). 0 < snd e"
    by (simp_all add: paidMap_def)
  note o = combinedOutput_facts [OF inv, folded r(3)]
  have "map (\<lambda>al. sumOf cnValue (alEntries al)) als = map alQuota als" using qs by simp
  then have "sumOf (\<lambda>al. sumOf cnValue (alEntries al)) als = pool" using tot by (simp only:)
  with c(2) o(1) show "sumOf cnValue output = pool" by simp
  have "cnAccount ` set output \<subseteq> ?A" using c(1) o(2) by (auto simp: paidMap_def)
  with o(3) show "\<forall>e \<in> set output. 0 < cnValue e \<and> (\<exists>s \<in> set sources. cnAccount e \<in> cnAccount ` set (csEntries s))"
    by blast
  show "distinct (map cnAccount output)" by (rule o(4))
  show "0 < pool"
  proof -
    have "quotas \<noteq> []" using h(4) q unfolding hamilton_iff hamiltonOk_def by (metis mset_zero_iff_right sortBy_Nil_iff map_is_Nil_conv)
    then have "0 < sumOf haAllocation quotas" using pos by (intro sumOf_pos) auto
    then show ?thesis using h(1) by simp
  qed
  have k: "keyed_comparator (\<lambda>a b. cmpHex (cnAccount a) (cnAccount b)) (\<lambda>e. toLowerCase (cnAccount e))"
    by unfold_locales (simp add: cmpHex_cmpLin)
  have "sorted (map (\<lambda>e. toLowerCase (cnAccount e)) output)"
    unfolding r(3) combinedOutput_def by (rule keyed_comparator.sortBy_sorted [OF k])
  then show "output = byEntryAccount output" using keyed_comparator.sortBy_idem [OF k] by metis
qed

lemma output_canonical:
  assumes run: "computeAllocations sources pool = Inr (als, ats, output)"
    and src: "\<forall>s \<in> set sources. canonicalEntries (csEntries s)"
  shows "canonicalEntries output"
proof -
  note f = computeAllocations_facts [OF run]
  have can: "\<forall>e \<in> set output. canonical (cnAccount e) \<and> cnAccount e \<noteq> ZERO_ADDRESS"
    using f(6) src by (fastforce simp: canonicalEntries_def)
  then have "sorted (map cnAccount (byEntryAccount output))" by (intro byEntryAccount_sorted) blast
  then have "sorted_wrt (<) (map cnAccount output)" using f(7,9) by (simp add: strict_sorted_iff)
  moreover have "output \<noteq> []" using f(1,8) by auto
  ultimately show ?thesis using can f(6) by (simp add: canonicalEntries_def)
qed

section \<open>The order of the sources\<close>

lemma bySourceId_perm:
  assumes "mset xs = mset ys" and "distinct (map (\<lambda>s. toLowerCase (csSourceId s)) xs)"
  shows "bySourceId xs = bySourceId ys"
proof -
  have k: "keyed_comparator (\<lambda>a b. cmpHex (csSourceId a) (csSourceId b)) (\<lambda>s. toLowerCase (csSourceId s))"
    by unfold_locales (simp add: cmpHex_cmpLin)
  show ?thesis unfolding bySourceId_def
    by (rule keyed_comparator.sortBy_unique [OF k, symmetric]) (use assms in \<open>auto simp: distinct_map\<close>)
qed

lemma mapE_perm:
  assumes "mset xs = mset ys" and "mapE f xs = Inr zs"
  shows "\<exists>ws. mapE f ys = Inr ws \<and> mset ws = mset zs"
proof -
  have ok: "\<forall>x \<in> set xs. f x = Inr (projr (f x))" using mapE_all_ok [OF assms(2)] by fastforce
  then have "mapE f xs = Inr (map (\<lambda>x. projr (f x)) xs)" by (intro mapE_total) blast
  moreover have "mapE f ys = Inr (map (\<lambda>x. projr (f x)) ys)"
    using ok assms(1) by (intro mapE_total) (metis set_mset_mset)
  ultimately show ?thesis using assms by (metis mset_map sum.inject(2))
qed

lemma scanSource_ids:
  assumes "foldE (scanSource V cfg) scan xs = Inr scan'" and "distinct (snIds scan)"
  shows "distinct (snIds scan @ map csSourceId xs)"
  using assms
proof (induction xs arbitrary: scan)
  case (Cons x xs)
  then obtain t where t: "scanSource V cfg scan x = Inr t" "foldE (scanSource V cfg) t xs = Inr scan'" by auto
  then have new: "csSourceId x \<notin> set (snIds scan)" and ids: "snIds t = setAdd (csSourceId x) (snIds scan)"
    by (auto simp: scanSource_def result_simps)
  then have "snIds t = snIds scan @ [csSourceId x]" by (simp add: setAdd_def)
  with Cons.IH [OF t(2)] Cons.prems(2) new show ?case by simp
qed simp

lemma canonicalSource_id: "canonicalSource s = Inr t \<Longrightarrow> canonical (csSourceId t) \<and> canonicalEntries (csEntries t)"
  by (auto simp: canonicalSource_def canonicalWord_def result_simps orderedEntries_iff)

lemma canonicalSources_perm:
  assumes xs: "mset (ccSources cfg) = mset (ccSources cfg')" and c: "canonicalSources cfg = Inr sources"
    and d: "distinct (map csSourceId sources)"
  shows "canonicalSources cfg' = Inr sources"
proof -
  from c obtain zs where zs: "mapE canonicalSource (ccSources cfg) = Inr zs" and s: "sources = bySourceId zs"
    by (auto simp: canonicalSources_def)
  from mapE_perm [OF xs zs] obtain ws where ws: "mapE canonicalSource (ccSources cfg') = Inr ws" "mset ws = mset zs" by blast
  have can: "\<forall>z \<in> set zs. toLowerCase (csSourceId z) = csSourceId z"
    using mapE_setE [OF zs] canonicalSource_id by (metis canonicalD)
  have "distinct (map csSourceId zs)" using d unfolding s bySourceId_def distinct_map_sortBy .
  moreover have "map (\<lambda>s. toLowerCase (csSourceId s)) zs = map csSourceId zs" using can by simp
  ultimately have "distinct (map (\<lambda>s. toLowerCase (csSourceId s)) zs)" by (simp only:)
  from bySourceId_perm [OF ws(2) [symmetric] this] ws(1) s show ?thesis by (simp add: canonicalSources_def)
qed

definition sameSources :: "CompositionConfig \<Rightarrow> CompositionConfig \<Rightarrow> bool" where
  "sameSources cfg cfg' \<longleftrightarrow> mset (ccSources cfg) = mset (ccSources cfg') \<and>
     cfg\<lparr>ccSources := []\<rparr> = cfg'\<lparr>ccSources := []\<rparr>"

lemma sameSources_fields:
  assumes "sameSources cfg cfg'"
  shows "ccChainId cfg' = ccChainId cfg" "ccCaptureBlock cfg' = ccCaptureBlock cfg" "ccScopeHash cfg' = ccScopeHash cfg"
    "ccOutputPool cfg' = ccOutputPool cfg" "ccBounds cfg' = ccBounds cfg"
    "cfg'\<lparr>ccSources := xs\<rparr> = cfg\<lparr>ccSources := xs\<rparr>" "length (ccSources cfg') = length (ccSources cfg)"
proof -
  have "mset (ccSources cfg) = mset (ccSources cfg')" using assms by (simp add: sameSources_def)
  then show "length (ccSources cfg') = length (ccSources cfg)" by (metis mset_eq_length)
  show "ccChainId cfg' = ccChainId cfg" "ccCaptureBlock cfg' = ccCaptureBlock cfg" "ccScopeHash cfg' = ccScopeHash cfg"
    "ccOutputPool cfg' = ccOutputPool cfg" "ccBounds cfg' = ccBounds cfg"
    "cfg'\<lparr>ccSources := xs\<rparr> = cfg\<lparr>ccSources := xs\<rparr>"
    using assms by (cases cfg; cases cfg'; simp add: sameSources_def)+
qed

lemma preview_perm:
  assumes same: "sameSources cfg cfg'" and run: "computeCompositionPreview V N cfg m = Inr p"
  shows "computeCompositionPreview V N cfg' m = Inr p"
proof -
  note eq = sameSources_fields [OF same]
  from run obtain sources scan where s: "canonicalSources cfg = Inr sources"
    and scan: "foldE (scanSource V cfg) emptyScan sources = Inr scan"
    unfolding computeCompositionPreview_def by blast
  have "distinct (map csSourceId sources)" using scanSource_ids [OF scan] by (simp add: emptyScan_def)
  from canonicalSources_perm [OF _ s this] same have s': "canonicalSources cfg' = Inr sources" by (simp add: sameSources_def)
  have v: "validateConfig cfg' = validateConfig cfg" unfolding validateConfig_def eq ..
  have sc: "scanSource V cfg' = scanSource V cfg"
    by (intro ext) (simp add: scanSource_def sourceStatus_def sourceBounds_def eq)
  have ch: "scanChecks cfg' = scanChecks cfg" by (rule ext) (simp add: scanChecks_def eq)
  have "computeCompositionPreview V N cfg' m = computeCompositionPreview V N cfg m"
    unfolding computeCompositionPreview_def v s s' sc ch eq ..
  with run show ?thesis by simp
qed

end
