(* ===== verification/CompositionChecks.thy ===== *)
theory CompositionChecks
  imports CompositionLemmas
begin

text \<open>
  The checks of the preview as a predicate and the run of a configuration that passes them; equal
  weights, percentages and the points of the simplex.
\<close>

section \<open>A preview that passes its checks is returned\<close>

text \<open>Encoding static values that fit their types does not throw.\<close>

fun abiFits :: "abi_value \<Rightarrow> bool" where
  "abiFits (AbiBytes32 h) \<longleftrightarrow> isPart h"
| "abiFits (AbiAddress a) \<longleftrightarrow> isBytes a \<and> length a = 42"
| "abiFits (AbiUint w x) \<longleftrightarrow> 0 \<le> x \<and> x < 2 ^ w"

definition abiLaw :: "viem \<Rightarrow> bool" where
  "abiLaw V \<longleftrightarrow> (\<forall>vs. (\<forall>v \<in> set vs. abiFits v) \<longrightarrow> (\<exists>h. encodeAbi V vs = Inr h))"

lemma requireUint_Inr: "requireUint v bits label = Inr u \<longleftrightarrow> 0 \<le> v \<and> v < 2 ^ bits"
  by (auto simp: requireUint_def push_bit_eq_mult)

lemma canonicalWord_part: "canonicalWord h label = Inr w \<Longrightarrow> isPart w"
  by (auto simp: canonicalWord_def isBytes32_def isPart_def toLowerCase_def take_map lowerChar_literals)

lemma concatE_ok: "(\<exists>h. concatE V ps = Inr h) \<longleftrightarrow> (\<forall>p \<in> set ps. \<exists>x. p = Inr x)"
  using mapE_ok_iff [of id ps] by (auto simp: concatE_def result_simps)

definition passedSource :: "viem \<Rightarrow> CompositionConfig \<Rightarrow> CompositionSource \<Rightarrow> bool" where
  "passedSource V cfg s \<longleftrightarrow> sourceStatus V cfg s = Inr () \<and> sourceBounds cfg s = Inr () \<and>
     (\<exists>blob. sourceCommitments V s = Inr blob)"

lemma scan_passed: "foldE (scanSource V cfg) scan xs = Inr scan' \<Longrightarrow> s \<in> set xs \<Longrightarrow> passedSource V cfg s"
  by (induction xs arbitrary: scan) (auto simp: scanSource_def passedSource_def)

lemma passed_fields:
  assumes "passedSource V cfg s"
  shows "\<exists>d. admittedSourceOutputDomain V (csProgramId s) = Some d" and "0 \<le> csWeight s" "csWeight s < 2 ^ 64"
    and "0 \<le> csTotalValue s" "csTotalValue s < 2 ^ 128" and "0 \<le> csStateIndex s" "csStateIndex s < 2 ^ 64"
    and "0 \<le> csFreezeBlock s" "csFreezeBlock s < 2 ^ 64" and "0 \<le> csMaxAgeBlocks s" "csMaxAgeBlocks s < 2 ^ 64"
  using assms unfolding passedSource_def sourceStatus_def sourceBounds_def Let_def
  by (auto simp: requireUint_Inr)

lemma passed_domain:
  assumes "passedSource V cfg s" and "digestLaw V"
  shows "\<exists>d. requireAdmittedDomain V s = Inr d \<and> isPart d"
  using passed_fields(1) [OF assms(1)] isPart_digest [OF assms(2)]
  by (auto simp: requireAdmittedDomain_def admittedSourceOutputDomain_def Let_def hashName_def
      TRUST_GRAPH_SOURCE_OUTPUT_DOMAIN_def WEIGHTED_TRUST_GRAPH_SOURCE_OUTPUT_DOMAIN_def split: if_splits option.splits)

definition canonicalSourceFields :: "CompositionSource \<Rightarrow> bool" where
  "canonicalSourceFields s \<longleftrightarrow> isPart (csSourceId s) \<and> isPart (csFamilyId s) \<and> isPart (csProgramId s) \<and>
     canonicalEntries (csEntries s)"

lemma canonicalSource_fields: "canonicalSource s = Inr t \<Longrightarrow> canonicalSourceFields t"
  by (auto simp: canonicalSource_def canonicalSourceFields_def orderedEntries_iff intro: canonicalWord_part)

lemma canonicalSources_fields:
  assumes "canonicalSources cfg = Inr sources"
  shows "\<forall>s \<in> set sources. canonicalSourceFields s" and "length sources = length (ccSources cfg)"
proof -
  from assms obtain zs where zs: "mapE canonicalSource (ccSources cfg) = Inr zs" and s: "sources = bySourceId zs"
    by (auto simp: canonicalSources_def)
  have "canonicalSourceFields z" if "z \<in> set zs" for z
    by (rule mapE_setE [OF zs that]) (rule canonicalSource_fields)
  then show "\<forall>s \<in> set sources. canonicalSourceFields s" by (simp add: s bySourceId_def)
  show "length sources = length (ccSources cfg)" using mapE_length [OF zs] by (simp add: s bySourceId_def)
qed

lemma policyLeaf_ok:
  assumes V: "digestLaw V" "abiLaw V" and s: "passedSource V cfg s" "canonicalSourceFields s"
    and snap: "isBytes (csSnapshot s)" "length (csSnapshot s) = 42"
  shows "\<exists>l. sourcePolicyLeaf V s = Inr l"
proof -
  obtain d where d: "requireAdmittedDomain V s = Inr d" "isPart d" using passed_domain [OF s(1) V(1)] by blast
  let ?vs = "[AbiBytes32 (csSourceId s), AbiAddress (csSnapshot s), AbiBytes32 (csFamilyId s),
         AbiBytes32 (csProgramId s), AbiBytes32 d, AbiUint 64 (csWeight s), AbiUint 64 (csMaxAgeBlocks s), AbiUint 8 1]"
  have "\<forall>v \<in> set ?vs. abiFits v"
    using s(2) snap d(2) passed_fields(2,3,10,11) [OF s(1)] by (simp add: canonicalSourceFields_def)
  then obtain h where "encodeAbi V ?vs = Inr h" using V(2) unfolding abiLaw_def by blast
  then show ?thesis using d(1) by (simp add: sourcePolicyLeaf_def)
qed

lemma toHex_ok: "toHexLaw V \<Longrightarrow> 0 \<le> x \<Longrightarrow> x < 256 ^ n \<Longrightarrow> \<exists>h. toHexSized V x n = Inr h"
  unfolding toHexLaw_def by blast

lemma pow_bytes: "(256 :: int) ^ 8 = 2 ^ 64" "(256 :: int) ^ 16 = 2 ^ 128"
  by simp_all

lemma records_ok:
  assumes V: "digestLaw V" "toHexLaw V" and s: "passedSource V cfg s"
  shows "\<forall>p \<in> set (policyRecord V s). \<exists>x. p = Inr x" and "\<forall>p \<in> set (captureRecord V s). \<exists>x. p = Inr x"
proof -
  note f = passed_fields [OF s] and d = passed_domain [OF s V(1)]
  have x: "\<exists>h. toHexSized V (csWeight s) 8 = Inr h" "\<exists>h. toHexSized V (csMaxAgeBlocks s) 8 = Inr h"
    "\<exists>h. toHexSized V (csStateIndex s) 8 = Inr h" "\<exists>h. toHexSized V (csFreezeBlock s) 8 = Inr h"
    "\<exists>h. toHexSized V (csTotalValue s) 16 = Inr h" "\<exists>h. toHexSized V 1 1 = Inr h"
    by (rule toHex_ok [OF V(2)]; use f in \<open>simp add: pow_bytes\<close>)+
  show "\<forall>p \<in> set (policyRecord V s). \<exists>x. p = Inr x" using x d by (auto simp: policyRecord_def)
  show "\<forall>p \<in> set (captureRecord V s). \<exists>x. p = Inr x" using x d by (auto simp: captureRecord_def)
qed

lemma set_bySourceId [simp]: "set (bySourceId xs) = set xs" "length (bySourceId xs) = length xs"
  by (simp_all add: bySourceId_def)

lemma manifests_ok:
  assumes V: "digestLaw V" "toHexLaw V" and s: "\<forall>s \<in> set sources. passedSource V cfg s"
    and cfg: "requireUint (ccChainId cfg) 64 l = Inr ()" "requireUint (ccCaptureBlock cfg) 64 l' = Inr ()"
    and n: "length sources < 256"
  shows "\<exists>h. canonicalPolicyManifest V (ccChainId cfg) sources = Inr h"
    and "\<exists>h. canonicalCaptureManifest V (cfg\<lparr>ccSources := xs\<rparr>) sources = Inr h"
proof -
  have c: "0 \<le> ccChainId cfg" "ccChainId cfg < 2 ^ 64" "0 \<le> ccCaptureBlock cfg" "ccCaptureBlock cfg < 2 ^ 64"
    using cfg by (simp_all add: requireUint_Inr)
  have x: "\<exists>h. toHexSized V (ccChainId cfg) 8 = Inr h" "\<exists>h. toHexSized V (ccCaptureBlock cfg) 8 = Inr h"
    "\<exists>h. toHexSized V (int (length sources)) 1 = Inr h" "\<exists>h. toHexSized V COMPOSITION_PARAMS_VERSION 2 = Inr h"
    by (rule toHex_ok [OF V(2)]; use c n in \<open>simp add: pow_bytes COMPOSITION_PARAMS_VERSION_def\<close>)+
  have u: "requireUint (ccChainId cfg) 64 l = Inr ()" "requireUint (ccCaptureBlock cfg) 64 l = Inr ()" for l
    using c by (simp_all add: requireUint_Inr)
  show "\<exists>h. canonicalPolicyManifest V (ccChainId cfg) sources = Inr h"
    unfolding canonicalPolicyManifest_def Let_def u bindE.simps concatE_ok
    using x records_ok(1) [OF V] s by auto
  show "\<exists>h. canonicalCaptureManifest V (cfg\<lparr>ccSources := xs\<rparr>) sources = Inr h"
    unfolding canonicalCaptureManifest_def Let_def
    using x records_ok(2) [OF V] s u by (simp add: concatE_ok) auto
qed

lemma outputRoot_ok:
  assumes V: "toHexLaw V" and s: "\<forall>s \<in> set sources. passedSource V cfg s \<and> canonicalSourceFields s"
    and run: "computeAllocations sources pool = Inr (als, ats, out)" and pool: "pool < 2 ^ 128"
  shows "\<exists>r. compositionOutputRoot V out = Inr r"
proof -
  note f = computeAllocations_facts [OF run]
  have "canonicalEntries out" by (rule output_canonical [OF run]) (use s in \<open>simp add: canonicalSourceFields_def\<close>)
  then have o: "orderedEntries out = Inr out" by (rule orderedEntries_idem)
  have "\<exists>l. outputLeaf V (cnAccount e) (cnValue e) = Inr l" if e: "e \<in> set out" for e
  proof -
    from f(6) e obtain src x where src: "src \<in> set sources" "x \<in> set (csEntries src)" "cnAccount x = cnAccount e" by auto
    with s have ps: "passedSource V cfg src" and ce: "canonicalEntries (csEntries src)" by (auto simp: canonicalSourceFields_def)
    from ps obtain r where "compositionOutputRoot V (csEntries src) = Inr r"
      by (auto simp: passedSource_def sourceCommitments_def Let_def)
    then obtain ls where "mapE (\<lambda>e. outputLeaf V (cnAccount e) (cnValue e)) (csEntries src) = Inr ls"
      using orderedEntries_idem [OF ce] by (auto simp: compositionOutputRoot_def)
    from mapE_all_ok [OF this src(2)] src(3) obtain wa where wa: "wordAddr V (cnAccount e) = Inr wa"
      by (auto simp: outputLeaf_def Let_def)
    have "cnValue e \<le> sumOf cnValue out" by (rule sumOf_member) (use f(6) e in \<open>auto simp: less_imp_le\<close>)
    then have "0 \<le> cnValue e" "cnValue e < 256 ^ 32" using f(1,6) e pool by (auto simp: less_imp_le)
    then obtain wv where "wordU256 V (cnValue e) = Inr wv" using toHex_ok [OF V, of "cnValue e" 32] by (auto simp: wordU256_def)
    with wa show ?thesis by (simp add: outputLeaf_def Let_def)
  qed
  then have "\<exists>ls. mapE (\<lambda>e. outputLeaf V (cnAccount e) (cnValue e)) out = Inr ls"
    by (subst mapE_ok_iff) (intro ballI)
  then show ?thesis using merkleRoot_total by (auto simp: compositionOutputRoot_def o)
qed

text \<open>The checks of a preview.\<close>

definition passedChecks :: "viem \<Rightarrow> CompositionConfig \<Rightarrow> bool" where
  "passedChecks V cfg \<longleftrightarrow> validateConfig cfg = Inr () \<and>
     (\<exists>sources scan. canonicalSources cfg = Inr sources \<and> foldE (scanSource V cfg) emptyScan sources = Inr scan \<and>
        scanChecks cfg scan = Inr () \<and> (\<exists>r. computeAllocations sources (ccOutputPool cfg) = Inr r) \<and>
        (\<forall>s \<in> set sources. isBytes (csSnapshot s) \<and> length (csSnapshot s) = 42))"

lemma metricsFor_ok: "(\<exists>m. metricsFor N sources out f = Inr m) \<longleftrightarrow> (\<forall>s \<in> set sources. \<exists>entries. f (csSourceId s) = Inr entries)"
proof -
  have "(\<exists>y. omitMetric N out f s = Inr y) \<longleftrightarrow> (\<exists>entries. f (csSourceId s) = Inr entries)" for s
    by (cases "f (csSourceId s)") (simp_all add: omitMetric_def Let_def)
  moreover have "(\<exists>m. metricsFor N sources out f = Inr m) \<longleftrightarrow> (\<exists>ys. mapE (omitMetric N out f) sources = Inr ys)"
    by (cases "mapE (omitMetric N out f) sources") (simp_all add: metricsFor_def Let_def)
  ultimately show ?thesis unfolding mapE_ok_iff by simp
qed

lemma preview_runs:
  assumes V: "digestLaw V" "toHexLaw V" "abiLaw V" and ok: "passedChecks V cfg"
  shows "\<exists>sources p. canonicalSources cfg = Inr sources \<and> computeCompositionPreview V N cfg False = Inr p \<and>
    sumOf cnValue (cpOutput p) = ccOutputPool cfg \<and> canonicalEntries (cpOutput p) \<and>
    compositionOutputRoot V (cpOutput p) = Inr (cpOutputRoot p) \<and>
    ((\<exists>q. computeCompositionPreview V N cfg True = Inr q) \<longleftrightarrow>
      (\<forall>s \<in> set sources. \<exists>entries. composeWithout sources (ccOutputPool cfg) (csSourceId s) = Inr entries)) \<and>
    (\<forall>q. computeCompositionPreview V N cfg True = Inr q \<longrightarrow> q\<lparr>cpMetrics := cpMetrics p\<rparr> = p)"
proof -
  from ok obtain sources scan als ats out where v: "validateConfig cfg = Inr ()"
    and s: "canonicalSources cfg = Inr sources" and scan: "foldE (scanSource V cfg) emptyScan sources = Inr scan"
    and ch: "scanChecks cfg scan = Inr ()" and run: "computeAllocations sources (ccOutputPool cfg) = Inr (als, ats, out)"
    and snap: "\<forall>s \<in> set sources. isBytes (csSnapshot s) \<and> length (csSnapshot s) = 42"
    unfolding passedChecks_def by (metis prod_cases3)
  note fs = canonicalSources_fields [OF s]
  have ps: "\<forall>s \<in> set sources. passedSource V cfg s" using scan_passed [OF scan] by blast
  have u: "requireUint (ccChainId cfg) 64 ''chainId'' = Inr ()" "requireUint (ccCaptureBlock cfg) 64 ''captureBlock'' = Inr ()"
    "ccOutputPool cfg < 2 ^ 128" and n: "length sources < 256"
  proof -
    show "requireUint (ccChainId cfg) 64 ''chainId'' = Inr ()" "requireUint (ccCaptureBlock cfg) 64 ''captureBlock'' = Inr ()"
      "ccOutputPool cfg < 2 ^ 128"
      using v unfolding validateConfig_def by (auto simp: requireUint_Inr)
    have "int (length (ccSources cfg)) \<le> maxSources (ccBounds cfg)"
      using v unfolding validateConfig_def by (auto simp: not_less)
    moreover have "maxSources (ccBounds cfg) \<le> 8"
      using v unfolding validateConfig_def boundChecks_def by (auto simp: MAX_COMPOSITION_BOUNDS_def)
    ultimately show "length sources < 256" using fs(2) by simp
  qed
  obtain pm where pm: "canonicalPolicyManifest V (ccChainId cfg) sources = Inr pm"
    using manifests_ok(1) [OF V(1,2) ps u(1,2) n] by blast
  obtain cm where cm: "canonicalCaptureManifest V (cfg\<lparr>ccSources := sources\<rparr>) sources = Inr cm"
    using manifests_ok(2) [OF V(1,2) ps u(1,2) n] by blast
  have "\<forall>s \<in> set (bySourceId sources). \<exists>l. sourcePolicyLeaf V s = Inr l"
  proof
    fix s assume "s \<in> set (bySourceId sources)"
    then have "s \<in> set sources" by simp
    with policyLeaf_ok [OF V(1,3), of cfg s] ps fs(1) snap show "\<exists>l. sourcePolicyLeaf V s = Inr l" by blast
  qed
  then have "\<exists>ls. mapE (sourcePolicyLeaf V) (bySourceId sources) = Inr ls" unfolding mapE_ok_iff .
  then obtain ls where "mapE (sourcePolicyLeaf V) (bySourceId sources) = Inr ls" by (elim exE)
  then have "\<exists>pr. compositionPolicyRoot V sources = Inr pr" by (simp add: compositionPolicyRoot_def)
  then obtain pr where pr: "compositionPolicyRoot V sources = Inr pr" by (elim exE)
  have ce: "canonicalEntries out"
    by (rule output_canonical [OF run]) (use fs(1) in \<open>simp add: canonicalSourceFields_def\<close>)
  then have blob: "canonicalCompositionBlob out = Inr (canonicalBlob (entryPairs out))"
    by (simp add: canonicalCompositionBlob_def orderedEntries_idem)
  obtain cid where cid: "cidV1Raw (sha256Utf8 V (canonicalBlob (entryPairs out))) = Inr cid" using cidV1Raw_sha by blast
  obtain root where root: "compositionOutputRoot V out = Inr root"
    using outputRoot_ok [OF V(2) _ run u(3)] ps fs(1) by blast
  have tot: "sumOf cnValue out = ccOutputPool cfg" by (rule computeAllocations_facts(1) [OF run])
  let ?make = "\<lambda>metrics. \<lparr>cpPolicyManifest = pm, cpPolicyManifestSha256 = sha256Hex V pm, cpSourcePolicyRoot = pr,
     cpCaptureManifest = cm, cpCaptureManifestSha256 = sha256Hex V cm, cpSourceAllocations = als, cpAttribution = ats,
     cpOutput = out, cpOutputBlob = canonicalBlob (entryPairs out),
     cpOutputBlobSha256 = digestToHex V (sha256Utf8 V (canonicalBlob (entryPairs out))), cpOutputCid = cid, cpOutputRoot = root,
     cpTotalValue = ccOutputPool cfg, cpWork = classifyCompositionWork (int (length sources)) (snEntries scan)
       (int (length (snUnion scan))) (snBlobBytes scan), cpMetrics = metrics\<rparr>"
  have made: "computeCompositionPreview V N cfg m = bindE (if m then metricsFor N sources out (composeWithout sources (ccOutputPool cfg))
      else Inr (emptyMetrics N)) (\<lambda>metrics. Inr (?make metrics))" for m
    unfolding computeCompositionPreview_def by (simp add: v s scan ch run tot blob pm cm pr cid root Let_def)
  have "(\<exists>q. computeCompositionPreview V N cfg True = Inr q) \<longleftrightarrow>
      (\<forall>s \<in> set sources. \<exists>entries. composeWithout sources (ccOutputPool cfg) (csSourceId s) = Inr entries)"
    unfolding made metricsFor_ok [where N = N and out = out, symmetric]
    by (cases "metricsFor N sources out (composeWithout sources (ccOutputPool cfg))") simp_all
  moreover have "q\<lparr>cpMetrics := cpMetrics (?make (emptyMetrics N))\<rparr> = ?make (emptyMetrics N)"
    if "computeCompositionPreview V N cfg True = Inr q" for q
    using that unfolding made by (auto simp: result_simps)
  ultimately show ?thesis using made [of False] s tot ce root by fastforce
qed

lemma preview_run:
  assumes "digestLaw V" and "toHexLaw V" and "abiLaw V" and "passedChecks V cfg"
  shows "\<exists>p. computeCompositionPreview V N cfg False = Inr p \<and> sumOf cnValue (cpOutput p) = ccOutputPool cfg \<and>
    canonicalEntries (cpOutput p) \<and> compositionOutputRoot V (cpOutput p) = Inr (cpOutputRoot p)"
  using preview_runs [OF assms, of N] by blast

section \<open>Equal weights\<close>

lemma equalStep_loop:
  assumes "0 \<le> rem" and "rem \<le> int (length xs)"
  shows "\<exists>ws. foldl (equalStep base) (rem, out) xs = (0, out @ ws) \<and> map fst ws = xs \<and>
    sumOf snd ws = base * int (length xs) + rem \<and> (\<forall>w \<in> set ws. base \<le> snd w \<and> snd w \<le> base + 1)"
  using assms
proof (induction xs arbitrary: rem out)
  case (Cons x xs)
  let ?r = "if rem > 0 then rem - 1 else rem" and ?w = "(x, base + (if rem > 0 then 1 else 0))"
  have "\<exists>ws. foldl (equalStep base) (?r, out @ [?w]) xs = (0, (out @ [?w]) @ ws) \<and> map fst ws = xs \<and>
    sumOf snd ws = base * int (length xs) + ?r \<and> (\<forall>w \<in> set ws. base \<le> snd w \<and> snd w \<le> base + 1)"
    by (rule Cons.IH) (use Cons.prems in auto)
  then obtain ws where ws: "foldl (equalStep base) (?r, out @ [?w]) xs = (0, (out @ [?w]) @ ws)" "map fst ws = xs"
    "sumOf snd ws = base * int (length xs) + ?r" "\<forall>w \<in> set ws. base \<le> snd w \<and> snd w \<le> base + 1" by blast
  show ?case
  proof (intro exI [of _ "?w # ws"] conjI)
    show "foldl (equalStep base) (rem, out) (x # xs) = (0, out @ ?w # ws)"
      using ws(1) by (simp add: equalStep_def)
    show "sumOf snd (?w # ws) = base * int (length (x # xs)) + rem" using ws(3) by (simp add: algebra_simps)
  qed (use ws in auto)
qed simp

lemma equalWeights_facts:
  assumes "exactEqualWeights ids = Inr m"
  shows "sumOf snd m = WEIGHT_SCALE" and "set (jkeys m) = toLowerCase ` set ids" and "length m = length ids"
    and "\<forall>w \<in> set m. WEIGHT_SCALE div int (length ids) \<le> snd w \<and> snd w \<le> WEIGHT_SCALE div int (length ids) + 1"
proof -
  from assms obtain words where n: "2 \<le> length ids" "length ids \<le> 8" and w: "mapE (\<lambda>s. canonicalWord s ''sourceId'') ids = Inr words"
    and d: "length (newSet (sortBy cmpHex words)) = length (sortBy cmpHex words)"
    and m: "m = newMap (snd (foldl (equalStep (WEIGHT_SCALE div int (length words)))
      (WEIGHT_SCALE - WEIGHT_SCALE div int (length words) * int (length words), []) (sortBy cmpHex words)))"
    by (auto simp: exactEqualWeights_def Let_def result_simps bigDiv_def WEIGHT_SCALE_def not_less split: if_splits)
  let ?o = "sortBy cmpHex words" and ?b = "WEIGHT_SCALE div int (length words)"
  have len: "length words = length ids" by (rule mapE_length [OF w])
  have "card (set (newSet ?o)) = length (newSet ?o)" by (rule distinct_card) simp
  then have dist: "distinct ?o" using d by (simp add: card_distinct)
  let ?r = "WEIGHT_SCALE - ?b * int (length words)"
  have "?r = WEIGHT_SCALE mod int (length words)" by (simp add: minus_div_mult_eq_mod)
  moreover have "0 < int (length words)" using n len by linarith
  ultimately have "0 \<le> ?r" "?r \<le> int (length ?o)" by (simp_all add: pos_mod_bound less_imp_le)
  from equalStep_loop [OF this, of ?b "[]"] obtain ws where
    ws: "foldl (equalStep ?b) (?r, []) ?o = (0, ws)" "map fst ws = ?o" "sumOf snd ws = ?b * int (length ?o) + ?r"
    "\<forall>w \<in> set ws. ?b \<le> snd w \<and> snd w \<le> ?b + 1" by auto
  have mw: "m = ws" unfolding m ws(1) using dist ws(2) by (simp add: newMap_distinct)
  show "sumOf snd m = WEIGHT_SCALE" using ws(3) by (simp add: mw)
  have "words = map toLowerCase ids"
    using w by (auto simp: mapE_Inr_conv list_all2_conv_all_nth canonicalWord_def result_simps intro!: nth_equalityI)
  then have "set ?o = toLowerCase ` set ids" by simp
  then show "set (jkeys m) = toLowerCase ` set ids" unfolding mw using ws(2) by simp
  have "length ws = length ?o" using ws(2) by (metis length_map)
  then show "length m = length ids" by (simp add: mw len)
  show "\<forall>w \<in> set m. WEIGHT_SCALE div int (length ids) \<le> snd w \<and> snd w \<le> WEIGHT_SCALE div int (length ids) + 1"
    using ws(4) by (simp add: mw len)
qed

section \<open>Percentages\<close>

lemma natDigits_length: "n < 10 ^ k \<Longrightarrow> 0 < k \<Longrightarrow> length (natDigits n) \<le> k"
proof (induction n arbitrary: k rule: natDigits.induct)
  case (1 n)
  show ?case
  proof (cases "n < 10")
    case True
    with 1 show ?thesis by (subst natDigits.simps) simp
  next
    case False
    with 1(2) obtain j where k: "k = Suc j" "0 < j" by (cases k; cases "k - 1") auto
    with 1(2) have "n div 10 < 10 ^ j" by (simp add: less_mult_imp_div_less mult.commute)
    from 1(1) [OF False this k(2)] False k(1) show ?thesis by (subst natDigits.simps) simp
  qed
qed

lemma digitsVal_append: "digitsVal (xs @ ys) = digitsVal xs * 10 ^ length ys + digitsVal ys"
proof -
  have "foldl (\<lambda>v c. 10 * v + digitVal c) v ys = v * 10 ^ length ys + foldl (\<lambda>v c. 10 * v + digitVal c) 0 ys" for v
  proof (induction ys arbitrary: v)
    case (Cons y ys)
    show ?case unfolding foldl_Cons Cons [of "10 * v + digitVal y"] Cons [of "10 * 0 + digitVal y"]
      by (simp add: algebra_simps)
  qed simp
  from this [of "digitsVal xs"] show ?thesis by (simp add: digitsVal_def)
qed

lemma digitsVal_zeros [simp]: "digitsVal (replicate n (CHR ''0'')) = 0"
  by (induction n) (simp_all add: digitsVal_def digitVal_def replicate_append_same [symmetric])

lemma dropTrailing_split: "\<exists>k. s = dropTrailing c s @ replicate k c"
proof -
  have "takeWhile (\<lambda>d. d = c) (rev s) = replicate (length (takeWhile (\<lambda>d. d = c) (rev s))) c"
    by (rule replicate_eqI) (auto dest: set_takeWhileD)
  moreover have "rev s = takeWhile (\<lambda>d. d = c) (rev s) @ dropWhile (\<lambda>d. d = c) (rev s)" by simp
  ultimately have "s = dropTrailing c s @ rev (replicate (length (takeWhile (\<lambda>d. d = c) (rev s))) c)"
    unfolding dropTrailing_def by (metis rev_append rev_rev_ident)
  then show ?thesis by (metis rev_replicate)
qed

lemma padEnd_dropTrailing: "padEnd (length s) c (dropTrailing c s) = s"
proof -
  obtain k where k: "s = dropTrailing c s @ replicate k c" using dropTrailing_split by blast
  then have "length s = length (dropTrailing c s) + k" by (metis length_append length_replicate)
  then show ?thesis unfolding padEnd_def using k by simp
qed

lemma digit_not_space: "isDigit c \<Longrightarrow> \<not> isSpace c" "isDigit c \<Longrightarrow> c \<noteq> CHR ''.''"
  by (auto simp: isDigit_def isSpace_def)

lemma trim_id: "s \<noteq> [] \<Longrightarrow> \<not> isSpace (hd s) \<Longrightarrow> \<not> isSpace (last s) \<Longrightarrow> trim s = s"
proof -
  assume "s \<noteq> []" and "\<not> isSpace (hd s)" and "\<not> isSpace (last s)"
  then have "dropWhile isSpace s = s" "dropWhile isSpace (rev s) = rev s"
    by (simp_all add: dropWhile_eq_self_iff hd_rev)
  then show ?thesis by (simp add: trim_def)
qed

lemma split_dot:
  assumes "\<forall>c \<in> set w. c \<noteq> CHR ''.''"
  shows "beforeDot (w @ ''.'' @ f) = w" "afterDot (w @ ''.'' @ f) = f" "beforeDot w = w" "afterDot w = []"
proof -
  have n: "dropWhile (\<lambda>c. c \<noteq> CHR ''.'') w = []" "takeWhile (\<lambda>c. c \<noteq> CHR ''.'') w = w"
    using assms by (induction w) auto
  have t: "takeWhile (\<lambda>c. c \<noteq> CHR ''.'') (w @ x) = w @ takeWhile (\<lambda>c. c \<noteq> CHR ''.'') x"
    "dropWhile (\<lambda>c. c \<noteq> CHR ''.'') (w @ x) = dropWhile (\<lambda>c. c \<noteq> CHR ''.'') x" for x
    using assms by (induction w) auto
  show "beforeDot (w @ ''.'' @ f) = w" "afterDot (w @ ''.'' @ f) = f" "beforeDot w = w" "afterDot w = []"
    unfolding beforeDot_def afterDot_def t n by simp_all
qed

lemma percent_roundtrip:
  assumes "0 < w" and "w \<le> WEIGHT_SCALE"
  shows "\<exists>s. formatWeightPercent w = Inr s \<and> parseWeightPercent s = Inr w"
proof -
  let ?q = "w div 10 ^ 16" and ?r = "w mod 10 ^ 16"
  let ?W = "natDigits (nat ?q)" and ?P = "padStart 16 (CHR ''0'') (natDigits (nat ?r))"
  let ?F = "dropTrailing (CHR ''0'') ?P"
  define s where "s = (if length ?F > 0 then ?W @ ''.'' @ ?F else ?W)"
  have q: "0 \<le> ?q" "?q \<le> 100" and r: "0 \<le> ?r" "?r < 10 ^ 16"
    using assms by (auto simp: WEIGHT_SCALE_def pos_imp_zdiv_nonneg_iff)
  have lr: "length (natDigits (nat ?r)) \<le> 16" using r by (intro natDigits_length) auto
  have lw: "length ?W \<le> 3" using q by (intro natDigits_length) auto
  have lp: "length ?P = 16" using lr by (simp add: padStart_def)
  have digW: "\<forall>c \<in> set ?W. isDigit c" using natDigits_digits by blast
  have digP: "\<forall>c \<in> set ?P. isDigit c" using natDigits_digits by (auto simp: padStart_def isDigit_def)
  then have digF: "\<forall>c \<in> set ?F. isDigit c" using dropTrailing_split [of ?P "CHR ''0''"] by (metis UnCI set_append)
  have lf: "length ?F \<le> 16" using lp dropTrailing_split [of ?P "CHR ''0''"] by (metis le_add1 length_append)
  have fmt: "formatWeightPercent w = Inr s"
  proof -
    have "w < 2 ^ 64" using assms(2) by (simp add: WEIGHT_SCALE_def)
    then have "requireUint w 64 ''weight'' = Inr ()" using assms(1) by (simp add: requireUint_Inr)
    moreover have "bigToString ?q = ?W" "bigToString ?r = natDigits (nat ?r)" using q r by (simp_all add: bigToString_def)
    moreover have "bigDiv w (10 ^ 16) = Inr ?q" "bigMod w (10 ^ 16) = Inr ?r" using assms(1) by simp_all
    ultimately show ?thesis unfolding formatWeightPercent_def Let_def s_def by simp
  qed
  have noDot: "\<forall>c \<in> set ?W. c \<noteq> CHR ''.''" using digW digit_not_space by blast
  have parts: "beforeDot s = ?W" "afterDot s = ?F" using split_dot [OF noDot] unfolding s_def by auto
  have "trim s = s"
  proof (rule trim_id)
    have "hd s = hd ?W" by (simp add: s_def)
    then show "\<not> isSpace (hd s)" using digW digit_not_space by (metis hd_in_set natDigits_nonempty)
    have "last s \<in> set ?W \<union> set ?F" by (cases "?F = []") (auto simp: s_def)
    then show "\<not> isSpace (last s)" using digW digF digit_not_space by blast
  qed (simp add: s_def)
  moreover have "weightFormat s"
    unfolding weightFormat_def parts
    using lw lf digW digF noDot by (auto simp: list_all_iff Suc_le_eq s_def split: if_splits)
  moreover have "int (digitsVal ?W) * 10 ^ 16 + int (digitsVal (padEnd 16 (CHR ''0'') ?F)) = w"
  proof -
    have "padEnd 16 (CHR ''0'') ?F = ?P" using padEnd_dropTrailing [of ?P] lp by simp
    moreover have "digitsVal ?P = nat ?r" by (simp add: padStart_def digitsVal_append)
    ultimately show ?thesis using q r by simp
  qed
  ultimately have "parseWeightPercent s = Inr w"
    using assms by (simp add: parseWeightPercent_def Let_def parts)
  with fmt show ?thesis by blast
qed

section \<open>The simplex\<close>

lemma countSteps_iff: "0 < step \<Longrightarrow> y \<in> set (countSteps step limit x) \<longleftrightarrow> (\<exists>k::nat. y = x + int k * step) \<and> y \<le> limit"
proof (induction step limit x rule: countSteps.induct)
  case (1 step limit x)
  show ?case
  proof (cases "x \<le> limit")
    case True
    with 1 have IH: "y \<in> set (countSteps step limit (x + step)) \<longleftrightarrow> (\<exists>k::nat. y = x + step + int k * step) \<and> y \<le> limit" by simp
    have "(\<exists>k::nat. y = x + int k * step) \<longleftrightarrow> y = x \<or> (\<exists>k::nat. y = x + step + int k * step)"
    proof
      assume "\<exists>k::nat. y = x + int k * step"
      then obtain k :: nat where "y = x + int k * step" by blast
      then show "y = x \<or> (\<exists>k::nat. y = x + step + int k * step)"
        by (cases k) (auto simp: algebra_simps intro!: exI)
    next
      assume "y = x \<or> (\<exists>k::nat. y = x + step + int k * step)"
      then show "\<exists>k::nat. y = x + int k * step"
      proof
        assume "\<exists>k::nat. y = x + step + int k * step"
        then obtain k :: nat where "y = x + int (Suc k) * step" by (auto simp: algebra_simps)
        then show ?thesis by blast
      qed (auto intro: exI [of _ 0])
    qed
    with IH True 1(2) show ?thesis by (subst countSteps.simps) auto
  next
    case False
    have "x \<le> x + int k * step" for k using 1(2) by simp
    then have "\<not> y \<le> limit" if "y = x + int k * step" for k using that False order_trans by blast
    moreover have "countSteps step limit x = []" using False by (subst countSteps.simps) simp
    ultimately show ?thesis by auto
  qed
qed

lemma simplexPoints_iff:
  assumes "0 < step"
  shows "(a, b, c) \<in> set (simplexPoints step) \<longleftrightarrow>
    (\<exists>i j. a = int (Suc i) * step \<and> b = int (Suc j) * step) \<and> step \<le> c \<and> a + b + c = 100"
proof -
  have k: "(\<exists>k::nat. y = step + int k * step) \<longleftrightarrow> (\<exists>k. y = int (Suc k) * step)" for y by (simp add: algebra_simps)
  have "(a, b, c) \<in> set (simplexPoints step) \<longleftrightarrow>
    a \<in> set (countSteps step (100 - 2 * step) step) \<and> b \<in> set (countSteps step (100 - a - step) step) \<and> c = 100 - a - b"
    by (auto simp: simplexPoints_def)
  also have "\<dots> \<longleftrightarrow> (\<exists>i. a = int (Suc i) * step) \<and> a \<le> 100 - 2 * step \<and> (\<exists>j. b = int (Suc j) * step) \<and>
      b \<le> 100 - a - step \<and> c = 100 - a - b"
    unfolding countSteps_iff [OF assms] k by blast
  also have "\<dots> \<longleftrightarrow> (\<exists>i j. a = int (Suc i) * step \<and> b = int (Suc j) * step) \<and> step \<le> c \<and> a + b + c = 100"
  proof -
    have "step \<le> int (Suc j) * step" for j using assms by (simp add: algebra_simps)
    then show ?thesis by (smt (verit, del_insts))
  qed
  finally show ?thesis .
qed

end
