(* ===== verification/CompositionProps.thy ===== *)
theory CompositionProps
  imports CompositionChecks
begin

text \<open>
  The properties of the composition, an example configuration that passes every check of the preview, and a
  composition whose leave-one-out metrics throw.
\<close>


section \<open>When the allocation succeeds\<close>

definition fundable :: "CompositionSource list \<Rightarrow> int \<Rightarrow> bool" where
  "fundable sources pool \<longleftrightarrow> hamiltonOk pool WEIGHT_SCALE (map sourceRow sources) \<and>
     (\<forall>s \<in> set sources. WEIGHT_SCALE \<le> csWeight s * pool \<and>
        hamiltonOk 0 (csTotalValue s) (map entryRow (csEntries s)))"

lemma hamiltonOk_pool: "hamiltonOk p D rows \<Longrightarrow> 0 \<le> q \<Longrightarrow> hamiltonOk q D rows"
  by (simp add: hamiltonOk_def)

lemma computeAllocations_ok:
  assumes "fundable sources pool"
  shows "\<exists>als ats result. computeAllocations sources pool = Inr (als, ats, result)"
proof -
  have ok: "hamiltonOk pool WEIGHT_SCALE (map sourceRow sources)" using assms by (simp add: fundable_def)
  from hamilton_returns [OF ok] obtain quotas where q: "hamilton pool WEIGHT_SCALE (map sourceRow sources) = Inr quotas" by blast
  have row: "0 < haAllocation r \<and> haData r \<in> set sources" if r: "r \<in> set quotas" for r
  proof -
    from hamilton_facts(5) [OF q] r obtain s where s: "s \<in> set sources"
      "r = hamPaid pool WEIGHT_SCALE (map sourceRow sources) (sourceRow s)" by auto
    have "WEIGHT_SCALE div WEIGHT_SCALE \<le> csWeight s * pool div WEIGHT_SCALE"
      by (rule zdiv_mono1) (use assms s(1) in \<open>auto simp: fundable_def WEIGHT_SCALE_def\<close>)
    then have "1 \<le> csWeight s * pool div WEIGHT_SCALE" by (simp add: WEIGHT_SCALE_def)
    with hamShare_facts(3) [OF ok, of "sourceRow s"] s show ?thesis
      by (simp add: hamPaid_def hamRowOf_def sourceRow_def)
  qed
  have "\<exists>part. allocateSource r = Inr part" if r: "r \<in> set quotas" for r
  proof -
    have "hamiltonOk (haAllocation r) (csTotalValue (haData r)) (map entryRow (csEntries (haData r)))"
      using row [OF r] assms by (auto simp: fundable_def intro: hamiltonOk_pool)
    from hamilton_returns [OF this] show ?thesis by (simp add: allocateSource_def Let_def)
  qed
  then have "\<exists>parts. mapE allocateSource quotas = Inr parts" by (subst mapE_ok_iff) (intro ballI)
  moreover have "\<not> list_ex (\<lambda>row. haAllocation row = 0) quotas" using row by (force simp: list_ex_iff)
  ultimately show ?thesis using q by (auto simp: computeAllocations_def)
qed

section \<open>Properties\<close>

text \<open>
  C19: A successful allocation loses and invents nothing: the output sums to the pool, the source quotas
  sum to the pool, each is positive and is paid out in full by its source's entries.  The check of the
  preview on its total never fails.
\<close>

theorem composition_conserves_pool:
  assumes "computeAllocations sources pool = Inr (als, ats, result)"
  shows "sumOf cnValue result = pool \<and> sumOf alQuota als = pool \<and>
    (\<forall>al \<in> set als. 0 < alQuota al \<and> sumOf cnValue (alEntries al) = alQuota al) \<and>
    mset (map alSourceId als) = mset (map csSourceId sources) \<and> distinct (map cnAccount result)"
  using computeAllocations_facts [OF assms] by blast

text \<open>
  Rounding never moves a whole unit: the difference between what an account gets from a source and
  its exact proportion, scaled by the source's total, lies strictly between minus and plus the total.
\<close>

lemma attribution_within_one_unit:
  assumes "computeAllocations sources pool = Inr (als, ats, result)" and "a \<in> set ats"
  shows "- atIdealDenominator a < atRoundingDeltaNumerator a \<and> atRoundingDeltaNumerator a < atIdealDenominator a"
  using computeAllocations_facts(4) [OF assms(1)] assms(2) by blast

text \<open>
  C20: A configuration that passes every check of the preview gets one without the metrics: no later encoding, root or
  identifier throws.  Its output sums to the pool, is in canonical order and is committed by the root.  With the metrics,
  which is the default, it gets a preview exactly when the composition without each of its sources succeeds, and then
  the same one but for the metrics.
\<close>

theorem preview_returns:
  assumes "digestLaw V" and "toHexLaw V" and "abiLaw V" and "passedChecks V cfg"
  shows "\<exists>sources p. canonicalSources cfg = Inr sources \<and> computeCompositionPreview V N cfg False = Inr p \<and>
    sumOf cnValue (cpOutput p) = ccOutputPool cfg \<and> canonicalEntries (cpOutput p) \<and>
    compositionOutputRoot V (cpOutput p) = Inr (cpOutputRoot p) \<and>
    ((\<exists>q. computeCompositionPreview V N cfg True = Inr q) \<longleftrightarrow>
      (\<forall>s \<in> set sources. \<exists>entries. composeWithout sources (ccOutputPool cfg) (csSourceId s) = Inr entries)) \<and>
    (\<forall>q. computeCompositionPreview V N cfg True = Inr q \<longrightarrow> q\<lparr>cpMetrics := cpMetrics p\<rparr> = p)"
  by (rule preview_runs [OF assms])

text \<open>
  The preview does not depend on the order in which the sources are listed.
\<close>

lemma preview_order_independent:
  assumes "sameSources cfg cfg'" and "computeCompositionPreview V N cfg m = Inr p"
  shows "computeCompositionPreview V N cfg' m = Inr p"
  by (rule preview_perm [OF assms])

text \<open>
  The three largest-remainder routines of the program (the points distribution, the weighted prior's
  and the composition's) pay every account the same on any claims with positive numerators.
\<close>

lemma apportionments_agree:
  assumes "fairClaims pool rows"
  shows "\<exists>a total b c. distributePoints rows (p\<lparr>totalPool := pool\<rparr>) = Inr (a, total) \<and>
    apportion rows pool (claimTotal rows) = Inr b \<and> hamAlloc pool rows = Inr c \<and>
    (\<forall>k. amountOf a k = amountOf b k \<and> amountOf b k = amountOf c k)"
proof -
  obtain a where a: "bindE (distributePoints rows (p\<lparr>totalPool := pool\<rparr>)) (\<lambda>r. Inr (fst r)) = Inr a"
    using points.returns [OF assms, of p] by (elim exE)
  obtain b where b: "apportion rows pool (claimTotal rows) = Inr b" using wpap.returns [OF assms] by blast
  obtain c where c: "hamAlloc pool rows = Inr c" using ham.returns [OF assms] by blast
  from a obtain total where t: "distributePoints rows (p\<lparr>totalPool := pool\<rparr>) = Inr (a, total)"
    by (cases "distributePoints rows (p\<lparr>totalPool := pool\<rparr>)") auto
  have "amountOf a k = amountOf b k" "amountOf b k = amountOf c k" for k
    using apportionment_unique [OF points.apportionment_axioms [of p] wpap.apportionment_axioms assms a b]
      apportionment_unique [OF wpap.apportionment_axioms ham.apportionment_axioms assms b c] by simp_all
  with t b c show ?thesis by blast
qed

text \<open>
  C21: \<open>hamilton\<close> returns exactly when the pool is not negative, the keys differ up to case, every
  numerator is positive and they sum to the denominator; then it returns the rows in the order of their
  keys with the reference share of each.
\<close>

theorem hamilton_reference:
  "hamilton pool D rows = Inr paid \<longleftrightarrow> hamiltonOk pool D rows \<and>
    paid = sortBy (\<lambda>a b. cmpHex (haKey a) (haKey b)) (map (hamPaid pool D rows) rows)"
  by (rule hamilton_iff)

text \<open>
  Equal weights add up to exactly \<open>1e18\<close> over the lower-cased sources, and no two differ by more
  than one unit.
\<close>

lemma equal_weights_exact:
  assumes "exactEqualWeights ids = Inr m"
  shows "sumOf snd m = WEIGHT_SCALE \<and> set (jkeys m) = toLowerCase ` set ids \<and> length m = length ids \<and>
    (\<forall>w \<in> set m. WEIGHT_SCALE div int (length ids) \<le> snd w \<and> snd w \<le> WEIGHT_SCALE div int (length ids) + 1)"
  using equalWeights_facts [OF assms] by blast

text \<open>A valid weight survives being shown as a percentage and parsed back.\<close>

lemma weight_percent_roundtrip:
  assumes "0 < w" and "w \<le> WEIGHT_SCALE"
  shows "\<exists>s. formatWeightPercent w = Inr s \<and> parseWeightPercent s = Inr w"
  by (rule percent_roundtrip [OF assms])

text \<open>
  The simplex visits exactly the points whose first two percentages are multiples of the step and
  whose three percentages are at least the step and sum to 100.
\<close>

lemma simplex_covers_grid:
  assumes "0 < step"
  shows "(a, b, c) \<in> set (simplexPoints step) \<longleftrightarrow>
    (\<exists>i j. a = int (Suc i) * step \<and> b = int (Suc j) * step) \<and> step \<le> c \<and> a + b + c = 100"
  by (rule simplexPoints_iff [OF assms])

section \<open>A composition whose metrics fail\<close>

definition unitSource :: "hex \<Rightarrow> int \<Rightarrow> CompositionSource" where
  "unitSource i w = \<lparr>csInstanceId = ''0x'', csName = ''s'', csChainId = 1, csSourceId = i, csSnapshot = i,
     csFamilyId = ''0x'', csProgramId = ''0x'', csController = ''0x'', csRegistry = ''0x'', csVerifier = ''0x'',
     csParamsHash = ''0x'', csAdapter = None, csDeploymentProvenance = ''0x'', csStateIndex = 0,
     csCheckpointId = 0, csAcceptedAtBlock = 0, csFreezeBlock = 0, csOutputRoot = ''0x'', csBlobSha256 = ''0x'',
     csCid = [], csTotalValue = 1, csWeight = w, csMaxAgeBlocks = 1,
     csEntries = [\<lparr>cnAccount = ''0xf'', cnValue = 1\<rparr>], csAvailable = True, csAvailabilityError = None\<rparr>"

definition fourSources :: "CompositionSource list" where
  "fourSources = [unitSource ''0xa'' 50000000000000000, unitSource ''0xb'' 28500000000000000,
     unitSource ''0xc'' 510625000000000000, unitSource ''0xd'' 410875000000000000]"

definition threeSources :: "CompositionSource list" where
  "threeSources = [unitSource ''0xb'' 30000000000000000,
     unitSource ''0xc'' 537500000000000000, unitSource ''0xd'' 432500000000000000]"

lemma lower_keys: "toLowerCase ''0xa'' = ''0xa''" "toLowerCase ''0xb'' = ''0xb''" "toLowerCase ''0xc'' = ''0xc''"
  "toLowerCase ''0xd'' = ''0xd''" "toLowerCase ''0xf'' = ''0xf''"
  by code_simp+

lemma cmp_keys: "cmpHex ''0xa'' ''0xb'' = -1" "cmpHex ''0xa'' ''0xc'' = -1" "cmpHex ''0xa'' ''0xd'' = -1"
  "cmpHex ''0xb'' ''0xc'' = -1" "cmpHex ''0xb'' ''0xd'' = -1" "cmpHex ''0xc'' ''0xd'' = -1"
  "cmpHex ''0xb'' ''0xa'' = 1" "cmpHex ''0xc'' ''0xa'' = 1" "cmpHex ''0xd'' ''0xa'' = 1"
  "cmpHex ''0xc'' ''0xb'' = 1" "cmpHex ''0xd'' ''0xb'' = 1" "cmpHex ''0xd'' ''0xc'' = 1"
  by code_simp+

lemma unit_fields [simp]: "csSourceId (unitSource i w) = i" "csWeight (unitSource i w) = w"
  "csTotalValue (unitSource i w) = 1" "csEntries (unitSource i w) = [\<lparr>cnAccount = ''0xf'', cnValue = 1\<rparr>]"
  "unitSource i w\<lparr>csWeight := v\<rparr> = unitSource i v"
  by (simp_all add: unitSource_def)

lemmas hamilton_eval = hamilton_def hamiltonRow_def remainderOrder_def cmpRemainder_def cmpBig_def lower_keys cmp_keys
  throwWhen_def Let_def bigDiv_def bigMod_def sourceRow_def entryRow_def WEIGHT_SCALE_def

lemma one_entry: "0 \<le> g \<Longrightarrow> allocateSource \<lparr>haKey = k, haNumerator = w, haData = unitSource i w', haAllocation = g, haRemainder = r\<rparr> =
  Inr (\<lparr>alSourceId = i, alQuota = g, alEntries = (if g > 0 then [\<lparr>cnAccount = ''0xf'', cnValue = g\<rparr>] else [])\<rparr>,
     [\<lparr>atSourceId = i, atAccount = ''0xf'', atExactValue = g, atIdealNumerator = g, atIdealDenominator = 1,
       atRoundingDeltaNumerator = 0\<rparr>])"
  by (simp add: allocateSource_def hamilton_eval attributionOf_def)

lemma fourSources_ok: "\<exists>als ats out. computeAllocations fourSources 20 = Inr (als, ats, out)"
  by (simp add: computeAllocations_def fourSources_def hamilton_eval one_entry upt_rec)

lemma threeSources_fail: "computeAllocations threeSources 20 =
    Inl (compFail ''a required source receives a zero quota; raise the output pool or its weight'')"
  by (simp add: computeAllocations_def threeSources_def hamilton_eval one_entry upt_rec)

lemma fourSources_without: "composeWithout fourSources 20 ''0xa'' = bindE (computeAllocations threeSources 20) (\<lambda>r. Inr (snd (snd r)))"
  by (simp add: composeWithout_def fourSources_def threeSources_def hamilton_eval upt_rec newMap_def need_def)

lemma omit_first: "f ''0xa'' = Inl e \<Longrightarrow> mapE (omitMetric N out f) fourSources = Inl e"
  by (simp add: fourSources_def omitMetric_def)

text \<open>
  C22: The leave-one-out metrics can throw on a composition whose own allocation succeeds: without one
  source the remainder unit can move away from a small source, whose quota then is zero, and the preview with
  metrics is rejected although the same configuration is accepted without them.
\<close>

theorem metrics_reject_valid_composition:
  "\<exists>als ats out. computeAllocations fourSources 20 = Inr (als, ats, out) \<and>
     metricsFor N fourSources out (composeWithout fourSources 20) =
       Inl (compFail ''a required source receives a zero quota; raise the output pool or its weight'')"
proof -
  obtain als ats out where "computeAllocations fourSources 20 = Inr (als, ats, out)" using fourSources_ok by blast
  moreover have "metricsFor N fourSources out (composeWithout fourSources 20) =
       Inl (compFail ''a required source receives a zero quota; raise the output pool or its weight'')"
    using fourSources_without threeSources_fail by (simp add: metricsFor_def omit_first)
  ultimately show ?thesis by blast
qed

section \<open>An example\<close>

definition sampleAccount :: hex where
  "sampleAccount = ''0x'' @ replicate 40 (CHR ''1'')"

definition sampleEntry :: CompositionEntry where
  "sampleEntry = \<lparr>cnAccount = sampleAccount, cnValue = 1\<rparr>"

definition sampleText :: string where
  "sampleText = ''{'' @ quoteMark @ sampleAccount @ quoteMark @ '':'' @ quoteMark @ ''1'' @ quoteMark @ ''}''"

lemma sample_blob: "canonicalBlob (entryPairs [sampleEntry]) = sampleText"
  by code_simp

definition sampleBlobSha :: hex where
  "sampleBlobSha = digestToHex exampleViem (sha256Utf8 exampleViem sampleText)"

definition sampleRoot :: hex where
  "sampleRoot = ''0x'' @ replicate 24 (CHR ''0'') @ replicate 40 (CHR ''1'')"

lemma sample_sha: "isBytes32 sampleBlobSha \<and> toLowerCase sampleBlobSha = sampleBlobSha"
proof -
  let ?d = "concat (map (\<lambda>b. hexDigits 2 (unat b)) (sha256Utf8 exampleViem sampleText))"
  have h: "sampleBlobSha = ''0x'' @ ?d" by (simp add: sampleBlobSha_def digestToHex_def exampleViem_def)
  have "length (concat (map (\<lambda>b. hexDigits 2 (unat b)) bs)) = 2 * length bs" for bs :: bytes by (induction bs) auto
  then have "length ?d = 64" by (simp add: sha256Utf8_def)
  moreover have "\<forall>c \<in> set ?d. hexValue c \<noteq> None \<and> lowerChar c = c" using hexDigits_lower by auto
  moreover from this have "map lowerChar ?d = ?d" by (intro map_idI) blast
  ultimately show ?thesis
    unfolding h isBytes32_def toLowerCase_def by (simp add: list_all_iff lowerChar_literals)
qed

lemma sample_lower: "toLowerCase sampleAccount = sampleAccount" "toLowerCase sampleRoot = sampleRoot"
  "sampleAccount \<noteq> ZERO_ADDRESS"
  by code_simp+

lemma sample_ordered: "orderedEntries [sampleEntry] = Inr [sampleEntry]"
  by (simp add: orderedEntries_def sampleEntry_def sample_lower checkOrdered_def throwWhen_def Let_def)

lemma sample_digits: "hexValue (CHR ''0'') = Some 0" "hexValue (CHR ''1'') = Some 1" "lowerChar (CHR ''1'') = CHR ''1''"
  by code_simp+

lemma sample_digest: "prefixDigest (prefixDigest (CHR ''0'' # CHR ''x'' # replicate 24 (CHR ''0'') @
    drop 2 sampleAccount @ hexDigits 64 (Suc 0))) = sampleRoot" "length sampleAccount = 42"
  by (simp_all add: prefixDigest_def sampleAccount_def sampleRoot_def lowerChar_literals sample_digits)

lemma sample_root: "compositionOutputRoot exampleViem [sampleEntry] = Inr sampleRoot"
  unfolding compositionOutputRoot_def sample_ordered
  by (simp add: sampleEntry_def outputLeaf_def wordAddr_def wordU256_def sample_lower sample_digest
      merkleRoot_def buildTree_def)

lemma sample_root32: "isBytes32 sampleRoot"
  by (simp add: isBytes32_def sampleRoot_def sample_digits list_all_iff)

definition sampleWord :: "char \<Rightarrow> hex" where
  "sampleWord c = ''0x'' @ c # replicate 63 (CHR ''0'')"

definition sampleSource :: "char \<Rightarrow> CompositionSource" where
  "sampleSource c = \<lparr>csInstanceId = sampleWord c, csName = [c], csChainId = 1, csSourceId = sampleWord c,
     csSnapshot = ''0x'' @ c # replicate 39 (CHR ''0''), csFamilyId = sampleWord c,
     csProgramId = TRUST_GRAPH_SOURCE_PROGRAM_ID exampleViem, csController = sampleAccount,
     csRegistry = sampleAccount, csVerifier = sampleAccount, csParamsHash = sampleWord c, csAdapter = None,
     csDeploymentProvenance = sampleWord c, csStateIndex = 0, csCheckpointId = 0, csAcceptedAtBlock = 1,
     csFreezeBlock = 1, csOutputRoot = sampleRoot, csBlobSha256 = sampleBlobSha,
     csCid = (case cidV1Raw (sha256Utf8 exampleViem sampleText) of Inr s \<Rightarrow> s | Inl _ \<Rightarrow> []),
     csTotalValue = 1, csWeight = 500000000000000000, csMaxAgeBlocks = 10, csEntries = [sampleEntry],
     csAvailable = True, csAvailabilityError = None\<rparr>"

definition sampleConfig :: CompositionConfig where
  "sampleConfig = \<lparr>ccChainId = 1, ccCaptureBlock = 2, ccScopeHash = sampleWord (CHR ''1''), ccOutputPool = 10,
     ccBounds = MAX_COMPOSITION_BOUNDS,
     ccSources = [sampleSource (CHR ''1''), sampleSource (CHR ''2'')]\<rparr>"

lemma sample_nats: "hexValue (CHR ''2'') = Some 2" "lowerChar (CHR ''2'') = CHR ''2''"
  by code_simp+

lemma sampleWord_canonical:
  assumes "c \<in> {CHR ''1'', CHR ''2''}"
  shows "canonicalWord (sampleWord c) label = Inr (sampleWord c)"
  using assms by (auto simp: canonicalWord_def isBytes32_def sampleWord_def sample_digits sample_nats
      list_all_iff toLowerCase_def lowerChar_literals)

lemma prefixDigest_bytes32:
  assumes "\<forall>c \<in> set (drop 2 x). hexValue c \<noteq> None"
  shows "isBytes32 (prefixDigest x)" and "toLowerCase (prefixDigest x) = prefixDigest x"
proof -
  have "hexValue (lowerChar c) = hexValue c" for c by (simp add: hexValue_def)
  then show "isBytes32 (prefixDigest x)"
    using assms by (auto simp: isBytes32_def prefixDigest_def list_all_iff sample_digits dest!: in_set_takeD)
  show "toLowerCase (prefixDigest x) = prefixDigest x"
    using isWord_prefixDigest [of x] by (simp add: isWord_def canonical_def)
qed

lemma sample_program:
  "isBytes32 (TRUST_GRAPH_SOURCE_PROGRAM_ID exampleViem)"
  "toLowerCase (TRUST_GRAPH_SOURCE_PROGRAM_ID exampleViem) = TRUST_GRAPH_SOURCE_PROGRAM_ID exampleViem"
proof -
  have "\<forall>c \<in> set (drop 2 (stringToHex exampleViem s)). hexValue c \<noteq> None" for s
    using hexDigits_lower by (auto simp: exampleViem_def)
  from prefixDigest_bytes32 [OF this]
  show "isBytes32 (TRUST_GRAPH_SOURCE_PROGRAM_ID exampleViem)"
    "toLowerCase (TRUST_GRAPH_SOURCE_PROGRAM_ID exampleViem) = TRUST_GRAPH_SOURCE_PROGRAM_ID exampleViem"
    by (simp_all add: TRUST_GRAPH_SOURCE_PROGRAM_ID_def hashName_def)
qed

lemma sample_canonicalSource:
  assumes "c \<in> {CHR ''1'', CHR ''2''}"
  shows "canonicalSource (sampleSource c) = Inr (sampleSource c)"
proof -
  have w: "canonicalWord sampleRoot l = Inr sampleRoot" "canonicalWord sampleBlobSha l = Inr sampleBlobSha"
    "canonicalWord (TRUST_GRAPH_SOURCE_PROGRAM_ID exampleViem) l = Inr (TRUST_GRAPH_SOURCE_PROGRAM_ID exampleViem)" for l
    using sample_root32 sample_sha sample_program by (simp_all add: canonicalWord_def sample_lower)
  show ?thesis unfolding canonicalSource_def
    by (simp add: sampleSource_def sampleWord_canonical [OF assms] w sample_ordered)
qed

lemma requireUint_ok: "0 \<le> v \<Longrightarrow> v < 2 ^ bits \<Longrightarrow> requireUint v bits label = Inr ()"
  by (simp add: requireUint_Inr)

lemma sample_passed:
  shows "sourceStatus exampleViem sampleConfig (sampleSource c) = Inr ()"
    and "sourceBounds sampleConfig (sampleSource c) = Inr ()"
    and "sourceCommitments exampleViem (sampleSource c) = Inr sampleText"
proof -
  show "sourceStatus exampleViem sampleConfig (sampleSource c) = Inr ()"
    by (simp add: sourceStatus_def sampleSource_def sampleConfig_def admittedSourceOutputDomain_def
        sample_program requireUint_Inr)
  show "sourceBounds sampleConfig (sampleSource c) = Inr ()"
    by (simp add: sourceBounds_def sampleSource_def sampleConfig_def requireUint_ok MAX_SOURCE_AGE_BLOCKS_def
        MAX_COMPOSITION_BOUNDS_def sampleEntry_def)
  obtain cid where cid: "cidV1Raw (sha256Utf8 exampleViem sampleText) = Inr cid" using cidV1Raw_sha by blast
  have "canonicalCompositionBlob [sampleEntry] = Inr sampleText"
    by (simp add: canonicalCompositionBlob_def sample_ordered sample_blob)
  then show "sourceCommitments exampleViem (sampleSource c) = Inr sampleText"
    unfolding sourceCommitments_def by (simp add: sampleSource_def sampleBlobSha_def cid sample_root)
qed

lemma sample_validate: "validateConfig sampleConfig = Inr ()"
proof -
  have "sampleWord (CHR ''1'') ! 2 \<noteq> ZERO_HASH ! 2" by (simp add: sampleWord_def ZERO_HASH_def)
  then have "sampleWord (CHR ''1'') \<noteq> ZERO_HASH" by metis
  then show ?thesis
    by (simp add: validateConfig_def sampleConfig_def requireUint_ok sampleWord_canonical boundChecks_def
        MAX_COMPOSITION_BOUNDS_def isSafeInteger_def)
qed

lemma sample_words: "toLowerCase (sampleWord (CHR ''1'')) = sampleWord (CHR ''1'')"
  "toLowerCase (sampleWord (CHR ''2'')) = sampleWord (CHR ''2'')"
  "sampleWord (CHR ''1'') \<noteq> sampleWord (CHR ''2'')"
  by (simp_all add: sampleWord_def toLowerCase_def sample_digits sample_nats lowerChar_literals)

lemma sample_sources: "canonicalSources sampleConfig = Inr [sampleSource (CHR ''1''), sampleSource (CHR ''2'')]"
proof -
  have "cmpHex (sampleWord (CHR ''1'')) (sampleWord (CHR ''2'')) \<le> 0"
    by (simp add: cmpHex_def sample_words Let_def) (simp add: sampleWord_def)
  then show ?thesis
    by (simp add: canonicalSources_def sampleConfig_def sample_canonicalSource bySourceId_def)
      (simp add: sampleSource_def)
qed

lemma sample_scan: "\<exists>scan. foldE (scanSource exampleViem sampleConfig) emptyScan
    [sampleSource (CHR ''1''), sampleSource (CHR ''2'')] = Inr scan \<and> scanChecks sampleConfig scan = Inr ()"
proof -
  have b: "byteLength sampleText = 50" by (simp add: byteLength_def) code_simp
  have "toLowerCase (csSnapshot (sampleSource (CHR ''2''))) \<noteq> toLowerCase (csSnapshot (sampleSource (CHR ''1'')))"
    "csSourceId (sampleSource (CHR ''2'')) \<noteq> csSourceId (sampleSource (CHR ''1''))"
    by (simp_all add: sampleSource_def sample_words not_sym [OF sample_words(3)] toLowerCase_def sample_digits sample_nats
       lowerChar_literals)
  then show ?thesis
    by (simp add: scanSource_def emptyScan_def sample_passed setAdd_def b scanChecks_def)
      (simp add: sampleSource_def sampleConfig_def MAX_COMPOSITION_BOUNDS_def WEIGHT_SCALE_def)
qed

lemma sample_fundable: "fundable [sampleSource (CHR ''1''), sampleSource (CHR ''2'')] 10"
  using sample_words
  by (simp add: fundable_def hamiltonOk_def sourceRow_def entryRow_def sampleSource_def sampleEntry_def WEIGHT_SCALE_def)

lemma sample_checks: "passedChecks exampleViem sampleConfig"
proof -
  have "isBytes (csSnapshot (sampleSource (CHR ''1'')))" "isBytes (csSnapshot (sampleSource (CHR ''2'')))"
    "\<And>c. length (csSnapshot (sampleSource c)) = 42"
    by (simp_all add: sampleSource_def isBytes_def isHexDigit_def list_all_iff)
  moreover have "ccOutputPool sampleConfig = 10" by (simp add: sampleConfig_def)
  ultimately show ?thesis
    using sample_validate sample_sources sample_scan computeAllocations_ok [OF sample_fundable]
    by (auto simp: passedChecks_def)
qed

lemma sample_abi: "abiLaw exampleViem"
proof -
  have "\<exists>h. exampleAbi v = Inr h" if "abiFits v" for v using that by (cases v) (auto simp: isPart_def)
  then have "\<exists>ws. mapE exampleAbi vs = Inr ws" if "\<forall>v \<in> set vs. abiFits v" for vs
    using that by (subst mapE_ok_iff) blast
  then show ?thesis by (fastforce simp: abiLaw_def exampleViem_def)
qed

section \<open>Witnesses\<close>

theorem composition_conserves_pool_witness:
  "\<exists>als ats result. computeAllocations (ccSources sampleConfig) 10 = Inr (als, ats, result) \<and>
     sumOf cnValue result = 10 \<and> sumOf alQuota als = 10"
proof -
  obtain als ats result where "computeAllocations [sampleSource (CHR ''1''), sampleSource (CHR ''2'')] 10 =
    Inr (als, ats, result)" using computeAllocations_ok [OF sample_fundable] by blast
  from this composition_conserves_pool [OF this] show ?thesis by (simp add: sampleConfig_def)
qed

definition sampleNumbers :: "int numbers" where
  "sampleNumbers = \<lparr>nOf = id, nAdd = (+), nSub = (-), nMul = (*), nDiv = (div), nSqrt = id, nAbs = abs, nEq = (=), nSign = sgn\<rparr>"

theorem preview_returns_witness:
  "\<exists>p. computeCompositionPreview exampleViem sampleNumbers sampleConfig False = Inr p \<and>
     sumOf cnValue (cpOutput p) = 10"
  using preview_returns [OF example_laws(4) example_laws(2) sample_abi sample_checks, of sampleNumbers]
  by (auto simp: sampleConfig_def)

lemma attribution_within_one_unit_witness:
  "\<exists>als ats out. computeAllocations fourSources 20 = Inr (als, ats, out) \<and>
     (\<forall>a \<in> set ats. - atIdealDenominator a < atRoundingDeltaNumerator a)"
proof -
  obtain als ats out where run: "computeAllocations fourSources 20 = Inr (als, ats, out)" using fourSources_ok by blast
  with attribution_within_one_unit [OF run] show ?thesis by blast
qed

lemma preview_order_independent_witness:
  "\<exists>p. computeCompositionPreview exampleViem sampleNumbers
     (sampleConfig\<lparr>ccSources := rev (ccSources sampleConfig)\<rparr>) False = Inr p"
proof -
  have same: "sameSources sampleConfig (sampleConfig\<lparr>ccSources := rev (ccSources sampleConfig)\<rparr>)"
    by (simp add: sameSources_def)
  obtain p where "computeCompositionPreview exampleViem sampleNumbers sampleConfig False = Inr p"
    using preview_run [OF example_laws(4) example_laws(2) sample_abi sample_checks, of sampleNumbers] by blast
  from preview_order_independent [OF same this] show ?thesis by blast
qed

lemma apportionments_agree_witness:
  "\<exists>b c. apportion [(''0xa'', 1), (''0xb'', 2)] 10 3 = Inr b \<and> hamAlloc 10 [(''0xa'', 1), (''0xb'', 2)] = Inr c \<and>
     amountOf b ''0xb'' = amountOf c ''0xb''"
proof -
  have fair: "fairClaims 10 [(''0xa'', 1), (''0xb'', 2)]"
    by (simp add: fairClaims_def canonical_def lower_keys claimTotal_def U256_MAX_def)
  from apportionments_agree [OF fair] show ?thesis by (fastforce simp: claimTotal_def)
qed

lemma equal_weights_exact_witness:
  "\<exists>m. exactEqualWeights [sampleWord (CHR ''1''), sampleWord (CHR ''2'')] = Inr m \<and> sumOf snd m = WEIGHT_SCALE"
proof -
  have "cmpHex (sampleWord (CHR ''1'')) (sampleWord (CHR ''2'')) \<le> 0"
    by (simp add: cmpHex_def sample_words Let_def) (simp add: sampleWord_def)
  then have "\<exists>m. exactEqualWeights [sampleWord (CHR ''1''), sampleWord (CHR ''2'')] = Inr m"
    using sample_words(3)
    by (simp add: exactEqualWeights_def sampleWord_canonical newSet_def setAdd_def bigDiv_def throwWhen_def)
  then obtain m where m: "exactEqualWeights [sampleWord (CHR ''1''), sampleWord (CHR ''2'')] = Inr m" by blast
  from this equal_weights_exact [OF this] show ?thesis by blast
qed

lemma weight_percent_roundtrip_witness:
  "\<exists>s. formatWeightPercent 125000000000000000 = Inr s \<and> parseWeightPercent s = Inr 125000000000000000"
  by (rule weight_percent_roundtrip) (simp_all add: WEIGHT_SCALE_def)

lemma simplex_covers_grid_witness: "(10, 20, 70) \<in> set (simplexPoints 10)"
  by (subst simplex_covers_grid) (auto intro: exI [of _ 0] exI [of _ 1])

end
