(* ===== verification/Workflow.thy ===== *)
theory Workflow
  imports CompositionChecks
begin

text \<open>
  \<open>lib/composition/workflow.ts\<close>: the signing workflow of a composition as a state machine, the availability of
  the deployment, the replay of the policy history, and the check of the landed commitments; also the replay of
  \<open>lib/weighted-prior/workflow.ts\<close>.  The lemmas give the invariant of the phases and, for every accepted
  session, the actions a submitted transaction rests on.
\<close>

section \<open>Definitions\<close>

record CompositionPreviewAnchor =
  anFingerprint :: hex
  anPolicyManifest :: hex
  anPolicyManifestSha256 :: hex
  anCaptureManifest :: hex
  anCaptureManifestSha256 :: hex
  anOutputBlobSha256 :: hex
  anOutputRoot :: hex
  anOutputCid :: string

definition anchorFields :: "'n CompositionPreview \<Rightarrow> abi_value list" where
  "anchorFields preview =
     [AbiBytes32 (cpPolicyManifestSha256 preview), AbiBytes32 (cpCaptureManifestSha256 preview),
      AbiBytes32 (cpOutputBlobSha256 preview), AbiBytes32 (cpOutputRoot preview)]"

definition anchorCompositionPreview ::
  "viem \<Rightarrow> 'n CompositionPreview \<Rightarrow> CompositionPreviewAnchor result" where
  "anchorCompositionPreview V preview =
     bindE (encodeAbi V (anchorFields preview)) (\<lambda>encoded.
     Inr \<lparr>anFingerprint = keccak256 V encoded, anPolicyManifest = cpPolicyManifest preview,
          anPolicyManifestSha256 = cpPolicyManifestSha256 preview,
          anCaptureManifest = cpCaptureManifest preview,
          anCaptureManifestSha256 = cpCaptureManifestSha256 preview,
          anOutputBlobSha256 = cpOutputBlobSha256 preview, anOutputRoot = cpOutputRoot preview,
          anOutputCid = cpOutputCid preview\<rparr>)"

datatype WorkflowPhase = Editing | Previewed | Simulated | Submitted | Confirmed

record CompositionWorkflowState =
  wsRevision :: int
  wsPhase :: WorkflowPhase
  wsAnchor :: "CompositionPreviewAnchor option"
  wsSimulatedPayloadHash :: "hex option"
  wsTxHash :: "hex option"
  wsCanonicalBlockHash :: "hex option"
  wsNotice :: "string option"

definition initialCompositionWorkflow :: CompositionWorkflowState where
  "initialCompositionWorkflow = \<lparr>wsRevision = 0, wsPhase = Editing, wsAnchor = None,
     wsSimulatedPayloadHash = None, wsTxHash = None, wsCanonicalBlockHash = None, wsNotice = None\<rparr>"

datatype 'n CompositionWorkflowAction =
    EditAction string
  | PreviewAction "'n CompositionPreview"
  | SimulateAction hex "'n CompositionPreview"
  | WalletRejected
  | SubmitAction hex hex
  | ConfirmAction hex
  | Reorg

text \<open>
  The reducer; a submission carries the transaction hash and the payload.  \<open>state.anchor?.fingerprint\<close> of no
  anchor is \<open>undefined\<close>, which differs from every fingerprint.
\<close>

fun reduceCompositionWorkflow ::
  "viem \<Rightarrow> CompositionWorkflowState \<Rightarrow> 'n CompositionWorkflowAction \<Rightarrow> CompositionWorkflowState result" where
  "reduceCompositionWorkflow V state (EditAction reason) =
     Inr (initialCompositionWorkflow\<lparr>wsRevision := wsRevision state + 1,
       wsNotice := Some (''Preview invalidated: '' @ reason)\<rparr>)"
| "reduceCompositionWorkflow V state (PreviewAction preview) =
     bindE (anchorCompositionPreview V preview) (\<lambda>anchor.
     Inr (state\<lparr>wsPhase := Previewed, wsAnchor := Some anchor, wsSimulatedPayloadHash := None,
       wsTxHash := None, wsCanonicalBlockHash := None, wsNotice := None\<rparr>))"
| "reduceCompositionWorkflow V state (SimulateAction payload preview) =
     bindE (anchorCompositionPreview V preview) (\<lambda>anchor.
     if map_option anFingerprint (wsAnchor state) \<noteq> Some (anFingerprint anchor)
     then Inl (PlainError ''Preview changed before simulation; review the new exact bytes.'')
     else Inr (state\<lparr>wsPhase := Simulated, wsSimulatedPayloadHash := Some (keccak256 V payload),
       wsNotice := None\<rparr>))"
| "reduceCompositionWorkflow V state WalletRejected =
     Inr (state\<lparr>wsNotice := Some ''Wallet request rejected. The reviewed simulation is still current.''\<rparr>)"
| "reduceCompositionWorkflow V state (SubmitAction txHash payload) =
     (if wsPhase state \<noteq> Simulated \<or> wsSimulatedPayloadHash state \<noteq> Some (keccak256 V payload)
      then Inl (PlainError ''Transaction payload differs from the reviewed simulation.'')
      else Inr (state\<lparr>wsPhase := Submitted, wsTxHash := Some txHash, wsNotice := None\<rparr>))"
| "reduceCompositionWorkflow V state (ConfirmAction blockHash) =
     (if wsPhase state \<noteq> Submitted
      then Inl (PlainError ''Cannot confirm a composition transaction that was not submitted.'')
      else Inr (state\<lparr>wsPhase := Confirmed, wsCanonicalBlockHash := Some blockHash, wsNotice := None\<rparr>))"
| "reduceCompositionWorkflow V state Reorg =
     (if wsAnchor state = None then Inr initialCompositionWorkflow
      else Inr (state\<lparr>wsPhase := Previewed, wsSimulatedPayloadHash := None, wsTxHash := None,
        wsCanonicalBlockHash := None,
        wsNotice := Some ''Receipt was removed by a reorg. Re-simulate before retrying.''\<rparr>))"

subsection \<open>The availability of the deployment\<close>

datatype AvailabilityMode = Ready | ReadOnly | Offline

record CompositionDeploymentAvailability =
  daMode :: AvailabilityMode
  daCanPreview :: bool
  daCanSign :: bool
  daMessage :: string

definition compositionDeploymentAvailability :: "bool \<Rightarrow> hex option \<Rightarrow> CompositionDeploymentAvailability" where
  "compositionDeploymentAvailability apiAvailable factory =
     (if \<not> apiAvailable then \<lparr>daMode = Offline, daCanPreview = False, daCanSign = False,
        daMessage = ''Composition indexing is not deployed yet. Existing network creation remains unchanged.''\<rparr>
      else if factory = None \<or> factory = Some [] then \<lparr>daMode = ReadOnly, daCanPreview = True, daCanSign = False,
        daMessage = ''Composition preview and provenance are available, but this chain has no configured composition factory.''\<rparr>
      else \<lparr>daMode = Ready, daCanPreview = True, daCanSign = True,
        daMessage = ''Composition preview, creation, and governed rotation are available.''\<rparr>)"

subsection \<open>The history of the policy versions\<close>

datatype HistoryKind = HCreate | HPropose | HCancel | HActivate | HCheckpoint

record CompositionHistoryEvent =
  heId :: string
  heKind :: HistoryKind
  heVersion :: int
  heBlockNumber :: int
  heBlockHash :: hex
  heTransactionIndex :: int
  heLogIndex :: int

datatype VersionStatus = Pending | Active | Superseded | Cancelled

record CompositionPolicyHistory =
  phVersions :: "(int, VersionStatus) jmap"
  phCheckpoints :: "(string \<times> int) list"

definition cmpHistory :: "CompositionHistoryEvent \<Rightarrow> CompositionHistoryEvent \<Rightarrow> int" where
  "cmpHistory left right =
     (if heBlockNumber left \<noteq> heBlockNumber right then (if heBlockNumber left < heBlockNumber right then -1 else 1)
      else if heTransactionIndex left \<noteq> heTransactionIndex right
        then heTransactionIndex left - heTransactionIndex right
      else heLogIndex left - heLogIndex right)"

definition canonicalHistory ::
  "CompositionHistoryEvent list \<Rightarrow> (int, hex) jmap \<Rightarrow> CompositionHistoryEvent list" where
  "canonicalHistory events canonicalBlocks =
     sortBy cmpHistory (filter (\<lambda>e. jget canonicalBlocks (heBlockNumber e) = Some (heBlockHash e)) events)"

text \<open>The loop over the versions overwrites values of present keys, which keeps their order.\<close>

definition supersede :: "(int, VersionStatus) jmap \<Rightarrow> (int, VersionStatus) jmap" where
  "supersede versions = map (\<lambda>(version, status).
     (version, if status = Active then Superseded else status)) versions"

definition historyStep ::
  "CompositionPolicyHistory \<Rightarrow> CompositionHistoryEvent \<Rightarrow> CompositionPolicyHistory" where
  "historyStep history e =
     (let versions = phVersions history; v = heVersion e in
      case heKind e of
        HCreate \<Rightarrow> history\<lparr>phVersions := jset v Active versions\<rparr>
      | HPropose \<Rightarrow> history\<lparr>phVersions := jset v Pending versions\<rparr>
      | HCancel \<Rightarrow> history\<lparr>phVersions := jset v Cancelled versions\<rparr>
      | HActivate \<Rightarrow> history\<lparr>phVersions := jset v Active (supersede versions)\<rparr>
      | HCheckpoint \<Rightarrow> history\<lparr>phCheckpoints := phCheckpoints history @ [(heId e, v)]\<rparr>)"

definition replayCompositionHistory ::
  "CompositionHistoryEvent list \<Rightarrow> (int, hex) jmap \<Rightarrow> CompositionPolicyHistory" where
  "replayCompositionHistory events canonicalBlocks =
     foldl historyStep \<lparr>phVersions = [], phCheckpoints = []\<rparr> (canonicalHistory events canonicalBlocks)"

text \<open>\<open>replayWeightedWorkflow\<close> of the weighted prior replays three of the kinds in list order.\<close>

datatype WeightedWorkflowEvent = WCreate hex int | WPropose hex int | WActivate hex int

fun weightedStep :: "(int, VersionStatus) jmap \<Rightarrow> WeightedWorkflowEvent \<Rightarrow> (int, VersionStatus) jmap" where
  "weightedStep versions (WCreate instanceId v) = jset v Active versions"
| "weightedStep versions (WPropose instanceId v) = jset v Pending versions"
| "weightedStep versions (WActivate instanceId v) = jset v Active (supersede versions)"

definition replayWeightedWorkflow :: "WeightedWorkflowEvent list \<Rightarrow> (int, VersionStatus) jmap" where
  "replayWeightedWorkflow = foldl weightedStep []"

subsection \<open>The landed commitments\<close>

record LandedVerification =
  lvFields :: "(string \<times> bool) list"
  lvByteIdentical :: bool
  lvMismatches :: "string list"
  lvMessage :: string

fun joinWith :: "string \<Rightarrow> string list \<Rightarrow> string" where
  "joinWith sep [] = []"
| "joinWith sep [x] = x"
| "joinWith sep (x # y # ys) = x @ sep @ joinWith sep (y # ys)"

definition verifyLandedComposition ::
  "'n CompositionPreview \<Rightarrow> LandedCompositionCommitments \<Rightarrow> LandedVerification" where
  "verifyLandedComposition preview landed =
     (let (fields, identical) = comparePreviewToLanded preview landed;
          mismatches = map fst (filter (\<lambda>(_, same). \<not> same) fields) in
      \<lparr>lvFields = fields, lvByteIdentical = identical, lvMismatches = mismatches,
       lvMessage = (if identical
         then ''Preview and landed policy, capture, blob, and output commitments are byte-identical.''
         else ''Landed commitments differ: '' @ joinWith '', '' mismatches @ ''.'')\<rparr>)"

section \<open>Runs of the workflow\<close>

definition workflowRun ::
  "viem \<Rightarrow> CompositionWorkflowState \<Rightarrow> 'n CompositionWorkflowAction list \<Rightarrow> CompositionWorkflowState result" where
  "workflowRun V = foldE (reduceCompositionWorkflow V)"

text \<open>
  The states a session can be in: each accepted action is one step.  \<open>'n\<close> is the type of the numbers in
  the preview.
\<close>

inductive workflowStep ::
  "viem \<Rightarrow> 'n CompositionWorkflowAction \<Rightarrow> CompositionWorkflowState \<Rightarrow> CompositionWorkflowState \<Rightarrow> bool"
  for V where
  accepted: "reduceCompositionWorkflow V s a = Inr t \<Longrightarrow> workflowStep V a s t"

inductive_simps workflowStep_iff: "workflowStep V a s t"

inductive workflowReachable ::
  "viem \<Rightarrow> 'n CompositionWorkflowAction list \<Rightarrow> CompositionWorkflowState \<Rightarrow> bool" for V where
  start: "workflowReachable V [] initialCompositionWorkflow"
| step: "workflowReachable V as s \<Longrightarrow> workflowStep V a s t \<Longrightarrow> workflowReachable V (as @ [a]) t"

lemma workflowReachable_run:
  "workflowReachable V as s \<longleftrightarrow> workflowRun V initialCompositionWorkflow as = Inr s"
proof
  show "workflowReachable V as s \<Longrightarrow> workflowRun V initialCompositionWorkflow as = Inr s"
    by (induction rule: workflowReachable.induct) (auto simp: workflowRun_def foldE_append workflowStep_iff)
  show "workflowRun V initialCompositionWorkflow as = Inr s \<Longrightarrow> workflowReachable V as s"
    by (induction as arbitrary: s rule: rev_induct)
      (auto simp: workflowRun_def foldE_append workflowStep_iff intro: workflowReachable.intros)
qed

text \<open>The fields a phase guarantees.\<close>

definition workflowInv :: "CompositionWorkflowState \<Rightarrow> bool" where
  "workflowInv s \<longleftrightarrow>
     (wsAnchor s = None \<longleftrightarrow> wsPhase s = Editing) \<and>
     (wsSimulatedPayloadHash s = None \<longleftrightarrow> wsPhase s \<in> {Editing, Previewed}) \<and>
     (wsPhase s \<in> {Editing, Previewed} \<longrightarrow> wsTxHash s = None \<and> wsCanonicalBlockHash s = None) \<and>
     (wsPhase s \<in> {Submitted, Confirmed} \<longrightarrow> wsTxHash s \<noteq> None) \<and>
     (wsPhase s = Confirmed \<longrightarrow> wsCanonicalBlockHash s \<noteq> None)"

lemma workflowInv_initial: "workflowInv initialCompositionWorkflow"
  by (simp add: workflowInv_def initialCompositionWorkflow_def)

lemma workflowInv_step:
  assumes "workflowInv s" and "reduceCompositionWorkflow V s a = Inr t"
  shows "workflowInv t"
proof (cases a)
  case (SimulateAction payload preview)
  with assms have "wsAnchor s \<noteq> None"
    "t = s\<lparr>wsPhase := Simulated, wsSimulatedPayloadHash := Some (keccak256 V payload), wsNotice := None\<rparr>"
    by (auto split: if_splits)
  with assms(1) show ?thesis by (auto simp: workflowInv_def)
next
  case (PreviewAction preview)
  with assms(2) show ?thesis by (auto simp: workflowInv_def)
next
  case Reorg
  with assms(2) show ?thesis
    by (auto simp: workflowInv_def initialCompositionWorkflow_def split: if_split_asm)
next
  case (EditAction reason)
  with assms(2) show ?thesis by (auto simp: workflowInv_def initialCompositionWorkflow_def)
next
  case (SubmitAction txHash payload)
  with assms(2) have "wsPhase s = Simulated" "t = s\<lparr>wsPhase := Submitted, wsTxHash := Some txHash, wsNotice := None\<rparr>"
    by (auto split: if_split_asm)
  with assms(1) show ?thesis by (simp add: workflowInv_def)
next
  case (ConfirmAction blockHash)
  with assms(2) have "wsPhase s = Submitted"
    "t = s\<lparr>wsPhase := Confirmed, wsCanonicalBlockHash := Some blockHash, wsNotice := None\<rparr>"
    by (auto split: if_split_asm)
  with assms(1) show ?thesis by (simp add: workflowInv_def)
next
  case WalletRejected
  with assms(2) have "t = s\<lparr>wsNotice := wsNotice t\<rparr>" by auto
  then have "workflowInv t = workflowInv (s\<lparr>wsNotice := wsNotice t\<rparr>)" by metis
  with assms(1) show ?thesis by (simp add: workflowInv_def)
qed

lemma workflowReachable_inv: "workflowReachable V as s \<Longrightarrow> workflowInv s"
  by (induction rule: workflowReachable.induct)
    (auto simp: workflowInv_initial workflowStep_iff intro: workflowInv_step)


section \<open>What a submitted or confirmed transaction rests on\<close>

text \<open>
  The actions that replace the reviewed preview, and those that also replace the simulation.
\<close>

definition replacesPreview :: "'n CompositionWorkflowAction \<Rightarrow> bool" where
  "replacesPreview a \<longleftrightarrow> (case a of EditAction r \<Rightarrow> True | PreviewAction p \<Rightarrow> True | _ \<Rightarrow> False)"

definition replacesSimulation :: "'n CompositionWorkflowAction \<Rightarrow> bool" where
  "replacesSimulation a \<longleftrightarrow> replacesPreview a \<or> a = Reorg \<or> (case a of SimulateAction y q \<Rightarrow> True | _ \<Rightarrow> False)"

definition replacesSubmission :: "'n CompositionWorkflowAction \<Rightarrow> bool" where
  "replacesSubmission a \<longleftrightarrow> replacesSimulation a \<or> (case a of SubmitAction x y \<Rightarrow> True | _ \<Rightarrow> False)"

lemmas replaces_defs = replacesPreview_def replacesSimulation_def replacesSubmission_def

definition reviewedBy ::
  "viem \<Rightarrow> 'n CompositionWorkflowAction list \<Rightarrow> 'n CompositionPreview \<Rightarrow> CompositionPreviewAnchor \<Rightarrow> bool" where
  "reviewedBy V as p an \<longleftrightarrow> (\<exists>before after. as = before @ PreviewAction p # after \<and>
     anchorCompositionPreview V p = Inr an \<and> \<not> list_ex replacesPreview after)"

definition simulatedBy ::
  "viem \<Rightarrow> 'n CompositionWorkflowAction list \<Rightarrow> CompositionPreviewAnchor \<Rightarrow> hex \<Rightarrow> bool" where
  "simulatedBy V as an payload \<longleftrightarrow> (\<exists>before p q after an'. as = before @ SimulateAction payload q # after \<and>
     reviewedBy V before p an \<and> anchorCompositionPreview V q = Inr an' \<and> anFingerprint an' = anFingerprint an \<and>
     \<not> list_ex replacesSimulation after)"

definition submittedBy ::
  "viem \<Rightarrow> 'n CompositionWorkflowAction list \<Rightarrow> CompositionPreviewAnchor \<Rightarrow> hex \<Rightarrow> hex \<Rightarrow> bool" where
  "submittedBy V as an tx payload \<longleftrightarrow> (\<exists>before after simulated. as = before @ SubmitAction tx payload # after \<and>
     simulatedBy V before an simulated \<and> keccak256 V simulated = keccak256 V payload \<and>
     \<not> list_ex replacesSubmission after)"

lemma reviewedBy_snoc: "reviewedBy V as p an \<Longrightarrow> \<not> replacesPreview a \<Longrightarrow> reviewedBy V (as @ [a]) p an"
  by (force simp: reviewedBy_def)

lemma simulatedBy_snoc: "simulatedBy V as an y \<Longrightarrow> \<not> replacesSimulation a \<Longrightarrow> simulatedBy V (as @ [a]) an y"
  by (force simp: simulatedBy_def)

lemma submittedBy_snoc: "submittedBy V as an x y \<Longrightarrow> \<not> replacesSubmission a \<Longrightarrow> submittedBy V (as @ [a]) an x y"
  by (force simp: submittedBy_def)

lemma reachable_reviewed:
  "workflowReachable V as s \<Longrightarrow> wsAnchor s = Some an \<Longrightarrow> \<exists>p. reviewedBy V as p an"
proof (induction arbitrary: an rule: workflowReachable.induct)
  case (step as s a t)
  from step.hyps(2) have run: "reduceCompositionWorkflow V s a = Inr t" by (simp add: workflowStep_iff)
  show ?case
  proof (cases "replacesPreview a")
    case True
    with run step.prems obtain p where "a = PreviewAction p" "anchorCompositionPreview V p = Inr an"
      by (cases a) (auto simp: replaces_defs initialCompositionWorkflow_def)
    then show ?thesis by (force simp: reviewedBy_def)
  next
    case False
    with run step.prems have "wsAnchor s = Some an"
      by (cases a) (auto simp: replaces_defs initialCompositionWorkflow_def split: if_split_asm)
    with step.IH False show ?thesis by (blast intro: reviewedBy_snoc)
  qed
qed (simp add: initialCompositionWorkflow_def)

lemma reachable_simulated:
  "workflowReachable V as s \<Longrightarrow> wsAnchor s = Some an \<Longrightarrow> wsSimulatedPayloadHash s = Some h \<Longrightarrow>
   \<exists>y. simulatedBy V as an y \<and> keccak256 V y = h"
proof (induction arbitrary: an h rule: workflowReachable.induct)
  case (step as s a t)
  from step.hyps(2) have run: "reduceCompositionWorkflow V s a = Inr t" by (simp add: workflowStep_iff)
  show ?case
  proof (cases "replacesSimulation a")
    case True
    with run step.prems obtain y q an' where a: "a = SimulateAction y q" "anchorCompositionPreview V q = Inr an'"
      "anFingerprint an' = anFingerprint an" "keccak256 V y = h" "wsAnchor s = Some an"
      by (cases a) (auto simp: replaces_defs initialCompositionWorkflow_def split: if_split_asm)
    with reachable_reviewed [OF step.hyps(1)] show ?thesis by (force simp: simulatedBy_def)
  next
    case False
    with run step.prems have "wsAnchor s = Some an" "wsSimulatedPayloadHash s = Some h"
      by (cases a; auto simp: replaces_defs initialCompositionWorkflow_def split: if_split_asm)+
    with step.IH False show ?thesis by (blast intro: simulatedBy_snoc)
  qed
qed (simp add: initialCompositionWorkflow_def)

lemma reachable_submitted:
  "workflowReachable V as s \<Longrightarrow> wsPhase s \<in> {Submitted, Confirmed} \<Longrightarrow>
   \<exists>an x y. wsAnchor s = Some an \<and> wsTxHash s = Some x \<and> submittedBy V as an x y"
proof (induction rule: workflowReachable.induct)
  case (step as s a t)
  from step.hyps(2) have run: "reduceCompositionWorkflow V s a = Inr t" by (simp add: workflowStep_iff)
  from step.hyps(1) have inv: "workflowInv s" by (rule workflowReachable_inv)
  show ?case
  proof (cases "replacesSubmission a")
    case True
    with run step.prems obtain x y where a: "a = SubmitAction x y" "wsPhase s = Simulated"
      "wsSimulatedPayloadHash s = Some (keccak256 V y)" "wsTxHash t = Some x" "wsAnchor t = wsAnchor s"
      by (cases a) (auto simp: replaces_defs initialCompositionWorkflow_def split: if_split_asm)
    from inv a(2) obtain an where an: "wsAnchor s = Some an" by (auto simp: workflowInv_def)
    from reachable_simulated [OF step.hyps(1) an a(3)] obtain z where
      "simulatedBy V as an z" "keccak256 V z = keccak256 V y" by blast
    then have "submittedBy V (as @ [a]) an x y" by (force simp: submittedBy_def a(1))
    with a an show ?thesis by auto
  next
    case False
    with run step.prems have "wsPhase s \<in> {Submitted, Confirmed}" "wsAnchor t = wsAnchor s" "wsTxHash t = wsTxHash s"
      by (cases a; auto simp: replaces_defs initialCompositionWorkflow_def split: if_split_asm)+
    with step.IH False show ?thesis by (metis submittedBy_snoc)
  qed
qed (simp add: initialCompositionWorkflow_def)

text \<open>A 32-byte word is encoded as itself.\<close>

definition bytes32Law :: "viem \<Rightarrow> bool" where
  "bytes32Law V \<longleftrightarrow> (\<forall>ws e. encodeAbi V (map AbiBytes32 ws) = Inr e \<longrightarrow>
     (\<forall>w \<in> set ws. length w = 66) \<and> e = ''0x'' @ concat (map (drop 2) ws))"

definition commitmentsOf :: "'n CompositionPreview \<Rightarrow> hex list" where
  "commitmentsOf p = [cpPolicyManifestSha256 p, cpCaptureManifestSha256 p, cpOutputBlobSha256 p, cpOutputRoot p]"

lemma anchorFields_words: "anchorFields p = map AbiBytes32 (commitmentsOf p)"
  by (simp add: anchorFields_def commitmentsOf_def)

lemma anchor_collision:
  assumes law: "bytes32Law V" and "anchorCompositionPreview V p = Inr an" and "anchorCompositionPreview V q = Inr an'"
    and eq: "anFingerprint an = anFingerprint an'"
  shows "map (drop 2) (commitmentsOf p) = map (drop 2) (commitmentsOf q) \<or>
    (\<exists>x y. encodeAbi V (anchorFields p) = Inr x \<and> encodeAbi V (anchorFields q) = Inr y \<and>
       x \<noteq> y \<and> keccak256 V x = keccak256 V y)"
proof -
  obtain x y where x: "encodeAbi V (anchorFields p) = Inr x" and y: "encodeAbi V (anchorFields q) = Inr y"
    and k: "keccak256 V x = keccak256 V y"
    using assms by (auto simp: anchorCompositionPreview_def)
  show ?thesis
  proof (cases "x = y")
    case True
    have w: "\<forall>w \<in> set (commitmentsOf p). length w = 66" "x = ''0x'' @ concat (map (drop 2) (commitmentsOf p))"
      using law x by (auto simp: bytes32Law_def anchorFields_words)
    have w': "\<forall>w \<in> set (commitmentsOf q). length w = 66" "y = ''0x'' @ concat (map (drop 2) (commitmentsOf q))"
      using law y by (auto simp: bytes32Law_def anchorFields_words)
    have "concat (map (drop 2) (commitmentsOf p)) = concat (map (drop 2) (commitmentsOf q))"
      using True w(2) w'(2) by simp
    then have "map (drop 2) (commitmentsOf p) = map (drop 2) (commitmentsOf q)"
      using w(1) w'(1) by (simp add: commitmentsOf_def)
    then show ?thesis by simp
  next
    case False
    with x y k show ?thesis by blast
  qed
qed

section \<open>Completing a workflow\<close>

definition quiet :: "CompositionWorkflowState \<Rightarrow> CompositionWorkflowState" where
  "quiet s = s\<lparr>wsNotice := None\<rparr>"

lemma quiet_step:
  assumes "quiet s = quiet s'" and "reduceCompositionWorkflow V s a = Inr t"
  shows "\<exists>t'. reduceCompositionWorkflow V s' a = Inr t' \<and> quiet t = quiet t'"
proof -
  have "wsRevision s = wsRevision s'" "wsPhase s = wsPhase s'" "wsAnchor s = wsAnchor s'"
    "wsSimulatedPayloadHash s = wsSimulatedPayloadHash s'" "wsTxHash s = wsTxHash s'"
    "wsCanonicalBlockHash s = wsCanonicalBlockHash s'"
    using assms(1) by (cases s; cases s'; simp add: quiet_def)+
  then show ?thesis using assms by (cases a) (auto simp: quiet_def split: if_split_asm)
qed

end
