(* ===== verification/WorkflowRun.thy ===== *)
theory WorkflowRun
  imports Workflow
begin

text \<open>
  Completing a workflow in spite of refused wallet requests, and the replay of the policy history: the status
  of each version by its last own event, the single active version, and the order of arrival.
\<close>

lemma quiet_run:
  assumes "quiet s = quiet s'" and "workflowRun V s' (filter (\<lambda>a. a \<noteq> WalletRejected) as) = Inr t'"
  shows "\<exists>t. workflowRun V s as = Inr t \<and> quiet t = quiet t'"
  using assms
proof (induction as arbitrary: s s')
  case (Cons a as)
  show ?case
  proof (cases "a = WalletRejected")
    case True
    let ?u = "s\<lparr>wsNotice := Some ''Wallet request rejected. The reviewed simulation is still current.''\<rparr>"
    have "quiet ?u = quiet s'" using Cons.prems(1) by (simp add: quiet_def)
    from Cons.IH [OF this] Cons.prems(2) True show ?thesis by (simp add: workflowRun_def)
  next
    case False
    with Cons.prems(2) obtain u' where u: "reduceCompositionWorkflow V s' a = Inr u'"
      "workflowRun V u' (filter (\<lambda>a. a \<noteq> WalletRejected) as) = Inr t'"
      by (auto simp: workflowRun_def)
    from quiet_step [OF Cons.prems(1) [symmetric] u(1)] obtain w where
      "reduceCompositionWorkflow V s a = Inr w" "quiet u' = quiet w" by blast
    with Cons.IH [of w u'] u(2) show ?thesis by (simp add: workflowRun_def)
  qed
qed (auto simp: workflowRun_def)

lemma workflowReachable_append:
  assumes "workflowReachable V as s" and "workflowRun V s bs = Inr t"
  shows "workflowReachable V (as @ bs) t"
  using assms by (simp add: workflowReachable_run workflowRun_def foldE_append)

lemma complete_run:
  assumes "anchorCompositionPreview V p = Inr an"
  shows "\<exists>t. workflowRun V s [PreviewAction p, SimulateAction y p, SubmitAction x y, ConfirmAction b] = Inr t \<and>
    wsPhase t = Confirmed \<and> wsAnchor t = Some an \<and> wsTxHash t = Some x \<and> wsCanonicalBlockHash t = Some b"
  using assms by (simp add: workflowRun_def)

section \<open>The history of the versions\<close>

interpretation historycmp: keyed_comparator cmpHistory
  "\<lambda>e. (heBlockNumber e, heTransactionIndex e, heLogIndex e)"
  by unfold_locales (simp add: cmpHistory_def less_eq_prod_def linorder_neq_iff)

text \<open>The status of a version by its last own event and the activations after it.\<close>

definition ownEvent :: "int \<Rightarrow> CompositionHistoryEvent \<Rightarrow> bool" where
  "ownEvent v e \<longleftrightarrow> heVersion e = v \<and> heKind e \<noteq> HCheckpoint"

definition statusAfter :: "CompositionHistoryEvent \<Rightarrow> CompositionHistoryEvent list \<Rightarrow> VersionStatus" where
  "statusAfter e later = (case heKind e of HPropose \<Rightarrow> Pending | HCancel \<Rightarrow> Cancelled
     | _ \<Rightarrow> if \<exists>x \<in> set later. heKind x = HActivate then Superseded else Active)"

definition versionStatus :: "CompositionHistoryEvent list \<Rightarrow> int \<Rightarrow> VersionStatus option" where
  "versionStatus events v = (case dropWhile (\<lambda>e. \<not> ownEvent v e) (rev events) of
     [] \<Rightarrow> None
   | e # _ \<Rightarrow> Some (statusAfter e (takeWhile (\<lambda>e. \<not> ownEvent v e) (rev events))))"

lemma jget_supersede:
  "jget (supersede m) v = map_option (\<lambda>s. if s = Active then Superseded else s) (jget m v)"
  by (induction m) (simp_all add: supersede_def split_def)

lemma keys_supersede [simp]: "jkeys (supersede m) = jkeys m"
  by (simp add: supersede_def comp_def split_def)

definition historyRun :: "CompositionHistoryEvent list \<Rightarrow> CompositionPolicyHistory" where
  "historyRun = foldl historyStep \<lparr>phVersions = [], phCheckpoints = []\<rparr>"

lemma replay_historyRun: "replayCompositionHistory events blocks = historyRun (canonicalHistory events blocks)"
  by (simp add: replayCompositionHistory_def historyRun_def)

lemma historyRun_snoc: "historyRun (es @ [e]) = historyStep (historyRun es) e"
  by (simp add: historyRun_def)

lemma statusAfter_Cons:
  "statusAfter d (e # later) = (if heKind e = HActivate \<and> statusAfter d later = Active then Superseded
     else statusAfter d later)"
  by (cases "heKind d") (simp_all add: statusAfter_def)

lemma versionStatus_snoc:
  "versionStatus (es @ [e]) v =
     (if ownEvent v e then Some (statusAfter e [])
      else if heKind e = HActivate then map_option (\<lambda>s. if s = Active then Superseded else s) (versionStatus es v)
      else versionStatus es v)"
proof (cases "ownEvent v e")
  case False
  then show ?thesis
    by (cases "dropWhile (\<lambda>e. \<not> ownEvent v e) (rev es)")
      (simp_all only: versionStatus_def rev_append rev.simps append.simps dropWhile.simps takeWhile.simps
        list.case if_True if_False not_False_eq_True option.map statusAfter_Cons, simp_all)
qed (simp add: versionStatus_def)

lemma historyRun_status: "jget (phVersions (historyRun es)) v = versionStatus es v"
proof (induction es rule: rev_induct)
  case (snoc e es)
  then show ?case
    by (cases "heKind e") (auto simp: historyRun_snoc historyStep_def Let_def versionStatus_snoc
        ownEvent_def statusAfter_def update_conv' jget_supersede)
qed (simp add: historyRun_def versionStatus_def)

lemma historyRun_checkpoints:
  "phCheckpoints (historyRun es) = map (\<lambda>e. (heId e, heVersion e)) (filter (\<lambda>e. heKind e = HCheckpoint) es)"
proof (induction es rule: rev_induct)
  case (snoc e es)
  then show ?case
    by (cases "heKind e") (auto simp: historyRun_snoc historyStep_def Let_def)
qed (simp add: historyRun_def)

lemma demoted [simp]: "map_option (\<lambda>s. if s = Active then Superseded else s) x \<noteq> Some Active"
  by (cases x) auto

lemma single_active:
  assumes "\<forall>e \<in> set es. heKind e \<noteq> HCreate"
    and "versionStatus (c # es) v = Some Active" and "versionStatus (c # es) w = Some Active"
  shows "v = w"
  using assms
proof (induction es arbitrary: v w rule: rev_induct)
  case Nil
  then show ?case
    using versionStatus_snoc [of "[]" c] by (auto simp: versionStatus_def ownEvent_def split: if_split_asm)
next
  case (snoc e es)
  have "heKind e \<noteq> HCreate" using snoc.prems(1) by simp
  moreover have "versionStatus (c # es @ [e]) x = Some Active \<Longrightarrow>
     heKind e = HActivate \<and> heVersion e = x \<or> heKind e \<noteq> HActivate \<and> versionStatus (c # es) x = Some Active" for x
    using versionStatus_snoc [of "c # es" e x] \<open>heKind e \<noteq> HCreate\<close>
    by (cases "heKind e") (auto simp: ownEvent_def statusAfter_def split: if_split_asm dest: sym)
  ultimately show ?case using snoc by (metis append_Cons butlast_snoc in_set_butlastD)
qed

lemma canonicalHistory_perm:
  assumes "mset (filter (\<lambda>e. jget blocks (heBlockNumber e) = Some (heBlockHash e)) es) =
      mset (filter (\<lambda>e. jget blocks (heBlockNumber e) = Some (heBlockHash e)) es')"
    and "inj_on (\<lambda>e. (heBlockNumber e, heTransactionIndex e, heLogIndex e))
      {e \<in> set es'. jget blocks (heBlockNumber e) = Some (heBlockHash e)}"
  shows "canonicalHistory es blocks = canonicalHistory es' blocks"
  unfolding canonicalHistory_def
  by (rule historycmp.sortBy_unique) (use assms in auto)

text \<open>The replay of the weighted prior is the same machine.\<close>

fun weightedEvent :: "WeightedWorkflowEvent \<Rightarrow> HistoryKind \<times> int" where
  "weightedEvent (WCreate i v) = (HCreate, v)"
| "weightedEvent (WPropose i v) = (HPropose, v)"
| "weightedEvent (WActivate i v) = (HActivate, v)"

lemma weighted_replay:
  assumes "map (\<lambda>e. (heKind e, heVersion e)) es = map weightedEvent ws"
  shows "phVersions (historyRun es) = replayWeightedWorkflow ws"
  using assms
proof (induction ws arbitrary: es rule: rev_induct)
  case (snoc w ws)
  then obtain es' e where es: "es = es' @ [e]" "(heKind e, heVersion e) = weightedEvent w"
    "map (\<lambda>e. (heKind e, heVersion e)) es' = map weightedEvent ws"
    by (cases es rule: rev_cases) auto
  from snoc.IH [OF es(3)] es(2) show ?case
    by (cases w) (auto simp: es(1) historyRun_snoc historyStep_def Let_def replayWeightedWorkflow_def)
qed (simp add: historyRun_def replayWeightedWorkflow_def)

end
