(* ===== verification/WorkflowProps.thy ===== *)
theory WorkflowProps
  imports WorkflowRun CompositionProps
begin

text \<open>
  The properties of the signing workflow and of the policy history, with an example session and log.
\<close>

section \<open>Properties\<close>

text \<open>
  C25: A transaction the workflow holds as submitted or confirmed was reviewed: the session accepted a preview,
  then a simulation of the same four commitments (or the digest collides on the two encodings), then the
  submission of that payload (up to a collision), and nothing that replaces a step came after it.
\<close>

theorem workflow_submits_reviewed:
  assumes "bytes32Law V" and "workflowReachable V as s" and "wsPhase s \<in> {Submitted, Confirmed}"
  shows "\<exists>before p mid simulated q mid' x payload after an an'.
    as = ((before @ PreviewAction p # mid) @ SimulateAction simulated q # mid') @ SubmitAction x payload # after \<and>
    wsTxHash s = Some x \<and> wsAnchor s = Some an \<and> anchorCompositionPreview V p = Inr an \<and>
    anchorCompositionPreview V q = Inr an' \<and> keccak256 V simulated = keccak256 V payload \<and>
    \<not> list_ex replacesPreview mid \<and> \<not> list_ex replacesSimulation mid' \<and> \<not> list_ex replacesSubmission after \<and>
    (map (drop 2) (commitmentsOf p) = map (drop 2) (commitmentsOf q) \<or>
     (\<exists>e e'. encodeAbi V (anchorFields p) = Inr e \<and> encodeAbi V (anchorFields q) = Inr e' \<and> e \<noteq> e' \<and>
        keccak256 V e = keccak256 V e'))"
proof -
  from reachable_submitted [OF assms(2,3)] obtain an x y where s: "wsAnchor s = Some an" "wsTxHash s = Some x"
    and "submittedBy V as an x y" by blast
  then obtain b3 after y' where a: "as = b3 @ SubmitAction x y # after" "\<not> list_ex replacesSubmission after"
    "keccak256 V y' = keccak256 V y" and "simulatedBy V b3 an y'" by (auto simp: submittedBy_def)
  then obtain b2 p q mid' an' where b: "b3 = b2 @ SimulateAction y' q # mid'" "\<not> list_ex replacesSimulation mid'"
    "anchorCompositionPreview V q = Inr an'" "anFingerprint an' = anFingerprint an" and "reviewedBy V b2 p an"
    by (auto simp: simulatedBy_def)
  then obtain b1 mid where c: "b2 = b1 @ PreviewAction p # mid" "anchorCompositionPreview V p = Inr an"
    "\<not> list_ex replacesPreview mid" by (auto simp: reviewedBy_def)
  have "as = ((b1 @ PreviewAction p # mid) @ SimulateAction y' q # mid') @ SubmitAction x y # after"
    by (simp only: a b c)
  with s a(2,3) b(2,3) c(2,3) anchor_collision [OF assms(1) c(2) b(3) b(4) [symmetric]] show ?thesis by blast
qed

text \<open>
  C26: A session can always be completed: from every state it can reach, previewing, simulating, submitting and
  confirming an encodable preview leads to the confirmed state, however often the wallet refuses in between.
\<close>

theorem workflow_can_confirm:
  assumes "workflowReachable V as s" and "anchorCompositionPreview V p = Inr an"
    and "filter (\<lambda>a. a \<noteq> WalletRejected) bs =
      [PreviewAction p, SimulateAction y p, SubmitAction x y, ConfirmAction b]"
  shows "\<exists>t. workflowReachable V (as @ bs) t \<and> wsPhase t = Confirmed \<and> wsAnchor t = Some an \<and>
    wsTxHash t = Some x \<and> wsCanonicalBlockHash t = Some b"
proof -
  from complete_run [OF assms(2), of s y x b] obtain u where
    "workflowRun V s (filter (\<lambda>a. a \<noteq> WalletRejected) bs) = Inr u" and u: "wsPhase u = Confirmed"
    "wsAnchor u = Some an" "wsTxHash u = Some x" "wsCanonicalBlockHash u = Some b"
    unfolding assms(3) by blast
  from quiet_run [OF refl this(1)] obtain t where t: "workflowRun V s bs = Inr t" "quiet t = quiet u" by blast
  from t(2) have "wsPhase t = wsPhase u" "wsAnchor t = wsAnchor u" "wsTxHash t = wsTxHash u"
    "wsCanonicalBlockHash t = wsCanonicalBlockHash u"
    by (cases t; cases u; simp add: quiet_def)+
  with u workflowReachable_append [OF assms(1) t(1)] show ?thesis by auto
qed

text \<open>
  The replay gives every version the status of its last canonical event: pending, cancelled, or active
  unless an activation came later; the checkpoints are the canonical ones in chain order.
\<close>

lemma history_reference:
  "jget (phVersions (replayCompositionHistory events blocks)) v =
     versionStatus (canonicalHistory events blocks) v \<and>
   phCheckpoints (replayCompositionHistory events blocks) =
     map (\<lambda>e. (heId e, heVersion e)) (filter (\<lambda>e. heKind e = HCheckpoint) (canonicalHistory events blocks))"
  by (simp add: replay_historyRun historyRun_status historyRun_checkpoints)

text \<open>With one creation, at the start of the chain, at most one version is ever active.\<close>

lemma history_single_active:
  assumes "canonicalHistory events blocks = c # rest" and "\<forall>e \<in> set rest. heKind e \<noteq> HCreate"
    and "jget (phVersions (replayCompositionHistory events blocks)) v = Some Active"
    and "jget (phVersions (replayCompositionHistory events blocks)) w = Some Active"
  shows "v = w"
  using single_active [OF assms(2), of c v w] assms(1,3,4) by (simp add: replay_historyRun historyRun_status)

text \<open>
  Only the events of canonical blocks matter, and their order of arrival does not: two logs with the same
  canonical events, no two at one position of the chain, replay to the same history.
\<close>

lemma history_ignores_reorged:
  assumes "mset (filter (\<lambda>e. jget blocks (heBlockNumber e) = Some (heBlockHash e)) events) =
      mset (filter (\<lambda>e. jget blocks (heBlockNumber e) = Some (heBlockHash e)) events')"
    and "inj_on (\<lambda>e. (heBlockNumber e, heTransactionIndex e, heLogIndex e))
      {e \<in> set events'. jget blocks (heBlockNumber e) = Some (heBlockHash e)}"
  shows "replayCompositionHistory events blocks = replayCompositionHistory events' blocks"
  using canonicalHistory_perm [OF assms] by (simp add: replay_historyRun)

section \<open>Examples\<close>

definition workflowPreview :: "int CompositionPreview" where
  "workflowPreview = \<lparr>cpPolicyManifest = ''0x'', cpPolicyManifestSha256 = ZERO_HASH, cpSourcePolicyRoot = ZERO_HASH,
     cpCaptureManifest = ''0x'', cpCaptureManifestSha256 = ZERO_HASH, cpSourceAllocations = [], cpAttribution = [],
     cpOutput = [], cpOutputBlob = [], cpOutputBlobSha256 = ZERO_HASH, cpOutputCid = [], cpOutputRoot = ZERO_HASH,
     cpTotalValue = 0, cpWork = classifyCompositionWork 0 0 0 0, cpMetrics = emptyMetrics sampleNumbers\<rparr>"

lemma example_abi: "encodeAbi exampleViem vs = bindE (mapE exampleAbi vs) (\<lambda>ws. Inr (''0x'' @ concat (map (drop 2) ws)))"
  by (simp add: exampleViem_def)

lemma example_bytes32: "bytes32Law exampleViem"
proof -
  have "mapE exampleAbi (map AbiBytes32 ws) = Inr hs \<Longrightarrow> (\<forall>w \<in> set ws. length w = 66) \<and> hs = ws" for ws hs
    by (induction ws arbitrary: hs) (auto simp: result_simps split: if_split_asm)
  then show ?thesis unfolding bytes32Law_def example_abi by (auto simp: result_simps)
qed

lemma workflowPreview_anchor: "\<exists>an. anchorCompositionPreview exampleViem workflowPreview = Inr an"
  by (simp add: anchorCompositionPreview_def example_abi anchorFields_def workflowPreview_def ZERO_HASH_def)

definition workflowSession :: "int CompositionWorkflowAction list" where
  "workflowSession = [PreviewAction workflowPreview, WalletRejected,
  SimulateAction ''0xab'' workflowPreview, WalletRejected, SubmitAction ''0x01'' ''0xab'', ConfirmAction ''0x02'']"

theorem workflow_can_confirm_witness:
  "\<exists>t. workflowReachable exampleViem workflowSession t \<and> wsPhase t = Confirmed \<and> wsTxHash t = Some ''0x01''"
proof -
  obtain an where an: "anchorCompositionPreview exampleViem workflowPreview = Inr an"
    using workflowPreview_anchor by blast
  show ?thesis
    using workflow_can_confirm [OF workflowReachable.start an, of workflowSession "''0xab''" "''0x01''" "''0x02''"]
    by (auto simp: workflowSession_def)
qed

lemma workflow_session:
  "\<exists>t. workflowReachable exampleViem workflowSession t \<and> wsPhase t = Confirmed \<and> wsTxHash t = Some ''0x01''"
proof -
  obtain an where "anchorCompositionPreview exampleViem workflowPreview = Inr an"
    using workflowPreview_anchor by blast
  then show ?thesis by (simp add: workflowReachable_run workflowRun_def workflowSession_def)
qed

text \<open>A simulation keeps the receipt of an earlier submission: the next one starts with its block hash.\<close>

lemma workflow_stale_receipt:
  "\<exists>t. workflowReachable exampleViem (workflowSession @ [SimulateAction ''0xab'' workflowPreview,
      SubmitAction ''0x03'' ''0xab'']) t \<and> wsPhase t = Submitted \<and> wsTxHash t = Some ''0x03'' \<and>
    wsCanonicalBlockHash t = Some ''0x02''"
proof -
  obtain an where "anchorCompositionPreview exampleViem workflowPreview = Inr an"
    using workflowPreview_anchor by blast
  then show ?thesis by (simp add: workflowReachable_run workflowRun_def workflowSession_def)
qed

theorem workflow_submits_reviewed_witness:
  "\<exists>t p an x payload. workflowReachable exampleViem workflowSession t \<and> wsAnchor t = Some an \<and>
     anchorCompositionPreview exampleViem p = Inr an \<and> PreviewAction p \<in> set workflowSession \<and>
     SubmitAction x payload \<in> set workflowSession \<and> wsTxHash t = Some x"
proof -
  obtain t where t: "workflowReachable exampleViem workflowSession t" "wsPhase t = Confirmed"
    using workflow_session by blast
  then have "wsPhase t \<in> {Submitted, Confirmed}" by simp
  from workflow_submits_reviewed [OF example_bytes32 t(1) this] obtain before p mid simulated q mid' x payload after an
    where s: "workflowSession = ((before @ PreviewAction p # mid) @ SimulateAction simulated q # mid') @
      SubmitAction x payload # after" "wsTxHash t = Some x" "wsAnchor t = Some an"
      "anchorCompositionPreview exampleViem p = Inr an" by blast
  have "PreviewAction p \<in> set workflowSession" "SubmitAction x payload \<in> set workflowSession"
    by (subst s(1), simp)+
  with s(2-4) t(1) show ?thesis by blast
qed

definition historyEvent :: "HistoryKind \<Rightarrow> int \<Rightarrow> int \<Rightarrow> hex \<Rightarrow> CompositionHistoryEvent" where
  "historyEvent k v b h = \<lparr>heId = ''e'', heKind = k, heVersion = v, heBlockNumber = b, heBlockHash = h,
     heTransactionIndex = 0, heLogIndex = 0\<rparr>"

definition historyBlocks :: "(int, hex) jmap" where
  "historyBlocks = [(1, ''0x01''), (2, ''0x02''), (3, ''0x03'')]"

definition historyLog :: "CompositionHistoryEvent list" where
  "historyLog = [historyEvent HActivate 2 3 ''0x03'', historyEvent HCreate 1 1 ''0x01'', historyEvent HPropose 2 2 ''0x02'']"

lemma history_example:
  "canonicalHistory historyLog historyBlocks =
     [historyEvent HCreate 1 1 ''0x01'', historyEvent HPropose 2 2 ''0x02'', historyEvent HActivate 2 3 ''0x03'']"
  "jget (phVersions (replayCompositionHistory historyLog historyBlocks)) 2 = Some Active"
  "jget (phVersions (replayCompositionHistory historyLog historyBlocks)) 1 = Some Superseded"
  by code_simp+

lemma history_single_active_witness:
  "{v. jget (phVersions (replayCompositionHistory historyLog historyBlocks)) v = Some Active} = {2}"
proof (rule Set.set_eqI)
  fix v
  have "v = 2" if "jget (phVersions (replayCompositionHistory historyLog historyBlocks)) v = Some Active"
    by (rule history_single_active [OF history_example(1) _ that history_example(2)]) (simp add: historyEvent_def)
  then show "v \<in> {v. jget (phVersions (replayCompositionHistory historyLog historyBlocks)) v = Some Active} \<longleftrightarrow> v \<in> {2}"
    using history_example(2) by auto
qed

lemma history_ignores_reorged_witness:
  "replayCompositionHistory (historyEvent HCancel 2 3 ''0xff'' # rev historyLog) historyBlocks =
     replayCompositionHistory historyLog historyBlocks"
proof (rule history_ignores_reorged)
  show "inj_on (\<lambda>e. (heBlockNumber e, heTransactionIndex e, heLogIndex e))
      {e \<in> set historyLog. jget historyBlocks (heBlockNumber e) = Some (heBlockHash e)}"
    by (rule inj_onI) (auto simp: historyLog_def historyEvent_def)
qed (simp add: historyLog_def historyEvent_def historyBlocks_def)

end
