(* ===== verification/Signer.thy ===== *)
theory Signer
  imports ComputeProps
begin

text \<open>
  \<open>lib/pagerank/signer.ts\<close>: the choice of the owners and the threshold of a Safe from the scores and the
  authenticated activity log.
\<close>

section \<open>Definitions\<close>

definition ceilDiv :: "int \<Rightarrow> int \<Rightarrow> int result" where
  "ceilDiv a b = bigDiv (a + b - 1) b"

definition MAX_SIGNERS :: int where
  "MAX_SIGNERS = 64"

definition cmpAddr :: "hex \<Rightarrow> hex \<Rightarrow> int" where
  "cmpAddr a b =
     (let av = hexNumber a; bv = hexNumber b in if av < bv then -1 else if av > bv then 1 else 0)"

definition foldActivity :: "viem \<Rightarrow> hex \<Rightarrow> int \<Rightarrow> SignerActivity \<Rightarrow> hex result" where
  "foldActivity V previous sequence activity =
     bindE (concatE V [Inr previous, wordU64 V sequence, wordAddr V (saAccount activity),
       wordU256 V (saProposalId activity), wordU64 V (saBlockNumber activity)]) (\<lambda>x. Inr (keccak256 V x))"

definition cmpRanked :: "hex \<times> int \<Rightarrow> hex \<times> int \<Rightarrow> int" where
  "cmpRanked a b =
     (if snd a > snd b then -1 else if snd a < snd b then 1 else cmpAddr (fst a) (fst b))"

definition selectSigners :: "(hex \<times> int) list \<Rightarrow> SelectionParams \<Rightarrow> (hex list \<times> int) result" where
  "selectSigners scores sp =
     (let ranked = sortBy cmpRanked (filter (\<lambda>(_, v). v \<noteq> 0) scores);
          truncated = sliceTo (topN sp) ranked;
          chosen = sortBy cmpAddr (map fst truncated);
          n = int (length chosen) in
      if n = 0 then Inr (chosen, 0)
      else bindE (ceilDiv (targetThresholdBps sp * n) 10000) (\<lambda>t0.
        let t1 = (if t0 < minThreshold sp then minThreshold sp else t0);
            t2 = (if t1 > n then n else t1);
            t3 = (if t2 < 1 then 1 else t2) in
        Inr (chosen, t3)))"

text \<open>One record of the activity log: the accumulator and the latest block of the account.\<close>

definition activityStep ::
  "viem \<Rightarrow> ActivityCheckpoint \<Rightarrow> hex \<times> (hex, int) jmap \<Rightarrow> nat \<times> SignerActivity \<Rightarrow>
   (hex \<times> (hex, int) jmap) result" where
  "activityStep V cp st ix =
     (case (st, ix) of ((acc, latest), (index, activity)) \<Rightarrow>
       if saBlockNumber activity > acBlockNumber cp
       then Inl (PlainError ''activity record after checkpoint'')
       else bindE (foldActivity V acc (int (index + 1)) activity) (\<lambda>acc'.
         let account = toLowerCase (saAccount activity);
             previous = orDefault (jget latest account) 0 in
         Inr (acc', jset account
           (if saBlockNumber activity > previous then saBlockNumber activity else previous) latest)))"

definition activityLog ::
  "viem \<Rightarrow> ActivityCheckpoint \<Rightarrow> SignerActivity list \<Rightarrow> (hex, int) jmap result" where
  "activityLog V cp activity =
     bindE (foldE (activityStep V cp) (ZERO_HASH, []) (zip [0..<length activity] activity)) (\<lambda>(acc, latest).
     bindE (throwWhen (acCount cp \<noteq> int (length activity)) (PlainError ''activity count mismatch'')) (\<lambda>_.
     bindE (throwWhen (toLowerCase (acAcc cp) \<noteq> toLowerCase acc) (PlainError ''activity accumulator mismatch'')) (\<lambda>_.
     Inr latest)))"

definition emptyCheckpoint :: ActivityCheckpoint where
  "emptyCheckpoint = \<lparr>acAcc = ZERO_HASH, acCount = 0, acBlockNumber = 0\<rparr>"

definition currentOwners :: "SignerInput \<Rightarrow> (hex list \<times> int) result" where
  "currentOwners input =
     (let owners = sortBy cmpAddr (map toLowerCase (orDefault (siCurrentSigners input) []));
          threshold = orDefault (siCurrentThreshold input) 0 in
      bindE (throwWhen (length owners = 0 \<or> length (newSet owners) \<noteq> length owners)
        (PlainError ''invalid current Safe owner set'')) (\<lambda>_.
      bindE (throwWhen (threshold < 1 \<or> threshold > int (length owners))
        (PlainError ''invalid current Safe threshold'')) (\<lambda>_.
      Inr (owners, threshold))))"

definition activityCutoff :: "ActivityCheckpoint \<Rightarrow> SelectionParams \<Rightarrow> int" where
  "activityCutoff cp sp =
     (if acBlockNumber cp > maxInactiveBlocks sp then acBlockNumber cp - maxInactiveBlocks sp else 0)"

definition freshAccounts :: "(hex, int) jmap \<Rightarrow> int \<Rightarrow> hex list" where
  "freshAccounts latest cutoff = newSet (map fst (filter (\<lambda>(_, block). block \<ge> cutoff) latest))"

text \<open>The choice between the active scorers and the current owners.\<close>

definition chooseSigners ::
  "SelectionParams \<Rightarrow> bool \<Rightarrow> int \<Rightarrow> (hex \<times> int) list \<Rightarrow> hex list \<Rightarrow> hex list \<Rightarrow> int \<Rightarrow>
   (hex list \<times> int \<times> bool) result" where
  "chooseSigners selection initialized logged scores fresh owners threshold =
     (let positiveScores = newSet (map (\<lambda>(account, _). toLowerCase account) (filter (\<lambda>(_, v). v \<noteq> 0) scores));
          witnessPool = (if initialized then owners else positiveScores);
          witnessCount = int (length (filter (\<lambda>account. account \<in> set fresh) witnessPool));
          minimum = minActivityWitnesses selection;
          activityApplied = (logged \<noteq> 0 \<and> minimum \<ge> 2 \<and> witnessCount \<ge> minimum) in
      bindE (if activityApplied
             then selectSigners (filter (\<lambda>(account, _). toLowerCase account \<in> set fresh) scores) selection
             else Inr (owners, threshold)) (\<lambda>(signers, target).
      if int (length signers) < minimum then Inr (owners, threshold, False)
      else Inr (signers, target, activityApplied)))"

definition computeSigners :: "viem \<Rightarrow> SignerInput \<Rightarrow> SignerComputeResult result" where
  "computeSigners V input =
     bindE (compute V \<lparr>giEdges = siEdges input, giParams = siParams input, giBinding = None\<rparr>) (\<lambda>base.
     bindE (selectionParamsHash V (siSelection input)) (\<lambda>selectionHash.
     let activity = orDefault (siActivity input) [];
         cp = orDefault (siActivityCheckpoint input) emptyCheckpoint in
     bindE (activityLog V cp activity) (\<lambda>latest.
     bindE (currentOwners input) (\<lambda>(owners, threshold).
     let fresh = freshAccounts latest (activityCutoff cp (siSelection input)) in
     bindE (chooseSigners (siSelection input) (orDefault (siWasInitialized input) False) (acCount cp)
             (crScores base) fresh owners threshold) (\<lambda>(signers, target, applied).
     bindE (signerSetRoot V signers) (\<lambda>setRoot.
     bindE (signerSetRoot V owners) (\<lambda>currentRoot.
     Inr \<lparr>scJournal = \<lparr>sjAcc = jAcc (crJournal base), sjLeafCount = jLeafCount (crJournal base),
            sjParamsHash = jParamsHash (crJournal base), sjSelectionParamsHash = selectionHash,
            sjActivityAcc = acAcc cp, sjActivityCount = acCount cp, sjActivityBlock = acBlockNumber cp,
            sjWasInitialized = orDefault (siWasInitialized input) False,
            sjCurrentSignerSetRoot = currentRoot, sjCurrentThreshold = threshold,
            sjSignerSetRoot = setRoot, sjTargetThreshold = target,
            sjInstanceDomain = orDefault (siInstanceDomain input) ZERO_HASH\<rparr>,
          scSigners = signers, scTargetThreshold = target, scActivityApplied = applied\<rparr>)))))))"

text \<open>The policy check of the guest's entry point; the numbers of the model are integers.\<close>

definition policyOk :: "SelectionParams \<Rightarrow> bool" where
  "policyOk sp \<longleftrightarrow> \<not> (topN sp < 2 \<or> topN sp > MAX_SIGNERS \<or>
     minThreshold sp < 2 \<or> minThreshold sp > topN sp \<or>
     targetThresholdBps sp < 1 \<or> targetThresholdBps sp > 10000 \<or>
     maxInactiveBlocks sp \<le> 0 \<or> minActivityWitnesses sp < 2 \<or> minActivityWitnesses sp > topN sp)"

definition computeSignersForProof :: "viem \<Rightarrow> SignerInput \<Rightarrow> SignerComputeResult result" where
  "computeSignersForProof V input =
     bindE (throwWhen (\<not> policyOk (siSelection input)) (PlainError ''invalid signer selection policy'')) (\<lambda>_.
     bindE (computeSigners V input) (\<lambda>r.
     bindE (throwWhen (\<not> scActivityApplied r)
       (PlainError ''insufficient authenticated signer activity'')) (\<lambda>_.
     Inr r)))"

section \<open>The selection\<close>

interpretation addrcmp: keyed_comparator cmpAddr hexNumber
  by unfold_locales (simp add: cmpAddr_def Let_def)

interpretation rankcmp: keyed_comparator cmpRanked "\<lambda>r. (- snd r, hexNumber (fst r))"
  by unfold_locales (auto simp: cmpRanked_def cmpAddr_def Let_def less_eq_prod_def)

text \<open>The rank order: higher score first, then the smaller address.\<close>

definition outranks :: "hex \<times> int \<Rightarrow> hex \<times> int \<Rightarrow> bool" where
  "outranks a b \<longleftrightarrow> snd b < snd a \<or> snd b = snd a \<and> hexNumber (fst a) < hexNumber (fst b)"

lemma outranks_key: "outranks a b \<longleftrightarrow> (- snd a, hexNumber (fst a)) < (- snd b, hexNumber (fst b))"
  by (auto simp: outranks_def less_prod_def)

definition thresholdFor :: "SelectionParams \<Rightarrow> int \<Rightarrow> int" where
  "thresholdFor sp n = max 1 (min n (max (minThreshold sp) ((targetThresholdBps sp * n + 9999) div 10000)))"

lemma selectSigners_Inr:
  assumes "selectSigners scores sp = Inr (signers, t)" and "0 \<le> targetThresholdBps sp"
  shows "signers = sortBy cmpAddr (map fst (sliceTo (topN sp) (sortBy cmpRanked (filter (\<lambda>(_, v). v \<noteq> 0) scores))))"
    and "t = (if signers = [] then 0 else thresholdFor sp (int (length signers)))"
proof -
  let ?c = "sortBy cmpAddr (map fst (sliceTo (topN sp) (sortBy cmpRanked (filter (\<lambda>(_, v). v \<noteq> 0) scores))))"
  show c: "signers = ?c"
    using assms(1) by (auto simp: selectSigners_def Let_def split: if_splits)
  have clamp: "(if (if (if q < m then m else q) > n then n else (if q < m then m else q)) < 1 then 1
      else (if (if q < m then m else q) > n then n else (if q < m then m else q))) = max 1 (min n (max m q))"
    for q m n :: int by (simp add: max_def min_def)
  have "ceilDiv (targetThresholdBps sp * int (length signers)) 10000 =
    Inr ((targetThresholdBps sp * int (length signers) + 9999) div 10000)"
    using assms(2) by (simp add: ceilDiv_def)
  then show "t = (if signers = [] then 0 else thresholdFor sp (int (length signers)))"
    using assms(1) unfolding selectSigners_def Let_def c [symmetric] clamp
    by (auto simp: thresholdFor_def split: if_splits)
qed

lemma selectSigners_top:
  assumes run: "selectSigners scores sp = Inr (signers, t)" and bps: "0 \<le> targetThresholdBps sp"
    and top: "0 \<le> topN sp" and inj: "distinct (map (\<lambda>r. hexNumber (fst r)) scores)"
  shows "distinct signers" and "sorted (map hexNumber signers)"
    and "int (length signers) = min (topN sp) (int (length (filter (\<lambda>(_, v). v \<noteq> 0) scores)))"
    and "\<exists>chosen \<subseteq> set scores. (\<forall>r \<in> chosen. snd r \<noteq> 0) \<and> set signers = fst ` chosen \<and>
      (\<forall>a \<in> chosen. \<forall>b \<in> set scores - chosen. snd b \<noteq> 0 \<longrightarrow> outranks a b)"
proof -
  let ?pos = "filter (\<lambda>(_, v). v \<noteq> 0) scores" and ?k = "nat (topN sp)"
  let ?rk = "sortBy cmpRanked ?pos" and ?key = "\<lambda>r :: hex \<times> int. (- snd r, hexNumber (fst r))"
  note s = selectSigners_Inr(1) [OF run bps]
  have slice: "sliceTo (topN sp) ?rk = take ?k ?rk" using top by (simp add: sliceTo_def)
  have sg: "signers = sortBy cmpAddr (map fst (take ?k ?rk))" using s slice by simp
  have dn: "distinct (map (\<lambda>r. hexNumber (fst r)) ?pos)" using inj by (rule distinct_map_filter)
  then have "distinct (map hexNumber (map fst ?pos))" by (simp add: comp_def)
  then have df: "distinct (map fst ?pos)" by (auto simp: distinct_map intro: inj_on_imageI2)
  then have "distinct (map fst ?rk)" by simp
  then show "distinct signers" unfolding sg by (simp add: distinct_take take_map flip: take_map)
  show "sorted (map hexNumber signers)" unfolding sg by (rule addrcmp.sortBy_sorted)
  show "int (length signers) = min (topN sp) (int (length ?pos))"
    unfolding sg using top by (simp add: of_nat_min min.commute)
  have "distinct (map snd (map ?key ?pos))" using dn by (simp add: comp_def)
  then have "distinct (map ?key ?pos)" by (auto simp: distinct_map intro: inj_on_imageI2)
  then have strict: "sorted_wrt (<) (map ?key ?rk)" by (rule rankcmp.sortBy_strict)
  let ?ch = "set (take ?k ?rk)"
  have sub: "?ch \<subseteq> set ?pos" by (metis set_sortBy set_take_subset)
  have beat: "outranks a b" if a: "a \<in> ?ch" and b: "b \<in> set ?pos - ?ch" for a b
  proof -
    have "b \<in> set (drop ?k ?rk)" using b by (metis DiffE Un_iff append_take_drop_id set_append set_sortBy)
    moreover have "sorted_wrt (<) (map ?key (take ?k ?rk) @ map ?key (drop ?k ?rk))"
      using strict by (simp flip: map_append)
    ultimately have "?key a < ?key b" using a unfolding sorted_wrt_append by force
    then show ?thesis by (simp only: outranks_key)
  qed
  have "set signers = fst ` ?ch" unfolding sg by simp
  then show "\<exists>chosen \<subseteq> set scores. (\<forall>r \<in> chosen. snd r \<noteq> 0) \<and> set signers = fst ` chosen \<and>
      (\<forall>a \<in> chosen. \<forall>b \<in> set scores - chosen. snd b \<noteq> 0 \<longrightarrow> outranks a b)"
    using sub beat by (intro exI [of _ ?ch]) (auto split: prod.splits)
qed

end
