(* ===== verification/SignerProps.thy ===== *)
theory SignerProps
  imports Signer
begin

text \<open>
  The properties of the Safe owner selection (\<open>signer.ts\<close>).
\<close>

section \<open>The activity log\<close>

text \<open>The latest block stored for an account is at most that of one of its records (or zero).\<close>

definition latestOk :: "ActivityCheckpoint \<Rightarrow> SignerActivity list \<Rightarrow> (hex, int) jmap \<Rightarrow> bool" where
  "latestOk cp activity latest \<longleftrightarrow> (\<forall>(a, b) \<in> set latest. \<exists>r \<in> set activity.
     toLowerCase (saAccount r) = a \<and> b \<le> max 0 (saBlockNumber r) \<and> saBlockNumber r \<le> acBlockNumber cp)"

lemma activityStep_latest:
  assumes inv: "latestOk cp activity latest" and r: "r \<in> set activity"
    and step: "activityStep V cp (acc, latest) (i, r) = Inr (acc', latest')"
  shows "latestOk cp activity latest'"
proof -
  let ?a = "toLowerCase (saAccount r)" and ?prev = "orDefault (jget latest (toLowerCase (saAccount r))) 0"
  let ?b = "if saBlockNumber r > ?prev then saBlockNumber r else ?prev"
  have le: "saBlockNumber r \<le> acBlockNumber cp" and l': "latest' = jset ?a ?b latest"
    using step by (auto simp: activityStep_def Let_def split: if_splits)
  have "\<exists>q \<in> set activity. toLowerCase (saAccount q) = ?a \<and> ?b \<le> max 0 (saBlockNumber q) \<and>
      saBlockNumber q \<le> acBlockNumber cp"
  proof (cases "saBlockNumber r > ?prev")
    case True
    with r le show ?thesis by (intro bexI [of _ r]) auto
  next
    case False
    show ?thesis
    proof (cases "jget latest ?a")
      case None
      with False r le show ?thesis by (intro bexI [of _ r]) (auto simp: orDefault_def)
    next
      case (Some b)
      then have "(?a, b) \<in> set latest" by (rule map_of_SomeD)
      with inv False Some show ?thesis by (auto simp: latestOk_def orDefault_def)
    qed
  qed
  with inv set_jset [of ?a ?b latest] show ?thesis unfolding l' latestOk_def by blast
qed

lemma activityLog_latest:
  assumes "activityLog V cp activity = Inr latest"
  shows "latestOk cp activity latest"
proof -
  from assms obtain acc where
    run: "foldE (activityStep V cp) (ZERO_HASH, []) (zip [0..<length activity] activity) = Inr (acc, latest)"
    by (auto simp: activityLog_def)
  have "latestOk cp activity (snd (acc, latest))"
    using run
  proof (rule foldE_invariant)
    fix s x t
    assume x: "x \<in> set (zip [0..<length activity] activity)" and s: "latestOk cp activity (snd s)"
      and step: "activityStep V cp s x = Inr t"
    obtain a l where st: "s = (a, l)" by (cases s)
    obtain i r where ix: "x = (i, r)" by (cases x)
    obtain a' l' where t: "t = (a', l')" by (cases t)
    have "r \<in> set activity" using x ix by (auto dest: set_zip_rightD)
    with activityStep_latest [of cp activity l r] s step show "latestOk cp activity (snd t)"
      unfolding st ix t by simp
  qed (simp add: latestOk_def)
  then show ?thesis by simp
qed

lemma fresh_active:
  assumes "latestOk cp activity latest" and "a \<in> set (freshAccounts latest cutoff)"
  shows "\<exists>r \<in> set activity. toLowerCase (saAccount r) = a \<and> cutoff \<le> max 0 (saBlockNumber r) \<and>
    saBlockNumber r \<le> acBlockNumber cp"
proof -
  from assms(2) obtain b where "(a, b) \<in> set latest" "cutoff \<le> b" by (auto simp: freshAccounts_def)
  with assms(1) show ?thesis unfolding latestOk_def by fastforce
qed

section \<open>The choice\<close>

lemma thresholdFor_bounds: "1 \<le> n \<Longrightarrow> 1 \<le> thresholdFor sp n \<and> thresholdFor sp n \<le> n"
  by (simp add: thresholdFor_def)

lemma thresholdFor_min: "minThreshold sp \<le> n \<Longrightarrow> minThreshold sp \<le> thresholdFor sp n"
  by (simp add: thresholdFor_def)

lemma chooseSigners_applied:
  assumes "chooseSigners sp ini cnt scores fresh owners threshold = Inr (signers, target, True)"
  shows "selectSigners (filter (\<lambda>(account, _). toLowerCase account \<in> set fresh) scores) sp = Inr (signers, target)"
    and "minActivityWitnesses sp \<le> int (length signers)"
    and "2 \<le> minActivityWitnesses sp"
  using assms unfolding chooseSigners_def Let_def by (auto split: if_splits)

lemma chooseSigners_fallback:
  "chooseSigners sp ini cnt scores fresh owners threshold = Inr (signers, target, False) \<Longrightarrow>
   signers = owners \<and> target = threshold"
  unfolding chooseSigners_def Let_def by (auto split: if_splits)

lemma computeSigners_cases:
  assumes "computeSigners V i = Inr r"
  obtains base latest owners threshold where
    "compute V \<lparr>giEdges = siEdges i, giParams = siParams i, giBinding = None\<rparr> = Inr base"
    and "activityLog V (orDefault (siActivityCheckpoint i) emptyCheckpoint) (orDefault (siActivity i) []) = Inr latest"
    and "currentOwners i = Inr (owners, threshold)"
    and "chooseSigners (siSelection i) (orDefault (siWasInitialized i) False)
      (acCount (orDefault (siActivityCheckpoint i) emptyCheckpoint)) (crScores base)
      (freshAccounts latest (activityCutoff (orDefault (siActivityCheckpoint i) emptyCheckpoint) (siSelection i)))
      owners threshold = Inr (scSigners r, scTargetThreshold r, scActivityApplied r)"
    and "sjTargetThreshold (scJournal r) = scTargetThreshold r"
    and "signerSetRoot V (scSigners r) = Inr (sjSignerSetRoot (scJournal r))"
  using assms unfolding computeSigners_def Let_def
  by (elim bindE_InrE) (auto simp: result_simps)

lemma currentOwners_ok:
  assumes "currentOwners i = Inr (owners, threshold)"
  shows "distinct owners \<and> 1 \<le> threshold \<and> threshold \<le> int (length owners)"
proof -
  have len: "length (newSet owners) = length owners" and t: "1 \<le> threshold \<and> threshold \<le> int (length owners)"
    using assms by (auto simp: currentOwners_def Let_def)
  have "card (set owners) = length owners"
    using len distinct_card [OF distinct_newSet, of owners] by simp
  with t show ?thesis by (simp add: card_distinct)
qed

lemma selectSigners_members:
  assumes "selectSigners scores sp = Inr (signers, t)" and "a \<in> set signers"
  shows "\<exists>v. (a, v) \<in> set scores \<and> v \<noteq> 0"
proof -
  have s: "signers = sortBy cmpAddr (map fst (sliceTo (topN sp) (sortBy cmpRanked (filter (\<lambda>(_, v). v \<noteq> 0) scores))))"
    using assms(1) by (auto simp: selectSigners_def Let_def split: if_splits)
  have "set (sliceTo k xs) \<subseteq> set xs" for k and xs :: "(hex \<times> int) list"
    by (auto simp: sliceTo_def dest: in_set_takeD)
  then have "set signers \<subseteq> fst ` set (filter (\<lambda>(_, v). v \<noteq> 0) scores)"
    unfolding s by (metis image_mono set_map set_sortBy)
  with assms(2) obtain e where "e \<in> set (filter (\<lambda>(_, v). v \<noteq> 0) scores)" "a = fst e" by blast
  then have "(a, snd e) \<in> set scores" "snd e \<noteq> 0" by (auto split: prod.splits)
  then show ?thesis by blast
qed

lemma selectSigners_length:
  assumes "selectSigners scores sp = Inr (signers, t)" and "0 \<le> topN sp"
  shows "int (length signers) \<le> topN sp"
proof -
  have s: "signers = sortBy cmpAddr (map fst (sliceTo (topN sp) (sortBy cmpRanked (filter (\<lambda>(_, v). v \<noteq> 0) scores))))"
    using assms(1) by (auto simp: selectSigners_def Let_def split: if_splits)
  show ?thesis unfolding s using assms(2) by (simp add: sliceTo_def of_nat_min)
qed

section \<open>Properties\<close>

text \<open>
  The selection takes the best: with addresses of distinct numeric values, the chosen accounts
  are distinct and in numeric order, they are as many as the policy and the nonzero scores allow, each
  outranks every scored account left out (higher score, or equal score and smaller address), and the
  threshold is the clamped share, at least one and at most their number.
\<close>
lemma select_signers_top_n:
  assumes "selectSigners scores sp = Inr (signers, t)" and "0 \<le> targetThresholdBps sp" and "0 \<le> topN sp"
    and "distinct (map (\<lambda>r. hexNumber (fst r)) scores)"
  shows "distinct signers \<and> sorted (map hexNumber signers) \<and>
    int (length signers) = min (topN sp) (int (length (filter (\<lambda>(_, v). v \<noteq> 0) scores))) \<and>
    (\<exists>chosen \<subseteq> set scores. (\<forall>r \<in> chosen. snd r \<noteq> 0) \<and> set signers = fst ` chosen \<and>
      (\<forall>a \<in> chosen. \<forall>b \<in> set scores - chosen. snd b \<noteq> 0 \<longrightarrow> outranks a b)) \<and>
    t = (if signers = [] then 0 else thresholdFor sp (int (length signers)))"
  using selectSigners_top [OF assms] selectSigners_Inr(2) [OF assms(1,2)] by blast

definition examplePolicy :: SelectionParams where
  "examplePolicy = \<lparr>topN = 2, minThreshold = 2, targetThresholdBps = 5100, maxInactiveBlocks = 50,
     minActivityWitnesses = 2\<rparr>"

lemma select_signers_top_n_witness:
  "distinct [''0x1'', ''0x3''] \<and> sorted (map hexNumber [''0x1'', ''0x3'']) \<and>
    int (length [''0x1'', ''0x3'']) = min (topN examplePolicy)
      (int (length (filter (\<lambda>(_, v). v \<noteq> 0) [(''0x3'', 5), (''0x2'', 0), (''0x4'', 5), (''0x1'', 9 :: int)]))) \<and>
    (\<exists>chosen \<subseteq> set [(''0x3'', 5), (''0x2'', 0), (''0x4'', 5), (''0x1'', 9)].
      (\<forall>r \<in> chosen. snd r \<noteq> 0) \<and> set [''0x1'', ''0x3''] = fst ` chosen \<and>
      (\<forall>a \<in> chosen. \<forall>b \<in> set [(''0x3'', 5), (''0x2'', 0), (''0x4'', 5), (''0x1'', 9)] - chosen.
        snd b \<noteq> 0 \<longrightarrow> outranks a b)) \<and>
    2 = (if [''0x1'', ''0x3''] = [] then 0 else thresholdFor examplePolicy (int (length [''0x1'', ''0x3''])))"
proof (rule select_signers_top_n)
  show "selectSigners [(''0x3'', 5), (''0x2'', 0), (''0x4'', 5), (''0x1'', 9)] examplePolicy = Inr ([''0x1'', ''0x3''], 2)"
    by code_simp
  have "hexNumber ''0x1'' = 1" "hexNumber ''0x2'' = 2" "hexNumber ''0x3'' = 3" "hexNumber ''0x4'' = 4"
    by code_simp+
  then show "distinct (map (\<lambda>r. hexNumber (fst r)) [(''0x3'', 5), (''0x2'', 0), (''0x4'', 5), (''0x1'', 9 :: int)])"
    by simp
qed (simp_all add: examplePolicy_def)

text \<open>
  C2: What a signer proof can install.  If the guest's entry point returns, the threshold is at least
  two and at most the number of signers, there are at least \<open>minActivityWitnesses\<close> and at most
  \<open>topN\<close>, hence at most 64, signers, and each has a nonzero score and a record in the authenticated
  activity log that is no later than the checkpoint and no older than the cutoff.
\<close>
theorem signer_proof_safe:
  assumes "computeSignersForProof V i = Inr r"
  shows "2 \<le> scTargetThreshold r \<and> scTargetThreshold r \<le> int (length (scSigners r)) \<and>
    minActivityWitnesses (siSelection i) \<le> int (length (scSigners r)) \<and>
    int (length (scSigners r)) \<le> topN (siSelection i) \<and> topN (siSelection i) \<le> MAX_SIGNERS \<and>
    (\<exists>base cp. compute V \<lparr>giEdges = siEdges i, giParams = siParams i, giBinding = None\<rparr> = Inr base \<and>
      cp = orDefault (siActivityCheckpoint i) emptyCheckpoint \<and>
      (\<forall>a \<in> set (scSigners r). (\<exists>v. (a, v) \<in> set (crScores base) \<and> v \<noteq> 0) \<and>
         (\<exists>q \<in> set (orDefault (siActivity i) []). toLowerCase (saAccount q) = toLowerCase a \<and>
            activityCutoff cp (siSelection i) \<le> max 0 (saBlockNumber q) \<and>
            saBlockNumber q \<le> acBlockNumber cp)))"
proof -
  let ?sp = "siSelection i" and ?cp = "orDefault (siActivityCheckpoint i) emptyCheckpoint"
  from assms have pol: "policyOk ?sp" and run: "computeSigners V i = Inr r" and app: "scActivityApplied r"
    by (auto simp: computeSignersForProof_def)
  from run show ?thesis
  proof (rule computeSigners_cases)
    fix base latest owners threshold
    let ?fresh = "freshAccounts latest (activityCutoff ?cp ?sp)"
    assume base: "compute V \<lparr>giEdges = siEdges i, giParams = siParams i, giBinding = None\<rparr> = Inr base"
      and log: "activityLog V ?cp (orDefault (siActivity i) []) = Inr latest"
      and "chooseSigners ?sp (orDefault (siWasInitialized i) False) (acCount ?cp) (crScores base) ?fresh owners threshold
        = Inr (scSigners r, scTargetThreshold r, scActivityApplied r)"
    with app have ch: "chooseSigners ?sp (orDefault (siWasInitialized i) False) (acCount ?cp) (crScores base) ?fresh owners threshold
        = Inr (scSigners r, scTargetThreshold r, True)" by simp
    note sel = chooseSigners_applied [OF ch]
    have pos: "0 \<le> topN ?sp" "0 \<le> targetThresholdBps ?sp" "2 \<le> minThreshold ?sp" "topN ?sp \<le> MAX_SIGNERS"
      using pol by (auto simp: policyOk_def)
    have two: "2 \<le> int (length (scSigners r))" using sel(2,3) by linarith
    then have "scTargetThreshold r = thresholdFor ?sp (int (length (scSigners r)))"
      using selectSigners_Inr(2) [OF sel(1) pos(2)] by auto
    moreover have "2 \<le> thresholdFor ?sp (int (length (scSigners r)))"
      using two pos(3) by (simp add: thresholdFor_def)
    ultimately have "2 \<le> scTargetThreshold r" "scTargetThreshold r \<le> int (length (scSigners r))"
      using thresholdFor_bounds [of "int (length (scSigners r))" ?sp] two by auto
    moreover have "\<exists>v. (a, v) \<in> set (crScores base) \<and> v \<noteq> 0"
      "\<exists>q \<in> set (orDefault (siActivity i) []). toLowerCase (saAccount q) = toLowerCase a \<and>
            activityCutoff ?cp ?sp \<le> max 0 (saBlockNumber q) \<and> saBlockNumber q \<le> acBlockNumber ?cp"
      if "a \<in> set (scSigners r)" for a
    proof -
      from selectSigners_members [OF sel(1) that] obtain v where
        v: "(a, v) \<in> set (crScores base)" "v \<noteq> 0" "toLowerCase a \<in> set ?fresh" by auto
      then show "\<exists>v. (a, v) \<in> set (crScores base) \<and> v \<noteq> 0" by blast
      show "\<exists>q \<in> set (orDefault (siActivity i) []). toLowerCase (saAccount q) = toLowerCase a \<and>
            activityCutoff ?cp ?sp \<le> max 0 (saBlockNumber q) \<and> saBlockNumber q \<le> acBlockNumber ?cp"
        using fresh_active [OF activityLog_latest [OF log] v(3)] by blast
    qed
    ultimately show ?thesis using sel(2) selectSigners_length [OF sel(1) pos(1)] pos(4) base by blast
  qed
qed

text \<open>
  A preview never yields an unusable Safe: whatever the policy, the result is a nonempty owner set
  with a threshold between one and its size, and when the activity rule does not apply it is exactly
  the current owners, in order, and the current threshold.
\<close>
lemma signer_result_usable:
  assumes "computeSigners V i = Inr r" and "0 \<le> targetThresholdBps (siSelection i)"
  shows "1 \<le> scTargetThreshold r \<and> scTargetThreshold r \<le> int (length (scSigners r)) \<and>
    (\<not> scActivityApplied r \<longrightarrow> currentOwners i = Inr (scSigners r, scTargetThreshold r))"
  using assms(1)
proof (rule computeSigners_cases)
  fix base latest owners threshold
  let ?cp = "orDefault (siActivityCheckpoint i) emptyCheckpoint"
  assume own: "currentOwners i = Inr (owners, threshold)"
    and ch: "chooseSigners (siSelection i) (orDefault (siWasInitialized i) False) (acCount ?cp) (crScores base) (freshAccounts latest (activityCutoff ?cp (siSelection i)))
      owners threshold = Inr (scSigners r, scTargetThreshold r, scActivityApplied r)"
  show ?thesis
  proof (cases "scActivityApplied r")
    case True
    with ch have sel: "chooseSigners (siSelection i) (orDefault (siWasInitialized i) False) (acCount ?cp) (crScores base) (freshAccounts latest (activityCutoff ?cp (siSelection i)))
      owners threshold = Inr (scSigners r, scTargetThreshold r, True)" by simp
    note sel = chooseSigners_applied [OF sel]
    then have "2 \<le> int (length (scSigners r))" by linarith
    moreover from this have "scTargetThreshold r = thresholdFor (siSelection i) (int (length (scSigners r)))"
      using selectSigners_Inr(2) [OF sel(1) assms(2)] by auto
    ultimately show ?thesis using True thresholdFor_bounds [of "int (length (scSigners r))" "siSelection i"] by auto
  next
    case False
    with ch chooseSigners_fallback own currentOwners_ok [OF own] show ?thesis by fastforce
  qed
qed

section \<open>A concrete proof input\<close>

definition exampleActivity :: "SignerActivity list" where
  "exampleActivity = [\<lparr>saAccount = ''0xa'', saProposalId = 1, saBlockNumber = 90\<rparr>,
     \<lparr>saAccount = ''0xC'', saProposalId = 1, saBlockNumber = 100\<rparr>]"

definition exampleSignerInput :: "hex \<Rightarrow> SignerInput" where
  "exampleSignerInput acc = \<lparr>siEdges = exampleEvents, siParams = exampleParams\<lparr>minWeightFp := 7\<rparr>,
     siSelection = examplePolicy, siActivity = Some exampleActivity,
     siActivityCheckpoint = Some \<lparr>acAcc = acc, acCount = 2, acBlockNumber = 100\<rparr>,
     siCurrentSigners = Some [''0x1''], siCurrentThreshold = Some 1, siWasInitialized = None,
     siInstanceDomain = None\<rparr>"

lemma example_log:
  assumes "acBlockNumber cp = 100"
  shows "\<exists>acc. foldE (activityStep exampleViem cp) (ZERO_HASH, []) (zip [0..<length exampleActivity] exampleActivity)
    = Inr (acc, [(''0xa'', 90), (''0xc'', 100)])"
proof -
  have low: "toLowerCase ''0xa'' = ''0xa''" "toLowerCase ''0xC'' = ''0xc''" by code_simp+
  have ok: "\<exists>h. foldActivity exampleViem prev s r = Inr h"
    if "0 \<le> s" "s < 10" "r \<in> set exampleActivity" for prev s r
    using that by (auto simp: exampleActivity_def foldActivity_def concatE_def wordU64_def wordU256_def wordAddr_def
      simp del: hexDigits.simps)
  have f: "foldActivity exampleViem prev s r = Inr (projr (foldActivity exampleViem prev s r))"
    if "0 \<le> s" "s < 10" "r \<in> set exampleActivity" for prev s r using ok [OF that, of prev] by auto
  have mem: "exampleActivity ! 0 \<in> set exampleActivity" "exampleActivity ! 1 \<in> set exampleActivity"
    by (simp_all add: exampleActivity_def)
  show ?thesis
    using f [OF _ _ mem(1), of 1] f [OF _ _ mem(2), of 2] assms
    by (auto simp: exampleActivity_def activityStep_def Let_def low orDefault_def upt_rec result_simps)
qed

lemma example_selectionHash: "\<exists>h. selectionParamsHash exampleViem examplePolicy = Inr h"
  by (simp add: selectionParamsHash_def examplePolicy_def concatE_def wordU32_def wordU64_def del: hexDigits.simps)

lemma seedSetRoot_total:
  assumes "padLaw V" and "\<forall>a \<in> set as. length a \<le> 66"
  shows "\<exists>r. seedSetRoot V as = Inr r"
proof -
  have "\<exists>ws. mapE (\<lambda>a. bindE (wordAddr V a) (\<lambda>w. Inr (keccak256 V w))) as = Inr ws"
  proof (intro mapE_ok_iff [THEN iffD2] ballI)
    fix a assume "a \<in> set as"
    then have "\<exists>h. wordAddr V a = Inr h" using assms by (simp add: wordAddr_def padLaw_def)
    then show "\<exists>y. bindE (wordAddr V a) (\<lambda>w. Inr (keccak256 V w)) = Inr y" by auto
  qed
  then show ?thesis using merkleRoot_total by (fastforce simp: seedSetRoot_def)
qed

lemma example_proof:
  "\<exists>acc r. computeSignersForProof exampleViem (exampleSignerInput acc) = Inr r \<and>
     scSigners r = [''0xa'', ''0xc''] \<and> scTargetThreshold r = 2"
proof -
  let ?cp = "\<lambda>acc. \<lparr>acAcc = acc, acCount = 2, acBlockNumber = 100\<rparr>"
  obtain acc where "foldE (activityStep exampleViem (?cp ''0x'')) (ZERO_HASH, [])
      (zip [0..<length exampleActivity] exampleActivity) = Inr (acc, [(''0xa'', 90), (''0xc'', 100)])"
    using example_log [of "?cp ''0x''"] by auto
  moreover have "activityStep V (?cp acc) = activityStep V (?cp ''0x'')" for V
    by (simp add: activityStep_def fun_eq_iff)
  ultimately have log: "activityLog exampleViem (?cp acc) exampleActivity = Inr [(''0xa'', 90), (''0xc'', 100)]"
    by (simp add: activityLog_def) (simp add: exampleActivity_def)
  obtain base where base: "compute exampleViem exampleInput = Inr base"
    using compute_run [OF example_computable] by auto
  have "currentOwners (exampleSignerInput acc) = Inr ([''0x1''], 1)"
  proof -
    have "toLowerCase ''0x1'' = ''0x1''" by code_simp
    then show ?thesis
      by (simp add: currentOwners_def exampleSignerInput_def orDefault_def newSet_def setAdd_def)
  qed
  moreover have "activityCutoff (?cp acc) examplePolicy = 50"
    by (simp add: activityCutoff_def examplePolicy_def)
  moreover have "freshAccounts [(''0xa'', 90), (''0xc'', 100)] 50 = [''0xa'', ''0xc'']"
    by code_simp
  moreover have "chooseSigners examplePolicy False 2 [(''0xa'', 153), (''0xb'', 178), (''0xc'', 669)]
      [''0xa'', ''0xc''] [''0x1''] 1 = Inr ([''0xa'', ''0xc''], 2, True)" by code_simp
  moreover obtain h where "selectionParamsHash exampleViem examplePolicy = Inr h" using example_selectionHash by blast
  moreover obtain r1 where "signerSetRoot exampleViem [''0xa'', ''0xc''] = Inr r1"
    using seedSetRoot_total [of exampleViem "[''0xa'', ''0xc'']"] by (auto simp: signerSetRoot_def)
  moreover obtain r2 where "signerSetRoot exampleViem [''0x1''] = Inr r2"
    using seedSetRoot_total [of exampleViem "[''0x1'']"] by (auto simp: signerSetRoot_def)
  moreover have "policyOk examplePolicy" by code_simp
  ultimately show ?thesis
    using log base example_pipeline [OF base]
    by (intro exI [of _ acc])
      (simp add: computeSignersForProof_def computeSigners_def exampleSignerInput_def exampleInput_def orDefault_def)
qed

theorem signer_proof_safe_witness:
  "\<exists>acc r. computeSignersForProof exampleViem (exampleSignerInput acc) = Inr r \<and>
     2 \<le> scTargetThreshold r \<and> scTargetThreshold r \<le> int (length (scSigners r))"
proof -
  obtain acc r where r: "computeSignersForProof exampleViem (exampleSignerInput acc) = Inr r"
    using example_proof by blast
  from signer_proof_safe [OF r] r show ?thesis by blast
qed

lemma signer_result_usable_witness:
  "\<exists>acc r. computeSigners exampleViem (exampleSignerInput acc) = Inr r \<and> 1 \<le> scTargetThreshold r"
proof -
  obtain acc r where "computeSignersForProof exampleViem (exampleSignerInput acc) = Inr r"
    using example_proof by blast
  then have r: "computeSigners exampleViem (exampleSignerInput acc) = Inr r"
    by (auto simp: computeSignersForProof_def)
  have "0 \<le> targetThresholdBps (siSelection (exampleSignerInput acc))"
    by (simp add: exampleSignerInput_def examplePolicy_def)
  from signer_result_usable [OF r this] r show ?thesis by blast
qed

end
