(* ===== verification/ContributionRecords.thy ===== *)
theory ContributionRecords
  imports WeightedCompute
begin

text \<open>
  \<open>lib/contributions/types.ts\<close>, \<open>kind.ts\<close>, \<open>records.ts\<close> and \<open>reconcile.ts\<close>: the record payloads and their
  structural decoders, and the reconciliation of the record log into the live claims, responses and
  valuations.
\<close>

section \<open>Types\<close>

record ContributionsParams =
  coDampingFp :: int
  coToleranceFp :: int
  coMaxIterations :: int
  coMinWeightFp :: int
  coMaxWeightFp :: int
  coTrustShareFp :: int
  coTrustDecayFp :: int
  coTrustedSeeds :: "hex list"
  coPrecisionScale :: int
  coWeightFieldIndex :: int
  coRoundStart :: int
  coRoundEnd :: int
  coUnacceptedMultFp :: int
  coCollaboratorMultFp :: int
  coMinRaterRepFp :: int
  coEvaluatorCarveoutBps :: int
  coTotalPool :: int
  coClaimSchemaUid :: hex
  coResponseSchemaUid :: hex
  coValuationSchemaUid :: hex

record ContributionsInput =
  inTrustEdges :: "RawEdge list"
  inRecords :: "RawEdge list"
  inParams :: ContributionsParams
  inBinding :: "Binding option"

section \<open>Kinds\<close>

definition SCHEMA_CLAIM :: int where
  "SCHEMA_CLAIM = 0"

definition SCHEMA_RESPONSE :: int where
  "SCHEMA_RESPONSE = 1"

definition SCHEMA_VALUATION :: int where
  "SCHEMA_VALUATION = 2"

definition KIND_CLAIM_ATTEST :: int where
  "KIND_CLAIM_ATTEST = 0"

definition KIND_RESPONSE_ATTEST :: int where
  "KIND_RESPONSE_ATTEST = 2"

definition KIND_VALUATION_ATTEST :: int where
  "KIND_VALUATION_ATTEST = 4"

definition kindTag :: "int \<Rightarrow> bool \<Rightarrow> int" where
  "kindTag schemaIndex isRevoke = schemaIndex * 2 + (if isRevoke then 1 else 0)"

definition schemaIndex :: "int \<Rightarrow> int" where
  "schemaIndex kind = kind div 2"

text \<open>\<open>kind % 2\<close> has the sign of \<open>kind\<close>.\<close>

definition isRevoke :: "int \<Rightarrow> bool" where
  "isRevoke kind \<longleftrightarrow> kind smod 2 = 1"

section \<open>Payloads\<close>

record ClaimPayload =
  clContentHash :: hex
  clContributors :: "hex list"
  clShares :: "int list"

record ResponsePayload =
  rsClaimUid :: hex
  rsResponse :: int

record ValuationPayload =
  vaClaimUid :: hex
  vaScore :: int

definition wordSlot :: "bytes \<Rightarrow> nat \<Rightarrow> bytes option" where
  "wordSlot dat slot =
     (let start = slot * 32; stop = start + 32 in
      if length dat < stop then None else Some (take 32 (drop start dat)))"

text \<open>A byte outside the array is \<open>undefined\<close>, which differs from zero.\<close>

definition zeroBytes :: "nat \<Rightarrow> bytes \<Rightarrow> bool" where
  "zeroBytes n w \<longleftrightarrow> list_all (\<lambda>i. byteAt w (int i) = Some 0) [0..<n]"

definition wordAsU8 :: "bytes \<Rightarrow> int option" where
  "wordAsU8 w = (if zeroBytes 31 w then map_option uint (byteAt w 31) else None)"

definition wordAsU32 :: "bytes \<Rightarrow> int option" where
  "wordAsU32 w =
     (if \<not> zeroBytes 28 w then None
      else case (byteAt w 28, byteAt w 29, byteAt w 30, byteAt w 31) of
          (Some a, Some b, Some c, Some d) \<Rightarrow> Some (uint a * 0x1000000 + uint b * 0x10000 + uint c * 0x100 + uint d)
        | _ \<Rightarrow> None)"

definition wordAsAddress :: "viem \<Rightarrow> bytes \<Rightarrow> hex option" where
  "wordAsAddress V w = (if zeroBytes 12 w then Some (bytesToHex V (drop 12 w)) else None)"

definition wordAsUsize :: "bytes \<Rightarrow> nat option" where
  "wordAsUsize w =
     (let v = foldl (\<lambda>v b. push_bit 8 v OR uint b) (0 :: int) w in
      if v > 0xffffffff then None else Some (nat v))"

definition checkDynamicBytes :: "bytes \<Rightarrow> nat \<Rightarrow> bool" where
  "checkDynamicBytes dat offset =
     (if offset mod 32 \<noteq> 0 then False
      else case Option.bind (wordSlot dat (offset div 32)) wordAsUsize of
          None \<Rightarrow> False
        | Some len \<Rightarrow> length dat \<ge> offset + 32 + len)"

text \<open>A loop over \<open>n\<close> consecutive slots that returns \<open>null\<close> from the enclosing function.\<close>

fun readSlots :: "(bytes \<Rightarrow> 'a option) \<Rightarrow> bytes \<Rightarrow> nat \<Rightarrow> nat \<Rightarrow> 'a list option" where
  "readSlots f dat slot 0 = Some []"
| "readSlots f dat slot (Suc n) =
     Option.bind (Option.bind (wordSlot dat slot) f) (\<lambda>x.
     Option.bind (readSlots f dat (Suc slot) n) (\<lambda>xs. Some (x # xs)))"

definition readUsize :: "bytes \<Rightarrow> nat \<Rightarrow> nat option" where
  "readUsize dat slot = Option.bind (wordSlot dat slot) wordAsUsize"

definition decodeClaim :: "viem \<Rightarrow> hex \<Rightarrow> ClaimPayload option" where
  "decodeClaim V dataHex =
     (let dat = hexToBytes V dataHex in
      Option.bind (readUsize dat 0) (\<lambda>titleOff.
      Option.bind (wordSlot dat 1) (\<lambda>w1.
      Option.bind (readUsize dat 2) (\<lambda>uriOff.
      Option.bind (readUsize dat 3) (\<lambda>contributorsOff.
      Option.bind (readUsize dat 4) (\<lambda>sharesOff.
      if \<not> checkDynamicBytes dat titleOff then None
      else if \<not> checkDynamicBytes dat uriOff then None
      else if contributorsOff mod 32 \<noteq> 0 \<or> sharesOff mod 32 \<noteq> 0 then None
      else Option.bind (readUsize dat (contributorsOff div 32)) (\<lambda>n.
      Option.bind (readUsize dat (sharesOff div 32)) (\<lambda>m.
      if n \<noteq> m \<or> n = 0 then None
      else Option.bind (readSlots (wordAsAddress V) dat (contributorsOff div 32 + 1) n) (\<lambda>contributors.
      Option.bind (readSlots wordAsU32 dat (sharesOff div 32 + 1) n) (\<lambda>shares.
      if list_all (\<lambda>s. s = 0) shares then None
      else Some \<lparr>clContentHash = bytesToHex V w1, clContributors = contributors, clShares = shares\<rparr>))))))))))"

definition decodeResponse :: "viem \<Rightarrow> hex \<Rightarrow> ResponsePayload option" where
  "decodeResponse V dataHex =
     (let dat = hexToBytes V dataHex in
      Option.bind (wordSlot dat 0) (\<lambda>w0.
      Option.bind (Option.bind (wordSlot dat 1) wordAsU8) (\<lambda>response.
      if response \<noteq> 1 \<and> response \<noteq> 2 then None
      else Some \<lparr>rsClaimUid = bytesToHex V w0, rsResponse = response\<rparr>)))"

definition decodeValuation :: "viem \<Rightarrow> hex \<Rightarrow> ValuationPayload option" where
  "decodeValuation V dataHex =
     (let dat = hexToBytes V dataHex in
      Option.bind (wordSlot dat 0) (\<lambda>w0.
      Option.bind (Option.bind (wordSlot dat 1) wordAsU8) (\<lambda>score.
      if score > 100 then None
      else Some \<lparr>vaClaimUid = bytesToHex V w0, vaScore = score\<rparr>)))"

section \<open>Reconciliation\<close>

record LiveClaim =
  lvUid :: hex
  lvAttester :: hex
  lvBlockTimestamp :: int
  lvShares :: "(hex, int) jmap"
  lvTotalShares :: int

record LiveState =
  stClaims :: "(hex, LiveClaim) jmap"
  stResponses :: "(string, int) jmap"
  stValuations :: "(string, int) jmap"

definition actorKey :: "hex \<Rightarrow> hex \<Rightarrow> string" where
  "actorKey claimUid actor = toLowerCase claimUid @ ''|'' @ toLowerCase actor"

text \<open>The first two parts of \<open>key.split('|')\<close>; every key of the program has a bar.\<close>

definition splitActorKey :: "string \<Rightarrow> hex \<times> hex" where
  "splitActorKey key =
     (takeWhile (\<lambda>c. c \<noteq> CHR ''|'') key,
      takeWhile (\<lambda>c. c \<noteq> CHR ''|'') (drop 1 (dropWhile (\<lambda>c. c \<noteq> CHR ''|'') key)))"

definition revokedUids :: "RawEdge list \<Rightarrow> hex list" where
  "revokedUids records = newSet (map (\<lambda>r. toLowerCase (eUid r)) (filter (\<lambda>r. isRevoke (eKind r)) records))"

definition liveRecords :: "RawEdge list \<Rightarrow> RawEdge list" where
  "liveRecords records =
     (let revoked = revokedUids records in
      map fst (sortBy cmpEvent
        (filter (\<lambda>(r, i). \<not> isRevoke (eKind r) \<and> toLowerCase (eUid r) \<notin> set revoked)
          (zip records [0..<length records]))))"

text \<open>
  The shares of a claim summed per contributor; a missing contributor or share ends the loop and drops
  the claim.
\<close>

definition addShare :: "(hex, int) jmap \<Rightarrow> hex \<times> int \<Rightarrow> (hex, int) jmap" where
  "addShare shares cs =
     (let a = toLowerCase (fst cs) in jset a (orDefault (jget shares a) 0 + snd cs) shares)"

definition sumShares :: "ClaimPayload \<Rightarrow> (hex, int) jmap option" where
  "sumShares payload =
     (if length (clShares payload) < length (clContributors payload) then None
      else Some (foldl addShare [] (zip (clContributors payload) (clShares payload))))"

definition claimStep ::
  "viem \<Rightarrow> ContributionsParams \<Rightarrow> (hex, LiveClaim) jmap \<Rightarrow> RawEdge \<Rightarrow> (hex, LiveClaim) jmap" where
  "claimStep V p claims r =
     (if eKind r \<noteq> KIND_CLAIM_ATTEST then claims
      else if eBlockTimestamp r < coRoundStart p \<or> eBlockTimestamp r > coRoundEnd p then claims
      else case decodeClaim V (eData r) of
          None \<Rightarrow> claims
        | Some payload \<Rightarrow>
            (case sumShares payload of
               None \<Rightarrow> claims
             | Some shares \<Rightarrow>
                 jset (toLowerCase (eUid r))
                   \<lparr>lvUid = toLowerCase (eUid r), lvAttester = toLowerCase (eAttester r),
                    lvBlockTimestamp = eBlockTimestamp r, lvShares = shares,
                    lvTotalShares = sum_list (jvalues shares)\<rparr> claims))"

definition responseStep ::
  "viem \<Rightarrow> (hex, LiveClaim) jmap \<Rightarrow> (string, int) jmap \<times> (string, int) jmap \<Rightarrow> RawEdge \<Rightarrow>
   (string, int) jmap \<times> (string, int) jmap" where
  "responseStep V claims st r =
     (case st of (responses, valuations) \<Rightarrow>
       if eKind r = KIND_RESPONSE_ATTEST then
         (case decodeResponse V (eData r) of
            None \<Rightarrow> st
          | Some payload \<Rightarrow>
              (case jget claims (toLowerCase (rsClaimUid payload)) of
                 None \<Rightarrow> st
               | Some claim \<Rightarrow>
                   if \<not> jhas (lvShares claim) (toLowerCase (eAttester r)) then st
                   else (jset (actorKey (rsClaimUid payload) (eAttester r)) (rsResponse payload) responses, valuations)))
       else if eKind r = KIND_VALUATION_ATTEST then
         (case decodeValuation V (eData r) of
            None \<Rightarrow> st
          | Some payload \<Rightarrow>
              if \<not> jhas claims (toLowerCase (vaClaimUid payload)) then st
              else (responses, jset (actorKey (vaClaimUid payload) (eAttester r)) (vaScore payload) valuations))
       else st)"

definition reconcile :: "viem \<Rightarrow> RawEdge list \<Rightarrow> ContributionsParams \<Rightarrow> LiveState" where
  "reconcile V records p =
     (let ordered = liveRecords records;
          claims = foldl (claimStep V p) [] ordered;
          actors = foldl (responseStep V claims) ([], []) ordered in
      \<lparr>stClaims = claims, stResponses = fst actors, stValuations = snd actors\<rparr>)"

definition consentMultFp :: "LiveState \<Rightarrow> LiveClaim \<Rightarrow> hex \<Rightarrow> ContributionsParams \<Rightarrow> int" where
  "consentMultFp state claim a p =
     (case jget (stResponses state) (actorKey (lvUid claim) a) of
        Some resp \<Rightarrow> if resp = 1 then coPrecisionScale p else 0
      | None \<Rightarrow> if toLowerCase a = lvAttester claim then coPrecisionScale p else coUnacceptedMultFp p)"

end
