(* ===== verification/Contributions.thy ===== *)
theory Contributions
  imports ContributionRecords
begin

text \<open>
  \<open>lib/contributions/params.ts\<close>, \<open>eligibility.ts\<close>, \<open>stage2.ts\<close>, \<open>compute.ts\<close> and \<open>projection.ts\<close>: the
  parameter commitment, the partition of the valuations, the budgeted scores, the carve-out and the
  pipeline to the journal.
\<close>

section \<open>Parameters\<close>

definition CONTRIBUTIONS_SCHEMA_VERSION :: int where
  "CONTRIBUTIONS_SCHEMA_VERSION = 3"

definition contributionsSeedSetRoot :: "viem \<Rightarrow> hex list \<Rightarrow> hex result" where
  "contributionsSeedSetRoot V seeds = seedSetRoot V (sortBy cmpHex seeds)"

definition contributionsParamsHash :: "viem \<Rightarrow> ContributionsParams \<Rightarrow> hex result" where
  "contributionsParamsHash V p =
     bindE (concatE V
       [wordU32 V CONTRIBUTIONS_SCHEMA_VERSION, wordU256 V (coDampingFp p), wordU256 V (coToleranceFp p),
        wordU32 V (coMaxIterations p), wordU256 V (coMinWeightFp p), wordU256 V (coMaxWeightFp p),
        wordU256 V (coTrustShareFp p), wordU256 V (coTrustDecayFp p),
        contributionsSeedSetRoot V (coTrustedSeeds p), wordU256 V (coPrecisionScale p),
        wordU32 V (coWeightFieldIndex p), wordU64 V (coRoundStart p), wordU64 V (coRoundEnd p),
        wordU256 V (coUnacceptedMultFp p), wordU256 V (coCollaboratorMultFp p), wordU256 V (coMinRaterRepFp p),
        wordU32 V (coEvaluatorCarveoutBps p), wordU256 V (coTotalPool p), Inr (coClaimSchemaUid p),
        Inr (coResponseSchemaUid p), Inr (coValuationSchemaUid p)])
       (\<lambda>x. Inr (keccak256 V x))"

section \<open>Eligibility\<close>

datatype SkipReason = SelfValuation | BelowMinRep

record EligibleValuation =
  evClaimUid :: hex
  evRater :: hex
  evScore :: int
  evDiscountFp :: int

record SkippedValuation =
  skClaimUid :: hex
  skRater :: hex
  skReason :: SkipReason

record Eligibility =
  elEligible :: "EligibleValuation list"
  elSkipped :: "SkippedValuation list"
  elParticipants :: "hex list"

definition addPeer :: "hex \<Rightarrow> (hex, hex list) jmap \<Rightarrow> hex \<Rightarrow> (hex, hex list) jmap" where
  "addPeer a coClaim b =
     (if a \<noteq> b then jset a (setAdd b (orDefault (jget coClaim a) [])) coClaim else coClaim)"

definition addPeers :: "(hex, hex list) jmap \<Rightarrow> LiveClaim \<Rightarrow> (hex, hex list) jmap" where
  "addPeers coClaim claim =
     foldl (\<lambda>m a. foldl (addPeer a) m (jkeys (lvShares claim))) coClaim (jkeys (lvShares claim))"

definition coClaims :: "LiveState \<Rightarrow> (hex, hex list) jmap" where
  "coClaims state = foldl addPeers [] (jvalues (stClaims state))"

definition cmpValuation :: "hex \<times> hex \<times> int \<Rightarrow> hex \<times> hex \<times> int \<Rightarrow> int" where
  "cmpValuation x y =
     (let c = cmpHex (fst x) (fst y) in if c \<noteq> 0 then c else cmpHex (fst (snd x)) (fst (snd y)))"

definition valuationEntries :: "LiveState \<Rightarrow> (hex \<times> hex \<times> int) list" where
  "valuationEntries state =
     sortBy cmpValuation
       (map (\<lambda>(key, score). (fst (splitActorKey key), snd (splitActorKey key), score)) (stValuations state))"

definition conflicted :: "(hex, hex list) jmap \<Rightarrow> hex \<Rightarrow> LiveClaim \<Rightarrow> bool" where
  "conflicted coClaim rater claim =
     (case jget coClaim rater of
        None \<Rightarrow> False
      | Some peers \<Rightarrow> list_ex (\<lambda>a. a \<in> set peers) (jkeys (lvShares claim)))"

definition eligibilityStep ::
  "LiveState \<Rightarrow> (hex, int) jmap \<Rightarrow> ContributionsParams \<Rightarrow> Eligibility \<Rightarrow> hex \<times> hex \<times> int \<Rightarrow> Eligibility result" where
  "eligibilityStep state rep p out entry =
     (case entry of (claimUid, rater, score) \<Rightarrow>
       bindE (need (jget (stClaims state) claimUid)) (\<lambda>claim.
       if jhas (lvShares claim) rater \<or> rater = lvAttester claim then
         Inr (out\<lparr>elSkipped := elSkipped out @
           [\<lparr>skClaimUid = claimUid, skRater = rater, skReason = SelfValuation\<rparr>]\<rparr>)
       else if orDefault (jget rep rater) 0 < coMinRaterRepFp p then
         Inr (out\<lparr>elSkipped := elSkipped out @
           [\<lparr>skClaimUid = claimUid, skRater = rater, skReason = BelowMinRep\<rparr>]\<rparr>)
       else
         let discountFp = (if conflicted (coClaims state) rater claim
               then coCollaboratorMultFp p else coPrecisionScale p) in
         Inr (out\<lparr>elParticipants := setAdd rater (elParticipants out),
           elEligible := elEligible out @
             [\<lparr>evClaimUid = claimUid, evRater = rater, evScore = score, evDiscountFp = discountFp\<rparr>]\<rparr>)))"

definition eligibility ::
  "LiveState \<Rightarrow> (hex, int) jmap \<Rightarrow> ContributionsParams \<Rightarrow> Eligibility result" where
  "eligibility state rep p =
     foldE (eligibilityStep state rep p) \<lparr>elEligible = [], elSkipped = [], elParticipants = []\<rparr>
       (valuationEntries state)"

section \<open>Stage two\<close>

record Stage2 =
  s2ClaimScores :: "(hex, int) jmap"
  s2ContributorWeights :: "(hex, int) jmap"
  s2CombinedWeights :: "(hex, int) jmap"

text \<open>\<open>m.set(k, (m.get(k) ?? 0n) + x)\<close>.\<close>

definition bump :: "(hex, int) jmap \<Rightarrow> hex \<Rightarrow> int \<Rightarrow> (hex, int) jmap" where
  "bump m k x = jset k (orDefault (jget m k) 0 + x) m"

definition raterBudgets :: "Eligibility \<Rightarrow> (hex, int) jmap" where
  "raterBudgets elig = foldl (\<lambda>m v. bump m (toLowerCase (evRater v)) (evScore v)) [] (elEligible elig)"

definition scoreStep ::
  "(hex, int) jmap \<Rightarrow> (hex, int) jmap \<Rightarrow> int \<Rightarrow> (hex, int) jmap \<Rightarrow> EligibleValuation \<Rightarrow> (hex, int) jmap result" where
  "scoreStep budgets rep s claimScores v =
     (let rater = toLowerCase (evRater v) in
      bindE (need (jget budgets rater)) (\<lambda>budget.
      if budget = 0 then Inr claimScores
      else let raterRep = orDefault (jget rep rater) 0 in
        bindE (mulDiv (evScore v) s budget) (\<lambda>sigma.
        bindE (fpMul raterRep sigma s) (\<lambda>x.
        bindE (fpMul x (evDiscountFp v) s) (\<lambda>contribution.
        Inr (bump claimScores (toLowerCase (evClaimUid v)) contribution))))))"

definition claimScoresOf ::
  "(hex, int) jmap \<Rightarrow> Eligibility \<Rightarrow> int \<Rightarrow> (hex, int) jmap result" where
  "claimScoresOf rep elig s = foldE (scoreStep (raterBudgets elig) rep s) [] (elEligible elig)"

definition weightStep ::
  "LiveState \<Rightarrow> ContributionsParams \<Rightarrow> LiveClaim \<Rightarrow> int \<Rightarrow> (hex, int) jmap \<Rightarrow> hex \<Rightarrow> (hex, int) jmap result" where
  "weightStep state p claim score weights a =
     bindE (need (jget (lvShares claim) a)) (\<lambda>share.
     bindE (mulDiv share (coPrecisionScale p) (lvTotalShares claim)) (\<lambda>attrib.
     bindE (fpMul score attrib (coPrecisionScale p)) (\<lambda>x.
     bindE (fpMul x (consentMultFp state claim a p) (coPrecisionScale p)) (\<lambda>w.
     Inr (if w \<noteq> 0 then bump weights a w else weights)))))"

definition claimWeights ::
  "LiveState \<Rightarrow> ContributionsParams \<Rightarrow> (hex, int) jmap \<Rightarrow> (hex, int) jmap \<Rightarrow> hex \<Rightarrow> (hex, int) jmap result" where
  "claimWeights state p claimScores weights uid =
     bindE (need (jget claimScores uid)) (\<lambda>score.
     if score = 0 then Inr weights
     else bindE (need (jget (stClaims state) uid)) (\<lambda>claim.
       foldE (weightStep state p claim score) weights (sortBy cmpLin (jkeys (lvShares claim)))))"

definition contributorWeightsOf ::
  "LiveState \<Rightarrow> ContributionsParams \<Rightarrow> (hex, int) jmap \<Rightarrow> (hex, int) jmap result" where
  "contributorWeightsOf state p claimScores =
     foldE (claimWeights state p claimScores) [] (sortBy cmpLin (jkeys claimScores))"

definition shareOut :: "int \<Rightarrow> int \<Rightarrow> (hex, int) jmap \<Rightarrow> hex \<times> int \<Rightarrow> (hex, int) jmap result" where
  "shareOut part tot combined kw =
     bindE (mulDiv (snd kw) part tot) (\<lambda>share.
     Inr (if share \<noteq> 0 then bump combined (fst kw) share else combined))"

definition combineWeights ::
  "int \<Rightarrow> int \<Rightarrow> (hex, int) jmap \<Rightarrow> (hex, int) jmap \<Rightarrow> (hex, int) jmap result" where
  "combineWeights s betaFp contributorWeights participantRep =
     (let totalP = sum_list (jvalues contributorWeights);
          totalRep = sum_list (jvalues participantRep) in
      bindE (if totalP \<noteq> 0 then foldE (shareOut (s - betaFp) totalP) [] contributorWeights else Inr []) (\<lambda>combined.
      if betaFp \<noteq> 0 \<and> totalRep \<noteq> 0 then foldE (shareOut betaFp totalRep) combined participantRep else Inr combined))"

definition participantReps :: "(hex, int) jmap \<Rightarrow> Eligibility \<Rightarrow> (hex, int) jmap" where
  "participantReps rep elig =
     newMap (map (\<lambda>r. (r, orDefault (jget rep r) 0)) (sortBy cmpLin (elParticipants elig)))"

definition stage2 ::
  "LiveState \<Rightarrow> (hex, int) jmap \<Rightarrow> Eligibility \<Rightarrow> ContributionsParams \<Rightarrow> Stage2 result" where
  "stage2 state rep elig p =
     (let s = coPrecisionScale p in
      bindE (claimScoresOf rep elig s) (\<lambda>claimScores.
      bindE (contributorWeightsOf state p claimScores) (\<lambda>contributorWeights.
      bindE (mulDiv s (coEvaluatorCarveoutBps p) 10000) (\<lambda>rawBetaFp.
      let betaFp = (if rawBetaFp > s then s else rawBetaFp) in
      bindE (combineWeights s betaFp contributorWeights (participantReps rep elig)) (\<lambda>combined.
      Inr \<lparr>s2ClaimScores = claimScores, s2ContributorWeights = contributorWeights,
           s2CombinedWeights = combined\<rparr>)))))"

section \<open>The computation\<close>

definition trustParams :: "ContributionsParams \<Rightarrow> Params" where
  "trustParams p = \<lparr>dampingFp = coDampingFp p, toleranceFp = coToleranceFp p, maxIterations = coMaxIterations p,
     minWeightFp = coMinWeightFp p, maxWeightFp = coMaxWeightFp p, trustShareFp = coTrustShareFp p,
     trustDecayFp = coTrustDecayFp p, trustedSeeds = coTrustedSeeds p, totalPool = coTotalPool p,
     precisionScale = coPrecisionScale p, schemaUid = ZERO_HASH, weightFieldIndex = coWeightFieldIndex p,
     envelope0DomainSeparators = Some [], lane2MaxHeadAge = Some 0, accumulator = ZERO_ADDRESS, chainId = 0\<rparr>"

definition reputation :: "viem \<Rightarrow> RawEdge list \<Rightarrow> ContributionsParams \<Rightarrow> (hex, int) jmap result" where
  "reputation V trustEdges p =
     bindE (buildGraph V trustEdges (trustParams p)) (\<lambda>g. calculate g (trustParams p))"

record ContributionsResult =
  coJournal :: Journal
  coScores :: "(hex \<times> int) list"
  coBlob :: string
  coCid :: string
  coReputation :: "(hex, int) jmap"
  coClaimScores :: "(hex, int) jmap"
  coEligibility :: Eligibility
  coStage2 :: Stage2
  coLiveState :: LiveState

definition computeContributions :: "viem \<Rightarrow> ContributionsInput \<Rightarrow> ContributionsResult result" where
  "computeContributions V input =
     (let p = inParams input in
      bindE (accumulate V (inTrustEdges input)) (\<lambda>(acc, leafCount).
      bindE (accumulate V (inRecords input)) (\<lambda>(anchorAcc, anchorCount).
      bindE (contributionsParamsHash V p) (\<lambda>pHash.
      bindE (reputation V (inTrustEdges input) p) (\<lambda>rep.
      let state = reconcile V (inRecords input) p in
      bindE (eligibility state rep p) (\<lambda>elig.
      bindE (stage2 state rep elig p) (\<lambda>st2.
      let weights = sortBy (\<lambda>a b. cmpHex (fst a) (fst b)) (filter (\<lambda>(a, v). v \<noteq> 0) (s2CombinedWeights st2)) in
      bindE (distributePoints weights (trustParams p)) (\<lambda>(assigned0, totalValue).
      let assigned = sortBy (\<lambda>a b. cmpHex (fst a) (fst b)) assigned0 in
      bindE (mapE (\<lambda>(a, v). outputLeaf V a v) assigned) (\<lambda>leaves.
      bindE (merkleRoot V leaves) (\<lambda>outputRoot.
      let blob = canonicalBlob assigned; digest = sha256Utf8 V blob in
      bindE (cidV1Raw digest) (\<lambda>cid.
      let journal = \<lparr>jAcc = acc, jLeafCount = leafCount, jAnchorAcc = anchorAcc, jAnchorCount = anchorCount,
            jParamsHash = pHash, jOutputRoot = outputRoot, jIpfsHash = digestToHex V digest,
            jCidDigest = keccak256Bytes V (stringToBytes V cid), jTotalValue = totalValue,
            jSkippedDigest = ZERO_HASH,
            jRecipient = (case inBinding input of Some b \<Rightarrow> bRecipient b | None \<Rightarrow> ZERO_ADDRESS),
            jInstanceDomain = (case inBinding input of Some b \<Rightarrow> bInstanceDomain b | None \<Rightarrow> ZERO_HASH)\<rparr> in
      Inr \<lparr>coJournal = journal, coScores = assigned, coBlob = blob, coCid = cid, coReputation = rep,
           coClaimScores = s2ClaimScores st2, coEligibility = elig, coStage2 = st2, coLiveState = state\<rparr>)))))))))))"

section \<open>The displayed pool\<close>

record ContributionProjection =
  pjClaimUid :: string
  pjScoreFp :: int
  pjShareBps :: int
  pjPayout :: int

definition cmpProjected :: "string \<times> int \<Rightarrow> string \<times> int \<Rightarrow> int" where
  "cmpProjected a b =
     (if snd a = snd b then (if fst a < fst b then -1 else if fst a > fst b then 1 else 0)
      else if snd a > snd b then -1 else 1)"

definition projectEntries :: "(string \<times> int) list \<Rightarrow> (string \<times> int) list" where
  "projectEntries scores =
     sortBy cmpProjected (filter (\<lambda>e. snd e > 0) (map (\<lambda>(uid, score). (toLowerCase uid, score)) scores))"

text \<open>The map over the entries; the last entry takes what is left of the pool and of the basis points.\<close>

fun projectRows ::
  "int \<Rightarrow> int \<Rightarrow> int \<Rightarrow> int \<Rightarrow> (string \<times> int) list \<Rightarrow> ContributionProjection list result" where
  "projectRows pool totalScore payoutRemaining bpsRemaining [] = Inr []"
| "projectRows pool totalScore payoutRemaining bpsRemaining [e] =
     Inr [\<lparr>pjClaimUid = fst e, pjScoreFp = snd e, pjShareBps = bpsRemaining, pjPayout = payoutRemaining\<rparr>]"
| "projectRows pool totalScore payoutRemaining bpsRemaining (e # es) =
     bindE (bigDiv (pool * snd e) totalScore) (\<lambda>payout.
     bindE (bigDiv (10000 * snd e) totalScore) (\<lambda>shareBps.
     bindE (projectRows pool totalScore (payoutRemaining - payout) (bpsRemaining - shareBps) es) (\<lambda>rows.
     Inr (\<lparr>pjClaimUid = fst e, pjScoreFp = snd e, pjShareBps = shareBps, pjPayout = payout\<rparr> # rows))))"

text \<open>The scores and the pool are integers here; the conversion of decimal strings is \<open>BigInt\<close>'s.\<close>

definition projectContributionPool ::
  "(string \<times> int) list \<Rightarrow> int \<Rightarrow> ContributionProjection list result" where
  "projectContributionPool scores pool =
     (let entries = projectEntries scores; totalScore = sumOf snd entries in
      if totalScore = 0 then Inr []
      else projectRows pool totalScore pool 10000 entries)"

end
