(* ===== verification/ContributionPayloads.thy ===== *)
theory ContributionPayloads
  imports Contributions
begin

text \<open>
  Maps of non-negative amounts, and what the record decoders guarantee of the payloads they accept.
\<close>

section \<open>Tallies\<close>

text \<open>A map of non-negative amounts under keys of \<open>A\<close>.\<close>

definition tally :: "hex set \<Rightarrow> (hex, int) jmap \<Rightarrow> bool" where
  "tally A m \<longleftrightarrow> jmapInv m \<and> set (jkeys m) \<subseteq> A \<and> (\<forall>e \<in> set m. 0 \<le> snd e)"

lemma tally_Nil [simp]: "tally A []"
  by (simp add: tally_def)

lemma tally_amount: "tally A m \<Longrightarrow> 0 \<le> amountOf m k"
  by (cases "jget m k") (auto simp: tally_def amountOf_def orDefault_def dest!: map_of_SomeD)

lemma tally_addTo:
  assumes "tally A m" and "fst kv \<in> A" and "0 \<le> snd kv"
  shows "tally A (addTo m kv)"
proof -
  have "0 \<le> orDefault (jget m (fst kv)) 0" using tally_amount [OF assms(1)] by (simp add: amountOf_def)
  then show ?thesis using assms by (auto simp: tally_def addTo_def jset_entries)
qed

lemma tally_addAll:
  assumes "tally A m" and "\<forall>kv \<in> set kvs. fst kv \<in> A \<and> 0 \<le> snd kv"
  shows "tally A (foldl addTo m kvs)" and "sumOf snd (foldl addTo m kvs) = sumOf snd m + sumOf snd kvs"
    and "amountOf (foldl addTo m kvs) k = amountOf m k + sumOf snd (filter (\<lambda>kv. fst kv = k) kvs)"
proof -
  have "tally A (foldl addTo m kvs) \<and> sumOf snd (foldl addTo m kvs) = sumOf snd m + sumOf snd kvs \<and>
    amountOf (foldl addTo m kvs) k = amountOf m k + sumOf snd (filter (\<lambda>kv. fst kv = k) kvs)"
    using assms
  proof (induction kvs arbitrary: m)
    case (Cons kv kvs)
    have "tally A (addTo m kv)" by (rule tally_addTo) (use Cons.prems in auto)
    with Cons show ?case by (simp add: amountOf_addTo sum_addTo_any)
  qed simp
  then show "tally A (foldl addTo m kvs)" and "sumOf snd (foldl addTo m kvs) = sumOf snd m + sumOf snd kvs"
    and "amountOf (foldl addTo m kvs) k = amountOf m k + sumOf snd (filter (\<lambda>kv. fst kv = k) kvs)" by blast+
qed

lemma tally_le_sum: "tally A m \<Longrightarrow> amountOf m k \<le> sumOf snd m"
proof (cases "jget m k")
  case None
  then show "tally A m \<Longrightarrow> ?thesis" by (auto simp: amountOf_def orDefault_def tally_def intro: sumOf_nonneg)
next
  case (Some x)
  then show "tally A m \<Longrightarrow> ?thesis" using jget_le_sum(2) [of m k x] by (simp add: amountOf_def orDefault_def tally_def)
qed

lemma addTo_has: "k \<in> set (jkeys (foldl addTo m kvs)) \<longleftrightarrow> k \<in> set (jkeys m) \<or> k \<in> fst ` set kvs"
proof (induction kvs arbitrary: m)
  case (Cons kv kvs)
  have "k \<in> set (jkeys (addTo m kv)) \<longleftrightarrow> k = fst kv \<or> k \<in> set (jkeys m)"
    unfolding addTo_def keys_update by auto
  with Cons show ?case by auto
qed simp

lemma bump_addTo: "bump m k x = addTo m (k, x)"
  by (simp add: bump_def addTo_def)

section \<open>Payloads\<close>

lemma wordSlot_Some: "wordSlot dat n = Some w \<longleftrightarrow> 32 * n + 32 \<le> length dat \<and> w = take 32 (drop (32 * n) dat)"
  by (auto simp: wordSlot_def Let_def mult.commute)

lemma wordAsU32_bounds: "wordAsU32 w = Some x \<Longrightarrow> 0 \<le> x \<and> x < 2 ^ 32"
proof -
  assume "wordAsU32 w = Some x"
  then obtain a b c d :: "8 word" where x: "x = uint a * 0x1000000 + uint b * 0x10000 + uint c * 0x100 + uint d"
    by (auto simp: wordAsU32_def split: if_splits option.splits)
  have "0 \<le> uint y \<and> uint y < 256" for y :: "8 word" using uint_ge_0 [of y] uint_lt2p [of y] by simp
  from this [of a] this [of b] this [of c] this [of d] show ?thesis unfolding x by simp
qed

lemma wordAsAddress_facts:
  assumes "bytesLaw V" and "wordAsAddress V w = Some a" and "length w = 32"
  shows "canonical a \<and> length a = 42"
proof -
  have a: "a = bytesToHex V (drop 12 w)" using assms(2) by (auto simp: wordAsAddress_def split: if_splits)
  have "length (drop 2 a) = 40" using bytes_digits(1) [OF assms(1), of "drop 12 w"] assms(3) by (simp add: a)
  moreover have "2 \<le> length a" using assms(1) by (simp add: a bytesLaw_def)
  ultimately show ?thesis using canonical_bytesToHex [OF assms(1)] a by simp
qed

lemma readSlots_facts:
  "readSlots f dat slot n = Some xs \<Longrightarrow> length xs = n \<and>
   (\<forall>x \<in> set xs. \<exists>w. length w = 32 \<and> f w = Some x)"
proof (induction n arbitrary: slot xs)
  case (Suc n)
  from Suc.prems obtain w x ys where w: "wordSlot dat slot = Some w" "f w = Some x"
    and ys: "readSlots f dat (Suc slot) n = Some ys" "xs = x # ys"
    by (auto simp: Option.bind_eq_Some_conv)
  have "length w = 32" using w(1) by (auto simp: wordSlot_Some)
  with Suc.IH [OF ys(1)] w(2) ys(2) show ?case by auto
qed simp

lemma decodeClaim_facts:
  assumes "decodeClaim V h = Some c"
  shows "length (clContributors c) = length (clShares c)" and "clContributors c \<noteq> []"
    and "\<forall>s \<in> set (clShares c). 0 \<le> s \<and> s < 2 ^ 32" and "0 < sum_list (clShares c)"
    and "bytesLaw V \<Longrightarrow> \<forall>a \<in> set (clContributors c). canonical a \<and> length a = 42"
proof -
  from assms obtain dat n cs ss s1 s2 where n: "n \<noteq> 0" and c: "readSlots (wordAsAddress V) dat s1 n = Some cs"
    and s: "readSlots wordAsU32 dat s2 n = Some ss" "\<not> list_all (\<lambda>s. s = 0) ss"
    and r: "clContributors c = cs" "clShares c = ss"
    by (auto simp: decodeClaim_def Let_def Option.bind_eq_Some_conv split: if_splits)
  note cf = readSlots_facts [OF c] and sf = readSlots_facts [OF s(1)]
  show "length (clContributors c) = length (clShares c)" "clContributors c \<noteq> []" using cf sf n r by auto
  show nn: "\<forall>s \<in> set (clShares c). 0 \<le> s \<and> s < 2 ^ 32" using sf wordAsU32_bounds r by blast
  from s(2) obtain x where "x \<in> set ss" "x \<noteq> 0" by (auto simp: list_all_iff)
  then have "0 < x" "x \<le> sumOf id ss" using nn r sumOf_member [of ss id x] by fastforce+
  then show "0 < sum_list (clShares c)" using r by simp
  show "bytesLaw V \<Longrightarrow> \<forall>a \<in> set (clContributors c). canonical a \<and> length a = 42"
    using cf wordAsAddress_facts r by blast
qed

lemma wordAsU8_bounds: "wordAsU8 w = Some x \<Longrightarrow> 0 \<le> x \<and> x < 256"
proof -
  assume "wordAsU8 w = Some x"
  then obtain b :: "8 word" where "x = uint b" by (auto simp: wordAsU8_def split: if_splits)
  then show ?thesis using uint_ge_0 [of b] uint_lt2p [of b] by simp
qed

lemma decodeResponse_facts: "decodeResponse V h = Some r \<Longrightarrow> rsResponse r \<in> {1, 2}"
  by (auto simp: decodeResponse_def Let_def Option.bind_eq_Some_conv split: if_splits)

lemma decodeValuation_facts: "decodeValuation V h = Some r \<Longrightarrow> 0 \<le> vaScore r \<and> vaScore r \<le> 100"
  by (auto simp: decodeValuation_def Let_def Option.bind_eq_Some_conv dest: wordAsU8_bounds split: if_splits)

lemma noBar_bytesToHex: "bytesLaw V \<Longrightarrow> CHR ''|'' \<notin> set (bytesToHex V bs)"
proof -
  assume "bytesLaw V"
  then have h: "bytesToHex V bs = ''0x'' @ concat (map (\<lambda>b. hexDigits 2 (unat b)) bs)" by (simp add: bytesLaw_def)
  have "hexValue (CHR ''|'') = None" by code_simp
  then have "CHR ''|'' \<notin> set (hexDigits 2 n)" for n using hexDigits_lower by fastforce
  then show ?thesis unfolding h by simp
qed

lemma decode_uids:
  assumes "bytesLaw V"
  shows "decodeResponse V h = Some r \<Longrightarrow> canonical (rsClaimUid r) \<and> CHR ''|'' \<notin> set (rsClaimUid r)"
    and "decodeValuation V h = Some v \<Longrightarrow> canonical (vaClaimUid v) \<and> CHR ''|'' \<notin> set (vaClaimUid v)"
  using canonical_bytesToHex [OF assms] noBar_bytesToHex [OF assms]
  by (auto simp: decodeResponse_def decodeValuation_def Let_def Option.bind_eq_Some_conv split: if_splits)

end
