(* ===== verification/ContributionState.thy ===== *)
theory ContributionState
  imports ContributionPayloads
begin

text \<open>
  Reconciliation of the record log: the live records, the live sets as last writes, and the invariant of
  the live state.
  The eligibility filter as the partition of the valuations by a verdict on each.
\<close>

section \<open>The live records\<close>

lemma set_revokedUids: "u \<in> set (revokedUids records) \<longleftrightarrow> (\<exists>q \<in> set records. isRevoke (eKind q) \<and> toLowerCase (eUid q) = u)"
  by (auto simp: revokedUids_def)

lemma liveRecords_filter: "liveRecords records =
  filter (\<lambda>r. \<not> isRevoke (eKind r) \<and> toLowerCase (eUid r) \<notin> set (revokedUids records)) (orderedEvents records)"
proof -
  let ?z = "zip records [0..<length records]"
  let ?P = "\<lambda>r. \<not> isRevoke (eKind r) \<and> toLowerCase (eUid r) \<notin> set (revokedUids records)"
  have z: "sorted_wrt (<) (map snd ?z)" by simp
  then have f: "sorted_wrt (<) (map snd (filter (\<lambda>x. ?P (fst x)) ?z))" by (rule sorted_wrt_map_filter)
  have "liveRecords records = map fst (sortBy cmpEvent (filter (\<lambda>x. ?P (fst x)) ?z))"
    by (simp add: liveRecords_def case_prod_unfold Let_def)
  also have "\<dots> = map fst (filter (\<lambda>x. ?P (fst x)) (sortBy cmpEvent ?z))"
    unfolding sortBy_cmpEvent [OF f] sortBy_cmpEvent [OF z] by (simp add: filter_sort)
  also have "\<dots> = filter ?P (orderedEvents records)" by (simp add: orderedEvents_def filter_map comp_def)
  finally show ?thesis .
qed

lemma liveRecords_iff: "r \<in> set (liveRecords records) \<longleftrightarrow> r \<in> set records \<and> \<not> isRevoke (eKind r) \<and>
  \<not> (\<exists>q \<in> set records. isRevoke (eKind q) \<and> toLowerCase (eUid q) = toLowerCase (eUid r))"
proof -
  have "set (orderedEvents records) = set records" by (metis mset_orderedEvents set_mset_mset)
  then show ?thesis unfolding liveRecords_filter by (simp add: set_revokedUids)
qed

lemma liveRecords_sorted: "sorted (map eBlockTimestamp (liveRecords records))"
  unfolding liveRecords_filter using orderedEvents_sorted by (rule sorted_filter)

section \<open>The sets as last writes\<close>

definition claimEvent :: "viem \<Rightarrow> ContributionsParams \<Rightarrow> RawEdge \<Rightarrow> (hex \<times> LiveClaim) option" where
  "claimEvent V p r =
     (if eKind r = KIND_CLAIM_ATTEST \<and> coRoundStart p \<le> eBlockTimestamp r \<and> eBlockTimestamp r \<le> coRoundEnd p
      then map_option (\<lambda>c.
          let shares = foldl addShare [] (zip (clContributors c) (clShares c)) in
          (toLowerCase (eUid r),
           \<lparr>lvUid = toLowerCase (eUid r), lvAttester = toLowerCase (eAttester r),
            lvBlockTimestamp = eBlockTimestamp r, lvShares = shares, lvTotalShares = sum_list (jvalues shares)\<rparr>))
        (decodeClaim V (eData r))
      else None)"

definition responseEvent :: "viem \<Rightarrow> (hex, LiveClaim) jmap \<Rightarrow> RawEdge \<Rightarrow> (string \<times> int) option" where
  "responseEvent V claims r =
     (if eKind r = KIND_RESPONSE_ATTEST
      then Option.bind (decodeResponse V (eData r)) (\<lambda>d.
        Option.bind (jget claims (toLowerCase (rsClaimUid d))) (\<lambda>c.
        if jhas (lvShares c) (toLowerCase (eAttester r))
        then Some (actorKey (rsClaimUid d) (eAttester r), rsResponse d) else None))
      else None)"

definition valuationEvent :: "viem \<Rightarrow> (hex, LiveClaim) jmap \<Rightarrow> RawEdge \<Rightarrow> (string \<times> int) option" where
  "valuationEvent V claims r =
     (if eKind r = KIND_VALUATION_ATTEST
      then Option.bind (decodeValuation V (eData r)) (\<lambda>d.
        if jhas claims (toLowerCase (vaClaimUid d))
        then Some (actorKey (vaClaimUid d) (eAttester r), vaScore d) else None)
      else None)"

text \<open>The value the last event of a key writes.\<close>

definition lastWrite :: "('a \<Rightarrow> ('k \<times> 'v) option) \<Rightarrow> 'a list \<Rightarrow> 'k \<Rightarrow> 'v option" where
  "lastWrite f xs k = map_of (rev (List.map_filter f xs)) k"

abbreviation writeAll :: "('k, 'v) jmap \<Rightarrow> ('k \<times> 'v) list \<Rightarrow> ('k, 'v) jmap" where
  "writeAll m es \<equiv> foldl (\<lambda>m (k, v). jset k v m) m es"

lemma claims_writes: "foldl (claimStep V p) m rs = writeAll m (List.map_filter (claimEvent V p) rs)"
proof (induction rs arbitrary: m)
  case (Cons r rs)
  have "claimStep V p m r = (case claimEvent V p r of None \<Rightarrow> m | Some (k, v) \<Rightarrow> jset k v m)"
    using decodeClaim_facts(1) [of V "eData r"]
    by (auto simp: claimStep_def claimEvent_def sumShares_def Let_def split: option.splits)
  then show ?case using Cons by (auto simp: map_filter_simps split: option.splits)
qed (simp add: map_filter_simps)

lemma actors_writes: "foldl (responseStep V claims) (m, n) rs =
  (writeAll m (List.map_filter (responseEvent V claims) rs), writeAll n (List.map_filter (valuationEvent V claims) rs))"
proof (induction rs arbitrary: m n)
  case (Cons r rs)
  have "responseStep V claims (m, n) r =
    (case responseEvent V claims r of None \<Rightarrow> m | Some (k, v) \<Rightarrow> jset k v m,
     case valuationEvent V claims r of None \<Rightarrow> n | Some (k, v) \<Rightarrow> jset k v n)"
    by (auto simp: responseStep_def responseEvent_def valuationEvent_def KIND_RESPONSE_ATTEST_def
        KIND_VALUATION_ATTEST_def split: option.splits)
  then show ?case using Cons by (auto simp: map_filter_simps split: option.splits)
qed (simp add: map_filter_simps)

lemma reconcile_writes:
  "stClaims (reconcile V records p) = newMap (List.map_filter (claimEvent V p) (liveRecords records))"
  "stResponses (reconcile V records p) =
     newMap (List.map_filter (responseEvent V (stClaims (reconcile V records p))) (liveRecords records))"
  "stValuations (reconcile V records p) =
     newMap (List.map_filter (valuationEvent V (stClaims (reconcile V records p))) (liveRecords records))"
  by (simp_all add: reconcile_def Let_def claims_writes actors_writes newMap_def)

lemma newMap_last: "jget (newMap (List.map_filter f xs)) k = lastWrite f xs k"
  by (simp add: jget_newMap lastWrite_def)

section \<open>The invariant of the live state\<close>

definition claimOk :: "ContributionsParams \<Rightarrow> hex \<Rightarrow> LiveClaim \<Rightarrow> bool" where
  "claimOk p uid c \<longleftrightarrow> lvUid c = uid \<and> canonical uid \<and> canonical (lvAttester c) \<and>
     tally {k. canonical k \<and> length k = 42} (lvShares c) \<and> lvTotalShares c = sumOf snd (lvShares c) \<and>
     0 < lvTotalShares c \<and> coRoundStart p \<le> lvBlockTimestamp c \<and> lvBlockTimestamp c \<le> coRoundEnd p"

definition liveOk :: "ContributionsParams \<Rightarrow> nat \<Rightarrow> LiveState \<Rightarrow> bool" where
  "liveOk p n state \<longleftrightarrow> jmapInv (stClaims state) \<and> (\<forall>(uid, c) \<in> set (stClaims state). claimOk p uid c) \<and>
     jmapInv (stResponses state) \<and> (\<forall>e \<in> set (stResponses state). snd e \<in> {1, 2}) \<and>
     jmapInv (stValuations state) \<and>
     (\<forall>(key, score) \<in> set (stValuations state). 0 \<le> score \<and> score \<le> 100 \<and>
        jhas (stClaims state) (fst (splitActorKey key)) \<and> canonical (snd (splitActorKey key)) \<and>
        length (snd (splitActorKey key)) \<le> n)"

lemma newMap_entries: "e \<in> set (newMap es) \<Longrightarrow> e \<in> set es"
proof -
  assume e: "e \<in> set (newMap es)"
  have "distinct (jkeys (newMap es))" using jmapInv_newMap by (simp only: jmapInv_def)
  with e have "jget (newMap es) (fst e) = Some (snd e)" by simp
  then have "(fst e, snd e) \<in> set (rev es)" unfolding jget_newMap by (rule map_of_SomeD)
  then show ?thesis by simp
qed

lemma in_map_filter: "y \<in> set (List.map_filter f xs) \<longleftrightarrow> (\<exists>x \<in> set xs. f x = Some y)"
  by (induction xs) (auto simp: map_filter_simps split: option.splits)

lemma addShare_addTo: "addShare m cs = addTo m (toLowerCase (fst cs), snd cs)"
  by (simp add: addShare_def addTo_def Let_def)

lemma foldl_addShare: "foldl addShare m cs = foldl addTo m (map (\<lambda>c. (toLowerCase (fst c), snd c)) cs)"
  by (induction cs arbitrary: m) (simp_all add: addShare_addTo)

lemma sum_zip: "length xs = length ys \<Longrightarrow> sumOf snd (zip xs ys) = sum_list ys"
  by simp

lemma claimEvent_ok:
  assumes V: "bytesLaw V" and ev: "claimEvent V p r = Some (uid, c)"
  shows "claimOk p uid c"
proof -
  let ?A = "{k. canonical k \<and> length k = (42::nat)}"
  from ev obtain d where d: "decodeClaim V (eData r) = Some d" and t: "coRoundStart p \<le> eBlockTimestamp r"
    "eBlockTimestamp r \<le> coRoundEnd p" and uid: "uid = toLowerCase (eUid r)" "lvUid c = uid"
    "lvAttester c = toLowerCase (eAttester r)" "lvBlockTimestamp c = eBlockTimestamp r"
    and sh: "lvShares c = foldl addShare [] (zip (clContributors d) (clShares d))"
    "lvTotalShares c = sumOf snd (lvShares c)"
    by (auto simp: claimEvent_def Let_def split: if_splits)
  note df = decodeClaim_facts [OF d]
  let ?kvs = "map (\<lambda>c. (toLowerCase (fst c), snd c)) (zip (clContributors d) (clShares d))"
  have shares: "lvShares c = foldl addTo [] ?kvs" by (simp add: sh(1) foldl_addShare)
  have all: "\<forall>kv \<in> set ?kvs. fst kv \<in> ?A \<and> 0 \<le> snd kv"
    using df(3) df(5) [OF V] by (fastforce dest: set_zip_leftD set_zip_rightD)
  note ta = tally_addAll [OF tally_Nil all]
  have "sumOf snd ?kvs = sum_list (clShares d)" using df(1) by (simp add: comp_def)
  then have "0 < sumOf snd (lvShares c)" using ta(2) df(4) by (simp add: shares)
  then show ?thesis using ta(1) t uid sh(2) by (simp add: claimOk_def shares)
qed

lemma splitActorKey_key:
  assumes "canonical c" and "CHR ''|'' \<notin> set c"
  shows "splitActorKey (actorKey c a) = (c, takeWhile (\<lambda>x. x \<noteq> CHR ''|'') (toLowerCase a))"
proof -
  have c: "toLowerCase c = c" using assms(1) by (rule canonicalD)
  have all: "\<forall>x \<in> set c. x \<noteq> CHR ''|''" using assms(2) by auto
  then have "takeWhile (\<lambda>x. x \<noteq> CHR ''|'') (c @ ''|'' @ s) = c" "dropWhile (\<lambda>x. x \<noteq> CHR ''|'') (c @ ''|'' @ s) = ''|'' @ s" for s
    by (simp_all add: takeWhile_append dropWhile_append)
  then show ?thesis unfolding splitActorKey_def actorKey_def c by simp
qed

lemma canonical_takeWhile: "canonical s \<Longrightarrow> canonical (takeWhile P s)"
proof -
  assume "canonical s"
  then have "map lowerChar s = s" by (simp add: canonical_def toLowerCase_def)
  then have "\<forall>c \<in> set s. lowerChar c = c" by (metis map_eq_conv map_idI map_ident)
  then have "map lowerChar (takeWhile P s) = takeWhile P s" by (intro map_idI) (auto dest: set_takeWhileD)
  then show ?thesis by (simp add: canonical_def toLowerCase_def)
qed

lemma reconcile_ok:
  assumes V: "bytesLaw V" and short: "\<forall>r \<in> set records. length (eAttester r) \<le> n"
  shows "liveOk p n (reconcile V records p)"
proof -
  let ?s = "reconcile V records p"
  note w = reconcile_writes [of V records p]
  have claims: "claimOk p uid c" if "(uid, c) \<in> set (stClaims ?s)" for uid c
    using newMap_entries [OF that [unfolded w(1)]] claimEvent_ok [OF V] by (auto simp: in_map_filter)
  have resp: "snd e \<in> {1, 2}" if "e \<in> set (stResponses ?s)" for e
    using newMap_entries [OF that [unfolded w(2)]]
    by (auto simp: in_map_filter responseEvent_def Option.bind_eq_Some_conv dest: decodeResponse_facts split: if_splits)
  have vals: "0 \<le> score \<and> score \<le> 100 \<and> jhas (stClaims ?s) (fst (splitActorKey key)) \<and>
      canonical (snd (splitActorKey key)) \<and> length (snd (splitActorKey key)) \<le> n"
    if m: "(key, score) \<in> set (stValuations ?s)" for key score
  proof -
    from newMap_entries [OF m [unfolded w(3)]] obtain r d where r: "r \<in> set (liveRecords records)"
      and d: "decodeValuation V (eData r) = Some d" "jhas (stClaims ?s) (toLowerCase (vaClaimUid d))"
      and k: "key = actorKey (vaClaimUid d) (eAttester r)" "score = vaScore d"
      by (auto simp: in_map_filter valuationEvent_def Option.bind_eq_Some_conv split: if_splits)
    have u: "canonical (vaClaimUid d)" "CHR ''|'' \<notin> set (vaClaimUid d)" using decode_uids(2) [OF V d(1)] by auto
    have "r \<in> set records" using r by (simp add: liveRecords_iff)
    then have "length (takeWhile (\<lambda>x. x \<noteq> CHR ''|'') (toLowerCase (eAttester r))) \<le> n"
      using short length_takeWhile_le [of "\<lambda>x. x \<noteq> CHR ''|''" "toLowerCase (eAttester r)"] by fastforce
    then show ?thesis
      using decodeValuation_facts [OF d(1)] d(2) k splitActorKey_key [OF u] canonicalD [OF u(1)]
      by (simp add: canonical_takeWhile)
  qed
  show ?thesis using claims resp vals jmapInv_newMap unfolding liveOk_def w(1,2) w(3) [of] by fastforce
qed

section \<open>The live sets by position in the log\<close>

text \<open>The position \<open>i\<close> has the property \<open>P\<close> and no later one has.\<close>

definition newestEvent :: "RawEdge list \<Rightarrow> (nat \<Rightarrow> bool) \<Rightarrow> nat \<Rightarrow> bool" where
  "newestEvent es P i \<longleftrightarrow> P i \<and> (\<forall>j. P j \<longrightarrow> \<not> laterEvent es i j)"

lemma lastWrite_snoc: "lastWrite f (xs @ [x]) k =
  (case f x of None \<Rightarrow> lastWrite f xs k | Some (k', v) \<Rightarrow> if k' = k then Some v else lastWrite f xs k)"
proof -
  have "List.map_filter f (xs @ [x]) = List.map_filter f xs @ (case f x of None \<Rightarrow> [] | Some y \<Rightarrow> [y])"
    by (induction xs) (auto simp: map_filter_simps split: option.splits)
  then show ?thesis by (auto simp: lastWrite_def split: option.splits)
qed

lemma lastWrite_positions:
  assumes "sorted_wrt (laterEvent es) ps"
  shows "lastWrite f (map ((!) es) ps) k = Some v \<longleftrightarrow>
    (\<exists>i. newestEvent es (\<lambda>i. i \<in> set ps \<and> (\<exists>v. f (es ! i) = Some (k, v))) i \<and> f (es ! i) = Some (k, v))"
  using assms
proof (induction ps rule: rev_induct)
  case (snoc q ps)
  have last: "\<forall>i \<in> set ps. laterEvent es i q" and srt: "sorted_wrt (laterEvent es) ps" using snoc.prems by (auto simp: sorted_wrt_append)
  let ?P = "\<lambda>S i. i \<in> S \<and> (\<exists>v. f (es ! i) = Some (k, v))"
  show ?case
  proof (cases "\<exists>v. f (es ! q) = Some (k, v)")
    case True
    have "newestEvent es (?P (set (ps @ [q]))) i \<longleftrightarrow> i = q" for i
      unfolding newestEvent_def using True last laterEvent_asym by (metis Un_iff empty_iff insert_iff laterEvent_irrefl list.set set_append)
    with True show ?thesis by (auto simp: lastWrite_snoc)
  next
    case False
    then have "?P (set (ps @ [q])) = ?P (set ps)" by auto
    moreover have "lastWrite f (map ((!) es) (ps @ [q])) k = lastWrite f (map ((!) es) ps) k"
      using False by (auto simp: lastWrite_snoc split: option.splits)
    ultimately show ?thesis using snoc.IH [OF srt] by (simp only:)
  qed
qed (simp add: lastWrite_def newestEvent_def map_filter_simps)

lemma lastWrite_None: "lastWrite f xs k = None \<longleftrightarrow> (\<forall>x \<in> set xs. \<forall>v. f x \<noteq> Some (k, v))"
proof (induction xs rule: rev_induct)
  case Nil
  show ?case by (simp add: lastWrite_def map_filter_simps)
next
  case (snoc x xs)
  then show ?case by (auto simp: lastWrite_snoc split: option.splits)
qed

text \<open>A record counts if it is no revocation and no revocation, of whatever kind and wherever in the log, names its identifier.\<close>

definition liveAt :: "RawEdge list \<Rightarrow> nat \<Rightarrow> bool" where
  "liveAt records i \<longleftrightarrow> i < length records \<and> \<not> isRevoke (eKind (records ! i)) \<and>
     (\<forall>q \<in> set records. isRevoke (eKind q) \<longrightarrow> toLowerCase (eUid q) \<noteq> toLowerCase (eUid (records ! i)))"

lemma liveRecords_positions:
  obtains ps where "liveRecords records = map ((!) records) ps" and "\<And>i. i \<in> set ps \<longleftrightarrow> liveAt records i"
    and "sorted_wrt (laterEvent records) ps"
proof -
  let ?P = "\<lambda>r. \<not> isRevoke (eKind r) \<and> toLowerCase (eUid r) \<notin> set (revokedUids records)"
  obtain ps where ps: "orderedEvents records = map ((!) records) ps" "set ps = {..<length records}" "sorted_wrt (laterEvent records) ps"
    by (rule orderedEvents_positions)
  let ?ps = "filter (\<lambda>i. ?P (records ! i)) ps"
  have "liveRecords records = map ((!) records) ?ps" unfolding liveRecords_filter ps(1) by (simp add: filter_map comp_def)
  moreover have "i \<in> set ?ps \<longleftrightarrow> liveAt records i" for i by (auto simp: ps(2) liveAt_def set_revokedUids)
  moreover have "sorted_wrt (laterEvent records) ?ps" using ps(3) by (rule sorted_wrt_filter)
  ultimately show thesis by (rule that)
qed

lemma live_lastWrite:
  "lastWrite f (liveRecords records) k = Some v \<longleftrightarrow>
    (\<exists>i. newestEvent records (\<lambda>i. liveAt records i \<and> (\<exists>v. f (records ! i) = Some (k, v))) i \<and> f (records ! i) = Some (k, v))"
  "lastWrite f (liveRecords records) k = None \<longleftrightarrow> (\<nexists>i. liveAt records i \<and> (\<exists>v. f (records ! i) = Some (k, v)))"
proof -
  obtain ps where ps: "liveRecords records = map ((!) records) ps" "\<And>i. i \<in> set ps \<longleftrightarrow> liveAt records i"
    "sorted_wrt (laterEvent records) ps" using liveRecords_positions [of records] by blast
  show "lastWrite f (liveRecords records) k = Some v \<longleftrightarrow>
    (\<exists>i. newestEvent records (\<lambda>i. liveAt records i \<and> (\<exists>v. f (records ! i) = Some (k, v))) i \<and> f (records ! i) = Some (k, v))"
    unfolding ps(1) lastWrite_positions [OF ps(3)] ps(2) ..
  show "lastWrite f (liveRecords records) k = None \<longleftrightarrow> (\<nexists>i. liveAt records i \<and> (\<exists>v. f (records ! i) = Some (k, v)))"
    unfolding ps(1) lastWrite_None using ps(2) by auto
qed

section \<open>The records of a claim\<close>

text \<open>The record at \<open>i\<close> is a live claim of the window with a well-formed payload.\<close>

definition claimAt :: "viem \<Rightarrow> ContributionsParams \<Rightarrow> RawEdge list \<Rightarrow> hex \<Rightarrow> nat \<Rightarrow> bool" where
  "claimAt V p records uid i \<longleftrightarrow> liveAt records i \<and> eKind (records ! i) = KIND_CLAIM_ATTEST \<and>
     coRoundStart p \<le> eBlockTimestamp (records ! i) \<and> eBlockTimestamp (records ! i) \<le> coRoundEnd p \<and>
     decodeClaim V (eData (records ! i)) \<noteq> None \<and> toLowerCase (eUid (records ! i)) = uid"

text \<open>The live claim \<open>c\<close> is what the record says: each contributor has the sum of the shares listed for it.\<close>

definition claimReads :: "viem \<Rightarrow> RawEdge \<Rightarrow> LiveClaim \<Rightarrow> bool" where
  "claimReads V r c \<longleftrightarrow> (\<exists>d. decodeClaim V (eData r) = Some d \<and> lvUid c = toLowerCase (eUid r) \<and>
     lvAttester c = toLowerCase (eAttester r) \<and> lvBlockTimestamp c = eBlockTimestamp r \<and>
     (\<forall>a. jget (lvShares c) a = (if a \<in> toLowerCase ` set (clContributors d)
        then Some (sumOf snd (filter (\<lambda>cs. toLowerCase (fst cs) = a) (zip (clContributors d) (clShares d)))) else None)) \<and>
     lvTotalShares c = sum_list (clShares d))"

text \<open>The newest claim with this identifier names \<open>a\<close> as a contributor.\<close>

definition namesContributor :: "viem \<Rightarrow> ContributionsParams \<Rightarrow> RawEdge list \<Rightarrow> hex \<Rightarrow> hex \<Rightarrow> bool" where
  "namesContributor V p records uid a \<longleftrightarrow> (\<exists>i d. newestEvent records (claimAt V p records uid) i \<and>
     decodeClaim V (eData (records ! i)) = Some d \<and> a \<in> toLowerCase ` set (clContributors d))"

definition responseAt :: "viem \<Rightarrow> ContributionsParams \<Rightarrow> RawEdge list \<Rightarrow> string \<Rightarrow> nat \<Rightarrow> bool" where
  "responseAt V p records key i \<longleftrightarrow> liveAt records i \<and> eKind (records ! i) = KIND_RESPONSE_ATTEST \<and>
     (\<exists>d. decodeResponse V (eData (records ! i)) = Some d \<and> actorKey (rsClaimUid d) (eAttester (records ! i)) = key \<and>
        namesContributor V p records (toLowerCase (rsClaimUid d)) (toLowerCase (eAttester (records ! i))))"

definition valuationAt :: "viem \<Rightarrow> ContributionsParams \<Rightarrow> RawEdge list \<Rightarrow> string \<Rightarrow> nat \<Rightarrow> bool" where
  "valuationAt V p records key i \<longleftrightarrow> liveAt records i \<and> eKind (records ! i) = KIND_VALUATION_ATTEST \<and>
     (\<exists>d. decodeValuation V (eData (records ! i)) = Some d \<and> actorKey (vaClaimUid d) (eAttester (records ! i)) = key \<and>
        (\<exists>j. claimAt V p records (toLowerCase (vaClaimUid d)) j))"

lemma claimEvent_at: "liveAt records i \<and> (\<exists>c. claimEvent V p (records ! i) = Some (uid, c)) \<longleftrightarrow> claimAt V p records uid i"
  by (auto simp: claimEvent_def claimAt_def Let_def)

lemma addShare_get: "jget (addShare m c) a = (if toLowerCase (fst c) = a then Some (orDefault (jget m a) 0 + snd c) else jget m a)"
  by (simp add: addShare_def Let_def jget_jset)

lemma foldl_addShare_get: "jget (foldl addShare m cs) a =
  (if a \<in> (\<lambda>c. toLowerCase (fst c)) ` set cs
   then Some (orDefault (jget m a) 0 + sumOf snd (filter (\<lambda>c. toLowerCase (fst c) = a) cs)) else jget m a)"
proof (induction cs arbitrary: m)
  case (Cons c cs)
  have "filter (\<lambda>c. toLowerCase (fst c) = a) cs = []" if "a \<notin> (\<lambda>c. toLowerCase (fst c)) ` set cs"
    using that by (auto simp: filter_empty_conv)
  then show ?case by (cases "a \<in> (\<lambda>c. toLowerCase (fst c)) ` set cs"; cases "toLowerCase (fst c) = a")
    (simp_all add: Cons.IH [of "addShare m c"] addShare_get orDefault_def del: foldl_map)
qed simp

lemma claimEvent_reads:
  assumes "claimEvent V p r = Some (uid, c)"
  shows "claimReads V r c"
proof -
  from assms obtain d where d: "decodeClaim V (eData r) = Some d" and f: "lvUid c = toLowerCase (eUid r)"
    "lvAttester c = toLowerCase (eAttester r)" "lvBlockTimestamp c = eBlockTimestamp r"
    and sh: "lvShares c = foldl addShare [] (zip (clContributors d) (clShares d))" "lvTotalShares c = sumOf snd (lvShares c)"
    by (auto simp: claimEvent_def Let_def split: if_splits)
  have len: "length (clContributors d) = length (clShares d)" by (rule decodeClaim_facts(1) [OF d])
  let ?kvs = "map (\<lambda>c. (toLowerCase (fst c), snd c)) (zip (clContributors d) (clShares d))"
  have "\<forall>kv \<in> set ?kvs. fst kv \<in> UNIV \<and> 0 \<le> snd kv" using decodeClaim_facts(3) [OF d] by (auto dest: set_zip_rightD)
  then have "sumOf snd (foldl addTo [] ?kvs) = sumOf snd ?kvs" using tally_addAll(2) [OF tally_Nil [of UNIV], of ?kvs] by simp
  then have "lvTotalShares c = sum_list (clShares d)" using len by (simp add: sh foldl_addShare comp_def)
  moreover have "(\<lambda>cs. toLowerCase (fst cs)) ` set (zip (clContributors d) (clShares d)) = toLowerCase ` set (clContributors d)"
    using len by (metis image_image list.set_map map_fst_zip)
  ultimately show ?thesis unfolding claimReads_def using d f by (simp add: sh(1) foldl_addShare_get orDefault_def)
qed

lemma claims_at:
  "jget (stClaims (reconcile V records p)) uid = Some c \<longleftrightarrow>
     (\<exists>i. newestEvent records (claimAt V p records uid) i \<and> claimEvent V p (records ! i) = Some (uid, c))"
  "jget (stClaims (reconcile V records p)) uid = None \<longleftrightarrow> (\<nexists>i. claimAt V p records uid i)"
  unfolding reconcile_writes(1) newMap_last live_lastWrite claimEvent_at by (rule refl)+

lemma claims_named:
  "namesContributor V p records uid a \<longleftrightarrow> (\<exists>c. jget (stClaims (reconcile V records p)) uid = Some c \<and> jhas (lvShares c) a)"
proof -
  have shares: "jhas (lvShares c) a \<longleftrightarrow> a \<in> toLowerCase ` set (clContributors d)"
    if "claimEvent V p (records ! i) = Some (uid, c)" "decodeClaim V (eData (records ! i)) = Some d" for i c d
  proof -
    have "jget (lvShares c) a = (if a \<in> toLowerCase ` set (clContributors d)
        then Some (sumOf snd (filter (\<lambda>cs. toLowerCase (fst cs) = a) (zip (clContributors d) (clShares d)))) else None)"
      using claimEvent_reads [OF that(1)] that(2) unfolding claimReads_def by auto
    then show ?thesis unfolding jhas_def by (simp split: if_splits)
  qed
  have event: "\<exists>c d. claimEvent V p (records ! i) = Some (uid, c) \<and> decodeClaim V (eData (records ! i)) = Some d"
    if "newestEvent records (claimAt V p records uid) i" for i
    using that claimEvent_at [of records i V p uid] unfolding newestEvent_def claimAt_def by blast
  show ?thesis
  proof
    assume "namesContributor V p records uid a"
    then obtain i d where i: "newestEvent records (claimAt V p records uid) i" and d: "decodeClaim V (eData (records ! i)) = Some d"
      "a \<in> toLowerCase ` set (clContributors d)" unfolding namesContributor_def by blast
    obtain c where "claimEvent V p (records ! i) = Some (uid, c)" using event [OF i] by blast
    with i d shares show "\<exists>c. jget (stClaims (reconcile V records p)) uid = Some c \<and> jhas (lvShares c) a"
      unfolding claims_at by blast
  next
    assume "\<exists>c. jget (stClaims (reconcile V records p)) uid = Some c \<and> jhas (lvShares c) a"
    then obtain c i where i: "newestEvent records (claimAt V p records uid) i" and c: "claimEvent V p (records ! i) = Some (uid, c)"
      "jhas (lvShares c) a" unfolding claims_at by blast
    obtain d where "decodeClaim V (eData (records ! i)) = Some d" using event [OF i] by blast
    with i c shares show "namesContributor V p records uid a" unfolding namesContributor_def by blast
  qed
qed

lemma claims_present: "jhas (stClaims (reconcile V records p)) uid \<longleftrightarrow> (\<exists>i. claimAt V p records uid i)"
  unfolding jhas_def claims_at(2) by simp

lemma responseEvent_at:
  "responseEvent V (stClaims (reconcile V records p)) (records ! i) = Some (key, v) \<and> liveAt records i \<longleftrightarrow>
     responseAt V p records key i \<and> (\<exists>d. decodeResponse V (eData (records ! i)) = Some d \<and> rsResponse d = v)"
  unfolding responseAt_def claims_named responseEvent_def
  by (auto simp: Option.bind_eq_Some_conv simp del: jhas_iff split: if_splits)

lemma valuationEvent_at:
  "valuationEvent V (stClaims (reconcile V records p)) (records ! i) = Some (key, v) \<and> liveAt records i \<longleftrightarrow>
     valuationAt V p records key i \<and> (\<exists>d. decodeValuation V (eData (records ! i)) = Some d \<and> vaScore d = v)"
  unfolding valuationAt_def valuationEvent_def claims_present [symmetric]
  by (auto simp: Option.bind_eq_Some_conv split: if_splits)

lemma responses_at:
  "jget (stResponses (reconcile V records p)) key = Some v \<longleftrightarrow> (\<exists>i d. newestEvent records (responseAt V p records key) i \<and>
     decodeResponse V (eData (records ! i)) = Some d \<and> rsResponse d = v)"
proof -
  have same: "liveAt records i \<and> (\<exists>v. responseEvent V (stClaims (reconcile V records p)) (records ! i) = Some (key, v)) \<longleftrightarrow>
      responseAt V p records key i" for i
    using responseEvent_at [of V records p i key] unfolding responseAt_def by blast
  have w: "jget (stResponses (reconcile V records p)) key =
      lastWrite (responseEvent V (stClaims (reconcile V records p))) (liveRecords records) key"
    by (subst reconcile_writes(2)) (rule newMap_last)
  have "jget (stResponses (reconcile V records p)) key = Some v \<longleftrightarrow> (\<exists>i. newestEvent records (responseAt V p records key) i \<and>
      responseEvent V (stClaims (reconcile V records p)) (records ! i) = Some (key, v))"
    unfolding w live_lastWrite same ..
  moreover have "responseEvent V (stClaims (reconcile V records p)) (records ! i) = Some (key, v) \<longleftrightarrow>
      (\<exists>d. decodeResponse V (eData (records ! i)) = Some d \<and> rsResponse d = v)" if "newestEvent records (responseAt V p records key) i" for i
  proof -
    have at: "responseAt V p records key i" using that by (simp only: newestEvent_def)
    then have "liveAt records i" by (simp only: responseAt_def)
    with at responseEvent_at [of V records p i key v] show ?thesis by blast
  qed
  ultimately show ?thesis by blast
qed

lemma valuations_at:
  "jget (stValuations (reconcile V records p)) key = Some v \<longleftrightarrow> (\<exists>i d. newestEvent records (valuationAt V p records key) i \<and>
     decodeValuation V (eData (records ! i)) = Some d \<and> vaScore d = v)"
proof -
  have same: "liveAt records i \<and> (\<exists>v. valuationEvent V (stClaims (reconcile V records p)) (records ! i) = Some (key, v)) \<longleftrightarrow>
      valuationAt V p records key i" for i
    using valuationEvent_at [of V records p i key] unfolding valuationAt_def by blast
  have w: "jget (stValuations (reconcile V records p)) key =
      lastWrite (valuationEvent V (stClaims (reconcile V records p))) (liveRecords records) key"
    by (subst reconcile_writes(3)) (rule newMap_last)
  have "jget (stValuations (reconcile V records p)) key = Some v \<longleftrightarrow> (\<exists>i. newestEvent records (valuationAt V p records key) i \<and>
      valuationEvent V (stClaims (reconcile V records p)) (records ! i) = Some (key, v))"
    unfolding w live_lastWrite same ..
  moreover have "valuationEvent V (stClaims (reconcile V records p)) (records ! i) = Some (key, v) \<longleftrightarrow>
      (\<exists>d. decodeValuation V (eData (records ! i)) = Some d \<and> vaScore d = v)" if "newestEvent records (valuationAt V p records key) i" for i
  proof -
    have at: "valuationAt V p records key i" using that by (simp only: newestEvent_def)
    then have "liveAt records i" by (simp only: valuationAt_def)
    with at valuationEvent_at [of V records p i key v] show ?thesis by blast
  qed
  ultimately show ?thesis by blast
qed

lemma claims_read:
  "case jget (stClaims (reconcile V records p)) uid of None \<Rightarrow> \<nexists>i. claimAt V p records uid i
   | Some c \<Rightarrow> \<exists>i. newestEvent records (claimAt V p records uid) i \<and> claimReads V (records ! i) c"
proof (cases "jget (stClaims (reconcile V records p)) uid")
  case None
  then show ?thesis using claims_at(2) by fastforce
next
  case (Some c)
  then obtain i where "newestEvent records (claimAt V p records uid) i" "claimEvent V p (records ! i) = Some (uid, c)" unfolding claims_at by blast
  then show ?thesis using Some claimEvent_reads by fastforce
qed

section \<open>The partition of the valuations\<close>

text \<open>Why a valuation is left out, if it is.\<close>

definition verdict ::
  "LiveState \<Rightarrow> (hex, int) jmap \<Rightarrow> ContributionsParams \<Rightarrow> hex \<times> hex \<times> int \<Rightarrow> SkipReason option" where
  "verdict state rep p e =
     (case jget (stClaims state) (fst e) of
        None \<Rightarrow> None
      | Some claim \<Rightarrow>
          if fst (snd e) \<in> set (jkeys (lvShares claim)) \<or> fst (snd e) = lvAttester claim then Some SelfValuation
          else if amountOf rep (fst (snd e)) < coMinRaterRepFp p then Some BelowMinRep else None)"

definition discountOf :: "LiveState \<Rightarrow> ContributionsParams \<Rightarrow> hex \<times> hex \<times> int \<Rightarrow> int" where
  "discountOf state p e =
     (if conflicted (coClaims state) (fst (snd e)) (the (jget (stClaims state) (fst e)))
      then coCollaboratorMultFp p else coPrecisionScale p)"

definition countedVote :: "LiveState \<Rightarrow> ContributionsParams \<Rightarrow> hex \<times> hex \<times> int \<Rightarrow> EligibleValuation" where
  "countedVote state p e = \<lparr>evClaimUid = fst e, evRater = fst (snd e), evScore = snd (snd e),
     evDiscountFp = discountOf state p e\<rparr>"

definition skippedVote ::
  "LiveState \<Rightarrow> (hex, int) jmap \<Rightarrow> ContributionsParams \<Rightarrow> hex \<times> hex \<times> int \<Rightarrow> SkippedValuation" where
  "skippedVote state rep p e = \<lparr>skClaimUid = fst e, skRater = fst (snd e), skReason = the (verdict state rep p e)\<rparr>"

definition partitioned ::
  "LiveState \<Rightarrow> (hex, int) jmap \<Rightarrow> ContributionsParams \<Rightarrow> (hex \<times> hex \<times> int) list \<Rightarrow> Eligibility" where
  "partitioned state rep p es =
     \<lparr>elEligible = map (countedVote state p) (filter (\<lambda>e. verdict state rep p e = None) es),
      elSkipped = map (skippedVote state rep p) (filter (\<lambda>e. verdict state rep p e \<noteq> None) es),
      elParticipants = newSet (map (\<lambda>e. fst (snd e)) (filter (\<lambda>e. verdict state rep p e = None) es))\<rparr>"

lemma jhas_keys: "jhas m k \<longleftrightarrow> k \<in> set (jkeys m)"
  by (simp add: jhas_def map_of_eq_None_iff)

lemma eligibilityStep_verdict:
  assumes "jget (stClaims state) (fst e) = Some claim"
  shows "eligibilityStep state rep p out e = Inr (case verdict state rep p e of
      None \<Rightarrow> out\<lparr>elParticipants := setAdd (fst (snd e)) (elParticipants out),
        elEligible := elEligible out @ [countedVote state p e]\<rparr>
    | Some _ \<Rightarrow> out\<lparr>elSkipped := elSkipped out @ [skippedVote state rep p e]\<rparr>)"
  using assms
  by (cases e) (auto simp: eligibilityStep_def verdict_def countedVote_def skippedVote_def discountOf_def need_def
      jhas_keys amountOf_def Let_def)

lemma partitioned_snoc: "partitioned state rep p (es @ [e]) = (case verdict state rep p e of
      None \<Rightarrow> (partitioned state rep p es)\<lparr>elParticipants := setAdd (fst (snd e)) (elParticipants (partitioned state rep p es)),
        elEligible := elEligible (partitioned state rep p es) @ [countedVote state p e]\<rparr>
    | Some _ \<Rightarrow> (partitioned state rep p es)\<lparr>elSkipped := elSkipped (partitioned state rep p es) @ [skippedVote state rep p e]\<rparr>)"
  by (auto simp: partitioned_def newSet_snoc split: option.splits)

lemma eligibility_loop:
  assumes "\<forall>e \<in> set es. jhas (stClaims state) (fst e)"
  shows "foldE (eligibilityStep state rep p) \<lparr>elEligible = [], elSkipped = [], elParticipants = []\<rparr> es =
    Inr (partitioned state rep p es)"
  using assms
proof (induction es rule: rev_induct)
  case Nil
  then show ?case by (simp add: partitioned_def newSet_def)
next
  case (snoc e es)
  have "jhas (stClaims state) (fst e)" using snoc.prems by simp
  then obtain claim where c: "jget (stClaims state) (fst e) = Some claim" unfolding jhas_def by blast
  show ?case using snoc by (simp add: foldE_append eligibilityStep_verdict [OF c] partitioned_snoc)
qed

lemma set_valuationEntries: "e \<in> set (valuationEntries state) \<longleftrightarrow>
  (\<exists>key. (key, snd (snd e)) \<in> set (stValuations state) \<and> splitActorKey key = (fst e, fst (snd e)))"
  by (cases e) (force simp: valuationEntries_def)

lemma liveOk_entry:
  assumes "liveOk p n state" and "e \<in> set (valuationEntries state)"
  shows "jhas (stClaims state) (fst e)" and "canonical (fst (snd e))" and "length (fst (snd e)) \<le> n"
    and "0 \<le> snd (snd e)" and "snd (snd e) \<le> 100"
  using assms unfolding set_valuationEntries liveOk_def by fastforce+

lemma eligibility_partitioned:
  assumes "liveOk p n state"
  shows "eligibility state rep p = Inr (partitioned state rep p (valuationEntries state))"
  unfolding eligibility_def using liveOk_entry(1) [OF assms] by (intro eligibility_loop) blast

text \<open>What stage two relies on.\<close>

definition eligOk :: "ContributionsParams \<Rightarrow> nat \<Rightarrow> LiveState \<Rightarrow> Eligibility \<Rightarrow> bool" where
  "eligOk p n state elig \<longleftrightarrow> distinct (elParticipants elig) \<and>
     (\<forall>r \<in> set (elParticipants elig). canonical r \<and> length r \<le> n) \<and>
     (\<forall>v \<in> set (elEligible elig). jhas (stClaims state) (evClaimUid v) \<and> evRater v \<in> set (elParticipants elig) \<and>
        0 \<le> evScore v \<and> 0 \<le> evDiscountFp v \<and> evDiscountFp v \<le> coPrecisionScale p)"

lemma partitioned_ok:
  assumes live: "liveOk p n state" and c: "0 \<le> coCollaboratorMultFp p" "coCollaboratorMultFp p \<le> coPrecisionScale p"
  shows "eligOk p n state (partitioned state rep p (valuationEntries state))"
  using liveOk_entry [OF live] c
  by (auto simp: eligOk_def partitioned_def countedVote_def discountOf_def)

end
