(* ===== verification/ContributionScores.thy ===== *)
theory ContributionScores
  imports ContributionState
begin

text \<open>
  Proportional parts with their roundings, and the budgeted claim scores: no rater's valuations are worth
  more than the rater's reputation.
\<close>

section \<open>Splitting an amount in proportion\<close>

text \<open>The part of \<open>x\<close> for \<open>f\<close> out of \<open>b\<close>, discounted by \<open>d\<close>, with the roundings of the program.\<close>

definition part :: "int \<Rightarrow> int \<Rightarrow> int \<Rightarrow> int \<Rightarrow> int \<Rightarrow> int" where
  "part s x f b d = x * (f * s div b) div s * d div s"

lemma part_run:
  assumes s: "0 < s" "s \<le> U256_MAX" and x: "0 \<le> x" "x \<le> U256_MAX" and f: "0 \<le> f" "f \<le> b" "0 < b"
    and d: "0 \<le> d" "d \<le> s"
  shows "bindE (mulDiv f s b) (\<lambda>sigma. bindE (fpMul x sigma s) (\<lambda>y. bindE (fpMul y d s) k)) = k (part s x f b d)"
    and "0 \<le> part s x f b d" and "part s x f b d \<le> x * (f * s div b) div s"
proof -
  let ?sigma = "f * s div b"
  have "mulDiv s f b = Inr (s * f div b)" by (rule mulDiv_total) (use s f in auto)
  then have m: "mulDiv f s b = Inr ?sigma" by (simp add: mulDiv_def mult.commute)
  have "s * f div b \<le> s * b div b" using s f by (intro zdiv_mono1 mult_left_mono) auto
  then have sg: "0 \<le> ?sigma" "?sigma \<le> s" using s f by (simp_all add: pos_imp_zdiv_nonneg_iff mult.commute)
  have y: "0 \<le> x * ?sigma div s" "x * ?sigma div s \<le> x" using div_mult_bound [OF s(1) x(1) sg] by auto
  have "fpMul x ?sigma s = Inr (x * ?sigma div s)" unfolding fpMul_def by (rule mulDiv_total) (use s x sg in auto)
  moreover have "fpMul (x * ?sigma div s) d s = Inr (part s x f b d)"
    unfolding fpMul_def part_def by (rule mulDiv_total) (use s x y d in auto)
  ultimately show "bindE (mulDiv f s b) (\<lambda>sigma. bindE (fpMul x sigma s) (\<lambda>y. bindE (fpMul y d s) k)) = k (part s x f b d)"
    by (simp add: m)
  show "0 \<le> part s x f b d" "part s x f b d \<le> x * ?sigma div s"
    using div_mult_bound [OF s(1) y(1) d] by (simp_all add: part_def)
qed

lemma parts_bound:
  assumes s: "0 < s" "s \<le> U256_MAX" and x: "0 \<le> x" "x \<le> U256_MAX" and b: "0 < b"
    and f: "\<forall>v \<in> set vs. 0 \<le> f v \<and> 0 \<le> d v \<and> d v \<le> s" and sum: "sumOf f vs \<le> b"
  shows "sumOf (\<lambda>v. part s x (f v) b (d v)) vs \<le> x"
proof -
  let ?g = "\<lambda>v. f v * s div b"
  have le: "f v \<le> b" if "v \<in> set vs" for v using sumOf_member [of vs f v] f that sum by force
  have "sumOf (\<lambda>v. part s x (f v) b (d v)) vs \<le> sumOf (\<lambda>v. x * ?g v div s) vs"
    using part_run(3) [OF s x] f le b by (intro sumOf_mono) auto
  moreover have "sumOf (\<lambda>v. x * ?g v div s) vs * s \<le> sumOf (\<lambda>v. x * ?g v) vs" by (rule sumOf_div [OF s(1)])
  moreover have "sumOf (\<lambda>v. x * ?g v) vs = x * sumOf ?g vs" by (rule sumOf_scale)
  moreover have "sumOf ?g vs \<le> s"
  proof -
    have "sumOf ?g vs * b \<le> sumOf (\<lambda>v. f v * s) vs" by (rule sumOf_div [OF b])
    also have "\<dots> = s * sumOf f vs" using sumOf_scale [of s f vs] by (simp add: mult.commute)
    also have "\<dots> \<le> s * b" using sum s(1) by (simp add: mult_left_mono)
    finally show ?thesis using b by simp
  qed
  then have "x * sumOf ?g vs \<le> x * s" using x(1) by (rule mult_left_mono)
  ultimately have "sumOf (\<lambda>v. part s x (f v) b (d v)) vs * s \<le> x * s"
    using s(1) by (smt (verit) mult_right_mono)
  then show ?thesis using s(1) by simp
qed

lemma sumOf_groups:
  assumes "distinct rs" and "\<forall>v \<in> set vs. g v \<in> set rs"
  shows "sumOf f vs = sumOf (\<lambda>r. sumOf f (filter (\<lambda>v. g v = r) vs)) rs"
  using assms(2)
proof (induction vs)
  case Nil
  then show ?case by (simp add: sumOf_zero)
next
  case (Cons v vs)
  have "sumOf (\<lambda>r. sumOf f (filter (\<lambda>v. g v = r) (v # vs))) rs =
    sumOf (\<lambda>r. (if r = g v then f v else 0) + sumOf f (filter (\<lambda>v. g v = r) vs)) rs"
    by (intro arg_cong [where f = sum_list] map_cong) auto
  also have "\<dots> = sumOf (\<lambda>r. if r = g v then f v else 0) rs + sumOf (\<lambda>r. sumOf f (filter (\<lambda>v. g v = r) vs)) rs"
    by (rule sum_list_addf)
  also have "sumOf (\<lambda>r. if r = g v then f v else 0) rs = f v * int (length (filter (\<lambda>r. r = g v) rs))"
    by (rule sumOf_if)
  also have "length (filter (\<lambda>r. r = g v) rs) = 1"
  proof -
    have "set (filter (\<lambda>r. r = g v) rs) = {g v}" using Cons.prems by auto
    moreover have "distinct (filter (\<lambda>r. r = g v) rs)" using assms(1) by simp
    ultimately show ?thesis using distinct_card by (metis One_nat_def card.empty card_insert_disjoint empty_iff finite.emptyI)
  qed
  finally show ?case using Cons by simp
qed

section \<open>The claim scores\<close>

definition roundOk :: "ContributionsParams \<Rightarrow> bool" where
  "roundOk p \<longleftrightarrow> 0 < coPrecisionScale p \<and> coPrecisionScale p \<le> U256_MAX \<and>
     0 \<le> coUnacceptedMultFp p \<and> coUnacceptedMultFp p \<le> coPrecisionScale p \<and>
     0 \<le> coCollaboratorMultFp p \<and> coCollaboratorMultFp p \<le> coPrecisionScale p \<and>
     0 \<le> coEvaluatorCarveoutBps p \<and> coPrecisionScale p * coEvaluatorCarveoutBps p \<le> U256_MAX"

definition budgetOf :: "Eligibility \<Rightarrow> hex \<Rightarrow> int" where
  "budgetOf elig r = amountOf (raterBudgets elig) r"

definition voteWorth :: "(hex, int) jmap \<Rightarrow> Eligibility \<Rightarrow> int \<Rightarrow> EligibleValuation \<Rightarrow> int" where
  "voteWorth rep elig s v = part s (amountOf rep (evRater v)) (evScore v) (budgetOf elig (evRater v)) (evDiscountFp v)"

definition weighed :: "Eligibility \<Rightarrow> EligibleValuation list" where
  "weighed elig = filter (\<lambda>v. budgetOf elig (evRater v) \<noteq> 0) (elEligible elig)"

lemma foldl_bump: "foldl (\<lambda>m v. bump m (k v) (x v)) m vs = foldl addTo m (map (\<lambda>v. (k v, x v)) vs)"
  by (induction vs arbitrary: m) (simp_all add: bump_addTo)

lemma elig_fields:
  assumes "eligOk p n state elig" and "v \<in> set (elEligible elig)"
  shows "toLowerCase (evRater v) = evRater v" "0 \<le> evScore v" "0 \<le> evDiscountFp v" "evDiscountFp v \<le> coPrecisionScale p"
    "evRater v \<in> set (elParticipants elig)" "jhas (stClaims state) (evClaimUid v)"
  using assms by (auto simp: eligOk_def canonicalD)

lemma budget_facts:
  assumes "eligOk p n state elig"
  shows "tally UNIV (raterBudgets elig)"
    and "budgetOf elig r = sumOf evScore (filter (\<lambda>v. evRater v = r) (elEligible elig))"
    and "v \<in> set (elEligible elig) \<Longrightarrow> jget (raterBudgets elig) (evRater v) = Some (budgetOf elig (evRater v))"
proof -
  let ?kvs = "map (\<lambda>v. (toLowerCase (evRater v), evScore v)) (elEligible elig)"
  have b: "raterBudgets elig = foldl addTo [] ?kvs" by (simp add: raterBudgets_def foldl_bump)
  have kv: "?kvs = map (\<lambda>v. (evRater v, evScore v)) (elEligible elig)" using elig_fields(1) [OF assms] by simp
  have all: "\<forall>kv \<in> set ?kvs. fst kv \<in> UNIV \<and> 0 \<le> snd kv" using elig_fields(2) [OF assms] by auto
  show "tally UNIV (raterBudgets elig)" unfolding b by (rule tally_addAll(1) [OF tally_Nil all])
  have "budgetOf elig r = sumOf snd (filter (\<lambda>kv. fst kv = r) ?kvs)"
    using tally_addAll(3) [OF tally_Nil all, of r] by (simp add: budgetOf_def b amountOf_def orDefault_def)
  also have "\<dots> = sumOf evScore (filter (\<lambda>v. evRater v = r) (elEligible elig))"
    unfolding kv by (simp add: filter_map comp_def)
  finally show "budgetOf elig r = sumOf evScore (filter (\<lambda>v. evRater v = r) (elEligible elig))" .
  show "jget (raterBudgets elig) (evRater v) = Some (budgetOf elig (evRater v))" if "v \<in> set (elEligible elig)"
  proof -
    have "evRater v \<in> fst ` set ?kvs" unfolding kv using that by force
    then have "evRater v \<in> set (jkeys (raterBudgets elig))" unfolding b addTo_has by blast
    from jget_key [OF this] show ?thesis by (auto simp: budgetOf_def amountOf_def orDefault_def)
  qed
qed

lemma budget_score:
  assumes "eligOk p n state elig" and "v \<in> set (elEligible elig)"
  shows "0 \<le> budgetOf elig (evRater v)" and "evScore v \<le> budgetOf elig (evRater v)"
proof -
  have nn: "\<And>w. w \<in> set (filter (\<lambda>u. evRater u = evRater v) (elEligible elig)) \<Longrightarrow> 0 \<le> evScore w"
    using elig_fields(2) [OF assms(1)] by auto
  show "0 \<le> budgetOf elig (evRater v)" unfolding budget_facts(2) [OF assms(1)] by (rule sumOf_nonneg [OF nn])
  show "evScore v \<le> budgetOf elig (evRater v)"
    unfolding budget_facts(2) [OF assms(1)] by (rule sumOf_member [OF nn]) (use assms(2) in auto)
qed

definition repOk :: "ContributionsParams \<Rightarrow> (hex, int) jmap \<Rightarrow> bool" where
  "repOk p rep \<longleftrightarrow> tally UNIV rep \<and> sumOf snd rep \<le> coPrecisionScale p"

lemma repOk_amount: "repOk p rep \<Longrightarrow> 0 \<le> amountOf rep r \<and> amountOf rep r \<le> coPrecisionScale p"
  using tally_amount [of UNIV rep r] tally_le_sum [of UNIV rep r] by (auto simp: repOk_def)

lemma scoreStep_run:
  assumes p: "roundOk p" "repOk p rep" and e: "eligOk p n state elig" and v: "v \<in> set (elEligible elig)"
  shows "scoreStep (raterBudgets elig) rep (coPrecisionScale p) m v =
    Inr (if budgetOf elig (evRater v) = 0 then m
         else addTo m (toLowerCase (evClaimUid v), voteWorth rep elig (coPrecisionScale p) v))"
    and "budgetOf elig (evRater v) \<noteq> 0 \<Longrightarrow> 0 \<le> voteWorth rep elig (coPrecisionScale p) v"
proof -
  note f = elig_fields [OF e v] and b = budget_score [OF e v]
  have s: "0 < coPrecisionScale p" "coPrecisionScale p \<le> U256_MAX" using p(1) by (auto simp: roundOk_def)
  have x: "0 \<le> amountOf rep (evRater v)" "amountOf rep (evRater v) \<le> U256_MAX"
    using repOk_amount [OF p(2), of "evRater v"] s(2) by auto
  have run: "budgetOf elig (evRater v) \<noteq> 0 \<Longrightarrow> 0 < budgetOf elig (evRater v)" using b(1) by simp
  note pr = part_run [OF s x f(2) b(2) run f(3,4)]
  show "scoreStep (raterBudgets elig) rep (coPrecisionScale p) m v =
    Inr (if budgetOf elig (evRater v) = 0 then m
         else addTo m (toLowerCase (evClaimUid v), voteWorth rep elig (coPrecisionScale p) v))"
    using pr(1) [where k = "\<lambda>c. Inr (addTo m (toLowerCase (evClaimUid v), c))"]
    by (simp add: scoreStep_def f(1) need_def budget_facts(3) [OF e v] Let_def amountOf_def [symmetric]
        voteWorth_def bump_addTo)
  show "budgetOf elig (evRater v) \<noteq> 0 \<Longrightarrow> 0 \<le> voteWorth rep elig (coPrecisionScale p) v"
    using pr(2) by (simp add: voteWorth_def)
qed

lemma claimScores_run:
  assumes p: "roundOk p" "repOk p rep" and e: "eligOk p n state elig"
  shows "claimScoresOf rep elig (coPrecisionScale p) = Inr (foldl addTo []
    (map (\<lambda>v. (toLowerCase (evClaimUid v), voteWorth rep elig (coPrecisionScale p) v)) (weighed elig)))"
proof -
  have "foldE (scoreStep (raterBudgets elig) rep (coPrecisionScale p)) m vs = Inr (foldl addTo m
    (map (\<lambda>v. (toLowerCase (evClaimUid v), voteWorth rep elig (coPrecisionScale p) v))
      (filter (\<lambda>v. budgetOf elig (evRater v) \<noteq> 0) vs)))" if "set vs \<subseteq> set (elEligible elig)" for m vs
    using that by (induction vs arbitrary: m) (simp_all add: scoreStep_run(1) [OF p e])
  then show ?thesis by (simp add: claimScoresOf_def weighed_def)
qed

lemma rater_worth:
  assumes p: "roundOk p" "repOk p rep" and e: "eligOk p n state elig"
  shows "sumOf (voteWorth rep elig (coPrecisionScale p)) (filter (\<lambda>v. evRater v = r) (weighed elig)) \<le> amountOf rep r"
proof (cases "budgetOf elig r = 0")
  case True
  then have "filter (\<lambda>v. evRater v = r) (weighed elig) = []" by (auto simp: weighed_def filter_empty_conv)
  then show ?thesis using repOk_amount [OF p(2)] by simp
next
  case False
  let ?vs = "filter (\<lambda>v. evRater v = r) (weighed elig)"
  have vs: "?vs = filter (\<lambda>v. evRater v = r) (elEligible elig)"
    using False by (auto simp: weighed_def intro!: filter_cong)
  have s: "0 < coPrecisionScale p" "coPrecisionScale p \<le> U256_MAX" using p(1) by (auto simp: roundOk_def)
  have x: "0 \<le> amountOf rep r" "amountOf rep r \<le> U256_MAX" using repOk_amount [OF p(2), of r] s(2) by auto
  have "0 \<le> budgetOf elig r" unfolding budget_facts(2) [OF e]
    by (rule sumOf_nonneg) (use elig_fields(2) [OF e] in auto)
  then have b: "0 < budgetOf elig r" using False by simp
  have "sumOf (\<lambda>v. part (coPrecisionScale p) (amountOf rep r) (evScore v) (budgetOf elig r) (evDiscountFp v)) ?vs
    \<le> amountOf rep r"
    using elig_fields(2-4) [OF e] by (intro parts_bound [OF s x b]) (auto simp: vs budget_facts(2) [OF e])
  moreover have "sumOf (voteWorth rep elig (coPrecisionScale p)) ?vs =
    sumOf (\<lambda>v. part (coPrecisionScale p) (amountOf rep r) (evScore v) (budgetOf elig r) (evDiscountFp v)) ?vs"
    by (intro arg_cong [where f = sum_list] map_cong) (auto simp: voteWorth_def)
  ultimately show ?thesis by simp
qed

end
