(* ===== verification/ContributionWeights.thy ===== *)
theory ContributionWeights
  imports ContributionScores
begin

text \<open>
  The contributors' weights: each claim's score is split among the contributors who have not refused it.
  The carve-out between contributors and raters, the totality of stage two, and the weights as input of the
  points distribution.
\<close>

definition participation :: "(hex, int) jmap \<Rightarrow> Eligibility \<Rightarrow> int" where
  "participation rep elig = sumOf (amountOf rep) (elParticipants elig)"

lemma sum_over_keys:
  assumes "tally A m" and "distinct ks"
  shows "sumOf (amountOf m) ks \<le> sumOf snd m"
proof -
  have d: "distinct (jkeys m)" using assms(1) by (simp add: tally_def jmapInv_def)
  have "sumOf (amountOf m) ks = sumOf (amountOf m) (filter (\<lambda>k. k \<in> set (jkeys m)) ks)"
    by (rule sumOf_filter_zero [symmetric]) (simp add: amountOf_none)
  also have "\<dots> = sum (amountOf m) (set (filter (\<lambda>k. k \<in> set (jkeys m)) ks))"
    using assms(2) by (simp add: sum_list_distinct_conv_sum_set)
  also have "\<dots> \<le> sum (amountOf m) (set (jkeys m))"
    by (rule sum_mono2) (auto simp: tally_amount [OF assms(1)])
  also have "\<dots> = sumOf (amountOf m) (jkeys m)" by (rule sum_list_distinct_conv_sum_set [OF d, symmetric])
  also have "\<dots> = sumOf snd m" unfolding amountOf_def by (rule sumOf_get [OF d])
  finally show ?thesis .
qed

lemma claimScores_facts:
  assumes p: "roundOk p" "repOk p rep" and e: "eligOk p n state elig" and live: "liveOk p n' state"
    and scores: "claimScoresOf rep elig (coPrecisionScale p) = Inr scores"
  shows "tally (set (jkeys (stClaims state))) scores" and "sumOf snd scores \<le> participation rep elig"
    and "participation rep elig \<le> coPrecisionScale p"
proof -
  let ?w = "voteWorth rep elig (coPrecisionScale p)"
  let ?kvs = "map (\<lambda>v. (toLowerCase (evClaimUid v), ?w v)) (weighed elig)"
  have s: "scores = foldl addTo [] ?kvs" using scores claimScores_run [OF p e] by simp
  have can: "canonical u" if "u \<in> set (jkeys (stClaims state))" for u
    using that live by (auto simp: liveOk_def claimOk_def)
  have "toLowerCase (evClaimUid v) \<in> set (jkeys (stClaims state)) \<and> 0 \<le> ?w v" if "v \<in> set (weighed elig)" for v
  proof -
    have v: "v \<in> set (elEligible elig)" "budgetOf elig (evRater v) \<noteq> 0" using that by (auto simp: weighed_def)
    have "evClaimUid v \<in> set (jkeys (stClaims state))" using elig_fields(6) [OF e v(1)] by (simp only: jhas_keys)
    with can [OF this] scoreStep_run(2) [OF p e v] show ?thesis by (simp only: canonicalD simp_thms)
  qed
  then have all: "\<forall>kv \<in> set ?kvs. fst kv \<in> set (jkeys (stClaims state)) \<and> 0 \<le> snd kv" by auto
  note ta = tally_addAll [OF tally_Nil all]
  show "tally (set (jkeys (stClaims state))) scores" unfolding s by (rule ta(1))
  have d: "distinct (elParticipants elig)" using e by (simp add: eligOk_def)
  have "sumOf snd scores = sumOf ?w (weighed elig)" unfolding s using ta(2) by (simp add: comp_def)
  also have "\<dots> = sumOf (\<lambda>r. sumOf ?w (filter (\<lambda>v. evRater v = r) (weighed elig))) (elParticipants elig)"
    using elig_fields(5) [OF e] by (intro sumOf_groups [OF d]) (auto simp: weighed_def)
  also have "\<dots> \<le> participation rep elig"
    unfolding participation_def by (rule sumOf_mono) (rule rater_worth [OF p e])
  finally show "sumOf snd scores \<le> participation rep elig" .
  show "participation rep elig \<le> coPrecisionScale p"
    using sum_over_keys [OF _ d, of UNIV rep] p(2) unfolding participation_def repOk_def by linarith
qed

section \<open>The contributors\<close>

text \<open>An account entitled to a part of a claim: a contributor who has not refused.\<close>

definition entitled :: "LiveState \<Rightarrow> ContributionsParams \<Rightarrow> hex \<Rightarrow> bool" where
  "entitled state p a \<longleftrightarrow> (\<exists>uid claim. jget (stClaims state) uid = Some claim \<and>
     a \<in> set (jkeys (lvShares claim)) \<and> consentMultFp state claim a p \<noteq> 0)"

abbreviation claimants :: "LiveState \<Rightarrow> ContributionsParams \<Rightarrow> hex set" where
  "claimants state p \<equiv> {a. canonical a \<and> length a = 42 \<and> entitled state p a}"

lemma consent_bounds:
  assumes "roundOk p"
  shows "0 \<le> consentMultFp state claim a p" and "consentMultFp state claim a p \<le> coPrecisionScale p"
  using assms by (auto simp: consentMultFp_def roundOk_def split: option.splits)

definition claimPart :: "LiveState \<Rightarrow> ContributionsParams \<Rightarrow> LiveClaim \<Rightarrow> int \<Rightarrow> hex \<Rightarrow> int" where
  "claimPart state p claim score a =
     part (coPrecisionScale p) score (amountOf (lvShares claim) a) (lvTotalShares claim) (consentMultFp state claim a p)"

lemma weightStep_run:
  assumes p: "roundOk p" and c: "claimOk p uid claim" "jget (stClaims state) uid = Some claim"
    and score: "0 \<le> score" "score \<le> U256_MAX" and a: "a \<in> set (jkeys (lvShares claim))"
  shows "weightStep state p claim score m a =
      Inr (if claimPart state p claim score a \<noteq> 0 then addTo m (a, claimPart state p claim score a) else m)"
    and "0 \<le> claimPart state p claim score a"
    and "claimPart state p claim score a \<noteq> 0 \<Longrightarrow> a \<in> claimants state p"
proof -
  let ?A = "{k. canonical k \<and> length k = (42::nat)}"
  have t: "tally ?A (lvShares claim)" "lvTotalShares claim = sumOf snd (lvShares claim)" "0 < lvTotalShares claim"
    using c(1) by (auto simp: claimOk_def)
  have s: "0 < coPrecisionScale p" "coPrecisionScale p \<le> U256_MAX" using p by (auto simp: roundOk_def)
  have f: "0 \<le> amountOf (lvShares claim) a" "amountOf (lvShares claim) a \<le> lvTotalShares claim"
    using tally_amount [OF t(1)] tally_le_sum [OF t(1)] t(2) by auto
  note d = consent_bounds [OF p, of state claim a]
  note pr = part_run [OF s score f t(3) d]
  obtain x where x: "jget (lvShares claim) a = Some x" using jget_key [OF a] by blast
  then have ax: "amountOf (lvShares claim) a = x" by (simp add: amountOf_def orDefault_def)
  show "weightStep state p claim score m a =
      Inr (if claimPart state p claim score a \<noteq> 0 then addTo m (a, claimPart state p claim score a) else m)"
    using pr(1) [where k = "\<lambda>w. Inr (if w \<noteq> 0 then bump m a w else m)"] ax
    by (simp add: weightStep_def x need_def claimPart_def) (simp add: bump_addTo)
  show "0 \<le> claimPart state p claim score a" using pr(2) by (simp add: claimPart_def)
  show "a \<in> claimants state p" if nz: "claimPart state p claim score a \<noteq> 0"
  proof -
    have "consentMultFp state claim a p \<noteq> 0" using nz by (auto simp: claimPart_def part_def)
    then show ?thesis using t(1) a c(2) by (auto simp: tally_def entitled_def)
  qed
qed

lemma claimParts_bound:
  assumes p: "roundOk p" and c: "claimOk p uid claim" and score: "0 \<le> score" "score \<le> U256_MAX"
  shows "sumOf (claimPart state p claim score) (sortBy cmpLin (jkeys (lvShares claim))) \<le> score"
proof -
  let ?A = "{k. canonical k \<and> length k = (42::nat)}"
  let ?ks = "sortBy cmpLin (jkeys (lvShares claim))"
  have t: "tally ?A (lvShares claim)" "lvTotalShares claim = sumOf snd (lvShares claim)" "0 < lvTotalShares claim"
    using c by (auto simp: claimOk_def)
  have s: "0 < coPrecisionScale p" "coPrecisionScale p \<le> U256_MAX" using p by (auto simp: roundOk_def)
  have d: "distinct ?ks" using t(1) by (simp add: tally_def jmapInv_def)
  show ?thesis
    unfolding claimPart_def [abs_def]
    using sum_over_keys [OF t(1) d] tally_amount [OF t(1)] consent_bounds [OF p] t(2)
    by (intro parts_bound [OF s score t(3)]) auto
qed

lemma claimWeights_run:
  assumes p: "roundOk p" and live: "liveOk p n state" and m: "tally (claimants state p) m"
    and uid: "uid \<in> set (jkeys (stClaims state))" and score: "jget scores uid = Some score" "0 \<le> score" "score \<le> U256_MAX"
  shows "\<exists>m'. claimWeights state p scores m uid = Inr m' \<and> tally (claimants state p) m' \<and> sumOf snd m' \<le> sumOf snd m + score"
proof (cases "score = 0")
  case True
  with m score(1) show ?thesis by (simp add: claimWeights_def need_def)
next
  case False
  obtain claim where c: "jget (stClaims state) uid = Some claim" using jget_key [OF uid] by blast
  then have ok: "claimOk p uid claim" using live by (auto simp: liveOk_def dest!: map_of_SomeD)
  let ?w = "claimPart state p claim score"
  let ?ks = "sortBy cmpLin (jkeys (lvShares claim))"
  note run = weightStep_run [OF p ok c score(2,3)]
  have loop: "foldE (weightStep state p claim score) m0 ks =
      Inr (foldl addTo m0 (map (\<lambda>a. (a, ?w a)) (filter (\<lambda>a. ?w a \<noteq> 0) ks)))"
    if "set ks \<subseteq> set (jkeys (lvShares claim))" for m0 ks
    using that by (induction ks arbitrary: m0) (simp_all add: run(1) del: set_map)
  let ?kvs = "map (\<lambda>a. (a, ?w a)) (filter (\<lambda>a. ?w a \<noteq> 0) ?ks)"
  have ks: "set ?ks = set (jkeys (lvShares claim))" by (rule set_sortBy)
  have "a \<in> claimants state p \<and> 0 \<le> ?w a" if "a \<in> set ?ks" "?w a \<noteq> 0" for a
    using run(2,3) [OF that(1) [unfolded ks]] that(2) by blast
  then have all: "\<forall>kv \<in> set ?kvs. fst kv \<in> claimants state p \<and> 0 \<le> snd kv" unfolding ks by auto
  have "sumOf snd ?kvs = sumOf ?w (filter (\<lambda>a. ?w a \<noteq> 0) ?ks)" by (simp add: comp_def)
  also have "\<dots> = sumOf ?w ?ks" by (rule sumOf_filter_zero) simp
  also have "\<dots> \<le> score" by (rule claimParts_bound [OF p ok score(2,3)])
  finally have sum: "sumOf snd ?kvs \<le> score" .
  have "claimWeights state p scores m uid = Inr (foldl addTo m ?kvs)"
    using False c score(1) loop [of ?ks m] ks by (simp add: claimWeights_def need_def)
  with tally_addAll(1,2) [OF m all] sum show ?thesis by simp
qed

lemma contributorWeights_run:
  assumes p: "roundOk p" and live: "liveOk p n state" and t: "tally (set (jkeys (stClaims state))) scores"
    and sum: "sumOf snd scores \<le> U256_MAX"
  shows "\<exists>m. contributorWeightsOf state p scores = Inr m \<and> tally (claimants state p) m \<and> sumOf snd m \<le> sumOf snd scores"
proof -
  let ?ks = "sortBy cmpLin (jkeys scores)"
  have loop: "\<exists>m'. foldE (claimWeights state p scores) m ks = Inr m' \<and> tally (claimants state p) m' \<and>
      sumOf snd m' \<le> sumOf snd m + sumOf (amountOf scores) ks"
    if "tally (claimants state p) m" "set ks \<subseteq> set (jkeys scores)" for m ks
    using that
  proof (induction ks arbitrary: m)
    case (Cons uid ks)
    then have k: "uid \<in> set (jkeys scores)" by simp
    obtain x where x: "jget scores uid = Some x" using jget_key [OF k] by blast
    then have ax: "amountOf scores uid = x" by (simp add: amountOf_def orDefault_def)
    have "0 \<le> x" "x \<le> U256_MAX" using tally_amount [OF t, of uid] tally_le_sum [OF t, of uid] sum ax by auto
    moreover have "uid \<in> set (jkeys (stClaims state))" using t k unfolding tally_def by blast
    ultimately obtain m1 where m1: "claimWeights state p scores m uid = Inr m1" "tally (claimants state p) m1"
      "sumOf snd m1 \<le> sumOf snd m + x" using claimWeights_run [OF p live Cons.prems(1) _ x] by blast
    from Cons.IH [OF m1(2)] Cons.prems(2) obtain m2 where "foldE (claimWeights state p scores) m1 ks = Inr m2"
      "tally (claimants state p) m2" "sumOf snd m2 \<le> sumOf snd m1 + sumOf (amountOf scores) ks" by auto
    with m1 ax show ?case by simp
  qed simp
  have "set ?ks \<subseteq> set (jkeys scores)" by (simp only: set_sortBy subset_refl)
  from loop [OF tally_Nil this] obtain m where m: "foldE (claimWeights state p scores) [] ?ks = Inr m"
    "tally (claimants state p) m" "sumOf snd m \<le> sumOf (amountOf scores) ?ks" by auto
  have "distinct ?ks" using t by (simp add: tally_def jmapInv_def)
  from sum_over_keys [OF t this] m show ?thesis by (auto simp: contributorWeightsOf_def)
qed

section \<open>The carve-out\<close>

lemma shareOut_loop:
  assumes tot: "0 < tot" and pt: "0 \<le> pt" "pt \<le> U256_MAX" and m: "tally A m"
    and kvs: "\<forall>kv \<in> set kvs. fst kv \<in> A \<and> 0 \<le> snd kv" "sumOf snd kvs \<le> tot"
  shows "\<exists>m'. foldE (shareOut pt tot) m kvs = Inr m' \<and> tally A m' \<and> sumOf snd m' \<le> sumOf snd m + pt \<and>
    set (jkeys m') \<subseteq> set (jkeys m) \<union> fst ` {kv \<in> set kvs. 0 < snd kv}"
proof -
  let ?w = "\<lambda>kv :: hex \<times> int. snd kv * pt div tot"
  have le: "snd kv \<le> tot" if "kv \<in> set kvs" for kv using sumOf_member [of kvs snd kv] kvs that by fastforce
  have step: "shareOut pt tot m0 kv = Inr (if ?w kv \<noteq> 0 then addTo m0 (fst kv, ?w kv) else m0)"
    if "kv \<in> set kvs" for m0 kv
  proof -
    have "mulDiv pt (snd kv) tot = Inr (pt * snd kv div tot)" by (rule mulDiv_total) (use tot pt kvs le that in auto)
    then have "mulDiv (snd kv) pt tot = Inr (?w kv)" by (simp add: mulDiv_def mult.commute)
    then show ?thesis by (simp add: shareOut_def bump_addTo)
  qed
  have "foldE (shareOut pt tot) m0 ks = Inr (foldl addTo m0 (map (\<lambda>kv. (fst kv, ?w kv)) (filter (\<lambda>kv. ?w kv \<noteq> 0) ks)))"
    if "set ks \<subseteq> set kvs" for m0 ks
    using that by (induction ks arbitrary: m0) (simp_all add: step)
  from this [of kvs m] have run: "foldE (shareOut pt tot) m kvs =
    Inr (foldl addTo m (map (\<lambda>kv. (fst kv, ?w kv)) (filter (\<lambda>kv. ?w kv \<noteq> 0) kvs)))" by simp
  let ?kvs = "map (\<lambda>kv. (fst kv, ?w kv)) (filter (\<lambda>kv. ?w kv \<noteq> 0) kvs)"
  have nn: "0 \<le> ?w kv" if "kv \<in> set kvs" for kv using kvs(1) pt(1) tot that by (simp add: pos_imp_zdiv_nonneg_iff)
  then have all: "\<forall>kv \<in> set ?kvs. fst kv \<in> A \<and> 0 \<le> snd kv" using kvs(1) by auto
  note ta = tally_addAll [OF m all]
  have "sumOf snd ?kvs = sumOf ?w (filter (\<lambda>kv. ?w kv \<noteq> 0) kvs)" by (simp add: comp_def)
  also have "\<dots> = sumOf ?w kvs" by (rule sumOf_filter_zero) simp
  also have "\<dots> \<le> pt"
  proof -
    have "sumOf ?w kvs * tot \<le> sumOf (\<lambda>kv. snd kv * pt) kvs" by (rule sumOf_div [OF tot])
    also have "\<dots> = pt * sumOf snd kvs" using sumOf_scale [of pt snd kvs] by (simp add: mult.commute)
    also have "\<dots> \<le> pt * tot" using kvs(2) pt(1) by (rule mult_left_mono)
    finally show ?thesis using tot by simp
  qed
  finally have sum: "sumOf snd ?kvs \<le> pt" .
  have pos: "0 < snd kv" if "kv \<in> set kvs" "?w kv \<noteq> 0" for kv
  proof -
    have "snd kv \<noteq> 0" using that(2) by auto
    with kvs(1) that(1) show ?thesis by (simp add: less_le)
  qed
  have "k \<in> set (jkeys m) \<union> fst ` {kv \<in> set kvs. 0 < snd kv}" if "k \<in> set (jkeys (foldl addTo m ?kvs))" for k
  proof -
    from that consider "k \<in> set (jkeys m)" | kv where "kv \<in> set kvs" "?w kv \<noteq> 0" "k = fst kv"
      unfolding addTo_has by auto
    then show ?thesis using pos by cases auto
  qed
  with run ta(1,2) sum show ?thesis by (intro exI [of _ "foldl addTo m ?kvs"] conjI subsetI) auto
qed

lemma combineWeights_run:
  assumes s: "0 \<le> betaFp" "betaFp \<le> s" "s \<le> U256_MAX"
    and w: "tally A weights" and r: "tally B reps" and AC: "A \<subseteq> C" and BC: "B \<subseteq> C"
  shows "\<exists>m. combineWeights s betaFp weights reps = Inr m \<and> tally C m \<and> sumOf snd m \<le> s \<and>
    set (jkeys m) \<subseteq> set (jkeys weights) \<union> fst ` {kv \<in> set reps. 0 < snd kv}"
proof -
  have mono: "tally C m" if "tally D m" "D \<subseteq> C" for D m using that by (auto simp: tally_def)
  have nn: "0 \<le> sumOf snd weights" "0 \<le> sumOf snd reps" using w r by (auto simp: tally_def intro!: sumOf_nonneg)
  have kw: "\<forall>kv \<in> set weights. fst kv \<in> C \<and> 0 \<le> snd kv" and kr: "\<forall>kv \<in> set reps. fst kv \<in> C \<and> 0 \<le> snd kv"
    using w r AC BC by (auto simp: tally_def)
  have "\<exists>m. (if sumOf snd weights \<noteq> 0 then foldE (shareOut (s - betaFp) (sumOf snd weights)) [] weights else Inr []) = Inr m \<and>
    tally C m \<and> sumOf snd m \<le> s - betaFp \<and> set (jkeys m) \<subseteq> set (jkeys weights)"
  proof (cases "sumOf snd weights = 0")
    case True
    with s show ?thesis by (simp add: exI [of _ "[]"])
  next
    case False
    then have "0 < sumOf snd weights" using nn by simp
    from shareOut_loop [OF this _ _ tally_Nil kw, of "s - betaFp"] s obtain m where
      "foldE (shareOut (s - betaFp) (sumOf snd weights)) [] weights = Inr m" "tally C m" "sumOf snd m \<le> s - betaFp"
      "set (jkeys m) \<subseteq> fst ` {kv \<in> set weights. 0 < snd kv}" by auto
    with False show ?thesis by auto
  qed
  then obtain m where m: "(if sumOf snd weights \<noteq> 0 then foldE (shareOut (s - betaFp) (sumOf snd weights)) [] weights else Inr []) = Inr m"
    "tally C m" "sumOf snd m \<le> s - betaFp" "set (jkeys m) \<subseteq> set (jkeys weights)" by blast
  show ?thesis
  proof (cases "betaFp \<noteq> 0 \<and> sumOf snd reps \<noteq> 0")
    case True
    then have "0 < sumOf snd reps" using nn by simp
    from shareOut_loop [OF this s(1) _ m(2) kr] s obtain m' where
      "foldE (shareOut betaFp (sumOf snd reps)) m reps = Inr m'" "tally C m'" "sumOf snd m' \<le> sumOf snd m + betaFp"
      "set (jkeys m') \<subseteq> set (jkeys m) \<union> fst ` {kv \<in> set reps. 0 < snd kv}" by auto
    note m' = this
    have "combineWeights s betaFp weights reps = Inr m'" using m(1) m'(1) True by (simp add: combineWeights_def Let_def)
    moreover have "set (jkeys m') \<subseteq> set (jkeys weights) \<union> fst ` {kv \<in> set reps. 0 < snd kv}" using m'(4) m(4) by blast
    moreover have "sumOf snd m' \<le> s" using m'(3) m(3) by linarith
    ultimately show ?thesis using m'(2) by blast
  next
    case False
    with m s(1) show ?thesis unfolding combineWeights_def Let_def by auto
  qed
qed

section \<open>Stage two\<close>

abbreviation raters :: "(hex, int) jmap \<Rightarrow> Eligibility \<Rightarrow> hex set" where
  "raters rep elig \<equiv> {r \<in> set (elParticipants elig). 0 < amountOf rep r}"

lemma participantReps_tally:
  assumes "repOk p rep" and "distinct (elParticipants elig)"
  shows "tally (set (elParticipants elig)) (participantReps rep elig)"
    and "fst ` {kv \<in> set (participantReps rep elig). 0 < snd kv} = raters rep elig"
proof -
  have d: "distinct (map fst (map (\<lambda>r. (r, amountOf rep r)) (sortBy cmpLin (elParticipants elig))))"
    using assms(2) by (simp add: comp_def)
  have e: "participantReps rep elig = map (\<lambda>r. (r, amountOf rep r)) (sortBy cmpLin (elParticipants elig))"
    unfolding participantReps_def amountOf_def [symmetric] by (rule newMap_distinct [OF d])
  show "tally (set (elParticipants elig)) (participantReps rep elig)"
    unfolding tally_def jmapInv_def e using d repOk_amount [OF assms(1)] by auto
  show "fst ` {kv \<in> set (participantReps rep elig). 0 < snd kv} = raters rep elig" unfolding e by force
qed

lemma stage2_run:
  assumes p: "roundOk p" "repOk p rep" and live: "liveOk p n state" and e: "eligOk p n state elig"
  shows "\<exists>st2. stage2 state rep elig p = Inr st2 \<and>
    tally (set (jkeys (stClaims state))) (s2ClaimScores st2) \<and> sumOf snd (s2ClaimScores st2) \<le> participation rep elig \<and>
    tally (claimants state p) (s2ContributorWeights st2) \<and>
    sumOf snd (s2ContributorWeights st2) \<le> sumOf snd (s2ClaimScores st2) \<and>
    tally (claimants state p \<union> raters rep elig) (s2CombinedWeights st2) \<and>
    sumOf snd (s2CombinedWeights st2) \<le> coPrecisionScale p"
proof -
  let ?s = "coPrecisionScale p"
  have s: "0 < ?s" "?s \<le> U256_MAX" "0 \<le> coEvaluatorCarveoutBps p" "?s * coEvaluatorCarveoutBps p \<le> U256_MAX"
    using p(1) by (auto simp: roundOk_def)
  obtain scores where sc: "claimScoresOf rep elig ?s = Inr scores" using claimScores_run [OF p e] by blast
  note sf = claimScores_facts [OF p e live sc]
  have "sumOf snd scores \<le> U256_MAX" using sf(2,3) s(2) by linarith
  from contributorWeights_run [OF p(1) live sf(1) this] obtain w where w: "contributorWeightsOf state p scores = Inr w"
    "tally (claimants state p) w" "sumOf snd w \<le> sumOf snd scores" by blast
  let ?raw = "?s * coEvaluatorCarveoutBps p div 10000"
  have raw: "0 \<le> ?raw" "?raw \<le> U256_MAX"
  proof -
    show "0 \<le> ?raw" using s by (simp add: pos_imp_zdiv_nonneg_iff)
    have "0 \<le> ?s * coEvaluatorCarveoutBps p" using s by simp
    then have "?raw \<le> ?s * coEvaluatorCarveoutBps p" using zdiv_mono2 [of "?s * coEvaluatorCarveoutBps p" 1 10000] by simp
    with s(4) show "?raw \<le> U256_MAX" by linarith
  qed
  then have md: "mulDiv ?s (coEvaluatorCarveoutBps p) 10000 = Inr ?raw" using s by (simp add: mulDiv_Inr)
  let ?beta = "if ?raw > ?s then ?s else ?raw"
  have d: "distinct (elParticipants elig)" using e by (simp add: eligOk_def)
  note pr = participantReps_tally [OF p(2) d]
  have "0 \<le> ?beta" "?beta \<le> ?s" using raw s by auto
  from combineWeights_run [OF this s(2) w(2) pr(1) subset_UNIV subset_UNIV] obtain m where
    m: "combineWeights ?s ?beta w (participantReps rep elig) = Inr m" "tally UNIV m" "sumOf snd m \<le> ?s"
    "set (jkeys m) \<subseteq> set (jkeys w) \<union> raters rep elig" unfolding pr(2) by blast
  have "set (jkeys m) \<subseteq> claimants state p \<union> raters rep elig" using m(4) w(2) unfolding tally_def by blast
  then have "tally (claimants state p \<union> raters rep elig) m" using m(2) unfolding tally_def by blast
  moreover have "stage2 state rep elig p = Inr \<lparr>s2ClaimScores = scores, s2ContributorWeights = w, s2CombinedWeights = m\<rparr>"
    using sc w(1) md m(1) by (simp add: stage2_def Let_def)
  ultimately show ?thesis using sf(1,2) w(2,3) m(3) by simp
qed

section \<open>The whole computation\<close>

definition roundComputable :: "viem \<Rightarrow> ContributionsInput \<Rightarrow> bool" where
  "roundComputable V i \<longleftrightarrow> (let p = inParams i in
     roundOk p \<and> validParams (trustParams p) \<and> 0 \<le> coMinWeightFp p \<and> coMinWeightFp p \<le> coMaxWeightFp p \<and>
     coMaxWeightFp p * int (length (inTrustEdges i)) \<le> U256_MAX \<and> 0 \<le> coTotalPool p \<and> coTotalPool p \<le> U256_MAX \<and>
     (\<exists>a. accumulate V (inTrustEdges i) = Inr a) \<and> (\<exists>a. accumulate V (inRecords i) = Inr a) \<and>
     (\<exists>h. contributionsParamsHash V p = Inr h) \<and> (\<forall>r \<in> set (inRecords i). length (eAttester r) \<le> 66))"

lemma reputation_run:
  assumes v: "validParams (trustParams p)" and w: "0 \<le> coMinWeightFp p" "coMinWeightFp p \<le> coMaxWeightFp p"
    "coMaxWeightFp p * int (length es) \<le> U256_MAX"
  shows "\<exists>rep. reputation V es p = Inr rep \<and> repOk p rep"
proof -
  let ?p = "trustParams p"
  have tp: "minWeightFp ?p = coMinWeightFp p" "maxWeightFp ?p = coMaxWeightFp p" "precisionScale ?p = coPrecisionScale p"
    by (simp_all add: trustParams_def)
  obtain g where g: "buildGraph V es ?p = Inr g" using buildGraph_total [of ?p V es] v by (auto simp: validParams_def)
  obtain rank where rk: "calculateDetailed g ?p = Inr rank" and ok: "scoresOk ?p (rankNodesOf g ?p) (rrScores rank)"
    using run_total [OF v buildGraph_rankable [OF g]] w unfolding tp by blast
  have "distinct (jkeys (rrScores rank))" using ok by (simp add: scoresOk_def)
  then have "repOk p (rrScores rank)" using ok by (simp add: repOk_def tally_def jmapInv_def scoresOk_def tp)
  then show ?thesis using g rk by (simp add: reputation_def calculate_def)
qed

lemma weights_scorable:
  assumes "tally A m" and "\<forall>a \<in> A. canonical a" and "sumOf snd m \<le> U256_MAX"
  shows "scorable (sortBy (\<lambda>a b. cmpHex (fst a) (fst b)) (filter (\<lambda>(a, v). v \<noteq> 0) m))"
proof -
  let ?f = "filter (\<lambda>(a, v). v \<noteq> 0) m"
  let ?w = "sortBy (\<lambda>a b. cmpHex (fst a) (fst b)) ?f"
  have "distinct (jkeys ?f)" using assms(1) by (simp add: tally_def jmapInv_def distinct_map_filter)
  then have d: "distinct (jkeys ?w)" unfolding distinct_map_sortBy .
  have can: "\<forall>k \<in> set (jkeys ?w). canonical k" using assms(1,2) by (fastforce simp: tally_def)
  have "claimTotal (filter (\<lambda>(_, v). v > 0) ?w) \<le> sumOf snd m"
  proof -
    have nn: "\<And>e. e \<in> set m \<Longrightarrow> 0 \<le> snd e" using assms(1) by (simp add: tally_def)
    have "claimTotal (filter (\<lambda>(_, v). v > 0) ?w) = sumOf snd (filter (\<lambda>e. snd e > 0) ?w)"
      by (simp add: claimTotal_def case_prod_unfold)
    also have "\<dots> = sumOf snd ?w" using nn by (intro sumOf_filter_zero) force
    also have "\<dots> = sumOf snd ?f" by (rule sum_list_sortBy)
    also have "\<dots> = sumOf snd m" by (rule sumOf_filter_zero) auto
    finally show ?thesis by simp
  qed
  with assms(3) d can show ?thesis by (simp add: scorable_def)
qed

end
