(* ===== verification/ContributionRun.thy ===== *)
theory ContributionRun
  imports ContributionWeights
begin

text \<open>
  The run of a contributions round, and the displayed split of a pool.
\<close>

lemma tally_empty:
  assumes "tally A m"
  shows "(\<forall>e \<in> set m. \<not> 0 < snd e) \<longleftrightarrow> sumOf snd m = 0"
proof
  have nn: "\<And>e. e \<in> set m \<Longrightarrow> 0 \<le> snd e" using assms by (simp add: tally_def)
  assume "\<forall>e \<in> set m. \<not> 0 < snd e"
  then show "sumOf snd m = 0" using nn by (intro sumOf_zero) force
next
  have nn: "\<And>e. e \<in> set m \<Longrightarrow> 0 \<le> snd e" using assms by (simp add: tally_def)
  assume "sumOf snd m = 0"
  then show "\<forall>e \<in> set m. \<not> 0 < snd e" using sumOf_member [of m snd, OF nn] by fastforce
qed

lemma contributions_run:
  assumes c: "roundComputable V i" and laws: "padLaw V" "toHexLaw V" "bytesLaw V"
  shows "\<exists>r. computeContributions V i = Inr r \<and> sumOf snd (coScores r) = jTotalValue (coJournal r) \<and>
    sorted_wrt (<) (jkeys (coScores r)) \<and> (\<forall>(a, v) \<in> set (coScores r). 0 < v) \<and>
    jTotalValue (coJournal r) =
      (if sumOf snd (s2CombinedWeights (coStage2 r)) = 0 then 0 else coTotalPool (inParams i)) \<and>
    (\<forall>a \<in> set (jkeys (coScores r)).
       entitled (coLiveState r) (inParams i) a \<or> a \<in> raters (coReputation r) (coEligibility r)) \<and>
    sumOf snd (coClaimScores r) \<le> participation (coReputation r) (coEligibility r) \<and>
    sumOf snd (s2ContributorWeights (coStage2 r)) \<le> sumOf snd (coClaimScores r) \<and>
    sumOf snd (s2CombinedWeights (coStage2 r)) \<le> coPrecisionScale (inParams i)"
proof -
  let ?p = "inParams i" and ?cmp = "\<lambda>a b :: hex \<times> int. cmpHex (fst a) (fst b)"
  from c obtain a1 b1 a2 b2 h where ro: "roundOk ?p" and v: "validParams (trustParams ?p)"
    and w: "0 \<le> coMinWeightFp ?p" "coMinWeightFp ?p \<le> coMaxWeightFp ?p"
      "coMaxWeightFp ?p * int (length (inTrustEdges i)) \<le> U256_MAX"
    and pool: "0 \<le> coTotalPool ?p" "coTotalPool ?p \<le> U256_MAX"
    and enc: "accumulate V (inTrustEdges i) = Inr (a1, b1)" "accumulate V (inRecords i) = Inr (a2, b2)"
      "contributionsParamsHash V ?p = Inr h"
    and short: "\<forall>r \<in> set (inRecords i). length (eAttester r) \<le> 66"
    unfolding roundComputable_def Let_def by (metis surj_pair)
  obtain rep where rep: "reputation V (inTrustEdges i) ?p = Inr rep" "repOk ?p rep" using reputation_run [OF v w] by blast
  let ?st = "reconcile V (inRecords i) ?p"
  have live: "liveOk ?p 66 ?st" by (rule reconcile_ok [OF laws(3) short])
  let ?el = "partitioned ?st rep ?p (valuationEntries ?st)"
  have el: "eligibility ?st rep ?p = Inr ?el" by (rule eligibility_partitioned [OF live])
  have eok: "eligOk ?p 66 ?st ?el" by (rule partitioned_ok [OF live]) (use ro in \<open>auto simp: roundOk_def\<close>)
  let ?A = "claimants ?st ?p \<union> raters rep ?el"
  from stage2_run [OF ro rep(2) live eok] obtain st2 where st2: "stage2 ?st rep ?el ?p = Inr st2"
    and sums: "sumOf snd (s2ClaimScores st2) \<le> participation rep ?el"
      "sumOf snd (s2ContributorWeights st2) \<le> sumOf snd (s2ClaimScores st2)"
    and tal: "tally ?A (s2CombinedWeights st2)" "sumOf snd (s2CombinedWeights st2) \<le> coPrecisionScale ?p" by blast
  have A: "canonical a \<and> length a \<le> 66" if "a \<in> ?A" for a using that eok by (auto simp: eligOk_def)
  let ?w = "sortBy ?cmp (filter (\<lambda>(a, v). v \<noteq> 0) (s2CombinedWeights st2))"
  have "sumOf snd (s2CombinedWeights st2) \<le> U256_MAX" using tal(2) ro unfolding roundOk_def by linarith
  then have sc: "scorable ?w" using A by (intro weights_scorable [OF tal(1)]) blast+
  have tp: "totalPool (trustParams ?p) = coTotalPool ?p" by (simp add: trustParams_def)
  from distributePoints_facts [OF sc, of "trustParams ?p"] pool(1) obtain assigned tot where
    d: "distributePoints ?w (trustParams ?p) = Inr (assigned, tot)" "sumOf snd assigned = tot"
      "sorted_wrt (<) (jkeys assigned)" "set (jkeys assigned) \<subseteq> fst ` set ?w" "\<forall>(k, v) \<in> set assigned. 0 < v"
    and t: "tot = (if filter (\<lambda>(_, v). v > 0) ?w = [] then 0 else coTotalPool ?p)" unfolding tp by blast
  have tot: "tot \<in> {0, coTotalPool ?p}" unfolding t by simp
  have "filter (\<lambda>(_, v). v > 0) ?w = [] \<longleftrightarrow> (\<forall>e \<in> set (s2CombinedWeights st2). \<not> 0 < snd e)"
    by (fastforce simp: filter_empty_conv)
  also have "\<dots> \<longleftrightarrow> sumOf snd (s2CombinedWeights st2) = 0" by (rule tally_empty [OF tal(1)])
  finally have tval: "tot = (if sumOf snd (s2CombinedWeights st2) = 0 then 0 else coTotalPool ?p)" unfolding t by simp
  have sub: "set (jkeys assigned) \<subseteq> ?A" using d(4) tal(1) unfolding tally_def by auto
  have srt: "sortBy ?cmp assigned = assigned" using d(3) sub A by (intro sortBy_sorted_keys) blast+
  have leaf: "\<exists>l. outputLeaf V a x = Inr l" if m: "(a, x) \<in> set assigned" for a x
  proof (rule outputLeaf_total [OF laws(1,2)])
    have "a \<in> set (jkeys assigned)" using m by force
    then show "length a \<le> 66" using sub A by blast
    have nn: "0 \<le> snd e" if "e \<in> set assigned" for e using that d(5) by fastforce
    then show "0 \<le> x" using m by fastforce
    have "x \<le> sumOf snd assigned" using sumOf_member [of assigned snd "(a, x)"] nn m by simp
    with d(2) tot pool show "x \<le> U256_MAX" by (auto simp: U256_MAX_def)
  qed
  then obtain leaves where ls: "mapE (\<lambda>(a, v). outputLeaf V a v) assigned = Inr leaves"
    using mapE_ok_iff [of "\<lambda>(a, v). outputLeaf V a v" assigned] by fastforce
  obtain root where root: "merkleRoot V leaves = Inr root" using merkleRoot_total by blast
  obtain cid where cid: "cidV1Raw (sha256Utf8 V (canonicalBlob assigned)) = Inr cid" using cidV1Raw_sha by blast
  have ent: "\<forall>a \<in> set (jkeys assigned). entitled ?st ?p a \<or> a \<in> raters rep ?el" using sub by blast
  have "\<exists>r. computeContributions V i = Inr r \<and> coScores r = assigned \<and> jTotalValue (coJournal r) = tot \<and>
    coLiveState r = ?st \<and> coReputation r = rep \<and> coEligibility r = ?el \<and> coClaimScores r = s2ClaimScores st2 \<and> coStage2 r = st2"
    unfolding computeContributions_def Let_def
    by (simp add: enc rep(1) el st2 d(1) srt ls root cid del: set_map)
  then obtain r where r: "computeContributions V i = Inr r" "coScores r = assigned" "jTotalValue (coJournal r) = tot"
    "coLiveState r = ?st" "coReputation r = rep" "coEligibility r = ?el" "coClaimScores r = s2ClaimScores st2"
    "coStage2 r = st2" by blast
  show ?thesis
    by (rule exI [of _ r]) (use r d(2,3,5) tval ent sums tal(2) in simp)
qed

lemma contributions_parts:
  assumes "computeContributions V i = Inr r"
  shows "reputation V (inTrustEdges i) (inParams i) = Inr (coReputation r)"
    and "coLiveState r = reconcile V (inRecords i) (inParams i)"
    and "eligibility (coLiveState r) (coReputation r) (inParams i) = Inr (coEligibility r)"
    and "stage2 (coLiveState r) (coReputation r) (coEligibility r) (inParams i) = Inr (coStage2 r)"
  using assms unfolding computeContributions_def Let_def by (elim bindE_InrE; auto simp: result_simps)+

section \<open>The displayed pool\<close>

lemma projectRows_run:
  assumes T: "0 < T" and pool: "0 \<le> pool" and es: "es \<noteq> []" "\<forall>e \<in> set es. 0 \<le> snd e"
    and left: "sumOf (\<lambda>e. pool * snd e div T) es \<le> pr" "pr \<le> sumOf (\<lambda>e. pool * snd e div T) es + k"
  shows "\<exists>rows. projectRows pool T pr br es = Inr rows \<and> map (\<lambda>r. (pjClaimUid r, pjScoreFp r)) rows = es \<and>
    sumOf pjPayout rows = pr \<and> sumOf pjShareBps rows = br \<and>
    (\<forall>r \<in> set rows. pool * pjScoreFp r div T \<le> pjPayout r \<and> pjPayout r \<le> pool * pjScoreFp r div T + k)"
  using es left
proof (induction es arbitrary: pr br)
  case (Cons e es)
  show ?case
  proof (cases "es = []")
    case True
    with Cons.prems show ?thesis by simp
  next
    case False
    let ?q = "pool * snd e div T" and ?b = "10000 * snd e div T"
    from Cons.IH [OF False, of "pr - ?q" "br - ?b"] Cons.prems obtain rows where
      rows: "projectRows pool T (pr - ?q) (br - ?b) es = Inr rows" "map (\<lambda>r. (pjClaimUid r, pjScoreFp r)) rows = es"
      "sumOf pjPayout rows = pr - ?q" "sumOf pjShareBps rows = br - ?b"
      "\<forall>r \<in> set rows. pool * pjScoreFp r div T \<le> pjPayout r \<and> pjPayout r \<le> pool * pjScoreFp r div T + k" by auto
    have "sumOf (\<lambda>e. pool * snd e div T) es \<le> pr - ?q" "pr - ?q \<le> sumOf (\<lambda>e. pool * snd e div T) es + k"
      using Cons.prems by auto
    then have k: "0 \<le> k" by linarith
    have "bigDiv (pool * snd e) T = Inr ?q" "bigDiv (10000 * snd e) T = Inr ?b"
      using Cons.prems T pool by (simp_all add: bigDiv_pos)
    moreover obtain f fs where "es = f # fs" using False by (cases es) auto
    ultimately show ?thesis using rows k by simp
  qed
qed simp

lemma projectContributionPool_run:
  assumes "0 \<le> pool"
  shows "\<exists>rows. projectContributionPool scores pool = Inr rows \<and>
    map (\<lambda>r. (pjClaimUid r, pjScoreFp r)) rows = projectEntries scores \<and>
    (rows \<noteq> [] \<longrightarrow> sumOf pjPayout rows = pool \<and> sumOf pjShareBps rows = 10000 \<and>
       (\<forall>r \<in> set rows. let T = sumOf pjScoreFp rows in pool * pjScoreFp r div T \<le> pjPayout r \<and>
          pjPayout r < pool * pjScoreFp r div T + int (length rows)))"
proof -
  let ?es = "projectEntries scores" and ?T = "sumOf snd (projectEntries scores)"
  let ?f = "\<lambda>e :: string \<times> int. pool * snd e"
  have pos: "\<forall>e \<in> set ?es. 0 < snd e" by (simp add: projectEntries_def)
  show ?thesis
  proof (cases "?es = []")
    case True
    then show ?thesis by (simp add: projectContributionPool_def Let_def)
  next
    case False
    then have T: "0 < ?T" using pos by (intro sumOf_pos) auto
    have sum: "sumOf ?f ?es = pool * ?T" by (rule sumOf_scale)
    have "sumOf (\<lambda>e. ?f e div ?T) ?es * ?T \<le> pool * ?T" using sumOf_div [OF T, of ?f ?es] sum by simp
    then have lo: "sumOf (\<lambda>e. ?f e div ?T) ?es \<le> pool" using T by simp
    have "sumOf ?f ?es = sumOf (\<lambda>e. ?T * (?f e div ?T)) ?es + sumOf (\<lambda>e. ?f e mod ?T) ?es"
      by (simp flip: sum_list_addf)
    then have "pool * ?T = ?T * sumOf (\<lambda>e. ?f e div ?T) ?es + sumOf (\<lambda>e. ?f e mod ?T) ?es"
      unfolding sum sumOf_scale .
    moreover have "sumOf (\<lambda>e. ?f e mod ?T) ?es < ?T * int (length ?es)"
      using False T by (intro sumOf_strict_bound) auto
    ultimately have "?T * pool < ?T * (sumOf (\<lambda>e. ?f e div ?T) ?es + int (length ?es))" by (simp add: algebra_simps)
    then have hi: "pool \<le> sumOf (\<lambda>e. ?f e div ?T) ?es + (int (length ?es) - 1)" using T by simp
    have "\<forall>e \<in> set ?es. 0 \<le> snd e" using pos by (simp add: less_imp_le)
    from projectRows_run [OF T assms False this lo hi, of 10000] obtain rows where
      rows: "projectRows pool ?T pool 10000 ?es = Inr rows" "map (\<lambda>r. (pjClaimUid r, pjScoreFp r)) rows = ?es"
      "sumOf pjPayout rows = pool" "sumOf pjShareBps rows = 10000"
      "\<forall>r \<in> set rows. pool * pjScoreFp r div ?T \<le> pjPayout r \<and>
         pjPayout r \<le> pool * pjScoreFp r div ?T + (int (length ?es) - 1)" by blast
    have len: "length rows = length ?es" using rows(2) by (metis length_map)
    have "map pjScoreFp rows = map snd ?es" unfolding rows(2) [symmetric] by simp
    then have sc: "sumOf pjScoreFp rows = ?T" by (simp only:)
    have "projectContributionPool scores pool = Inr rows" using rows(1) T by (simp add: projectContributionPool_def Let_def)
    moreover have "\<forall>r \<in> set rows. let T = sumOf pjScoreFp rows in pool * pjScoreFp r div T \<le> pjPayout r \<and>
          pjPayout r < pool * pjScoreFp r div T + int (length rows)"
      unfolding sc len Let_def using rows(5) by force
    ultimately show ?thesis using rows(2-4) by blast
  qed
qed

end
