(* ===== verification/ContributionAbi.thy ===== *)
theory ContributionAbi
  imports ContributionPayloads
begin

text \<open>
  The ABI encoding of the payloads, as a reference the decoders are read against.
\<close>

section \<open>The ABI encoding of the payloads\<close>

text \<open>\<open>n\<close> in \<open>k\<close> bytes, most significant first.\<close>

fun wordBytes :: "nat \<Rightarrow> nat \<Rightarrow> bytes" where
  "wordBytes 0 n = []"
| "wordBytes (Suc k) n = wordBytes k (n div 256) @ [of_nat n]"

definition abiUint :: "nat \<Rightarrow> bytes" where
  "abiUint n = wordBytes 32 n"

definition abiBytes :: "bytes \<Rightarrow> bytes" where
  "abiBytes bs = abiUint (length bs) @ bs @ replicate ((32 - length bs mod 32) mod 32) 0"

definition abiAddress :: "bytes \<Rightarrow> bytes" where
  "abiAddress a = replicate 12 0 @ a"

definition claimBytes :: "bytes \<Rightarrow> bytes \<Rightarrow> bytes \<Rightarrow> bytes list \<Rightarrow> nat list \<Rightarrow> bytes" where
  "claimBytes title contentHash uri contributors shares =
     (let t = abiBytes title; u = abiBytes uri;
          c = abiUint (length contributors) @ concat (map abiAddress contributors);
          s = abiUint (length shares) @ concat (map abiUint shares) in
      abiUint 160 @ contentHash @ abiUint (160 + length t) @ abiUint (160 + length t + length u) @
      abiUint (160 + length t + length u + length c) @ t @ u @ c @ s)"

lemma length_wordBytes [simp]: "length (wordBytes k n) = k"
  by (induction k arbitrary: n) auto

lemma length_abiUint [simp]: "length (abiUint n) = 32"
  by (simp add: abiUint_def)

lemma length_abiBytes: "32 dvd length (abiBytes bs)"
proof -
  have "(length bs + (32 - length bs mod 32) mod 32) mod 32 = 0"
  proof (cases "length bs mod 32 = 0")
    case False
    then have "(32 - length bs mod 32) mod 32 = 32 - length bs mod 32" by simp
    moreover have "(length bs + (32 - length bs mod 32)) mod 32 = (length bs mod 32 + (32 - length bs mod 32)) mod 32"
      by (rule mod_add_left_eq [symmetric])
    moreover have "length bs mod 32 + (32 - length bs mod 32) = 32" using mod_less_divisor [of 32 "length bs"] by linarith
    ultimately show ?thesis by simp
  qed simp
  then show ?thesis by (simp add: abiBytes_def mod_eq_0_iff_dvd)
qed

lemma byte_split: "int x = int (x div 256) * 256 + int (x mod 256)"
  by (metis div_mult_mod_eq of_nat_add of_nat_mult of_nat_numeral)

lemma wordBytes_value: "n < 256 ^ k \<Longrightarrow> foldl (\<lambda>v b. push_bit 8 v OR uint b) v (wordBytes k n) = v * 256 ^ k + int n"
proof (induction k arbitrary: n v)
  case (Suc k)
  then have "n div 256 < 256 ^ k" by (simp add: less_mult_imp_div_less mult.commute)
  from Suc.IH [OF this] have "foldl (\<lambda>v b. push_bit 8 v OR uint b) v (wordBytes (Suc k) n) =
    (v * 256 ^ k + int (n div 256)) * 256 + uint (of_nat n :: 8 word)"
    by (simp add: shift_or_byte)
  moreover have "uint (of_nat n :: 8 word) = int (n mod 256)" by (simp add: unsigned_of_nat take_bit_eq_mod)
  moreover note byte_split [of n]
  ultimately show ?case by (simp add: algebra_simps)
qed simp

lemma wordAsUsize_uint: "n < 2 ^ 32 \<Longrightarrow> wordAsUsize (abiUint n) = Some n"
proof -
  assume n: "n < 2 ^ 32"
  then have "n < 256 ^ 32" by simp
  from wordBytes_value [OF this, of 0] n show ?thesis by (simp add: wordAsUsize_def abiUint_def Let_def)
qed

lemma wordBytes_zeros: "n < 256 ^ k \<Longrightarrow> wordBytes (m + k) n = replicate m 0 @ wordBytes k n"
proof (induction k arbitrary: n)
  case 0
  have "wordBytes m 0 = replicate m 0" by (induction m) (auto simp: replicate_append_same)
  with 0 show ?case by simp
next
  case (Suc k)
  then have "n div 256 < 256 ^ k" by (simp add: less_mult_imp_div_less mult.commute)
  with Suc show ?case by simp
qed

lemma zeroBytes_replicate: "n \<le> m \<Longrightarrow> zeroBytes n (replicate m 0 @ ys)"
  by (simp add: zeroBytes_def list_all_iff byteAt_def nth_append)

lemma uint_byte: "uint (of_nat n :: 8 word) = int (n mod 256)"
  by (simp add: unsigned_of_nat take_bit_eq_mod)

lemma wordAsU32_uint: "n < 2 ^ 32 \<Longrightarrow> wordAsU32 (abiUint n) = Some (int n)"
proof -
  assume n: "n < 2 ^ 32"
  let ?b = "[of_nat (n div 256 div 256 div 256), of_nat (n div 256 div 256), of_nat (n div 256), of_nat n] :: bytes"
  have "n < 256 ^ 4" using n by simp
  from wordBytes_zeros [OF this, of 28] have w: "abiUint n = replicate 28 0 @ wordBytes 4 n" by (simp add: abiUint_def)
  have four: "4 = Suc (Suc (Suc (Suc 0)))" by simp
  have "wordBytes 4 n = ?b" unfolding four wordBytes.simps by simp
  then have w4: "abiUint n = replicate 28 0 @ ?b" using w by simp
  have at: "byteAt (abiUint n) 28 = Some (of_nat (n div 256 div 256 div 256))"
    "byteAt (abiUint n) 29 = Some (of_nat (n div 256 div 256))"
    "byteAt (abiUint n) 30 = Some (of_nat (n div 256))" "byteAt (abiUint n) 31 = Some (of_nat n)"
    unfolding w4 by (simp_all add: byteAt_def nth_append)
  have "zeroBytes 28 (abiUint n)" unfolding w by (rule zeroBytes_replicate) simp
  moreover have "int (n div 256 div 256 div 256 mod 256) * 0x1000000 + int (n div 256 div 256 mod 256) * 0x10000 +
      int (n div 256 mod 256) * 0x100 + int (n mod 256) = int n"
  proof -
    have "n div 256 < 256 * 256 * 256" by (rule less_mult_imp_div_less) (use n in simp)
    then have "n div 256 div 256 < 256 * 256" by (rule less_mult_imp_div_less)
    then have "n div 256 div 256 div 256 < 256" by (rule less_mult_imp_div_less)
    then have "n div 256 div 256 div 256 mod 256 = n div 256 div 256 div 256" by simp
    then show ?thesis using byte_split [of n] byte_split [of "n div 256"] byte_split [of "n div 256 div 256"] by linarith
  qed
  ultimately show ?thesis by (simp add: wordAsU32_def at uint_byte)
qed

lemma wordAsU8_uint: "n < 256 \<Longrightarrow> wordAsU8 (abiUint n) = Some (int n)"
proof -
  assume n: "n < 256"
  then have "abiUint n = replicate 31 0 @ wordBytes 1 n" using wordBytes_zeros [of n 1 31] by (simp add: abiUint_def)
  then have w: "abiUint n = replicate 31 0 @ [of_nat n]" by (simp add: One_nat_def)
  have "zeroBytes 31 (abiUint n)" unfolding w by (rule zeroBytes_replicate) simp
  moreover have "byteAt (abiUint n) 31 = Some (of_nat n)" unfolding w by (simp add: byteAt_def nth_append)
  ultimately show ?thesis using n by (simp add: wordAsU8_def uint_byte)
qed

lemma wordAsAddress_address: "wordAsAddress V (abiAddress a) = Some (bytesToHex V a)"
  by (simp add: wordAsAddress_def abiAddress_def zeroBytes_replicate)

lemma wordSlot_mid: "length xs = 32 * n \<Longrightarrow> length w = 32 \<Longrightarrow> wordSlot (xs @ w @ ys) n = Some w"
  by (simp add: wordSlot_Some)

lemma readUsize_mid: "length xs = 32 * n \<Longrightarrow> m < 2 ^ 32 \<Longrightarrow> readUsize (xs @ abiUint m @ ys) n = Some m"
  by (simp add: readUsize_def wordSlot_mid wordAsUsize_uint)

lemma readSlots_mid:
  "length xs = 32 * n \<Longrightarrow> \<forall>v \<in> set vs. length (enc v) = 32 \<and> f (enc v) = Some (g v) \<Longrightarrow>
   readSlots f (xs @ concat (map enc vs) @ ys) n (length vs) = Some (map g vs)"
proof (induction vs arbitrary: xs n)
  case (Cons v vs)
  have "readSlots f ((xs @ enc v) @ concat (map enc vs) @ ys) (Suc n) (length vs) = Some (map g vs)"
    by (rule Cons.IH) (use Cons.prems in auto)
  moreover have "wordSlot (xs @ enc v @ concat (map enc vs) @ ys) n = Some (enc v)"
    using Cons.prems by (intro wordSlot_mid) auto
  ultimately show ?case using Cons.prems by simp
qed simp

lemma checkDynamic_mid:
  assumes "32 dvd length xs" and "length bs < 2 ^ 32"
  shows "checkDynamicBytes (xs @ abiBytes bs @ ys) (length xs)"
proof -
  have "wordSlot (xs @ abiUint (length bs) @ (bs @ replicate ((32 - length bs mod 32) mod 32) 0) @ ys) (length xs div 32) =
    Some (abiUint (length bs))"
    by (rule wordSlot_mid) (use assms(1) in auto)
  then show ?thesis
    using assms by (auto simp: checkDynamicBytes_def abiBytes_def wordAsUsize_uint)
qed

lemma decodeClaim_bytes:
  assumes h: "hexToBytes V h = claimBytes title contentHash uri contributors shares"
    and small: "length (hexToBytes V h) < 2 ^ 32" and hash: "length contentHash = 32"
    and n: "length contributors = length shares" "shares \<noteq> []"
    and a: "\<forall>a \<in> set contributors. length a = 20" and s: "\<forall>s \<in> set shares. s < 2 ^ 32" "\<exists>s \<in> set shares. s \<noteq> 0"
  shows "decodeClaim V h = Some \<lparr>clContentHash = bytesToHex V contentHash,
    clContributors = map (bytesToHex V) contributors, clShares = map int shares\<rparr>"
proof -
  define t u where "t = abiBytes title" and "u = abiBytes uri"
  define ca where "ca = concat (map abiAddress contributors)"
  define sa where "sa = concat (map abiUint shares)"
  define o1 o2 o3 where "o1 = 160 + length t" and "o2 = o1 + length u" and "o3 = o2 + 32 + length ca"
  let ?N = "length shares"
  let ?head = "abiUint 160 @ contentHash @ abiUint o1 @ abiUint o2 @ abiUint o3"
  have dat: "hexToBytes V h = ?head @ t @ u @ abiUint ?N @ ca @ abiUint ?N @ sa"
    unfolding h claimBytes_def t_def u_def ca_def sa_def o1_def o2_def o3_def Let_def n(1) by (simp add: add.assoc)
  have div: "32 dvd length t" "32 dvd length u" by (simp_all add: t_def u_def length_abiBytes)
  have "length (abiAddress x) = 32" if "x \<in> set contributors" for x using a that by (simp add: abiAddress_def)
  then have lca: "length ca = 32 * ?N"
    unfolding ca_def n(1) [symmetric] by (induction contributors) auto
  have lt: "length title \<le> length t" "length uri \<le> length u" by (simp_all add: t_def u_def abiBytes_def)
  have total: "o3 + 32 < 2 ^ 32" "?N < 2 ^ 32"
    using small hash lca unfolding dat o1_def o2_def o3_def by auto
  have lsmall: "o1 < 2 ^ 32" "o2 < 2 ^ 32" "o3 < 2 ^ 32" "length title < 2 ^ 32" "length uri < 2 ^ 32"
    using total lt unfolding o1_def o2_def o3_def by auto
  let ?d = "hexToBytes V h"
  have d0: "readUsize ?d 0 = Some 160" using readUsize_mid [of "[]" 0 160] unfolding dat by simp
  have d1: "wordSlot ?d 1 = Some contentHash" using wordSlot_mid [of "abiUint 160" 1 contentHash] hash unfolding dat by simp
  have d2: "readUsize ?d 2 = Some o1" using readUsize_mid [of "abiUint 160 @ contentHash" 2 o1] hash lsmall unfolding dat by simp
  have d3: "readUsize ?d 3 = Some o2"
    using readUsize_mid [of "abiUint 160 @ contentHash @ abiUint o1" 3 o2] hash lsmall unfolding dat by simp
  have d4: "readUsize ?d 4 = Some o3"
    using readUsize_mid [of "abiUint 160 @ contentHash @ abiUint o1 @ abiUint o2" 4 o3] hash lsmall unfolding dat by simp
  have lh: "length ?head = 160" using hash by simp
  have c1: "checkDynamicBytes ?d 160"
    using checkDynamic_mid [of ?head title] lsmall lh unfolding dat t_def by simp
  have c2: "checkDynamicBytes ?d o1"
    using checkDynamic_mid [of "?head @ t" uri] lsmall lh div unfolding dat u_def o1_def by simp
  have m: "o2 mod 32 = 0" "o3 mod 32 = 0" using div lca unfolding o1_def o2_def o3_def by presburger+
  have l2: "length (?head @ t @ u) = 32 * (o2 div 32)" and l3: "length (?head @ t @ u @ abiUint ?N @ ca) = 32 * (o3 div 32)"
    using m lh unfolding o1_def o2_def o3_def by auto
  have n1: "readUsize ?d (o2 div 32) = Some ?N" using readUsize_mid [OF l2 total(2)] unfolding dat by simp
  have n2: "readUsize ?d (o3 div 32) = Some ?N" using readUsize_mid [OF l3 total(2)] unfolding dat by simp
  have r1: "readSlots (wordAsAddress V) ?d (o2 div 32 + 1) ?N = Some (map (bytesToHex V) contributors)"
  proof -
    have "readSlots (wordAsAddress V) ((?head @ t @ u @ abiUint ?N) @ concat (map abiAddress contributors) @ abiUint ?N @ sa)
        (o2 div 32 + 1) (length contributors) = Some (map (bytesToHex V) contributors)"
      by (rule readSlots_mid) (use l2 a wordAsAddress_address in \<open>auto simp: abiAddress_def\<close>)
    then show ?thesis unfolding dat ca_def n(1) by simp
  qed
  have r2: "readSlots wordAsU32 ?d (o3 div 32 + 1) ?N = Some (map int shares)"
  proof -
    have "readSlots wordAsU32 ((?head @ t @ u @ abiUint ?N @ ca @ abiUint ?N) @ concat (map abiUint shares) @ [])
        (o3 div 32 + 1) (length shares) = Some (map int shares)"
      by (rule readSlots_mid) (use l3 s(1) wordAsU32_uint in auto)
    then show ?thesis unfolding dat sa_def by simp
  qed
  have nz: "\<not> list_all (\<lambda>s. s = 0) (map int shares)" using s(2) by (auto simp: list_all_iff)
  show ?thesis
    unfolding decodeClaim_def Let_def
    using n(2) nz by (simp add: d0 d1 d2 d3 d4 c1 c2 m n1 n2 r1 r2 del: One_nat_def)
qed

end
