(* ===== verification/ContributionProps.thy ===== *)
theory ContributionProps
  imports ContributionRun ContributionAbi WeightedProps
begin

text \<open>
  The properties of a contributions round and an example round with one claim and one valuation.
\<close>

section \<open>Properties\<close>

text \<open>
  C23: A contributions round returns for every encodable input with valid parameters, and what it commits
  to adds up: the points listed, strictly ordered by account and each positive, sum to the journal's
  total, which is the pool, or zero when all combined weights are.
\<close>

theorem contributions_total_and_conserving:
  assumes "roundComputable V i" and "padLaw V" and "toHexLaw V" and "bytesLaw V"
  shows "\<exists>r. computeContributions V i = Inr r \<and> sumOf snd (coScores r) = jTotalValue (coJournal r) \<and>
    sorted_wrt (<) (jkeys (coScores r)) \<and> (\<forall>(a, v) \<in> set (coScores r). 0 < v) \<and>
    jTotalValue (coJournal r) =
      (if sumOf snd (s2CombinedWeights (coStage2 r)) = 0 then 0 else coTotalPool (inParams i))"
  using contributions_run [OF assms] by blast

text \<open>
  Points of a round reach only contributors of a live claim who have not refused it, and raters of at
  least one counted valuation who have reputation.
\<close>

lemma contributions_pay_claimants_and_raters:
  assumes "roundComputable V i" and "padLaw V" and "toHexLaw V" and "bytesLaw V"
    and "computeContributions V i = Inr r" and "(a, v) \<in> set (coScores r)"
  shows "entitled (coLiveState r) (inParams i) a \<or>
    a \<in> set (elParticipants (coEligibility r)) \<and> 0 < amountOf (coReputation r) a"
proof -
  have "a \<in> set (jkeys (coScores r))" using assms(6) by force
  then show ?thesis using contributions_run [OF assms(1-4)] assms(5) by force
qed

text \<open>
  Reputation bounds influence.  All claim scores together are at most the reputation of the raters who
  take part, the contributors' weights at most the claim scores, and the combined weights at most the
  precision scale, so no rounding and no discount creates weight.
\<close>

lemma stage2_budgets:
  assumes "roundComputable V i" and "padLaw V" and "toHexLaw V" and "bytesLaw V"
    and "computeContributions V i = Inr r"
  shows "sumOf snd (coClaimScores r) \<le> participation (coReputation r) (coEligibility r) \<and>
    sumOf snd (s2ContributorWeights (coStage2 r)) \<le> sumOf snd (coClaimScores r) \<and>
    sumOf snd (s2CombinedWeights (coStage2 r)) \<le> coPrecisionScale (inParams i)"
  using contributions_run [OF assms(1-4)] assms(5) by auto

text \<open>
  Over a reconciled state the eligibility filter does not throw and is the partition of the live
  valuations by the verdict on each, in the order of claim and rater: no counted valuation is by the
  claim's attester, one of its contributors or a rater below the reputation floor.
\<close>

lemma eligibility_partition:
  assumes "bytesLaw V"
  shows "\<exists>elig. eligibility (reconcile V records p) rep p = Inr elig \<and>
    elig = partitioned (reconcile V records p) rep p (valuationEntries (reconcile V records p)) \<and>
    (\<forall>v \<in> set (elEligible elig). \<exists>claim. jget (stClaims (reconcile V records p)) (evClaimUid v) = Some claim \<and>
       evRater v \<notin> set (jkeys (lvShares claim)) \<and> evRater v \<noteq> lvAttester claim \<and>
       coMinRaterRepFp p \<le> amountOf rep (evRater v))"
proof -
  let ?st = "reconcile V records p" and ?n = "Max (insert 0 ((length \<circ> eAttester) ` set records))"
  have live: "liveOk p ?n ?st" by (rule reconcile_ok [OF assms]) (auto intro: Max_ge)
  let ?el = "partitioned ?st rep p (valuationEntries ?st)"
  have "\<exists>claim. jget (stClaims ?st) (evClaimUid v) = Some claim \<and> evRater v \<notin> set (jkeys (lvShares claim)) \<and>
      evRater v \<noteq> lvAttester claim \<and> coMinRaterRepFp p \<le> amountOf rep (evRater v)"
    if "v \<in> set (elEligible ?el)" for v
  proof -
    from that obtain e where e: "e \<in> set (valuationEntries ?st)" "verdict ?st rep p e = None" "v = countedVote ?st p e"
      by (auto simp: partitioned_def)
    from liveOk_entry(1) [OF live e(1)] obtain claim where "jget (stClaims ?st) (fst e) = Some claim"
      unfolding jhas_def by blast
    with e(2,3) show ?thesis by (auto simp: verdict_def countedVote_def split: if_splits)
  qed
  with eligibility_partitioned [OF live] show ?thesis by blast
qed

text \<open>
  C24: The live sets, read off the record log by position.  A record counts unless it is a revocation or a revocation
  of whatever kind, anywhere in the log, names its identifier.  The live claim of an identifier is the newest counting
  claim of the window that decodes, with the shares listed for each contributor added up; a response counts if the
  newest claim it names lists its author, a valuation if there is a claim it names; and for each claim and author the
  newest one decides, by timestamp and within a timestamp by position in the log.
\<close>

theorem reconcile_last_write:
  "(case jget (stClaims (reconcile V records p)) uid of
      None \<Rightarrow> \<nexists>i. claimAt V p records uid i
    | Some c \<Rightarrow> \<exists>i. newestEvent records (claimAt V p records uid) i \<and> claimReads V (records ! i) c) \<and>
   (jget (stResponses (reconcile V records p)) key = Some v \<longleftrightarrow> (\<exists>i d. newestEvent records (responseAt V p records key) i \<and>
      decodeResponse V (eData (records ! i)) = Some d \<and> rsResponse d = v)) \<and>
   (jget (stValuations (reconcile V records p)) key = Some s \<longleftrightarrow> (\<exists>i d. newestEvent records (valuationAt V p records key) i \<and>
      decodeValuation V (eData (records ! i)) = Some d \<and> vaScore d = s))"
  by (intro conjI claims_read responses_at valuations_at)

text \<open>
  Decoding the ABI encoding of a claim gives back its content hash, its contributors and its shares,
  whatever the title and the link.
\<close>

lemma claim_roundtrip:
  assumes "hexToBytes V h = claimBytes title contentHash uri contributors shares"
    and "length (hexToBytes V h) < 2 ^ 32" and "length contentHash = 32"
    and "length contributors = length shares" and "\<forall>a \<in> set contributors. length a = 20"
    and "\<forall>s \<in> set shares. s < 2 ^ 32" and "\<exists>s \<in> set shares. s \<noteq> 0"
  shows "decodeClaim V h = Some \<lparr>clContentHash = bytesToHex V contentHash,
    clContributors = map (bytesToHex V) contributors, clShares = map int shares\<rparr>"
proof -
  have "shares \<noteq> []" using assms(7) by auto
  from decodeClaim_bytes [OF assms(1-4) this assms(5-7)] show ?thesis .
qed

text \<open>
  The displayed split of a pool is exact: the payouts sum to the pool, the basis points to 10000, and
  each payout is its proportion rounded down, plus less than one unit per row for the last.
\<close>

lemma projection_exact:
  assumes "0 \<le> pool"
  shows "\<exists>rows. projectContributionPool scores pool = Inr rows \<and>
    map (\<lambda>r. (pjClaimUid r, pjScoreFp r)) rows = projectEntries scores \<and>
    (rows \<noteq> [] \<longrightarrow> sumOf pjPayout rows = pool \<and> sumOf pjShareBps rows = 10000 \<and>
       (\<forall>r \<in> set rows. let T = sumOf pjScoreFp rows in pool * pjScoreFp r div T \<le> pjPayout r \<and>
          pjPayout r < pool * pjScoreFp r div T + int (length rows)))"
  by (rule projectContributionPool_run [OF assms])

section \<open>An example round\<close>

definition roundUid :: hex where
  "roundUid = bytesToHex exampleViem (replicate 32 1)"

definition roundAccount :: hex where
  "roundAccount = bytesToHex exampleViem (replicate 20 17)"

definition roundClaim :: RawEdge where
  "roundClaim = \<lparr>eKind = 0, eAttester = ''0xa'', eRecipient = ''0x'', eUid = roundUid, eBlockTimestamp = 5,
     eData = bytesToHex exampleViem (claimBytes [] (replicate 32 0) [] [replicate 20 17] [1])\<rparr>"

definition roundVote :: RawEdge where
  "roundVote = \<lparr>eKind = 4, eAttester = ''0xb'', eRecipient = ''0x'', eUid = ''0x2'', eBlockTimestamp = 6,
     eData = bytesToHex exampleViem (replicate 32 1 @ abiUint 50)\<rparr>"

definition roundParams :: ContributionsParams where
  "roundParams = \<lparr>coDampingFp = 850, coToleranceFp = 5, coMaxIterations = 2, coMinWeightFp = 7,
     coMaxWeightFp = 100000, coTrustShareFp = 600, coTrustDecayFp = 800, coTrustedSeeds = [''0xA''],
     coPrecisionScale = 1000, coWeightFieldIndex = 0, coRoundStart = 1, coRoundEnd = 9, coUnacceptedMultFp = 500,
     coCollaboratorMultFp = 500, coMinRaterRepFp = 100, coEvaluatorCarveoutBps = 100, coTotalPool = 1000,
     coClaimSchemaUid = ZERO_HASH, coResponseSchemaUid = ZERO_HASH, coValuationSchemaUid = ZERO_HASH\<rparr>"

definition exampleRound :: ContributionsInput where
  "exampleRound = \<lparr>inTrustEdges = exampleEvents, inRecords = [roundClaim, roundVote], inParams = roundParams,
     inBinding = None\<rparr>"

lemma nibblePairs_byte: "nibblePairs (hexDigits 2 (unat b) @ s) = b # nibblePairs s"
proof -
  have nib: "nibble (hexDigitChar d) = d" if "d < 16" for d
    using that hexValue_digit [OF that] by (simp add: nibble_def Let_def of_hexDigitChar)
  have "unat b < 2 ^ LENGTH(8)" by (rule unsigned_less)
  then have "unat b < 256" by simp
  then have q: "unat b div 16 < 16" by simp
  have "hexDigits 2 (unat b) = [hexDigitChar (unat b div 16), hexDigitChar (unat b mod 16)]"
    using q by (simp add: numeral_2_eq_2)
  then show ?thesis using nib [OF q] nib [of "unat b mod 16"] by simp
qed

lemma example_bytes: "hexToBytes exampleViem (bytesToHex exampleViem bs) = bs"
proof -
  have "nibblePairs (concat (map (\<lambda>b. hexDigits 2 (unat b)) bs)) = bs" by (induction bs) (simp_all add: nibblePairs_byte)
  then show ?thesis by (simp add: exampleViem_def)
qed

lemma round_claim_payload: "decodeClaim exampleViem (eData roundClaim) =
  Some \<lparr>clContentHash = bytesToHex exampleViem (replicate 32 0), clContributors = [roundAccount], clShares = [1]\<rparr>"
proof -
  have b: "hexToBytes exampleViem (eData roundClaim) = claimBytes [] (replicate 32 0) [] [replicate 20 17] [1]"
    by (simp add: roundClaim_def example_bytes)
  have "length (claimBytes [] (replicate 32 0) [] [replicate 20 17] [1]) < 2 ^ 32"
    by (simp add: claimBytes_def abiBytes_def abiAddress_def Let_def)
  from decodeClaim_bytes [OF b, unfolded b, OF this] show ?thesis by (simp add: roundAccount_def)
qed

lemma claim_roundtrip_witness:
  "decodeClaim exampleViem (eData roundClaim) =
   Some \<lparr>clContentHash = bytesToHex exampleViem (replicate 32 0), clContributors = map (bytesToHex exampleViem) [replicate 20 17],
     clShares = map int [1]\<rparr>"
proof (rule claim_roundtrip)
  show "hexToBytes exampleViem (eData roundClaim) = claimBytes [] (replicate 32 0) [] [replicate 20 17] [1]"
    by (simp add: roundClaim_def example_bytes)
  then show "length (hexToBytes exampleViem (eData roundClaim)) < 2 ^ 32"
    by (simp add: claimBytes_def abiBytes_def abiAddress_def Let_def)
qed simp_all

lemma round_vote_payload: "decodeValuation exampleViem (eData roundVote) = Some \<lparr>vaClaimUid = roundUid, vaScore = 50\<rparr>"
proof -
  have "wordSlot (replicate 32 1 @ abiUint 50) 0 = Some (replicate 32 (1 :: 8 word))"
    "wordSlot (replicate 32 1 @ abiUint 50) 1 = Some (abiUint 50)"
    using wordSlot_mid [of "[]" 0 "replicate 32 1" "abiUint 50"] wordSlot_mid [of "replicate 32 1" 1 "abiUint 50" "[]"] by simp_all
  then show ?thesis
    by (simp add: decodeValuation_def roundVote_def example_bytes wordAsU8_uint roundUid_def Let_def)
qed

lemma round_canonical: "canonical roundUid" "canonical roundAccount" "CHR ''|'' \<notin> set roundUid"
  using canonical_bytesToHex [OF example_bytesLaw] noBar_bytesToHex [OF example_bytesLaw]
  by (simp_all add: roundUid_def roundAccount_def)

definition roundLive :: LiveClaim where
  "roundLive = \<lparr>lvUid = roundUid, lvAttester = ''0xa'', lvBlockTimestamp = 5, lvShares = [(roundAccount, 1)], lvTotalShares = 1\<rparr>"

lemma round_lower: "toLowerCase ''0xa'' = ''0xa''" "toLowerCase ''0xb'' = ''0xb''" "toLowerCase ''0x2'' = ''0x2''"
  by code_simp+

lemma round_records: "liveRecords [roundClaim, roundVote] = [roundClaim, roundVote]"
proof -
  have "orderedEvents [roundClaim, roundVote] = [roundClaim, roundVote]"
    by (simp add: orderedEvents_def cmpEvent_def cmpBig_def roundClaim_def roundVote_def upt_rec)
  moreover have "\<not> isRevoke (eKind roundClaim)" "\<not> isRevoke (eKind roundVote)"
    by (simp_all add: isRevoke_def roundClaim_def roundVote_def)
  ultimately show ?thesis unfolding liveRecords_filter by (simp add: revokedUids_def newSet_def)
qed

lemma round_state: "reconcile exampleViem [roundClaim, roundVote] roundParams =
  \<lparr>stClaims = [(roundUid, roundLive)], stResponses = [], stValuations = [(actorKey roundUid ''0xb'', 50)]\<rparr>"
proof -
  have c: "claimStep exampleViem roundParams [] roundClaim = [(roundUid, roundLive)]"
    using round_claim_payload canonicalD [OF round_canonical(1)] canonicalD [OF round_canonical(2)]
    by (simp add: claimStep_def KIND_CLAIM_ATTEST_def sumShares_def addShare_def orDefault_def roundParams_def roundLive_def Let_def
        round_lower roundClaim_def)
  have "claimStep exampleViem roundParams m roundVote = m" for m by (simp add: claimStep_def KIND_CLAIM_ATTEST_def roundVote_def)
  moreover have "responseStep exampleViem m st roundClaim = st" for m st
    by (simp add: responseStep_def KIND_RESPONSE_ATTEST_def KIND_VALUATION_ATTEST_def roundClaim_def split: prod.splits)
  moreover have "responseStep exampleViem [(roundUid, roundLive)] ([], []) roundVote = ([], [(actorKey roundUid ''0xb'', 50)])"
    using round_vote_payload canonicalD [OF round_canonical(1)]
    by (simp add: responseStep_def KIND_RESPONSE_ATTEST_def KIND_VALUATION_ATTEST_def roundVote_def jhas_def)
  ultimately show ?thesis using c by (simp add: reconcile_def round_records)
qed

lemma round_length: "length roundAccount = 42"
  using bytes_digits(1) [OF example_bytesLaw, of "replicate 20 17"] by (simp add: roundAccount_def exampleViem_def)

lemma round_other: "length k \<noteq> 42 \<Longrightarrow> roundAccount \<noteq> k" "length k \<noteq> 42 \<Longrightarrow> k \<noteq> roundAccount"
  using round_length by blast+

lemma round_entries: "valuationEntries (reconcile exampleViem [roundClaim, roundVote] roundParams) = [(roundUid, ''0xb'', 50)]"
proof -
  have "splitActorKey (actorKey roundUid ''0xb'') = (roundUid, ''0xb'')"
    using splitActorKey_key [OF round_canonical(1,3), of "''0xb''"] by (simp add: round_lower)
  then show ?thesis by (simp add: valuationEntries_def round_state)
qed

lemma round_accumulate: "\<exists>a. accumulate exampleViem [roundClaim, roundVote] = Inr a"
  by (simp add: accumulate_def accumulateStep_def edgeLeaf_def edgeLeafEncoded_def concatE_def roundClaim_def roundVote_def
      wordU8_def wordAddr_def wordU256_def Let_def del: hexDigits.simps)

lemma round_paramsHash: "\<exists>h. contributionsParamsHash exampleViem roundParams = Inr h"
proof -
  obtain root where "contributionsSeedSetRoot exampleViem [''0xA''] = Inr root"
    using merkleRoot_total by (fastforce simp: contributionsSeedSetRoot_def seedSetRoot_def wordAddr_def)
  then show ?thesis
    by (simp add: contributionsParamsHash_def concatE_def roundParams_def CONTRIBUTIONS_SCHEMA_VERSION_def wordU256_def
      wordU32_def wordU64_def del: hexDigits.simps)
qed

lemma round_computable: "roundComputable exampleViem exampleRound"
proof -
  have "validParams (trustParams roundParams)" by code_simp
  moreover have "coMaxWeightFp roundParams * int (length exampleEvents) \<le> U256_MAX" by code_simp
  ultimately show ?thesis
    using example_accumulate round_accumulate round_paramsHash
    by (simp add: roundComputable_def exampleRound_def roundOk_def U256_MAX_def) (simp add: roundParams_def roundClaim_def roundVote_def)
qed

lemma round_laws: "padLaw exampleViem" "toHexLaw exampleViem" "bytesLaw exampleViem"
  using example_bytesLaw by simp_all

theorem contributions_total_and_conserving_witness:
  "\<exists>r. computeContributions exampleViem exampleRound = Inr r \<and> sumOf snd (coScores r) = jTotalValue (coJournal r) \<and>
    sorted_wrt (<) (jkeys (coScores r)) \<and> (\<forall>(a, v) \<in> set (coScores r). 0 < v) \<and>
    jTotalValue (coJournal r) =
      (if sumOf snd (s2CombinedWeights (coStage2 r)) = 0 then 0 else coTotalPool (inParams exampleRound))"
  by (rule contributions_total_and_conserving [OF round_computable round_laws])

lemma round_reputation: "reputation exampleViem exampleEvents roundParams =
  Inr [(''0xa'', 153), (''0xb'', 178), (''0xc'', 669)]"
  by code_simp

definition roundElig :: Eligibility where
  "roundElig = \<lparr>elEligible = [\<lparr>evClaimUid = roundUid, evRater = ''0xb'', evScore = 50, evDiscountFp = 1000\<rparr>],
     elSkipped = [], elParticipants = [''0xb'']\<rparr>"

lemma round_eligibility: "eligibility (reconcile exampleViem [roundClaim, roundVote] roundParams)
    [(''0xa'', 153), (''0xb'', 178), (''0xc'', 669)] roundParams = Inr roundElig"
proof -
  have "coMinRaterRepFp roundParams = 100" "coPrecisionScale roundParams = 1000" by (simp_all add: roundParams_def)
  then show ?thesis unfolding eligibility_def round_entries
    by (simp add: eligibilityStep_def round_state need_def roundLive_def jhas_def
      round_other orDefault_def conflicted_def coClaims_def addPeers_def addPeer_def roundElig_def setAdd_def)
qed

lemma eligibility_partition_witness:
  "\<exists>claim. jget (stClaims (reconcile exampleViem [roundClaim, roundVote] roundParams)) roundUid = Some claim \<and>
     ''0xb'' \<notin> set (jkeys (lvShares claim)) \<and> ''0xb'' \<noteq> lvAttester claim"
  using eligibility_partition [OF example_bytesLaw, of "[roundClaim, roundVote]" roundParams
      "[(''0xa'', 153), (''0xb'', 178), (''0xc'', 669)]"]
  unfolding round_eligibility by (auto simp: roundElig_def)

lemma round_stage2: "\<exists>st2. stage2 (reconcile exampleViem [roundClaim, roundVote] roundParams)
    [(''0xa'', 153), (''0xb'', 178), (''0xc'', 669)] roundElig roundParams = Inr st2 \<and>
    s2CombinedWeights st2 = [(roundAccount, 990), (''0xb'', 10)]"
proof -
  have p: "coPrecisionScale roundParams = 1000" "coUnacceptedMultFp roundParams = 500" "coEvaluatorCarveoutBps roundParams = 100"
    by (simp_all add: roundParams_def)
  have "roundAccount \<noteq> ''0xa''" using round_other by (auto simp: round_length)
  then show ?thesis
    by (simp add: stage2_def p claimScoresOf_def roundElig_def raterBudgets_def bump_def scoreStep_def round_lower
      need_def orDefault_def mulDiv_def fpMul_def bigDiv_def U256_MAX_def canonicalD [OF round_canonical(1)]
      canonicalD [OF round_canonical(2)] contributorWeightsOf_def claimWeights_def round_state roundLive_def weightStep_def
      consentMultFp_def combineWeights_def shareOut_def participantReps_def newMap_def round_other Let_def)
qed

lemma contributions_pay_claimants_and_raters_witness:
  "\<exists>r a v. computeContributions exampleViem exampleRound = Inr r \<and> (a, v) \<in> set (coScores r) \<and>
     (entitled (coLiveState r) roundParams a \<or>
      a \<in> set (elParticipants (coEligibility r)) \<and> 0 < amountOf (coReputation r) a)"
proof -
  obtain r where r: "computeContributions exampleViem exampleRound = Inr r" "sumOf snd (coScores r) = jTotalValue (coJournal r)"
    "jTotalValue (coJournal r) = (if sumOf snd (s2CombinedWeights (coStage2 r)) = 0 then 0 else coTotalPool roundParams)"
    using contributions_run [OF round_computable round_laws] by (auto simp: exampleRound_def)
  note parts = contributions_parts [OF r(1)]
  have rep: "coReputation r = [(''0xa'', 153), (''0xb'', 178), (''0xc'', 669)]"
    using parts(1) round_reputation by (simp add: exampleRound_def)
  have st: "coLiveState r = reconcile exampleViem [roundClaim, roundVote] roundParams" using parts(2) by (simp add: exampleRound_def)
  have "coEligibility r = roundElig" using parts(3) round_eligibility unfolding rep st by (simp add: exampleRound_def)
  then have "s2CombinedWeights (coStage2 r) = [(roundAccount, 990), (''0xb'', 10)]"
    using parts(4) round_stage2 unfolding rep st by (auto simp: exampleRound_def)
  then have "sumOf snd (coScores r) = 1000" using r by (simp add: roundParams_def)
  then obtain a v where "(a, v) \<in> set (coScores r)" by (cases "coScores r") auto
  with contributions_pay_claimants_and_raters [OF round_computable round_laws r(1) this] r(1) show ?thesis
    by (auto simp: exampleRound_def)
qed

lemma stage2_budgets_witness:
  "\<exists>r. computeContributions exampleViem exampleRound = Inr r \<and>
    sumOf snd (s2CombinedWeights (coStage2 r)) \<le> coPrecisionScale (inParams exampleRound)"
proof -
  obtain r where r: "computeContributions exampleViem exampleRound = Inr r"
    using contributions_run [OF round_computable round_laws] by blast
  with stage2_budgets [OF round_computable round_laws r] show ?thesis by blast
qed

lemma projection_exact_witness:
  "\<exists>rows. projectContributionPool [(''0xa'', 1), (''0xB'', 2)] 100 = Inr rows \<and> sumOf pjPayout rows = 100"
proof -
  have low: "toLowerCase ''0xB'' = ''0xb''" by code_simp
  have e: "projectEntries [(''0xa'', 1), (''0xB'', 2)] = [(''0xb'', 2), (''0xa'', 1)]"
    by (simp add: projectEntries_def cmpProjected_def round_lower low)
  obtain rows where rows: "projectContributionPool [(''0xa'', 1), (''0xB'', 2)] 100 = Inr rows"
    "map (\<lambda>r. (pjClaimUid r, pjScoreFp r)) rows = [(''0xb'', 2), (''0xa'', 1)]" "rows \<noteq> [] \<longrightarrow> sumOf pjPayout rows = 100"
    using projection_exact [of 100 "[(''0xa'', 1), (''0xB'', 2)]"] unfolding e by auto
  from rows(2) have "rows \<noteq> []" by auto
  with rows show ?thesis by blast
qed

end
