(* ===== verification/NodeGraph.thy ===== *)
theory NodeGraph
  imports ComputeProps
begin

text \<open>
  Weighted graphs given as lists of edges: the weights a graph accumulates edge by edge, and when such a
  graph can be ranked.  Shared by the programs over node identifiers.
\<close>

section \<open>Adding weights\<close>

text \<open>
  A map of maps; the inner map is a shared object in the source, and storing the updated inner map under its
  (existing or new) key has the same effect and the same insertion order.
\<close>

type_synonym weights = "(hex, (hex, int) jmap) jmap"

definition addWeight :: "hex \<Rightarrow> hex \<Rightarrow> int \<Rightarrow> weights \<Rightarrow> weights" where
  "addWeight source target w outgoing =
     (let inner = orDefault (jget outgoing source) [] in
      jset source (jset target (orDefault (jget inner target) 0 + w) inner) outgoing)"

definition weightAt :: "weights \<Rightarrow> hex \<Rightarrow> hex \<Rightarrow> int option" where
  "weightAt m a r = (case jget m a of None \<Rightarrow> None | Some row \<Rightarrow> jget row r)"

definition wfWeights :: "weights \<Rightarrow> bool" where
  "wfWeights m \<longleftrightarrow> jmapInv m \<and> (\<forall>(a, row) \<in> set m. jmapInv row)"

definition totalWeight :: "weights \<Rightarrow> int" where
  "totalWeight m = sumOf (\<lambda>(a, row). sumOf snd row) m"

lemma weightAt_weightOf: "weightOf g a r = weightAt (gOutgoing g) a r"
  by (simp add: weightOf_def weightAt_def)

lemma jget_jset_neq: "k' \<noteq> k \<Longrightarrow> jget (jset k v m) k' = jget m k'"
  by (simp add: update_conv')

lemma weightAt_add:
  "weightAt (addWeight s t w m) a r =
     (if a = s \<and> r = t then Some (orDefault (weightAt m s t) 0 + w) else weightAt m a r)"
  by (cases "jget m s") (auto simp: weightAt_def addWeight_def Let_def orDefault_def update_conv')

lemma jget_member: "jget m k = Some v \<Longrightarrow> (k, v) \<in> set m"
  by (rule map_of_SomeD)

lemma inner_inv: "wfWeights m \<Longrightarrow> jmapInv (orDefault (jget m s) [])"
  by (cases "jget m s") (auto simp: orDefault_def wfWeights_def jmapInv_def dest!: jget_member)

lemma wfWeights_add: "wfWeights m \<Longrightarrow> wfWeights (addWeight s t w m)"
  using inner_inv [of m s] set_jset
  by (fastforce simp: wfWeights_def addWeight_def Let_def jmapInv_jset)

lemma addWeight_keys:
  "set (jkeys (addWeight s t w m)) = insert s (set (jkeys m))"
  by (auto simp: addWeight_def Let_def keys_update)

lemma sumOf_jset:
  assumes "distinct (jkeys m)"
  shows "sumOf (\<lambda>(k, v). f v) (jset k v m) =
    sumOf (\<lambda>(k, v). f v) m - (case jget m k of None \<Rightarrow> 0 | Some old \<Rightarrow> f old) + f v"
  using assms by (induction m) (auto simp: map_of_eq_None_iff split: option.splits)

lemma totalWeight_add: "wfWeights m \<Longrightarrow> totalWeight (addWeight s t w m) = totalWeight m + w"
proof -
  assume wf: "wfWeights m"
  let ?i = "orDefault (jget m s) []"
  have "sumOf snd (jset t (orDefault (jget ?i t) 0 + w) ?i) = sumOf snd ?i + w"
    using sumOf_jset [of ?i id t] inner_inv [OF wf, of s]
    by (cases "jget ?i t") (auto simp: jmapInv_def orDefault_def case_prod_beta')
  moreover have "(case jget m s of None \<Rightarrow> 0 | Some old \<Rightarrow> sumOf snd old) = sumOf snd ?i"
    by (cases "jget m s") (auto simp: orDefault_def)
  ultimately show ?thesis
    using sumOf_jset [of m "sumOf snd" s] wf
    by (simp add: totalWeight_def addWeight_def Let_def wfWeights_def jmapInv_def)
qed

section \<open>Folding a list of weighted edges\<close>

type_synonym wedge = "hex \<times> hex \<times> int"

definition addAll :: "wedge list \<Rightarrow> weights \<Rightarrow> weights" where
  "addAll es m = foldl (\<lambda>m (s, t, w). addWeight s t w m) m es"

definition between :: "hex \<Rightarrow> hex \<Rightarrow> wedge list \<Rightarrow> wedge list" where
  "between a r es = filter (\<lambda>(s, t, w). s = a \<and> t = r) es"

lemma addAll_Nil [simp]: "addAll [] m = m"
  by (simp add: addAll_def)

lemma addAll_snoc: "addAll (es @ [(s, t, w)]) m = addWeight s t w (addAll es m)"
  by (simp add: addAll_def)

lemma addAll_append: "addAll (es @ fs) m = addAll fs (addAll es m)"
  by (simp add: addAll_def)

lemma addAll_wf: "wfWeights m \<Longrightarrow> wfWeights (addAll es m)"
  by (induction es rule: rev_induct) (auto simp: addAll_snoc wfWeights_add split: prod.splits)

lemma wfWeights_Nil [simp]: "wfWeights []"
  by (simp add: wfWeights_def jmapInv_def)

text \<open>The weight of a pair is the sum of what was added for it.\<close>

lemma addAll_weight:
  "weightAt (addAll es []) a r =
     (if between a r es = [] then None else Some (sumOf (\<lambda>(s, t, w). w) (between a r es)))"
proof (induction es rule: rev_induct)
  case (snoc e es)
  obtain s t w where "e = (s, t, w)" by (cases e)
  with snoc show ?case by (auto simp: addAll_snoc weightAt_add between_def orDefault_def)
qed (simp add: weightAt_def between_def)

lemma addAll_total: "totalWeight (addAll es []) = sumOf (\<lambda>(s, t, w). w) es"
proof (induction es rule: rev_induct)
  case (snoc e es)
  obtain s t w where "e = (s, t, w)" by (cases e)
  with snoc show ?case by (simp add: addAll_snoc totalWeight_add addAll_wf)
qed (simp add: totalWeight_def)

lemma addAll_entry:
  assumes "(a, row) \<in> set (addAll es [])" and "(r, x) \<in> set row"
  shows "x = sumOf (\<lambda>(s, t, w). w) (between a r es)" and "\<exists>w. (a, r, w) \<in> set es"
proof -
  have wf: "wfWeights (addAll es [])" by (rule addAll_wf) simp
  then have "weightAt (addAll es []) a r = Some x"
    using assms by (auto simp: weightAt_def wfWeights_def jmapInv_def)
  with addAll_weight [of es a r] have "between a r es \<noteq> []" "x = sumOf (\<lambda>(s, t, w). w) (between a r es)"
    by (auto split: if_split_asm)
  then show "x = sumOf (\<lambda>(s, t, w). w) (between a r es)" "\<exists>w. (a, r, w) \<in> set es"
    by (auto simp: between_def filter_empty_conv)
qed

lemma addAll_source: "a \<in> set (jkeys (addAll es [])) \<longleftrightarrow> (\<exists>t w. (a, t, w) \<in> set es)"
proof (induction es rule: rev_induct)
  case (snoc e es)
  obtain s t w where "e = (s, t, w)" by (cases e)
  with snoc show ?case by (auto simp: addAll_snoc addWeight_keys simp del: set_map list.set_map)
qed simp

lemma addAll_nonneg:
  assumes "\<forall>(s, t, w) \<in> set es. 0 \<le> w" and "(a, row) \<in> set (addAll es [])" and "(r, x) \<in> set row"
  shows "0 \<le> x"
proof -
  have "0 \<le> sumOf (\<lambda>(s, t, w). w) (between a r es)"
    using assms(1) by (intro sumOf_nonneg) (auto simp: between_def)
  with addAll_entry(1) [OF assms(2,3)] show ?thesis by simp
qed

lemma addAll_outWeight:
  assumes pos: "\<forall>(s, t, w) \<in> set es. 0 \<le> w" and row: "(a, row) \<in> set (addAll es [])"
  shows "outWeight a row \<le> sumOf (\<lambda>(s, t, w). w) es"
proof -
  let ?m = "addAll es []"
  have nn: "0 \<le> snd e" if "(b, rw) \<in> set ?m" "e \<in> set rw" for b rw e
    using addAll_nonneg [OF pos that(1), of "fst e" "snd e"] that(2) by simp
  have "outWeight a row \<le> sumOf snd row" unfolding outWeight_def
    using sumOf_filter_le [of row "\<lambda>_. True" snd "\<lambda>(v, w). eligibleEdge a v w"] nn [OF row] by simp
  also have "\<dots> \<le> totalWeight ?m" unfolding totalWeight_def
  proof -
    have "(\<lambda>(a, row). sumOf snd row) (a, row) \<le> sumOf (\<lambda>(a, row). sumOf snd row) ?m"
    proof (rule sumOf_member)
      fix e assume "e \<in> set ?m"
      then have "0 \<le> sumOf snd (snd e)" by (intro sumOf_nonneg) (rule nn [of "fst e"], simp_all)
      then show "0 \<le> (\<lambda>(a, row). sumOf snd row) e" by (simp add: case_prod_beta)
    qed (rule row)
    then show "sumOf snd row \<le> sumOf (\<lambda>(a, row). sumOf snd row) ?m" by simp
  qed
  finally show ?thesis by (simp only: addAll_total)
qed

text \<open>A graph whose edges were added that way and whose end points are nodes can be ranked.\<close>

lemma addAll_rankable:
  assumes g: "gOutgoing g = addAll es []" and pos: "\<forall>(s, t, w) \<in> set es. 0 \<le> w"
    and ends: "\<forall>(s, t, w) \<in> set es. s \<in> set (rankNodesOf g p) \<and> t \<in> set (rankNodesOf g p)"
    and room: "sumOf (\<lambda>(s, t, w). w) es \<le> U256_MAX"
  shows "rankable g p" and "jmapInv (gOutgoing g)"
proof -
  have wf: "wfWeights (addAll es [])" by (rule addAll_wf) simp
  then show "jmapInv (gOutgoing g)" by (simp add: g wfWeights_def)
  have "a \<in> set (rankNodesOf g p) \<and> set (jkeys row) \<subseteq> set (rankNodesOf g p) \<and> outWeight a row \<le> U256_MAX"
    if row: "(a, row) \<in> set (addAll es [])" for a row
  proof (intro conjI)
    have "a \<in> set (jkeys (addAll es []))" using row by force
    then show "a \<in> set (rankNodesOf g p)" using addAll_source [of a es] ends by blast
    show "set (jkeys row) \<subseteq> set (rankNodesOf g p)"
    proof
      fix r assume "r \<in> set (jkeys row)"
      then obtain x where "(r, x) \<in> set row" by auto
      from addAll_entry(2) [OF row this] ends show "r \<in> set (rankNodesOf g p)" by blast
    qed
    show "outWeight a row \<le> U256_MAX" using addAll_outWeight [OF pos row] room by simp
  qed
  then show "rankable g p" unfolding rankable_def g by blast
qed

end
