(* ===== verification/JsNumbers.thy ===== *)
theory JsNumbers
  imports CompositionChecks
begin

text \<open>
  Integers served as text: \<open>BigInt\<close> of a string and the text \<open>toString\<close> gives of an integer.
\<close>

section \<open>Integers served as text\<close>

datatype served_int = BigValue int | BigText string

definition digitsIn :: "nat \<Rightarrow> string \<Rightarrow> int option" where
  "digitsIn base s =
     (if s \<noteq> [] \<and> list_all (\<lambda>c. case hexValue c of None \<Rightarrow> False | Some d \<Rightarrow> d < base) s
      then Some (foldl (\<lambda>v c. int base * v + int (orDefault (hexValue c) 0)) 0 s) else None)"

text \<open>\<open>BigInt(s)\<close> on a string: blanks around, an empty string is zero, and a sign on decimals only.\<close>

definition bigIntText :: "string \<Rightarrow> int result" where
  "bigIntText s =
     (let t = trim s; prefix = take 2 (toLowerCase t);
          parsed = (if t = [] then Some 0
            else if prefix = ''0x'' then digitsIn 16 (drop 2 t)
            else if prefix = ''0o'' then digitsIn 8 (drop 2 t)
            else if prefix = ''0b'' then digitsIn 2 (drop 2 t)
            else if hd t = CHR ''-'' then map_option uminus (digitsIn 10 (tl t))
            else if hd t = CHR ''+'' then digitsIn 10 (tl t)
            else digitsIn 10 t) in
      case parsed of Some v \<Rightarrow> Inr v
      | None \<Rightarrow> Inl (AppError ''SyntaxError'' (''Cannot convert '' @ s @ '' to a BigInt'')))"

fun bigIntServed :: "served_int \<Rightarrow> int result" where
  "bigIntServed (BigValue v) = Inr v"
| "bigIntServed (BigText s) = bigIntText s"

text \<open>\<open>toString\<close> of a nonnegative integer reads back as it.\<close>

lemma digit_hexValue: "isDigit c \<Longrightarrow> hexValue c = Some (digitVal c) \<and> digitVal c < 10"
  unfolding isDigit_def digitVal_def hexValue_def lowerChar_def Let_def by auto

lemma digitsIn_decimal:
  assumes "s \<noteq> []" and "\<forall>c \<in> set s. isDigit c"
  shows "digitsIn 10 s = Some (int (digitsVal s))"
proof -
  have "foldl (\<lambda>v c. int 10 * v + int (orDefault (hexValue c) 0)) (int k) s = int (foldl (\<lambda>v c. 10 * v + digitVal c) k s)" for k
    using assms(2)
  proof (induction s arbitrary: k)
    case (Cons c s)
    then show ?case using Cons.IH [of "10 * k + digitVal c"] by (simp add: digit_hexValue orDefault_def)
  qed simp
  from this [of 0] assms show ?thesis by (auto simp: digitsIn_def digitsVal_def list_all_iff digit_hexValue)
qed

lemma digit_plain:
  assumes "isDigit c"
  shows "\<not> isSpace c" and "lowerChar c = c" and "c \<noteq> CHR ''x''" and "c \<noteq> CHR ''o''" and "c \<noteq> CHR ''b''"
    and "c \<noteq> CHR ''-''" and "c \<noteq> CHR ''+''"
  using assms by (auto simp: isDigit_def isSpace_def lowerChar_def)

lemma bigIntText_digits:
  assumes "0 \<le> v"
  shows "bigIntText (bigToString v) = Inr v"
proof -
  let ?s = "natDigits (nat v)"
  have d: "\<forall>c \<in> set ?s. isDigit c" using natDigits_digits by blast
  have ne: "?s \<noteq> []" by simp
  have t: "trim ?s = ?s" using ne d digit_plain(1) by (intro trim_id) simp_all
  obtain c r where s: "?s = c # r" using ne by (cases ?s) auto
  have hd: "isDigit c" "\<forall>x \<in> set r. isDigit x" using d s by simp_all
  have "take 2 (toLowerCase ?s) \<noteq> [CHR ''0'', k]" if "k \<in> {CHR ''x'', CHR ''o'', CHR ''b''}" for k
    using that hd digit_plain(2-5) by (cases r) (auto simp: s toLowerCase_def)
  then have "bigIntText ?s = Inr (int (digitsVal ?s))"
    using t ne digit_plain(6,7) [OF hd(1)] digitsIn_decimal [OF ne d] by (simp add: bigIntText_def Let_def s)
  then show ?thesis using assms by (simp add: bigToString_def)
qed

end
