(* ===== verification/Hypercerts.thy ===== *)
theory Hypercerts
  imports NodeGraph JsNumbers
begin

text \<open>
  The reduced reproduction of the certificate program, hypercerts/recompute.ts: the served input, the hashes
  over node identifiers, the graph of the served edges and the journal rebuilt from it.
  Lemmas on the certificate program: the graph of the served edges as an accumulation, the leaves and their
  proofs, the skip digest and the whole reproduction.
\<close>

section \<open>The served input\<close>

record OffchainEdge =
  oeSource :: hex
  oeTarget :: hex
  oeWeightFp :: served_int

record SkippedNode =
  skNodeId :: hex
  skReason :: int
  skEpochObserved :: int

record NodeBinding =
  nbNodeId :: hex
  nbAddress :: hex

record HypercertsParams =
  hpDampingFp :: int
  hpToleranceFp :: int
  hpMaxIterations :: int
  hpTrustShareFp :: int
  hpTrustDecayFp :: int
  hpPrecisionScale :: int
  hpTotalPool :: int
  hpTrustedSeedDids :: "string list"
  hpWFollowFp :: int
  hpWBadgeFp :: int
  hpWEvalFp :: int
  hpWAttribFp :: int
  hpAckBoostFp :: int
  hpUnackedAttribFp :: int
  hpPdsAttestedWeightFp :: int
  hpLane2MaxHeadAge :: int

record RecomputeInput =
  riEdges :: "OffchainEdge list"
  riSkips :: "SkippedNode list"
  riBindings :: "NodeBinding list"
  riParams :: HypercertsParams
  riAnchorAcc :: hex
  riAnchorCount :: int
  riAcc :: "hex option"
  riLeafCount :: "int option"
  riBinding :: "Binding option"

record RecomputeResult =
  rcJournal :: Journal
  rcScores :: "(hex \<times> int) list"
  rcBlob :: string
  rcCid :: string

section \<open>The hashing helpers\<close>

definition didNodeId :: "viem \<Rightarrow> string \<Rightarrow> hex" where
  "didNodeId V did = keccak256Bytes V (toBytesOf V did)"

definition nodeOutputLeaf :: "viem \<Rightarrow> hex \<Rightarrow> int \<Rightarrow> hex result" where
  "nodeOutputLeaf V nodeId v =
     bindE (concatE V [Inr nodeId, wordU256 V v]) (\<lambda>encoded. Inr (keccak256 V (keccak256 V encoded)))"

definition nodeSeedSetRoot :: "viem \<Rightarrow> hex list \<Rightarrow> hex result" where
  "nodeSeedSetRoot V seedNodeIds =
     (let ids = sortBy cmpHex seedNodeIds; leaves = map (keccak256 V) ids in merkleRoot V leaves)"

definition hypercertsParamsHash :: "viem \<Rightarrow> HypercertsParams \<Rightarrow> hex result" where
  "hypercertsParamsHash V p =
     (let seedIds = map (didNodeId V) (hpTrustedSeedDids p) in
      bindE (concatE V [wordU256 V 3, wordU256 V (hpDampingFp p), wordU256 V (hpToleranceFp p),
        wordU256 V (hpMaxIterations p), wordU256 V (hpTrustShareFp p), wordU256 V (hpTrustDecayFp p),
        wordU256 V (hpPrecisionScale p), wordU256 V (hpTotalPool p), nodeSeedSetRoot V seedIds,
        wordU256 V (hpWFollowFp p), wordU256 V (hpWBadgeFp p), wordU256 V (hpWEvalFp p),
        wordU256 V (hpWAttribFp p), wordU256 V (hpAckBoostFp p), wordU256 V (hpUnackedAttribFp p),
        wordU256 V (hpPdsAttestedWeightFp p), wordU64 V (hpLane2MaxHeadAge p)])
      (\<lambda>encoded. Inr (keccak256 V encoded)))"

definition skipLeaf :: "viem \<Rightarrow> SkippedNode \<Rightarrow> hex result" where
  "skipLeaf V e =
     bindE (concatE V [Inr (skNodeId e), wordU8 V (skReason e), wordU64 V (skEpochObserved e)])
       (\<lambda>encoded. Inr (keccak256 V encoded))"

definition cmpSkip :: "SkippedNode \<Rightarrow> SkippedNode \<Rightarrow> int" where
  "cmpSkip a b =
     (let c = cmpHex (skNodeId a) (skNodeId b) in
      if c \<noteq> 0 then c
      else if skReason a \<noteq> skReason b then skReason a - skReason b
      else if skEpochObserved a < skEpochObserved b then -1
      else if skEpochObserved a > skEpochObserved b then 1 else 0)"

definition skippedDigest :: "viem \<Rightarrow> SkippedNode list \<Rightarrow> hex result" where
  "skippedDigest V skips =
     foldE (\<lambda>acc e. bindE (skipLeaf V e) (\<lambda>leaf. Inr (foldLeaf V acc leaf))) ZERO_HASH (sortBy cmpSkip skips)"

section \<open>The reproduction\<close>

definition asRankParams :: "HypercertsParams \<Rightarrow> hex list \<Rightarrow> Params" where
  "asRankParams p seedNodeIds =
     \<lparr>dampingFp = hpDampingFp p, toleranceFp = hpToleranceFp p, maxIterations = hpMaxIterations p,
      minWeightFp = 0, maxWeightFp = 0, trustShareFp = hpTrustShareFp p, trustDecayFp = hpTrustDecayFp p,
      trustedSeeds = seedNodeIds, totalPool = hpTotalPool p, precisionScale = hpPrecisionScale p,
      schemaUid = ZERO_HASH, weightFieldIndex = 0, envelope0DomainSeparators = None, lane2MaxHeadAge = None,
      accumulator = ''0x'' @ replicate 40 (CHR ''0''), chainId = 0\<rparr>"

definition graphStep :: "hex list \<times> weights \<Rightarrow> OffchainEdge \<Rightarrow> (hex list \<times> weights) result" where
  "graphStep st e =
     (case st of (nodeSet, outgoing) \<Rightarrow>
       let source = toLowerCase (oeSource e); target = toLowerCase (oeTarget e) in
       bindE (bigIntServed (oeWeightFp e)) (\<lambda>w.
       Inr (setAdd target (setAdd source nodeSet), addWeight source target w outgoing)))"

definition graphFromEdges :: "OffchainEdge list \<Rightarrow> Graph result" where
  "graphFromEdges es = bindE (foldE graphStep ([], []) es) (\<lambda>(nodeSet, outgoing).
     Inr \<lparr>gNodes = sortBy cmpHex nodeSet, gOutgoing = outgoing\<rparr>)"

text \<open>
  The leaves: one per scored node, then one for the address of each bound node; an empty address is falsy.
\<close>

definition boundScores :: "(hex, hex) jmap \<Rightarrow> (hex \<times> int) list \<Rightarrow> (hex \<times> int) list" where
  "boundScores bindingByNode assigned =
     concat (map (\<lambda>(id, v). case jget bindingByNode (toLowerCase id) of
       None \<Rightarrow> [] | Some addr \<Rightarrow> if addr = [] then [] else [(addr, v)]) assigned)"

definition nodeLeaves :: "viem \<Rightarrow> (hex, hex) jmap \<Rightarrow> (hex \<times> int) list \<Rightarrow> hex list result" where
  "nodeLeaves V bindingByNode assigned =
     bindE (mapE (\<lambda>(id, v). nodeOutputLeaf V id v) assigned) (\<lambda>leaves.
     bindE (mapE (\<lambda>(addr, v). outputLeaf V addr v) (boundScores bindingByNode assigned)) (\<lambda>bound.
     Inr (leaves @ bound)))"

definition bindingMap :: "NodeBinding list \<Rightarrow> (hex, hex) jmap" where
  "bindingMap bs = newMap (map (\<lambda>b. (toLowerCase (nbNodeId b), nbAddress b)) bs)"

definition hypercertsSeeds :: "viem \<Rightarrow> HypercertsParams \<Rightarrow> hex list" where
  "hypercertsSeeds V p = newSet (map (didNodeId V) (hpTrustedSeedDids p))"

definition hypercertsRecompute :: "viem \<Rightarrow> RecomputeInput \<Rightarrow> RecomputeResult result" where
  "hypercertsRecompute V input =
     (let p = riParams input; rankParams = asRankParams p (hypercertsSeeds V p) in
      bindE (graphFromEdges (riEdges input)) (\<lambda>graph.
      bindE (calculate graph rankParams) (\<lambda>scoresFp.
      let filtered = filter (\<lambda>(k, v). v \<noteq> 0) scoresFp in
      bindE (distributePoints filtered rankParams) (\<lambda>(assigned0, totalValue).
      let assigned = sortBy (\<lambda>a b. cmpHex (fst a) (fst b)) assigned0 in
      bindE (nodeLeaves V (bindingMap (riBindings input)) assigned) (\<lambda>leaves.
      bindE (merkleRoot V leaves) (\<lambda>outputRoot.
      let blob = canonicalBlob assigned; digest = sha256Utf8 V blob in
      bindE (cidV1Raw digest) (\<lambda>cid.
      let cidDigest = keccak256Bytes V (stringToBytes V cid) in
      bindE (hypercertsParamsHash V p) (\<lambda>pHash.
      bindE (skippedDigest V (riSkips input)) (\<lambda>skipped.
      let journal = \<lparr>jAcc = orDefault (riAcc input) ZERO_HASH, jLeafCount = orDefault (riLeafCount input) 0,
            jAnchorAcc = riAnchorAcc input, jAnchorCount = riAnchorCount input, jParamsHash = pHash,
            jOutputRoot = outputRoot, jIpfsHash = digestToHex V digest, jCidDigest = cidDigest,
            jTotalValue = totalValue, jSkippedDigest = skipped,
            jRecipient = (case riBinding input of Some b \<Rightarrow> bRecipient b | None \<Rightarrow> ZERO_ADDRESS),
            jInstanceDomain = (case riBinding input of Some b \<Rightarrow> bInstanceDomain b | None \<Rightarrow> ZERO_HASH)\<rparr> in
      Inr \<lparr>rcJournal = journal, rcScores = assigned, rcBlob = blob, rcCid = cid\<rparr>)))))))))"

section \<open>The graph of the served edges\<close>

definition servedEdges :: "OffchainEdge list \<Rightarrow> wedge list result" where
  "servedEdges = mapE (\<lambda>e. bindE (bigIntServed (oeWeightFp e)) (\<lambda>w.
     Inr (toLowerCase (oeSource e), toLowerCase (oeTarget e), w)))"

definition endpoints :: "wedge list \<Rightarrow> hex list" where
  "endpoints ws = newSet (concat (map (\<lambda>(s, t, w). [s, t]) ws))"

lemma graphStep_run:
  "foldE graphStep ([], []) es = bindE (servedEdges es) (\<lambda>ws. Inr (endpoints ws, addAll ws []))"
proof (induction es rule: rev_induct)
  case Nil
  show ?case by (simp add: servedEdges_def endpoints_def newSet_def)
next
  case (snoc e es)
  have app: "mapE f (xs @ [x]) = bindE (mapE f xs) (\<lambda>ys. bindE (f x) (\<lambda>y. Inr (ys @ [y])))"
    for f :: "OffchainEdge \<Rightarrow> wedge result" and xs x
    by (induction xs) (auto simp: bindE_assoc split: sum.splits)
  have served: "servedEdges (es @ [e]) = bindE (servedEdges es) (\<lambda>ws. bindE (bigIntServed (oeWeightFp e)) (\<lambda>w.
      Inr (ws @ [(toLowerCase (oeSource e), toLowerCase (oeTarget e), w)])))"
    by (simp add: servedEdges_def app bindE_assoc)
  have step: "graphStep (ns, m) e = bindE (bigIntServed (oeWeightFp e)) (\<lambda>w.
      Inr (setAdd (toLowerCase (oeTarget e)) (setAdd (toLowerCase (oeSource e)) ns),
        addWeight (toLowerCase (oeSource e)) (toLowerCase (oeTarget e)) w m))" for ns m
    by (simp add: graphStep_def Let_def)
  have two: "newSet (xs @ [s, t]) = setAdd t (setAdd s (newSet xs))" for xs :: "hex list" and s t
    using newSet_snoc [of "xs @ [s]" t] by (simp add: newSet_snoc)
  show ?case
    by (cases "servedEdges es"; cases "bigIntServed (oeWeightFp e)")
      (simp_all add: foldE_append snoc.IH served step endpoints_def two addAll_snoc)
qed

lemma graphFromEdges_served:
  "graphFromEdges es = bindE (servedEdges es) (\<lambda>ws.
     Inr \<lparr>gNodes = sortBy cmpHex (endpoints ws), gOutgoing = addAll ws []\<rparr>)"
  by (cases "servedEdges es") (simp_all add: graphFromEdges_def graphStep_run)

lemma servedEdges_canonical:
  assumes "servedEdges es = Inr ws" and "(s, t, w) \<in> set ws"
  shows "canonical s" and "canonical t"
  using assms by (auto simp: servedEdges_def elim!: mapE_setE)

lemma served_ends:
  assumes "servedEdges es = Inr ws" and n: "gNodes g = sortBy cmpHex (endpoints ws)"
  shows "\<forall>(s, t, w) \<in> set ws. s \<in> set (rankNodesOf g p) \<and> t \<in> set (rankNodesOf g p)"
proof -
  have "s \<in> set (rankNodesOf g p) \<and> t \<in> set (rankNodesOf g p)" if e: "(s, t, w) \<in> set ws" for s t w
  proof -
    have "s \<in> set (gNodes g)" "t \<in> set (gNodes g)" using e by (force simp: n endpoints_def)+
    moreover have "toLowerCase s = s" "toLowerCase t = t"
      using servedEdges_canonical [OF assms(1) e] by (simp_all add: canonicalD)
    ultimately show ?thesis unfolding set_rankNodes by (metis UnI1 imageI)
  qed
  then show ?thesis by blast
qed

section \<open>The tail shared by the node programs\<close>

text \<open>Scores of nodes, the leaves for their addresses, the root and the identifier of the blob.\<close>

lemma concat_node: "\<exists>l. nodeOutputLeaf V a v = Inr l" if "toHexLaw V" "0 \<le> v" "v \<le> U256_MAX"
proof -
  have "v < 256 ^ 32" using that(3) by (simp add: U256_MAX_def)
  with that have "\<exists>h. wordU256 V v = Inr h" by (simp add: wordU256_def toHexLaw_def)
  then show ?thesis by (auto simp: nodeOutputLeaf_def concatE_def)
qed

lemma boundScores_member:
  "(addr, v) \<in> set (boundScores m assigned) \<longleftrightarrow>
     (\<exists>id. (id, v) \<in> set assigned \<and> jget m (toLowerCase id) = Some addr \<and> addr \<noteq> [])"
proof -
  have "(addr, v) \<in> set (case jget m k of None \<Rightarrow> [] | Some a \<Rightarrow> if a = [] then [] else [(a, x)]) \<longleftrightarrow>
      v = x \<and> jget m k = Some addr \<and> addr \<noteq> []" for k x
    by (cases "jget m k") (simp_all, metis)
  then have "(addr, v) \<in> set (boundScores m assigned) \<longleftrightarrow>
      (\<exists>e \<in> set assigned. v = snd e \<and> jget m (toLowerCase (fst e)) = Some addr \<and> addr \<noteq> [])"
    by (simp add: boundScores_def case_prod_beta)
  then show ?thesis by force
qed

definition shortBindings :: "(hex, hex) jmap \<Rightarrow> bool" where
  "shortBindings m \<longleftrightarrow> (\<forall>k addr. jget m k = Some addr \<longrightarrow> length addr \<le> 66)"

lemma nodeLeaves_total:
  assumes laws: "padLaw V" "toHexLaw V" and small: "\<And>a x. (a, x) \<in> set assigned \<Longrightarrow> 0 \<le> x \<and> x \<le> U256_MAX"
    and short: "shortBindings m"
  shows "\<exists>leaves. nodeLeaves V m assigned = Inr leaves"
proof -
  have "\<forall>e \<in> set assigned. \<exists>l. (\<lambda>(id, v). nodeOutputLeaf V id v) e = Inr l"
    using small concat_node [OF laws(2)] by fastforce
  then have "\<exists>l1. mapE (\<lambda>(id, v). nodeOutputLeaf V id v) assigned = Inr l1" by (simp only: mapE_ok_iff)
  then obtain l1 where l1: "mapE (\<lambda>(id, v). nodeOutputLeaf V id v) assigned = Inr l1" by (elim exE)
  have "\<exists>l. (\<lambda>(addr, v). outputLeaf V addr v) e = Inr l" if e: "e \<in> set (boundScores m assigned)" for e
  proof -
    obtain addr v where ev: "e = (addr, v)" by (cases e)
    with e obtain node where "(node, v) \<in> set assigned" "jget m (toLowerCase node) = Some addr"
      unfolding ev boundScores_member by blast
    with outputLeaf_total [OF laws, of addr v] small short show ?thesis
      unfolding ev shortBindings_def by fastforce
  qed
  then have "\<exists>l2. mapE (\<lambda>(addr, v). outputLeaf V addr v) (boundScores m assigned) = Inr l2"
    unfolding mapE_ok_iff by (intro ballI)
  then obtain l2 where "mapE (\<lambda>(addr, v). outputLeaf V addr v) (boundScores m assigned) = Inr l2" by (elim exE)
  with l1 show ?thesis by (simp add: nodeLeaves_def)
qed

lemma nodeLeaves_members:
  assumes "nodeLeaves V m assigned = Inr leaves" and "(node, v) \<in> set assigned"
  shows "\<exists>l \<in> set leaves. nodeOutputLeaf V node v = Inr l"
    and "jget m (toLowerCase node) = Some addr \<Longrightarrow> addr \<noteq> [] \<Longrightarrow> \<exists>l \<in> set leaves. outputLeaf V addr v = Inr l"
proof -
  obtain l1 l2 where l: "mapE (\<lambda>(id, v). nodeOutputLeaf V id v) assigned = Inr l1"
    "mapE (\<lambda>(addr, v). outputLeaf V addr v) (boundScores m assigned) = Inr l2" "leaves = l1 @ l2"
    using assms(1) by (auto simp: nodeLeaves_def)
  from mapE_all_ok [OF l(1) assms(2)] l(3) show "\<exists>l \<in> set leaves. nodeOutputLeaf V node v = Inr l" by auto
  assume "jget m (toLowerCase node) = Some addr" "addr \<noteq> []"
  with assms(2) have "(addr, v) \<in> set (boundScores m assigned)" unfolding boundScores_member by blast
  from mapE_all_ok [OF l(2) this] l(3) show "\<exists>l \<in> set leaves. outputLeaf V addr v = Inr l" by auto
qed

lemma nodeLeaves_canonical:
  assumes "digestLaw V" and "nodeLeaves V m assigned = Inr leaves"
  shows "\<forall>l \<in> set leaves. canonical l"
  using assms by (auto simp: nodeLeaves_def nodeOutputLeaf_def outputLeaf_def Let_def digestLaw_def isWord_def
      elim!: mapE_setE split: prod.splits)

text \<open>The leaf is in the tree of \<open>leaves\<close>, and the proof the tree gives for it folds to the root.\<close>

definition provable :: "viem \<Rightarrow> hex list \<Rightarrow> hex \<Rightarrow> hex \<Rightarrow> bool" where
  "provable V leaves root leaf \<longleftrightarrow> leaf \<in> set leaves \<and> (\<exists>tree pr. buildTree V leaves = Inr tree \<and>
     proofFor tree leaf = Some pr \<and> processProof (hashPair V) pr leaf = root)"

lemma leaves_provable:
  assumes "digestLaw V" and "nodeLeaves V m assigned = Inr leaves" and "merkleRoot V leaves = Inr root"
    and "l \<in> set leaves"
  shows "provable V leaves root l"
proof -
  obtain tree where "buildTree V leaves = Inr tree" using buildTree_total by blast
  with proof_complete [OF assms(1) nodeLeaves_canonical [OF assms(1,2)] this assms(3,4)] assms(4)
  show ?thesis by (auto simp: provable_def)
qed

section \<open>The skip digest\<close>

interpretation skipcmp: keyed_comparator cmpSkip "\<lambda>e. (toLowerCase (skNodeId e), skReason e, skEpochObserved e)"
  by unfold_locales (auto simp: cmpSkip_def Let_def cmpHex_cmpLin cmpLin_def less_eq_prod_def)

lemma skippedDigest_mset:
  assumes "\<forall>e \<in> set skips. canonical (skNodeId e)" and "mset skips' = mset skips"
  shows "skippedDigest V skips' = skippedDigest V skips"
proof -
  have "inj_on (\<lambda>e. (toLowerCase (skNodeId e), skReason e, skEpochObserved e)) (set skips)"
  proof (rule inj_onI)
    fix x y assume "x \<in> set skips" "y \<in> set skips"
      "(toLowerCase (skNodeId x), skReason x, skEpochObserved x) = (toLowerCase (skNodeId y), skReason y, skEpochObserved y)"
    moreover from this have "skNodeId x = skNodeId y" using assms(1) by (metis canonicalD prod.inject)
    ultimately show "x = y" by (intro SkippedNode.equality) simp_all
  qed
  from skipcmp.sortBy_unique [OF this assms(2)] show ?thesis by (simp only: skippedDigest_def)
qed

section \<open>The whole reproduction\<close>

text \<open>Every integer fits its 32-byte word, which is all that the encodings ask for.\<close>

definition fits256 :: "int \<Rightarrow> bool" where
  "fits256 x \<longleftrightarrow> 0 \<le> x \<and> x \<le> U256_MAX"

lemma word_ok:
  assumes "toHexLaw V"
  shows "(\<exists>h. wordU256 V x = Inr h) \<longleftrightarrow> fits256 x" and "(\<exists>h. wordU64 V x = Inr h) \<longleftrightarrow> fits256 x"
    and "(\<exists>h. wordU32 V x = Inr h) \<longleftrightarrow> fits256 x" and "(\<exists>h. wordU8 V x = Inr h) \<longleftrightarrow> fits256 x"
  using assms by (auto simp: wordU256_def wordU64_def wordU32_def wordU8_def toHexLaw_def fits256_def U256_MAX_def)

lemma digest_ok: "(\<exists>d. bindE (concatE V ps) (\<lambda>x. Inr (f x)) = Inr d) \<longleftrightarrow> (\<forall>p \<in> set ps. \<exists>x. p = Inr x)"
proof -
  have "(\<exists>d. bindE (concatE V ps) (\<lambda>x. Inr (f x)) = Inr d) \<longleftrightarrow> (\<exists>h. concatE V ps = Inr h)" by (auto simp: result_simps)
  then show ?thesis unfolding concatE_ok .
qed

definition hypercertsIntegers :: "HypercertsParams \<Rightarrow> int list" where
  "hypercertsIntegers p = [hpDampingFp p, hpToleranceFp p, hpMaxIterations p, hpTrustShareFp p, hpTrustDecayFp p,
     hpPrecisionScale p, hpTotalPool p, hpWFollowFp p, hpWBadgeFp p, hpWEvalFp p, hpWAttribFp p, hpAckBoostFp p,
     hpUnackedAttribFp p, hpPdsAttestedWeightFp p, hpLane2MaxHeadAge p]"

lemma hypercertsParamsHash_ok:
  assumes "toHexLaw V"
  shows "(\<exists>h. hypercertsParamsHash V p = Inr h) \<longleftrightarrow> (\<forall>x \<in> set (hypercertsIntegers p). fits256 x)"
proof -
  have "\<exists>r. nodeSeedSetRoot V ids = Inr r" for ids using merkleRoot_total by (fastforce simp: nodeSeedSetRoot_def Let_def)
  moreover have "fits256 3" by (simp add: fits256_def U256_MAX_def)
  ultimately show ?thesis
    unfolding hypercertsParamsHash_def Let_def digest_ok hypercertsIntegers_def using word_ok [OF assms] by auto
qed

lemma skippedDigest_ok:
  assumes "toHexLaw V" and "\<forall>e \<in> set skips. fits256 (skReason e) \<and> fits256 (skEpochObserved e)"
  shows "\<exists>d. skippedDigest V skips = Inr d"
proof -
  have leaf: "\<exists>l. skipLeaf V e = Inr l" if "e \<in> set (sortBy cmpSkip skips)" for e
    unfolding skipLeaf_def digest_ok using that assms word_ok [OF assms(1)] by simp
  have "\<exists>d. foldE (\<lambda>acc e. bindE (skipLeaf V e) (\<lambda>leaf. Inr (foldLeaf V acc leaf))) z es = Inr d"
    if "\<forall>e \<in> set es. \<exists>l. skipLeaf V e = Inr l" for z es
    using that by (induction es arbitrary: z) fastforce+
  then show ?thesis unfolding skippedDigest_def using leaf by blast
qed

definition reproducible :: "viem \<Rightarrow> RecomputeInput \<Rightarrow> bool" where
  "reproducible V i \<longleftrightarrow> (let p = riParams i in
     (\<exists>ws. servedEdges (riEdges i) = Inr ws \<and> (\<forall>(s, t, w) \<in> set ws. 0 \<le> w) \<and>
        sumOf (\<lambda>(s, t, w). w) ws \<le> U256_MAX) \<and>
     validParams (asRankParams p (hypercertsSeeds V p)) \<and> 0 \<le> hpTotalPool p \<and> hpTotalPool p \<le> U256_MAX \<and>
     shortBindings (bindingMap (riBindings i)) \<and>
     (\<forall>x \<in> set (hypercertsIntegers p). fits256 x) \<and>
     (\<forall>e \<in> set (riSkips i). fits256 (skReason e) \<and> fits256 (skEpochObserved e)))"

lemma calculate_detailed: "calculateDetailed g p = Inr rank \<Longrightarrow> calculate g p = Inr (rrScores rank)"
  by (simp add: calculate_def)

lemma hypercerts_run:
  assumes ok: "reproducible V i" and laws: "padLaw V" "toHexLaw V"
  shows "\<exists>r. hypercertsRecompute V i = Inr r \<and> sumOf snd (rcScores r) = jTotalValue (rcJournal r) \<and>
    sorted_wrt (<) (jkeys (rcScores r)) \<and> (\<forall>(a, v) \<in> set (rcScores r). 0 < v) \<and>
    jTotalValue (rcJournal r) \<in> {0, hpTotalPool (riParams i)}"
proof -
  let ?p = "riParams i" let ?rp = "asRankParams ?p (hypercertsSeeds V ?p)"
  from ok obtain ws where ws: "servedEdges (riEdges i) = Inr ws" "\<forall>(s, t, w) \<in> set ws. 0 \<le> w"
      "sumOf (\<lambda>(s, t, w). w) ws \<le> U256_MAX"
    and v: "validParams ?rp" and pool: "0 \<le> hpTotalPool ?p" "hpTotalPool ?p \<le> U256_MAX"
    and short: "shortBindings (bindingMap (riBindings i))"
    and fits: "\<forall>x \<in> set (hypercertsIntegers ?p). fits256 x"
      "\<forall>e \<in> set (riSkips i). fits256 (skReason e) \<and> fits256 (skEpochObserved e)"
    unfolding reproducible_def Let_def by blast
  obtain h d where enc: "hypercertsParamsHash V ?p = Inr h" "skippedDigest V (riSkips i) = Inr d"
    using hypercertsParamsHash_ok [OF laws(2), of ?p] skippedDigest_ok [OF laws(2) fits(2)] fits(1) by blast
  let ?g = "\<lparr>gNodes = sortBy cmpHex (endpoints ws), gOutgoing = addAll ws []\<rparr>"
  have g: "graphFromEdges (riEdges i) = Inr ?g" by (simp add: graphFromEdges_served ws(1))
  have rank: "rankable ?g ?rp" "jmapInv (gOutgoing ?g)"
    by (rule addAll_rankable [OF _ ws(2) served_ends [OF ws(1)] ws(3)]; simp)+
  have tp: "totalPool ?rp = hpTotalPool ?p" by (simp add: asRankParams_def)
  from points_run [OF v rank] pool(1) obtain rk assigned tot where
    rk: "calculateDetailed ?g ?rp = Inr rk"
    and d: "distributePoints (filter (\<lambda>(k, v). v \<noteq> 0) (rrScores rk)) ?rp = Inr (assigned, tot)"
      "sumOf snd assigned = tot" "sorted_wrt (<) (jkeys assigned)" "\<forall>(k, v) \<in> set assigned. 0 < v"
      "tot \<in> {0, hpTotalPool ?p}"
    and srt: "sortBy (\<lambda>a b. cmpHex (fst a) (fst b)) assigned = assigned" unfolding tp by blast
  obtain leaves where ls: "nodeLeaves V (bindingMap (riBindings i)) assigned = Inr leaves"
    using nodeLeaves_total [OF laws _ short, of assigned] points_value [OF d(4,2,5) pool(2)] by blast
  obtain root where root: "merkleRoot V leaves = Inr root" using merkleRoot_total by blast
  obtain cid where cid: "cidV1Raw (sha256Utf8 V (canonicalBlob assigned)) = Inr cid" using cidV1Raw_sha by blast
  show ?thesis
    using g calculate_detailed [OF rk] d srt ls root cid enc by (simp add: hypercertsRecompute_def Let_def)
qed

lemma hypercerts_cases:
  assumes "hypercertsRecompute V i = Inr r"
  obtains g rank assigned leaves where "graphFromEdges (riEdges i) = Inr g"
    and "calculateDetailed g (asRankParams (riParams i) (hypercertsSeeds V (riParams i))) = Inr rank"
    and "distributePoints (filter (\<lambda>(k, v). v \<noteq> 0) (rrScores rank))
      (asRankParams (riParams i) (hypercertsSeeds V (riParams i))) = Inr (assigned, jTotalValue (rcJournal r))"
    and "rcScores r = sortBy (\<lambda>a b. cmpHex (fst a) (fst b)) assigned"
    and "nodeLeaves V (bindingMap (riBindings i)) (rcScores r) = Inr leaves"
    and "merkleRoot V leaves = Inr (jOutputRoot (rcJournal r))"
    and "skippedDigest V (riSkips i) = Inr (jSkippedDigest (rcJournal r))"
  using assms unfolding hypercertsRecompute_def calculate_def Let_def
  by (elim bindE_InrE) (auto simp: result_simps)

end
