(* ===== verification/HypercertsProps.thy ===== *)
theory HypercertsProps
  imports Hypercerts
begin

text \<open>
  The properties of the certificate program and an example of it.
\<close>

section \<open>Properties of the certificate program\<close>

text \<open>
  C27: The certificate program reproduces every served input that is within its ranges: the weights of the edges
  parse, are not negative and sum to at most 256 bits; the shares are fractions of the precision scale; every integer
  that is encoded, the pool and the fields of the skip entries among them, fits its word; a bound address is no longer
  than a word.  Parsing, ranking, the parameter hash, the skip digest and the leaves then all return, and the points
  listed, strictly ordered by node and positive, sum to the journal's total, which is the pool or zero.
\<close>

theorem hypercerts_total_and_conserving:
  assumes "reproducible V i" and "padLaw V" and "toHexLaw V"
  shows "\<exists>r. hypercertsRecompute V i = Inr r \<and> sumOf snd (rcScores r) = jTotalValue (rcJournal r) \<and>
    sorted_wrt (<) (jkeys (rcScores r)) \<and> (\<forall>(a, v) \<in> set (rcScores r). 0 < v) \<and>
    jTotalValue (rcJournal r) \<in> {0, hpTotalPool (riParams i)}"
  using hypercerts_run [OF assms] .

text \<open>
  C28: Every score can be claimed under the journal's root, by the node and by the address bound to it: both
  leaves are in the published tree, whose proof for them folds to the output root.  When a seed is given, only nodes a
  chain of eligible edges joins to a seed have a score; without seeds the program ranks every node alike.
\<close>

theorem hypercerts_scores_provable:
  assumes "hypercertsRecompute V i = Inr r" and "digestLaw V" and "(node, v) \<in> set (rcScores r)"
  shows "(\<exists>leaves l. nodeLeaves V (bindingMap (riBindings i)) (rcScores r) = Inr leaves \<and>
      nodeOutputLeaf V node v = Inr l \<and> provable V leaves (jOutputRoot (rcJournal r)) l \<and>
      (\<forall>addr. jget (bindingMap (riBindings i)) (toLowerCase node) = Some addr \<longrightarrow> addr \<noteq> [] \<longrightarrow>
        (\<exists>l. outputLeaf V addr v = Inr l \<and> provable V leaves (jOutputRoot (rcJournal r)) l))) \<and>
    (hpTrustedSeedDids (riParams i) \<noteq> [] \<longrightarrow> (\<exists>g k. graphFromEdges (riEdges i) = Inr g \<and>
      trustWalk g (rankSeeds (asRankParams (riParams i) (hypercertsSeeds V (riParams i)))) k node))"
  using assms(1)
proof (rule hypercerts_cases)
  fix g rank assigned leaves
  let ?p = "asRankParams (riParams i) (hypercertsSeeds V (riParams i))"
  assume g: "graphFromEdges (riEdges i) = Inr g" and rk: "calculateDetailed g ?p = Inr rank"
    and d: "distributePoints (filter (\<lambda>(k, v). v \<noteq> 0) (rrScores rank)) ?p = Inr (assigned, jTotalValue (rcJournal r))"
    and s: "rcScores r = sortBy (\<lambda>a b. cmpHex (fst a) (fst b)) assigned"
    and ls: "nodeLeaves V (bindingMap (riBindings i)) (rcScores r) = Inr leaves"
    and root: "merkleRoot V leaves = Inr (jOutputRoot (rcJournal r))"
  note mem = nodeLeaves_members [OF ls assms(3)] and pr = leaves_provable [OF assms(2) ls root]
  have "hasTrustEnabled ?p" if "hpTrustedSeedDids (riParams i) \<noteq> []"
    using that newSet_snoc [of "map (didNodeId V) (butlast (hpTrustedSeedDids (riParams i)))"]
    by (cases "hpTrustedSeedDids (riParams i)" rule: rev_cases)
      (auto simp: hasTrustEnabled_def asRankParams_def hypercertsSeeds_def newSet_snoc setAdd_def)
  moreover have "node \<in> set (jkeys assigned)" using assms(3) s by force
  ultimately have "hpTrustedSeedDids (riParams i) \<noteq> [] \<longrightarrow> (\<exists>k. trustWalk g (rankSeeds ?p) k node)"
    using points_reachable [OF rk _ d] by blast
  with g mem pr ls show ?thesis by blast
qed


section \<open>A certificate example\<close>

text \<open>One seed, named by its DID, and two edges; the first is served in two parts, one of them as text.\<close>

definition hyperSeed :: hex where
  "hyperSeed = ''0x6469643a706c633a610000000000000000000000000000000000000000000000''"

lemma hyperSeed_id: "didNodeId exampleViem ''did:plc:a'' = hyperSeed"
  by code_simp

definition hyperParams :: HypercertsParams where
  "hyperParams = \<lparr>hpDampingFp = 850, hpToleranceFp = 5, hpMaxIterations = 2, hpTrustShareFp = 600, hpTrustDecayFp = 800,
     hpPrecisionScale = 1000, hpTotalPool = 1000, hpTrustedSeedDids = [''did:plc:a''], hpWFollowFp = 1, hpWBadgeFp = 1,
     hpWEvalFp = 1, hpWAttribFp = 1, hpAckBoostFp = 1, hpUnackedAttribFp = 1, hpPdsAttestedWeightFp = 1,
     hpLane2MaxHeadAge = 9\<rparr>"

definition hyperEdges :: "OffchainEdge list" where
  "hyperEdges = [\<lparr>oeSource = hyperSeed, oeTarget = ''0xB'', oeWeightFp = BigValue 300\<rparr>,
     \<lparr>oeSource = ''0xb'', oeTarget = ''0xc'', oeWeightFp = BigValue 100\<rparr>,
     \<lparr>oeSource = hyperSeed, oeTarget = ''0xb'', oeWeightFp = BigText '' 0x0A ''\<rparr>]"

definition hyperInput :: RecomputeInput where
  "hyperInput = \<lparr>riEdges = hyperEdges, riSkips = [], riBindings = [\<lparr>nbNodeId = ''0xB'', nbAddress = ''0xee''\<rparr>],
     riParams = hyperParams, riAnchorAcc = ''0x'', riAnchorCount = 3, riAcc = None, riLeafCount = None, riBinding = None\<rparr>"

lemma hex_digits: "hexValue (CHR ''0'') = Some 0" "hexValue (CHR ''A'') = Some 10"
  by code_simp+

lemma hyper_lower: "toLowerCase hyperSeed = hyperSeed" "toLowerCase ''0xB'' = ''0xb''" "toLowerCase ''0xb'' = ''0xb''"
  "toLowerCase ''0xc'' = ''0xc''" "toLowerCase ''0x0A'' = ''0x0a''"
  by code_simp+

lemma hyperText: "bigIntText '' 0x0A '' = Inr 10"
proof -
  have "trim '' 0x0A '' = ''0x0A''" by (simp add: trim_def isSpace_def)
  moreover have "digitsIn 16 ''0A'' = Some 10" by (simp add: digitsIn_def hex_digits orDefault_def)
  ultimately show ?thesis by (simp add: bigIntText_def Let_def hyper_lower)
qed

lemma hyper_served:
  "servedEdges hyperEdges = Inr [(hyperSeed, ''0xb'', 300), (''0xb'', ''0xc'', 100), (hyperSeed, ''0xb'', 10)]"
  by (simp add: servedEdges_def hyperEdges_def hyperText hyper_lower)

lemma hyper_graph: "graphFromEdges hyperEdges = Inr \<lparr>gNodes = [hyperSeed, ''0xb'', ''0xc''],
    gOutgoing = [(hyperSeed, [(''0xb'', 310)]), (''0xb'', [(''0xc'', 100)])]\<rparr>"
proof -
  let ?ws = "[(hyperSeed, ''0xb'', 300), (''0xb'', ''0xc'', 100), (hyperSeed, ''0xb'', 10)] :: wedge list"
  have "sortBy cmpHex (endpoints ?ws) = [hyperSeed, ''0xb'', ''0xc'']" by code_simp
  moreover have "addAll ?ws [] = [(hyperSeed, [(''0xb'', 310)]), (''0xb'', [(''0xc'', 100)])]" by code_simp
  ultimately show ?thesis by (simp add: graphFromEdges_served hyper_served)
qed

lemma hyper_seeds: "hypercertsSeeds exampleViem hyperParams = [hyperSeed]"
  by (simp add: hypercertsSeeds_def hyperParams_def hyperSeed_id newSet_def setAdd_def)

lemma hyper_fits: "\<forall>x \<in> set (hypercertsIntegers hyperParams). fits256 x"
  by (simp add: hypercertsIntegers_def hyperParams_def fits256_def U256_MAX_def)

lemma hyper_pool: "hpTotalPool hyperParams = 1000"
  by (simp add: hyperParams_def)

lemma hyper_reproducible: "reproducible exampleViem hyperInput"
proof -
  have "validParams (asRankParams hyperParams [hyperSeed])"
    by (simp add: validParams_def asRankParams_def hyperParams_def U256_MAX_def)
  moreover have "bindingMap (riBindings hyperInput) = [(''0xb'', ''0xee'')]"
    by (simp add: bindingMap_def hyperInput_def newMap_def hyper_lower)
  ultimately show ?thesis
    using hyper_fits hyper_served hyper_pool
    by (auto simp: reproducible_def hyperInput_def hyper_seeds U256_MAX_def shortBindings_def Let_def
        split: if_splits)
qed

theorem hypercerts_total_and_conserving_witness:
  "\<exists>r. hypercertsRecompute exampleViem hyperInput = Inr r \<and> sumOf snd (rcScores r) = jTotalValue (rcJournal r) \<and>
    sorted_wrt (<) (jkeys (rcScores r)) \<and> (\<forall>(a, v) \<in> set (rcScores r). 0 < v) \<and>
    jTotalValue (rcJournal r) \<in> {0, hpTotalPool (riParams hyperInput)}"
  by (rule hypercerts_total_and_conserving) (use hyper_reproducible in simp_all)



lemma hyper_scores:
  assumes "hypercertsRecompute exampleViem hyperInput = Inr r"
  shows "rcScores r = [(hyperSeed, 153), (''0xb'', 178), (''0xc'', 669)]"
  using assms
proof (rule hypercerts_cases)
  fix g rank assigned leaves
  let ?p = "asRankParams (riParams hyperInput) (hypercertsSeeds exampleViem (riParams hyperInput))"
  let ?s = "[(hyperSeed, 153), (''0xb'', 178), (''0xc'', 669)] :: (hex \<times> int) list"
  let ?g = "\<lparr>gNodes = [hyperSeed, ''0xb'', ''0xc''],
    gOutgoing = [(hyperSeed, [(''0xb'', 310)]), (''0xb'', [(''0xc'', 100)])]\<rparr>"
  assume g: "graphFromEdges (riEdges hyperInput) = Inr g" and rk: "calculateDetailed g ?p = Inr rank"
    and d: "distributePoints (filter (\<lambda>(k, v). v \<noteq> 0) (rrScores rank)) ?p = Inr (assigned, jTotalValue (rcJournal r))"
    and s: "rcScores r = sortBy (\<lambda>a b. cmpHex (fst a) (fst b)) assigned"
  have p: "?p = asRankParams hyperParams [hyperSeed]" by (simp add: hyperInput_def hyper_seeds)
  have "g = ?g" using g hyper_graph by (simp add: hyperInput_def)
  moreover have "calculateDetailed ?g (asRankParams hyperParams [hyperSeed]) =
    Inr \<lparr>rrScores = ?s, rrIterations = 2, rrConverged = False\<rparr>" by code_simp
  ultimately have rank: "rrScores rank = ?s" using rk unfolding p by (simp add: eq_commute [of _ rank])
  have "distributePoints (filter (\<lambda>(k, v). v \<noteq> 0) ?s) (asRankParams hyperParams [hyperSeed]) = Inr (?s, 1000)"
    by code_simp
  with d rank have a: "assigned = ?s" unfolding p by simp
  have "sortBy (\<lambda>a b. cmpHex (fst a) (fst b)) ?s = ?s" by code_simp
  with s a show ?thesis by (simp only:)
qed

theorem hypercerts_scores_provable_witness:
  "\<exists>r leaves l. hypercertsRecompute exampleViem hyperInput = Inr r \<and>
     nodeLeaves exampleViem (bindingMap (riBindings hyperInput)) (rcScores r) = Inr leaves \<and>
     outputLeaf exampleViem ''0xee'' 178 = Inr l \<and> provable exampleViem leaves (jOutputRoot (rcJournal r)) l"
proof -
  obtain r where r: "hypercertsRecompute exampleViem hyperInput = Inr r"
    using hypercerts_run [OF hyper_reproducible] by auto
  have mem: "(''0xb'', 178) \<in> set (rcScores r)" by (simp add: hyper_scores [OF r])
  have "digestLaw exampleViem" by simp
  from hypercerts_scores_provable [OF r this mem] obtain leaves where
    ls: "nodeLeaves exampleViem (bindingMap (riBindings hyperInput)) (rcScores r) = Inr leaves"
    and bound: "\<forall>addr. jget (bindingMap (riBindings hyperInput)) (toLowerCase ''0xb'') = Some addr \<longrightarrow> addr \<noteq> [] \<longrightarrow>
      (\<exists>l. outputLeaf exampleViem addr 178 = Inr l \<and> provable exampleViem leaves (jOutputRoot (rcJournal r)) l)"
    by blast
  have "jget (bindingMap (riBindings hyperInput)) (toLowerCase ''0xb'') = Some ''0xee''"
    by (simp add: bindingMap_def hyperInput_def newMap_def hyper_lower)
  with bound obtain l where "outputLeaf exampleViem ''0xee'' 178 = Inr l"
    "provable exampleViem leaves (jOutputRoot (rcJournal r)) l" by blast
  with r ls show ?thesis by blast
qed

end
