(* ===== verification/NostrEvents.thy ===== *)
theory NostrEvents
  imports Hypercerts
begin

text \<open>
  The input of the workspace program, nostr-workspace/recompute.ts, and its validators of events: vouches,
  repository roots, statuses, forum posts and votes, job requests and their terminal results.
\<close>

section \<open>Types\<close>

record NostrLimits =
  nlEnvelopeBytes :: int
  nlSelectedHeads :: int
  nlAuditEntries :: int
  nlEvents :: int
  nlEncodedEventBytes :: int
  nlContentBytes :: int
  nlTagsPerEvent :: int
  nlElementsPerTag :: int
  nlTagStringBytes :: int
  nlAllTagStringsBytes :: int
  nlAuditDetailBytes :: int
  nlNip01Signatures :: int
  nlOaSignatures :: int

record NostrWorkspaceParams =
  nwVersion :: int
  nwOutputDomain :: hex
  nwDampingFp :: int
  nwToleranceFp :: int
  nwMaxIterations :: int
  nwTrustShareFp :: int
  nwTrustDecayFp :: int
  nwPrecisionScale :: int
  nwTotalPool :: int
  nwTrustedSeedPubkeys :: "hex list"
  nwCommunityId :: hex
  nwInstanceDomain :: hex
  nwRelayPubkey :: hex
  nwChainId :: int
  nwAllowedVariants :: int
  nwWVouchFp :: int
  nwWMergeFp :: int
  nwWJobFp :: int
  nwWForumFp :: int
  nwRelayAttestedWeightFp :: int
  nwForumPairCap :: int
  nwJobPairCap :: int
  nwLane2MaxHeadAge :: int
  nwMaxAnchorRecords :: int
  nwMaxEstimatedPgu :: int
  nwLimits :: NostrLimits

text \<open>
  An event of the input.  \<open>order\<close> is a pair of a decimal text and a number; the model holds the integer the
  text denotes.  The fields the recomputation never reads (\<open>createdAt\<close>, \<open>observedAt\<close>, the reason of a
  disposition) are left out.
\<close>

record AuthenticatedEvent =
  aeId :: hex
  aePubkey :: hex
  aeKind :: int
  aeTags :: "string list list"
  aeContent :: string
  aeOaOwner :: "hex option"
  aeAccepted :: bool
  aeProvenance :: int
  aeOrder :: "int \<times> int"

section \<open>Strings\<close>

definition strip0x :: "hex \<Rightarrow> string" where
  "strip0x v = toLowerCase (drop 2 v)"

definition lowerHexChar :: "char \<Rightarrow> bool" where
  "lowerHexChar c \<longleftrightarrow> hexValue c \<noteq> None \<and> lowerChar c = c"

definition hex32 :: "string \<Rightarrow> hex option" where
  "hex32 v = (if length v = 64 \<and> list_all lowerHexChar v then Some (''0x'' @ v) else None)"

definition canonicalUuid :: "string \<Rightarrow> bool" where
  "canonicalUuid v \<longleftrightarrow> length v = 36 \<and>
     list_all (\<lambda>i. if i \<in> {8, 13, 18, 23} then v ! i = CHR ''-'' else lowerHexChar (v ! i)) [0..<36]"

definition isCommit :: "string \<Rightarrow> bool" where
  "isCommit v \<longleftrightarrow> (length v = 40 \<or> length v = 64) \<and> list_all lowerHexChar v"

text \<open>\<open>Number.isSafeInteger\<close> holds of the decimals below \<open>2 ^ 53\<close>, which convert exactly.\<close>

definition canonicalU32 :: "string \<Rightarrow> int \<Rightarrow> int option" where
  "canonicalU32 v maximum =
     (if \<not> (v = ''0'' \<or> (v \<noteq> [] \<and> hd v \<noteq> CHR ''0'' \<and> list_all isDigit v)) then None
      else let parsed = int (digitsVal v) in
        if parsed < 2 ^ 53 \<and> parsed \<le> maximum then Some parsed else None)"

definition utf8Length :: "viem \<Rightarrow> string \<Rightarrow> int" where
  "utf8Length V v = int (length (stringToBytes V v))"

fun splitOn :: "char \<Rightarrow> string \<Rightarrow> string list" where
  "splitOn c [] = [[]]"
| "splitOn c (x # xs) = (if x = c then [] # splitOn c xs
     else case splitOn c xs of [] \<Rightarrow> [[x]] | f # fs \<Rightarrow> (x # f) # fs)"

fun hasDots :: "string \<Rightarrow> bool" where
  "hasDots (a # b # s) \<longleftrightarrow> (a = CHR ''.'' \<and> b = CHR ''.'') \<or> hasDots (b # s)"
| "hasDots _ \<longleftrightarrow> False"

definition repoChar :: "char \<Rightarrow> bool" where
  "repoChar c \<longleftrightarrow> (let n = of_char c :: nat in 65 \<le> n \<and> n \<le> 90 \<or> 97 \<le> n \<and> n \<le> 122) \<or> isDigit c \<or>
     c \<in> {CHR ''.'', CHR ''_'', CHR ''-''}"

definition repoCoordinate :: "string \<Rightarrow> hex option" where
  "repoCoordinate v =
     (let fields = splitOn (CHR '':'') v in
      if length fields \<noteq> 3 \<or> fields ! 0 \<noteq> ''30617'' then None
      else let owner = hex32 (fields ! 1); repo = fields ! 2 in
        if owner = None \<or> length repo = 0 \<or> length repo > 64 \<or> hd repo = CHR ''.'' \<or> hasDots repo \<or>
           \<not> list_all repoChar repo then None
        else owner)"

section \<open>Tags\<close>

definition tagName :: "string list \<Rightarrow> string option" where
  "tagName tag = (case tag of [] \<Rightarrow> None | n # _ \<Rightarrow> Some n)"

definition tagsNamed :: "AuthenticatedEvent \<Rightarrow> string \<Rightarrow> string list list" where
  "tagsNamed e name = filter (\<lambda>tag. tagName tag = Some name) (aeTags e)"

definition soleTag :: "AuthenticatedEvent \<Rightarrow> string \<Rightarrow> string list option" where
  "soleTag e name = (let tags = tagsNamed e name in if length tags = 1 then Some (tags ! 0) else None)"

definition exactTwo :: "AuthenticatedEvent \<Rightarrow> string \<Rightarrow> string option" where
  "exactTwo e name = (case soleTag e name of None \<Rightarrow> None
     | Some tag \<Rightarrow> if length tag = 2 then Some (tag ! 1) else None)"

text \<open>A pair of texts that is present and not empty, which is what a condition on it tests.\<close>

definition present :: "string option \<Rightarrow> bool" where
  "present x \<longleftrightarrow> (case x of None \<Rightarrow> False | Some s \<Rightarrow> s \<noteq> [])"

definition hexOption :: "string option \<Rightarrow> hex option" where
  "hexOption x = (case x of None \<Rightarrow> None | Some s \<Rightarrow> if s = [] then None else hex32 s)"

section \<open>The validators\<close>

definition validVouch :: "AuthenticatedEvent \<Rightarrow> (hex \<times> int) option" where
  "validVouch e =
     (if aeKind e \<noteq> 36382 \<or> aeContent e \<noteq> [] then None
      else let authCount = length (tagsNamed e ''auth'') in
        if length (aeTags e) \<noteq> 2 + authCount \<or> authCount > 1 then None
        else if \<not> list_all (\<lambda>tag. orDefault (tagName tag) [] \<in> {''d'', ''weight'', ''auth''}) (aeTags e) then None
        else let parsedSubject = hexOption (exactTwo e ''d'');
                 parsedWeight = (case exactTwo e ''weight'' of None \<Rightarrow> None | Some w \<Rightarrow> canonicalU32 w 100) in
          case (parsedSubject, parsedWeight) of (Some s, Some w) \<Rightarrow> Some (s, w) | _ \<Rightarrow> None)"

definition validPatchTag :: "string list \<Rightarrow> bool" where
  "validPatchTag tag =
     (let name = orDefault (tagName tag) []; n = length tag in
      if name = ''a'' then n = 2 \<and> repoCoordinate (tag ! 1) \<noteq> None
      else if name = ''p'' then n = 2 \<and> hex32 (tag ! 1) \<noteq> None
      else if name = ''t'' then n = 2
      else if name = ''r'' then (n = 2 \<or> (n = 3 \<and> tag ! 2 = ''euc'')) \<and> isCommit (tag ! 1)
      else if name = ''commit'' \<or> name = ''parent-commit'' then n = 2 \<and> isCommit (tag ! 1)
      else if name = ''commit-pgp-sig'' then n = 2
      else if name = ''committer'' then n = 5
      else False)"

definition validPrTag :: "viem \<Rightarrow> string list \<Rightarrow> bool" where
  "validPrTag V tag =
     (let name = orDefault (tagName tag) []; n = length tag in
      if name = ''a'' then n = 2 \<and> repoCoordinate (tag ! 1) \<noteq> None
      else if name = ''p'' then n = 2 \<and> hex32 (tag ! 1) \<noteq> None
      else if name = ''r'' \<or> name = ''c'' \<or> name = ''merge-base'' then n = 2 \<and> isCommit (tag ! 1)
      else if name = ''subject'' then n = 2 \<and> length (tag ! 1) > 0 \<and> utf8Length V (tag ! 1) \<le> 256
      else if name = ''t'' then n = 2
      else if name = ''h'' then n = 2 \<and> canonicalUuid (tag ! 1)
      else if name = ''clone'' then n \<ge> 2 \<and> list_all (\<lambda>s. s \<noteq> []) (drop 1 tag)
      else if name = ''branch-name'' then n = 2
      else if name = ''e'' then n = 2 \<and> hex32 (tag ! 1) \<noteq> None
      else False)"

definition validRepoRoot :: "viem \<Rightarrow> AuthenticatedEvent \<Rightarrow> bool" where
  "validRepoRoot V e =
     (let coordinate = exactTwo e ''a'';
          owner = (case coordinate of None \<Rightarrow> None | Some s \<Rightarrow> if s = [] then None else repoCoordinate s);
          pTags = tagsNamed e ''p'' in
      case owner of None \<Rightarrow> False
      | Some owner \<Rightarrow>
          if \<not> list_all (\<lambda>tag. length tag = 2 \<and> hex32 (tag ! 1) \<noteq> None) pTags then False
          else if \<not> list_ex (\<lambda>tag. tag ! 1 = strip0x owner) pTags then False
          else if aeKind e = 1617 then
            (let t = tagsNamed e ''t'' in
             length (trim (aeContent e)) > 0 \<and> utf8Length V (aeContent e) \<le> 60 * 1024 \<and>
             length t = 1 \<and> length (t ! 0) = 2 \<and> (t ! 0) ! 1 = ''root'' \<and>
             length (tagsNamed e ''e'') = 0 \<and> list_all validPatchTag (aeTags e))
          else if aeKind e \<noteq> 1618 then False
          else
            (let subject = exactTwo e ''subject''; commit = exactTwo e ''c''; clone = soleTag e ''clone'' in
             present subject \<and> utf8Length V (orDefault subject []) \<le> 256 \<and>
             present commit \<and> isCommit (orDefault commit []) \<and>
             (case clone of None \<Rightarrow> False | Some c \<Rightarrow> length c \<ge> 2 \<and> list_all (\<lambda>s. s \<noteq> []) (drop 1 c)) \<and>
             utf8Length V (aeContent e) \<le> 64 * 1024 \<and> list_all (validPrTag V) (aeTags e)))"

definition validStatusTag :: "bool \<Rightarrow> string list \<Rightarrow> bool" where
  "validStatusTag merged tag =
     (let name = orDefault (tagName tag) []; n = length tag in
      (name = ''e'' \<and> n = 4 \<and> tag ! 2 = [] \<and> (tag ! 3 = ''root'' \<or> tag ! 3 = ''reply'') \<and> hex32 (tag ! 1) \<noteq> None) \<or>
      (name = ''p'' \<and> n = 2 \<and> hex32 (tag ! 1) \<noteq> None) \<or>
      (name = ''a'' \<and> n = 2 \<and> repoCoordinate (tag ! 1) \<noteq> None) \<or>
      (name = ''r'' \<and> n = 2 \<and> isCommit (tag ! 1)) \<or>
      (merged \<and> name = ''q'' \<and> n \<ge> 2 \<and> n \<le> 4 \<and> hex32 (tag ! 1) \<noteq> None \<and>
         (n < 4 \<or> (length (tag ! 2) > 0 \<and> hex32 (tag ! 3) \<noteq> None))) \<or>
      (merged \<and> name = ''merge-commit'' \<and> n = 2 \<and> isCommit (tag ! 1)) \<or>
      (merged \<and> name = ''applied-as-commits'' \<and> n \<ge> 2 \<and> list_all isCommit (drop 1 tag)))"

definition validStatus :: "viem \<Rightarrow> AuthenticatedEvent \<Rightarrow> hex option" where
  "validStatus V e =
     (if aeKind e < 1630 \<or> aeKind e > 1633 \<or> utf8Length V (aeContent e) > 64 * 1024 then None
      else let roots = filter (\<lambda>tag. length tag = 4 \<and> tag ! 2 = [] \<and> tag ! 3 = ''root'' \<and> hex32 (tag ! 1) \<noteq> None)
                 (tagsNamed e ''e'') in
      if length roots \<noteq> 1 then None
      else if length (filter (\<lambda>tag. length tag > 3 \<and> tag ! 3 = ''reply'') (tagsNamed e ''e'')) > 1 then None
      else if length (tagsNamed e ''a'') > 1 \<or> length (tagsNamed e ''merge-commit'') > 1 \<or>
        length (tagsNamed e ''applied-as-commits'') > 1 then None
      else if \<not> list_all (validStatusTag (aeKind e = 1631)) (aeTags e) then None
      else let references = map (\<lambda>tag. tag ! 1) (tagsNamed e ''r''); mergeCommit = exactTwo e ''merge-commit'' in
      if present mergeCommit \<and> orDefault mergeCommit [] \<notin> set references then None
      else let applied = (case soleTag e ''applied-as-commits'' of None \<Rightarrow> [] | Some tag \<Rightarrow> drop 1 tag) in
      if length (newSet applied) \<noteq> length applied \<or> list_ex (\<lambda>c. c \<notin> set references) applied then None
      else hex32 (roots ! 0 ! 1))"

definition validForumTarget :: "AuthenticatedEvent \<Rightarrow> string option" where
  "validForumTarget e =
     (if aeKind e \<noteq> 45001 \<and> aeKind e \<noteq> 45003 then None
      else let channel = exactTwo e ''h'' in
        if present channel \<and> canonicalUuid (orDefault channel []) then channel else None)"

definition validVote :: "AuthenticatedEvent \<Rightarrow> (hex \<times> string \<times> bool) option" where
  "validVote e =
     (if aeKind e \<noteq> 45002 \<or> length (aeTags e) \<noteq> 2 then None
      else let channel = exactTwo e ''h''; target = hexOption (exactTwo e ''e'') in
        if \<not> present channel \<or> \<not> canonicalUuid (orDefault channel []) \<or> target = None then None
        else if aeContent e \<noteq> ''+'' \<and> aeContent e \<noteq> ''-'' then None
        else Some (orDefault target [], orDefault channel [], aeContent e = ''+''))"

definition validRequest :: "viem \<Rightarrow> AuthenticatedEvent \<Rightarrow> (hex \<times> string) option" where
  "validRequest V e =
     (if aeKind e \<noteq> 43001 \<or> length (aeTags e) \<noteq> 2 \<or> length (aeContent e) = 0 \<or> utf8Length V (aeContent e) > 16384
      then None
      else let channel = exactTwo e ''h''; agent = hexOption (exactTwo e ''p'') in
        if present channel \<and> canonicalUuid (orDefault channel []) \<and> agent \<noteq> None
        then Some (orDefault agent [], orDefault channel []) else None)"

definition terminalRefs :: "AuthenticatedEvent \<Rightarrow> (hex \<times> hex \<times> string) option" where
  "terminalRefs e =
     (case soleTag e ''e'' of None \<Rightarrow> None
      | Some root \<Rightarrow>
          let peer = hexOption (exactTwo e ''p''); channel = exactTwo e ''h'' in
          if length root \<noteq> 4 \<or> root ! 2 \<noteq> [] \<or> root ! 3 \<noteq> ''root'' \<or> hex32 (root ! 1) = None \<or> peer = None \<or>
             \<not> present channel \<or> \<not> canonicalUuid (orDefault channel []) then None
          else Some (orDefault (hex32 (root ! 1)) [], orDefault peer [], orDefault channel []))"

definition validTerminal :: "viem \<Rightarrow> AuthenticatedEvent \<Rightarrow> AuthenticatedEvent \<Rightarrow> bool" where
  "validTerminal V e request =
     (case (terminalRefs e, validRequest V request) of
        (Some (requestId, peer, channel), Some (agent, requestChannel)) \<Rightarrow>
          if requestId \<noteq> toLowerCase (aeId request) \<or> channel \<noteq> requestChannel then False
          else let authCount = length (tagsNamed e ''auth'') in
            if aeKind e = 43004 then
              length (aeTags e) = 4 \<and> length (aeContent e) > 0 \<and> utf8Length V (aeContent e) \<le> 65536 \<and>
              toLowerCase (aePubkey e) = agent \<and> peer = toLowerCase (aePubkey request) \<and>
              aeOaOwner e \<noteq> None \<and> authCount = 1
            else if aeKind e = 43005 then
              length (aeTags e) = 3 \<and> utf8Length V (aeContent e) \<le> 4096 \<and>
              toLowerCase (aePubkey e) = toLowerCase (aePubkey request) \<and> peer = agent \<and> authCount = 0
            else if aeKind e = 43006 then
              length (aeTags e) = 4 \<and> utf8Length V (aeContent e) \<le> 4096 \<and>
              toLowerCase (aePubkey e) = agent \<and> peer = toLowerCase (aePubkey request) \<and>
              aeOaOwner e \<noteq> None \<and> authCount = 1
            else False
      | _ \<Rightarrow> False)"

end
