(* ===== verification/NostrSemantics.thy ===== *)
theory NostrSemantics
  imports NostrEvents
begin

text \<open>
  The derivation of the weighted graph from the validated events and the reproduction of the journal,
  nostr-workspace/recompute.ts: \<open>deriveSemantics\<close> stage by stage, the parameter commitment, the skip
  digest and \<open>recompute\<close>.
\<close>

section \<open>Order and weights\<close>

definition nostrNodeId :: "viem \<Rightarrow> hex \<Rightarrow> hex" where
  "nostrNodeId V pubkey = keccak256Bytes V (toBytesOf V (''did:nostr:'' @ strip0x pubkey))"

definition compareOrder :: "AuthenticatedEvent \<Rightarrow> AuthenticatedEvent \<Rightarrow> int" where
  "compareOrder a b =
     (case (aeOrder a, aeOrder b) of ((x0, x1), (y0, y1)) \<Rightarrow>
       let x2 = toLowerCase (aeId a); y2 = toLowerCase (aeId b) in
       if x0 \<noteq> y0 then (if x0 < y0 then -1 else 1)
       else if x1 \<noteq> y1 then x1 - y1
       else if x2 < y2 then -1 else if x2 > y2 then 1 else 0)"

definition weighted :: "int \<Rightarrow> int \<Rightarrow> NostrWorkspaceParams \<Rightarrow> int result" where
  "weighted base provenance p =
     (if provenance = 1 then bigDiv (base * nwRelayAttestedWeightFp p) (nwPrecisionScale p) else Inr base)"

definition jointProvenance :: "int \<Rightarrow> int \<Rightarrow> int" where
  "jointProvenance a b = min a b"

record Candidate =
  cdSource :: hex
  cdTarget :: hex
  cdWeight :: int
  cdProvenance :: int
  cdEvent :: AuthenticatedEvent

definition compareCandidate :: "Candidate \<Rightarrow> Candidate \<Rightarrow> int" where
  "compareCandidate a b =
     (if cdProvenance a \<noteq> cdProvenance b then cdProvenance a - cdProvenance b
      else compareOrder (cdEvent a) (cdEvent b))"

definition author :: "AuthenticatedEvent \<Rightarrow> hex" where
  "author e = toLowerCase (aePubkey e)"

definition pairKey :: "string \<Rightarrow> string \<Rightarrow> string" where
  "pairKey a b = a @ '':'' @ b"

section \<open>Agents and usable events\<close>

type_synonym owner_sets = "(hex, hex list) jmap"

definition ownerStep :: "owner_sets \<Rightarrow> AuthenticatedEvent \<Rightarrow> owner_sets" where
  "ownerStep m e =
     (if \<not> present (aeOaOwner e) then m
      else let owners = orDefault (jget m (author e)) [] in
        jset (author e) (setAdd (toLowerCase (orDefault (aeOaOwner e) [])) owners) m)"

definition ownerSetsOf :: "AuthenticatedEvent list \<Rightarrow> owner_sets" where
  "ownerSetsOf accepted = foldl ownerStep [] accepted"

definition agentStep :: "hex list \<times> (hex \<times> hex) list \<Rightarrow> hex \<times> hex list \<Rightarrow> hex list \<times> (hex \<times> hex) list" where
  "agentStep st entry =
     (case (st, entry) of ((eligible, agents), (agent, owners)) \<Rightarrow>
       if length owners \<noteq> 1 then (eligible, agents)
       else (setAdd agent eligible, agents @ [(agent, owners ! 0)]))"

definition eligibleAgents :: "hex list \<Rightarrow> owner_sets \<Rightarrow> hex list \<times> (hex \<times> hex) list" where
  "eligibleAgents roster owners = foldl agentStep (newSet (map toLowerCase roster), []) owners"

definition cmpAgent :: "hex \<times> hex \<Rightarrow> hex \<times> hex \<Rightarrow> int" where
  "cmpAgent a b = orElse (cmpHex (fst a) (fst b)) (cmpHex (snd a) (snd b))"

definition usableEvents :: "owner_sets \<Rightarrow> AuthenticatedEvent list \<Rightarrow> AuthenticatedEvent list" where
  "usableEvents owners accepted = filter (\<lambda>e. \<not> present (aeOaOwner e) \<or>
     (case jget owners (author e) of None \<Rightarrow> False | Some os \<Rightarrow> length os = 1)) accepted"

definition addNode :: "viem \<Rightarrow> weights \<Rightarrow> hex \<Rightarrow> hex \<Rightarrow> int \<Rightarrow> weights" where
  "addNode V outgoing source target w =
     (if w = 0 then outgoing else addWeight (nostrNodeId V source) (nostrNodeId V target) w outgoing)"

definition addCandidate :: "viem \<Rightarrow> weights \<Rightarrow> Candidate \<Rightarrow> weights" where
  "addCandidate V outgoing c = addNode V outgoing (cdSource c) (cdTarget c) (cdWeight c)"

section \<open>Vouches\<close>

definition vouchStep ::
  "viem \<Rightarrow> NostrWorkspaceParams \<Rightarrow> hex list \<Rightarrow> weights \<Rightarrow> AuthenticatedEvent \<Rightarrow> weights result" where
  "vouchStep V p eligible outgoing e =
     (if aeKind e \<noteq> 36382 then Inr outgoing
      else case validVouch e of None \<Rightarrow> Inr outgoing
      | Some (subject, percent) \<Rightarrow>
          if author e = subject \<or> subject \<notin> set eligible then Inr outgoing
          else bindE (bigDiv (nwWVouchFp p * percent) 100) (\<lambda>base.
            bindE (weighted base (aeProvenance e) p) (\<lambda>w. Inr (addNode V outgoing (author e) subject w))))"

section \<open>Merges\<close>

definition rootsOf :: "viem \<Rightarrow> AuthenticatedEvent list \<Rightarrow> hex list" where
  "rootsOf V usable = foldl (\<lambda>roots e.
     if (aeKind e = 1617 \<or> aeKind e = 1618) \<and> validRepoRoot V e then setAdd (toLowerCase (aeId e)) roots else roots)
     [] usable"

definition keepLatest ::
  "string \<Rightarrow> AuthenticatedEvent \<Rightarrow> (string, AuthenticatedEvent) jmap \<Rightarrow> (string, AuthenticatedEvent) jmap" where
  "keepLatest key e m =
     (case jget m key of None \<Rightarrow> jset key e m
      | Some current \<Rightarrow> if compareOrder e current > 0 then jset key e m else m)"

definition statusesOf :: "viem \<Rightarrow> AuthenticatedEvent list \<Rightarrow> (string, AuthenticatedEvent) jmap" where
  "statusesOf V usable = foldl (\<lambda>m e.
     case validStatus V e of None \<Rightarrow> m | Some root \<Rightarrow> keepLatest (pairKey (author e) root) e m) [] usable"

definition candidateOf ::
  "NostrWorkspaceParams \<Rightarrow> int \<Rightarrow> hex \<Rightarrow> hex \<Rightarrow> AuthenticatedEvent \<Rightarrow> AuthenticatedEvent \<Rightarrow> Candidate result" where
  "candidateOf p base source target e other =
     (let provenance = jointProvenance (aeProvenance e) (aeProvenance other) in
      bindE (weighted base provenance p) (\<lambda>w.
      Inr \<lparr>cdSource = source, cdTarget = target, cdWeight = w, cdProvenance = provenance, cdEvent = e\<rparr>))"

definition mergeStep ::
  "viem \<Rightarrow> NostrWorkspaceParams \<Rightarrow> (hex, AuthenticatedEvent) jmap \<Rightarrow> hex list \<Rightarrow>
   (string, Candidate) jmap \<Rightarrow> AuthenticatedEvent \<Rightarrow> (string, Candidate) jmap result" where
  "mergeStep V p byId roots pairs status =
     (if aeKind status \<noteq> 1631 then Inr pairs
      else let rootId = orDefault (validStatus V status) [] in
        case jget byId rootId of None \<Rightarrow> Inr pairs
        | Some root \<Rightarrow>
            if rootId \<notin> set roots \<or> author status = author root then Inr pairs
            else bindE (candidateOf p (nwWMergeFp p) (author status) (author root) status root) (\<lambda>candidate.
              let key = pairKey (cdSource candidate) (cdTarget candidate) in
              Inr (case jget pairs key of None \<Rightarrow> jset key candidate pairs
                | Some current \<Rightarrow> if compareCandidate candidate current > 0 then jset key candidate pairs else pairs)))"

section \<open>Forum votes\<close>

definition forumTargetsOf :: "AuthenticatedEvent list \<Rightarrow> (hex, AuthenticatedEvent \<times> string) jmap" where
  "forumTargetsOf usable = foldl (\<lambda>m e.
     if present (validForumTarget e) then jset (toLowerCase (aeId e)) (e, orDefault (validForumTarget e) []) m else m)
     [] usable"

definition voteStep ::
  "(hex, AuthenticatedEvent \<times> string) jmap \<Rightarrow>
   (string, AuthenticatedEvent \<times> bool \<times> AuthenticatedEvent) jmap \<Rightarrow> AuthenticatedEvent \<Rightarrow>
   (string, AuthenticatedEvent \<times> bool \<times> AuthenticatedEvent) jmap" where
  "voteStep targets m e =
     (case validVote e of None \<Rightarrow> m
      | Some (targetId, channel, positive) \<Rightarrow>
          (case jget targets targetId of None \<Rightarrow> m
           | Some (target, targetChannel) \<Rightarrow>
               if channel \<noteq> targetChannel \<or> author e = author target then m
               else let key = pairKey (author e) targetId in
                 case jget m key of None \<Rightarrow> jset key (e, positive, target) m
                 | Some current \<Rightarrow> if compareOrder e (fst current) > 0 then jset key (e, positive, target) m else m))"

definition pushPair :: "Candidate \<Rightarrow> (string, Candidate list) jmap \<Rightarrow> (string, Candidate list) jmap" where
  "pushPair candidate pairs =
     (let key = pairKey (cdSource candidate) (cdTarget candidate) in
      jset key (orDefault (jget pairs key) [] @ [candidate]) pairs)"

definition forumStep ::
  "NostrWorkspaceParams \<Rightarrow> (string, Candidate list) jmap \<Rightarrow> AuthenticatedEvent \<times> bool \<times> AuthenticatedEvent \<Rightarrow>
   (string, Candidate list) jmap result" where
  "forumStep p pairs entry =
     (case entry of (vote, positive, target) \<Rightarrow>
       if \<not> positive then Inr pairs
       else bindE (candidateOf p (nwWForumFp p) (author vote) (author target) vote target) (\<lambda>candidate.
         Inr (pushPair candidate pairs)))"

section \<open>Jobs\<close>

definition requestsOf :: "viem \<Rightarrow> AuthenticatedEvent list \<Rightarrow> (hex, AuthenticatedEvent) jmap" where
  "requestsOf V usable = foldl (\<lambda>m e.
     if validRequest V e \<noteq> None then jset (toLowerCase (aeId e)) e m else m) [] usable"

definition terminalStep ::
  "viem \<Rightarrow> (hex, AuthenticatedEvent) jmap \<Rightarrow> (hex, AuthenticatedEvent) jmap \<Rightarrow> AuthenticatedEvent \<Rightarrow>
   (hex, AuthenticatedEvent) jmap" where
  "terminalStep V requests m e =
     (if aeKind e < 43004 \<or> aeKind e > 43006 then m
      else case terminalRefs e of None \<Rightarrow> m
      | Some (requestId, peer, channel) \<Rightarrow>
          (case jget requests requestId of None \<Rightarrow> m
           | Some request \<Rightarrow> if \<not> validTerminal V e request then m else keepLatest requestId e m))"

definition jobStep ::
  "NostrWorkspaceParams \<Rightarrow> hex list \<Rightarrow> (hex, AuthenticatedEvent) jmap \<Rightarrow> (string, Candidate list) jmap \<Rightarrow>
   hex \<times> AuthenticatedEvent \<Rightarrow> (string, Candidate list) jmap result" where
  "jobStep p eligible requests pairs entry =
     (case entry of (requestId, terminal) \<Rightarrow>
       if aeKind terminal \<noteq> 43004 then Inr pairs
       else bindE (need (jget requests requestId)) (\<lambda>request.
         let agent = author terminal in
         if author request = agent \<or> agent \<notin> set eligible \<or> \<not> present (aeOaOwner terminal) then Inr pairs
         else let provenance = jointProvenance (aeProvenance request) (aeProvenance terminal) in
           bindE (weighted (nwWJobFp p) provenance p) (\<lambda>w.
           Inr (pushPair \<lparr>cdSource = author request, cdTarget = agent, cdWeight = w, cdProvenance = provenance,
             cdEvent = terminal\<rparr> pairs))))"

definition applyCapped :: "viem \<Rightarrow> (string, Candidate list) jmap \<Rightarrow> int \<Rightarrow> weights \<Rightarrow> weights" where
  "applyCapped V pairs cap outgoing =
     foldl (\<lambda>m candidates. foldl (addCandidate V) m (sliceTo cap (sortBy (\<lambda>a b. compareCandidate b a) candidates)))
       outgoing (jvalues pairs)"

section \<open>The derivation\<close>

record DerivedSemantics =
  dsGraph :: Graph
  dsEdges :: "wedge list"
  dsAgents :: "(hex \<times> hex) list"

definition cmpEdge :: "wedge \<Rightarrow> wedge \<Rightarrow> int" where
  "cmpEdge a b = orElse (cmpHex (fst a) (fst b)) (cmpHex (fst (snd a)) (fst (snd b)))"

definition derivedEdges :: "weights \<Rightarrow> wedge list" where
  "derivedEdges outgoing = sortBy cmpEdge
     (concat (map (\<lambda>(source, targets). map (\<lambda>(target, w). (source, target, w)) targets) outgoing))"

definition deriveSemantics ::
  "viem \<Rightarrow> AuthenticatedEvent list \<Rightarrow> hex list \<Rightarrow> NostrWorkspaceParams \<Rightarrow> DerivedSemantics result" where
  "deriveSemantics V events rosterPubkeys p =
     (let accepted = filter aeAccepted events;
          owners = ownerSetsOf accepted;
          (eligible, agents0) = eligibleAgents rosterPubkeys owners;
          agents = sortBy cmpAgent agents0;
          usable = usableEvents owners accepted;
          byId = newMap (map (\<lambda>e. (toLowerCase (aeId e), e)) usable) in
      bindE (foldE (vouchStep V p eligible) [] usable) (\<lambda>vouched.
      let roots = rootsOf V usable; statuses = statusesOf V usable in
      bindE (foldE (mergeStep V p byId roots) [] (jvalues statuses)) (\<lambda>mergePairs.
      let merged = foldl (addCandidate V) vouched (jvalues mergePairs);
          forumTargets = forumTargetsOf usable;
          voteState = foldl (voteStep forumTargets) [] usable in
      bindE (foldE (forumStep p) [] (jvalues voteState)) (\<lambda>forumPairs.
      let requests = requestsOf V usable;
          terminals = foldl (terminalStep V requests) [] usable in
      bindE (foldE (jobStep p eligible requests) [] terminals) (\<lambda>jobPairs.
      let outgoing = applyCapped V jobPairs (nwJobPairCap p) (applyCapped V forumPairs (nwForumPairCap p) merged);
          nodes = sortBy cmpHex (map (nostrNodeId V) eligible) in
      Inr \<lparr>dsGraph = \<lparr>gNodes = nodes, gOutgoing = outgoing\<rparr>, dsEdges = derivedEdges outgoing,
           dsAgents = agents\<rparr>)))))"

section \<open>The recomputation\<close>

definition wordBytes16 :: "hex \<Rightarrow> hex result" where
  "wordBytes16 v =
     (if length (strip0x v) \<noteq> 32 then Inl (PlainError ''communityId must be bytes16'')
      else Inr (v @ concat (replicate 16 ''00'')))"

definition nostrSeedSetRoot :: "viem \<Rightarrow> hex list \<Rightarrow> hex result" where
  "nostrSeedSetRoot V pubkeys =
     (let ids = sortBy cmpHex (map (nostrNodeId V) pubkeys) in merkleRoot V (map (keccak256 V) ids))"

definition nostrOutputLeaf :: "viem \<Rightarrow> hex \<Rightarrow> int \<Rightarrow> hex result" where
  "nostrOutputLeaf V nodeId v =
     bindE (concatE V [Inr nodeId, wordU256 V v]) (\<lambda>encoded. Inr (keccak256 V (keccak256 V encoded)))"

definition nostrParamsEncoded :: "viem \<Rightarrow> NostrWorkspaceParams \<Rightarrow> hex result" where
  "nostrParamsEncoded V p =
     (let l = nwLimits p in
      concatE V [wordU32 V 3, wordU32 V (nwVersion p), Inr (nwOutputDomain p), wordU256 V (nwDampingFp p),
        wordU256 V (nwToleranceFp p), wordU32 V (nwMaxIterations p), wordU256 V (nwTrustShareFp p),
        wordU256 V (nwTrustDecayFp p), wordU256 V (nwPrecisionScale p), wordU256 V (nwTotalPool p),
        nostrSeedSetRoot V (nwTrustedSeedPubkeys p), wordBytes16 (nwCommunityId p), Inr (nwInstanceDomain p),
        Inr (nwRelayPubkey p), wordU64 V (nwChainId p), wordU8 V (nwAllowedVariants p), wordU256 V (nwWVouchFp p),
        wordU256 V (nwWMergeFp p), wordU256 V (nwWJobFp p), wordU256 V (nwWForumFp p),
        wordU256 V (nwRelayAttestedWeightFp p), wordU32 V (nwForumPairCap p), wordU32 V (nwJobPairCap p),
        wordU64 V (nwLane2MaxHeadAge p), wordU32 V (nwMaxAnchorRecords p), wordU64 V (nwMaxEstimatedPgu p),
        wordU32 V (nlEnvelopeBytes l), wordU32 V (nlSelectedHeads l), wordU32 V (nlAuditEntries l),
        wordU32 V (nlEvents l), wordU32 V (nlEncodedEventBytes l), wordU32 V (nlContentBytes l),
        wordU32 V (nlTagsPerEvent l), wordU32 V (nlElementsPerTag l), wordU32 V (nlTagStringBytes l),
        wordU32 V (nlAllTagStringsBytes l), wordU32 V (nlAuditDetailBytes l), wordU32 V (nlNip01Signatures l),
        wordU32 V (nlOaSignatures l)])"

definition nostrParamsHash :: "viem \<Rightarrow> NostrWorkspaceParams \<Rightarrow> hex result" where
  "nostrParamsHash V p = bindE (nostrParamsEncoded V p) (\<lambda>encoded. Inr (keccak256 V encoded))"

definition nostrSkipLeaf :: "viem \<Rightarrow> SkippedNode \<Rightarrow> hex result" where
  "nostrSkipLeaf V e =
     bindE (concatE V [Inr (skNodeId e), wordU8 V (skReason e), wordU64 V (skEpochObserved e)])
       (\<lambda>encoded. Inr (keccak256 V encoded))"

text \<open>
  This comparator answers 1 for two equal entries, in either order.  For such a comparator the language leaves
  the order to the engine; the insertion of the model is one order, and equal entries are interchangeable.
\<close>

definition cmpNostrSkip :: "SkippedNode \<Rightarrow> SkippedNode \<Rightarrow> int" where
  "cmpNostrSkip a b =
     (let byNode = cmpHex (skNodeId a) (skNodeId b) in
      if byNode \<noteq> 0 then byNode
      else if skReason a \<noteq> skReason b then skReason a - skReason b
      else if skEpochObserved a < skEpochObserved b then -1 else 1)"

definition nostrSkippedDigest :: "viem \<Rightarrow> SkippedNode list \<Rightarrow> hex result" where
  "nostrSkippedDigest V skips =
     foldE (\<lambda>digest e. bindE (nostrSkipLeaf V e) (\<lambda>leaf. Inr (foldLeaf V digest leaf))) ZERO_HASH
       (sortBy cmpNostrSkip skips)"

definition nostrRankParams :: "NostrWorkspaceParams \<Rightarrow> hex list \<Rightarrow> Params" where
  "nostrRankParams p seeds =
     \<lparr>dampingFp = nwDampingFp p, toleranceFp = nwToleranceFp p, maxIterations = nwMaxIterations p,
      minWeightFp = 0, maxWeightFp = 0, trustShareFp = nwTrustShareFp p, trustDecayFp = nwTrustDecayFp p,
      trustedSeeds = seeds, totalPool = nwTotalPool p, precisionScale = nwPrecisionScale p,
      schemaUid = ZERO_HASH, weightFieldIndex = 0, envelope0DomainSeparators = None, lane2MaxHeadAge = None,
      accumulator = ''0x'' @ replicate 40 (CHR ''0''), chainId = 0\<rparr>"

record NostrInput =
  niEvents :: "AuthenticatedEvent list"
  niRosterPubkeys :: "hex list"
  niBindings :: "NodeBinding list"
  niSkips :: "SkippedNode list"
  niParams :: NostrWorkspaceParams
  niAnchorAcc :: hex
  niAnchorCount :: int
  niBinding :: Binding

record NostrResult =
  nrSemantics :: DerivedSemantics
  nrScores :: "(hex \<times> int) list"
  nrBlob :: string
  nrCid :: string
  nrJournal :: Journal

definition nostrLeaves :: "viem \<Rightarrow> (hex, hex) jmap \<Rightarrow> (hex \<times> int) list \<Rightarrow> hex list result" where
  "nostrLeaves V bindingByNode assigned =
     bindE (mapE (\<lambda>(node, v). nostrOutputLeaf V node v) assigned) (\<lambda>leaves.
     bindE (mapE (\<lambda>(addr, v). outputLeaf V addr v) (boundScores bindingByNode assigned)) (\<lambda>bound.
     Inr (leaves @ bound)))"

definition nostrRecompute :: "viem \<Rightarrow> NostrInput \<Rightarrow> NostrResult result" where
  "nostrRecompute V input =
     bindE (deriveSemantics V (niEvents input) (niRosterPubkeys input) (niParams input)) (\<lambda>semantics.
     let seeds = map (nostrNodeId V) (nwTrustedSeedPubkeys (niParams input));
         rank = nostrRankParams (niParams input) seeds in
     bindE (calculate (dsGraph semantics) rank) (\<lambda>scoresFp.
     let filtered = filter (\<lambda>(k, v). v \<noteq> 0) scoresFp in
     bindE (distributePoints filtered rank) (\<lambda>(assigned0, totalValue).
     let assigned = sortBy (\<lambda>a b. cmpHex (fst a) (fst b)) assigned0 in
     bindE (nostrLeaves V (bindingMap (niBindings input)) assigned) (\<lambda>leaves.
     bindE (merkleRoot V leaves) (\<lambda>outputRoot.
     let blob = canonicalBlob assigned; digest = sha256Utf8 V blob in
     bindE (cidV1Raw digest) (\<lambda>cid.
     bindE (nostrParamsHash V (niParams input)) (\<lambda>pHash.
     bindE (nostrSkippedDigest V (niSkips input)) (\<lambda>skipped.
     let journal = \<lparr>jAcc = ZERO_HASH, jLeafCount = 0, jAnchorAcc = niAnchorAcc input,
           jAnchorCount = niAnchorCount input, jParamsHash = pHash, jOutputRoot = outputRoot,
           jIpfsHash = digestToHex V digest, jCidDigest = keccak256Bytes V (stringToBytes V cid),
           jTotalValue = totalValue, jSkippedDigest = skipped, jRecipient = bRecipient (niBinding input),
           jInstanceDomain = bInstanceDomain (niBinding input)\<rparr> in
     Inr \<lparr>nrSemantics = semantics, nrScores = assigned, nrBlob = blob, nrCid = cid, nrJournal = journal\<rparr>))))))))"

end
