(* ===== verification/NostrEvidence.thy ===== *)
theory NostrEvidence
  imports NostrSemantics
begin

text \<open>
  What counts as evidence between two accounts, stated over the events alone, and the stages of the
  derivation as lists of edges.
  The tables of merges, votes and forum posts: every entry of each rests on evidence.
\<close>

section \<open>The adds as one list of edges between public keys\<close>

definition nodeEdges :: "viem \<Rightarrow> wedge list \<Rightarrow> wedge list" where
  "nodeEdges V gs = map (\<lambda>(a, b, w). (nostrNodeId V a, nostrNodeId V b, w)) (filter (\<lambda>(a, b, w). w \<noteq> 0) gs)"

definition candEdge :: "Candidate \<Rightarrow> wedge" where
  "candEdge c = (cdSource c, cdTarget c, cdWeight c)"

definition capped :: "int \<Rightarrow> (string, Candidate list) jmap \<Rightarrow> Candidate list" where
  "capped cap pairs = concat (map (\<lambda>cs. sliceTo cap (sortBy (\<lambda>a b. compareCandidate b a) cs)) (jvalues pairs))"

lemma nodeEdges_append: "nodeEdges V (gs @ hs) = nodeEdges V gs @ nodeEdges V hs"
  by (simp add: nodeEdges_def)

lemma addNode_edges:
  "addNode V (addAll (nodeEdges V gs) []) a b w = addAll (nodeEdges V (gs @ [(a, b, w)])) []"
  by (simp add: addNode_def nodeEdges_append addAll_append) (simp add: nodeEdges_def addAll_def)

lemma addCandidates_edges:
  "foldl (addCandidate V) (addAll (nodeEdges V gs) []) cs = addAll (nodeEdges V (gs @ map candEdge cs)) []"
proof (induction cs arbitrary: gs)
  case (Cons c cs)
  show ?case
    using Cons.IH [of "gs @ [candEdge c]"] by (simp add: addCandidate_def addNode_edges candEdge_def)
qed simp

lemma applyCapped_edges:
  "applyCapped V pairs cap (addAll (nodeEdges V gs) []) =
     addAll (nodeEdges V (gs @ map candEdge (capped cap pairs))) []"
proof -
  have "foldl (\<lambda>m cs. foldl (addCandidate V) m (f cs)) (addAll (nodeEdges V gs) []) css =
      addAll (nodeEdges V (gs @ map candEdge (concat (map f css)))) []" for f css
  proof (induction css arbitrary: gs)
    case (Cons cs css)
    show ?case using Cons.IH [of "gs @ map candEdge (f cs)"] by (simp add: addCandidates_edges)
  qed simp
  from this [of "\<lambda>cs. sliceTo cap (sortBy (\<lambda>a b. compareCandidate b a) cs)" "jvalues pairs"]
  show ?thesis unfolding applyCapped_def capped_def .
qed

definition vouchEdges :: "NostrWorkspaceParams \<Rightarrow> hex list \<Rightarrow> AuthenticatedEvent \<Rightarrow> wedge list result" where
  "vouchEdges p eligible e =
     (if aeKind e \<noteq> 36382 then Inr []
      else case validVouch e of None \<Rightarrow> Inr []
      | Some (subject, percent) \<Rightarrow>
          if author e = subject \<or> subject \<notin> set eligible then Inr []
          else bindE (bigDiv (nwWVouchFp p * percent) 100) (\<lambda>base.
            bindE (weighted base (aeProvenance e) p) (\<lambda>w. Inr [(author e, subject, w)])))"

lemma vouchStep_edges:
  "vouchStep V p el (addAll (nodeEdges V gs) []) e =
     bindE (vouchEdges p el e) (\<lambda>vs. Inr (addAll (nodeEdges V (gs @ vs)) []))"
  by (auto simp: vouchStep_def vouchEdges_def addNode_edges bindE_assoc split: option.splits)

lemma vouches_edges:
  "foldE (vouchStep V p el) (addAll (nodeEdges V gs) []) es =
     bindE (mapE (vouchEdges p el) es) (\<lambda>vss. Inr (addAll (nodeEdges V (gs @ concat vss)) []))"
proof (induction es arbitrary: gs)
  case (Cons e es)
  show ?case
    by (cases "vouchEdges p el e") (simp_all add: vouchStep_edges Cons.IH bindE_assoc)
qed simp

section \<open>What the tables hold\<close>

lemma setAdd_set [simp]: "set (setAdd x xs) = insert x (set xs)"
  by (auto simp: setAdd_def)

lemma newMap_member: "jget (newMap es) k = Some v \<Longrightarrow> (k, v) \<in> set es"
proof (induction es arbitrary: v rule: rev_induct)
  case (snoc e es)
  obtain k' v' where e: "e = (k', v')" by (cases e)
  from snoc show ?case by (auto simp: newMap_def e update_conv' split: if_split_asm)
qed (simp add: newMap_def)

definition tableOf :: "(('k \<times> 'v) \<Rightarrow> bool) \<Rightarrow> ('k, 'v) jmap \<Rightarrow> bool" where
  "tableOf P m \<longleftrightarrow> distinct (jkeys m) \<and> (\<forall>e \<in> set m. P e)"

lemma tableOf_Nil [simp]: "tableOf P []"
  by (simp add: tableOf_def)

lemma tableOf_jset: "tableOf P m \<Longrightarrow> P (k, v) \<Longrightarrow> tableOf P (jset k v m)"
  using set_jset [of k v m] by (auto simp: tableOf_def distinct_update)

lemma tableOf_get: "tableOf P m \<Longrightarrow> jget m k = Some v \<Longrightarrow> P (k, v)"
  by (auto simp: tableOf_def dest: map_of_SomeD)

lemma length_jset: "length (jset k v m) \<le> Suc (length m)"
  by (induction m) auto

lemma foldl_invariant:
  assumes "I s" and "\<And>s x. x \<in> set xs \<Longrightarrow> I s \<Longrightarrow> I (f s x)"
  shows "I (foldl f s xs)"
  using assms by (induction xs arbitrary: s) auto

lemma foldl_grows:
  assumes "\<And>s x. length (f s x) \<le> Suc (length s)"
  shows "length (foldl f s xs) \<le> length s + length xs"
proof (induction xs arbitrary: s)
  case (Cons x xs)
  from Cons [of "f s x"] assms [of s x] show ?case by simp
qed simp

lemma foldE_grows:
  assumes "\<And>s x t. f s x = Inr t \<Longrightarrow> length t \<le> Suc (length s)"
  shows "foldE f s xs = Inr t \<Longrightarrow> length t \<le> length s + length xs"
proof (induction xs arbitrary: s)
  case (Cons x xs)
  then obtain u where "f s x = Inr u" "foldE f u xs = Inr t" by auto
  with Cons.IH [of u] assms [of s x u] show ?case by simp
qed simp

text \<open>The evidence for an edge, one form for each kind of contribution.\<close>

definition vouchedBy :: "AuthenticatedEvent set \<Rightarrow> hex set \<Rightarrow> hex \<Rightarrow> hex \<Rightarrow> bool" where
  "vouchedBy U el a b \<longleftrightarrow> b \<in> el \<and> a \<noteq> b \<and> (\<exists>e \<in> U. \<exists>percent. validVouch e = Some (b, percent) \<and> author e = a)"

definition mergedBy :: "viem \<Rightarrow> AuthenticatedEvent set \<Rightarrow> hex \<Rightarrow> hex \<Rightarrow> bool" where
  "mergedBy V U a b \<longleftrightarrow> a \<noteq> b \<and> (\<exists>status \<in> U. \<exists>root \<in> U. aeKind status = 1631 \<and>
     validStatus V status = Some (toLowerCase (aeId root)) \<and> author status = a \<and> author root = b \<and>
     (\<exists>r \<in> U. toLowerCase (aeId r) = toLowerCase (aeId root) \<and> validRepoRoot V r))"

definition votedBy :: "AuthenticatedEvent set \<Rightarrow> hex \<Rightarrow> hex \<Rightarrow> bool" where
  "votedBy U a b \<longleftrightarrow> a \<noteq> b \<and> (\<exists>vote \<in> U. \<exists>target \<in> U. \<exists>channel.
     validVote vote = Some (toLowerCase (aeId target), channel, True) \<and> validForumTarget target = Some channel \<and>
     author vote = a \<and> author target = b)"

definition paidBy :: "viem \<Rightarrow> AuthenticatedEvent set \<Rightarrow> hex set \<Rightarrow> hex \<Rightarrow> hex \<Rightarrow> bool" where
  "paidBy V U el a b \<longleftrightarrow> a \<noteq> b \<and> b \<in> el \<and> (\<exists>request \<in> U. \<exists>terminal \<in> U.
     aeKind terminal = 43004 \<and> validTerminal V terminal request \<and> author request = a \<and> author terminal = b)"

definition candOk :: "(hex \<Rightarrow> hex \<Rightarrow> bool) \<Rightarrow> (int \<Rightarrow> bool) \<Rightarrow> Candidate \<Rightarrow> bool" where
  "candOk R B c \<longleftrightarrow> R (cdSource c) (cdTarget c) \<and> B (cdWeight c)"

text \<open>\<open>weightIn p base w\<close>: the weight \<open>w\<close> comes from the base weight with some provenance.\<close>

definition weightIn :: "NostrWorkspaceParams \<Rightarrow> int \<Rightarrow> int \<Rightarrow> bool" where
  "weightIn p base w \<longleftrightarrow> (\<exists>prov. weighted base prov p = Inr w)"

lemma byId_member:
  "jget (newMap (map (\<lambda>e. (toLowerCase (aeId e), e)) U)) k = Some e \<Longrightarrow> e \<in> set U \<and> toLowerCase (aeId e) = k"
  by (drule newMap_member) auto

lemma statuses_table:
  "tableOf (\<lambda>(k, e). e \<in> set U \<and> validStatus V e \<noteq> None) (statusesOf V U)"
  unfolding statusesOf_def
  by (rule foldl_invariant) (auto simp: keepLatest_def intro!: tableOf_jset split: option.splits)

lemma forumTargets_table:
  "tableOf (\<lambda>(k, e, ch). e \<in> set U \<and> toLowerCase (aeId e) = k \<and> validForumTarget e = Some ch) (forumTargetsOf U)"
  unfolding forumTargetsOf_def
  by (rule foldl_invariant) (auto simp: present_def orDefault_def intro!: tableOf_jset split: option.splits)

lemma requests_table:
  "tableOf (\<lambda>(k, e). e \<in> set U \<and> toLowerCase (aeId e) = k \<and> validRequest V e \<noteq> None) (requestsOf V U)"
  unfolding requestsOf_def by (rule foldl_invariant) (auto intro!: tableOf_jset)

section \<open>What the stages collect\<close>

lemma rootsOf_member: "k \<in> set (rootsOf V U) \<Longrightarrow> \<exists>r \<in> set U. toLowerCase (aeId r) = k \<and> validRepoRoot V r"
proof -
  have "\<forall>k \<in> set (rootsOf V U). \<exists>r \<in> set U. toLowerCase (aeId r) = k \<and> validRepoRoot V r"
    unfolding rootsOf_def by (rule foldl_invariant) (auto split: if_split_asm)
  then show "k \<in> set (rootsOf V U) \<Longrightarrow> \<exists>r \<in> set U. toLowerCase (aeId r) = k \<and> validRepoRoot V r" by blast
qed

lemma candidateOf_Inr:
  "candidateOf p base s t e e' = Inr c \<Longrightarrow> cdSource c = s \<and> cdTarget c = t \<and> weightIn p base (cdWeight c)"
  by (auto simp: candidateOf_def Let_def weightIn_def)

text \<open>The merge candidates, one per pair.\<close>

definition keyedCand :: "(hex \<Rightarrow> hex \<Rightarrow> bool) \<Rightarrow> (int \<Rightarrow> bool) \<Rightarrow> string \<times> Candidate \<Rightarrow> bool" where
  "keyedCand R B = (\<lambda>(k, c). k = pairKey (cdSource c) (cdTarget c) \<and> candOk R B c)"

definition keyedCands :: "(hex \<Rightarrow> hex \<Rightarrow> bool) \<Rightarrow> (int \<Rightarrow> bool) \<Rightarrow> string \<times> Candidate list \<Rightarrow> bool" where
  "keyedCands R B = (\<lambda>(k, cs). \<forall>c \<in> set cs. k = pairKey (cdSource c) (cdTarget c) \<and> candOk R B c)"

abbreviation byIdOf :: "AuthenticatedEvent list \<Rightarrow> (hex, AuthenticatedEvent) jmap" where
  "byIdOf U \<equiv> newMap (map (\<lambda>e. (toLowerCase (aeId e), e)) U)"

lemma mergeStep_table:
  assumes "tableOf (keyedCand (mergedBy V (set U)) (weightIn p (nwWMergeFp p))) pairs" and "status \<in> set U"
    and "mergeStep V p (byIdOf U) (rootsOf V U) pairs status = Inr pairs'" and "validStatus V status \<noteq> None"
  shows "tableOf (keyedCand (mergedBy V (set U)) (weightIn p (nwWMergeFp p))) pairs'"
proof -
  consider "pairs' = pairs" | root c where "aeKind status = 1631"
    "jget (byIdOf U) (orDefault (validStatus V status) []) = Some root"
    "orDefault (validStatus V status) [] \<in> set (rootsOf V U)" "author status \<noteq> author root"
    "candidateOf p (nwWMergeFp p) (author status) (author root) status root = Inr c"
    "pairs' = pairs \<or> pairs' = jset (pairKey (cdSource c) (cdTarget c)) c pairs"
    using assms(3) by (fastforce simp: mergeStep_def Let_def split: if_split_asm option.split_asm)
  then show ?thesis
  proof cases
    case 2
    from byId_member [OF 2(2)] have root: "root \<in> set U" "toLowerCase (aeId root) = orDefault (validStatus V status) []"
      by blast+
    then have "validStatus V status = Some (toLowerCase (aeId root))"
      using assms(4) by (auto simp: orDefault_def split: option.splits)
    then have "mergedBy V (set U) (author status) (author root)"
      using 2(1,3,4) root assms(2) rootsOf_member [of _ V U] unfolding mergedBy_def by metis
    with candidateOf_Inr [OF 2(5)] have "keyedCand (mergedBy V (set U)) (weightIn p (nwWMergeFp p))
        (pairKey (cdSource c) (cdTarget c), c)" by (simp add: keyedCand_def candOk_def)
    from tableOf_jset [OF assms(1) this] 2(6) assms(1) show ?thesis by blast
  qed (simp add: assms(1))
qed

lemma mergeStep_grows: "mergeStep V p ids roots pairs status = Inr pairs' \<Longrightarrow> length pairs' \<le> Suc (length pairs)"
  using length_jset [of _ _ pairs]
  by (fastforce simp: mergeStep_def Let_def split: if_split_asm option.split_asm)

lemma merges_table:
  assumes "foldE (mergeStep V p (byIdOf U) (rootsOf V U)) [] (jvalues (statusesOf V U)) = Inr pairs"
  shows "tableOf (keyedCand (mergedBy V (set U)) (weightIn p (nwWMergeFp p))) pairs"
    and "length pairs \<le> length U"
proof -
  have st: "\<forall>e \<in> set (jvalues (statusesOf V U)). e \<in> set U \<and> validStatus V e \<noteq> None"
    using statuses_table [of U V] by (auto simp: tableOf_def)
  show "tableOf (keyedCand (mergedBy V (set U)) (weightIn p (nwWMergeFp p))) pairs"
    by (rule foldE_invariant [OF assms]) (use st in \<open>auto intro: mergeStep_table\<close>)
  have "length (statusesOf V U) \<le> length U"
    using foldl_grows [of "\<lambda>m e. case validStatus V e of None \<Rightarrow> m | Some root \<Rightarrow> keepLatest (pairKey (author e) root) e m" "[]" U]
      length_jset unfolding statusesOf_def
    by (fastforce simp: keepLatest_def split: option.splits)
  moreover have "length pairs \<le> length (jvalues (statusesOf V U))"
    using foldE_grows [OF mergeStep_grows assms] by simp
  ultimately show "length pairs \<le> length U" by simp
qed

text \<open>The votes and the forum candidates.\<close>

definition voteOk :: "AuthenticatedEvent set \<Rightarrow> string \<times> AuthenticatedEvent \<times> bool \<times> AuthenticatedEvent \<Rightarrow> bool" where
  "voteOk U = (\<lambda>(k, vote, positive, target). positive \<longrightarrow> votedBy U (author vote) (author target))"

lemma votes_table:
  "tableOf (voteOk (set U)) (foldl (voteStep (forumTargetsOf U)) [] U)"
proof (rule foldl_invariant)
  fix m e assume e: "e \<in> set U" and m: "tableOf (voteOk (set U)) m"
  show "tableOf (voteOk (set U)) (voteStep (forumTargetsOf U) m e)"
  proof (cases "validVote e")
    case (Some v)
    obtain k ch pos where v: "validVote e = Some (k, ch, pos)" using Some by (cases v) auto
    show ?thesis
    proof (cases "jget (forumTargetsOf U) k")
      case t: (Some tc)
      obtain tg tch where tc: "tc = (tg, tch)" by (cases tc)
      from tableOf_get [OF forumTargets_table t] have tg: "tg \<in> set U" "toLowerCase (aeId tg) = k"
        "validForumTarget tg = Some tch" by (auto simp: tc)
      have "voteOk (set U) (pairKey (author e) k, e, pos, tg)" if "ch = tch" "author e \<noteq> author tg"
        using v tg e that unfolding voteOk_def votedBy_def by (cases pos) auto
      from tableOf_jset [OF m this] show ?thesis
        using m by (auto simp: voteStep_def v t tc Let_def split: option.split)
    qed (use m in \<open>simp add: voteStep_def v\<close>)
  qed (use m in \<open>simp add: voteStep_def\<close>)
qed simp

lemma voteStep_grows: "length (voteStep targets m e) \<le> Suc (length m)"
  using length_jset [of _ _ m] by (auto simp: voteStep_def Let_def split: option.splits prod.splits)

lemma votes_length: "length (foldl (voteStep (forumTargetsOf U)) [] U) \<le> length U"
  using foldl_grows [of "voteStep (forumTargetsOf U)" "[]" U] voteStep_grows by simp

definition candCount :: "(string, Candidate list) jmap \<Rightarrow> nat" where
  "candCount pairs = sum_list (map length (jvalues pairs))"

lemma pushPair_table:
  assumes "tableOf (keyedCands R B) pairs" and "candOk R B c"
  shows "tableOf (keyedCands R B) (pushPair c pairs)"
proof -
  have "keyedCands R B (pairKey (cdSource c) (cdTarget c), orDefault (jget pairs (pairKey (cdSource c) (cdTarget c))) [] @ [c])"
    using assms tableOf_get [OF assms(1), of "pairKey (cdSource c) (cdTarget c)"]
    by (cases "jget pairs (pairKey (cdSource c) (cdTarget c))") (auto simp: keyedCands_def orDefault_def)
  from tableOf_jset [OF assms(1) this] show ?thesis by (simp add: pushPair_def Let_def)
qed

lemma candCount_jset:
  "distinct (jkeys m) \<Longrightarrow> candCount (jset k (orDefault (jget m k) [] @ [c]) m) = Suc (candCount m)"
  by (induction m) (auto simp: candCount_def orDefault_def map_of_eq_None_iff split: option.splits)

lemma pushPair_count: "distinct (jkeys pairs) \<Longrightarrow> candCount (pushPair c pairs) = Suc (candCount pairs)"
  by (simp add: pushPair_def Let_def candCount_jset)

text \<open>A loop that pushes at most one candidate per entry.\<close>

lemma pushes_table:
  assumes run: "foldE step [] xs = Inr pairs"
    and step: "\<And>x ps qs. x \<in> set xs \<Longrightarrow> step ps x = Inr qs \<Longrightarrow> qs = ps \<or> (\<exists>c. qs = pushPair c ps \<and> candOk R B c)"
  shows "tableOf (keyedCands R B) pairs" and "candCount pairs \<le> length xs"
proof -
  have "tableOf (keyedCands R B) qs \<and> candCount qs \<le> candCount ps + length xs"
    if "foldE step ps xs = Inr qs" "tableOf (keyedCands R B) ps"
      "\<And>x ps qs. x \<in> set xs \<Longrightarrow> step ps x = Inr qs \<Longrightarrow> qs = ps \<or> (\<exists>c. qs = pushPair c ps \<and> candOk R B c)" for ps qs xs
    using that
  proof (induction xs arbitrary: ps)
    case (Cons x xs)
    from Cons.prems(1) obtain rs where rs: "step ps x = Inr rs" "foldE step rs xs = Inr qs" by auto
    have "tableOf (keyedCands R B) rs \<and> candCount rs \<le> Suc (candCount ps)"
      using Cons.prems(3) [OF _ rs(1)] Cons.prems(2) pushPair_table pushPair_count
      by (auto simp: tableOf_def)
    with Cons.IH [OF rs(2)] Cons.prems(3) show ?case by fastforce
  qed simp
  from this [OF run _ step] show "tableOf (keyedCands R B) pairs" "candCount pairs \<le> length xs"
    by (simp_all add: candCount_def)
qed

lemma forum_table:
  assumes "foldE (forumStep p) [] (jvalues (foldl (voteStep (forumTargetsOf U)) [] U)) = Inr pairs"
  shows "tableOf (keyedCands (votedBy (set U)) (weightIn p (nwWForumFp p))) pairs"
    and "candCount pairs \<le> length U"
proof -
  let ?vs = "foldl (voteStep (forumTargetsOf U)) [] U"
  have step: "qs = ps \<or> (\<exists>c. qs = pushPair c ps \<and> candOk (votedBy (set U)) (weightIn p (nwWForumFp p)) c)"
    if "x \<in> set (jvalues ?vs)" "forumStep p ps x = Inr qs" for x ps qs
  proof -
    obtain vote pos target where x: "x = (vote, pos, target)" by (cases x)
    from that(1) votes_table [of U] have "pos \<Longrightarrow> votedBy (set U) (author vote) (author target)"
      by (force simp: tableOf_def voteOk_def x)
    with that(2) show ?thesis
      by (auto simp: forumStep_def x candOk_def dest!: candidateOf_Inr split: if_split_asm)
  qed
  show "tableOf (keyedCands (votedBy (set U)) (weightIn p (nwWForumFp p))) pairs"
    by (rule pushes_table(1) [OF assms step])
  have "candCount pairs \<le> length (jvalues ?vs)" by (rule pushes_table(2) [OF assms step])
  with votes_length [of U] show "candCount pairs \<le> length U" by simp
qed

end
