(* ===== verification/NostrJobs.thy ===== *)
theory NostrJobs
  imports NostrEvidence
begin

text \<open>
  The table of jobs, the eligible accounts and usable events as predicates, and the derivation as the sum of
  its stages.
  The weights of the stages: they exist, are bounded, and the derivation returns.
\<close>

section \<open>Jobs\<close>

lemma terminals_table:
  "tableOf (\<lambda>(k, t). t \<in> set U \<and> (\<exists>r. jget (requestsOf V U) k = Some r \<and> validTerminal V t r))
     (foldl (terminalStep V (requestsOf V U)) [] U)"
proof (rule foldl_invariant)
  fix m e assume e: "e \<in> set U" and m: "tableOf (\<lambda>(k, t). t \<in> set U \<and>
    (\<exists>r. jget (requestsOf V U) k = Some r \<and> validTerminal V t r)) m"
  show "tableOf (\<lambda>(k, t). t \<in> set U \<and> (\<exists>r. jget (requestsOf V U) k = Some r \<and> validTerminal V t r))
    (terminalStep V (requestsOf V U) m e)"
  proof (cases "terminalRefs e")
    case (Some v)
    obtain k peer ch where v: "terminalRefs e = Some (k, peer, ch)" using Some by (cases v) auto
    show ?thesis
    proof (cases "jget (requestsOf V U) k")
      case (Some r)
      from tableOf_jset [OF m, of k e] Some e m show ?thesis
        by (auto simp: terminalStep_def v keepLatest_def split: option.split)
    qed (use m in \<open>simp add: terminalStep_def v\<close>)
  qed (use m in \<open>simp add: terminalStep_def\<close>)
qed simp

lemma terminalStep_grows: "length (terminalStep V rq m e) \<le> Suc (length m)"
  using length_jset [of _ _ m] by (auto simp: terminalStep_def keepLatest_def split: option.splits)

lemma jobs_table:
  assumes "foldE (jobStep p el (requestsOf V U)) [] (foldl (terminalStep V (requestsOf V U)) [] U) = Inr pairs"
  shows "tableOf (keyedCands (paidBy V (set U) (set el)) (weightIn p (nwWJobFp p))) pairs"
    and "candCount pairs \<le> length U"
proof -
  let ?ts = "foldl (terminalStep V (requestsOf V U)) [] U"
  have step: "qs = ps \<or> (\<exists>c. qs = pushPair c ps \<and> candOk (paidBy V (set U) (set el)) (weightIn p (nwWJobFp p)) c)"
    if x: "x \<in> set ?ts" and s: "jobStep p el (requestsOf V U) ps x = Inr qs" for x ps qs
  proof -
    obtain k t where kt: "x = (k, t)" by (cases x)
    from x terminals_table [of U V] obtain r where r: "t \<in> set U" "jget (requestsOf V U) k = Some r" "validTerminal V t r"
      unfolding kt tableOf_def by fastforce
    from tableOf_get [OF requests_table r(2)] have "r \<in> set U" by simp
    with r have paid: "paidBy V (set U) (set el) (author r) (author t)"
      if "aeKind t = 43004" "author r \<noteq> author t" "author t \<in> set el"
      using that by (auto simp: paidBy_def)
    from s consider "qs = ps" | w where "aeKind t = 43004" "author r \<noteq> author t" "author t \<in> set el"
      "weighted (nwWJobFp p) (jointProvenance (aeProvenance r) (aeProvenance t)) p = Inr w"
      "qs = pushPair \<lparr>cdSource = author r, cdTarget = author t, cdWeight = w,
         cdProvenance = jointProvenance (aeProvenance r) (aeProvenance t), cdEvent = t\<rparr> ps"
      by (auto simp: jobStep_def kt need_def r(2) Let_def split: if_split_asm)
    then show ?thesis
    proof cases
      case 2
      let ?c = "\<lparr>cdSource = author r, cdTarget = author t, cdWeight = w,
         cdProvenance = jointProvenance (aeProvenance r) (aeProvenance t), cdEvent = t\<rparr>"
      from 2(4) have "weightIn p (nwWJobFp p) w" unfolding weightIn_def by (rule exI)
      with paid [OF 2(1-3)]
      have "candOk (paidBy V (set U) (set el)) (weightIn p (nwWJobFp p)) ?c" by (simp add: candOk_def)
      with 2(5) show ?thesis by blast
    qed simp
  qed
  show "tableOf (keyedCands (paidBy V (set U) (set el)) (weightIn p (nwWJobFp p))) pairs"
    by (rule pushes_table(1) [OF assms step])
  have "candCount pairs \<le> length ?ts" by (rule pushes_table(2) [OF assms step])
  with foldl_grows [of "terminalStep V (requestsOf V U)" "[]" U] terminalStep_grows
  show "candCount pairs \<le> length U" by simp
qed

section \<open>Who is eligible\<close>

definition acceptedOf :: "AuthenticatedEvent list \<Rightarrow> AuthenticatedEvent list" where
  "acceptedOf events = filter aeAccepted events"

definition usableOf :: "AuthenticatedEvent list \<Rightarrow> AuthenticatedEvent list" where
  "usableOf events = usableEvents (ownerSetsOf (acceptedOf events)) (acceptedOf events)"

definition eligibleOf :: "hex list \<Rightarrow> AuthenticatedEvent list \<Rightarrow> hex list" where
  "eligibleOf roster events = fst (eligibleAgents roster (ownerSetsOf (acceptedOf events)))"

text \<open>The owners the accepted events of an account name.\<close>

definition ownersOf :: "AuthenticatedEvent list \<Rightarrow> hex \<Rightarrow> hex set" where
  "ownersOf accepted a = {toLowerCase ow | e ow. e \<in> set accepted \<and> author e = a \<and> aeOaOwner e = Some ow \<and> ow \<noteq> []}"

lemma ownersOf_snoc: "ownersOf (es @ [e]) a = ownersOf es a \<union> ownersOf [e] a"
  by (auto simp: ownersOf_def)

lemma setAdd_distinct: "distinct xs \<Longrightarrow> distinct (setAdd x xs)"
  by (simp add: setAdd_def)

lemma ownerSets_facts:
  "distinct (jkeys (ownerSetsOf es)) \<and>
   (case jget (ownerSetsOf es) a of None \<Rightarrow> ownersOf es a = {}
    | Some os \<Rightarrow> distinct os \<and> set os = ownersOf es a \<and> os \<noteq> [])"
proof (induction es rule: rev_induct)
  case Nil
  show ?case by (simp add: ownerSetsOf_def ownersOf_def)
next
  case (snoc e es)
  let ?m = "ownerSetsOf es"
  have run: "ownerSetsOf (es @ [e]) = ownerStep ?m e" by (simp add: ownerSetsOf_def)
  show ?case
  proof (cases "present (aeOaOwner e)")
    case False
    then have "ownersOf [e] a = {}" by (auto simp: ownersOf_def present_def)
    then have "ownersOf (es @ [e]) a = ownersOf es a" by (simp add: ownersOf_snoc)
    with snoc.IH False show ?thesis unfolding run by (simp only: ownerStep_def not_False_eq_True if_True)
  next
    case True
    then obtain ow where ow: "aeOaOwner e = Some ow" "ow \<noteq> []" by (auto simp: present_def split: option.splits)
    have one: "ownersOf [e] a = (if author e = a then {toLowerCase ow} else {})"
      using ow by (auto simp: ownersOf_def)
    have ne: "setAdd x xs \<noteq> []" for x :: hex and xs by (auto simp: setAdd_def)
    have st: "ownerStep ?m e = jset (author e) (setAdd (toLowerCase ow) (orDefault (jget ?m (author e)) [])) ?m"
      using True ow by (simp add: ownerStep_def Let_def orDefault_def)
    show ?thesis
      using snoc.IH unfolding run st ownersOf_snoc one
      by (cases "author e = a"; cases "jget ?m a")
        (auto simp: update_conv' orDefault_def distinct_update setAdd_distinct ne)
  qed
qed

lemma eligibleAgents_set:
  "set (fst (foldl agentStep (el, ag) owners)) = set el \<union> {a. \<exists>os. (a, os) \<in> set owners \<and> length os = 1}"
proof (induction owners arbitrary: el ag)
  case (Cons x xs)
  obtain a os where x: "x = (a, os)" by (cases x)
  show ?case using Cons.IH [of "fst (agentStep (el, ag) x)" "snd (agentStep (el, ag) x)"]
    by (auto simp: agentStep_def x)
qed simp

lemma eligible_iff:
  "a \<in> set (eligibleOf roster events) \<longleftrightarrow>
     a \<in> toLowerCase ` set roster \<or> (\<exists>owner. ownersOf (acceptedOf events) a = {owner})"
proof -
  let ?m = "ownerSetsOf (acceptedOf events)" and ?O = "ownersOf (acceptedOf events) a"
  have "(\<exists>os. (a, os) \<in> set ?m \<and> length os = 1) \<longleftrightarrow> (\<exists>os. jget ?m a = Some os \<and> length os = 1)"
    using ownerSets_facts [of "acceptedOf events" a] by (auto dest: map_of_SomeD)
  also have "\<dots> \<longleftrightarrow> (\<exists>owner. ?O = {owner})"
  proof (cases "jget ?m a")
    case (Some os)
    with ownerSets_facts [of "acceptedOf events" a] have os: "distinct os" "set os = ?O" "os \<noteq> []" by auto
    have "length os = 1 \<longleftrightarrow> (\<exists>owner. set os = {owner})"
      using os(1) by (metis One_nat_def card_1_singletonE distinct_card is_singletonI is_singleton_altdef)
    with Some os(2) show ?thesis by simp
  qed (use ownerSets_facts [of "acceptedOf events" a] in auto)
  finally show ?thesis
    using eligibleAgents_set [of "newSet (map toLowerCase roster)" "[]" ?m]
    by (simp add: eligibleOf_def eligibleAgents_def)
qed

lemma usable_iff:
  "e \<in> set (usableOf events) \<longleftrightarrow> e \<in> set events \<and> aeAccepted e \<and>
     (present (aeOaOwner e) \<longrightarrow> (\<exists>owner. ownersOf (acceptedOf events) (author e) = {owner}))"
proof -
  let ?m = "ownerSetsOf (acceptedOf events)" and ?O = "ownersOf (acceptedOf events) (author e)"
  have "(case jget ?m (author e) of None \<Rightarrow> False | Some os \<Rightarrow> length os = 1) \<longleftrightarrow> (\<exists>owner. ?O = {owner})"
  proof (cases "jget ?m (author e)")
    case (Some os)
    with ownerSets_facts [of "acceptedOf events" "author e"] have os: "distinct os" "set os = ?O" "os \<noteq> []" by auto
    have "length os = 1 \<longleftrightarrow> (\<exists>owner. set os = {owner})"
      using os(1) by (metis One_nat_def card_1_singletonE distinct_card is_singletonI is_singleton_altdef)
    with Some os(2) show ?thesis by simp
  qed (use ownerSets_facts [of "acceptedOf events" "author e"] in auto)
  then show ?thesis by (auto simp: usableOf_def usableEvents_def acceptedOf_def)
qed

lemma usable_length: "length (usableOf events) \<le> length events"
  using length_filter_le [of _ "acceptedOf events"] length_filter_le [of aeAccepted events]
  unfolding usableOf_def usableEvents_def acceptedOf_def by (meson le_trans)

section \<open>The derived edges\<close>

definition stageEdges ::
  "wedge list list \<Rightarrow> (string, Candidate) jmap \<Rightarrow> int \<Rightarrow> (string, Candidate list) jmap \<Rightarrow> int \<Rightarrow>
   (string, Candidate list) jmap \<Rightarrow> wedge list" where
  "stageEdges vss merges fc forum jc jobs =
     concat vss @ map candEdge (jvalues merges) @ map candEdge (capped fc forum) @ map candEdge (capped jc jobs)"

lemma derive_shape:
  assumes "deriveSemantics V events roster p = Inr d"
  shows "\<exists>vss merges forum jobs. let U = usableOf events; el = eligibleOf roster events in
    mapE (vouchEdges p el) U = Inr vss \<and>
    tableOf (keyedCand (mergedBy V (set U)) (weightIn p (nwWMergeFp p))) merges \<and> length merges \<le> length U \<and>
    tableOf (keyedCands (votedBy (set U)) (weightIn p (nwWForumFp p))) forum \<and> candCount forum \<le> length U \<and>
    tableOf (keyedCands (paidBy V (set U) (set el)) (weightIn p (nwWJobFp p))) jobs \<and> candCount jobs \<le> length U \<and>
    gNodes (dsGraph d) = sortBy cmpHex (map (nostrNodeId V) el) \<and>
    gOutgoing (dsGraph d) = addAll (nodeEdges V (stageEdges vss merges (nwForumPairCap p) forum (nwJobPairCap p) jobs)) [] \<and>
    dsEdges d = derivedEdges (gOutgoing (dsGraph d))"
proof -
  let ?U = "usableOf events" and ?el = "eligibleOf roster events"
  let ?ag = "snd (eligibleAgents roster (ownerSetsOf (acceptedOf events)))"
  have ea: "eligibleAgents roster (ownerSetsOf (filter aeAccepted events)) = (?el, ?ag)"
    by (simp add: eligibleOf_def acceptedOf_def)
  have us: "usableEvents (ownerSetsOf (filter aeAccepted events)) (filter aeAccepted events) = ?U"
    by (simp add: usableOf_def acceptedOf_def)
  from assms obtain vouched merges forum jobs where
    v: "foldE (vouchStep V p ?el) [] ?U = Inr vouched"
    and m: "foldE (mergeStep V p (byIdOf ?U) (rootsOf V ?U)) [] (jvalues (statusesOf V ?U)) = Inr merges"
    and f: "foldE (forumStep p) [] (jvalues (foldl (voteStep (forumTargetsOf ?U)) [] ?U)) = Inr forum"
    and j: "foldE (jobStep p ?el (requestsOf V ?U)) [] (foldl (terminalStep V (requestsOf V ?U)) [] ?U) = Inr jobs"
    and d: "d = \<lparr>dsGraph = \<lparr>gNodes = sortBy cmpHex (map (nostrNodeId V) ?el), gOutgoing =
        applyCapped V jobs (nwJobPairCap p) (applyCapped V forum (nwForumPairCap p)
          (foldl (addCandidate V) vouched (jvalues merges)))\<rparr>,
      dsEdges = derivedEdges (applyCapped V jobs (nwJobPairCap p) (applyCapped V forum (nwForumPairCap p)
          (foldl (addCandidate V) vouched (jvalues merges)))), dsAgents = sortBy cmpAgent ?ag\<rparr>"
    unfolding deriveSemantics_def Let_def ea us by auto
  have nil: "nodeEdges V [] = []" by (simp add: nodeEdges_def)
  from v have "bindE (mapE (vouchEdges p ?el) ?U) (\<lambda>vss. Inr (addAll (nodeEdges V (concat vss)) [])) = Inr vouched"
    using vouches_edges [of V p ?el "[]" ?U] by (simp add: nil)
  then obtain vss where
    vs: "mapE (vouchEdges p ?el) ?U = Inr vss" "vouched = addAll (nodeEdges V (concat vss)) []" by auto
  have "gOutgoing (dsGraph d) =
      addAll (nodeEdges V (stageEdges vss merges (nwForumPairCap p) forum (nwJobPairCap p) jobs)) []"
    unfolding d vs(2) by (simp add: addCandidates_edges applyCapped_edges stageEdges_def)
  with vs(1) merges_table [OF m] forum_table [OF f] jobs_table [OF j] show ?thesis
    unfolding Let_def by (intro exI conjI) (simp_all add: d)
qed

section \<open>Accepted parameters\<close>

definition nostrWeightsOk :: "NostrWorkspaceParams \<Rightarrow> bool" where
  "nostrWeightsOk p \<longleftrightarrow> 0 < nwPrecisionScale p \<and> 0 \<le> nwRelayAttestedWeightFp p \<and>
     nwRelayAttestedWeightFp p \<le> nwPrecisionScale p \<and> 0 \<le> nwWVouchFp p \<and> 0 \<le> nwWMergeFp p \<and>
     0 \<le> nwWForumFp p \<and> 0 \<le> nwWJobFp p \<and> 0 \<le> nwForumPairCap p \<and> 0 \<le> nwJobPairCap p"

lemma weighted_total:
  assumes "nostrWeightsOk p" and "0 \<le> base"
  shows "\<exists>w. weighted base prov p = Inr w \<and> 0 \<le> w \<and> w \<le> base"
proof (cases "prov = 1")
  case True
  let ?r = "nwRelayAttestedWeightFp p" and ?s = "nwPrecisionScale p"
  have "0 \<le> base * ?r" "0 < ?s" "?r \<le> ?s" using assms by (auto simp: nostrWeightsOk_def)
  moreover have "base * ?r div ?s \<le> base * ?s div ?s"
    using assms calculation by (intro zdiv_mono1 mult_left_mono) auto
  ultimately show ?thesis using True by (simp add: weighted_def pos_imp_zdiv_nonneg_iff)
qed (use assms in \<open>simp add: weighted_def\<close>)

lemma weightIn_bounds: "nostrWeightsOk p \<Longrightarrow> 0 \<le> base \<Longrightarrow> weightIn p base w \<Longrightarrow> 0 \<le> w \<and> w \<le> base"
  unfolding weightIn_def using weighted_total by (metis sum.inject(2))

lemma canonicalU32_bounds: "canonicalU32 v m = Some x \<Longrightarrow> 0 \<le> x \<and> x \<le> m"
  by (auto simp: canonicalU32_def Let_def split: if_split_asm)

lemma validVouch_percent: "validVouch e = Some (s, x) \<Longrightarrow> 0 \<le> x \<and> x \<le> 100"
  using canonicalU32_bounds by (fastforce simp: validVouch_def Let_def split: if_split_asm option.split_asm)

lemma vouchEdges_total:
  assumes ok: "nostrWeightsOk p"
  shows "\<exists>vs. vouchEdges p el e = Inr vs \<and> (\<forall>(a, b, w) \<in> set vs. 0 \<le> w \<and> w \<le> nwWVouchFp p) \<and> length vs \<le> 1"
proof (cases "validVouch e")
  case (Some v)
  obtain s x where v: "validVouch e = Some (s, x)" using Some by (cases v) auto
  have x: "0 \<le> x" "x \<le> 100" using validVouch_percent [OF v] by auto
  have V: "0 \<le> nwWVouchFp p" using ok by (simp add: nostrWeightsOk_def)
  let ?b = "nwWVouchFp p * x div 100"
  have div: "bigDiv (nwWVouchFp p * x) 100 = Inr ?b" using V x by (intro bigDiv_pos) auto
  have "nwWVouchFp p * x div 100 \<le> nwWVouchFp p * 100 div 100" using V x by (intro zdiv_mono1 mult_left_mono) auto
  then have b: "0 \<le> ?b" "?b \<le> nwWVouchFp p" using V x by (auto simp: pos_imp_zdiv_nonneg_iff)
  from weighted_total [OF ok b(1), of "aeProvenance e"] b(2) show ?thesis
    by (auto simp: vouchEdges_def v div)
qed (auto simp: vouchEdges_def)

lemma vouchEdges_evidence:
  "vouchEdges p el e = Inr vs \<Longrightarrow> (a, b, w) \<in> set vs \<Longrightarrow> e \<in> U \<Longrightarrow> vouchedBy U (set el) a b"
  by (auto simp: vouchEdges_def vouchedBy_def split: if_split_asm option.split_asm intro!: bexI [of _ e])

lemma foldE_ok:
  assumes "\<And>x s. x \<in> set xs \<Longrightarrow> \<exists>t. f s x = Inr t"
  shows "\<exists>t. foldE f s xs = Inr t"
  using assms
proof (induction xs arbitrary: s)
  case (Cons x xs)
  obtain t where "f s x = Inr t" using Cons.prems [of x s] by auto
  with Cons.IH [of t] Cons.prems show ?case by auto
qed simp

lemma candidateOf_total:
  "nostrWeightsOk p \<Longrightarrow> 0 \<le> base \<Longrightarrow> \<exists>c. candidateOf p base s t e e' = Inr c"
  using weighted_total [of p base "jointProvenance (aeProvenance e) (aeProvenance e')"]
  by (auto simp: candidateOf_def Let_def)

lemma derive_total:
  assumes ok: "nostrWeightsOk p"
  shows "\<exists>d. deriveSemantics V events roster p = Inr d"
proof -
  let ?U = "usableOf events" and ?el = "eligibleOf roster events"
  let ?ag = "snd (eligibleAgents roster (ownerSetsOf (acceptedOf events)))"
  have ea: "eligibleAgents roster (ownerSetsOf (filter aeAccepted events)) = (?el, ?ag)"
    by (simp add: eligibleOf_def acceptedOf_def)
  have us: "usableEvents (ownerSetsOf (filter aeAccepted events)) (filter aeAccepted events) = ?U"
    by (simp add: usableOf_def acceptedOf_def)
  have pos: "0 \<le> nwWMergeFp p" "0 \<le> nwWForumFp p" "0 \<le> nwWJobFp p" using ok by (auto simp: nostrWeightsOk_def)
  have "\<exists>vss. mapE (vouchEdges p ?el) ?U = Inr vss"
    unfolding mapE_ok_iff using vouchEdges_total [OF ok] by blast
  then obtain v where v: "foldE (vouchStep V p ?el) [] ?U = Inr v"
    using vouches_edges [of V p ?el "[]" ?U] by (auto simp: nodeEdges_def)
  have "\<exists>t. mergeStep V p (byIdOf ?U) (rootsOf V ?U) s x = Inr t" for s x
  proof (cases "jget (byIdOf ?U) (orDefault (validStatus V x) [])")
    case (Some r)
    obtain c where c: "candidateOf p (nwWMergeFp p) (author x) (author r) x r = Inr c"
      using candidateOf_total [OF ok pos(1)] by blast
    show ?thesis unfolding mergeStep_def Let_def Some option.case c bindE.simps by (cases "aeKind x = 1631") auto
  qed (simp add: mergeStep_def)
  then have "\<exists>m. foldE (mergeStep V p (byIdOf ?U) (rootsOf V ?U)) [] (jvalues (statusesOf V ?U)) = Inr m"
    by (intro foldE_ok)
  then obtain m where m: "foldE (mergeStep V p (byIdOf ?U) (rootsOf V ?U)) [] (jvalues (statusesOf V ?U)) = Inr m"
    by (elim exE)
  have "\<exists>t. forumStep p s x = Inr t" for s x
  proof -
    obtain vote positive target where x: "x = (vote, positive, target)" by (cases x)
    obtain c where "candidateOf p (nwWForumFp p) (author vote) (author target) vote target = Inr c"
      using candidateOf_total [OF ok pos(2)] by blast
    then show ?thesis by (simp add: forumStep_def x)
  qed
  then have "\<exists>f. foldE (forumStep p) [] (jvalues (foldl (voteStep (forumTargetsOf ?U)) [] ?U)) = Inr f"
    by (intro foldE_ok)
  then obtain f where f: "foldE (forumStep p) [] (jvalues (foldl (voteStep (forumTargetsOf ?U)) [] ?U)) = Inr f"
    by (elim exE)
  have "\<exists>t. jobStep p ?el (requestsOf V ?U) s x = Inr t"
    if "x \<in> set (foldl (terminalStep V (requestsOf V ?U)) [] ?U)" for s x
  proof -
    obtain k t where x: "x = (k, t)" by (cases x)
    with that terminals_table [of ?U V] obtain r where r: "jget (requestsOf V ?U) k = Some r"
      unfolding tableOf_def by fastforce
    obtain w where "weighted (nwWJobFp p) (jointProvenance (aeProvenance r) (aeProvenance t)) p = Inr w"
      using weighted_total [OF ok pos(3)] by blast
    with r show ?thesis by (simp add: jobStep_def x need_def Let_def)
  qed
  then have "\<exists>j. foldE (jobStep p ?el (requestsOf V ?U)) []
      (foldl (terminalStep V (requestsOf V ?U)) [] ?U) = Inr j" by (intro foldE_ok)
  then obtain j where "foldE (jobStep p ?el (requestsOf V ?U)) []
      (foldl (terminalStep V (requestsOf V ?U)) [] ?U) = Inr j" by (elim exE)
  with v m f show ?thesis unfolding deriveSemantics_def Let_def ea us by simp
qed

section \<open>The stages have evidence and bounded weights\<close>

definition hasEvidence ::
  "viem \<Rightarrow> AuthenticatedEvent set \<Rightarrow> hex set \<Rightarrow> hex \<Rightarrow> hex \<Rightarrow> bool" where
  "hasEvidence V U el a b \<longleftrightarrow> vouchedBy U el a b \<or> mergedBy V U a b \<or> votedBy U a b \<or> paidBy V U el a b"

lemma capped_member: "c \<in> set (capped cap pairs) \<Longrightarrow> \<exists>k cs. (k, cs) \<in> set pairs \<and> c \<in> set cs"
  by (force simp: capped_def sliceTo_def dest: in_set_takeD split: if_split_asm)

lemma keyedCand_values:
  "tableOf (keyedCand R B) m \<Longrightarrow> c \<in> set (jvalues m) \<Longrightarrow> R (cdSource c) (cdTarget c) \<and> B (cdWeight c)"
  by (force simp: tableOf_def keyedCand_def candOk_def)

lemma keyedCands_capped:
  "tableOf (keyedCands R B) m \<Longrightarrow> c \<in> set (capped cap m) \<Longrightarrow> R (cdSource c) (cdTarget c) \<and> B (cdWeight c)"
  using capped_member [of c cap m] by (fastforce simp: tableOf_def keyedCands_def candOk_def)

definition stagesOk ::
  "viem \<Rightarrow> NostrWorkspaceParams \<Rightarrow> AuthenticatedEvent list \<Rightarrow> hex list \<Rightarrow> wedge list list \<Rightarrow>
   (string, Candidate) jmap \<Rightarrow> (string, Candidate list) jmap \<Rightarrow> (string, Candidate list) jmap \<Rightarrow> bool" where
  "stagesOk V p U el vss merges forum jobs \<longleftrightarrow>
     mapE (vouchEdges p el) U = Inr vss \<and>
     tableOf (keyedCand (mergedBy V (set U)) (weightIn p (nwWMergeFp p))) merges \<and> length merges \<le> length U \<and>
     tableOf (keyedCands (votedBy (set U)) (weightIn p (nwWForumFp p))) forum \<and> candCount forum \<le> length U \<and>
     tableOf (keyedCands (paidBy V (set U) (set el)) (weightIn p (nwWJobFp p))) jobs \<and> candCount jobs \<le> length U"

lemma stage_cases:
  "e \<in> set (concat vss @ map f ms @ map f fs @ map f js) \<Longrightarrow>
   (\<exists>vs \<in> set vss. e \<in> set vs) \<or> (\<exists>c \<in> set ms. e = f c) \<or> (\<exists>c \<in> set fs. e = f c) \<or> (\<exists>c \<in> set js. e = f c)"
  by auto

lemma stages_evidence:
  assumes ok: "stagesOk V p U el vss merges forum jobs"
    and e: "(a, b, w) \<in> set (stageEdges vss merges fc forum jc jobs)"
  shows "hasEvidence V (set U) (set el) a b"
proof -
  from e consider vs where "vs \<in> set vss" "(a, b, w) \<in> set vs"
    | c where "c \<in> set (jvalues merges)" "(a, b, w) = candEdge c"
    | c where "c \<in> set (capped fc forum)" "(a, b, w) = candEdge c"
    | c where "c \<in> set (capped jc jobs)" "(a, b, w) = candEdge c"
    unfolding stageEdges_def by (blast dest: stage_cases)
  then show ?thesis
  proof cases
    case 1
    from ok have "mapE (vouchEdges p el) U = Inr vss" by (simp add: stagesOk_def)
    from mapE_setE [OF this 1(1)] 1(2) vouchEdges_evidence show ?thesis unfolding hasEvidence_def by metis
  next
    case 2
    from ok keyedCand_values 2 show ?thesis unfolding hasEvidence_def stagesOk_def candEdge_def by blast
  next
    case 3
    from ok keyedCands_capped 3 show ?thesis unfolding hasEvidence_def stagesOk_def candEdge_def by blast
  next
    case 4
    from ok keyedCands_capped 4 show ?thesis unfolding hasEvidence_def stagesOk_def candEdge_def by blast
  qed
qed

end
