(* ===== verification/NostrFlow.thy ===== *)
theory NostrFlow
  imports NostrJobs
begin

text \<open>
  How much one account can give another: the number of edges each stage contributes to a pair.
  The derived graph can be ranked, the workspace program returns, and its skip digest is that of the
  certificate program.
\<close>

section \<open>The total weight\<close>

definition nostrMaxWeight :: "NostrWorkspaceParams \<Rightarrow> int" where
  "nostrMaxWeight p = max (max (nwWVouchFp p) (nwWMergeFp p)) (max (nwWForumFp p) (nwWJobFp p))"

definition edgeWeight :: "wedge \<Rightarrow> int" where
  "edgeWeight e = snd (snd e)"

lemma candEdge_sel [simp]: "fst (candEdge c) = cdSource c" "fst (snd (candEdge c)) = cdTarget c"
  "edgeWeight (candEdge c) = cdWeight c"
  by (simp_all add: candEdge_def edgeWeight_def)

lemma edgeWeight_case: "(\<lambda>(s, t, w). w) = edgeWeight"
  by (auto simp: edgeWeight_def fun_eq_iff)

lemma sum_nodeEdges: "sumOf edgeWeight (nodeEdges V gs) = sumOf edgeWeight gs"
  by (induction gs) (auto simp: nodeEdges_def edgeWeight_def)

lemma candCount_capped: "0 \<le> cap \<Longrightarrow> length (capped cap pairs) \<le> candCount pairs"
  by (induction pairs) (auto simp: capped_def candCount_def sliceTo_def intro: le_trans min.cobounded1)

lemma concat_short: "\<forall>vs \<in> set vss. length vs \<le> 1 \<Longrightarrow> length (concat vss) \<le> length vss"
  by (induction vss) auto

lemma vouches_facts:
  assumes "mapE (vouchEdges p el) U = Inr vss" and "nostrWeightsOk p"
  shows "length (concat vss) \<le> length U"
    and "\<forall>(a, b, w) \<in> set (concat vss). 0 \<le> w \<and> w \<le> nwWVouchFp p"
proof -
  have one: "length vs \<le> 1 \<and> (\<forall>(a, b, w) \<in> set vs. 0 \<le> w \<and> w \<le> nwWVouchFp p)" if "vs \<in> set vss" for vs
    using mapE_setE [OF assms(1) that] vouchEdges_total [OF assms(2)] by (metis sum.inject(2))
  then have "length (concat vss) \<le> length vss" by (intro concat_short) blast
  with mapE_length [OF assms(1)] show "length (concat vss) \<le> length U" by simp
  show "\<forall>(a, b, w) \<in> set (concat vss). 0 \<le> w \<and> w \<le> nwWVouchFp p" using one by fastforce
qed

lemma stages_weights:
  assumes st: "stagesOk V p U el vss merges forum jobs" and ok: "nostrWeightsOk p"
    and e: "(a, b, w) \<in> set (stageEdges vss merges fc forum jc jobs)"
  shows "0 \<le> w \<and> w \<le> nostrMaxWeight p"
proof -
  have pos: "0 \<le> nwWMergeFp p" "0 \<le> nwWForumFp p" "0 \<le> nwWJobFp p" using ok by (auto simp: nostrWeightsOk_def)
  from e consider vs where "vs \<in> set vss" "(a, b, w) \<in> set vs"
    | c where "c \<in> set (jvalues merges)" "(a, b, w) = candEdge c"
    | c where "c \<in> set (capped fc forum)" "(a, b, w) = candEdge c"
    | c where "c \<in> set (capped jc jobs)" "(a, b, w) = candEdge c"
    unfolding stageEdges_def by (blast dest: stage_cases)
  then show ?thesis
  proof cases
    case 1
    from st have "mapE (vouchEdges p el) U = Inr vss" by (simp add: stagesOk_def)
    from vouches_facts(2) [OF this ok] 1 show ?thesis by (fastforce simp: nostrMaxWeight_def)
  next
    case 2
    with st have "weightIn p (nwWMergeFp p) w"
      using keyedCand_values [of _ _ merges c] unfolding stagesOk_def candEdge_def by blast
    from weightIn_bounds [OF ok pos(1) this] show ?thesis unfolding nostrMaxWeight_def by linarith
  next
    case 3
    with st have "weightIn p (nwWForumFp p) w"
      using keyedCands_capped [of _ _ forum c] unfolding stagesOk_def candEdge_def by blast
    from weightIn_bounds [OF ok pos(2) this] show ?thesis unfolding nostrMaxWeight_def by linarith
  next
    case 4
    with st have "weightIn p (nwWJobFp p) w"
      using keyedCands_capped [of _ _ jobs c] unfolding stagesOk_def candEdge_def by blast
    from weightIn_bounds [OF ok pos(3) this] show ?thesis unfolding nostrMaxWeight_def by linarith
  qed
qed

lemma stages_length:
  assumes st: "stagesOk V p U el vss merges forum jobs" and ok: "nostrWeightsOk p" and caps: "0 \<le> fc" "0 \<le> jc"
  shows "length (stageEdges vss merges fc forum jc jobs) \<le> 4 * length U"
  using vouches_facts(1) [of p el U vss] candCount_capped [OF caps(1), of forum] candCount_capped [OF caps(2), of jobs]
    st ok by (simp add: stageEdges_def stagesOk_def)

lemma stages_total:
  assumes st: "stagesOk V p U el vss merges forum jobs" and ok: "nostrWeightsOk p" and caps: "0 \<le> fc" "0 \<le> jc"
  shows "sumOf edgeWeight (nodeEdges V (stageEdges vss merges fc forum jc jobs)) \<le> nostrMaxWeight p * (4 * int (length U))"
proof -
  let ?gs = "stageEdges vss merges fc forum jc jobs"
  have "sumOf edgeWeight ?gs \<le> sumOf (\<lambda>_. nostrMaxWeight p) ?gs"
    by (rule sumOf_mono) (use stages_weights [OF st ok] in \<open>force simp: edgeWeight_def\<close>)
  also have "\<dots> = nostrMaxWeight p * int (length ?gs)"
    by (simp add: map_replicate_const sum_list_replicate mult.commute)
  also have "\<dots> \<le> nostrMaxWeight p * (4 * int (length U))"
    using stages_length [OF st ok caps] ok by (intro mult_left_mono) (auto simp: nostrMaxWeight_def nostrWeightsOk_def)
  finally show ?thesis by (simp only: sum_nodeEdges)
qed

section \<open>The weight of one pair\<close>

definition flow :: "hex \<Rightarrow> hex \<Rightarrow> wedge list \<Rightarrow> int" where
  "flow a b gs = sumOf edgeWeight (between a b gs)"

lemma flow_append: "flow a b (gs @ hs) = flow a b gs + flow a b hs"
  by (simp add: flow_def between_def)

lemma flow_Nil [simp]: "flow a b [] = 0"
  by (simp add: flow_def between_def)

lemma flow_Cons: "flow a b (e # gs) = (if fst e = a \<and> fst (snd e) = b then edgeWeight e else 0) + flow a b gs"
  by (cases e) (simp add: flow_def between_def)

lemma flow_nodes:
  assumes "inj_on (nostrNodeId V) A" and "a \<in> A" "b \<in> A" and "\<forall>(x, y, w) \<in> set gs. x \<in> A \<and> y \<in> A"
  shows "sumOf edgeWeight (between (nostrNodeId V a) (nostrNodeId V b) (nodeEdges V gs)) = flow a b gs"
  using assms(4)
proof (induction gs)
  case (Cons e gs)
  obtain x y w where e: "e = (x, y, w)" by (cases e)
  from Cons.prems have "x \<in> A" "y \<in> A" by (auto simp: e)
  then have "nostrNodeId V x = nostrNodeId V a \<longleftrightarrow> x = a" "nostrNodeId V y = nostrNodeId V b \<longleftrightarrow> y = b"
    using assms(1-3) by (auto dest: inj_onD)
  with Cons show ?case by (auto simp: e flow_Cons nodeEdges_def between_def edgeWeight_def)
qed (simp add: nodeEdges_def between_def)

definition vouchCount :: "AuthenticatedEvent list \<Rightarrow> hex \<Rightarrow> hex \<Rightarrow> nat" where
  "vouchCount U a b = length (filter (\<lambda>e. author e = a \<and> (case validVouch e of None \<Rightarrow> False | Some v \<Rightarrow> fst v = b)) U)"

lemma flow_vouches:
  assumes "mapE (vouchEdges p el) U = Inr vss" and ok: "nostrWeightsOk p"
  shows "flow a b (concat vss) \<le> nwWVouchFp p * int (vouchCount U a b)"
  using assms(1)
proof (induction U arbitrary: vss)
  case (Cons e U)
  then obtain vs wss where v: "vouchEdges p el e = Inr vs" "mapE (vouchEdges p el) U = Inr wss" "vss = vs # wss" by auto
  have pos: "0 \<le> nwWVouchFp p" using ok by (simp add: nostrWeightsOk_def)
  let ?hit = "author e = a \<and> (case validVouch e of None \<Rightarrow> False | Some v \<Rightarrow> fst v = b)"
  have "flow a b vs \<le> (if ?hit then nwWVouchFp p else 0)"
  proof (cases vs)
    case (Cons w ws)
    with vouchEdges_total [OF ok, of el e] v(1) have ws: "ws = []" "edgeWeight w \<le> nwWVouchFp p"
      by (auto simp: edgeWeight_def)
    have "fst w = author e \<and> (case validVouch e of None \<Rightarrow> False | Some v \<Rightarrow> fst v = fst (snd w))"
      using v(1) Cons by (auto simp: vouchEdges_def split: if_split_asm option.split_asm)
    with Cons ws pos show ?thesis by (auto simp: flow_Cons)
  qed (use pos in simp)
  with Cons.IH [OF v(2)] show ?case by (auto simp: v(3) flow_append vouchCount_def algebra_simps)
qed (simp add: vouchCount_def)

lemma flow_merges:
  assumes t: "tableOf (keyedCand R (weightIn p B)) m" and ok: "nostrWeightsOk p" and B: "0 \<le> B"
  shows "flow a b (map candEdge (jvalues m)) \<le> B"
proof -
  have "flow a b (map candEdge (jvalues m)) \<le> (if pairKey a b \<in> set (jkeys m) then B else 0)" using t
  proof (induction m)
    case (Cons e m)
    obtain k c where e: "e = (k, c)" by (cases e)
    from Cons.prems have c: "k = pairKey (cdSource c) (cdTarget c)" "cdWeight c \<le> B" "k \<notin> set (jkeys m)"
      and m: "tableOf (keyedCand R (weightIn p B)) m"
      using weightIn_bounds [OF ok B] by (auto simp: tableOf_def e keyedCand_def candOk_def)
    from Cons.IH [OF m] c B show ?case by (auto simp: e flow_Cons split: if_split_asm)
  qed simp
  with B show ?thesis by (simp split: if_split_asm)
qed

lemma flow_bound:
  assumes "\<forall>c \<in> set cs. cdWeight c \<le> B" and "0 \<le> B"
  shows "flow a b (map candEdge cs) \<le> B * int (length cs)"
  using assms(1)
proof (induction cs)
  case (Cons c cs)
  then have "flow a b (map candEdge cs) \<le> B * int (length cs)" "cdWeight c \<le> B" by auto
  with assms(2) show ?case by (auto simp: flow_Cons algebra_simps)
qed simp

lemma flow_capped:
  assumes t: "tableOf (keyedCands R (weightIn p B)) m" and ok: "nostrWeightsOk p" and B: "0 \<le> B" and cap: "0 \<le> cap"
  shows "flow a b (map candEdge (capped cap m)) \<le> B * cap"
proof -
  have "flow a b (map candEdge (capped cap m)) \<le> (if pairKey a b \<in> set (jkeys m) then B * cap else 0)" using t
  proof (induction m)
    case Nil
    show ?case by (simp add: capped_def)
  next
    case (Cons e m)
    obtain k cs where e: "e = (k, cs)" by (cases e)
    let ?t = "sliceTo cap (sortBy (\<lambda>a b. compareCandidate b a) cs)"
    from Cons.prems have c: "\<forall>c \<in> set cs. k = pairKey (cdSource c) (cdTarget c) \<and> cdWeight c \<le> B" "k \<notin> set (jkeys m)"
      and m: "tableOf (keyedCands R (weightIn p B)) m"
      using weightIn_bounds [OF ok B] by (auto simp: tableOf_def e keyedCands_def candOk_def)
    have sub: "set ?t \<subseteq> set cs" using cap by (auto simp: sliceTo_def dest: in_set_takeD)
    have len: "int (length ?t) \<le> cap" using cap by (simp add: sliceTo_def)
    have "flow a b (map candEdge ?t) \<le> (if k = pairKey a b then B * cap else 0)"
    proof (cases "k = pairKey a b")
      case True
      have "flow a b (map candEdge ?t) \<le> B * int (length ?t)" using c(1) sub B by (intro flow_bound) auto
      also have "\<dots> \<le> B * cap" using len B by (intro mult_left_mono)
      finally show ?thesis using True by simp
    next
      case False
      then have "\<forall>c \<in> set ?t. \<not> (cdSource c = a \<and> cdTarget c = b)" using c(1) sub by auto
      then have "between a b (map candEdge ?t) = []" by (auto simp: between_def filter_empty_conv candEdge_def)
      with False show ?thesis by (simp add: flow_def)
    qed
    moreover have "capped cap (e # m) = ?t @ capped cap m" by (simp add: capped_def e)
    ultimately show ?case using Cons.IH [OF m] c(2) by (auto simp: flow_append e split: if_split_asm)
  qed
  moreover have "0 \<le> B * cap" using B cap by simp
  ultimately show ?thesis by (auto split: if_split_asm)
qed

lemma stages_flow:
  assumes st: "stagesOk V p U el vss merges forum jobs" and ok: "nostrWeightsOk p" and caps: "0 \<le> fc" "0 \<le> jc"
  shows "flow a b (stageEdges vss merges fc forum jc jobs) \<le> nwWVouchFp p * int (vouchCount U a b) + nwWMergeFp p +
    nwWForumFp p * fc + nwWJobFp p * jc"
proof -
  have pos: "0 \<le> nwWMergeFp p" "0 \<le> nwWForumFp p" "0 \<le> nwWJobFp p" using ok by (auto simp: nostrWeightsOk_def)
  from st have "flow a b (concat vss) \<le> nwWVouchFp p * int (vouchCount U a b)"
    "flow a b (map candEdge (jvalues merges)) \<le> nwWMergeFp p"
    "flow a b (map candEdge (capped fc forum)) \<le> nwWForumFp p * fc"
    "flow a b (map candEdge (capped jc jobs)) \<le> nwWJobFp p * jc"
    unfolding stagesOk_def
    using flow_vouches [OF _ ok] flow_merges [OF _ ok pos(1)] flow_capped [OF _ ok pos(2) caps(1)]
      flow_capped [OF _ ok pos(3) caps(2)] by blast+
  then show ?thesis by (simp add: stageEdges_def flow_append del: map_map)
qed

section \<open>Endpoints\<close>

lemma evidence_authors:
  assumes "hasEvidence V U el a b"
  shows "a \<in> author ` U" and "b \<in> author ` U \<or> b \<in> el"
  using assms unfolding hasEvidence_def vouchedBy_def mergedBy_def votedBy_def paidBy_def by blast+

text \<open>Every accepted event is by a member of the roster or carries an owner attestation.\<close>

definition membersOnly :: "hex list \<Rightarrow> AuthenticatedEvent list \<Rightarrow> bool" where
  "membersOnly roster events \<longleftrightarrow> (\<forall>e \<in> set events. aeAccepted e \<and> \<not> present (aeOaOwner e) \<longrightarrow>
     author e \<in> toLowerCase ` set roster)"

lemma usable_eligible:
  assumes "membersOnly roster events" and "e \<in> set (usableOf events)"
  shows "author e \<in> set (eligibleOf roster events)"
  using assms unfolding membersOnly_def usable_iff eligible_iff by blast

lemma evidence_eligible:
  assumes "membersOnly roster events"
    and "hasEvidence V (set (usableOf events)) (set (eligibleOf roster events)) a b"
  shows "a \<in> set (eligibleOf roster events)" and "b \<in> set (eligibleOf roster events)"
  using evidence_authors [OF assms(2)] usable_eligible [OF assms(1)] by blast+

definition bytesWordLaw :: "viem \<Rightarrow> bool" where
  "bytesWordLaw V \<longleftrightarrow> (\<forall>bs. isWord (keccak256Bytes V bs))"

lemma nodeId_canonical: "bytesWordLaw V \<Longrightarrow> toLowerCase (nostrNodeId V a) = nostrNodeId V a"
  by (simp add: bytesWordLaw_def nostrNodeId_def isWord_def canonical_def)

lemma nodeEdges_member:
  "(s, t, w) \<in> set (nodeEdges V gs) \<Longrightarrow> \<exists>a b. (a, b, w) \<in> set gs \<and> s = nostrNodeId V a \<and> t = nostrNodeId V b"
  by (auto simp: nodeEdges_def)

text \<open>The shape of a derivation, with the stages as one predicate.\<close>

lemma derive_stages:
  assumes "deriveSemantics V events roster p = Inr d"
  obtains vss merges forum jobs where
    "stagesOk V p (usableOf events) (eligibleOf roster events) vss merges forum jobs"
    and "gNodes (dsGraph d) = sortBy cmpHex (map (nostrNodeId V) (eligibleOf roster events))"
    and "gOutgoing (dsGraph d) =
      addAll (nodeEdges V (stageEdges vss merges (nwForumPairCap p) forum (nwJobPairCap p) jobs)) []"
    and "dsEdges d = derivedEdges (gOutgoing (dsGraph d))"
  using derive_shape [OF assms] unfolding Let_def stagesOk_def by blast

lemma derive_rankable:
  assumes d: "deriveSemantics V events roster p = Inr d" and V: "bytesWordLaw V" and ok: "nostrWeightsOk p"
    and mem: "membersOnly roster events" and room: "nostrMaxWeight p * (4 * int (length events)) \<le> U256_MAX"
  shows "rankable (dsGraph d) q" and "jmapInv (gOutgoing (dsGraph d))"
proof -
  let ?U = "usableOf events" and ?el = "eligibleOf roster events"
  obtain vss merges forum jobs where st: "stagesOk V p ?U ?el vss merges forum jobs"
    and n: "gNodes (dsGraph d) = sortBy cmpHex (map (nostrNodeId V) ?el)"
    and g: "gOutgoing (dsGraph d) =
      addAll (nodeEdges V (stageEdges vss merges (nwForumPairCap p) forum (nwJobPairCap p) jobs)) []"
    using derive_stages [OF d] by metis
  let ?gs = "stageEdges vss merges (nwForumPairCap p) forum (nwJobPairCap p) jobs"
  have caps: "0 \<le> nwForumPairCap p" "0 \<le> nwJobPairCap p" using ok by (auto simp: nostrWeightsOk_def)
  have W: "0 \<le> nostrMaxWeight p" using ok by (auto simp: nostrWeightsOk_def nostrMaxWeight_def)
  have pos: "\<forall>(s, t, w) \<in> set (nodeEdges V ?gs). 0 \<le> w"
    using nodeEdges_member stages_weights [OF st ok] by fastforce
  have ends: "\<forall>(s, t, w) \<in> set (nodeEdges V ?gs). s \<in> set (rankNodesOf (dsGraph d) q) \<and> t \<in> set (rankNodesOf (dsGraph d) q)"
  proof (intro ballI, clarify)
    fix s t w assume "(s, t, w) \<in> set (nodeEdges V ?gs)"
    then obtain a b where ab: "(a, b, w) \<in> set ?gs" "s = nostrNodeId V a" "t = nostrNodeId V b"
      using nodeEdges_member by blast
    from evidence_eligible [OF mem stages_evidence [OF st ab(1)]] have "a \<in> set ?el" "b \<in> set ?el" by auto
    then have "s \<in> set (gNodes (dsGraph d))" "t \<in> set (gNodes (dsGraph d))" unfolding n ab by auto
    then show "s \<in> set (rankNodesOf (dsGraph d) q) \<and> t \<in> set (rankNodesOf (dsGraph d) q)"
      unfolding set_rankNodes using nodeId_canonical [OF V] ab(2,3) by (metis UnI1 imageI)
  qed
  have "sumOf edgeWeight (nodeEdges V ?gs) \<le> nostrMaxWeight p * (4 * int (length ?U))"
    by (rule stages_total [OF st ok caps])
  also have "\<dots> \<le> nostrMaxWeight p * (4 * int (length events))"
    using usable_length [of events] W by (intro mult_left_mono) auto
  finally have "sumOf (\<lambda>(s, t, w). w) (nodeEdges V ?gs) \<le> U256_MAX" using room by (simp add: edgeWeight_case)
  from addAll_rankable [OF g pos ends this]
  show "rankable (dsGraph d) q" "jmapInv (gOutgoing (dsGraph d))" by auto
qed

section \<open>The run\<close>

lemma nostrLeaves_node: "nostrLeaves = nodeLeaves"
  by (simp add: fun_eq_iff nostrLeaves_def nodeLeaves_def nostrOutputLeaf_def nodeOutputLeaf_def)

definition nostrSeeds :: "viem \<Rightarrow> NostrWorkspaceParams \<Rightarrow> hex list" where
  "nostrSeeds V p = map (nostrNodeId V) (nwTrustedSeedPubkeys p)"

definition nostrIntegers :: "NostrWorkspaceParams \<Rightarrow> int list" where
  "nostrIntegers p = (let l = nwLimits p in [nwVersion p, nwDampingFp p, nwToleranceFp p, nwMaxIterations p, nwTrustShareFp p,
     nwTrustDecayFp p, nwPrecisionScale p, nwTotalPool p, nwChainId p, nwAllowedVariants p, nwWVouchFp p, nwWMergeFp p,
     nwWJobFp p, nwWForumFp p, nwRelayAttestedWeightFp p, nwForumPairCap p, nwJobPairCap p, nwLane2MaxHeadAge p,
     nwMaxAnchorRecords p, nwMaxEstimatedPgu p, nlEnvelopeBytes l, nlSelectedHeads l, nlAuditEntries l, nlEvents l,
     nlEncodedEventBytes l, nlContentBytes l, nlTagsPerEvent l, nlElementsPerTag l, nlTagStringBytes l, nlAllTagStringsBytes l,
     nlAuditDetailBytes l, nlNip01Signatures l, nlOaSignatures l])"

lemma nostrParamsHash_ok:
  assumes "toHexLaw V"
  shows "(\<exists>h. nostrParamsHash V p = Inr h) \<longleftrightarrow>
    (\<forall>x \<in> set (nostrIntegers p). fits256 x) \<and> length (strip0x (nwCommunityId p)) = 32"
proof -
  have "\<exists>r. nostrSeedSetRoot V ids = Inr r" for ids using merkleRoot_total by (fastforce simp: nostrSeedSetRoot_def Let_def)
  moreover have "fits256 3" by (simp add: fits256_def U256_MAX_def)
  moreover have "(\<exists>h. wordBytes16 x = Inr h) \<longleftrightarrow> length (strip0x x) = 32" for x by (simp add: wordBytes16_def)
  ultimately show ?thesis
    unfolding nostrParamsHash_def nostrParamsEncoded_def Let_def digest_ok nostrIntegers_def using word_ok [OF assms] by auto
qed

lemma nostrSkippedDigest_ok:
  assumes "toHexLaw V" and "\<forall>e \<in> set skips. fits256 (skReason e) \<and> fits256 (skEpochObserved e)"
  shows "\<exists>d. nostrSkippedDigest V skips = Inr d"
proof -
  have leaf: "\<exists>l. nostrSkipLeaf V e = Inr l" if "e \<in> set (sortBy cmpNostrSkip skips)" for e
    unfolding nostrSkipLeaf_def digest_ok using that assms word_ok [OF assms(1)] by simp
  have "\<exists>d. foldE (\<lambda>digest e. bindE (nostrSkipLeaf V e) (\<lambda>leaf. Inr (foldLeaf V digest leaf))) z es = Inr d"
    if "\<forall>e \<in> set es. \<exists>l. nostrSkipLeaf V e = Inr l" for z es
    using that by (induction es arbitrary: z) fastforce+
  then show ?thesis unfolding nostrSkippedDigest_def using leaf by blast
qed

definition nostrReproducible :: "viem \<Rightarrow> NostrInput \<Rightarrow> bool" where
  "nostrReproducible V i \<longleftrightarrow> (let p = niParams i in
     nostrWeightsOk p \<and> membersOnly (niRosterPubkeys i) (niEvents i) \<and>
     nostrMaxWeight p * (4 * int (length (niEvents i))) \<le> U256_MAX \<and>
     validParams (nostrRankParams p (nostrSeeds V p)) \<and> 0 \<le> nwTotalPool p \<and> nwTotalPool p \<le> U256_MAX \<and>
     shortBindings (bindingMap (niBindings i)) \<and>
     (\<forall>x \<in> set (nostrIntegers p). fits256 x) \<and> length (strip0x (nwCommunityId p)) = 32 \<and>
     (\<forall>e \<in> set (niSkips i). fits256 (skReason e) \<and> fits256 (skEpochObserved e)))"

lemma nostr_run:
  assumes ok: "nostrReproducible V i" and laws: "padLaw V" "toHexLaw V" "bytesWordLaw V"
  shows "\<exists>r. nostrRecompute V i = Inr r \<and> sumOf snd (nrScores r) = jTotalValue (nrJournal r) \<and>
    sorted_wrt (<) (jkeys (nrScores r)) \<and> (\<forall>(a, v) \<in> set (nrScores r). 0 < v) \<and>
    jTotalValue (nrJournal r) \<in> {0, nwTotalPool (niParams i)}"
proof -
  let ?p = "niParams i" let ?rp = "nostrRankParams ?p (nostrSeeds V ?p)"
  from ok have w: "nostrWeightsOk ?p" and mem: "membersOnly (niRosterPubkeys i) (niEvents i)"
    and room: "nostrMaxWeight ?p * (4 * int (length (niEvents i))) \<le> U256_MAX"
    and v: "validParams ?rp" and pool: "0 \<le> nwTotalPool ?p" "nwTotalPool ?p \<le> U256_MAX"
    and short: "shortBindings (bindingMap (niBindings i))"
    and fits: "\<forall>x \<in> set (nostrIntegers ?p). fits256 x" "length (strip0x (nwCommunityId ?p)) = 32"
      "\<forall>e \<in> set (niSkips i). fits256 (skReason e) \<and> fits256 (skEpochObserved e)"
    unfolding nostrReproducible_def Let_def by blast+
  obtain h sd where enc: "nostrParamsHash V ?p = Inr h" "nostrSkippedDigest V (niSkips i) = Inr sd"
    using nostrParamsHash_ok [OF laws(2), of ?p] nostrSkippedDigest_ok [OF laws(2) fits(3)] fits(1,2) by blast
  obtain d where d: "deriveSemantics V (niEvents i) (niRosterPubkeys i) ?p = Inr d" using derive_total [OF w] by blast
  have tp: "totalPool ?rp = nwTotalPool ?p" by (simp add: nostrRankParams_def)
  from points_run [OF v derive_rankable [OF d laws(3) w mem room]] pool(1) obtain rk assigned tot where
    rk: "calculateDetailed (dsGraph d) ?rp = Inr rk"
    and a: "distributePoints (filter (\<lambda>(k, v). v \<noteq> 0) (rrScores rk)) ?rp = Inr (assigned, tot)"
      "sumOf snd assigned = tot" "sorted_wrt (<) (jkeys assigned)" "\<forall>(k, v) \<in> set assigned. 0 < v"
      "tot \<in> {0, nwTotalPool ?p}"
    and srt: "sortBy (\<lambda>a b. cmpHex (fst a) (fst b)) assigned = assigned" unfolding tp by blast
  obtain leaves where ls: "nostrLeaves V (bindingMap (niBindings i)) assigned = Inr leaves"
    using nodeLeaves_total [OF laws(1,2) _ short, of assigned] points_value [OF a(4,2,5) pool(2)]
    unfolding nostrLeaves_node by blast
  obtain root where root: "merkleRoot V leaves = Inr root" using merkleRoot_total by blast
  obtain cid where cid: "cidV1Raw (sha256Utf8 V (canonicalBlob assigned)) = Inr cid" using cidV1Raw_sha by blast
  show ?thesis
    using d calculate_detailed [OF rk] a srt ls root cid enc by (simp add: nostrRecompute_def nostrSeeds_def Let_def)
qed

lemma nostr_cases:
  assumes "nostrRecompute V i = Inr r"
  obtains rank assigned leaves where
    "deriveSemantics V (niEvents i) (niRosterPubkeys i) (niParams i) = Inr (nrSemantics r)"
    and "calculateDetailed (dsGraph (nrSemantics r)) (nostrRankParams (niParams i) (nostrSeeds V (niParams i))) = Inr rank"
    and "distributePoints (filter (\<lambda>(k, v). v \<noteq> 0) (rrScores rank))
      (nostrRankParams (niParams i) (nostrSeeds V (niParams i))) = Inr (assigned, jTotalValue (nrJournal r))"
    and "nrScores r = sortBy (\<lambda>a b. cmpHex (fst a) (fst b)) assigned"
    and "nodeLeaves V (bindingMap (niBindings i)) (nrScores r) = Inr leaves"
    and "merkleRoot V leaves = Inr (jOutputRoot (nrJournal r))"
  using assms unfolding nostrRecompute_def calculate_def Let_def nostrSeeds_def nostrLeaves_node
  by (elim bindE_InrE) (auto simp: result_simps)

section \<open>The two skip digests\<close>

lemma insert_skips:
  assumes "\<forall>e \<in> insert x (set ys). canonical (skNodeId e)"
    and "sorted (map (\<lambda>e. (toLowerCase (skNodeId e), skReason e, skEpochObserved e)) ys)"
  shows "insertBy cmpNostrSkip x ys = insertBy cmpSkip x ys"
  using assms
proof (induction ys)
  case (Cons y ys)
  have IH: "insertBy cmpNostrSkip x ys = insertBy cmpSkip x ys" using Cons by simp
  show ?case
  proof (cases "toLowerCase (skNodeId x) = toLowerCase (skNodeId y) \<and> skReason x = skReason y \<and>
      skEpochObserved x = skEpochObserved y")
    case True
    have "canonical (skNodeId x)" "canonical (skNodeId y)" using Cons.prems(1) by auto
    then have "skNodeId x = skNodeId y" using True by (metis canonicalD)
    with True have xy: "x = y" by (intro SkippedNode.equality) simp_all
    have "insertBy cmpSkip y ys = y # ys"
      using Cons.prems(2) skipcmp.cmp_le [of y] by (cases ys) auto
    moreover have "\<not> cmpNostrSkip y y \<le> 0" "cmpSkip y y \<le> 0"
      by (simp_all add: cmpNostrSkip_def cmpSkip_def Let_def)
    ultimately show ?thesis using IH xy by simp
  next
    case False
    then have "cmpNostrSkip x y \<le> 0 \<longleftrightarrow> cmpSkip x y \<le> 0"
      by (auto simp: cmpNostrSkip_def cmpSkip_def Let_def)
    with IH show ?thesis by simp
  qed
qed simp

lemma sort_skips:
  assumes "\<forall>e \<in> set skips. canonical (skNodeId e)"
  shows "sortBy cmpNostrSkip skips = sortBy cmpSkip skips"
  using assms
proof (induction skips)
  case (Cons x xs)
  then have "sortBy cmpNostrSkip xs = sortBy cmpSkip xs" by simp
  moreover have "insertBy cmpNostrSkip x (sortBy cmpSkip xs) = insertBy cmpSkip x (sortBy cmpSkip xs)"
    using Cons.prems skipcmp.sortBy_sorted by (intro insert_skips) auto
  ultimately show ?case by simp
qed simp

lemma skips_agree:
  assumes "\<forall>e \<in> set skips. canonical (skNodeId e)"
  shows "nostrSkippedDigest V skips = skippedDigest V skips"
  unfolding nostrSkippedDigest_def skippedDigest_def sort_skips [OF assms]
  by (simp add: nostrSkipLeaf_def skipLeaf_def)

end
