(* ===== verification/NostrProps.thy ===== *)
theory NostrProps
  imports NostrFlow
begin

text \<open>
  The properties of the workspace program and an example of it.
\<close>

section \<open>Properties of the workspace program\<close>

text \<open>
  C29: The workspace program returns on every input within its ranges: the accepted events are by members of the roster
  or carry an owner attestation; the weights, caps and shares of the parameters are not negative and the attested weight
  and the shares are fractions of the precision scale; four times the largest weight for every event fits 256 bits;
  every integer that is encoded, the pool and the fields of the skip entries among them, fits its word and the
  community identifier has 16 bytes; a bound address is no longer than a word.  The derivation, the ranking, the parameter
  hash, the skip digest and the leaves then all return, and the points add up to the journal's total, the pool or zero.
\<close>

theorem nostr_total_and_conserving:
  assumes "nostrReproducible V i" and "padLaw V" and "toHexLaw V" and "bytesWordLaw V"
  shows "\<exists>r. nostrRecompute V i = Inr r \<and> sumOf snd (nrScores r) = jTotalValue (nrJournal r) \<and>
    sorted_wrt (<) (jkeys (nrScores r)) \<and> (\<forall>(a, v) \<in> set (nrScores r). 0 < v) \<and>
    jTotalValue (nrJournal r) \<in> {0, nwTotalPool (niParams i)}"
  using nostr_run [OF assms] .

text \<open>
  Points go only to nodes of the roster, of accounts whose accepted events agree on one owner, and of the
  seeds; and, when a seed is given, only to nodes a chain of evidence joins to one.
\<close>

lemma nostr_pays_members:
  assumes "nostrRecompute V i = Inr r" and "(node, v) \<in> set (nrScores r)"
  shows "(\<exists>pk. node = toLowerCase (nostrNodeId V pk) \<and> (pk \<in> toLowerCase ` set (niRosterPubkeys i) \<or>
      (\<exists>owner. ownersOf (acceptedOf (niEvents i)) pk = {owner}) \<or>
      pk \<in> set (nwTrustedSeedPubkeys (niParams i)))) \<and>
    (nwTrustedSeedPubkeys (niParams i) \<noteq> [] \<longrightarrow> (\<exists>k. trustWalk (dsGraph (nrSemantics r))
      (rankSeeds (nostrRankParams (niParams i) (nostrSeeds V (niParams i)))) k node))"
  using assms(1)
proof (rule nostr_cases)
  fix rank assigned leaves
  let ?p = "nostrRankParams (niParams i) (nostrSeeds V (niParams i))" and ?g = "dsGraph (nrSemantics r)"
  assume ds: "deriveSemantics V (niEvents i) (niRosterPubkeys i) (niParams i) = Inr (nrSemantics r)"
    and rk: "calculateDetailed ?g ?p = Inr rank"
    and d: "distributePoints (filter (\<lambda>(k, v). v \<noteq> 0) (rrScores rank)) ?p = Inr (assigned, jTotalValue (nrJournal r))"
    and s: "nrScores r = sortBy (\<lambda>a b. cmpHex (fst a) (fst b)) assigned"
  have a: "node \<in> set (jkeys assigned)" using assms(2) s by force
  have tr: "nwTrustedSeedPubkeys (niParams i) \<noteq> [] \<longrightarrow> (\<exists>k. trustWalk ?g (rankSeeds ?p) k node)"
    using points_reachable [OF rk _ d a] by (simp add: hasTrustEnabled_def nostrRankParams_def nostrSeeds_def)
  from a distributePoints_keys [OF d] have "node \<in> set (jkeys (rrScores rank))" by auto
  moreover from this have "rankNodesOf ?g ?p \<noteq> []" using rk by (auto simp: calculateDetailed_def)
  ultimately have "node \<in> set (rankNodesOf ?g ?p)" using run_keys [OF rk] by simp
  moreover obtain vss merges forum jobs where
    "gNodes ?g = sortBy cmpHex (map (nostrNodeId V) (eligibleOf (niRosterPubkeys i) (niEvents i)))"
    using derive_stages [OF ds] by metis
  ultimately obtain pk where "node = toLowerCase (nostrNodeId V pk)"
    "pk \<in> set (eligibleOf (niRosterPubkeys i) (niEvents i)) \<or> pk \<in> set (nwTrustedSeedPubkeys (niParams i))"
    unfolding set_rankNodes set_rankSeeds by (auto simp: nostrRankParams_def nostrSeeds_def)
  with tr show ?thesis unfolding eligible_iff by blast
qed

text \<open>
  C30: Every derived edge has evidence among the usable events, between two different accounts: a vouch for an
  eligible account, a merge of the target's root event, a positive vote on the target's post in its channel, or
  a terminal job result of an eligible agent for the source's request.
\<close>

theorem nostr_edges_have_evidence:
  assumes "deriveSemantics V events roster p = Inr d" and "(s, t, w) \<in> set (dsEdges d)"
  shows "\<exists>a b. s = nostrNodeId V a \<and> t = nostrNodeId V b \<and> a \<noteq> b \<and>
    hasEvidence V (set (usableOf events)) (set (eligibleOf roster events)) a b"
proof -
  obtain vss merges forum jobs where
    st: "stagesOk V p (usableOf events) (eligibleOf roster events) vss merges forum jobs"
    and g: "gOutgoing (dsGraph d) =
      addAll (nodeEdges V (stageEdges vss merges (nwForumPairCap p) forum (nwJobPairCap p) jobs)) []"
    and e: "dsEdges d = derivedEdges (gOutgoing (dsGraph d))"
    using derive_stages [OF assms(1)] by metis
  from assms(2) obtain row where "(s, row) \<in> set (gOutgoing (dsGraph d))" "(t, w) \<in> set row"
    unfolding e derivedEdges_def by auto
  from addAll_entry(2) [OF this [unfolded g]] obtain a b x where
    ab: "(a, b, x) \<in> set (stageEdges vss merges (nwForumPairCap p) forum (nwJobPairCap p) jobs)"
    "s = nostrNodeId V a" "t = nostrNodeId V b" using nodeEdges_member by blast
  have ev: "hasEvidence V (set (usableOf events)) (set (eligibleOf roster events)) a b"
    by (rule stages_evidence [OF st ab(1)])
  then have "a \<noteq> b" by (auto simp: hasEvidence_def vouchedBy_def mergedBy_def votedBy_def paidBy_def)
  with ab ev show ?thesis by blast
qed

text \<open>
  C31: What one account can give another is bounded, however many events it signs: one merge, as many votes and
  jobs as the caps allow, and its vouches (of which the envelope keeps one per pair), when the node
  identifiers of the accounts involved do not collide.
\<close>

theorem nostr_pair_capped:
  assumes "deriveSemantics V events roster p = Inr d" and "nostrWeightsOk p"
    and "inj_on (nostrNodeId V) A" and "a \<in> A" and "b \<in> A"
    and "author ` set (usableOf events) \<union> set (eligibleOf roster events) \<subseteq> A"
    and "weightOf (dsGraph d) (nostrNodeId V a) (nostrNodeId V b) = Some w"
  shows "w \<le> nwWVouchFp p * int (vouchCount (usableOf events) a b) + nwWMergeFp p +
    nwWForumFp p * nwForumPairCap p + nwWJobFp p * nwJobPairCap p"
proof -
  let ?U = "usableOf events" and ?el = "eligibleOf roster events"
  obtain vss merges forum jobs where st: "stagesOk V p ?U ?el vss merges forum jobs"
    and g: "gOutgoing (dsGraph d) =
      addAll (nodeEdges V (stageEdges vss merges (nwForumPairCap p) forum (nwJobPairCap p) jobs)) []"
    using derive_stages [OF assms(1)] by metis
  let ?gs = "stageEdges vss merges (nwForumPairCap p) forum (nwJobPairCap p) jobs"
  have "\<forall>(x, y, w) \<in> set ?gs. x \<in> A \<and> y \<in> A"
  proof (intro ballI, clarify)
    fix x y w assume "(x, y, w) \<in> set ?gs"
    from evidence_authors [OF stages_evidence [OF st this]] assms(6) show "x \<in> A \<and> y \<in> A" by blast
  qed
  from flow_nodes [OF assms(3-5) this] assms(7) have "w = flow a b ?gs"
    unfolding weightAt_weightOf g addAll_weight edgeWeight_case by (simp split: if_split_asm)
  moreover have "0 \<le> nwForumPairCap p" "0 \<le> nwJobPairCap p" using assms(2) by (auto simp: nostrWeightsOk_def)
  ultimately show ?thesis using stages_flow [OF st assms(2)] by simp
qed

text \<open>
  The two programs fold the same skips to the same digest, in whatever order the indexer serves them, when
  the node identifiers are in lower case.
\<close>

lemma skip_digests_agree:
  assumes "\<forall>e \<in> set skips. canonical (skNodeId e)" and "mset skips' = mset skips"
  shows "nostrSkippedDigest V skips' = skippedDigest V skips"
proof -
  have "\<forall>e \<in> set skips'. canonical (skNodeId e)" using assms by (metis set_mset_mset)
  from skips_agree [OF this] skippedDigest_mset [OF assms] show ?thesis by simp
qed

section \<open>A workspace example\<close>

text \<open>Two members of the roster; the first is the seed and vouches for the second.\<close>

definition keyA :: hex where
  "keyA = ''0x'' @ replicate 64 (CHR ''a'')"

definition keyB :: hex where
  "keyB = ''0x'' @ replicate 64 (CHR ''b'')"

definition vouchEvent :: AuthenticatedEvent where
  "vouchEvent = \<lparr>aeId = ''0x1'', aePubkey = keyA, aeKind = 36382,
     aeTags = [[''d'', replicate 64 (CHR ''b'')], [''weight'', ''50'']], aeContent = [], aeOaOwner = None,
     aeAccepted = True, aeProvenance = 2, aeOrder = (7, 0)\<rparr>"

definition nostrLimits :: NostrLimits where
  "nostrLimits = \<lparr>nlEnvelopeBytes = 1, nlSelectedHeads = 1, nlAuditEntries = 1, nlEvents = 1, nlEncodedEventBytes = 1,
     nlContentBytes = 1, nlTagsPerEvent = 1, nlElementsPerTag = 1, nlTagStringBytes = 1, nlAllTagStringsBytes = 1,
     nlAuditDetailBytes = 1, nlNip01Signatures = 1, nlOaSignatures = 1\<rparr>"

definition nostrParams :: NostrWorkspaceParams where
  "nostrParams = \<lparr>nwVersion = 1, nwOutputDomain = ''0x01'', nwDampingFp = 850, nwToleranceFp = 5, nwMaxIterations = 2,
     nwTrustShareFp = 600, nwTrustDecayFp = 800, nwPrecisionScale = 1000, nwTotalPool = 1000,
     nwTrustedSeedPubkeys = [keyA], nwCommunityId = ''0x'' @ replicate 32 (CHR ''c''), nwInstanceDomain = ''0x02'',
     nwRelayPubkey = ''0x03'', nwChainId = 1, nwAllowedVariants = 3, nwWVouchFp = 400, nwWMergeFp = 300, nwWJobFp = 200,
     nwWForumFp = 100, nwRelayAttestedWeightFp = 500, nwForumPairCap = 2, nwJobPairCap = 2, nwLane2MaxHeadAge = 9,
     nwMaxAnchorRecords = 9, nwMaxEstimatedPgu = 9, nwLimits = nostrLimits\<rparr>"

definition nostrInput :: NostrInput where
  "nostrInput = \<lparr>niEvents = [vouchEvent], niRosterPubkeys = [keyA, keyB], niBindings = [], niSkips = [],
     niParams = nostrParams, niAnchorAcc = ''0x'', niAnchorCount = 1,
     niBinding = \<lparr>bRecipient = ''0x'', bInstanceDomain = ''0x02''\<rparr>\<rparr>"

definition nodeA :: hex where
  "nodeA = ''0x6469643a6e6f7374723a61616161616161616161616161616161616161616161''"

definition nodeB :: hex where
  "nodeB = ''0x6469643a6e6f7374723a62626262626262626262626262626262626262626262''"

lemma example_ids: "nostrNodeId exampleViem keyA = nodeA" "nostrNodeId exampleViem keyB = nodeB"
  by code_simp+

lemma key_lower: "toLowerCase keyA = keyA" "toLowerCase keyB = keyB"
  by code_simp+

lemma keys_differ: "keyA \<noteq> keyB" "nodeA \<noteq> nodeB"
  by code_simp+

lemma vouch_digits: "hexValue (CHR ''b'') = Some 11" "lowerChar (CHR ''b'') = CHR ''b''" "isDigit (CHR ''5'')"
    "isDigit (CHR ''0'')" "digitsVal ''50'' = 50"
  by code_simp+

lemma vouch_valid: "validVouch vouchEvent = Some (keyB, 50)"
proof -
  have "hex32 (replicate 64 (CHR ''b'')) = Some keyB"
    by (simp add: hex32_def lowerHexChar_def vouch_digits keyB_def list_all_iff)
  moreover have "canonicalU32 ''50'' 100 = Some 50" by (simp add: canonicalU32_def vouch_digits Let_def)
  ultimately show ?thesis
    by (simp add: validVouch_def vouchEvent_def tagsNamed_def tagName_def soleTag_def exactTwo_def hexOption_def
        orDefault_def Let_def)
qed

lemma vouch_fields: "aeKind vouchEvent = 36382" "author vouchEvent = keyA" "aeAccepted vouchEvent"
    "aeOaOwner vouchEvent = None" "aeProvenance vouchEvent = 2"
  by (simp_all add: vouchEvent_def author_def key_lower)

lemma example_owners: "ownerSetsOf [vouchEvent] = []"
  by (simp add: ownerSetsOf_def ownerStep_def present_def vouch_fields)

lemma example_derived: "deriveSemantics exampleViem [vouchEvent] [keyA, keyB] nostrParams =
  Inr \<lparr>dsGraph = \<lparr>gNodes = [nodeA, nodeB], gOutgoing = [(nodeA, [(nodeB, 200)])]\<rparr>, dsEdges = [(nodeA, nodeB, 200)],
    dsAgents = []\<rparr>"
proof -
  have el: "eligibleAgents [keyA, keyB] [] = ([keyA, keyB], [])"
    by (simp add: eligibleAgents_def key_lower newSet_def setAdd_def keys_differ [symmetric])
  have us: "usableEvents [] [vouchEvent] = [vouchEvent]" by (simp add: usableEvents_def present_def vouch_fields)
  have v: "vouchStep exampleViem nostrParams [keyA, keyB] [] vouchEvent = Inr [(nodeA, [(nodeB, 200)])]"
    by (simp add: vouchStep_def vouch_fields vouch_valid keys_differ nostrParams_def bigDiv_def weighted_def
        addNode_def example_ids addWeight_def orDefault_def)
  have none: "rootsOf exampleViem [vouchEvent] = []" "statusesOf exampleViem [vouchEvent] = []"
      "forumTargetsOf [vouchEvent] = []" "voteStep [] [] vouchEvent = []" "requestsOf exampleViem [vouchEvent] = []"
      "terminalStep exampleViem [] [] vouchEvent = []"
    by (simp_all add: rootsOf_def statusesOf_def forumTargetsOf_def voteStep_def requestsOf_def terminalStep_def
        vouch_fields validStatus_def validForumTarget_def validVote_def validRequest_def present_def)
  have "sortBy cmpHex [nodeA, nodeB] = [nodeA, nodeB]" by code_simp
  then show ?thesis
    by (simp add: deriveSemantics_def vouch_fields example_owners el us v none applyCapped_def example_ids
        derivedEdges_def Let_def)
qed

lemma example_seeds: "nostrSeeds exampleViem nostrParams = [nodeA]"
  by (simp add: nostrSeeds_def nostrParams_def example_ids)

lemma example_nostrFits: "\<forall>x \<in> set (nostrIntegers nostrParams). fits256 x" "length (strip0x (nwCommunityId nostrParams)) = 32"
  by (simp_all add: nostrIntegers_def nostrParams_def nostrLimits_def fits256_def U256_MAX_def strip0x_def toLowerCase_def Let_def)

lemma example_bytesWord: "bytesWordLaw exampleViem"
  by (simp add: bytesWordLaw_def exampleViem_def isWord_prefixDigest)

lemma example_weights: "nostrWeightsOk nostrParams" "nostrMaxWeight nostrParams = 400"
  by (simp_all add: nostrWeightsOk_def nostrMaxWeight_def nostrParams_def)

lemma example_nostrReproducible: "nostrReproducible exampleViem nostrInput"
proof -
  have "validParams (nostrRankParams nostrParams [nodeA])"
    by (simp add: validParams_def nostrRankParams_def nostrParams_def U256_MAX_def)
  moreover have "membersOnly [keyA, keyB] [vouchEvent]"
    by (simp add: membersOnly_def vouch_fields present_def key_lower)
  moreover have "nwTotalPool nostrParams = 1000" by (simp add: nostrParams_def)
  ultimately show ?thesis
    using example_nostrFits
    by (auto simp: nostrReproducible_def nostrInput_def example_seeds example_weights U256_MAX_def shortBindings_def
        bindingMap_def newMap_def Let_def)
qed

theorem nostr_total_and_conserving_witness:
  "\<exists>r. nostrRecompute exampleViem nostrInput = Inr r \<and> sumOf snd (nrScores r) = jTotalValue (nrJournal r) \<and>
    sorted_wrt (<) (jkeys (nrScores r)) \<and> (\<forall>(a, v) \<in> set (nrScores r). 0 < v) \<and>
    jTotalValue (nrJournal r) \<in> {0, nwTotalPool (niParams nostrInput)}"
  by (rule nostr_total_and_conserving) (use example_nostrReproducible example_bytesWord in simp_all)

lemma example_nostrRun:
  assumes "nostrRecompute exampleViem nostrInput = Inr r"
  shows "nrScores r = [(nodeA, 399), (nodeB, 601)]" and "gOutgoing (dsGraph (nrSemantics r)) = [(nodeA, [(nodeB, 200)])]"
proof -
  have p: "niEvents nostrInput = [vouchEvent]" "niRosterPubkeys nostrInput = [keyA, keyB]"
    "niParams nostrInput = nostrParams" by (simp_all add: nostrInput_def)
  let ?s = "[(nodeA, 399), (nodeB, 601)] :: (hex \<times> int) list"
  let ?g = "\<lparr>gNodes = [nodeA, nodeB], gOutgoing = [(nodeA, [(nodeB, 200)])]\<rparr>"
  let ?p = "nostrRankParams nostrParams [nodeA]"
  from assms obtain rank assigned where
    ds: "deriveSemantics exampleViem [vouchEvent] [keyA, keyB] nostrParams = Inr (nrSemantics r)"
    and rk: "calculateDetailed (dsGraph (nrSemantics r)) ?p = Inr rank"
    and d: "distributePoints (filter (\<lambda>(k, v). v \<noteq> 0) (rrScores rank)) ?p = Inr (assigned, jTotalValue (nrJournal r))"
    and s: "nrScores r = sortBy (\<lambda>a b. cmpHex (fst a) (fst b)) assigned"
    by (elim nostr_cases) (simp add: p example_seeds)
  from ds example_derived have g: "dsGraph (nrSemantics r) = ?g" by (auto simp: eq_commute [of _ "nrSemantics r"])
  have "calculateDetailed ?g ?p = Inr \<lparr>rrScores = ?s, rrIterations = 2, rrConverged = False\<rparr>" by code_simp
  with rk g have rank: "rrScores rank = ?s" by (simp add: eq_commute [of _ rank])
  have "distributePoints (filter (\<lambda>(k, v). v \<noteq> 0) ?s) ?p = Inr (?s, 1000)" by code_simp
  with d rank have a: "assigned = ?s" by simp
  have "sortBy (\<lambda>a b. cmpHex (fst a) (fst b)) ?s = ?s" by code_simp
  with s a show "nrScores r = ?s" by (simp only:)
  show "gOutgoing (dsGraph (nrSemantics r)) = [(nodeA, [(nodeB, 200)])]" using g by simp
qed

lemma nostr_pays_members_witness:
  "\<exists>r k. nostrRecompute exampleViem nostrInput = Inr r \<and>
     trustWalk (dsGraph (nrSemantics r)) (rankSeeds (nostrRankParams nostrParams [nodeA])) k nodeB"
proof -
  obtain r where r: "nostrRecompute exampleViem nostrInput = Inr r"
    using nostr_run [OF example_nostrReproducible] example_bytesWord by auto
  have p: "niParams nostrInput = nostrParams" "nwTrustedSeedPubkeys nostrParams \<noteq> []"
    by (simp_all add: nostrInput_def nostrParams_def)
  have "(nodeB, 601) \<in> set (nrScores r)" by (simp add: example_nostrRun(1) [OF r])
  from nostr_pays_members [OF r this] p have
    "\<exists>k. trustWalk (dsGraph (nrSemantics r)) (rankSeeds (nostrRankParams nostrParams [nodeA])) k nodeB"
    by (simp add: example_seeds)
  with r show ?thesis by blast
qed

theorem nostr_edges_have_evidence_witness:
  "\<exists>a b. nodeA = nostrNodeId exampleViem a \<and> nodeB = nostrNodeId exampleViem b \<and> a \<noteq> b \<and>
    hasEvidence exampleViem (set (usableOf [vouchEvent])) (set (eligibleOf [keyA, keyB] [vouchEvent])) a b"
  by (rule nostr_edges_have_evidence [OF example_derived]) simp

theorem nostr_pair_capped_witness:
  "200 \<le> 400 * int (vouchCount [vouchEvent] keyA keyB) + 300 + 100 * 2 + 200 * (2 :: int)"
proof -
  have acc: "usableOf [vouchEvent] = [vouchEvent]" "set (eligibleOf [keyA, keyB] [vouchEvent]) = {keyA, keyB}"
    by (simp_all add: usableOf_def eligibleOf_def acceptedOf_def vouch_fields example_owners usableEvents_def
        present_def eligibleAgents_def key_lower insert_commute)
  have inj: "inj_on (nostrNodeId exampleViem) {keyA, keyB}"
    by (simp add: inj_on_def example_ids keys_differ keys_differ [symmetric])
  have w: "weightOf \<lparr>gNodes = [nodeA, nodeB], gOutgoing = [(nodeA, [(nodeB, 200)])]\<rparr> (nostrNodeId exampleViem keyA)
      (nostrNodeId exampleViem keyB) = Some 200" by (simp add: weightOf_def example_ids)
  show ?thesis
    using nostr_pair_capped [OF example_derived example_weights(1) inj, of keyA keyB 200] w
    by (simp add: acc vouch_fields nostrParams_def)
qed

lemma skip_digests_agree_witness:
  "nostrSkippedDigest exampleViem [\<lparr>skNodeId = ''0xb'', skReason = 2, skEpochObserved = 7\<rparr>,
      \<lparr>skNodeId = ''0xa'', skReason = 1, skEpochObserved = 3\<rparr>] =
   skippedDigest exampleViem [\<lparr>skNodeId = ''0xa'', skReason = 1, skEpochObserved = 3\<rparr>,
      \<lparr>skNodeId = ''0xb'', skReason = 2, skEpochObserved = 7\<rparr>]"
proof (rule skip_digests_agree)
  have "canonical ''0xa''" "canonical ''0xb''" by (simp_all add: canonical_def) code_simp+
  then show "\<forall>e \<in> set [\<lparr>skNodeId = ''0xa'', skReason = 1, skEpochObserved = 3\<rparr>,
      \<lparr>skNodeId = ''0xb'', skReason = 2, skEpochObserved = 7\<rparr>]. canonical (skNodeId e)" by simp
qed simp

end
