(* ===== verification/OffchainBytes.thy ===== *)
theory OffchainBytes
  imports CidProps WeightedManifest
begin

text \<open>
  The bytes of the offchain attestation client, eas-offchain-client/src/bytes.ts and errors.ts: hex strings,
  big-endian integers, comparison, and the errors with a code.
\<close>

section \<open>Errors and constants\<close>

text \<open>An \<open>EasOffchainError\<close> by its code and message; its details are diagnostic and left out.\<close>

definition failE0 :: "string \<Rightarrow> string \<Rightarrow> 'a result" where
  "failE0 code message = Inl (AppError code message)"

definition requireE0 :: "bool \<Rightarrow> string \<Rightarrow> string \<Rightarrow> unit result" where
  "requireE0 ok code message = throwWhen (\<not> ok) (AppError code message)"

definition ZERO32 :: hex where
  "ZERO32 = ''0x'' @ concat (replicate 32 ''00'')"

lemma requireE0_Inr [simp, result_simps]: "requireE0 ok c m = Inr u \<longleftrightarrow> ok"
  by (simp add: requireE0_def)

lemma failE0_Inr [simp]: "failE0 c m \<noteq> Inr x"
  by (simp add: failE0_def)

lemma requireE0_True [simp]: "requireE0 True c m = Inr ()"
  by (simp add: requireE0_def)

section \<open>Hex strings and bytes\<close>

definition evenHex :: "hex \<Rightarrow> bool" where
  "evenHex h \<longleftrightarrow> take 2 h = ''0x'' \<and> even (length h) \<and> list_all (\<lambda>c. hexValue c \<noteq> None) (drop 2 h)"

definition offHexToBytes :: "hex \<Rightarrow> bytes result" where
  "offHexToBytes h =
     (if \<not> evenHex h then failE0 ''E0_CANONICAL'' ''invalid even-length hex''
      else Inr (map (\<lambda>i. parseByte (take 2 (drop (2 + i * 2) h))) [0..<(length h - 2) div 2]))"

definition offBytesToHex :: "bytes \<Rightarrow> hex" where
  "offBytesToHex bs = ''0x'' @ concat (map (\<lambda>b. hexDigits 2 (unat b)) bs)"

text \<open>\<open>concatBytes\<close> copies its arguments one after the other into an array of the total length.\<close>

definition concatBytes :: "bytes list \<Rightarrow> bytes" where
  "concatBytes values = concat values"

text \<open>The loop of \<open>uintBe\<close> fills the array from its end; the rest of the value must be zero.\<close>

fun uintLoop :: "nat \<Rightarrow> int \<Rightarrow> bytes \<Rightarrow> bytes \<times> int" where
  "uintLoop 0 remaining out = (out, remaining)"
| "uintLoop (Suc i) remaining out = uintLoop i (drop_bit 8 remaining) (of_int (remaining AND 0xff) # out)"

definition uintBe :: "int \<Rightarrow> nat \<Rightarrow> bytes result" where
  "uintBe value width =
     (if value < 0 then failE0 ''E0_CANONICAL'' ''negative unsigned integer''
      else case uintLoop width value [] of (out, remaining) \<Rightarrow>
        if remaining \<noteq> 0 then failE0 ''E0_CANONICAL'' (''integer does not fit in '' @ natDigits width @ '' bytes'')
        else Inr out)"

definition equalBytes :: "bytes \<Rightarrow> bytes \<Rightarrow> bool" where
  "equalBytes a b \<longleftrightarrow>
     (if length a \<noteq> length b then False
      else foldl (\<lambda>difference i. difference OR (a ! i XOR b ! i)) 0 [0..<length a] = 0)"

section \<open>Lemmas on bytes\<close>

lemma hexDigits_two: "hexDigits 2 x = [hexDigitChar (x div 16 mod 16), hexDigitChar (x mod 16)]"
  by (simp add: numeral_2_eq_2)

lemma length_offHex [simp]: "length (offBytesToHex bs) = 2 + 2 * length bs"
  by (induction bs) (auto simp: offBytesToHex_def)

lemma hexDigitChar_value: "d < 16 \<Longrightarrow> hexValue (hexDigitChar d) = Some d"
  using hexDigitChar_ok by blast

lemma parseByte_two: "hexValue a = Some x \<Longrightarrow> hexValue b = Some y \<Longrightarrow> parseByte [a, b] = of_nat (16 * x + y)"
  by (simp add: parseByte_def)

fun pairBytes :: "string \<Rightarrow> bytes" where
  "pairBytes (a # b # s) = parseByte [a, b] # pairBytes s"
| "pairBytes _ = []"

lemma pairBytes_map: "map (\<lambda>i. parseByte (take 2 (drop (i * 2) s))) [0..<length s div 2] = pairBytes s"
proof (induction s rule: pairBytes.induct)
  case (1 a b s)
  have "[0..<length (a # b # s) div 2] = 0 # map Suc [0..<length s div 2]"
    by (simp add: upt_conv_Cons map_Suc_upt del: upt_Suc)
  then show ?case using 1 by (simp add: comp_def del: upt_Suc)
qed simp_all

lemma offHexToBytes_pairs: "evenHex h \<Longrightarrow> offHexToBytes h = Inr (pairBytes (drop 2 h))"
  using pairBytes_map [of "drop 2 h"] by (simp add: offHexToBytes_def)

lemma offHexToBytes_Inr: "offHexToBytes h = Inr bs \<longleftrightarrow> evenHex h \<and> bs = pairBytes (drop 2 h)"
proof (cases "evenHex h")
  case False
  then show ?thesis by (simp add: offHexToBytes_def)
qed (auto simp: offHexToBytes_pairs)

lemma pairBytes_digits: "pairBytes (hexDigits 2 (unat b) @ s) = b # pairBytes s"
proof -
  have "unat b < 256" using unsigned_less [of b, where ?'a = nat] by simp
  then have "unat b div 16 mod 16 = unat b div 16" by simp
  then have "16 * (unat b div 16 mod 16) + unat b mod 16 = unat b" by simp
  then show ?thesis by (simp add: hexDigits_two parseByte_two hexDigitChar_value del: of_nat_add of_nat_mult)
qed

lemma offBytes_roundtrip: "offHexToBytes (offBytesToHex bs) = Inr bs"
proof -
  have ev: "list_all (\<lambda>c. hexValue c \<noteq> None) (concat (map (\<lambda>b. hexDigits 2 (unat b)) bs))"
    by (induction bs) (auto simp: hexDigits_two hexDigitChar_value)
  have "pairBytes (concat (map (\<lambda>b. hexDigits 2 (unat b)) bs)) = bs"
    by (induction bs) (auto simp: pairBytes_digits simp del: hexDigits.simps)
  with ev show ?thesis using length_offHex [of bs] by (simp add: offHexToBytes_Inr evenHex_def offBytesToHex_def)
qed

lemma digit_lower: "hexValue c = Some d \<Longrightarrow> hexDigitChar d = lowerChar c"
proof -
  assume c: "hexValue c = Some d"
  have "hexValue (lowerChar c) = Some d" using c by (simp add: hexValue_def)
  moreover have "hexValue (hexDigitChar d) = Some d" "lowerChar (hexDigitChar d) = hexDigitChar d"
    using hexValue_less [OF c] hexDigitChar_value hexValue_digit by auto
  ultimately show ?thesis using hexValue_inj by (metis lowerChar_idem)
qed

lemma pairBytes_back:
  assumes "even (length s)" and "list_all (\<lambda>c. hexValue c \<noteq> None) s"
  shows "concat (map (\<lambda>b. hexDigits 2 (unat b)) (pairBytes s)) = map lowerChar s"
  using assms
proof (induction s rule: pairBytes.induct)
  case (1 a b s)
  then obtain x y where xy: "hexValue a = Some x" "hexValue b = Some y" by auto
  then have lt: "x < 16" "y < 16" by (auto dest: hexValue_less)
  then have "(16 * x + y) mod 256 = 16 * x + y" by simp
  then have "unat (of_nat (16 * x + y) :: 8 word) = 16 * x + y" by (simp add: unat_of_nat del: of_nat_add of_nat_mult)
  then have "hexDigits 2 (unat (parseByte [a, b])) = [lowerChar a, lowerChar b]"
    using lt xy by (simp add: parseByte_two hexDigits_two digit_lower)
  with 1 show ?case by simp
qed auto

lemma offHex_back:
  assumes "offHexToBytes h = Inr bs"
  shows "offBytesToHex bs = toLowerCase h"
proof -
  from assms have h: "evenHex h" "bs = pairBytes (drop 2 h)" by (auto simp: offHexToBytes_Inr)
  then have "even (length (drop 2 h))" by (simp add: evenHex_def)
  with h have "offBytesToHex bs = ''0x'' @ map lowerChar (drop 2 h)"
    using pairBytes_back by (simp add: offBytesToHex_def evenHex_def)
  moreover have "map lowerChar (take 2 h) = ''0x''" using h(1) by (simp add: evenHex_def lowerChar_literals)
  ultimately have "offBytesToHex bs = map lowerChar (take 2 h @ drop 2 h)" by (simp only: map_append)
  then show ?thesis by (simp only: append_take_drop_id toLowerCase_def)
qed

lemma offHexToBytes_length: "offHexToBytes h = Inr bs \<Longrightarrow> length h = 2 + 2 * length bs"
  using offHex_back length_offHex length_toLowerCase by metis

lemma equalBytes_eq: "equalBytes a b \<longleftrightarrow> a = b"
proof -
  have or0: "foldl (\<lambda>d i. d OR f i) z is = 0 \<longleftrightarrow> z = (0 :: 8 word) \<and> (\<forall>i \<in> set is. f i = 0)" for f z "is"
    by (induction "is" arbitrary: z) (auto simp: or_eq_0_iff)
  have xor0: "x XOR y = 0 \<longleftrightarrow> x = y" for x y :: "8 word"
  proof
    assume "x XOR y = 0"
    then have "(x XOR y) XOR y = y" by simp
    then show "x = y" by (simp only: xor.assoc xor_self_eq xor.right_neutral)
  qed simp
  show ?thesis
  proof (cases "length a = length b")
    case True
    then have "a = b \<longleftrightarrow> (\<forall>i < length a. a ! i = b ! i)" by (simp only: list_eq_iff_nth_eq simp_thms)
    with True show ?thesis unfolding equalBytes_def or0 xor0 by (simp add: Ball_def)
  qed (auto simp: equalBytes_def)
qed

text \<open>Big-endian: the value of the bytes, and \<open>uintBe\<close> as its inverse at a width.\<close>

definition bytesVal :: "bytes \<Rightarrow> int" where
  "bytesVal bs = foldl (\<lambda>v b. 256 * v + uint b) 0 bs"

lemma bytesVal_snoc: "bytesVal (bs @ [b]) = 256 * bytesVal bs + uint b"
  by (simp add: bytesVal_def)

lemma uintLoop_spec:
  assumes "0 \<le> v" and "uintLoop w v out = (bs, r)"
  shows "\<exists>pre. bs = pre @ out \<and> length pre = w \<and> v = r * 256 ^ w + bytesVal pre \<and> 0 \<le> r"
  using assms
proof (induction w arbitrary: v out)
  case 0
  then show ?case by (simp add: bytesVal_def)
next
  case (Suc w)
  let ?b = "of_int (v AND 0xff) :: 8 word"
  have step: "uintLoop w (drop_bit 8 v) (?b # out) = (bs, r)" using Suc.prems(2) by simp
  have "0 \<le> drop_bit 8 v" using Suc.prems(1) by simp
  from Suc.IH [OF this step] obtain pre where pre: "bs = pre @ ?b # out" "length pre = w"
    "drop_bit 8 v = r * 256 ^ w + bytesVal pre" "0 \<le> r" by auto
  have m: "(0xff :: int) = mask 8" by (simp add: mask_eq_exp_minus_1)
  have "v AND 0xff = v mod 256" unfolding m take_bit_eq_mask [symmetric] by (simp add: take_bit_eq_mod)
  then have "uint ?b = v mod 256" by (simp add: unsigned_of_int take_bit_eq_mod)
  moreover have "v = 256 * drop_bit 8 v + v mod 256" by (simp add: drop_bit_eq_div)
  moreover have "bytesVal (pre @ [?b]) = 256 * bytesVal pre + uint ?b" by (rule bytesVal_snoc)
  ultimately have "v = r * 256 ^ Suc w + bytesVal (pre @ [?b])" using pre(3) by (simp add: algebra_simps)
  with pre show ?case by (intro exI [of _ "pre @ [?b]"]) simp
qed

lemma bytesVal_bounds: "0 \<le> bytesVal bs" "bytesVal bs < 256 ^ length bs"
proof -
  have "0 \<le> bytesVal bs \<and> bytesVal bs < 256 ^ length bs"
  proof (induction bs rule: rev_induct)
    case (snoc b bs)
    then show ?case using uint_lt2p [of b] by (auto simp: bytesVal_snoc)
  qed (simp add: bytesVal_def)
  then show "0 \<le> bytesVal bs" "bytesVal bs < 256 ^ length bs" by auto
qed

lemma uintBe_Inr: "uintBe v w = Inr bs \<Longrightarrow> length bs = w \<and> bytesVal bs = v"
proof -
  assume u: "uintBe v w = Inr bs"
  obtain out r where l: "uintLoop w v [] = (out, r)" by fastforce
  from u l have "0 \<le> v" "r = 0" "bs = out" by (auto simp: uintBe_def split: if_splits)
  with uintLoop_spec [OF _ l] show ?thesis by auto
qed

lemma uintBe_total: "0 \<le> v \<Longrightarrow> v < 256 ^ w \<Longrightarrow> \<exists>bs. uintBe v w = Inr bs"
proof -
  assume v: "0 \<le> v" "v < 256 ^ w"
  obtain out r where l: "uintLoop w v [] = (out, r)" by fastforce
  from uintLoop_spec [OF v(1) l] have r: "v = r * 256 ^ w + bytesVal out" "0 \<le> r" by auto
  have "r = 0"
  proof (rule ccontr)
    assume "r \<noteq> 0"
    with r(2) have "256 ^ w \<le> r * (256 ^ w :: int)" by simp
    with r(1) v(2) bytesVal_bounds(1) [of out] show False by linarith
  qed
  with v l show ?thesis by (simp add: uintBe_def)
qed

end
