(* ===== verification/OffchainCodec.thy ===== *)
theory OffchainCodec
  imports OffchainBytes
begin

text \<open>
  The payload codec, eas-offchain-client/src/codec.ts and types.ts: the validation of an attestation and of a
  log, the encoder, and the decoder with its cursor.
\<close>

section \<open>Types\<close>

record EasDomain =
  edAddress :: hex
  edVersion :: string
  edChainId :: int

record LogEntry =
  leKind :: int
  leUid :: hex

record CanonicalAttestation =
  caVersion :: int
  caSchema :: hex
  caRecipient :: hex
  caTime :: int
  caExpirationTime :: int
  caRevocable :: bool
  caRefUID :: hex
  caData :: hex
  caSalt :: hex
  caSignature :: hex
  caUid :: hex

record PayloadV1 =
  plOwner :: hex
  plEntries :: "LogEntry list"
  plAttestations :: "CanonicalAttestation list"

record LiveNodeHead =
  lhCount :: int
  lhHead :: hex
  lhDataCommitment :: hex

record AnchorMessage =
  amNodeId :: hex
  amEnvelopeKind :: int
  amSchemaUid :: hex
  amPreviousHead :: hex
  amHead :: hex
  amCount :: int
  amDataCommitment :: hex

section \<open>The attestation package\<close>

text \<open>
  What the code calls of \<open>eas-sdk\<close> and of \<open>viem\<close>'s addresses: \<open>getAddress\<close>, the identifier of an offchain
  attestation, the check of its typed signature given as \<open>r\<close>, \<open>s\<close>, \<open>v\<close>, the recovery of the signer of a head,
  and the wallet's signature of one.
\<close>

record eas_kit =
  getAddress :: "hex \<Rightarrow> hex result"
  offchainUid :: "CanonicalAttestation \<Rightarrow> hex result"
  verifyTypedSignature :: "hex \<Rightarrow> CanonicalAttestation \<Rightarrow> EasDomain \<Rightarrow> hex \<times> hex \<times> int \<Rightarrow> bool result"
  recoverTypedHead :: "AnchorMessage \<Rightarrow> hex \<Rightarrow> int \<Rightarrow> hex \<Rightarrow> hex result"

section \<open>Constants\<close>

definition PAYLOAD_MAGIC :: bytes where
  "PAYLOAD_MAGIC = map of_char ''TGEAS0PL''"

definition PAYLOAD_VERSION :: int where "PAYLOAD_VERSION = 1"
definition MAX_PAYLOAD_BYTES :: nat where "MAX_PAYLOAD_BYTES = 1048576"
definition MAX_ENTRIES_PER_NODE :: nat where "MAX_ENTRIES_PER_NODE = 2048"
definition MAX_COMMENT_BYTES :: int where "MAX_COMMENT_BYTES = 4096"
definition MIN_DATA_BYTES :: nat where "MIN_DATA_BYTES = 96"
definition MAX_DATA_BYTES :: nat where "MAX_DATA_BYTES = 4192"
definition E0_ENTRY_WORK_UNITS :: int where "E0_ENTRY_WORK_UNITS = 4"

definition SECP256K1_HALF_N :: int where
  "SECP256K1_HALF_N = 0x7fffffffffffffffffffffffffffffff5d576e7357a4501ddfe92f46681b20a0"

definition SECP256K1_N :: int where
  "SECP256K1_N = 0xfffffffffffffffffffffffffffffffebaaedce6af48a03bbfd25e8cd0364141"

section \<open>The decoder\<close>

record Decoder =
  dcBytes :: bytes
  dcOffset :: nat

definition decTake :: "nat \<Rightarrow> Decoder \<Rightarrow> (bytes \<times> Decoder) result" where
  "decTake n d =
     (if dcOffset d + n > length (dcBytes d) then failE0 ''E0_TRUNCATED'' ''payload is truncated''
      else Inr (take n (drop (dcOffset d) (dcBytes d)), d\<lparr>dcOffset := dcOffset d + n\<rparr>))"

definition decUint :: "nat \<Rightarrow> Decoder \<Rightarrow> (int \<times> Decoder) result" where
  "decUint width d = bindE (decTake width d) (\<lambda>(bs, d'). Inr (foldl (\<lambda>v b. push_bit 8 v OR uint b) 0 bs, d'))"

definition decHex :: "nat \<Rightarrow> Decoder \<Rightarrow> (hex \<times> Decoder) result" where
  "decHex n d = bindE (decTake n d) (\<lambda>(bs, d'). Inr (offBytesToHex bs, d'))"

section \<open>Checks of the fields\<close>

definition expectLength :: "hex \<Rightarrow> nat \<Rightarrow> string \<Rightarrow> unit result" where
  "expectLength value n label =
     bindE (offHexToBytes value) (\<lambda>bs.
     requireE0 (length bs = n) ''E0_CANONICAL'' (label @ '' must be '' @ natDigits n @ '' bytes''))"

text \<open>\<open>BigInt\<close> of the hex form of a slice is the value of its bytes.\<close>

definition assertCanonicalSignature :: "hex \<Rightarrow> unit result" where
  "assertCanonicalSignature signature =
     bindE (offHexToBytes signature) (\<lambda>value.
     bindE (requireE0 (length value = 65 \<and> (value ! 64 = 27 \<or> value ! 64 = 28)) ''E0_SIGNATURE_FORM''
       ''signature must be r,s,v with v 27 or 28'') (\<lambda>_.
     let r = bytesVal (take 32 value); s = bytesVal (take 32 (drop 32 value)) in
     requireE0 (\<not> (r = 0 \<or> r \<ge> SECP256K1_N \<or> s = 0 \<or> s > SECP256K1_HALF_N)) ''E0_SIGNATURE_FORM''
       ''signature must use canonical low-s form''))"

text \<open>A length above the limit is refused whether or not the number holds it exactly.\<close>

definition assertCanonicalProfileData :: "hex \<Rightarrow> unit result" where
  "assertCanonicalProfileData dat =
     bindE (offHexToBytes dat) (\<lambda>value.
     bindE (requireE0 (length value \<ge> MIN_DATA_BYTES \<and> length value \<le> MAX_DATA_BYTES) ''E0_DATA_LIMIT''
       ''profile data is outside the bounded size'') (\<lambda>_.
     bindE (requireE0 (length value mod 32 = 0) ''E0_DATA_ABI'' ''profile data length is not ABI aligned'') (\<lambda>_.
     bindE (requireE0 (list_all (\<lambda>b. b = 0) (take 31 value) \<and> value ! 31 = 64) ''E0_DATA_ABI''
       ''profile data has a non-canonical string offset'') (\<lambda>_.
     let commentLength = bytesVal (take 32 (drop 64 value)) in
     bindE (requireE0 (commentLength \<le> MAX_COMMENT_BYTES) ''E0_DATA_LIMIT'' ''profile comment exceeds 4096 bytes'') (\<lambda>_.
     let n = nat commentLength; expectedLength = MIN_DATA_BYTES + (n + 31) div 32 * 32 in
     bindE (requireE0 (length value = expectedLength) ''E0_DATA_ABI''
       ''profile data has a non-canonical dynamic length'') (\<lambda>_.
     requireE0 (list_all (\<lambda>b. b = 0) (drop (MIN_DATA_BYTES + n) value)) ''E0_DATA_ABI''
       ''profile data has nonzero ABI padding''))))))"

text \<open>\<open>attestationUid\<close> reads every field but the signature and the identifier itself.\<close>

definition attestationUid :: "eas_kit \<Rightarrow> CanonicalAttestation \<Rightarrow> hex result" where
  "attestationUid E a = offchainUid E (a\<lparr>caSignature := [], caUid := []\<rparr>)"

definition validateAttestation :: "eas_kit \<Rightarrow> CanonicalAttestation \<Rightarrow> hex \<Rightarrow> unit result" where
  "validateAttestation E a expectedSchema =
     bindE (requireE0 (caVersion a = 2) ''E0_PROFILE_VERSION'' ''only EAS offchain v2 is accepted'') (\<lambda>_.
     bindE (requireE0 (toLowerCase (caSchema a) = toLowerCase expectedSchema) ''E0_SCHEMA''
       ''attestation schema does not match the lane'') (\<lambda>_.
     bindE (getAddress E (caRecipient a)) (\<lambda>recipient.
     bindE (requireE0 (recipient \<noteq> ZERO_ADDRESS) ''E0_RECIPIENT'' ''recipient must be nonzero'') (\<lambda>_.
     bindE (requireE0 (caExpirationTime a = 0) ''E0_EXPIRATION'' ''expirationTime must be zero'') (\<lambda>_.
     bindE (requireE0 (caRevocable a) ''E0_REVOCABLE'' ''attestation must be revocable'') (\<lambda>_.
     bindE (requireE0 (caRefUID a = ZERO32) ''E0_REF_UID'' ''refUID must be zero'') (\<lambda>_.
     bindE (requireE0 (caSalt a \<noteq> ZERO32) ''E0_ZERO_SALT'' ''salt must be nonzero'') (\<lambda>_.
     bindE (expectLength (caSchema a) 32 ''schema'') (\<lambda>_.
     bindE (expectLength (caSalt a) 32 ''salt'') (\<lambda>_.
     bindE (assertCanonicalProfileData (caData a)) (\<lambda>_.
     bindE (assertCanonicalSignature (caSignature a)) (\<lambda>_.
     bindE (attestationUid E a) (\<lambda>uid.
     requireE0 (uid = caUid a) ''E0_UID'' ''attestation UID does not match its signed fields'')))))))))))))"

section \<open>Validation of a payload\<close>

text \<open>The variables of the loop: the identifiers attested, those not revoked, and the next attestation.\<close>

record LogState =
  lsSeen :: "hex list"
  lsLive :: "hex list"
  lsIndex :: nat

definition logStep :: "eas_kit \<Rightarrow> CanonicalAttestation list \<Rightarrow> hex \<Rightarrow> LogState \<Rightarrow> LogEntry \<Rightarrow> LogState result" where
  "logStep E attestations expectedSchema st entry =
     bindE (expectLength (leUid entry) 32 ''entry UID'') (\<lambda>_.
     if leKind entry = 0 then
       bindE (if lsIndex st < length attestations then Inr (attestations ! lsIndex st)
              else failE0 ''E0_COUNT_MISMATCH'' ''attest entry has no attestation body'') (\<lambda>attestation.
       bindE (validateAttestation E attestation expectedSchema) (\<lambda>_.
       bindE (requireE0 (leUid entry \<notin> set (lsSeen st)) ''E0_DUPLICATE_ATTEST'' ''attestation UID is duplicated'') (\<lambda>_.
       bindE (requireE0 (leUid entry = caUid attestation) ''E0_UID'' ''entry UID does not match attestation body'') (\<lambda>_.
       Inr \<lparr>lsSeen = setAdd (leUid entry) (lsSeen st), lsLive = setAdd (leUid entry) (lsLive st),
         lsIndex = lsIndex st + 1\<rparr>))))
     else if leKind entry = 1 then
       bindE (requireE0 (leUid entry \<in> set (lsSeen st)) ''E0_REVOKE_BEFORE_ATTEST'' ''revocation precedes attestation'') (\<lambda>_.
       bindE (requireE0 (leUid entry \<in> set (lsLive st)) ''E0_ALREADY_REVOKED'' ''attestation is already revoked'') (\<lambda>_.
       Inr (st\<lparr>lsLive := removeAll (leUid entry) (lsLive st)\<rparr>)))
     else failE0 ''E0_LOG_KIND'' ''unsupported log entry kind'')"

definition validatePayload :: "eas_kit \<Rightarrow> PayloadV1 \<Rightarrow> hex \<Rightarrow> unit result" where
  "validatePayload E payload expectedSchema =
     bindE (requireE0 (plEntries payload \<noteq> [] \<and> length (plEntries payload) \<le> MAX_ENTRIES_PER_NODE) ''E0_ENTRY_LIMIT''
       ''entry count is outside the strict lane bound'') (\<lambda>_.
     bindE (requireE0 (length (plAttestations payload) \<le> length (plEntries payload)) ''E0_COUNT_MISMATCH''
       ''more attestations than log entries'') (\<lambda>_.
     bindE (foldE (logStep E (plAttestations payload) expectedSchema) \<lparr>lsSeen = [], lsLive = [], lsIndex = 0\<rparr>
       (plEntries payload)) (\<lambda>st.
     requireE0 (lsIndex st = length (plAttestations payload)) ''E0_COUNT_MISMATCH''
       ''attestation body count does not match attest entries'')))"

definition assertNoFutureAttestations :: "CanonicalAttestation list \<Rightarrow> int \<Rightarrow> unit result" where
  "assertNoFutureAttestations attestations maximumTimestamp =
     foldE (\<lambda>_ a. requireE0 (caTime a \<le> maximumTimestamp) ''E0_FUTURE_TIME''
       ''attestation time is after the committing chain timestamp'') () attestations"

section \<open>Encoding\<close>

definition entryChunk :: "LogEntry \<Rightarrow> bytes result" where
  "entryChunk entry = bindE (uintBe (leKind entry) 1) (\<lambda>k. bindE (offHexToBytes (leUid entry)) (\<lambda>u. Inr (k @ u)))"

definition attestationChunk :: "CanonicalAttestation \<Rightarrow> bytes result" where
  "attestationChunk a =
     bindE (offHexToBytes (caData a)) (\<lambda>dat.
     bindE (uintBe (caVersion a) 2) (\<lambda>version.
     bindE (offHexToBytes (caSchema a)) (\<lambda>schema.
     bindE (offHexToBytes (caRecipient a)) (\<lambda>recipient.
     bindE (uintBe (caTime a) 8) (\<lambda>time.
     bindE (uintBe (caExpirationTime a) 8) (\<lambda>expiration.
     bindE (uintBe 1 1) (\<lambda>revocable.
     bindE (offHexToBytes (caRefUID a)) (\<lambda>ref.
     bindE (uintBe (int (length dat)) 4) (\<lambda>len.
     bindE (offHexToBytes (caSalt a)) (\<lambda>salt.
     bindE (offHexToBytes (caSignature a)) (\<lambda>signature.
     Inr (concatBytes [version, schema, recipient, time, expiration, revocable, ref, len, dat, salt, signature]))))))))))))"

definition encodePayload :: "eas_kit \<Rightarrow> PayloadV1 \<Rightarrow> bytes result" where
  "encodePayload E payload =
     bindE (case plAttestations payload of a # _ \<Rightarrow> Inr (caSchema a)
            | [] \<Rightarrow> failE0 ''E0_COUNT_MISMATCH'' ''payload requires an attestation body'') (\<lambda>expectedSchema.
     bindE (validatePayload E payload expectedSchema) (\<lambda>_.
     bindE (uintBe PAYLOAD_VERSION 2) (\<lambda>version.
     bindE (offHexToBytes (plOwner payload)) (\<lambda>owner.
     bindE (uintBe (int (length (plEntries payload))) 4) (\<lambda>entryCount.
     bindE (uintBe (int (length (plAttestations payload))) 4) (\<lambda>attestationCount.
     bindE (mapE entryChunk (plEntries payload)) (\<lambda>entries.
     bindE (mapE attestationChunk (plAttestations payload)) (\<lambda>attestations.
     let encoded = concatBytes ([PAYLOAD_MAGIC, version, owner, entryCount, attestationCount] @ entries @ attestations) in
     bindE (requireE0 (length encoded \<le> MAX_PAYLOAD_BYTES) ''E0_PAYLOAD_LIMIT'' ''payload exceeds 1 MiB'') (\<lambda>_.
     Inr encoded)))))))))"

section \<open>Decoding\<close>

definition decEntry :: "Decoder \<Rightarrow> (LogEntry \<times> Decoder) result" where
  "decEntry d =
     bindE (decUint 1 d) (\<lambda>(kind, d).
     bindE (requireE0 (kind = 0 \<or> kind = 1) ''E0_LOG_KIND'' ''unsupported log entry kind'') (\<lambda>_.
     bindE (decHex 32 d) (\<lambda>(uid, d). Inr (\<lparr>leKind = kind, leUid = uid\<rparr>, d))))"

definition decAttestation :: "eas_kit \<Rightarrow> Decoder \<Rightarrow> (CanonicalAttestation \<times> Decoder) result" where
  "decAttestation E d =
     bindE (decUint 2 d) (\<lambda>(version, d).
     bindE (requireE0 (version = 2) ''E0_PROFILE_VERSION'' ''only EAS offchain v2 is accepted'') (\<lambda>_.
     bindE (decHex 32 d) (\<lambda>(schema, d).
     bindE (decHex 20 d) (\<lambda>(recipient0, d).
     bindE (getAddress E recipient0) (\<lambda>recipient.
     bindE (decUint 8 d) (\<lambda>(time, d).
     bindE (decUint 8 d) (\<lambda>(expirationTime, d).
     bindE (decUint 1 d) (\<lambda>(revocable, d).
     bindE (decHex 32 d) (\<lambda>(refUID, d).
     bindE (decUint 4 d) (\<lambda>(dataLength, d).
     bindE (requireE0 (int MIN_DATA_BYTES \<le> dataLength \<and> dataLength \<le> int MAX_DATA_BYTES) ''E0_DATA_LIMIT''
       ''profile data is outside the bounded size'') (\<lambda>_.
     bindE (decHex (nat dataLength) d) (\<lambda>(dat, d).
     bindE (decHex 32 d) (\<lambda>(salt, d).
     bindE (decHex 65 d) (\<lambda>(signature, d).
     let partial = \<lparr>caVersion = 2, caSchema = schema, caRecipient = recipient, caTime = time,
       caExpirationTime = expirationTime, caRevocable = (revocable = 1), caRefUID = refUID, caData = dat,
       caSalt = salt, caSignature = signature, caUid = []\<rparr> in
     bindE (attestationUid E partial) (\<lambda>uid. Inr (partial\<lparr>caUid := uid\<rparr>, d))))))))))))))))"

fun decMany :: "(Decoder \<Rightarrow> ('a \<times> Decoder) result) \<Rightarrow> nat \<Rightarrow> Decoder \<Rightarrow> ('a list \<times> Decoder) result" where
  "decMany item 0 d = Inr ([], d)"
| "decMany item (Suc n) d =
     bindE (item d) (\<lambda>(x, d). bindE (decMany item n d) (\<lambda>(xs, d). Inr (x # xs, d)))"

definition decodePayload :: "eas_kit \<Rightarrow> bytes \<Rightarrow> hex \<Rightarrow> PayloadV1 result" where
  "decodePayload E bs expectedSchema =
     bindE (requireE0 (length bs \<le> MAX_PAYLOAD_BYTES) ''E0_PAYLOAD_LIMIT'' ''payload exceeds 1 MiB'') (\<lambda>_.
     bindE (decTake (length PAYLOAD_MAGIC) \<lparr>dcBytes = bs, dcOffset = 0\<rparr>) (\<lambda>(magic, d).
     bindE (requireE0 (equalBytes magic PAYLOAD_MAGIC) ''E0_MAGIC'' ''payload magic mismatch'') (\<lambda>_.
     bindE (decUint 2 d) (\<lambda>(version, d).
     bindE (requireE0 (version = PAYLOAD_VERSION) ''E0_PAYLOAD_VERSION'' ''payload version mismatch'') (\<lambda>_.
     bindE (decHex 20 d) (\<lambda>(owner0, d).
     bindE (getAddress E owner0) (\<lambda>owner.
     bindE (decUint 4 d) (\<lambda>(entryCount, d).
     bindE (decUint 4 d) (\<lambda>(attestationCount, d).
     bindE (requireE0 (\<not> (entryCount = 0 \<or> entryCount > int MAX_ENTRIES_PER_NODE)) ''E0_ENTRY_LIMIT''
       ''entry count is outside the strict lane bound'') (\<lambda>_.
     bindE (requireE0 (attestationCount \<le> entryCount) ''E0_COUNT_MISMATCH'' ''more attestations than log entries'') (\<lambda>_.
     bindE (decMany decEntry (nat entryCount) d) (\<lambda>(entries, d).
     bindE (decMany (decAttestation E) (nat attestationCount) d) (\<lambda>(attestations, d).
     bindE (requireE0 (dcOffset d = length bs) ''E0_TRAILING_BYTES'' ''payload has trailing bytes'') (\<lambda>_.
     let payload = \<lparr>plOwner = owner, plEntries = entries, plAttestations = attestations\<rparr> in
     bindE (validatePayload E payload expectedSchema) (\<lambda>_.
     bindE (encodePayload E payload) (\<lambda>encoded.
     bindE (requireE0 (equalBytes encoded bs) ''E0_CANONICAL'' ''payload encoding is not canonical'') (\<lambda>_.
     Inr payload)))))))))))))))))"

end
