(* ===== verification/OffchainLog.thy ===== *)
theory OffchainLog
  imports OffchainCodec
begin

text \<open>
  The specification of a log of attestations and revocations; the validation of a payload decides it.
\<close>

section \<open>Well-formed logs\<close>

definition attested :: "LogEntry list \<Rightarrow> hex list" where
  "attested es = map leUid (filter (\<lambda>e. leKind e = 0) es)"

definition revoked :: "LogEntry list \<Rightarrow> hex list" where
  "revoked es = map leUid (filter (\<lambda>e. leKind e = 1) es)"

text \<open>
  The specification of a log: every entry is an attestation of a fresh identifier, or a revocation of one that
  is attested before it and not revoked yet.
\<close>

definition entryOk :: "LogEntry list \<Rightarrow> LogEntry \<Rightarrow> bool" where
  "entryOk before e \<longleftrightarrow> leKind e = 0 \<and> leUid e \<notin> set (attested before) \<or>
     leKind e = 1 \<and> leUid e \<in> set (attested before) \<and> leUid e \<notin> set (revoked before)"

definition logOk :: "LogEntry list \<Rightarrow> bool" where
  "logOk es \<longleftrightarrow> (\<forall>i < length es. entryOk (take i es) (es ! i))"

lemma log_Nil [simp]: "attested [] = []" "revoked [] = []" "logOk []"
  by (simp_all add: attested_def revoked_def logOk_def)

lemma log_append [simp]: "attested (es @ fs) = attested es @ attested fs" "revoked (es @ fs) = revoked es @ revoked fs"
  by (simp_all add: attested_def revoked_def)

lemma log_single: "attested [e] = (if leKind e = 0 then [leUid e] else [])" "revoked [e] = (if leKind e = 1 then [leUid e] else [])"
  by (simp_all add: attested_def revoked_def)

lemma logOk_snoc: "logOk (es @ [e]) \<longleftrightarrow> logOk es \<and> entryOk es e"
  by (auto simp: logOk_def nth_append less_Suc_eq)

lemma logOk_sets: "logOk es \<Longrightarrow> distinct (attested es) \<and> distinct (revoked es) \<and> set (revoked es) \<subseteq> set (attested es)"
  by (induction es rule: rev_induct) (auto simp: logOk_snoc entryOk_def log_single)

section \<open>Validation refines the specification\<close>

definition hexOf :: "nat \<Rightarrow> hex \<Rightarrow> bool" where
  "hexOf n h \<longleftrightarrow> evenHex h \<and> length h = 2 + 2 * n"

lemma expectLength_Inr: "expectLength h n label = Inr u \<longleftrightarrow> hexOf n h"
proof (cases "evenHex h")
  case True
  then obtain bs where b: "offHexToBytes h = Inr bs" by (simp add: offHexToBytes_pairs)
  with True offHexToBytes_length [OF b] show ?thesis by (auto simp: expectLength_def hexOf_def)
qed (simp add: expectLength_def hexOf_def offHexToBytes_def failE0_def)

definition logStart :: LogState where
  "logStart = \<lparr>lsSeen = [], lsLive = [], lsIndex = 0\<rparr>"

definition logStateOf :: "LogEntry list \<Rightarrow> LogState" where
  "logStateOf es = \<lparr>lsSeen = attested es, lsLive = filter (\<lambda>u. u \<notin> set (revoked es)) (attested es),
     lsIndex = length (attested es)\<rparr>"

definition bodiesOk :: "eas_kit \<Rightarrow> CanonicalAttestation list \<Rightarrow> hex \<Rightarrow> LogEntry list \<Rightarrow> bool" where
  "bodiesOk E atts schema es \<longleftrightarrow> (\<forall>e \<in> set es. hexOf 32 (leUid e)) \<and> length (attested es) \<le> length atts \<and>
     attested es = map caUid (take (length (attested es)) atts) \<and>
     (\<forall>a \<in> set (take (length (attested es)) atts). validateAttestation E a schema = Inr ())"

lemma bodiesOk_attest:
  assumes "leKind e = 0"
  shows "bodiesOk E atts schema (es @ [e]) \<longleftrightarrow> bodiesOk E atts schema es \<and> hexOf 32 (leUid e) \<and>
    length (attested es) < length atts \<and> leUid e = caUid (atts ! length (attested es)) \<and>
    validateAttestation E (atts ! length (attested es)) schema = Inr ()"
  using assms by (auto simp: bodiesOk_def log_single take_Suc_conv_app_nth Suc_le_eq)

lemma bodiesOk_revoke:
  assumes "leKind e \<noteq> 0"
  shows "bodiesOk E atts schema (es @ [e]) \<longleftrightarrow> bodiesOk E atts schema es \<and> hexOf 32 (leUid e)"
  using assms by (auto simp: bodiesOk_def log_single)

lemma logStep_attest:
  assumes "leKind e = 0" and "logOk es"
  shows "logStep E atts schema (logStateOf es) e = Inr st \<longleftrightarrow> hexOf 32 (leUid e) \<and> entryOk es e \<and>
    length (attested es) < length atts \<and> leUid e = caUid (atts ! length (attested es)) \<and>
    validateAttestation E (atts ! length (attested es)) schema = Inr () \<and> st = logStateOf (es @ [e])"
proof -
  have "leUid e \<notin> set (attested es) \<Longrightarrow> leUid e \<notin> set (revoked es)" using logOk_sets [OF assms(2)] by blast
  then show ?thesis
    using assms(1) by (auto simp: logStep_def result_simps expectLength_Inr entryOk_def logStateOf_def log_single
        setAdd_def split: if_splits)
qed

lemma logStep_revoke:
  assumes "leKind e \<noteq> 0"
  shows "logStep E atts schema (logStateOf es) e = Inr st \<longleftrightarrow> hexOf 32 (leUid e) \<and> entryOk es e \<and>
    st = logStateOf (es @ [e])"
proof -
  have "removeAll x (filter (\<lambda>u. u \<notin> R) xs) = filter (\<lambda>u. u \<notin> R \<and> u \<noteq> x) xs" for x and R :: "hex set" and xs
    by (induction xs) auto
  then show ?thesis
    using assms by (auto simp: logStep_def result_simps expectLength_Inr entryOk_def logStateOf_def log_single
        failE0_def)
qed

lemma log_fold:
  "foldE (logStep E atts schema) logStart es = Inr st \<longleftrightarrow>
     logOk es \<and> bodiesOk E atts schema es \<and> st = logStateOf es"
proof (induction es arbitrary: st rule: rev_induct)
  case Nil
  then show ?case by (auto simp: logStart_def logStateOf_def bodiesOk_def)
next
  case (snoc e es)
  have "foldE (logStep E atts schema) logStart (es @ [e]) = Inr st \<longleftrightarrow>
      logOk es \<and> bodiesOk E atts schema es \<and> logStep E atts schema (logStateOf es) e = Inr st"
    by (simp add: foldE_append bindE_Inr_conv snoc.IH)
  then show ?case
    using logStep_attest [of e es E atts schema st] logStep_revoke [of e E atts schema es st]
      bodiesOk_attest [of e E atts schema es] bodiesOk_revoke [of e E atts schema es] logOk_snoc [of es e]
    by (cases "leKind e = 0") blast+
qed

definition payloadOk :: "eas_kit \<Rightarrow> PayloadV1 \<Rightarrow> hex \<Rightarrow> bool" where
  "payloadOk E p schema \<longleftrightarrow> plEntries p \<noteq> [] \<and> length (plEntries p) \<le> MAX_ENTRIES_PER_NODE \<and>
     (\<forall>e \<in> set (plEntries p). hexOf 32 (leUid e)) \<and> logOk (plEntries p) \<and>
     attested (plEntries p) = map caUid (plAttestations p) \<and>
     (\<forall>a \<in> set (plAttestations p). validateAttestation E a schema = Inr ())"

lemma validatePayload_spec: "validatePayload E p schema = Inr () \<longleftrightarrow> payloadOk E p schema"
proof -
  have short: "length (attested (plEntries p)) \<le> length (plEntries p)" by (simp add: attested_def)
  have "validatePayload E p schema = Inr () \<longleftrightarrow> plEntries p \<noteq> [] \<and> length (plEntries p) \<le> MAX_ENTRIES_PER_NODE \<and>
      length (plAttestations p) \<le> length (plEntries p) \<and>
      logOk (plEntries p) \<and> bodiesOk E (plAttestations p) schema (plEntries p) \<and>
      length (attested (plEntries p)) = length (plAttestations p)"
    unfolding validatePayload_def logStart_def [symmetric]
    by (auto simp: result_simps log_fold logStateOf_def)
  also have "\<dots> \<longleftrightarrow> payloadOk E p schema"
    using short by (auto simp: payloadOk_def bodiesOk_def dest: arg_cong [of _ _ length])
  finally show ?thesis .
qed

end
