(* ===== verification/OffchainReading.thy ===== *)
theory OffchainReading
  imports OffchainLog
begin

text \<open>
  The decoder gives back what the encoder wrote: the interface of a writer and a reader of one item, and its
  two instances.
  The decoder accepts exactly the encodings of plain payloads.
\<close>

section \<open>Reading back what was written\<close>

text \<open>\<open>ahead d xs\<close>: the bytes of the decoder from its offset on.\<close>

definition ahead :: "Decoder \<Rightarrow> bytes \<Rightarrow> bool" where
  "ahead d xs \<longleftrightarrow> dcOffset d \<le> length (dcBytes d) \<and> drop (dcOffset d) (dcBytes d) = xs"

definition skipTo :: "nat \<Rightarrow> Decoder \<Rightarrow> Decoder" where
  "skipTo n d = d\<lparr>dcOffset := dcOffset d + n\<rparr>"

lemma skipTo_bytes [simp]: "dcBytes (skipTo n d) = dcBytes d"
  by (simp add: skipTo_def)

lemma ahead_skip: "ahead d (x @ r) \<Longrightarrow> length x = n \<Longrightarrow> ahead (skipTo n d) r"
  by (auto simp: ahead_def skipTo_def drop_drop [symmetric] add.commute) (metis diff_is_0_eq' drop_eq_Nil2 length_append length_drop le_add1 le_diff_conv2)

lemma decTake_ahead: "ahead d (x @ r) \<Longrightarrow> length x = n \<Longrightarrow> decTake n d = Inr (x, skipTo n d)"
  by (auto simp: decTake_def ahead_def skipTo_def dest: arg_cong [of _ _ length])

lemma ahead_end: "ahead d [] \<Longrightarrow> dcOffset d = length (dcBytes d)"
  by (simp add: ahead_def)

lemma shift_or: "0 \<le> v \<Longrightarrow> push_bit 8 v OR uint (b :: 8 word) = 256 * v + uint b"
proof -
  have "\<not> bit (push_bit 8 v) n \<or> \<not> bit (uint b) n" for n
    using bit_imp_le_length [of b n] by (auto simp: bit_push_bit_iff bit_uint_iff)
  then have "push_bit 8 v + uint b = push_bit 8 v OR uint b" by (intro disjunctive_add) simp
  then show ?thesis by (simp add: push_bit_eq_mult)
qed

lemma fold_bytesVal: "foldl (\<lambda>v b. push_bit 8 v OR uint b) 0 bs = bytesVal bs"
proof (induction bs rule: rev_induct)
  case (snoc b bs)
  then show ?case using bytesVal_bounds(1) [of bs] by (simp add: bytesVal_snoc shift_or)
qed (simp add: bytesVal_def)

lemma decUint_ahead:
  assumes "ahead d (x @ r)" and "uintBe v w = Inr x"
  shows "decUint w d = Inr (v, skipTo w d)" and "ahead (skipTo w d) r"
  using uintBe_Inr [OF assms(2)] decTake_ahead [OF assms(1)] ahead_skip [OF assms(1)]
  by (auto simp: decUint_def fold_bytesVal)

lemma decHex_ahead:
  assumes "ahead d (x @ r)" and "offHexToBytes h = Inr x" and "hexOf n h"
  shows "decHex n d = Inr (toLowerCase h, skipTo n d)" and "ahead (skipTo n d) r"
proof -
  have "length x = n" using offHexToBytes_length [OF assms(2)] assms(3) by (simp add: hexOf_def)
  from decTake_ahead [OF assms(1) this] ahead_skip [OF assms(1) this] offHex_back [OF assms(2)]
  show "decHex n d = Inr (toLowerCase h, skipTo n d)" "ahead (skipTo n d) r" by (auto simp: decHex_def)
qed

section \<open>Items of the log\<close>

text \<open>
  A writer and a reader of one item: the reader gives back what the writer wrote and stops right after it.
  Lists of items follow.
\<close>

locale item_codec =
  fixes emit :: "'a \<Rightarrow> bytes result" and parse :: "Decoder \<Rightarrow> ('a \<times> Decoder) result" and ok :: "'a \<Rightarrow> bool"
  assumes reads: "ok x \<Longrightarrow> emit x = Inr c \<Longrightarrow> ahead d (c @ r) \<Longrightarrow>
    \<exists>d'. parse d = Inr (x, d') \<and> ahead d' r \<and> dcBytes d' = dcBytes d"
begin

lemma reads_many:
  assumes "\<forall>x \<in> set xs. ok x" and "mapE emit xs = Inr cs" and "ahead d (concat cs @ r)"
  shows "\<exists>d'. decMany parse (length xs) d = Inr (xs, d') \<and> ahead d' r \<and> dcBytes d' = dcBytes d"
  using assms
proof (induction xs arbitrary: cs d)
  case (Cons x xs)
  from Cons.prems(2) obtain c cs' where c: "emit x = Inr c" "mapE emit xs = Inr cs'" "cs = c # cs'" by auto
  with Cons.prems(3) have "ahead d (c @ concat cs' @ r)" by simp
  from reads [OF _ c(1) this] Cons.prems(1) obtain d1 where
    d1: "parse d = Inr (x, d1)" "ahead d1 (concat cs' @ r)" "dcBytes d1 = dcBytes d" by auto
  from Cons.IH [OF _ c(2) d1(2)] Cons.prems(1) obtain d2 where
    "decMany parse (length xs) d1 = Inr (xs, d2)" "ahead d2 r" "dcBytes d2 = dcBytes d1" by auto
  with d1 show ?case by simp
qed simp

end

definition plainEntry :: "LogEntry \<Rightarrow> bool" where
  "plainEntry e \<longleftrightarrow> (leKind e = 0 \<or> leKind e = 1) \<and> hexOf 32 (leUid e) \<and> canonical (leUid e)"

interpretation entries: item_codec entryChunk decEntry plainEntry
proof unfold_locales
  fix e c d r assume e: "plainEntry e" and c: "entryChunk e = Inr c" and d: "ahead d (c @ r)"
  from c obtain k u where k: "uintBe (leKind e) 1 = Inr k" and u: "offHexToBytes (leUid e) = Inr u" "c = k @ u"
    by (auto simp: entryChunk_def)
  from d u(2) have "ahead d (k @ u @ r)" by simp
  note 1 = decUint_ahead [OF this k]
  note 2 = decHex_ahead [OF 1(2) u(1)]
  from e 1 2 have "decEntry d = Inr (e, skipTo 32 (skipTo 1 d))"
    by (auto simp: decEntry_def plainEntry_def canonical_def)
  with 2(2) e show "\<exists>d'. decEntry d = Inr (e, d') \<and> ahead d' r \<and> dcBytes d' = dcBytes d"
    by (auto simp: plainEntry_def)
qed

text \<open>An address in the form \<open>getAddress\<close> returns.\<close>

definition checksummed :: "eas_kit \<Rightarrow> hex \<Rightarrow> bool" where
  "checksummed E a \<longleftrightarrow> hexOf 20 a \<and> getAddress E (toLowerCase a) = Inr a"

definition plainAttestation :: "eas_kit \<Rightarrow> hex \<Rightarrow> CanonicalAttestation \<Rightarrow> bool" where
  "plainAttestation E schema a \<longleftrightarrow> canonical (caSchema a) \<and> checksummed E (caRecipient a) \<and>
     canonical (caData a) \<and> canonical (caSalt a) \<and> canonical (caSignature a) \<and> validateAttestation E a schema = Inr ()"

lemma ZERO32_hex: "hexOf 32 ZERO32" "canonical ZERO32"
proof -
  have "list_all (\<lambda>c. hexValue c \<noteq> None) ''00''" by code_simp
  then show "hexOf 32 ZERO32" by (simp add: hexOf_def evenHex_def ZERO32_def length_concat list_all_iff sum_list_replicate)
  show "canonical ZERO32" by (simp add: canonical_def toLowerCase_def ZERO32_def map_concat lowerChar_literals)
qed

lemma profileData_length:
  "assertCanonicalProfileData h = Inr () \<Longrightarrow> offHexToBytes h = Inr bs \<Longrightarrow>
    MIN_DATA_BYTES \<le> length bs \<and> length bs \<le> MAX_DATA_BYTES"
  unfolding assertCanonicalProfileData_def by (elim bindE_InrE) (simp only: requireE0_Inr sum.inject)

lemma signature_length:
  assumes "assertCanonicalSignature h = Inr ()"
  shows "hexOf 65 h"
proof -
  from assms obtain bs where "offHexToBytes h = Inr bs" "length bs = 65"
    by (auto simp: assertCanonicalSignature_def result_simps Let_def)
  with offHexToBytes_length [of h bs] show ?thesis by (auto simp: hexOf_def offHexToBytes_Inr)
qed

lemma validateAttestation_fields:
  assumes "validateAttestation E a schema = Inr ()"
  shows "caVersion a = 2" and "toLowerCase (caSchema a) = toLowerCase schema" and "caExpirationTime a = 0"
    and "caRevocable a" and "caRefUID a = ZERO32" and "hexOf 32 (caSchema a)" and "hexOf 32 (caSalt a)"
    and "assertCanonicalProfileData (caData a) = Inr ()" and "assertCanonicalSignature (caSignature a) = Inr ()"
    and "attestationUid E a = Inr (caUid a)"
proof -
  have "caVersion a = 2 \<and> toLowerCase (caSchema a) = toLowerCase schema \<and> caExpirationTime a = 0 \<and> caRevocable a \<and>
    caRefUID a = ZERO32 \<and> hexOf 32 (caSchema a) \<and> hexOf 32 (caSalt a) \<and>
    assertCanonicalProfileData (caData a) = Inr () \<and> assertCanonicalSignature (caSignature a) = Inr () \<and>
    attestationUid E a = Inr (caUid a)"
    using assms unfolding validateAttestation_def by (elim bindE_InrE) (simp add: expectLength_Inr)
  then show "caVersion a = 2" "toLowerCase (caSchema a) = toLowerCase schema" "caExpirationTime a = 0" "caRevocable a"
    "caRefUID a = ZERO32" "hexOf 32 (caSchema a)" "hexOf 32 (caSalt a)"
    "assertCanonicalProfileData (caData a) = Inr ()" "assertCanonicalSignature (caSignature a) = Inr ()"
    "attestationUid E a = Inr (caUid a)" by simp_all
qed

lemma attestationUid_plain:
  "attestationUid E (a\<lparr>caUid := u\<rparr>) = attestationUid E a"
  by (simp add: attestationUid_def)

lemma attestationChunk_parts:
  assumes "attestationChunk a = Inr c"
  obtains dat version schema recipient time expiration revocable ref len salt signature where
    "offHexToBytes (caData a) = Inr dat" and "uintBe (caVersion a) 2 = Inr version"
    and "offHexToBytes (caSchema a) = Inr schema" and "offHexToBytes (caRecipient a) = Inr recipient"
    and "uintBe (caTime a) 8 = Inr time" and "uintBe (caExpirationTime a) 8 = Inr expiration"
    and "uintBe 1 1 = Inr revocable" and "offHexToBytes (caRefUID a) = Inr ref"
    and "uintBe (int (length dat)) 4 = Inr len" and "offHexToBytes (caSalt a) = Inr salt"
    and "offHexToBytes (caSignature a) = Inr signature"
    and "c = version @ schema @ recipient @ time @ expiration @ revocable @ ref @ len @ dat @ salt @ signature"
  using assms unfolding attestationChunk_def concatBytes_def by (elim bindE_InrE) simp

lemma decAttestation_reads:
  assumes p: "plainAttestation E schema a" and c: "attestationChunk a = Inr c" and d: "ahead d (c @ r)"
  shows "\<exists>d'. decAttestation E d = Inr (a, d') \<and> ahead d' r \<and> dcBytes d' = dcBytes d"
proof -
  have valid: "validateAttestation E a schema = Inr ()" using p by (simp add: plainAttestation_def)
  note f = validateAttestation_fields [OF valid]
  have plain: "canonical (caSchema a)" "checksummed E (caRecipient a)" "canonical (caData a)" "canonical (caSalt a)"
    "canonical (caSignature a)" using p by (auto simp: plainAttestation_def)
  from c obtain dat version schema recipient time expiration revocable ref len salt signature where
    w: "offHexToBytes (caData a) = Inr dat" "uintBe (caVersion a) 2 = Inr version"
      "offHexToBytes (caSchema a) = Inr schema" "offHexToBytes (caRecipient a) = Inr recipient"
      "uintBe (caTime a) 8 = Inr time" "uintBe (caExpirationTime a) 8 = Inr expiration"
      "uintBe 1 1 = Inr revocable" "offHexToBytes (caRefUID a) = Inr ref"
      "uintBe (int (length dat)) 4 = Inr len" "offHexToBytes (caSalt a) = Inr salt"
      "offHexToBytes (caSignature a) = Inr signature"
    and cc: "c = version @ schema @ recipient @ time @ expiration @ revocable @ ref @ len @ dat @ salt @ signature"
    by (elim attestationChunk_parts)
  have lens: "hexOf 20 (caRecipient a)" "hexOf (length dat) (caData a)"
    using plain(2) w(1) offHexToBytes_length [OF w(1)] by (auto simp: checksummed_def hexOf_def offHexToBytes_Inr)
  have ref: "hexOf 32 (caRefUID a)" "canonical (caRefUID a)" using f(5) ZERO32_hex by simp_all
  from d have "ahead d (version @ schema @ recipient @ time @ expiration @ revocable @ ref @ len @ dat @ salt @ signature @ r)"
    by (simp add: cc)
  note s1 = decUint_ahead [OF this w(2)]
  note s2 = decHex_ahead [OF s1(2) w(3) f(6)]
  note s3 = decHex_ahead [OF s2(2) w(4) lens(1)]
  note s4 = decUint_ahead [OF s3(2) w(5)]
  note s5 = decUint_ahead [OF s4(2) w(6)]
  note s6 = decUint_ahead [OF s5(2) w(7)]
  note s7 = decHex_ahead [OF s6(2) w(8) ref(1)]
  note s8 = decUint_ahead [OF s7(2) w(9)]
  note s9 = decHex_ahead [OF s8(2) w(1) lens(2)]
  note s10 = decHex_ahead [OF s9(2) w(10) f(7)]
  note s11 = decHex_ahead [OF s10(2) w(11) signature_length [OF f(9)]]
  note bound = profileData_length [OF f(8) w(1)]
  let ?partial = "\<lparr>caVersion = 2, caSchema = caSchema a, caRecipient = caRecipient a, caTime = caTime a,
    caExpirationTime = caExpirationTime a, caRevocable = (1 = (1 :: int)), caRefUID = caRefUID a, caData = caData a,
    caSalt = caSalt a, caSignature = caSignature a, caUid = []\<rparr>"
  have "?partial = a\<lparr>caUid := []\<rparr>" using f(1,4) by (intro CanonicalAttestation.equality) simp_all
  then have uid: "attestationUid E ?partial = Inr (caUid a)" and whole: "?partial\<lparr>caUid := caUid a\<rparr> = a"
    using f(10) by (simp_all add: attestationUid_plain del: refl)
  show ?thesis
    using s1(1) s2(1) s3(1) s4(1) s5(1) s6(1) s7(1) s8(1) s9(1) s10(1) s11 f(1) plain ref(2) uid whole bound
    by (simp add: decAttestation_def canonicalD checksummed_def Let_def)
qed

interpretation attestations: item_codec attestationChunk "decAttestation E" "plainAttestation E schema" for E schema
  by unfold_locales (rule decAttestation_reads)

section \<open>The payload\<close>

definition plainPayload :: "eas_kit \<Rightarrow> PayloadV1 \<Rightarrow> bool" where
  "plainPayload E p \<longleftrightarrow> checksummed E (plOwner p) \<and> (\<forall>e \<in> set (plEntries p). canonical (leUid e)) \<and>
     (\<forall>a \<in> set (plAttestations p). canonical (caSchema a) \<and> checksummed E (caRecipient a) \<and>
        canonical (caData a) \<and> canonical (caSalt a) \<and> canonical (caSignature a))"

section \<open>The codec\<close>

text \<open>\<open>getAddress\<close> returns an address of twenty bytes in its checksummed form, which depends on the digits only.\<close>

definition checksumLaw :: "eas_kit \<Rightarrow> bool" where
  "checksumLaw E \<longleftrightarrow> (\<forall>a c. getAddress E a = Inr c \<longrightarrow> checksummed E c \<and> toLowerCase c = toLowerCase a)"

definition schemaOf :: "PayloadV1 \<Rightarrow> hex" where
  "schemaOf p = caSchema (hd (plAttestations p))"

lemma payloadOk_schema:
  "payloadOk E p schema \<Longrightarrow> toLowerCase schema' = toLowerCase schema \<Longrightarrow> payloadOk E p schema'"
  by (simp add: payloadOk_def validateAttestation_def)

lemma encodePayload_parts:
  assumes "encodePayload E p = Inr bs"
  obtains version owner ec ac es as where "plAttestations p \<noteq> []" and "payloadOk E p (schemaOf p)"
    and "uintBe PAYLOAD_VERSION 2 = Inr version" and "offHexToBytes (plOwner p) = Inr owner"
    and "uintBe (int (length (plEntries p))) 4 = Inr ec" and "uintBe (int (length (plAttestations p))) 4 = Inr ac"
    and "mapE entryChunk (plEntries p) = Inr es" and "mapE attestationChunk (plAttestations p) = Inr as"
    and "bs = PAYLOAD_MAGIC @ version @ owner @ ec @ ac @ concat es @ concat as" and "length bs \<le> MAX_PAYLOAD_BYTES"
  using assms unfolding encodePayload_def Let_def concatBytes_def
  by (elim bindE_InrE) (auto simp: validatePayload_spec schemaOf_def split: list.split_asm)

lemma encodePayload_schema:
  assumes "encodePayload E p = Inr bs" and "payloadOk E p schema"
  shows "toLowerCase (schemaOf p) = toLowerCase schema"
proof -
  from assms(1) have "plAttestations p \<noteq> []" by (elim encodePayload_parts)
  then have "hd (plAttestations p) \<in> set (plAttestations p)" by simp
  with assms(2) have "validateAttestation E (hd (plAttestations p)) schema = Inr ()" by (auto simp: payloadOk_def)
  from validateAttestation_fields(2) [OF this] show ?thesis by (simp add: schemaOf_def)
qed

lemma logOk_kinds: "logOk es \<Longrightarrow> e \<in> set es \<Longrightarrow> leKind e = 0 \<or> leKind e = 1"
  by (auto simp: logOk_def entryOk_def in_set_conv_nth)

lemma decode_encoded:
  assumes plain: "plainPayload E p" and enc: "encodePayload E p = Inr bs"
    and schema: "toLowerCase schema = toLowerCase (schemaOf p)"
  shows "decodePayload E bs schema = Inr p"
proof -
  from enc obtain version owner ec ac es as where ok: "payloadOk E p (schemaOf p)"
    and w: "uintBe PAYLOAD_VERSION 2 = Inr version" "offHexToBytes (plOwner p) = Inr owner"
      "uintBe (int (length (plEntries p))) 4 = Inr ec" "uintBe (int (length (plAttestations p))) 4 = Inr ac"
    and items: "mapE entryChunk (plEntries p) = Inr es" "mapE attestationChunk (plAttestations p) = Inr as"
    and bs: "bs = PAYLOAD_MAGIC @ version @ owner @ ec @ ac @ concat es @ concat as" "length bs \<le> MAX_PAYLOAD_BYTES"
    by (elim encodePayload_parts)
  have ok': "payloadOk E p schema" using payloadOk_schema [OF ok] schema by simp
  have own: "hexOf 20 (plOwner p)" "getAddress E (toLowerCase (plOwner p)) = Inr (plOwner p)"
    using plain by (auto simp: plainPayload_def checksummed_def)
  let ?d = "\<lparr>dcBytes = bs, dcOffset = 0\<rparr>"
  have "ahead ?d (PAYLOAD_MAGIC @ version @ owner @ ec @ ac @ concat es @ concat as)" using bs(1) by (simp add: ahead_def)
  note s1 = decTake_ahead [OF this refl] ahead_skip [OF this refl]
  note s2 = decUint_ahead [OF s1(2) w(1)]
  note s3 = decHex_ahead [OF s2(2) w(2) own(1)]
  note s4 = decUint_ahead [OF s3(2) w(3)]
  note s5 = decUint_ahead [OF s4(2) w(4)]
  let ?d5 = "skipTo 4 (skipTo 4 (skipTo 20 (skipTo 2 (skipTo (length PAYLOAD_MAGIC) ?d))))"
  have pe: "\<forall>e \<in> set (plEntries p). plainEntry e"
    using plain ok logOk_kinds by (auto simp: plainPayload_def plainEntry_def payloadOk_def)
  have pa: "\<forall>a \<in> set (plAttestations p). plainAttestation E schema a"
    using plain ok' by (auto simp: plainPayload_def plainAttestation_def payloadOk_def)
  from entries.reads_many [OF pe items(1) s5(2)] obtain d6 where
    d6: "decMany decEntry (length (plEntries p)) ?d5 = Inr (plEntries p, d6)" "ahead d6 (concat as)" "dcBytes d6 = bs"
    by auto
  from attestations.reads_many [OF pa items(2), of d6 "[]"] d6(2) obtain d7 where
    d7: "decMany (decAttestation E) (length (plAttestations p)) d6 = Inr (plAttestations p, d7)" "ahead d7 []"
      "dcBytes d7 = bs" using d6(3) by auto
  have fin: "dcOffset d7 = length bs" using ahead_end [OF d7(2)] d7(3) by simp
  have counts: "plEntries p \<noteq> []" "length (plEntries p) \<le> MAX_ENTRIES_PER_NODE"
    "length (plAttestations p) \<le> length (plEntries p)"
    using ok by (auto simp: payloadOk_def attested_def dest: arg_cong [of _ _ length])
      (metis attested_def length_filter_le length_map)
  have val: "validatePayload E p schema = Inr ()" using ok' by (simp add: validatePayload_spec)
  have same: "\<lparr>plOwner = plOwner p, plEntries = plEntries p, plAttestations = plAttestations p\<rparr> = p" by simp
  show ?thesis
    using s1(1) s2(1) s3(1) s4(1) s5(1) d6(1) d7(1) own(2) bs(2) fin counts val enc
    by (simp add: decodePayload_def equalBytes_eq Let_def same)
qed

lemma offBytes_canonical: "canonical (offBytesToHex bs)"
  using offHex_back [OF offBytes_roundtrip [of bs]] by (simp add: canonical_def)

lemma decHex_canonical: "decHex n d = Inr (h, d') \<Longrightarrow> canonical h"
  by (auto simp: decHex_def offBytes_canonical)

lemma decHex_fst: "decHex n d = Inr r \<Longrightarrow> canonical (fst r)"
  by (cases r) (simp add: decHex_canonical)

lemma decMany_all:
  assumes "decMany item n d = Inr (xs, d')" and "\<And>d x d'. item d = Inr (x, d') \<Longrightarrow> P x"
  shows "\<forall>x \<in> set xs. P x"
  using assms(1) by (induction n arbitrary: d xs) (auto intro: assms(2))

lemma decEntry_canonical: "decEntry d = Inr (e, d') \<Longrightarrow> canonical (leUid e)"
  by (auto simp: decEntry_def dest: decHex_canonical)

lemma decAttestation_plain:
  assumes "checksumLaw E" and "decAttestation E d = Inr (a, d')"
  shows "canonical (caSchema a) \<and> checksummed E (caRecipient a) \<and> canonical (caData a) \<and> canonical (caSalt a) \<and>
    canonical (caSignature a)"
  using assms(2) unfolding decAttestation_def Let_def case_prod_beta
  by (elim bindE_InrE) (use assms(1) decHex_fst in \<open>auto simp: checksumLaw_def\<close>)

lemma decodePayload_parts:
  assumes "decodePayload E bs schema = Inr p"
  shows "encodePayload E p = Inr bs" and "payloadOk E p schema"
    and "\<exists>a. getAddress E a = Inr (plOwner p)"
    and "\<exists>n d d'. decMany decEntry n d = Inr (plEntries p, d')"
    and "\<exists>n d d'. decMany (decAttestation E) n d = Inr (plAttestations p, d')"
proof -
  have "encodePayload E p = Inr bs \<and> validatePayload E p schema = Inr () \<and> (\<exists>a. getAddress E a = Inr (plOwner p)) \<and>
    (\<exists>n d d'. decMany decEntry n d = Inr (plEntries p, d')) \<and>
    (\<exists>n d d'. decMany (decAttestation E) n d = Inr (plAttestations p, d'))"
    using assms unfolding decodePayload_def Let_def case_prod_beta
    by (elim bindE_InrE) (auto simp: equalBytes_eq; blast)
  then show "encodePayload E p = Inr bs" "payloadOk E p schema" "\<exists>a. getAddress E a = Inr (plOwner p)"
    "\<exists>n d d'. decMany decEntry n d = Inr (plEntries p, d')"
    "\<exists>n d d'. decMany (decAttestation E) n d = Inr (plAttestations p, d')"
    by (simp_all add: validatePayload_spec)
qed

lemma decoded_plain:
  assumes "checksumLaw E" and d: "decodePayload E bs schema = Inr p"
  shows "plainPayload E p"
proof -
  note parts = decodePayload_parts [OF d]
  obtain n d d' m f f' where e: "decMany decEntry n d = Inr (plEntries p, d')"
    and a: "decMany (decAttestation E) m f = Inr (plAttestations p, f')" using parts(4,5) by blast
  have "checksummed E (plOwner p)" using parts(3) assms(1) by (auto simp: checksumLaw_def)
  moreover have "\<forall>e \<in> set (plEntries p). canonical (leUid e)"
    by (rule decMany_all [OF e]) (rule decEntry_canonical)
  moreover have "\<forall>a \<in> set (plAttestations p). canonical (caSchema a) \<and> checksummed E (caRecipient a) \<and>
      canonical (caData a) \<and> canonical (caSalt a) \<and> canonical (caSignature a)"
    by (rule decMany_all [OF a]) (rule decAttestation_plain [OF assms(1)])
  ultimately show ?thesis by (simp add: plainPayload_def)
qed

lemma codec_iff:
  assumes "checksumLaw E"
  shows "decodePayload E bs schema = Inr p \<longleftrightarrow> plainPayload E p \<and> encodePayload E p = Inr bs \<and>
    toLowerCase schema = toLowerCase (schemaOf p)"
  using decode_encoded [of E p bs schema] decoded_plain [OF assms, of bs schema p]
    decodePayload_parts(1,2) [of E bs schema p] encodePayload_schema [of E p bs schema] by metis

end
