(* ===== verification/OffchainBundles.thy ===== *)
theory OffchainBundles
  imports OffchainReading JsNumbers
begin

text \<open>
  Heads, anchor messages and signed bundles (eas-offchain-client/src/bundle.ts and signing.ts) and the drafts
  applied to a canonical log (drafts.ts).  The signatures are the ones of the wallet and of the attestation
  package; the encryption of a stored draft is not modelled.
\<close>

section \<open>Typed data\<close>

text \<open>The domain of the head signatures; the EAS domain is built where the relay needs it.\<close>

record TypedDomain =
  tdName :: string
  tdVersion :: string
  tdChainId :: int
  tdVerifyingContract :: hex

definition headDomain :: "int \<Rightarrow> hex \<Rightarrow> TypedDomain" where
  "headDomain chain registry = \<lparr>tdName = ''Trustgraphs Offchain Head'', tdVersion = ''2'', tdChainId = chain,
     tdVerifyingContract = registry\<rparr>"

definition domainSeparator :: "viem \<Rightarrow> TypedDomain \<Rightarrow> hex result" where
  "domainSeparator V domain =
     bindE (encodeAbi V
       [AbiBytes32 (keccak256Bytes V (utf8Encode ''EIP712Domain(string name,string version,uint256 chainId,address verifyingContract)'')),
        AbiBytes32 (keccak256Bytes V (utf8Encode (tdName domain))),
        AbiBytes32 (keccak256Bytes V (utf8Encode (tdVersion domain))),
        AbiUint 256 (tdChainId domain), AbiAddress (tdVerifyingContract domain)])
     (\<lambda>encoded. Inr (keccak256 V encoded))"

definition splitSignature :: "hex \<Rightarrow> (hex \<times> hex \<times> int) result" where
  "splitSignature signature =
     bindE (assertCanonicalSignature signature) (\<lambda>_.
     bindE (offHexToBytes signature) (\<lambda>bs.
     Inr (offBytesToHex (take 32 bs), offBytesToHex (take 32 (drop 32 bs)), uint (bs ! 64))))"

definition verifyEasV2Attestation :: "eas_kit \<Rightarrow> CanonicalAttestation \<Rightarrow> hex \<Rightarrow> EasDomain \<Rightarrow> bool result" where
  "verifyEasV2Attestation E a owner domain =
     bindE (splitSignature (caSignature a)) (\<lambda>rsv. verifyTypedSignature E owner a domain rsv)"

definition recoverHeadSigner :: "eas_kit \<Rightarrow> AnchorMessage \<Rightarrow> hex \<Rightarrow> int \<Rightarrow> hex \<Rightarrow> hex result" where
  "recoverHeadSigner E message signature chain registry =
     bindE (assertCanonicalSignature signature) (\<lambda>_. recoverTypedHead E message signature chain registry)"

section \<open>Nodes, leaves and heads\<close>

definition addressNodeId :: "viem \<Rightarrow> hex \<Rightarrow> hex result" where
  "addressNodeId V owner = bindE (encodeAbi V [AbiAddress owner]) (\<lambda>x. Inr (keccak256 V x))"

definition entryLeaf :: "viem \<Rightarrow> int \<Rightarrow> hex \<Rightarrow> hex result" where
  "entryLeaf V kind uid = bindE (encodeAbi V [AbiUint 8 kind, AbiBytes32 uid]) (\<lambda>x. Inr (keccak256 V x))"

definition headStep :: "viem \<Rightarrow> hex \<Rightarrow> LogEntry \<Rightarrow> hex result" where
  "headStep V head entry =
     bindE (entryLeaf V (leKind entry) (leUid entry)) (\<lambda>leaf.
     bindE (encodeAbi V [AbiBytes32 head, AbiBytes32 leaf]) (\<lambda>x. Inr (keccak256 V x)))"

definition prefixHeads :: "viem \<Rightarrow> LogEntry list \<Rightarrow> hex list result" where
  "prefixHeads V es =
     bindE (foldE (\<lambda>(head, heads) entry. bindE (headStep V head entry) (\<lambda>h. Inr (h, heads @ [h]))) (ZERO32, []) es)
       (\<lambda>(head, heads). Inr heads)"

definition base32LowerNoPadding :: "bytes \<Rightarrow> string" where
  "base32LowerNoPadding value =
     (case foldl base32Step (0, 0, []) value of (acc, bits, out) \<Rightarrow>
        if bits > 0 then out @ [base32Char (push_bit (5 - bits) acc)] else out)"

definition rawCid :: "hex \<Rightarrow> string result" where
  "rawCid commitment =
     bindE (offHexToBytes commitment) (\<lambda>digest.
     bindE (requireE0 (length digest = 32) ''E0_COMMITMENT'' ''SHA-256 commitment must be 32 bytes'') (\<lambda>_.
     Inr (''b'' @ base32LowerNoPadding ([0x01, 0x55, 0x12, 0x20] @ digest))))"

definition payloadCommitment :: "viem \<Rightarrow> bytes \<Rightarrow> hex" where
  "payloadCommitment V payload = sha256Bytes V payload"

section \<open>Messages and bundles\<close>

text \<open>Reading a JavaScript array: a negative or too large index gives \<open>undefined\<close>.\<close>

definition itemAt :: "'a list \<Rightarrow> int \<Rightarrow> 'a option" where
  "itemAt xs i = (if 0 \<le> i \<and> i < int (length xs) then Some (xs ! nat i) else None)"

definition lastItem :: "'a list \<Rightarrow> 'a option" where
  "lastItem xs = (if xs = [] then None else Some (last xs))"

definition prefixHead :: "hex list \<Rightarrow> int \<Rightarrow> hex option" where
  "prefixHead heads liveCount = (if liveCount = 0 then Some ZERO32 else itemAt heads (liveCount - 1))"

definition buildNextMessage ::
  "viem \<Rightarrow> eas_kit \<Rightarrow> PayloadV1 \<Rightarrow> hex \<Rightarrow> LiveNodeHead \<Rightarrow> (bytes \<times> string \<times> AnchorMessage) result" where
  "buildNextMessage V E payload schema live =
     (let count = int (length (plEntries payload)) in
      bindE (requireE0 (\<not> (count \<le> lhCount live \<or> count > int MAX_ENTRIES_PER_NODE)) ''E0_COUNT_MISMATCH''
        ''next payload count must strictly extend live count'') (\<lambda>_.
      bindE (prefixHeads V (plEntries payload)) (\<lambda>heads.
      bindE (requireE0 (prefixHead heads (lhCount live) = Some (lhHead live)) ''E0_PREVIOUS_HEAD''
        ''payload does not extend the canonical live head'') (\<lambda>_.
      bindE (encodePayload E payload) (\<lambda>bs.
      let dataCommitment = payloadCommitment V bs in
      bindE (rawCid dataCommitment) (\<lambda>cid.
      bindE (addressNodeId V (plOwner payload)) (\<lambda>nodeId.
      Inr (bs, cid, \<lparr>amNodeId = nodeId, amEnvelopeKind = 0, amSchemaUid = schema, amPreviousHead = lhHead live,
        amHead = orDefault (lastItem heads) [], amCount = count, amDataCommitment = dataCommitment\<rparr>))))))))"

record SignedAnchorBundle =
  sbProtocol :: string
  sbChainId :: string
  sbRegistry :: hex
  sbEasAddress :: hex
  sbEasVersion :: string
  sbSchemaUid :: hex
  sbOwner :: hex
  sbPayloadHex :: hex
  sbCid :: string
  sbDataCommitment :: hex
  sbMessage :: AnchorMessage
  sbCountText :: string
  sbHeadSignature :: hex

text \<open>
  The message of a bundle has its count as text; \<open>parseAnchorMessage\<close> replaces it by the integer it denotes, so
  \<open>sbMessage\<close> is read through it only.
\<close>

definition parseAnchorMessage :: "SignedAnchorBundle \<Rightarrow> AnchorMessage result" where
  "parseAnchorMessage bundle =
     bindE (bigIntText (sbCountText bundle)) (\<lambda>count. Inr ((sbMessage bundle)\<lparr>amCount := count\<rparr>))"

text \<open>The wallet of \<open>createSignedBundle\<close>: its address and its signature of typed data, which it may refuse.\<close>

record wallet_signer =
  wsAddress :: hex
  wsSignHead :: "TypedDomain \<Rightarrow> AnchorMessage \<Rightarrow> hex result"

definition signHead :: "AnchorMessage \<Rightarrow> int \<Rightarrow> hex \<Rightarrow> wallet_signer \<Rightarrow> hex result" where
  "signHead message chain registry wallet =
     bindE (wsSignHead wallet (headDomain chain registry) message) (\<lambda>signature.
     bindE (assertCanonicalSignature signature) (\<lambda>_. Inr signature))"

definition createSignedBundle ::
  "viem \<Rightarrow> eas_kit \<Rightarrow> PayloadV1 \<Rightarrow> LiveNodeHead \<Rightarrow> hex \<Rightarrow> EasDomain \<Rightarrow> hex \<Rightarrow> wallet_signer \<Rightarrow>
   SignedAnchorBundle result" where
  "createSignedBundle V E payload live schema eas registry wallet =
     bindE (getAddress E (wsAddress wallet)) (\<lambda>walletAddress.
     bindE (getAddress E (plOwner payload)) (\<lambda>owner.
     bindE (requireE0 (walletAddress = owner) ''E0_NODE_ID'' ''wallet does not own the payload node'') (\<lambda>_.
     bindE (buildNextMessage V E payload schema live) (\<lambda>(bs, cid, message).
     bindE (signHead message (edChainId eas) registry wallet) (\<lambda>headSignature.
     bindE (getAddress E registry) (\<lambda>registry'.
     bindE (getAddress E (edAddress eas)) (\<lambda>easAddress.
     Inr \<lparr>sbProtocol = ''TrustgraphsEasOffchainBundleV1'', sbChainId = bigToString (edChainId eas),
       sbRegistry = registry', sbEasAddress = easAddress, sbEasVersion = edVersion eas, sbSchemaUid = schema,
       sbOwner = owner, sbPayloadHex = offBytesToHex bs, sbCid = cid, sbDataCommitment = amDataCommitment message,
       sbMessage = message, sbCountText = bigToString (amCount message), sbHeadSignature = headSignature\<rparr>)))))))"

definition verifyBody :: "eas_kit \<Rightarrow> hex \<Rightarrow> EasDomain \<Rightarrow> CanonicalAttestation \<Rightarrow> unit result" where
  "verifyBody E owner domain a =
     bindE (verifyEasV2Attestation E a owner domain) (\<lambda>valid.
     requireE0 valid ''E0_EAS_SIGNATURE'' ''EAS v2 signature does not recover payload owner'')"

definition validateSignedBundle ::
  "viem \<Rightarrow> eas_kit \<Rightarrow> SignedAnchorBundle \<Rightarrow> (PayloadV1 \<times> bytes \<times> AnchorMessage) result" where
  "validateSignedBundle V E bundle =
     bindE (requireE0 (sbProtocol bundle = ''TrustgraphsEasOffchainBundleV1'') ''E0_CANONICAL''
       ''unsupported bundle protocol'') (\<lambda>_.
     bindE (bigIntText (sbChainId bundle)) (\<lambda>chain.
     bindE (offHexToBytes (sbPayloadHex bundle)) (\<lambda>bs.
     bindE (decodePayload E bs (sbSchemaUid bundle)) (\<lambda>payload.
     bindE (getAddress E (plOwner payload)) (\<lambda>payloadOwner.
     bindE (getAddress E (sbOwner bundle)) (\<lambda>bundleOwner.
     bindE (requireE0 (payloadOwner = bundleOwner) ''E0_NODE_ID'' ''bundle owner does not match payload owner'') (\<lambda>_.
     bindE (encodePayload E payload) (\<lambda>encoded.
     bindE (requireE0 (equalBytes encoded bs) ''E0_CANONICAL'' ''payload is not canonical'') (\<lambda>_.
     let commitment = payloadCommitment V bs in
     bindE (requireE0 (commitment = sbDataCommitment bundle \<and> commitment = amDataCommitment (sbMessage bundle))
       ''E0_COMMITMENT'' ''payload commitment mismatch'') (\<lambda>_.
     bindE (rawCid commitment) (\<lambda>cid.
     bindE (requireE0 (cid = sbCid bundle) ''E0_COMMITMENT'' ''payload CID mismatch'') (\<lambda>_.
     bindE (parseAnchorMessage bundle) (\<lambda>message.
     bindE (prefixHeads V (plEntries payload)) (\<lambda>heads.
     bindE (addressNodeId V (plOwner payload)) (\<lambda>nodeId.
     bindE (requireE0 (amEnvelopeKind message = 0 \<and> amSchemaUid message = sbSchemaUid bundle \<and>
         amCount message = int (length (plEntries payload)) \<and> Some (amHead message) = lastItem heads \<and>
         amNodeId message = nodeId)
       ''E0_HEAD'' ''anchor message does not match payload fold'') (\<lambda>_.
     bindE (requireE0 (amPreviousHead message = ZERO32 \<or> amPreviousHead message \<in> set (butlast heads))
       ''E0_PREVIOUS_HEAD'' ''previous head is not a payload prefix'') (\<lambda>_.
     bindE (getAddress E (sbEasAddress bundle)) (\<lambda>easAddress.
     let domain = \<lparr>edAddress = easAddress, edVersion = sbEasVersion bundle, edChainId = chain\<rparr> in
     bindE (foldE (\<lambda>_ a. verifyBody E (plOwner payload) domain a) () (plAttestations payload)) (\<lambda>_.
     bindE (getAddress E (sbRegistry bundle)) (\<lambda>registry.
     bindE (recoverHeadSigner E message (sbHeadSignature bundle) chain registry) (\<lambda>signer.
     bindE (getAddress E signer) (\<lambda>signerAddress.
     bindE (requireE0 (signerAddress = payloadOwner) ''E0_HEAD_SIGNATURE''
       ''head signature does not recover payload owner'') (\<lambda>_.
     Inr (payload, bs, message))))))))))))))))))))))))"

section \<open>Drafts\<close>

datatype DraftOperation = Attest CanonicalAttestation | Revoke hex

record RecoverableDraft =
  rdSchemaUid :: hex
  rdOwner :: hex
  rdBase :: LiveNodeHead
  rdOperations :: "DraftOperation list"

record DraftState =
  dsPayload :: PayloadV1
  dsSeen :: "hex list"
  dsLive :: "hex list"

definition applyOperation :: "DraftState \<Rightarrow> DraftOperation \<Rightarrow> DraftState result" where
  "applyOperation st operation =
     (case operation of
        Attest a \<Rightarrow>
          bindE (requireE0 (caUid a \<notin> set (dsSeen st)) ''E0_DUPLICATE_ATTEST''
            ''draft attestation already exists in canonical history'') (\<lambda>_.
          Inr \<lparr>dsPayload = (dsPayload st)\<lparr>
              plEntries := plEntries (dsPayload st) @ [\<lparr>leKind = 0, leUid = caUid a\<rparr>],
              plAttestations := plAttestations (dsPayload st) @ [a]\<rparr>,
            dsSeen = setAdd (caUid a) (dsSeen st), dsLive = setAdd (caUid a) (dsLive st)\<rparr>)
      | Revoke uid \<Rightarrow>
          bindE (requireE0 (uid \<in> set (dsSeen st)) ''E0_REVOKE_BEFORE_ATTEST''
            ''draft revocation target is absent after reload'') (\<lambda>_.
          bindE (requireE0 (uid \<in> set (dsLive st)) ''E0_ALREADY_REVOKED''
            ''draft revocation target is already revoked after reload'') (\<lambda>_.
          Inr (st\<lparr>dsPayload := (dsPayload st)\<lparr>plEntries := plEntries (dsPayload st) @ [\<lparr>leKind = 1, leUid = uid\<rparr>]\<rparr>,
            dsLive := removeAll uid (dsLive st)\<rparr>))))"

definition draftStart :: "PayloadV1 \<Rightarrow> DraftState" where
  "draftStart payload =
     (let seen = newSet (map leUid (filter (\<lambda>e. leKind e = 0) (plEntries payload))) in
      \<lparr>dsPayload = payload, dsSeen = seen,
       dsLive = foldl (\<lambda>live e. if leKind e = 1 then removeAll (leUid e) live else live) seen (plEntries payload)\<rparr>)"

definition applyOperations :: "PayloadV1 option \<Rightarrow> hex \<Rightarrow> DraftOperation list \<Rightarrow> PayloadV1 result" where
  "applyOperations canonicalPayload owner operations =
     (let payload = (case canonicalPayload of Some p \<Rightarrow> p
        | None \<Rightarrow> \<lparr>plOwner = owner, plEntries = [], plAttestations = []\<rparr>) in
      bindE (requireE0 (toLowerCase (plOwner payload) = toLowerCase owner) ''E0_NODE_ID''
        ''canonical payload belongs to another owner'') (\<lambda>_.
      bindE (foldE applyOperation (draftStart payload) operations) (\<lambda>st. Inr (dsPayload st))))"

datatype SubmissionResolution = SubmissionSuccess | ReloadAdvanced LiveNodeHead | ReloadSameCountFork LiveNodeHead

definition resolveSubmission :: "SignedAnchorBundle \<Rightarrow> LiveNodeHead \<Rightarrow> SubmissionResolution result" where
  "resolveSubmission bundle live =
     bindE (bigIntText (sbCountText bundle)) (\<lambda>requestedCount.
     Inr (if lhCount live = requestedCount \<and> lhHead live = amHead (sbMessage bundle) \<and>
            lhDataCommitment live = sbDataCommitment bundle then SubmissionSuccess
          else if lhCount live = requestedCount then ReloadSameCountFork live
          else ReloadAdvanced live))"

definition assertSyncedBeforeEdit :: "RecoverableDraft \<Rightarrow> LiveNodeHead \<Rightarrow> unit result" where
  "assertSyncedBeforeEdit draft live =
     requireE0 (rdBase draft = live) ''E0_CONFLICT'' ''draft base is stale; reload canonical payload and reapply operations''"

text \<open>The source of the canonical state: the live head of a node and the bytes of a CID; either may throw.\<close>

record node_source =
  readLive :: "hex \<Rightarrow> LiveNodeHead result"
  readPayload :: "string \<Rightarrow> bytes result"

record SyncedNode =
  snLive :: LiveNodeHead
  snPayload :: "PayloadV1 option"
  snCid :: "string option"

definition syncCanonicalNode :: "viem \<Rightarrow> eas_kit \<Rightarrow> node_source \<Rightarrow> hex \<Rightarrow> hex \<Rightarrow> SyncedNode result" where
  "syncCanonicalNode V E src owner schema =
     bindE (addressNodeId V owner) (\<lambda>nodeId.
     bindE (readLive src nodeId) (\<lambda>live.
     if lhCount live = 0 then
       bindE (requireE0 (lhHead live = ZERO32 \<and> lhDataCommitment live = ZERO32) ''E0_CONFLICT''
         ''unregistered node has nonzero canonical state'') (\<lambda>_.
       Inr \<lparr>snLive = live, snPayload = None, snCid = None\<rparr>)
     else
       bindE (rawCid (lhDataCommitment live)) (\<lambda>cid.
       bindE (readPayload src cid) (\<lambda>bs.
       bindE (requireE0 (payloadCommitment V bs = lhDataCommitment live) ''E0_COMMITMENT''
         ''canonical payload bytes do not match live commitment'') (\<lambda>_.
       bindE (decodePayload E bs schema) (\<lambda>payload.
       bindE (requireE0 (toLowerCase (plOwner payload) = toLowerCase owner) ''E0_NODE_ID''
         ''canonical payload owner does not match requested node'') (\<lambda>_.
       bindE (prefixHeads V (plEntries payload)) (\<lambda>heads.
       bindE (requireE0 (int (length (plEntries payload)) = lhCount live \<and> lastItem heads = Some (lhHead live)) ''E0_HEAD''
         ''canonical payload does not match live count and head'') (\<lambda>_.
       Inr \<lparr>snLive = live, snPayload = Some payload, snCid = Some cid\<rparr>)))))))))"

definition reloadAndReapply ::
  "viem \<Rightarrow> eas_kit \<Rightarrow> RecoverableDraft \<Rightarrow> node_source \<Rightarrow> (SyncedNode \<times> PayloadV1) result" where
  "reloadAndReapply V E draft src =
     bindE (syncCanonicalNode V E src (rdOwner draft) (rdSchemaUid draft)) (\<lambda>sync.
     bindE (applyOperations (snPayload sync) (rdOwner draft) (rdOperations draft)) (\<lambda>payload.
     Inr (sync, payload)))"

end
