(* ===== verification/Relay.thy ===== *)
theory Relay
  imports OffchainBundles
begin

text \<open>
  The relay of signed bundles, eas-offchain-relay/src/service.ts with ipfs.ts, errors.ts and types.ts: a
  submission as a program over the memory of the service and the outside world, which may throw.
\<close>

section \<open>Types\<close>

record LaneState =
  lnChainId :: int
  lnRegistry :: hex
  lnEasAddress :: hex
  lnEasVersion :: string
  lnSchemaUid :: hex
  lnEasDomainSeparator :: hex
  lnHeadDomainSeparator :: hex
  lnMaxTotalInputs :: int
  lnAnchorCount :: int
  lnWorkCount :: int
  lnLane1LeafCount :: int
  lnLatestBlockTimestamp :: int
  lnLive :: LiveNodeHead
  lnRegisteredOwner :: "hex option"

record RelayConfig =
  rgChainId :: int
  rgRegistry :: hex
  rgSchemaUid :: hex
  rgEasAddress :: hex
  rgEasVersion :: string
  rgAllowedNodeIds :: "string list"
  rgStorageQuorum :: int
  rgMaxPayloadBytes :: int
  rgNodeRequestsPerMinute :: int

datatype RelayAction = NoAction | Retry | Reload

text \<open>
  What a request may throw: a \<open>RelayError\<close> (its details are diagnostic and left out), an error of the client
  library, or anything else a store or the chain throws.
\<close>

datatype relay_error =
    RelayError string string int bool RelayAction
  | ClientError js_error
  | OtherError string

record RelaySuccess =
  rsChainId :: string
  rsRegistry :: hex
  rsNodeId :: hex
  rsCount :: string
  rsHead :: hex
  rsDataCommitment :: hex
  rsCid :: string


record RelayErrorBody =
  ebStatus :: int
  ebCode :: string
  ebMessage :: string
  ebRetryable :: bool
  ebAction :: RelayAction

section \<open>Effects\<close>

text \<open>
  A request runs in a state: the memory of the service and the outside world, which is a parameter.  The calls
  of the chain and of the stores are functions of the world; each may throw and leaves a new world.
\<close>

type_synonym ('s, 'a) act = "'s \<Rightarrow> (relay_error + 'a) \<times> 's"

definition ret :: "'a \<Rightarrow> ('s, 'a) act" where
  "ret x s = (Inr x, s)"

definition raise :: "relay_error \<Rightarrow> ('s, 'a) act" where
  "raise e s = (Inl e, s)"

definition bindA :: "('s, 'a) act \<Rightarrow> ('a \<Rightarrow> ('s, 'b) act) \<Rightarrow> ('s, 'b) act" where
  "bindA m f s = (case m s of (Inl e, s') \<Rightarrow> (Inl e, s') | (Inr x, s') \<Rightarrow> f x s')"

definition catchA :: "('s, 'a) act \<Rightarrow> (relay_error \<Rightarrow> ('s, 'a) act) \<Rightarrow> ('s, 'a) act" where
  "catchA m h s = (case m s of (Inl e, s') \<Rightarrow> h e s' | (Inr x, s') \<Rightarrow> (Inr x, s'))"

definition liftA :: "relay_error + 'a \<Rightarrow> ('s, 'a) act" where
  "liftA r s = (r, s)"

definition ensureA :: "bool \<Rightarrow> relay_error \<Rightarrow> ('s, unit) act" where
  "ensureA ok e s = ((if ok then Inr () else Inl e), s)"

definition client :: "'a result \<Rightarrow> relay_error + 'a" where
  "client r = (case r of Inl e \<Rightarrow> Inl (ClientError e) | Inr x \<Rightarrow> Inr x)"

record RelayMetrics =
  mtSubmissions :: int
  mtValidationFailures :: int
  mtNewestAnchorCount :: int
  mtStorageExactSuccesses :: int
  mtWorkCount :: int
  mtMaxTotalInputs :: int
  mtRelayerLagEntries :: int

record 'w relay_state =
  stEvents :: "(string, int list) jmap"
  stMetrics :: RelayMetrics
  stWorld :: 'w

record 'w relay_chain =
  chLane :: "hex \<Rightarrow> 'w \<Rightarrow> (relay_error + LaneState) \<times> 'w"
  chLive :: "hex \<Rightarrow> 'w \<Rightarrow> (relay_error + LiveNodeHead) \<times> 'w"
  chSimulate :: "SignedAnchorBundle \<Rightarrow> AnchorMessage \<Rightarrow> 'w \<Rightarrow> (relay_error + unit) \<times> 'w"
  chAnchor :: "SignedAnchorBundle \<Rightarrow> AnchorMessage \<Rightarrow> 'w \<Rightarrow> (relay_error + unit) \<times> 'w"

record 'w blob_store =
  bsName :: string
  bsPutAndRead :: "string \<Rightarrow> bytes \<Rightarrow> 'w \<Rightarrow> (relay_error + bytes) \<times> 'w"

definition outside :: "('w \<Rightarrow> (relay_error + 'a) \<times> 'w) \<Rightarrow> ('w relay_state, 'a) act" where
  "outside f s = (case f (stWorld s) of (r, w) \<Rightarrow> (r, s\<lparr>stWorld := w\<rparr>))"

definition metric :: "(RelayMetrics \<Rightarrow> RelayMetrics) \<Rightarrow> ('w relay_state, unit) act" where
  "metric f s = (Inr (), s\<lparr>stMetrics := f (stMetrics s)\<rparr>)"

section \<open>The rate limiter\<close>

definition limiterTake :: "int \<Rightarrow> string \<Rightarrow> int \<Rightarrow> (string, int list) jmap \<Rightarrow> relay_error + (string, int list) jmap" where
  "limiterTake limit nodeId now events =
     (let threshold = now - 60000;
          recent = filter (\<lambda>time. time > threshold) (orDefault (jget events nodeId) []) in
      if int (length recent) \<ge> limit
      then Inl (RelayError ''RATE_LIMITED'' ''node request rate exceeded'' 429 True Retry)
      else Inr (jset nodeId (recent @ [now]) events))"

definition takeSlot :: "int \<Rightarrow> string \<Rightarrow> int \<Rightarrow> ('w relay_state, unit) act" where
  "takeSlot limit nodeId now s =
     (case limiterTake limit nodeId now (stEvents s) of
        Inl e \<Rightarrow> (Inl e, s) | Inr events \<Rightarrow> (Inr (), s\<lparr>stEvents := events\<rparr>))"

section \<open>The checks of a submission\<close>

definition exactResult :: "LiveNodeHead \<Rightarrow> AnchorMessage \<Rightarrow> bool" where
  "exactResult live message \<longleftrightarrow> lhCount live = amCount message \<and> lhHead live = amHead message \<and>
     lhDataCommitment live = amDataCommitment message"

text \<open>\<open>a || b\<close> where \<open>b\<close> may throw and runs only when \<open>a\<close> is false.\<close>

definition orElseE :: "bool result \<Rightarrow> bool result \<Rightarrow> bool result" where
  "orElseE a b = bindE a (\<lambda>x. if x then Inr True else b)"

definition differ :: "eas_kit \<Rightarrow> hex \<Rightarrow> hex \<Rightarrow> bool result" where
  "differ E a b = bindE (getAddress E a) (\<lambda>x. bindE (getAddress E b) (\<lambda>y. Inr (x \<noteq> y)))"

definition refuseWhen :: "bool result \<Rightarrow> relay_error \<Rightarrow> relay_error + unit" where
  "refuseWhen c e = bindE (client c) (\<lambda>x. if x then Inl e else Inr ())"

definition assertLane ::
  "viem \<Rightarrow> eas_kit \<Rightarrow> RelayConfig \<Rightarrow> SignedAnchorBundle \<Rightarrow> LaneState \<Rightarrow> AnchorMessage \<Rightarrow> relay_error + unit" where
  "assertLane V E config bundle lane message =
     bindE (refuseWhen (orElseE (bindE (bigIntText (sbChainId bundle)) (\<lambda>c. Inr (c \<noteq> rgChainId config)))
         (orElseE (Inr (lnChainId lane \<noteq> rgChainId config))
         (orElseE (differ E (sbRegistry bundle) (rgRegistry config)) (differ E (lnRegistry lane) (rgRegistry config)))))
       (RelayError ''CHAIN_OR_REGISTRY'' ''bundle targets another chain or registry'' 422 False NoAction)) (\<lambda>_.
     bindE (refuseWhen (Inr (amEnvelopeKind (sbMessage bundle) \<noteq> 0 \<or> sbSchemaUid bundle \<noteq> rgSchemaUid config \<or>
         lnSchemaUid lane \<noteq> rgSchemaUid config))
       (RelayError ''KIND_OR_SCHEMA'' ''bundle kind or schema is not allowlisted'' 422 False NoAction)) (\<lambda>_.
     bindE (refuseWhen (orElseE (differ E (sbEasAddress bundle) (rgEasAddress config))
         (orElseE (differ E (lnEasAddress lane) (rgEasAddress config))
           (Inr (sbEasVersion bundle \<noteq> rgEasVersion config \<or> lnEasVersion lane \<noteq> rgEasVersion config))))
       (RelayError ''EAS_DOMAIN'' ''bundle EAS domain is not the configured onchain domain'' 422 False NoAction)) (\<lambda>_.
     bindE (client (domainSeparator V \<lparr>tdName = ''EAS Attestation'', tdVersion = rgEasVersion config,
         tdChainId = rgChainId config, tdVerifyingContract = rgEasAddress config\<rparr>)) (\<lambda>easSeparator.
     bindE (client (domainSeparator V (headDomain (rgChainId config) (rgRegistry config)))) (\<lambda>headSeparator.
     bindE (refuseWhen (Inr (lnEasDomainSeparator lane \<noteq> easSeparator \<or> lnHeadDomainSeparator lane \<noteq> headSeparator))
       (RelayError ''DOMAIN_SEPARATOR'' ''onchain domain separator does not match configured typed data'' 503 False NoAction)) (\<lambda>_.
     bindE (refuseWhen (case lnRegisteredOwner lane of None \<Rightarrow> Inr False
         | Some owner \<Rightarrow> if owner = [] then Inr False else differ E owner (sbOwner bundle))
       (RelayError ''NODE_OWNER'' ''registered node owner does not match bundle signer'' 409 False Reload)) (\<lambda>_.
     refuseWhen (Inr (rgAllowedNodeIds config \<noteq> [] \<and> toLowerCase (amNodeId message) \<notin> set (rgAllowedNodeIds config)))
       (RelayError ''NODE_NOT_ALLOWED'' ''node is not in the relay allowlist'' 403 False NoAction))))))))"

definition assertTransition :: "hex list \<Rightarrow> LiveNodeHead \<Rightarrow> AnchorMessage \<Rightarrow> relay_error + unit" where
  "assertTransition payloadHeads live message =
     (if exactResult live message then Inr ()
      else if lhCount live = amCount message
      then Inl (RelayError ''SAME_COUNT_FORK'' ''another commitment already landed at this count'' 409 False Reload)
      else if lhCount live > amCount message
      then Inl (RelayError ''STALE_HEAD'' ''canonical node history advanced past this bundle'' 409 False Reload)
      else if amPreviousHead message \<noteq> lhHead live \<or> prefixHead payloadHeads (lhCount live) \<noteq> Some (lhHead live)
      then Inl (RelayError ''PREVIOUS_HEAD'' ''bundle does not extend the canonical live head'' 409 False Reload)
      else Inr ())"

definition success :: "SignedAnchorBundle \<Rightarrow> AnchorMessage \<Rightarrow> RelaySuccess" where
  "success bundle message =
     \<lparr>rsChainId = sbChainId bundle, rsRegistry = sbRegistry bundle, rsNodeId = amNodeId message,
      rsCount = bigToString (amCount message), rsHead = amHead message, rsDataCommitment = amDataCommitment message,
      rsCid = sbCid bundle\<rparr>"

section \<open>Storage\<close>

text \<open>
  \<open>Promise.allSettled\<close> runs the stores side by side; they are separate systems, and the model visits them in
  order.  A store that throws or returns other bytes is not counted.
\<close>

fun storeAll :: "'w blob_store list \<Rightarrow> string \<Rightarrow> bytes \<Rightarrow> 'w \<Rightarrow> string list \<times> 'w" where
  "storeAll [] cid bs w = ([], w)"
| "storeAll (store # stores) cid bs w =
     (case bsPutAndRead store cid bs w of (r, w1) \<Rightarrow>
        case storeAll stores cid bs w1 of (accepted, w2) \<Rightarrow>
          ((case r of Inl e \<Rightarrow> accepted
            | Inr readback \<Rightarrow> if equalBytes readback bs then bsName store # accepted else accepted), w2))"

definition storeWithQuorum :: "'w blob_store list \<Rightarrow> int \<Rightarrow> string \<Rightarrow> bytes \<Rightarrow> ('w relay_state, string list) act" where
  "storeWithQuorum stores quorumSize cid bs =
     bindA (outside (\<lambda>w. case storeAll stores cid bs w of (accepted, w') \<Rightarrow> (Inr accepted, w'))) (\<lambda>accepted.
     bindA (ensureA (int (length accepted) \<ge> quorumSize)
       (RelayError ''STORAGE_QUORUM'' ''byte-exact storage quorum was not reached'' 503 True Retry)) (\<lambda>_.
     ret accepted))"

section \<open>A submission\<close>

definition serviceOk :: "RelayConfig \<Rightarrow> 'w blob_store list \<Rightarrow> unit result" where
  "serviceOk config stores =
     bindE (throwWhen (length stores < 2 \<or> rgStorageQuorum config < 2 \<or> rgStorageQuorum config > int (length stores))
       (PlainError ''relay requires at least two stores and a reachable quorum of at least two'')) (\<lambda>_.
     throwWhen (rgMaxPayloadBytes config > int MAX_PAYLOAD_BYTES)
       (PlainError ''relay payload limit cannot exceed the consensus 1 MiB bound''))"

definition isClientError :: "js_error \<Rightarrow> bool" where
  "isClientError e \<longleftrightarrow> (case e of AppError code message \<Rightarrow> take 3 code = ''E0_'' | _ \<Rightarrow> False)"

definition validated ::
  "viem \<Rightarrow> eas_kit \<Rightarrow> SignedAnchorBundle \<Rightarrow> ('w relay_state, PayloadV1 \<times> bytes \<times> AnchorMessage) act" where
  "validated V E bundle =
     (case validateSignedBundle V E bundle of Inr v \<Rightarrow> ret v
      | Inl e \<Rightarrow> bindA (metric (\<lambda>m. m\<lparr>mtValidationFailures := mtValidationFailures m + 1\<rparr>)) (\<lambda>_.
          raise (if isClientError e then ClientError e
            else RelayError ''INVALID_BUNDLE'' ''bundle shape or scalar encoding is invalid'' 422 False NoAction)))"

definition projectedWork :: "LaneState \<Rightarrow> AnchorMessage \<Rightarrow> int" where
  "projectedWork lane message =
     (let delta = amCount message - lhCount (lnLive lane) in lnWorkCount lane + 1 + delta * E0_ENTRY_WORK_UNITS)"

definition assertCapacity :: "LaneState \<Rightarrow> AnchorMessage \<Rightarrow> relay_error + unit" where
  "assertCapacity lane message =
     (if exactResult (lnLive lane) message then Inr ()
      else if lnLane1LeafCount lane + projectedWork lane message > lnMaxTotalInputs lane
      then Inl (RelayError ''PROJECTED_WORK'' ''anchor would exceed the instance input capacity'' 422 False NoAction)
      else Inr ())"

text \<open>The part of a submission that decides, given the state of the lane.\<close>

definition admit ::
  "viem \<Rightarrow> eas_kit \<Rightarrow> RelayConfig \<Rightarrow> SignedAnchorBundle \<Rightarrow> PayloadV1 \<Rightarrow> AnchorMessage \<Rightarrow> LaneState \<Rightarrow>
   relay_error + unit" where
  "admit V E config bundle payload message lane =
     bindE (assertLane V E config bundle lane message) (\<lambda>_.
     bindE (client (assertNoFutureAttestations (plAttestations payload) (lnLatestBlockTimestamp lane))) (\<lambda>_.
     bindE (client (prefixHeads V (plEntries payload))) (\<lambda>heads.
     bindE (assertTransition heads (lnLive lane) message) (\<lambda>_.
     assertCapacity lane message))))"

definition landedMetrics :: "LaneState \<Rightarrow> RelayMetrics \<Rightarrow> RelayMetrics" where
  "landedMetrics lane m = m\<lparr>mtNewestAnchorCount := lnAnchorCount lane + 1, mtRelayerLagEntries := 0\<rparr>"

definition raced ::
  "'w relay_chain \<Rightarrow> SignedAnchorBundle \<Rightarrow> AnchorMessage \<Rightarrow> LaneState \<Rightarrow> ('w relay_state, RelaySuccess) act" where
  "raced chain bundle message lane =
     bindA (outside (chLive chain (amNodeId message))) (\<lambda>racedLive.
     if exactResult racedLive message
     then bindA (metric (landedMetrics lane)) (\<lambda>_. ret (success bundle message))
     else if lhCount racedLive = amCount message
     then raise (RelayError ''SAME_COUNT_FORK'' ''another commitment won the same-count race'' 409 False Reload)
     else raise (RelayError ''ANCHOR_FAILED'' ''exact anchor simulation or transaction failed'' 503 True Retry))"

definition landed ::
  "'w relay_chain \<Rightarrow> SignedAnchorBundle \<Rightarrow> AnchorMessage \<Rightarrow> LaneState \<Rightarrow> ('w relay_state, RelaySuccess) act" where
  "landed chain bundle message lane =
     bindA (outside (chLive chain (amNodeId message))) (\<lambda>live.
     bindA (ensureA (exactResult live message)
       (RelayError ''ANCHOR_UNCONFIRMED'' ''transaction completed without the exact requested state'' 503 True Retry)) (\<lambda>_.
     bindA (metric (landedMetrics lane)) (\<lambda>_.
     ret (success bundle message))))"

text \<open>\<open>try { simulate; anchor } catch\<close>: the handler returns or throws, and otherwise the landed state is read.\<close>

definition anchorOrRace ::
  "'w relay_chain \<Rightarrow> SignedAnchorBundle \<Rightarrow> AnchorMessage \<Rightarrow> LaneState \<Rightarrow> ('w relay_state, RelaySuccess option) act" where
  "anchorOrRace chain bundle message lane =
     catchA (bindA (outside (chSimulate chain bundle message)) (\<lambda>_.
             bindA (outside (chAnchor chain bundle message)) (\<lambda>_. ret None)))
       (\<lambda>_. bindA (raced chain bundle message lane) (\<lambda>r. ret (Some r)))"

definition submit ::
  "viem \<Rightarrow> eas_kit \<Rightarrow> RelayConfig \<Rightarrow> 'w relay_chain \<Rightarrow> 'w blob_store list \<Rightarrow> SignedAnchorBundle \<Rightarrow> int \<Rightarrow>
   ('w relay_state, RelaySuccess) act" where
  "submit V E config chain stores bundle now =
     bindA (metric (\<lambda>m. m\<lparr>mtSubmissions := mtSubmissions m + 1\<rparr>)) (\<lambda>_.
     bindA (validated V E bundle) (\<lambda>(payload, bs, message).
     bindA (ensureA (int (length bs) \<le> rgMaxPayloadBytes config)
       (RelayError ''PAYLOAD_LIMIT'' ''payload exceeds relay limit'' 413 False NoAction)) (\<lambda>_.
     bindA (takeSlot (rgNodeRequestsPerMinute config) (toLowerCase (amNodeId message)) now) (\<lambda>_.
     bindA (outside (chLane chain (amNodeId message))) (\<lambda>lane.
     bindA (metric (\<lambda>m. m\<lparr>mtNewestAnchorCount := lnAnchorCount lane, mtWorkCount := lnWorkCount lane,
       mtMaxTotalInputs := lnMaxTotalInputs lane,
       mtRelayerLagEntries := (if amCount message > lhCount (lnLive lane)
         then amCount message - lhCount (lnLive lane) else 0)\<rparr>)) (\<lambda>_.
     bindA (liftA (admit V E config bundle payload message lane)) (\<lambda>_.
     bindA (storeWithQuorum stores (rgStorageQuorum config) (sbCid bundle) bs) (\<lambda>stored.
     bindA (metric (\<lambda>m. m\<lparr>mtStorageExactSuccesses := int (length stored)\<rparr>)) (\<lambda>_.
     if exactResult (lnLive lane) message
     then bindA (metric (\<lambda>m. m\<lparr>mtRelayerLagEntries := 0\<rparr>)) (\<lambda>_. ret (success bundle message))
     else bindA (anchorOrRace chain bundle message lane) (\<lambda>r.
       case r of Some result \<Rightarrow> ret result | None \<Rightarrow> landed chain bundle message lane))))))))))"

section \<open>The body of an error\<close>

definition relayErrorBody :: "relay_error \<Rightarrow> RelayErrorBody" where
  "relayErrorBody e =
     (let internal = \<lparr>ebStatus = 500, ebCode = ''RELAY_INTERNAL'',
            ebMessage = ''relay failed without exposing internal or secret material'', ebRetryable = True,
            ebAction = Retry\<rparr> in
      case e of
        RelayError code message status retryable action \<Rightarrow>
          \<lparr>ebStatus = status, ebCode = code, ebMessage = message, ebRetryable = retryable, ebAction = action\<rparr>
      | ClientError (AppError code message) \<Rightarrow>
          if isClientError (AppError code message)
          then \<lparr>ebStatus = 422, ebCode = code, ebMessage = message, ebRetryable = False, ebAction = NoAction\<rparr>
          else internal
      | _ \<Rightarrow> internal)"

end
