(* ===== verification/OffchainHeads.thy ===== *)
theory OffchainHeads
  imports OffchainBundles
begin

text \<open>
  The heads of a log: what each one folds, and that a head determines its log unless the digest collides.
  The operations of a draft as an extension of a log, and the heads of an extended log.
\<close>

section \<open>Heads\<close>

lemma bindE_Inr_right: "bindE m Inr = m"
  by (cases m) simp_all

definition logHead :: "viem \<Rightarrow> LogEntry list \<Rightarrow> hex result" where
  "logHead V es = foldE (headStep V) ZERO32 es"

lemma logHead_snoc: "logHead V (es @ [e]) = bindE (logHead V es) (\<lambda>h. headStep V h e)"
  by (simp add: logHead_def foldE_append bindE_Inr_right)

definition headFold :: "viem \<Rightarrow> LogEntry list \<Rightarrow> (hex \<times> hex list) result" where
  "headFold V es = foldE (\<lambda>(head, heads) entry. bindE (headStep V head entry) (\<lambda>h. Inr (h, heads @ [h]))) (ZERO32, []) es"

lemma headFold_spec:
  "headFold V es = Inr (h, hs) \<Longrightarrow> logHead V es = Inr h \<and> length hs = length es \<and>
     (\<forall>i < length es. logHead V (take (Suc i) es) = Inr (hs ! i))"
proof (induction es arbitrary: h hs rule: rev_induct)
  case Nil
  then show ?case by (simp add: headFold_def logHead_def)
next
  case (snoc e es)
  from snoc.prems obtain h0 hs0 where f: "headFold V es = Inr (h0, hs0)" "headStep V h0 e = Inr h" "hs = hs0 @ [h]"
    by (auto simp: headFold_def foldE_append)
  from snoc.IH [OF f(1)] f(2,3) show ?case by (auto simp: logHead_snoc nth_append less_Suc_eq)
qed

lemma prefixHeads_spec:
  assumes "prefixHeads V es = Inr hs"
  shows "length hs = length es" and "i < length es \<Longrightarrow> logHead V (take (Suc i) es) = Inr (hs ! i)"
proof -
  from assms obtain h where "headFold V es = Inr (h, hs)" by (auto simp: prefixHeads_def headFold_def)
  from headFold_spec [OF this] show "length hs = length es" "i < length es \<Longrightarrow> logHead V (take (Suc i) es) = Inr (hs ! i)"
    by auto
qed

lemma prefixHead_spec:
  assumes "prefixHeads V es = Inr hs" and "prefixHead hs c = Some h"
  shows "0 \<le> c \<and> nat c \<le> length es \<and> logHead V (take (nat c) es) = Inr h"
proof (cases "c = 0")
  case True
  with assms(2) show ?thesis by (simp add: prefixHead_def logHead_def)
next
  case False
  with assms(2) have c: "0 \<le> c - 1" "c - 1 < int (length hs)" "h = hs ! nat (c - 1)"
    by (auto simp: prefixHead_def itemAt_def split: if_splits)
  moreover from c have "Suc (nat (c - 1)) = nat c" by simp
  ultimately show ?thesis
    using prefixHeads_spec(2) [OF assms(1), where i = "nat (c - 1)"] prefixHeads_spec(1) [OF assms(1)] by auto
qed

lemma lastItem_head:
  assumes "prefixHeads V es = Inr hs" and "lastItem hs = Some h"
  shows "logHead V es = Inr h"
proof -
  have ne: "hs \<noteq> []" "h = last hs" using assms(2) by (auto simp: lastItem_def split: if_splits)
  with prefixHeads_spec(1) [OF assms(1)] prefixHeads_spec(2) [OF assms(1), where i = "length es - 1"] show ?thesis by (cases es) (auto simp: last_conv_nth)
qed

section \<open>A head binds its log\<close>

text \<open>The ABI encoding of the two kinds of values a head hashes.\<close>

definition abiWordLaw :: "viem \<Rightarrow> bool" where
  "abiWordLaw V \<longleftrightarrow>
     (\<forall>a b e. encodeAbi V [AbiBytes32 a, AbiBytes32 b] = Inr e \<longrightarrow>
        length a = 66 \<and> length b = 66 \<and> e = ''0x'' @ drop 2 a @ drop 2 b) \<and>
     (\<forall>k u e. encodeAbi V [AbiUint 8 k, AbiBytes32 u] = Inr e \<longrightarrow>
        0 \<le> k \<and> k < 256 \<and> length u = 66 \<and> e = ''0x'' @ hexDigits 64 (nat k) @ drop 2 u)"

text \<open>Everything hashed on the way to a head.\<close>

definition entryInputs :: "viem \<Rightarrow> hex \<Rightarrow> LogEntry \<Rightarrow> hex set" where
  "entryInputs V h e = {x. encodeAbi V [AbiUint 8 (leKind e), AbiBytes32 (leUid e)] = Inr x} \<union>
     {x. \<exists>leaf. entryLeaf V (leKind e) (leUid e) = Inr leaf \<and> encodeAbi V [AbiBytes32 h, AbiBytes32 leaf] = Inr x}"

definition headInputs :: "viem \<Rightarrow> LogEntry list \<Rightarrow> hex set" where
  "headInputs V es = (\<Union>i \<in> {..<length es}. \<Union>h \<in> {h. logHead V (take i es) = Inr h}. entryInputs V h (es ! i))"

lemma headInputs_snoc:
  "headInputs V (es @ [e]) = headInputs V es \<union> (\<Union>h \<in> {h. logHead V es = Inr h}. entryInputs V h e)"
  by (simp add: headInputs_def lessThan_Suc nth_append Un_commute)

lemma same_length_split:
  assumes "length a = length b" and "a @ x = b @ y"
  shows "a = b \<and> x = y"
  using assms by simp

lemma word_eq: "take 2 u = ''0x'' \<Longrightarrow> take 2 v = ''0x'' \<Longrightarrow> drop 2 u = drop 2 v \<Longrightarrow> u = (v :: string)"
  by (metis append_take_drop_id)

lemma digest_inj:
  assumes "digestLaw V" and "inj_on (keccak256 V) S" and "c \<in> S" and "d \<in> S"
    and "drop 2 (keccak256 V c) = drop 2 (keccak256 V d)"
  shows "c = d"
proof -
  have "keccak256 V c = keccak256 V d"
    using assms(1,5) word_eq [of "keccak256 V c" "keccak256 V d"] by (simp add: digestLaw_def isWord_def)
  with assms(2-4) show ?thesis by (auto dest: inj_onD)
qed

lemma step_binding:
  assumes law: "abiWordLaw V" "digestLaw V"
    and inj: "inj_on (keccak256 V) (entryInputs V h e \<union> entryInputs V h' e')"
    and hex: "take 2 (leUid e) = ''0x''" "take 2 (leUid e') = ''0x''"
    and s: "headStep V h e = Inr x" "headStep V h' e' = Inr x"
  shows "drop 2 h = drop 2 h' \<and> leKind e = leKind e' \<and> leUid e = leUid e'"
proof -
  from s obtain c c' d d' where
    c: "encodeAbi V [AbiUint 8 (leKind e), AbiBytes32 (leUid e)] = Inr c"
      "encodeAbi V [AbiUint 8 (leKind e'), AbiBytes32 (leUid e')] = Inr c'"
    and d: "encodeAbi V [AbiBytes32 h, AbiBytes32 (keccak256 V c)] = Inr d"
      "encodeAbi V [AbiBytes32 h', AbiBytes32 (keccak256 V c')] = Inr d'" "keccak256 V d = keccak256 V d'"
    by (auto simp: headStep_def entryLeaf_def)
  let ?S = "entryInputs V h e \<union> entryInputs V h' e'"
  have "d \<in> ?S" "d' \<in> ?S" "c \<in> ?S" "c' \<in> ?S" using c d by (auto simp: entryInputs_def entryLeaf_def)
  note S = this
  have eq: "d = d'" using digest_inj [OF law(2) inj S(1,2)] d(3) by simp
  have w: "length h = 66" "d = ''0x'' @ drop 2 h @ drop 2 (keccak256 V c)"
    using law(1) d(1) unfolding abiWordLaw_def by blast+
  have w': "length h' = 66" "d' = ''0x'' @ drop 2 h' @ drop 2 (keccak256 V c')"
    using law(1) d(2) unfolding abiWordLaw_def by blast+
  have len: "length (drop 2 h) = length (drop 2 h')" using w(1) w'(1) by simp
  have "drop 2 h @ drop 2 (keccak256 V c) = drop 2 h' @ drop 2 (keccak256 V c')"
    using trans [OF trans [OF w(2) [symmetric] eq] w'(2)] by (simp only: append_Cons append_Nil list.inject)
  then have h: "drop 2 h = drop 2 h'" "drop 2 (keccak256 V c) = drop 2 (keccak256 V c')"
    using same_length_split [OF len] by blast+
  have k: "0 \<le> leKind e" "leKind e < 256" "c = ''0x'' @ hexDigits 64 (nat (leKind e)) @ drop 2 (leUid e)"
    using law(1) c(1) unfolding abiWordLaw_def by blast+
  have k': "0 \<le> leKind e'" "leKind e' < 256" "c' = ''0x'' @ hexDigits 64 (nat (leKind e')) @ drop 2 (leUid e')"
    using law(1) c(2) unfolding abiWordLaw_def by blast+
  have "hexDigits 64 (nat (leKind e)) @ drop 2 (leUid e) = hexDigits 64 (nat (leKind e')) @ drop 2 (leUid e')"
    using trans [OF trans [OF k(3) [symmetric] digest_inj [OF law(2) inj S(3,4) h(2)]] k'(3)] by (simp only: append_Cons append_Nil list.inject)
  then have "hexDigits 64 (nat (leKind e)) = hexDigits 64 (nat (leKind e'))" "drop 2 (leUid e) = drop 2 (leUid e')"
    using same_length_split [OF trans [OF length_hexDigits [of 64] length_hexDigits [of 64, symmetric]]] by blast+
  moreover have "nat (leKind e) < 16 ^ 64" "nat (leKind e') < 16 ^ 64" using k(2) k'(2) by simp_all
  ultimately have "nat (leKind e) = nat (leKind e')" "leUid e = leUid e'"
    using hexDigits_inj [of "nat (leKind e)" 64 "nat (leKind e')"] word_eq [OF hex] by blast+
  then have "leKind e = leKind e'" "leUid e = leUid e'" using k(1) k'(1) by simp_all
  with h(1) show ?thesis by simp
qed

lemma headStep_word: "digestLaw V \<Longrightarrow> headStep V h e = Inr x \<Longrightarrow> take 2 x = ''0x''"
  by (auto simp: headStep_def digestLaw_def isWord_def)

lemma logHead_word: "digestLaw V \<Longrightarrow> logHead V es = Inr h \<Longrightarrow> take 2 h = ''0x''"
proof (cases es rule: rev_cases)
  case Nil
  moreover assume "logHead V es = Inr h"
  ultimately have "h = ZERO32" by (simp add: logHead_def)
  then show ?thesis by (simp add: ZERO32_def)
qed (auto simp: logHead_snoc headStep_word)

text \<open>Two logs of one length with one head are the same log, unless the digest collides on what they hash.\<close>

lemma logHead_binding:
  assumes law: "abiWordLaw V" "digestLaw V"
  shows "length es = length es' \<Longrightarrow> logHead V es = Inr h \<Longrightarrow> logHead V es' = Inr h \<Longrightarrow>
    inj_on (keccak256 V) (headInputs V es \<union> headInputs V es') \<Longrightarrow>
    (\<forall>e \<in> set es \<union> set es'. take 2 (leUid e) = ''0x'') \<Longrightarrow> es = (es' :: LogEntry list)"
proof (induction es arbitrary: es' h rule: rev_induct)
  case (snoc e es)
  from snoc.prems(1) obtain e' fs where es': "es' = fs @ [e']" "length es = length fs"
    by (cases es' rule: rev_cases) auto
  from snoc.prems(2,3) es' obtain g g' where g: "logHead V es = Inr g" "headStep V g e = Inr h"
    "logHead V fs = Inr g'" "headStep V g' e' = Inr h" by (auto simp: logHead_snoc)
  have "entryInputs V g e \<union> entryInputs V g' e' \<subseteq> headInputs V (es @ [e]) \<union> headInputs V es'"
    using g(1,3) unfolding es'(1) headInputs_snoc by auto
  then have "inj_on (keccak256 V) (entryInputs V g e \<union> entryInputs V g' e')"
    using snoc.prems(4) inj_on_subset by blast
  then have s: "drop 2 g = drop 2 g'" "leKind e = leKind e'" "leUid e = leUid e'"
    using step_binding [OF law _ _ _ g(2,4)] snoc.prems(5) es'(1) by auto
  have "g = g'" using word_eq [OF logHead_word [OF law(2) g(1)] logHead_word [OF law(2) g(3)] s(1)] .
  moreover have "inj_on (keccak256 V) (headInputs V es \<union> headInputs V fs)"
    using snoc.prems(4) unfolding es'(1) headInputs_snoc by (rule inj_on_subset) auto
  ultimately have "es = fs" using snoc.IH [OF es'(2) g(1)] g(3) snoc.prems(5) es'(1) by auto
  moreover have "e = e'" using s(2,3) by (intro LogEntry.equality) simp_all
  ultimately show ?case using es'(1) by simp
qed simp

section \<open>Draft operations\<close>

fun opEntry :: "DraftOperation \<Rightarrow> LogEntry" where
  "opEntry (Attest a) = \<lparr>leKind = 0, leUid = caUid a\<rparr>"
| "opEntry (Revoke uid) = \<lparr>leKind = 1, leUid = uid\<rparr>"

fun opBodies :: "DraftOperation \<Rightarrow> CanonicalAttestation list" where
  "opBodies (Attest a) = [a]"
| "opBodies (Revoke uid) = []"

definition extended :: "PayloadV1 \<Rightarrow> DraftOperation list \<Rightarrow> PayloadV1" where
  "extended p ops = p\<lparr>plEntries := plEntries p @ map opEntry ops,
     plAttestations := plAttestations p @ concat (map opBodies ops)\<rparr>"

text \<open>The state of the loop follows the log: the sets hold the attested and the live identifiers.\<close>

definition draftOf :: "DraftState \<Rightarrow> PayloadV1 \<Rightarrow> bool" where
  "draftOf st p \<longleftrightarrow> dsPayload st = p \<and> set (dsSeen st) = set (attested (plEntries p)) \<and>
     set (dsLive st) = set (attested (plEntries p)) - set (revoked (plEntries p))"

lemma draftStart_of: "draftOf (draftStart p) p"
proof -
  have "set (foldl (\<lambda>live e. if leKind e = 1 then removeAll (leUid e) live else live) xs es) = set xs - set (revoked es)"
    for xs es by (induction es rule: rev_induct) (auto simp: log_single)
  then show ?thesis by (simp add: draftOf_def draftStart_def Let_def set_newSet attested_def)
qed

lemma applyOperation_of:
  assumes "draftOf st p" and "logOk (plEntries p)"
  shows "if entryOk (plEntries p) (opEntry oper) then \<exists>st'. applyOperation st oper = Inr st' \<and> draftOf st' (extended p [oper])
    else \<exists>code msg. applyOperation st oper = failE0 code msg"
proof (cases oper)
  case (Attest a)
  have "caUid a \<notin> set (attested (plEntries p)) \<Longrightarrow> caUid a \<notin> set (revoked (plEntries p))"
    using logOk_sets [OF assms(2)] by blast
  with Attest assms(1) show ?thesis
    by (auto simp: applyOperation_def draftOf_def extended_def entryOk_def log_single setAdd_def requireE0_def failE0_def)
next
  case (Revoke uid)
  with assms(1) logOk_sets [OF assms(2)] show ?thesis
    by (auto simp: applyOperation_def draftOf_def extended_def entryOk_def log_single requireE0_def failE0_def)
qed

lemma extended_Nil [simp]: "extended p [] = p"
  by (simp add: extended_def)

lemma extended_snoc: "extended p (ops @ [oper]) = extended (extended p ops) [oper]"
  by (simp add: extended_def)

lemma extended_entries [simp]: "plEntries (extended p ops) = plEntries p @ map opEntry ops"
  "plAttestations (extended p ops) = plAttestations p @ concat (map opBodies ops)" "plOwner (extended p ops) = plOwner p"
  by (simp_all add: extended_def)

lemma applyOperations_fold:
  assumes "logOk (plEntries p)"
  shows "if logOk (plEntries (extended p ops))
    then \<exists>st. foldE applyOperation (draftStart p) ops = Inr st \<and> draftOf st (extended p ops)
    else \<exists>code msg. foldE applyOperation (draftStart p) ops = failE0 code msg"
proof (induction ops rule: rev_induct)
  case Nil
  show ?case using assms draftStart_of [of p] by simp
next
  case (snoc oper ops)
  show ?case
  proof (cases "logOk (plEntries (extended p ops))")
    case True
    with snoc.IH obtain st where st: "foldE applyOperation (draftStart p) ops = Inr st" "draftOf st (extended p ops)" by auto
    have ok: "logOk (plEntries (extended p (ops @ [oper]))) \<longleftrightarrow> entryOk (plEntries (extended p ops)) (opEntry oper)"
      using True logOk_snoc [of "plEntries (extended p ops)" "opEntry oper"] by simp
    have run: "foldE applyOperation (draftStart p) (ops @ [oper]) = applyOperation st oper"
      using st(1) by (simp add: foldE_append bindE_Inr_right)
    show ?thesis unfolding ok unfolding run extended_snoc by (rule applyOperation_of [OF st(2) True])
  next
    case False
    then have "\<not> logOk (plEntries (extended p (ops @ [oper])))"
      using logOk_snoc [of "plEntries (extended p ops)" "opEntry oper"] by simp
    moreover from False snoc.IH obtain code msg where "foldE applyOperation (draftStart p) ops = failE0 code msg" by auto
    ultimately show ?thesis by (simp add: foldE_append failE0_def)
  qed
qed

definition canonicalBase :: "PayloadV1 option \<Rightarrow> hex \<Rightarrow> PayloadV1" where
  "canonicalBase p owner = (case p of Some q \<Rightarrow> q | None \<Rightarrow> \<lparr>plOwner = owner, plEntries = [], plAttestations = []\<rparr>)"

lemma applyOperations_iff:
  assumes "logOk (plEntries (canonicalBase p owner))"
  shows "applyOperations p owner ops = Inr q \<longleftrightarrow>
    toLowerCase (plOwner (canonicalBase p owner)) = toLowerCase owner \<and>
    logOk (plEntries (extended (canonicalBase p owner) ops)) \<and> q = extended (canonicalBase p owner) ops"
proof -
  have "bindE (foldE applyOperation (draftStart c) ops) (\<lambda>st. Inr (dsPayload st)) = Inr q \<longleftrightarrow>
      logOk (plEntries (extended c ops)) \<and> q = extended c ops" if "logOk (plEntries c)" for c
    using applyOperations_fold [OF that, of ops] by (auto simp: draftOf_def failE0_def split: if_splits)
  note run = this [OF assms]
  have "applyOperations p owner ops = bindE (requireE0 (toLowerCase (plOwner (canonicalBase p owner)) = toLowerCase owner)
      ''E0_NODE_ID'' ''canonical payload belongs to another owner'')
      (\<lambda>_. bindE (foldE applyOperation (draftStart (canonicalBase p owner)) ops) (\<lambda>st. Inr (dsPayload st)))"
    by (simp only: applyOperations_def canonicalBase_def Let_def)
  moreover have "bindE (requireE0 c x y) (\<lambda>_. m) = Inr z \<longleftrightarrow> c \<and> m = Inr z" for c x y and m :: "PayloadV1 result" and z
    by (simp add: requireE0_def throwWhen_def)
  ultimately show ?thesis by (simp only: run)
qed

text \<open>Operations whose bodies are valid keep a valid payload valid.\<close>

lemma attested_ops: "attested (map opEntry ops) = map caUid (concat (map opBodies ops))"
proof (induction ops)
  case (Cons oper ops)
  then show ?case by (cases oper) (simp_all add: attested_def)
qed simp

lemma extended_ok:
  assumes "plEntries p = [] \<and> plAttestations p = [] \<or> payloadOk E p schema" and "ops \<noteq> []"
    and "logOk (plEntries (extended p ops))" and "length (plEntries (extended p ops)) \<le> MAX_ENTRIES_PER_NODE"
    and "\<forall>oper \<in> set ops. hexOf 32 (leUid (opEntry oper)) \<and> (\<forall>a \<in> set (opBodies oper). validateAttestation E a schema = Inr ())"
  shows "payloadOk E (extended p ops) schema"
  using assms attested_ops [of ops] by (auto simp: payloadOk_def)

section \<open>The next message of a draft applied to the live state\<close>

lemma prefixHeads_ok:
  assumes "abiLaw V" and "digestLaw V" and "\<forall>e \<in> set es. abiFits (AbiUint 8 (leKind e)) \<and> isPart (leUid e)"
  shows "\<exists>hs. prefixHeads V es = Inr hs"
proof -
  have "\<exists>h hs. headFold V es = Inr (h, hs) \<and> isPart h"
    using assms(3)
  proof (induction es rule: rev_induct)
    case Nil
    have "isPart ZERO32" unfolding ZERO32_def by code_simp
    then show ?case by (simp add: headFold_def)
  next
    case (snoc e es)
    then obtain h hs where h: "headFold V es = Inr (h, hs)" "isPart h" by auto
    have fit: "\<forall>v \<in> set [AbiUint 8 (leKind e), AbiBytes32 (leUid e)]. abiFits v" using snoc.prems by auto
    obtain x where x: "encodeAbi V [AbiUint 8 (leKind e), AbiBytes32 (leUid e)] = Inr x"
      using assms(1) fit unfolding abiLaw_def by blast
    have "\<forall>v \<in> set [AbiBytes32 h, AbiBytes32 (keccak256 V x)]. abiFits v"
      using h(2) isPart_digest [OF assms(2)] by auto
    then obtain y where y: "encodeAbi V [AbiBytes32 h, AbiBytes32 (keccak256 V x)] = Inr y"
      using assms(1) unfolding abiLaw_def by blast
    show ?case using h x y isPart_digest [OF assms(2)] by (simp add: headFold_def foldE_append headStep_def entryLeaf_def)
  qed
  then show ?thesis by (auto simp: prefixHeads_def headFold_def)
qed

lemma prefixHeads_take:
  assumes "prefixHeads V es = Inr hs" and "prefixHeads V (es @ fs) = Inr hs'"
  shows "take (length es) hs' = hs"
proof (rule nth_equalityI)
  have len: "length hs = length es" "length hs' = length es + length fs"
    using prefixHeads_spec(1) [OF assms(1)] prefixHeads_spec(1) [OF assms(2)] by simp_all
  then show "length (take (length es) hs') = length hs" by simp
  show "take (length es) hs' ! i = hs ! i" if i: "i < length (take (length es) hs')" for i
    using prefixHeads_spec(2) [OF assms(1), where i = i] prefixHeads_spec(2) [OF assms(2), where i = i] i len by simp
qed

end
