(* ===== verification/RelayRuns.thy ===== *)
theory RelayRuns
  imports Relay OffchainHeads "HOL-Library.Sublist"
begin

text \<open>
  What a submission that returns went through: rules for the steps of a run, the stores and the admission.
  A created bundle passes the validation, and an admitted one extends the log the chain holds.
  What the anchoring calls depend on, and the rate limiter over a sequence of requests.
\<close>

section \<open>Running a request\<close>

lemma bindA_Inr: "bindA m f s = (Inr y, t) \<longleftrightarrow> (\<exists>x s1. m s = (Inr x, s1) \<and> f x s1 = (Inr y, t))"
  by (auto simp: bindA_def split: prod.splits sum.splits)

lemma bindA_Inl: "m s = (Inl e, t) \<Longrightarrow> bindA m f s = (Inl e, t)"
  by (simp add: bindA_def)

lemma bindA_step: "m s = (Inr x, s1) \<Longrightarrow> bindA m f s = f x s1"
  by (simp add: bindA_def)

lemma act_simps: "ret x s = (Inr y, t) \<longleftrightarrow> x = y \<and> t = s" "\<not> raise e s = (Inr y, t)"
  "metric f s = (Inr u, t) \<longleftrightarrow> t = s\<lparr>stMetrics := f (stMetrics s)\<rparr>"
  "ensureA ok e s = (Inr u, t) \<longleftrightarrow> ok \<and> t = s" "liftA r s = (Inr z, t) \<longleftrightarrow> r = Inr z \<and> t = s"
  by (auto simp: ret_def raise_def metric_def ensureA_def liftA_def)

lemma outside_Inr: "outside f s = (Inr x, t) \<longleftrightarrow> (\<exists>w. f (stWorld s) = (Inr x, w) \<and> t = s\<lparr>stWorld := w\<rparr>)"
  by (auto simp: outside_def split: prod.splits)

lemma validated_Inr: "validated V E bundle s = (Inr v, t) \<longleftrightarrow> validateSignedBundle V E bundle = Inr v \<and> t = s"
  by (auto simp: validated_def bindA_def metric_def raise_def ret_def split: sum.splits)

lemma takeSlot_Inr: "takeSlot limit n now s = (Inr u, t) \<longleftrightarrow>
    (\<exists>evs. limiterTake limit n now (stEvents s) = Inr evs \<and> t = s\<lparr>stEvents := evs\<rparr>)"
  by (auto simp: takeSlot_def split: sum.splits)

lemma storeWithQuorum_Inr: "storeWithQuorum stores quorumSize cid bs s = (Inr accepted, t) \<longleftrightarrow>
    (\<exists>w. storeAll stores cid bs (stWorld s) = (accepted, w) \<and> quorumSize \<le> int (length accepted) \<and> t = s\<lparr>stWorld := w\<rparr>)"
  by (auto simp: storeWithQuorum_def bindA_Inr act_simps outside_Inr split: prod.splits)

lemmas run_simps = bindA_Inr act_simps outside_Inr validated_Inr takeSlot_Inr storeWithQuorum_Inr

section \<open>Storage\<close>

text \<open>A store holds the bytes when it returned exactly them in some state of the world.\<close>

definition returnedBytes :: "'w blob_store \<Rightarrow> string \<Rightarrow> bytes \<Rightarrow> bool" where
  "returnedBytes store cid bs \<longleftrightarrow> (\<exists>w w'. bsPutAndRead store cid bs w = (Inr bs, w'))"

lemma storeAll_accepted:
  "storeAll stores cid bs w = (accepted, w') \<Longrightarrow>
     \<exists>kept. subseq kept stores \<and> accepted = map bsName kept \<and> (\<forall>store \<in> set kept. returnedBytes store cid bs)"
proof (induction stores arbitrary: w accepted w')
  case (Cons store stores)
  obtain r w1 where r: "bsPutAndRead store cid bs w = (r, w1)" by fastforce
  obtain acc w2 where a: "storeAll stores cid bs w1 = (acc, w2)" by fastforce
  from Cons.IH [OF a] obtain kept where
    k: "subseq kept stores" "acc = map bsName kept" "\<forall>store \<in> set kept. returnedBytes store cid bs"
    by blast
  show ?case
  proof (cases "r = Inr bs")
    case True
    then have "accepted = bsName store # acc" using Cons.prems r a by (simp add: equalBytes_eq)
    moreover have "returnedBytes store cid bs" using r True by (auto simp: returnedBytes_def)
    ultimately show ?thesis using k by (intro exI [of _ "store # kept"]) auto
  next
    case False
    then have "accepted = acc" using Cons.prems r a by (auto simp: equalBytes_eq split: sum.splits)
    with k show ?thesis by (intro exI [of _ kept]) (auto intro: list_emb_Cons)
  qed
qed simp

section \<open>Admission\<close>

lemma client_Inr [simp]: "client r = Inr x \<longleftrightarrow> r = Inr x"
  by (cases r) (auto simp: client_def)

lemma refuseWhen_Inr: "refuseWhen c e = Inr u \<longleftrightarrow> c = Inr False"
  by (cases c) (auto simp: refuseWhen_def client_def)

lemma assertTransition_Inr: "assertTransition heads live message = Inr u \<longleftrightarrow>
    exactResult live message \<or> lhCount live < amCount message \<and> amPreviousHead message = lhHead live \<and>
      prefixHead heads (lhCount live) = Some (lhHead live)"
  by (auto simp: assertTransition_def exactResult_def)

lemma admit_Inr: "admit V E config bundle payload message lane = Inr u \<longleftrightarrow>
    assertLane V E config bundle lane message = Inr () \<and>
    assertNoFutureAttestations (plAttestations payload) (lnLatestBlockTimestamp lane) = Inr () \<and>
    (\<exists>heads. prefixHeads V (plEntries payload) = Inr heads \<and> assertTransition heads (lnLive lane) message = Inr ()) \<and>
    assertCapacity lane message = Inr ()"
  by (auto simp: admit_def bindE_Inr_conv)

section \<open>A submission that succeeds\<close>

lemma raced_Inr: "raced chain bundle message lane s = (Inr r, t) \<Longrightarrow>
    r = success bundle message \<and> (\<exists>live. chLive chain (amNodeId message) (stWorld s) = (Inr live, stWorld t) \<and>
      exactResult live message)"
  by (auto simp: raced_def run_simps split: if_splits)

lemma landed_Inr: "landed chain bundle message lane s = (Inr r, t) \<Longrightarrow>
    r = success bundle message \<and> (\<exists>live. chLive chain (amNodeId message) (stWorld s) = (Inr live, stWorld t) \<and>
      exactResult live message)"
  by (auto simp: landed_def run_simps)

lemma anchorOrRace_Inr: "anchorOrRace chain bundle message lane s = (Inr (Some r), t) \<Longrightarrow>
    \<exists>s1. raced chain bundle message lane s1 = (Inr r, t)"
  by (auto simp: anchorOrRace_def catchA_def run_simps bindA_def outside_def ret_def split: prod.splits sum.splits)

text \<open>The chain was read at the end and held exactly the requested state.\<close>

definition confirmed :: "'w relay_chain \<Rightarrow> AnchorMessage \<Rightarrow> 'w \<Rightarrow> bool" where
  "confirmed chain message w \<longleftrightarrow> (\<exists>w0 live. chLive chain (amNodeId message) w0 = (Inr live, w) \<and> exactResult live message)"

definition storedBy :: "'w blob_store list \<Rightarrow> int \<Rightarrow> string \<Rightarrow> bytes \<Rightarrow> bool" where
  "storedBy stores quorumSize cid bs \<longleftrightarrow>
     (\<exists>kept. subseq kept stores \<and> quorumSize \<le> int (length kept) \<and> (\<forall>store \<in> set kept. returnedBytes store cid bs))"

lemma submit_Inr:
  assumes "submit V E config chain stores bundle now s = (Inr r, t)"
  obtains payload bs message lane w0 w1 evs where
    "validateSignedBundle V E bundle = Inr (payload, bs, message)" "int (length bs) \<le> rgMaxPayloadBytes config"
    "limiterTake (rgNodeRequestsPerMinute config) (toLowerCase (amNodeId message)) now (stEvents s) = Inr evs"
    "chLane chain (amNodeId message) (stWorld s) = (Inr lane, w0)"
    "admit V E config bundle payload message lane = Inr ()"
    "storedBy stores (rgStorageQuorum config) (sbCid bundle) bs"
    "r = success bundle message"
    "exactResult (lnLive lane) message \<or> confirmed chain message (stWorld t)"
proof -
  from assms obtain payload bs message lane evs w0 s1 accepted w2 s2 where
    v: "validateSignedBundle V E bundle = Inr (payload, bs, message)" "int (length bs) \<le> rgMaxPayloadBytes config"
    and l: "limiterTake (rgNodeRequestsPerMinute config) (toLowerCase (amNodeId message)) now (stEvents s) = Inr evs"
    "chLane chain (amNodeId message) (stWorld s) = (Inr lane, w0)"
    and a: "admit V E config bundle payload message lane = Inr ()"
    and st: "storeAll stores (sbCid bundle) bs w0 = (accepted, w2)" "rgStorageQuorum config \<le> int (length accepted)"
    and fin: "(if exactResult (lnLive lane) message
      then bindA (metric (\<lambda>m. m\<lparr>mtRelayerLagEntries := 0\<rparr>)) (\<lambda>_. ret (success bundle message))
      else bindA (anchorOrRace chain bundle message lane) (\<lambda>r.
        case r of Some result \<Rightarrow> ret result | None \<Rightarrow> landed chain bundle message lane)) s2 = (Inr r, t)"
    unfolding submit_def by (auto simp only: run_simps split: prod.splits) auto
  from storeAll_accepted [OF st(1)] st(2) have "storedBy stores (rgStorageQuorum config) (sbCid bundle) bs"
    by (auto simp: storedBy_def)
  moreover have "r = success bundle message \<and> (exactResult (lnLive lane) message \<or> confirmed chain message (stWorld t))"
  proof (cases "exactResult (lnLive lane) message")
    case True
    with fin show ?thesis by (auto simp: run_simps)
  next
    case False
    with fin obtain x s3 where x: "anchorOrRace chain bundle message lane s2 = (Inr x, s3)"
      "(case x of Some result \<Rightarrow> ret result | None \<Rightarrow> landed chain bundle message lane) s3 = (Inr r, t)"
      by (auto simp: bindA_Inr)
    show ?thesis
    proof (cases x)
      case None
      with x(2) landed_Inr show ?thesis by (fastforce simp: confirmed_def)
    next
      case (Some y)
      with x obtain s4 where "raced chain bundle message lane s4 = (Inr r, t)"
        using anchorOrRace_Inr by (fastforce simp: act_simps)
      from raced_Inr [OF this] show ?thesis by (auto simp: confirmed_def)
    qed
  qed
  ultimately show ?thesis using that v l a by blast
qed

section \<open>A created bundle validates\<close>

text \<open>\<open>getAddress\<close> depends on the digits of an address only.\<close>

definition addressLaw :: "eas_kit \<Rightarrow> bool" where
  "addressLaw E \<longleftrightarrow> checksumLaw E \<and> (\<forall>a. hexOf 20 a \<longrightarrow> getAddress E a = getAddress E (toLowerCase a))"

lemma checksummed_self: "addressLaw E \<Longrightarrow> checksummed E c \<Longrightarrow> getAddress E c = Inr c"
proof -
  assume law: "addressLaw E" and c: "checksummed E c"
  have "getAddress E c = getAddress E (toLowerCase c)" using law c unfolding addressLaw_def checksummed_def by blast
  also have "\<dots> = Inr c" using c unfolding checksummed_def by blast
  finally show ?thesis .
qed

lemma address_again: "addressLaw E \<Longrightarrow> getAddress E a = Inr c \<Longrightarrow> getAddress E c = Inr c"
  using checksummed_self unfolding addressLaw_def checksumLaw_def by blast

lemma buildNextMessage_Inr:
  assumes "buildNextMessage V E p schema live = Inr (bs, cid, m)"
  obtains heads nodeId where "prefixHeads V (plEntries p) = Inr heads"
    and "lhCount live < int (length (plEntries p))" and "prefixHead heads (lhCount live) = Some (lhHead live)"
    and "encodePayload E p = Inr bs" and "rawCid (payloadCommitment V bs) = Inr cid"
    and "addressNodeId V (plOwner p) = Inr nodeId"
    and "m = \<lparr>amNodeId = nodeId, amEnvelopeKind = 0, amSchemaUid = schema, amPreviousHead = lhHead live,
      amHead = orDefault (lastItem heads) [], amCount = int (length (plEntries p)), amDataCommitment = payloadCommitment V bs\<rparr>"
  using assms unfolding buildNextMessage_def Let_def by (elim bindE_InrE) auto

lemma prefixHead_member:
  assumes "prefixHead heads c = Some h" and "c < int (length heads)"
  shows "h = ZERO32 \<or> h \<in> set (butlast heads)"
proof (cases "c = 0")
  case False
  with assms have "0 \<le> c - 1" "nat (c - 1) < length heads - 1" "h = heads ! nat (c - 1)"
    by (auto simp: prefixHead_def itemAt_def split: if_splits)
  then show ?thesis by (metis length_butlast nth_butlast nth_mem)
qed (use assms(1) in \<open>simp add: prefixHead_def\<close>)

text \<open>What the wallet signs recovers to its address, and the bodies carry signatures of the owner.\<close>

definition walletLaw :: "eas_kit \<Rightarrow> wallet_signer \<Rightarrow> int \<Rightarrow> hex \<Rightarrow> bool" where
  "walletLaw E wallet chain registry \<longleftrightarrow> (\<forall>m sig registry'. wsSignHead wallet (headDomain chain registry) m = Inr sig \<longrightarrow>
     getAddress E registry = Inr registry' \<longrightarrow> recoverTypedHead E m sig chain registry' = Inr (wsAddress wallet))"

definition bodiesSigned :: "eas_kit \<Rightarrow> PayloadV1 \<Rightarrow> EasDomain \<Rightarrow> bool" where
  "bodiesSigned E p eas \<longleftrightarrow> (\<forall>a \<in> set (plAttestations p). \<forall>c. getAddress E (edAddress eas) = Inr c \<longrightarrow>
     verifyEasV2Attestation E a (plOwner p) (eas\<lparr>edAddress := c\<rparr>) = Inr True)"

lemma createSignedBundle_Inr:
  assumes "createSignedBundle V E p live schema eas registry wallet = Inr b"
  obtains owner bs cid m sig registry' easAddress where "getAddress E (wsAddress wallet) = Inr owner"
    and "getAddress E (plOwner p) = Inr owner" and "buildNextMessage V E p schema live = Inr (bs, cid, m)"
    and "wsSignHead wallet (headDomain (edChainId eas) registry) m = Inr sig" and "assertCanonicalSignature sig = Inr ()"
    and "getAddress E registry = Inr registry'" and "getAddress E (edAddress eas) = Inr easAddress"
    and "b = \<lparr>sbProtocol = ''TrustgraphsEasOffchainBundleV1'', sbChainId = bigToString (edChainId eas),
       sbRegistry = registry', sbEasAddress = easAddress, sbEasVersion = edVersion eas, sbSchemaUid = schema,
       sbOwner = owner, sbPayloadHex = offBytesToHex bs, sbCid = cid, sbDataCommitment = amDataCommitment m,
       sbMessage = m, sbCountText = bigToString (amCount m), sbHeadSignature = sig\<rparr>"
  using assms unfolding createSignedBundle_def signHead_def case_prod_beta
  by (elim bindE_InrE) (auto simp: prod_eq_iff)

lemma foldE_unit: "(\<forall>a \<in> set xs. f a = Inr ()) \<Longrightarrow> foldE (\<lambda>_. f) () xs = Inr ()"
  by (induction xs) auto

lemma created_validates:
  assumes law: "addressLaw E" and plain: "plainPayload E p" and schema: "toLowerCase schema = toLowerCase (schemaOf p)"
    and chain: "0 \<le> edChainId eas" and wallet: "walletLaw E wallet (edChainId eas) registry" and signed: "bodiesSigned E p eas"
    and created: "createSignedBundle V E p live schema eas registry wallet = Inr b"
  shows "\<exists>bs cid m. buildNextMessage V E p schema live = Inr (bs, cid, m) \<and> validateSignedBundle V E b = Inr (p, bs, m)"
proof -
  obtain owner bs cid m sig registry' easAddress where
    own: "getAddress E (wsAddress wallet) = Inr owner" "getAddress E (plOwner p) = Inr owner"
    and next': "buildNextMessage V E p schema live = Inr (bs, cid, m)"
    and sig: "wsSignHead wallet (headDomain (edChainId eas) registry) m = Inr sig" "assertCanonicalSignature sig = Inr ()"
    and addr: "getAddress E registry = Inr registry'" "getAddress E (edAddress eas) = Inr easAddress"
    and b: "b = \<lparr>sbProtocol = ''TrustgraphsEasOffchainBundleV1'', sbChainId = bigToString (edChainId eas),
       sbRegistry = registry', sbEasAddress = easAddress, sbEasVersion = edVersion eas, sbSchemaUid = schema,
       sbOwner = owner, sbPayloadHex = offBytesToHex bs, sbCid = cid, sbDataCommitment = amDataCommitment m,
       sbMessage = m, sbCountText = bigToString (amCount m), sbHeadSignature = sig\<rparr>"
    using created by (elim createSignedBundle_Inr)
  obtain heads nodeId where heads: "prefixHeads V (plEntries p) = Inr heads"
    and live: "lhCount live < int (length (plEntries p))" "prefixHead heads (lhCount live) = Some (lhHead live)"
    and enc: "encodePayload E p = Inr bs" "rawCid (payloadCommitment V bs) = Inr cid"
    and nodeId: "addressNodeId V (plOwner p) = Inr nodeId"
    and m: "m = \<lparr>amNodeId = nodeId, amEnvelopeKind = 0, amSchemaUid = schema, amPreviousHead = lhHead live,
      amHead = orDefault (lastItem heads) [], amCount = int (length (plEntries p)), amDataCommitment = payloadCommitment V bs\<rparr>"
    using next' by (elim buildNextMessage_Inr)
  have again: "getAddress E owner = Inr owner" "getAddress E registry' = Inr registry'" "getAddress E easAddress = Inr easAddress"
    using address_again [OF law] own(2) addr by blast+
  have dec: "decodePayload E bs schema = Inr p" by (rule decode_encoded [OF plain enc(1) schema])
  have len: "length heads = length (plEntries p)" by (rule prefixHeads_spec(1) [OF heads])
  have ne: "plEntries p \<noteq> []" using decodePayload_parts(2) [OF dec] by (simp add: payloadOk_def)
  then have last: "lastItem heads = Some (amHead m)" using len by (auto simp: m lastItem_def orDefault_def)
  have prev: "lhHead live = ZERO32 \<or> lhHead live \<in> set (butlast heads)"
    using prefixHead_member [OF live(2)] live(1) len by simp
  have bodies: "foldE (\<lambda>_ a. verifyBody E (plOwner p) \<lparr>edAddress = easAddress, edVersion = edVersion eas, edChainId = edChainId eas\<rparr> a)
      () (plAttestations p) = Inr ()"
  proof (rule foldE_unit, rule ballI)
    fix a assume a: "a \<in> set (plAttestations p)"
    have dom: "\<lparr>edAddress = easAddress, edVersion = edVersion eas, edChainId = edChainId eas\<rparr> = eas\<lparr>edAddress := easAddress\<rparr>" by simp
    show "verifyBody E (plOwner p) \<lparr>edAddress = easAddress, edVersion = edVersion eas, edChainId = edChainId eas\<rparr> a = Inr ()"
      using signed a addr(2) unfolding dom by (simp add: verifyBody_def bodiesSigned_def)
  qed
  have recover: "recoverHeadSigner E m sig (edChainId eas) registry' = Inr (wsAddress wallet)"
    using wallet sig addr(1) by (simp add: recoverHeadSigner_def walletLaw_def)
  have count: "bigIntText (bigToString (amCount m)) = Inr (amCount m)" by (rule bigIntText_digits) (simp add: m)
  have parsed: "parseAnchorMessage b = Inr m" using count by (simp add: parseAnchorMessage_def b)
  have "validateSignedBundle V E b = Inr (p, bs, m)"
    unfolding validateSignedBundle_def parsed
    using again own dec enc heads nodeId last prev bodies recover bigIntText_digits [OF chain]
    by (simp add: b m offBytes_roundtrip equalBytes_eq Let_def)
  with next' show ?thesis by blast
qed

section \<open>A landed submission extends the canonical log\<close>

lemma validated_parts:
  assumes "validateSignedBundle V E bundle = Inr (p, bs, m)"
  obtains heads where "decodePayload E bs (sbSchemaUid bundle) = Inr p" and "prefixHeads V (plEntries p) = Inr heads"
    and "amCount m = int (length (plEntries p))" and "lastItem heads = Some (amHead m)"
    and "addressNodeId V (plOwner p) = Inr (amNodeId m)" and "rawCid (payloadCommitment V bs) = Inr (sbCid bundle)"
    and "amDataCommitment m = payloadCommitment V bs"
  using assms unfolding validateSignedBundle_def Let_def
  by (elim bindE_InrE) (auto simp: parseAnchorMessage_def)

text \<open>
  \<open>follows V chain history\<close>: the chain holds the count and the head of a log per node, kept from the blocks
  by \<open>history\<close>; whatever else the world holds is free.
\<close>

definition follows :: "viem \<Rightarrow> 'w relay_chain \<Rightarrow> ('w \<Rightarrow> hex \<Rightarrow> LogEntry list) \<Rightarrow> bool" where
  "follows V chain history \<longleftrightarrow> (\<forall>n w lane w'. chLane chain n w = (Inr lane, w') \<longrightarrow>
     lhCount (lnLive lane) = int (length (history w n)) \<and> logHead V (history w n) = Inr (lhHead (lnLive lane)) \<and>
     (\<forall>e \<in> set (history w n). take 2 (leUid e) = ''0x''))"

lemma decoded_uids:
  assumes "decodePayload E bs schema = Inr p" and "e \<in> set (plEntries p)"
  shows "take 2 (leUid e) = ''0x''"
  using decodePayload_parts(2) [OF assms(1)] assms(2) by (auto simp: payloadOk_def hexOf_def evenHex_def)

lemma admitted_extends:
  assumes law: "abiWordLaw V" "digestLaw V" and follow: "follows V chain history"
    and v: "validateSignedBundle V E bundle = Inr (p, bs, m)"
    and lane: "chLane chain (amNodeId m) w = (Inr lane, w')" and admit: "admit V E config bundle p m lane = Inr ()"
    and inj: "inj_on (keccak256 V) (headInputs V (history w (amNodeId m)) \<union>
      headInputs V (take (length (history w (amNodeId m))) (plEntries p)))"
  shows "prefix (history w (amNodeId m)) (plEntries p)"
proof -
  let ?h = "history w (amNodeId m)"
  obtain heads where dec: "decodePayload E bs (sbSchemaUid bundle) = Inr p" and heads: "prefixHeads V (plEntries p) = Inr heads"
    and m: "amCount m = int (length (plEntries p))" "lastItem heads = Some (amHead m)"
    using v by (elim validated_parts)
  have hist: "lhCount (lnLive lane) = int (length ?h)" "logHead V ?h = Inr (lhHead (lnLive lane))"
    "\<forall>e \<in> set ?h. take 2 (leUid e) = ''0x''"
    using follow lane unfolding follows_def by blast+
  have tr: "assertTransition heads (lnLive lane) m = Inr ()" using admit heads by (auto simp: admit_Inr)
  have len: "length ?h \<le> length (plEntries p)" and head: "logHead V (take (length ?h) (plEntries p)) = Inr (lhHead (lnLive lane))"
  proof -
    have "length ?h \<le> length (plEntries p) \<and> logHead V (take (length ?h) (plEntries p)) = Inr (lhHead (lnLive lane))"
    proof (cases "exactResult (lnLive lane) m")
      case True
      with lastItem_head [OF heads m(2)] hist(1) m(1) show ?thesis by (simp add: exactResult_def)
    next
      case False
      with tr have "prefixHead heads (lhCount (lnLive lane)) = Some (lhHead (lnLive lane))" by (simp add: assertTransition_Inr)
      from prefixHead_spec [OF heads this] hist(1) show ?thesis by simp
    qed
    then show "length ?h \<le> length (plEntries p)" "logHead V (take (length ?h) (plEntries p)) = Inr (lhHead (lnLive lane))"
      by auto
  qed
  have uids: "\<forall>e \<in> set ?h \<union> set (take (length ?h) (plEntries p)). take 2 (leUid e) = ''0x''"
    using hist(3) decoded_uids [OF dec] by (auto dest: in_set_takeD)
  have "?h = take (length ?h) (plEntries p)"
    by (rule logHead_binding [OF law _ hist(2) head inj uids]) (use len in simp)
  then show ?thesis by (metis take_is_prefix)
qed

section \<open>The anchor is reached by admitted submissions only\<close>

lemma bindA_diff: "bindA m f s \<noteq> bindA m g s \<Longrightarrow> \<exists>x s1. m s = (Inr x, s1) \<and> f x s1 \<noteq> g x s1"
  by (auto simp: bindA_def split: prod.splits sum.splits)

lemma bindA_diffE:
  assumes "bindA m f s \<noteq> bindA m g s"
  obtains x s1 where "m s = (Inr x, s1)" and "f x s1 \<noteq> g x s1"
  using bindA_diff [OF assms] by blast

lemma submit_depends:
  assumes "submit V E config chain stores bundle now s \<noteq> submit V E config chain' stores bundle now s"
    and "chLane chain' = chLane chain"
  shows "\<exists>payload bs message lane w. validateSignedBundle V E bundle = Inr (payload, bs, message) \<and>
    int (length bs) \<le> rgMaxPayloadBytes config \<and> chLane chain (amNodeId message) (stWorld s) = (Inr lane, w) \<and>
    admit V E config bundle payload message lane = Inr () \<and>
    storedBy stores (rgStorageQuorum config) (sbCid bundle) bs \<and> \<not> exactResult (lnLive lane) message"
proof -
  from assms(1) obtain payload bs message lane w0 w1 accepted s1 where
    v: "validateSignedBundle V E bundle = Inr (payload, bs, message)" "int (length bs) \<le> rgMaxPayloadBytes config"
    and l: "chLane chain (amNodeId message) (stWorld s) = (Inr lane, w0)"
    and a: "admit V E config bundle payload message lane = Inr ()"
    and st: "storeAll stores (sbCid bundle) bs w0 = (accepted, w1)" "rgStorageQuorum config \<le> int (length accepted)"
    and ne: "\<not> exactResult (lnLive lane) message"
    unfolding submit_def case_prod_beta assms(2) by (elim bindA_diffE) (auto simp: run_simps split: if_splits)
  from storeAll_accepted [OF st(1)] st(2) have "storedBy stores (rgStorageQuorum config) (sbCid bundle) bs"
    by (auto simp: storedBy_def)
  with v l a ne show ?thesis by blast
qed

section \<open>The rate limiter\<close>

definition limiterStep :: "int \<Rightarrow> (string, int list) jmap \<times> (string \<times> int) list \<Rightarrow> string \<times> int \<Rightarrow>
    (string, int list) jmap \<times> (string \<times> int) list" where
  "limiterStep limit st req = (case limiterTake limit (fst req) (snd req) (fst st) of
     Inl e \<Rightarrow> st | Inr events \<Rightarrow> (events, snd st @ [req]))"

text \<open>The requests a limiter accepts, in the order they arrive.\<close>

definition limiterRun :: "int \<Rightarrow> (string \<times> int) list \<Rightarrow> (string, int list) jmap \<times> (string \<times> int) list" where
  "limiterRun limit reqs = foldl (limiterStep limit) ([], []) reqs"

definition timesOf :: "string \<Rightarrow> (string \<times> int) list \<Rightarrow> int list" where
  "timesOf n reqs = map snd (filter (\<lambda>r. fst r = n) reqs)"

lemma timesOf_snoc: "timesOf n (reqs @ [r]) = timesOf n reqs @ (if fst r = n then [snd r] else [])"
  by (simp add: timesOf_def)

lemma filter_later: "filter (\<lambda>t. (b :: int) < t) (filter (\<lambda>t. a < t) ts) = filter (\<lambda>t. b < t) ts" if "a \<le> b"
  using that by (induction ts) auto

text \<open>The map keeps, per node, what a threshold of the last minute may still count.\<close>

lemma limiter_keeps:
  assumes "sorted (map snd reqs)"
  shows "(\<forall>r \<in> set reqs. snd r \<le> now) \<Longrightarrow>
    filter (\<lambda>t. now - 60000 < t) (orDefault (jget (fst (limiterRun limit reqs)) n) []) =
      filter (\<lambda>t. now - 60000 < t) (timesOf n (snd (limiterRun limit reqs))) \<and>
    set (snd (limiterRun limit reqs)) \<subseteq> set reqs"
  using assms
proof (induction reqs arbitrary: now rule: rev_induct)
  case Nil
  then show ?case by (simp add: limiterRun_def timesOf_def orDefault_def)
next
  case (snoc r reqs)
  obtain events acc where run: "limiterRun limit reqs = (events, acc)" by fastforce
  have step: "limiterRun limit (reqs @ [r]) = limiterStep limit (events, acc) r"
    using run by (simp add: limiterRun_def)
  have srt: "sorted (map snd reqs)" "\<forall>q \<in> set reqs. snd q \<le> snd r" and le: "snd r \<le> now"
    using snoc.prems by (auto simp: sorted_append)
  have ih: "filter (\<lambda>t. m - 60000 < t) (orDefault (jget events n) []) = filter (\<lambda>t. m - 60000 < t) (timesOf n acc) \<and>
      set acc \<subseteq> set reqs" if "snd r \<le> m" for m
    using snoc.IH [of m] srt that run by fastforce
  show ?case
  proof (cases "limiterTake limit (fst r) (snd r) events")
    case (Inl e)
    with ih [OF le] show ?thesis by (auto simp: step limiterStep_def)
  next
    case (Inr events')
    then have ev: "events' = jset (fst r) (filter (\<lambda>t. snd r - 60000 < t) (orDefault (jget events (fst r)) []) @ [snd r]) events"
      by (auto simp: limiterTake_def Let_def split: if_splits)
    have "filter (\<lambda>t. now - 60000 < t) (orDefault (jget events' n) []) = filter (\<lambda>t. now - 60000 < t) (timesOf n (acc @ [r]))"
    proof (cases "fst r = n")
      case True
      then have "orDefault (jget events' n) [] = filter (\<lambda>t. snd r - 60000 < t) (timesOf n acc) @ [snd r]"
        using ih [of "snd r"] by (simp add: ev jget_jset orDefault_def)
      then show ?thesis using True le filter_later [of "snd r - 60000" "now - 60000" "timesOf n acc"]
        by (simp add: timesOf_snoc)
    next
      case False
      then show ?thesis using ih [OF le] by (simp add: ev jget_jset timesOf_snoc)
    qed
    with ih [OF le] Inr show ?thesis by (auto simp: step limiterStep_def)
  qed
qed

lemma limiter_exact:
  assumes "sorted (map snd reqs)" and "\<forall>r \<in> set reqs. snd r \<le> now"
  shows "(\<exists>events. limiterTake limit n now (fst (limiterRun limit reqs)) = Inr events) \<longleftrightarrow>
    int (length (filter (\<lambda>t. now - 60000 < t) (timesOf n (snd (limiterRun limit reqs))))) < limit"
  using limiter_keeps [OF assms, of limit n] by (simp add: limiterTake_def Let_def)

lemma limiter_bound:
  assumes "sorted (map snd reqs)" and "0 \<le> limit"
  shows "int (length (filter (\<lambda>t. now - 60000 < t \<and> t \<le> now) (timesOf n (snd (limiterRun limit reqs))))) \<le> limit"
  using assms(1)
proof (induction reqs arbitrary: now rule: rev_induct)
  case Nil
  then show ?case using assms(2) by (simp add: limiterRun_def timesOf_def)
next
  case (snoc r reqs)
  obtain events acc where run: "limiterRun limit reqs = (events, acc)" by fastforce
  have step: "limiterRun limit (reqs @ [r]) = limiterStep limit (events, acc) r"
    using run by (simp add: limiterRun_def)
  have srt: "sorted (map snd reqs)" "\<forall>q \<in> set reqs. snd q \<le> snd r" using snoc.prems by (auto simp: sorted_append)
  have ih: "int (length (filter (\<lambda>t. m - 60000 < t \<and> t \<le> m) (timesOf n acc))) \<le> limit" for m
    using snoc.IH [OF srt(1), of m] run by simp
  show ?case
  proof (cases "limiterTake limit (fst r) (snd r) events")
    case (Inl e)
    with ih show ?thesis by (simp add: step limiterStep_def)
  next
    case (Inr events')
    then have acc': "snd (limiterRun limit (reqs @ [r])) = acc @ [r]" by (simp add: step limiterStep_def)
    show ?thesis
    proof (cases "fst r = n \<and> snd r \<le> now")
      case False
      then show ?thesis using ih [of now] by (auto simp: acc' timesOf_snoc)
    next
      case True
      have "int (length (filter (\<lambda>t. snd r - 60000 < t) (timesOf n acc))) < limit"
        using limiter_exact [OF srt, of limit n] Inr run True by simp
      moreover have "length (filter (\<lambda>t. now - 60000 < t \<and> t \<le> now) (timesOf n acc)) \<le>
          length (filter (\<lambda>t. snd r - 60000 < t) (timesOf n acc))"
        using True by (intro length_filter_mono) auto
      ultimately show ?thesis using True by (simp add: acc' timesOf_snoc)
    qed
  qed
qed

end
