(* ===== verification/OffchainTotal.thy ===== *)
theory OffchainTotal
  imports RelayRuns
begin

text \<open>
  Valid payloads encode, and the state a synchronised node is in.
  A draft applied to the live state has a next message, and an admitted submission lands.
  Signing an attestation, eas-offchain-client/src/signing.ts: the salt, the signature and the result, which a draft
  may attest.
\<close>

section \<open>Valid payloads encode\<close>

definition roomFor :: "PayloadV1 \<Rightarrow> bool" where
  "roomFor p \<longleftrightarrow> 38 + 33 * length (plEntries p) + 4396 * length (plAttestations p) \<le> MAX_PAYLOAD_BYTES"

lemma uintBe_ok: "0 \<le> v \<Longrightarrow> v < 256 ^ w \<Longrightarrow> \<exists>bs. uintBe v w = Inr bs \<and> length bs = w"
  using uintBe_total uintBe_Inr by blast

lemma hexOf_bytes: "hexOf n h \<Longrightarrow> \<exists>bs. offHexToBytes h = Inr bs \<and> length bs = n"
proof -
  assume h: "hexOf n h"
  then obtain bs where b: "offHexToBytes h = Inr bs" by (auto simp: hexOf_def offHexToBytes_pairs)
  with offHexToBytes_length [OF b] h show ?thesis by (simp add: hexOf_def)
qed

lemma hexOf_offBytes [simp]: "hexOf n (offBytesToHex bs) \<longleftrightarrow> length bs = n"
  using offBytes_roundtrip [of bs] by (auto simp: hexOf_def offHexToBytes_Inr)

lemma entryChunk_ok:
  assumes "hexOf 32 (leUid e)" and "leKind e = 0 \<or> leKind e = 1"
  shows "\<exists>c. entryChunk e = Inr c \<and> length c = 33"
proof -
  obtain k u where "uintBe (leKind e) 1 = Inr k" "length k = 1" "offHexToBytes (leUid e) = Inr u" "length u = 32"
    using uintBe_ok [of "leKind e" 1] hexOf_bytes [OF assms(1)] assms(2) by auto
  then show ?thesis by (simp add: entryChunk_def)
qed

lemma attestationChunk_ok:
  assumes valid: "validateAttestation E a schema = Inr ()" and "hexOf 20 (caRecipient a)" and "0 \<le> caTime a" "caTime a < 2 ^ 64"
  shows "\<exists>c. attestationChunk a = Inr c \<and> length c \<le> 4396"
proof -
  note f = validateAttestation_fields [OF valid]
  obtain dat where dat: "offHexToBytes (caData a) = Inr dat"
    using f(8) by (auto simp: assertCanonicalProfileData_def)
  have dl: "length dat \<le> MAX_DATA_BYTES" using profileData_length [OF f(8) dat] by simp
  then have "int (length dat) < 256 ^ 4" by (simp add: MAX_DATA_BYTES_def)
  then obtain len where len: "uintBe (int (length dat)) 4 = Inr len" "length len = 4"
    using uintBe_ok [of "int (length dat)" 4] by auto
  obtain vs where vs: "uintBe (caVersion a) 2 = Inr vs" "length vs = 2" using uintBe_ok [of "caVersion a" 2] f(1) by auto
  obtain tm where tm: "uintBe (caTime a) 8 = Inr tm" "length tm = 8" using uintBe_ok [of "caTime a" 8] assms(3,4) by auto
  obtain ex where ex: "uintBe (caExpirationTime a) 8 = Inr ex" "length ex = 8" using uintBe_ok [of 0 8] f(3) by auto
  obtain rv where rv: "uintBe 1 1 = Inr rv" "length rv = 1" using uintBe_ok [of 1 1] by auto
  obtain sc where sc: "offHexToBytes (caSchema a) = Inr sc" "length sc = 32" using hexOf_bytes [OF f(6)] by auto
  obtain rc where rc: "offHexToBytes (caRecipient a) = Inr rc" "length rc = 20" using hexOf_bytes [OF assms(2)] by auto
  obtain rf where rf: "offHexToBytes (caRefUID a) = Inr rf" "length rf = 32" using hexOf_bytes [of 32 "caRefUID a"] f(5) ZERO32_hex by auto
  obtain sa where sa: "offHexToBytes (caSalt a) = Inr sa" "length sa = 32" using hexOf_bytes [OF f(7)] by auto
  obtain sg where sg: "offHexToBytes (caSignature a) = Inr sg" "length sg = 65"
    using hexOf_bytes [OF signature_length [OF f(9)]] by auto
  have "attestationChunk a = Inr (concatBytes [vs, sc, rc, tm, ex, rv, rf, len, dat, sa, sg])"
    unfolding attestationChunk_def by (simp add: dat vs sc rc tm ex rv [simplified] rf len sa sg)
  moreover have "length (concatBytes [vs, sc, rc, tm, ex, rv, rf, len, dat, sa, sg]) \<le> 4396"
    using dl by (simp add: concatBytes_def vs sc rc tm ex rv rf len sa sg MAX_DATA_BYTES_def)
  ultimately show ?thesis by blast
qed

lemma chunks_ok:
  assumes "\<And>x. x \<in> set xs \<Longrightarrow> \<exists>c. f x = Inr c \<and> length c \<le> k"
  shows "\<exists>cs. mapE f xs = Inr cs \<and> length (concat cs) \<le> k * length xs"
  using assms
proof (induction xs)
  case (Cons x xs)
  from Cons.prems [of x] obtain c where c: "f x = Inr c" "length c \<le> k" by auto
  from Cons.IH Cons.prems obtain cs where "mapE f xs = Inr cs" "length (concat cs) \<le> k * length xs" by auto
  with c show ?case by (intro exI [of _ "c # cs"]) simp
qed simp

lemma encodePayload_ok:
  assumes ok: "payloadOk E p (schemaOf p)" and ne: "plAttestations p \<noteq> []" and owner: "hexOf 20 (plOwner p)"
    and bodies: "\<forall>a \<in> set (plAttestations p). hexOf 20 (caRecipient a) \<and> 0 \<le> caTime a \<and> caTime a < 2 ^ 64"
    and room: "roomFor p"
  shows "\<exists>bs. encodePayload E p = Inr bs"
proof -
  have val: "validatePayload E p (schemaOf p) = Inr ()" using ok by (simp add: validatePayload_spec)
  have es: "\<exists>c. entryChunk e = Inr c \<and> length c \<le> 33" if e: "e \<in> set (plEntries p)" for e
    using entryChunk_ok [of e] ok e logOk_kinds [of "plEntries p" e] by (auto simp: payloadOk_def)
  obtain es where es: "mapE entryChunk (plEntries p) = Inr es" "length (concat es) \<le> 33 * length (plEntries p)"
    using chunks_ok [of "plEntries p" entryChunk 33] es by blast
  have as: "\<exists>c. attestationChunk a = Inr c \<and> length c \<le> 4396" if a: "a \<in> set (plAttestations p)" for a
    using attestationChunk_ok [of E a "schemaOf p"] ok bodies a by (auto simp: payloadOk_def)
  obtain as where as: "mapE attestationChunk (plAttestations p) = Inr as" "length (concat as) \<le> 4396 * length (plAttestations p)"
    using chunks_ok [of "plAttestations p" attestationChunk 4396] as by blast
  have n: "length (plEntries p) \<le> MAX_ENTRIES_PER_NODE" "length (plAttestations p) \<le> MAX_ENTRIES_PER_NODE"
  proof -
    show "length (plEntries p) \<le> MAX_ENTRIES_PER_NODE" using ok by (simp add: payloadOk_def)
    moreover have "length (plAttestations p) = length (attested (plEntries p))" using ok by (simp add: payloadOk_def)
    ultimately show "length (plAttestations p) \<le> MAX_ENTRIES_PER_NODE"
      using le_trans [OF length_filter_le [of "\<lambda>e. leKind e = 0" "plEntries p"]] by (simp add: attested_def)
  qed
  obtain ec where ec: "uintBe (int (length (plEntries p))) 4 = Inr ec" "length ec = 4"
    using uintBe_ok [of "int (length (plEntries p))" 4] n(1) by (auto simp: MAX_ENTRIES_PER_NODE_def)
  obtain ac where ac: "uintBe (int (length (plAttestations p))) 4 = Inr ac" "length ac = 4"
    using uintBe_ok [of "int (length (plAttestations p))" 4] n(2) by (auto simp: MAX_ENTRIES_PER_NODE_def)
  obtain vs where vs: "uintBe PAYLOAD_VERSION 2 = Inr vs" "length vs = 2"
    using uintBe_ok [of PAYLOAD_VERSION 2] by (auto simp: PAYLOAD_VERSION_def)
  obtain ow where ow: "offHexToBytes (plOwner p) = Inr ow" "length ow = 20" using hexOf_bytes [OF owner] by auto
  have sch: "(case plAttestations p of [] \<Rightarrow> failE0 c m | a # as \<Rightarrow> Inr (caSchema a)) = Inr (schemaOf p)" for c m
    using ne by (cases "plAttestations p") (simp_all add: schemaOf_def)
  have "length PAYLOAD_MAGIC = 8" by (simp add: PAYLOAD_MAGIC_def)
  then have "length (concatBytes ([PAYLOAD_MAGIC, vs, ow, ec, ac] @ es @ as)) \<le> MAX_PAYLOAD_BYTES"
    using es(2) as(2) ec(2) ac(2) vs(2) ow(2) room by (simp add: concatBytes_def roomFor_def)
  then show ?thesis unfolding encodePayload_def sch by (simp add: val vs ow ec ac es as Let_def)
qed

section \<open>A draft applied to the live state can be published\<close>

lemma plainHeads_ok:
  assumes "abiLaw V" and "digestLaw V" and "payloadOk E p schema"
  shows "\<exists>hs. prefixHeads V (plEntries p) = Inr hs"
proof (rule prefixHeads_ok [OF assms(1,2)], rule ballI)
  fix e assume e: "e \<in> set (plEntries p)"
  then have "leKind e = 0 \<or> leKind e = 1" "hexOf 32 (leUid e)"
    using assms(3) logOk_kinds [of "plEntries p" e] by (auto simp: payloadOk_def)
  then show "abiFits (AbiUint 8 (leKind e)) \<and> isPart (leUid e)" by (auto simp: hexOf_def isPart_def evenHex_def)
qed

lemma syncCanonicalNode_Inr:
  assumes "syncCanonicalNode V E src owner schema = Inr sync"
  shows "lhCount (snLive sync) = int (length (plEntries (canonicalBase (snPayload sync) owner))) \<and>
    logHead V (plEntries (canonicalBase (snPayload sync) owner)) = Inr (lhHead (snLive sync)) \<and>
    (snPayload sync = None \<or> (\<exists>p. snPayload sync = Some p \<and> payloadOk E p schema))"
proof -
  obtain nodeId live where a: "addressNodeId V owner = Inr nodeId" "readLive src nodeId = Inr live"
    using assms unfolding syncCanonicalNode_def by (elim bindE_InrE)
  show ?thesis
  proof (cases "lhCount live = 0")
    case True
    then have "sync = \<lparr>snLive = live, snPayload = None, snCid = None\<rparr>" "lhHead live = ZERO32"
      using assms a by (auto simp: syncCanonicalNode_def)
    then show ?thesis using True by (simp add: canonicalBase_def logHead_def)
  next
    case False
    then obtain cid bs p hs where p: "decodePayload E bs schema = Inr p" "prefixHeads V (plEntries p) = Inr hs"
      "int (length (plEntries p)) = lhCount live" "lastItem hs = Some (lhHead live)"
      "sync = \<lparr>snLive = live, snPayload = Some p, snCid = Some cid\<rparr>"
      using assms a unfolding syncCanonicalNode_def by (elim bindE_InrE) (auto split: if_splits)
    then show ?thesis using lastItem_head [OF p(2,4)] decodePayload_parts(2) [OF p(1)] by (simp add: canonicalBase_def)
  qed
qed

definition shaWordLaw :: "viem \<Rightarrow> bool" where
  "shaWordLaw V \<longleftrightarrow> (\<forall>bs. hexOf 32 (sha256Bytes V bs))"

text \<open>A checksummed address is encoded.\<close>

definition addressAbiLaw :: "viem \<Rightarrow> eas_kit \<Rightarrow> bool" where
  "addressAbiLaw V E \<longleftrightarrow> (\<forall>a. checksummed E a \<longrightarrow> (\<exists>h. encodeAbi V [AbiAddress a] = Inr h))"

lemma buildNextMessage_ok:
  assumes law: "abiLaw V" "digestLaw V" "shaWordLaw V" "addressAbiLaw V E" and ok: "payloadOk E p (schemaOf p)" and enc: "encodePayload E p = Inr bs"
    and owner: "checksummed E (plOwner p)"
    and live: "lhCount live < int (length (plEntries p))" "0 \<le> lhCount live"
      "logHead V (take (nat (lhCount live)) (plEntries p)) = Inr (lhHead live)"
  shows "\<exists>cid m. buildNextMessage V E p schema live = Inr (bs, cid, m)"
proof -
  obtain hs where hs: "prefixHeads V (plEntries p) = Inr hs" using plainHeads_ok [OF law(1,2) ok] by blast
  have n: "length (plEntries p) \<le> MAX_ENTRIES_PER_NODE" using ok by (simp add: payloadOk_def)
  have "prefixHead hs (lhCount live) = Some (lhHead live)"
  proof (cases "lhCount live = 0")
    case True
    with live(3) show ?thesis by (simp add: prefixHead_def logHead_def)
  next
    case False
    with live have i: "nat (lhCount live - 1) < length (plEntries p)" "Suc (nat (lhCount live - 1)) = nat (lhCount live)" by auto
    with prefixHeads_spec(2) [OF hs i(1)] prefixHeads_spec(1) [OF hs] live False show ?thesis
      by (auto simp: prefixHead_def itemAt_def)
  qed
  moreover obtain cid where "rawCid (payloadCommitment V bs) = Inr cid"
  proof -
    obtain d where "offHexToBytes (payloadCommitment V bs) = Inr d" "length d = 32"
      using hexOf_bytes [of 32 "payloadCommitment V bs"] law(3) by (auto simp: shaWordLaw_def payloadCommitment_def)
    then show ?thesis using that by (simp add: rawCid_def)
  qed
  moreover obtain nodeId where "addressNodeId V (plOwner p) = Inr nodeId"
  proof -
    obtain x where "encodeAbi V [AbiAddress (plOwner p)] = Inr x" using law(4) owner unfolding addressAbiLaw_def by blast
    then show ?thesis using that by (simp add: addressNodeId_def)
  qed
  ultimately show ?thesis using hs enc live(1) n by (simp add: buildNextMessage_def Let_def)
qed

lemma encoded_bodies:
  assumes "encodePayload E p = Inr bs" and "a \<in> set (plAttestations p)"
  shows "0 \<le> caTime a \<and> caTime a < 2 ^ 64"
proof -
  obtain as where "mapE attestationChunk (plAttestations p) = Inr as" using assms(1) by (elim encodePayload_parts)
  then obtain c where "attestationChunk a = Inr c" using assms(2) by (metis mapE_all_ok)
  then obtain t where "uintBe (caTime a) 8 = Inr t" by (elim attestationChunk_parts)
  from uintBe_Inr [OF this] bytesVal_bounds [of t] show ?thesis by auto
qed

lemma payloadOk_bodies:
  assumes "payloadOk E p schema"
  shows "plAttestations p \<noteq> []" and "payloadOk E p (schemaOf p)"
proof -
  from assms have "plEntries p \<noteq> []" "logOk (plEntries p)" "attested (plEntries p) = map caUid (plAttestations p)"
    by (simp_all add: payloadOk_def)
  moreover have "entryOk [] (hd (plEntries p))" using calculation by (auto simp: logOk_def hd_conv_nth)
  ultimately have "attested (plEntries p) \<noteq> []"
    by (cases "plEntries p") (auto simp: entryOk_def attested_def)
  then show ne: "plAttestations p \<noteq> []" using assms by (auto simp: payloadOk_def)
  then have "hd (plAttestations p) \<in> set (plAttestations p)" by simp
  then have "validateAttestation E (hd (plAttestations p)) schema = Inr ()" using assms by (auto simp: payloadOk_def)
  then show "payloadOk E p (schemaOf p)"
    using payloadOk_schema [OF assms] validateAttestation_fields(2) by (simp add: schemaOf_def)
qed

text \<open>An operation of a draft that the profile admits.\<close>

definition opOk :: "eas_kit \<Rightarrow> hex \<Rightarrow> DraftOperation \<Rightarrow> bool" where
  "opOk E schema oper \<longleftrightarrow> hexOf 32 (leUid (opEntry oper)) \<and>
     (\<forall>a \<in> set (opBodies oper). validateAttestation E a schema = Inr () \<and> hexOf 20 (caRecipient a) \<and>
        0 \<le> caTime a \<and> caTime a < 2 ^ 64)"

lemma reapplied_message:
  assumes law: "abiLaw V" "digestLaw V" "shaWordLaw V" "addressAbiLaw V E" "checksumLaw E"
    and owner: "checksummed E (rdOwner draft)"
    and reload: "reloadAndReapply V E draft src = Inr (sync, p)"
    and ops: "rdOperations draft \<noteq> []" "\<forall>oper \<in> set (rdOperations draft). opOk E (rdSchemaUid draft) oper"
    and room: "length (plEntries p) \<le> MAX_ENTRIES_PER_NODE" "roomFor p"
  shows "\<exists>bs cid m. buildNextMessage V E p (rdSchemaUid draft) (snLive sync) = Inr (bs, cid, m)"
proof -
  let ?schema = "rdSchemaUid draft" and ?base = "canonicalBase (snPayload sync) (rdOwner draft)"
  have s: "syncCanonicalNode V E src (rdOwner draft) ?schema = Inr sync"
    and ap: "applyOperations (snPayload sync) (rdOwner draft) (rdOperations draft) = Inr p"
    using reload by (auto simp: reloadAndReapply_def)
  note live = syncCanonicalNode_Inr [OF s]
  have base: "plEntries ?base = [] \<and> plAttestations ?base = [] \<and> checksummed E (plOwner ?base) \<or>
      payloadOk E ?base ?schema \<and> checksummed E (plOwner ?base) \<and>
      (\<forall>a \<in> set (plAttestations ?base). hexOf 20 (caRecipient a) \<and> 0 \<le> caTime a \<and> caTime a < 2 ^ 64)"
  proof (cases "snPayload sync")
    case None
    then show ?thesis using owner by (simp add: canonicalBase_def)
  next
    case (Some q)
    obtain bs where dec: "decodePayload E bs ?schema = Inr q"
      using s Some unfolding syncCanonicalNode_def by (elim bindE_InrE) (auto split: if_splits)
    have "plainPayload E q" by (rule decoded_plain [OF law(5) dec])
    then show ?thesis using Some decodePayload_parts(2) [OF dec] encoded_bodies [OF decodePayload_parts(1) [OF dec]]
      by (auto simp: canonicalBase_def plainPayload_def checksummed_def)
  qed
  then have log: "logOk (plEntries ?base)" by (auto simp: payloadOk_def)
  have p: "p = extended ?base (rdOperations draft)" "logOk (plEntries p)"
    using ap unfolding applyOperations_iff [OF log] by auto
  have ok: "payloadOk E p ?schema" unfolding p(1)
    by (rule extended_ok) (use base ops p room(1) in \<open>auto simp: opOk_def\<close>)
  note ok' = payloadOk_bodies [OF ok]
  have own: "checksummed E (plOwner p)" using base by (auto simp: p(1))
  have bodies: "\<forall>a \<in> set (plAttestations p). hexOf 20 (caRecipient a) \<and> 0 \<le> caTime a \<and> caTime a < 2 ^ 64"
    using base ops(2) by (auto simp: p(1) opOk_def)
  obtain bs where enc: "encodePayload E p = Inr bs" using encodePayload_ok [OF ok'(2,1) _ bodies room(2)] own by (auto simp: checksummed_def)
  have "lhCount (snLive sync) < int (length (plEntries p))" "0 \<le> lhCount (snLive sync)"
    "logHead V (take (nat (lhCount (snLive sync))) (plEntries p)) = Inr (lhHead (snLive sync))"
    using live ops(1) by (auto simp: p(1))
  from buildNextMessage_ok [OF law(1-4) ok'(2) enc own this] show ?thesis by blast
qed

section \<open>An admitted submission lands\<close>

text \<open>
  The stores give the bytes back in every state of the world, and the chain takes the transaction: after it, the
  live head is the one requested.
\<close>

definition storesWork :: "'w blob_store list \<Rightarrow> string \<Rightarrow> bytes \<Rightarrow> bool" where
  "storesWork stores cid bs \<longleftrightarrow> (\<forall>store \<in> set stores. \<forall>w. fst (bsPutAndRead store cid bs w) = Inr bs)"

definition chainTakes :: "'w relay_chain \<Rightarrow> SignedAnchorBundle \<Rightarrow> AnchorMessage \<Rightarrow> bool" where
  "chainTakes chain bundle message \<longleftrightarrow> (\<forall>w. \<exists>w1 w2 live w3. chSimulate chain bundle message w = (Inr (), w1) \<and>
     chAnchor chain bundle message w1 = (Inr (), w2) \<and> chLive chain (amNodeId message) w2 = (Inr live, w3) \<and>
     exactResult live message)"

lemma storeAll_works:
  "storesWork stores cid bs \<Longrightarrow> \<exists>w'. storeAll stores cid bs w = (map bsName stores, w')"
proof (induction stores arbitrary: w)
  case (Cons store stores)
  obtain r w1 where r: "bsPutAndRead store cid bs w = (r, w1)" by fastforce
  from Cons.prems r have "r = Inr bs" by (metis storesWork_def fst_conv list.set_intros(1))
  moreover have "storesWork stores cid bs" using Cons.prems by (simp add: storesWork_def)
  then obtain w2 where "storeAll stores cid bs w1 = (map bsName stores, w2)" using Cons.IH by blast
  ultimately show ?case using r by (simp add: equalBytes_eq)
qed simp

lemma act_runs: "metric f s = (Inr (), s\<lparr>stMetrics := f (stMetrics s)\<rparr>)" "ret x s = (Inr x, s)"
  "ensureA True e s = (Inr (), s)" "liftA r s = (r, s)"
  by (simp_all add: metric_def ret_def ensureA_def liftA_def)

lemma outside_run: "f (stWorld s) = (Inr x, w) \<Longrightarrow> outside f s = (Inr x, s\<lparr>stWorld := w\<rparr>)"
  by (simp add: outside_def)

lemma takeSlot_run: "limiterTake limit n now (stEvents s) = Inr evs \<Longrightarrow> takeSlot limit n now s = (Inr (), s\<lparr>stEvents := evs\<rparr>)"
  by (simp add: takeSlot_def)

lemma anchor_lands:
  assumes "chainTakes chain bundle message"
  shows "\<exists>t. bindA (anchorOrRace chain bundle message lane) (\<lambda>r.
     case r of Some result \<Rightarrow> ret result | None \<Rightarrow> landed chain bundle message lane) s = (Inr (success bundle message), t)"
proof -
  obtain w1 w2 live w3 where c: "chSimulate chain bundle message (stWorld s) = (Inr (), w1)"
    "chAnchor chain bundle message w1 = (Inr (), w2)" "chLive chain (amNodeId message) w2 = (Inr live, w3)"
    "exactResult live message" using assms unfolding chainTakes_def by blast
  have "anchorOrRace chain bundle message lane s = (Inr None, s\<lparr>stWorld := w2\<rparr>)"
    using c(1,2) by (simp add: anchorOrRace_def catchA_def bindA_def outside_def ret_def)
  then show ?thesis using c(3,4) by (simp add: bindA_step landed_def outside_run act_runs)
qed

lemma storeWithQuorum_run:
  assumes "storesWork stores cid bs" and "quorumSize \<le> int (length stores)"
  shows "\<exists>w. storeWithQuorum stores quorumSize cid bs s = (Inr (map bsName stores), s\<lparr>stWorld := w\<rparr>)"
proof -
  obtain w where "storeAll stores cid bs (stWorld s) = (map bsName stores, w)" using storeAll_works [OF assms(1)] by blast
  then show ?thesis using assms(2) by (auto simp: storeWithQuorum_Inr)
qed

lemma submit_lands:
  assumes v: "validateSignedBundle V E bundle = Inr (p, bs, m)" and sz: "int (length bs) \<le> rgMaxPayloadBytes config"
    and slot: "limiterTake (rgNodeRequestsPerMinute config) (toLowerCase (amNodeId m)) now (stEvents s) = Inr evs"
    and lane: "chLane chain (amNodeId m) (stWorld s) = (Inr lane, w)" and admit: "admit V E config bundle p m lane = Inr ()"
    and stores: "storesWork stores (sbCid bundle) bs" "rgStorageQuorum config \<le> int (length stores)"
    and chain: "chainTakes chain bundle m"
  shows "\<exists>t. submit V E config chain stores bundle now s = (Inr (success bundle m), t)"
proof -
  have val: "bindA (validated V E bundle) f s' = f (p, bs, m) s'" for s' :: "'a relay_state" and f :: "_ \<Rightarrow> ('a relay_state, RelaySuccess) act"
    by (rule bindA_step) (use v in \<open>simp add: validated_Inr\<close>)
  have ms: "bindA (metric g) f s' = f () (s'\<lparr>stMetrics := g (stMetrics s')\<rparr>)" for g s' and f :: "_ \<Rightarrow> ('a relay_state, RelaySuccess) act"
    by (simp add: bindA_def metric_def)
  have ens: "bindA (ensureA True e) f s' = f () s'" "bindA (liftA (Inr x)) h s' = h x s'"
    for e x s' and f h :: "_ \<Rightarrow> ('a relay_state, RelaySuccess) act"
    by (simp_all add: bindA_def ensureA_def liftA_def)
  let ?s1 = "s\<lparr>stMetrics := (stMetrics s)\<lparr>mtSubmissions := mtSubmissions (stMetrics s) + 1\<rparr>\<rparr>"
  let ?s2 = "?s1\<lparr>stEvents := evs\<rparr>" let ?s3 = "?s2\<lparr>stWorld := w\<rparr>"
  obtain w4 where q: "storeWithQuorum stores (rgStorageQuorum config) (sbCid bundle) bs s' =
      (Inr (map bsName stores), s'\<lparr>stWorld := w4 (s' :: 'a relay_state)\<rparr>)" for s'
    using storeWithQuorum_run [OF stores] by metis
  have slot': "bindA (takeSlot (rgNodeRequestsPerMinute config) (toLowerCase (amNodeId m)) now) f ?s1 = f () ?s2"
    for f :: "_ \<Rightarrow> ('a relay_state, RelaySuccess) act"
    by (rule bindA_step) (use slot in \<open>simp add: takeSlot_run\<close>)
  have lane': "bindA (outside (chLane chain (amNodeId m))) f ?s2 = f lane ?s3" for f :: "_ \<Rightarrow> ('a relay_state, RelaySuccess) act"
    by (rule bindA_step, rule outside_run) (use lane in simp)
  have q': "bindA (storeWithQuorum stores (rgStorageQuorum config) (sbCid bundle) bs) f s' = f (map bsName stores) (s'\<lparr>stWorld := w4 s'\<rparr>)"
    for s' and f :: "_ \<Rightarrow> ('a relay_state, RelaySuccess) act" by (rule bindA_step) (rule q)
  note runs = ms val sz ens slot' lane' admit q'
  show ?thesis
  proof (cases "exactResult (lnLive lane) m")
    case True
    then show ?thesis unfolding submit_def by (simp add: runs ret_def)
  next
    case False
    then show ?thesis unfolding submit_def using anchor_lands [OF chain] by (simp add: runs)
  qed
qed

section \<open>Signing an attestation\<close>

text \<open>\<open>crypto.getRandomValues\<close> is asked at most twice; the two draws are arguments.\<close>

definition randomAttestationSalt :: "bytes \<Rightarrow> bytes \<Rightarrow> hex result" where
  "randomAttestationSalt first second =
     (let salt = (if list_all (\<lambda>b. b = 0) first then second else first) in
      bindE (requireE0 (\<not> list_all (\<lambda>b. b = 0) salt) ''E0_ZERO_SALT'' ''secure random source returned zero salt'') (\<lambda>_.
      Inr (offBytesToHex salt)))"

text \<open>What the code reads of the package's answer, and what it is asked with.\<close>

record SignedOffchainAttestation =
  soR :: hex
  soS :: hex
  soV :: int
  soUid :: hex

record SignInput =
  siSchema :: hex
  siRecipient :: hex
  siTime :: int
  siData :: hex
  siSalt :: "hex option"

definition signatureHex :: "SignedOffchainAttestation \<Rightarrow> hex result" where
  "signatureHex answer =
     bindE (offHexToBytes (soR answer)) (\<lambda>r.
     bindE (offHexToBytes (soS answer)) (\<lambda>s.
     let signature = offBytesToHex (concatBytes [r, s, [of_int (soV answer)]]) in
     bindE (assertCanonicalSignature signature) (\<lambda>_. Inr signature)))"

definition signRequest :: "SignInput \<Rightarrow> hex \<Rightarrow> CanonicalAttestation" where
  "signRequest inp salt = \<lparr>caVersion = 2, caSchema = siSchema inp, caRecipient = siRecipient inp, caTime = siTime inp,
     caExpirationTime = 0, caRevocable = True, caRefUID = ZERO32, caData = siData inp, caSalt = salt,
     caSignature = [], caUid = []\<rparr>"

definition signEasV2Attestation ::
  "eas_kit \<Rightarrow> (CanonicalAttestation \<Rightarrow> EasDomain \<Rightarrow> SignedOffchainAttestation result) \<Rightarrow> hex result \<Rightarrow> SignInput \<Rightarrow>
   EasDomain \<Rightarrow> CanonicalAttestation result" where
  "signEasV2Attestation E sign random inp domain =
     bindE (assertCanonicalProfileData (siData inp)) (\<lambda>_.
     bindE (case siSalt inp of Some salt \<Rightarrow> Inr salt | None \<Rightarrow> random) (\<lambda>salt.
     bindE (requireE0 (salt \<noteq> ZERO32) ''E0_ZERO_SALT'' ''attestation salt must be non-zero'') (\<lambda>_.
     bindE (sign (signRequest inp salt) domain) (\<lambda>answer.
     bindE (getAddress E (siRecipient inp)) (\<lambda>recipient.
     bindE (signatureHex answer) (\<lambda>signature.
     Inr ((signRequest inp salt)\<lparr>caRecipient := recipient, caSignature := signature, caUid := soUid answer\<rparr>)))))))"

definition uidOfOperation :: "DraftOperation \<Rightarrow> hex" where
  "uidOfOperation oper = (case oper of Attest a \<Rightarrow> caUid a | Revoke uid \<Rightarrow> uid)"

lemma uidOfOperation_entry: "uidOfOperation oper = leUid (opEntry oper)"
  by (cases oper) (simp_all add: uidOfOperation_def)

text \<open>The salt of the client's own source is a nonzero word.\<close>

lemma randomAttestationSalt_word:
  assumes "randomAttestationSalt first second = Inr salt" and "length first = 32" and "length second = 32"
  shows "hexOf 32 salt \<and> salt \<noteq> ZERO32"
proof -
  from assms obtain bs where bs: "salt = offBytesToHex bs" "length bs = 32" "\<not> list_all (\<lambda>b. b = 0) bs"
    by (auto simp: randomAttestationSalt_def Let_def split: if_splits)
  have z: "ZERO32 = offBytesToHex (replicate 32 0)" unfolding ZERO32_def offBytesToHex_def by code_simp
  have "salt \<noteq> ZERO32"
  proof
    assume "salt = ZERO32"
    then have "bs = replicate 32 0" using offBytes_roundtrip [of bs] offBytes_roundtrip [of "replicate 32 0"] bs(1) z by simp
    then show False using bs(3) by (simp add: list_all_iff)
  qed
  with bs show ?thesis by simp
qed

text \<open>
  An attestation signed by the client is admissible in a draft: the package gives the identifier of the fields, and
  the recipient is an address other than zero.
\<close>

definition signLaw :: "eas_kit \<Rightarrow> (CanonicalAttestation \<Rightarrow> EasDomain \<Rightarrow> SignedOffchainAttestation result) \<Rightarrow> bool" where
  "signLaw E sign \<longleftrightarrow> (\<forall>a domain answer recipient. sign a domain = Inr answer \<longrightarrow> getAddress E (caRecipient a) = Inr recipient \<longrightarrow>
     attestationUid E (a\<lparr>caRecipient := recipient\<rparr>) = Inr (soUid answer))"

lemma signed_valid:
  assumes law: "addressLaw E" "signLaw E sign" and s: "signEasV2Attestation E sign random inp domain = Inr a"
    and inp: "hexOf 32 (siSchema inp)" "\<And>salt. siSalt inp = Some salt \<or> siSalt inp = None \<and> random = Inr salt \<Longrightarrow> hexOf 32 salt"
      "getAddress E (siRecipient inp) \<noteq> Inr ZERO_ADDRESS"
  shows "validateAttestation E a (siSchema inp) = Inr () \<and> checksummed E (caRecipient a)"
proof -
  from s obtain salt answer recipient signature where
    d: "assertCanonicalProfileData (siData inp) = Inr ()" and salt: "(case siSalt inp of Some salt \<Rightarrow> Inr salt | None \<Rightarrow> random) = Inr salt"
    and nz: "salt \<noteq> ZERO32" and sg: "sign (signRequest inp salt) domain = Inr answer"
    and rc: "getAddress E (siRecipient inp) = Inr recipient" and sh: "signatureHex answer = Inr signature"
    and a: "a = (signRequest inp salt)\<lparr>caRecipient := recipient, caSignature := signature, caUid := soUid answer\<rparr>"
    unfolding signEasV2Attestation_def by (elim bindE_InrE) auto
  have sig: "assertCanonicalSignature signature = Inr ()"
    using sh unfolding signatureHex_def Let_def by (elim bindE_InrE) auto
  have "hexOf 32 salt" using inp(2) [of salt] salt by (auto split: option.splits)
  then have lens: "expectLength salt 32 l = Inr ()" "expectLength (siSchema inp) 32 l = Inr ()" for l
    using inp(1) by (simp_all add: expectLength_Inr)
  have uid: "attestationUid E a = Inr (soUid answer)"
  proof -
    have "attestationUid E ((signRequest inp salt)\<lparr>caRecipient := recipient\<rparr>) = Inr (soUid answer)"
    proof -
      have "getAddress E (caRecipient (signRequest inp salt)) = Inr recipient" using rc by (simp add: signRequest_def)
      with law(2) sg show ?thesis unfolding signLaw_def by blast
    qed
    then show ?thesis by (simp add: a attestationUid_def)
  qed
  have ck: "checksummed E recipient" using law(1) rc by (auto simp: addressLaw_def checksumLaw_def)
  have "getAddress E recipient = Inr recipient" by (rule checksummed_self [OF law(1) ck])
  moreover have "recipient \<noteq> ZERO_ADDRESS" using inp(3) rc by auto
  ultimately show ?thesis using d nz sig uid ck lens
    by (simp add: validateAttestation_def) (simp add: a signRequest_def)
qed

end
