(* ===== verification/OffchainExamples.thy ===== *)
theory OffchainExamples
  imports OffchainTotal
begin

text \<open>
  A concrete attestation package, payload, wallet, chain and stores on which the hypotheses of the properties hold.
\<close>

section \<open>An example\<close>

definition byteWord :: "8 word \<Rightarrow> hex" where
  "byteWord b = offBytesToHex (replicate 31 0 @ [b])"

definition sampleOwner :: hex where
  "sampleOwner = offBytesToHex (replicate 20 7)"

definition sampleSchema :: hex where
  "sampleSchema = offBytesToHex (replicate 32 5)"

text \<open>A package whose identifiers are the salts and whose signatures all recover to the owner.\<close>

definition exampleKit :: eas_kit where
  "exampleKit = \<lparr>
     getAddress = (\<lambda>a. if hexOf 20 a then Inr (toLowerCase a) else Inl (ExternalError ''InvalidAddressError'')),
     offchainUid = (\<lambda>a. Inr (caSalt a)),
     verifyTypedSignature = (\<lambda>owner a domain rsv. Inr (owner = sampleOwner)),
     recoverTypedHead = (\<lambda>m sig chain registry. Inr sampleOwner)\<rparr>"

definition sampleData :: bytes where
  "sampleData = replicate 31 0 @ [64] @ replicate 64 0"

definition sampleSignature :: bytes where
  "sampleSignature = replicate 31 0 @ [1] @ replicate 31 0 @ [1, 27]"

definition sampleAttestation :: "8 word \<Rightarrow> CanonicalAttestation" where
  "sampleAttestation k = \<lparr>caVersion = 2, caSchema = sampleSchema, caRecipient = sampleOwner, caTime = 1,
     caExpirationTime = 0, caRevocable = True, caRefUID = ZERO32, caData = offBytesToHex sampleData,
     caSalt = byteWord k, caSignature = offBytesToHex sampleSignature, caUid = byteWord k\<rparr>"

lemma offBytesToHex_inj: "offBytesToHex a = offBytesToHex b \<longleftrightarrow> a = b"
  using offBytes_roundtrip [of a] offBytes_roundtrip [of b] by (metis sum.inject(2))

lemma byteWord_simps [simp]: "byteWord a = byteWord b \<longleftrightarrow> a = b" "canonical (byteWord a)" "hexOf 32 (byteWord a)"
  by (simp_all add: byteWord_def offBytesToHex_inj offBytes_canonical)

lemma ZERO32_bytes: "ZERO32 = offBytesToHex (replicate 32 0)"
  unfolding ZERO32_def offBytesToHex_def by code_simp

lemma example_signature: "assertCanonicalSignature (offBytesToHex sampleSignature) = Inr ()"
proof -
  have b: "length sampleSignature = 65" "sampleSignature ! 64 = 27"
    "bytesVal (take 32 sampleSignature) = 1" "bytesVal (take 32 (drop 32 sampleSignature)) = 1"
    unfolding sampleSignature_def bytesVal_def by code_simp+
  show ?thesis
    by (simp add: assertCanonicalSignature_def offBytes_roundtrip b Let_def SECP256K1_N_def SECP256K1_HALF_N_def)
qed

lemma example_data: "assertCanonicalProfileData (offBytesToHex sampleData) = Inr ()"
proof -
  have b: "length sampleData = 96" "list_all (\<lambda>b. b = 0) (take 31 sampleData)" "sampleData ! 31 = 64"
    "bytesVal (drop 64 sampleData) = 0" "list_all (\<lambda>b. b = 0) (drop 96 sampleData)"
    unfolding sampleData_def bytesVal_def by code_simp+
  show ?thesis
    by (simp add: assertCanonicalProfileData_def offBytes_roundtrip b Let_def MIN_DATA_BYTES_def MAX_DATA_BYTES_def MAX_COMMENT_BYTES_def)
qed

lemma sampleOwner_simps [simp]: "hexOf 20 sampleOwner" "canonical sampleOwner" "checksummed exampleKit sampleOwner"
  by (simp_all add: sampleOwner_def offBytes_canonical checksummed_def exampleKit_def canonicalD)

lemma sampleOwner_address [simp]: "getAddress exampleKit sampleOwner = Inr sampleOwner" "sampleOwner \<noteq> ZERO_ADDRESS"
proof -
  show "getAddress exampleKit sampleOwner = Inr sampleOwner"
    using sampleOwner_simps(2) by (simp add: exampleKit_def canonicalD)
  have "sampleOwner ! 3 = CHR ''7''" "ZERO_ADDRESS ! 3 = CHR ''0''"
    unfolding sampleOwner_def offBytesToHex_def ZERO_ADDRESS_def by code_simp+
  then show "sampleOwner \<noteq> ZERO_ADDRESS" by auto
qed

lemma sample_attestation_valid: "k \<noteq> 0 \<Longrightarrow> validateAttestation exampleKit (sampleAttestation k) sampleSchema = Inr ()"
proof -
  assume k: "k \<noteq> 0"
  have "byteWord k \<noteq> ZERO32"
  proof
    assume "byteWord k = ZERO32"
    then have "replicate 31 0 @ [k] = replicate 32 0" by (simp add: ZERO32_bytes byteWord_def offBytesToHex_inj)
    then have "last (replicate 31 0 @ [k]) = last (replicate 32 (0 :: 8 word))" by (simp only:)
    then show False using k by simp
  qed
  moreover have "expectLength sampleSchema 32 label = Inr ()" "expectLength (byteWord k) 32 label = Inr ()" for label
    by (simp_all add: expectLength_Inr sampleSchema_def)
  ultimately show ?thesis
    by (simp add: validateAttestation_def sampleAttestation_def example_signature example_data attestationUid_def)
      (simp add: exampleKit_def)
qed

definition samplePayload :: "8 word list \<Rightarrow> PayloadV1" where
  "samplePayload ks = \<lparr>plOwner = sampleOwner, plEntries = map (\<lambda>k. \<lparr>leKind = 0, leUid = byteWord k\<rparr>) ks,
     plAttestations = map sampleAttestation ks\<rparr>"

lemma example_payload: "payloadOk exampleKit (samplePayload [1, 2]) sampleSchema" "plainPayload exampleKit (samplePayload [1, 2])"
  "roomFor (samplePayload [1, 2])" "schemaOf (samplePayload [1, 2]) = sampleSchema" "plOwner (samplePayload [1, 2]) = sampleOwner"
proof -
  show "payloadOk exampleKit (samplePayload [1, 2]) sampleSchema"
    using sample_attestation_valid by (auto simp: payloadOk_def samplePayload_def logOk_def less_Suc_eq entryOk_def attested_def
        sampleAttestation_def MAX_ENTRIES_PER_NODE_def)
  show "plainPayload exampleKit (samplePayload [1, 2])"
    by (auto simp: plainPayload_def samplePayload_def sampleAttestation_def sampleSchema_def offBytes_canonical)
  show "roomFor (samplePayload [1, 2])" by (simp add: roomFor_def samplePayload_def MAX_PAYLOAD_BYTES_def)
qed (simp_all add: schemaOf_def samplePayload_def sampleAttestation_def)

lemma example_encodes: "\<exists>bs. encodePayload exampleKit (samplePayload [1, 2]) = Inr bs"
proof (rule encodePayload_ok)
  show "payloadOk exampleKit (samplePayload [1, 2]) (schemaOf (samplePayload [1, 2]))"
    using example_payload(1) by (simp add: example_payload(4))
qed (use example_payload(3) in \<open>auto simp: samplePayload_def sampleAttestation_def\<close>)

section \<open>A digest for the heads\<close>

text \<open>The last 32 bytes of the input: the head of a log of attestations is its last identifier.\<close>

definition suffixDigest :: "hex \<Rightarrow> hex" where
  "suffixDigest x = (let d = replicate 64 (CHR ''0'') @ map lowerChar (drop 2 x) in ''0x'' @ drop (length d - 64) d)"

definition suffixViem :: viem where
  "suffixViem = exampleViem\<lparr>keccak256 := suffixDigest\<rparr>"

lemma suffix_word: "isWord (suffixDigest x)"
proof -
  have "map lowerChar (drop n (replicate 64 (CHR ''0'') @ map lowerChar s)) = drop n (replicate 64 (CHR ''0'') @ map lowerChar s)" for n s
    by (simp add: drop_map [symmetric] lowerChar_literals comp_def)
  then show ?thesis
    by (simp add: isWord_def suffixDigest_def canonical_def toLowerCase_def lowerChar_literals Let_def del: drop_append)
qed

lemma suffix_encode: "encodeAbi suffixViem vs = bindE (mapE exampleAbi vs) (\<lambda>ws. Inr (''0x'' @ concat (map (drop 2) ws)))"
  by (simp add: suffixViem_def exampleViem_def)

lemma suffix_last:
  assumes "canonical u" and "hexOf 32 u"
  shows "suffixDigest (''0x'' @ a @ drop 2 u) = u"
proof -
  have u: "length (drop 2 u) = 64" "take 2 u = ''0x''" using assms(2) by (auto simp: hexOf_def evenHex_def)
  have low: "map lowerChar (drop 2 u) = drop 2 u"
    using assms(1) by (metis canonical_def drop_map toLowerCase_def)
  have "drop (64 + length a) (replicate 64 c @ map lowerChar a @ drop 2 u) = drop 2 u" for c by simp
  then have "suffixDigest (''0x'' @ a @ drop 2 u) = ''0x'' @ drop 2 u"
    using u(1) low by (simp add: suffixDigest_def Let_def)
  then show ?thesis using u(2) by (metis append_take_drop_id)
qed

lemma suffix_laws: "digestLaw suffixViem" "abiLaw suffixViem" "abiWordLaw suffixViem" "shaWordLaw suffixViem"
  "addressAbiLaw suffixViem exampleKit"
proof -
  show "digestLaw suffixViem" by (simp add: digestLaw_def suffixViem_def suffix_word)
  have "abiFits v \<Longrightarrow> \<exists>x. exampleAbi v = Inr x" for v by (cases v) (auto simp: isPart_def)
  then show "abiLaw suffixViem" unfolding abiLaw_def suffix_encode
    by (metis mapE_ok_iff bindE.simps(2))
  show "abiWordLaw suffixViem" unfolding abiWordLaw_def suffix_encode by (auto split: if_splits)
  have "hexOf 32 (prefixDigest (offBytesToHex bs))" for bs
  proof -
    have "hexValue c \<noteq> None \<and> lowerChar c = c" if "c \<in> set (drop 2 (offBytesToHex bs))" for c
      using that hexDigits_lower by (auto simp: offBytesToHex_def simp del: hexDigits.simps)
    moreover have "hexValue (CHR ''0'') \<noteq> None" by code_simp
    ultimately show ?thesis
      by (auto simp: hexOf_def evenHex_def prefixDigest_def list_all_iff min_def dest!: in_set_takeD)
  qed
  then show "shaWordLaw suffixViem" by (simp add: shaWordLaw_def suffixViem_def exampleViem_def offBytesToHex_def)
  show "addressAbiLaw suffixViem exampleKit" by (auto simp: addressAbiLaw_def suffix_encode checksummed_def hexOf_def)
qed

lemma suffix_step: "length h = 66 \<Longrightarrow> headStep suffixViem h \<lparr>leKind = 0, leUid = byteWord k\<rparr> = Inr (byteWord k)"
proof -
  assume h: "length h = 66"
  have u: "length (byteWord k) = 66" by (simp add: byteWord_def)
  have k: "keccak256 suffixViem = suffixDigest" by (simp add: suffixViem_def)
  show ?thesis unfolding headStep_def entryLeaf_def suffix_encode k
    using h u suffix_last [of "byteWord k"] by (simp del: hexDigits.simps)
qed

section \<open>An example of a relay\<close>

text \<open>
  A chain whose world is the live head of the node, and two stores that keep what they are given.  The lane can be
  read in the state whose log is the one of the example.
\<close>

definition sampleLive :: LiveNodeHead where
  "sampleLive = \<lparr>lhCount = 1, lhHead = byteWord 1, lhDataCommitment = byteWord 9\<rparr>"

definition sampleConfig :: RelayConfig where
  "sampleConfig = \<lparr>rgChainId = 1, rgRegistry = sampleOwner, rgSchemaUid = sampleSchema, rgEasAddress = sampleOwner,
     rgEasVersion = ''1.4'', rgAllowedNodeIds = [], rgStorageQuorum = 2, rgMaxPayloadBytes = int MAX_PAYLOAD_BYTES,
     rgNodeRequestsPerMinute = 3\<rparr>"

definition separatorOf :: "TypedDomain \<Rightarrow> hex" where
  "separatorOf d = (case domainSeparator suffixViem d of Inl e \<Rightarrow> [] | Inr h \<Rightarrow> h)"

definition sampleLane :: "LiveNodeHead \<Rightarrow> LaneState" where
  "sampleLane live = \<lparr>lnChainId = 1, lnRegistry = sampleOwner, lnEasAddress = sampleOwner, lnEasVersion = ''1.4'',
     lnSchemaUid = sampleSchema,
     lnEasDomainSeparator = separatorOf \<lparr>tdName = ''EAS Attestation'', tdVersion = ''1.4'', tdChainId = 1, tdVerifyingContract = sampleOwner\<rparr>,
     lnHeadDomainSeparator = separatorOf (headDomain 1 sampleOwner), lnMaxTotalInputs = 100, lnAnchorCount = 1,
     lnWorkCount = 5, lnLane1LeafCount = 3, lnLatestBlockTimestamp = 10, lnLive = live, lnRegisteredOwner = Some sampleOwner\<rparr>"

definition sampleChain :: "LiveNodeHead relay_chain" where
  "sampleChain = \<lparr>chLane = (\<lambda>n w. (if w = sampleLive then Inr (sampleLane w) else Inl (OtherError ''unknown state''), w)), chLive = (\<lambda>n w. (Inr w, w)),
     chSimulate = (\<lambda>b m w. (Inr (), w)),
     chAnchor = (\<lambda>b m w. (Inr (), \<lparr>lhCount = amCount m, lhHead = amHead m, lhDataCommitment = amDataCommitment m\<rparr>))\<rparr>"

definition sampleStores :: "LiveNodeHead blob_store list" where
  "sampleStores = [\<lparr>bsName = ''one'', bsPutAndRead = (\<lambda>cid bs w. (Inr bs, w))\<rparr>,
     \<lparr>bsName = ''two'', bsPutAndRead = (\<lambda>cid bs w. (Inr bs, w))\<rparr>]"

definition sampleEas :: EasDomain where
  "sampleEas = \<lparr>edAddress = sampleOwner, edVersion = ''1.4'', edChainId = 1\<rparr>"

definition sampleWallet :: wallet_signer where
  "sampleWallet = \<lparr>wsAddress = sampleOwner, wsSignHead = (\<lambda>d m. Inr (offBytesToHex sampleSignature))\<rparr>"

definition sampleState :: "LiveNodeHead relay_state" where
  "sampleState = \<lparr>stEvents = [], stMetrics = \<lparr>mtSubmissions = 0, mtValidationFailures = 0, mtNewestAnchorCount = 0,
     mtStorageExactSuccesses = 0, mtWorkCount = 0, mtMaxTotalInputs = 0, mtRelayerLagEntries = 0\<rparr>, stWorld = sampleLive\<rparr>"

lemma sample_heads: "prefixHeads suffixViem (plEntries (samplePayload [1, 2])) = Inr [byteWord 1, byteWord 2]"
  "logHead suffixViem (take 1 (plEntries (samplePayload [1, 2]))) = Inr (byteWord 1)"
proof -
  have "length ZERO32 = 66" "length (byteWord 1) = 66" using ZERO32_hex(1) by (simp_all add: hexOf_def byteWord_def)
  then show "prefixHeads suffixViem (plEntries (samplePayload [1, 2])) = Inr [byteWord 1, byteWord 2]"
    "logHead suffixViem (take 1 (plEntries (samplePayload [1, 2]))) = Inr (byteWord 1)"
    by (simp_all add: prefixHeads_def logHead_def samplePayload_def suffix_step)
qed

lemma sample_separators: "domainSeparator suffixViem d = Inr (separatorOf d)"
  if "d = \<lparr>tdName = n, tdVersion = v, tdChainId = 1, tdVerifyingContract = sampleOwner\<rparr>"
proof -
  have "length (keccak256Bytes suffixViem bs) = 66" for bs
    using isWord_prefixDigest by (simp add: suffixViem_def exampleViem_def isWord_def)
  moreover have "length sampleOwner = 42" by (simp add: sampleOwner_def)
  ultimately have "\<exists>h. domainSeparator suffixViem d = Inr h"
    using that by (simp add: domainSeparator_def suffix_encode del: hexDigits.simps)
  then show ?thesis by (auto simp: separatorOf_def)
qed

lemma exampleKit_address: "addressLaw exampleKit" "checksumLaw exampleKit"
proof -
  have low: "hexOf n (toLowerCase a) \<longleftrightarrow> hexOf n a" if "hexOf n a \<or> canonical a" for n a
    using that
  proof
    assume "hexOf n a"
    then obtain bs where "offHexToBytes a = Inr bs" "length bs = n" using hexOf_bytes by blast
    then show ?thesis using offHex_back [of a bs] \<open>hexOf n a\<close> by (metis hexOf_offBytes)
  qed (simp add: canonicalD)
  show "checksumLaw exampleKit"
    using low by (auto simp: checksumLaw_def exampleKit_def checksummed_def split: if_splits)
  then show "addressLaw exampleKit" using low by (auto simp: addressLaw_def exampleKit_def)
qed

lemma sample_created: "\<exists>b. createSignedBundle suffixViem exampleKit (samplePayload [1, 2]) sampleLive sampleSchema sampleEas
    sampleOwner sampleWallet = Inr b"
proof -
  obtain bs where enc: "encodePayload exampleKit (samplePayload [1, 2]) = Inr bs" using example_encodes by blast
  obtain cid m where "buildNextMessage suffixViem exampleKit (samplePayload [1, 2]) sampleSchema sampleLive = Inr (bs, cid, m)"
    using buildNextMessage_ok [OF suffix_laws(2,1,4,5) _ enc, of sampleLive sampleSchema] sample_heads(2) example_payload
    by (auto simp: sampleLive_def samplePayload_def)
  then show ?thesis
    by (simp add: createSignedBundle_def sampleWallet_def sampleEas_def signHead_def example_signature example_payload(5))
qed

lemma sample_signed: "walletLaw exampleKit sampleWallet 1 sampleOwner" "bodiesSigned exampleKit (samplePayload ks) sampleEas"
proof -
  show "walletLaw exampleKit sampleWallet 1 sampleOwner" by (simp add: walletLaw_def exampleKit_def sampleWallet_def)
  have "\<exists>rsv. splitSignature (offBytesToHex sampleSignature) = Inr rsv"
    by (simp add: splitSignature_def example_signature offBytes_roundtrip)
  then show "bodiesSigned exampleKit (samplePayload ks) sampleEas"
    by (auto simp: bodiesSigned_def samplePayload_def sampleAttestation_def verifyEasV2Attestation_def exampleKit_def)
qed

lemma sample_valid:
  obtains b bs m cid where "createSignedBundle suffixViem exampleKit (samplePayload [1, 2]) sampleLive sampleSchema sampleEas
      sampleOwner sampleWallet = Inr b"
    and "validateSignedBundle suffixViem exampleKit b = Inr (samplePayload [1, 2], bs, m)"
    and "buildNextMessage suffixViem exampleKit (samplePayload [1, 2]) sampleSchema sampleLive = Inr (bs, cid, m)"
proof -
  obtain b where b: "createSignedBundle suffixViem exampleKit (samplePayload [1, 2]) sampleLive sampleSchema sampleEas
      sampleOwner sampleWallet = Inr b" using sample_created by blast
  from created_validates [OF exampleKit_address(1) example_payload(2) _ _ _ _ b] obtain bs cid m where
    "buildNextMessage suffixViem exampleKit (samplePayload [1, 2]) sampleSchema sampleLive = Inr (bs, cid, m)"
    "validateSignedBundle suffixViem exampleKit b = Inr (samplePayload [1, 2], bs, m)"
    using sample_signed by (auto simp: example_payload(4) sampleEas_def)
  with b that show ?thesis by blast
qed

lemma sample_admits:
  assumes b: "createSignedBundle suffixViem exampleKit (samplePayload [1, 2]) sampleLive sampleSchema sampleEas
      sampleOwner sampleWallet = Inr b"
    and m: "buildNextMessage suffixViem exampleKit (samplePayload [1, 2]) sampleSchema sampleLive = Inr (bs, cid, m)"
  shows "admit suffixViem exampleKit sampleConfig b (samplePayload [1, 2]) m (sampleLane sampleLive) = Inr ()"
proof -
  have mm: "amCount m = 2" "amPreviousHead m = byteWord 1" "amEnvelopeKind m = 0"
    using m by (elim buildNextMessage_Inr; simp add: samplePayload_def sampleLive_def)+
  have bb: "sbChainId b = bigToString 1" "sbRegistry b = sampleOwner" "sbEasAddress b = sampleOwner" "sbEasVersion b = ''1.4''"
    "sbSchemaUid b = sampleSchema" "sbOwner b = sampleOwner" "amEnvelopeKind (sbMessage b) = 0"
    using b m mm(3) by (elim createSignedBundle_Inr; simp add: sampleEas_def example_payload(5))+
  have one: "bigIntText (bigToString 1) = Inr 1" by (rule bigIntText_digits) simp
  have "assertLane suffixViem exampleKit sampleConfig b (sampleLane sampleLive) m = Inr ()"
    by (simp add: assertLane_def bb one sampleConfig_def sampleLane_def orElseE_def differ_def refuseWhen_def
        client_def sample_separators headDomain_def)
  moreover have "assertNoFutureAttestations (plAttestations (samplePayload [1, 2])) 10 = Inr ()"
    by (simp add: assertNoFutureAttestations_def samplePayload_def sampleAttestation_def)
  moreover have "assertTransition [byteWord 1, byteWord 2] sampleLive m = Inr ()"
    by (simp add: assertTransition_Inr mm sampleLive_def prefixHead_def itemAt_def)
  moreover have "assertCapacity (sampleLane sampleLive) m = Inr ()"
    by (simp add: assertCapacity_def projectedWork_def sampleLane_def sampleLive_def mm E0_ENTRY_WORK_UNITS_def Let_def)
  ultimately show ?thesis
    using sample_heads(1) by (simp add: admit_Inr) (simp add: sampleLane_def)
qed

lemma sample_environment:
  "limiterTake (rgNodeRequestsPerMinute sampleConfig) (toLowerCase (amNodeId m)) 0 (stEvents sampleState) =
     Inr [(toLowerCase (amNodeId m), [0])]"
  "chLane sampleChain (amNodeId m) (stWorld sampleState) = (Inr (sampleLane sampleLive), sampleLive)"
  "storesWork sampleStores (sbCid b) bs" "rgStorageQuorum sampleConfig \<le> int (length sampleStores)"
  "chainTakes sampleChain b m"
  by (simp_all add: limiterTake_def sampleConfig_def sampleState_def orDefault_def Let_def sampleChain_def chainTakes_def
      exactResult_def storesWork_def sampleStores_def)

lemma sample_submitted:
  obtains b bs m cid t where "createSignedBundle suffixViem exampleKit (samplePayload [1, 2]) sampleLive sampleSchema sampleEas
      sampleOwner sampleWallet = Inr b"
    and "validateSignedBundle suffixViem exampleKit b = Inr (samplePayload [1, 2], bs, m)"
    and "admit suffixViem exampleKit sampleConfig b (samplePayload [1, 2]) m (sampleLane sampleLive) = Inr ()"
    and "int (length bs) \<le> int MAX_PAYLOAD_BYTES"
    and "submit suffixViem exampleKit sampleConfig sampleChain sampleStores b 0 sampleState = (Inr (success b m), t)"
proof -
  obtain b bs m cid where b: "createSignedBundle suffixViem exampleKit (samplePayload [1, 2]) sampleLive sampleSchema sampleEas
      sampleOwner sampleWallet = Inr b"
    and v: "validateSignedBundle suffixViem exampleKit b = Inr (samplePayload [1, 2], bs, m)"
    and m: "buildNextMessage suffixViem exampleKit (samplePayload [1, 2]) sampleSchema sampleLive = Inr (bs, cid, m)"
    by (rule sample_valid)
  note a = sample_admits [OF b m]
  have sz: "int (length bs) \<le> int MAX_PAYLOAD_BYTES" using m by (elim buildNextMessage_Inr encodePayload_parts) simp
  have "\<exists>t. submit suffixViem exampleKit sampleConfig sampleChain sampleStores b 0 sampleState = (Inr (success b m), t)"
    by (rule submit_lands [OF v _ sample_environment(1,2) a sample_environment(3-5)])
      (use sz in \<open>simp add: sampleConfig_def\<close>)
  with b v a sz that show ?thesis by blast
qed

end
