(* ===== verification/OffchainProps.thy ===== *)
theory OffchainProps
  imports OffchainExamples OffchainTotal
begin

text \<open>
  The properties of the offchain attestation client and of its relay.
\<close>

section \<open>Payloads\<close>

text \<open>
  C32: The codec.  When \<open>getAddress\<close> returns checksummed addresses, decoding accepts a byte string exactly when it
  is the encoding of a plain payload (lower-case words, checksummed addresses) whose schema is the expected one,
  and returns that payload; the encoding is unique and nothing is lost.
\<close>

theorem payload_codec:
  assumes "checksumLaw E"
  shows "decodePayload E bs schema = Inr p \<longleftrightarrow> plainPayload E p \<and> encodePayload E p = Inr bs \<and>
    toLowerCase schema = toLowerCase (schemaOf p)"
  by (rule codec_iff [OF assms])

theorem payload_codec_witness:
  "\<exists>bs. encodePayload exampleKit (samplePayload [1, 2]) = Inr bs \<and>
     decodePayload exampleKit bs sampleSchema = Inr (samplePayload [1, 2])"
  using payload_codec [OF exampleKit_address(2)] example_encodes example_payload(2,4) by auto

text \<open>
  C33: The validation of a payload refines the specification of a log: it returns exactly on nonempty logs within
  the bound whose entries each attest a fresh identifier or revoke an attested, unrevoked one, and whose
  attestations are, in order, valid bodies of the attested identifiers.
\<close>

theorem validation_decides_log: "validatePayload E p schema = Inr () \<longleftrightarrow> payloadOk E p schema"
  by (rule validatePayload_spec)

section \<open>Drafts\<close>

text \<open>
  C34: Applying a draft to a well-formed canonical log returns exactly when the owner matches and the log extended
  by the operations is well formed, and then it is the canonical payload with the operations appended.
\<close>

theorem draft_extends_log:
  assumes "logOk (plEntries (canonicalBase p owner))"
  shows "applyOperations p owner ops = Inr q \<longleftrightarrow>
    toLowerCase (plOwner (canonicalBase p owner)) = toLowerCase owner \<and>
    logOk (plEntries (extended (canonicalBase p owner) ops)) \<and> q = extended (canonicalBase p owner) ops"
  by (rule applyOperations_iff [OF assms])

definition sampleOps :: "DraftOperation list" where
  "sampleOps = [Attest (sampleAttestation 1), Attest (sampleAttestation 2), Revoke (byteWord 1)]"

lemma log_Cons: "attested (e # es) = (if leKind e = 0 then [leUid e] else []) @ attested es"
  "revoked (e # es) = (if leKind e = 1 then [leUid e] else []) @ revoked es"
  by (simp_all add: attested_def revoked_def)

lemma sampleOps_ok: "logOk (plEntries (extended (canonicalBase None sampleOwner) sampleOps))"
  "\<forall>oper \<in> set sampleOps. opOk exampleKit sampleSchema oper"
proof -
  show "logOk (plEntries (extended (canonicalBase None sampleOwner) sampleOps))"
    by (simp add: canonicalBase_def sampleOps_def logOk_def less_Suc_eq entryOk_def log_Cons sampleAttestation_def all_conj_distrib)
  have "opOk exampleKit sampleSchema (Attest (sampleAttestation k))" if "k \<noteq> 0" for k
    using sample_attestation_valid [OF that] by (simp add: opOk_def) (simp add: sampleAttestation_def)
  then show "\<forall>oper \<in> set sampleOps. opOk exampleKit sampleSchema oper" by (simp add: sampleOps_def) (simp add: opOk_def)
qed

theorem draft_extends_log_witness:
  "applyOperations None sampleOwner sampleOps = Inr (extended (canonicalBase None sampleOwner) sampleOps) \<and>
   (\<nexists>q. applyOperations None sampleOwner [Revoke (byteWord 1)] = Inr q)"
proof -
  have e: "logOk (plEntries (canonicalBase None sampleOwner))" by (simp add: canonicalBase_def)
  have "\<not> logOk (plEntries (extended (canonicalBase None sampleOwner) [Revoke (byteWord 1)]))"
    by (simp add: canonicalBase_def logOk_def entryOk_def)
  then show ?thesis unfolding draft_extends_log [OF e] using sampleOps_ok(1) by (simp add: canonicalBase_def)
qed

text \<open>
  A draft never gets stuck.  Whatever state the node has reached, a nonempty draft of admissible operations that
  reloads on it and fits the bounds has a next message on the live head: no stale-head, count, encoding or
  address error is left.
\<close>

lemma draft_publishable:
  assumes "abiLaw V" and "digestLaw V" and "shaWordLaw V" and "addressAbiLaw V E" and "checksumLaw E"
    and "checksummed E (rdOwner draft)" and "reloadAndReapply V E draft src = Inr (sync, p)"
    and "rdOperations draft \<noteq> []" and "\<forall>oper \<in> set (rdOperations draft). opOk E (rdSchemaUid draft) oper"
    and "length (plEntries p) \<le> MAX_ENTRIES_PER_NODE" and "roomFor p"
  shows "\<exists>bs cid m. buildNextMessage V E p (rdSchemaUid draft) (snLive sync) = Inr (bs, cid, m)"
  by (rule reapplied_message [OF assms])

definition emptySource :: node_source where
  "emptySource = \<lparr>readLive = (\<lambda>n. Inr \<lparr>lhCount = 0, lhHead = ZERO32, lhDataCommitment = ZERO32\<rparr>),
     readPayload = (\<lambda>cid. Inl (ExternalError ''not found''))\<rparr>"

definition sampleDraft :: RecoverableDraft where
  "sampleDraft = \<lparr>rdSchemaUid = sampleSchema, rdOwner = sampleOwner,
     rdBase = \<lparr>lhCount = 0, lhHead = ZERO32, lhDataCommitment = ZERO32\<rparr>, rdOperations = sampleOps\<rparr>"

lemma sample_reload: "\<exists>sync. reloadAndReapply suffixViem exampleKit sampleDraft emptySource =
    Inr (sync, extended (canonicalBase None sampleOwner) sampleOps) \<and>
    snLive sync = \<lparr>lhCount = 0, lhHead = ZERO32, lhDataCommitment = ZERO32\<rparr>"
proof -
  have e: "logOk (plEntries (canonicalBase None sampleOwner))" by (simp add: canonicalBase_def)
  have "applyOperations None sampleOwner sampleOps = Inr (extended (canonicalBase None sampleOwner) sampleOps)"
    unfolding applyOperations_iff [OF e] using sampleOps_ok(1) by (simp add: canonicalBase_def)
  moreover obtain h where "encodeAbi suffixViem [AbiAddress sampleOwner] = Inr h"
    using suffix_laws(5) sampleOwner_simps(3) unfolding addressAbiLaw_def by blast
  then have "addressNodeId suffixViem sampleOwner = Inr (keccak256 suffixViem h)" by (simp add: addressNodeId_def)
  ultimately show ?thesis
    by (simp add: reloadAndReapply_def syncCanonicalNode_def sampleDraft_def emptySource_def)
qed

lemma draft_publishable_witness:
  "\<exists>bs cid m. buildNextMessage suffixViem exampleKit (extended (canonicalBase None sampleOwner) sampleOps) sampleSchema
     \<lparr>lhCount = 0, lhHead = ZERO32, lhDataCommitment = ZERO32\<rparr> = Inr (bs, cid, m)"
proof -
  obtain sync where s: "reloadAndReapply suffixViem exampleKit sampleDraft emptySource =
      Inr (sync, extended (canonicalBase None sampleOwner) sampleOps)"
    "snLive sync = \<lparr>lhCount = 0, lhHead = ZERO32, lhDataCommitment = ZERO32\<rparr>" using sample_reload by blast
  have "roomFor (extended (canonicalBase None sampleOwner) sampleOps)"
    "length (plEntries (extended (canonicalBase None sampleOwner) sampleOps)) \<le> MAX_ENTRIES_PER_NODE"
    by (simp_all add: roomFor_def canonicalBase_def sampleOps_def MAX_PAYLOAD_BYTES_def MAX_ENTRIES_PER_NODE_def)
  with draft_publishable [OF suffix_laws(2,1,4,5) exampleKit_address(2) _ s(1)] s(2) sampleOps_ok(2)
  show ?thesis by (auto simp: sampleDraft_def sampleOps_def)
qed

section \<open>Bundles\<close>

text \<open>
  A bundle that the client creates passes the validation of the relay and yields the payload it was created
  from, the encoded bytes and the signed message: the checks on both sides agree.
\<close>

lemma created_bundle_validates:
  assumes "addressLaw E" and "plainPayload E p" and "toLowerCase schema = toLowerCase (schemaOf p)"
    and "0 \<le> edChainId eas" and "walletLaw E wallet (edChainId eas) registry" and "bodiesSigned E p eas"
    and "createSignedBundle V E p live schema eas registry wallet = Inr b"
  shows "\<exists>bs cid m. buildNextMessage V E p schema live = Inr (bs, cid, m) \<and> validateSignedBundle V E b = Inr (p, bs, m)"
  by (rule created_validates [OF assms])

lemma created_bundle_validates_witness:
  "\<exists>b bs m. createSignedBundle suffixViem exampleKit (samplePayload [1, 2]) sampleLive sampleSchema sampleEas sampleOwner
      sampleWallet = Inr b \<and> validateSignedBundle suffixViem exampleKit b = Inr (samplePayload [1, 2], bs, m)"
proof -
  obtain b where "createSignedBundle suffixViem exampleKit (samplePayload [1, 2]) sampleLive sampleSchema sampleEas
      sampleOwner sampleWallet = Inr b" using sample_created by blast
  with created_bundle_validates [OF exampleKit_address(1) example_payload(2) _ _ _ _ this] sample_signed
  show ?thesis by (fastforce simp: example_payload(4) sampleEas_def)
qed

section \<open>The relay\<close>

text \<open>
  C35: When a submission succeeds, its bundle passed the validation and the admission on the state of the lane, at
  least the quorum of stores returned exactly the bytes of the committed payload, the answer is the one for this
  bundle, and the chain was seen to hold exactly the requested head: in the lane's state or, after the anchoring
  attempt, in the last read.
\<close>

theorem relay_success_confirmed:
  assumes "submit V E config chain stores bundle now s = (Inr r, t)"
  shows "\<exists>p bs m lane w. validateSignedBundle V E bundle = Inr (p, bs, m) \<and> r = success bundle m \<and>
    chLane chain (amNodeId m) (stWorld s) = (Inr lane, w) \<and> admit V E config bundle p m lane = Inr () \<and>
    storedBy stores (rgStorageQuorum config) (sbCid bundle) bs \<and>
    rawCid (payloadCommitment V bs) = Inr (sbCid bundle) \<and> amDataCommitment m = payloadCommitment V bs \<and>
    (exactResult (lnLive lane) m \<or> confirmed chain m (stWorld t))"
proof -
  obtain p bs m lane w0 evs where v: "validateSignedBundle V E bundle = Inr (p, bs, m)"
    and l: "chLane chain (amNodeId m) (stWorld s) = (Inr lane, w0)" and a: "admit V E config bundle p m lane = Inr ()"
    and st: "storedBy stores (rgStorageQuorum config) (sbCid bundle) bs" and r: "r = success bundle m"
    and c: "exactResult (lnLive lane) m \<or> confirmed chain m (stWorld t)"
    using assms by (elim submit_Inr)
  moreover have "rawCid (payloadCommitment V bs) = Inr (sbCid bundle)" "amDataCommitment m = payloadCommitment V bs"
    using v by (elim validated_parts, simp)+
  ultimately show ?thesis by blast
qed

theorem relay_success_confirmed_witness:
  "\<exists>b t p bs m. submit suffixViem exampleKit sampleConfig sampleChain sampleStores b 0 sampleState = (Inr (success b m), t) \<and>
     validateSignedBundle suffixViem exampleKit b = Inr (p, bs, m) \<and> storedBy sampleStores 2 (sbCid b) bs"
proof -
  obtain b bs m t where s: "submit suffixViem exampleKit sampleConfig sampleChain sampleStores b 0 sampleState =
      (Inr (success b m), t)" "validateSignedBundle suffixViem exampleKit b = Inr (samplePayload [1, 2], bs, m)"
    using sample_submitted by metis
  obtain p' bs' m' where v: "validateSignedBundle suffixViem exampleKit b = Inr (p', bs', m')"
    "storedBy sampleStores (rgStorageQuorum sampleConfig) (sbCid b) bs'" using relay_success_confirmed [OF s(1)] by blast
  have "rgStorageQuorum sampleConfig = 2" by (simp add: sampleConfig_def)
  with s(2) v have "storedBy sampleStores 2 (sbCid b) bs" by simp
  with s show ?thesis by blast
qed

text \<open>
  C36: The relay extends the canonical history.  When the chain keeps, per node, the count and the head of a log, the
  log of every successful submission has the canonical one as a prefix, unless the digest collides on what the two
  logs hash.
\<close>

theorem relay_extends_history:
  assumes "abiWordLaw V" and "digestLaw V" and "follows V chain history"
    and "submit V E config chain stores bundle now s = (Inr r, t)"
  shows "\<exists>p bs m. validateSignedBundle V E bundle = Inr (p, bs, m) \<and>
    (prefix (history (stWorld s) (amNodeId m)) (plEntries p) \<or>
     \<not> inj_on (keccak256 V) (headInputs V (history (stWorld s) (amNodeId m)) \<union>
       headInputs V (take (length (history (stWorld s) (amNodeId m))) (plEntries p))))"
  using assms(4) by (elim submit_Inr) (use admitted_extends [OF assms(1-3)] in blast)

definition sampleHistory :: "LiveNodeHead \<Rightarrow> hex \<Rightarrow> LogEntry list" where
  "sampleHistory w n = take (nat (lhCount w)) (plEntries (samplePayload [1, 2]))"

lemma sample_follows: "follows suffixViem sampleChain sampleHistory"
  using sample_heads(2) by (auto simp: follows_def sampleChain_def sampleHistory_def sampleLane_def sampleLive_def
      samplePayload_def byteWord_def offBytesToHex_def split: if_splits)

lemma sample_injective: "inj_on (keccak256 suffixViem) (headInputs suffixViem (take 1 (plEntries (samplePayload [1, 2]))))"
proof -
  have u: "length (byteWord 1) = 66" by (simp add: byteWord_def)
  have k: "keccak256 suffixViem = suffixDigest" by (simp add: suffixViem_def)
  have z: "drop 2 ZERO32 = hexDigits 64 0" "length ZERO32 = 66" unfolding ZERO32_def by code_simp+
  have leaf: "suffixDigest (''0x'' @ hexDigits 64 0 @ drop 2 (byteWord 1)) = byteWord 1" by (rule suffix_last) simp_all
  have "entryInputs suffixViem ZERO32 \<lparr>leKind = 0, leUid = byteWord 1\<rparr> \<subseteq> {''0x'' @ hexDigits 64 0 @ drop 2 (byteWord 1)}"
    unfolding entryInputs_def entryLeaf_def suffix_encode k using u z leaf by (auto simp del: hexDigits.simps)
  then have "headInputs suffixViem (take 1 (plEntries (samplePayload [1, 2]))) \<subseteq>
      {''0x'' @ hexDigits 64 0 @ drop 2 (byteWord 1)}"
    by (simp add: headInputs_def samplePayload_def logHead_def)
  then show ?thesis by (rule inj_on_subset [rotated]) simp
qed

theorem relay_extends_history_witness:
  "\<exists>b bs m t. submit suffixViem exampleKit sampleConfig sampleChain sampleStores b 0 sampleState = (Inr (success b m), t) \<and>
     validateSignedBundle suffixViem exampleKit b = Inr (samplePayload [1, 2], bs, m) \<and>
     prefix (sampleHistory sampleLive (amNodeId m)) (plEntries (samplePayload [1, 2]))"
proof -
  obtain b bs m t where s: "submit suffixViem exampleKit sampleConfig sampleChain sampleStores b 0 sampleState =
      (Inr (success b m), t)" "validateSignedBundle suffixViem exampleKit b = Inr (samplePayload [1, 2], bs, m)"
    using sample_submitted by metis
  have h: "sampleHistory sampleLive n = take 1 (plEntries (samplePayload [1, 2]))" for n
    by (simp add: sampleHistory_def sampleLive_def)
  have l: "length (take 1 (plEntries (samplePayload [1, 2]))) = 1" by (simp add: samplePayload_def)
  have w: "stWorld sampleState = sampleLive" by (simp add: sampleState_def)
  obtain p bs' m' where v: "validateSignedBundle suffixViem exampleKit b = Inr (p, bs', m')"
    and e: "prefix (sampleHistory sampleLive (amNodeId m')) (plEntries p) \<or>
      \<not> inj_on (keccak256 suffixViem) (headInputs suffixViem (sampleHistory sampleLive (amNodeId m')) \<union>
       headInputs suffixViem (take (length (sampleHistory sampleLive (amNodeId m'))) (plEntries p)))"
    using relay_extends_history [OF suffix_laws(3,1) sample_follows s(1)] unfolding w by blast
  have "p = samplePayload [1, 2]" "m' = m" using s(2) v by simp_all
  with e have "prefix (sampleHistory sampleLive (amNodeId m)) (plEntries (samplePayload [1, 2]))"
    unfolding h l by (simp only: h l Un_absorb sample_injective simp_thms)
  with s show ?thesis by blast
qed

text \<open>
  The chain is written to by admitted submissions only.  If the run of a submission depends at all on what
  simulating, anchoring and reading the live head do, then its bundle was valid, within the size limit and
  admitted on the lane's state, the quorum of stores holds the bytes, and the head is not there yet.
\<close>

lemma relay_anchors_admitted:
  assumes "submit V E config chain stores bundle now s \<noteq> submit V E config chain' stores bundle now s"
    and "chLane chain' = chLane chain"
  shows "\<exists>p bs m lane w. validateSignedBundle V E bundle = Inr (p, bs, m) \<and>
    int (length bs) \<le> rgMaxPayloadBytes config \<and> chLane chain (amNodeId m) (stWorld s) = (Inr lane, w) \<and>
    admit V E config bundle p m lane = Inr () \<and>
    storedBy stores (rgStorageQuorum config) (sbCid bundle) bs \<and> \<not> exactResult (lnLive lane) m"
  by (rule submit_depends [OF assms])

text \<open>The example chain out of reach for transactions and reads of the live head.\<close>

definition refusingChain :: "LiveNodeHead relay_chain" where
  "refusingChain = sampleChain\<lparr>chAnchor := (\<lambda>b m w. (Inl (OtherError ''timeout''), w)),
     chLive := (\<lambda>n w. (Inl (OtherError ''timeout''), w))\<rparr>"

lemma refused_run:
  assumes "validateSignedBundle suffixViem exampleKit b = Inr (samplePayload [1, 2], bs, m)"
  shows "submit suffixViem exampleKit sampleConfig refusingChain sampleStores b 0 sampleState \<noteq> (Inr r, t)"
proof
  assume "submit suffixViem exampleKit sampleConfig refusingChain sampleStores b 0 sampleState = (Inr r, t)"
  then obtain lane w where l: "chLane refusingChain (amNodeId m) (stWorld sampleState) = (Inr lane, w)"
    and c: "exactResult (lnLive lane) m \<or> confirmed refusingChain m (stWorld t)"
    by (elim submit_Inr) (use assms in auto)
  have "lnLive lane = sampleLive"
    using l by (auto simp: refusingChain_def sampleChain_def sampleState_def sampleLane_def)
  moreover have "amCount m = 2" using assms by (elim validated_parts) (simp add: samplePayload_def)
  ultimately show False using c by (auto simp: exactResult_def sampleLive_def confirmed_def refusingChain_def)
qed

lemma relay_anchors_admitted_witness:
  "\<exists>b bs m. submit suffixViem exampleKit sampleConfig sampleChain sampleStores b 0 sampleState \<noteq>
      submit suffixViem exampleKit sampleConfig refusingChain sampleStores b 0 sampleState \<and>
    validateSignedBundle suffixViem exampleKit b = Inr (samplePayload [1, 2], bs, m) \<and>
    admit suffixViem exampleKit sampleConfig b (samplePayload [1, 2]) m (sampleLane sampleLive) = Inr ()"
proof -
  obtain b bs m t where s: "submit suffixViem exampleKit sampleConfig sampleChain sampleStores b 0 sampleState =
      (Inr (success b m), t)" "validateSignedBundle suffixViem exampleKit b = Inr (samplePayload [1, 2], bs, m)"
    using sample_submitted by metis
  have "submit suffixViem exampleKit sampleConfig sampleChain sampleStores b 0 sampleState \<noteq>
      submit suffixViem exampleKit sampleConfig refusingChain sampleStores b 0 sampleState"
    using refused_run [OF s(2)] s(1) by metis
  moreover from relay_anchors_admitted [OF this] obtain p bs' m' lane w where
    "validateSignedBundle suffixViem exampleKit b = Inr (p, bs', m')"
    "chLane sampleChain (amNodeId m') (stWorld sampleState) = (Inr lane, w)"
    "admit suffixViem exampleKit sampleConfig b p m' lane = Inr ()" by (auto simp: refusingChain_def)
  then have "admit suffixViem exampleKit sampleConfig b (samplePayload [1, 2]) m (sampleLane sampleLive) = Inr ()"
    using s(2) by (simp add: sampleChain_def sampleState_def)
  ultimately show ?thesis using s(2) by blast
qed

text \<open>
  C37: An admitted submission lands.  When the bundle is valid, within the limits and admitted, the stores give the
  bytes back and the chain takes the transaction, the relay answers with the success of this bundle.
\<close>

theorem relay_lands:
  assumes "validateSignedBundle V E bundle = Inr (p, bs, m)" and "int (length bs) \<le> rgMaxPayloadBytes config"
    and "limiterTake (rgNodeRequestsPerMinute config) (toLowerCase (amNodeId m)) now (stEvents s) = Inr evs"
    and "chLane chain (amNodeId m) (stWorld s) = (Inr lane, w)" and "admit V E config bundle p m lane = Inr ()"
    and "storesWork stores (sbCid bundle) bs" and "rgStorageQuorum config \<le> int (length stores)"
    and "chainTakes chain bundle m"
  shows "\<exists>t. submit V E config chain stores bundle now s = (Inr (success bundle m), t)"
  by (rule submit_lands [OF assms])

theorem relay_lands_witness:
  "\<exists>b bs m t. createSignedBundle suffixViem exampleKit (samplePayload [1, 2]) sampleLive sampleSchema sampleEas sampleOwner
      sampleWallet = Inr b \<and> validateSignedBundle suffixViem exampleKit b = Inr (samplePayload [1, 2], bs, m) \<and>
    submit suffixViem exampleKit sampleConfig sampleChain sampleStores b 0 sampleState = (Inr (success b m), t)"
proof -
  obtain b bs m where b: "createSignedBundle suffixViem exampleKit (samplePayload [1, 2]) sampleLive sampleSchema sampleEas
      sampleOwner sampleWallet = Inr b"
    and v: "validateSignedBundle suffixViem exampleKit b = Inr (samplePayload [1, 2], bs, m)"
    and a: "admit suffixViem exampleKit sampleConfig b (samplePayload [1, 2]) m (sampleLane sampleLive) = Inr ()"
    and sz: "int (length bs) \<le> int MAX_PAYLOAD_BYTES" by (rule sample_submitted)
  note env = sample_environment
  have "int (length bs) \<le> rgMaxPayloadBytes sampleConfig" using sz by (simp add: sampleConfig_def)
  from relay_lands [OF v this env(1,2) a env(3-5)] b v show ?thesis by blast
qed

text \<open>
  C38: The rate limiter, on requests whose times do not decrease: a request is accepted exactly when its node had
  fewer than the limit of accepted requests in the last minute, and no window of a minute holds more.
\<close>

theorem rate_limit_exact:
  assumes "sorted (map snd reqs)" and "\<forall>r \<in> set reqs. snd r \<le> now" and "0 \<le> limit"
  shows "((\<exists>events. limiterTake limit n now (fst (limiterRun limit reqs)) = Inr events) \<longleftrightarrow>
      int (length (filter (\<lambda>t. now - 60000 < t) (timesOf n (snd (limiterRun limit reqs))))) < limit) \<and>
    int (length (filter (\<lambda>t. later - 60000 < t \<and> t \<le> later) (timesOf n (snd (limiterRun limit reqs))))) \<le> limit"
  using limiter_exact [OF assms(1,2), of limit n] limiter_bound [OF assms(1,3), where n = n and now = later] by blast

definition sampleRequests :: "(string \<times> int) list" where
  "sampleRequests = [(''0x0a'', 0), (''0x0b'', 10), (''0x0a'', 20000), (''0x0a'', 30000), (''0x0a'', 60000)]"

lemma sample_requests_run:
  "limiterRun 2 sampleRequests = ([(''0x0a'', [20000, 60000]), (''0x0b'', [10])],
     [(''0x0a'', 0), (''0x0b'', 10), (''0x0a'', 20000), (''0x0a'', 60000)])"
  by code_simp

theorem rate_limit_exact_witness:
  "(\<nexists>events. limiterTake 2 ''0x0a'' 79000 (fst (limiterRun 2 sampleRequests)) = Inr events) \<and>
   (\<exists>events. limiterTake 2 ''0x0a'' 80000 (fst (limiterRun 2 sampleRequests)) = Inr events)"
proof -
  have s: "sorted (map snd sampleRequests)" by (simp add: sampleRequests_def)
  have le: "\<forall>r \<in> set sampleRequests. snd r \<le> 79000" "\<forall>r \<in> set sampleRequests. snd r \<le> 80000"
    by (simp_all add: sampleRequests_def)
  have t: "timesOf ''0x0a'' (snd (limiterRun 2 sampleRequests)) = [0, 20000, 60000]"
    by (simp add: sample_requests_run timesOf_def)
  show ?thesis
    using rate_limit_exact [OF s le(1), of 2 "''0x0a''" 0] rate_limit_exact [OF s le(2), of 2 "''0x0a''" 0]
    unfolding t by simp
qed

end
