(* ===== verification/GraphLineage.thy ===== *)
theory GraphLineage
  imports JsNumbers
begin

text \<open>
  The referral graph of the indexer, packages/indexer/src/graph-lineage-shared.ts: identifiers of lineages and of
  endorsements, the status of an endorsement, the builder of the referral graph with its budgets, and the registry tuple.
\<close>

section \<open>Types\<close>

definition REFERRAL_BUDGET :: int where "REFERRAL_BUDGET = 1000000000000000000"

definition ENDORSEMENT_KINDS :: "string list" where
  "ENDORSEMENT_KINDS = [''integrity'', ''methodology'', ''referral'', ''agreement'', ''warning'']"

datatype EndorsementStatus =
    StUnknown | StActive | StWrongScope | StWrongSubjectConfiguration | StRevoked | StSuperseded | StNotStarted | StExpired
  | StIssuerConfigurationRotated | StSubjectConfigurationRotated

text \<open>An integer column is served as text or as a \<open>bigint\<close>; of \<open>revokedAt\<close> only its being \<open>null\<close> is read.\<close>

record EndorsementRecord =
  erId :: hex
  erIssuerLineageId :: hex
  erSubjectLineageId :: hex
  erIssuerConfigurationId :: hex
  erSubjectConfigurationId :: hex
  erScopeHash :: hex
  erKind :: int
  erWeight :: served_int
  erValidFrom :: served_int
  erValidUntil :: served_int
  erEvidenceURI :: string
  erEvidenceDigest :: hex
  erEvidenceMutable :: bool
  erSequence :: served_int
  erSupersededBy :: "hex option"
  erRevokedAt :: "served_int option"

record ConfigurationHead =
  chCurrentConfigurationId :: "hex option"
  chIsLive :: bool

record ReferralConfiguration =
  rcId :: hex
  rcFamilyId :: hex
  rcMethodId :: hex
  rcController :: hex
  rcAuthority :: hex

record ReferralOverlap =
  roFamily :: bool
  roMethod :: bool
  roController :: bool
  roAuthority :: bool

record ReferralEdge =
  reEndorsementId :: hex
  reIssuerLineageId :: hex
  reSubjectLineageId :: hex
  reScopeHash :: hex
  reWeight :: string
  reEvidenceURI :: string
  reEvidenceDigest :: hex
  reEvidenceMutable :: bool
  reOverlap :: ReferralOverlap

record ReferralBudget =
  rbIssuerLineageId :: hex
  rbScopeHash :: hex
  rbSpent :: string
  rbUnused :: string

section \<open>Identifiers\<close>

definition LINEAGE_DOMAIN :: "viem \<Rightarrow> hex" where
  "LINEAGE_DOMAIN V = keccak256 V (stringToHex V ''trustgraphs.graph-lineage.v1'')"

definition ENDORSEMENT_DOMAIN :: "viem \<Rightarrow> hex" where
  "ENDORSEMENT_DOMAIN V = keccak256 V (stringToHex V ''trustgraphs.graph-endorsement.v1'')"

definition graphLineageId :: "viem \<Rightarrow> int \<Rightarrow> hex \<Rightarrow> hex \<Rightarrow> hex result" where
  "graphLineageId V chain instanceRegistry instanceId =
     bindE (encodeAbi V [AbiBytes32 (LINEAGE_DOMAIN V), AbiUint 256 chain, AbiAddress instanceRegistry, AbiBytes32 instanceId])
       (\<lambda>x. Inr (keccak256 V x))"

definition graphEndorsementId :: "viem \<Rightarrow> int \<Rightarrow> hex \<Rightarrow> hex \<Rightarrow> hex \<Rightarrow> int \<Rightarrow> hex result" where
  "graphEndorsementId V chain registry issuerLineageId scopeHash sequence =
     bindE (encodeAbi V [AbiBytes32 (ENDORSEMENT_DOMAIN V), AbiUint 256 chain, AbiAddress registry, AbiBytes32 issuerLineageId,
       AbiBytes32 scopeHash, AbiUint 64 sequence]) (\<lambda>x. Inr (keccak256 V x))"

section \<open>The status of an endorsement\<close>

text \<open>\<open>expected && record !== expected\<close>: an absent or empty expectation is falsy.\<close>

definition violates :: "hex option \<Rightarrow> hex \<Rightarrow> bool" where
  "violates expected actual = (case expected of None \<Rightarrow> False | Some e \<Rightarrow> e \<noteq> [] \<and> actual \<noteq> e)"

definition classifyEndorsement ::
  "EndorsementRecord option \<Rightarrow> int \<Rightarrow> ConfigurationHead \<Rightarrow> ConfigurationHead \<Rightarrow> hex option \<Rightarrow> hex option \<Rightarrow>
   EndorsementStatus result" where
  "classifyEndorsement endorsement now issuer subject expectedScope expectedSubjectConfigurationId =
     (case endorsement of None \<Rightarrow> Inr StUnknown
      | Some e \<Rightarrow>
          if violates expectedScope (erScopeHash e) then Inr StWrongScope
          else if violates expectedSubjectConfigurationId (erSubjectConfigurationId e) then Inr StWrongSubjectConfiguration
          else if erRevokedAt e \<noteq> None then Inr StRevoked
          else if erSupersededBy e \<noteq> None then Inr StSuperseded
          else bindE (bigIntServed (erValidFrom e)) (\<lambda>validFrom.
            if now < validFrom then Inr StNotStarted
            else bindE (bigIntServed (erValidUntil e)) (\<lambda>validUntil.
              if now \<ge> validUntil then Inr StExpired
              else if \<not> chIsLive issuer \<or> chCurrentConfigurationId issuer \<noteq> Some (erIssuerConfigurationId e)
              then Inr StIssuerConfigurationRotated
              else if \<not> chIsLive subject \<or> chCurrentConfigurationId subject \<noteq> Some (erSubjectConfigurationId e)
              then Inr StSubjectConfigurationRotated
              else Inr StActive)))"

section \<open>The referral graph\<close>

definition isReferral :: "EndorsementRecord \<Rightarrow> bool" where
  "isReferral e \<longleftrightarrow> 0 \<le> erKind e \<and> erKind e < int (length ENDORSEMENT_KINDS) \<and>
     ENDORSEMENT_KINDS ! nat (erKind e) = ''referral''"

definition budgetKey :: "EndorsementRecord \<Rightarrow> string" where
  "budgetKey e = erIssuerLineageId e @ '':'' @ erScopeHash e"

text \<open>The first loop: a row of zero spend for every issuer and scope of a referral.\<close>

definition budgetRow :: "(string, int) jmap \<Rightarrow> EndorsementRecord \<Rightarrow> (string, int) jmap" where
  "budgetRow spend e = (if \<not> isReferral e then spend else if jhas spend (budgetKey e) then spend else jset (budgetKey e) 0 spend)"

definition edgeOf :: "EndorsementRecord \<Rightarrow> ReferralConfiguration \<Rightarrow> ReferralConfiguration \<Rightarrow> int \<Rightarrow> ReferralEdge" where
  "edgeOf e issuer subject weight = \<lparr>reEndorsementId = erId e, reIssuerLineageId = erIssuerLineageId e,
     reSubjectLineageId = erSubjectLineageId e, reScopeHash = erScopeHash e, reWeight = bigToString weight,
     reEvidenceURI = erEvidenceURI e, reEvidenceDigest = erEvidenceDigest e, reEvidenceMutable = erEvidenceMutable e,
     reOverlap = \<lparr>roFamily = (rcFamilyId issuer = rcFamilyId subject), roMethod = (rcMethodId issuer = rcMethodId subject),
       roController = (toLowerCase (rcController issuer) = toLowerCase (rcController subject)),
       roAuthority = (toLowerCase (rcAuthority issuer) = toLowerCase (rcAuthority subject))\<rparr>\<rparr>"

text \<open>
  The status of an endorsement whose verification is unavailable is \<open>None\<close> in the map; an endorsement that is not
  in the map has no status.
\<close>

definition referralStep ::
  "(hex, EndorsementStatus option) jmap \<Rightarrow> (hex, ReferralConfiguration) jmap \<Rightarrow>
   ReferralEdge list \<times> (string, int) jmap \<Rightarrow> EndorsementRecord \<Rightarrow> (ReferralEdge list \<times> (string, int) jmap) result" where
  "referralStep statuses configurations st e =
     (case st of (edges, spend) \<Rightarrow>
      if \<not> isReferral e \<or> jget statuses (erId e) \<noteq> Some (Some StActive) then Inr (edges, spend)
      else (case (jget configurations (erIssuerConfigurationId e), jget configurations (erSubjectConfigurationId e)) of
        (Some issuer, Some subject) \<Rightarrow>
          bindE (bigIntServed (erWeight e)) (\<lambda>weight.
          let next = orDefault (jget spend (budgetKey e)) 0 + weight in
          bindE (throwWhen (next > REFERRAL_BUDGET) (PlainError (''referral budget exceeded for '' @ budgetKey e))) (\<lambda>_.
          Inr (edges @ [edgeOf e issuer subject weight], jset (budgetKey e) next spend)))
      | _ \<Rightarrow> Inl (PlainError ''active referral is missing configuration provenance'')))"

text \<open>\<open>indexOf(':')\<close> and the two slices; every key has the separator.\<close>

definition referralBudgetOf :: "string \<times> int \<Rightarrow> ReferralBudget" where
  "referralBudgetOf ks = (let separator = length (takeWhile (\<lambda>c. c \<noteq> CHR '':'') (fst ks)) in
     \<lparr>rbIssuerLineageId = take separator (fst ks), rbScopeHash = drop (separator + 1) (fst ks),
      rbSpent = bigToString (snd ks), rbUnused = bigToString (REFERRAL_BUDGET - snd ks)\<rparr>)"

definition buildReferralAdjacency ::
  "EndorsementRecord list \<Rightarrow> (hex, EndorsementStatus option) jmap \<Rightarrow> (hex, ReferralConfiguration) jmap \<Rightarrow>
   (ReferralEdge list \<times> ReferralBudget list) result" where
  "buildReferralAdjacency endorsements statuses configurations =
     bindE (foldE (referralStep statuses configurations) ([], foldl budgetRow [] endorsements) endorsements) (\<lambda>(edges, spend).
     Inr (edges, map referralBudgetOf spend))"

section \<open>The registry tuple\<close>

record LineageRow =
  lrInstanceRegistry :: hex
  lrInstanceId :: hex
  lrCurrentConfigurationId :: "hex option"

record ConfigurationRow =
  cfId :: hex
  cfProgramId :: hex
  cfSnapshot :: hex
  cfVerifier :: hex
  cfRegistryOrAccumulator :: hex
  cfParamsHash :: hex

record BindingRow =
  bdSourceRegistry :: hex
  bdInstanceId :: hex
  bdProgramId :: hex
  bdSnapshot :: hex
  bdVerifier :: hex
  bdRegistryOrAccumulator :: hex
  bdParamsHash :: hex
  bdConflict :: bool

definition registryTupleLive :: "LineageRow \<Rightarrow> ConfigurationRow \<Rightarrow> BindingRow option \<Rightarrow> bool" where
  "registryTupleLive lineage configuration binding \<longleftrightarrow>
     lrCurrentConfigurationId lineage = Some (cfId configuration) \<and>
     (case binding of None \<Rightarrow> False
      | Some b \<Rightarrow> \<not> bdConflict b \<and> toLowerCase (bdSourceRegistry b) = toLowerCase (lrInstanceRegistry lineage) \<and>
          bdInstanceId b = lrInstanceId lineage \<and> bdProgramId b = cfProgramId configuration \<and>
          toLowerCase (bdSnapshot b) = toLowerCase (cfSnapshot configuration) \<and>
          toLowerCase (bdVerifier b) = toLowerCase (cfVerifier configuration) \<and>
          toLowerCase (bdRegistryOrAccumulator b) = toLowerCase (cfRegistryOrAccumulator configuration) \<and>
          bdParamsHash b = cfParamsHash configuration)"

section \<open>Lemmas on the spend\<close>

definition activeReferral :: "(hex, EndorsementStatus option) jmap \<Rightarrow> EndorsementRecord \<Rightarrow> bool" where
  "activeReferral statuses e \<longleftrightarrow> isReferral e \<and> jget statuses (erId e) = Some (Some StActive)"

definition endorsementWeight :: "EndorsementRecord \<Rightarrow> int" where
  "endorsementWeight e = (case bigIntServed (erWeight e) of Inl _ \<Rightarrow> 0 | Inr w \<Rightarrow> w)"

definition spentBy :: "(hex, EndorsementStatus option) jmap \<Rightarrow> EndorsementRecord list \<Rightarrow> string \<Rightarrow> int" where
  "spentBy statuses es k = sumOf endorsementWeight (filter (\<lambda>e. activeReferral statuses e \<and> budgetKey e = k) es)"

lemma rows_keys: "jmapInv (foldl budgetRow [] es) \<and> set (jkeys (foldl budgetRow [] es)) = budgetKey ` {e \<in> set es. isReferral e} \<and>
    (\<forall>k. orDefault (jget (foldl budgetRow [] es) k) 0 = 0)"
proof (induction es rule: rev_induct)
  case (snoc e es)
  define m where "m = foldl budgetRow [] es"
  have ih: "jmapInv m" "set (jkeys m) = budgetKey ` {e \<in> set es. isReferral e}" "\<And>k. orDefault (jget m k) 0 = 0"
    using snoc by (auto simp: m_def)
  have f: "foldl budgetRow [] (es @ [e]) = (if isReferral e \<and> budgetKey e \<notin> set (jkeys m) then jset (budgetKey e) 0 m else m)"
    by (simp add: budgetRow_def m_def)
  have k: "set (jkeys (jset k v m)) = insert k (set (jkeys m))" for k v by (simp add: keys_update insert_absorb)
  have s: "{x \<in> set (es @ [e]). isReferral x} = (if isReferral e then insert e {x \<in> set es. isReferral x} else {x \<in> set es. isReferral x})"
    by auto
  show ?case
  proof (cases "isReferral e \<and> budgetKey e \<notin> set (jkeys m)")
    case True
    then show ?thesis using ih unfolding f s by (simp only: k if_True simp_thms image_insert jget_jset jmapInv_jset) (simp add: orDefault_def)
  next
    case False
    then have "budgetKey ` {x \<in> set (es @ [e]). isReferral x} = set (jkeys m)" unfolding s ih(2) by auto
    then show ?thesis using ih False unfolding f by (simp only: if_False) simp
  qed
qed (simp add: orDefault_def jmapInv_def)

text \<open>An edge as the builder makes it from an endorsement and the configurations it names.\<close>

definition edgeFor :: "(hex, ReferralConfiguration) jmap \<Rightarrow> EndorsementRecord \<Rightarrow> ReferralEdge \<Rightarrow> bool" where
  "edgeFor configurations e x \<longleftrightarrow> (case (jget configurations (erIssuerConfigurationId e),
       jget configurations (erSubjectConfigurationId e), bigIntServed (erWeight e)) of
     (Some issuer, Some subject, Inr weight) \<Rightarrow> x = edgeOf e issuer subject weight | _ \<Rightarrow> False)"

text \<open>An endorsement whose configurations are indexed and whose weight is a number.\<close>

definition provenance :: "(hex, ReferralConfiguration) jmap \<Rightarrow> EndorsementRecord \<Rightarrow> bool" where
  "provenance configurations e \<longleftrightarrow> jget configurations (erIssuerConfigurationId e) \<noteq> None \<and>
     jget configurations (erSubjectConfigurationId e) \<noteq> None \<and> (\<exists>w. bigIntServed (erWeight e) = Inr w)"

lemma spentBy_snoc: "spentBy statuses (es @ [e]) k =
    spentBy statuses es k + (if activeReferral statuses e \<and> budgetKey e = k then endorsementWeight e else 0)"
  by (simp add: spentBy_def)

lemma spentBy_nonneg: "\<forall>e \<in> set es. 0 \<le> endorsementWeight e \<Longrightarrow> 0 \<le> spentBy statuses es k"
  by (induction es rule: rev_induct) (auto simp: spentBy_def)

lemma referralStep_inactive: "\<not> activeReferral statuses e \<Longrightarrow> referralStep statuses configurations st e = Inr st"
  by (cases st) (auto simp: referralStep_def activeReferral_def)

text \<open>One step on an active referral.\<close>

lemma referralStep_active:
  assumes "activeReferral statuses e"
  shows "referralStep statuses configurations (edges, spend) e = Inr (edges', spend') \<longleftrightarrow>
    provenance configurations e \<and> orDefault (jget spend (budgetKey e)) 0 + endorsementWeight e \<le> REFERRAL_BUDGET \<and>
    (\<exists>x. edgeFor configurations e x \<and> edges' = edges @ [x]) \<and>
    spend' = jset (budgetKey e) (orDefault (jget spend (budgetKey e)) 0 + endorsementWeight e) spend"
  using assms by (auto simp: referralStep_def activeReferral_def provenance_def edgeFor_def endorsementWeight_def Let_def result_simps not_less
      split: option.splits sum.splits)

lemma referral_fold:
  assumes "foldE (referralStep statuses configurations) ([], spend0) es = Inr (edges, spend)" and "jmapInv spend0"
    and "\<And>k. orDefault (jget spend0 k) 0 = 0" and "budgetKey ` {e \<in> set es. isReferral e} \<subseteq> set (jkeys spend0)"
  shows "jmapInv spend \<and> jkeys spend = jkeys spend0 \<and>
    list_all2 (edgeFor configurations) (filter (activeReferral statuses) es) edges \<and>
    (\<forall>k. orDefault (jget spend k) 0 = spentBy statuses es k \<and> spentBy statuses es k \<le> REFERRAL_BUDGET)"
  using assms(1,4)
proof (induction es arbitrary: edges spend rule: rev_induct)
  case Nil
  then show ?case using assms(2,3) by (auto simp: spentBy_def REFERRAL_BUDGET_def)
next
  case (snoc e es)
  from snoc.prems(1) obtain st1 where f0: "foldE (referralStep statuses configurations) ([], spend0) es = Inr st1"
    and s0: "referralStep statuses configurations st1 e = Inr (edges, spend)"
    by (auto simp: foldE_append result_simps)
  obtain edges1 spend1 where st1: "st1 = (edges1, spend1)" by (cases st1)
  have ih: "jmapInv spend1" "jkeys spend1 = jkeys spend0"
    "list_all2 (edgeFor configurations) (filter (activeReferral statuses) es) edges1"
    "\<And>k. orDefault (jget spend1 k) 0 = spentBy statuses es k" "\<And>k. spentBy statuses es k \<le> REFERRAL_BUDGET"
    using snoc.IH [OF f0 [unfolded st1]] snoc.prems(2) by auto
  show ?case
  proof (cases "activeReferral statuses e")
    case False
    then show ?thesis using s0 st1 ih by (simp add: referralStep_inactive spentBy_snoc)
  next
    case True
    from s0 [unfolded st1 referralStep_active [OF True]] ih(4) obtain x where
      c: "edgeFor configurations e x" "edges = edges1 @ [x]"
        "spentBy statuses es (budgetKey e) + endorsementWeight e \<le> REFERRAL_BUDGET"
        "spend = jset (budgetKey e) (spentBy statuses es (budgetKey e) + endorsementWeight e) spend1" by auto
    have "budgetKey e \<in> set (jkeys spend1)" unfolding ih(2) using snoc.prems(2) True by (auto simp: activeReferral_def)
    then have "jkeys spend = jkeys spend1" unfolding c(4) by (simp only: keys_update if_True)
    moreover have "jmapInv spend" unfolding c(4) by (rule jmapInv_jset [OF ih(1)])
    moreover have "orDefault (jget spend k) 0 = spentBy statuses (es @ [e]) k" for k
      unfolding c(4) jget_jset spentBy_snoc using True ih(4) [of k] by (auto simp: orDefault_def)
    moreover have "list_all2 (edgeFor configurations) (filter (activeReferral statuses) (es @ [e])) edges"
      unfolding c(2) using ih(3) True c(1) by (simp add: list_all2_appendI)
    moreover have "spentBy statuses (es @ [e]) k \<le> REFERRAL_BUDGET" for k
      unfolding spentBy_snoc using c(3) ih(5) [of k] True by auto
    ultimately show ?thesis using ih(2) by simp
  qed
qed

text \<open>With weights that are not negative the fold fails only for a missing provenance or an exceeded budget.\<close>

lemma referral_fold_returns:
  assumes "\<forall>e \<in> set es. activeReferral statuses e \<longrightarrow> provenance configurations e"
    and "\<forall>e \<in> set es. 0 \<le> endorsementWeight e" and "\<And>k. spentBy statuses es k \<le> REFERRAL_BUDGET"
    and "\<And>k. orDefault (jget spend0 k) 0 = 0" and "jmapInv spend0" and "budgetKey ` {e \<in> set es. isReferral e} \<subseteq> set (jkeys spend0)"
  shows "\<exists>st. foldE (referralStep statuses configurations) ([], spend0) es = Inr st"
  using assms(1,2,3,6)
proof (induction es rule: rev_induct)
  case (snoc e es)
  have le: "spentBy statuses es k \<le> REFERRAL_BUDGET" for k
    using snoc.prems(2) snoc.prems(3) [of k] unfolding spentBy_snoc by (auto split: if_splits)
  then obtain edges spend where f: "foldE (referralStep statuses configurations) ([], spend0) es = Inr (edges, spend)"
    using snoc.IH snoc.prems by fastforce
  have v: "orDefault (jget spend k) 0 = spentBy statuses es k" for k
    using referral_fold [OF f assms(5,4)] snoc.prems(4) by auto
  show ?case
  proof (cases "activeReferral statuses e")
    case False
    then show ?thesis using f by (simp add: foldE_append result_simps referralStep_inactive)
  next
    case True
    then have p: "provenance configurations e" using snoc.prems(1) by simp
    then obtain x where "edgeFor configurations e x" by (auto simp: provenance_def edgeFor_def)
    moreover have "orDefault (jget spend (budgetKey e)) 0 + endorsementWeight e \<le> REFERRAL_BUDGET"
      unfolding v using snoc.prems(3) [of "budgetKey e"] True by (simp add: spentBy_snoc)
    ultimately have "referralStep statuses configurations (edges, spend) e =
        Inr (edges @ [x], jset (budgetKey e) (orDefault (jget spend (budgetKey e)) 0 + endorsementWeight e) spend)"
      using p unfolding referralStep_active [OF True] by blast
    then show ?thesis using f by (simp add: foldE_append result_simps)
  qed
qed simp

section \<open>Live endorsements\<close>

text \<open>What an active status rests on: the specification the status order is checked against.\<close>

definition liveEndorsement :: "int \<Rightarrow> ConfigurationHead \<Rightarrow> ConfigurationHead \<Rightarrow> EndorsementRecord \<Rightarrow> bool" where
  "liveEndorsement now issuer subject e \<longleftrightarrow> erRevokedAt e = None \<and> erSupersededBy e = None \<and>
     (\<exists>opens closes. bigIntServed (erValidFrom e) = Inr opens \<and> bigIntServed (erValidUntil e) = Inr closes \<and> opens \<le> now \<and> now < closes) \<and>
     chIsLive issuer \<and> chCurrentConfigurationId issuer = Some (erIssuerConfigurationId e) \<and>
     chIsLive subject \<and> chCurrentConfigurationId subject = Some (erSubjectConfigurationId e)"

lemma classify_active_iff:
  "classifyEndorsement (Some e) now issuer subject None None = Inr StActive \<longleftrightarrow> liveEndorsement now issuer subject e"
  by (auto simp: classifyEndorsement_def liveEndorsement_def violates_def result_simps not_less not_le)

lemma build_Inr:
  "buildReferralAdjacency es statuses configurations = Inr (edges, budgets) \<longleftrightarrow>
    (\<exists>spend. foldE (referralStep statuses configurations) ([], foldl budgetRow [] es) es = Inr (edges, spend) \<and>
      budgets = map referralBudgetOf spend)"
  by (auto simp: buildReferralAdjacency_def result_simps)

lemmas build_fold = referral_fold [OF _ rows_keys [THEN conjunct1] rows_keys [THEN conjunct2, THEN conjunct2, rule_format]]

lemma build_facts:
  assumes "buildReferralAdjacency es statuses configurations = Inr (edges, budgets)"
  shows "\<exists>spend. budgets = map referralBudgetOf spend \<and> jmapInv spend \<and>
    set (jkeys spend) = budgetKey ` {e \<in> set es. isReferral e} \<and>
    list_all2 (edgeFor configurations) (filter (activeReferral statuses) es) edges \<and>
    (\<forall>k. orDefault (jget spend k) 0 = spentBy statuses es k \<and> spentBy statuses es k \<le> REFERRAL_BUDGET)"
proof -
  from assms obtain spend where f: "foldE (referralStep statuses configurations) ([], foldl budgetRow [] es) es = Inr (edges, spend)"
    and b: "budgets = map referralBudgetOf spend" unfolding build_Inr by blast
  have s: "set (jkeys (foldl budgetRow [] es)) = budgetKey ` {e \<in> set es. isReferral e}" using rows_keys [of es] by blast
  from build_fold [OF f] show ?thesis using b unfolding s by (metis s subset_refl)
qed

lemma referralBudgetOf_key: "CHR '':'' \<notin> set a \<Longrightarrow> referralBudgetOf (a @ '':'' @ b, v) =
    \<lparr>rbIssuerLineageId = a, rbScopeHash = b, rbSpent = bigToString v, rbUnused = bigToString (REFERRAL_BUDGET - v)\<rparr>"
proof -
  assume "CHR '':'' \<notin> set a"
  then have "takeWhile (\<lambda>c. c \<noteq> CHR '':'') (a @ '':'' @ b) = a"
    by (subst takeWhile_append2) auto
  then show ?thesis by (simp add: referralBudgetOf_def Let_def)
qed

definition pairOf :: "ReferralBudget \<Rightarrow> hex \<times> hex" where
  "pairOf b = (rbIssuerLineageId b, rbScopeHash b)"

definition issuerScope :: "EndorsementRecord \<Rightarrow> hex \<times> hex" where
  "issuerScope e = (erIssuerLineageId e, erScopeHash e)"

text \<open>The issuer and scope of a row are read back from its key, which has the separator once at the end of the issuer.\<close>

definition plainIssuers :: "EndorsementRecord list \<Rightarrow> bool" where
  "plainIssuers es \<longleftrightarrow> (\<forall>e \<in> set es. CHR '':'' \<notin> set (erIssuerLineageId e))"

lemma budgetKey_eq:
  assumes "plainIssuers es" and "d \<in> set es" and "e \<in> set es"
  shows "budgetKey d = budgetKey e \<longleftrightarrow> issuerScope d = issuerScope e"
proof
  have t: "takeWhile (\<lambda>c. c \<noteq> CHR '':'') (budgetKey x) = erIssuerLineageId x" if "x \<in> set es" for x
    unfolding budgetKey_def using that assms(1) by (subst takeWhile_append2) (auto simp: plainIssuers_def)
  assume k: "budgetKey d = budgetKey e"
  then have "erIssuerLineageId d = erIssuerLineageId e" using t [OF assms(2)] t [OF assms(3)] by simp
  then show "issuerScope d = issuerScope e" using k by (simp add: budgetKey_def issuerScope_def)
qed (simp add: budgetKey_def issuerScope_def)

lemma spend_row:
  assumes inv: "jmapInv spend" and keys: "set (jkeys spend) = budgetKey ` {e \<in> set es. isReferral e}"
    and plain: "plainIssuers es" and total: "\<And>k. orDefault (jget spend k) 0 = spentBy statuses es k"
    and m: "(k, v) \<in> set spend"
  shows "\<exists>e \<in> set es. isReferral e \<and> k = budgetKey e \<and> v = spentBy statuses es k \<and>
    referralBudgetOf (k, v) = \<lparr>rbIssuerLineageId = erIssuerLineageId e, rbScopeHash = erScopeHash e,
      rbSpent = bigToString v, rbUnused = bigToString (REFERRAL_BUDGET - v)\<rparr>"
proof -
  have "k \<in> set (jkeys spend)" using m by (force simp: image_iff)
  then obtain e where e: "e \<in> set es" "isReferral e" "k = budgetKey e" unfolding keys by auto
  have "jget spend k = Some v" using m inv by (simp add: jmapInv_def)
  then have "v = spentBy statuses es k" using total [of k] by (simp add: orDefault_def)
  moreover have "CHR '':'' \<notin> set (erIssuerLineageId e)" using plain e(1) by (simp add: plainIssuers_def)
  then have "referralBudgetOf (k, v) = \<lparr>rbIssuerLineageId = erIssuerLineageId e, rbScopeHash = erScopeHash e,
      rbSpent = bigToString v, rbUnused = bigToString (REFERRAL_BUDGET - v)\<rparr>"
    unfolding e(3) budgetKey_def by (rule referralBudgetOf_key)
  ultimately show ?thesis using e by blast
qed

lemma spend_rows_distinct:
  assumes "jmapInv spend" and "set (jkeys spend) = budgetKey ` {e \<in> set es. isReferral e}"
    and "plainIssuers es" and "\<And>k. orDefault (jget spend k) 0 = spentBy statuses es k"
  shows "distinct (map pairOf (map referralBudgetOf spend))"
proof -
  have "inj_on (pairOf \<circ> referralBudgetOf) (set spend)"
  proof (rule inj_onI)
    fix x y assume xy: "x \<in> set spend" "y \<in> set spend" "(pairOf \<circ> referralBudgetOf) x = (pairOf \<circ> referralBudgetOf) y"
    obtain d where d: "d \<in> set es" "fst x = budgetKey d" "pairOf (referralBudgetOf x) = issuerScope d" "snd x = spentBy statuses es (fst x)"
      using spend_row [OF assms, of "fst x" "snd x"] xy(1) by (auto simp: pairOf_def issuerScope_def)
    obtain e where e: "e \<in> set es" "fst y = budgetKey e" "pairOf (referralBudgetOf y) = issuerScope e" "snd y = spentBy statuses es (fst y)"
      using spend_row [OF assms, of "fst y" "snd y"] xy(2) by (auto simp: pairOf_def issuerScope_def)
    have "fst x = fst y" using xy(3) d e budgetKey_eq [OF assms(3) d(1) e(1)] by simp
    then show "x = y" using d(4) e(4) by (simp add: prod_eq_iff)
  qed
  moreover have "distinct spend" using assms(1) by (auto simp: jmapInv_def distinct_map)
  ultimately show ?thesis by (simp add: distinct_map)
qed

lemma spend_rows_listed:
  assumes "jmapInv spend" and keys: "set (jkeys spend) = budgetKey ` {e \<in> set es. isReferral e}"
    and "plainIssuers es" and "\<And>k. orDefault (jget spend k) 0 = spentBy statuses es k"
  shows "set (map pairOf (map referralBudgetOf spend)) = issuerScope ` {e \<in> set es. isReferral e}"
proof -
  have "pairOf (referralBudgetOf x) \<in> issuerScope ` {e \<in> set es. isReferral e}" if "x \<in> set spend" for x
    using spend_row [OF assms, of "fst x" "snd x"] that by (auto simp: pairOf_def issuerScope_def)
  moreover have "issuerScope e \<in> (\<lambda>x. pairOf (referralBudgetOf x)) ` set spend" if e: "e \<in> set es" "isReferral e" for e
  proof -
    have "budgetKey e \<in> set (jkeys spend)" unfolding keys using e by blast
    then obtain v where v: "(budgetKey e, v) \<in> set spend" by auto
    from spend_row [OF assms v] obtain d where "d \<in> set es" "budgetKey e = budgetKey d" "pairOf (referralBudgetOf (budgetKey e, v)) = issuerScope d"
      by (auto simp: pairOf_def issuerScope_def)
    then have "issuerScope e = pairOf (referralBudgetOf (budgetKey e, v))" using budgetKey_eq [OF assms(3) e(1)] by simp
    then show ?thesis using v by blast
  qed
  ultimately show ?thesis by auto
qed

text \<open>When the builder returns.\<close>

lemma referral_returns_iff:
  assumes "\<forall>e \<in> set es. 0 \<le> endorsementWeight e"
  shows "(\<exists>g. buildReferralAdjacency es statuses configurations = Inr g) \<longleftrightarrow>
    (\<forall>e \<in> set es. activeReferral statuses e \<longrightarrow> provenance configurations e) \<and> (\<forall>k. spentBy statuses es k \<le> REFERRAL_BUDGET)"
proof
  assume "\<exists>g. buildReferralAdjacency es statuses configurations = Inr g"
  then obtain edges budgets where g: "buildReferralAdjacency es statuses configurations = Inr (edges, budgets)" by auto
  from build_facts [OF g] have l: "list_all2 (edgeFor configurations) (filter (activeReferral statuses) es) edges"
    and sp: "\<And>k. spentBy statuses es k \<le> REFERRAL_BUDGET" by blast+
  have "provenance configurations e" if "edgeFor configurations e x" for e x
    using that by (auto simp: edgeFor_def provenance_def split: option.splits sum.splits)
  moreover have "\<exists>x. edgeFor configurations e x" if "e \<in> set es" "activeReferral statuses e" for e
  proof -
    have "e \<in> set (filter (activeReferral statuses) es)" using that by simp
    then show ?thesis using l by (metis list_all2_conv_all_nth in_set_conv_nth)
  qed
  ultimately show "(\<forall>e \<in> set es. activeReferral statuses e \<longrightarrow> provenance configurations e) \<and> (\<forall>k. spentBy statuses es k \<le> REFERRAL_BUDGET)"
    using sp by blast
next
  assume r: "(\<forall>e \<in> set es. activeReferral statuses e \<longrightarrow> provenance configurations e) \<and> (\<forall>k. spentBy statuses es k \<le> REFERRAL_BUDGET)"
  have "\<exists>st. foldE (referralStep statuses configurations) ([], foldl budgetRow [] es) es = Inr st"
    using r assms rows_keys [of es] by (intro referral_fold_returns) blast+
  then show "\<exists>g. buildReferralAdjacency es statuses configurations = Inr g"
    by (auto simp: buildReferralAdjacency_def result_simps split: prod.splits)
qed

end
