(* ===== verification/Reputation.thy ===== *)
theory Reputation
  imports JsNumbers
begin

text \<open>
  The graph reputation of the indexer (\<open>packages/indexer/src/graph-reputation.ts\<close>): its constants and types,
  the apportionment \<open>graphHamilton\<close>, the byte writer, the canonical input with its validation and encoding, the
  strongest paths, and \<open>computeGraphReputation\<close> itself.  A state of the iteration is a table of masses by node and
  root; the packages it calls are the parameters \<open>viem\<close> and \<open>viem_checks\<close>.
\<close>

section \<open>Constants and types\<close>

definition GRAPH_REPUTATION_VERSION :: int where "GRAPH_REPUTATION_VERSION = 1"
definition GRAPH_REPUTATION_SCALE :: int where "GRAPH_REPUTATION_SCALE = 1000000000000000000"
definition GRAPH_REPUTATION_LAMBDA :: int where "GRAPH_REPUTATION_LAMBDA = 850000000000000000"
definition GRAPH_REPUTATION_ITERATIONS :: nat where "GRAPH_REPUTATION_ITERATIONS = 128"
definition GRAPH_REPUTATION_ERROR_BOUND :: int where "GRAPH_REPUTATION_ERROR_BOUND = 2000000000"
definition GRAPH_REPUTATION_MAX_ROOTS :: nat where "GRAPH_REPUTATION_MAX_ROOTS = 16"
definition GRAPH_REPUTATION_MAX_NODES :: nat where "GRAPH_REPUTATION_MAX_NODES = 256"
definition GRAPH_REPUTATION_MAX_EDGES :: nat where "GRAPH_REPUTATION_MAX_EDGES = 4096"
definition GRAPH_REPUTATION_MAX_PATH_DEPTH :: nat where "GRAPH_REPUTATION_MAX_PATH_DEPTH = 8"

record GraphReputationRoot =
  grLineageId :: hex
  grWeight :: int

record GraphReputationNode =
  gnLineageId :: hex
  gnConfigurationId :: hex
  gnEpochId :: hex
  gnFamilyId :: hex
  gnMethodId :: hex
  gnController :: hex
  gnAuthority :: hex
  gnCreatedAt :: int
  gnEpochAcceptedBlock :: int
  gnEpochPublishedBlock :: int

record GraphReputationEdge =
  geEndorsementId :: hex
  geIssuerLineageId :: hex
  geSubjectLineageId :: hex
  geIssuerConfigurationId :: hex
  geSubjectConfigurationId :: hex
  geScopeHash :: hex
  geWeight :: int
  geValidFrom :: int
  geValidUntil :: int
  geIssuedBlock :: int
  geEvidenceDigest :: hex
  geRevokedAt :: "int option"
  geSupersededBy :: "hex option"

record GraphReputationInput =
  giVersion :: int
  giChainId :: int
  giRegistry :: hex
  giScopeHash :: hex
  giCutoffBlock :: int
  giFinalizedBlock :: int
  giCutoffTimestamp :: int
  giRoots :: "GraphReputationRoot list"
  giNodes :: "GraphReputationNode list"
  giEdgeList :: "GraphReputationEdge list"

record GraphReputationPath =
  gpRootLineageId :: hex
  gpLineageIds :: "hex list"
  gpEndorsementIds :: "hex list"
  gpStrength :: int

record GraphReputationScore =
  gsLineageId :: hex
  gsScore :: int
  gsRank :: int
  gsFamilyId :: hex
  gsFamilyMass :: int
  gsRootIngress :: "(hex \<times> int) list"
  gsPaths :: "GraphReputationPath list"

record GraphReferral =
  gfEndorsementId :: hex
  gfSubjectLineageId :: hex
  gfWeight :: int
  gfValidUntil :: int

record GraphMatrixRow =
  gxIssuerLineageId :: hex
  gxSpent :: int
  gxUnused :: int
  gxReferrals :: "GraphReferral list"

record GraphReputationResult =
  goInputCommitment :: hex
  goResultCommitment :: hex
  goIterations :: nat
  goResidual :: int
  goConverged :: bool
  goScores :: "GraphReputationScore list"
  goFamilies :: "(hex \<times> int) list"
  goMatrix :: "GraphMatrixRow list"

text \<open>The two checks of the package \<open>viem\<close> on strings.\<close>

record viem_checks =
  vcIsAddress :: "hex \<Rightarrow> bool"
  vcIsHex :: "hex \<Rightarrow> bool"

definition reputationFail :: "string \<Rightarrow> js_error" where
  "reputationFail code = PlainError (''graph-reputation: '' @ code)"

definition assertWord :: "viem_checks \<Rightarrow> hex \<Rightarrow> string \<Rightarrow> unit result" where
  "assertWord K value code =
     throwWhen (\<not> vcIsHex K value \<or> length value \<noteq> 66 \<or> value \<noteq> toLowerCase value \<or> value = ZERO_HASH) (reputationFail code)"

definition assertBytes32 :: "viem_checks \<Rightarrow> hex \<Rightarrow> string \<Rightarrow> unit result" where
  "assertBytes32 K value code =
     throwWhen (\<not> vcIsHex K value \<or> length value \<noteq> 66 \<or> value \<noteq> toLowerCase value) (reputationFail code)"

section \<open>The apportionment\<close>

record 't HamiltonEntry =
  heKey :: string
  heWeight :: int
  heData :: 't

record 't HamiltonPart =
  hpKey :: string
  hpWeight :: int
  hpData :: 't
  hpAllocation :: int
  hpRemainder :: int

definition addEntryWeight :: "int \<Rightarrow> 't HamiltonEntry \<Rightarrow> int result" where
  "addEntryWeight acc entry = bindE (throwWhen (heWeight entry < 0) (reputationFail ''negative-hamilton-weight'')) (\<lambda>_. Inr (acc + heWeight entry))"

definition hamiltonPart :: "int \<Rightarrow> int \<Rightarrow> string list \<times> 't HamiltonPart list \<Rightarrow> 't HamiltonEntry \<Rightarrow>
   (string list \<times> 't HamiltonPart list) result" where
  "hamiltonPart amount denominator st entry = (case st of (seen, rows) \<Rightarrow>
     bindE (throwWhen (heKey entry \<in> set seen) (reputationFail ''duplicate-hamilton-key'')) (\<lambda>_.
     let product = amount * heWeight entry in
     bindE (bigDiv product denominator) (\<lambda>a. bindE (bigMod product denominator) (\<lambda>r.
     Inr (seen @ [heKey entry], rows @ [\<lparr>hpKey = heKey entry, hpWeight = heWeight entry, hpData = heData entry,
       hpAllocation = a, hpRemainder = r\<rparr>])))))"

definition cmpPart :: "'t HamiltonPart list \<Rightarrow> nat \<Rightarrow> nat \<Rightarrow> int" where
  "cmpPart rows i j =
     (if hpRemainder (rows ! i) = hpRemainder (rows ! j) then cmpLin (hpKey (rows ! i)) (hpKey (rows ! j))
      else if hpRemainder (rows ! i) > hpRemainder (rows ! j) then -1 else 1)"

text \<open>
  The order holds the row objects themselves, so it is modelled by their indices.  The loop reads past the end of the
  order only if more units are left than rows, where the source throws.
\<close>

fun payUnits :: "int \<Rightarrow> nat list \<Rightarrow> 't HamiltonPart list \<Rightarrow> 't HamiltonPart list result" where
  "payUnits unallocated [] rows = (if unallocated > 0 then Inl (AppError ''TypeError'' ''undefined'') else Inr rows)"
| "payUnits unallocated (i # is) rows =
     (if unallocated > 0 then payUnits (unallocated - 1) is (rows[i := (rows ! i)\<lparr>hpAllocation := hpAllocation (rows ! i) + 1\<rparr>])
      else Inr rows)"

definition graphHamilton :: "int \<Rightarrow> 't HamiltonEntry list \<Rightarrow> 't HamiltonPart list result" where
  "graphHamilton amount entries =
     bindE (throwWhen (amount < 0 \<or> entries = []) (reputationFail ''invalid-hamilton-input'')) (\<lambda>_.
     bindE (foldE addEntryWeight 0 entries) (\<lambda>denominator.
     bindE (throwWhen (denominator = 0) (reputationFail ''zero-hamilton-denominator'')) (\<lambda>_.
     bindE (foldE (hamiltonPart amount denominator) ([], []) entries) (\<lambda>(seen, rows).
     payUnits (amount - sumOf hpAllocation rows) (sortBy (cmpPart rows) [0..<length rows]) rows))))"

definition normalizeGraphWeights :: "'t HamiltonEntry list \<Rightarrow> ('t \<times> int) list result" where
  "normalizeGraphWeights entries = bindE (graphHamilton GRAPH_REPUTATION_SCALE entries)
     (\<lambda>rows. Inr (map (\<lambda>r. (hpData r, hpAllocation r)) rows))"

section \<open>The byte writer\<close>

text \<open>What each call of the writer appends.\<close>

definition writeAscii :: "string \<Rightarrow> bytes result" where
  "writeAscii value = Inr (utf8Encode value)"

definition writeHex :: "viem \<Rightarrow> hex \<Rightarrow> nat \<Rightarrow> bytes result" where
  "writeHex V value n = (let decoded = hexToBytes V value in
     bindE (throwWhen (length decoded \<noteq> n) (reputationFail ''invalid-encoded-hex'')) (\<lambda>_. Inr decoded))"

definition writeUint :: "int \<Rightarrow> nat \<Rightarrow> bytes result" where
  "writeUint value n =
     bindE (throwWhen (value < 0 \<or> value \<ge> 2 ^ (8 * n)) (reputationFail ''integer-does-not-fit-encoding'')) (\<lambda>_.
     Inr (map (\<lambda>shift. of_int (value div 2 ^ (8 * shift) mod 256)) (rev [0..<n])))"

definition writeParts :: "bytes result list \<Rightarrow> bytes result" where
  "writeParts parts = bindE (mapE id parts) (\<lambda>bs. Inr (concat bs))"

section \<open>The canonical input\<close>

definition cmpReferral :: "GraphReputationEdge \<Rightarrow> GraphReputationEdge \<Rightarrow> int" where
  "cmpReferral l r =
     (let issuer = cmpLin (geIssuerLineageId l) (geIssuerLineageId r); subject = cmpLin (geSubjectLineageId l) (geSubjectLineageId r) in
      if issuer \<noteq> 0 then issuer else if subject \<noteq> 0 then subject else cmpLin (geEndorsementId l) (geEndorsementId r))"

definition canonicalInput :: "GraphReputationInput \<Rightarrow> GraphReputationInput" where
  "canonicalInput input = input\<lparr>
     giRoots := sortBy (\<lambda>l r. cmpLin (grLineageId l) (grLineageId r)) (giRoots input),
     giNodes := sortBy (\<lambda>l r. cmpLin (gnLineageId l) (gnLineageId r)) (giNodes input),
     giEdgeList := sortBy cmpReferral (giEdgeList input)\<rparr>"

definition refuseInput :: "bool \<Rightarrow> string \<Rightarrow> unit result" where
  "refuseInput c code = throwWhen c (reputationFail code)"

definition checkNode :: "viem_checks \<Rightarrow> GraphReputationInput \<Rightarrow> (hex, GraphReputationNode) jmap \<Rightarrow> GraphReputationNode \<Rightarrow>
   (hex, GraphReputationNode) jmap result" where
  "checkNode K input nodeById node =
     bindE (assertWord K (gnLineageId node) ''invalid-lineage-id'') (\<lambda>_.
     bindE (assertWord K (gnConfigurationId node) ''invalid-configuration-id'') (\<lambda>_.
     bindE (assertWord K (gnEpochId node) ''invalid-epoch-id'') (\<lambda>_.
     bindE (assertWord K (gnFamilyId node) ''invalid-family-id'') (\<lambda>_.
     bindE (assertWord K (gnMethodId node) ''invalid-method-id'') (\<lambda>_.
     bindE (refuseInput (\<not> vcIsAddress K (gnController node) \<or> gnController node = ZERO_ADDRESS \<or>
       \<not> vcIsAddress K (gnAuthority node) \<or> gnAuthority node = ZERO_ADDRESS) ''invalid-authority-provenance'') (\<lambda>_.
     bindE (refuseInput (jhas nodeById (gnLineageId node)) ''duplicate-lineage'') (\<lambda>_.
     bindE (refuseInput (gnCreatedAt node > giCutoffTimestamp input \<or> gnEpochAcceptedBlock node \<ge> giCutoffBlock input \<or>
       gnEpochPublishedBlock node \<ge> giCutoffBlock input) ''same-or-future-epoch'') (\<lambda>_.
     Inr (jset (gnLineageId node) node nodeById)))))))))"

definition checkRoot :: "(hex, GraphReputationNode) jmap \<Rightarrow> hex list \<times> int \<Rightarrow> GraphReputationRoot \<Rightarrow> (hex list \<times> int) result" where
  "checkRoot nodeById st root = (case st of (rootIds, priorMass) \<Rightarrow>
     bindE (refuseInput (\<not> jhas nodeById (grLineageId root)) ''root-history-unavailable'') (\<lambda>_.
     bindE (refuseInput (grLineageId root \<in> set rootIds) ''duplicate-root'') (\<lambda>_.
     bindE (refuseInput (grWeight root \<le> 0 \<or> grWeight root > GRAPH_REPUTATION_SCALE) ''invalid-root-weight'') (\<lambda>_.
     Inr (setAdd (grLineageId root) rootIds, priorMass + grWeight root)))))"

definition referralPair :: "GraphReputationEdge \<Rightarrow> string" where
  "referralPair edge = geIssuerLineageId edge @ '':'' @ geSubjectLineageId edge"

definition checkEdge :: "viem_checks \<Rightarrow> GraphReputationInput \<Rightarrow> (hex, GraphReputationNode) jmap \<Rightarrow>
   hex list \<times> string list \<times> (hex, int) jmap \<Rightarrow> GraphReputationEdge \<Rightarrow> (hex list \<times> string list \<times> (hex, int) jmap) result" where
  "checkEdge K input nodeById st edge = (case st of (edgeIds, pairs, issuerSpend) \<Rightarrow>
     bindE (assertWord K (geEndorsementId edge) ''invalid-endorsement-id'') (\<lambda>_.
     bindE (refuseInput (geEndorsementId edge \<in> set edgeIds) ''duplicate-endorsement'') (\<lambda>_.
     (case (jget nodeById (geIssuerLineageId edge), jget nodeById (geSubjectLineageId edge)) of
       (Some issuer, Some subject) \<Rightarrow>
         bindE (refuseInput (gnLineageId issuer = gnLineageId subject) ''self-referral'') (\<lambda>_.
         bindE (refuseInput (geIssuerConfigurationId edge \<noteq> gnConfigurationId issuer) ''wrong-issuer-version'') (\<lambda>_.
         bindE (refuseInput (geSubjectConfigurationId edge \<noteq> gnConfigurationId subject) ''wrong-subject-version'') (\<lambda>_.
         bindE (refuseInput (geScopeHash edge \<noteq> giScopeHash input) ''wrong-scope'') (\<lambda>_.
         bindE (refuseInput (geWeight edge \<le> 0 \<or> geWeight edge > GRAPH_REPUTATION_SCALE) ''invalid-referral-weight'') (\<lambda>_.
         bindE (refuseInput (geIssuedBlock edge \<ge> giCutoffBlock input \<or> geValidFrom edge > giCutoffTimestamp input \<or>
           geValidUntil edge \<le> giCutoffTimestamp input) ''inactive-at-cutoff'') (\<lambda>_.
         bindE (refuseInput (geRevokedAt edge \<noteq> None) ''revoked-edge'') (\<lambda>_.
         bindE (refuseInput (geSupersededBy edge \<noteq> None) ''superseded-edge'') (\<lambda>_.
         bindE (assertBytes32 K (geEvidenceDigest edge) ''invalid-evidence-digest'') (\<lambda>_.
         bindE (refuseInput (referralPair edge \<in> set pairs) ''duplicate-referral-pair'') (\<lambda>_.
         let spend = orDefault (jget issuerSpend (geIssuerLineageId edge)) 0 + geWeight edge in
         bindE (refuseInput (spend > GRAPH_REPUTATION_SCALE) ''referral-budget-exceeded'') (\<lambda>_.
         Inr (setAdd (geEndorsementId edge) edgeIds, setAdd (referralPair edge) pairs, jset (geIssuerLineageId edge) spend issuerSpend))))))))))))
     | _ \<Rightarrow> Inl (reputationFail ''edge-history-unavailable'')))))"

definition validateInput :: "viem_checks \<Rightarrow> GraphReputationInput \<Rightarrow> unit result" where
  "validateInput K input =
     bindE (refuseInput (giVersion input \<noteq> GRAPH_REPUTATION_VERSION) ''unsupported-version'') (\<lambda>_.
     bindE (refuseInput (giChainId input \<le> 0) ''invalid-chain'') (\<lambda>_.
     bindE (refuseInput (\<not> vcIsAddress K (giRegistry input) \<or> giRegistry input = ZERO_ADDRESS) ''invalid-registry'') (\<lambda>_.
     bindE (assertWord K (giScopeHash input) ''invalid-scope'') (\<lambda>_.
     bindE (refuseInput (giCutoffBlock input \<le> 0 \<or> giCutoffTimestamp input \<le> 0 \<or> giCutoffBlock input > giFinalizedBlock input)
       ''unfinalized-cutoff'') (\<lambda>_.
     bindE (refuseInput (giRoots input = [] \<or> length (giRoots input) > GRAPH_REPUTATION_MAX_ROOTS) ''invalid-root-count'') (\<lambda>_.
     bindE (refuseInput (giNodes input = [] \<or> length (giNodes input) > GRAPH_REPUTATION_MAX_NODES) ''invalid-node-count'') (\<lambda>_.
     bindE (refuseInput (length (giEdgeList input) > GRAPH_REPUTATION_MAX_EDGES) ''edge-limit-exceeded'') (\<lambda>_.
     bindE (foldE (checkNode K input) [] (giNodes input)) (\<lambda>nodeById.
     bindE (foldE (checkRoot nodeById) ([], 0) (giRoots input)) (\<lambda>(rootIds, priorMass).
     bindE (refuseInput (priorMass \<noteq> GRAPH_REPUTATION_SCALE) ''invalid-root-mass'') (\<lambda>_.
     bindE (foldE (checkEdge K input nodeById) ([], [], []) (giEdgeList input)) (\<lambda>_. Inr ()))))))))))))"

definition encodeRoot :: "viem \<Rightarrow> GraphReputationRoot \<Rightarrow> bytes result list" where
  "encodeRoot V root = [writeHex V (grLineageId root) 32, writeUint (grWeight root) 8]"

definition encodeNode :: "viem \<Rightarrow> GraphReputationNode \<Rightarrow> bytes result list" where
  "encodeNode V node = [writeHex V (gnLineageId node) 32, writeHex V (gnConfigurationId node) 32, writeHex V (gnEpochId node) 32,
     writeHex V (gnFamilyId node) 32, writeHex V (gnMethodId node) 32, writeHex V (gnController node) 20,
     writeHex V (gnAuthority node) 20, writeUint (gnCreatedAt node) 8, writeUint (gnEpochAcceptedBlock node) 8,
     writeUint (gnEpochPublishedBlock node) 8]"

definition encodeEdge :: "viem \<Rightarrow> GraphReputationEdge \<Rightarrow> bytes result list" where
  "encodeEdge V edge = [writeHex V (geEndorsementId edge) 32, writeHex V (geIssuerLineageId edge) 32,
     writeHex V (geSubjectLineageId edge) 32, writeHex V (geIssuerConfigurationId edge) 32,
     writeHex V (geSubjectConfigurationId edge) 32, writeHex V (geScopeHash edge) 32, writeUint (geWeight edge) 8,
     writeUint (geValidFrom edge) 8, writeUint (geValidUntil edge) 8, writeUint (geIssuedBlock edge) 8,
     writeHex V (geEvidenceDigest edge) 32, writeUint (orDefault (geRevokedAt edge) 0) 8,
     writeHex V (orDefault (geSupersededBy edge) ZERO_HASH) 32]"

definition encodeGraphReputationInput :: "viem \<Rightarrow> viem_checks \<Rightarrow> GraphReputationInput \<Rightarrow> bytes result" where
  "encodeGraphReputationInput V K raw =
     (let input = canonicalInput raw in
      bindE (validateInput K input) (\<lambda>_.
      writeParts ([writeAscii ''TGRP'', writeUint (giVersion input) 2, writeUint GRAPH_REPUTATION_SCALE 8,
          writeUint GRAPH_REPUTATION_LAMBDA 8, writeUint (int GRAPH_REPUTATION_ITERATIONS) 2, writeUint (giChainId input) 8,
          writeHex V (giRegistry input) 20, writeHex V (giScopeHash input) 32, writeUint (giCutoffBlock input) 8,
          writeUint (giFinalizedBlock input) 8, writeUint (giCutoffTimestamp input) 8, writeUint (int (length (giRoots input))) 2,
          writeUint (int (length (giNodes input))) 2, writeUint (int (length (giEdgeList input))) 4] @
        concat (map (encodeRoot V) (giRoots input)) @ concat (map (encodeNode V) (giNodes input)) @
        concat (map (encodeEdge V) (giEdgeList input)))))"

section \<open>Strongest paths\<close>

type_synonym out_edge = "GraphReputationEdge \<times> nat"

text \<open>\<open>ids.join(':')\<close>.\<close>

fun joinIds :: "hex list \<Rightarrow> string" where
  "joinIds [] = []"
| "joinIds [x] = x"
| "joinIds (x # xs) = x @ '':'' @ joinIds xs"

definition extendPath :: "GraphReputationPath \<Rightarrow> GraphReputationEdge \<Rightarrow> GraphReputationPath" where
  "extendPath path edge = \<lparr>gpRootLineageId = gpRootLineageId path, gpLineageIds = gpLineageIds path @ [geSubjectLineageId edge],
     gpEndorsementIds = gpEndorsementIds path @ [geEndorsementId edge],
     gpStrength = (gpStrength path * geWeight edge) div GRAPH_REPUTATION_SCALE\<rparr>"

text \<open>\<open>!previous || \<dots>\<close>: whether the candidate replaces the best path to its end so far.\<close>

definition betterPath :: "GraphReputationPath \<Rightarrow> GraphReputationPath option \<Rightarrow> bool" where
  "betterPath candidate previous = (case previous of None \<Rightarrow> True
     | Some p \<Rightarrow> gpStrength candidate > gpStrength p \<or>
         (gpStrength candidate = gpStrength p \<and> cmpLin (joinIds (gpEndorsementIds candidate)) (joinIds (gpEndorsementIds p)) < 0))"

definition relaxEdge :: "GraphReputationPath \<Rightarrow> (nat, GraphReputationPath) jmap \<times> bool \<Rightarrow> out_edge \<Rightarrow>
   (nat, GraphReputationPath) jmap \<times> bool" where
  "relaxEdge path st oe = (case (st, oe) of ((best, changed), (edge, target)) \<Rightarrow>
     if geSubjectLineageId edge \<in> set (gpLineageIds path) then (best, changed)
     else if betterPath (extendPath path edge) (jget best target) then (jset target (extendPath path edge) best, True)
     else (best, changed))"

text \<open>One pass over a copy of the entries.\<close>

definition relaxFrom :: "out_edge list list \<Rightarrow> nat \<Rightarrow> (nat, GraphReputationPath) jmap \<times> bool \<Rightarrow> nat \<times> GraphReputationPath \<Rightarrow>
   (nat, GraphReputationPath) jmap \<times> bool" where
  "relaxFrom outgoing depth st entry = (case entry of (source, path) \<Rightarrow>
     if length (gpEndorsementIds path) \<noteq> depth then st else foldl (relaxEdge path) st (outgoing ! source))"

definition relaxPass :: "out_edge list list \<Rightarrow> nat \<Rightarrow> (nat, GraphReputationPath) jmap \<Rightarrow> (nat, GraphReputationPath) jmap \<times> bool" where
  "relaxPass outgoing depth best = foldl (relaxFrom outgoing depth) (best, False) best"

text \<open>The loop over depths; \<open>left\<close> is the number of passes left.\<close>

fun pathLoop :: "out_edge list list \<Rightarrow> nat \<Rightarrow> nat \<Rightarrow> (nat, GraphReputationPath) jmap \<Rightarrow> (nat, GraphReputationPath) jmap" where
  "pathLoop outgoing 0 depth best = best"
| "pathLoop outgoing (Suc left) depth best =
     (case relaxPass outgoing depth best of (best', changed) \<Rightarrow>
        if changed then pathLoop outgoing left (depth + 1) best' else best')"

definition indexOf :: "(hex, nat) jmap \<Rightarrow> hex \<Rightarrow> nat result" where
  "indexOf m k = (case jget m k of None \<Rightarrow> Inl (AppError ''TypeError'' ''undefined'') | Some i \<Rightarrow> Inr i)"

definition rootPaths :: "out_edge list list \<Rightarrow> (hex, nat) jmap \<Rightarrow> GraphReputationRoot \<Rightarrow> (nat, GraphReputationPath) jmap result" where
  "rootPaths outgoing nodeIndex root =
     bindE (indexOf nodeIndex (grLineageId root)) (\<lambda>rootIndex.
     Inr (pathLoop outgoing GRAPH_REPUTATION_MAX_PATH_DEPTH 0
       [(rootIndex, \<lparr>gpRootLineageId = grLineageId root, gpLineageIds = [grLineageId root], gpEndorsementIds = [],
          gpStrength = grWeight root\<rparr>)]))"

definition addPath :: "GraphReputationNode list \<Rightarrow> (hex, GraphReputationPath list) jmap \<Rightarrow> nat \<times> GraphReputationPath \<Rightarrow>
   (hex, GraphReputationPath list) jmap" where
  "addPath nodes paths entry = (case entry of (index, path) \<Rightarrow>
     let lineageId = gnLineageId (nodes ! index) in jset lineageId (orDefault (jget paths lineageId) [] @ [path]) paths)"

definition strongestPaths :: "GraphReputationInput \<Rightarrow> out_edge list list \<Rightarrow> (hex, nat) jmap \<Rightarrow>
   (hex, GraphReputationPath list) jmap result" where
  "strongestPaths input outgoing nodeIndex =
     foldE (\<lambda>paths root. bindE (rootPaths outgoing nodeIndex root) (\<lambda>best. Inr (foldl (addPath (giNodes input)) paths best)))
       [] (giRoots input)"

section \<open>One iteration\<close>

text \<open>A state gives each node, for each root, the mass that came in through it.\<close>

type_synonym mass = "int list list"

definition addMass :: "mass \<Rightarrow> nat \<Rightarrow> nat \<Rightarrow> int \<Rightarrow> mass" where
  "addMass s node root v = s[node := (s ! node)[root := s ! node ! root + v]]"

definition zeroMass :: "GraphReputationInput \<Rightarrow> mass" where
  "zeroMass input = map (\<lambda>_. map (\<lambda>_. 0) (giRoots input)) (giNodes input)"

text \<open>The entries \<open>roots.map((root, index) => \<dots>)\<close>, and what each gets: to the root's own node, in its own column.\<close>

definition rootEntries :: "GraphReputationInput \<Rightarrow> nat HamiltonEntry list" where
  "rootEntries input = map (\<lambda>(index, root). \<lparr>heKey = grLineageId root, heWeight = grWeight root, heData = index\<rparr>)
     (zip [0..<length (giRoots input)] (giRoots input))"

definition payRoot :: "GraphReputationInput \<Rightarrow> (hex, nat) jmap \<Rightarrow> mass \<Rightarrow> nat HamiltonPart \<Rightarrow> mass result" where
  "payRoot input nodeIndex s part =
     bindE (indexOf nodeIndex (grLineageId (giRoots input ! hpData part))) (\<lambda>node. Inr (addMass s node (hpData part) (hpAllocation part)))"

definition massCells :: "GraphReputationInput \<Rightarrow> mass \<Rightarrow> (nat \<times> nat) HamiltonEntry list" where
  "massCells input s = concat (map (\<lambda>node. concat (map (\<lambda>root.
       if s ! node ! root > 0
       then [\<lparr>heKey = gnLineageId (giNodes input ! node) @ '':'' @ grLineageId (giRoots input ! root),
               heWeight = s ! node ! root, heData = (node, root)\<rparr>]
       else []) [0..<length (giRoots input)])) [0..<length (giNodes input)])"

datatype route = ToEdge nat | ToPrior

definition routesOf :: "out_edge list \<Rightarrow> route HamiltonEntry list" where
  "routesOf row = (let rowSpend = sumOf (\<lambda>oe. geWeight (fst oe)) row in
     map (\<lambda>(edge, target). \<lparr>heKey = ''e:'' @ geSubjectLineageId edge @ '':'' @ geEndorsementId edge,
       heWeight = geWeight edge, heData = ToEdge target\<rparr>) row @
     (if rowSpend < GRAPH_REPUTATION_SCALE
      then [\<lparr>heKey = ''p'', heWeight = GRAPH_REPUTATION_SCALE - rowSpend, heData = ToPrior\<rparr>] else []))"

definition payRoute :: "GraphReputationInput \<Rightarrow> (hex, nat) jmap \<Rightarrow> nat \<Rightarrow> mass \<Rightarrow> route HamiltonPart \<Rightarrow> mass result" where
  "payRoute input nodeIndex root s routed =
     (case hpData routed of ToEdge target \<Rightarrow> Inr (addMass s target root (hpAllocation routed))
      | ToPrior \<Rightarrow>
          if hpAllocation routed = 0 then Inr s
          else bindE (graphHamilton (hpAllocation routed) (rootEntries input)) (\<lambda>parts. foldE (payRoot input nodeIndex) s parts))"

definition payCell :: "GraphReputationInput \<Rightarrow> (hex, nat) jmap \<Rightarrow> out_edge list list \<Rightarrow> mass \<Rightarrow> (nat \<times> nat) HamiltonPart \<Rightarrow> mass result" where
  "payCell input nodeIndex outgoing s cell =
     bindE (graphHamilton (hpAllocation cell) (routesOf (outgoing ! fst (hpData cell)))) (\<lambda>parts.
     foldE (payRoute input nodeIndex (snd (hpData cell))) s parts)"

definition rowTotals :: "mass \<Rightarrow> int list" where
  "rowTotals s = map sum_list s"

definition residualOf :: "mass \<Rightarrow> mass \<Rightarrow> int" where
  "residualOf s s' = sum_list (map2 (\<lambda>value previous. if value \<ge> previous then value - previous else previous - value)
     (rowTotals s') (rowTotals s))"

definition iteration :: "GraphReputationInput \<Rightarrow> (hex, nat) jmap \<Rightarrow> out_edge list list \<Rightarrow> nat HamiltonPart list \<Rightarrow>
   mass \<times> int \<Rightarrow> (mass \<times> int) result" where
  "iteration input nodeIndex outgoing teleport st =
     bindE (foldE (payRoot input nodeIndex) (zeroMass input) teleport) (\<lambda>base.
     bindE (graphHamilton GRAPH_REPUTATION_LAMBDA (massCells input (fst st))) (\<lambda>cells.
     bindE (foldE (payCell input nodeIndex outgoing) base cells) (\<lambda>s'. Inr (s', residualOf (fst st) s'))))"

section \<open>The computation\<close>

definition addEdge :: "(hex, nat) jmap \<Rightarrow> out_edge list list \<times> (hex, int) jmap \<Rightarrow> GraphReputationEdge \<Rightarrow>
   (out_edge list list \<times> (hex, int) jmap) result" where
  "addEdge nodeIndex st edge = (case st of (outgoing, spent) \<Rightarrow>
     bindE (indexOf nodeIndex (geIssuerLineageId edge)) (\<lambda>source. bindE (indexOf nodeIndex (geSubjectLineageId edge)) (\<lambda>target.
     Inr (outgoing[source := outgoing ! source @ [(edge, target)]],
       jset (geIssuerLineageId edge) (orDefault (jget spent (geIssuerLineageId edge)) 0 + geWeight edge) spent))))"

definition startRoot :: "(hex, nat) jmap \<Rightarrow> (hex, nat) jmap \<Rightarrow> mass \<Rightarrow> GraphReputationRoot \<Rightarrow> mass result" where
  "startRoot nodeIndex rootIndex s root =
     bindE (indexOf nodeIndex (grLineageId root)) (\<lambda>node. bindE (indexOf rootIndex (grLineageId root)) (\<lambda>column.
     Inr (s[node := (s ! node)[column := grWeight root]])))"

definition cmpRank :: "GraphReputationInput \<Rightarrow> int list \<Rightarrow> nat \<Rightarrow> nat \<Rightarrow> int" where
  "cmpRank input nodeScores l r =
     (if nodeScores ! l = nodeScores ! r then cmpLin (gnLineageId (giNodes input ! l)) (gnLineageId (giNodes input ! r))
      else if nodeScores ! l > nodeScores ! r then -1 else 1)"

definition addFamily :: "(hex, int) jmap \<Rightarrow> GraphReputationNode \<times> int \<Rightarrow> (hex, int) jmap" where
  "addFamily m entry = (case entry of (node, score) \<Rightarrow>
     jset (gnFamilyId node) (orDefault (jget m (gnFamilyId node)) 0 + score) m)"

definition scoreOf :: "GraphReputationInput \<Rightarrow> mass \<Rightarrow> int list \<Rightarrow> (nat, nat) jmap \<Rightarrow> (hex, int) jmap \<Rightarrow>
   (hex, GraphReputationPath list) jmap \<Rightarrow> nat \<Rightarrow> GraphReputationScore" where
  "scoreOf input s nodeScores rankByIndex familyMass paths index =
     (let node = giNodes input ! index in
      \<lparr>gsLineageId = gnLineageId node, gsScore = nodeScores ! index, gsRank = int (orDefault (jget rankByIndex index) 0),
       gsFamilyId = gnFamilyId node, gsFamilyMass = orDefault (jget familyMass (gnFamilyId node)) 0,
       gsRootIngress = map (\<lambda>(position, root). (grLineageId root, s ! index ! position))
         (zip [0..<length (giRoots input)] (giRoots input)),
       gsPaths = sortBy (\<lambda>l r. cmpLin (gpRootLineageId l) (gpRootLineageId r)) (orDefault (jget paths (gnLineageId node)) [])\<rparr>)"

definition encodeScore :: "viem \<Rightarrow> GraphReputationScore \<Rightarrow> bytes result list" where
  "encodeScore V score = [writeHex V (gsLineageId score) 32, writeUint (gsScore score) 8, writeUint (gsRank score) 4,
     writeHex V (gsFamilyId score) 32, writeUint (gsFamilyMass score) 8] @ map (\<lambda>(_, m). writeUint m 8) (gsRootIngress score)"

definition encodeResult :: "viem \<Rightarrow> hex \<Rightarrow> int \<Rightarrow> GraphReputationInput \<Rightarrow> GraphReputationScore list \<Rightarrow> (hex \<times> int) list \<Rightarrow> bytes result" where
  "encodeResult V inputCommitment residual input scores families =
     writeParts ([writeAscii ''TGRR'', writeUint GRAPH_REPUTATION_VERSION 2, writeHex V inputCommitment 32,
         writeUint (int GRAPH_REPUTATION_ITERATIONS) 2, writeUint residual 8,
         writeUint (if residual \<le> GRAPH_REPUTATION_ERROR_BOUND then 1 else 0) 1, writeUint (int (length scores)) 2,
         writeUint (int (length (giRoots input))) 2, writeUint (int (length families)) 2] @
       concat (map (encodeScore V) scores) @
       concat (map (\<lambda>(familyId, m). [writeHex V familyId 32, writeUint m 8]) families))"

definition matrixRow :: "(hex, int) jmap \<Rightarrow> GraphReputationNode \<times> out_edge list \<Rightarrow> GraphMatrixRow" where
  "matrixRow spent entry = (case entry of (node, row) \<Rightarrow>
     \<lparr>gxIssuerLineageId = gnLineageId node, gxSpent = orDefault (jget spent (gnLineageId node)) 0,
      gxUnused = GRAPH_REPUTATION_SCALE - orDefault (jget spent (gnLineageId node)) 0,
      gxReferrals = map (\<lambda>(edge, _). \<lparr>gfEndorsementId = geEndorsementId edge, gfSubjectLineageId = geSubjectLineageId edge,
        gfWeight = geWeight edge, gfValidUntil = geValidUntil edge\<rparr>) row\<rparr>)"

definition indexMap :: "hex list \<Rightarrow> (hex, nat) jmap" where
  "indexMap ids = newMap (zip ids [0..<length ids])"

definition finalState :: "GraphReputationInput \<Rightarrow> (hex, nat) jmap \<Rightarrow> out_edge list list \<Rightarrow> (mass \<times> int) result" where
  "finalState input nodeIndex outgoing =
     bindE (foldE (startRoot nodeIndex (indexMap (map grLineageId (giRoots input)))) (zeroMass input) (giRoots input)) (\<lambda>start.
     bindE (graphHamilton (GRAPH_REPUTATION_SCALE - GRAPH_REPUTATION_LAMBDA) (rootEntries input)) (\<lambda>teleport.
     foldE (\<lambda>st _. iteration input nodeIndex outgoing teleport st) (start, GRAPH_REPUTATION_SCALE) [0..<GRAPH_REPUTATION_ITERATIONS]))"

definition computeGraphReputation :: "viem \<Rightarrow> viem_checks \<Rightarrow> GraphReputationInput \<Rightarrow> GraphReputationResult result" where
  "computeGraphReputation V K raw =
     (let input = canonicalInput raw; nodes = giNodes input; nodeIndex = indexMap (map gnLineageId nodes) in
      bindE (encodeGraphReputationInput V K input) (\<lambda>encodedInput.
      let inputCommitment = keccak256 V (bytesToHex V encodedInput) in
      bindE (foldE (addEdge nodeIndex) (replicate (length nodes) [], []) (giEdgeList input)) (\<lambda>(outgoing, spent).
      bindE (finalState input nodeIndex outgoing) (\<lambda>(s, residual).
      let nodeScores = rowTotals s in
      bindE (refuseInput (sum_list nodeScores \<noteq> GRAPH_REPUTATION_SCALE) ''mass-not-conserved'') (\<lambda>_.
      let ranks = sortBy (cmpRank input nodeScores) [0..<length nodes];
          rankByIndex = newMap (zip ranks [1..<length nodes + 1]);
          familyMass = foldl addFamily [] (zip nodes nodeScores);
          families = sortBy (\<lambda>l r. cmpLin (fst l) (fst r)) familyMass in
      bindE (strongestPaths input outgoing nodeIndex) (\<lambda>paths.
      let scores = map (scoreOf input s nodeScores rankByIndex familyMass paths) [0..<length nodes] in
      bindE (encodeResult V inputCommitment residual input scores families) (\<lambda>bs.
      Inr \<lparr>goInputCommitment = inputCommitment, goResultCommitment = keccak256 V (bytesToHex V bs),
        goIterations = GRAPH_REPUTATION_ITERATIONS, goResidual = residual,
        goConverged = (residual \<le> GRAPH_REPUTATION_ERROR_BOUND), goScores = scores, goFamilies = families,
        goMatrix = map (matrixRow spent) (zip nodes outgoing)\<rparr>)))))))"

text \<open>The distance between two results.\<close>

definition graphReputationL1 :: "GraphReputationResult \<Rightarrow> GraphReputationResult \<Rightarrow> int" where
  "graphReputationL1 l r =
     (let leftById = newMap (map (\<lambda>e. (gsLineageId e, gsScore e)) (goScores l));
          rightById = newMap (map (\<lambda>e. (gsLineageId e, gsScore e)) (goScores r)) in
      foldl (\<lambda>acc lineageId.
        let leftScore = orDefault (jget leftById lineageId) 0; rightScore = orDefault (jget rightById lineageId) 0 in
        acc + (if leftScore \<ge> rightScore then leftScore - rightScore else rightScore - leftScore))
        0 (newSet (jkeys leftById @ jkeys rightById)))"

end
