(* ===== verification/ReputationShares.thy ===== *)
theory ReputationShares
  imports Reputation
begin

text \<open>
  What the apportionment of the graph reputation returns, and the inputs its validation accepts: the fold of the checks
  is equivalent to one predicate, \<open>validReputation\<close>.
\<close>

section \<open>What the apportionment returns\<close>

definition heClaims :: "'t HamiltonEntry list \<Rightarrow> claims" where
  "heClaims entries = map (\<lambda>e. (heKey e, heWeight e)) entries"

definition goodEntries :: "int \<Rightarrow> 't HamiltonEntry list \<Rightarrow> bool" where
  "goodEntries amount entries \<longleftrightarrow> 0 \<le> amount \<and> distinct (map heKey entries) \<and>
     (\<forall>e \<in> set entries. canonical (heKey e) \<and> 0 \<le> heWeight e) \<and> 0 < sumOf heWeight entries"

definition partShare :: "int \<Rightarrow> 't HamiltonEntry list \<Rightarrow> 't HamiltonEntry \<Rightarrow> int" where
  "partShare amount entries e = share amount (heClaims entries) (heKey e, heWeight e)"

definition partRow :: "int \<Rightarrow> int \<Rightarrow> 't HamiltonEntry \<Rightarrow> 't HamiltonPart" where
  "partRow amount D e = \<lparr>hpKey = heKey e, hpWeight = heWeight e, hpData = heData e,
     hpAllocation = heWeight e * amount div D, hpRemainder = heWeight e * amount mod D\<rparr>"

definition paidPart :: "int \<Rightarrow> 't HamiltonEntry list \<Rightarrow> 't HamiltonEntry \<Rightarrow> 't HamiltonPart" where
  "paidPart amount entries e = (partRow amount (sumOf heWeight entries) e)\<lparr>hpAllocation := partShare amount entries e\<rparr>"

lemma goodEntries_claims:
  assumes "goodEntries amount entries"
  shows "okClaims amount (heClaims entries)" and "claimTotal (heClaims entries) = sumOf heWeight entries"
    and "0 < sumOf heWeight entries"
  using assms by (auto simp: goodEntries_def okClaims_def heClaims_def claimTotal_def comp_def)

lemma addEntryWeight_loop: "foldE addEntryWeight acc entries = Inr D \<longleftrightarrow> (\<forall>e \<in> set entries. 0 \<le> heWeight e) \<and> D = acc + sumOf heWeight entries"
  by (induction entries arbitrary: acc) (auto simp: addEntryWeight_def result_simps not_less)

lemma hamiltonPart_loop:
  assumes "0 \<le> amount" and "0 < D"
  shows "(\<forall>e \<in> set entries. 0 \<le> heWeight e) \<Longrightarrow> foldE (hamiltonPart amount D) (seen, out) entries = Inr st \<longleftrightarrow>
    distinct (map heKey entries) \<and> (\<forall>e \<in> set entries. heKey e \<notin> set seen) \<and>
    st = (seen @ map heKey entries, out @ map (partRow amount D) entries)"
proof (induction entries arbitrary: seen out)
  case (Cons e entries)
  have p: "0 \<le> amount * heWeight e" using assms(1) Cons.prems by simp
  have c: "amount * heWeight e = heWeight e * amount" by (rule mult.commute)
  have step: "hamiltonPart amount D (seen, out) e =
      (if heKey e \<in> set seen then Inl (reputationFail ''duplicate-hamilton-key'') else Inr (seen @ [heKey e], out @ [partRow amount D e]))"
    using bigDiv_pos [OF p assms(2)] bigMod_pos [OF p assms(2)] by (simp add: hamiltonPart_def partRow_def Let_def c)
  show ?case
  proof (cases "heKey e \<in> set seen")
    case False
    have "foldE (hamiltonPart amount D) (seen, out) (e # entries) = Inr st \<longleftrightarrow>
        foldE (hamiltonPart amount D) (seen @ [heKey e], out @ [partRow amount D e]) entries = Inr st"
      using False by (simp add: step)
    then show ?thesis using Cons.IH Cons.prems False by (fastforce simp: image_iff)
  qed (simp add: step)
qed auto

lemma payUnits_take:
  "m \<le> length is \<Longrightarrow> payUnits (int m) is rows =
   Inr (foldl (\<lambda>rows i. rows[i := (rows ! i)\<lparr>hpAllocation := hpAllocation (rows ! i) + 1\<rparr>]) rows (take m is))"
proof (induction "is" arbitrary: m rows)
  case (Cons i "is")
  then show ?case by (cases m) auto
qed simp

lemma cmpPart_key: "cmpPart rows x y \<le> 0 \<longleftrightarrow>
  (- hpRemainder (rows ! x), hpKey (rows ! x)) \<le> (- hpRemainder (rows ! y), hpKey (rows ! y))"
  by (auto simp: cmpPart_def less_eq_prod_def)

lemma partOrder_facts:
  assumes rows: "rows = map (partRow amount D) es"
  shows "mset (sortBy (cmpPart rows) [0..<length es]) = mset [0..<length es]"
    and "sorted (map (restKey amount D) (map ((!) (heClaims es)) (sortBy (cmpPart rows) [0..<length es])))"
proof -
  let ?o = "sortBy (cmpPart rows) [0..<length es]"
  show "mset ?o = mset [0..<length es]" by simp
  have "sorted (map (\<lambda>i. (- hpRemainder (rows ! i), hpKey (rows ! i))) ?o)"
    by (rule sortBy_keyed) (rule cmpPart_key)
  moreover have "map (\<lambda>i. (- hpRemainder (rows ! i), hpKey (rows ! i))) ?o = map (restKey amount D) (map ((!) (heClaims es)) ?o)"
    by (simp add: rows partRow_def restKey_def quotaRest_def heClaims_def)
  ultimately show "sorted (map (restKey amount D) (map ((!) (heClaims es)) ?o))" by simp
qed

lemma payUnits_shares:
  assumes ok: "goodEntries amount es" and rows: "rows = map (partRow amount (sumOf heWeight es)) es"
  shows "payUnits (leftOver amount (heClaims es)) (sortBy (cmpPart rows) [0..<length es]) rows = Inr (map (paidPart amount es) es)"
proof -
  let ?c = "heClaims es" and ?m = "nat (leftOver amount (heClaims es))" and ?is = "sortBy (cmpPart rows) [0..<length es]"
  note okc = goodEntries_claims [OF ok]
  note ord = partOrder_facts [OF rows]
  have lc: "length ?c = length es" by (simp add: heClaims_def)
  have dc: "distinct ?c" using okc(1) by (auto simp: okClaims_def distinct_map)
  have dis: "distinct ?is" by simp
  have taken: "\<forall>i \<in> set (take ?m ?is). i < length rows" using in_set_takeD [of _ ?m ?is] by (force simp: rows)
  have "?m \<le> length ?is" using leftOver_bounds [OF okc(1)] lc by (simp add: nat_le_iff)
  then have "payUnits (int ?m) ?is rows = Inr (
      map (\<lambda>j. if j \<in> set (take ?m ?is) then (rows ! j)\<lparr>hpAllocation := hpAllocation (rows ! j) + 1\<rparr> else rows ! j) [0..<length rows])"
    by (simp only: payUnits_take foldl_update_nth [where f = "\<lambda>row. row\<lparr>hpAllocation := hpAllocation row + 1\<rparr>", OF distinct_take [OF dis] taken])
  also have "map (\<lambda>j. if j \<in> set (take ?m ?is) then (rows ! j)\<lparr>hpAllocation := hpAllocation (rows ! j) + 1\<rparr> else rows ! j) [0..<length rows] =
      map (paidPart amount es) es"
  proof (rule nth_equalityI)
    fix j assume "j < length (map (\<lambda>j. if j \<in> set (take ?m ?is)
      then (rows ! j)\<lparr>hpAllocation := hpAllocation (rows ! j) + 1\<rparr> else rows ! j) [0..<length rows])"
    then have j: "j < length es" by (simp add: rows)
    have "share amount ?c (?c ! j) = quota amount (sumOf heWeight es) (?c ! j) + (if j \<in> set (take ?m ?is) then 1 else 0)"
      using share_take [OF okc(1) map_nth_same, of ?is "?c ! j"] ord j lc okc(2)
        index_in_take [OF dc, of ?is j] by simp
    with j show "map (\<lambda>j. if j \<in> set (take ?m ?is)
      then (rows ! j)\<lparr>hpAllocation := hpAllocation (rows ! j) + 1\<rparr> else rows ! j) [0..<length rows] ! j = map (paidPart amount es) es ! j"
      by (simp add: rows paidPart_def partShare_def partRow_def heClaims_def quota_def)
  qed (simp add: rows)
  finally show ?thesis using leftOver_bounds(1) [OF okc(1)] by simp
qed

lemma graphHamilton_returns:
  assumes ok: "goodEntries amount es"
  shows "graphHamilton amount es = Inr (map (paidPart amount es) es)"
proof -
  note okc = goodEntries_claims [OF ok]
  have a: "0 \<le> amount" "\<forall>e \<in> set es. 0 \<le> heWeight e" "es \<noteq> []" "distinct (map heKey es)" using ok by (auto simp: goodEntries_def)
  have den: "foldE addEntryWeight 0 es = Inr (sumOf heWeight es)" unfolding addEntryWeight_loop using a(2) by simp
  have loop: "foldE (hamiltonPart amount (sumOf heWeight es)) ([], []) es = Inr (map heKey es, map (partRow amount (sumOf heWeight es)) es)"
    unfolding hamiltonPart_loop [OF a(1) okc(3) a(2)] using a(4) by simp
  have res: "amount - sumOf hpAllocation (map (partRow amount (sumOf heWeight es)) es) = leftOver amount (heClaims es)"
    using okc(2) by (simp add: leftOver_def partRow_def quota_def comp_def) (simp add: heClaims_def comp_def quota_def)
  show ?thesis using a den loop okc(3) payUnits_shares [OF ok refl] res by (simp add: graphHamilton_def)
qed

lemma partShare_facts:
  assumes ok: "goodEntries amount es"
  shows "sumOf (partShare amount es) es = amount" and "e \<in> set es \<Longrightarrow> 0 \<le> partShare amount es e"
    and "heWeight e * amount div sumOf heWeight es \<le> partShare amount es e"
    and "partShare amount es e \<le> heWeight e * amount div sumOf heWeight es + 1"
proof -
  note okc = goodEntries_claims [OF ok]
  have "sumOf (partShare amount es) es = sumOf (share amount (heClaims es)) (heClaims es)"
    by (simp add: partShare_def [abs_def] heClaims_def comp_def)
  then show "sumOf (partShare amount es) es = amount" using share_sum [OF okc(1)] by simp
  show "0 \<le> partShare amount es e" if "e \<in> set es"
    unfolding partShare_def by (rule share_ok_nonneg [OF okc(1)]) (use that in \<open>auto simp: heClaims_def\<close>)
  show "heWeight e * amount div sumOf heWeight es \<le> partShare amount es e"
    "partShare amount es e \<le> heWeight e * amount div sumOf heWeight es + 1"
    using share_quota [of amount "heClaims es" "(heKey e, heWeight e)"] by (simp_all add: partShare_def okc(2) quota_def)
qed

section \<open>What the validation accepts\<close>

definition goodWord :: "viem_checks \<Rightarrow> hex \<Rightarrow> bool" where
  "goodWord K x \<longleftrightarrow> vcIsHex K x \<and> length x = 66 \<and> canonical x \<and> x \<noteq> ZERO_HASH"

definition goodAddress :: "viem_checks \<Rightarrow> hex \<Rightarrow> bool" where
  "goodAddress K x \<longleftrightarrow> vcIsAddress K x \<and> x \<noteq> ZERO_ADDRESS"

definition nodeOk :: "viem_checks \<Rightarrow> GraphReputationInput \<Rightarrow> GraphReputationNode \<Rightarrow> bool" where
  "nodeOk K input n \<longleftrightarrow> goodWord K (gnLineageId n) \<and> goodWord K (gnConfigurationId n) \<and> goodWord K (gnEpochId n) \<and>
     goodWord K (gnFamilyId n) \<and> goodWord K (gnMethodId n) \<and> goodAddress K (gnController n) \<and> goodAddress K (gnAuthority n) \<and>
     gnCreatedAt n \<le> giCutoffTimestamp input \<and> gnEpochAcceptedBlock n < giCutoffBlock input \<and>
     gnEpochPublishedBlock n < giCutoffBlock input"

definition rootOk :: "GraphReputationInput \<Rightarrow> GraphReputationRoot \<Rightarrow> bool" where
  "rootOk input r \<longleftrightarrow> grLineageId r \<in> gnLineageId ` set (giNodes input) \<and> 0 < grWeight r \<and> grWeight r \<le> GRAPH_REPUTATION_SCALE"

definition edgeOk :: "viem_checks \<Rightarrow> GraphReputationInput \<Rightarrow> GraphReputationEdge \<Rightarrow> bool" where
  "edgeOk K input e \<longleftrightarrow> goodWord K (geEndorsementId e) \<and>
     (geIssuerLineageId e, geIssuerConfigurationId e) \<in> (\<lambda>n. (gnLineageId n, gnConfigurationId n)) ` set (giNodes input) \<and>
     (geSubjectLineageId e, geSubjectConfigurationId e) \<in> (\<lambda>n. (gnLineageId n, gnConfigurationId n)) ` set (giNodes input) \<and>
     geIssuerLineageId e \<noteq> geSubjectLineageId e \<and> geScopeHash e = giScopeHash input \<and>
     0 < geWeight e \<and> geWeight e \<le> GRAPH_REPUTATION_SCALE \<and> geIssuedBlock e < giCutoffBlock input \<and>
     geValidFrom e \<le> giCutoffTimestamp input \<and> giCutoffTimestamp input < geValidUntil e \<and>
     geRevokedAt e = None \<and> geSupersededBy e = None \<and>
     vcIsHex K (geEvidenceDigest e) \<and> length (geEvidenceDigest e) = 66 \<and> canonical (geEvidenceDigest e)"

definition issuedBy :: "hex \<Rightarrow> GraphReputationEdge list \<Rightarrow> int" where
  "issuedBy x es = sumOf geWeight (filter (\<lambda>e. geIssuerLineageId e = x) es)"

definition validReputation :: "viem_checks \<Rightarrow> GraphReputationInput \<Rightarrow> bool" where
  "validReputation K input \<longleftrightarrow> giVersion input = GRAPH_REPUTATION_VERSION \<and> 0 < giChainId input \<and>
     goodAddress K (giRegistry input) \<and> goodWord K (giScopeHash input) \<and> 0 < giCutoffBlock input \<and>
     0 < giCutoffTimestamp input \<and> giCutoffBlock input \<le> giFinalizedBlock input \<and>
     giRoots input \<noteq> [] \<and> length (giRoots input) \<le> GRAPH_REPUTATION_MAX_ROOTS \<and>
     giNodes input \<noteq> [] \<and> length (giNodes input) \<le> GRAPH_REPUTATION_MAX_NODES \<and>
     length (giEdgeList input) \<le> GRAPH_REPUTATION_MAX_EDGES \<and>
     (\<forall>n \<in> set (giNodes input). nodeOk K input n) \<and> distinct (map gnLineageId (giNodes input)) \<and>
     (\<forall>r \<in> set (giRoots input). rootOk input r) \<and> distinct (map grLineageId (giRoots input)) \<and>
     sumOf grWeight (giRoots input) = GRAPH_REPUTATION_SCALE \<and>
     (\<forall>e \<in> set (giEdgeList input). edgeOk K input e) \<and> distinct (map geEndorsementId (giEdgeList input)) \<and>
     distinct (map referralPair (giEdgeList input)) \<and>
     (\<forall>e \<in> set (giEdgeList input). issuedBy (geIssuerLineageId e) (giEdgeList input) \<le> GRAPH_REPUTATION_SCALE)"

lemma assertWord_Inr: "assertWord K x code = Inr u \<longleftrightarrow> goodWord K x"
  by (auto simp: assertWord_def goodWord_def canonical_def)

lemma refuseInput_Inr: "refuseInput c code = Inr u \<longleftrightarrow> \<not> c"
  by (simp add: refuseInput_def)

lemmas check_simps = assertWord_Inr refuseInput_Inr result_simps not_less not_le

lemma checkNode_Inr: "checkNode K input m n = Inr m' \<longleftrightarrow>
    nodeOk K input n \<and> gnLineageId n \<notin> set (jkeys m) \<and> m' = m @ [(gnLineageId n, n)]"
  unfolding checkNode_def by (auto simp: check_simps nodeOk_def goodAddress_def jset_fresh simp del: set_map)

lemma checkNodes_Inr: "foldE (checkNode K input) m ns = Inr m' \<longleftrightarrow>
    (\<forall>n \<in> set ns. nodeOk K input n \<and> gnLineageId n \<notin> set (jkeys m)) \<and> distinct (map gnLineageId ns) \<and>
    m' = m @ map (\<lambda>n. (gnLineageId n, n)) ns"
proof (induction ns arbitrary: m)
  case (Cons n ns)
  have "foldE (checkNode K input) m (n # ns) = Inr m' \<longleftrightarrow>
      nodeOk K input n \<and> gnLineageId n \<notin> set (jkeys m) \<and> foldE (checkNode K input) (m @ [(gnLineageId n, n)]) ns = Inr m'"
    by (auto simp: result_simps checkNode_Inr)
  then show ?case unfolding Cons.IH by (fastforce simp: image_iff)
qed auto

lemma checkRoot_Inr: "checkRoot m (ids, prior) r = Inr st \<longleftrightarrow>
    grLineageId r \<in> set (jkeys m) \<and> grLineageId r \<notin> set ids \<and> 0 < grWeight r \<and> grWeight r \<le> GRAPH_REPUTATION_SCALE \<and>
    st = (ids @ [grLineageId r], prior + grWeight r)"
  unfolding checkRoot_def by (auto simp: check_simps setAdd_def simp del: set_map)

lemma checkRoots_Inr: "foldE (checkRoot m) (ids, prior) rs = Inr st \<longleftrightarrow>
    (\<forall>r \<in> set rs. grLineageId r \<in> set (jkeys m) \<and> grLineageId r \<notin> set ids \<and> 0 < grWeight r \<and> grWeight r \<le> GRAPH_REPUTATION_SCALE) \<and>
    distinct (map grLineageId rs) \<and> st = (ids @ map grLineageId rs, prior + sumOf grWeight rs)"
proof (induction rs arbitrary: ids prior)
  case (Cons r rs)
  have "foldE (checkRoot m) (ids, prior) (r # rs) = Inr st \<longleftrightarrow>
      grLineageId r \<in> set (jkeys m) \<and> grLineageId r \<notin> set ids \<and> 0 < grWeight r \<and> grWeight r \<le> GRAPH_REPUTATION_SCALE \<and>
      foldE (checkRoot m) (ids @ [grLineageId r], prior + grWeight r) rs = Inr st"
    by (auto simp: result_simps checkRoot_Inr simp del: set_map)
  then show ?case unfolding Cons.IH by (fastforce simp: image_iff add.assoc)
qed auto

text \<open>The table of nodes.\<close>

lemma node_table:
  assumes "distinct (map gnLineageId ns)"
  shows "(\<exists>n. jget (map (\<lambda>n. (gnLineageId n, n)) ns) x = Some n \<and> P n) \<longleftrightarrow> (\<exists>n \<in> set ns. gnLineageId n = x \<and> P n)"
proof -
  have "jget (map (\<lambda>n. (gnLineageId n, n)) ns) x = Some n \<longleftrightarrow> n \<in> set ns \<and> gnLineageId n = x" for n
    using assms by (subst eq_commute, subst Some_eq_map_of_iff) (auto simp: comp_def)
  then show ?thesis by auto
qed

lemma checkEdge_Inr:
  assumes d: "distinct (map gnLineageId (giNodes input))"
  shows "checkEdge K input (map (\<lambda>n. (gnLineageId n, n)) (giNodes input)) (ids, pairs, spent) e = Inr st \<longleftrightarrow>
    edgeOk K input e \<and> geEndorsementId e \<notin> set ids \<and> referralPair e \<notin> set pairs \<and>
    orDefault (jget spent (geIssuerLineageId e)) 0 + geWeight e \<le> GRAPH_REPUTATION_SCALE \<and>
    st = (ids @ [geEndorsementId e], pairs @ [referralPair e],
      jset (geIssuerLineageId e) (orDefault (jget spent (geIssuerLineageId e)) 0 + geWeight e) spent)"
proof -
  let ?m = "map (\<lambda>n. (gnLineageId n, n)) (giNodes input)"
  have k: "jget ?m x = Some n \<Longrightarrow> gnLineageId n = x" for x n using map_of_SomeD [of ?m x n] by auto
  have "checkEdge K input ?m (ids, pairs, spent) e = Inr st \<longleftrightarrow>
    (\<exists>n. jget ?m (geIssuerLineageId e) = Some n \<and> gnConfigurationId n = geIssuerConfigurationId e) \<and>
    (\<exists>n. jget ?m (geSubjectLineageId e) = Some n \<and> gnConfigurationId n = geSubjectConfigurationId e) \<and>
    goodWord K (geEndorsementId e) \<and> geIssuerLineageId e \<noteq> geSubjectLineageId e \<and> geScopeHash e = giScopeHash input \<and>
    0 < geWeight e \<and> geWeight e \<le> GRAPH_REPUTATION_SCALE \<and> geIssuedBlock e < giCutoffBlock input \<and>
    geValidFrom e \<le> giCutoffTimestamp input \<and> giCutoffTimestamp input < geValidUntil e \<and>
    geRevokedAt e = None \<and> geSupersededBy e = None \<and>
    vcIsHex K (geEvidenceDigest e) \<and> length (geEvidenceDigest e) = 66 \<and> canonical (geEvidenceDigest e) \<and>
    geEndorsementId e \<notin> set ids \<and> referralPair e \<notin> set pairs \<and>
    orDefault (jget spent (geIssuerLineageId e)) 0 + geWeight e \<le> GRAPH_REPUTATION_SCALE \<and>
    st = (ids @ [geEndorsementId e], pairs @ [referralPair e],
      jset (geIssuerLineageId e) (orDefault (jget spent (geIssuerLineageId e)) 0 + geWeight e) spent)"
  proof (cases "jget ?m (geIssuerLineageId e)")
    case a: (Some a)
    show ?thesis
    proof (cases "jget ?m (geSubjectLineageId e)")
      case b: (Some b)
      show ?thesis unfolding checkEdge_def a b using k [OF a] k [OF b]
        by (auto simp: check_simps assertBytes32_def canonical_def Let_def setAdd_def)
    next
      case None
      then show ?thesis unfolding checkEdge_def a None by (auto simp: check_simps)
    qed
  next
    case None
    then show ?thesis unfolding checkEdge_def None by (auto simp: check_simps split: option.splits)
  qed
  moreover have "(x, c) \<in> (\<lambda>n. (gnLineageId n, gnConfigurationId n)) ` set (giNodes input) \<longleftrightarrow>
      (\<exists>n \<in> set (giNodes input). gnLineageId n = x \<and> gnConfigurationId n = c)" for x c by auto
  ultimately show ?thesis unfolding node_table [OF d] edgeOk_def by blast
qed

lemma checkEdges_Inr:
  assumes d: "distinct (map gnLineageId (giNodes input))"
  shows "(\<exists>st. foldE (checkEdge K input (map (\<lambda>n. (gnLineageId n, n)) (giNodes input))) (ids, pairs, spent) es = Inr st) \<longleftrightarrow>
    (\<forall>e \<in> set es. edgeOk K input e \<and> geEndorsementId e \<notin> set ids \<and> referralPair e \<notin> set pairs \<and>
      orDefault (jget spent (geIssuerLineageId e)) 0 + issuedBy (geIssuerLineageId e) es \<le> GRAPH_REPUTATION_SCALE) \<and>
    distinct (map geEndorsementId es) \<and> distinct (map referralPair es)"
proof (induction es arbitrary: ids pairs spent)
  case (Cons e es)
  let ?m = "map (\<lambda>n. (gnLineageId n, n)) (giNodes input)"
  let ?x = "geIssuerLineageId e"
  let ?s = "jset ?x (orDefault (jget spent ?x) 0 + geWeight e) spent"
  define T where "T d = orDefault (jget spent (geIssuerLineageId d)) 0 + issuedBy (geIssuerLineageId d) (e # es)" for d :: GraphReputationEdge
  have "(\<exists>st. foldE (checkEdge K input ?m) (ids, pairs, spent) (e # es) = Inr st) \<longleftrightarrow>
      edgeOk K input e \<and> geEndorsementId e \<notin> set ids \<and> referralPair e \<notin> set pairs \<and>
      orDefault (jget spent ?x) 0 + geWeight e \<le> GRAPH_REPUTATION_SCALE \<and>
      (\<exists>st. foldE (checkEdge K input ?m) (ids @ [geEndorsementId e], pairs @ [referralPair e], ?s) es = Inr st)"
    by (auto simp: result_simps checkEdge_Inr [OF d])
  moreover have s: "orDefault (jget ?s y) 0 + issuedBy y es = orDefault (jget spent y) 0 + issuedBy y (e # es)" for y
    by (auto simp: jget_jset orDefault_def issuedBy_def)
  ultimately have lhs: "(\<exists>st. foldE (checkEdge K input ?m) (ids, pairs, spent) (e # es) = Inr st) \<longleftrightarrow>
      edgeOk K input e \<and> geEndorsementId e \<notin> set ids \<and> referralPair e \<notin> set pairs \<and>
      orDefault (jget spent ?x) 0 + geWeight e \<le> GRAPH_REPUTATION_SCALE \<and>
      (\<forall>d \<in> set es. edgeOk K input d \<and> geEndorsementId d \<notin> set (ids @ [geEndorsementId e]) \<and>
        referralPair d \<notin> set (pairs @ [referralPair e]) \<and> T d \<le> GRAPH_REPUTATION_SCALE) \<and>
      distinct (map geEndorsementId es) \<and> distinct (map referralPair es)"
    unfolding Cons.IH T_def by (simp only: s)
  have "orDefault (jget spent ?x) 0 + geWeight e \<le> T e" if "\<forall>d \<in> set es. edgeOk K input d"
  proof -
    have "0 \<le> issuedBy ?x es" unfolding issuedBy_def by (rule sumOf_nonneg) (use that in \<open>auto simp: edgeOk_def\<close>)
    then show ?thesis by (simp add: T_def issuedBy_def)
  qed
  moreover have "T e \<le> GRAPH_REPUTATION_SCALE" if "orDefault (jget spent ?x) 0 + geWeight e \<le> GRAPH_REPUTATION_SCALE"
    "\<forall>d \<in> set es. T d \<le> GRAPH_REPUTATION_SCALE"
  proof (cases "\<exists>d \<in> set es. geIssuerLineageId d = ?x")
    case True
    then show ?thesis using that(2) by (auto simp: T_def)
  next
    case False
    then have "filter (\<lambda>d. geIssuerLineageId d = ?x) es = []" by (auto simp: filter_empty_conv)
    then have "issuedBy ?x es = 0" by (simp add: issuedBy_def)
    then show ?thesis using that(1) by (simp add: T_def issuedBy_def)
  qed
  ultimately have "edgeOk K input e \<and> (\<forall>d \<in> set es. edgeOk K input d) \<Longrightarrow>
      orDefault (jget spent ?x) 0 + geWeight e \<le> GRAPH_REPUTATION_SCALE \<and> (\<forall>d \<in> set es. T d \<le> GRAPH_REPUTATION_SCALE) \<longleftrightarrow>
      (\<forall>d \<in> set (e # es). T d \<le> GRAPH_REPUTATION_SCALE)" by fastforce
  moreover have "distinct (map f (e # es)) \<longleftrightarrow> (\<forall>d \<in> set es. f d \<noteq> f e) \<and> distinct (map f es)" for f :: "GraphReputationEdge \<Rightarrow> string"
    by (simp add: image_iff) metis
  ultimately show ?case unfolding lhs T_def [symmetric] by (simp only: set_append list.set ball_Un ball_simps Un_iff insert_iff empty_iff) blast
qed simp

lemma validateInput_iff: "validateInput K input = Inr () \<longleftrightarrow> validReputation K input"
proof (cases "(\<forall>n \<in> set (giNodes input). nodeOk K input n) \<and> distinct (map gnLineageId (giNodes input))")
  case True
  let ?m = "map (\<lambda>n. (gnLineageId n, n)) (giNodes input)"
  have n: "foldE (checkNode K input) [] (giNodes input) = Inr ?m" unfolding checkNodes_Inr using True by simp
  have k: "set (jkeys ?m) = gnLineageId ` set (giNodes input)" by (auto simp: comp_def)
  have e: "(\<exists>st. foldE (checkEdge K input ?m) ([], [], []) (giEdgeList input) = Inr st) \<longleftrightarrow>
    (\<forall>e \<in> set (giEdgeList input). edgeOk K input e \<and> issuedBy (geIssuerLineageId e) (giEdgeList input) \<le> GRAPH_REPUTATION_SCALE) \<and>
    distinct (map geEndorsementId (giEdgeList input)) \<and> distinct (map referralPair (giEdgeList input))"
    using checkEdges_Inr [of input K "[]" "[]" "[]" "giEdgeList input"] True by (simp add: orDefault_def)
  have r: "foldE (checkRoot ?m) ([], 0) (giRoots input) = Inr (ids, s) \<longleftrightarrow>
    (\<forall>r \<in> set (giRoots input). rootOk input r) \<and> distinct (map grLineageId (giRoots input)) \<and>
    ids = map grLineageId (giRoots input) \<and> s = sumOf grWeight (giRoots input)" for ids s
    unfolding checkRoots_Inr k by (auto simp: rootOk_def)
  have "validateInput K input = Inr () \<longleftrightarrow> giVersion input = GRAPH_REPUTATION_VERSION \<and> 0 < giChainId input \<and>
     goodAddress K (giRegistry input) \<and> goodWord K (giScopeHash input) \<and> 0 < giCutoffBlock input \<and>
     0 < giCutoffTimestamp input \<and> giCutoffBlock input \<le> giFinalizedBlock input \<and>
     giRoots input \<noteq> [] \<and> length (giRoots input) \<le> GRAPH_REPUTATION_MAX_ROOTS \<and>
     giNodes input \<noteq> [] \<and> length (giNodes input) \<le> GRAPH_REPUTATION_MAX_NODES \<and>
     length (giEdgeList input) \<le> GRAPH_REPUTATION_MAX_EDGES \<and>
     (\<exists>ids s. foldE (checkRoot ?m) ([], 0) (giRoots input) = Inr (ids, s) \<and> s = GRAPH_REPUTATION_SCALE) \<and>
     (\<exists>st. foldE (checkEdge K input ?m) ([], [], []) (giEdgeList input) = Inr st)"
    unfolding validateInput_def by (auto simp: check_simps n goodAddress_def)
  then show ?thesis unfolding r e validReputation_def using True by auto
next
  case False
  then have "\<nexists>m. foldE (checkNode K input) [] (giNodes input) = Inr m" unfolding checkNodes_Inr by auto
  then have "validateInput K input \<noteq> Inr ()" unfolding validateInput_def by (auto simp: result_simps)
  then show ?thesis using False by (auto simp: validReputation_def)
qed

end
