(* ===== verification/ReputationFlow.thy ===== *)
theory ReputationFlow
  imports ReputationShares
begin

text \<open>
  One iteration of the graph reputation as a function on cells: what each cell pays, to whom, and that the mass is kept.
\<close>

section \<open>States as functions of a cell\<close>

definition shaped :: "nat \<Rightarrow> nat \<Rightarrow> mass \<Rightarrow> bool" where
  "shaped n m s \<longleftrightarrow> length s = n \<and> (\<forall>row \<in> set s. length row = m)"

abbreviation massAt :: "mass \<Rightarrow> nat \<times> nat \<Rightarrow> int" where
  "massAt s q \<equiv> s ! fst q ! snd q"

abbreviation cellsOf :: "nat \<Rightarrow> nat \<Rightarrow> (nat \<times> nat) set" where
  "cellsOf n m \<equiv> {..<n} \<times> {..<m}"

lemma shaped_row: "shaped n m s \<Longrightarrow> u < n \<Longrightarrow> length (s ! u) = m"
  by (auto simp: shaped_def)

lemma addMass_shaped: "shaped n m s \<Longrightarrow> shaped n m (addMass s u r v)"
  by (cases "u < length s") (auto simp: shaped_def addMass_def list_update_beyond not_less dest!: set_update_subset_insert [THEN subsetD])

lemma addMass_at:
  assumes "shaped n m s" and "u < n" and "r < m" and "q \<in> cellsOf n m"
  shows "massAt (addMass s u r v) q = massAt s q + (if q = (u, r) then v else 0)"
  using assms shaped_row [OF assms(1,2)] by (cases q) (auto simp: addMass_def shaped_def nth_list_update)

lemma rowTotals_at:
  assumes "shaped n m s"
  shows "rowTotals s = map (\<lambda>u. \<Sum>r<m. s ! u ! r) [0..<n]"
proof (rule nth_equalityI)
  fix u assume "u < length (rowTotals s)"
  then have u: "u < n" using assms by (simp add: rowTotals_def shaped_def)
  then have "sum_list (s ! u) = (\<Sum>r<m. s ! u ! r)"
    using shaped_row [OF assms u] by (simp add: sum_list_sum_nth atLeast0LessThan)
  then show "rowTotals s ! u = map (\<lambda>u. \<Sum>r<m. s ! u ! r) [0..<n] ! u"
    using u assms by (simp add: rowTotals_def shaped_def)
qed (use assms in \<open>simp add: rowTotals_def shaped_def\<close>)

lemma total_at: "shaped n m s \<Longrightarrow> sum_list (rowTotals s) = (\<Sum>q \<in> cellsOf n m. massAt s q)"
  by (simp add: rowTotals_at interv_sum_list_conv_sum_set_nat atLeast0LessThan sum.cartesian_product case_prod_beta)

section \<open>Steps that add mass\<close>

definition adds :: "nat \<Rightarrow> nat \<Rightarrow> (mass \<Rightarrow> mass result) \<Rightarrow> (nat \<times> nat \<Rightarrow> int) \<Rightarrow> bool" where
  "adds n m f g \<longleftrightarrow> (\<forall>s. shaped n m s \<longrightarrow>
     (\<exists>s'. f s = Inr s' \<and> shaped n m s' \<and> (\<forall>q \<in> cellsOf n m. massAt s' q = massAt s q + g q)))"

lemma adds_run:
  assumes "adds n m f g" and "shaped n m s"
  obtains s' where "f s = Inr s'" "shaped n m s'" "\<And>q. q \<in> cellsOf n m \<Longrightarrow> massAt s' q = massAt s q + g q"
  using assms unfolding adds_def by blast

lemma adds_nothing: "adds n m Inr (\<lambda>_. 0)"
  by (simp add: adds_def)

lemma adds_cell: "u < n \<Longrightarrow> r < m \<Longrightarrow> adds n m (\<lambda>s. Inr (addMass s u r v)) (\<lambda>q. if q = (u, r) then v else 0)"
  using addMass_at by (auto simp: adds_def addMass_shaped)

lemma adds_cong: "adds n m f g \<Longrightarrow> (\<And>q. q \<in> cellsOf n m \<Longrightarrow> g q = g' q) \<Longrightarrow> adds n m f g'"
  by (fastforce simp: adds_def)

lemma adds_fold:
  assumes "\<And>x. x \<in> set xs \<Longrightarrow> adds n m (\<lambda>s. f s x) (g x)"
  shows "adds n m (\<lambda>s. foldE f s xs) (\<lambda>q. sumOf (\<lambda>x. g x q) xs)"
  unfolding adds_def
proof (intro allI impI)
  fix s assume "shaped n m s"
  then show "\<exists>s'. foldE f s xs = Inr s' \<and> shaped n m s' \<and> (\<forall>q \<in> cellsOf n m. massAt s' q = massAt s q + sumOf (\<lambda>x. g x q) xs)"
    using assms
  proof (induction xs arbitrary: s)
    case (Cons x xs)
    obtain s1 where s1: "f s x = Inr s1" "shaped n m s1" "\<And>q. q \<in> cellsOf n m \<Longrightarrow> massAt s1 q = massAt s q + g x q"
      using Cons.prems(1) Cons.prems(2) [of x] by (auto elim: adds_run)
    obtain s2 where "foldE f s1 xs = Inr s2" "shaped n m s2"
      "\<forall>q \<in> cellsOf n m. massAt s2 q = massAt s1 q + sumOf (\<lambda>x. g x q) xs"
      using Cons.IH [OF s1(2)] Cons.prems(2) by auto
    then show ?case using s1 by auto
  qed auto
qed

section \<open>The network of an input\<close>

text \<open>The node of the root in a column.\<close>

definition rootNode :: "GraphReputationInput \<Rightarrow> (hex, nat) jmap \<Rightarrow> nat \<Rightarrow> nat" where
  "rootNode input nodeIndex r = orDefault (jget nodeIndex (grLineageId (giRoots input ! r))) 0"

abbreviation nodeCount :: "GraphReputationInput \<Rightarrow> nat" where "nodeCount input \<equiv> length (giNodes input)"
abbreviation rootCount :: "GraphReputationInput \<Rightarrow> nat" where "rootCount input \<equiv> length (giRoots input)"

definition reputationRowOk :: "GraphReputationInput \<Rightarrow> out_edge list \<Rightarrow> bool" where
  "reputationRowOk input row \<longleftrightarrow> (\<forall>oe \<in> set row. snd oe < nodeCount input \<and> 0 < geWeight (fst oe) \<and>
       canonical (geSubjectLineageId (fst oe)) \<and> canonical (geEndorsementId (fst oe)) \<and>
       length (geSubjectLineageId (fst oe)) = 66) \<and>
     distinct (map (\<lambda>oe. geEndorsementId (fst oe)) row) \<and> distinct (map snd row) \<and>
     sumOf (\<lambda>oe. geWeight (fst oe)) row \<le> GRAPH_REPUTATION_SCALE"

definition netOk :: "GraphReputationInput \<Rightarrow> (hex, nat) jmap \<Rightarrow> out_edge list list \<Rightarrow> bool" where
  "netOk input nodeIndex outgoing \<longleftrightarrow> length outgoing = nodeCount input \<and>
     (\<forall>r < rootCount input. \<exists>v < nodeCount input. jget nodeIndex (grLineageId (giRoots input ! r)) = Some v) \<and>
     (\<forall>u < nodeCount input. reputationRowOk input (outgoing ! u)) \<and>
     distinct (map grLineageId (giRoots input)) \<and> distinct (map gnLineageId (giNodes input)) \<and>
     (\<forall>r \<in> set (giRoots input). canonical (grLineageId r) \<and> 0 < grWeight r) \<and>
     (\<forall>v \<in> set (giNodes input). canonical (gnLineageId v) \<and> length (gnLineageId v) = 66) \<and>
     sumOf grWeight (giRoots input) = GRAPH_REPUTATION_SCALE"

lemma netOk_root:
  assumes "netOk input nodeIndex outgoing" and "r < rootCount input"
  shows "jget nodeIndex (grLineageId (giRoots input ! r)) = Some (rootNode input nodeIndex r)"
    and "rootNode input nodeIndex r < nodeCount input"
  using assms by (auto simp: netOk_def rootNode_def orDefault_def dest!: spec [of _ r])

lemma rootEntries_nth: "r < rootCount input \<Longrightarrow>
    rootEntries input ! r = \<lparr>heKey = grLineageId (giRoots input ! r), heWeight = grWeight (giRoots input ! r), heData = r\<rparr>"
  by (simp add: rootEntries_def)

lemma rootEntries_maps: "map heKey (rootEntries input) = map grLineageId (giRoots input)"
  "map heWeight (rootEntries input) = map grWeight (giRoots input)" "length (rootEntries input) = rootCount input"
  by (auto simp: rootEntries_def intro: nth_equalityI)

lemma rootEntries_good:
  assumes "netOk input nodeIndex outgoing" and "0 \<le> a"
  shows "goodEntries a (rootEntries input)" and "sumOf heWeight (rootEntries input) = GRAPH_REPUTATION_SCALE"
proof -
  have m: "\<exists>r \<in> set (giRoots input). heKey e = grLineageId r \<and> heWeight e = grWeight r" if "e \<in> set (rootEntries input)" for e
    using that by (auto simp: rootEntries_def set_zip intro!: bexI)
  show s: "sumOf heWeight (rootEntries input) = GRAPH_REPUTATION_SCALE"
    unfolding rootEntries_maps using assms(1) by (simp add: netOk_def)
  show "goodEntries a (rootEntries input)"
    unfolding goodEntries_def s unfolding rootEntries_maps using assms m
    by (fastforce simp: netOk_def GRAPH_REPUTATION_SCALE_def dest: less_imp_le)
qed

definition rootShare :: "GraphReputationInput \<Rightarrow> int \<Rightarrow> nat \<Rightarrow> int" where
  "rootShare input a r = partShare a (rootEntries input) (rootEntries input ! r)"

definition rootGain :: "GraphReputationInput \<Rightarrow> (hex, nat) jmap \<Rightarrow> int \<Rightarrow> nat \<times> nat \<Rightarrow> int" where
  "rootGain input nodeIndex a q = (if rootNode input nodeIndex (snd q) = fst q then rootShare input a (snd q) else 0)"

lemma sumOf_indexed: "sumOf f xs = (\<Sum>i<length xs. f (xs ! i))"
  by (simp add: sum_list_sum_nth atLeast0LessThan)

lemma adds_roots:
  assumes net: "netOk input nodeIndex outgoing" and parts: "parts = map (paidPart a (rootEntries input)) (rootEntries input)"
  shows "adds (nodeCount input) (rootCount input) (\<lambda>s. foldE (payRoot input nodeIndex) s parts) (rootGain input nodeIndex a)"
proof -
  let ?n = "nodeCount input" and ?m = "rootCount input"
  let ?g = "\<lambda>part q. if q = (rootNode input nodeIndex (hpData part), hpData part) then hpAllocation part else 0"
  have "adds ?n ?m (\<lambda>s. payRoot input nodeIndex s part) (?g part)" if "part \<in> set parts" for part
  proof -
    from that obtain r where r: "r < ?m" "hpData part = r"
      unfolding parts by (auto simp: in_set_conv_nth rootEntries_maps paidPart_def partRow_def rootEntries_nth)
    then show ?thesis using netOk_root [OF net r(1)] adds_cell [of "rootNode input nodeIndex r" ?n r ?m "hpAllocation part"]
      by (simp add: payRoot_def indexOf_def)
  qed
  then have "adds ?n ?m (\<lambda>s. foldE (payRoot input nodeIndex) s parts) (\<lambda>q. sumOf (\<lambda>part. ?g part q) parts)" by (rule adds_fold)
  then show ?thesis
  proof (rule adds_cong)
    fix q assume q: "q \<in> cellsOf ?n ?m"
    have "sumOf (\<lambda>part. ?g part q) parts = (\<Sum>i<?m. if q = (rootNode input nodeIndex i, i) then rootShare input a i else 0)"
      by (auto simp: sumOf_indexed parts rootEntries_maps paidPart_def partRow_def rootEntries_nth rootShare_def intro!: sum.cong)
    also have "\<dots> = (\<Sum>i<?m. if i = snd q then rootGain input nodeIndex a q else 0)"
      by (rule sum.cong) (auto simp: rootGain_def prod_eq_iff)
    also have "\<dots> = rootGain input nodeIndex a q" using q by (auto simp: sum.delta)
    finally show "sumOf (\<lambda>part. ?g part q) parts = rootGain input nodeIndex a q" .
  qed
qed

lemma rootShare_zero: "rootShare input 0 r = 0"
proof -
  have "sumOf (quota 0 D) xs = 0" for D xs by (rule sumOf_zero) (simp add: quota_def)
  then show ?thesis by (simp add: rootShare_def partShare_def share_def leftOver_def quota_def)
qed

section \<open>The routes of a node\<close>

lemma canonical_append: "canonical (x @ y) \<longleftrightarrow> canonical x \<and> canonical y"
  by (auto simp: canonical_def toLowerCase_def append_eq_append_conv)

lemma canonical_literals: "canonical ''e:''" "canonical '':''" "canonical ''p''"
  by (simp_all add: canonical_def toLowerCase_def lowerChar_def)

lemma routesOf_good:
  assumes row: "reputationRowOk input row" and a: "0 \<le> a"
  shows "goodEntries a (routesOf row)" and "sumOf heWeight (routesOf row) = GRAPH_REPUTATION_SCALE"
proof -
  let ?es = "map (\<lambda>(edge, target). \<lparr>heKey = ''e:'' @ geSubjectLineageId edge @ '':'' @ geEndorsementId edge,
       heWeight = geWeight edge, heData = ToEdge target\<rparr>) row"
  have w: "sumOf heWeight ?es = sumOf (\<lambda>oe. geWeight (fst oe)) row" by (simp add: comp_def case_prod_beta)
  show s: "sumOf heWeight (routesOf row) = GRAPH_REPUTATION_SCALE"
    using row w by (auto simp: routesOf_def Let_def reputationRowOk_def)
  have "inj_on (\<lambda>oe. heKey (case oe of (edge, target) \<Rightarrow> \<lparr>heKey = ''e:'' @ geSubjectLineageId edge @ '':'' @ geEndorsementId edge,
       heWeight = geWeight edge, heData = ToEdge target\<rparr>)) (set row)"
  proof (rule inj_onI)
    fix x y assume "x \<in> set row" "y \<in> set row" and k: "heKey (case x of (edge, target) \<Rightarrow>
      \<lparr>heKey = ''e:'' @ geSubjectLineageId edge @ '':'' @ geEndorsementId edge, heWeight = geWeight edge, heData = ToEdge target\<rparr>) =
      heKey (case y of (edge, target) \<Rightarrow> \<lparr>heKey = ''e:'' @ geSubjectLineageId edge @ '':'' @ geEndorsementId edge,
        heWeight = geWeight edge, heData = ToEdge target\<rparr>)"
    moreover have "length (geSubjectLineageId (fst x)) = 66" "length (geSubjectLineageId (fst y)) = 66"
      using row calculation(1,2) by (auto simp: reputationRowOk_def)
    ultimately have "geEndorsementId (fst x) = geEndorsementId (fst y)" by (auto simp: case_prod_beta)
    then show "x = y" using row \<open>x \<in> set row\<close> \<open>y \<in> set row\<close> unfolding reputationRowOk_def distinct_map inj_on_def by blast
  qed
  moreover have "distinct row" using row by (auto simp: reputationRowOk_def distinct_map)
  ultimately have d: "distinct (map heKey ?es)" by (simp add: distinct_map comp_def)
  then have "distinct (map heKey (routesOf row))" by (auto simp: routesOf_def Let_def)
  moreover have "\<forall>e \<in> set (routesOf row). canonical (heKey e) \<and> 0 \<le> heWeight e"
    using row by (auto simp: routesOf_def Let_def reputationRowOk_def canonical_append canonical_literals intro: less_imp_le
        split: if_splits) (auto simp: canonical_def toLowerCase_def lowerChar_def dest!: bspec)
  ultimately show "goodEntries a (routesOf row)" using a unfolding goodEntries_def s by (simp add: GRAPH_REPUTATION_SCALE_def)
qed

definition routeGain :: "GraphReputationInput \<Rightarrow> (hex, nat) jmap \<Rightarrow> nat \<Rightarrow> int \<Rightarrow> route \<Rightarrow> nat \<times> nat \<Rightarrow> int" where
  "routeGain input nodeIndex root a way q =
     (case way of ToEdge target \<Rightarrow> if q = (target, root) then a else 0 | ToPrior \<Rightarrow> rootGain input nodeIndex a q)"

definition cellGain :: "GraphReputationInput \<Rightarrow> (hex, nat) jmap \<Rightarrow> out_edge list list \<Rightarrow> int \<Rightarrow> nat \<times> nat \<Rightarrow> nat \<times> nat \<Rightarrow> int" where
  "cellGain input nodeIndex outgoing a c q =
     sumOf (\<lambda>e. routeGain input nodeIndex (snd c) (partShare a (routesOf (outgoing ! fst c)) e) (heData e) q) (routesOf (outgoing ! fst c))"

lemma routesOf_target: "reputationRowOk input row \<Longrightarrow> e \<in> set (routesOf row) \<Longrightarrow> heData e = ToEdge t \<Longrightarrow> t < nodeCount input"
  by (auto simp: routesOf_def Let_def reputationRowOk_def split: if_splits)

lemma adds_route:
  assumes net: "netOk input nodeIndex outgoing" and r: "r < rootCount input" and a: "0 \<le> hpAllocation part"
    and t: "\<And>t. hpData part = ToEdge t \<Longrightarrow> t < nodeCount input"
  shows "adds (nodeCount input) (rootCount input) (\<lambda>s. payRoute input nodeIndex r s part)
    (routeGain input nodeIndex r (hpAllocation part) (hpData part))"
proof (cases "hpData part")
  case (ToEdge x)
  then show ?thesis using adds_cell [of x "nodeCount input" r "rootCount input" "hpAllocation part"] t r
    by (simp add: payRoute_def routeGain_def [abs_def])
next
  case ToPrior
  show ?thesis
  proof (cases "hpAllocation part = 0")
    case True
    then show ?thesis using adds_nothing by (auto simp: payRoute_def ToPrior routeGain_def [abs_def] rootGain_def rootShare_zero cong: if_cong)
  next
    case False
    then show ?thesis using adds_roots [OF net refl, of "hpAllocation part"] graphHamilton_returns [OF rootEntries_good(1) [OF net a]]
      by (simp add: payRoute_def ToPrior routeGain_def [abs_def])
  qed
qed

lemma adds_cellGain:
  assumes net: "netOk input nodeIndex outgoing" and c: "c \<in> cellsOf (nodeCount input) (rootCount input)" and a: "0 \<le> a"
    and cell: "hpData cell = c" "hpAllocation cell = a"
  shows "adds (nodeCount input) (rootCount input) (\<lambda>s. payCell input nodeIndex outgoing s cell) (cellGain input nodeIndex outgoing a c)"
proof -
  let ?es = "routesOf (outgoing ! fst c)"
  have row: "reputationRowOk input (outgoing ! fst c)" using net c by (auto simp: netOk_def)
  note good = routesOf_good [OF row a]
  let ?ps = "map (paidPart a ?es) ?es"
  have "adds (nodeCount input) (rootCount input) (\<lambda>s. payRoute input nodeIndex (snd c) s part)
      (routeGain input nodeIndex (snd c) (hpAllocation part) (hpData part))" if p: "part \<in> set ?ps" for part
  proof -
    obtain e where e: "e \<in> set ?es" "hpData part = heData e" "hpAllocation part = partShare a ?es e"
      using p by (auto simp: paidPart_def partRow_def)
    show ?thesis
      by (rule adds_route [OF net]) (use c e partShare_facts(2) [OF good(1) e(1)] routesOf_target [OF row e(1)] in auto)
  qed
  then have "adds (nodeCount input) (rootCount input) (\<lambda>s. foldE (payRoute input nodeIndex (snd c)) s ?ps)
      (\<lambda>q. sumOf (\<lambda>part. routeGain input nodeIndex (snd c) (hpAllocation part) (hpData part) q) ?ps)"
    by (rule adds_fold)
  moreover have "(\<lambda>q. sumOf (\<lambda>part. routeGain input nodeIndex (snd c) (hpAllocation part) (hpData part) q) ?ps) =
      cellGain input nodeIndex outgoing a c"
    by (rule ext) (simp add: cellGain_def comp_def paidPart_def partRow_def)
  ultimately show ?thesis using graphHamilton_returns [OF good(1)] by (simp add: payCell_def cell)
qed

section \<open>The cells that hold mass\<close>

definition cellEntry :: "GraphReputationInput \<Rightarrow> mass \<Rightarrow> nat \<times> nat \<Rightarrow> (nat \<times> nat) HamiltonEntry" where
  "cellEntry input s c = \<lparr>heKey = gnLineageId (giNodes input ! fst c) @ '':'' @ grLineageId (giRoots input ! snd c),
     heWeight = massAt s c, heData = c\<rparr>"

lemma concat_filter_product:
  "concat (map (\<lambda>u. concat (map (\<lambda>r. if P u r then [f (u, r)] else []) rs)) us) =
   map f (filter (\<lambda>(u, r). P u r) (List.product us rs))"
proof -
  have "concat (map (\<lambda>r. if P u r then [f (u, r)] else []) rs) = map f (filter (\<lambda>(u, r). P u r) (map (Pair u) rs))" for u
    by (induction rs) auto
  then show ?thesis by (induction us) auto
qed

lemma massCells_eq: "massCells input s =
    map (cellEntry input s) (filter (\<lambda>c. 0 < massAt s c) (List.product [0..<nodeCount input] [0..<rootCount input]))"
  using concat_filter_product [of "\<lambda>u r. s ! u ! r > 0" "cellEntry input s" "[0..<rootCount input]" "[0..<nodeCount input]"]
  by (simp add: massCells_def cellEntry_def [abs_def] case_prod_unfold cong: if_cong)

definition stateOk :: "GraphReputationInput \<Rightarrow> mass \<Rightarrow> bool" where
  "stateOk input s \<longleftrightarrow> shaped (nodeCount input) (rootCount input) s \<and>
     (\<forall>q \<in> cellsOf (nodeCount input) (rootCount input). 0 \<le> massAt s q) \<and>
     (\<Sum>q \<in> cellsOf (nodeCount input) (rootCount input). massAt s q) = GRAPH_REPUTATION_SCALE"

lemma sum_massCells:
  "sumOf f (massCells input s) = (\<Sum>c \<in> cellsOf (nodeCount input) (rootCount input). if 0 < massAt s c then f (cellEntry input s c) else 0)"
proof -
  let ?cs = "List.product [0..<nodeCount input] [0..<rootCount input]"
  have d: "distinct ?cs" by (simp add: distinct_product)
  have "sumOf f (massCells input s) = sumOf (\<lambda>c. f (cellEntry input s c)) (filter (\<lambda>c. 0 < massAt s c) ?cs)"
    by (simp add: massCells_eq comp_def)
  also have "\<dots> = (\<Sum>c \<in> set (filter (\<lambda>c. 0 < massAt s c) ?cs). f (cellEntry input s c))"
    by (rule sum_list_distinct_conv_sum_set) (use d in simp)
  also have "\<dots> = (\<Sum>c \<in> {c \<in> cellsOf (nodeCount input) (rootCount input). 0 < massAt s c}. f (cellEntry input s c))"
    by (rule sum.cong) auto
  also have "\<dots> = (\<Sum>c \<in> cellsOf (nodeCount input) (rootCount input). if 0 < massAt s c then f (cellEntry input s c) else 0)"
    by (rule sum.inter_filter) simp
  finally show ?thesis .
qed

lemma massCells_good:
  assumes net: "netOk input nodeIndex outgoing" and ok: "stateOk input s" and a: "0 \<le> a"
  shows "goodEntries a (massCells input s)" and "sumOf heWeight (massCells input s) = GRAPH_REPUTATION_SCALE"
proof -
  let ?C = "cellsOf (nodeCount input) (rootCount input)"
  have "(\<Sum>c \<in> ?C. if 0 < massAt s c then heWeight (cellEntry input s c) else 0) = (\<Sum>c \<in> ?C. massAt s c)"
    by (rule sum.cong) (use ok in \<open>auto simp: stateOk_def cellEntry_def not_less intro: antisym\<close>)
  then show w: "sumOf heWeight (massCells input s) = GRAPH_REPUTATION_SCALE"
    unfolding sum_massCells using ok by (simp add: stateOk_def)
  have id: "c = d" if "c \<in> ?C" "d \<in> ?C" and k: "heKey (cellEntry input s c) = heKey (cellEntry input s d)" for c d
  proof -
    have "length (gnLineageId (giNodes input ! fst c)) = 66" "length (gnLineageId (giNodes input ! fst d)) = 66"
      using net that(1,2) by (auto simp: netOk_def)
    then have "gnLineageId (giNodes input ! fst c) = gnLineageId (giNodes input ! fst d)"
      "grLineageId (giRoots input ! snd c) = grLineageId (giRoots input ! snd d)"
      using k by (auto simp: cellEntry_def)
    moreover have "distinct (map gnLineageId (giNodes input))" "distinct (map grLineageId (giRoots input))"
      using net by (auto simp: netOk_def)
    ultimately have "fst c = fst d" "snd c = snd d"
      using that(1,2) nth_eq_iff_index_eq [of "map gnLineageId (giNodes input)" "fst c" "fst d"]
        nth_eq_iff_index_eq [of "map grLineageId (giRoots input)" "snd c" "snd d"] by auto
    then show ?thesis by (rule prod_eqI)
  qed
  have "distinct (map heKey (massCells input s))"
    unfolding massCells_eq map_map distinct_map
    by (auto simp: comp_def distinct_product intro!: inj_onI) (use id in force)+
  moreover have "\<forall>e \<in> set (massCells input s). canonical (heKey e) \<and> 0 \<le> heWeight e"
    unfolding massCells_eq using net by (auto simp: cellEntry_def canonical_append canonical_literals netOk_def)
      (auto simp: canonical_def toLowerCase_def lowerChar_def dest!: bspec)
  ultimately show "goodEntries a (massCells input s)" using a unfolding goodEntries_def w by (simp add: GRAPH_REPUTATION_SCALE_def)
qed

section \<open>What an iteration pays\<close>

abbreviation inputCells :: "GraphReputationInput \<Rightarrow> (nat \<times> nat) set" where
  "inputCells input \<equiv> cellsOf (nodeCount input) (rootCount input)"

lemma sum_rootGain:
  assumes net: "netOk input nodeIndex outgoing" and a: "0 \<le> a"
  shows "(\<Sum>q \<in> inputCells input. rootGain input nodeIndex a q) = a"
    and "q \<in> inputCells input \<Longrightarrow> 0 \<le> rootGain input nodeIndex a q"
proof -
  note good = rootEntries_good(1) [OF net a]
  have "(\<Sum>q \<in> inputCells input. rootGain input nodeIndex a q) =
      (\<Sum>r<rootCount input. \<Sum>v<nodeCount input. if v = rootNode input nodeIndex r then rootShare input a r else 0)"
    by (subst sum.swap) (auto simp: rootGain_def sum.cartesian_product case_prod_beta intro!: sum.cong)
  also have "\<dots> = (\<Sum>r<rootCount input. rootShare input a r)"
    using netOk_root(2) [OF net] by (simp add: sum.delta')
  also have "\<dots> = a" using partShare_facts(1) [OF good]
    by (simp add: sumOf_indexed [of _ "rootEntries input"] rootEntries_maps rootShare_def)
  finally show "(\<Sum>q \<in> inputCells input. rootGain input nodeIndex a q) = a" .
  show "0 \<le> rootGain input nodeIndex a q" if "q \<in> inputCells input"
    using partShare_facts(2) [OF good, of "rootEntries input ! snd q"] that
    by (auto simp: rootGain_def rootShare_def rootEntries_maps)
qed

lemma sum_routeGain:
  assumes net: "netOk input nodeIndex outgoing" and a: "0 \<le> a" and r: "r < rootCount input"
    and t: "\<And>t. way = ToEdge t \<Longrightarrow> t < nodeCount input"
  shows "(\<Sum>q \<in> inputCells input. routeGain input nodeIndex r a way q) = a"
    and "q \<in> inputCells input \<Longrightarrow> 0 \<le> routeGain input nodeIndex r a way q"
proof -
  have "(\<Sum>q \<in> inputCells input. if q = (x, r) then a else 0) = a" if "way = ToEdge x" for x
    using t [OF that] r by (simp add: sum.delta)
  then show "(\<Sum>q \<in> inputCells input. routeGain input nodeIndex r a way q) = a"
    using sum_rootGain(1) [OF net a] by (cases way) (simp_all add: routeGain_def)
  show "q \<in> inputCells input \<Longrightarrow> 0 \<le> routeGain input nodeIndex r a way q"
    using sum_rootGain(2) [OF net a] a by (cases way) (auto simp: routeGain_def)
qed

lemma sum_cellGain:
  assumes net: "netOk input nodeIndex outgoing" and c: "c \<in> inputCells input" and a: "0 \<le> a"
  shows "(\<Sum>q \<in> inputCells input. cellGain input nodeIndex outgoing a c q) = a"
    and "q \<in> inputCells input \<Longrightarrow> 0 \<le> cellGain input nodeIndex outgoing a c q"
proof -
  let ?es = "routesOf (outgoing ! fst c)"
  have row: "reputationRowOk input (outgoing ! fst c)" using net c by (auto simp: netOk_def)
  note good = routesOf_good(1) [OF row a]
  have g: "(\<Sum>q \<in> inputCells input. routeGain input nodeIndex (snd c) (partShare a ?es e) (heData e) q) = partShare a ?es e"
    "q \<in> inputCells input \<Longrightarrow> 0 \<le> routeGain input nodeIndex (snd c) (partShare a ?es e) (heData e) q"
    if "e \<in> set ?es" for e q
    using sum_routeGain [OF net partShare_facts(2) [OF good that], of "snd c" "heData e"] c routesOf_target [OF row that] by auto
  have "(\<Sum>q \<in> inputCells input. cellGain input nodeIndex outgoing a c q) =
      sumOf (\<lambda>e. \<Sum>q \<in> inputCells input. routeGain input nodeIndex (snd c) (partShare a ?es e) (heData e) q) ?es"
    unfolding cellGain_def sumOf_indexed by (rule sum.swap)
  also have "\<dots> = sumOf (partShare a ?es) ?es" using g(1) by (simp cong: map_cong)
  finally show "(\<Sum>q \<in> inputCells input. cellGain input nodeIndex outgoing a c q) = a"
    using partShare_facts(1) [OF good] by simp
  show "0 \<le> cellGain input nodeIndex outgoing a c q" if "q \<in> inputCells input"
    unfolding cellGain_def using g(2) that by (intro sumOf_nonneg) blast
qed

definition cellShare :: "GraphReputationInput \<Rightarrow> mass \<Rightarrow> nat \<times> nat \<Rightarrow> int" where
  "cellShare input s c = (if 0 < massAt s c then partShare GRAPH_REPUTATION_LAMBDA (massCells input s) (cellEntry input s c) else 0)"

lemma lambda_scale: "0 \<le> GRAPH_REPUTATION_LAMBDA" "0 \<le> GRAPH_REPUTATION_SCALE - GRAPH_REPUTATION_LAMBDA"
  by (simp_all add: GRAPH_REPUTATION_LAMBDA_def GRAPH_REPUTATION_SCALE_def)

lemma cellEntry_member: "c \<in> inputCells input \<Longrightarrow> 0 < massAt s c \<Longrightarrow> cellEntry input s c \<in> set (massCells input s)"
  by (cases c) (auto simp: massCells_eq)

lemma sum_cellShare:
  assumes net: "netOk input nodeIndex outgoing" and ok: "stateOk input s"
  shows "(\<Sum>c \<in> inputCells input. cellShare input s c) = GRAPH_REPUTATION_LAMBDA"
    and "c \<in> inputCells input \<Longrightarrow> 0 \<le> cellShare input s c"
proof -
  note good = massCells_good(1) [OF net ok lambda_scale(1)]
  show "(\<Sum>c \<in> inputCells input. cellShare input s c) = GRAPH_REPUTATION_LAMBDA"
    using partShare_facts(1) [OF good] by (simp add: sum_massCells cellShare_def)
  show "0 \<le> cellShare input s c" if "c \<in> inputCells input"
    using partShare_facts(2) [OF good cellEntry_member [OF that]] by (simp add: cellShare_def)
qed

definition nextAt :: "GraphReputationInput \<Rightarrow> (hex, nat) jmap \<Rightarrow> out_edge list list \<Rightarrow> mass \<Rightarrow> nat \<times> nat \<Rightarrow> int" where
  "nextAt input nodeIndex outgoing s q = rootGain input nodeIndex (GRAPH_REPUTATION_SCALE - GRAPH_REPUTATION_LAMBDA) q +
     (\<Sum>c \<in> inputCells input. if 0 < massAt s c then cellGain input nodeIndex outgoing (cellShare input s c) c q else 0)"

definition teleportParts :: "GraphReputationInput \<Rightarrow> nat HamiltonPart list" where
  "teleportParts input = map (paidPart (GRAPH_REPUTATION_SCALE - GRAPH_REPUTATION_LAMBDA) (rootEntries input)) (rootEntries input)"

lemma zeroMass_shaped: "shaped (nodeCount input) (rootCount input) (zeroMass input)"
  "q \<in> inputCells input \<Longrightarrow> massAt (zeroMass input) q = 0"
  by (auto simp: shaped_def zeroMass_def)

lemma sum_nextAt:
  assumes net: "netOk input nodeIndex outgoing" and ok: "stateOk input s"
  shows "(\<Sum>q \<in> inputCells input. nextAt input nodeIndex outgoing s q) = GRAPH_REPUTATION_SCALE"
    and "q \<in> inputCells input \<Longrightarrow> 0 \<le> nextAt input nodeIndex outgoing s q"
proof -
  let ?g = "\<lambda>c q. if 0 < massAt s c then cellGain input nodeIndex outgoing (cellShare input s c) c q else 0"
  have g: "(\<Sum>q \<in> inputCells input. ?g c q) = cellShare input s c" "q \<in> inputCells input \<Longrightarrow> 0 \<le> ?g c q" if "c \<in> inputCells input" for c q
    using sum_cellGain [OF net that sum_cellShare(2) [OF net ok that]] by (auto simp: cellShare_def)
  have "(\<Sum>q \<in> inputCells input. \<Sum>c \<in> inputCells input. ?g c q) = (\<Sum>c \<in> inputCells input. \<Sum>q \<in> inputCells input. ?g c q)"
    by (rule sum.swap)
  also have "\<dots> = (\<Sum>c \<in> inputCells input. cellShare input s c)" using g(1) by (rule sum.cong [OF refl])
  also have "\<dots> = GRAPH_REPUTATION_LAMBDA" by (rule sum_cellShare(1) [OF net ok])
  finally show "(\<Sum>q \<in> inputCells input. nextAt input nodeIndex outgoing s q) = GRAPH_REPUTATION_SCALE"
    unfolding nextAt_def sum.distrib sum_rootGain(1) [OF net lambda_scale(2)] by simp
  show "0 \<le> nextAt input nodeIndex outgoing s q" if "q \<in> inputCells input"
    unfolding nextAt_def using sum_rootGain(2) [OF net lambda_scale(2) that] g(2) [OF _ that] by (intro add_nonneg_nonneg sum_nonneg)
qed

lemma iteration_run:
  assumes net: "netOk input nodeIndex outgoing" and ok: "stateOk input s"
  shows "\<exists>s'. iteration input nodeIndex outgoing (teleportParts input) (s, res) = Inr (s', residualOf s s') \<and> stateOk input s' \<and>
    (\<forall>q \<in> inputCells input. massAt s' q = nextAt input nodeIndex outgoing s q)"
proof -
  let ?n = "nodeCount input" and ?m = "rootCount input"
  obtain base where base: "foldE (payRoot input nodeIndex) (zeroMass input) (teleportParts input) = Inr base" "shaped ?n ?m base"
    "\<And>q. q \<in> inputCells input \<Longrightarrow> massAt base q = rootGain input nodeIndex (GRAPH_REPUTATION_SCALE - GRAPH_REPUTATION_LAMBDA) q"
    using adds_run [OF adds_roots [OF net teleportParts_def] zeroMass_shaped(1)] zeroMass_shaped(2) by (metis add_0)
  note good = massCells_good(1) [OF net ok lambda_scale(1)]
  let ?es = "massCells input s" and ?cells = "map (paidPart GRAPH_REPUTATION_LAMBDA (massCells input s)) (massCells input s)"
  let ?g = "\<lambda>cell. cellGain input nodeIndex outgoing (hpAllocation cell) (hpData cell)"
  have "adds ?n ?m (\<lambda>s. payCell input nodeIndex outgoing s cell) (?g cell)" if "cell \<in> set ?cells" for cell
  proof -
    from that obtain c where c: "c \<in> inputCells input" "0 < massAt s c" "cell = paidPart GRAPH_REPUTATION_LAMBDA ?es (cellEntry input s c)"
      by (auto simp: massCells_eq)
    then show ?thesis
      using adds_cellGain [OF net c(1) partShare_facts(2) [OF good cellEntry_member [OF c(1,2)]], of cell]
      by (simp add: paidPart_def partRow_def cellEntry_def)
  qed
  then have "adds ?n ?m (\<lambda>s. foldE (payCell input nodeIndex outgoing) s ?cells) (\<lambda>q. sumOf (\<lambda>cell. ?g cell q) ?cells)"
    by (rule adds_fold)
  then obtain s' where s': "foldE (payCell input nodeIndex outgoing) base ?cells = Inr s'" "shaped ?n ?m s'"
    "\<forall>q \<in> inputCells input. massAt s' q = massAt base q + sumOf (\<lambda>cell. ?g cell q) ?cells"
    using base(2) unfolding adds_def by blast
  have "sumOf (\<lambda>cell. ?g cell q) ?cells =
      (\<Sum>c \<in> inputCells input. if 0 < massAt s c then cellGain input nodeIndex outgoing (cellShare input s c) c q else 0)" for q
    unfolding map_map comp_def sum_massCells
    by (rule sum.cong) (simp_all add: paidPart_def partRow_def cellEntry_def cellShare_def)
  then have at: "massAt s' q = nextAt input nodeIndex outgoing s q" if "q \<in> inputCells input" for q
    using bspec [OF s'(3) that] base(3) [OF that] by (simp add: nextAt_def)
  then have "stateOk input s'" using sum_nextAt [OF net ok] s'(2) by (simp add: stateOk_def cong: sum.cong)
  moreover have "iteration input nodeIndex outgoing (teleportParts input) (s, res) = Inr (s', residualOf s s')"
    unfolding iteration_def using base(1) graphHamilton_returns [OF good] s'(1) by simp
  ultimately show ?thesis using at by blast
qed

end
