(* ===== verification/ReputationNetwork.thy ===== *)
theory ReputationNetwork
  imports ReputationFlow
begin

text \<open>
  The network a valid input gives, the run of all iterations on it, and that mass only follows referrals.
\<close>

section \<open>The network of a valid input\<close>

lemma indexMap_nth:
  assumes "distinct ids" and "i < length ids"
  shows "jget (indexMap ids) (ids ! i) = Some i"
proof -
  have "newMap (zip ids [0..<length ids]) = zip ids [0..<length ids]" using assms(1) by (simp add: newMap_distinct)
  then show ?thesis using map_of_zip_nth [of ids "[0..<length ids]" i] assms by (simp add: indexMap_def)
qed

abbreviation nodeIndexOf :: "GraphReputationInput \<Rightarrow> (hex, nat) jmap" where
  "nodeIndexOf input \<equiv> indexMap (map gnLineageId (giNodes input))"

definition nodeAt :: "GraphReputationInput \<Rightarrow> hex \<Rightarrow> nat" where
  "nodeAt input x = orDefault (jget (nodeIndexOf input) x) 0"

lemma nodeAt_member:
  assumes "distinct (map gnLineageId (giNodes input))" and "x \<in> gnLineageId ` set (giNodes input)"
  shows "jget (nodeIndexOf input) x = Some (nodeAt input x)" and "nodeAt input x < nodeCount input"
    and "gnLineageId (giNodes input ! nodeAt input x) = x"
proof -
  from assms(2) obtain i where i: "i < nodeCount input" "map gnLineageId (giNodes input) ! i = x" by (auto simp: in_set_conv_nth)
  have "jget (nodeIndexOf input) x = Some i" using indexMap_nth [OF assms(1), of i] i by simp
  then show "jget (nodeIndexOf input) x = Some (nodeAt input x)" "nodeAt input x < nodeCount input"
    "gnLineageId (giNodes input ! nodeAt input x) = x" using i by (simp_all add: nodeAt_def orDefault_def)
qed

definition reputationRow :: "GraphReputationInput \<Rightarrow> GraphReputationEdge list \<Rightarrow> nat \<Rightarrow> out_edge list" where
  "reputationRow input es u = map (\<lambda>e. (e, nodeAt input (geSubjectLineageId e))) (filter (\<lambda>e. nodeAt input (geIssuerLineageId e) = u) es)"

lemma addEdges:
  assumes d: "distinct (map gnLineageId (giNodes input))"
    and m: "\<forall>e \<in> set es. geIssuerLineageId e \<in> gnLineageId ` set (giNodes input) \<and> geSubjectLineageId e \<in> gnLineageId ` set (giNodes input)"
  shows "\<exists>spent. foldE (addEdge (nodeIndexOf input)) (replicate (nodeCount input) [], []) es =
      Inr (map (reputationRow input es) [0..<nodeCount input], spent) \<and> (\<forall>x. orDefault (jget spent x) 0 = issuedBy x es)"
  using m
proof (induction es rule: rev_induct)
  case Nil
  then show ?case by (auto simp: orDefault_def issuedBy_def reputationRow_def map_replicate_const)
next
  case (snoc e es)
  then obtain spent where f: "foldE (addEdge (nodeIndexOf input)) (replicate (nodeCount input) [], []) es =
      Inr (map (reputationRow input es) [0..<nodeCount input], spent)" and s: "\<And>x. orDefault (jget spent x) 0 = issuedBy x es" by auto
  have e: "geIssuerLineageId e \<in> gnLineageId ` set (giNodes input)" "geSubjectLineageId e \<in> gnLineageId ` set (giNodes input)"
    using snoc.prems by auto
  note i = nodeAt_member [OF d e(1)] and j = nodeAt_member [OF d e(2)]
  let ?rows = "map (reputationRow input es) [0..<nodeCount input]" and ?u = "nodeAt input (geIssuerLineageId e)"
  have rows: "?rows[?u := ?rows ! ?u @ [(e, nodeAt input (geSubjectLineageId e))]] = map (reputationRow input (es @ [e])) [0..<nodeCount input]"
    using i(2) by (intro nth_equalityI) (auto simp: nth_list_update reputationRow_def)
  have "foldE (addEdge (nodeIndexOf input)) (replicate (nodeCount input) [], []) (es @ [e]) =
      Inr (map (reputationRow input (es @ [e])) [0..<nodeCount input],
        jset (geIssuerLineageId e) (orDefault (jget spent (geIssuerLineageId e)) 0 + geWeight e) spent)"
    by (simp add: foldE_append f addEdge_def indexOf_def i(1) j(1) rows)
  moreover have "orDefault (jget (jset (geIssuerLineageId e) (orDefault (jget spent (geIssuerLineageId e)) 0 + geWeight e) spent) x) 0 =
      issuedBy x (es @ [e])" for x
    using s [of x] s [of "geIssuerLineageId e"] by (auto simp: jget_jset issuedBy_def orDefault_def)
  ultimately show ?case by blast
qed

definition outgoingOf :: "GraphReputationInput \<Rightarrow> out_edge list list" where
  "outgoingOf input = map (reputationRow input (giEdgeList input)) [0..<nodeCount input]"

lemma valid_edge:
  assumes "validReputation K input" and "e \<in> set (giEdgeList input)"
  shows "geIssuerLineageId e \<in> gnLineageId ` set (giNodes input)" and "geSubjectLineageId e \<in> gnLineageId ` set (giNodes input)"
    and "0 < geWeight e" and "canonical (geEndorsementId e)"
  using assms by (auto simp: validReputation_def edgeOk_def goodWord_def)

lemma valid_rowOk:
  assumes v: "validReputation K input" and u: "u < nodeCount input"
  shows "reputationRowOk input (reputationRow input (giEdgeList input) u)"
proof -
  have d: "distinct (map gnLineageId (giNodes input))" using v by (simp add: validReputation_def)
  let ?x = "gnLineageId (giNodes input ! u)"
  have f: "filter (\<lambda>e. nodeAt input (geIssuerLineageId e) = u) (giEdgeList input) = filter (\<lambda>e. geIssuerLineageId e = ?x) (giEdgeList input)"
  proof (rule filter_cong [OF refl])
    fix e assume e: "e \<in> set (giEdgeList input)"
    have "nodeAt input ?x = u" using indexMap_nth [OF d, of u] u by (simp add: nodeAt_def orDefault_def)
    then show "nodeAt input (geIssuerLineageId e) = u \<longleftrightarrow> geIssuerLineageId e = ?x"
      using nodeAt_member(3) [OF d valid_edge(1) [OF v e]] by auto
  qed
  have "snd oe < nodeCount input \<and> 0 < geWeight (fst oe) \<and> canonical (geSubjectLineageId (fst oe)) \<and>
      canonical (geEndorsementId (fst oe)) \<and> length (geSubjectLineageId (fst oe)) = 66"
    if oe: "oe \<in> set (reputationRow input (giEdgeList input) u)" for oe
  proof -
    obtain e where e: "e \<in> set (giEdgeList input)" "oe = (e, nodeAt input (geSubjectLineageId e))" using oe by (auto simp: reputationRow_def)
    obtain x where x: "x \<in> set (giNodes input)" "geSubjectLineageId e = gnLineageId x" using valid_edge(2) [OF v e(1)] by auto
    have "nodeOk K input x" using v x(1) by (simp add: validReputation_def)
    then have "canonical (gnLineageId x)" "length (gnLineageId x) = 66" by (simp_all add: nodeOk_def goodWord_def)
    then show ?thesis
      using nodeAt_member(2) [OF d valid_edge(2) [OF v e(1)]] valid_edge(3,4) [OF v e(1)] e(2) x(2) by simp
  qed
  moreover have "distinct (map (\<lambda>oe. geEndorsementId (fst oe)) (reputationRow input (giEdgeList input) u))"
    using v by (simp add: reputationRow_def comp_def validReputation_def distinct_map_filter)
  moreover have "distinct (map snd (reputationRow input (giEdgeList input) u))"
  proof -
    have p: "distinct (map referralPair (filter (\<lambda>e. geIssuerLineageId e = ?x) (giEdgeList input)))"
      using v by (simp add: validReputation_def distinct_map_filter)
    have "inj_on (\<lambda>e. nodeAt input (geSubjectLineageId e)) (set (filter (\<lambda>e. geIssuerLineageId e = ?x) (giEdgeList input)))"
    proof (rule inj_onI)
      fix a b assume ab: "a \<in> set (filter (\<lambda>e. geIssuerLineageId e = ?x) (giEdgeList input))"
        "b \<in> set (filter (\<lambda>e. geIssuerLineageId e = ?x) (giEdgeList input))"
        and "nodeAt input (geSubjectLineageId a) = nodeAt input (geSubjectLineageId b)"
      then have "geSubjectLineageId a = geSubjectLineageId b"
        using nodeAt_member(3) [OF d valid_edge(2) [OF v]] by (metis filter_is_subset subsetD)
      then have "referralPair a = referralPair b" using ab by (simp add: referralPair_def)
      then show "a = b" using p ab by (meson distinct_map inj_onD)
    qed
    moreover have "distinct (filter (\<lambda>e. geIssuerLineageId e = ?x) (giEdgeList input))" using p by (simp add: distinct_map)
    ultimately show ?thesis by (simp add: reputationRow_def f distinct_map comp_def)
  qed
  moreover have "sumOf (\<lambda>oe. geWeight (fst oe)) (reputationRow input (giEdgeList input) u) \<le> GRAPH_REPUTATION_SCALE"
  proof -
    have s: "sumOf (\<lambda>oe. geWeight (fst oe)) (reputationRow input (giEdgeList input) u) = issuedBy ?x (giEdgeList input)"
      by (simp add: reputationRow_def f comp_def issuedBy_def)
    show ?thesis
    proof (cases "filter (\<lambda>e. geIssuerLineageId e = ?x) (giEdgeList input)")
      case Nil
      then show ?thesis unfolding s by (simp add: issuedBy_def GRAPH_REPUTATION_SCALE_def)
    next
      case (Cons e es)
      then have "e \<in> set (filter (\<lambda>e. geIssuerLineageId e = ?x) (giEdgeList input))" by simp
      then have "e \<in> set (giEdgeList input)" "geIssuerLineageId e = ?x" by simp_all
      then show ?thesis unfolding s using v by (auto simp: validReputation_def)
    qed
  qed
  ultimately show ?thesis unfolding reputationRowOk_def by blast
qed

lemma valid_netOk:
  assumes v: "validReputation K input"
  shows "netOk input (nodeIndexOf input) (outgoingOf input)"
    and "\<exists>spent. foldE (addEdge (nodeIndexOf input)) (replicate (nodeCount input) [], []) (giEdgeList input) = Inr (outgoingOf input, spent) \<and>
      (\<forall>x. orDefault (jget spent x) 0 = issuedBy x (giEdgeList input))"
proof -
  have d: "distinct (map gnLineageId (giNodes input))" using v by (simp add: validReputation_def)
  have r: "\<exists>u < nodeCount input. jget (nodeIndexOf input) (grLineageId (giRoots input ! r)) = Some u" if "r < rootCount input" for r
  proof -
    have "giRoots input ! r \<in> set (giRoots input)" using that by simp
    then have "grLineageId (giRoots input ! r) \<in> gnLineageId ` set (giNodes input)" using v by (auto simp: validReputation_def rootOk_def)
    then show ?thesis using nodeAt_member [OF d] by blast
  qed
  have c: "canonical (gnLineageId x) \<and> length (gnLineageId x) = 66" if "x \<in> set (giNodes input)" for x
    using v that by (auto simp: validReputation_def nodeOk_def goodWord_def)
  have cr: "canonical (grLineageId x) \<and> 0 < grWeight x" if "x \<in> set (giRoots input)" for x
    using v that c by (fastforce simp: validReputation_def rootOk_def)
  show "netOk input (nodeIndexOf input) (outgoingOf input)"
    unfolding netOk_def using v r c cr valid_rowOk [OF v] by (auto simp: outgoingOf_def validReputation_def)
  show "\<exists>spent. foldE (addEdge (nodeIndexOf input)) (replicate (nodeCount input) [], []) (giEdgeList input) = Inr (outgoingOf input, spent) \<and>
      (\<forall>x. orDefault (jget spent x) 0 = issuedBy x (giEdgeList input))"
    unfolding outgoingOf_def using valid_edge(1,2) [OF v] by (intro addEdges [OF d]) blast
qed

section \<open>The run\<close>

definition startMass :: "GraphReputationInput \<Rightarrow> mass" where
  "startMass input = map (\<lambda>v. map (\<lambda>r. if rootNode input (nodeIndexOf input) r = v then grWeight (giRoots input ! r) else 0)
     [0..<rootCount input]) [0..<nodeCount input]"

abbreviation rootIndexOf :: "GraphReputationInput \<Rightarrow> (hex, nat) jmap" where
  "rootIndexOf input \<equiv> indexMap (map grLineageId (giRoots input))"

lemma startRoots:
  assumes net: "netOk input (nodeIndexOf input) outgoing" and "k \<le> rootCount input"
  shows "foldE (startRoot (nodeIndexOf input) (rootIndexOf input)) (zeroMass input) (take k (giRoots input)) =
    Inr (map (\<lambda>v. map (\<lambda>r. if r < k \<and> rootNode input (nodeIndexOf input) r = v then grWeight (giRoots input ! r) else 0)
      [0..<rootCount input]) [0..<nodeCount input])"
  using assms(2)
proof (induction k)
  case 0
  then show ?case by (simp add: zeroMass_def map_replicate_const)
next
  case (Suc k)
  let ?s = "\<lambda>k. map (\<lambda>v. map (\<lambda>r. if r < k \<and> rootNode input (nodeIndexOf input) r = v then grWeight (giRoots input ! r) else 0)
      [0..<rootCount input]) [0..<nodeCount input]"
  from Suc.prems have k: "k < rootCount input" by simp
  note rn = netOk_root [OF net k]
  have ri: "jget (rootIndexOf input) (grLineageId (giRoots input ! k)) = Some k"
    using indexMap_nth [of "map grLineageId (giRoots input)" k] net k by (simp add: netOk_def)
  let ?v = "rootNode input (nodeIndexOf input) k"
  let ?row = "\<lambda>k v. map (\<lambda>r. if r < k \<and> rootNode input (nodeIndexOf input) r = v then grWeight (giRoots input ! r) else 0) [0..<rootCount input]"
  have a: "(?row k ?v)[k := grWeight (giRoots input ! k)] = ?row (Suc k) ?v"
    using k by (intro nth_equalityI) (auto simp: nth_list_update)
  have b: "?row k v = ?row (Suc k) v" if "v \<noteq> ?v" for v
    using that by (intro map_cong refl) (auto simp: less_Suc_eq)
  have "(?s k)[?v := (?s k ! ?v)[k := grWeight (giRoots input ! k)]] = ?s (Suc k)"
  proof (rule nth_equalityI)
    fix v assume "v < length ((?s k)[?v := (?s k ! ?v)[k := grWeight (giRoots input ! k)]])"
    then have v: "v < nodeCount input" by simp
    then have row: "?s k' ! v = ?row k' v" for k' by simp
    show "(?s k)[?v := (?s k ! ?v)[k := grWeight (giRoots input ! k)]] ! v = ?s (Suc k) ! v"
    proof (cases "v = ?v")
      case True
      then show ?thesis using a row v by (simp only: nth_list_update_eq length_map length_upt diff_zero)
    next
      case False
      then show ?thesis using b [OF False] row by (simp only: nth_list_update_neq not_False_eq_True)
    qed
  qed simp
  then show ?case using Suc rn(1) ri k
    by (simp add: take_Suc_conv_app_nth foldE_append startRoot_def indexOf_def)
qed

lemma startMass_run:
  assumes "netOk input (nodeIndexOf input) outgoing"
  shows "foldE (startRoot (nodeIndexOf input) (rootIndexOf input)) (zeroMass input) (giRoots input) = Inr (startMass input)"
  using startRoots [OF assms order_refl] by (simp add: startMass_def cong: map_cong)

lemma startMass_at: "q \<in> inputCells input \<Longrightarrow>
    massAt (startMass input) q = (if rootNode input (nodeIndexOf input) (snd q) = fst q then grWeight (giRoots input ! snd q) else 0)"
  by (auto simp: startMass_def)

lemma sum_on_roots:
  fixes f :: "nat \<Rightarrow> 'a::comm_monoid_add"
  assumes net: "netOk input nodeIndex outgoing"
  shows "(\<Sum>q \<in> inputCells input. if rootNode input nodeIndex (snd q) = fst q then f (snd q) else 0) = (\<Sum>r<rootCount input. f r)"
proof -
  have "(\<Sum>q \<in> inputCells input. if rootNode input nodeIndex (snd q) = fst q then f (snd q) else 0) =
      (\<Sum>v<nodeCount input. \<Sum>r<rootCount input. if rootNode input nodeIndex r = v then f r else 0)"
    by (simp add: sum.cartesian_product case_prod_beta)
  also have "\<dots> = (\<Sum>r<rootCount input. \<Sum>v<nodeCount input. if v = rootNode input nodeIndex r then f r else 0)"
    by (subst sum.swap) (auto intro!: sum.cong)
  also have "\<dots> = (\<Sum>r<rootCount input. f r)"
    using netOk_root(2) [OF net] by (simp add: sum.delta')
  finally show ?thesis .
qed

lemma startMass_ok:
  assumes net: "netOk input (nodeIndexOf input) outgoing"
  shows "stateOk input (startMass input)"
proof -
  have "(\<Sum>q \<in> inputCells input. massAt (startMass input) q) = (\<Sum>r<rootCount input. grWeight (giRoots input ! r))"
    using sum_on_roots [OF net, of "\<lambda>r. grWeight (giRoots input ! r)"] by (simp add: startMass_at cong: sum.cong)
  then have "(\<Sum>q \<in> inputCells input. massAt (startMass input) q) = GRAPH_REPUTATION_SCALE"
    using net by (simp add: sumOf_indexed netOk_def)
  moreover have "\<forall>q \<in> inputCells input. 0 \<le> massAt (startMass input) q"
    using net by (auto simp: startMass_at netOk_def dest!: bspec [OF _ nth_mem] intro: less_imp_le)
  ultimately show ?thesis by (simp add: stateOk_def) (auto simp: shaped_def startMass_def)
qed

definition stepOf :: "GraphReputationInput \<Rightarrow> mass \<times> int \<Rightarrow> nat \<Rightarrow> (mass \<times> int) result" where
  "stepOf input st i = iteration input (nodeIndexOf input) (outgoingOf input) (teleportParts input) st"

text \<open>The state after \<open>k\<close> iterations.\<close>

definition massAfter :: "GraphReputationInput \<Rightarrow> nat \<Rightarrow> mass" where
  "massAfter input k = (case foldE (stepOf input) (startMass input, GRAPH_REPUTATION_SCALE) [0..<k] of
     Inl _ \<Rightarrow> zeroMass input | Inr st \<Rightarrow> fst st)"

definition residualAfter :: "GraphReputationInput \<Rightarrow> nat \<Rightarrow> int" where
  "residualAfter input k = (if k = 0 then GRAPH_REPUTATION_SCALE else residualOf (massAfter input (k - 1)) (massAfter input k))"

lemma massAfter_run:
  assumes net: "netOk input (nodeIndexOf input) (outgoingOf input)"
  shows "foldE (stepOf input) (startMass input, GRAPH_REPUTATION_SCALE) [0..<k] = Inr (massAfter input k, residualAfter input k) \<and>
    stateOk input (massAfter input k) \<and>
    (\<forall>q \<in> inputCells input. massAt (massAfter input (Suc k)) q = nextAt input (nodeIndexOf input) (outgoingOf input) (massAfter input k) q)"
proof -
  have run: "foldE (stepOf input) (startMass input, GRAPH_REPUTATION_SCALE) [0..<k] = Inr (massAfter input k, residualAfter input k) \<and>
      stateOk input (massAfter input k)" for k
  proof (induction k)
    case 0
    then show ?case using startMass_ok [OF net] by (simp add: massAfter_def residualAfter_def)
  next
    case (Suc k)
    obtain s' where "stepOf input (massAfter input k, residualAfter input k) k = Inr (s', residualOf (massAfter input k) s')"
      "stateOk input s'" unfolding stepOf_def using iteration_run [OF net] Suc by blast
    then have "foldE (stepOf input) (startMass input, GRAPH_REPUTATION_SCALE) [0..<Suc k] = Inr (s', residualOf (massAfter input k) s')"
      "stateOk input s'" using Suc by (simp_all add: foldE_append)
    then show ?case by (simp add: massAfter_def [of _ "Suc k"] residualAfter_def)
  qed
  obtain s' where s': "stepOf input (massAfter input k, residualAfter input k) k = Inr (s', residualOf (massAfter input k) s')"
    "\<forall>q \<in> inputCells input. massAt s' q = nextAt input (nodeIndexOf input) (outgoingOf input) (massAfter input k) q"
    unfolding stepOf_def using iteration_run [OF net] run by blast
  have "massAfter input (Suc k) = s'"
    using run [of k] s'(1) by (simp add: massAfter_def [of _ "Suc k"] foldE_append)
  then show ?thesis using run [of k] s'(2) by simp
qed

lemma finalState_run:
  assumes net: "netOk input (nodeIndexOf input) (outgoingOf input)"
  shows "finalState input (nodeIndexOf input) (outgoingOf input) =
    Inr (massAfter input GRAPH_REPUTATION_ITERATIONS, residualAfter input GRAPH_REPUTATION_ITERATIONS)"
  using startMass_run [OF net] graphHamilton_returns [OF rootEntries_good(1) [OF net lambda_scale(2)]]
    massAfter_run [OF net, of GRAPH_REPUTATION_ITERATIONS]
  by (simp add: finalState_def stepOf_def [abs_def] teleportParts_def)

section \<open>Where mass comes from\<close>

inductive reaches :: "GraphReputationInput \<Rightarrow> hex \<Rightarrow> hex \<Rightarrow> bool" for input where
  itself: "reaches input x x"
| referral: "reaches input x y \<Longrightarrow> e \<in> set (giEdgeList input) \<Longrightarrow> geIssuerLineageId e = y \<Longrightarrow> reaches input x (geSubjectLineageId e)"

definition sourced :: "GraphReputationInput \<Rightarrow> mass \<Rightarrow> bool" where
  "sourced input s \<longleftrightarrow> (\<forall>q \<in> inputCells input. 0 < massAt s q \<longrightarrow>
     reaches input (grLineageId (giRoots input ! snd q)) (gnLineageId (giNodes input ! fst q)))"

lemma sum_list_pos_member: "0 < sumOf f xs \<Longrightarrow> \<exists>x \<in> set xs. 0 < f x"
  by (induction xs) (auto simp: not_less add_pos_pos intro: ccontr)

lemma reaches_row:
  assumes v: "validReputation K input" and oe: "(e, t) \<in> set (outgoingOf input ! u)" and u: "u < nodeCount input"
    and r: "reaches input x (gnLineageId (giNodes input ! u))"
  shows "reaches input x (gnLineageId (giNodes input ! t))"
proof -
  have d: "distinct (map gnLineageId (giNodes input))" using v by (simp add: validReputation_def)
  have e: "e \<in> set (giEdgeList input)" "nodeAt input (geIssuerLineageId e) = u" "t = nodeAt input (geSubjectLineageId e)"
    using oe u by (auto simp: outgoingOf_def reputationRow_def)
  have "geIssuerLineageId e = gnLineageId (giNodes input ! u)" using nodeAt_member(3) [OF d valid_edge(1) [OF v e(1)]] e(2) by simp
  moreover have "geSubjectLineageId e = gnLineageId (giNodes input ! t)"
    using nodeAt_member(3) [OF d valid_edge(2) [OF v e(1)]] e(3) by simp
  ultimately show ?thesis using reaches.referral [OF r e(1)] by simp
qed

lemma root_reaches:
  assumes v: "validReputation K input" and r: "r < rootCount input"
  shows "gnLineageId (giNodes input ! rootNode input (nodeIndexOf input) r) = grLineageId (giRoots input ! r)"
proof -
  have d: "distinct (map gnLineageId (giNodes input))" using v by (simp add: validReputation_def)
  have "giRoots input ! r \<in> set (giRoots input)" using r by simp
  then have "grLineageId (giRoots input ! r) \<in> gnLineageId ` set (giNodes input)" using v by (auto simp: validReputation_def rootOk_def)
  then show ?thesis using nodeAt_member(3) [OF d] by (simp add: rootNode_def nodeAt_def)
qed

lemma nextAt_sourced:
  assumes v: "validReputation K input" and src: "sourced input s" and q: "q \<in> inputCells input"
    and pos: "0 < nextAt input (nodeIndexOf input) (outgoingOf input) s q"
  shows "reaches input (grLineageId (giRoots input ! snd q)) (gnLineageId (giNodes input ! fst q))"
proof (cases "rootNode input (nodeIndexOf input) (snd q) = fst q")
  case True
  then show ?thesis using root_reaches [OF v, of "snd q"] q reaches.itself by (metis mem_Sigma_iff prod.collapse lessThan_iff)
next
  case False
  then have no: "rootGain input (nodeIndexOf input) a q = 0" for a by (simp add: rootGain_def)
  let ?out = "outgoingOf input"
  from pos no have "0 < (\<Sum>c \<in> inputCells input. if 0 < massAt s c then cellGain input (nodeIndexOf input) ?out (cellShare input s c) c q else 0)"
    by (simp add: nextAt_def)
  then have "\<exists>c \<in> inputCells input. 0 < (if 0 < massAt s c then cellGain input (nodeIndexOf input) ?out (cellShare input s c) c q else 0)"
    by (meson not_less sum_nonpos)
  then obtain c where c: "c \<in> inputCells input" "0 < massAt s c" "0 < cellGain input (nodeIndexOf input) ?out (cellShare input s c) c q"
    by (auto split: if_splits)
  from c(3) obtain e where e: "e \<in> set (routesOf (?out ! fst c))"
    "0 < routeGain input (nodeIndexOf input) (snd c) (partShare (cellShare input s c) (routesOf (?out ! fst c)) e) (heData e) q"
    unfolding cellGain_def by (auto dest!: sum_list_pos_member)
  then obtain t where t: "heData e = ToEdge t" "q = (t, snd c)"
    using no by (auto simp: routeGain_def split: route.splits if_splits)
  then obtain edge where "(edge, t) \<in> set (?out ! fst c)" using e(1) by (auto simp: routesOf_def Let_def split: if_splits)
  moreover have "reaches input (grLineageId (giRoots input ! snd c)) (gnLineageId (giNodes input ! fst c))"
    using src c(1,2) unfolding sourced_def by blast
  ultimately show ?thesis using reaches_row [OF v] c(1) t(2) by auto
qed

lemma massAfter_sourced:
  assumes v: "validReputation K input"
  shows "sourced input (massAfter input k)"
proof (induction k)
  case 0
  have "massAfter input 0 = startMass input" by (simp add: massAfter_def)
  then show ?case using root_reaches [OF v] reaches.itself by (auto simp: sourced_def startMass_at split: if_splits)
next
  case (Suc k)
  then show ?case using nextAt_sourced [OF v Suc] massAfter_run [OF valid_netOk(1) [OF v], of k]
    unfolding sourced_def by metis
qed

end
