(* ===== verification/ReputationBounds.thy ===== *)
theory ReputationBounds
  imports ReputationNetwork Complex_Main
begin

text \<open>
  The convergence of the graph reputation.  The exact flow is a contraction by \<open>17/20\<close> in the sum of the differences; an
  iteration of the program differs from it by its rounding only, which is bounded by the number of rows; hence the residual
  after 128 iterations is below the bound the program checks.
\<close>

section \<open>Exact shares\<close>

abbreviation scaleR :: real where "scaleR \<equiv> real_of_int GRAPH_REPUTATION_SCALE"

lemma scaleR_pos: "0 < scaleR" by (simp add: GRAPH_REPUTATION_SCALE_def)

lemma partShare_near:
  assumes good: "goodEntries a es"
  shows "\<bar>real_of_int (partShare a es e) - real_of_int a * real_of_int (heWeight e) / real_of_int (sumOf heWeight es)\<bar> \<le> 1"
proof -
  let ?D = "sumOf heWeight es" and ?x = "heWeight e * a"
  have D: "0 < ?D" using good by (simp add: goodEntries_def)
  have "real_of_int (?x div ?D) \<le> real_of_int ?x / real_of_int ?D" "real_of_int ?x / real_of_int ?D \<le> real_of_int (?x div ?D) + 1"
    using real_of_int_div4 [of ?x ?D] real_of_int_div3 [of ?x ?D] by linarith+
  moreover have "real_of_int (?x div ?D) \<le> real_of_int (partShare a es e)" "real_of_int (partShare a es e) \<le> real_of_int (?x div ?D) + 1"
    using partShare_facts(3,4) [OF good, of e] by linarith+
  ultimately show ?thesis by (simp add: mult.commute abs_le_iff)
qed

section \<open>The exact flow\<close>

text \<open>A kernel that moves a unit from a cell to the cells: it spreads differences, and never makes them larger.\<close>

lemma kernel_contracts:
  fixes K :: "'c \<Rightarrow> 'c \<Rightarrow> real" and d :: "'c \<Rightarrow> real"
  assumes K: "\<And>c q. c \<in> C \<Longrightarrow> q \<in> C \<Longrightarrow> 0 \<le> K c q" and one: "\<And>c. c \<in> C \<Longrightarrow> (\<Sum>q \<in> C. K c q) = 1"
  shows "(\<Sum>q \<in> C. \<bar>\<Sum>c \<in> C. d c * K c q\<bar>) \<le> (\<Sum>c \<in> C. \<bar>d c\<bar>)"
proof -
  have "(\<Sum>q \<in> C. \<bar>\<Sum>c \<in> C. d c * K c q\<bar>) \<le> (\<Sum>q \<in> C. \<Sum>c \<in> C. \<bar>d c\<bar> * K c q)"
  proof (rule sum_mono)
    fix q assume q: "q \<in> C"
    have "\<bar>\<Sum>c \<in> C. d c * K c q\<bar> \<le> (\<Sum>c \<in> C. \<bar>d c * K c q\<bar>)" by (rule sum_abs)
    also have "\<dots> = (\<Sum>c \<in> C. \<bar>d c\<bar> * K c q)" by (rule sum.cong) (use K q in \<open>auto simp: abs_mult\<close>)
    finally show "\<bar>\<Sum>c \<in> C. d c * K c q\<bar> \<le> (\<Sum>c \<in> C. \<bar>d c\<bar> * K c q)" .
  qed
  also have "\<dots> = (\<Sum>c \<in> C. \<bar>d c\<bar> * (\<Sum>q \<in> C. K c q))" by (subst sum.swap) (simp add: sum_distrib_left)
  also have "\<dots> = (\<Sum>c \<in> C. \<bar>d c\<bar>)" using one by simp
  finally show ?thesis .
qed

definition rootFlow :: "GraphReputationInput \<Rightarrow> (hex, nat) jmap \<Rightarrow> nat \<times> nat \<Rightarrow> real" where
  "rootFlow input nodeIndex q =
     (if rootNode input nodeIndex (snd q) = fst q then real_of_int (grWeight (giRoots input ! snd q)) / scaleR else 0)"

definition routeFlow :: "GraphReputationInput \<Rightarrow> (hex, nat) jmap \<Rightarrow> nat \<Rightarrow> route \<Rightarrow> nat \<times> nat \<Rightarrow> real" where
  "routeFlow input nodeIndex column way q =
     (case way of ToEdge target \<Rightarrow> if q = (target, column) then 1 else 0 | ToPrior \<Rightarrow> rootFlow input nodeIndex q)"

definition cellFlow :: "GraphReputationInput \<Rightarrow> (hex, nat) jmap \<Rightarrow> out_edge list list \<Rightarrow> nat \<times> nat \<Rightarrow> nat \<times> nat \<Rightarrow> real" where
  "cellFlow input nodeIndex outgoing c q =
     (\<Sum>e \<leftarrow> routesOf (outgoing ! fst c). real_of_int (heWeight e) / scaleR * routeFlow input nodeIndex (snd c) (heData e) q)"

lemma sum_rootFlow:
  assumes net: "netOk input nodeIndex outgoing"
  shows "(\<Sum>q \<in> inputCells input. rootFlow input nodeIndex q) = 1"
    and "q \<in> inputCells input \<Longrightarrow> 0 \<le> rootFlow input nodeIndex q"
proof -
  have "(\<Sum>q \<in> inputCells input. rootFlow input nodeIndex q) = (\<Sum>r<rootCount input. real_of_int (grWeight (giRoots input ! r)) / scaleR)"
    unfolding rootFlow_def by (rule sum_on_roots [OF net])
  also have "\<dots> = real_of_int (\<Sum>r<rootCount input. grWeight (giRoots input ! r)) / scaleR" by (simp add: sum_divide_distrib)
  also have "(\<Sum>r<rootCount input. grWeight (giRoots input ! r)) = GRAPH_REPUTATION_SCALE" using net by (simp add: netOk_def sumOf_indexed)
  finally show "(\<Sum>q \<in> inputCells input. rootFlow input nodeIndex q) = 1" using scaleR_pos by simp
  show "q \<in> inputCells input \<Longrightarrow> 0 \<le> rootFlow input nodeIndex q"
    using net scaleR_pos by (auto simp: rootFlow_def netOk_def intro!: divide_nonneg_pos less_imp_le)
qed

lemma sum_routeFlow:
  assumes net: "netOk input nodeIndex outgoing" and r: "r < rootCount input" and t: "\<And>t. way = ToEdge t \<Longrightarrow> t < nodeCount input"
  shows "(\<Sum>q \<in> inputCells input. routeFlow input nodeIndex r way q) = 1"
    and "q \<in> inputCells input \<Longrightarrow> 0 \<le> routeFlow input nodeIndex r way q"
proof -
  have "(\<Sum>q \<in> inputCells input. if q = (x, r) then 1 else 0::real) = 1" if "way = ToEdge x" for x
    using t [OF that] r by (simp add: sum.delta)
  then show "(\<Sum>q \<in> inputCells input. routeFlow input nodeIndex r way q) = 1"
    using sum_rootFlow(1) [OF net] by (cases way) (simp_all add: routeFlow_def)
  show "q \<in> inputCells input \<Longrightarrow> 0 \<le> routeFlow input nodeIndex r way q"
    using sum_rootFlow(2) [OF net] by (cases way) (auto simp: routeFlow_def)
qed

lemma sum_over_list: "(\<Sum>q \<in> C. \<Sum>e \<leftarrow> es. f e q) = (\<Sum>e \<leftarrow> es. \<Sum>q \<in> C. f e (q::'q) :: real)"
  by (induction es) (simp_all add: sum.distrib)

lemma real_sum_divide: "(\<Sum>e \<leftarrow> es. real_of_int (f e) / s) = real_of_int (sumOf f es) / s"
  by (induction es) (simp_all add: add_divide_distrib)

lemma sum_cellFlow:
  assumes net: "netOk input nodeIndex outgoing" and c: "c \<in> inputCells input"
  shows "(\<Sum>q \<in> inputCells input. cellFlow input nodeIndex outgoing c q) = 1"
    and "q \<in> inputCells input \<Longrightarrow> 0 \<le> cellFlow input nodeIndex outgoing c q"
proof -
  let ?es = "routesOf (outgoing ! fst c)"
  have row: "reputationRowOk input (outgoing ! fst c)" using net c by (auto simp: netOk_def)
  note good = routesOf_good [OF row order_refl]
  have f: "(\<Sum>q \<in> inputCells input. routeFlow input nodeIndex (snd c) (heData e) q) = 1"
    "q \<in> inputCells input \<Longrightarrow> 0 \<le> routeFlow input nodeIndex (snd c) (heData e) q" if "e \<in> set ?es" for e q
    using sum_routeFlow [OF net, of "snd c" "heData e"] c routesOf_target [OF row that] by auto
  have "(\<Sum>q \<in> inputCells input. cellFlow input nodeIndex outgoing c q) = (\<Sum>e \<leftarrow> ?es. real_of_int (heWeight e) / scaleR)"
    unfolding cellFlow_def sum_over_list sum_distrib_left [symmetric] using f(1) by (simp cong: map_cong)
  also have "\<dots> = real_of_int (sumOf heWeight ?es) / scaleR"
    by (rule real_sum_divide)
  finally show "(\<Sum>q \<in> inputCells input. cellFlow input nodeIndex outgoing c q) = 1" using good(2) scaleR_pos by simp
  show "0 \<le> cellFlow input nodeIndex outgoing c q" if q: "q \<in> inputCells input"
    unfolding cellFlow_def
  proof (rule sum_list_nonneg)
    fix x assume "x \<in> set (map (\<lambda>e. real_of_int (heWeight e) / scaleR * routeFlow input nodeIndex (snd c) (heData e) q) ?es)"
    then obtain e where e: "e \<in> set ?es" "x = real_of_int (heWeight e) / scaleR * routeFlow input nodeIndex (snd c) (heData e) q" by auto
    have "0 \<le> heWeight e" using good(1) e(1) by (simp add: goodEntries_def)
    then show "0 \<le> x" unfolding e(2) using f(2) [OF e(1) q] scaleR_pos by simp
  qed
qed

section \<open>How far rounding moves the flow\<close>

lemma rootGain_near:
  assumes net: "netOk input nodeIndex outgoing" and a: "0 \<le> a"
  shows "(\<Sum>q \<in> inputCells input. \<bar>real_of_int (rootGain input nodeIndex a q) - real_of_int a * rootFlow input nodeIndex q\<bar>) \<le> real (rootCount input)"
proof -
  let ?d = "\<lambda>r. \<bar>real_of_int (rootShare input a r) - real_of_int a * real_of_int (grWeight (giRoots input ! r)) / scaleR\<bar>"
  have "(\<Sum>q \<in> inputCells input. \<bar>real_of_int (rootGain input nodeIndex a q) - real_of_int a * rootFlow input nodeIndex q\<bar>) =
      (\<Sum>q \<in> inputCells input. if rootNode input nodeIndex (snd q) = fst q then ?d (snd q) else 0)"
    by (rule sum.cong) (simp_all add: rootGain_def rootFlow_def)
  also have "\<dots> = (\<Sum>r<rootCount input. ?d r)" by (rule sum_on_roots [OF net])
  also have "\<dots> \<le> (\<Sum>r<rootCount input. 1)"
  proof (rule sum_mono)
    fix r assume "r \<in> {..<rootCount input}"
    then show "?d r \<le> 1"
      using partShare_near [OF rootEntries_good(1) [OF net a], of "rootEntries input ! r"]
      by (simp add: rootShare_def rootEntries_good(2) [OF net a] rootEntries_nth)
  qed
  finally show ?thesis by simp
qed

lemma sum_two_errors:
  fixes f g h :: "'q \<Rightarrow> real"
  shows "(\<Sum>q \<in> C. \<bar>f q - h q\<bar>) \<le> (\<Sum>q \<in> C. \<bar>f q - g q\<bar>) + (\<Sum>q \<in> C. \<bar>g q - h q\<bar>)"
  unfolding sum.distrib [symmetric] by (rule sum_mono) linarith

lemma routeGain_near:
  assumes net: "netOk input nodeIndex outgoing" and a: "0 \<le> a" and r: "r < rootCount input"
    and t: "\<And>t. way = ToEdge t \<Longrightarrow> t < nodeCount input"
  shows "(\<Sum>q \<in> inputCells input. \<bar>real_of_int (routeGain input nodeIndex r a way q) - x * routeFlow input nodeIndex r way q\<bar>) \<le>
    \<bar>real_of_int a - x\<bar> + (case way of ToEdge _ \<Rightarrow> 0 | ToPrior \<Rightarrow> real (rootCount input))"
proof -
  let ?g = "\<lambda>q. real_of_int a * routeFlow input nodeIndex r way q"
  note flow = sum_routeFlow [OF net r t]
  have "(\<Sum>q \<in> inputCells input. \<bar>?g q - x * routeFlow input nodeIndex r way q\<bar>) =
      (\<Sum>q \<in> inputCells input. \<bar>real_of_int a - x\<bar> * routeFlow input nodeIndex r way q)"
    by (rule sum.cong) (use flow(2) in \<open>auto simp: left_diff_distrib [symmetric] abs_mult\<close>)
  also have "\<dots> = \<bar>real_of_int a - x\<bar>" unfolding sum_distrib_left [symmetric] by (subst flow(1)) simp_all
  finally have second: "(\<Sum>q \<in> inputCells input. \<bar>?g q - x * routeFlow input nodeIndex r way q\<bar>) = \<bar>real_of_int a - x\<bar>" .
  have first: "(\<Sum>q \<in> inputCells input. \<bar>real_of_int (routeGain input nodeIndex r a way q) - ?g q\<bar>) \<le>
      (case way of ToEdge _ \<Rightarrow> 0 | ToPrior \<Rightarrow> real (rootCount input))"
  proof (cases way)
    case (ToEdge y)
    have "real_of_int (routeGain input nodeIndex r a way q) - ?g q = 0" for q
      by (simp add: ToEdge routeGain_def routeFlow_def)
    then show ?thesis by (simp only: ToEdge) simp
  next
    case ToPrior
    then show ?thesis using rootGain_near [OF net a] by (simp add: routeGain_def routeFlow_def)
  qed
  show ?thesis
    using sum_two_errors [where C = "inputCells input" and f = "\<lambda>q. real_of_int (routeGain input nodeIndex r a way q)"
        and g = ?g and h = "\<lambda>q. x * routeFlow input nodeIndex r way q"] first second by linarith
qed

lemma row_length:
  assumes "reputationRowOk input row"
  shows "length row \<le> nodeCount input"
proof -
  have "distinct (map snd row)" "set (map snd row) \<subseteq> {..<nodeCount input}" using assms by (auto simp: reputationRowOk_def)
  then show ?thesis using card_mono [of "{..<nodeCount input}" "set (map snd row)"] by (metis card_lessThan distinct_card finite_lessThan length_map)
qed

lemma abs_sum_list: "\<bar>\<Sum>x \<leftarrow> xs. f x :: real\<bar> \<le> (\<Sum>x \<leftarrow> xs. \<bar>f x\<bar>)"
  by (induction xs) (auto intro: order_trans [OF abs_triangle_ineq])

lemma sum_list_bound: "(\<And>x. x \<in> set xs \<Longrightarrow> f x \<le> (g x :: real)) \<Longrightarrow> (\<Sum>x \<leftarrow> xs. f x) \<le> (\<Sum>x \<leftarrow> xs. g x)"
  by (induction xs) (auto intro: add_mono)

lemma routes_error:
  "(\<Sum>e \<leftarrow> routesOf row. 1 + (case heData e of ToEdge _ \<Rightarrow> 0 | ToPrior \<Rightarrow> m)) \<le> real (length row) + 1 + (m::real)" if "0 \<le> m"
proof -
  have "(\<Sum>e \<leftarrow> map (\<lambda>(edge, target). \<lparr>heKey = k edge, heWeight = w edge, heData = ToEdge target\<rparr>) row.
      1 + (case heData e of ToEdge _ \<Rightarrow> 0 | ToPrior \<Rightarrow> m)) = real (length row)" for k :: "GraphReputationEdge \<Rightarrow> string" and w
    by (induction row) auto
  then show ?thesis using that by (simp add: routesOf_def Let_def)
qed

lemma cellGain_near:
  assumes net: "netOk input nodeIndex outgoing" and c: "c \<in> inputCells input" and a: "0 \<le> a"
  shows "(\<Sum>q \<in> inputCells input. \<bar>real_of_int (cellGain input nodeIndex outgoing a c q) - real_of_int a * cellFlow input nodeIndex outgoing c q\<bar>) \<le>
    real (nodeCount input) + 1 + real (rootCount input)"
proof -
  let ?es = "routesOf (outgoing ! fst c)"
  have row: "reputationRowOk input (outgoing ! fst c)" using net c by (auto simp: netOk_def)
  note good = routesOf_good [OF row a]
  let ?x = "\<lambda>e. real_of_int a * real_of_int (heWeight e) / scaleR"
  let ?d = "\<lambda>e q. real_of_int (routeGain input nodeIndex (snd c) (partShare a ?es e) (heData e) q) - ?x e * routeFlow input nodeIndex (snd c) (heData e) q"
  have split: "real_of_int (cellGain input nodeIndex outgoing a c q) - real_of_int a * cellFlow input nodeIndex outgoing c q = (\<Sum>e \<leftarrow> ?es. ?d e q)" for q
  proof -
    have "real_of_int (sumOf f es) - real_of_int a * (\<Sum>e \<leftarrow> es. real_of_int (heWeight e) / scaleR * g e) =
        (\<Sum>e \<leftarrow> es. real_of_int (f e) - real_of_int a * real_of_int (heWeight e) / scaleR * g e)"
      for f and g :: "route HamiltonEntry \<Rightarrow> real" and es
      by (induction es) (simp_all add: algebra_simps)
    then show ?thesis by (simp add: cellGain_def cellFlow_def)
  qed
  have one: "(\<Sum>q \<in> inputCells input. \<bar>?d e q\<bar>) \<le> 1 + (case heData e of ToEdge _ \<Rightarrow> 0 | ToPrior \<Rightarrow> real (rootCount input))" if e: "e \<in> set ?es" for e
  proof -
    have "\<bar>real_of_int (partShare a ?es e) - ?x e\<bar> \<le> 1" using partShare_near [OF good(1), of e] by (simp add: good(2))
    moreover have "snd c < rootCount input" using c by auto
    ultimately show ?thesis
      using routeGain_near [OF net partShare_facts(2) [OF good(1) e] _ routesOf_target [OF row e], where r = "snd c" and x = "?x e"]
      by fastforce
  qed
  have "(\<Sum>q \<in> inputCells input. \<bar>\<Sum>e \<leftarrow> ?es. ?d e q\<bar>) \<le> (\<Sum>q \<in> inputCells input. \<Sum>e \<leftarrow> ?es. \<bar>?d e q\<bar>)"
    by (rule sum_mono) (rule abs_sum_list)
  also have "\<dots> = (\<Sum>e \<leftarrow> ?es. \<Sum>q \<in> inputCells input. \<bar>?d e q\<bar>)" by (rule sum_over_list)
  also have "\<dots> \<le> (\<Sum>e \<leftarrow> ?es. 1 + (case heData e of ToEdge _ \<Rightarrow> 0 | ToPrior \<Rightarrow> real (rootCount input)))"
    using one by (rule sum_list_bound)
  also have "\<dots> \<le> real (length (outgoing ! fst c)) + 1 + real (rootCount input)" by (rule routes_error) simp
  finally show ?thesis unfolding split using row_length [OF row] by simp
qed

section \<open>Successive states draw together\<close>

abbreviation lambdaR :: real where "lambdaR \<equiv> real_of_int GRAPH_REPUTATION_LAMBDA / scaleR"

definition exactNext :: "GraphReputationInput \<Rightarrow> (hex, nat) jmap \<Rightarrow> out_edge list list \<Rightarrow> mass \<Rightarrow> nat \<times> nat \<Rightarrow> real" where
  "exactNext input nodeIndex outgoing s q =
     real_of_int (GRAPH_REPUTATION_SCALE - GRAPH_REPUTATION_LAMBDA) * rootFlow input nodeIndex q +
     (\<Sum>c \<in> inputCells input. lambdaR * real_of_int (massAt s c) * cellFlow input nodeIndex outgoing c q)"

lemma massAfter_Suc:
  assumes "netOk input (nodeIndexOf input) (outgoingOf input)" and "q \<in> inputCells input"
  shows "massAt (massAfter input (Suc k)) q = nextAt input (nodeIndexOf input) (outgoingOf input) (massAfter input k) q"
  using massAfter_run [OF assms(1), of k] assms(2) by blast

lemma abs_diff_mult: "0 \<le> z \<Longrightarrow> \<bar>x * z - y * z\<bar> = \<bar>x - y\<bar> * (z::real)"
  by (simp add: left_diff_distrib [symmetric] abs_mult)

definition dust :: "GraphReputationInput \<Rightarrow> real" where
  "dust input = real (rootCount input) + real (nodeCount input * rootCount input) * (real (nodeCount input) + 2 + real (rootCount input))"

lemma nextAt_near:
  assumes net: "netOk input nodeIndex outgoing" and ok: "stateOk input s"
  shows "(\<Sum>q \<in> inputCells input. \<bar>real_of_int (nextAt input nodeIndex outgoing s q) - exactNext input nodeIndex outgoing s q\<bar>) \<le> dust input"
proof -
  let ?C = "inputCells input" and ?flow = "cellFlow input nodeIndex outgoing"
  let ?gain = "\<lambda>c q. if 0 < massAt s c then cellGain input nodeIndex outgoing (cellShare input s c) c q else 0"
  let ?B = "real (nodeCount input) + 2 + real (rootCount input)"
  let ?e = "\<lambda>c q. real_of_int (?gain c q) - lambdaR * real_of_int (massAt s c) * ?flow c q"
  have cell: "(\<Sum>q \<in> ?C. \<bar>?e c q\<bar>) \<le> ?B" if c: "c \<in> ?C" for c
  proof (cases "0 < massAt s c")
    case False
    then have "massAt s c = 0" using ok c by (auto simp: stateOk_def intro: antisym)
    then show ?thesis by simp
  next
    case True
    let ?a = "cellShare input s c"
    have near: "\<bar>real_of_int ?a - lambdaR * real_of_int (massAt s c)\<bar> \<le> 1"
      using partShare_near [OF massCells_good(1) [OF net ok lambda_scale(1)], of "cellEntry input s c"] True
      by (simp add: cellShare_def massCells_good(2) [OF net ok lambda_scale(1)] cellEntry_def)
    have "(\<Sum>q \<in> ?C. \<bar>real_of_int ?a * ?flow c q - lambdaR * real_of_int (massAt s c) * ?flow c q\<bar>) =
        (\<Sum>q \<in> ?C. \<bar>real_of_int ?a - lambdaR * real_of_int (massAt s c)\<bar> * ?flow c q)"
      by (rule sum.cong [OF refl]) (rule abs_diff_mult [OF sum_cellFlow(2) [OF net c]])
    also have "\<dots> \<le> 1" unfolding sum_distrib_left [symmetric] using near by (simp add: sum_cellFlow(1) [OF net c])
    finally have "(\<Sum>q \<in> ?C. \<bar>real_of_int ?a * ?flow c q - lambdaR * real_of_int (massAt s c) * ?flow c q\<bar>) \<le> 1" .
    then show ?thesis
      using cellGain_near [OF net c sum_cellShare(2) [OF net ok c]] True
        sum_two_errors [where C = ?C and f = "\<lambda>q. real_of_int (cellGain input nodeIndex outgoing ?a c q)"
          and g = "\<lambda>q. real_of_int ?a * ?flow c q" and h = "\<lambda>q. lambdaR * real_of_int (massAt s c) * ?flow c q"] by simp
  qed
  let ?b = "\<lambda>q. real_of_int (rootGain input nodeIndex (GRAPH_REPUTATION_SCALE - GRAPH_REPUTATION_LAMBDA) q) -
      real_of_int (GRAPH_REPUTATION_SCALE - GRAPH_REPUTATION_LAMBDA) * rootFlow input nodeIndex q"
  have "real_of_int (nextAt input nodeIndex outgoing s q) - exactNext input nodeIndex outgoing s q = ?b q + (\<Sum>c \<in> ?C. ?e c q)" for q
    by (simp add: nextAt_def exactNext_def sum_subtractf if_distrib [of real_of_int] cong: if_cong sum.cong)
  then have "(\<Sum>q \<in> ?C. \<bar>real_of_int (nextAt input nodeIndex outgoing s q) - exactNext input nodeIndex outgoing s q\<bar>) \<le>
      (\<Sum>q \<in> ?C. \<bar>?b q\<bar> + (\<Sum>c \<in> ?C. \<bar>?e c q\<bar>))"
    by (intro sum_mono) (auto intro: order_trans [OF abs_triangle_ineq] add_left_mono sum_abs)
  also have "\<dots> = (\<Sum>q \<in> ?C. \<bar>?b q\<bar>) + (\<Sum>c \<in> ?C. \<Sum>q \<in> ?C. \<bar>?e c q\<bar>)"
    unfolding sum.distrib by (subst sum.swap) simp
  also have "\<dots> \<le> real (rootCount input) + (\<Sum>c \<in> ?C. ?B)"
    using rootGain_near [OF net lambda_scale(2)] cell by (intro add_mono sum_mono) auto
  finally show ?thesis by (simp add: dust_def)
qed

definition gap :: "GraphReputationInput \<Rightarrow> nat \<Rightarrow> real" where
  "gap input k = (\<Sum>q \<in> inputCells input. \<bar>real_of_int (massAt (massAfter input (Suc k)) q) - real_of_int (massAt (massAfter input k) q)\<bar>)"

lemma lambdaR_eq: "lambdaR = 17 / 20"
  by (simp add: GRAPH_REPUTATION_LAMBDA_def GRAPH_REPUTATION_SCALE_def)

lemma exactNext_contracts:
  assumes net: "netOk input nodeIndex outgoing"
  shows "(\<Sum>q \<in> inputCells input. \<bar>exactNext input nodeIndex outgoing s q - exactNext input nodeIndex outgoing s' q\<bar>) \<le>
    17 / 20 * (\<Sum>q \<in> inputCells input. \<bar>real_of_int (massAt s q) - real_of_int (massAt s' q)\<bar>)"
proof -
  let ?d = "\<lambda>c. lambdaR * (real_of_int (massAt s c) - real_of_int (massAt s' c))"
  have "exactNext input nodeIndex outgoing s q - exactNext input nodeIndex outgoing s' q =
      (\<Sum>c \<in> inputCells input. ?d c * cellFlow input nodeIndex outgoing c q)" for q
    unfolding exactNext_def by (simp add: sum_subtractf [symmetric] algebra_simps)
  then have "(\<Sum>q \<in> inputCells input. \<bar>exactNext input nodeIndex outgoing s q - exactNext input nodeIndex outgoing s' q\<bar>) \<le>
      (\<Sum>c \<in> inputCells input. \<bar>?d c\<bar>)"
    using kernel_contracts [of "inputCells input" "cellFlow input nodeIndex outgoing" ?d] sum_cellFlow [OF net] by simp
  also have "\<dots> = 17 / 20 * (\<Sum>q \<in> inputCells input. \<bar>real_of_int (massAt s q) - real_of_int (massAt s' q)\<bar>)"
    unfolding lambdaR_eq sum_distrib_left by (rule sum.cong [OF refl]) (simp only: abs_mult abs_numeral abs_divide)
  finally show ?thesis .
qed

lemma gap_step:
  assumes net: "netOk input (nodeIndexOf input) (outgoingOf input)"
  shows "gap input (Suc k) \<le> 2 * dust input + 17 / 20 * gap input k"
proof -
  let ?C = "inputCells input" and ?x = "exactNext input (nodeIndexOf input) (outgoingOf input)"
  let ?s = "massAfter input"
  have near: "(\<Sum>q \<in> ?C. \<bar>real_of_int (massAt (?s (Suc k)) q) - ?x (?s k) q\<bar>) \<le> dust input" for k
    using nextAt_near [OF net, of "?s k"] massAfter_run [OF net, of k] massAfter_Suc [OF net, of _ k] by (simp only: cong: sum.cong)
  have "gap input (Suc k) \<le> (\<Sum>q \<in> ?C. \<bar>real_of_int (massAt (?s (Suc (Suc k))) q) - ?x (?s (Suc k)) q\<bar>) +
      (\<Sum>q \<in> ?C. \<bar>?x (?s (Suc k)) q - ?x (?s k) q\<bar>) + (\<Sum>q \<in> ?C. \<bar>?x (?s k) q - real_of_int (massAt (?s (Suc k)) q)\<bar>)"
    unfolding gap_def sum.distrib [symmetric] by (rule sum_mono) linarith
  moreover have "(\<Sum>q \<in> ?C. \<bar>?x (?s (Suc k)) q - ?x (?s k) q\<bar>) \<le> 17 / 20 * gap input k"
    unfolding gap_def by (rule exactNext_contracts [OF net])
  ultimately show ?thesis using near [of k] near [of "Suc k"] by (simp add: abs_minus_commute)
qed

lemma gap_first:
  assumes net: "netOk input (nodeIndexOf input) (outgoingOf input)"
  shows "gap input 0 \<le> dust input + 17 / 20 * (2 * scaleR)"
proof -
  let ?C = "inputCells input" and ?x = "exactNext input (nodeIndexOf input) (outgoingOf input)" and ?s = "massAfter input"
  let ?m = "\<lambda>c. real_of_int (massAt (?s 0) c)" and ?flow = "cellFlow input (nodeIndexOf input) (outgoingOf input)"
  note ok = massAfter_run [OF net, of 0]
  have near: "(\<Sum>q \<in> ?C. \<bar>real_of_int (massAt (?s (Suc 0)) q) - ?x (?s 0) q\<bar>) \<le> dust input"
    using nextAt_near [OF net, of "?s 0"] ok massAfter_Suc [OF net, of _ 0] by (simp only: cong: sum.cong)
  have nonneg: "0 \<le> ?m c" if "c \<in> ?C" for c
    using ok that unfolding stateOk_def of_int_0_le_iff by blast
  have "(\<Sum>c \<in> ?C. ?m c) = real_of_int (\<Sum>c \<in> ?C. massAt (?s 0) c)" by simp
  then have tot: "(\<Sum>c \<in> ?C. ?m c) = scaleR" using ok by (simp only: stateOk_def)
  have start: "real_of_int (GRAPH_REPUTATION_SCALE - GRAPH_REPUTATION_LAMBDA) * rootFlow input (nodeIndexOf input) q = (1 - lambdaR) * ?m q"
    if "q \<in> ?C" for q
  proof -
    have "massAfter input 0 = startMass input" by (simp add: massAfter_def)
    then show ?thesis using startMass_at [OF that] scaleR_pos by (simp add: rootFlow_def left_diff_distrib diff_divide_distrib)
  qed
  have "(\<Sum>q \<in> ?C. \<bar>?x (?s 0) q - ?m q\<bar>) \<le> (\<Sum>q \<in> ?C. \<bar>\<Sum>c \<in> ?C. lambdaR * ?m c * ?flow c q\<bar> + lambdaR * \<bar>?m q\<bar>)"
  proof (rule sum_mono)
    fix q assume q: "q \<in> ?C"
    have "?x (?s 0) q - ?m q = (\<Sum>c \<in> ?C. lambdaR * ?m c * ?flow c q) - lambdaR * ?m q"
      unfolding exactNext_def start [OF q] by (simp add: left_diff_distrib)
    then show "\<bar>?x (?s 0) q - ?m q\<bar> \<le> \<bar>\<Sum>c \<in> ?C. lambdaR * ?m c * ?flow c q\<bar> + lambdaR * \<bar>?m q\<bar>"
      unfolding lambdaR_eq by (simp add: abs_mult)
  qed
  also have "\<dots> = (\<Sum>q \<in> ?C. \<bar>\<Sum>c \<in> ?C. lambdaR * ?m c * ?flow c q\<bar>) + lambdaR * (\<Sum>q \<in> ?C. \<bar>?m q\<bar>)"
    by (simp add: sum.distrib sum_distrib_left)
  also have "\<dots> \<le> (\<Sum>c \<in> ?C. \<bar>lambdaR * ?m c\<bar>) + lambdaR * (\<Sum>q \<in> ?C. \<bar>?m q\<bar>)"
    using kernel_contracts [of ?C ?flow "\<lambda>c. lambdaR * ?m c"] sum_cellFlow [OF net] by simp
  also have "\<dots> = 17 / 20 * (2 * scaleR)"
  proof -
    have "(\<Sum>c \<in> ?C. \<bar>?m c\<bar>) = scaleR" unfolding tot [symmetric] by (rule sum.cong) (use nonneg in simp_all)
    moreover have "(\<Sum>c \<in> ?C. \<bar>17 / 20 * ?m c\<bar>) = 17 / 20 * (\<Sum>c \<in> ?C. \<bar>?m c\<bar>)"
      unfolding sum_distrib_left by (rule sum.cong [OF refl]) (simp only: abs_mult abs_numeral abs_divide)
    ultimately show ?thesis unfolding lambdaR_eq by simp
  qed
  finally have "(\<Sum>q \<in> ?C. \<bar>?x (?s 0) q - ?m q\<bar>) \<le> 17 / 20 * (2 * scaleR)" .
  then show ?thesis
    using sum_two_errors [where C = ?C and f = "\<lambda>q. real_of_int (massAt (?s (Suc 0)) q)" and g = "?x (?s 0)" and h = ?m] near
    by (simp add: gap_def)
qed

lemma gap_bound:
  assumes net: "netOk input (nodeIndexOf input) (outgoingOf input)"
  shows "gap input k \<le> (17 / 20) ^ k * (dust input + 17 / 20 * (2 * scaleR)) + 40 / 3 * dust input"
proof (induction k)
  case 0
  have "0 \<le> dust input" by (simp add: dust_def)
  then show ?case using gap_first [OF net] by simp
next
  case (Suc k)
  have "17 / 20 * gap input k \<le> 17 / 20 * ((17 / 20) ^ k * (dust input + 17 / 20 * (2 * scaleR)) + 40 / 3 * dust input)"
    using Suc by (intro mult_left_mono) simp_all
  moreover have "17 / 20 * (x * y + 40 / 3 * d) + 2 * d = 17 / 20 * x * y + 40 / 3 * d" for x y d :: real
    by (simp add: algebra_simps)
  ultimately show ?case using gap_step [OF net, of k] by simp
qed

section \<open>The residual\<close>

lemma residualOf_bounds:
  assumes s: "shaped (nodeCount input) (rootCount input) s" and s': "shaped (nodeCount input) (rootCount input) s'"
  shows "0 \<le> residualOf s s'"
    and "real_of_int (residualOf s s') \<le> (\<Sum>q \<in> inputCells input. \<bar>real_of_int (massAt s' q) - real_of_int (massAt s q)\<bar>)"
proof -
  let ?n = "nodeCount input" and ?m = "rootCount input"
  have r: "residualOf s s' = (\<Sum>u<?n. \<bar>(\<Sum>r<?m. s' ! u ! r) - (\<Sum>r<?m. s ! u ! r)\<bar>)"
    unfolding residualOf_def rowTotals_at [OF s] rowTotals_at [OF s']
    by (simp add: sum_list_sum_nth atLeast0LessThan) (rule sum.cong, auto)
  show "0 \<le> residualOf s s'" unfolding r by (rule sum_nonneg) simp
  have "real_of_int (residualOf s s') \<le> (\<Sum>u<?n. \<Sum>r<?m. \<bar>real_of_int (s' ! u ! r) - real_of_int (s ! u ! r)\<bar>)"
    unfolding r of_int_sum
  proof (rule sum_mono)
    fix u
    have "real_of_int \<bar>(\<Sum>r<?m. s' ! u ! r) - (\<Sum>r<?m. s ! u ! r)\<bar> = \<bar>\<Sum>r<?m. real_of_int (s' ! u ! r) - real_of_int (s ! u ! r)\<bar>"
      by (simp add: sum_subtractf)
    also have "\<dots> \<le> (\<Sum>r<?m. \<bar>real_of_int (s' ! u ! r) - real_of_int (s ! u ! r)\<bar>)" by (rule sum_abs)
    finally show "real_of_int \<bar>(\<Sum>r<?m. s' ! u ! r) - (\<Sum>r<?m. s ! u ! r)\<bar> \<le> (\<Sum>r<?m. \<bar>real_of_int (s' ! u ! r) - real_of_int (s ! u ! r)\<bar>)" .
  qed
  then show "real_of_int (residualOf s s') \<le> (\<Sum>q \<in> inputCells input. \<bar>real_of_int (massAt s' q) - real_of_int (massAt s q)\<bar>)"
    by (simp add: sum.cartesian_product case_prod_beta)
qed

lemma dust_small:
  assumes "rootCount input \<le> 16" and "nodeCount input \<le> 256"
  shows "dust input \<le> 1122320"
proof -
  have "real (nodeCount input * rootCount input) \<le> 4096"
    using mult_mono [OF assms(2,1)] by (simp flip: of_nat_mult)
  then have "real (nodeCount input * rootCount input) * (real (nodeCount input) + 2 + real (rootCount input)) \<le> 4096 * 274"
    using assms by (intro mult_mono) simp_all
  then show ?thesis using assms(1) by (simp add: dust_def)
qed

lemma residual_small:
  assumes v: "validReputation K input"
  shows "0 \<le> residualAfter input GRAPH_REPUTATION_ITERATIONS"
    and "residualAfter input GRAPH_REPUTATION_ITERATIONS \<le> GRAPH_REPUTATION_ERROR_BOUND"
proof -
  note net = valid_netOk(1) [OF v]
  have d: "dust input \<le> 1122320"
    using v by (intro dust_small) (simp_all add: validReputation_def GRAPH_REPUTATION_MAX_ROOTS_def GRAPH_REPUTATION_MAX_NODES_def)
  have sh: "shaped (nodeCount input) (rootCount input) (massAfter input k)" for k
    using massAfter_run [OF net, of k] by (simp add: stateOk_def)
  have r: "residualAfter input GRAPH_REPUTATION_ITERATIONS = residualOf (massAfter input 127) (massAfter input (Suc 127))"
    by (simp add: residualAfter_def GRAPH_REPUTATION_ITERATIONS_def)
  show "0 \<le> residualAfter input GRAPH_REPUTATION_ITERATIONS" unfolding r by (rule residualOf_bounds(1) [OF sh sh])
  have "real_of_int (residualAfter input GRAPH_REPUTATION_ITERATIONS) \<le> gap input 127"
    unfolding r gap_def by (rule residualOf_bounds(2) [OF sh sh])
  also have "\<dots> \<le> (17 / 20) ^ 127 * (dust input + 17 / 20 * (2 * scaleR)) + 40 / 3 * dust input" by (rule gap_bound [OF net])
  also have "\<dots> \<le> (17 / 20) ^ 127 * (1122320 + 17 / 20 * (2 * scaleR)) + 40 / 3 * 1122320"
    using d by (intro add_mono mult_left_mono) simp_all
  also have "\<dots> \<le> real_of_int GRAPH_REPUTATION_ERROR_BOUND"
    by (simp add: GRAPH_REPUTATION_SCALE_def GRAPH_REPUTATION_ERROR_BOUND_def power_divide)
  finally show "residualAfter input GRAPH_REPUTATION_ITERATIONS \<le> GRAPH_REPUTATION_ERROR_BOUND" by simp
qed

section \<open>The canonical input\<close>

lemma cmpReferral_key: "cmpReferral a b \<le> 0 \<longleftrightarrow>
    (geIssuerLineageId a, geSubjectLineageId a, geEndorsementId a) \<le> (geIssuerLineageId b, geSubjectLineageId b, geEndorsementId b)"
  by (auto simp: cmpReferral_def Let_def cmpLin_def less_eq_prod_def)

lemma sortBy_keyed_unique:
  assumes "\<And>x y. c x y \<le> 0 \<longleftrightarrow> (key x :: 'k::linorder) \<le> key y" and "inj_on key (set xs)" and "mset ys = mset xs"
  shows "sortBy c ys = sortBy c xs"
proof -
  have "keyed_comparator c key" by (rule keyed_comparator.intro) (rule assms(1))
  then show ?thesis using assms(2,3) by (rule keyed_comparator.sortBy_unique)
qed

definition sameInput :: "GraphReputationInput \<Rightarrow> GraphReputationInput \<Rightarrow> bool" where
  "sameInput a b \<longleftrightarrow> a = b\<lparr>giRoots := giRoots a, giNodes := giNodes a, giEdgeList := giEdgeList a\<rparr> \<and>
     mset (giRoots a) = mset (giRoots b) \<and> mset (giNodes a) = mset (giNodes b) \<and> mset (giEdgeList a) = mset (giEdgeList b)"

lemma sameInput_canonical: "sameInput (canonicalInput a) a"
  by (simp add: sameInput_def canonicalInput_def)

lemma sameInput_fields:
  assumes "sameInput a b"
  shows "giVersion a = giVersion b" "giChainId a = giChainId b" "giRegistry a = giRegistry b" "giScopeHash a = giScopeHash b"
    "giCutoffBlock a = giCutoffBlock b" "giFinalizedBlock a = giFinalizedBlock b" "giCutoffTimestamp a = giCutoffTimestamp b"
    "set (giRoots a) = set (giRoots b)" "set (giNodes a) = set (giNodes b)" "set (giEdgeList a) = set (giEdgeList b)"
    "rootCount a = rootCount b" "nodeCount a = nodeCount b" "length (giEdgeList a) = length (giEdgeList b)"
    "giRoots a = [] \<longleftrightarrow> giRoots b = []" "giNodes a = [] \<longleftrightarrow> giNodes b = []"
proof -
  have a: "a = b\<lparr>giRoots := giRoots a, giNodes := giNodes a, giEdgeList := giEdgeList a\<rparr>" and m: "mset (giRoots a) = mset (giRoots b)"
    "mset (giNodes a) = mset (giNodes b)" "mset (giEdgeList a) = mset (giEdgeList b)" using assms by (simp_all add: sameInput_def)
  show "giVersion a = giVersion b" "giChainId a = giChainId b" "giRegistry a = giRegistry b" "giScopeHash a = giScopeHash b"
    "giCutoffBlock a = giCutoffBlock b" "giFinalizedBlock a = giFinalizedBlock b" "giCutoffTimestamp a = giCutoffTimestamp b"
    by (subst a, simp)+
  show "set (giRoots a) = set (giRoots b)" "set (giNodes a) = set (giNodes b)" "set (giEdgeList a) = set (giEdgeList b)"
    using m mset_eq_setD by blast+
  show "rootCount a = rootCount b" "nodeCount a = nodeCount b" "length (giEdgeList a) = length (giEdgeList b)" using m mset_eq_length by blast+
  show "giRoots a = [] \<longleftrightarrow> giRoots b = []" "giNodes a = [] \<longleftrightarrow> giNodes b = []" using m by (metis mset_zero_iff)+
qed

lemma mset_distinct_map: "mset xs = mset ys \<Longrightarrow> distinct (map f xs) = distinct (map f ys)"
  by (metis mset_eq_imp_distinct_iff mset_map)

lemma mset_sumOf: "mset xs = mset ys \<Longrightarrow> sumOf f xs = sumOf f ys"
  by (metis mset_map sum_mset_sum_list)

lemma validReputation_same:
  assumes same: "sameInput a b"
  shows "validReputation K a \<longleftrightarrow> validReputation K b"
proof -
  note f = sameInput_fields [OF same]
  have m: "mset (giRoots a) = mset (giRoots b)" "mset (giNodes a) = mset (giNodes b)" "mset (giEdgeList a) = mset (giEdgeList b)"
    using same by (simp_all add: sameInput_def)
  note d = mset_distinct_map [OF m(1)] mset_distinct_map [OF m(2)] mset_distinct_map [OF m(3)]
  note s = mset_sumOf [OF m(1)]
  have i: "issuedBy x (giEdgeList a) = issuedBy x (giEdgeList b)" for x
  proof -
    have "mset (filter (\<lambda>e. geIssuerLineageId e = x) (giEdgeList a)) = mset (filter (\<lambda>e. geIssuerLineageId e = x) (giEdgeList b))"
      using m(3) by simp
    then show ?thesis unfolding issuedBy_def by (rule mset_sumOf)
  qed
  have n: "nodeOk K a = nodeOk K b" "rootOk a = rootOk b" "edgeOk K a = edgeOk K b"
    by (simp_all add: fun_eq_iff nodeOk_def rootOk_def edgeOk_def f)
  show ?thesis unfolding validReputation_def f d s i n ..
qed

lemma canonicalInput_unique:
  assumes v: "validReputation K b" and same: "sameInput a b"
  shows "canonicalInput a = canonicalInput b"
proof -
  have m: "mset (giRoots a) = mset (giRoots b)" "mset (giNodes a) = mset (giNodes b)" "mset (giEdgeList a) = mset (giEdgeList b)"
    and a: "a = b\<lparr>giRoots := giRoots a, giNodes := giNodes a, giEdgeList := giEdgeList a\<rparr>" using same by (simp_all add: sameInput_def)
  have "sortBy (\<lambda>l r. cmpLin (grLineageId l) (grLineageId r)) (giRoots a) = sortBy (\<lambda>l r. cmpLin (grLineageId l) (grLineageId r)) (giRoots b)"
    using v m(1) by (intro sortBy_keyed_unique [where key = grLineageId]) (simp_all add: validReputation_def distinct_map)
  moreover have "sortBy (\<lambda>l r. cmpLin (gnLineageId l) (gnLineageId r)) (giNodes a) = sortBy (\<lambda>l r. cmpLin (gnLineageId l) (gnLineageId r)) (giNodes b)"
    using v m(2) by (intro sortBy_keyed_unique [where key = gnLineageId]) (simp_all add: validReputation_def distinct_map)
  moreover have "sortBy cmpReferral (giEdgeList a) = sortBy cmpReferral (giEdgeList b)"
    using v m(3) cmpReferral_key
    by (intro sortBy_keyed_unique [where key = "\<lambda>e. (geIssuerLineageId e, geSubjectLineageId e, geEndorsementId e)"])
      (auto simp: validReputation_def distinct_map inj_on_def)
  ultimately show ?thesis by (subst a) (simp add: canonicalInput_def)
qed

lemma canonicalInput_idem: "validReputation K a \<Longrightarrow> canonicalInput (canonicalInput a) = canonicalInput a"
  using canonicalInput_unique [OF _ sameInput_canonical] .

end
