(* ===== verification/ReputationResult.thy ===== *)
theory ReputationResult
  imports ReputationBounds
begin

text \<open>
  The encodings of the graph reputation and its result: exactly when the program returns, and what.
\<close>

section \<open>The encodings\<close>

text \<open>
  The documented behaviour of \<open>viem\<close>: \<open>hexToBytes\<close> reads two digits per byte, so a word is 32 bytes and an address 20;
  a digest is a word.
\<close>

definition hexBytesLaw :: "viem \<Rightarrow> viem_checks \<Rightarrow> bool" where
  "hexBytesLaw V K \<longleftrightarrow> (\<forall>x. vcIsHex K x \<longrightarrow> length x = 66 \<longrightarrow> length (hexToBytes V x) = 32) \<and>
     (\<forall>x. vcIsAddress K x \<longrightarrow> length (hexToBytes V x) = 20) \<and>
     length (hexToBytes V ZERO_HASH) = 32 \<and> (\<forall>x. length (hexToBytes V (keccak256 V x)) = 32)"

definition fitsBytes :: "nat \<Rightarrow> int \<Rightarrow> bool" where
  "fitsBytes n v \<longleftrightarrow> 0 \<le> v \<and> v < 2 ^ (8 * n)"

lemma writeUint_ok: "(\<exists>b. writeUint v n = Inr b) \<longleftrightarrow> fitsBytes n v"
  by (auto simp: writeUint_def fitsBytes_def result_simps)

lemma writeHex_ok: "(\<exists>b. writeHex V x n = Inr b) \<longleftrightarrow> length (hexToBytes V x) = n"
  by (auto simp: writeHex_def Let_def result_simps)

lemma writeAscii_ok: "\<exists>b. writeAscii s = Inr b"
  by (simp add: writeAscii_def)

lemma writeParts_ok: "(\<exists>b. writeParts ps = Inr b) \<longleftrightarrow> (\<forall>p \<in> set ps. \<exists>b. p = Inr b)"
  using mapE_ok_iff [of id ps] by (auto simp: writeParts_def result_simps)

text \<open>The integers of an input fit their eight bytes.\<close>

definition fitsWords :: "GraphReputationInput \<Rightarrow> bool" where
  "fitsWords input \<longleftrightarrow> (\<forall>v \<in> {giChainId input, giCutoffBlock input, giFinalizedBlock input, giCutoffTimestamp input}. fitsBytes 8 v) \<and>
     (\<forall>n \<in> set (giNodes input). fitsBytes 8 (gnCreatedAt n) \<and> fitsBytes 8 (gnEpochAcceptedBlock n) \<and> fitsBytes 8 (gnEpochPublishedBlock n)) \<and>
     (\<forall>e \<in> set (giEdgeList input). fitsBytes 8 (geValidFrom e) \<and> fitsBytes 8 (geValidUntil e) \<and> fitsBytes 8 (geIssuedBlock e))"

lemma goodWord_bytes: "hexBytesLaw V K \<Longrightarrow> goodWord K x \<Longrightarrow> length (hexToBytes V x) = 32"
  by (simp add: hexBytesLaw_def goodWord_def)

lemma goodAddress_bytes: "hexBytesLaw V K \<Longrightarrow> goodAddress K x \<Longrightarrow> length (hexToBytes V x) = 20"
  by (simp add: hexBytesLaw_def goodAddress_def)

lemma fits_weight: "0 < w \<Longrightarrow> w \<le> GRAPH_REPUTATION_SCALE \<Longrightarrow> fitsBytes 8 w"
  by (simp add: fitsBytes_def GRAPH_REPUTATION_SCALE_def)

lemma encodeNode_ok:
  assumes "hexBytesLaw V K" and "nodeOk K input n"
  shows "(\<forall>p \<in> set (encodeNode V n). \<exists>b. p = Inr b) \<longleftrightarrow>
    fitsBytes 8 (gnCreatedAt n) \<and> fitsBytes 8 (gnEpochAcceptedBlock n) \<and> fitsBytes 8 (gnEpochPublishedBlock n)"
  using goodWord_bytes [OF assms(1)] goodAddress_bytes [OF assms(1)] assms(2)
  by (simp add: encodeNode_def writeHex_ok writeUint_ok nodeOk_def)

lemma valid_words:
  assumes v: "validReputation K input" and x: "x \<in> gnLineageId ` set (giNodes input) \<or> x \<in> gnConfigurationId ` set (giNodes input)"
  shows "goodWord K x"
  using v x by (auto simp: validReputation_def nodeOk_def)

lemma encodeEdge_ok:
  assumes V: "hexBytesLaw V K" and v: "validReputation K input" and e: "e \<in> set (giEdgeList input)"
  shows "(\<forall>p \<in> set (encodeEdge V e). \<exists>b. p = Inr b) \<longleftrightarrow>
    fitsBytes 8 (geValidFrom e) \<and> fitsBytes 8 (geValidUntil e) \<and> fitsBytes 8 (geIssuedBlock e)"
proof -
  have ok: "edgeOk K input e" using v e by (simp add: validReputation_def)
  then have "goodWord K (geIssuerLineageId e)" "goodWord K (geIssuerConfigurationId e)"
    "goodWord K (geSubjectLineageId e)" "goodWord K (geSubjectConfigurationId e)"
    using valid_words [OF v] by (force simp: edgeOk_def)+
  moreover have "goodWord K (geScopeHash e)" "goodWord K (geEndorsementId e)" using v ok by (simp_all add: validReputation_def edgeOk_def)
  moreover have "length (hexToBytes V (geEvidenceDigest e)) = 32" "length (hexToBytes V ZERO_HASH) = 32"
    using V ok by (simp_all add: edgeOk_def hexBytesLaw_def)
  moreover have "fitsBytes 8 (geWeight e)" "geRevokedAt e = None" "geSupersededBy e = None"
    using ok fits_weight by (simp_all add: edgeOk_def)
  moreover have "fitsBytes 8 0" by (simp add: fitsBytes_def)
  ultimately show ?thesis
    using goodWord_bytes [OF V] by (auto simp: encodeEdge_def writeHex_ok writeUint_ok orDefault_def)
qed

lemma encodeInput_ok:
  assumes V: "hexBytesLaw V K"
  shows "(\<exists>b. encodeGraphReputationInput V K raw = Inr b) \<longleftrightarrow> validReputation K raw \<and> fitsWords raw"
proof (cases "validReputation K raw")
  case False
  then show ?thesis
    using validReputation_same [OF sameInput_canonical] validateInput_iff [of K "canonicalInput raw"]
    by (auto simp: encodeGraphReputationInput_def Let_def result_simps)
next
  case True
  let ?i = "canonicalInput raw"
  have v: "validReputation K ?i" using True validReputation_same [OF sameInput_canonical] by blast
  have v1: "validateInput K ?i = Inr ()" using v by (simp add: validateInput_iff)
  note f = sameInput_fields [OF sameInput_canonical [of raw]]
  have nodes: "(\<forall>p \<in> set (concat (map (encodeNode V) (giNodes ?i))). \<exists>b. p = Inr b) \<longleftrightarrow>
      (\<forall>n \<in> set (giNodes raw). fitsBytes 8 (gnCreatedAt n) \<and> fitsBytes 8 (gnEpochAcceptedBlock n) \<and> fitsBytes 8 (gnEpochPublishedBlock n))"
  proof -
    have "(\<forall>p \<in> set (encodeNode V n). \<exists>b. p = Inr b) \<longleftrightarrow> fitsBytes 8 (gnCreatedAt n) \<and> fitsBytes 8 (gnEpochAcceptedBlock n) \<and> fitsBytes 8 (gnEpochPublishedBlock n)"
      if "n \<in> set (giNodes raw)" for n
      using encodeNode_ok [OF V, of ?i n] v that by (simp add: validReputation_def f)
    then show ?thesis by (auto simp: f)
  qed
  have edges: "(\<forall>p \<in> set (concat (map (encodeEdge V) (giEdgeList ?i))). \<exists>b. p = Inr b) \<longleftrightarrow>
      (\<forall>e \<in> set (giEdgeList raw). fitsBytes 8 (geValidFrom e) \<and> fitsBytes 8 (geValidUntil e) \<and> fitsBytes 8 (geIssuedBlock e))"
  proof -
    have "(\<forall>p \<in> set (encodeEdge V e). \<exists>b. p = Inr b) \<longleftrightarrow> fitsBytes 8 (geValidFrom e) \<and> fitsBytes 8 (geValidUntil e) \<and> fitsBytes 8 (geIssuedBlock e)"
      if "e \<in> set (giEdgeList raw)" for e
      using encodeEdge_ok [OF V v, of e] that by (simp add: f)
    then show ?thesis by (auto simp: f)
  qed
  have roots: "\<forall>p \<in> set (concat (map (encodeRoot V) (giRoots ?i))). \<exists>b. p = Inr b"
  proof -
    have "\<forall>p \<in> set (encodeRoot V r). \<exists>b. p = Inr b" if r: "r \<in> set (giRoots ?i)" for r
    proof -
      have "rootOk ?i r" using v r by (simp add: validReputation_def)
      then have "goodWord K (grLineageId r)" "fitsBytes 8 (grWeight r)"
        using valid_words [OF v] fits_weight by (auto simp: rootOk_def)
      then show ?thesis using goodWord_bytes [OF V] by (auto simp: encodeRoot_def writeHex_ok writeUint_ok)
    qed
    then show ?thesis by auto
  qed
  have "\<forall>p \<in> {writeAscii ''TGRP'', writeUint (giVersion ?i) 2, writeUint GRAPH_REPUTATION_SCALE 8,
          writeUint GRAPH_REPUTATION_LAMBDA 8, writeUint (int GRAPH_REPUTATION_ITERATIONS) 2,
          writeHex V (giRegistry ?i) 20, writeHex V (giScopeHash ?i) 32, writeUint (int (rootCount ?i)) 2,
          writeUint (int (nodeCount ?i)) 2, writeUint (int (length (giEdgeList ?i))) 4}. \<exists>b. p = Inr b"
    using v goodWord_bytes [OF V] goodAddress_bytes [OF V]
    by (simp add: writeAscii_ok writeHex_ok writeUint_ok fitsBytes_def validReputation_def GRAPH_REPUTATION_VERSION_def
        GRAPH_REPUTATION_SCALE_def GRAPH_REPUTATION_LAMBDA_def GRAPH_REPUTATION_ITERATIONS_def GRAPH_REPUTATION_MAX_ROOTS_def
        GRAPH_REPUTATION_MAX_NODES_def GRAPH_REPUTATION_MAX_EDGES_def)
  then show ?thesis using True v1 nodes edges roots
    by (simp add: encodeGraphReputationInput_def Let_def writeParts_ok ball_Un fitsWords_def f writeUint_ok conj_ac)
qed

section \<open>Families\<close>

definition familySum :: "(GraphReputationNode \<times> int) list \<Rightarrow> hex \<Rightarrow> int" where
  "familySum es f = sumOf snd (filter (\<lambda>e. gnFamilyId (fst e) = f) es)"

lemma families_fold: "jmapInv (foldl addFamily [] es) \<and> set (jkeys (foldl addFamily [] es)) = (\<lambda>e. gnFamilyId (fst e)) ` set es \<and>
    length (foldl addFamily [] es) \<le> length es \<and> sumOf snd (foldl addFamily [] es) = sumOf snd es \<and>
    (\<forall>f. orDefault (jget (foldl addFamily [] es) f) 0 = familySum es f)"
proof (induction es rule: rev_induct)
  case (snoc e es)
  define m where "m = foldl addFamily [] es"
  let ?f = "gnFamilyId (fst e)"
  have ih: "jmapInv m" "set (jkeys m) = (\<lambda>e. gnFamilyId (fst e)) ` set es" "length m \<le> length es" "sumOf snd m = sumOf snd es"
    "\<And>f. orDefault (jget m f) 0 = familySum es f" using snoc by (simp_all add: m_def)
  have m': "foldl addFamily [] (es @ [e]) = jset ?f (orDefault (jget m ?f) 0 + snd e) m"
    by (simp add: addFamily_def m_def case_prod_beta)
  have k: "jkeys (jset ?f v m) = (if ?f \<in> set (jkeys m) then jkeys m else jkeys m @ [?f])" for v by (rule keys_update)
  have len: "length (jset ?f v m) \<le> Suc (length m)" for v
    using arg_cong [OF k [of v], of length] by (simp split: if_splits)
  have total: "sumOf snd (jset ?f (orDefault (jget m ?f) 0 + snd e) m) = sumOf snd m + snd e"
  proof (cases "jget m ?f")
    case None
    then have "?f \<notin> set (jkeys m)" using jget_key by fastforce
    then show ?thesis using None by (simp add: jset_fresh orDefault_def)
  next
    case (Some v)
    then show ?thesis using sum_jset [OF Some, of "v + snd e"] by (simp add: orDefault_def)
  qed
  have "set (jkeys (jset ?f v m)) = insert ?f (set (jkeys m))" for v unfolding k by auto
  moreover have "orDefault (jget (jset ?f (orDefault (jget m ?f) 0 + snd e) m) x) 0 = familySum (es @ [e]) x" for x
    using ih(5) [of x] by (auto simp: jget_jset familySum_def orDefault_def)
  ultimately show ?case unfolding m' using ih len [of "orDefault (jget m ?f) 0 + snd e"] total by simp
qed (simp add: orDefault_def familySum_def jmapInv_def)

section \<open>Ranks\<close>

definition rankKey :: "GraphReputationInput \<Rightarrow> int list \<Rightarrow> nat \<Rightarrow> int \<times> hex" where
  "rankKey input nodeScores i = (- (nodeScores ! i), gnLineageId (giNodes input ! i))"

lemma cmpRank_key: "cmpRank input nodeScores i j \<le> 0 \<longleftrightarrow> rankKey input nodeScores i \<le> rankKey input nodeScores j"
  by (auto simp: cmpRank_def rankKey_def less_eq_prod_def)

definition rankMapOf :: "GraphReputationInput \<Rightarrow> int list \<Rightarrow> (nat, nat) jmap" where
  "rankMapOf input nodeScores =
     newMap (zip (sortBy (cmpRank input nodeScores) [0..<nodeCount input]) [1..<nodeCount input + 1])"

lemma rank_position:
  assumes d: "distinct (map gnLineageId (giNodes input))" and i: "i < nodeCount input"
  shows "\<exists>p < nodeCount input. sortBy (cmpRank input nodeScores) [0..<nodeCount input] ! p = i \<and>
    jget (rankMapOf input nodeScores) i = Some (p + 1)"
proof -
  let ?r = "sortBy (cmpRank input nodeScores) [0..<nodeCount input]"
  have "i \<in> set ?r" using i by simp
  then obtain p where p: "p < nodeCount input" "?r ! p = i" by (metis in_set_conv_nth length_sortBy length_upt diff_zero)
  have "newMap (zip ?r [1..<nodeCount input + 1]) = zip ?r [1..<nodeCount input + 1]" by (rule newMap_distinct) simp
  moreover have "map_of (zip ?r [1..<nodeCount input + 1]) (?r ! p) = Some ([1..<nodeCount input + 1] ! p)"
    using p(1) by (intro map_of_zip_nth) simp_all
  ultimately show ?thesis using p by (auto simp: rankMapOf_def nth_append)
qed

lemma rank_order:
  assumes d: "distinct (map gnLineageId (giNodes input))" and ij: "i < nodeCount input" "j < nodeCount input"
  shows "orDefault (jget (rankMapOf input nodeScores) i) 0 < orDefault (jget (rankMapOf input nodeScores) j) 0 \<longleftrightarrow>
    rankKey input nodeScores i < rankKey input nodeScores j"
proof -
  let ?r = "sortBy (cmpRank input nodeScores) [0..<nodeCount input]"
  obtain p q where p: "p < nodeCount input" "?r ! p = i" "jget (rankMapOf input nodeScores) i = Some (p + 1)"
    and q: "q < nodeCount input" "?r ! q = j" "jget (rankMapOf input nodeScores) j = Some (q + 1)"
    using rank_position [OF d ij(1)] rank_position [OF d ij(2)] by metis
  have srt: "sorted (map (rankKey input nodeScores) ?r)" by (rule sortBy_keyed) (rule cmpRank_key)
  have "inj_on (rankKey input nodeScores) (set [0..<nodeCount input])"
    unfolding inj_on_def rankKey_def using nth_eq_iff_index_eq [OF d] by auto
  then have "distinct (map (rankKey input nodeScores) ?r)" by (simp add: distinct_map)
  with srt have strict: "sorted_wrt (<) (map (rankKey input nodeScores) ?r)" by (simp add: strict_sorted_iff)
  have less: "rankKey input nodeScores (?r ! a) < rankKey input nodeScores (?r ! b)" if "a < b" "b < nodeCount input" for a b
    using sorted_wrt_nth_less [OF strict, of a b] that by simp
  show ?thesis using less [of p q] less [of q p] p q by (cases p q rule: linorder_cases) (auto simp: orDefault_def)
qed

section \<open>What a run returns\<close>

abbreviation finalMass :: "GraphReputationInput \<Rightarrow> mass" where
  "finalMass input \<equiv> massAfter input GRAPH_REPUTATION_ITERATIONS"

definition familyMassOf :: "GraphReputationInput \<Rightarrow> (hex, int) jmap" where
  "familyMassOf input = foldl addFamily [] (zip (giNodes input) (rowTotals (finalMass input)))"

definition scoresWith :: "GraphReputationInput \<Rightarrow> (hex, GraphReputationPath list) jmap \<Rightarrow> GraphReputationScore list" where
  "scoresWith input paths = map (scoreOf input (finalMass input) (rowTotals (finalMass input))
     (rankMapOf input (rowTotals (finalMass input))) (familyMassOf input) paths) [0..<nodeCount input]"

definition familiesOf :: "GraphReputationInput \<Rightarrow> (hex \<times> int) list" where
  "familiesOf input = sortBy (\<lambda>l r. cmpLin (fst l) (fst r)) (familyMassOf input)"

lemma strongestPaths_returns:
  assumes net: "netOk input (nodeIndexOf input) outgoing"
  shows "\<exists>paths. strongestPaths input outgoing (nodeIndexOf input) = Inr paths"
proof -
  have one: "\<exists>best. rootPaths outgoing (nodeIndexOf input) r = Inr best" if r: "r \<in> set (giRoots input)" for r
  proof -
    obtain i where "i < rootCount input" "giRoots input ! i = r" using r by (auto simp: in_set_conv_nth)
    then show ?thesis using netOk_root(1) [OF net, of i] by (simp add: rootPaths_def indexOf_def)
  qed
  have "\<exists>t. foldE (\<lambda>paths root. bindE (rootPaths outgoing (nodeIndexOf input) root) (\<lambda>best. Inr (foldl (addPath (giNodes input)) paths best))) p rs = Inr t"
    if "set rs \<subseteq> set (giRoots input)" for p rs
    using that
  proof (induction rs arbitrary: p)
    case (Cons r rs)
    then obtain best where "rootPaths outgoing (nodeIndexOf input) r = Inr best" using one [of r] by auto
    then show ?case using Cons by simp
  qed simp
  then show ?thesis by (simp add: strongestPaths_def)
qed

lemma final_totals:
  assumes v: "validReputation K input"
  shows "rowTotals (finalMass input) = map (\<lambda>u. \<Sum>r<rootCount input. finalMass input ! u ! r) [0..<nodeCount input]"
    and "sum_list (rowTotals (finalMass input)) = GRAPH_REPUTATION_SCALE"
    and "u < nodeCount input \<Longrightarrow> 0 \<le> rowTotals (finalMass input) ! u \<and> rowTotals (finalMass input) ! u \<le> GRAPH_REPUTATION_SCALE"
    and "u < nodeCount input \<Longrightarrow> r < rootCount input \<Longrightarrow> 0 \<le> finalMass input ! u ! r \<and> finalMass input ! u ! r \<le> GRAPH_REPUTATION_SCALE"
proof -
  have ok: "stateOk input (finalMass input)" using massAfter_run [OF valid_netOk(1) [OF v]] by blast
  then have sh: "shaped (nodeCount input) (rootCount input) (finalMass input)" by (simp add: stateOk_def)
  show rows: "rowTotals (finalMass input) = map (\<lambda>u. \<Sum>r<rootCount input. finalMass input ! u ! r) [0..<nodeCount input]" by (rule rowTotals_at [OF sh])
  show total: "sum_list (rowTotals (finalMass input)) = GRAPH_REPUTATION_SCALE" using total_at [OF sh] ok by (simp add: stateOk_def)
  have cell: "0 \<le> finalMass input ! u ! r" if "u < nodeCount input" "r < rootCount input" for u r
    using ok that by (auto simp: stateOk_def)
  have row: "0 \<le> rowTotals (finalMass input) ! u" if "u < nodeCount input" for u
    using that cell by (auto simp: rows intro!: sum_nonneg)
  have nn: "\<And>x. x \<in> set (rowTotals (finalMass input)) \<Longrightarrow> 0 \<le> id x" using row rows by (auto simp: cell intro!: sum_nonneg)
  show bound: "0 \<le> rowTotals (finalMass input) ! u \<and> rowTotals (finalMass input) ! u \<le> GRAPH_REPUTATION_SCALE" if "u < nodeCount input" for u
    using sumOf_member [of "rowTotals (finalMass input)" id "rowTotals (finalMass input) ! u", OF nn] total row [OF that] that
    by (simp add: rows)
  show "0 \<le> finalMass input ! u ! r \<and> finalMass input ! u ! r \<le> GRAPH_REPUTATION_SCALE" if "u < nodeCount input" "r < rootCount input" for u r
  proof -
    have "finalMass input ! u ! r \<le> (\<Sum>r<rootCount input. finalMass input ! u ! r)"
      using that cell by (intro member_le_sum) auto
    then show ?thesis using cell [OF that] bound [OF that(1)] that(1) by (simp add: rows)
  qed
qed

definition reputationOf :: "viem \<Rightarrow> GraphReputationInput \<Rightarrow> bytes \<Rightarrow> bytes \<Rightarrow> (hex, int) jmap \<Rightarrow>
   (hex, GraphReputationPath list) jmap \<Rightarrow> GraphReputationResult" where
  "reputationOf V input encoded bs spent paths =
     \<lparr>goInputCommitment = keccak256 V (bytesToHex V encoded), goResultCommitment = keccak256 V (bytesToHex V bs),
      goIterations = GRAPH_REPUTATION_ITERATIONS, goResidual = residualAfter input GRAPH_REPUTATION_ITERATIONS,
      goConverged = (residualAfter input GRAPH_REPUTATION_ITERATIONS \<le> GRAPH_REPUTATION_ERROR_BOUND),
      goScores = scoresWith input paths, goFamilies = familiesOf input,
      goMatrix = map (matrixRow spent) (zip (giNodes input) (outgoingOf input))\<rparr>"

lemma encodeResult_ok:
  assumes V: "hexBytesLaw V K" and v: "validReputation K input"
  shows "\<exists>b. encodeResult V (keccak256 V x) (residualAfter input GRAPH_REPUTATION_ITERATIONS) input (scoresWith input paths)
    (familiesOf input) = Inr b"
proof -
  let ?n = "nodeCount input" and ?rows = "rowTotals (finalMass input)"
  note t = final_totals [OF v]
  have n: "?n \<le> 256" "rootCount input \<le> 16" using v
    by (simp_all add: validReputation_def GRAPH_REPUTATION_MAX_ROOTS_def GRAPH_REPUTATION_MAX_NODES_def)
  have d: "distinct (map gnLineageId (giNodes input))" using v by (simp add: validReputation_def)
  have len: "length ?rows = ?n" by (simp add: t(1))
  have scale: "fitsBytes 8 x" if "0 \<le> x" "x \<le> GRAPH_REPUTATION_SCALE" for x
    using that by (simp add: fitsBytes_def GRAPH_REPUTATION_SCALE_def)
  note fam = families_fold [of "zip (giNodes input) ?rows", folded familyMassOf_def]
  have famle: "0 \<le> familySum (zip (giNodes input) ?rows) f \<and> familySum (zip (giNodes input) ?rows) f \<le> GRAPH_REPUTATION_SCALE" for f
  proof -
    have nn: "0 \<le> snd e" if e: "e \<in> set (zip (giNodes input) ?rows)" for e
      using e t(3) len by (auto simp: set_zip)
    have "0 \<le> sumOf snd (filter P es) \<and> sumOf snd (filter P es) \<le> sumOf snd es" if "\<forall>e \<in> set es. 0 \<le> snd e"
      for P and es :: "(GraphReputationNode \<times> int) list" using that by (induction es) auto
    then have "0 \<le> familySum (zip (giNodes input) ?rows) f \<and> familySum (zip (giNodes input) ?rows) f \<le> sumOf snd (zip (giNodes input) ?rows)"
      unfolding familySum_def using nn by blast
    then show ?thesis using t(2) len by simp
  qed
  have score: "\<forall>p \<in> set (encodeScore V s). \<exists>b. p = Inr b" if s: "s \<in> set (scoresWith input paths)" for s
  proof -
    obtain i where i: "i < ?n" and e: "s = scoreOf input (finalMass input) ?rows (rankMapOf input ?rows) (familyMassOf input) paths i"
      using s by (auto simp: scoresWith_def)
    have "nodeOk K input (giNodes input ! i)" using v i by (simp add: validReputation_def)
    then have "length (hexToBytes V (gnLineageId (giNodes input ! i))) = 32" "length (hexToBytes V (gnFamilyId (giNodes input ! i))) = 32"
      using goodWord_bytes [OF V] by (simp_all add: nodeOk_def)
    moreover have "fitsBytes 8 (?rows ! i)" using t(3) [OF i] scale by blast
    moreover have "fitsBytes 8 (orDefault (jget (familyMassOf input) f) 0)" for f using famle [of f] fam scale by auto
    moreover have "fitsBytes 4 (int (orDefault (jget (rankMapOf input ?rows) i) 0))"
    proof -
      obtain p where "p < ?n" "jget (rankMapOf input ?rows) i = Some (p + 1)" using rank_position [OF d i] by metis
      then show ?thesis using n(1) by (simp add: orDefault_def fitsBytes_def)
    qed
    moreover have "fitsBytes 8 (finalMass input ! i ! r)" if "r < rootCount input" for r using t(4) [OF i that] scale by blast
    then have "\<forall>p \<in> set (zip [0..<rootCount input] (giRoots input)). fitsBytes 8 (finalMass input ! i ! fst p)"
      by (auto dest!: set_zip_leftD)
    ultimately show ?thesis
      by (auto simp: encodeScore_def e scoreOf_def Let_def writeHex_ok writeUint_ok)
  qed
  have family: "length (hexToBytes V f) = 32 \<and> fitsBytes 8 m" if f: "(f, m) \<in> set (familiesOf input)" for f m
  proof -
    have fm: "(f, m) \<in> set (familyMassOf input)" using f by (simp add: familiesOf_def)
    then have "f \<in> set (jkeys (familyMassOf input))" by force
    then have "f \<in> (\<lambda>e. gnFamilyId (fst e)) ` set (zip (giNodes input) ?rows)" using fam by blast
    then obtain x where "x \<in> set (giNodes input)" "f = gnFamilyId x" by (auto dest: set_zip_leftD)
    then have "goodWord K f" using v by (auto simp: validReputation_def nodeOk_def)
    moreover have "jget (familyMassOf input) f = Some m" using fm fam by (simp add: jmapInv_def)
    then have "m = familySum (zip (giNodes input) ?rows) f" using fam by (metis orDefault_def option.simps(5))
    ultimately show ?thesis using goodWord_bytes [OF V] famle scale by blast
  qed
  have "length (familiesOf input) \<le> 256" using fam n(1) len by (simp add: familiesOf_def)
  moreover have "length (scoresWith input paths) = ?n" by (simp add: scoresWith_def)
  moreover have "fitsBytes 8 (residualAfter input GRAPH_REPUTATION_ITERATIONS)"
    using residual_small [OF v] by (simp add: fitsBytes_def GRAPH_REPUTATION_ERROR_BOUND_def)
  moreover have "length (hexToBytes V (keccak256 V x)) = 32" using V by (simp add: hexBytesLaw_def)
  ultimately show ?thesis
    using score family n
    by (auto simp: encodeResult_def writeParts_ok writeAscii_ok writeHex_ok writeUint_ok fitsBytes_def GRAPH_REPUTATION_VERSION_def
        GRAPH_REPUTATION_ITERATIONS_def)
qed

lemma fitsWords_same: "sameInput a b \<Longrightarrow> fitsWords a \<longleftrightarrow> fitsWords b"
  by (simp add: fitsWords_def sameInput_fields)

lemma network_run:
  assumes V: "hexBytesLaw V K" and v: "validReputation K raw" and fits: "fitsWords raw"
  shows "\<exists>encoded bs spent paths. encodeGraphReputationInput V K (canonicalInput raw) = Inr encoded \<and>
    strongestPaths (canonicalInput raw) (outgoingOf (canonicalInput raw)) (nodeIndexOf (canonicalInput raw)) = Inr paths \<and>
    (\<forall>x. orDefault (jget spent x) 0 = issuedBy x (giEdgeList raw)) \<and>
    computeGraphReputation V K raw = Inr (reputationOf V (canonicalInput raw) encoded bs spent paths)"
proof -
  let ?i = "canonicalInput raw"
  note same = sameInput_canonical [of raw]
  have vi: "validReputation K ?i" using v validReputation_same [OF same] by blast
  note net = valid_netOk(1) [OF vi]
  obtain encoded where e: "encodeGraphReputationInput V K ?i = Inr encoded"
    using encodeInput_ok [OF V] vi fits fitsWords_same [OF same] by blast
  obtain spent where s: "foldE (addEdge (nodeIndexOf ?i)) (replicate (nodeCount ?i) [], []) (giEdgeList ?i) = Inr (outgoingOf ?i, spent)"
    "\<forall>x. orDefault (jget spent x) 0 = issuedBy x (giEdgeList ?i)" using valid_netOk(2) [OF vi] by blast
  obtain paths where p: "strongestPaths ?i (outgoingOf ?i) (nodeIndexOf ?i) = Inr paths" using strongestPaths_returns [OF net] by blast
  obtain bs where b: "encodeResult V (keccak256 V (bytesToHex V encoded)) (residualAfter ?i GRAPH_REPUTATION_ITERATIONS) ?i
      (scoresWith ?i paths) (familiesOf ?i) = Inr bs" using encodeResult_ok [OF V vi] by blast
  have c: "computeGraphReputation V K raw = Inr (reputationOf V ?i encoded bs spent paths)"
    unfolding computeGraphReputation_def Let_def
    using e s(1) finalState_run [OF net] final_totals(2) [OF vi] p b
    by (simp add: refuseInput_def reputationOf_def scoresWith_def familiesOf_def familyMassOf_def rankMapOf_def)
  have "issuedBy x (giEdgeList ?i) = issuedBy x (giEdgeList raw)" for x
  proof -
    have "mset (giEdgeList ?i) = mset (giEdgeList raw)" using same by (simp add: sameInput_def)
    then have "mset (filter (\<lambda>e. geIssuerLineageId e = x) (giEdgeList ?i)) = mset (filter (\<lambda>e. geIssuerLineageId e = x) (giEdgeList raw))" by simp
    then show ?thesis unfolding issuedBy_def by (rule mset_sumOf)
  qed
  then show ?thesis using e p s(2) c by auto
qed

lemma reputation_Inr_valid:
  assumes V: "hexBytesLaw V K" and r: "computeGraphReputation V K raw = Inr r"
  shows "validReputation K raw \<and> fitsWords raw"
proof -
  from r obtain encoded where "encodeGraphReputationInput V K (canonicalInput raw) = Inr encoded"
    by (auto simp: computeGraphReputation_def Let_def)
  then have "validReputation K (canonicalInput raw) \<and> fitsWords (canonicalInput raw)" using encodeInput_ok [OF V] by blast
  then show ?thesis using validReputation_same [OF sameInput_canonical] fitsWords_same [OF sameInput_canonical] by blast
qed

lemma reputation_returns_iff:
  "hexBytesLaw V K \<Longrightarrow> (\<exists>r. computeGraphReputation V K raw = Inr r) \<longleftrightarrow> validReputation K raw \<and> fitsWords raw"
  using network_run reputation_Inr_valid by metis

lemma reputation_Inr:
  assumes V: "hexBytesLaw V K" and r: "computeGraphReputation V K raw = Inr r"
  obtains encoded bs spent paths where "validReputation K (canonicalInput raw)"
    and "encodeGraphReputationInput V K (canonicalInput raw) = Inr encoded"
    and "strongestPaths (canonicalInput raw) (outgoingOf (canonicalInput raw)) (nodeIndexOf (canonicalInput raw)) = Inr paths"
    and "\<forall>x. orDefault (jget spent x) 0 = issuedBy x (giEdgeList raw)"
    and "r = reputationOf V (canonicalInput raw) encoded bs spent paths"
proof -
  have v: "validReputation K raw" "fitsWords raw" using reputation_Inr_valid [OF V r] by auto
  then have "validReputation K (canonicalInput raw)" using validReputation_same [OF sameInput_canonical] by blast
  moreover obtain encoded bs spent paths where "encodeGraphReputationInput V K (canonicalInput raw) = Inr encoded"
    "strongestPaths (canonicalInput raw) (outgoingOf (canonicalInput raw)) (nodeIndexOf (canonicalInput raw)) = Inr paths"
    "\<forall>x. orDefault (jget spent x) 0 = issuedBy x (giEdgeList raw)"
    "computeGraphReputation V K raw = Inr (reputationOf V (canonicalInput raw) encoded bs spent paths)"
    using network_run [OF V v] by blast
  ultimately show thesis using that r by simp
qed

end
