(* ===== verification/ReputationPaths.thy ===== *)
theory ReputationPaths
  imports ReputationResult
begin

text \<open>
  The strongest paths: after \<open>k\<close> passes the table of a root holds, for every account that a chain of at most \<open>k\<close>
  referrals reaches, a chain at least as strong, and only chains.
\<close>

section \<open>Chains of referrals\<close>

fun walk :: "GraphReputationInput \<Rightarrow> hex \<Rightarrow> GraphReputationEdge list \<Rightarrow> hex \<Rightarrow> bool" where
  "walk input x [] y \<longleftrightarrow> x = y"
| "walk input x (e # es) y \<longleftrightarrow> e \<in> set (giEdgeList input) \<and> geIssuerLineageId e = x \<and> walk input (geSubjectLineageId e) es y"

definition walkStrength :: "int \<Rightarrow> GraphReputationEdge list \<Rightarrow> int" where
  "walkStrength w es = foldl (\<lambda>s e. s * geWeight e div GRAPH_REPUTATION_SCALE) w es"

lemma walk_append: "walk input x (es @ fs) y \<longleftrightarrow> (\<exists>z. walk input x es z \<and> walk input z fs y)"
  by (induction es arbitrary: x) auto

lemma walkStrength_snoc: "walkStrength w (es @ [e]) = walkStrength w es * geWeight e div GRAPH_REPUTATION_SCALE"
  by (simp add: walkStrength_def)

lemma walkStrength_append: "walkStrength w (es @ fs) = walkStrength (walkStrength w es) fs"
  by (simp add: walkStrength_def)

lemma strength_step:
  assumes "0 \<le> a" and "a \<le> b" and "0 < w" and "w \<le> GRAPH_REPUTATION_SCALE"
  shows "0 \<le> a * w div GRAPH_REPUTATION_SCALE" and "a * w div GRAPH_REPUTATION_SCALE \<le> b * w div GRAPH_REPUTATION_SCALE"
    and "a * w div GRAPH_REPUTATION_SCALE \<le> a"
proof -
  have S: "0 < GRAPH_REPUTATION_SCALE" by (simp add: GRAPH_REPUTATION_SCALE_def)
  show "0 \<le> a * w div GRAPH_REPUTATION_SCALE" "a * w div GRAPH_REPUTATION_SCALE \<le> a"
    using div_mult_bound [OF S assms(1), of w] assms(3,4) by auto
  show "a * w div GRAPH_REPUTATION_SCALE \<le> b * w div GRAPH_REPUTATION_SCALE"
    using S assms by (intro zdiv_mono1 mult_right_mono) simp_all
qed

definition fairEdges :: "GraphReputationInput \<Rightarrow> bool" where
  "fairEdges input \<longleftrightarrow> (\<forall>e \<in> set (giEdgeList input). 0 < geWeight e \<and> geWeight e \<le> GRAPH_REPUTATION_SCALE)"

lemma walk_edges: "walk input x es y \<Longrightarrow> set es \<subseteq> set (giEdgeList input)"
  by (induction es arbitrary: x) auto

lemma walkStrength_decreasing:
  assumes "fairEdges input" and "set es \<subseteq> set (giEdgeList input)" and "0 \<le> w"
  shows "0 \<le> walkStrength w es \<and> walkStrength w es \<le> w"
  using assms(2)
proof (induction es rule: rev_induct)
  case (snoc e es)
  then show ?case using strength_step [of "walkStrength w es" _ "geWeight e"] assms(1)
    by (fastforce simp: walkStrength_snoc fairEdges_def)
qed (use assms(3) in \<open>simp add: walkStrength_def\<close>)

section \<open>Sound tables of paths\<close>

abbreviation nodeId :: "GraphReputationInput \<Rightarrow> nat \<Rightarrow> hex" where
  "nodeId input u \<equiv> gnLineageId (giNodes input ! u)"

definition pathOk :: "GraphReputationInput \<Rightarrow> GraphReputationRoot \<Rightarrow> nat \<Rightarrow> nat \<Rightarrow> GraphReputationPath \<Rightarrow> bool" where
  "pathOk input r k u p \<longleftrightarrow> u < nodeCount input \<and> gpRootLineageId p = grLineageId r \<and>
     (\<exists>es. walk input (grLineageId r) es (nodeId input u) \<and> gpEndorsementIds p = map geEndorsementId es \<and>
       gpLineageIds p = grLineageId r # map geSubjectLineageId es \<and> distinct (gpLineageIds p) \<and>
       gpStrength p = walkStrength (grWeight r) es \<and> length es \<le> k)"

definition dominates :: "(nat, GraphReputationPath) jmap \<Rightarrow> nat \<Rightarrow> int \<Rightarrow> bool" where
  "dominates best v x \<longleftrightarrow> (\<exists>q. jget best v = Some q \<and> x \<le> gpStrength q)"

definition grows :: "GraphReputationInput \<Rightarrow> GraphReputationRoot \<Rightarrow> nat \<Rightarrow> (nat, GraphReputationPath) jmap \<Rightarrow>
   (nat, GraphReputationPath) jmap \<Rightarrow> bool" where
  "grows input r k best best' \<longleftrightarrow> (\<forall>v x. dominates best v x \<longrightarrow> dominates best' v x) \<and>
     (\<forall>v q. jget best' v = Some q \<longrightarrow> jget best v = Some q \<or> (pathOk input r (Suc k) v q \<and> length (gpEndorsementIds q) = Suc k)) \<and>
     (jmapInv best \<longrightarrow> jmapInv best')"

lemma grows_refl [simp]: "grows input r k best best"
  by (simp add: grows_def)

lemma grows_trans: "grows input r k a b \<Longrightarrow> grows input r k b c \<Longrightarrow> grows input r k a c"
  unfolding grows_def by metis

lemma grows_dominates: "grows input r k a b \<Longrightarrow> dominates a v x \<Longrightarrow> dominates b v x"
  by (simp add: grows_def)

text \<open>The rows a table is relaxed over hold the referrals of their node.\<close>

definition rowsOf :: "GraphReputationInput \<Rightarrow> out_edge list list \<Rightarrow> bool" where
  "rowsOf input outgoing \<longleftrightarrow> fairEdges input \<and> distinct (map gnLineageId (giNodes input)) \<and>
     (\<forall>u < nodeCount input. \<forall>oe \<in> set (outgoing ! u). fst oe \<in> set (giEdgeList input) \<and> geIssuerLineageId (fst oe) = nodeId input u \<and>
        snd oe < nodeCount input \<and> geSubjectLineageId (fst oe) = nodeId input (snd oe)) \<and>
     (\<forall>e \<in> set (giEdgeList input). \<forall>u < nodeCount input. nodeId input u = geIssuerLineageId e \<longrightarrow> e \<in> fst ` set (outgoing ! u)) \<and>
     (\<forall>e \<in> set (giEdgeList input). \<exists>u < nodeCount input. nodeId input u = geIssuerLineageId e)"

lemma rowsOf_edge:
  assumes "rowsOf input outgoing" and "u < nodeCount input" and "oe \<in> set (outgoing ! u)"
  shows "fst oe \<in> set (giEdgeList input) \<and> geIssuerLineageId (fst oe) = nodeId input u \<and> snd oe < nodeCount input \<and>
    geSubjectLineageId (fst oe) = nodeId input (snd oe)"
  using assms unfolding rowsOf_def by blast

lemma extendPath_ok:
  assumes rows: "rowsOf input outgoing" and p: "pathOk input r k u p" and len: "length (gpEndorsementIds p) = k"
    and oe: "(e, t) \<in> set (outgoing ! u)" and new: "geSubjectLineageId e \<notin> set (gpLineageIds p)"
  shows "pathOk input r (Suc k) t (extendPath p e) \<and> length (gpEndorsementIds (extendPath p e)) = Suc k"
proof -
  from p obtain es where u: "u < nodeCount input" and es: "walk input (grLineageId r) es (nodeId input u)" "gpEndorsementIds p = map geEndorsementId es"
    "gpLineageIds p = grLineageId r # map geSubjectLineageId es" "distinct (gpLineageIds p)" "gpStrength p = walkStrength (grWeight r) es"
    "length es \<le> k" and root: "gpRootLineageId p = grLineageId r" unfolding pathOk_def by blast
  have e: "e \<in> set (giEdgeList input)" "geIssuerLineageId e = nodeId input u" "t < nodeCount input" "geSubjectLineageId e = nodeId input t"
    using rowsOf_edge [OF rows u oe] by simp_all
  have "walk input (grLineageId r) (es @ [e]) (nodeId input t)" using es(1) e by (simp add: walk_append)
  moreover have "gpEndorsementIds (extendPath p e) = map geEndorsementId (es @ [e])" "gpLineageIds (extendPath p e) = grLineageId r # map geSubjectLineageId (es @ [e])"
    "gpStrength (extendPath p e) = walkStrength (grWeight r) (es @ [e])" "gpRootLineageId (extendPath p e) = grLineageId r"
    using es root by (simp_all add: extendPath_def walkStrength_snoc)
  moreover have "distinct (gpLineageIds (extendPath p e))" using es(4) new by (simp add: extendPath_def)
  moreover have "length (es @ [e]) \<le> Suc k" using es(6) by simp
  ultimately have "pathOk input r (Suc k) t (extendPath p e)" unfolding pathOk_def using e(3) by blast
  then show ?thesis using len by (simp add: extendPath_def)
qed

lemma relaxEdge_grows:
  assumes rows: "rowsOf input outgoing" and p: "pathOk input r k u p" and len: "length (gpEndorsementIds p) = k"
    and oe: "oe \<in> set (outgoing ! u)" and run: "relaxEdge p (best, changed) oe = (best', changed')"
  shows "grows input r k best best'"
    and "geSubjectLineageId (fst oe) \<notin> set (gpLineageIds p) \<Longrightarrow> dominates best' (snd oe) (gpStrength (extendPath p (fst oe)))"
    and "\<not> changed' \<Longrightarrow> best' = best \<and> \<not> changed"
proof -
  obtain e t where e: "oe = (e, t)" by (cases oe)
  consider (seen) "geSubjectLineageId e \<in> set (gpLineageIds p)" "best' = best" "changed' = changed"
    | (better) "geSubjectLineageId e \<notin> set (gpLineageIds p)" "betterPath (extendPath p e) (jget best t)"
        "best' = jset t (extendPath p e) best" "changed'"
    | (worse) "geSubjectLineageId e \<notin> set (gpLineageIds p)" "\<not> betterPath (extendPath p e) (jget best t)" "best' = best" "changed' = changed"
    using run e by (auto simp: relaxEdge_def split: if_splits)
  then have "grows input r k best best' \<and>
    (geSubjectLineageId (fst oe) \<notin> set (gpLineageIds p) \<longrightarrow> dominates best' (snd oe) (gpStrength (extendPath p (fst oe)))) \<and>
    (\<not> changed' \<longrightarrow> best' = best \<and> \<not> changed)"
  proof cases
    case better
    have ok: "pathOk input r (Suc k) t (extendPath p e) \<and> length (gpEndorsementIds (extendPath p e)) = Suc k"
      by (rule extendPath_ok [OF rows p len _ better(1)]) (use oe e in simp)
    have "dominates best' v x" if "dominates best v x" for v x
      using that better(2) by (auto simp: dominates_def better(3) jget_jset betterPath_def split: option.splits)
    then have "grows input r k best best'" using ok by (auto simp: grows_def better(3) jget_jset)
    then show ?thesis using better(3,4) by (simp add: e dominates_def jget_jset)
  next
    case worse
    then show ?thesis by (auto simp: e dominates_def betterPath_def split: option.splits)
  qed (simp_all add: e)
  then show "grows input r k best best'"
    "geSubjectLineageId (fst oe) \<notin> set (gpLineageIds p) \<Longrightarrow> dominates best' (snd oe) (gpStrength (extendPath p (fst oe)))"
    "\<not> changed' \<Longrightarrow> best' = best \<and> \<not> changed" by blast+
qed

lemma relaxRow_grows:
  assumes rows: "rowsOf input outgoing" and p: "pathOk input r k u p" and len: "length (gpEndorsementIds p) = k"
  shows "set row \<subseteq> set (outgoing ! u) \<Longrightarrow> foldl (relaxEdge p) (best, changed) row = (best', changed') \<Longrightarrow>
    grows input r k best best' \<and> (\<not> changed' \<longrightarrow> best' = best \<and> \<not> changed) \<and>
    (\<forall>oe \<in> set row. geSubjectLineageId (fst oe) \<notin> set (gpLineageIds p) \<longrightarrow> dominates best' (snd oe) (gpStrength (extendPath p (fst oe))))"
proof (induction row arbitrary: best changed)
  case (Cons oe row)
  obtain best1 changed1 where one: "relaxEdge p (best, changed) oe = (best1, changed1)" by fastforce
  note f = relaxEdge_grows [OF rows p len _ one]
  have "foldl (relaxEdge p) (best1, changed1) row = (best', changed')" using Cons.prems(2) one by simp
  from Cons.IH [OF _ this] Cons.prems(1) f show ?case
    by (auto intro: grows_trans grows_dominates)
qed simp

section \<open>One pass\<close>

definition soundTable :: "GraphReputationInput \<Rightarrow> GraphReputationRoot \<Rightarrow> nat \<Rightarrow> (nat, GraphReputationPath) jmap \<Rightarrow> bool" where
  "soundTable input r k best \<longleftrightarrow> jmapInv best \<and> (\<forall>v p. jget best v = Some p \<longrightarrow> pathOk input r k v p)"

text \<open>The paths of length \<open>k\<close> in the table \<open>old\<close> are passExtends in \<open>best\<close>.\<close>

definition passExtends :: "out_edge list list \<Rightarrow> (nat \<times> GraphReputationPath) list \<Rightarrow> nat \<Rightarrow> (nat, GraphReputationPath) jmap \<Rightarrow> bool" where
  "passExtends outgoing old k best \<longleftrightarrow> (\<forall>(u, p) \<in> set old. length (gpEndorsementIds p) = k \<longrightarrow>
     (\<forall>oe \<in> set (outgoing ! u). geSubjectLineageId (fst oe) \<notin> set (gpLineageIds p) \<longrightarrow>
        dominates best (snd oe) (gpStrength (extendPath p (fst oe)))))"

lemma pathOk_mono: "pathOk input r k u p \<Longrightarrow> k \<le> k' \<Longrightarrow> pathOk input r k' u p"
  unfolding pathOk_def by (blast intro: order_trans)

lemma relaxFrom_fold:
  assumes rows: "rowsOf input outgoing"
  shows "\<forall>(u, p) \<in> set old. pathOk input r k u p \<Longrightarrow> foldl (relaxFrom outgoing k) (best, changed) old = (best', changed') \<Longrightarrow>
    grows input r k best best' \<and> (\<not> changed' \<longrightarrow> best' = best \<and> \<not> changed) \<and> passExtends outgoing old k best'"
proof (induction old arbitrary: best changed)
  case Nil
  then show ?case by (simp add: passExtends_def)
next
  case (Cons entry old)
  obtain u p where entry: "entry = (u, p)" by (cases entry)
  obtain best1 changed1 where one: "relaxFrom outgoing k (best, changed) entry = (best1, changed1)" by fastforce
  have two: "foldl (relaxFrom outgoing k) (best1, changed1) old = (best', changed')" using Cons.prems(2) one by simp
  have ih: "grows input r k best1 best' \<and> (\<not> changed' \<longrightarrow> best' = best1 \<and> \<not> changed1) \<and> passExtends outgoing old k best'"
    using Cons.IH [OF _ two] Cons.prems(1) by simp
  have p: "pathOk input r k u p" using Cons.prems(1) entry by simp
  show ?case
  proof (cases "length (gpEndorsementIds p) = k")
    case True
    then have "foldl (relaxEdge p) (best, changed) (outgoing ! u) = (best1, changed1)" using one by (simp add: relaxFrom_def entry)
    note f = relaxRow_grows [OF rows p True order_refl this]
    have "grows input r k best best'" using f ih grows_trans by blast
    moreover have "\<forall>oe \<in> set (outgoing ! u). geSubjectLineageId (fst oe) \<notin> set (gpLineageIds p) \<longrightarrow>
        dominates best' (snd oe) (gpStrength (extendPath p (fst oe)))"
      using f ih grows_dominates by blast
    ultimately show ?thesis using f ih by (auto simp: passExtends_def entry)
  next
    case False
    then have "best1 = best" "changed1 = changed" using one by (simp_all add: relaxFrom_def entry)
    then show ?thesis using ih False by (auto simp: passExtends_def entry)
  qed
qed

lemma relaxPass_facts:
  assumes rows: "rowsOf input outgoing" and sound: "soundTable input r k best" and run: "relaxPass outgoing k best = (best', changed)"
  shows "soundTable input r (Suc k) best'" and "grows input r k best best'" and "passExtends outgoing best k best'" and "\<not> changed \<Longrightarrow> best' = best"
proof -
  have "jget best u = Some p" if "(u, p) \<in> set best" for u p using that sound by (simp add: soundTable_def jmapInv_def)
  then have "\<forall>(u, p) \<in> set best. pathOk input r k u p" using sound by (auto simp: soundTable_def)
  from relaxFrom_fold [OF rows this run [unfolded relaxPass_def]]
  have g: "grows input r k best best'" and x: "passExtends outgoing best k best'" and c: "\<not> changed \<longrightarrow> best' = best" by blast+
  show "grows input r k best best'" by (rule g)
  show "passExtends outgoing best k best'" by (rule x)
  show "\<not> changed \<Longrightarrow> best' = best" using c by blast
  show "soundTable input r (Suc k) best'" using g sound pathOk_mono [of input r k _ _ "Suc k"]
    unfolding soundTable_def grows_def by (metis le_add2 plus_1_eq_Suc)
qed

section \<open>The tables dominate every chain\<close>

text \<open>The paths shorter than \<open>k\<close> have been passExtends.\<close>

definition closedBelow :: "out_edge list list \<Rightarrow> nat \<Rightarrow> (nat, GraphReputationPath) jmap \<Rightarrow> bool" where
  "closedBelow outgoing k best \<longleftrightarrow> (\<forall>u p. jget best u = Some p \<longrightarrow> length (gpEndorsementIds p) < k \<longrightarrow>
     (\<forall>oe \<in> set (outgoing ! u). dominates best (snd oe) (gpStrength (extendPath p (fst oe)))))"

definition covers :: "GraphReputationInput \<Rightarrow> GraphReputationRoot \<Rightarrow> nat \<Rightarrow> (nat, GraphReputationPath) jmap \<Rightarrow> bool" where
  "covers input r k best \<longleftrightarrow> (\<forall>v es. v < nodeCount input \<longrightarrow> walk input (grLineageId r) es (nodeId input v) \<longrightarrow> length es \<le> k \<longrightarrow>
     dominates best v (walkStrength (grWeight r) es))"

lemma dominates_mono: "dominates best v x \<Longrightarrow> y \<le> x \<Longrightarrow> dominates best v y"
  unfolding dominates_def by (blast intro: order_trans)

text \<open>A subject the path already visits is dominated by the prefix of the path that ends there.\<close>

lemma visited_dominated:
  assumes rows: "rowsOf input outgoing" and cov: "covers input r k best" and p: "pathOk input r k u p"
    and oe: "oe \<in> set (outgoing ! u)" and seen: "geSubjectLineageId (fst oe) \<in> set (gpLineageIds p)" and w: "0 \<le> grWeight r"
  shows "dominates best (snd oe) (gpStrength (extendPath p (fst oe)))"
proof -
  from p obtain es where u: "u < nodeCount input" and es: "walk input (grLineageId r) es (nodeId input u)"
    "gpLineageIds p = grLineageId r # map geSubjectLineageId es" "gpStrength p = walkStrength (grWeight r) es" "length es \<le> k"
    unfolding pathOk_def by blast
  note e = rowsOf_edge [OF rows u oe]
  have fair: "fairEdges input" using rows by (simp add: rowsOf_def)
  obtain fs gs where fg: "es = fs @ gs" "walk input (grLineageId r) fs (geSubjectLineageId (fst oe))"
  proof (cases "geSubjectLineageId (fst oe) = grLineageId r")
    case True
    then show ?thesis using that [of "[]" es] by simp
  next
    case False
    then have "geSubjectLineageId (fst oe) \<in> geSubjectLineageId ` set es" using seen es(2) by auto
    then obtain d where "d \<in> set es" and d: "geSubjectLineageId (fst oe) = geSubjectLineageId d" by auto
    then obtain as bs where ab: "es = as @ d # bs" by (meson split_list)
    then have "walk input (grLineageId r) (as @ [d]) (geSubjectLineageId d)" using es(1) by (auto simp: walk_append)
    then show ?thesis using that [of "as @ [d]" bs] ab d by simp
  qed
  have edges: "set fs \<subseteq> set (giEdgeList input)" "set gs \<subseteq> set (giEdgeList input)" using walk_edges [OF es(1)] fg(1) by auto
  have "0 \<le> walkStrength (grWeight r) fs" using walkStrength_decreasing [OF fair edges(1) w] by simp
  then have "walkStrength (grWeight r) es \<le> walkStrength (grWeight r) fs" "0 \<le> walkStrength (grWeight r) es"
    using walkStrength_decreasing [OF fair edges(2)] fg(1) by (simp_all add: walkStrength_append)
  moreover have "gpStrength (extendPath p (fst oe)) \<le> gpStrength p"
    using strength_step(3) [of "gpStrength p" "gpStrength p" "geWeight (fst oe)"] calculation(2) fair e es(3)
    by (simp add: extendPath_def fairEdges_def)
  moreover have "dominates best (snd oe) (walkStrength (grWeight r) fs)"
    using cov fg e es(4) unfolding covers_def by simp
  ultimately show ?thesis using es(3) by (auto intro: dominates_mono)
qed

text \<open>Tables that cover the chains of \<open>k\<close> steps and extend all their paths cover those of \<open>k + 1\<close>.\<close>

lemma covers_step:
  assumes rows: "rowsOf input outgoing" and cov: "covers input r k best" and w: "0 \<le> grWeight r"
    and mono: "\<And>v x. dominates best v x \<Longrightarrow> dominates best' v x"
    and ext: "\<And>u p oe. jget best u = Some p \<Longrightarrow> u < nodeCount input \<Longrightarrow> oe \<in> set (outgoing ! u) \<Longrightarrow>
      dominates best' (snd oe) (gpStrength (extendPath p (fst oe)))"
  shows "covers input r (Suc k) best'"
  unfolding covers_def
proof (intro allI impI)
  fix v es assume v: "v < nodeCount input" and es: "walk input (grLineageId r) es (nodeId input v)" "length es \<le> Suc k"
  show "dominates best' v (walkStrength (grWeight r) es)"
  proof (cases "length es \<le> k")
    case True
    then show ?thesis using cov v es(1) mono unfolding covers_def by blast
  next
    case False
    then obtain fs e where fe: "es = fs @ [e]" by (metis list.size(3) rev_exhaust zero_le)
    then have k: "length fs \<le> k" using es(2) by simp
    have e: "e \<in> set (giEdgeList input)" "walk input (grLineageId r) fs (geIssuerLineageId e)" "geSubjectLineageId e = nodeId input v"
      using es(1) fe by (auto simp: walk_append)
    obtain u where u: "u < nodeCount input" "nodeId input u = geIssuerLineageId e" using rows e(1) unfolding rowsOf_def by blast
    have "e \<in> fst ` set (outgoing ! u)" using rows e(1) u unfolding rowsOf_def by blast
    then obtain t where t: "(e, t) \<in> set (outgoing ! u)" by auto
    have tv: "t = v"
    proof -
      have "t < nodeCount input" "nodeId input t = nodeId input v" using rowsOf_edge [OF rows u(1) t] e(3) by simp_all
      then show ?thesis using rows v nth_eq_iff_index_eq [of "map gnLineageId (giNodes input)" t v] by (simp add: rowsOf_def)
    qed
    obtain p where p: "jget best u = Some p" "walkStrength (grWeight r) fs \<le> gpStrength p"
    proof -
      have "dominates best u (walkStrength (grWeight r) fs)" using cov u e(2) k unfolding covers_def by simp
      then show ?thesis using that unfolding dominates_def by blast
    qed
    have fair: "fairEdges input" using rows by (simp add: rowsOf_def)
    have "0 \<le> walkStrength (grWeight r) fs" using walkStrength_decreasing [OF fair walk_edges [OF e(2)] w] by simp
    then have "walkStrength (grWeight r) es \<le> gpStrength (extendPath p e)"
      using strength_step(2) [OF _ p(2), of "geWeight e"] fair e(1) by (simp add: fe walkStrength_snoc extendPath_def fairEdges_def)
    then show ?thesis using ext [OF p(1) u(1) t] tv by (auto intro: dominates_mono)
  qed
qed

section \<open>The loop over depths\<close>

lemma pathLoop_facts:
  assumes rows: "rowsOf input outgoing" and w: "0 \<le> grWeight r"
  shows "soundTable input r k best \<Longrightarrow> covers input r k best \<Longrightarrow> closedBelow outgoing k best \<Longrightarrow>
    soundTable input r (k + left) (pathLoop outgoing left k best) \<and> covers input r (k + left) (pathLoop outgoing left k best)"
proof (induction left arbitrary: k best)
  case (Suc left)
  obtain best' changed where run: "relaxPass outgoing k best = (best', changed)" by fastforce
  note f = relaxPass_facts [OF rows Suc.prems(1) run]
  have mono: "dominates best v x \<Longrightarrow> dominates best' v x" for v x using f(2) grows_dominates by blast
  have ext: "dominates best' (snd oe) (gpStrength (extendPath p (fst oe)))"
    if p: "jget best u = Some p" and u: "u < nodeCount input" and oe: "oe \<in> set (outgoing ! u)" for u p oe
  proof -
    have ok: "pathOk input r k u p" using Suc.prems(1) p by (simp add: soundTable_def)
    then have le: "length (gpEndorsementIds p) \<le> k" unfolding pathOk_def by (metis length_map)
    show ?thesis
    proof (cases "geSubjectLineageId (fst oe) \<in> set (gpLineageIds p)")
      case True
      then show ?thesis using visited_dominated [OF rows Suc.prems(2) ok oe True w] mono by blast
    next
      case new: False
      show ?thesis
      proof (cases "length (gpEndorsementIds p) < k")
        case True
        then show ?thesis using Suc.prems(3) p oe mono unfolding closedBelow_def by blast
      next
        case False
        then show ?thesis using f(3) map_of_SomeD [OF p] oe new le unfolding passExtends_def by fastforce
      qed
    qed
  qed
  have cov: "covers input r (Suc k) best'" by (rule covers_step [OF rows Suc.prems(2) w mono ext])
  have closed: "closedBelow outgoing (Suc k) best'"
    unfolding closedBelow_def
  proof (intro allI impI ballI)
    fix u p oe assume p: "jget best' u = Some p" "length (gpEndorsementIds p) < Suc k" and oe: "oe \<in> set (outgoing ! u)"
    then have old: "jget best u = Some p" using f(2) unfolding grows_def by fastforce
    then have "u < nodeCount input" using Suc.prems(1) by (auto simp: soundTable_def pathOk_def)
    then show "dominates best' (snd oe) (gpStrength (extendPath p (fst oe)))" using ext [OF old _ oe] by blast
  qed
  show ?case
  proof (cases changed)
    case True
    then show ?thesis using Suc.IH [OF f(1) cov closed] run by simp
  next
    case False
    then have same: "best' = best" using f(4) by blast
    have all: "covers input r (k + n) best" for n
    proof (induction n)
      case (Suc n)
      have "covers input r (Suc (k + n)) best" by (rule covers_step [OF rows Suc w]) (use ext same in auto)
      then show ?case by simp
    qed (use Suc.prems(2) in simp)
    have "soundTable input r (k + Suc left) best" using Suc.prems(1) pathOk_mono [of input r k _ _ "k + Suc left"] by (auto simp: soundTable_def)
    then show ?thesis using all [of "Suc left"] run same False by simp
  qed
qed simp

section \<open>The paths of a run\<close>

definition bestOf :: "GraphReputationInput \<Rightarrow> GraphReputationRoot \<Rightarrow> (nat, GraphReputationPath) jmap" where
  "bestOf input r = pathLoop (outgoingOf input) GRAPH_REPUTATION_MAX_PATH_DEPTH 0
     [(nodeAt input (grLineageId r), \<lparr>gpRootLineageId = grLineageId r, gpLineageIds = [grLineageId r], gpEndorsementIds = [],
        gpStrength = grWeight r\<rparr>)]"

lemma valid_rowsOf:
  assumes v: "validReputation K input"
  shows "rowsOf input (outgoingOf input)"
proof -
  have d: "distinct (map gnLineageId (giNodes input))" using v by (simp add: validReputation_def)
  have "fairEdges input" using v by (auto simp: fairEdges_def validReputation_def edgeOk_def)
  moreover have "fst oe \<in> set (giEdgeList input) \<and> geIssuerLineageId (fst oe) = nodeId input u \<and> snd oe < nodeCount input \<and>
      geSubjectLineageId (fst oe) = nodeId input (snd oe)" if u: "u < nodeCount input" and oe: "oe \<in> set (outgoingOf input ! u)" for u oe
  proof -
    from oe u obtain e where e: "e \<in> set (giEdgeList input)" "nodeAt input (geIssuerLineageId e) = u" "oe = (e, nodeAt input (geSubjectLineageId e))"
      by (auto simp: outgoingOf_def reputationRow_def)
    then show ?thesis using nodeAt_member [OF d valid_edge(1) [OF v e(1)]] nodeAt_member [OF d valid_edge(2) [OF v e(1)]] by auto
  qed
  moreover have "e \<in> fst ` set (outgoingOf input ! u)" if "e \<in> set (giEdgeList input)" "u < nodeCount input" "nodeId input u = geIssuerLineageId e" for e u
  proof -
    have "nodeAt input (geIssuerLineageId e) = u"
      using indexMap_nth [OF d, of u] that(2,3) by (simp add: nodeAt_def orDefault_def)
    then show ?thesis using that(1,2) by (force simp: outgoingOf_def reputationRow_def)
  qed
  moreover have "\<exists>u < nodeCount input. nodeId input u = geIssuerLineageId e" if "e \<in> set (giEdgeList input)" for e
    using nodeAt_member [OF d valid_edge(1) [OF v that]] by blast
  ultimately show ?thesis unfolding rowsOf_def using d by blast
qed

lemma bestOf_facts:
  assumes v: "validReputation K input" and r: "r \<in> set (giRoots input)"
  shows "soundTable input r GRAPH_REPUTATION_MAX_PATH_DEPTH (bestOf input r)"
    and "covers input r GRAPH_REPUTATION_MAX_PATH_DEPTH (bestOf input r)"
proof -
  have d: "distinct (map gnLineageId (giNodes input))" using v by (simp add: validReputation_def)
  have ok: "rootOk input r" using v r by (simp add: validReputation_def)
  then have m: "grLineageId r \<in> gnLineageId ` set (giNodes input)" and w: "0 \<le> grWeight r" by (simp_all add: rootOk_def)
  note n = nodeAt_member [OF d m]
  let ?p = "\<lparr>gpRootLineageId = grLineageId r, gpLineageIds = [grLineageId r], gpEndorsementIds = [], gpStrength = grWeight r\<rparr>"
  let ?b = "[(nodeAt input (grLineageId r), ?p)]"
  have "pathOk input r 0 (nodeAt input (grLineageId r)) ?p"
    unfolding pathOk_def using n by (auto simp: walkStrength_def intro!: exI [of _ "[]"])
  then have s: "soundTable input r 0 ?b" by (auto simp: soundTable_def jmapInv_def split: if_splits)
  have "u = nodeAt input (grLineageId r)" if "u < nodeCount input" "grLineageId r = nodeId input u" for u
    using n that nth_eq_iff_index_eq [of "map gnLineageId (giNodes input)" u "nodeAt input (grLineageId r)"] d by simp
  then have c: "covers input r 0 ?b" by (auto simp: covers_def dominates_def walkStrength_def)
  have "closedBelow (outgoingOf input) 0 ?b" by (simp add: closedBelow_def)
  from pathLoop_facts [OF valid_rowsOf [OF v] w s c this, of GRAPH_REPUTATION_MAX_PATH_DEPTH]
  show "soundTable input r GRAPH_REPUTATION_MAX_PATH_DEPTH (bestOf input r)"
    "covers input r GRAPH_REPUTATION_MAX_PATH_DEPTH (bestOf input r)" by (simp_all add: bestOf_def)
qed

definition entryOf :: "'a option \<Rightarrow> 'a list" where
  "entryOf x = (case x of None \<Rightarrow> [] | Some p \<Rightarrow> [p])"

definition pathsAt :: "GraphReputationInput \<Rightarrow> (hex, GraphReputationPath list) jmap \<Rightarrow> nat \<Rightarrow> GraphReputationPath list" where
  "pathsAt input paths v = orDefault (jget paths (nodeId input v)) []"

lemma addPath_at:
  assumes d: "distinct (map gnLineageId (giNodes input))" and "u < nodeCount input" and "v < nodeCount input"
  shows "pathsAt input (addPath (giNodes input) paths (u, p)) v = pathsAt input paths v @ (if u = v then [p] else [])"
  using assms nth_eq_iff_index_eq [of "map gnLineageId (giNodes input)" u v]
  by (auto simp: pathsAt_def addPath_def Let_def jget_jset orDefault_def)

lemma addPaths_at:
  assumes d: "distinct (map gnLineageId (giNodes input))" and v: "v < nodeCount input"
  shows "distinct (jkeys best) \<Longrightarrow> \<forall>(u, p) \<in> set best. u < nodeCount input \<Longrightarrow>
    pathsAt input (foldl (addPath (giNodes input)) paths best) v = pathsAt input paths v @ entryOf (jget best v)"
proof (induction best arbitrary: paths)
  case (Cons entry best)
  obtain u p where entry: "entry = (u, p)" by (cases entry)
  have u: "u < nodeCount input" using Cons.prems(2) entry by simp
  have "pathsAt input (foldl (addPath (giNodes input)) paths (entry # best)) v =
      pathsAt input (addPath (giNodes input) paths (u, p)) v @ entryOf (jget best v)"
    using Cons entry by simp
  moreover have "u = v \<Longrightarrow> jget best v = None" using Cons.prems(1) entry by (force simp: map_of_eq_None_iff)
  ultimately show ?case unfolding addPath_at [OF d u v] by (auto simp: entry entryOf_def)
qed (simp add: entryOf_def)

lemma strongestPaths_at:
  assumes v: "validReputation K input" and p: "strongestPaths input (outgoingOf input) (nodeIndexOf input) = Inr paths"
    and u: "u < nodeCount input"
  shows "pathsAt input paths u = concat (map (\<lambda>r. entryOf (jget (bestOf input r) u)) (giRoots input))"
proof -
  have d: "distinct (map gnLineageId (giNodes input))" using v by (simp add: validReputation_def)
  let ?f = "\<lambda>paths root. bindE (rootPaths (outgoingOf input) (nodeIndexOf input) root) (\<lambda>best. Inr (foldl (addPath (giNodes input)) paths best))"
  have one: "rootPaths (outgoingOf input) (nodeIndexOf input) r = Inr (bestOf input r)" if r: "r \<in> set (giRoots input)" for r
  proof -
    have "grLineageId r \<in> gnLineageId ` set (giNodes input)" using v r by (simp add: validReputation_def rootOk_def)
    then show ?thesis using nodeAt_member(1) [OF d] by (simp add: rootPaths_def indexOf_def bestOf_def)
  qed
  have "foldE ?f start rs = Inr paths \<Longrightarrow> set rs \<subseteq> set (giRoots input) \<Longrightarrow>
      pathsAt input paths u = pathsAt input start u @ concat (map (\<lambda>r. entryOf (jget (bestOf input r) u)) rs)" for rs start
  proof (induction rs arbitrary: start)
    case (Cons r rs)
    have r: "r \<in> set (giRoots input)" using Cons.prems(2) by simp
    have s: "jmapInv (bestOf input r)" "\<forall>v p. jget (bestOf input r) v = Some p \<longrightarrow> v < nodeCount input"
      using bestOf_facts(1) [OF v r] by (auto simp: soundTable_def pathOk_def)
    then have "\<forall>(x, p) \<in> set (bestOf input r). x < nodeCount input" by (auto simp: jmapInv_def)
    then have "pathsAt input (foldl (addPath (giNodes input)) start (bestOf input r)) u = pathsAt input start u @ entryOf (jget (bestOf input r) u)"
      using addPaths_at [OF d u] s(1) by (simp add: jmapInv_def)
    then show ?case using Cons one [OF r] by simp
  qed simp
  from this [of "[]" "giRoots input"] p show ?thesis by (simp add: strongestPaths_def pathsAt_def orDefault_def)
qed

end
