(* ===== verification/IndexerProps.thy ===== *)
theory IndexerProps
  imports GraphLineage ReputationPaths Instance
begin

text \<open>
  The properties of the indexer, each with an example.
\<close>

definition sampleEndorsement :: "hex \<Rightarrow> int \<Rightarrow> EndorsementRecord" where
  "sampleEndorsement x closes = \<lparr>erId = x, erIssuerLineageId = ''0x0a'', erSubjectLineageId = ''0x0b'',
     erIssuerConfigurationId = ''0xc1'', erSubjectConfigurationId = ''0xc2'', erScopeHash = ''0x05'', erKind = 2,
     erWeight = BigValue 400000000000000000, erValidFrom = BigValue 10, erValidUntil = BigValue closes, erEvidenceURI = [],
     erEvidenceDigest = ''0x00'', erEvidenceMutable = False, erSequence = BigValue 1, erSupersededBy = None, erRevokedAt = None\<rparr>"

definition sampleHead :: "hex \<Rightarrow> ConfigurationHead" where
  "sampleHead c = \<lparr>chCurrentConfigurationId = Some c, chIsLive = True\<rparr>"

definition sampleConfiguration :: "hex \<Rightarrow> ReferralConfiguration" where
  "sampleConfiguration c = \<lparr>rcId = c, rcFamilyId = c, rcMethodId = ''0x01'', rcController = ''0x11'', rcAuthority = c\<rparr>"

definition sampleEndorsements :: "EndorsementRecord list" where
  "sampleEndorsements = [sampleEndorsement ''0xe1'' 100, sampleEndorsement ''0xe2'' 15]"

definition sampleStatuses :: "(hex, EndorsementStatus option) jmap" where
  "sampleStatuses = [(''0xe1'', Some StActive), (''0xe2'', Some StExpired)]"

definition sampleConfigurations :: "(hex, ReferralConfiguration) jmap" where
  "sampleConfigurations = [(''0xc1'', sampleConfiguration ''0xc1''), (''0xc2'', sampleConfiguration ''0xc2'')]"

lemma sample_statuses: "\<forall>e \<in> set sampleEndorsements. \<exists>s. jget sampleStatuses (erId e) = Some (Some s) \<and>
    classifyEndorsement (Some e) 20 (sampleHead ''0xc1'') (sampleHead ''0xc2'') None None = Inr s"
  by (simp add: sampleEndorsements_def sampleEndorsement_def sampleStatuses_def classifyEndorsement_def violates_def sampleHead_def
      result_simps)

lemma sample_nonneg: "\<forall>e \<in> set sampleEndorsements. 0 \<le> endorsementWeight e"
  by (simp add: sampleEndorsements_def sampleEndorsement_def endorsementWeight_def)

lemma sample_referral: "isReferral (sampleEndorsement x c)"
  by (simp add: isReferral_def ENDORSEMENT_KINDS_def sampleEndorsement_def eval_nat_numeral)

lemma sample_built: "\<exists>edges budgets. buildReferralAdjacency sampleEndorsements sampleStatuses sampleConfigurations = Inr (edges, budgets)"
proof -
  have "spentBy sampleStatuses sampleEndorsements k \<le> REFERRAL_BUDGET" for k
    by (simp add: spentBy_def sampleEndorsements_def activeReferral_def sampleEndorsement_def sampleStatuses_def endorsementWeight_def
        REFERRAL_BUDGET_def)
  moreover have "\<forall>e \<in> set sampleEndorsements. activeReferral sampleStatuses e \<longrightarrow> provenance sampleConfigurations e"
    by (simp add: sampleEndorsements_def sampleEndorsement_def provenance_def sampleConfigurations_def)
  ultimately show ?thesis using referral_returns_iff [OF sample_nonneg] by (metis surj_pair)
qed

text \<open>
  C39: The referral graph keeps to its budgets. If the builder returns, its edges are the active referrals in order,
  each between the configurations it names; there is one budget row for each issuer and scope that has a referral at
  all, also where none is active; the row spends the sum of the active weights, at most 1e18, and leaves the rest.
\<close>
theorem referral_budgets_exact:
  assumes "buildReferralAdjacency es statuses configurations = Inr (edges, budgets)" and "plainIssuers es"
  shows "list_all2 (edgeFor configurations) (filter (activeReferral statuses) es) edges \<and>
    distinct (map pairOf budgets) \<and> set (map pairOf budgets) = issuerScope ` {e \<in> set es. isReferral e} \<and>
    (\<forall>b \<in> set budgets. \<exists>s. s = sumOf endorsementWeight (filter (\<lambda>e. activeReferral statuses e \<and> issuerScope e = pairOf b) es) \<and>
      s \<le> REFERRAL_BUDGET \<and> rbSpent b = bigToString s \<and> rbUnused b = bigToString (REFERRAL_BUDGET - s))"
proof -
  from build_facts [OF assms(1)] obtain spend where b: "budgets = map referralBudgetOf spend" and inv: "jmapInv spend"
    and keys: "set (jkeys spend) = budgetKey ` {e \<in> set es. isReferral e}"
    and edges: "list_all2 (edgeFor configurations) (filter (activeReferral statuses) es) edges"
    and total: "\<And>k. orDefault (jget spend k) 0 = spentBy statuses es k" "\<And>k. spentBy statuses es k \<le> REFERRAL_BUDGET"
    by blast
  have "\<exists>s. s = sumOf endorsementWeight (filter (\<lambda>e. activeReferral statuses e \<and> issuerScope e = pairOf r) es) \<and>
      s \<le> REFERRAL_BUDGET \<and> rbSpent r = bigToString s \<and> rbUnused r = bigToString (REFERRAL_BUDGET - s)" if r: "r \<in> set budgets" for r
  proof -
    obtain k v where kv: "(k, v) \<in> set spend" "r = referralBudgetOf (k, v)" using r unfolding b by auto
    from spend_row [OF inv keys assms(2) total(1) kv(1)] obtain e where e: "e \<in> set es" "k = budgetKey e" "v = spentBy statuses es k"
      "pairOf r = issuerScope e" "rbSpent r = bigToString v" "rbUnused r = bigToString (REFERRAL_BUDGET - v)"
      using kv(2) by (auto simp: pairOf_def issuerScope_def)
    have "filter (\<lambda>d. activeReferral statuses d \<and> budgetKey d = k) es =
        filter (\<lambda>d. activeReferral statuses d \<and> issuerScope d = pairOf r) es"
      unfolding e(2,4) using budgetKey_eq [OF assms(2) _ e(1)] by (intro filter_cong) auto
    then show ?thesis using e(3,5,6) total(2) [of k] by (auto simp: spentBy_def)
  qed
  then show ?thesis using edges spend_rows_distinct [OF inv keys assms(2) total(1)] spend_rows_listed [OF inv keys assms(2) total(1)]
    unfolding b by blast
qed

theorem referral_budgets_exact_witness:
  "\<exists>edges budgets. buildReferralAdjacency sampleEndorsements sampleStatuses sampleConfigurations = Inr (edges, budgets) \<and>
     distinct (map pairOf budgets) \<and> set (map pairOf budgets) = {(''0x0a'', ''0x05'')}"
proof -
  obtain edges budgets where b: "buildReferralAdjacency sampleEndorsements sampleStatuses sampleConfigurations = Inr (edges, budgets)"
    using sample_built by blast
  have "plainIssuers sampleEndorsements" by (simp add: plainIssuers_def sampleEndorsements_def sampleEndorsement_def)
  from referral_budgets_exact [OF b this]
  have "distinct (map pairOf budgets)" "set (map pairOf budgets) = issuerScope ` {e \<in> set sampleEndorsements. isReferral e}" by blast+
  moreover have "{e \<in> set sampleEndorsements. isReferral e} = set sampleEndorsements"
    by (auto simp: sampleEndorsements_def sample_referral)
  ultimately show ?thesis using b by (simp add: sampleEndorsements_def issuerScope_def sampleEndorsement_def)
qed

text \<open>
  C40: With weights that are not negative the builder throws exactly when it must: when an active referral is missing
  a configuration or its weight, or when the active referrals of one issuer and scope weigh more than 1e18 together.
\<close>
theorem referral_builder_returns:
  assumes "\<forall>e \<in> set es. 0 \<le> endorsementWeight e"
  shows "(\<exists>g. buildReferralAdjacency es statuses configurations = Inr g) \<longleftrightarrow>
    (\<forall>e \<in> set es. activeReferral statuses e \<longrightarrow> provenance configurations e) \<and> (\<forall>k. spentBy statuses es k \<le> REFERRAL_BUDGET)"
  using assms by (rule referral_returns_iff)

theorem referral_builder_returns_witness:
  "(\<exists>g. buildReferralAdjacency sampleEndorsements sampleStatuses sampleConfigurations = Inr g) \<and>
   (\<nexists>g. buildReferralAdjacency sampleEndorsements sampleStatuses [] = Inr g)"
proof -
  have "sampleEndorsement ''0xe1'' 100 \<in> set sampleEndorsements" "activeReferral sampleStatuses (sampleEndorsement ''0xe1'' 100)"
    "\<not> provenance [] (sampleEndorsement ''0xe1'' 100)"
    by (simp_all add: sampleEndorsements_def activeReferral_def sample_referral)
      (simp_all add: sampleEndorsement_def sampleStatuses_def provenance_def)
  then show ?thesis using referral_builder_returns [OF sample_nonneg, of sampleStatuses "[]"] sample_built by blast
qed

text \<open>
  Only live endorsements become edges, and all of them do. With the statuses the classification gives, the edges
  are those of the referrals that are neither revoked nor superseded, whose window holds the present, and whose issuer
  and subject still run the configurations it was made between.
\<close>
lemma referral_edges_live:
  assumes "buildReferralAdjacency es statuses configurations = Inr (edges, budgets)"
    and "\<forall>e \<in> set es. \<exists>s. jget statuses (erId e) = Some (Some s) \<and> classifyEndorsement (Some e) now (issuer e) (subject e) None None = Inr s"
  shows "map reEndorsementId edges = map erId (filter (\<lambda>e. isReferral e \<and> liveEndorsement now (issuer e) (subject e) e) es)"
proof -
  have "activeReferral statuses e \<longleftrightarrow> isReferral e \<and> liveEndorsement now (issuer e) (subject e) e" if "e \<in> set es" for e
    using assms(2) that unfolding classify_active_iff [symmetric] by (fastforce simp: activeReferral_def)
  then have f: "filter (activeReferral statuses) es = filter (\<lambda>e. isReferral e \<and> liveEndorsement now (issuer e) (subject e) e) es"
    by (intro filter_cong) auto
  have "reEndorsementId x = erId e" if "edgeFor configurations e x" for e x
    using that by (auto simp: edgeFor_def edgeOf_def split: option.splits sum.splits)
  then have "list_all2 (\<lambda>e x. erId e = reEndorsementId x) (filter (activeReferral statuses) es) edges"
    using build_facts [OF assms(1)] by (metis (mono_tags, lifting) list_all2_mono)
  then have "map erId (filter (activeReferral statuses) es) = map reEndorsementId edges"
    by (simp add: list_all2_conv_all_nth list_eq_iff_nth_eq)
  then show ?thesis unfolding f by simp
qed

lemma referral_edges_live_witness:
  "\<exists>edges budgets. buildReferralAdjacency sampleEndorsements sampleStatuses sampleConfigurations = Inr (edges, budgets) \<and>
     map reEndorsementId edges = [''0xe1'']"
proof -
  obtain edges budgets where b: "buildReferralAdjacency sampleEndorsements sampleStatuses sampleConfigurations = Inr (edges, budgets)"
    using sample_built by blast
  from referral_edges_live [OF b sample_statuses] b show ?thesis
    by (simp add: sampleEndorsements_def sample_referral) (simp add: sampleEndorsement_def liveEndorsement_def sampleHead_def)
qed

section \<open>Facts about the reputation the properties share\<close>

lemma scoresWith_nth: "i < nodeCount input \<Longrightarrow> scoresWith input paths ! i = scoreOf input (finalMass input) (rowTotals (finalMass input))
     (rankMapOf input (rowTotals (finalMass input))) (familyMassOf input) paths i"
  by (simp add: scoresWith_def)

lemma scoresWith_member:
  assumes "s \<in> set (scoresWith input paths)"
  obtains i where "i < nodeCount input" and "s = scoresWith input paths ! i"
  using assms by (auto simp: scoresWith_def)

lemma scoresWith_fields:
  assumes "i < nodeCount input"
  shows "gsLineageId (scoresWith input paths ! i) = nodeId input i" "gsScore (scoresWith input paths ! i) = rowTotals (finalMass input) ! i"
    "gsRank (scoresWith input paths ! i) = int (orDefault (jget (rankMapOf input (rowTotals (finalMass input))) i) 0)"
    "gsFamilyId (scoresWith input paths ! i) = gnFamilyId (giNodes input ! i)"
    "gsFamilyMass (scoresWith input paths ! i) = orDefault (jget (familyMassOf input) (gnFamilyId (giNodes input ! i))) 0"
    "gsRootIngress (scoresWith input paths ! i) =
       map (\<lambda>(position, rt). (grLineageId rt, finalMass input ! i ! position)) (zip [0..<rootCount input] (giRoots input))"
    "set (gsPaths (scoresWith input paths ! i)) = set (pathsAt input paths i)"
  using assms by (simp_all add: scoresWith_nth scoreOf_def Let_def pathsAt_def)

lemma scoresWith_lists:
  assumes "length (rowTotals (finalMass input)) = nodeCount input"
  shows "map gsLineageId (scoresWith input paths) = map gnLineageId (giNodes input)"
    and "map gsScore (scoresWith input paths) = rowTotals (finalMass input)"
    and "familySum (zip (giNodes input) (rowTotals (finalMass input))) f =
      sumOf gsScore (filter (\<lambda>s. gsFamilyId s = f) (scoresWith input paths))"
proof -
  have len: "length (scoresWith input paths) = nodeCount input" by (simp add: scoresWith_def)
  show ids: "map gsLineageId (scoresWith input paths) = map gnLineageId (giNodes input)"
    by (rule nth_equalityI) (simp_all add: len scoresWith_fields)
  show totals: "map gsScore (scoresWith input paths) = rowTotals (finalMass input)"
    by (rule nth_equalityI) (simp_all add: len scoresWith_fields assms)
  have "map gsFamilyId (scoresWith input paths) = map gnFamilyId (giNodes input)"
    by (rule nth_equalityI) (simp_all add: len scoresWith_fields)
  moreover have "sumOf snd (filter (\<lambda>e. gnFamilyId (fst e) = f) (zip ns vs)) = sumOf gsScore (filter (\<lambda>s. gsFamilyId s = f) ss)"
    if "map gsFamilyId ss = map gnFamilyId ns" "map gsScore ss = vs" for ns vs and ss :: "GraphReputationScore list"
    using that by (induction ss arbitrary: ns vs) (auto simp: Cons_eq_map_conv)
  ultimately show "familySum (zip (giNodes input) (rowTotals (finalMass input))) f =
      sumOf gsScore (filter (\<lambda>s. gsFamilyId s = f) (scoresWith input paths))"
    unfolding familySum_def using totals by blast
qed

lemma ingress_sum:
  "sumOf snd (map (\<lambda>(position, rt). (grLineageId rt, f position)) (zip [0..<length roots] roots)) = (\<Sum>r<length roots. f r :: int)"
  by (simp add: sumOf_indexed)

lemma scores_facts:
  assumes v: "validReputation K input"
  shows "sumOf gsScore (scoresWith input paths) = GRAPH_REPUTATION_SCALE" and "sumOf snd (familiesOf input) = GRAPH_REPUTATION_SCALE"
    and "s \<in> set (scoresWith input paths) \<Longrightarrow> 0 \<le> gsScore s \<and> gsScore s = sumOf snd (gsRootIngress s) \<and>
      gsFamilyMass s = sumOf gsScore (filter (\<lambda>t. gsFamilyId t = gsFamilyId s) (scoresWith input paths))"
    and "s \<in> set (scoresWith input paths) \<Longrightarrow> t \<in> set (scoresWith input paths) \<Longrightarrow>
      gsRank s < gsRank t \<longleftrightarrow> (- gsScore s, gsLineageId s) < (- gsScore t, gsLineageId t)"
proof -
  note tot = final_totals [OF v]
  have len: "length (rowTotals (finalMass input)) = nodeCount input" by (simp add: tot(1))
  note lists = scoresWith_lists [OF len]
  note fam = families_fold [of "zip (giNodes input) (rowTotals (finalMass input))", folded familyMassOf_def]
  show "sumOf gsScore (scoresWith input paths) = GRAPH_REPUTATION_SCALE" using tot(2) by (simp add: lists(2))
  show "sumOf snd (familiesOf input) = GRAPH_REPUTATION_SCALE" using fam tot(2) len by (simp add: familiesOf_def)
  show "0 \<le> gsScore s \<and> gsScore s = sumOf snd (gsRootIngress s) \<and>
      gsFamilyMass s = sumOf gsScore (filter (\<lambda>t. gsFamilyId t = gsFamilyId s) (scoresWith input paths))"
    if s: "s \<in> set (scoresWith input paths)"
  proof -
    obtain i where i: "i < nodeCount input" "s = scoresWith input paths ! i" using s by (rule scoresWith_member)
    have "rowTotals (finalMass input) ! i = (\<Sum>r<rootCount input. finalMass input ! i ! r)" using i(1) by (simp add: tot(1))
    then have "gsScore s = sumOf snd (gsRootIngress s)" using i by (simp only: scoresWith_fields ingress_sum)
    moreover have "gsFamilyMass s = sumOf gsScore (filter (\<lambda>t. gsFamilyId t = gsFamilyId s) (scoresWith input paths))"
      using i fam lists(3) [of "gsFamilyId s" paths] by (simp only: scoresWith_fields)
    ultimately show ?thesis using tot(3) [OF i(1)] i by (simp add: scoresWith_fields)
  qed
  show "gsRank s < gsRank t \<longleftrightarrow> (- gsScore s, gsLineageId s) < (- gsScore t, gsLineageId t)"
    if s: "s \<in> set (scoresWith input paths)" and t: "t \<in> set (scoresWith input paths)"
  proof -
    obtain i where i: "i < nodeCount input" "s = scoresWith input paths ! i" using s by (rule scoresWith_member)
    obtain j where j: "j < nodeCount input" "t = scoresWith input paths ! j" using t by (rule scoresWith_member)
    have "distinct (map gnLineageId (giNodes input))" using v by (simp add: validReputation_def)
    from rank_order [OF this i(1) j(1), of "rowTotals (finalMass input)"] i j
    show ?thesis by (simp add: scoresWith_fields rankKey_def)
  qed
qed

lemma walk_same: "set (giEdgeList a) = set (giEdgeList b) \<Longrightarrow> walk a x es y = walk b x es y"
  by (induction es arbitrary: x) auto

lemma reaches_same:
  assumes "set (giEdgeList a) = set (giEdgeList b)" and "reaches a x y"
  shows "reaches b x y"
  using assms(2) by induction (use assms(1) in \<open>auto intro: reaches.intros\<close>)

text \<open>A chain from a root to an account in at most eight referrals, without a repeated account, and its strength.\<close>

definition chainOf :: "GraphReputationInput \<Rightarrow> GraphReputationPath \<Rightarrow> hex \<Rightarrow> bool" where
  "chainOf input p y \<longleftrightarrow> (\<exists>rt \<in> set (giRoots input). \<exists>es. grLineageId rt = gpRootLineageId p \<and>
     walk input (grLineageId rt) es y \<and> length es \<le> 8 \<and> gpEndorsementIds p = map geEndorsementId es \<and>
     gpLineageIds p = grLineageId rt # map geSubjectLineageId es \<and> distinct (gpLineageIds p) \<and>
     gpStrength p = walkStrength (grWeight rt) es)"

lemma paths_facts:
  assumes v: "validReputation K input" and p: "strongestPaths input (outgoingOf input) (nodeIndexOf input) = Inr paths" and i: "i < nodeCount input"
  shows "q \<in> set (pathsAt input paths i) \<Longrightarrow> chainOf input q (nodeId input i)"
    and "rt \<in> set (giRoots input) \<Longrightarrow> walk input (grLineageId rt) es (nodeId input i) \<Longrightarrow> length es \<le> 8 \<Longrightarrow>
      \<exists>q \<in> set (pathsAt input paths i). gpRootLineageId q = grLineageId rt \<and> walkStrength (grWeight rt) es \<le> gpStrength q"
proof -
  note at = strongestPaths_at [OF v p i]
  have sound: "pathOk input rt 8 i q" if "rt \<in> set (giRoots input)" "jget (bestOf input rt) i = Some q" for rt q
    using bestOf_facts(1) [OF v that(1)] that(2) by (simp add: soundTable_def GRAPH_REPUTATION_MAX_PATH_DEPTH_def)
  show "chainOf input q (nodeId input i)" if "q \<in> set (pathsAt input paths i)"
  proof -
    from that obtain rt where r: "rt \<in> set (giRoots input)" "jget (bestOf input rt) i = Some q"
      by (auto simp: at entryOf_def split: option.splits)
    from sound [OF this] r(1) show ?thesis unfolding pathOk_def chainOf_def by metis
  qed
  show "\<exists>q \<in> set (pathsAt input paths i). gpRootLineageId q = grLineageId rt \<and> walkStrength (grWeight rt) es \<le> gpStrength q"
    if r: "rt \<in> set (giRoots input)" and es: "walk input (grLineageId rt) es (nodeId input i)" "length es \<le> 8"
  proof -
    have "dominates (bestOf input rt) i (walkStrength (grWeight rt) es)"
      using bestOf_facts(2) [OF v r] i es by (simp add: covers_def GRAPH_REPUTATION_MAX_PATH_DEPTH_def)
    then obtain q where q: "jget (bestOf input rt) i = Some q" "walkStrength (grWeight rt) es \<le> gpStrength q" unfolding dominates_def by blast
    then have "q \<in> set (pathsAt input paths i)" using r by (force simp: at entryOf_def)
    then show ?thesis using q sound [OF r q(1)] unfolding pathOk_def by blast
  qed
qed

lemma reputation_facts:
  assumes V: "hexBytesLaw V K" and run: "computeGraphReputation V K raw = Inr r"
  shows "mset (map gsLineageId (goScores r)) = mset (map gnLineageId (giNodes raw)) \<and>
      sumOf gsScore (goScores r) = GRAPH_REPUTATION_SCALE \<and> sumOf snd (goFamilies r) = GRAPH_REPUTATION_SCALE \<and>
      (\<forall>s \<in> set (goScores r). 0 \<le> gsScore s \<and> gsScore s = sumOf snd (gsRootIngress s) \<and>
         gsFamilyMass s = sumOf gsScore (filter (\<lambda>t. gsFamilyId t = gsFamilyId s) (goScores r))) \<and>
      (\<forall>s \<in> set (goScores r). \<forall>t \<in> set (goScores r).
         gsRank s < gsRank t \<longleftrightarrow> (- gsScore s, gsLineageId s) < (- gsScore t, gsLineageId t))"
proof (intro conjI)
  obtain encoded bs spent paths where v: "validReputation K (canonicalInput raw)"
    and r: "r = reputationOf V (canonicalInput raw) encoded bs spent paths" by (rule reputation_Inr [OF V run])
  have g: "goScores r = scoresWith (canonicalInput raw) paths" "goFamilies r = familiesOf (canonicalInput raw)" by (simp_all add: r reputationOf_def)
  note f = scores_facts [OF v]
  have "map gsLineageId (goScores r) = map gnLineageId (giNodes (canonicalInput raw))"
    unfolding g using final_totals(1) [OF v] by (intro scoresWith_lists(1)) simp
  then show "mset (map gsLineageId (goScores r)) = mset (map gnLineageId (giNodes raw))" by (simp add: canonicalInput_def)
  show "sumOf gsScore (goScores r) = GRAPH_REPUTATION_SCALE" "sumOf snd (goFamilies r) = GRAPH_REPUTATION_SCALE"
    unfolding g by (rule f(1), rule f(2))
  show "\<forall>s \<in> set (goScores r). 0 \<le> gsScore s \<and> gsScore s = sumOf snd (gsRootIngress s) \<and>
      gsFamilyMass s = sumOf gsScore (filter (\<lambda>t. gsFamilyId t = gsFamilyId s) (goScores r))" unfolding g using f(3) by blast
  show "\<forall>s \<in> set (goScores r). \<forall>t \<in> set (goScores r).
      gsRank s < gsRank t \<longleftrightarrow> (- gsScore s, gsLineageId s) < (- gsScore t, gsLineageId t)" unfolding g using f(4) by blast
qed

section \<open>The properties of the reputation\<close>

text \<open>
  C9: The reputation of a referral network returns exactly on the inputs that pass the validation and whose integers
  fit their encoding; the final check of the mass never throws. The scores then sum to the unit of standing, so do the
  families; a score is the sum of what came in through each root, a family the sum of its members, and the ranks follow
  the scores, ties by identifier.
\<close>
theorem reputation_total_and_conserving:
  assumes V: "hexBytesLaw V K"
  shows "((\<exists>r. computeGraphReputation V K raw = Inr r) \<longleftrightarrow> validReputation K raw \<and> fitsWords raw) \<and>
    (\<forall>r. computeGraphReputation V K raw = Inr r \<longrightarrow>
      mset (map gsLineageId (goScores r)) = mset (map gnLineageId (giNodes raw)) \<and>
      sumOf gsScore (goScores r) = GRAPH_REPUTATION_SCALE \<and> sumOf snd (goFamilies r) = GRAPH_REPUTATION_SCALE \<and>
      (\<forall>s \<in> set (goScores r). 0 \<le> gsScore s \<and> gsScore s = sumOf snd (gsRootIngress s) \<and>
         gsFamilyMass s = sumOf gsScore (filter (\<lambda>t. gsFamilyId t = gsFamilyId s) (goScores r))) \<and>
      (\<forall>s \<in> set (goScores r). \<forall>t \<in> set (goScores r).
         gsRank s < gsRank t \<longleftrightarrow> (- gsScore s, gsLineageId s) < (- gsScore t, gsLineageId t)))"
  using reputation_returns_iff [OF V] reputation_facts [OF V] by blast

text \<open>
  C10: After its 128 iterations a run has always converged: the residual is between zero and the error bound of two
  billion, whatever the network. The exact flow contracts by the factor 0.85, and the rounding of one iteration moves less
  than 1122320 units.
\<close>
theorem reputation_converges:
  assumes "hexBytesLaw V K" and "computeGraphReputation V K raw = Inr r"
  shows "goIterations r = 128 \<and> 0 \<le> goResidual r \<and> goResidual r \<le> 2000000000 \<and> goConverged r"
proof -
  obtain encoded bs spent paths where v: "validReputation K (canonicalInput raw)"
    and r: "r = reputationOf V (canonicalInput raw) encoded bs spent paths" using reputation_Inr [OF assms] .
  show ?thesis using residual_small [OF v]
    by (simp add: r reputationOf_def GRAPH_REPUTATION_ITERATIONS_def GRAPH_REPUTATION_ERROR_BOUND_def)
qed

text \<open>
  C11: Reputation only flows along referrals from the roots: mass that came in through a root reaches only the accounts a
  chain of referrals joins to that root.
\<close>
theorem reputation_rooted:
  assumes "hexBytesLaw V K" and "computeGraphReputation V K raw = Inr r"
    and "s \<in> set (goScores r)" and "(x, m) \<in> set (gsRootIngress s)" and "0 < m"
  shows "x \<in> grLineageId ` set (giRoots raw) \<and> reaches raw x (gsLineageId s)"
proof -
  let ?i = "canonicalInput raw"
  obtain encoded bs spent paths where v: "validReputation K ?i" and r: "r = reputationOf V ?i encoded bs spent paths" using reputation_Inr [OF assms(1,2)] .
  have "s \<in> set (scoresWith ?i paths)" using assms(3) by (simp add: r reputationOf_def)
  then obtain i where i: "i < nodeCount ?i" "s = scoresWith ?i paths ! i" by (rule scoresWith_member)
  obtain q where q: "q < rootCount ?i" "x = grLineageId (giRoots ?i ! q)" "m = finalMass ?i ! i ! q"
    using assms(4) i by (auto simp: scoresWith_fields set_zip)
  have "\<forall>c \<in> inputCells ?i. 0 < massAt (finalMass ?i) c \<longrightarrow> reaches ?i (grLineageId (giRoots ?i ! snd c)) (nodeId ?i (fst c))"
    using massAfter_sourced [OF v] unfolding sourced_def .
  then have "reaches ?i x (gsLineageId s)" using i q assms(5) by (auto simp: scoresWith_fields dest!: bspec [of _ _ "(i, q)"])
  then have "reaches raw x (gsLineageId s)" by (rule reaches_same [rotated]) (simp add: canonicalInput_def)
  moreover have "giRoots ?i ! q \<in> set (giRoots raw)" using nth_mem [OF q(1)] by (simp add: canonicalInput_def)
  ultimately show ?thesis using q(2) by blast
qed

text \<open>
  C12: The listed paths are the strongest. Every path of an account is a chain of at most eight referrals from a root
  without a repeated account, with the strength the chain has; and for every root and every chain of at most eight
  referrals from it to the account the list has a path from that root at least as strong.
\<close>
theorem reputation_paths_strongest:
  assumes "hexBytesLaw V K" and "computeGraphReputation V K raw = Inr r" and "s \<in> set (goScores r)"
  shows "(\<forall>p \<in> set (gsPaths s). chainOf raw p (gsLineageId s)) \<and>
    (\<forall>rt \<in> set (giRoots raw). \<forall>es. walk raw (grLineageId rt) es (gsLineageId s) \<and> length es \<le> 8 \<longrightarrow>
      (\<exists>p \<in> set (gsPaths s). gpRootLineageId p = grLineageId rt \<and> walkStrength (grWeight rt) es \<le> gpStrength p))"
proof -
  let ?i = "canonicalInput raw"
  obtain encoded bs spent paths where v: "validReputation K ?i"
    and p: "strongestPaths ?i (outgoingOf ?i) (nodeIndexOf ?i) = Inr paths"
    and r: "r = reputationOf V ?i encoded bs spent paths" using reputation_Inr [OF assms(1,2)] .
  have "s \<in> set (scoresWith ?i paths)" using assms(3) by (simp add: r reputationOf_def)
  then obtain i where i: "i < nodeCount ?i" "s = scoresWith ?i paths ! i" by (rule scoresWith_member)
  have w: "walk raw x es y = walk ?i x es y" for x es y by (rule walk_same) (simp add: canonicalInput_def)
  have roots: "set (giRoots raw) = set (giRoots ?i)" by (simp add: canonicalInput_def)
  have "chainOf raw q y = chainOf ?i q y" for q y unfolding chainOf_def w roots ..
  then show ?thesis unfolding roots w using paths_facts [OF v p i(1)] i by (simp add: scoresWith_fields) 
qed

text \<open>C13: The order in which roots, nodes and edges are given does not matter: a valid input has one reputation.\<close>
theorem reputation_order_independent:
  assumes "validReputation K b" and "sameInput a b"
  shows "computeGraphReputation V K a = computeGraphReputation V K b"
  unfolding computeGraphReputation_def canonicalInput_unique [OF assms] ..

section \<open>An example\<close>

text \<open>A network of one root, which refers one account with six tenths of its budget.\<close>

definition plainChecks :: viem_checks where
  "plainChecks = \<lparr>vcIsAddress = (\<lambda>x. length x = 42), vcIsHex = (\<lambda>x. take 2 x = ''0x'')\<rparr>"

definition repWord :: "char \<Rightarrow> hex" where "repWord c = ''0x'' @ replicate 64 c"

definition repAddress :: "char \<Rightarrow> hex" where "repAddress c = ''0x'' @ replicate 40 c"

definition sampleRepNode :: "char \<Rightarrow> GraphReputationNode" where
  "sampleRepNode c = \<lparr>gnLineageId = repWord c, gnConfigurationId = repWord c, gnEpochId = repWord c, gnFamilyId = repWord c,
     gnMethodId = repWord c, gnController = repAddress c, gnAuthority = repAddress c, gnCreatedAt = 10,
     gnEpochAcceptedBlock = 5, gnEpochPublishedBlock = 6\<rparr>"

definition sampleRepEdge :: GraphReputationEdge where
  "sampleRepEdge = \<lparr>geEndorsementId = repWord (CHR ''e''), geIssuerLineageId = repWord (CHR ''a''), geSubjectLineageId = repWord (CHR ''b''),
     geIssuerConfigurationId = repWord (CHR ''a''), geSubjectConfigurationId = repWord (CHR ''b''), geScopeHash = repWord (CHR ''5''),
     geWeight = 600000000000000000, geValidFrom = 10, geValidUntil = 99, geIssuedBlock = 7, geEvidenceDigest = repWord (CHR ''d''),
     geRevokedAt = None, geSupersededBy = None\<rparr>"

definition sampleRepRoot :: GraphReputationRoot where
  "sampleRepRoot = \<lparr>grLineageId = repWord (CHR ''a''), grWeight = 1000000000000000000\<rparr>"

definition sampleNetwork :: "char list \<Rightarrow> GraphReputationInput" where
  "sampleNetwork cs = \<lparr>giVersion = 1, giChainId = 1, giRegistry = repAddress (CHR ''9''), giScopeHash = repWord (CHR ''5''),
     giCutoffBlock = 20, giFinalizedBlock = 30, giCutoffTimestamp = 50,
     giRoots = [sampleRepRoot], giNodes = map sampleRepNode cs, giEdgeList = [sampleRepEdge]\<rparr>"

lemma repWord_inj [simp]: "repWord c = repWord d \<longleftrightarrow> c = d"
  by (simp add: repWord_def)

lemma repWord_good: "lowerChar c = c \<Longrightarrow> c \<noteq> CHR ''0'' \<Longrightarrow> goodWord plainChecks (repWord c)"
  by (simp add: goodWord_def plainChecks_def repWord_def canonical_def toLowerCase_def ZERO_HASH_def lowerChar_literals)

lemma repAddress_good: "c \<noteq> CHR ''0'' \<Longrightarrow> goodAddress plainChecks (repAddress c)"
  by (simp add: goodAddress_def plainChecks_def repAddress_def ZERO_ADDRESS_def)

lemma nibblePairs_length: "length (nibblePairs cs) = length cs div 2"
  by (induction cs rule: nibblePairs.induct) auto

lemma network_bytes: "hexBytesLaw exampleViem plainChecks"
proof -
  have "min (n - 2) 64 + (64 - (n - 2)) = (64::nat)" for n by simp
  then show ?thesis by (simp add: hexBytesLaw_def plainChecks_def exampleViem_def nibblePairs_length prefixDigest_def ZERO_HASH_def)
qed

lemma network_letters: "lowerChar (CHR ''a'') = CHR ''a''" "lowerChar (CHR ''b'') = CHR ''b''" "lowerChar (CHR ''d'') = CHR ''d''"
  "lowerChar (CHR ''e'') = CHR ''e''" "lowerChar (CHR ''5'') = CHR ''5''"
  by (simp_all add: lowerChar_def)

lemma network_valid: "cs = ''ab'' \<or> cs = ''ba'' \<Longrightarrow> validReputation plainChecks (sampleNetwork cs)"
  by (auto simp: validReputation_def sampleNetwork_def sampleRepNode_def sampleRepEdge_def sampleRepRoot_def nodeOk_def rootOk_def edgeOk_def
      issuedBy_def referralPair_def GRAPH_REPUTATION_VERSION_def GRAPH_REPUTATION_SCALE_def GRAPH_REPUTATION_MAX_ROOTS_def
      GRAPH_REPUTATION_MAX_NODES_def GRAPH_REPUTATION_MAX_EDGES_def repWord_good repAddress_good network_letters
      repWord_good [of "CHR ''d''", unfolded goodWord_def, THEN conjunct1] repWord_good [of "CHR ''d''", unfolded goodWord_def, THEN conjunct2])

lemma network_fits: "cs = ''ab'' \<or> cs = ''ba'' \<Longrightarrow> fitsWords (sampleNetwork cs)"
  by (auto simp: fitsWords_def fitsBytes_def sampleNetwork_def sampleRepNode_def sampleRepEdge_def)

lemma network_returns:
  assumes "cs = ''ab'' \<or> cs = ''ba''"
  obtains r where "computeGraphReputation exampleViem plainChecks (sampleNetwork cs) = Inr r"
  using reputation_returns_iff [OF network_bytes] network_valid [OF assms] network_fits [OF assms] by blast

theorem reputation_total_and_conserving_witness:
  "\<exists>r. computeGraphReputation exampleViem plainChecks (sampleNetwork ''ab'') = Inr r \<and>
     sumOf gsScore (goScores r) = GRAPH_REPUTATION_SCALE \<and> length (goScores r) = 2"
proof -
  obtain r where r: "computeGraphReputation exampleViem plainChecks (sampleNetwork ''ab'') = Inr r" using network_returns by blast
  from reputation_total_and_conserving [OF network_bytes, of "sampleNetwork ''ab''"] r
  have m: "mset (map gsLineageId (goScores r)) = mset (map gnLineageId (giNodes (sampleNetwork ''ab'')))"
    and t: "sumOf gsScore (goScores r) = GRAPH_REPUTATION_SCALE" by blast+
  have "length (goScores r) = 2" using mset_eq_length [OF m] by (simp add: sampleNetwork_def)
  then show ?thesis using r t by blast
qed

theorem reputation_converges_witness:
  "\<exists>r. computeGraphReputation exampleViem plainChecks (sampleNetwork ''ab'') = Inr r \<and> goConverged r \<and> goResidual r \<le> 2000000000"
proof -
  obtain r where r: "computeGraphReputation exampleViem plainChecks (sampleNetwork ''ab'') = Inr r" using network_returns by blast
  then show ?thesis using reputation_converges [OF network_bytes r] by blast
qed

lemma sumOf_positive: "0 < sumOf f xs \<Longrightarrow> \<exists>x \<in> set xs. 0 < (f x :: int)"
  by (induction xs) (auto simp: not_less, fastforce)

lemma network_ingress:
  assumes r: "computeGraphReputation exampleViem plainChecks (sampleNetwork ''ab'') = Inr r"
  obtains s x m where "s \<in> set (goScores r)" and "(x, m) \<in> set (gsRootIngress s)" and "0 < m"
proof -
  have sums: "sumOf gsScore (goScores r) = GRAPH_REPUTATION_SCALE"
    and each: "\<forall>s \<in> set (goScores r). gsScore s = sumOf snd (gsRootIngress s)"
    using reputation_facts [OF network_bytes r] by blast+
  then obtain s where s: "s \<in> set (goScores r)" "0 < gsScore s"
    using sumOf_positive [of gsScore "goScores r"] by (auto simp: GRAPH_REPUTATION_SCALE_def)
  then obtain e where "e \<in> set (gsRootIngress s)" "0 < snd e" using each sumOf_positive [of snd "gsRootIngress s"] by auto
  then show thesis using that [of s "fst e" "snd e"] s(1) by simp
qed

theorem reputation_rooted_witness:
  "\<exists>r. computeGraphReputation exampleViem plainChecks (sampleNetwork ''ab'') = Inr r \<and>
     (\<exists>s x m. s \<in> set (goScores r) \<and> (x, m) \<in> set (gsRootIngress s) \<and> 0 < m \<and> reaches (sampleNetwork ''ab'') x (gsLineageId s))"
proof -
  obtain r where r: "computeGraphReputation exampleViem plainChecks (sampleNetwork ''ab'') = Inr r" using network_returns by blast
  from network_ingress [OF r] obtain s x m where s: "s \<in> set (goScores r)" "(x, m) \<in> set (gsRootIngress s)" "0 < m" .
  from reputation_rooted [OF network_bytes r s] show ?thesis using r s by blast
qed

theorem reputation_paths_strongest_witness:
  "\<exists>r. computeGraphReputation exampleViem plainChecks (sampleNetwork ''ab'') = Inr r \<and>
     (\<exists>s p. s \<in> set (goScores r) \<and> p \<in> set (gsPaths s) \<and> gsLineageId s = repWord (CHR ''b'') \<and>
        600000000000000000 \<le> gpStrength p \<and> chainOf (sampleNetwork ''ab'') p (repWord (CHR ''b'')))"
proof -
  let ?n = "sampleNetwork ''ab''"
  obtain r where r: "computeGraphReputation exampleViem plainChecks ?n = Inr r" using network_returns by blast
  have "mset (map gsLineageId (goScores r)) = mset (map gnLineageId (giNodes ?n))" using reputation_facts [OF network_bytes r] by blast
  from mset_eq_setD [OF this] have "repWord (CHR ''b'') \<in> gsLineageId ` set (goScores r)"
    by (simp add: sampleNetwork_def sampleRepNode_def)
  then obtain s where s: "s \<in> set (goScores r)" "gsLineageId s = repWord (CHR ''b'')" by (elim imageE) simp
  have w: "walk ?n (repWord (CHR ''a'')) [sampleRepEdge] (gsLineageId s) \<and> length [sampleRepEdge] \<le> 8"
    by (simp add: s(2) sampleNetwork_def sampleRepEdge_def)
  have strength: "walkStrength (grWeight sampleRepRoot) [sampleRepEdge] = 600000000000000000"
    by (simp add: walkStrength_def sampleRepRoot_def sampleRepEdge_def GRAPH_REPUTATION_SCALE_def)
  have root: "sampleRepRoot \<in> set (giRoots ?n)" "grLineageId sampleRepRoot = repWord (CHR ''a'')"
    by (simp_all add: sampleNetwork_def sampleRepRoot_def)
  from reputation_paths_strongest [OF network_bytes r s(1)]
  have chains: "\<forall>p \<in> set (gsPaths s). chainOf ?n p (gsLineageId s)"
    and best: "\<forall>rt \<in> set (giRoots ?n). \<forall>es. walk ?n (grLineageId rt) es (gsLineageId s) \<and> length es \<le> 8 \<longrightarrow>
      (\<exists>p \<in> set (gsPaths s). gpRootLineageId p = grLineageId rt \<and> walkStrength (grWeight rt) es \<le> gpStrength p)" by (rule conjunct1, rule conjunct2)
  from bspec [OF best root(1), unfolded root(2), rule_format, OF w, unfolded strength]
  obtain p where p: "p \<in> set (gsPaths s)" "600000000000000000 \<le> gpStrength p" by blast
  have "chainOf ?n p (repWord (CHR ''b''))" using bspec [OF chains p(1)] unfolding s(2) .
  then show ?thesis using r s p by blast
qed

theorem reputation_order_independent_witness:
  "\<exists>r. computeGraphReputation exampleViem plainChecks (sampleNetwork ''ab'') = Inr r \<and>
     computeGraphReputation exampleViem plainChecks (sampleNetwork ''ba'') = Inr r"
proof -
  obtain r where r: "computeGraphReputation exampleViem plainChecks (sampleNetwork ''ab'') = Inr r" using network_returns by blast
  have same: "sameInput (sampleNetwork ''ba'') (sampleNetwork ''ab'')" by (simp add: sameInput_def sampleNetwork_def)
  have "validReputation plainChecks (sampleNetwork ''ab'')" by (rule network_valid) simp
  from reputation_order_independent [OF this same, of exampleViem] show ?thesis using r by simp
qed

end
