(* ===== verification/Spec2Isabelle.thy ===== *)
theory Spec2Isabelle
  imports WeightedProps CompositionProps WorkflowProps Commitments CidProps GraphProps ComputeProps SignerProps ContributionProps HypercertsProps NostrProps OffchainProps IndexerProps
begin

text \<open>
  Trustgraphs: a verification of its TypeScript computations.

  The product scores the accounts of a trust network from attestations on a chain, pays points for the scores, and lets
  anybody recompute what was paid.  The canonical programs run in a prover (Rust, \<open>crates/\<close>); the TypeScript modelled
  here reproduces them byte for byte in the browser (\<open>packages/frontend/lib\<close>), keeps the logs of offchain attestations
  (\<open>packages/eas-offchain-client\<close>, \<open>packages/eas-offchain-relay\<close>) and derives the referral network of the graphs
  themselves in the indexer (\<open>packages/indexer/src\<close>).  The paths below are relative to \<open>src/packages/\<close>.

  The parts and how they interact.

  \<^item> The trust graph, \<open>frontend/lib/pagerank\<close>.  \<open>computeScores\<close> (\<open>compute.ts\<close>) folds the attestations into the current
    graph (\<open>reconcile.ts\<close>), ranks it (\<open>pagerank.ts\<close>), turns scores into points (\<open>distribute.ts\<close>), commits to them by a
    Merkle root (\<open>merkle.ts\<close>) and by a content identifier of a JSON blob (\<open>cid.ts\<close>), and encodes the journal
    (\<open>encode.ts\<close>).  \<open>signer.ts\<close> selects the owners of a Safe from the scores, \<open>simulate.ts\<close> feeds a form into the pipeline.
  \<^item> The weighted prior, \<open>frontend/lib/weighted-prior/core.ts\<close>: the same graph with the standing of every account endowed
    by a prior that a byte manifest carries, and a ranker that conserves it.
  \<^item> The composition, \<open>frontend/lib/composition\<close>: \<open>core.ts\<close> splits a pool between source programs and adds up their
    outputs, \<open>workflow.ts\<close> is the state machine of its signing and the replay of its versions.
  \<^item> The contributions, \<open>frontend/lib/contributions\<close>: claims of work, responses and valuations; the reputation of the
    raters comes from the trust graph, and the points are handed out by \<open>distribute.ts\<close>.
  \<^item> The certificate and the workspace programs, \<open>frontend/lib/hypercerts/recompute.ts\<close> and
    \<open>frontend/lib/nostr-workspace/recompute.ts\<close>: they build a weighted graph of nodes, from served edges or from signed
    events, and rank and commit to it by the functions of the trust graph.
  \<^item> The offchain attestations: the client writes a log of attestations as bytes, folds it to a head, signs and drafts
    (\<open>eas-offchain-client/src\<close>), and the relay checks a submitted bundle, stores it with a quorum and anchors its head on
    the chain (\<open>eas-offchain-relay/src\<close>).
  \<^item> The referral network, \<open>indexer/src\<close>: \<open>graph-lineage-shared.ts\<close> decides which endorsements count and keeps their
    budgets, \<open>graph-reputation.ts\<close> computes from such referrals the reputation of each graph.

  Which theory models what.

  \<^item> \<open>Prelude\<close>: thrown errors as the left values of a sum (\<open>result\<close>, chained by \<open>bindE\<close>, \<open>foldE\<close>, \<open>mapE\<close>), \<open>bigint\<close>
    arithmetic on \<open>int\<close> with division by zero as an error, insertion-ordered maps and sets (\<open>jmap\<close>: an association list with
    distinct keys, in which an update keeps the place), the stable \<open>sort\<close> with a comparator (\<open>sortBy\<close>), strings by code
    units.  Its locales: \<open>keyed_comparator\<close>, the comparators that follow a key, interpreted on each comparator of the
    program; \<open>map_interface\<close>, interpreted on \<open>jmap\<close>.
  \<^item> \<open>Words\<close>, \<open>Types\<close>, \<open>Merkle\<close>, \<open>Encode\<close>: \<open>words.ts\<close> with \<open>fixed.ts\<close>, and the files of these names.  \<open>Merkle\<close> has the
    locale \<open>pair_hash\<close> of a commutative hash, interpreted on \<open>hashPair\<close>.  \<open>Commitments\<close>: their properties.
  \<^item> \<open>Reconcile\<close>, \<open>GraphProps\<close>: \<open>reconcile.ts\<close> and the specification of its graph by the last attestation of a pair.
  \<^item> \<open>Rank\<close>: \<open>pagerank.ts\<close>.  \<open>RankBfs\<close>, \<open>RankFlow\<close>, \<open>RankNormalize\<close>, \<open>RankRows\<close>, \<open>RankRun\<close>, \<open>RankSpec\<close>, \<open>RankProps\<close>: the
    search, the push kernel, the normalization, the rows, whole runs, the pull formula, the properties.
  \<^item> \<open>Apportion\<close>: the largest-remainder shares without sorting and the locale \<open>apportionment\<close> of what an implementation
    promises; interpreted on the three implementations \<open>distributePoints\<close> (\<open>Distribute\<close>), the in-place \<open>hamilton\<close> of the
    composition (\<open>Hamilton\<close>) and \<open>apportion\<close> of the weighted prior (\<open>WeightedPriors\<close>).
  \<^item> \<open>Cid\<close>, \<open>CidProps\<close>, \<open>Compute\<close>, \<open>ComputeProps\<close>, \<open>Signer\<close>, \<open>SignerProps\<close>: \<open>cid.ts\<close>, \<open>compute.ts\<close> with \<open>simulate.ts\<close>,
    \<open>signer.ts\<close>.
  \<^item> \<open>WeightedPrior\<close>: \<open>weighted-prior/core.ts\<close>; \<open>WeightedPriors\<close>, \<open>WeightedRank\<close>, \<open>WeightedManifest\<close>, \<open>WeightedCompute\<close>,
    \<open>WeightedProps\<close>: the prior, the ranker, the manifest, the computation, the properties.
  \<^item> \<open>Hamilton\<close>, \<open>Composition\<close>, \<open>Preview\<close>: \<open>composition/core.ts\<close>; \<open>CompositionLemmas\<close>, \<open>CompositionChecks\<close>,
    \<open>CompositionProps\<close>.  \<open>Workflow\<close>, \<open>WorkflowRun\<close>, \<open>WorkflowProps\<close>: \<open>composition/workflow.ts\<close> as the step relation
    \<open>workflowStep\<close>, and the replay that \<open>weighted-prior/workflow.ts\<close> shares.
  \<^item> \<open>ContributionRecords\<close>, \<open>Contributions\<close>: \<open>types.ts\<close>, \<open>kind.ts\<close>, \<open>records.ts\<close>, \<open>params.ts\<close>, \<open>reconcile.ts\<close>,
    \<open>eligibility.ts\<close>, \<open>stage2.ts\<close>, \<open>compute.ts\<close>, \<open>projection.ts\<close>; \<open>ContributionPayloads\<close>, \<open>ContributionAbi\<close>,
    \<open>ContributionState\<close>, \<open>ContributionScores\<close>, \<open>ContributionWeights\<close>, \<open>ContributionRun\<close>, \<open>ContributionProps\<close>: lemmas.
  \<^item> \<open>NodeGraph\<close>, \<open>Hypercerts\<close>, \<open>HypercertsProps\<close>; \<open>JsNumbers\<close> (the text of integers), \<open>NostrEvents\<close>, \<open>NostrSemantics\<close>,
    \<open>NostrEvidence\<close>, \<open>NostrJobs\<close>, \<open>NostrFlow\<close>, \<open>NostrProps\<close>.
  \<^item> \<open>OffchainBytes\<close>, \<open>OffchainCodec\<close>, \<open>OffchainBundles\<close>: the client; \<open>Relay\<close>: the relay, as a program over a memory and a
    world whose calls may throw.  \<open>OffchainReading\<close> has the locale \<open>item_codec\<close> of a writer and a reader of one item,
    interpreted on the entries and the attestations of a payload.  \<open>OffchainLog\<close>, \<open>OffchainHeads\<close>, \<open>RelayRuns\<close>,
    \<open>OffchainTotal\<close>, \<open>OffchainExamples\<close>, \<open>OffchainProps\<close>: specification, runs, properties.
  \<^item> \<open>GraphLineage\<close>: \<open>graph-lineage-shared.ts\<close>.  \<open>Reputation\<close>: \<open>graph-reputation.ts\<close>; \<open>ReputationShares\<close>,
    \<open>ReputationFlow\<close>, \<open>ReputationNetwork\<close>, \<open>ReputationBounds\<close>, \<open>ReputationResult\<close>, \<open>ReputationPaths\<close>, \<open>IndexerProps\<close>.
  \<^item> \<open>Instance\<close>: concrete functions for the packages, on which the hypotheses of the properties are shown to hold.

  How state and operations correspond.  An interface of the source is a record with the fields in the source's order, a
  prefix telling the records apart; a \<open>Map\<close> or \<open>Set\<close> is a \<open>jmap\<close> or a distinct list, so that the order of iteration is the
  program's; an object changed in place is the value returned; a loop over a list is a fold, one with an early exit a
  recursive function; a \<open>throw\<close> is \<open>Inl\<close>.  Numbers the source keeps as \<open>bigint\<close> are \<open>int\<close>; those bounded by 256 bits go
  through the checked operations of \<open>fixed.ts\<close>.  The 32-bit accumulator of the base-32 encoder, and bytes, are words.

  Specifications over a log are stated by position: \<open>laterEvent es i j\<close> orders the positions of the log as given, by
  timestamp and then by position, and \<open>inForce\<close>, \<open>liveAt\<close> and \<open>newestEvent\<close> say which record decides without mentioning the
  sort or the fold of the program.

  What the groups of lemmas show.  Trust graph: when a seed is given, only accounts joined to a seed are scored and paid
  (without seeds the program ranks every account alike), the pipeline is total and pays out the pool, the graph is that of
  the attestations in force, the push kernel equals the pull formula, the search
  finds shortest chains, commitments bind what they commit to.  Weighted prior, contributions, composition, certificates,
  workspace: totality on the inputs the guards admit, conservation of the pool to the unit, round trips of the manifests,
  last-write semantics, evidence for and bounds on what is derived.  The preview of a
  composition with its leave-one-out metrics, the default, can throw where the one without them returns; when it does is
  stated with the property, and an example is proved.  Workflow: what is submitted was reviewed and
  simulated, and a session can always be completed.  Offchain: the codec is a bijection on plain payloads, validation
  decides the specification of a log, a successful submission is stored and anchored and extends the history, an admitted
  one lands, the limiter is exact.  Referrals: budgets are kept; reputation is total, conserving, rooted, independent of
  the order of its input, with the strongest paths, and always within its error bound.

  The packages and the outside world are parameters.  \<open>viem\<close>: digests and encoders; its laws \<open>concatLaw\<close>, \<open>toHexLaw\<close>,
  \<open>padLaw\<close>, \<open>digestLaw\<close>, \<open>bytesLaw\<close>, \<open>shaLaw\<close>, \<open>abiLaw\<close>, \<open>abiWordLaw\<close>, \<open>bytes32Law\<close>, \<open>bytesWordLaw\<close>, \<open>shaWordLaw\<close> and
  \<open>hexBytesLaw\<close> say how wide a result is and that concatenation concatenates.  No law says that a digest has no
  collisions: a property that needs it says for which two inputs.  \<open>viem_checks\<close>: \<open>isAddress\<close> and \<open>isHex\<close>.  \<open>eas_kit\<close> with
  \<open>checksumLaw\<close>, \<open>addressLaw\<close>, \<open>addressAbiLaw\<close>, \<open>signLaw\<close>; \<open>wallet_signer\<close> with \<open>walletLaw\<close>; the stores and the chain of
  the relay are functions of a world.  Each property with such a hypothesis has a witness on \<open>Instance\<close>.

  Bounds and fuel.  No definition needs fuel to be total: the loops of the source run over lists or count down
  (\<open>max_iterations\<close> and the 128 iterations and 8 passes of the reputation are their own bounds), and the work list of the
  search has a termination proof.  The reputation's error bound of 2000000000 is proved for at most 16 roots, 256 nodes and
  4096 referrals, the limits its validation checks: the exact flow contracts by 17/20, which leaves less than 1.85e9 of the
  initial distance, and the rounding of each iteration, which the later ones contract too, adds less than 1122320.

  Not modelled.

  \<^item> React pages, hooks, API clients, forms and styles of the front end; the HTTP interface and the event handlers of the
    indexer: rendering, input and output, and copies of events into database tables.  The computations they call are modelled.
  \<^item> \<open>composition-shared.ts\<close>, \<open>weighted-prior-shared.ts\<close> and \<open>trust-reconcile.ts\<close> of the indexer: second implementations
    of computations modelled here, over database rows.
  \<^item> Encryption and local storage of a draft (\<open>drafts.ts\<close>), JSON import and export of bundles, the HTTP client of one store
    (\<open>ipfs.ts\<close>), the server process and the chain client of the relay: browser cryptography, text and input-output.
  \<^item> Floating-point numbers: the conversion of form fields in \<open>simulate.ts\<close> is a parameter, and the metrics of a
    composition are over an abstract number type whose operations are a parameter.
  \<^item> \<open>contracts.ts\<close> and the generated ABIs: calldata encoded by viem.  Solidity and Rust: other languages; the Rust programs
    are what the TypeScript mirrors.
\<close>

end
